(* ===== verification/Kernel_Prelude.thy ===== *)
theory Kernel_Prelude
  imports Main "HOL-Library.Word" "HOL-Library.Monad_Syntax"
begin

unbundle bit_operations_syntax

text \<open>
  What the kernel theories share: the machine types of \<open>kernel/inc/types.h\<close>, the address-space
  layout of \<open>libc/inc/rho/arch.h\<close>, the page flags of \<open>kernel/inc/space.h\<close>, and the generic
  lemmas on linked lists in a store and on the fields of a 32-bit address.

  Conventions. A C function that may stop the machine returns an \<open>option\<close>: \<^const>\<open>None\<close> is
  \<open>debug_panic\<close>, a fault in kernel mode (a load or store through an unmapped address or a null
  pointer, for which \<open>fault_page\<close> panics) or a loop that does not end. A pointer is the 32-bit
  address itself, with \<open>0\<close> for \<open>NULL\<close>; the objects a component owns are a partial function from
  addresses to records.
\<close>

section \<open>Machine types and constants\<close>

type_synonym u8 = "8 word"
type_synonym u16 = "16 word"
type_synonym u32 = "32 word"
type_synonym u64 = "64 word"

type_synonym frame_t = u32
type_synonym ptr = u32

abbreviation (input) PAGESZ :: u32 where "PAGESZ \<equiv> 0x1000"
abbreviation (input) SEGSZ :: u32 where "SEGSZ \<equiv> 0x400000"

abbreviation (input) TMP_DST :: u32 where "TMP_DST \<equiv> 0xFF000000"
abbreviation (input) TMP_SRC :: u32 where "TMP_SRC \<equiv> 0xFF010000"
abbreviation (input) TMP_MAP :: u32 where "TMP_MAP \<equiv> 0xFF800000"
abbreviation (input) PGE_MAP :: u32 where "PGE_MAP \<equiv> 0xFFC00000"

abbreviation (input) SSPACE :: u32 where "SSPACE \<equiv> 0x80000000"
abbreviation (input) ESPACE :: u32 where "ESPACE \<equiv> 0xC0000000"
abbreviation (input) KSPACE :: u32 where "KSPACE \<equiv> 0xF0000000"

abbreviation (input) KERNEL_HEAP :: u32 where "KERNEL_HEAP \<equiv> 0xF1000000"
abbreviation (input) KERNEL_HEAP_END :: u32 where "KERNEL_HEAP_END \<equiv> 0xF8000000"
abbreviation (input) KERNEL_BOOT :: u32 where "KERNEL_BOOT \<equiv> 0"
abbreviation (input) KERNEL_BOOT_END :: u32 where "KERNEL_BOOT_END \<equiv> 0x00800000"

abbreviation (input) PF_PRES :: u32 where "PF_PRES \<equiv> 0x1"
abbreviation (input) PF_RW :: u32 where "PF_RW \<equiv> 0x2"
abbreviation (input) PF_USER :: u32 where "PF_USER \<equiv> 0x4"
abbreviation (input) PF_LOCK :: u32 where "PF_LOCK \<equiv> 0x200"
abbreviation (input) PF_LINK :: u32 where "PF_LINK \<equiv> 0x800"
abbreviation (input) PF_MASK :: u32 where "PF_MASK \<equiv> 0x0E7F"

definition page_fmt :: "u32 \<Rightarrow> u32 \<Rightarrow> u32" where
  "page_fmt base flags = (base AND 0xFFFFF000) OR (flags AND PF_MASK)"

definition page_ufmt :: "u32 \<Rightarrow> u32" where
  "page_ufmt page = page AND 0xFFFFF000"

section \<open>Counted loops\<close>

text \<open>A \<open>for\<close> loop over the values of its variable; \<^const>\<open>None\<close> in an iteration stops it.\<close>

primrec for_list :: "('i \<Rightarrow> 's \<Rightarrow> 's option) \<Rightarrow> 'i list \<Rightarrow> 's \<Rightarrow> 's option" where
  "for_list f [] s = Some s"
| "for_list f (x # xs) s = do { s \<leftarrow> f x s; for_list f xs s }"

lemma for_list_append: "for_list f (xs @ ys) s = do { s \<leftarrow> for_list f xs s; for_list f ys s }"
  by (induction xs arbitrary: s) (auto split: Option.bind_split)

lemma for_list_keeps:
  assumes "\<And>x s s'. x \<in> set xs \<Longrightarrow> P s \<Longrightarrow> f x s = Some s' \<Longrightarrow> P s'"
  shows "P s \<Longrightarrow> for_list f xs s = Some s' \<Longrightarrow> P s'"
  using assms
proof (induction xs arbitrary: s)
  case (Cons x xs)
  then obtain s1 where "f x s = Some s1" "for_list f xs s1 = Some s'" by (cases "f x s") auto
  then show ?case using Cons.IH [of s1] Cons.prems(1,3) by (metis list.set_intros)
qed simp

lemma for_list_cong:
  "(\<And>x s. x \<in> set xs \<Longrightarrow> f x s = g x s) \<Longrightarrow> for_list f xs s = for_list g xs s"
  by (induction xs arbitrary: s) auto

section \<open>Linked lists in a store\<close>

text \<open>
  \<open>chain nx p qs\<close>: following \<open>nx\<close> from the pointer \<open>p\<close> visits exactly the cells \<open>qs\<close> and ends
  at the null pointer. \<open>nx q = None\<close> is a cell that is not allocated. Every linked list of the
  kernel (free frames, hash chains, heap buckets, the scheduling queue) is such a chain.
\<close>

primrec chain :: "(ptr \<Rightarrow> ptr option) \<Rightarrow> ptr \<Rightarrow> ptr list \<Rightarrow> bool" where
  "chain nx p [] \<longleftrightarrow> p = 0"
| "chain nx p (q # qs) \<longleftrightarrow> q = p \<and> p \<noteq> 0 \<and> (\<exists>n. nx p = Some n \<and> chain nx n qs)"

primrec dchain :: "(ptr \<Rightarrow> (ptr \<times> ptr) option) \<Rightarrow> ptr \<Rightarrow> ptr \<Rightarrow> ptr list \<Rightarrow> bool" where
  "dchain np pr p [] \<longleftrightarrow> p = 0"
| "dchain np pr p (q # qs) \<longleftrightarrow> q = p \<and> p \<noteq> 0 \<and> (\<exists>n. np p = Some (n, pr) \<and> dchain np p n qs)"

named_theorems chain_simps \<open>rewrite rules for linked lists\<close>

lemma chain_null [simp, chain_simps]: "chain nx 0 qs \<longleftrightarrow> qs = []"
  by (cases qs) auto

lemma chain_nonnull: "p \<noteq> 0 \<Longrightarrow>
  chain nx p qs \<longleftrightarrow> (\<exists>n rs. qs = p # rs \<and> nx p = Some n \<and> chain nx n rs)"
  by (cases qs) auto

lemma chain_cong: "(\<And>q. q \<in> set qs \<Longrightarrow> nx q = nx' q) \<Longrightarrow> chain nx p qs \<longleftrightarrow> chain nx' p qs"
  by (induction qs arbitrary: p) auto

lemma chain_upd [simp, chain_simps]: "x \<notin> set qs \<Longrightarrow> chain (nx(x := v)) p qs \<longleftrightarrow> chain nx p qs"
  by (rule chain_cong) auto

lemma chain_unique: "chain nx p qs \<Longrightarrow> chain nx p rs \<Longrightarrow> qs = rs"
  by (induction qs arbitrary: p rs) (auto simp: chain_nonnull)

lemma chain_append:
  "chain nx p (qs @ r # rs) \<Longrightarrow> r \<noteq> 0 \<and> chain nx r (r # rs)"
  by (induction qs arbitrary: p) auto

lemma chain_distinct: "chain nx p qs \<Longrightarrow> distinct qs"
proof (induction qs arbitrary: p)
  case (Cons q qs)
  have "q \<notin> set qs"
  proof
    assume "q \<in> set qs"
    then obtain us vs where qs: "qs = us @ q # vs" by (auto simp: in_set_conv_decomp)
    with Cons.prems have "chain nx q (q # vs)" and "chain nx q (q # qs)"
      by (auto dest: chain_append)
    then show False using chain_unique [of nx q "q # vs" "q # qs"] qs by simp
  qed
  with Cons show ?case by auto
qed simp

lemma chain_nonzero: "chain nx p qs \<Longrightarrow> 0 \<notin> set qs"
  by (induction qs arbitrary: p) auto

lemma chain_alloc: "chain nx p qs \<Longrightarrow> q \<in> set qs \<Longrightarrow> nx q \<noteq> None"
  by (induction qs arbitrary: p) auto

lemma chain_hd: "chain nx p qs \<Longrightarrow> p = (case qs of [] \<Rightarrow> 0 | q # _ \<Rightarrow> q)"
  by (cases qs) auto

lemma chain_snoc:
  "chain nx p q \<Longrightarrow> q \<noteq> [] \<Longrightarrow> x \<notin> set q \<Longrightarrow> x \<noteq> 0 \<Longrightarrow> chain (nx(last q := Some x, x := Some 0)) p (q @ [x])"
proof (induction q arbitrary: p)
  case (Cons y q)
  then obtain n where n: "y = p" "p \<noteq> 0" "nx p = Some n" "chain nx n q" by auto
  show ?case
  proof (cases "q = []")
    case True
    then show ?thesis using n Cons.prems by simp
  next
    case False
    have "y \<noteq> last q" using chain_distinct [OF Cons.prems(1)] False by auto
    then show ?thesis using n Cons.IH [OF n(4) False] Cons.prems(3,4) False by auto
  qed
qed simp

lemma chain_cut:
  "chain nx p (us @ a # b # vs) \<Longrightarrow> nx b = Some n \<Longrightarrow> chain (nx(a := Some n)) p (us @ a # vs)"
proof (induction us arbitrary: p)
  case Nil
  then have "a \<notin> set vs" using chain_distinct [OF Nil.prems(1)] by auto
  then have "chain (nx(a := Some n)) n vs \<longleftrightarrow> chain nx n vs" by (rule chain_upd)
  then show ?case using Nil by (simp del: chain_upd fun_upd_apply add: fun_upd_same)
next
  case (Cons u us)
  then have "u \<noteq> a" using chain_distinct [OF Cons.prems(1)] by auto
  then show ?case using Cons by auto
qed

lemma chain_last: "chain nx p q \<Longrightarrow> q \<noteq> [] \<Longrightarrow> nx (last q) = Some 0"
proof (induction q arbitrary: p)
  case (Cons x q)
  then show ?case by (cases "q = []") auto
qed simp

lemma chain_link: "chain nx p (us @ a # b # vs) \<Longrightarrow> nx a = Some b"
  by (induction us arbitrary: p) auto

lemma dchain_chain: "dchain np pr p qs \<Longrightarrow> chain (\<lambda>q. map_option fst (np q)) p qs"
  by (induction qs arbitrary: pr p) auto

lemma dchain_null [simp, chain_simps]: "dchain np pr 0 qs \<longleftrightarrow> qs = []"
  by (cases qs) auto

lemma dchain_cong:
  "(\<And>q. q \<in> set qs \<Longrightarrow> np q = np' q) \<Longrightarrow> dchain np pr p qs \<longleftrightarrow> dchain np' pr p qs"
  by (induction qs arbitrary: pr p) auto

lemma dchain_hd: "dchain np pr p qs \<Longrightarrow> p = (case qs of [] \<Rightarrow> 0 | q # _ \<Rightarrow> q)"
  by (cases qs) auto

lemma dchain_distinct: "dchain np pr p qs \<Longrightarrow> distinct qs"
  by (blast dest: dchain_chain chain_distinct)

lemma dchain_nonzero: "dchain np pr p qs \<Longrightarrow> 0 \<notin> set qs"
  by (blast dest: dchain_chain chain_nonzero)

lemma dchain_alloc: "dchain np pr p qs \<Longrightarrow> q \<in> set qs \<Longrightarrow> np q \<noteq> None"
  by (induction qs arbitrary: pr p) auto

lemma dchain_neighbours:
  "dchain np pr p qs \<Longrightarrow> pr \<notin> set qs \<Longrightarrow> x \<in> set qs \<Longrightarrow> np x = Some (n, q) \<Longrightarrow>
   (n = 0 \<or> n \<in> set qs) \<and> (q = pr \<or> q \<in> set qs) \<and> n \<noteq> x \<and> q \<noteq> x"
proof (induction qs arbitrary: pr p)
  case (Cons y qs)
  then obtain m where y: "y = p" "p \<noteq> 0" "np p = Some (m, pr)" "dchain np p m qs" by auto
  have m: "m = 0 \<or> m \<in> set qs" using dchain_hd [OF y(4)] by (auto split: list.splits)
  have nin: "p \<notin> set qs" using dchain_distinct [OF Cons.prems(1)] y by simp
  show ?case
  proof (cases "x = p")
    case True
    with Cons.prems y m nin show ?thesis by auto
  next
    case False
    with Cons.IH [OF y(4) nin] Cons.prems y show ?thesis by auto
  qed
qed simp

text \<open>
  Unlinking a cell from a doubly linked list, and linking one in at the head, as the pointwise
  effect on the pair of \<open>next\<close> and \<open>prev\<close> pointers of every remaining cell.
\<close>

lemma dchain_relink:
  assumes "dchain np x n vs" and "x \<notin> set vs" and "y \<notin> set vs"
    and "\<And>z. z \<in> set vs \<Longrightarrow>
      np' z = map_option (\<lambda>(a, b). (if z = y then n else a, if z = n then y else b)) (np z)"
  shows "dchain np' y n vs"
proof (cases vs)
  case (Cons v ws)
  with assms(1) obtain m where v: "v = n" "n \<noteq> 0" "np n = Some (m, x)" "dchain np n m ws" by auto
  have nws: "n \<notin> set ws" using dchain_distinct [OF assms(1)] Cons v by simp
  have "np' n = Some (m, y)" using assms(3) assms(4) [of n] v Cons by auto
  moreover have "dchain np' n m ws"
  proof (rule dchain_cong [THEN iffD1, OF _ v(4)])
    fix z assume z: "z \<in> set ws"
    then have "z \<noteq> y" "z \<noteq> n" using assms(3) nws Cons by auto
    with assms(4) [of z] z Cons show "np z = np' z" by (cases "np z") auto
  qed
  ultimately show ?thesis using v Cons by simp
qed (use assms in simp)

lemma dchain_pull:
  assumes "dchain np pr p (us @ x # vs)" and "pr \<notin> set (us @ x # vs)" and "np x = Some (n, q)"
    and "\<And>z. z \<in> set us \<union> set vs \<Longrightarrow>
      np' z = map_option (\<lambda>(a, b). (if z = q then n else a, if z = n then q else b)) (np z)"
  shows "dchain np' pr (if us = [] then n else p) (us @ vs) \<and> q = (if us = [] then pr else last us)"
  using assms
proof (induction us arbitrary: pr p)
  case Nil
  then have "p = x" "q = pr" "dchain np x n vs" "x \<notin> set vs"
    using dchain_distinct [OF Nil.prems(1)] by auto
  with Nil.prems show ?case using dchain_relink [of np x n vs pr np'] by auto
next
  case (Cons u us)
  from Cons.prems(1) obtain m where
    u: "p = u" "u \<noteq> 0" "np u = Some (m, pr)" "dchain np u m (us @ x # vs)" by auto
  have dist: "distinct (u # us @ x # vs)" using dchain_distinct [OF Cons.prems(1)] by simp
  have IH: "dchain np' u (if us = [] then n else m) (us @ vs) \<and> q = (if us = [] then u else last us)"
    by (rule Cons.IH [OF u(4)]) (use dist Cons.prems in auto)
  have "n \<in> insert 0 (set vs)"
  proof -
    from u(4) Cons.prems(3) have "n = (case vs of [] \<Rightarrow> 0 | v # _ \<Rightarrow> v)"
      by (induction us arbitrary: m u) (auto dest: dchain_hd)
    then show ?thesis by (auto split: list.splits)
  qed
  then have "n \<noteq> u" using dist u(2) by auto
  then have "np' u = Some (if us = [] then n else m, pr)"
    using Cons.prems(4) [of u] u(3) IH dist by auto
  then show ?case using IH u by auto
qed

lemma dchain_push:
  assumes "dchain np 0 p qs" and "x \<notin> set qs" and "x \<noteq> 0" and "np' x = Some (p, 0)"
    and "\<And>z. z \<in> set qs \<Longrightarrow> np' z = map_option (\<lambda>(a, b). (a, if z = p then x else b)) (np z)"
  shows "dchain np' 0 x (x # qs)"
proof -
  have "dchain np' x p qs"
  proof (rule dchain_relink [OF assms(1) _ assms(2)])
    show "0 \<notin> set qs" using assms(1) by (rule dchain_nonzero)
    fix z assume "z \<in> set qs"
    with assms(2) assms(5) [of z] show
      "np' z = map_option (\<lambda>(a, b). (if z = x then p else a, if z = p then x else b)) (np z)"
      by (cases "np z") auto
  qed
  with assms show ?thesis by simp
qed

section \<open>Options\<close>

lemma bind_eq_Some [simp]: "Option.bind x f = Some y \<longleftrightarrow> (\<exists>a. x = Some a \<and> f a = Some y)"
  by (cases x) auto

section \<open>Words\<close>

lemma unat_max_u32: "unat (- 1 :: u32) = 4294967295"
  by (simp add: unsigned_minus_1_eq_mask mask_eq_exp_minus_1)

lemma page_number: "b < 0x100000 \<Longrightarrow> b * PAGESZ div PAGESZ = b"
proof -
  assume "b < 0x100000"
  then have "unat b < 0x100000" by (simp add: word_less_nat_alt)
  then have "unat (b * PAGESZ) = unat b * 0x1000" using unat_mult_lem [of b "0x1000::u32"] by simp
  then show ?thesis by (simp add: word_unat_eq_iff unat_div)
qed

lemma less_pred_iff: "0 < n \<Longrightarrow> m < n - 1 \<longleftrightarrow> m < n \<and> m \<noteq> n - 1" for n m :: "'a::len word"
proof -
  assume "0 < n"
  then have "unat (n - 1) = unat n - 1" "0 < unat n" by (simp_all add: unat_minus_one unat_gt_0 word_gt_0)
  then show ?thesis by (auto simp: word_less_nat_alt word_unat_eq_iff)
qed

lemma pred_less: "0 < n \<Longrightarrow> n - 1 < n" for n :: "'a::len word"
  using unat_minus_one [of n] by (simp add: word_less_nat_alt word_gt_0 unat_gt_0)

section \<open>Addresses\<close>

text \<open>An allocator that takes the first address that is not in use, an instance for what the models assume of \<open>malloc\<close>.\<close>

definition first_free :: "(ptr \<Rightarrow> 'a option) \<Rightarrow> ptr" where
  "first_free ds = (case filter (\<lambda>i. ds (of_nat i) = None) [1..<2 ^ 25 + 1] of [] \<Rightarrow> 0 | i # _ \<Rightarrow> of_nat i)"

lemma first_free_ok:
  assumes "card (dom ds) < 2 ^ 25"
  shows "first_free ds \<noteq> 0 \<and> ds (first_free ds) = None"
proof -
  let ?is = "filter (\<lambda>i. ds (of_nat i) = None) [1..<2 ^ 25 + 1]"
  have u: "unat (of_nat i :: ptr) = i" if "i < 2 ^ 25 + 1" for i using that by (simp add: unat_of_nat take_bit_nat_eq_self)
  have inj: "inj_on (of_nat :: nat \<Rightarrow> ptr) {1..<2 ^ 25 + 1}" by (rule inj_on_inverseI [of _ unat]) (use u in simp)
  have "?is \<noteq> []"
  proof
    assume e: "?is = []"
    have "of_nat ` {1..<2 ^ 25 + 1} \<subseteq> dom ds" using e by (auto simp: filter_empty_conv dom_def)
    then have "card ((of_nat :: nat \<Rightarrow> ptr) ` {1..<2 ^ 25 + 1}) \<le> card (dom ds)" by (rule card_mono [rotated]) simp
    then show False using assms card_image [OF inj] by simp
  qed
  then obtain i js where i: "?is = i # js" by (cases ?is) auto
  then have "i \<in> set ?is" by simp
  then have "1 \<le> i" "i < 2 ^ 25 + 1" "ds (of_nat i) = None" by simp_all
  moreover have "first_free ds = of_nat i" using i by (simp add: first_free_def)
  moreover have "unat (of_nat i :: ptr) = i" using u \<open>i < 2 ^ 25 + 1\<close> .
  ultimately show ?thesis by auto
qed

end
