(* ===== verification/Frame.thy ===== *)
theory Frame
  imports Kernel_Prelude
begin

text \<open>
  The physical frame allocator, \<open>kernel/mem/frame.c\<close>: a free list and a hash table of allocated
  frames, both linked lists of \<open>struct frame_struct\<close> cells, with a small emergency pool below
  512 KB. The model keeps the cells and their \<open>next\<close>/\<open>prev\<close> pointers; the lemmas relate it to
  an abstract allocator, a list of free page numbers and a map from allocated page numbers to
  reference counts. (\<open>frame_add\<close> needs the kernel heap and \<open>frame_copy\<close> the page tables; they are
  in the theories \<open>Kernel_Heap\<close> and \<open>Address_Space\<close>.)
\<close>

section \<open>The allocator\<close>

record frame_struct =
  fs_next :: ptr
  fs_prev :: ptr
  fs_refc :: u32
  fs_addr :: u32

record frame_state =
  frame_mem :: "ptr \<rightharpoonup> frame_struct"
  frame_list :: ptr
  frame_hash :: "u8 \<Rightarrow> ptr"
  out_of_memory :: bool
  oom_pool :: u32

text \<open>A store through a pointer to a \<open>frame_struct\<close>; faults on a pointer to no cell.\<close>

definition fs_upd ::
  "'a frame_state_scheme \<Rightarrow> ptr \<Rightarrow> (frame_struct \<Rightarrow> frame_struct) \<Rightarrow> 'a frame_state_scheme option"
where
  "fs_upd s p f = (case frame_mem s p of
     None \<Rightarrow> None
   | Some fs \<Rightarrow> Some (s\<lparr>frame_mem := (frame_mem s)(p \<mapsto> f fs)\<rparr>))"

text \<open>The loop of \<open>frame_find\<close>; a cyclic list would not return.\<close>

partial_function (option) frame_find_loop :: "(ptr \<rightharpoonup> frame_struct) \<Rightarrow> ptr \<Rightarrow> u32 \<Rightarrow> ptr option" where
  "frame_find_loop m list a =
     (if list = 0 then Some 0
      else Option.bind (m list) (\<lambda>fs.
        if fs_addr fs = a then Some list else frame_find_loop m (fs_next fs) a))"

definition frame_find :: "'a frame_state_scheme \<Rightarrow> frame_t \<Rightarrow> ptr option" where
  "frame_find s frame =
     frame_find_loop (frame_mem s) (frame_hash s (ucast (frame div PAGESZ AND 0xFF))) (frame div PAGESZ)"

definition frame_pull :: "'a frame_state_scheme \<Rightarrow> ptr \<Rightarrow> 'a frame_state_scheme option" where
  "frame_pull s p = do {
     fs \<leftarrow> frame_mem s p;
     s \<leftarrow> (if fs_prev fs \<noteq> 0 then fs_upd s (fs_prev fs) (fs_next_update (\<lambda>_. fs_next fs))
           else Some (s\<lparr>frame_hash := (frame_hash s)(ucast (fs_addr fs AND 0xFF) := fs_next fs)\<rparr>));
     if fs_next fs \<noteq> 0 then fs_upd s (fs_next fs) (fs_prev_update (\<lambda>_. fs_prev fs)) else Some s
   }"

definition frame_free :: "'a frame_state_scheme \<Rightarrow> frame_t \<Rightarrow> 'a frame_state_scheme option" where
  "frame_free s frame = do {
     p \<leftarrow> frame_find s frame;
     if p = 0 then Some s
     else do {
       fs \<leftarrow> frame_mem s p;
       if fs_refc fs = 1 then do {
         s \<leftarrow> frame_pull s p;
         s \<leftarrow> fs_upd s p (fs_prev_update (\<lambda>_. 0));
         s \<leftarrow> fs_upd s p (fs_next_update (\<lambda>_. frame_list s));
         s \<leftarrow> (if frame_list s \<noteq> 0 then fs_upd s (frame_list s) (fs_prev_update (\<lambda>_. p)) else Some s);
         Some (s\<lparr>frame_list := p, out_of_memory := False\<rparr>)
       }
       else fs_upd s p (fs_refc_update (\<lambda>r. r - 1))
     }
   }"

function frame_new :: "'a frame_state_scheme \<Rightarrow> (frame_t \<times> 'a frame_state_scheme) option" where
  "frame_new s =
     (if out_of_memory s then
        let oom = oom_pool s - PAGESZ in
        if oom = 0 then None else Some (oom, s\<lparr>oom_pool := oom\<rparr>)
      else let p = frame_list s in
        if p = 0 then frame_new (s\<lparr>out_of_memory := True\<rparr>)
        else do {
          fs \<leftarrow> frame_mem s p;
          let s = s\<lparr>frame_list := fs_next fs\<rparr>;
          s \<leftarrow> (if frame_list s \<noteq> 0 then fs_upd s p (fs_prev_update (\<lambda>_. 0)) else Some s);
          let h = ucast (fs_addr fs AND 0xFF);
          s \<leftarrow> fs_upd s p (fs_next_update (\<lambda>_. frame_hash s h));
          s \<leftarrow> fs_upd s p (fs_prev_update (\<lambda>_. 0));
          s \<leftarrow> (if frame_hash s h \<noteq> 0 then fs_upd s (frame_hash s h) (fs_prev_update (\<lambda>_. p)) else Some s);
          let s = s\<lparr>frame_hash := (frame_hash s)(h := p)\<rparr>;
          s \<leftarrow> fs_upd s p (fs_refc_update (\<lambda>_. 1));
          Some (fs_addr fs * PAGESZ, s)
        })"
  by pat_completeness auto
termination
  by (relation "measure (\<lambda>s. if out_of_memory s then 0 else 1)") auto

declare frame_new.simps [simp del]

definition frame_ref :: "'a frame_state_scheme \<Rightarrow> frame_t \<Rightarrow> 'a frame_state_scheme option" where
  "frame_ref s frame = do {
     p \<leftarrow> frame_find s frame;
     if p = 0 then Some s else fs_upd s p (fs_refc_update (\<lambda>r. r + 1))
   }"

definition frame_refc :: "'a frame_state_scheme \<Rightarrow> frame_t \<Rightarrow> u32 option" where
  "frame_refc s frame = do {
     p \<leftarrow> frame_find s frame;
     if p \<noteq> 0 then map_option fs_refc (frame_mem s p) else Some 0
   }"

section \<open>Representation of the abstract allocator\<close>

text \<open>
  \<open>frame_lists s ps H\<close>: the cells \<open>ps\<close> are the free list and \<open>H h\<close> the chain of hash slot \<open>h\<close>;
  every cell of a chain has its slot's hash and a nonzero reference count, page numbers are below
  \<open>2\<^sup>2\<^sup>0\<close> and no page number has two cells. The \<open>prev\<close> pointers are only required of the hash
  chains: \<open>frame_new\<close> leaves a stale one in the free list.
\<close>

abbreviation nx_of :: "(ptr \<rightharpoonup> frame_struct) \<Rightarrow> ptr \<Rightarrow> ptr option" where
  "nx_of m \<equiv> (\<lambda>p. map_option fs_next (m p))"

abbreviation np_of :: "(ptr \<rightharpoonup> frame_struct) \<Rightarrow> ptr \<Rightarrow> (ptr \<times> ptr) option" where
  "np_of m \<equiv> (\<lambda>p. map_option (\<lambda>fs. (fs_next fs, fs_prev fs)) (m p))"

abbreviation cell_addr :: "'a frame_state_scheme \<Rightarrow> ptr \<Rightarrow> u32" where
  "cell_addr s p \<equiv> fs_addr (the (frame_mem s p))"

abbreviation slot :: "u32 \<Rightarrow> u8" where
  "slot a \<equiv> ucast (a AND 0xFF)"

definition frame_lists :: "'a frame_state_scheme \<Rightarrow> ptr list \<Rightarrow> (u8 \<Rightarrow> ptr list) \<Rightarrow> bool" where
  "frame_lists s ps H \<longleftrightarrow>
     chain (nx_of (frame_mem s)) (frame_list s) ps \<and>
     (\<forall>h. dchain (np_of (frame_mem s)) 0 (frame_hash s h) (H h)) \<and>
     (\<forall>h. set ps \<inter> set (H h) = {}) \<and>
     (\<forall>h. \<forall>p \<in> set (H h). \<exists>fs. frame_mem s p = Some fs \<and> slot (fs_addr fs) = h \<and> fs_refc fs \<noteq> 0) \<and>
     inj_on (cell_addr s) (set ps \<union> (\<Union>h. set (H h))) \<and>
     (\<forall>p \<in> set ps \<union> (\<Union>h. set (H h)). cell_addr s p < 0x100000)"

definition cell_info :: "'a frame_state_scheme \<Rightarrow> ptr \<Rightarrow> (u32 \<times> u32) option" where
  "cell_info s p = map_option (\<lambda>c. (fs_addr c, fs_refc c)) (frame_mem s p)"

definition frame_rep :: "'a frame_state_scheme \<Rightarrow> u32 list \<Rightarrow> (u32 \<rightharpoonup> u32) \<Rightarrow> bool" where
  "frame_rep s fl al \<longleftrightarrow> (\<exists>ps H. frame_lists s ps H \<and> fl = map (cell_addr s) ps \<and>
     (\<forall>a r. al a = Some r \<longleftrightarrow> (\<exists>p \<in> set (H (slot a)). cell_info s p = Some (a, r))))"

lemma frame_repE:
  assumes "frame_rep s fl al"
  obtains ps H where "frame_lists s ps H" "fl = map (cell_addr s) ps"
    "\<And>a r. al a = Some r \<longleftrightarrow> (\<exists>p \<in> set (H (slot a)). cell_info s p = Some (a, r))"
  using assms unfolding frame_rep_def by blast

subsection \<open>Lookup\<close>

lemma frame_find_loop_dchain:
  assumes "dchain (np_of m) pr l qs"
  shows "\<exists>p. frame_find_loop m l a = Some p \<and>
    (if p = 0 then (\<forall>q \<in> set qs. fs_addr (the (m q)) \<noteq> a)
     else p \<in> set qs \<and> (\<exists>fs. m p = Some fs \<and> fs_addr fs = a))"
  using assms
proof (induction qs arbitrary: pr l)
  case Nil
  then show ?case by (simp add: frame_find_loop.simps)
next
  case (Cons q qs)
  then obtain fs where fs: "q = l" "l \<noteq> 0" "m l = Some fs" "dchain (np_of m) l (fs_next fs) qs"
    by auto
  have unf: "frame_find_loop m l a =
      (if fs_addr fs = a then Some l else frame_find_loop m (fs_next fs) a)"
    using fs(2,3) by (subst frame_find_loop.simps) simp
  show ?case
  proof (cases "fs_addr fs = a")
    case True
    with unf fs(1-3) show ?thesis by auto
  next
    case False
    with Cons.IH [OF fs(4)] unf fs(1,3) show ?thesis by (auto split: if_splits)
  qed
qed

lemma frame_find_lists:
  assumes "frame_lists s ps H"
  obtains (None) "frame_find s f = Some 0"
      "\<And>q. q \<in> set (H (slot (f div PAGESZ))) \<Longrightarrow> cell_addr s q \<noteq> f div PAGESZ"
    | (Some) p fs where "frame_find s f = Some p" "p \<noteq> 0" "p \<in> set (H (slot (f div PAGESZ)))"
      "frame_mem s p = Some fs" "fs_addr fs = f div PAGESZ" "fs_refc fs \<noteq> 0"
proof -
  let ?h = "slot (f div PAGESZ)"
  have "dchain (np_of (frame_mem s)) 0 (frame_hash s ?h) (H ?h)"
    using assms by (simp add: frame_lists_def)
  from frame_find_loop_dchain [OF this, of "f div PAGESZ"] obtain p where
    p: "frame_find s f = Some p" and
    c: "if p = 0 then \<forall>q \<in> set (H ?h). cell_addr s q \<noteq> f div PAGESZ
        else p \<in> set (H ?h) \<and> (\<exists>fs. frame_mem s p = Some fs \<and> fs_addr fs = f div PAGESZ)"
    unfolding frame_find_def by blast
  show thesis
  proof (cases "p = 0")
    case True
    with p c show thesis by (intro None) auto
  next
    case False
    with c obtain fs where fs: "p \<in> set (H ?h)" "frame_mem s p = Some fs" "fs_addr fs = f div PAGESZ"
      by auto
    with assms have "fs_refc fs \<noteq> 0" by (fastforce simp: frame_lists_def)
    with p False fs show thesis by (intro Some)
  qed
qed

lemma frame_find_rep:
  assumes "frame_lists s ps H"
    and al: "\<And>a r. al a = Some r \<longleftrightarrow> (\<exists>p \<in> set (H (slot a)). cell_info s p = Some (a, r))"
  obtains (None) "frame_find s f = Some 0" "al (f div PAGESZ) = None"
    | (Some) p fs where "frame_find s f = Some p" "p \<noteq> 0" "p \<in> set (H (slot (f div PAGESZ)))"
      "frame_mem s p = Some fs" "fs_addr fs = f div PAGESZ" "fs_refc fs \<noteq> 0"
      "al (f div PAGESZ) = Some (fs_refc fs)"
  using assms(1)
proof (cases rule: frame_find_lists [where f = f])
  case None
  have "al (f div PAGESZ) = None"
  proof (rule ccontr)
    assume "al (f div PAGESZ) \<noteq> None"
    then obtain r where "al (f div PAGESZ) = Some r" by blast
    with al None(2) show False by (fastforce simp: cell_info_def)
  qed
  with None(1) show thesis by (rule that(1))
next
  case (Some p fs)
  then have "cell_info s p = Some (f div PAGESZ, fs_refc fs)" by (simp add: cell_info_def)
  with Some al have "al (f div PAGESZ) = Some (fs_refc fs)" by blast
  with Some show thesis by (intro that(2))
qed

subsection \<open>Effects on the cells\<close>

lemma fs_upd_Some: "frame_mem s p = Some fs \<Longrightarrow>
  fs_upd s p f = Some (s\<lparr>frame_mem := (frame_mem s)(p \<mapsto> f fs)\<rparr>)"
  by (simp add: fs_upd_def)

definition pull_cell :: "frame_struct \<Rightarrow> ptr \<Rightarrow> frame_struct \<Rightarrow> frame_struct" where
  "pull_cell fs z c =
     c\<lparr>fs_next := if z = fs_prev fs \<and> z \<noteq> 0 then fs_next fs else fs_next c,
       fs_prev := if z = fs_next fs \<and> z \<noteq> 0 then fs_prev fs else fs_prev c\<rparr>"

lemma pull_cell_simps [simp]:
  "fs_addr (pull_cell fs z c) = fs_addr c" "fs_refc (pull_cell fs z c) = fs_refc c"
  "fs_next (pull_cell fs z c) = (if z = fs_prev fs \<and> z \<noteq> 0 then fs_next fs else fs_next c)"
  "fs_prev (pull_cell fs z c) = (if z = fs_next fs \<and> z \<noteq> 0 then fs_prev fs else fs_prev c)"
  by (simp_all add: pull_cell_def)

lemma frame_pull_eq:
  assumes "frame_mem s p = Some fs"
    and "fs_prev fs \<noteq> 0 \<Longrightarrow> frame_mem s (fs_prev fs) \<noteq> None"
    and "fs_next fs \<noteq> 0 \<Longrightarrow> frame_mem s (fs_next fs) \<noteq> None"
  shows "frame_pull s p = Some (s\<lparr>frame_mem := (\<lambda>z. map_option (pull_cell fs z) (frame_mem s z)),
    frame_hash := if fs_prev fs = 0 then (frame_hash s)(slot (fs_addr fs) := fs_next fs)
                  else frame_hash s\<rparr>)"
proof -
  have id: "map_option (pull_cell fs z) x = x" if "z = 0 \<or> z \<noteq> fs_prev fs \<and> z \<noteq> fs_next fs" for z x
    using that by (cases x) (auto simp: pull_cell_def)
  show ?thesis
    using assms
    by (cases s; cases "fs_prev fs = 0"; cases "fs_next fs = 0"; cases "fs_prev fs = fs_next fs")
       (auto simp: frame_pull_def fs_upd_def fun_eq_iff id pull_cell_def)
qed

definition freed :: "'a frame_state_scheme \<Rightarrow> ptr \<Rightarrow> frame_struct \<Rightarrow> 'a frame_state_scheme" where
  "freed s p fs = s\<lparr>
     frame_mem := (\<lambda>z. if z = p then Some (fs\<lparr>fs_prev := 0, fs_next := frame_list s\<rparr>)
        else if z = frame_list s \<and> z \<noteq> 0
             then map_option (\<lambda>c. (pull_cell fs z c)\<lparr>fs_prev := p\<rparr>) (frame_mem s z)
        else map_option (pull_cell fs z) (frame_mem s z)),
     frame_hash := if fs_prev fs = 0 then (frame_hash s)(slot (fs_addr fs) := fs_next fs)
                   else frame_hash s,
     frame_list := p, out_of_memory := False\<rparr>"

lemma frame_listsD:
  assumes "frame_lists s ps H"
  shows "chain (nx_of (frame_mem s)) (frame_list s) ps"
    and "dchain (np_of (frame_mem s)) 0 (frame_hash s h) (H h)"
    and "set ps \<inter> set (H h) = {}"
    and "p \<in> set (H h) \<Longrightarrow> \<exists>fs. frame_mem s p = Some fs \<and> slot (fs_addr fs) = h \<and> fs_refc fs \<noteq> 0"
    and "inj_on (cell_addr s) (set ps \<union> (\<Union>h. set (H h)))"
    and "p \<in> set ps \<union> (\<Union>h. set (H h)) \<Longrightarrow> cell_addr s p < 0x100000"
  using assms by (simp_all add: frame_lists_def)

lemma frame_lists_slot_unique:
  assumes "frame_lists s ps H" and "p \<in> set (H h)" and "p \<in> set (H h')"
  shows "h = h'"
  using frame_listsD(4) [OF assms(1,2)] frame_listsD(4) [OF assms(1,3)] by auto

lemma frame_lists_free_cell:
  assumes "frame_lists s ps H" and "p \<in> set ps"
  shows "p \<noteq> 0 \<and> (\<exists>fs. frame_mem s p = Some fs)"
  using chain_nonzero [OF frame_listsD(1) [OF assms(1)]]
    chain_alloc [OF frame_listsD(1) [OF assms(1)] assms(2)] assms(2) by auto

lemma frame_list_head: "frame_lists s ps H \<Longrightarrow> frame_list s = 0 \<or> frame_list s \<in> set ps"
  by (drule frame_listsD(1), drule chain_hd) (auto split: list.splits)

lemma hash_cell_nonzero: "frame_lists s ps H \<Longrightarrow> p \<in> set (H h) \<Longrightarrow> p \<noteq> 0"
  using dchain_nonzero [OF frame_listsD(2)] by metis

lemma hash_cell_not_free: "frame_lists s ps H \<Longrightarrow> p \<in> set (H h) \<Longrightarrow> p \<notin> set ps \<and> p \<noteq> frame_list s"
  using frame_listsD(3) [of s ps H h] frame_list_head [of s ps H] hash_cell_nonzero [of s ps H p h] by auto

lemma hash_neighbours:
  assumes "frame_lists s ps H" and "p \<in> set (H h)" and "frame_mem s p = Some fs"
  shows "fs_next fs = 0 \<or> fs_next fs \<in> set (H h)" and "fs_prev fs = 0 \<or> fs_prev fs \<in> set (H h)"
    and "fs_next fs \<noteq> p" and "fs_prev fs \<noteq> p"
    and "fs_next fs \<noteq> 0 \<Longrightarrow> frame_mem s (fs_next fs) \<noteq> None"
    and "fs_prev fs \<noteq> 0 \<Longrightarrow> frame_mem s (fs_prev fs) \<noteq> None"
proof -
  note D = frame_listsD(2) [OF assms(1), of h]
  have "(fs_next fs = 0 \<or> fs_next fs \<in> set (H h)) \<and> (fs_prev fs = 0 \<or> fs_prev fs \<in> set (H h)) \<and>
      fs_next fs \<noteq> p \<and> fs_prev fs \<noteq> p"
    using dchain_neighbours [OF D dchain_nonzero [OF D] assms(2)] assms(3) by simp
  then show "fs_next fs = 0 \<or> fs_next fs \<in> set (H h)" "fs_prev fs = 0 \<or> fs_prev fs \<in> set (H h)"
    "fs_next fs \<noteq> p" "fs_prev fs \<noteq> p"
    "fs_next fs \<noteq> 0 \<Longrightarrow> frame_mem s (fs_next fs) \<noteq> None"
    "fs_prev fs \<noteq> 0 \<Longrightarrow> frame_mem s (fs_prev fs) \<noteq> None"
    using frame_listsD(4) [OF assms(1)] by fastforce+
qed

lemma frame_free_eq:
  assumes L: "frame_lists s ps H" and f: "frame_find s f = Some p" "p \<noteq> 0"
    and p: "p \<in> set (H h)" "frame_mem s p = Some fs" and r: "fs_refc fs = 1"
  shows "frame_free s f = Some (freed s p fs)"
proof -
  note nb = hash_neighbours [OF L p]
  have "frame_list s \<noteq> 0 \<Longrightarrow> frame_mem s (frame_list s) \<noteq> None"
    using frame_lists_free_cell [OF L] frame_list_head [OF L] by auto
  moreover have "pull_cell fs p fs = fs" using nb(3,4) by (auto simp: pull_cell_def)
  moreover have "frame_list s \<noteq> p" using hash_cell_not_free [OF L p(1)] by auto
  ultimately show ?thesis
    using f p r
    by (cases "frame_list s = 0")
       (auto simp: frame_free_def frame_pull_eq [OF p(2) nb(6,5)] fs_upd_def freed_def
          option.map_comp comp_def intro!: frame_state.equality split: option.splits)
qed

lemma freed_info: "frame_mem s p = Some fs \<Longrightarrow> cell_info (freed s p fs) z = cell_info s z"
  by (auto simp: cell_info_def freed_def option.map_comp comp_def)

lemma freed_addr: "frame_mem s p = Some fs \<Longrightarrow> cell_addr (freed s p fs) z = cell_addr s z"
  by (cases "frame_mem s z") (auto simp: freed_def)

lemma freed_free_chain:
  assumes L: "frame_lists s ps H" and p: "p \<in> set (H h)" "frame_mem s p = Some fs"
  shows "chain (nx_of (frame_mem (freed s p fs))) (frame_list (freed s p fs)) (p # ps)"
proof -
  have "chain (nx_of (frame_mem (freed s p fs))) (frame_list s) ps"
  proof (rule chain_cong [THEN iffD1, OF _ frame_listsD(1) [OF L]])
    fix z assume z: "z \<in> set ps"
    then have "z \<noteq> p" "z \<noteq> fs_prev fs"
      using hash_neighbours(2) [OF L p] hash_cell_not_free [OF L] p(1) frame_lists_free_cell [OF L] by blast+
    then show "nx_of (frame_mem s) z = nx_of (frame_mem (freed s p fs)) z"
      by (cases "frame_mem s z") (auto simp: freed_def)
  qed
  with hash_cell_nonzero [OF L p(1)] show ?thesis by (simp add: freed_def)
qed

lemma freed_own_chain:
  assumes L: "frame_lists s ps H" and H: "H h = us @ p # vs" and p: "frame_mem s p = Some fs"
  shows "dchain (np_of (frame_mem (freed s p fs))) 0 (frame_hash (freed s p fs) h) (us @ vs)"
proof -
  have pm: "p \<in> set (H h)" using H by simp
  note D = frame_listsD(2) [OF L, of h]
  have dist: "distinct (us @ p # vs)" and nz: "0 \<notin> set (us @ p # vs)"
    using dchain_distinct [OF D] dchain_nonzero [OF D] H by auto
  have pull: "dchain (np_of (frame_mem (freed s p fs))) 0 (if us = [] then fs_next fs else frame_hash s h) (us @ vs)
      \<and> fs_prev fs = (if us = [] then 0 else last us)"
  proof (rule dchain_pull [where np = "np_of (frame_mem s)" and x = p])
    fix z assume z: "z \<in> set us \<union> set vs"
    then have "z \<in> set (H h)" using H by auto
    then have "z \<noteq> p" "z \<noteq> 0" "z \<noteq> frame_list s"
      using z dist nz hash_cell_not_free [OF L] by auto
    then show "np_of (frame_mem (freed s p fs)) z =
        map_option (\<lambda>(a, b). (if z = fs_prev fs then fs_next fs else a, if z = fs_next fs then fs_prev fs else b))
          (np_of (frame_mem s) z)"
      by (cases "frame_mem s z") (auto simp: freed_def)
  qed (use D nz p H in auto)
  then have "fs_prev fs = 0 \<longleftrightarrow> us = []" using nz by (metis Un_iff last_in_set set_append)
  then have "frame_hash (freed s p fs) h = (if us = [] then fs_next fs else frame_hash s h)"
    using frame_listsD(4) [OF L pm] p by (auto simp: freed_def)
  with pull show ?thesis by simp
qed

lemma freed_other_chain:
  assumes L: "frame_lists s ps H" and p: "p \<in> set (H h)" "frame_mem s p = Some fs" and k: "k \<noteq> h"
  shows "dchain (np_of (frame_mem (freed s p fs))) 0 (frame_hash (freed s p fs) k) (H k)"
proof -
  have "dchain (np_of (frame_mem (freed s p fs))) 0 (frame_hash s k) (H k)"
  proof (rule dchain_cong [THEN iffD1, OF _ frame_listsD(2) [OF L]])
    fix z assume z: "z \<in> set (H k)"
    then have "z \<notin> set (H h)" using frame_lists_slot_unique [OF L, of z k h] k by auto
    moreover have "z \<noteq> 0" "z \<noteq> frame_list s"
      using hash_cell_nonzero [OF L z] hash_cell_not_free [OF L z] by auto
    ultimately have "z \<noteq> p" "z \<noteq> fs_prev fs" "z \<noteq> fs_next fs" "z \<noteq> frame_list s"
      using hash_neighbours(1,2) [OF L p] p(1) by auto
    then show "np_of (frame_mem s) z = np_of (frame_mem (freed s p fs)) z"
      by (cases "frame_mem s z") (auto simp: freed_def)
  qed
  moreover have "frame_hash (freed s p fs) k = frame_hash s k"
    using k frame_listsD(4) [OF L p(1)] p(2) by (auto simp: freed_def)
  ultimately show ?thesis by simp
qed

lemma union_split: "(\<Union>k. set (G k)) = set (G h) \<union> (\<Union>k \<in> - {h}. set (G k))"
proof -
  have "UNIV = insert h (- {h})" by auto
  then show ?thesis by (metis UN_insert)
qed

lemma union_fun_upd: "(\<Union>k. set ((H(h := xs)) k)) = set xs \<union> (\<Union>k \<in> - {h}. set (H k))"
  by (subst union_split [of _ h]) simp

lemma frame_lists_freed:
  assumes L: "frame_lists s ps H" and H: "H h = us @ p # vs" and p: "frame_mem s p = Some fs"
  shows "frame_lists (freed s p fs) (p # ps) (H(h := us @ vs))"
proof -
  have pm: "p \<in> set (H h)" using H by simp
  have addr: "cell_addr (freed s p fs) z = cell_addr s z" for z
    using p by (rule freed_addr)
  have cells: "\<exists>c. frame_mem (freed s p fs) q = Some c \<and> slot (fs_addr c) = k \<and> fs_refc c \<noteq> 0"
    if "q \<in> set ((H(h := us @ vs)) k)" for k q
  proof -
    have "q \<in> set (H k)" using that H by (auto split: if_splits)
    then obtain c where "frame_mem s q = Some c" "slot (fs_addr c) = k" "fs_refc c \<noteq> 0"
      using frame_listsD(4) [OF L] by blast
    with freed_info [OF p, of q] show ?thesis by (auto simp: cell_info_def)
  qed
  have all: "set (p # ps) \<union> (\<Union>k. set ((H(h := us @ vs)) k)) = set ps \<union> (\<Union>k. set (H k))"
    unfolding union_fun_upd union_split [of H h] H by auto
  have "set (p # ps) \<inter> set ((H(h := us @ vs)) k) = {}" for k
    using frame_listsD(3) [OF L, of k] frame_listsD(3) [OF L, of h] frame_lists_slot_unique [OF L pm, of k]
      dchain_distinct [OF frame_listsD(2) [OF L, of h]] H by (auto split: if_splits)
  moreover have "dchain (np_of (frame_mem (freed s p fs))) 0 (frame_hash (freed s p fs) k) ((H(h := us @ vs)) k)" for k
    using freed_own_chain [OF L H p] freed_other_chain [OF L pm p] by (cases "k = h") auto
  ultimately show ?thesis
    unfolding frame_lists_def all addr
    using freed_free_chain [OF L pm p] cells frame_listsD(5,6) [OF L] by blast
qed

definition taken :: "'a frame_state_scheme \<Rightarrow> ptr \<Rightarrow> frame_struct \<Rightarrow> 'a frame_state_scheme" where
  "taken s p fs = (let h = slot (fs_addr fs) in s\<lparr>
     frame_mem := (\<lambda>z. if z = p then Some (fs\<lparr>fs_next := frame_hash s h, fs_prev := 0, fs_refc := 1\<rparr>)
        else if z = frame_hash s h \<and> z \<noteq> 0 then map_option (fs_prev_update (\<lambda>_. p)) (frame_mem s z)
        else frame_mem s z),
     frame_list := fs_next fs, frame_hash := (frame_hash s)(h := p)\<rparr>)"

lemma frame_hash_head: "frame_lists s ps H \<Longrightarrow> frame_hash s h = 0 \<or> frame_hash s h \<in> set (H h)"
  using dchain_hd [OF frame_listsD(2), of s ps H h] by (auto split: list.splits)

lemma frame_new_eq:
  assumes L: "frame_lists s (p # ps) H" and m: "\<not> out_of_memory s" and p: "frame_mem s p = Some fs"
  shows "frame_new s = Some (fs_addr fs * PAGESZ, taken s p fs)"
proof -
  let ?h = "slot (fs_addr fs)"
  have "frame_list s = p" "p \<noteq> 0" using frame_listsD(1) [OF L] by auto
  moreover have "frame_hash s ?h \<noteq> 0 \<Longrightarrow> frame_mem s (frame_hash s ?h) \<noteq> None"
    using frame_hash_head [OF L] frame_listsD(4) [OF L] by fastforce
  moreover have "frame_hash s ?h \<noteq> p"
    using frame_hash_head [OF L] hash_cell_not_free [OF L] \<open>p \<noteq> 0\<close> by (metis list.set_intros(1))
  ultimately show ?thesis
    using m p
    by (subst frame_new.simps; cases "frame_hash s ?h = 0")
       (auto simp: fs_upd_def taken_def Let_def intro!: frame_state.equality split: option.splits)
qed

lemma taken_addr: "frame_mem s p = Some fs \<Longrightarrow> cell_addr (taken s p fs) z = cell_addr s z"
  by (cases "frame_mem s z") (auto simp: taken_def Let_def)

lemma taken_info: "frame_mem s p = Some fs \<Longrightarrow>
  cell_info (taken s p fs) z = (if z = p then Some (fs_addr fs, 1) else cell_info s z)"
  by (auto simp: cell_info_def taken_def Let_def option.map_comp comp_def)

lemma taken_chain:
  assumes L: "frame_lists s (p # ps) H" and p: "frame_mem s p = Some fs"
  shows "dchain (np_of (frame_mem (taken s p fs))) 0 (frame_hash (taken s p fs) k)
    ((H(slot (fs_addr fs) := p # H (slot (fs_addr fs)))) k)"
proof (cases "k = slot (fs_addr fs)")
  case True
  have "p \<notin> set (H k)" and "p \<noteq> 0" using frame_listsD(1,3) [OF L] by auto
  then have "dchain (np_of (frame_mem (taken s p fs))) 0 p (p # H k)"
  proof (rule dchain_push [OF frame_listsD(2) [OF L]])
    fix z assume z: "z \<in> set (H k)"
    then have "z \<noteq> p" "z \<noteq> 0" using \<open>p \<notin> set (H k)\<close> hash_cell_nonzero [OF L z] by auto
    then show "np_of (frame_mem (taken s p fs)) z =
        map_option (\<lambda>(a, b). (a, if z = frame_hash s k then p else b)) (np_of (frame_mem s) z)"
      using True by (cases "frame_mem s z") (auto simp: taken_def Let_def)
  qed (use True in \<open>simp add: taken_def Let_def\<close>)
  with True show ?thesis by (simp add: taken_def Let_def)
next
  case False
  have "dchain (np_of (frame_mem (taken s p fs))) 0 (frame_hash s k) (H k)"
  proof (rule dchain_cong [THEN iffD1, OF _ frame_listsD(2) [OF L]])
    fix z assume z: "z \<in> set (H k)"
    then have "z \<noteq> p" "z \<noteq> 0" using hash_cell_not_free [OF L z] hash_cell_nonzero [OF L z] by auto
    moreover have "z \<noteq> frame_hash s (slot (fs_addr fs))"
      using frame_hash_head [OF L, of "slot (fs_addr fs)"] frame_lists_slot_unique [OF L z] False \<open>z \<noteq> 0\<close> by metis
    ultimately show "np_of (frame_mem s) z = np_of (frame_mem (taken s p fs)) z"
      by (simp add: taken_def Let_def)
  qed
  with False show ?thesis by (simp add: taken_def Let_def)
qed

lemma frame_lists_taken:
  assumes L: "frame_lists s (p # ps) H" and p: "frame_mem s p = Some fs"
  shows "frame_lists (taken s p fs) ps (H(slot (fs_addr fs) := p # H (slot (fs_addr fs))))"
    (is "frame_lists ?t ps ?H")
proof -
  let ?h = "slot (fs_addr fs)"
  have dist: "distinct (p # ps)" using chain_distinct frame_listsD(1) [OF L] by blast
  have addr: "cell_addr ?t z = cell_addr s z" for z
    using p by (rule taken_addr)
  have "chain (nx_of (frame_mem s)) (fs_next fs) ps" using frame_listsD(1) [OF L] p by auto
  then have "chain (nx_of (frame_mem ?t)) (fs_next fs) ps"
  proof (rule chain_cong [THEN iffD1, rotated])
    fix z assume "z \<in> set ps"
    then have "z \<noteq> p" using dist by auto
    then show "nx_of (frame_mem s) z = nx_of (frame_mem ?t) z"
      by (cases "frame_mem s z") (auto simp: taken_def Let_def)
  qed
  then have chain: "chain (nx_of (frame_mem ?t)) (frame_list ?t) ps" by (simp add: taken_def Let_def)
  have cells: "\<exists>c. frame_mem ?t q = Some c \<and> slot (fs_addr c) = k \<and> fs_refc c \<noteq> 0"
    if q: "q \<in> set (?H k)" for k q
  proof (cases "q = p")
    case True
    then have "k = ?h" using q frame_listsD(3) [OF L, of k] by (auto split: if_splits)
    with True p show ?thesis by (simp add: taken_def Let_def)
  next
    case False
    then have "q \<in> set (H k)" using q by (auto split: if_splits)
    with frame_listsD(4) [OF L] obtain c where "frame_mem s q = Some c" "slot (fs_addr c) = k" "fs_refc c \<noteq> 0"
      by blast
    with taken_info [OF p, of q] False show ?thesis by (auto simp: cell_info_def)
  qed
  have "set ps \<union> (\<Union>k. set (?H k)) = set (p # ps) \<union> (\<Union>k. set (H k))"
    unfolding union_fun_upd union_split [of H ?h] by auto
  moreover have "set ps \<inter> set (?H k) = {}" for k using frame_listsD(3) [OF L] dist by auto
  ultimately show ?thesis
    unfolding frame_lists_def addr
    using chain cells taken_chain [OF L p] frame_listsD(5,6) [OF L] by simp
qed

abbreviation refc_set :: "'a frame_state_scheme \<Rightarrow> ptr \<Rightarrow> frame_struct \<Rightarrow> u32 \<Rightarrow> 'a frame_state_scheme" where
  "refc_set s p fs r \<equiv> s\<lparr>frame_mem := (frame_mem s)(p \<mapsto> fs\<lparr>fs_refc := r\<rparr>)\<rparr>"

lemma refc_update_set:
  "fs_refc_update (\<lambda>r. r + 1) fs = fs\<lparr>fs_refc := fs_refc fs + 1\<rparr>"
  "fs_refc_update (\<lambda>r. r - 1) fs = fs\<lparr>fs_refc := fs_refc fs - 1\<rparr>"
  by (cases fs; simp)+

lemma refc_set_info: "cell_info (refc_set s p fs r) z = (if z = p then Some (fs_addr fs, r) else cell_info s z)"
  by (simp add: cell_info_def)

lemma frame_lists_refc:
  assumes L: "frame_lists s ps H" and p: "frame_mem s p = Some fs" and r: "r \<noteq> 0"
  shows "frame_lists (refc_set s p fs r) ps H" (is "frame_lists ?t ps H")
proof -
  have eqs: "nx_of (frame_mem ?t) = nx_of (frame_mem s)" "np_of (frame_mem ?t) = np_of (frame_mem s)"
    using p by (auto simp: fun_eq_iff)
  have addr: "cell_addr ?t q = cell_addr s q" for q using p by auto
  have "\<exists>c. frame_mem ?t q = Some c \<and> slot (fs_addr c) = h \<and> fs_refc c \<noteq> 0" if "q \<in> set (H h)" for q h
    using frame_listsD(4) [OF L that] p r by (cases "q = p") auto
  then show ?thesis
    using frame_listsD(1,2,3,5,6) [OF L] unfolding frame_lists_def eqs addr by (intro conjI allI ballI) auto
qed

subsection \<open>Refinement of the abstract allocator\<close>

text \<open>
  The abstract allocator: free page numbers, most recently freed first, and the reference counts
  of the allocated ones.
\<close>

type_synonym frame_spec = "u32 list \<times> (u32 \<rightharpoonup> u32)"

fun spec_free :: "u32 \<Rightarrow> frame_spec \<Rightarrow> frame_spec" where
  "spec_free a (fl, al) = (case al a of
     None \<Rightarrow> (fl, al)
   | Some r \<Rightarrow> if r = 1 then (a # fl, al(a := None)) else (fl, al(a \<mapsto> r - 1)))"

fun spec_ref :: "u32 \<Rightarrow> frame_spec \<Rightarrow> frame_spec" where
  "spec_ref a (fl, al) = (case al a of None \<Rightarrow> (fl, al) | Some r \<Rightarrow> (fl, al(a \<mapsto> r + 1)))"

definition represents :: "'a frame_state_scheme \<Rightarrow> frame_spec \<Rightarrow> bool" where
  "represents s x \<longleftrightarrow> frame_rep s (fst x) (snd x)"

text \<open>No page number has cells in two places.\<close>

lemma cell_unique:
  assumes "frame_lists s ps H" and "p \<in> set ps \<union> (\<Union>h. set (H h))" and "q \<in> set ps \<union> (\<Union>h. set (H h))"
    and "cell_addr s p = cell_addr s q"
  shows "p = q"
  using frame_listsD(5) [OF assms(1)] assms(2-4) by (blast dest: inj_onD)

lemma info_addr: "cell_info s p = Some (a, r) \<Longrightarrow> cell_addr s p = a"
  by (auto simp: cell_info_def)

lemma frame_rep_update:
  assumes L: "frame_lists s ps H"
    and al: "\<And>a r. al a = Some r \<longleftrightarrow> (\<exists>p \<in> set (H (slot a)). cell_info s p = Some (a, r))"
    and p: "p \<in> set ps \<union> (\<Union>h. set (H h))" "cell_addr s p = b"
    and L': "frame_lists t qs H'"
    and H': "\<And>h. set (H' h) - {p} = set (H h) - {p}"
    and in': "p \<in> set (H' (slot b)) \<longleftrightarrow> v \<noteq> None" "\<And>h. h \<noteq> slot b \<Longrightarrow> p \<notin> set (H' h)"
    and info: "\<And>z. z \<noteq> p \<Longrightarrow> cell_info t z = cell_info s z" "v \<noteq> None \<Longrightarrow> cell_info t p = Some (b, the v)"
  shows "(al(b := v)) a = Some r \<longleftrightarrow> (\<exists>q \<in> set (H' (slot a)). cell_info t q = Some (a, r))"
proof (cases "a = b")
  case True
  have "q = p" if "q \<in> set (H' (slot b))" "cell_info t q = Some (b, r)" for q
  proof (rule ccontr)
    assume "q \<noteq> p"
    with that H' info(1) have "q \<in> set (H (slot b))" "cell_addr s q = b"
      by (auto dest: info_addr)
    with cell_unique [OF L p(1), of q] p(2) \<open>q \<noteq> p\<close> show False by auto
  qed
  with True in' info(2) show ?thesis by (cases v) auto
next
  case False
  have "cell_info t p \<noteq> Some (a, r) \<or> p \<notin> set (H' (slot a))"
    using False in' info(2) by (cases "slot a = slot b"; cases v) auto
  then have "(\<exists>q \<in> set (H' (slot a)). cell_info t q = Some (a, r)) \<longleftrightarrow>
      (\<exists>q \<in> set (H' (slot a)) - {p}. cell_info t q = Some (a, r))" by blast
  also have "\<dots> \<longleftrightarrow> (\<exists>q \<in> set (H (slot a)) - {p}. cell_info s q = Some (a, r))"
    unfolding H' by (rule bex_cong [OF refl]) (simp add: info(1))
  also have "\<dots> \<longleftrightarrow> al a = Some r"
    using al [of a r] False p(2) by (blast dest: info_addr)
  finally show ?thesis using False by simp
qed

lemma frame_rep_freed:
  assumes L: "frame_lists s ps H" and fl: "fl = map (cell_addr s) ps"
    and al: "\<And>a r. al a = Some r \<longleftrightarrow> (\<exists>p \<in> set (H (slot a)). cell_info s p = Some (a, r))"
    and p: "p \<in> set (H (slot b))" "frame_mem s p = Some fs" "fs_addr fs = b"
  shows "frame_rep (freed s p fs) (b # fl) (al(b := None))"
proof -
  from p(1) obtain us vs where H: "H (slot b) = us @ p # vs" by (auto simp: in_set_conv_decomp)
  note L' = frame_lists_freed [OF L H p(2)]
  have "map (cell_addr (freed s p fs)) (p # ps) = b # fl"
    using p(2,3) fl freed_addr [OF p(2)] by simp
  moreover have "(al(b := None)) a = Some r \<longleftrightarrow>
      (\<exists>q \<in> set ((H(slot b := us @ vs)) (slot a)). cell_info (freed s p fs) q = Some (a, r))" for a r
  proof (rule frame_rep_update [OF L al _ _ L', where p = p])
    have "distinct (us @ p # vs)" using dchain_distinct [OF frame_listsD(2) [OF L, of "slot b"]] H by simp
    then show "p \<in> set ((H(slot b := us @ vs)) (slot b)) \<longleftrightarrow> (None::u32 option) \<noteq> None"
      and "\<And>h. set ((H(slot b := us @ vs)) h) - {p} = set (H h) - {p}" using H by auto
    show "\<And>h. h \<noteq> slot b \<Longrightarrow> p \<notin> set ((H(slot b := us @ vs)) h)"
      using frame_lists_slot_unique [OF L p(1)] by auto
  qed (use p freed_info [OF p(2)] in auto)
  ultimately show ?thesis unfolding frame_rep_def using L' by metis
qed

lemma frame_rep_taken:
  assumes L: "frame_lists s (p # ps) H" and fl: "b # fl = map (cell_addr s) (p # ps)"
    and al: "\<And>a r. al a = Some r \<longleftrightarrow> (\<exists>p \<in> set (H (slot a)). cell_info s p = Some (a, r))"
    and p: "frame_mem s p = Some fs"
  shows "frame_rep (taken s p fs) fl (al(b \<mapsto> 1))"
proof -
  note L' = frame_lists_taken [OF L p]
  have b: "fs_addr fs = b" using fl p by simp
  have "map (cell_addr (taken s p fs)) ps = fl"
    using fl taken_addr [OF p] by simp
  moreover have "(al(b := Some 1)) a = Some r \<longleftrightarrow>
      (\<exists>q \<in> set ((H(slot (fs_addr fs) := p # H (slot (fs_addr fs)))) (slot a)). cell_info (taken s p fs) q = Some (a, r))" for a r
  proof (rule frame_rep_update [OF L al _ _ L', where p = p])
    show "\<And>h. h \<noteq> slot b \<Longrightarrow> p \<notin> set ((H(slot (fs_addr fs) := p # H (slot (fs_addr fs)))) h)"
      using frame_listsD(3) [OF L] b by auto
  qed (use b p taken_info [OF p] in auto)
  ultimately show ?thesis unfolding frame_rep_def using L' by metis
qed

lemma frame_rep_refc:
  assumes L: "frame_lists s ps H" and fl: "fl = map (cell_addr s) ps"
    and al: "\<And>a r. al a = Some r \<longleftrightarrow> (\<exists>p \<in> set (H (slot a)). cell_info s p = Some (a, r))"
    and p: "p \<in> set (H (slot b))" "frame_mem s p = Some fs" "fs_addr fs = b" and r: "r \<noteq> 0"
  shows "frame_rep (refc_set s p fs r) fl (al(b \<mapsto> r))"
proof -
  note L' = frame_lists_refc [OF L p(2) r]
  have "fl = map (cell_addr (refc_set s p fs r)) ps" using fl p(2) by auto
  moreover have "(al(b := Some r)) a = Some k \<longleftrightarrow>
      (\<exists>q \<in> set (H (slot a)). cell_info (refc_set s p fs r) q = Some (a, k))" for a k
  proof (rule frame_rep_update [OF L al _ _ L', where p = p])
    show "\<And>h. h \<noteq> slot b \<Longrightarrow> p \<notin> set (H h)" using frame_lists_slot_unique [OF L p(1)] by auto
  qed (use p in \<open>auto simp: refc_set_info\<close>)
  ultimately show ?thesis unfolding frame_rep_def using L' by blast
qed

lemma frame_free_refines:
  assumes "frame_rep s fl al"
  shows "\<exists>s'. frame_free s f = Some s' \<and> represents s' (spec_free (f div PAGESZ) (fl, al))"
  using assms
proof (cases rule: frame_repE)
  case (1 ps H)
  show ?thesis
  proof (cases rule: frame_find_rep [OF 1(1,3), of f, case_names None Some])
    case None
    then show ?thesis using assms by (simp add: frame_free_def represents_def)
  next
    case (Some p fs)
    show ?thesis
    proof (cases "fs_refc fs = 1")
      case True
      with Some frame_free_eq [OF 1(1) Some(1-4) True] frame_rep_freed [OF 1 Some(3-5)]
      show ?thesis by (simp add: represents_def)
    next
      case False
      then have "fs_refc fs - 1 \<noteq> 0" by simp
      moreover have "frame_free s f = Some (refc_set s p fs (fs_refc fs - 1))"
        using Some False by (simp add: frame_free_def fs_upd_def refc_update_set)
      ultimately show ?thesis
        using frame_rep_refc [OF 1 Some(3-5), of "fs_refc fs - 1"] Some False by (simp add: represents_def)
    qed
  qed
qed

lemma frame_ref_refines:
  assumes "frame_rep s fl al" and "al (f div PAGESZ) \<noteq> Some (- 1)"
  shows "\<exists>s'. frame_ref s f = Some s' \<and> represents s' (spec_ref (f div PAGESZ) (fl, al))"
  using assms(1)
proof (cases rule: frame_repE)
  case (1 ps H)
  show ?thesis
  proof (cases rule: frame_find_rep [OF 1(1,3), of f, case_names None Some])
    case None
    then show ?thesis using assms by (simp add: frame_ref_def represents_def)
  next
    case (Some p fs)
    then have nz: "fs_refc fs + 1 \<noteq> 0" using assms(2) by (simp add: eq_neg_iff_add_eq_0)
    have "frame_ref s f = Some (refc_set s p fs (fs_refc fs + 1))"
      using Some by (simp add: frame_ref_def fs_upd_def refc_update_set)
    with frame_rep_refc [OF 1 Some(3-5) nz] Some show ?thesis by (simp add: represents_def)
  qed
qed

lemma frame_refc_refines:
  assumes "frame_rep s fl al"
  shows "frame_refc s f = Some (case al (f div PAGESZ) of None \<Rightarrow> 0 | Some r \<Rightarrow> r)"
  using assms
proof (cases rule: frame_repE)
  case (1 ps H)
  show ?thesis
    by (cases rule: frame_find_rep [OF 1(1,3), of f]) (auto simp: frame_refc_def)
qed

lemma frame_new_refines:
  assumes "frame_rep s (b # fl) al" and "\<not> out_of_memory s"
  shows "\<exists>s'. frame_new s = Some (b * PAGESZ, s') \<and> frame_rep s' fl (al(b \<mapsto> 1)) \<and> al b = None"
  using assms(1)
proof (cases rule: frame_repE)
  case (1 qs H)
  then obtain p ps where qs: "qs = p # ps" by (cases qs) auto
  with 1(1) obtain fs where fs: "frame_mem s p = Some fs"
    using frame_lists_free_cell [of s qs H p] by auto
  have "al b = None"
  proof (rule ccontr)
    assume "al b \<noteq> None"
    then obtain r q where "q \<in> set (H (slot b))" "cell_info s q = Some (b, r)" using 1(3) by blast
    with cell_unique [OF 1(1), of q p] 1(2) qs have "q = p" by (auto dest: info_addr)
    with frame_listsD(3) [OF 1(1), of "slot b"] \<open>q \<in> set (H (slot b))\<close> qs show False by auto
  qed
  with frame_new_eq [OF _ assms(2) fs] frame_rep_taken [OF _ _ 1(3) fs] 1(1,2) qs fs show ?thesis
    by auto
qed

section \<open>The allocator's interface\<close>

text \<open>
  What the memory code relies on, as a contract over the abstract free list and reference counts,
  and what follows for every client: a frame with one reference survives any number of
  \<open>frame_ref\<close>/\<open>frame_free\<close> pairs and returns to the free list exactly at the last release.
\<close>

primrec repeat_op :: "nat \<Rightarrow> ('s \<Rightarrow> 's option) \<Rightarrow> 's \<Rightarrow> 's option" where
  "repeat_op 0 f s = Some s"
| "repeat_op (Suc n) f s = Option.bind (f s) (repeat_op n f)"

locale frame_allocator =
  fixes new :: "'s \<Rightarrow> (u32 \<times> 's) option"
    and free :: "'s \<Rightarrow> u32 \<Rightarrow> 's option"
    and ref :: "'s \<Rightarrow> u32 \<Rightarrow> 's option"
    and rep :: "'s \<Rightarrow> u32 list \<Rightarrow> (u32 \<rightharpoonup> u32) \<Rightarrow> bool"
    and exhausted :: "'s \<Rightarrow> bool"
  assumes new_law: "rep s (b # fl) al \<Longrightarrow> \<not> exhausted s \<Longrightarrow>
      \<exists>s'. new s = Some (b * PAGESZ, s') \<and> rep s' fl (al(b \<mapsto> 1)) \<and> al b = None"
    and free_law: "rep s fl al \<Longrightarrow> spec_free (f div PAGESZ) (fl, al) = (fl', al') \<Longrightarrow>
      \<exists>s'. free s f = Some s' \<and> rep s' fl' al'"
    and ref_law: "rep s fl al \<Longrightarrow> al (f div PAGESZ) \<noteq> Some (- 1) \<Longrightarrow>
      spec_ref (f div PAGESZ) (fl, al) = (fl', al') \<Longrightarrow> \<exists>s'. ref s f = Some s' \<and> rep s' fl' al'"
begin

lemma refs:
  "rep s fl al \<Longrightarrow> al (f div PAGESZ) = Some (of_nat k) \<Longrightarrow> k + n < 2 ^ 32 \<Longrightarrow>
   \<exists>s'. repeat_op n (\<lambda>s. ref s f) s = Some s' \<and> rep s' fl (al(f div PAGESZ \<mapsto> of_nat (k + n)))"
proof (induction n arbitrary: s al k)
  case 0
  then show ?case by (simp add: fun_upd_idem)
next
  case (Suc n)
  have "(of_nat k :: u32) \<noteq> - 1"
  proof
    assume "(of_nat k :: u32) = - 1"
    then have "unat (of_nat k :: u32) = unat (- 1 :: u32)" by simp
    with Suc.prems(3) show False by (simp add: unat_of_nat unat_max_u32)
  qed
  with Suc.prems obtain s1 where
    "ref s f = Some s1" "rep s1 fl (al(f div PAGESZ \<mapsto> of_nat (Suc k)))"
    using ref_law [of s fl al f] by (auto simp: add.commute)
  moreover from this(2) have "\<exists>s'. repeat_op n (\<lambda>s. ref s f) s1 = Some s' \<and>
      rep s' fl (al(f div PAGESZ \<mapsto> of_nat (Suc k), f div PAGESZ \<mapsto> of_nat (Suc k + n)))"
    by (rule Suc.IH) (use Suc.prems(3) in simp_all)
  ultimately show ?case by (simp only: fun_upd_upd repeat_op.simps bind.bind_lunit add_Suc_shift)
qed

lemma frees:
  "rep s fl al \<Longrightarrow> al (f div PAGESZ) = Some (of_nat (Suc (k + n))) \<Longrightarrow> Suc (k + n) < 2 ^ 32 \<Longrightarrow>
   \<exists>s'. repeat_op n (\<lambda>s. free s f) s = Some s' \<and> rep s' fl (al(f div PAGESZ \<mapsto> of_nat (Suc k)))"
proof (induction n arbitrary: s al)
  case 0
  then show ?case by (simp add: fun_upd_idem)
next
  case (Suc n)
  have "(of_nat (Suc (k + Suc n)) :: u32) \<noteq> 1"
  proof
    assume "(of_nat (Suc (k + Suc n)) :: u32) = 1"
    then have "unat (of_nat (Suc (k + Suc n)) :: u32) = 1" by simp
    with Suc.prems(3) show False by (simp only: unat_of_nat) (simp del: of_nat_Suc)
  qed
  moreover have "(of_nat (Suc (k + Suc n)) :: u32) - 1 = of_nat (Suc (k + n))" by simp
  ultimately obtain s1 where
    "free s f = Some s1" "rep s1 fl (al(f div PAGESZ \<mapsto> of_nat (Suc (k + n))))"
    using free_law [OF Suc.prems(1), of f] Suc.prems(2) by (auto simp del: of_nat_Suc)
  moreover from this(2) have "\<exists>s'. repeat_op n (\<lambda>s. free s f) s1 = Some s' \<and>
      rep s' fl (al(f div PAGESZ \<mapsto> of_nat (Suc (k + n)), f div PAGESZ \<mapsto> of_nat (Suc k)))"
    by (rule Suc.IH) (use Suc.prems(3) in simp_all)
  ultimately show ?case by (simp only: fun_upd_upd repeat_op.simps bind.bind_lunit)
qed

lemma life_cycle:
  assumes "rep s (b # fl) al" and "\<not> exhausted s" and "b < 0x100000" and "n < 2 ^ 32 - 1"
  obtains f s1 s2 s3 s4 where
    "new s = Some (f, s1)" "f div PAGESZ = b" "rep s1 fl (al(b \<mapsto> 1))"
    "repeat_op n (\<lambda>s. ref s f) s1 = Some s2" "rep s2 fl (al(b \<mapsto> of_nat (Suc n)))"
    "repeat_op n (\<lambda>s. free s f) s2 = Some s3" "rep s3 fl (al(b \<mapsto> 1))"
    "free s3 f = Some s4" "rep s4 (b # fl) al"
proof -
  let ?f = "b * PAGESZ"
  have f: "?f div PAGESZ = b" using assms(3) by (rule page_number)
  from new_law [OF assms(1,2)] obtain s1 where
    1: "new s = Some (?f, s1)" "rep s1 fl (al(b \<mapsto> 1))" "al b = None" by blast
  from refs [OF 1(2), of ?f 1 n] f assms(4) obtain s2 where
    2: "repeat_op n (\<lambda>s. ref s ?f) s1 = Some s2" "rep s2 fl (al(b \<mapsto> of_nat (Suc n)))" by auto
  from frees [OF 2(2), of ?f 0 n] f assms(4) obtain s3 where
    3: "repeat_op n (\<lambda>s. free s ?f) s2 = Some s3" "rep s3 fl (al(b \<mapsto> 1))" by auto
  have "(al(b \<mapsto> 1))(b := None) = al" using 1(3) by (auto simp: fun_eq_iff)
  with free_law [OF 3(2), of ?f] f obtain s4 where
    4: "free s3 ?f = Some s4" "rep s4 (b # fl) al" by auto
  show thesis by (rule that [OF 1(1) f 1(2) 2 3 4])
qed

end

interpretation fa: frame_allocator frame_new frame_free frame_ref frame_rep out_of_memory
proof unfold_locales
  fix s :: "'a frame_state_scheme" and b fl al
  assume "frame_rep s (b # fl) al" and "\<not> out_of_memory s"
  then show "\<exists>s'. frame_new s = Some (b * PAGESZ, s') \<and> frame_rep s' fl (al(b \<mapsto> 1)) \<and> al b = None"
    by (rule frame_new_refines)
next
  fix s :: "'a frame_state_scheme" and fl al f fl' al'
  assume "frame_rep s fl al" and "spec_free (f div PAGESZ) (fl, al) = (fl', al')"
  with frame_free_refines [of s fl al f] show "\<exists>s'. frame_free s f = Some s' \<and> frame_rep s' fl' al'"
    by (simp add: represents_def)
next
  fix s :: "'a frame_state_scheme" and fl al f fl' al'
  assume "frame_rep s fl al" and "al (f div PAGESZ) \<noteq> Some (- 1)"
    and "spec_ref (f div PAGESZ) (fl, al) = (fl', al')"
  with frame_ref_refines [of s fl al f] show "\<exists>s'. frame_ref s f = Some s' \<and> frame_rep s' fl' al'"
    by (simp add: represents_def)
qed

section \<open>The supply of fresh frames\<close>

text \<open>
  Everything \<open>frame_new\<close> can still hand out: the free list and what is left of the emergency pool.
  Each allocation removes one page from the supply, so no frame is handed out twice before it is
  freed; this is what the page-table code relies on. Free-list frames lie above the boot region
  (\<open>frame_add\<close> rejects the others), the pool below it.
\<close>

definition frame_pool :: "'a frame_state_scheme \<Rightarrow> u32 set" where
  "frame_pool s = {n. 0 < n \<and> n < oom_pool s div PAGESZ}"

definition frame_avail :: "'a frame_state_scheme \<Rightarrow> u32 set" where
  "frame_avail s = {a. \<exists>fl al. frame_rep s fl al \<and> a \<in> set fl} \<union> frame_pool s"

definition frame_inv :: "'a frame_state_scheme \<Rightarrow> bool" where
  "frame_inv s \<longleftrightarrow> (\<exists>fl al. frame_rep s fl al \<and> (\<forall>a \<in> set fl \<union> dom al. 0x800 \<le> a)) \<and>
     oom_pool s = oom_pool s div PAGESZ * PAGESZ \<and> 0 < oom_pool s div PAGESZ \<and> oom_pool s div PAGESZ \<le> 0x80"

lemma dchain_unique: "dchain np pr p qs \<Longrightarrow> dchain np pr p rs \<Longrightarrow> qs = rs"
  using chain_unique dchain_chain by blast

lemma frame_rep_unique:
  assumes "frame_rep s fl al" and "frame_rep s fl' al'"
  shows "fl' = fl \<and> al' = al"
proof -
  from assms(1) obtain ps H where 1: "frame_lists s ps H" "fl = map (cell_addr s) ps"
    "\<And>a r. al a = Some r \<longleftrightarrow> (\<exists>p \<in> set (H (slot a)). cell_info s p = Some (a, r))" by (rule frame_repE) blast
  from assms(2) obtain ps' H' where 2: "frame_lists s ps' H'" "fl' = map (cell_addr s) ps'"
    "\<And>a r. al' a = Some r \<longleftrightarrow> (\<exists>p \<in> set (H' (slot a)). cell_info s p = Some (a, r))" by (rule frame_repE) blast
  have "ps' = ps" using frame_listsD(1) [OF 1(1)] frame_listsD(1) [OF 2(1)] by (rule chain_unique [symmetric])
  moreover have "H' = H"
    using dchain_unique [OF frame_listsD(2) [OF 2(1)] frame_listsD(2) [OF 1(1)]] by (simp add: fun_eq_iff)
  ultimately have "al' a = Some r \<longleftrightarrow> al a = Some r" for a r using 1(3) 2(3) by simp
  then have "al' a = al a" for a by (metis option.exhaust)
  then show ?thesis using 1(2) 2(2) \<open>ps' = ps\<close> by auto
qed

lemma frame_avail_rep: "frame_rep s fl al \<Longrightarrow> frame_avail s = set fl \<union> frame_pool s"
proof -
  assume "frame_rep s fl al"
  then have "{a. \<exists>fl al. frame_rep s fl al \<and> a \<in> set fl} = set fl" using frame_rep_unique by blast
  then show ?thesis by (simp add: frame_avail_def)
qed

lemma frame_rep_pages: "frame_rep s fl al \<Longrightarrow> distinct fl \<and> (\<forall>a \<in> set fl. a < 0x100000 \<and> al a = None)"
proof (erule frame_repE, intro conjI ballI)
  fix ps H
  assume L: "frame_lists s ps H" and fl: "fl = map (cell_addr s) ps"
    and al: "\<And>a r. al a = Some r \<longleftrightarrow> (\<exists>p \<in> set (H (slot a)). cell_info s p = Some (a, r))"
  show "distinct fl"
    using fl chain_distinct [OF frame_listsD(1) [OF L]] inj_on_subset [OF frame_listsD(5) [OF L]]
    by (simp add: distinct_map)
  fix a assume "a \<in> set fl"
  then obtain p where p: "p \<in> set ps" "a = cell_addr s p" using fl by auto
  then show "a < 0x100000" using frame_listsD(6) [OF L] by auto
  show "al a = None"
  proof (rule ccontr)
    assume "al a \<noteq> None"
    then obtain q r where q: "q \<in> set (H (slot a))" "cell_info s q = Some (a, r)" using al by blast
    then have "q = p" using cell_unique [OF L, of q p] p by (auto dest: info_addr)
    with q(1) p(1) frame_listsD(3) [OF L, of "slot a"] show False by auto
  qed
qed

lemma frame_rep_cong:
  assumes "frame_mem t = frame_mem s" "frame_list t = frame_list s" "frame_hash t = frame_hash s"
  shows "frame_rep t fl al = frame_rep s fl al"
  using assms by (simp add: frame_rep_def frame_lists_def cell_info_def)

lemma pool_step:
  assumes "oom_pool s = n * PAGESZ" and "0 < n" and "n \<le> 0x80"
  shows "oom_pool s - PAGESZ = (n - 1) * PAGESZ" and "(n - 1) * PAGESZ div PAGESZ = n - 1"
    and "(n - 1) * PAGESZ = 0 \<longleftrightarrow> n = 1" and "n - 1 \<le> 0x80"
proof -
  have "n - 1 < 0x100000" and le: "n - 1 \<le> 0x80" using assms(2,3) by unat_arith+
  then show div: "(n - 1) * PAGESZ div PAGESZ = n - 1" using page_number by blast
  show "n - 1 \<le> 0x80" by (fact le)
  show "oom_pool s - PAGESZ = (n - 1) * PAGESZ" using assms(1) by (simp add: algebra_simps)
  show "(n - 1) * PAGESZ = 0 \<longleftrightarrow> n = 1" using div by (metis div_0 mult_zero_left right_minus_eq)
qed

lemma frame_new_oom:
  assumes "out_of_memory s" and "frame_inv s" and "frame_new s = Some (f, s')"
  shows "s' = s\<lparr>oom_pool := f\<rparr> \<and> frame_inv s' \<and> f = f div PAGESZ * PAGESZ \<and>
    f div PAGESZ \<in> frame_avail s \<and> frame_avail s' = frame_avail s - {f div PAGESZ} \<and>
    frame_pool s' = frame_pool s - {f div PAGESZ}"
proof -
  obtain fl al where R: "frame_rep s fl al" "\<forall>a \<in> set fl \<union> dom al. 0x800 \<le> a"
    using assms(2) unfolding frame_inv_def by blast
  define n where "n = oom_pool s div PAGESZ"
  have n: "oom_pool s = n * PAGESZ" "0 < n" "n \<le> 0x80"
    using assms(2) unfolding frame_inv_def n_def by auto
  note st = pool_step [OF n]
  have f: "f = (n - 1) * PAGESZ" "s' = s\<lparr>oom_pool := f\<rparr>" "n \<noteq> 1"
    using assms(1,3) st by (auto simp: frame_new.simps Let_def split: if_splits)
  have n1: "0 < n - 1" using n(2) f(3) by (simp add: word_gt_0)
  have pool: "frame_pool s' = frame_pool s - {n - 1}" "n - 1 \<in> frame_pool s"
    using n st(2) f(1,2) n1 n_def less_pred_iff [OF n(2)] pred_less [OF n(2)]
    unfolding frame_pool_def by auto
  have R': "frame_rep s' fl al" using R(1) frame_rep_cong [of s' s] f(2) by simp
  have "n - 1 \<notin> set fl"
  proof
    assume "n - 1 \<in> set fl"
    then have "0x800 \<le> n - 1" using R(2) by auto
    with st(4) show False by unat_arith
  qed
  with pool frame_avail_rep [OF R(1)] frame_avail_rep [OF R'] have
    "frame_avail s' = frame_avail s - {n - 1}" "n - 1 \<in> frame_avail s" by auto
  moreover have "frame_inv s'"
    unfolding frame_inv_def using R' R(2) f(1,2) st n1 by auto
  ultimately show ?thesis using f st(2) pool(1) by auto
qed

lemma frame_new_supply:
  assumes "frame_inv s" and "frame_new s = Some (f, s')"
  shows "frame_inv s' \<and> f = f div PAGESZ * PAGESZ \<and> f div PAGESZ \<in> frame_avail s \<and>
    frame_avail s' = frame_avail s - {f div PAGESZ}"
proof (cases "out_of_memory s")
  case True
  then show ?thesis using frame_new_oom [OF _ assms] by blast
next
  case False
  obtain fl al where R: "frame_rep s fl al" "\<forall>a \<in> set fl \<union> dom al. 0x800 \<le> a"
    using assms(1) unfolding frame_inv_def by blast
  show ?thesis
  proof (cases fl)
    case Nil
    let ?s = "s\<lparr>out_of_memory := True\<rparr>"
    have "frame_list s = 0" using R(1) Nil by (auto simp: frame_rep_def frame_lists_def)
    then have "frame_new s = frame_new ?s" using False by (subst frame_new.simps) simp
    moreover have "frame_rep ?s fl al = frame_rep s fl al" for fl al by (rule frame_rep_cong) auto
    then have "frame_inv ?s" "frame_avail ?s = frame_avail s"
      using assms(1) by (simp_all add: frame_inv_def frame_avail_def frame_pool_def)
    ultimately show ?thesis using frame_new_oom [of ?s f s'] assms(2) by auto
  next
    case (Cons b gl)
    with frame_new_refines [of s b gl al] R(1) False assms(2) have
      R': "f = b * PAGESZ" "frame_rep s' gl (al(b \<mapsto> 1))" by auto
    have b: "f div PAGESZ = b" "b \<notin> set gl" "0x800 \<le> b"
      using frame_rep_pages [OF R(1)] Cons R'(1) page_number R(2) by auto
    have pool: "oom_pool s' = oom_pool s"
      using assms(2) False R(1) Cons
      by (subst (asm) frame_new.simps) (auto simp: Let_def fs_upd_def frame_rep_def frame_lists_def split: if_splits option.splits)
    have "b \<notin> frame_pool s"
    proof
      assume "b \<in> frame_pool s"
      with assms(1) b(3) show False by (auto simp: frame_pool_def frame_inv_def) (unat_arith)
    qed
    with frame_avail_rep [OF R(1)] frame_avail_rep [OF R'(2)] b pool Cons have
      "frame_avail s' = frame_avail s - {b}" "b \<in> frame_avail s" by (auto simp: frame_pool_def)
    moreover have "frame_inv s'"
    proof -
      have "\<forall>a \<in> set gl \<union> dom (al(b \<mapsto> 1)). 0x800 \<le> a" using R(2) Cons by auto
      with R'(2) assms(1) pool show ?thesis unfolding frame_inv_def by metis
    qed
    ultimately show ?thesis using R'(1) b(1) by simp
  qed
qed

text \<open>How many more allocations succeed: once the free list ran empty, only the boot pool is left.\<close>

definition frame_count :: "'a frame_state_scheme \<Rightarrow> nat" where
  "frame_count s = card (if out_of_memory s then frame_pool s else frame_avail s)"

lemma frame_new_oom_total:
  assumes "out_of_memory s" and "frame_inv s" and "frame_pool s \<noteq> {}"
  shows "\<exists>f s'. frame_new s = Some (f, s')"
proof -
  define n where "n = oom_pool s div PAGESZ"
  have n: "oom_pool s = n * PAGESZ" "0 < n" "n \<le> 0x80"
    using assms(2) unfolding frame_inv_def n_def by auto
  have "n \<noteq> 1"
  proof
    assume "n = 1"
    with assms(3) obtain m :: u32 where "0 < m" "m < 1" by (auto simp: frame_pool_def n_def)
    then show False by unat_arith
  qed
  then show ?thesis using assms(1) pool_step [OF n] by (simp add: frame_new.simps Let_def)
qed

lemma frame_new_total:
  assumes "frame_inv s" and "0 < frame_count s"
  shows "\<exists>f s'. frame_new s = Some (f, s')"
proof (cases "out_of_memory s")
  case True
  then show ?thesis using frame_new_oom_total [OF True assms(1)] assms(2)
    by (auto simp: frame_count_def card_gt_0_iff)
next
  case False
  obtain fl al where R: "frame_rep s fl al" using assms(1) unfolding frame_inv_def by blast
  show ?thesis
  proof (cases fl)
    case Nil
    let ?s = "s\<lparr>out_of_memory := True\<rparr>"
    have "frame_list s = 0" using R Nil by (auto simp: frame_rep_def frame_lists_def)
    then have "frame_new s = frame_new ?s" using False by (subst frame_new.simps) simp
    moreover have "frame_rep ?s fl al = frame_rep s fl al" for fl al by (rule frame_rep_cong) auto
    then have "frame_inv ?s" "frame_pool ?s = frame_pool s"
      using assms(1) by (simp_all add: frame_inv_def frame_pool_def)
    moreover have "frame_pool s \<noteq> {}"
      using assms(2) False Nil frame_avail_rep [OF R] by (auto simp: frame_count_def card_gt_0_iff)
    ultimately show ?thesis using frame_new_oom_total [of ?s] by simp
  next
    case (Cons b gl)
    then show ?thesis using frame_new_refines [of s b gl al] R False by auto
  qed
qed

lemma card_minus: "card A \<le> Suc (card (A - {x}))" for x :: u32
  by (cases "x \<in> A") (simp_all add: card_Diff_singleton_if)

lemma frame_new_count:
  assumes "frame_inv s" and "frame_new s = Some (f, s')"
  shows "frame_count s \<le> Suc (frame_count s')"
proof (cases "out_of_memory s")
  case True
  have "s' = s\<lparr>oom_pool := f\<rparr>" and pool: "frame_pool s' = frame_pool s - {f div PAGESZ}"
    using frame_new_oom [OF True assms] by blast+
  then have "out_of_memory s'" using True by simp
  then show ?thesis using True card_minus by (simp add: frame_count_def pool)
next
  case False
  have fresh: "frame_avail s' = frame_avail s - {f div PAGESZ}" using frame_new_supply [OF assms] by blast
  show ?thesis
  proof (cases "frame_list s = 0")
    case True
    let ?s = "s\<lparr>out_of_memory := True\<rparr>"
    obtain fl al where R: "frame_rep s fl al" using assms(1) unfolding frame_inv_def by blast
    with True have "fl = []" by (auto simp: frame_rep_def frame_lists_def)
    then have avail: "frame_avail s = frame_pool s" using frame_avail_rep [OF R] by simp
    have new: "frame_new ?s = Some (f, s')" using assms(2) True False by (subst (asm) frame_new.simps) simp
    have "frame_rep ?s fl al = frame_rep s fl al" for fl al by (rule frame_rep_cong) auto
    then have inv: "frame_inv ?s" "frame_pool ?s = frame_pool s" "out_of_memory ?s"
      using assms(1) by (simp_all add: frame_inv_def frame_pool_def)
    have oom: "s' = ?s\<lparr>oom_pool := f\<rparr>" "frame_pool s' = frame_pool s - {f div PAGESZ}"
      using frame_new_oom [OF inv(3,1) new] unfolding inv(2) by blast+
    then have "out_of_memory s'" by simp
    then show ?thesis using False card_minus by (simp add: frame_count_def oom(2) avail)
  next
    case nonempty: False
    have "\<not> out_of_memory s'"
      using assms(2) False nonempty
      by (subst (asm) frame_new.simps) (auto simp: Let_def fs_upd_def split: if_splits option.splits)
    then show ?thesis using False card_minus by (simp add: frame_count_def fresh)
  qed
qed

text \<open>The allocator's fields are the only ones its operations change.\<close>

definition frame_only :: "'a frame_state_scheme \<Rightarrow> 'a frame_state_scheme \<Rightarrow> bool" where
  "frame_only s s' \<longleftrightarrow> (\<exists>m l h b p. s' = s\<lparr>frame_mem := m, frame_list := l, frame_hash := h,
     out_of_memory := b, oom_pool := p\<rparr>)"

lemma frame_only_iff: "frame_only s s' \<longleftrightarrow> frame_state.more s' = frame_state.more s"
  unfolding frame_only_def by (cases s; cases s') auto

lemma frame_only_trans: "frame_only s t \<Longrightarrow> frame_only t u \<Longrightarrow> frame_only s u"
  by (simp add: frame_only_iff)

lemma frame_only_refl [simp]: "frame_only s s"
  by (simp add: frame_only_iff)

lemma fs_upd_only: "fs_upd s p f = Some s' \<Longrightarrow> frame_state.more s' = frame_state.more s"
  by (auto simp: fs_upd_def split: option.splits)

lemma frame_new_only: "frame_new s = Some (f, s') \<Longrightarrow> frame_only s s'"
  unfolding frame_only_iff
proof (induction s rule: frame_new.induct)
  case (1 s)
  then show ?case
    by (subst (asm) (2) frame_new.simps)
       (auto simp: Let_def dest!: fs_upd_only split: if_splits)
qed

lemma frame_pull_only: "frame_pull s p = Some s' \<Longrightarrow> frame_state.more s' = frame_state.more s"
  by (auto simp: frame_pull_def dest!: fs_upd_only split: if_splits)

lemma frame_free_only: "frame_free s f = Some s' \<Longrightarrow> frame_only s s'"
  unfolding frame_only_iff
  by (auto simp: frame_free_def dest!: fs_upd_only frame_pull_only split: if_splits)

lemma frame_ref_only: "frame_ref s f = Some s' \<Longrightarrow> frame_only s s'"
  unfolding frame_only_iff by (auto simp: frame_ref_def dest!: fs_upd_only split: if_splits)

lemma fs_upd_pool: "fs_upd s p f = Some s' \<Longrightarrow> oom_pool s' = oom_pool s \<and> out_of_memory s' = out_of_memory s"
  by (auto simp: fs_upd_def split: option.splits)

lemma frame_pull_pool: "frame_pull s p = Some s' \<Longrightarrow> oom_pool s' = oom_pool s"
  by (auto simp: frame_pull_def dest!: fs_upd_pool split: if_splits)

lemma frame_free_pool: "frame_free s f = Some s' \<Longrightarrow> oom_pool s' = oom_pool s"
  by (auto simp: frame_free_def dest!: fs_upd_pool frame_pull_pool split: if_splits)

lemma frame_ref_pool: "frame_ref s f = Some s' \<Longrightarrow> oom_pool s' = oom_pool s \<and> out_of_memory s' = out_of_memory s"
  by (auto simp: frame_ref_def dest!: fs_upd_pool split: if_splits)

lemma frame_inv_transfer:
  assumes "frame_inv s" and "oom_pool s' = oom_pool s" and "frame_rep s' fl al" and "\<forall>a \<in> set fl \<union> dom al. 0x800 \<le> a"
  shows "frame_inv s'"
  using assms unfolding frame_inv_def by (simp only: assms(2)) blast

lemma frame_free_supply:
  assumes "frame_inv s"
  shows "\<exists>s'. frame_free s f = Some s' \<and> frame_inv s' \<and> frame_avail s \<subseteq> frame_avail s' \<and>
    frame_avail s' \<subseteq> insert (f div PAGESZ) (frame_avail s)"
proof -
  obtain fl al where R: "frame_rep s fl al" "\<forall>a \<in> set fl \<union> dom al. 0x800 \<le> a"
    using assms unfolding frame_inv_def by blast
  obtain s' where s': "frame_free s f = Some s'" "represents s' (spec_free (f div PAGESZ) (fl, al))"
    using frame_free_refines [OF R(1), of f] by blast
  obtain fl' al' where S: "spec_free (f div PAGESZ) (fl, al) = (fl', al')" by fastforce
  have R': "frame_rep s' fl' al'" using s'(2) by (simp only: S represents_def fst_conv snd_conv)
  have pool: "oom_pool s' = oom_pool s" using frame_free_pool [OF s'(1)] .
  have fl': "set fl \<subseteq> set fl'" "set fl' \<subseteq> insert (f div PAGESZ) (set fl)" "set fl' \<union> dom al' \<subseteq> set fl \<union> dom al"
    using S by (auto split: option.splits if_splits)
  have "frame_inv s'" using frame_inv_transfer [OF assms pool R'] R(2) fl'(3) by blast
  moreover have "frame_avail s = set fl \<union> frame_pool s" "frame_avail s' = set fl' \<union> frame_pool s"
    using frame_avail_rep [OF R(1)] frame_avail_rep [OF R'] pool by (simp_all add: frame_pool_def)
  ultimately show ?thesis using s'(1) fl' by auto
qed

lemma frame_ref_supply:
  assumes "frame_inv s" and "frame_ref s f = Some s'" and "frame_refc s f \<noteq> Some (- 1)"
  shows "frame_inv s'" "frame_avail s' = frame_avail s" "frame_count s' = frame_count s"
proof -
  obtain fl al where R: "frame_rep s fl al" "\<forall>a \<in> set fl \<union> dom al. 0x800 \<le> a"
    using assms(1) unfolding frame_inv_def by blast
  obtain fl' al' where S: "spec_ref (f div PAGESZ) (fl, al) = (fl', al')" by fastforce
  have "al (f div PAGESZ) \<noteq> Some (- 1)" using frame_refc_refines [OF R(1), of f] assms(3) by auto
  then have R': "frame_rep s' fl' al'"
    using frame_ref_refines [OF R(1), of f] assms(2) S by (simp add: represents_def)
  note pool = frame_ref_pool [OF assms(2)]
  have al: "fl' = fl" "dom al' = dom al" using S by (auto split: option.splits if_splits)
  show "frame_inv s'" using frame_inv_transfer [OF assms(1) _ R'] R(2) al pool by blast
  show avail: "frame_avail s' = frame_avail s"
    using frame_avail_rep [OF R(1)] frame_avail_rep [OF R'] al pool by (simp add: frame_pool_def)
  then show "frame_count s' = frame_count s" using pool by (simp add: frame_count_def frame_pool_def)
qed

text \<open>The contract as an interface: a supply from which every allocation takes one page.\<close>

primrec alloc_n :: "('s \<Rightarrow> (u32 \<times> 's) option) \<Rightarrow> nat \<Rightarrow> 's \<Rightarrow> (u32 list \<times> 's) option" where
  "alloc_n new 0 s = Some ([], s)"
| "alloc_n new (Suc n) s = do { (f, s) \<leftarrow> new s; (fs, s) \<leftarrow> alloc_n new n s; Some (f # fs, s) }"

locale fresh_supply =
  fixes new :: "'s \<Rightarrow> (u32 \<times> 's) option" and inv :: "'s \<Rightarrow> bool" and avail :: "'s \<Rightarrow> u32 set"
  assumes new_fresh: "inv s \<Longrightarrow> new s = Some (f, s') \<Longrightarrow>
    inv s' \<and> f = f div PAGESZ * PAGESZ \<and> f div PAGESZ \<in> avail s \<and> avail s' = avail s - {f div PAGESZ}"
begin

lemma alloc_n_fresh:
  "inv s \<Longrightarrow> alloc_n new n s = Some (fs, s') \<Longrightarrow>
   inv s' \<and> length fs = n \<and> distinct fs \<and> (\<forall>f \<in> set fs. f div PAGESZ \<in> avail s) \<and>
   avail s' = avail s - (\<lambda>f. f div PAGESZ) ` set fs"
proof (induction n arbitrary: s fs)
  case (Suc n)
  then obtain f s1 gs where st: "new s = Some (f, s1)" "alloc_n new n s1 = Some (gs, s')" "fs = f # gs"
    by auto
  note 1 = new_fresh [OF Suc.prems(1) st(1)]
  with Suc.IH [OF _ st(2)] have 2: "inv s' \<and> length gs = n \<and> distinct gs \<and>
      (\<forall>g \<in> set gs. g div PAGESZ \<in> avail s1) \<and> avail s' = avail s1 - (\<lambda>f. f div PAGESZ) ` set gs" by blast
  with 1 have "f \<notin> set gs" by auto
  with 1 2 st(3) show ?case by auto
qed simp

end

interpretation fsup: fresh_supply frame_new frame_inv frame_avail
  by unfold_locales (rule frame_new_supply)

section \<open>Properties\<close>

text \<open>A state with two free frames and the emergency pool untouched, as \<open>frame_add\<close> leaves it.\<close>

definition two_frames :: frame_state where
  "two_frames = \<lparr>
     frame_mem = [0x10 \<mapsto> \<lparr>fs_next = 0x20, fs_prev = 0, fs_refc = 0, fs_addr = 0x901\<rparr>,
                  0x20 \<mapsto> \<lparr>fs_next = 0, fs_prev = 0x10, fs_refc = 0, fs_addr = 0x900\<rparr>],
     frame_list = 0x10, frame_hash = (\<lambda>_. 0), out_of_memory = False, oom_pool = 0x80000\<rparr>"

lemma two_frames_rep: "frame_rep two_frames [0x901, 0x900] Map.empty"
  unfolding frame_rep_def frame_lists_def
  by (intro exI [of _ "[0x10, 0x20]"] exI [of _ "\<lambda>_. []"])
     (simp add: two_frames_def inj_on_def)

lemma two_frames_inv: "frame_inv two_frames" "\<not> out_of_memory two_frames"
proof -
  have "\<exists>fl al. frame_rep two_frames fl al \<and> (\<forall>a \<in> set fl \<union> dom al. 0x800 \<le> a)"
    using two_frames_rep by fastforce
  then show "frame_inv two_frames" by (simp add: frame_inv_def) (simp add: two_frames_def)
  show "\<not> out_of_memory two_frames" by (simp add: two_frames_def)
qed

text \<open>
  C1. \<open>frame_free\<close> implements its specification on every well-formed allocator: it always returns;
  an unallocated frame is ignored, a frame with one reference moves from the hash table to the head
  of the free list, and any other loses one reference; every other frame is untouched.
\<close>

theorem frame_free_correct:
  assumes "frame_rep s fl al"
  shows "\<exists>s'. frame_free s f = Some s' \<and> represents s' (spec_free (f div PAGESZ) (fl, al))"
  using assms by (rule frame_free_refines)

theorem frame_free_correct_witness:
  "\<exists>s'. frame_free two_frames 0x900000 = Some s' \<and> represents s' ([0x901, 0x900], Map.empty)"
  using frame_free_correct [OF two_frames_rep, where f = "0x900000"] by simp

text \<open>
  The life of a frame: \<open>frame_new\<close> returns the head of the free list with one reference; after
  \<open>n\<close> calls of \<open>frame_ref\<close> its count is \<open>n + 1\<close>, \<open>n\<close> calls of \<open>frame_free\<close> leave it allocated
  with one reference, and one more returns exactly the allocator it came from. All calls return.
\<close>

theorem frame_life_cycle:
  assumes "frame_rep s (b # fl) al" and "\<not> out_of_memory s" and "n < 2 ^ 32 - 1"
  shows "\<exists>f s1 s2 s3 s4. frame_new s = Some (f, s1) \<and> f div PAGESZ = b \<and>
    repeat_op n (\<lambda>s. frame_ref s f) s1 = Some s2 \<and> frame_refc s2 f = Some (of_nat (Suc n)) \<and>
    repeat_op n (\<lambda>s. frame_free s f) s2 = Some s3 \<and> frame_refc s3 f = Some 1 \<and>
    frame_free s3 f = Some s4 \<and> frame_refc s4 f = Some 0 \<and> frame_rep s4 (b # fl) al"
proof -
  have "b < 0x100000" "al b = None" using frame_rep_pages [OF assms(1)] by auto
  with assms obtain f s1 s2 s3 s4 where st: "frame_new s = Some (f, s1)" "f div PAGESZ = b"
      "repeat_op n (\<lambda>s. frame_ref s f) s1 = Some s2" "repeat_op n (\<lambda>s. frame_free s f) s2 = Some s3"
      "frame_free s3 f = Some s4"
    and rep: "frame_rep s2 fl (al(b \<mapsto> of_nat (Suc n)))" "frame_rep s3 fl (al(b \<mapsto> 1))"
      "frame_rep s4 (b # fl) al"
    using fa.life_cycle [of s b fl al n] by metis
  note refcs = rep [THEN frame_refc_refines, of f]
  show ?thesis using st refcs rep(3) \<open>al b = None\<close>
    by (intro exI conjI) (assumption | simp)+
qed

theorem frame_life_cycle_witness:
  "\<exists>f s1 s2 s3 s4. frame_new two_frames = Some (f, s1) \<and> f div PAGESZ = 0x901 \<and>
    repeat_op 2 (\<lambda>s. frame_ref s f) s1 = Some s2 \<and> frame_refc s2 f = Some (of_nat (Suc 2)) \<and>
    repeat_op 2 (\<lambda>s. frame_free s f) s2 = Some s3 \<and> frame_refc s3 f = Some 1 \<and>
    frame_free s3 f = Some s4 \<and> frame_refc s4 f = Some 0 \<and> frame_rep s4 [0x901, 0x900] Map.empty"
  by (rule frame_life_cycle [OF two_frames_rep two_frames_inv(2)]) simp

text \<open>
  Frames are never handed out twice: whatever mixture of free-list and emergency-pool frames
  \<open>n\<close> successive calls of \<open>frame_new\<close> return, they are pairwise distinct, come from the supply of
  the first state and are gone from the supply of the last one.
\<close>

theorem frame_new_distinct:
  assumes "frame_inv s" and "alloc_n frame_new n s = Some (fs, s')"
  shows "length fs = n \<and> distinct fs \<and> (\<forall>f \<in> set fs. f div PAGESZ \<in> frame_avail s) \<and>
    frame_avail s' = frame_avail s - (\<lambda>f. f div PAGESZ) ` set fs \<and> frame_inv s'"
  using fsup.alloc_n_fresh [OF assms] by blast

theorem frame_new_distinct_witness:
  "\<exists>fs s'. alloc_n frame_new 3 two_frames = Some (fs, s') \<and> fs = [0x901000, 0x900000, 0x7F000] \<and>
    distinct fs \<and> frame_inv s'"
proof -
  obtain s' where "alloc_n frame_new 3 two_frames = Some ([0x901000, 0x900000, 0x7F000], s')"
    by (auto simp: two_frames_def numeral_3_eq_3 frame_new.simps fs_upd_def Let_def)
  with frame_new_distinct [OF two_frames_inv(1) this] show ?thesis by auto
qed

end
