(* ===== verification/Paging.thy ===== *)
theory Paging
  imports Frame
begin

text \<open>
  The page tables: \<open>kernel/mem/page.c\<close> and \<open>kernel/mem/mem.c\<close>. The kernel reads and writes its
  page tables as ordinary virtual memory, through the last entry of the page directory, which maps
  the directory itself. The model therefore has the hardware's view, physical memory as frames of
  1024 words and a two-level walk from \<open>cr3\<close>, and every access of the code to \<open>cmap\<close>, \<open>ctbl\<close>,
  \<open>exmap\<close> and \<open>extbl\<close> is a load or store at a virtual address. Translations are those of the tables
  in memory: the code's TLB flushes (assembly) are taken to be sufficient.
\<close>

section \<open>The memory management unit\<close>

record mmu_state = frame_state +
  phys :: "20 word \<Rightarrow> 10 word \<Rightarrow> u32"
  cr3 :: u32

definition dirx :: "u32 \<Rightarrow> 10 word" where "dirx v = ucast (drop_bit 22 v)"
definition tblx :: "u32 \<Rightarrow> 10 word" where "tblx v = ucast (drop_bit 12 v)"
definition wordx :: "u32 \<Rightarrow> 10 word" where "wordx v = ucast (drop_bit 2 v)"
definition fnum :: "u32 \<Rightarrow> 20 word" where "fnum e = ucast (drop_bit 12 e)"

abbreviation pres :: "u32 \<Rightarrow> bool" where "pres e \<equiv> e AND PF_PRES \<noteq> 0"

definition walk :: "'a mmu_state_scheme \<Rightarrow> u32 \<Rightarrow> 20 word option" where
  "walk s v =
     (let pde = phys s (fnum (cr3 s)) (dirx v) in
      if pres pde then
        let pte = phys s (fnum pde) (tblx v) in
        if pres pte then Some (fnum pte) else None
      else None)"

definition load32 :: "'a mmu_state_scheme \<Rightarrow> u32 \<Rightarrow> u32 option" where
  "load32 s v = map_option (\<lambda>f. phys s f (wordx v)) (walk s v)"

definition store32 :: "'a mmu_state_scheme \<Rightarrow> u32 \<Rightarrow> u32 \<Rightarrow> 'a mmu_state_scheme option" where
  "store32 s v x = map_option
     (\<lambda>f. s\<lparr>phys := (phys s)(f := (phys s f)(wordx v := x))\<rparr>) (walk s v)"

text \<open>\<open>memclr\<close> of \<open>n\<close> words; the byte loop of the source clears the same words.\<close>

primrec memclr :: "'a mmu_state_scheme \<Rightarrow> u32 \<Rightarrow> nat \<Rightarrow> 'a mmu_state_scheme option" where
  "memclr s v 0 = Some s"
| "memclr s v (Suc n) = do { s \<leftarrow> memclr s v n; store32 s (v + 4 * of_nat n) 0 }"

section \<open>Page operations\<close>

abbreviation (input) cmap :: u32 where "cmap \<equiv> PGE_MAP + 0x3FF000"
abbreviation (input) ctbl :: u32 where "ctbl \<equiv> PGE_MAP"
abbreviation (input) exmap :: u32 where "exmap \<equiv> TMP_MAP + 0x3FF000"
abbreviation (input) extbl :: u32 where "extbl \<equiv> TMP_MAP"

definition page_exget :: "'a mmu_state_scheme \<Rightarrow> u32 \<Rightarrow> frame_t option" where
  "page_exget s page = do {
     e \<leftarrow> load32 s (exmap + 4 * drop_bit 22 page);
     if e AND PF_PRES = 0 then Some 0 else load32 s (extbl + 4 * drop_bit 12 page)
   }"

definition page_extouch :: "'a mmu_state_scheme \<Rightarrow> u32 \<Rightarrow> 'a mmu_state_scheme option" where
  "page_extouch s page = (let page = page AND NOT 0x3FFFFF in do {
     e \<leftarrow> load32 s (exmap + 4 * drop_bit 22 page);
     if e AND PF_PRES \<noteq> 0 then Some s
     else do {
       (f, s) \<leftarrow> frame_new s;
       s \<leftarrow> store32 s (exmap + 4 * drop_bit 22 page) (f OR PF_PRES OR PF_RW OR PF_USER);
       memclr s (extbl + 4 * drop_bit 12 page) 1024
     }
   })"

definition page_exset :: "'a mmu_state_scheme \<Rightarrow> u32 \<Rightarrow> frame_t \<Rightarrow> 'a mmu_state_scheme option" where
  "page_exset s page val = do {
     e \<leftarrow> load32 s (exmap + 4 * drop_bit 22 page);
     s \<leftarrow> (if e AND PF_PRES = 0 then page_extouch s page else Some s);
     store32 s (extbl + 4 * drop_bit 12 page) val
   }"

definition page_get :: "'a mmu_state_scheme \<Rightarrow> u32 \<Rightarrow> frame_t option" where
  "page_get s page = do {
     e \<leftarrow> load32 s (cmap + 4 * (page div SEGSZ));
     if e AND PF_PRES = 0 then Some 0 else load32 s (ctbl + 4 * (page div PAGESZ))
   }"

definition page_touch :: "'a mmu_state_scheme \<Rightarrow> u32 \<Rightarrow> 'a mmu_state_scheme option" where
  "page_touch s page = (let page = page AND NOT 0x3FFFFF in do {
     e \<leftarrow> load32 s (cmap + 4 * drop_bit 22 page);
     if e AND PF_PRES \<noteq> 0 then Some s
     else do {
       (f, s) \<leftarrow> frame_new s;
       s \<leftarrow> store32 s (cmap + 4 * drop_bit 22 page) (f OR PF_PRES OR PF_RW OR PF_USER);
       memclr s (ctbl + 4 * drop_bit 12 page) 1024
     }
   })"

definition page_set :: "'a mmu_state_scheme \<Rightarrow> u32 \<Rightarrow> frame_t \<Rightarrow> 'a mmu_state_scheme option" where
  "page_set s page val = do {
     e \<leftarrow> load32 s (cmap + 4 * drop_bit 22 page);
     s \<leftarrow> (if e AND PF_PRES = 0 then page_touch s page else Some s);
     store32 s (ctbl + 4 * drop_bit 12 page) val
   }"

section \<open>Allocating and freeing ranges\<close>

text \<open>
  The loops of \<open>mem_alloc\<close> and \<open>mem_free\<close>, with the loop variable at its 32-bit width: a range that
  ends above \<open>0xFFFFF000\<close> would wrap around and not end.
\<close>

partial_function (option) mem_alloc_loop ::
  "'a mmu_state_scheme \<Rightarrow> u32 \<Rightarrow> u32 \<Rightarrow> u16 \<Rightarrow> 'a mmu_state_scheme option" where
  "mem_alloc_loop s i end flags =
     (if i < end then do {
        e \<leftarrow> page_get s i;
        s \<leftarrow> (if e AND PF_PRES = 0 then do {
                (f, s) \<leftarrow> frame_new s;
                page_set s i (page_fmt f ((ucast flags AND PF_MASK) OR PF_PRES))
              }
              else Some s);
        mem_alloc_loop s (i + 0x1000) end flags
      }
      else Some s)"

definition mem_alloc :: "'a mmu_state_scheme \<Rightarrow> u32 \<Rightarrow> u32 \<Rightarrow> u16 \<Rightarrow> 'a mmu_state_scheme option" where
  "mem_alloc s base sz flags = mem_alloc_loop s (base AND NOT 0xFFF) (base + sz) flags"

partial_function (option) mem_free_loop ::
  "'a mmu_state_scheme \<Rightarrow> u32 \<Rightarrow> u32 \<Rightarrow> 'a mmu_state_scheme option" where
  "mem_free_loop s i end =
     (if i < end then do {
        e \<leftarrow> page_get s i;
        s \<leftarrow> (if e AND PF_PRES \<noteq> 0 then do {
                e \<leftarrow> page_get s i;
                s \<leftarrow> frame_free s (page_ufmt e);
                page_set s i 0
              }
              else Some s);
        mem_free_loop s (i + 0x1000) end
      }
      else Some s)"

definition mem_free :: "'a mmu_state_scheme \<Rightarrow> u32 \<Rightarrow> u32 \<Rightarrow> 'a mmu_state_scheme option" where
  "mem_free s base sz = mem_free_loop s (base AND NOT 0xFFF) (base + sz)"

section \<open>Address arithmetic\<close>

lemmas unat_cast = unsigned_ucast_eq unsigned_drop_bit_eq drop_bit_eq_div take_bit_eq_mod unat_div

lemma unat_idx:
  "unat (dirx v) = unat v div 0x400000" "unat (tblx v) = unat v div 0x1000 mod 0x400"
  "unat (wordx v) = unat v div 4 mod 0x400"
proof -
  have "unat v < 2 ^ 32" using unsigned_less [of v] by simp
  then have "unat v div 0x400000 < 0x400" by simp
  then show "unat (dirx v) = unat v div 0x400000" by (simp add: dirx_def unat_cast)
qed (simp_all add: tblx_def wordx_def unat_cast)

lemma tab_nat:
  fixes n k :: nat
  assumes "n < 0x100000"
  shows "(k * 0x400000 + 4 * n) div 0x400000 = k"
    and "(k * 0x400000 + 4 * n) div 0x1000 mod 0x400 = n div 0x400 mod 0x400"
    and "(k * 0x400000 + 4 * n) div 4 mod 0x400 = n mod 0x400"
proof -
  show "(k * 0x400000 + 4 * n) div 0x400000 = k" using assms by simp
  have "(k * 0x400000 + 4 * n) div 0x1000 = n div 0x400 + k * 0x400" by simp
  then show "(k * 0x400000 + 4 * n) div 0x1000 mod 0x400 = n div 0x400 mod 0x400" by (simp only: mod_mult_self1)
  have "(k * 0x400000 + 4 * n) div 4 = n + (k * 0x400) * 0x400" by simp
  then show "(k * 0x400000 + 4 * n) div 4 mod 0x400 = n mod 0x400" by (simp only: mod_mult_self1)
qed

lemma tab_index:
  assumes "unat v = k * 0x400000 + 4 * n" and "n < 0x100000" and "k < 0x400"
  shows "dirx v = of_nat k" and "tblx v = of_nat (n div 0x400)" and "wordx v = of_nat n"
  using assms(3) tab_nat [OF assms(2), of k]
  by (simp_all add: word_unat_eq_iff unat_idx assms(1) unat_of_nat)

lemma unat_tab:
  assumes "unat j < 0x100000"
  shows "unat (ctbl + 4 * j) = 1023 * 0x400000 + 4 * unat j"
    and "unat (extbl + 4 * j) = 1022 * 0x400000 + 4 * unat j"
proof -
  have "unat (4 * j) = 4 * unat j" using unat_mult_lem [of "4::u32" j] assms by simp
  then show "unat (ctbl + 4 * j) = 1023 * 0x400000 + 4 * unat j"
    and "unat (extbl + 4 * j) = 1022 * 0x400000 + 4 * unat j"
    using unat_add_lem [of "0xFFC00000::u32" "4 * j"] unat_add_lem [of "0xFF800000::u32" "4 * j"] assms
    by simp_all
qed

lemma unat_shift22: "unat (drop_bit 22 v) = unat v div 0x400000" for v :: u32
  by (simp add: unat_cast)

lemma unat_shift12: "unat (drop_bit 12 v) = unat v div 0x1000" for v :: u32
  by (simp add: unat_cast)

lemma unat_u32: "unat v < 0x100000000" for v :: u32
  using unsigned_less [of v] by simp

lemma idx_of_nat: "dirx v = of_nat (unat v div 0x400000)" "tblx v = of_nat (unat v div 0x1000)"
  by (simp_all add: dirx_def tblx_def word_unat_eq_iff unat_of_nat unat_cast)

text \<open>Where the code's index expressions into \<open>cmap\<close>, \<open>ctbl\<close>, \<open>exmap\<close> and \<open>extbl\<close> lead.\<close>

lemma dir_word:
  "dirx (cmap + 4 * drop_bit 22 v) = 1023 \<and> tblx (cmap + 4 * drop_bit 22 v) = 1023 \<and>
   wordx (cmap + 4 * drop_bit 22 v) = dirx v"
  "dirx (exmap + 4 * drop_bit 22 v) = 1022 \<and> tblx (exmap + 4 * drop_bit 22 v) = 1023 \<and>
   wordx (exmap + 4 * drop_bit 22 v) = dirx v"
proof -
  define j :: u32 where "j = 0xFFC00 + drop_bit 22 v"
  define n where "n = unat v div 0x400000"
  have n: "n < 0x400" using unat_u32 [of v] by (simp add: n_def)
  have j: "unat j = 0xFFC00 + n"
    using unat_add_lem [of "0xFFC00 :: u32" "drop_bit 22 v"] n by (simp add: j_def n_def unat_shift22)
  have lt: "unat j < 0x100000" and d: "unat j div 0x400 = 1023" using n j by simp_all
  have "(0xFFC00 + n) mod 0x400 = n" using n mod_mult_self3 [of 1023 "0x400" n] by simp
  then have w: "(of_nat (unat j) :: 10 word) = dirx v"
    by (simp only: j word_unat_eq_iff unat_of_nat) (simp add: unat_idx n_def)
  have eq: "cmap + 4 * drop_bit 22 v = ctbl + 4 * j" "exmap + 4 * drop_bit 22 v = extbl + 4 * j"
    by (simp_all add: j_def)
  show "dirx (cmap + 4 * drop_bit 22 v) = 1023 \<and> tblx (cmap + 4 * drop_bit 22 v) = 1023 \<and>
      wordx (cmap + 4 * drop_bit 22 v) = dirx v"
    using tab_index [OF unat_tab(1) [OF lt] lt] d w unfolding eq by simp
  show "dirx (exmap + 4 * drop_bit 22 v) = 1022 \<and> tblx (exmap + 4 * drop_bit 22 v) = 1023 \<and>
      wordx (exmap + 4 * drop_bit 22 v) = dirx v"
    using tab_index [OF unat_tab(2) [OF lt] lt] d w unfolding eq by simp
qed

lemma table_word:
  "dirx (ctbl + 4 * drop_bit 12 v) = 1023 \<and> tblx (ctbl + 4 * drop_bit 12 v) = dirx v \<and>
   wordx (ctbl + 4 * drop_bit 12 v) = tblx v"
  "dirx (extbl + 4 * drop_bit 12 v) = 1022 \<and> tblx (extbl + 4 * drop_bit 12 v) = dirx v \<and>
   wordx (extbl + 4 * drop_bit 12 v) = tblx v"
proof -
  have lt: "unat (drop_bit 12 v) < 0x100000" using unat_u32 [of v] by (simp add: unat_shift12)
  have "unat (drop_bit 12 v) div 0x400 = unat v div 0x400000"
    by (simp add: unat_shift12 div_mult2_eq [symmetric])
  then show "dirx (ctbl + 4 * drop_bit 12 v) = 1023 \<and> tblx (ctbl + 4 * drop_bit 12 v) = dirx v \<and>
      wordx (ctbl + 4 * drop_bit 12 v) = tblx v"
    and "dirx (extbl + 4 * drop_bit 12 v) = 1022 \<and> tblx (extbl + 4 * drop_bit 12 v) = dirx v \<and>
      wordx (extbl + 4 * drop_bit 12 v) = tblx v"
    using tab_index [OF unat_tab(1) [OF lt] lt] tab_index [OF unat_tab(2) [OF lt] lt]
    by (simp_all add: idx_of_nat unat_shift12)
qed

lemma seg_base: "unat (v AND NOT 0x3FFFFF) = unat v div 0x400000 * 0x400000" for v :: u32
proof -
  have "v AND NOT 0x3FFFFF = push_bit 22 (drop_bit 22 v)"
  proof -
    have "(0x3FFFFF :: u32) = mask 22" by (simp add: mask_eq_exp_minus_1)
    then show ?thesis by (auto simp: bit_eq_iff bit_simps)
  qed
  moreover have "unat (push_bit 22 (drop_bit 22 v)) = unat v div 0x400000 * 0x400000"
    using unat_u32 [of v] by (simp add: push_bit_eq_mult unat_cast unat_mult_lem [THEN iffD1])
  ultimately show ?thesis by simp
qed

section \<open>Windows on a page directory\<close>

text \<open>
  The current directory is seen through slot 1023 (\<open>cmap\<close>, \<open>ctbl\<close>), another address space's
  directory through slot 1022 (\<open>exmap\<close>, \<open>extbl\<close>): in both cases the directory that the slot holds
  maps itself in its own slot 1023. \<open>page_get\<close> and \<open>page_exget\<close> and their siblings are the same
  code on the two windows.
\<close>

abbreviation cur_dir :: "'a mmu_state_scheme \<Rightarrow> 20 word" where "cur_dir s \<equiv> fnum (cr3 s)"

definition dir_entry :: "'a mmu_state_scheme \<Rightarrow> 20 word \<Rightarrow> u32 \<Rightarrow> u32" where
  "dir_entry s d v = (let e = phys s d (dirx v) in if pres e then phys s (fnum e) (tblx v) else 0)"

definition window :: "10 word \<Rightarrow> 'a mmu_state_scheme \<Rightarrow> 20 word \<Rightarrow> bool" where
  "window k s d \<longleftrightarrow>
     pres (phys s (cur_dir s) k) \<and> fnum (phys s (cur_dir s) k) = d \<and> pres (phys s d 1023) \<and> fnum (phys s d 1023) = d"

definition free_frame :: "'a mmu_state_scheme \<Rightarrow> 20 word \<Rightarrow> bool" where
  "free_frame s d \<longleftrightarrow> (ucast d :: u32) \<in> frame_avail s"

text \<open>
  What page-table code relies on: no page table, and neither of the directories, is a frame the
  allocator may hand out; the tables of the directory are distinct frames.
\<close>

definition tables_ok :: "'a mmu_state_scheme \<Rightarrow> 20 word \<Rightarrow> bool" where
  "tables_ok s d \<longleftrightarrow> frame_inv s \<and> \<not> free_frame s d \<and> \<not> free_frame s (cur_dir s) \<and>
     (\<forall>i < 1022. pres (phys s d i) \<longrightarrow>
        fnum (phys s d i) \<noteq> d \<and> fnum (phys s d i) \<noteq> cur_dir s \<and> \<not> free_frame s (fnum (phys s d i)) \<and>
        (\<forall>j < 1022. pres (phys s d j) \<and> fnum (phys s d j) = fnum (phys s d i) \<longrightarrow> j = i))"

definition get_in :: "u32 \<Rightarrow> u32 \<Rightarrow> 'a mmu_state_scheme \<Rightarrow> u32 \<Rightarrow> u32 option" where
  "get_in mp tb s page = do {
     e \<leftarrow> load32 s (mp + 4 * drop_bit 22 page);
     if e AND PF_PRES = 0 then Some 0 else load32 s (tb + 4 * drop_bit 12 page)
   }"

definition touch_in :: "u32 \<Rightarrow> u32 \<Rightarrow> 'a mmu_state_scheme \<Rightarrow> u32 \<Rightarrow> 'a mmu_state_scheme option" where
  "touch_in mp tb s page = (let page = page AND NOT 0x3FFFFF in do {
     e \<leftarrow> load32 s (mp + 4 * drop_bit 22 page);
     if e AND PF_PRES \<noteq> 0 then Some s
     else do {
       (f, s) \<leftarrow> frame_new s;
       s \<leftarrow> store32 s (mp + 4 * drop_bit 22 page) (f OR PF_PRES OR PF_RW OR PF_USER);
       memclr s (tb + 4 * drop_bit 12 page) 1024
     }
   })"

definition set_in :: "u32 \<Rightarrow> u32 \<Rightarrow> 'a mmu_state_scheme \<Rightarrow> u32 \<Rightarrow> u32 \<Rightarrow> 'a mmu_state_scheme option" where
  "set_in mp tb s page val = do {
     e \<leftarrow> load32 s (mp + 4 * drop_bit 22 page);
     s \<leftarrow> (if e AND PF_PRES = 0 then touch_in mp tb s page else Some s);
     store32 s (tb + 4 * drop_bit 12 page) val
   }"

lemma shift_div: "v div SEGSZ = drop_bit 22 v" "v div PAGESZ = drop_bit 12 v" for v :: u32
  by (simp_all add: drop_bit_eq_div)

lemma page_in_window:
  "page_get = get_in cmap ctbl" "page_touch = touch_in cmap ctbl" "page_set = set_in cmap ctbl"
  "page_exget = get_in exmap extbl" "page_extouch = touch_in exmap extbl" "page_exset = set_in exmap extbl"
  unfolding fun_eq_iff page_get_def get_in_def page_touch_def touch_in_def page_set_def set_in_def
    page_exget_def page_extouch_def page_exset_def shift_div
  by blast+

lemma fnum_entry [simp]: "fnum (f OR 7) = fnum f" "pres (f OR 7)"
proof -
  show "fnum (f OR 7) = fnum f"
    unfolding fnum_def by (rule bit_word_eqI) (auto simp: bit_simps bit_numeral_rec)
  have "(f OR 7) AND 1 = 1" by (rule bit_word_eqI) (auto simp: bit_simps)
  then show "pres (f OR 7)" by simp
qed

lemma fnum_page: "(ucast (fnum f) :: u32) = f div PAGESZ"
  unfolding shift_div fnum_def by (rule bit_word_eqI) (auto simp: bit_simps dest: bit_imp_le_length)

lemma phys_upd_eq [simp]: "frame_avail (s\<lparr>phys := p\<rparr>) = frame_avail s" "frame_inv (s\<lparr>phys := p\<rparr>) = frame_inv s"
proof -
  have "frame_rep (s\<lparr>phys := p\<rparr>) fl al = frame_rep s fl al" for fl al by (rule frame_rep_cong) auto
  then show "frame_avail (s\<lparr>phys := p\<rparr>) = frame_avail s" "frame_inv (s\<lparr>phys := p\<rparr>) = frame_inv s"
    by (simp_all add: frame_avail_def frame_inv_def frame_pool_def)
qed

lemma free_frame_phys [simp]:
  "free_frame (s\<lparr>phys := p\<rparr>) g = free_frame s g" "frame_count (s\<lparr>phys := p\<rparr>) = frame_count s"
  by (simp_all add: free_frame_def frame_count_def frame_pool_def)

lemma frame_only_mmu: "frame_only s s' \<Longrightarrow> phys s' = phys s \<and> cr3 s' = cr3 s"
  by (auto simp: frame_only_def)

definition cleared :: "nat \<Rightarrow> (10 word \<Rightarrow> u32) \<Rightarrow> 10 word \<Rightarrow> u32" where
  "cleared n g = (\<lambda>w. if unat w < n then 0 else g w)"

lemma cleared_0 [simp]: "cleared 0 g = g"
  by (simp add: cleared_def)

lemma cleared_Suc: "n < 1024 \<Longrightarrow> (cleared n g)(of_nat n := 0) = cleared (Suc n) g"
proof -
  assume "n < 1024"
  then have "unat w = n \<longleftrightarrow> w = of_nat n" for w :: "10 word" by (auto simp: unat_of_nat word_unat_eq_iff)
  then show ?thesis by (auto simp: cleared_def fun_eq_iff less_Suc_eq)
qed

lemma cleared_all: "cleared 1024 g w = 0"
proof -
  have "unat w < 2 ^ LENGTH(10)" by (rule unsigned_less)
  then show ?thesis by (simp add: cleared_def)
qed

locale table_window =
  fixes k :: "10 word" and mp tb :: u32
  assumes dir_at: "dirx (mp + 4 * drop_bit 22 v) = k \<and> tblx (mp + 4 * drop_bit 22 v) = 1023 \<and>
      wordx (mp + 4 * drop_bit 22 v) = dirx v"
    and tbl_at: "dirx (tb + 4 * drop_bit 12 v) = k \<and> tblx (tb + 4 * drop_bit 12 v) = dirx v \<and>
      wordx (tb + 4 * drop_bit 12 v) = tblx v"
    and high: "1022 \<le> k"
begin

lemma load_dir: "window k s d \<Longrightarrow> load32 s (mp + 4 * drop_bit 22 v) = Some (phys s d (dirx v))"
  by (simp add: load32_def walk_def Let_def window_def dir_at)

lemma store_dir: "window k s d \<Longrightarrow>
  store32 s (mp + 4 * drop_bit 22 v) x = Some (s\<lparr>phys := (phys s)(d := (phys s d)(dirx v := x))\<rparr>)"
  by (simp add: store32_def walk_def Let_def window_def dir_at)

lemma walk_tbl: "window k s d \<Longrightarrow>
  walk s (tb + 4 * drop_bit 12 v) = (if pres (phys s d (dirx v)) then Some (fnum (phys s d (dirx v))) else None)"
  by (simp add: walk_def Let_def window_def tbl_at)

lemma load_tbl: "window k s d \<Longrightarrow> pres (phys s d (dirx v)) \<Longrightarrow>
  load32 s (tb + 4 * drop_bit 12 v) = Some (phys s (fnum (phys s d (dirx v))) (tblx v))"
  by (simp add: load32_def walk_tbl tbl_at)

lemma store_tbl: "window k s d \<Longrightarrow> fnum (phys s d (dirx v)) = t \<Longrightarrow> pres (phys s d (dirx v)) \<Longrightarrow>
  store32 s (tb + 4 * drop_bit 12 v) x = Some (s\<lparr>phys := (phys s)(t := (phys s t)(tblx v := x))\<rparr>)"
  by (simp add: store32_def walk_tbl tbl_at)

lemma get_entry: "window k s d \<Longrightarrow> get_in mp tb s v = Some (dir_entry s d v)"
  by (simp add: get_in_def load_dir load_tbl dir_entry_def Let_def)

lemma window_other: "window k s d \<Longrightarrow> t \<noteq> d \<Longrightarrow> t \<noteq> cur_dir s \<Longrightarrow>
  window k (s\<lparr>phys := (phys s)(t := w)\<rparr>) d"
  by (simp add: window_def)

lemma window_slot: "window k s d \<Longrightarrow> i < 1022 \<Longrightarrow>
  window k (s\<lparr>phys := (phys s)(d := (phys s d)(i := w))\<rparr>) d"
  using high by (auto simp: window_def)

lemma memclr_table:
  assumes "window k s d" "fnum (phys s d i) = t" "pres (phys s d i)" "t \<noteq> d" "t \<noteq> cur_dir s"
    and "\<And>n. n < 1024 \<Longrightarrow> b + 4 * of_nat n = tb + 4 * drop_bit 12 (a n) \<and> dirx (a n) = i \<and> tblx (a n) = of_nat n"
  shows "n \<le> 1024 \<Longrightarrow> memclr s b n =
    Some (s\<lparr>phys := (phys s)(t := cleared n (phys s t))\<rparr>)"
proof (induction n)
  case (Suc n)
  let ?s = "s\<lparr>phys := (phys s)(t := cleared n (phys s t))\<rparr>"
  have W: "window k ?s d" using assms(1,4,5) by (rule window_other)
  have n: "n < 1024" using Suc.prems by simp
  note a = assms(6) [OF n]
have "fnum (phys ?s d (dirx (a n))) = t" "pres (phys ?s d (dirx (a n)))" using a assms(2,3,4) by simp_all
  note store_tbl [OF W this]
  moreover have "memclr s b n = Some ?s" using Suc.IH n by (simp del: fun_upd_apply)
  ultimately show ?case using a cleared_Suc [OF n] by (simp del: fun_upd_apply add: fun_upd_same)
qed simp

end

interpretation cur: table_window 1023 cmap ctbl
  by unfold_locales (use dir_word(1) table_word(1) in auto)

interpretation ext: table_window 1022 exmap extbl
  by unfold_locales (use dir_word(2) table_word(2) in auto)

lemma table_addresses:
  fixes v :: u32
  assumes "n < 1024"
  defines "b \<equiv> v AND NOT 0x3FFFFF" and "a \<equiv> (v AND NOT 0x3FFFFF) + 0x1000 * of_nat n"
  shows "tb + 4 * drop_bit 12 b + 4 * of_nat n = tb + 4 * drop_bit 12 a \<and> dirx a = dirx v \<and> tblx a = of_nat n"
proof -
  have b: "unat b = unat v div 0x400000 * 0x400000" unfolding b_def by (rule seg_base)
  have n: "unat (of_nat n * 0x1000 :: u32) = n * 0x1000" using assms(1) by (simp add: unat_word_ariths unat_of_nat)
  have "unat v div 0x400000 < 0x400" using unat_u32 [of v] by simp
  then have "unat v div 0x400000 * 0x400000 \<le> 0x3FF * 0x400000" by simp
  then have "unat b + n * 0x1000 < 2 ^ 32" using b assms(1) by simp
  then have a: "unat a = unat b + n * 0x1000"
    using unat_add_lem [of b "of_nat n * 0x1000"] n by (simp add: a_def b_def mult.commute)
  have "unat a div 0x1000 = unat b div 0x1000 + n" using a by simp
  moreover have "unat b div 0x1000 < 0x100000" using unat_u32 [of b] by simp
  ultimately have "drop_bit 12 a = drop_bit 12 b + of_nat n"
    using unat_add_lem [of "drop_bit 12 b" "of_nat n"] assms(1)
    by (simp add: word_unat_eq_iff unat_shift12 unat_of_nat)
  moreover have "dirx a = dirx v" "tblx a = of_nat n"
    using a b assms(1) unat_u32 [of v] by (simp_all add: word_unat_eq_iff unat_idx unat_of_nat)
  ultimately show ?thesis by (simp add: algebra_simps)
qed

lemma dirx_seg [simp]: "dirx (v AND NOT 0x3FFFFF) = dirx v"
  using table_addresses [of 0 0 v] by simp

lemma new_frame_facts:
  assumes "frame_inv s" and "frame_new s = Some (f, s1)"
  shows "frame_inv s1" "free_frame s (fnum f)" "\<not> free_frame s1 (fnum f)"
    "free_frame s1 g \<Longrightarrow> free_frame s g" "phys s1 = phys s" "cr3 s1 = cr3 s"
  using frame_new_supply [OF assms] frame_only_mmu [OF frame_new_only [OF assms(2)]]
  by (auto simp: free_frame_def fnum_page)

lemma unat_u20: "unat g < 0x100000" for g :: "20 word"
  using unsigned_less [of g] by simp

lemma new_frame_only:
  assumes "frame_inv s" and "frame_new s = Some (f, s1)"
  shows "free_frame s1 g \<longleftrightarrow> free_frame s g \<and> g \<noteq> fnum f"
proof -
  have "(ucast g :: u32) = ucast (fnum f) \<longleftrightarrow> g = fnum f"
    using unat_u20 [of g] unat_u20 [of "fnum f"] by (auto simp: word_unat_eq_iff unat_cast)
  then show ?thesis using frame_new_supply [OF assms] by (auto simp: free_frame_def fnum_page)
qed

context table_window
begin

lemma touch_in_new:
  assumes W: "window k s d" and "tables_ok s d" and "dirx v < 1022" and "\<not> pres (phys s d (dirx v))"
    and new: "frame_new s = Some (f, s1)"
  shows "touch_in mp tb s v =
    Some (s1\<lparr>phys := (phys s)(d := (phys s d)(dirx v := f OR 7), fnum f := (\<lambda>w. 0))\<rparr>)"
proof -
  define b where "b = v AND NOT 0x3FFFFF"
  let ?s = "s1\<lparr>phys := (phys s)(d := (phys s d)(dirx v := f OR 7))\<rparr>"
  have inv: "frame_inv s" "\<not> free_frame s d" "\<not> free_frame s (cur_dir s)" using assms(2) by (auto simp: tables_ok_def)
  note N = new_frame_facts [OF inv(1) new]
  have ne: "fnum f \<noteq> d" "fnum f \<noteq> cur_dir s" using N(2) inv by auto
  have W1: "window k s1 d" using W N(5,6) by (simp add: window_def)
  have W2: "window k ?s d" using window_slot [OF W1 assms(3)] N(5) by simp
  have "memclr ?s (tb + 4 * drop_bit 12 b) 1024 =
      Some (?s\<lparr>phys := (phys ?s)(fnum f := cleared 1024 (phys ?s (fnum f)))\<rparr>)"
    using ne N(6) unfolding b_def
    by (intro memclr_table [OF W2 _ _ _ _ table_addresses [of _ _ v]]) auto
  moreover have "cleared 1024 g = (\<lambda>w. 0)" for g by (simp add: fun_eq_iff cleared_all)
  ultimately show ?thesis
    using assms(4) store_dir [OF W1, of b] N(5) dirx_seg [of v]
    unfolding touch_in_def Let_def b_def [symmetric] by (simp add: load_dir [OF W] new del: fun_upd_apply)
qed

end

lemma tables_okD:
  assumes "tables_ok s d"
  shows "frame_inv s" "\<not> free_frame s d" "\<not> free_frame s (cur_dir s)"
    and "i < 1022 \<Longrightarrow> pres (phys s d i) \<Longrightarrow>
      fnum (phys s d i) \<noteq> d \<and> fnum (phys s d i) \<noteq> cur_dir s \<and> \<not> free_frame s (fnum (phys s d i))"
    and "i < 1022 \<Longrightarrow> pres (phys s d i) \<Longrightarrow> j < 1022 \<Longrightarrow> pres (phys s d j) \<Longrightarrow>
      fnum (phys s d j) = fnum (phys s d i) \<Longrightarrow> j = i"
  using assms unfolding tables_ok_def by blast+

lemma tables_okI:
  assumes "frame_inv s" "\<not> free_frame s d" "\<not> free_frame s (cur_dir s)"
    and "\<And>i. i < 1022 \<Longrightarrow> pres (phys s d i) \<Longrightarrow>
      fnum (phys s d i) \<noteq> d \<and> fnum (phys s d i) \<noteq> cur_dir s \<and> \<not> free_frame s (fnum (phys s d i))"
    and "\<And>i j. i < 1022 \<Longrightarrow> pres (phys s d i) \<Longrightarrow> j < 1022 \<Longrightarrow> pres (phys s d j) \<Longrightarrow>
      fnum (phys s d j) = fnum (phys s d i) \<Longrightarrow> j = i"
  shows "tables_ok s d"
  using assms unfolding tables_ok_def by blast

text \<open>One more page table, cleared: the mapping it adds is empty, so no entry changes.\<close>

abbreviation add_table :: "'a mmu_state_scheme \<Rightarrow> 'a mmu_state_scheme \<Rightarrow> 20 word \<Rightarrow> 10 word \<Rightarrow> u32 \<Rightarrow> 'a mmu_state_scheme"
  where "add_table s s1 d i f \<equiv> s1\<lparr>phys := (phys s)(d := (phys s d)(i := f OR 7), fnum f := (\<lambda>w. 0))\<rparr>"

lemma add_table_ok:
  assumes T: "tables_ok s d" and i: "i < 1022" "\<not> pres (phys s d i)" and new: "frame_new s = Some (f, s1)"
  shows "tables_ok (add_table s s1 d i f) d"
    and "dirx w < 1022 \<Longrightarrow> dir_entry (add_table s s1 d i f) d w = dir_entry s d w"
    and "cr3 (add_table s s1 d i f) = cr3 s" "free_frame (add_table s s1 d i f) g \<longleftrightarrow> free_frame s g \<and> g \<noteq> fnum f"
    and "window k s d \<Longrightarrow> 1022 \<le> k \<Longrightarrow> window k (add_table s s1 d i f) d"
proof -
  let ?s = "add_table s s1 d i f"
  note T' = tables_okD [OF T]
  note inv = T'(1)
  note N = new_frame_facts [OF inv new] new_frame_only [OF inv new]
  have ne: "fnum f \<noteq> d" "fnum f \<noteq> cur_dir s" using N(2) T'(2,3) by auto
  have tab: "fnum (phys s d j) \<noteq> fnum f" if "j < 1022" "pres (phys s d j)" for j
    using N(2) T'(4) [OF that] by auto
  have d: "phys ?s d = (phys s d)(i := f OR 7)" using ne by simp
  show cr: "cr3 ?s = cr3 s" using N(6) by simp
  show free: "free_frame ?s g \<longleftrightarrow> free_frame s g \<and> g \<noteq> fnum f" for g
    by (simp only: free_frame_phys N(7))
  show "tables_ok ?s d"
  proof (rule tables_okI; (unfold d cr free)?)
    show "frame_inv ?s" using N(1) by simp
  next
    fix j assume "j < 1022" "pres (((phys s d)(i := f OR 7)) j)"
    then show "fnum (((phys s d)(i := f OR 7)) j) \<noteq> d \<and> fnum (((phys s d)(i := f OR 7)) j) \<noteq> cur_dir s \<and>
        \<not> (free_frame s (fnum (((phys s d)(i := f OR 7)) j)) \<and> fnum (((phys s d)(i := f OR 7)) j) \<noteq> fnum f)"
      using T'(4) [of j] ne by (cases "j = i") auto
  next
    fix j l assume "j < 1022" "pres (((phys s d)(i := f OR 7)) j)" "l < 1022" "pres (((phys s d)(i := f OR 7)) l)"
      "fnum (((phys s d)(i := f OR 7)) l) = fnum (((phys s d)(i := f OR 7)) j)"
    then show "l = j" using T'(5) [of j l] tab [of j] tab [of l] by (cases "j = i"; cases "l = i") auto
  qed (use T'(2,3) in auto)
  show "dir_entry ?s d w = dir_entry s d w" if "dirx w < 1022"
    using i ne tab [OF that] T'(4) [OF that] unfolding dir_entry_def d Let_def by (cases "dirx w = i") auto
  assume "window k s d" "1022 \<le> k"
  then show "window k ?s d" using i(1) ne N(6) by (auto simp: window_def)
qed

lemma set_entry_ok:
  fixes x :: u32
  assumes T: "tables_ok s d" and v: "dirx v < 1022" "pres (phys s d (dirx v))"
  defines "t \<equiv> fnum (phys s d (dirx v))"
  defines "s' \<equiv> s\<lparr>phys := (phys s)(t := (phys s t)(tblx v := x))\<rparr>"
  shows "tables_ok s' d"
    and "dirx w < 1022 \<Longrightarrow> dir_entry s' d w = (if dirx w = dirx v \<and> tblx w = tblx v then x else dir_entry s d w)"
    and "window k s d \<Longrightarrow> window k s' d"
proof -
  have t: "t \<noteq> d" "t \<noteq> cur_dir s" using tables_okD(4) [OF T v] by (auto simp: t_def)
  then have d: "phys s' d = phys s d" by (simp add: s'_def)
  moreover have "free_frame s' g = free_frame s g" "cur_dir s' = cur_dir s" "frame_inv s' = frame_inv s" for g
    by (simp_all add: s'_def del: fun_upd_apply)
  ultimately show "tables_ok s' d" using T by (simp add: tables_ok_def)
  show "window k s' d" if "window k s d" using t that by (simp add: s'_def window_def)
  assume w: "dirx w < 1022"
  have "fnum (phys s d (dirx w)) = t \<longleftrightarrow> dirx w = dirx v" if "pres (phys s d (dirx w))"
    using tables_okD(5) [OF T v w that] unfolding t_def by auto
  then show "dir_entry s' d w = (if dirx w = dirx v \<and> tblx w = tblx v then x else dir_entry s d w)"
    unfolding dir_entry_def Let_def d using v by (cases "pres (phys s d (dirx w))") (auto simp: s'_def t_def)
qed

text \<open>
  A frame that holds data: neither free nor a directory nor a table. Page-table operations keep its
  content.
\<close>

definition data_frame :: "'a mmu_state_scheme \<Rightarrow> 20 word \<Rightarrow> 20 word \<Rightarrow> bool" where
  "data_frame s d g \<longleftrightarrow> \<not> free_frame s g \<and> g \<noteq> d \<and> g \<noteq> cur_dir s \<and>
     (\<forall>i < 1022. pres (phys s d i) \<longrightarrow> fnum (phys s d i) \<noteq> g)"

definition data_kept :: "'a mmu_state_scheme \<Rightarrow> 20 word \<Rightarrow> 'a mmu_state_scheme \<Rightarrow> bool" where
  "data_kept s d s' \<longleftrightarrow> (\<forall>g. data_frame s d g \<longrightarrow> data_frame s' d g \<and> phys s' g = phys s g)"

lemma data_kept_trans: "data_kept s d t \<Longrightarrow> data_kept t d u \<Longrightarrow> data_kept s d u"
  by (simp add: data_kept_def)

lemma data_kept_set:
  assumes "tables_ok s d" "i < 1022" "pres (phys s d i)"
  shows "data_kept s d (s\<lparr>phys := (phys s)(fnum (phys s d i) := w)\<rparr>)"
  using tables_okD(4) [OF assms] assms(2,3) by (auto simp: data_kept_def data_frame_def)

lemma data_kept_add:
  assumes T: "tables_ok s d" and i: "i < 1022" "\<not> pres (phys s d i)" and new: "frame_new s = Some (f, s1)"
  shows "data_kept s d (add_table s s1 d i f)"
proof -
  have inv: "frame_inv s" by (rule tables_okD(1) [OF T])
  note N = new_frame_facts [OF inv new] new_frame_only [OF inv new]
  have "fnum f \<noteq> d" using N(2) tables_okD(2) [OF T] by auto
  then show ?thesis using N(2,6,7) by (auto simp: data_kept_def data_frame_def)
qed

lemma same_page: "dirx w = dirx v \<and> tblx w = tblx v \<longleftrightarrow> w div PAGESZ = v div PAGESZ"
proof -
  have dm: "unat x div 0x1000 = unat (dirx x) * 0x400 + unat (tblx x)" for x :: u32
    using div_mult_mod_eq [of "unat x div 0x1000" "0x400"] by (simp add: unat_idx flip: div_mult2_eq)
  have "w div PAGESZ = v div PAGESZ \<longleftrightarrow> unat w div 0x1000 = unat v div 0x1000"
    by (simp add: word_unat_eq_iff unat_div)
  also have "\<dots> \<longleftrightarrow> unat (dirx w) = unat (dirx v) \<and> unat (tblx w) = unat (tblx v)"
  proof
    assume "unat w div 0x1000 = unat v div 0x1000"
    then have "unat w div 0x1000 div 0x400 = unat v div 0x1000 div 0x400"
      "unat w div 0x1000 mod 0x400 = unat v div 0x1000 mod 0x400" by simp_all
    then show "unat (dirx w) = unat (dirx v) \<and> unat (tblx w) = unat (tblx v)"
      by (simp add: unat_idx flip: div_mult2_eq)
  qed (simp add: dm)
  finally show ?thesis by (simp add: word_unat_eq_iff)
qed

context table_window
begin

lemma set_in_spec:
  assumes W: "window k s d" and T: "tables_ok s d" and v: "dirx v < 1022"
    and "pres (phys s d (dirx v)) \<or> 0 < frame_count s"
  shows "\<exists>s'. set_in mp tb s v x = Some s' \<and> window k s' d \<and> tables_ok s' d \<and> cr3 s' = cr3 s \<and>
    (\<forall>w. dirx w < 1022 \<longrightarrow> dir_entry s' d w = (if w div PAGESZ = v div PAGESZ then x else dir_entry s d w)) \<and>
    (\<forall>g. free_frame s' g \<longrightarrow> free_frame s g) \<and> frame_count s \<le> Suc (frame_count s') \<and> data_kept s d s'"
proof (cases "pres (phys s d (dirx v))")
  case True
  let ?t = "fnum (phys s d (dirx v))"
  let ?s = "s\<lparr>phys := (phys s)(?t := (phys s ?t)(tblx v := x))\<rparr>"
  have "set_in mp tb s v x = Some ?s"
    using True by (simp add: set_in_def load_dir [OF W] store_tbl [OF W refl] del: fun_upd_apply)
  moreover have "free_frame ?s g = free_frame s g" "frame_count ?s = frame_count s" for g
    by (simp_all del: fun_upd_apply)
  ultimately show ?thesis
    using set_entry_ok [OF T v True] W data_kept_set [OF T v True]
    by (intro exI [of _ ?s]) (simp add: same_page del: fun_upd_apply)
next
  case False
  have inv: "frame_inv s" using T by (simp add: tables_ok_def)
  obtain f s1 where new: "frame_new s = Some (f, s1)" using frame_new_total [OF inv] assms(4) False by auto
  let ?a = "add_table s s1 d (dirx v) f"
  note A = add_table_ok [OF T v False new]
  have ne: "fnum f \<noteq> d" using new_frame_facts [OF inv new] T by (auto simp: tables_ok_def)
  then have p: "pres (phys ?a d (dirx v))" "fnum (phys ?a d (dirx v)) = fnum f" by simp_all
  have W1: "window k ?a d" using A(5) W high by blast
  note S = set_entry_ok [OF A(1) v p(1)]
  let ?s = "?a\<lparr>phys := (phys ?a)(fnum f := (phys ?a (fnum f))(tblx v := x))\<rparr>"
  have "set_in mp tb s v x = Some ?s"
    using False touch_in_new [OF W T v False new] store_tbl [OF W1 p(2,1)]
    by (simp add: set_in_def load_dir [OF W] del: fun_upd_apply)
  moreover have "free_frame ?s g \<Longrightarrow> free_frame s g" "frame_count ?s = frame_count s1" for g
    using A(4) by (simp_all del: fun_upd_apply)
  ultimately show ?thesis
    using S(1,2) S(3) [OF W1] A(2,3) frame_new_count [OF inv new] unfolding p(2)
    using data_kept_trans [OF data_kept_add [OF T v False new] data_kept_set [OF A(1) v p(1)]] unfolding p(2)
    by (intro exI [of _ ?s]) (simp add: same_page del: fun_upd_apply)
qed

end

section \<open>Ranges of pages\<close>

abbreviation page_entry :: "'a mmu_state_scheme \<Rightarrow> u32 \<Rightarrow> u32" where
  "page_entry s v \<equiv> dir_entry s (cur_dir s) v"

definition space_ok :: "'a mmu_state_scheme \<Rightarrow> bool" where
  "space_ok s \<longleftrightarrow> window 1023 s (cur_dir s) \<and> tables_ok s (cur_dir s)"

abbreviation pg :: "u32 \<Rightarrow> nat" where "pg v \<equiv> unat v div 0x1000"

lemma page_eq: "w div PAGESZ = v div PAGESZ \<longleftrightarrow> pg w = pg v"
  by (simp add: word_unat_eq_iff unat_div)

lemma below_windows: "dirx v < 1022 \<longleftrightarrow> pg v < 0xFF800"
proof -
  have "dirx v < 1022 \<longleftrightarrow> pg v div 0x400 < 1022"
    by (simp add: word_less_nat_alt unat_idx div_mult2_eq [of _ "0x1000" "0x400", simplified])
  also have "\<dots> \<longleftrightarrow> pg v < 1022 * 0x400" by (rule div_less_iff_less_mult) simp
  finally show ?thesis by simp
qed

lemma page_get_ok: "space_ok s \<Longrightarrow> page_get s v = Some (page_entry s v)"
  unfolding page_in_window(1) space_ok_def by (blast intro: cur.get_entry)

lemma page_set_ok:
  assumes "space_ok s" and "pg v < 0xFF800" and "pres (phys s (cur_dir s) (dirx v)) \<or> 0 < frame_count s"
  shows "\<exists>s'. page_set s v x = Some s' \<and> space_ok s' \<and> cr3 s' = cr3 s \<and>
    (\<forall>w. pg w < 0xFF800 \<longrightarrow> page_entry s' w = (if pg w = pg v then x else page_entry s w)) \<and>
    (\<forall>g. free_frame s' g \<longrightarrow> free_frame s g) \<and> frame_count s \<le> Suc (frame_count s') \<and>
    data_kept s (cur_dir s) s'"
proof -
  obtain s' where "page_set s v x = Some s'" "window 1023 s' (cur_dir s)" "tables_ok s' (cur_dir s)" "cr3 s' = cr3 s"
    "\<And>w. dirx w < 1022 \<Longrightarrow> dir_entry s' (cur_dir s) w = (if w div PAGESZ = v div PAGESZ then x else page_entry s w)"
    "\<And>g. free_frame s' g \<Longrightarrow> free_frame s g" "frame_count s \<le> Suc (frame_count s')" "data_kept s (cur_dir s) s'"
    using cur.set_in_spec [of s "cur_dir s" v x] assms unfolding page_in_window space_ok_def below_windows
    by blast
  then show ?thesis by (intro exI [of _ s']) (simp add: space_ok_def page_eq below_windows)
qed

lemma frame_new_space:
  assumes "space_ok s" and "frame_new s = Some (f, s1)"
  shows "space_ok s1" "page_entry s1 v = page_entry s v" "cr3 s1 = cr3 s" "free_frame s (fnum f)"
    "free_frame s1 g \<longleftrightarrow> free_frame s g \<and> g \<noteq> fnum f"
proof -
  have T: "tables_ok s (cur_dir s)" using assms(1) by (simp add: space_ok_def)
  have inv: "frame_inv s" using tables_okD(1) [OF T] .
  note N = new_frame_facts [OF inv assms(2)] new_frame_only [OF inv assms(2)]
  show "cr3 s1 = cr3 s" "free_frame s (fnum f)" "free_frame s1 g \<longleftrightarrow> free_frame s g \<and> g \<noteq> fnum f"
    using N by blast+
  show "page_entry s1 v = page_entry s v" using N by (simp add: dir_entry_def Let_def)
  have "tables_ok s1 (cur_dir s)"
    using N(1) tables_okD(2-5) [OF T] by (intro tables_okI) (auto simp: N(5,6,7))
  then show "space_ok s1" using assms(1) N(5,6) by (simp add: space_ok_def window_def)
qed

lemma frame_free_space:
  assumes "space_ok s" and "fnum f \<noteq> cur_dir s"
    and "\<And>i. i < 1022 \<Longrightarrow> pres (phys s (cur_dir s) i) \<Longrightarrow> fnum (phys s (cur_dir s) i) \<noteq> fnum f"
  shows "\<exists>s1. frame_free s f = Some s1 \<and> space_ok s1 \<and> cr3 s1 = cr3 s \<and> phys s1 = phys s"
proof -
  have T: "tables_ok s (cur_dir s)" using assms(1) by (simp add: space_ok_def)
  obtain s1 where s1: "frame_free s f = Some s1" "frame_inv s1" "frame_avail s1 \<subseteq> insert (f div PAGESZ) (frame_avail s)"
    using frame_free_supply [OF tables_okD(1) [OF T]] by blast
  have eq: "phys s1 = phys s" "cr3 s1 = cr3 s" using frame_only_mmu [OF frame_free_only [OF s1(1)]] by auto
  have free: "free_frame s1 g \<Longrightarrow> free_frame s g \<or> g = fnum f" for g
    using s1(3) unat_u20 [of g] unat_u20 [of "fnum f"]
    by (auto simp: free_frame_def word_unat_eq_iff unat_cast fnum_page [symmetric])
  have "tables_ok s1 (cur_dir s)"
  proof (rule tables_okI; (unfold eq)?)
    show "\<not> free_frame s1 (cur_dir s)" using free tables_okD(2) [OF T] assms(2) by metis
    then show "\<not> free_frame s1 (cur_dir s)" .
    fix i assume i: "i < 1022" "pres (phys s (cur_dir s) i)"
    then show "fnum (phys s (cur_dir s) i) \<noteq> cur_dir s \<and> fnum (phys s (cur_dir s) i) \<noteq> cur_dir s \<and>
        \<not> free_frame s1 (fnum (phys s (cur_dir s) i))"
      using tables_okD(4) [OF T i] free assms(3) [OF i] by metis
  qed (use s1(2) tables_okD(5) [OF T] in blast)+
  then show ?thesis using s1(1) eq assms(1) by (auto simp: space_ok_def window_def)
qed

text \<open>
  What \<open>mem_alloc\<close> did to the pages numbered \<open>A\<close>: present pages keep their entry, every other one
  has a frame of its own that was free; pages outside \<open>A\<close> are as before.
\<close>

definition pages_alloc :: "nat set \<Rightarrow> u32 \<Rightarrow> 'a mmu_state_scheme \<Rightarrow> 'a mmu_state_scheme \<Rightarrow> bool" where
  "pages_alloc A fl s s' \<longleftrightarrow>
     (\<forall>w. pg w < 0xFF800 \<longrightarrow>
        (if pg w \<in> A \<and> \<not> pres (page_entry s w)
         then \<exists>f. free_frame s (fnum f) \<and> \<not> free_frame s' (fnum f) \<and> page_entry s' w = page_fmt f fl
         else page_entry s' w = page_entry s w)) \<and>
     (\<forall>v w. pg v < 0xFF800 \<and> pg w < 0xFF800 \<and> pg v \<in> A \<and> pg w \<in> A \<and> \<not> pres (page_entry s v) \<and>
        \<not> pres (page_entry s w) \<and> fnum (page_entry s' v) = fnum (page_entry s' w) \<longrightarrow> pg v = pg w)"

lemma frame_mask: "(0xFFFFF000 :: u32) = NOT (mask 12)"
  by (simp add: mask_eq_exp_minus_1)

lemma pf_mask_low: "12 \<le> n \<Longrightarrow> \<not> bit (PF_MASK :: u32) n"
proof -
  have "take_bit 12 (PF_MASK :: u32) = PF_MASK" by simp
  then show "12 \<le> n \<Longrightarrow> \<not> bit (PF_MASK :: u32) n" by (metis bit_take_bit_iff not_less)
qed

lemma page_fmt_facts:
  "fnum (page_fmt f x) = fnum f" "pres (page_fmt f ((x AND PF_MASK) OR PF_PRES))" "page_ufmt (page_fmt f x) = page_ufmt f"
proof -
  show "fnum (page_fmt f x) = fnum f"
    unfolding fnum_def page_fmt_def frame_mask by (rule bit_word_eqI) (auto simp: bit_simps bit_numeral_rec)
  show "page_ufmt (page_fmt f x) = page_ufmt f"
    unfolding page_ufmt_def page_fmt_def frame_mask
  proof (rule bit_word_eqI)
    fix n
    show "bit ((f AND NOT (mask 12) OR x AND PF_MASK) AND NOT (mask 12)) n \<longleftrightarrow> bit (f AND NOT (mask 12)) n"
      using pf_mask_low [of n] by (cases "12 \<le> n") (auto simp: bit_simps)
  qed
  show "pres (page_fmt f ((x AND PF_MASK) OR PF_PRES))"
  proof -
    have "bit (page_fmt f ((x AND PF_MASK) OR PF_PRES)) 0" by (simp add: page_fmt_def bit_simps)
    then show ?thesis by (simp add: and_one_eq bit_0 odd_iff_mod_2_eq_one)
  qed
qed

lemma pages_alloc_empty: "pages_alloc {} fl s s"
  by (simp add: pages_alloc_def)

lemma page_next:
  assumes "unat i = a * 0x1000" and "a < b" and "unat e \<le> b * 0x1000" and "b \<le> 0xFF800"
  shows "unat (i + 0x1000) = Suc a * 0x1000" and "pg i = a"
proof -
  have "unat i + 0x1000 < 2 ^ 32" using assms by simp
  then show "unat (i + 0x1000) = Suc a * 0x1000" using unat_add_lem [of i "0x1000"] assms(1) by simp
qed (use assms in simp)

lemma page_entry_page: "pg w = pg v \<Longrightarrow> dir_entry s d w = dir_entry s d v"
  using same_page [of w v] page_eq [of w v] by (simp add: dir_entry_def Let_def)

lemma pages_alloc_step:
  assumes new: "space_ok s" "frame_new s = Some (f, s1)" and "\<not> pres (page_entry s i)"
    and set: "\<forall>w. pg w < 0xFF800 \<longrightarrow> page_entry s2 w = (if pg w = pg i then page_fmt f fl else page_entry s1 w)"
      "\<forall>g. free_frame s2 g \<longrightarrow> free_frame s1 g"
    and rest: "pages_alloc A fl s2 s'" "\<forall>g. free_frame s' g \<longrightarrow> free_frame s2 g"
    and "pg i \<notin> A" "pg i < 0xFF800"
  shows "pages_alloc (insert (pg i) A) fl s s'"
proof -
  note N = frame_new_space [OF new]
  have e2: "page_entry s2 w = (if pg w = pg i then page_fmt f fl else page_entry s w)" if "pg w < 0xFF800" for w
    using set(1) N(2) that by simp
  have free2: "free_frame s2 g \<Longrightarrow> free_frame s g \<and> g \<noteq> fnum f" for g using set(2) N(5) by blast
  have own: "page_entry s' w = page_fmt f fl" if "pg w = pg i" for w
    using rest(1) assms(8,9) that e2 [of w] unfolding pages_alloc_def by simp
  have old: "pres (page_entry s w) \<longleftrightarrow> pres (page_entry s2 w)" if "pg w < 0xFF800" "pg w \<noteq> pg i" for w
    using e2 [OF that(1)] that(2) by simp
  have each: "if pg w \<in> A \<and> \<not> pres (page_entry s w)
      then \<exists>g. free_frame s (fnum g) \<and> \<not> free_frame s' (fnum g) \<and> page_entry s' w = page_fmt g fl \<and> fnum g \<noteq> fnum f
      else page_entry s' w = page_entry s w" if "pg w < 0xFF800" "pg w \<noteq> pg i" for w
    using rest(1) that old [OF that] e2 [OF that(1)] free2 unfolding pages_alloc_def by metis
  have diff: "pg v = pg w" if "pg v < 0xFF800" "pg w < 0xFF800" "pg v \<in> insert (pg i) A" "pg w \<in> insert (pg i) A"
      "\<not> pres (page_entry s v)" "\<not> pres (page_entry s w)" "fnum (page_entry s' v) = fnum (page_entry s' w)" for v w
  proof (cases "pg v = pg i \<or> pg w = pg i")
    case True
    then show ?thesis
      using each [of v] each [of w] own [of v] own [of w] that
      by (metis insertE page_fmt_facts(1))
  next
    case False
    then show ?thesis using rest(1) that old [of v] old [of w] unfolding pages_alloc_def by blast
  qed
  have "\<not> free_frame s' (fnum f)" using rest(2) free2 by blast
  then have "if pg w \<in> insert (pg i) A \<and> \<not> pres (page_entry s w)
      then \<exists>g. free_frame s (fnum g) \<and> \<not> free_frame s' (fnum g) \<and> page_entry s' w = page_fmt g fl
      else page_entry s' w = page_entry s w" if "pg w < 0xFF800" for w
    using each [OF that] own [of w] N(4) assms(3) page_entry_page [of w i s "cur_dir s"]
    by (cases "pg w = pg i") (auto split: if_splits)
  with diff show ?thesis unfolding pages_alloc_def by blast
qed

lemma mem_alloc_loop_ok:
  assumes "space_ok s" and "unat i = a * 0x1000" and "2 * (b - a) \<le> frame_count s"
    and "unat e \<le> b * 0x1000" and "b * 0x1000 < unat e + 0x1000" and "b \<le> 0xFF800"
  shows "\<exists>s'. mem_alloc_loop s i e fl = Some s' \<and> space_ok s' \<and> cr3 s' = cr3 s \<and>
    (\<forall>g. free_frame s' g \<longrightarrow> free_frame s g) \<and> pages_alloc {a..<b} ((ucast fl AND PF_MASK) OR PF_PRES) s s'"
  using assms(1-3)
proof (induction "b - a" arbitrary: s i a)
  case 0
  then have "\<not> i < e" using assms(4) by (simp add: word_less_nat_alt)
  then show ?case using 0 by (subst mem_alloc_loop.simps) (simp add: pages_alloc_empty)
next
  case (Suc n)
  then have ab: "a < b" by simp
  note nx = page_next [OF Suc.prems(2) ab assms(4,6)]
  have lt: "i < e" using assms(5) Suc.prems(2) ab by (simp add: word_less_nat_alt)
  have n: "n = b - Suc a" and pi: "pg i < 0xFF800" using Suc.hyps(2) nx ab assms(6) by auto
  have range: "{a..<b} = insert (pg i) {Suc a..<b}" using ab nx(2) by auto
  note rec = mem_alloc_loop.simps [of s i e fl] and get = page_get_ok [OF Suc.prems(1), of i]
  show ?case
  proof (cases "pres (page_entry s i)")
    case True
    have le: "2 * (b - Suc a) \<le> frame_count s" using Suc.prems(3) by linarith
    obtain s' where s': "mem_alloc_loop s (i + 0x1000) e fl = Some s'" "space_ok s'" "cr3 s' = cr3 s"
      "\<forall>g. free_frame s' g \<longrightarrow> free_frame s g" "pages_alloc {Suc a..<b} ((ucast fl AND PF_MASK) OR PF_PRES) s s'"
      using Suc.hyps(1) [OF n Suc.prems(1) nx(1) le] by blast
    have "pages_alloc {a..<b} ((ucast fl AND PF_MASK) OR PF_PRES) s s'"
      using s'(5) True page_entry_page [of _ i s "cur_dir s"] unfolding range pages_alloc_def by (metis insert_iff)
    then show ?thesis using s' True lt get by (simp add: rec)
  next
    case False
    let ?fl = "(ucast fl AND PF_MASK) OR PF_PRES :: u32"
    have inv: "frame_inv s" using Suc.prems(1) by (simp add: space_ok_def tables_ok_def)
    have pos: "0 < frame_count s" using Suc.prems(3) ab by linarith
    obtain f s1 where new: "frame_new s = Some (f, s1)" using frame_new_total [OF inv] pos by blast
    note N = frame_new_space [OF Suc.prems(1) new] and cnt = frame_new_count [OF inv new]
    have pos1: "0 < frame_count s1" using cnt Suc.prems(3) ab by linarith
    obtain s2 where s2: "page_set s1 i (page_fmt f ?fl) = Some s2" "space_ok s2" "cr3 s2 = cr3 s1"
      "\<forall>w. pg w < 0xFF800 \<longrightarrow> page_entry s2 w = (if pg w = pg i then page_fmt f ?fl else page_entry s1 w)"
      "\<forall>g. free_frame s2 g \<longrightarrow> free_frame s1 g" "frame_count s1 \<le> Suc (frame_count s2)"
      using page_set_ok [OF N(1) pi disjI2 [OF pos1], of "page_fmt f ?fl"] by blast
    have "2 * (b - Suc a) \<le> frame_count s2" using cnt s2(6) Suc.prems(3) ab by linarith
    then obtain s' where s': "mem_alloc_loop s2 (i + 0x1000) e fl = Some s'" "space_ok s'" "cr3 s' = cr3 s2"
      "\<forall>g. free_frame s' g \<longrightarrow> free_frame s2 g" "pages_alloc {Suc a..<b} ?fl s2 s'"
      using Suc.hyps(1) [OF n s2(2) nx(1)] by auto
    have "pages_alloc {a..<b} ?fl s s'"
      unfolding range using pages_alloc_step [OF Suc.prems(1) new False s2(4,5) s'(5,4)] nx(2) pi by simp
    moreover have "mem_alloc_loop s i e fl = Some s'" using s'(1) s2(1) new lt get False by (simp add: rec)
    ultimately show ?thesis using s'(2-4) s2(3,5) N(3,5) by auto
  qed
qed

text \<open>The frames behind the pages \<open>A\<close> are data: none is the directory or one of its tables.\<close>

definition pages_data :: "nat set \<Rightarrow> 'a mmu_state_scheme \<Rightarrow> bool" where
  "pages_data A s \<longleftrightarrow> (\<forall>w. pg w \<in> A \<and> pres (page_entry s w) \<longrightarrow>
     fnum (page_entry s w) \<noteq> cur_dir s \<and>
     (\<forall>i < 1022. pres (phys s (cur_dir s) i) \<longrightarrow> fnum (phys s (cur_dir s) i) \<noteq> fnum (page_entry s w)))"

lemma fnum_ufmt [simp]: "fnum (page_ufmt e) = fnum e"
  unfolding fnum_def page_ufmt_def frame_mask by (rule bit_word_eqI) (auto simp: bit_simps)

lemma page_clear_ok:
  assumes "space_ok s" and v: "pg v < 0xFF800" and p: "pres (page_entry s v)"
  shows "\<exists>s'. page_set s v 0 = Some s' \<and> space_ok s' \<and> cr3 s' = cr3 s \<and> phys s' (cur_dir s) = phys s (cur_dir s) \<and>
    (\<forall>w. pg w < 0xFF800 \<longrightarrow> page_entry s' w = (if pg w = pg v then 0 else page_entry s w))"
proof -
  have W: "window 1023 s (cur_dir s)" and T: "tables_ok s (cur_dir s)" using assms(1) by (simp_all add: space_ok_def)
  have pd: "pres (phys s (cur_dir s) (dirx v))" using p by (auto simp: dir_entry_def Let_def split: if_splits)
  let ?t = "fnum (phys s (cur_dir s) (dirx v))"
  let ?s = "s\<lparr>phys := (phys s)(?t := (phys s ?t)(tblx v := 0))\<rparr>"
  have "page_set s v 0 = Some ?s"
    using pd unfolding page_in_window set_in_def cur.load_dir [OF W]
    by (simp add: cur.store_tbl [OF W refl, simplified] del: fun_upd_apply)
  moreover have "?t \<noteq> cur_dir s" using tables_okD(4) [OF T _ pd] v below_windows by blast
  moreover note S = set_entry_ok [OF T v [folded below_windows] pd, where x = 0]
  have "space_ok ?s" unfolding space_ok_def using S(1) S(3) [OF W] by simp
  ultimately show ?thesis
    using S(2) by (intro exI [of _ ?s]) (simp add: below_windows same_page page_eq)
qed

lemma mem_free_loop_ok:
  assumes "space_ok s" and "unat i = a * 0x1000" and "pages_data {a..<b} s"
    and "unat e \<le> b * 0x1000" and "b * 0x1000 < unat e + 0x1000" and "b \<le> 0xFF800"
  shows "\<exists>s'. mem_free_loop s i e = Some s' \<and> space_ok s' \<and> cr3 s' = cr3 s \<and>
    (\<forall>w. pg w < 0xFF800 \<longrightarrow>
      page_entry s' w = (if pg w \<in> {a..<b} \<and> pres (page_entry s w) then 0 else page_entry s w))"
  using assms(1-3)
proof (induction "b - a" arbitrary: s i a)
  case 0
  then have "\<not> i < e" using assms(4) by (simp add: word_less_nat_alt)
  then show ?case using 0 by (subst mem_free_loop.simps) simp
next
  case (Suc n)
  then have ab: "a < b" by simp
  note nx = page_next [OF Suc.prems(2) ab assms(4,6)]
  have lt: "i < e" using assms(5) Suc.prems(2) ab by (simp add: word_less_nat_alt)
  have n: "n = b - Suc a" and pi: "pg i < 0xFF800" using Suc.hyps(2) nx ab assms(6) by auto
  have range: "{a..<b} = insert (pg i) {Suc a..<b}" using ab nx(2) by auto
  note rec = mem_free_loop.simps [of s i e] and get = page_get_ok [OF Suc.prems(1), of i]
  show ?case
  proof (cases "pres (page_entry s i)")
    case False
    have D: "pages_data {Suc a..<b} s" using Suc.prems(3) unfolding range pages_data_def by blast
    have "\<not> pres (page_entry s w)" if "pg w = pg i" for w
      using False page_entry_page [OF that, of s "cur_dir s"] by simp
    moreover have "mem_free_loop s i e = mem_free_loop s (i + 0x1000) e"
      using lt get False by (simp add: rec)
    ultimately show ?thesis
      using Suc.hyps(1) [OF n Suc.prems(1) nx(1) D] unfolding range by fastforce
  next
    case True
    let ?f = "page_ufmt (page_entry s i)"
    have f: "fnum ?f \<noteq> cur_dir s" "\<And>j. j < 1022 \<Longrightarrow> pres (phys s (cur_dir s) j) \<Longrightarrow> fnum (phys s (cur_dir s) j) \<noteq> fnum ?f"
      using Suc.prems(3) True unfolding range pages_data_def by auto
    obtain s1 where s1: "frame_free s ?f = Some s1" "space_ok s1" "cr3 s1 = cr3 s" "phys s1 = phys s"
      using frame_free_space [OF Suc.prems(1) f] by blast
    have e1: "page_entry s1 w = page_entry s w" for w using s1(3,4) by (simp add: dir_entry_def Let_def)
    obtain s2 where s2: "page_set s1 i 0 = Some s2" "space_ok s2" "cr3 s2 = cr3 s1"
      "phys s2 (cur_dir s1) = phys s1 (cur_dir s1)"
      "\<forall>w. pg w < 0xFF800 \<longrightarrow> page_entry s2 w = (if pg w = pg i then 0 else page_entry s1 w)"
      using page_clear_ok [OF s1(2) pi] True e1 by auto
    have e2: "page_entry s2 w = page_entry s w" if "pg w \<in> {Suc a..<b}" for w
      using s2(5) e1 assms(6) nx(2) that by auto
    have "cur_dir s2 = cur_dir s" "phys s2 (cur_dir s) = phys s (cur_dir s)" using s2(3,4) s1(3,4) by simp_all
    then have D: "pages_data {Suc a..<b} s2"
      using Suc.prems(3) e2 unfolding range pages_data_def by (metis insertCI)
    obtain s' where "mem_free_loop s2 (i + 0x1000) e = Some s'" "space_ok s'" "cr3 s' = cr3 s2"
      "\<forall>w. pg w < 0xFF800 \<longrightarrow>
        page_entry s' w = (if pg w \<in> {Suc a..<b} \<and> pres (page_entry s2 w) then 0 else page_entry s2 w)"
      using Suc.hyps(1) [OF n s2(2) nx(1) D] by blast
    moreover have "mem_free_loop s i e = mem_free_loop s2 (i + 0x1000) e"
      using s1(1) s2(1) lt get True by (simp add: rec)
    moreover have "pres (page_entry s w)" if "pg w = pg i" for w
      using True page_entry_page [OF that, of s "cur_dir s"] by simp
    ultimately show ?thesis
      using s2(3,5) s1(3) e1 unfolding range by (intro exI [of _ s']) auto
  qed
qed

abbreviation page_range :: "u32 \<Rightarrow> u32 \<Rightarrow> nat set" where
  "page_range base sz \<equiv> {pg base ..< (unat base + unat sz + 0xFFF) div 0x1000}"

lemma page_base: "unat (v AND NOT 0xFFF) = pg v * 0x1000" for v :: u32
proof -
  have "v AND NOT 0xFFF = push_bit 12 (drop_bit 12 v)"
  proof -
    have "(0xFFF :: u32) = mask 12" by (simp add: mask_eq_exp_minus_1)
    then show ?thesis by (auto simp: bit_eq_iff bit_simps)
  qed
  moreover have "unat (push_bit 12 (drop_bit 12 v)) = unat v div 0x1000 * 0x1000"
    using unat_u32 [of v] by (simp add: push_bit_eq_mult unat_cast unat_mult_lem [THEN iffD1])
  ultimately show ?thesis by simp
qed

lemma range_bounds:
  fixes base sz :: u32
  assumes "unat base + unat sz \<le> 0xFF800000"
  defines "b \<equiv> (unat base + unat sz + 0xFFF) div 0x1000"
  shows "unat (base + sz) \<le> b * 0x1000" "b * 0x1000 < unat (base + sz) + 0x1000" "b \<le> 0xFF800"
proof -
  have "unat (base + sz) = unat base + unat sz" using unat_add_lem [of base sz] assms(1) by simp
  then show "unat (base + sz) \<le> b * 0x1000" "b * 0x1000 < unat (base + sz) + 0x1000" "b \<le> 0xFF800"
    using assms(1) by (auto simp: b_def)
qed

lemma mem_alloc_ok:
  assumes "space_ok s" and "unat base + unat sz \<le> 0xFF800000"
    and "2 * card (page_range base sz) \<le> frame_count s"
  shows "\<exists>s'. mem_alloc s base sz flags = Some s' \<and> space_ok s' \<and>
    pages_alloc (page_range base sz) ((ucast flags AND PF_MASK) OR PF_PRES) s s'"
  using mem_alloc_loop_ok [OF assms(1) page_base _ range_bounds [OF assms(2)], of base flags] assms(3)
  unfolding mem_alloc_def by auto

lemma walk_entry: "walk s v = (if pres (page_entry s v) then Some (fnum (page_entry s v)) else None)"
  by (simp add: walk_def dir_entry_def Let_def)

text \<open>An address space with an empty page directory, which maps itself.\<close>

definition empty_space :: mmu_state where
  "empty_space = frame_state.extend two_frames
     \<lparr>phys = (\<lambda>_ _. 0)(0x100 := (\<lambda>_. 0)(1023 := 0x100007)), cr3 = 0x100000\<rparr>"

lemma empty_space_ok: "space_ok empty_space" "frame_count empty_space \<ge> 4"
  and empty_space_free: "\<not> free_frame empty_space 0x100" "\<not> free_frame empty_space 0x101" "\<not> free_frame empty_space 0x200"
proof -
  have rep: "frame_rep empty_space fl al = frame_rep two_frames fl al" for fl al
    unfolding frame_rep_def frame_lists_def cell_info_def by (simp add: empty_space_def frame_state.extend_def)
  have oom: "oom_pool empty_space = oom_pool two_frames" "out_of_memory empty_space = out_of_memory two_frames"
    by (simp_all add: empty_space_def frame_state.extend_def)
  have inv: "frame_inv empty_space" using two_frames_inv(1) unfolding frame_inv_def rep oom .
  have avail: "frame_avail empty_space = {0x901, 0x900} \<union> {n. 0 < n \<and> n < 0x80}"
    using frame_avail_rep [of empty_space] two_frames_rep by (simp add: rep frame_pool_def oom) (simp add: two_frames_def)
  have ph: "phys empty_space = (\<lambda>_ _. 0)(0x100 := (\<lambda>_. 0)(1023 := 0x100007))" "cr3 empty_space = 0x100000"
    by (simp_all add: empty_space_def frame_state.extend_def)
  have d: "cur_dir empty_space = 0x100" by (simp add: ph(2) fnum_def)
  show "\<not> free_frame empty_space 0x101" "\<not> free_frame empty_space 0x200" by (simp_all add: free_frame_def avail)
  show "\<not> free_frame empty_space 0x100" by (simp add: free_frame_def avail)
  then have "tables_ok empty_space 0x100"
    using inv d by (intro tables_okI) (auto simp: ph split: if_splits)
  moreover have "window 1023 empty_space 0x100" by (simp add: window_def d ph fnum_def)
  ultimately show "space_ok empty_space" by (simp add: space_ok_def d)
  have "card {0x901, 0x900, 1, 2 :: u32} \<le> card (frame_avail empty_space)"
    unfolding avail by (intro card_mono) auto
  then show "frame_count empty_space \<ge> 4" by (simp add: frame_count_def oom two_frames_inv(2))
qed

text \<open>The records that extend the machine state are not touched.\<close>

lemma frame_only_more: "frame_only s s' \<Longrightarrow> mmu_state.more s' = mmu_state.more s"
  by (auto simp: frame_only_def)

lemma store32_more: "store32 s v x = Some s' \<Longrightarrow> mmu_state.more s' = mmu_state.more s"
  by (auto simp: store32_def)

lemma memclr_more: "memclr s v n = Some s' \<Longrightarrow> mmu_state.more s' = mmu_state.more s"
proof (induction n arbitrary: s')
  case (Suc n)
  then show ?case by (auto dest!: store32_more)
qed simp

lemma page_touch_more: "page_touch s v = Some s' \<Longrightarrow> mmu_state.more s' = mmu_state.more s"
  by (auto simp: page_touch_def Let_def dest!: memclr_more store32_more frame_only_more [OF frame_new_only] split: if_splits)

lemma page_set_more: "page_set s v x = Some s' \<Longrightarrow> mmu_state.more s' = mmu_state.more s"
  by (auto simp: page_set_def dest!: store32_more page_touch_more split: if_splits)

lemma mem_alloc_loop_more: "mem_alloc_loop s i e fl = Some s' \<Longrightarrow> mmu_state.more s' = mmu_state.more s"
proof (erule mem_alloc_loop.raw_induct [rotated, of _ _ _ _ _ "\<lambda>s i e fl s'. mmu_state.more s' = mmu_state.more s"])
  fix loop :: "'a mmu_state_scheme \<Rightarrow> u32 \<Rightarrow> u32 \<Rightarrow> u16 \<Rightarrow> 'a mmu_state_scheme option" and s i e fl t
  assume IH: "\<And>s i e fl y. loop s i e fl = Some y \<Longrightarrow> mmu_state.more y = mmu_state.more s"
    and "(if i < e then do {
        x \<leftarrow> page_get s i;
        s \<leftarrow> (if x AND PF_PRES = 0 then do {
                (f, s) \<leftarrow> frame_new s;
                page_set s i (page_fmt f ((ucast fl AND PF_MASK) OR PF_PRES))
              }
              else Some s);
        loop s (i + 0x1000) e fl
      }
      else Some s) = Some t"
  then show "mmu_state.more t = mmu_state.more s"
    by (auto dest!: IH page_set_more frame_only_more [OF frame_new_only] split: if_splits)
qed

lemma mem_alloc_more: "mem_alloc s b n fl = Some s' \<Longrightarrow> mmu_state.more s' = mmu_state.more s"
  unfolding mem_alloc_def by (rule mem_alloc_loop_more)

section \<open>Properties\<close>

text \<open>
  C2. Mapping a page: in a well-formed address space \<open>page_set\<close> returns, creating the page table
  when the segment has none, and leaves a well-formed space; \<open>page_get\<close> reads the entry back, the
  MMU translates addresses of that page by the new entry, and every other page below the page-table
  windows is translated as before (a freshly created table maps nothing); the content of every frame
  that is neither free nor a page table is kept.
\<close>

theorem page_set_maps:
  assumes "space_ok s" and "pg v < 0xFF800" and "0 < frame_count s"
  shows "\<exists>s'. page_set s v x = Some s' \<and> space_ok s' \<and> page_get s' v = Some x \<and> data_kept s (cur_dir s) s' \<and>
    (\<forall>w. pg w < 0xFF800 \<longrightarrow>
      walk s' w = (if pg w = pg v then if pres x then Some (fnum x) else None else walk s w))"
  using page_set_ok [OF assms(1,2) disjI2 [OF assms(3)], of x] assms(2)
  by (auto simp: walk_entry page_get_ok)

theorem page_set_maps_witness:
  "\<exists>s'. page_set empty_space 0x80000000 0x900007 = Some s' \<and> space_ok s' \<and>
    page_get s' 0x80000000 = Some 0x900007 \<and> walk s' 0x80000000 = Some 0x900"
proof -
  have "pg 0x80000000 < 0xFF800" "0 < frame_count empty_space" using empty_space_ok(2) by auto
  then obtain s' where "page_set empty_space 0x80000000 0x900007 = Some s'" "space_ok s'"
    "page_get s' 0x80000000 = Some 0x900007" "walk s' 0x80000000 = (if pres (0x900007 :: u32) then Some (fnum 0x900007) else None)"
    using page_set_maps [OF empty_space_ok(1), of "0x80000000" "0x900007"] by metis
  moreover have "fnum 0x900007 = 0x900" by (simp add: fnum_def)
  ultimately show ?thesis by simp
qed



text \<open>
  \<open>mem_free\<close> on a range of data pages (pages whose frames are not page tables) below the
  windows returns, keeps the space well formed, unmaps every present page of the range and changes no
  other entry.
\<close>

theorem mem_free_range:
  assumes "space_ok s" and "unat base + unat sz \<le> 0xFF800000" and "pages_data (page_range base sz) s"
  shows "\<exists>s'. mem_free s base sz = Some s' \<and> space_ok s' \<and>
    (\<forall>w. pg w < 0xFF800 \<longrightarrow>
      page_entry s' w = (if pg w \<in> page_range base sz \<and> pres (page_entry s w) then 0 else page_entry s w))"
  using mem_free_loop_ok [OF assms(1) page_base assms(3) range_bounds [OF assms(2)]]
  unfolding mem_free_def by blast

theorem mem_free_range_witness:
  "\<exists>s'. mem_free empty_space 0x80000000 0x2000 = Some s' \<and> space_ok s' \<and>
    (\<forall>w. pg w < 0xFF800 \<longrightarrow> page_entry s' w = (if pg w \<in> page_range 0x80000000 0x2000 \<and>
      pres (page_entry empty_space w) then 0 else page_entry empty_space w))"
proof -
  have "page_entry empty_space w = 0" if "pg w < 0xFF800" for w
  proof -
    have "dirx w < 1022" using that below_windows by blast
    then show ?thesis by (auto simp: dir_entry_def empty_space_def frame_state.extend_def Let_def)
  qed
  then have "pages_data (page_range 0x80000000 0x2000) empty_space" by (auto simp: pages_data_def)
  then show ?thesis by (intro mem_free_range empty_space_ok) simp_all
qed

text \<open>
  Mapping a page in another address space, whose directory \<open>d\<close> is loaded in the second window:
  \<open>page_exset\<close> returns, \<open>page_exget\<close> then reads the new entry at that page and the old entry at
  every other page, and the window and the tables of \<open>d\<close> stay well formed.
\<close>

theorem page_exset_maps:
  assumes "window 1022 s d" and "tables_ok s d" and "pg v < 0xFF800" and "0 < frame_count s"
  shows "\<exists>s'. page_exset s v x = Some s' \<and> window 1022 s' d \<and> tables_ok s' d \<and>
    (\<forall>w. pg w < 0xFF800 \<longrightarrow> page_exget s' w = (if pg w = pg v then Some x else page_exget s w))"
proof -
  obtain s' where "page_exset s v x = Some s'" "window 1022 s' d" "tables_ok s' d"
    "\<forall>w. dirx w < 1022 \<longrightarrow> dir_entry s' d w = (if w div PAGESZ = v div PAGESZ then x else dir_entry s d w)"
    using ext.set_in_spec [OF assms(1,2) _ disjI2 [OF assms(4)], of v x] assms(3)
    unfolding page_in_window below_windows by blast
  then show ?thesis
    using ext.get_entry [OF assms(1)] ext.get_entry [of s' d] unfolding page_in_window below_windows page_eq
    by (intro exI [of _ s']) auto
qed

text \<open>A second, empty directory in frame \<open>0x101\<close>, loaded in the second window.\<close>

definition two_spaces :: mmu_state where
  "two_spaces = empty_space\<lparr>phys := (\<lambda>_ _. 0)(0x100 := (\<lambda>_. 0)(1023 := 0x100007, 1022 := 0x101007),
     0x101 := (\<lambda>_. 0)(1023 := 0x101007))\<rparr>"

theorem page_exset_maps_witness:
  "\<exists>s'. page_exset two_spaces 0x80000000 0x900007 = Some s' \<and> window 1022 s' 0x101 \<and>
    page_exget s' 0x80000000 = Some 0x900007"
proof -
  have ph: "phys two_spaces 0x100 = (\<lambda>_. 0)(1023 := 0x100007, 1022 := 0x101007)"
    "phys two_spaces 0x101 = (\<lambda>_. 0)(1023 := 0x101007)" "cr3 two_spaces = 0x100000"
    by (simp_all add: two_spaces_def empty_space_def frame_state.extend_def)
  have d: "cur_dir two_spaces = 0x100" by (simp add: ph fnum_def)
  have free: "\<not> free_frame two_spaces 0x100" "\<not> free_frame two_spaces 0x101"
    using empty_space_free by (simp_all add: two_spaces_def del: fun_upd_apply)
  have "frame_inv two_spaces" "frame_count two_spaces = frame_count empty_space"
    using empty_space_ok(1) by (simp_all add: two_spaces_def space_ok_def tables_ok_def del: fun_upd_apply)
  then have "tables_ok two_spaces 0x101" "0 < frame_count two_spaces"
    using d free empty_space_ok(2) by (auto intro!: tables_okI simp: ph split: if_splits)
  moreover have "window 1022 two_spaces 0x101" by (simp add: window_def d) (simp add: ph fnum_def)
  moreover have "pg 0x80000000 < 0xFF800" by simp
  ultimately obtain s' where "page_exset two_spaces 0x80000000 0x900007 = Some s'" "window 1022 s' 0x101"
    "page_exget s' 0x80000000 = Some 0x900007"
    using page_exset_maps [of two_spaces "0x101" "0x80000000" "0x900007"] by metis
  then show ?thesis by blast
qed

end
