(* ===== verification/Kernel_Heap.thy ===== *)
theory Kernel_Heap
  imports Paging
begin

text \<open>
  The kernel heap, \<open>kernel/mem/heap.c\<close>, and the one function of the frame allocator that uses it,
  \<open>frame_add\<close>. A free block's first word is the link to the next free block of its bucket:
  \<open>heap_words\<close> is the content of the kernel heap's memory, which every address space maps at the same
  place and which is never unmapped. \<open>heap_valloc\<close> maps the memory it hands out with \<open>page_set\<close> and
  \<open>mem_alloc\<close>. A store outside \<open>heap_bucket\<close> is \<^const>\<open>None\<close>.
\<close>

record heap_state = mmu_state +
  heap_bucket :: "nat \<Rightarrow> ptr"
  analysis :: "nat \<Rightarrow> u32"
  heap_brk :: u32
  heap_words :: "u32 \<Rightarrow> u32"

definition bucket_for :: "u32 \<Rightarrow> nat" where
  "bucket_for sz = (case find (\<lambda>i. sz \<le> 4 * 2 ^ i) [0..<16] of Some i \<Rightarrow> i | None \<Rightarrow> 17)"

definition heap_clear :: "'a heap_state_scheme \<Rightarrow> ptr \<Rightarrow> u32 \<Rightarrow> 'a heap_state_scheme" where
  "heap_clear s p n = s\<lparr>heap_words := (\<lambda>a. if a - p < n then 0 else heap_words s a)\<rparr>"

definition heap_free :: "'a heap_state_scheme \<Rightarrow> ptr \<Rightarrow> u32 \<Rightarrow> 'a heap_state_scheme option" where
  "heap_free s p sz = (let bucket = bucket_for sz in
     if bucket > 17 then Some s
     else if bucket \<ge> 16 then None
     else
       let s = s\<lparr>analysis := (analysis s)(bucket := analysis s bucket - 1)\<rparr> in
       if p = 0 then None
       else Some (s\<lparr>heap_words := (heap_words s)(p := heap_bucket s bucket),
                    heap_bucket := (heap_bucket s)(bucket := p)\<rparr>))"

definition heap_valloc :: "'a heap_state_scheme \<Rightarrow> u32 \<Rightarrow> (ptr \<times> 'a heap_state_scheme) option" where
  "heap_valloc s sz = (let brk = heap_brk s in
     if brk + sz \<ge> KERNEL_HEAP_END then None
     else do {
       (f, s) \<leftarrow> frame_new s;
       s \<leftarrow> page_set s brk (page_fmt f (PF_PRES OR PF_RW));
       s \<leftarrow> mem_alloc s brk sz (ucast (PF_PRES OR PF_RW));
       let s = s\<lparr>heap_brk := heap_brk s + sz\<rparr>;
       Some (heap_brk s - sz, s)
     })"

primrec heap_dump :: "'a heap_state_scheme \<Rightarrow> ptr \<Rightarrow> nat \<Rightarrow> nat \<Rightarrow> 'a heap_state_scheme option" where
  "heap_dump s slab bucket 0 = Some s"
| "heap_dump s slab bucket (Suc n) = do {
     s \<leftarrow> heap_dump s slab bucket n;
     s \<leftarrow> heap_free s (slab + 4 * (of_nat n * 2 ^ bucket)) (4 * 2 ^ bucket);
     Some (s\<lparr>analysis := (analysis s)(bucket := analysis s bucket + 1)\<rparr>)
   }"

definition slab_size :: "nat \<Rightarrow> u32" where
  "slab_size bucket = (if bucket \<le> 10 then PAGESZ else push_bit bucket 4 * 4)"

definition heap_new_slab :: "'a heap_state_scheme \<Rightarrow> nat \<Rightarrow> 'a heap_state_scheme option" where
  "heap_new_slab s bucket = (let slabsize = slab_size bucket in do {
     (slab, s) \<leftarrow> heap_valloc s slabsize;
     if slab = 0 then Some s
     else heap_dump s slab bucket (unat (slabsize div 4) div 2 ^ bucket)
   })"

definition heap_alloc :: "'a heap_state_scheme \<Rightarrow> u32 \<Rightarrow> (ptr \<times> 'a heap_state_scheme) option" where
  "heap_alloc s sz = (let bucket = bucket_for sz in
     if bucket > 16 then Some (0, s)
     else do {
       s \<leftarrow> (if heap_bucket s bucket = 0 then heap_new_slab s bucket else Some s);
       if heap_bucket s bucket = 0 then Some (0, s)
       else
         let s = s\<lparr>analysis := (analysis s)(bucket := analysis s bucket + 1)\<rparr>;
             block = heap_bucket s bucket;
             s = s\<lparr>heap_bucket := (heap_bucket s)(bucket := heap_words s block)\<rparr>
         in Some (block, heap_clear s block (4 * 2 ^ bucket))
     })"

text \<open>\<open>frame_add\<close>: a new cell from the heap at the head of the free list.\<close>

definition frame_add :: "'a heap_state_scheme \<Rightarrow> frame_t \<Rightarrow> 'a heap_state_scheme option" where
  "frame_add s frame =
     (if frame \<ge> KERNEL_BOOT \<and> frame < KERNEL_BOOT_END then Some s
      else do {
        (fs, s) \<leftarrow> heap_alloc s 16;
        if fs = 0 then None
        else do {
          let s = s\<lparr>frame_mem := (frame_mem s)(fs \<mapsto>
            \<lparr>fs_next = frame_list s, fs_prev = 0, fs_refc = 0, fs_addr = frame div PAGESZ\<rparr>)\<rparr>;
          let nxt = frame_list s;
          let s = s\<lparr>frame_list := fs\<rparr>;
          s \<leftarrow> (if nxt \<noteq> 0 then fs_upd s nxt (fs_prev_update (\<lambda>_. fs)) else Some s);
          Some (s\<lparr>out_of_memory := False\<rparr>)
        }
      })"

section \<open>Buckets\<close>

lemma bucket_for_le:
  assumes "sz \<le> 0x20000"
  shows "bucket_for sz < 16" and "sz \<le> 4 * 2 ^ bucket_for sz"
    and "0 < bucket_for sz \<Longrightarrow> 4 * 2 ^ (bucket_for sz - 1) < sz"
proof -
  have "15 \<in> set [0..<16] \<and> sz \<le> 4 * 2 ^ 15" using assms by simp
  then have "find (\<lambda>i. sz \<le> 4 * 2 ^ i) [0..<16] \<noteq> None" unfolding find_None_iff by blast
  then obtain i where i: "find (\<lambda>i. sz \<le> 4 * 2 ^ i) [0..<16] = Some i" by blast
  then have b: "bucket_for sz = i" by (simp add: bucket_for_def)
  from i obtain k where k: "k < 16" "sz \<le> 4 * 2 ^ k" "i = k" "\<forall>j<k. \<not> sz \<le> 4 * 2 ^ j"
    unfolding find_Some_iff by auto
  with b show "bucket_for sz < 16" "sz \<le> 4 * 2 ^ bucket_for sz"
    "0 < bucket_for sz \<Longrightarrow> 4 * 2 ^ (bucket_for sz - 1) < sz" by (auto simp: not_le)
qed

lemma unat_block: "b < 16 \<Longrightarrow> unat (4 * 2 ^ b :: u32) = 4 * 2 ^ b"
proof -
  assume "b < 16"
  then have "(2::nat) ^ b \<le> 2 ^ 15" by (intro power_increasing) auto
  then have "(4 * 2 ^ b :: nat) < 2 ^ 32" by simp
  moreover have "(4 * 2 ^ b :: u32) = of_nat (4 * 2 ^ b)" by simp
  ultimately show ?thesis by (simp only: unat_of_nat) simp
qed

lemma bucket_for_block: "b < 16 \<Longrightarrow> bucket_for (4 * 2 ^ b) = b"
proof -
  assume b: "b < 16"
  have le: "(4 * 2 ^ b :: u32) \<le> 4 * 2 ^ i \<longleftrightarrow> b \<le> i" if "i < 16" for i
    using unat_block [OF b] unat_block [OF that] by (simp add: word_le_nat_alt)
  have "find (\<lambda>i. (4 * 2 ^ b :: u32) \<le> 4 * 2 ^ i) [0..<16] = Some b"
    unfolding find_Some_iff using b le by (intro exI [of _ b]) (auto simp: not_le)
  then show ?thesis by (simp add: bucket_for_def)
qed

section \<open>Representation\<close>

text \<open>
  \<open>heap_rep s F L\<close>: \<open>F b\<close> is the free list of bucket \<open>b\<close>, \<open>L\<close> the blocks the kernel holds, as
  pairs of address and bucket. All blocks lie in the heap below the break, aligned to their size (at
  most to a page), and no two overlap.
\<close>

definition blk :: "ptr \<times> nat \<Rightarrow> nat set" where
  "blk x = {unat (fst x) ..< unat (fst x) + 4 * 2 ^ snd x}"

definition free_blocks :: "(nat \<Rightarrow> ptr list) \<Rightarrow> (ptr \<times> nat) set" where
  "free_blocks F = {(p, b). b < 16 \<and> p \<in> set (F b)}"

definition block_ok :: "nat \<Rightarrow> ptr \<times> nat \<Rightarrow> bool" where
  "block_ok brk x \<longleftrightarrow> snd x < 16 \<and> blk x \<subseteq> {0xF1000000..<brk} \<and> 4 * 2 ^ min 10 (snd x) dvd unat (fst x)"

definition heap_rep :: "'a heap_state_scheme \<Rightarrow> (nat \<Rightarrow> ptr list) \<Rightarrow> (ptr \<times> nat) set \<Rightarrow> bool" where
  "heap_rep s F L \<longleftrightarrow>
     (\<forall>b < 16. chain (\<lambda>q. Some (heap_words s q)) (heap_bucket s b) (F b)) \<and>
     (\<forall>x \<in> free_blocks F \<union> L. block_ok (unat (heap_brk s)) x) \<and>
     pairwise (\<lambda>x y. blk x \<inter> blk y = {}) (free_blocks F \<union> L) \<and> free_blocks F \<inter> L = {} \<and>
     0x1000 dvd unat (heap_brk s) \<and> 0xF1000000 \<le> unat (heap_brk s) \<and> unat (heap_brk s) \<le> 0xF8000000"

lemma heap_repD:
  assumes "heap_rep s F L"
  shows "b < 16 \<Longrightarrow> chain (\<lambda>q. Some (heap_words s q)) (heap_bucket s b) (F b)"
    and "x \<in> free_blocks F \<union> L \<Longrightarrow> block_ok (unat (heap_brk s)) x"
    and "x \<in> free_blocks F \<union> L \<Longrightarrow> y \<in> free_blocks F \<union> L \<Longrightarrow> x \<noteq> y \<Longrightarrow> blk x \<inter> blk y = {}"
    and "free_blocks F \<inter> L = {}" and "0x1000 dvd unat (heap_brk s)" and "0xF1000000 \<le> unat (heap_brk s)"
    and "unat (heap_brk s) \<le> 0xF8000000"
  using assms unfolding heap_rep_def pairwise_def by blast+

lemma blk_start: "unat p \<in> blk (p, b)"
  by (simp add: blk_def)

lemma block_nonzero: "block_ok n (p, b) \<Longrightarrow> p \<noteq> 0"
  using blk_start [of p b] by (auto simp: block_ok_def)

lemma free_blocks_push: "b < 16 \<Longrightarrow> free_blocks (F(b := p # F b)) = insert (p, b) (free_blocks F)"
  by (auto simp: free_blocks_def split: if_splits)

text \<open>Handing a block to its bucket: the effect of \<open>heap_free\<close>.\<close>

definition put_block :: "'a heap_state_scheme \<Rightarrow> ptr \<Rightarrow> nat \<Rightarrow> u32 \<Rightarrow> 'a heap_state_scheme" where
  "put_block s p b n = s\<lparr>analysis := (analysis s)(b := n), heap_words := (heap_words s)(p := heap_bucket s b),
     heap_bucket := (heap_bucket s)(b := p)\<rparr>"

lemma heap_free_eq: "bucket_for sz < 16 \<Longrightarrow> p \<noteq> 0 \<Longrightarrow>
  heap_free s p sz = Some (put_block s p (bucket_for sz) (analysis s (bucket_for sz) - 1))"
  by (simp add: heap_free_def put_block_def Let_def)

lemma heap_rep_put:
  assumes R: "heap_rep s F L" and b: "b < 16" and ok: "block_ok (unat (heap_brk s)) (p, b)"
    and disj: "\<And>y. y \<in> (free_blocks F \<union> L) - {(p, b)} \<Longrightarrow> blk (p, b) \<inter> blk y = {}" and nf: "(p, b) \<notin> free_blocks F"
  shows "heap_rep (put_block s p b n) (F(b := p # F b)) (L - {(p, b)})"
proof -
  note D = heap_repD [OF R]
  have nz: "p \<noteq> 0" using block_nonzero [OF ok] .
  have fresh: "p \<notin> set (F i)" if i: "i < 16" for i
  proof
    assume "p \<in> set (F i)"
    then have m: "(p, i) \<in> free_blocks F" using i by (simp add: free_blocks_def)
    with nf disj [of "(p, i)"] have "blk (p, b) \<inter> blk (p, i) = {}" by blast
    then show False using blk_start by blast
  qed
  let ?nx = "\<lambda>q. Some (((heap_words s)(p := heap_bucket s b)) q)"
  have old: "chain ?nx (heap_bucket s i) (F i)" if "i < 16" for i
    using D(1) [OF that] fresh [OF that] by (subst chain_cong) auto
  have "chain ?nx (((heap_bucket s)(b := p)) i) ((F(b := p # F b)) i)" if "i < 16" for i
    using old [OF that] old [OF b] nz by simp
  moreover have "free_blocks (F(b := p # F b)) \<union> (L - {(p, b)}) = insert (p, b) (free_blocks F \<union> L)"
    using free_blocks_push [OF b, of F p] by blast
  moreover have "pairwise (\<lambda>x y. blk x \<inter> blk y = {}) (insert (p, b) (free_blocks F \<union> L))"
    using D(3) disj unfolding pairwise_def by blast
  ultimately show ?thesis
    unfolding heap_rep_def using D(2,4-7) ok free_blocks_push [OF b, of F p]
    by (auto simp: put_block_def)
qed

lemma word_range:
  fixes p q n :: u32
  assumes "unat p + unat n < 2 ^ 32"
  shows "q - p < n \<longleftrightarrow> unat q \<in> {unat p ..< unat p + unat n}"
proof (cases "p \<le> q")
  case True
  then show ?thesis by (auto simp: word_less_nat_alt word_le_nat_alt unat_sub)
next
  case False
  then have "unat (q - p) = 2 ^ 32 + unat q - unat p"
    by (simp add: unat_word_ariths word_le_nat_alt unat_sub_if')
  then show ?thesis using False assms by (simp add: word_less_nat_alt word_le_nat_alt)
qed

lemma block_end: "block_ok e (p, b) \<Longrightarrow> unat p + 4 * 2 ^ b \<le> e"
proof -
  assume ok: "block_ok e (p, b)"
  have "0 < 4 * (2 :: nat) ^ b" by simp
  then have "unat p + (4 * 2 ^ b - 1) \<in> blk (p, b)" unfolding blk_def fst_conv snd_conv atLeastLessThan_iff by linarith
  then have "unat p + (4 * 2 ^ b - 1) < e" using ok by (auto simp: block_ok_def)
  then show ?thesis by simp
qed

lemma heap_rep_take:
  fixes n :: u32
  assumes R: "heap_rep s F L" and b: "b < 16" and F: "F b = p # ps"
  defines "s' \<equiv> heap_clear (s\<lparr>analysis := (analysis s)(b := n),
      heap_bucket := (heap_bucket s)(b := heap_words s p)\<rparr>) p (4 * 2 ^ b)"
  shows "heap_rep s' (F(b := ps)) (insert (p, b) L)" and "heap_bucket s b = p" and "(p, b) \<notin> L"
    and "unat a \<in> blk (p, b) \<Longrightarrow> heap_words s' a = 0"
proof -
  note D = heap_repD [OF R]
  have c: "chain (\<lambda>q. Some (heap_words s q)) (heap_bucket s b) (p # ps)" using D(1) [OF b] F by simp
  then show hb: "heap_bucket s b = p" by simp
  have mem: "(p, b) \<in> free_blocks F" using b F by (simp add: free_blocks_def)
  then show "(p, b) \<notin> L" using D(4) by blast
  have pnot: "p \<notin> set ps" using chain_distinct [OF c] by simp
  have "block_ok (unat (heap_brk s)) (p, b)" using D(2) mem by blast
  then have lt: "unat p + unat (4 * 2 ^ b :: u32) < 2 ^ 32"
    using block_end unat_block [OF b] unat_u32 [of "heap_brk s"] by fastforce
  have words: "heap_words s' a = (if unat a \<in> blk (p, b) then 0 else heap_words s a)" for a
    using word_range [OF lt, of a] unat_block [OF b] by (simp add: s'_def heap_clear_def blk_def)
  then show "unat a \<in> blk (p, b) \<Longrightarrow> heap_words s' a = 0" by simp
  have fb: "free_blocks (F(b := ps)) = free_blocks F - {(p, b)}"
    using F pnot by (auto simp: free_blocks_def split: if_splits)
  have "chain (\<lambda>q. Some (heap_words s' q)) (heap_bucket s' i) ((F(b := ps)) i)" if i: "i < 16" for i
  proof -
    have "unat q \<notin> blk (p, b)" if "q \<in> set ((F(b := ps)) i)" for q
    proof -
      have "(q, i) \<in> free_blocks F" "(q, i) \<noteq> (p, b)"
        using that i fb by (auto simp: free_blocks_def)
      then have "blk (q, i) \<inter> blk (p, b) = {}" using D(3) mem by blast
      then show ?thesis using blk_start by blast
    qed
    then have "chain (\<lambda>q. Some (heap_words s' q)) x ((F(b := ps)) i) \<longleftrightarrow>
        chain (\<lambda>q. Some (heap_words s q)) x ((F(b := ps)) i)" for x
      by (intro chain_cong) (simp add: words)
    moreover have "heap_bucket s' = (heap_bucket s)(b := heap_words s p)" by (simp add: s'_def heap_clear_def)
    moreover have "chain (\<lambda>q. Some (heap_words s q)) (heap_words s p) ps" using c by simp
    ultimately show ?thesis using D(1) [OF i] by simp
  qed
  moreover have "free_blocks (F(b := ps)) \<union> insert (p, b) L = free_blocks F \<union> L" using fb mem by blast
  moreover have "heap_brk s' = heap_brk s" by (simp add: s'_def heap_clear_def)
  ultimately show "heap_rep s' (F(b := ps)) (insert (p, b) L)"
    using R fb D(4) unfolding heap_rep_def by auto
qed

section \<open>Slabs\<close>

text \<open>What the heap's own operations leave alone: every field of the memory below it.\<close>

definition same_mmu :: "'a heap_state_scheme \<Rightarrow> 'a heap_state_scheme \<Rightarrow> bool" where
  "same_mmu s s' \<longleftrightarrow> (\<exists>b a w. s' = s\<lparr>heap_bucket := b, analysis := a, heap_words := w\<rparr>)"

lemma same_mmu_refl [simp]: "same_mmu s s"
  unfolding same_mmu_def by (intro exI [of _ "heap_bucket s"] exI [of _ "analysis s"] exI [of _ "heap_words s"]) simp

lemma same_mmu_trans: "same_mmu s t \<Longrightarrow> same_mmu t u \<Longrightarrow> same_mmu s u"
  unfolding same_mmu_def by fastforce

lemma same_mmu_put [simp]: "same_mmu s (put_block s p b n)" "same_mmu s (s\<lparr>analysis := g\<rparr>)" "same_mmu s (heap_clear s p m)"
  "same_mmu s (s\<lparr>analysis := g, heap_bucket := h\<rparr>)"
  unfolding same_mmu_def put_block_def heap_clear_def by (cases s, fastforce)+

lemma same_mmu_brk: "same_mmu s s' \<Longrightarrow> heap_brk s' = heap_brk s"
  by (auto simp: same_mmu_def)

lemma slab_block:
  fixes slab :: u32
  assumes "unat slab + N * (4 * 2 ^ b) < 2 ^ 32" and "n < N" and "b < 16"
  shows "unat (slab + 4 * (of_nat n * 2 ^ b)) = unat slab + n * (4 * 2 ^ b)"
proof -
  have "n * (4 * 2 ^ b) \<le> N * (4 * 2 ^ b)" using assms(2) by simp
  then have lt: "unat slab + n * (4 * 2 ^ b) < 2 ^ 32" using assms(1) by linarith
  have "4 * (of_nat n * 2 ^ b) = (of_nat (n * (4 * 2 ^ b)) :: u32)" by simp
  then have "unat (4 * (of_nat n * 2 ^ b) :: u32) = n * (4 * 2 ^ b)"
    using lt by (simp only: unat_of_nat) simp
  then show ?thesis using lt unat_add_lem [of slab "4 * (of_nat n * 2 ^ b)"] by simp
qed

lemma slab_block_ok:
  fixes slab :: u32
  assumes "unat slab + N * (4 * 2 ^ b) \<le> e" "e < 2 ^ 32" "0xF1000000 \<le> unat slab" "0x1000 dvd unat slab" "n < N" "b < 16"
  defines "p \<equiv> slab + 4 * (of_nat n * 2 ^ b)"
  shows "block_ok e (p, b)" and "blk (p, b) = {unat slab + n * (4 * 2 ^ b) ..< unat slab + Suc n * (4 * 2 ^ b)}"
proof -
  have p: "unat p = unat slab + n * (4 * 2 ^ b)"
    unfolding p_def by (rule slab_block [OF _ assms(5,6)]) (use assms(1,2) in linarith)
  then show B: "blk (p, b) = {unat slab + n * (4 * 2 ^ b) ..< unat slab + Suc n * (4 * 2 ^ b)}"
    by (simp add: blk_def algebra_simps)
  have "Suc n * (4 * 2 ^ b) \<le> N * (4 * 2 ^ b)" by (rule mult_le_mono1) (use assms(5) in simp)
  then have "blk (p, b) \<subseteq> {0xF1000000..<e}" unfolding B using assms(1,3) by auto
  moreover have "(4 * 2 ^ min 10 b :: nat) dvd 0x1000"
  proof -
    have "(2 :: nat) ^ min 10 b dvd 2 ^ 10" by (rule le_imp_power_dvd) simp
    then have "(4 * 2 ^ min 10 b :: nat) dvd 4 * 2 ^ 10" by (rule mult_dvd_mono [OF dvd_refl])
    then show ?thesis by simp
  qed
  then have "4 * 2 ^ min 10 b dvd unat slab" using assms(4) dvd_trans by blast
  moreover have "4 * 2 ^ min 10 b dvd n * (4 * 2 ^ b)"
    by (intro dvd_mult mult_dvd_mono le_imp_power_dvd) auto
  ultimately show "block_ok e (p, b)" using assms(6) p by (simp add: block_ok_def)
qed

lemma heap_dump_ok:
  assumes R: "heap_rep s F L" and b: "b < 16" and slab: "0xF1000000 \<le> unat slab" "0x1000 dvd unat slab"
    "unat slab + N * (4 * 2 ^ b) \<le> unat (heap_brk s)"
    and fresh: "\<And>x. x \<in> free_blocks F \<union> L \<Longrightarrow> blk x \<inter> {unat slab ..< unat slab + N * (4 * 2 ^ b)} = {}"
  shows "n \<le> N \<Longrightarrow> \<exists>s' F'. heap_dump s slab b n = Some s' \<and> heap_rep s' F' L \<and> same_mmu s s' \<and>
    (0 < n \<longrightarrow> F' b \<noteq> []) \<and> (\<forall>x \<in> free_blocks F' \<union> L. blk x \<inter> {unat slab + n * (4 * 2 ^ b) ..< unat slab + N * (4 * 2 ^ b)} = {})"
proof (induction n)
  case 0
  then show ?case using R fresh by (intro exI [of _ s] exI [of _ F]) simp
next
  case (Suc n)
  then obtain s1 F1 where IH: "heap_dump s slab b n = Some s1" "heap_rep s1 F1 L" "same_mmu s s1"
    "\<And>x. x \<in> free_blocks F1 \<union> L \<Longrightarrow> blk x \<inter> {unat slab + n * (4 * 2 ^ b) ..< unat slab + N * (4 * 2 ^ b)} = {}" by auto
  define p where "p = slab + 4 * (of_nat n * 2 ^ b)"
  have brk: "heap_brk s1 = heap_brk s" using IH(3) by (rule same_mmu_brk)
  have "n < N" using Suc.prems by simp
  from slab_block_ok [OF slab(3) _ slab(1,2) this b] unat_u32 [of "heap_brk s"] have
    ok: "block_ok (unat (heap_brk s1)) (p, b)" and
    blk: "blk (p, b) = {unat slab + n * (4 * 2 ^ b) ..< unat slab + Suc n * (4 * 2 ^ b)}"
    unfolding p_def brk by simp_all
  have le: "Suc n * (4 * 2 ^ b) \<le> N * (4 * 2 ^ b)" using Suc.prems by (rule mult_le_mono1)
  have disj: "blk x \<inter> blk (p, b) = {}" if "x \<in> free_blocks F1 \<union> L" for x
    using IH(4) [OF that] le unfolding blk by (fastforce simp: disjoint_iff)
  have new: "(p, b) \<notin> free_blocks F1 \<union> L" using disj [of "(p, b)"] blk_start [of p b] by blast
  define s2 where "s2 = put_block s1 p b (analysis s1 b - 1)"
  define s3 where "s3 = s2\<lparr>analysis := (analysis s2)(b := analysis s2 b + 1)\<rparr>"
  define F2 where "F2 = F1(b := p # F1 b)"
  have "heap_rep s2 F2 (L - {(p, b)})"
    unfolding s2_def F2_def by (rule heap_rep_put [OF IH(2) b ok]) (use disj new in blast)+
  then have rep: "heap_rep s3 F2 L" using new by (simp add: heap_rep_def s3_def)
  have "heap_free s1 p (4 * 2 ^ b) = Some s2"
    using heap_free_eq [of "4 * 2 ^ b" p s1] block_nonzero [OF ok] b by (simp add: bucket_for_block s2_def)
  then have dump: "heap_dump s slab b (Suc n) = Some s3" using IH(1) by (simp add: p_def s3_def)
  have F2: "free_blocks F2 = insert (p, b) (free_blocks F1)" unfolding F2_def by (rule free_blocks_push [OF b])
  have rest: "\<forall>x \<in> free_blocks F2 \<union> L. blk x \<inter> {unat slab + Suc n * (4 * 2 ^ b) ..< unat slab + N * (4 * 2 ^ b)} = {}"
    unfolding F2 using IH(4) blk by fastforce
  have "same_mmu s s3"
    unfolding s3_def s2_def by (rule same_mmu_trans [OF IH(3) same_mmu_trans [OF same_mmu_put(1,2)]])
  moreover have "F2 b \<noteq> []" by (simp add: F2_def)
  ultimately show ?case using dump rep rest by blast
qed

lemma heap_rep_cong:
  assumes "heap_words t = heap_words s" "heap_bucket t = heap_bucket s" "heap_brk t = heap_brk s"
  shows "heap_rep t F L = heap_rep s F L"
  using assms by (simp add: heap_rep_def)

lemma heap_fields: "mmu_state.more t = mmu_state.more s \<Longrightarrow>
  heap_words t = heap_words s \<and> heap_bucket t = heap_bucket s \<and> heap_brk t = heap_brk s"
  by (cases s; cases t) simp

lemma space_ok_cong:
  assumes "frame_state.truncate t = frame_state.truncate s" "phys t = phys s" "cr3 t = cr3 s"
  shows "space_ok t = space_ok s" "frame_count t = frame_count s"
proof -
  have eq: "frame_mem t = frame_mem s" "frame_list t = frame_list s" "frame_hash t = frame_hash s"
    "out_of_memory t = out_of_memory s" "oom_pool t = oom_pool s"
    using assms(1) by (simp_all add: frame_state.defs)
  have rep: "frame_rep t fl al = frame_rep s fl al" for fl al by (rule frame_rep_cong) (fact eq)+
  have avail: "frame_avail t = frame_avail s" "frame_inv t = frame_inv s" "frame_pool t = frame_pool s"
    by (simp_all add: frame_avail_def frame_inv_def frame_pool_def rep eq)
  then show "frame_count t = frame_count s" by (simp add: frame_count_def eq)
  have "free_frame t g = free_frame s g" for g by (simp add: free_frame_def avail)
  then show "space_ok t = space_ok s" by (simp add: space_ok_def window_def tables_ok_def avail assms(2,3))
qed

lemma same_mmu_space: "same_mmu s s' \<Longrightarrow> space_ok s' = space_ok s" "same_mmu s s' \<Longrightarrow> frame_count s' = frame_count s"
  by (rule space_ok_cong; auto simp: same_mmu_def frame_state.defs)+

text \<open>\<open>heap_valloc\<close> returns the old break, and moves it, when the virtual range and the frames suffice.\<close>

lemma heap_valloc_ok:
  assumes "space_ok s" and "unat (heap_brk s) + unat sz < 0xF8000000" and "0x1000 dvd unat (heap_brk s)"
    and "0x1000 dvd unat sz" and "2 * (unat sz div 0x1000) + 2 \<le> frame_count s"
  shows "\<exists>s'. heap_valloc s sz = Some (heap_brk s, s') \<and> space_ok s' \<and>
    heap_brk s' = heap_brk s + sz \<and> heap_words s' = heap_words s \<and> heap_bucket s' = heap_bucket s"
proof -
  let ?b = "heap_brk s"
  have sum: "unat (?b + sz) = unat ?b + unat sz" using unat_add_lem [of ?b sz] assms(2) by simp
  then have lt: "\<not> KERNEL_HEAP_END \<le> ?b + sz" using assms(2) by (simp add: word_le_nat_alt)
  have inv: "frame_inv s" using assms(1) by (simp add: space_ok_def tables_ok_def)
  obtain f s1 where s1: "frame_new s = Some (f, s1)" using frame_new_total [OF inv] assms(5) by auto
  note N = frame_new_space(1) [OF assms(1) s1] and c1 = frame_new_count [OF inv s1]
  have "0 < frame_count s1" "pg ?b < 0xFF800" using c1 assms(2,5) by auto
  then obtain s2 where s2: "page_set s1 ?b (page_fmt f (PF_PRES OR PF_RW)) = Some s2" "space_ok s2"
    "frame_count s1 \<le> Suc (frame_count s2)"
    using page_set_ok [OF N, of ?b "page_fmt f (PF_PRES OR PF_RW)"] by blast
  obtain m n where mn: "unat ?b = 0x1000 * m" "unat sz = 0x1000 * n" using assms(3,4) unfolding dvd_def by blast
  have "(unat ?b + unat sz + 0xFFF) div 0x1000 = m + n" unfolding mn by simp
  then have "card (page_range ?b sz) = unat sz div 0x1000" by (simp add: mn)
  then have cnt: "2 * card (page_range ?b sz) \<le> frame_count s2" using c1 s2(3) assms(5) by linarith
  have "unat ?b + unat sz \<le> 0xFF800000" using assms(2) by simp
  from mem_alloc_ok [OF s2(2) this cnt] obtain s3 where s3: "mem_alloc s2 ?b sz (ucast (PF_PRES OR PF_RW :: u32)) = Some s3" "space_ok s3"
    by blast
  have "mmu_state.more s3 = mmu_state.more s"
    using mem_alloc_more [OF s3(1)] page_set_more [OF s2(1)] frame_only_more [OF frame_new_only [OF s1]] by simp
  note F = heap_fields [OF this]
  have "heap_valloc s sz = Some (?b, s3\<lparr>heap_brk := ?b + sz\<rparr>)"
    using lt s1 s2(1) s3(1) F by (simp add: heap_valloc_def Let_def)
  moreover have "space_ok (s3\<lparr>heap_brk := ?b + sz\<rparr>)"
    using s3(2) by (subst space_ok_cong [where s = s3]) (simp_all add: frame_state.defs)
  ultimately show ?thesis using F by auto
qed

lemma slab_size_facts:
  assumes "b < 16"
  shows "unat (slab_size b) = (if b \<le> 10 then 0x1000 else 16 * 2 ^ b)" and "0x1000 dvd unat (slab_size b)"
    and "unat (slab_size b div 4) div 2 ^ b * (4 * 2 ^ b) = unat (slab_size b)"
    and "0 < unat (slab_size b div 4) div 2 ^ b"
proof -
  have le: "(2::nat) ^ b \<le> 2 ^ 15" using assms by (intro power_increasing) auto
  have "push_bit b 4 * 4 = (of_nat (16 * 2 ^ b) :: u32)" by (simp add: push_bit_eq_mult)
  then have "unat (push_bit b 4 * 4 :: u32) = 16 * 2 ^ b" using le by (simp only: unat_of_nat) simp
  then show sz: "unat (slab_size b) = (if b \<le> 10 then 0x1000 else 16 * 2 ^ b)" by (simp add: slab_size_def)
  have pow: "(2::nat) ^ b * 2 ^ (10 - b) = 2 ^ 10" if "b \<le> 10" using that by (simp flip: power_add)
  have pow': "(2::nat) ^ b = 2 ^ 11 * 2 ^ (b - 11)" if "\<not> b \<le> 10"
    using that power_add [of "2 :: nat" 11 "b - 11"] by simp
  show "0x1000 dvd unat (slab_size b)" unfolding sz using pow' by auto
  have q: "unat (slab_size b div 4) = (if b \<le> 10 then 2 ^ b * 2 ^ (10 - b) else 2 ^ b * 4)"
    using pow by (simp add: unat_div sz)
  then have d: "unat (slab_size b div 4) div 2 ^ b = (if b \<le> 10 then 2 ^ (10 - b) else 4)" by simp
  show "unat (slab_size b div 4) div 2 ^ b * (4 * 2 ^ b) = unat (slab_size b)"
    unfolding d sz using pow by (auto simp: mult.commute mult.left_commute)
  show "0 < unat (slab_size b div 4) div 2 ^ b" unfolding d by simp
qed

text \<open>Room for one more slab of a bucket: virtual memory below the end of the heap, and frames.\<close>

definition slab_room :: "'a heap_state_scheme \<Rightarrow> nat \<Rightarrow> bool" where
  "slab_room s b \<longleftrightarrow> unat (heap_brk s) + unat (slab_size b) < 0xF8000000 \<and>
     2 * (unat (slab_size b) div 0x1000) + 2 \<le> frame_count s"

lemma heap_valloc_fields:
  assumes "heap_valloc s sz = Some (p, s')"
  shows "p = heap_brk s" "heap_brk s' = heap_brk s + sz" "heap_words s' = heap_words s" "heap_bucket s' = heap_bucket s"
    "heap_brk s + sz < KERNEL_HEAP_END"
  using assms
  by (auto simp: heap_valloc_def Let_def not_le
      dest!: heap_fields [OF mem_alloc_more] heap_fields [OF page_set_more]
        heap_fields [OF frame_only_more [OF frame_new_only]] split: if_splits)

lemma heap_new_slab_rep:
  assumes R: "heap_rep s F L" and b: "b < 16" and v: "heap_valloc s (slab_size b) = Some (p, s1)"
  shows "\<exists>s' F'. heap_new_slab s b = Some s' \<and> heap_rep s' F' L \<and> same_mmu s1 s' \<and> F' b \<noteq> []"
proof -
  note D = heap_repD [OF R] and Z = slab_size_facts [OF b] and V = heap_valloc_fields [OF v]
  let ?brk = "heap_brk s" and ?sz = "slab_size b"
  have "(2::nat) ^ b \<le> 2 ^ 15" using b by (intro power_increasing) auto
  then have "unat ?brk + unat ?sz < 2 ^ 32" using D(7) Z(1) by (auto split: if_splits)
  then have sum: "unat (?brk + ?sz) = unat ?brk + unat ?sz" using unat_add_lem [of ?brk ?sz] by simp
  have ok: "block_ok (unat ?brk + unat ?sz) x" if "block_ok (unat ?brk) x" for x
    using that unfolding block_ok_def by auto
  have "unat ?brk + unat ?sz \<le> 0xF8000000" using V(5) sum by (simp add: word_less_nat_alt)
  then have R1: "heap_rep s1 F L"
    using R ok Z(2) unfolding heap_rep_def V(2-4) sum by (auto intro: dvd_add)
  have "blk x \<inter> {unat ?brk ..< unat ?brk + unat ?sz} = {}" if "x \<in> free_blocks F \<union> L" for x
    using D(2) [OF that] by (fastforce simp: block_ok_def)
  then obtain s2 F2 where "heap_dump s1 ?brk b (unat (?sz div 4) div 2 ^ b) = Some s2" "heap_rep s2 F2 L"
      "same_mmu s1 s2" "F2 b \<noteq> []"
    using heap_dump_ok [OF R1 b D(6,5), of "unat (?sz div 4) div 2 ^ b" "unat (?sz div 4) div 2 ^ b"]
      V(2) sum Z(3,4) by auto
  moreover have "?brk \<noteq> 0" using D(6) by auto
  ultimately show ?thesis using v V(1) by (auto simp: heap_new_slab_def Let_def)
qed

lemma heap_new_slab_ok:
  assumes R: "heap_rep s F L" and sp: "space_ok s" and b: "b < 16" and room: "slab_room s b"
  shows "\<exists>s' F'. heap_new_slab s b = Some s' \<and> heap_rep s' F' L \<and> space_ok s' \<and> F' b \<noteq> []"
proof -
  obtain s1 where s1: "heap_valloc s (slab_size b) = Some (heap_brk s, s1)" "space_ok s1"
    using heap_valloc_ok [OF sp _ heap_repD(5) [OF R] slab_size_facts(2) [OF b]] room
    unfolding slab_room_def by blast
  then show ?thesis using heap_new_slab_rep [OF R b s1(1)] same_mmu_space(1) by blast
qed

text \<open>\<open>heap_alloc\<close> from a nonempty bucket, or with room for a slab.\<close>

lemma heap_alloc_take:
  assumes R: "heap_rep s F L" and sz: "sz \<le> 0x20000" and F: "F (bucket_for sz) = p # ps"
  shows "\<exists>s'. heap_alloc s sz = Some (p, s') \<and> same_mmu s s' \<and> (p, bucket_for sz) \<notin> L \<and>
    heap_rep s' (F(bucket_for sz := ps)) (insert (p, bucket_for sz) L) \<and>
    (\<forall>a. unat a \<in> blk (p, bucket_for sz) \<longrightarrow> heap_words s' a = 0)"
proof -
  let ?b = "bucket_for sz"
  have b: "?b < 16" using bucket_for_le(1) [OF sz] .
  note T = heap_rep_take(2,3) [OF R b F] heap_rep_take(1,4) [OF R b F, where n = "analysis s ?b + 1"]
  have nz: "p \<noteq> 0" using heap_repD(1) [OF R b] F by auto
  let ?t = "s\<lparr>analysis := (analysis s)(?b := analysis s ?b + 1), heap_bucket := (heap_bucket s)(?b := heap_words s p)\<rparr>"
  have "heap_alloc s sz = Some (p, heap_clear ?t p (4 * 2 ^ ?b))"
    using b T(1) nz by (simp add: heap_alloc_def Let_def)
  moreover have "same_mmu s (heap_clear ?t p (4 * 2 ^ ?b))"
    by (rule same_mmu_trans [OF same_mmu_put(4) same_mmu_put(3)])
  ultimately show ?thesis using T by blast
qed

lemma heap_alloc_ok:
  assumes R: "heap_rep s F L" and sp: "space_ok s" and sz: "sz \<le> 0x20000"
    and "F (bucket_for sz) \<noteq> [] \<or> slab_room s (bucket_for sz)"
  shows "\<exists>p s' F'. heap_alloc s sz = Some (p, s') \<and> heap_rep s' F' (insert (p, bucket_for sz) L) \<and> space_ok s' \<and>
    (p, bucket_for sz) \<notin> L \<and> (\<forall>a. unat a \<in> blk (p, bucket_for sz) \<longrightarrow> heap_words s' a = 0)"
proof (cases "F (bucket_for sz)")
  case (Cons p ps)
  then show ?thesis using heap_alloc_take [OF R sz Cons] same_mmu_space(1) sp by blast
next
  case Nil
  let ?b = "bucket_for sz"
  have b: "?b < 16" using bucket_for_le(1) [OF sz] .
  obtain s1 F1 where s1: "heap_new_slab s ?b = Some s1" "heap_rep s1 F1 L" "space_ok s1" "F1 ?b \<noteq> []"
    using heap_new_slab_ok [OF R sp b] assms(4) Nil by blast
  then obtain p ps where F1: "F1 ?b = p # ps" by (cases "F1 ?b") auto
  have "heap_bucket s ?b = 0" "heap_bucket s1 ?b \<noteq> 0"
    using heap_repD(1) [OF R b] heap_repD(1) [OF s1(2) b] Nil F1 by auto
  then have "heap_alloc s sz = heap_alloc s1 sz" using s1(1) b by (simp add: heap_alloc_def Let_def)
  then show ?thesis using heap_alloc_take [OF s1(2) sz F1] same_mmu_space(1) s1(3) by metis
qed

lemma heap_free_ok:
  assumes R: "heap_rep s F L" and m: "(p, bucket_for sz) \<in> L" and sz: "sz \<le> 0x20000"
  shows "\<exists>s'. heap_free s p sz = Some s' \<and> same_mmu s s' \<and>
    heap_rep s' (F(bucket_for sz := p # F (bucket_for sz))) (L - {(p, bucket_for sz)})"
proof -
  note D = heap_repD [OF R]
  have b: "bucket_for sz < 16" using bucket_for_le(1) [OF sz] .
  have ok: "block_ok (unat (heap_brk s)) (p, bucket_for sz)" using D(2) m by blast
  have "heap_rep (put_block s p (bucket_for sz) n) (F(bucket_for sz := p # F (bucket_for sz))) (L - {(p, bucket_for sz)})" for n
    by (rule heap_rep_put [OF R b ok]) (use D(3,4) m in blast)+
  then show ?thesis using heap_free_eq [OF b block_nonzero [OF ok], of s] same_mmu_put(1) by blast
qed

section \<open>Adding frames\<close>

lemma frame_rep_add:
  fixes s :: "'a frame_state_scheme"
  assumes "frame_rep s fl al" and p: "frame_mem s p = None" "p \<noteq> 0" and a: "a < 0x100000" "a \<notin> set fl" "al a = None"
    and c: "fs_next c = frame_list s" "fs_addr c = a"
    and m': "frame_mem s' p = Some c"
      "\<And>q. q \<noteq> p \<Longrightarrow> nx_of (frame_mem s') q = nx_of (frame_mem s) q \<and> cell_info s' q = cell_info s q"
      "\<And>q. q \<noteq> p \<Longrightarrow> q \<noteq> frame_list s \<Longrightarrow> frame_mem s' q = frame_mem s q"
    and s': "frame_list s' = p" "frame_hash s' = frame_hash s"
  shows "frame_rep s' (a # fl) al"
  using assms(1)
proof (cases rule: frame_repE)
  case (1 ps H)
  note D = frame_listsD [OF 1(1)]
  have np: "p \<notin> set ps" "p \<notin> set (H h)" for h
    using chain_alloc [OF D(1), of p] dchain_alloc [OF D(2), of p h] p(1) by auto
  have addr: "cell_addr s' q = cell_addr s q" "cell_info s' q = cell_info s q" if "q \<noteq> p" for q
    using m'(2) [OF that] by (cases "frame_mem s q"; cases "frame_mem s' q"; simp add: cell_info_def)+
  have hash: "frame_mem s' q = frame_mem s q" if "q \<in> set (H h)" for q h
    using m'(3) [of q] hash_cell_not_free [OF 1(1) that] np that by metis
  have ne: "q \<noteq> p" if "q \<in> set ps \<union> (\<Union>h. set (H h))" for q using that np by auto
  have anew: "a \<noteq> cell_addr s q" if q: "q \<in> set ps \<union> (\<Union>h. set (H h))" for q
  proof
    assume aq: "a = cell_addr s q"
    then have "q \<notin> set ps" using a(2) 1(2) by auto
    then obtain h fs where "q \<in> set (H h)" "frame_mem s q = Some fs" "slot (fs_addr fs) = h" using q D(4) by blast
    then have "al a = Some (fs_refc fs)" using 1(3) aq by (auto simp: cell_info_def)
    with a(3) show False by simp
  qed
  have "chain (nx_of (frame_mem s')) (frame_list s) ps"
    using D(1) np m'(2) by (subst chain_cong [where nx' = "nx_of (frame_mem s)"]) metis+
  moreover have "dchain (np_of (frame_mem s')) 0 (frame_hash s h) (H h)" for h
    using D(2) [of h] hash by (subst dchain_cong [where np' = "np_of (frame_mem s)"]) auto
  moreover have "inj_on (cell_addr s') (set (p # ps) \<union> (\<Union>h. set (H h)))"
  proof -
    have "inj_on (cell_addr s') (set ps \<union> (\<Union>h. set (H h)))"
      using D(5) ne addr(1) by (subst inj_on_cong [where g = "cell_addr s"]) metis+
    moreover have "cell_addr s' p \<notin> cell_addr s' ` (set ps \<union> (\<Union>h. set (H h)) - {p})"
      using anew addr(1) m'(1) c(2) by auto
    ultimately show ?thesis by (simp add: Un_insert_left inj_on_insert)
  qed
  moreover have "cell_addr s' q < 0x100000" if "q \<in> set (p # ps) \<union> (\<Union>h. set (H h))" for q
    using that D(6) addr(1) [of q] m'(1) c(2) a(1) by (cases "q = p") auto
  ultimately have "frame_lists s' (p # ps) H"
    unfolding frame_lists_def using D(3,4) np hash m'(1) c(1) p(2) s' by auto
  moreover have "map (cell_addr s') (p # ps) = a # fl"
    using map_cong [OF refl, of ps "cell_addr s'" "cell_addr s"] addr(1) ne 1(2) m'(1) c(2) by simp
  moreover have "al x = Some r \<longleftrightarrow> (\<exists>q \<in> set (H (slot x)). cell_info s' q = Some (x, r))" for x r
    using 1(3) np addr(2) by metis
  ultimately show ?thesis unfolding frame_rep_def by (intro exI [of _ "p # ps"] exI [of _ H]) auto
qed

lemma frame_cong_heap:
  "same_mmu s s' \<Longrightarrow> frame_mem s' = frame_mem s \<and> frame_list s' = frame_list s \<and> frame_hash s' = frame_hash s"
  by (auto simp: same_mmu_def)

section \<open>Interface\<close>

text \<open>
  What the kernel's object allocation relies on: \<open>alloc\<close> returns a block that overlaps no block the
  kernel holds, \<open>free\<close> takes a held block back. Any sequence of allocations therefore yields pairwise
  disjoint blocks.
\<close>

primrec alloc_all :: "('s \<Rightarrow> u32 \<Rightarrow> (ptr \<times> 's) option) \<Rightarrow> 's \<Rightarrow> u32 list \<Rightarrow> (ptr list \<times> 's) option" where
  "alloc_all alloc s [] = Some ([], s)"
| "alloc_all alloc s (n # ns) = do {
     (p, s) \<leftarrow> alloc s n;
     (ps, s) \<leftarrow> alloc_all alloc s ns;
     Some (p # ps, s)
   }"

locale block_allocator =
  fixes alloc :: "'s \<Rightarrow> u32 \<Rightarrow> (ptr \<times> 's) option" and free :: "'s \<Rightarrow> ptr \<Rightarrow> u32 \<Rightarrow> 's option"
    and held :: "'s \<Rightarrow> (ptr \<times> nat) set \<Rightarrow> bool" and cls :: "u32 \<Rightarrow> nat" and ext :: "ptr \<times> nat \<Rightarrow> nat set"
    and lim :: u32
  assumes held_disjoint: "held s L \<Longrightarrow> x \<in> L \<Longrightarrow> y \<in> L \<Longrightarrow> x \<noteq> y \<Longrightarrow> ext x \<inter> ext y = {}"
    and alloc_held: "held s L \<Longrightarrow> n \<le> lim \<Longrightarrow> alloc s n = Some (p, s') \<Longrightarrow>
      held s' (insert (p, cls n) L) \<and> (p, cls n) \<notin> L"
    and free_held: "held s L \<Longrightarrow> n \<le> lim \<Longrightarrow> (p, cls n) \<in> L \<Longrightarrow>
      \<exists>s'. free s p n = Some s' \<and> held s' (L - {(p, cls n)})"
begin

lemma alloc_all_held:
  "held s L \<Longrightarrow> \<forall>n \<in> set ns. n \<le> lim \<Longrightarrow> alloc_all alloc s ns = Some (ps, s') \<Longrightarrow> length ps = length ns \<and>
   (let xs = zip ps (map cls ns) in held s' (set xs \<union> L) \<and> distinct xs \<and> set xs \<inter> L = {})"
proof (induction ns arbitrary: s L ps)
  case (Cons n ns)
  then obtain p s1 qs where st: "alloc s n = Some (p, s1)" "alloc_all alloc s1 ns = Some (qs, s')" "ps = p # qs"
    by auto
  from alloc_held [OF Cons.prems(1) _ st(1)] Cons.prems(2) have
    1: "held s1 (insert (p, cls n) L)" "(p, cls n) \<notin> L" by auto
  let ?ys = "zip qs (map cls ns)"
  have "length qs = length ns" "held s' (set ?ys \<union> insert (p, cls n) L)" "distinct ?ys" "set ?ys \<inter> insert (p, cls n) L = {}"
    using Cons.IH [OF 1(1) _ st(2)] Cons.prems(2) by (auto simp: Let_def)
  then show ?case using 1(2) st(3) by (auto simp: Let_def)
qed simp

lemma alloc_all_disjoint:
  assumes "held s L" and "\<forall>n \<in> set ns. n \<le> lim" and "alloc_all alloc s ns = Some (ps, s')"
  shows "length ps = length ns \<and>
    (\<forall>i j. i < j \<and> j < length ns \<longrightarrow> ext (ps ! i, cls (ns ! i)) \<inter> ext (ps ! j, cls (ns ! j)) = {}) \<and>
    (\<forall>i < length ns. \<forall>y \<in> L. ext (ps ! i, cls (ns ! i)) \<inter> ext y = {})"
proof -
  let ?xs = "zip ps (map cls ns)"
  have H: "length ps = length ns" "held s' (set ?xs \<union> L)" "distinct ?xs" "set ?xs \<inter> L = {}"
    using alloc_all_held [OF assms] by (auto simp: Let_def)
  have nth: "?xs ! i = (ps ! i, cls (ns ! i))" "?xs ! i \<in> set ?xs" if "i < length ns" for i
    using H(1) that by (auto intro!: nth_mem simp: in_set_conv_nth)
  have "?xs ! i \<noteq> ?xs ! j" if "i < j" "j < length ns" for i j
    using H(1) that nth_eq_iff_index_eq [OF H(3), of i j] by simp
  then have "ext (?xs ! i) \<inter> ext (?xs ! j) = {}" if "i < j" "j < length ns" for i j
    using that nth(2) [of i] nth(2) [of j] by (intro held_disjoint [OF H(2)]) auto
  then have "ext (ps ! i, cls (ns ! i)) \<inter> ext (ps ! j, cls (ns ! j)) = {}" if "i < j" "j < length ns" for i j
    using that nth(1) [of i] nth(1) [of j] by fastforce
  moreover have "ext (?xs ! i) \<inter> ext y = {}" if "i < length ns" "y \<in> L" for i y
    using that nth(2) [of i] H(4) by (intro held_disjoint [OF H(2)]) auto
  then have "ext (ps ! i, cls (ns ! i)) \<inter> ext y = {}" if "i < length ns" "y \<in> L" for i y
    using that nth(1) [of i] by fastforce
  ultimately show ?thesis using H(1) by blast
qed

end

interpretation kheap: block_allocator heap_alloc heap_free "\<lambda>s L. \<exists>F. heap_rep s F L" bucket_for blk "0x20000"
proof
  fix s :: "'a heap_state_scheme" and L x y
  show "\<exists>F. heap_rep s F L \<Longrightarrow> x \<in> L \<Longrightarrow> y \<in> L \<Longrightarrow> x \<noteq> y \<Longrightarrow> blk x \<inter> blk y = {}"
    using heap_repD(3) by blast
next
  fix s s' :: "'a heap_state_scheme" and L n p
  assume "\<exists>F. heap_rep s F L" and n: "n \<le> 0x20000" and a: "heap_alloc s n = Some (p, s')"
  then obtain F where R: "heap_rep s F L" by blast
  have b: "bucket_for n < 16" using bucket_for_le(1) [OF n] .
  show "(\<exists>F. heap_rep s' F (insert (p, bucket_for n) L)) \<and> (p, bucket_for n) \<notin> L"
  proof (cases "F (bucket_for n)")
    case Nil
    then have z: "heap_bucket s (bucket_for n) = 0" using heap_repD(1) [OF R b] by simp
    then obtain q s1 where v: "heap_valloc s (slab_size (bucket_for n)) = Some (q, s1)"
      using a b by (cases "heap_valloc s (slab_size (bucket_for n))") (auto simp: heap_alloc_def heap_new_slab_def Let_def)
    obtain s2 F2 where s2: "heap_new_slab s (bucket_for n) = Some s2" "heap_rep s2 F2 L" "F2 (bucket_for n) \<noteq> []"
      using heap_new_slab_rep [OF R b v] by blast
    then obtain r rs where F2: "F2 (bucket_for n) = r # rs" by (cases "F2 (bucket_for n)") auto
    have "heap_bucket s2 (bucket_for n) \<noteq> 0" using heap_repD(1) [OF s2(2) b] F2 by auto
    then have "heap_alloc s n = heap_alloc s2 n" using s2(1) z b by (simp add: heap_alloc_def Let_def)
    then show ?thesis using heap_alloc_take [OF s2(2) n F2] a by auto
  next
    case (Cons r rs)
    then show ?thesis using heap_alloc_take [OF R n Cons] a by auto
  qed
next
  fix s :: "'a heap_state_scheme" and L n p
  assume "\<exists>F. heap_rep s F L" "n \<le> 0x20000" "(p, bucket_for n) \<in> L"
  then show "\<exists>s'. heap_free s p n = Some s' \<and> (\<exists>F. heap_rep s' F (L - {(p, bucket_for n)}))"
    using heap_free_ok by blast
qed

text \<open>A heap with no slab yet, on the address space of the paging examples.\<close>

definition fresh_heap :: heap_state where
  "fresh_heap = mmu_state.extend empty_space
     \<lparr>heap_bucket = (\<lambda>_. 0), analysis = (\<lambda>_. 0), heap_brk = KERNEL_HEAP, heap_words = (\<lambda>_. 0)\<rparr>"

lemma fresh_heap_ok: "heap_rep fresh_heap (\<lambda>_. []) {}" "space_ok fresh_heap" "4 \<le> frame_count fresh_heap"
proof -
  show "heap_rep fresh_heap (\<lambda>_. []) {}"
    by (simp add: heap_rep_def fresh_heap_def mmu_state.extend_def free_blocks_def)
  have eq: "frame_state.truncate fresh_heap = frame_state.truncate empty_space" "phys fresh_heap = phys empty_space"
    "cr3 fresh_heap = cr3 empty_space"
    by (simp_all add: fresh_heap_def mmu_state.extend_def frame_state.defs)
  show "space_ok fresh_heap" "4 \<le> frame_count fresh_heap"
    using space_ok_cong [OF eq] empty_space_ok by simp_all
qed

text \<open>A heap with two free blocks and one held block of bucket 6.\<close>

definition small_heap :: heap_state where
  "small_heap = fresh_heap\<lparr>heap_bucket := (\<lambda>_. 0)(6 := 0xF1000000), heap_brk := 0xF1001000,
     heap_words := (\<lambda>_. 0)(0xF1000000 := 0xF1000100)\<rparr>"

lemma upt_16: "[0..<16] = [0, 1, 2, 3, 4, 5, 6, 7, 8, 9, 10, 11, 12, 13, 14, 15]"
  by (simp add: upt_rec)

lemma bucket_values: "bucket_for 148 = 6" "bucket_for 200 = 6" "bucket_for 16 = 2"
  by (simp_all add: bucket_for_def upt_16)

lemma small_heap_ok: "heap_rep small_heap ((\<lambda>_. [])(6 := [0xF1000000, 0xF1000100])) {(0xF1000200, 6)}"
proof -
  have fb: "free_blocks ((\<lambda>_. [])(6 := [0xF1000000, 0xF1000100])) = {(0xF1000000, 6), (0xF1000100, 6)}"
    by (auto simp: free_blocks_def split: if_splits)
  have "heap_brk small_heap = 0xF1001000" by (simp add: small_heap_def)
  then show ?thesis
    unfolding heap_rep_def fb by (auto simp: small_heap_def block_ok_def blk_def pairwise_def)
qed

section \<open>Properties\<close>



text \<open>
  Any sequence of successful \<open>heap_alloc\<close> calls, whatever the sizes, returns pairwise disjoint
  blocks, disjoint also from all blocks held before.
\<close>

theorem heap_allocs_disjoint:
  assumes "heap_rep s F L" and "\<forall>n \<in> set ns. n \<le> 0x20000" and "alloc_all heap_alloc s ns = Some (ps, s')"
  shows "length ps = length ns \<and>
    (\<forall>i j. i < j \<and> j < length ns \<longrightarrow> blk (ps ! i, bucket_for (ns ! i)) \<inter> blk (ps ! j, bucket_for (ns ! j)) = {}) \<and>
    (\<forall>i < length ns. \<forall>y \<in> L. blk (ps ! i, bucket_for (ns ! i)) \<inter> blk y = {})"
  by (rule kheap.alloc_all_disjoint) (use assms in blast)+

theorem heap_allocs_disjoint_witness:
  "\<exists>s'. alloc_all heap_alloc small_heap [148, 200] = Some ([0xF1000000, 0xF1000100], s') \<and>
    blk (0xF1000000, 6) \<inter> blk (0xF1000100, 6) = {} \<and> blk (0xF1000000, 6) \<inter> blk (0xF1000200, 6) = {}"
proof -
  have "\<exists>s'. alloc_all heap_alloc small_heap [148, 200] = Some ([0xF1000000, 0xF1000100], s')"
    by (simp add: heap_alloc_def bucket_values small_heap_def heap_clear_def Let_def)
  then obtain s' where s': "alloc_all heap_alloc small_heap [148, 200] = Some ([0xF1000000, 0xF1000100], s')" by blast
  have "\<forall>n \<in> set [148, 200 :: u32]. n \<le> 0x20000" by simp
  note D = heap_allocs_disjoint [OF small_heap_ok this s']
  show ?thesis
    using s' D [THEN conjunct2, THEN conjunct1, rule_format, of 0 1]
      D [THEN conjunct2, THEN conjunct2, rule_format, of 0 "(0xF1000200, 6)"]
    by (intro exI [of _ s'] conjI) (simp_all add: bucket_values)
qed

text \<open>
  Freeing and allocating are inverse: a held block given back with \<open>heap_free\<close> is no longer held,
  and the next \<open>heap_alloc\<close> of any size of the same bucket returns that very block, cleared, with
  the set of held blocks as it was.
\<close>

theorem heap_free_alloc:
  assumes "heap_rep s F L" and "(p, bucket_for sz) \<in> L" and "sz \<le> 0x20000"
    and "sz' \<le> 0x20000" and "bucket_for sz' = bucket_for sz"
  shows "\<exists>s1 s2 F1 F2. heap_free s p sz = Some s1 \<and> heap_rep s1 F1 (L - {(p, bucket_for sz)}) \<and>
    heap_alloc s1 sz' = Some (p, s2) \<and> heap_rep s2 F2 L \<and>
    (\<forall>a. unat a \<in> blk (p, bucket_for sz) \<longrightarrow> heap_words s2 a = 0)"
proof -
  let ?b = "bucket_for sz"
  obtain s1 where s1: "heap_free s p sz = Some s1" "heap_rep s1 (F(?b := p # F ?b)) (L - {(p, ?b)})"
    using heap_free_ok [OF assms(1-3)] by blast
  obtain s2 F2 where "heap_alloc s1 sz' = Some (p, s2)" "heap_rep s2 F2 (insert (p, ?b) (L - {(p, ?b)}))"
    "\<forall>a. unat a \<in> blk (p, ?b) \<longrightarrow> heap_words s2 a = 0"
    using heap_alloc_take [OF s1(2) assms(4), of p "F ?b"] assms(5) by auto
  then show ?thesis using s1 assms(2) by (auto simp: insert_absorb)
qed

theorem heap_free_alloc_witness:
  "\<exists>s1 s2 F1 F2. heap_free small_heap 0xF1000200 148 = Some s1 \<and> heap_rep s1 F1 {} \<and>
    heap_alloc s1 200 = Some (0xF1000200, s2) \<and> heap_rep s2 F2 {(0xF1000200, 6)}"
  using heap_free_alloc [OF small_heap_ok, of "0xF1000200" 148 200] by (auto simp: bucket_values)

text \<open>
  Sizes above 128 KiB: \<open>heap_alloc\<close> refuses them with \<open>NULL\<close> and no change, but \<open>heap_free\<close>'s
  guard \<open>bucket > 17\<close> can never fire, so that \<open>heap_free\<close> indexes \<open>heap_bucket\<close> out of bounds.
\<close>

theorem heap_oversize:
  assumes sz: "sz > 0x20000"
  shows "heap_alloc s sz = Some (0, s) \<and> heap_free s p sz = None"
proof -
  have "\<not> sz \<le> 4 * 2 ^ i" if "i < 16" for i
  proof -
    have "(2::nat) ^ i \<le> 2 ^ 15" using that by (intro power_increasing) auto
    then show ?thesis using sz unat_block [OF that] by (simp add: word_le_nat_alt word_less_nat_alt)
  qed
  then have "find (\<lambda>i. sz \<le> 4 * 2 ^ i) [0..<16] = None" by (auto simp: find_None_iff)
  then have "bucket_for sz = 17" by (simp add: bucket_for_def)
  then show ?thesis by (simp add: heap_alloc_def heap_free_def Let_def)
qed

theorem heap_oversize_witness: "heap_alloc fresh_heap 0x20001 = Some (0, fresh_heap) \<and> heap_free fresh_heap 0xF1000000 0x20001 = None"
  by (rule heap_oversize) simp

text \<open>
  \<open>frame_add\<close> while the bucket of its cells has a free block: with the frame allocator's cells all
  held blocks of the heap, a frame above the boot region that the allocator does not know is added at
  the head of the free list, reference counts are unchanged, the allocator leaves the out-of-memory
  mode, and its cells are still held blocks. Frames of the boot region are ignored.
\<close>

theorem frame_add_correct:
  assumes "heap_rep s F L" and "F 2 \<noteq> []" and "dom (frame_mem s) \<subseteq> {p. (p, 2) \<in> L}" and "frame_rep s fl al"
    and "f div PAGESZ \<notin> set fl" and "al (f div PAGESZ) = None"
  shows "\<exists>s' F' L' fl'. frame_add s f = Some s' \<and> heap_rep s' F' L' \<and> frame_rep s' fl' al \<and>
    dom (frame_mem s') \<subseteq> {p. (p, 2) \<in> L'} \<and>
    (if f < KERNEL_BOOT_END then s' = s \<and> fl' = fl else fl' = f div PAGESZ # fl \<and> \<not> out_of_memory s')"
proof (cases "f < KERNEL_BOOT_END")
  case True
  then show ?thesis using assms by (auto simp: frame_add_def)
next
  case False
  obtain p ps where F: "F (bucket_for 16) = p # ps" using assms(2) by (cases "F 2") (auto simp: bucket_values)
  obtain s1 F1 where s1: "heap_alloc s 16 = Some (p, s1)" "same_mmu s s1" "(p, 2) \<notin> L" "heap_rep s1 F1 (insert (p, 2) L)"
    using heap_alloc_take [OF assms(1) _ F] by (auto simp: bucket_values)
  have nz: "p \<noteq> 0" using block_nonzero heap_repD(2) [OF s1(4), of "(p, 2)"] by blast
  note eq = frame_cong_heap [OF s1(2)]
  have fresh: "frame_mem s1 p = None" using assms(3) s1(3) eq by (auto simp: domIff subset_eq)
  have rep1: "frame_rep s1 fl al" using assms(4) frame_rep_cong [of s1 s] eq by simp
  define c where "c = \<lparr>fs_next = frame_list s1, fs_prev = 0, fs_refc = 0, fs_addr = f div PAGESZ\<rparr>"
  define t where "t = s1\<lparr>frame_mem := (frame_mem s1)(p \<mapsto> c), frame_list := p\<rparr>"
  have head: "frame_list s1 = 0 \<or> frame_list s1 \<noteq> p \<and> frame_mem s1 (frame_list s1) \<noteq> None"
    using rep1 fresh
    by (auto elim!: frame_repE dest!: frame_listsD(1) simp: chain_nonnull)
  obtain s2 where s2: "(if frame_list s1 \<noteq> 0 then fs_upd t (frame_list s1) (fs_prev_update (\<lambda>_. p)) else Some t) = Some s2"
    using head by (cases "frame_list s1 = 0") (auto simp: fs_upd_def t_def)
  let ?s = "s2\<lparr>out_of_memory := False\<rparr>"
  have mem: "frame_mem ?s p = Some c" "dom (frame_mem ?s) = insert p (dom (frame_mem s1))"
    "\<And>q. q \<noteq> p \<Longrightarrow> nx_of (frame_mem ?s) q = nx_of (frame_mem s1) q \<and> cell_info ?s q = cell_info s1 q"
    "\<And>q. q \<noteq> p \<Longrightarrow> q \<noteq> frame_list s1 \<Longrightarrow> frame_mem ?s q = frame_mem s1 q"
    "frame_list ?s = p" "frame_hash ?s = frame_hash s1" "heap_words ?s = heap_words s1"
    "heap_bucket ?s = heap_bucket s1" "heap_brk ?s = heap_brk s1"
    using s2 head by (auto simp: fs_upd_def t_def cell_info_def split: option.splits if_splits)
  have "f div PAGESZ < 0x100000" using unat_u32 [of f] by (simp add: word_less_nat_alt unat_div)
  then have "frame_rep ?s (f div PAGESZ # fl) al"
    using assms(5,6) mem nz fresh by (intro frame_rep_add [OF rep1, where p = p and c = c]) (simp_all add: c_def)
  moreover have "heap_rep ?s F1 (insert (p, 2) L)" using s1(4) mem heap_rep_cong [of ?s s1] by simp
  moreover have "frame_add s f = Some ?s"
    using False s1(1) nz s2 [unfolded t_def c_def]
    by (cases "frame_list s1 = 0") (auto simp: frame_add_def Let_def)
  moreover have "dom (frame_mem ?s) \<subseteq> {q. (q, 2) \<in> insert (p, 2) L}" using mem(2) assms(3) eq by auto
  ultimately show ?thesis using False by (intro exI [of _ ?s] exI) auto
qed

text \<open>The allocator at boot: no frames yet, one free heap block for a cell.\<close>

definition boot_heap :: heap_state where
  "boot_heap = fresh_heap\<lparr>frame_mem := Map.empty, frame_list := 0, out_of_memory := True,
     heap_bucket := (\<lambda>_. 0)(2 := 0xF1000000), heap_brk := 0xF1001000\<rparr>"

theorem frame_add_correct_witness:
  "\<exists>s' F' L' fl'. frame_add boot_heap 0x900000 = Some s' \<and> heap_rep s' F' L' \<and> frame_rep s' fl' Map.empty \<and>
    dom (frame_mem s') \<subseteq> {p. (p, 2) \<in> L'} \<and>
    (if 0x900000 < KERNEL_BOOT_END then s' = boot_heap \<and> fl' = [] else fl' = 0x900000 div PAGESZ # [] \<and> \<not> out_of_memory s')"
proof (rule frame_add_correct)
  have fb: "free_blocks ((\<lambda>_. [])(2 := [0xF1000000])) = {(0xF1000000, 2)}"
    by (auto simp: free_blocks_def split: if_splits)
  show "heap_rep boot_heap ((\<lambda>_. [])(2 := [0xF1000000])) {}"
    unfolding heap_rep_def fb
    by (auto simp: boot_heap_def fresh_heap_def mmu_state.extend_def block_ok_def blk_def pairwise_def)
  show "frame_rep boot_heap [] Map.empty"
    unfolding frame_rep_def frame_lists_def
    by (intro exI [of _ "[]"] exI [of _ "\<lambda>_. []"])
       (simp add: boot_heap_def fresh_heap_def mmu_state.extend_def empty_space_def frame_state.extend_def two_frames_def)
qed (simp_all add: boot_heap_def)

end
