(* ===== verification/Address_Space.thy ===== *)
theory Address_Space
  imports Kernel_Heap
begin

text \<open>
  Address spaces: \<open>kernel/mem/space.c\<close> and \<open>frame_copy\<close> of \<open>kernel/mem/frame.c\<close>. An address space is
  the physical address of its page directory. The temporary mappings at \<open>TMP_SRC\<close> and \<open>TMP_DST\<close> and
  the second table window are used as in the code, through loads and stores.
\<close>

section \<open>Operations\<close>

text \<open>\<open>memcpy\<close> of \<open>n\<close> words between distinct pages; the byte loop of the source moves the same words.\<close>

primrec memcpy_words :: "'a mmu_state_scheme \<Rightarrow> u32 \<Rightarrow> u32 \<Rightarrow> nat \<Rightarrow> 'a mmu_state_scheme option" where
  "memcpy_words s d r 0 = Some s"
| "memcpy_words s d r (Suc n) = do {
     s \<leftarrow> memcpy_words s d r n;
     x \<leftarrow> load32 s (r + 4 * of_nat n);
     store32 s (d + 4 * of_nat n) x
   }"

definition frame_copy :: "'a mmu_state_scheme \<Rightarrow> frame_t \<Rightarrow> (frame_t \<times> 'a mmu_state_scheme) option" where
  "frame_copy s frame = do {
     (f, s) \<leftarrow> frame_new s;
     let frame1 = page_fmt f frame;
     s \<leftarrow> page_set s TMP_DST (page_fmt frame1 (PF_PRES OR PF_RW));
     s \<leftarrow> page_set s TMP_SRC (page_fmt frame (PF_PRES OR PF_RW));
     s \<leftarrow> memcpy_words s TMP_DST TMP_SRC 1024;
     Some (frame1, s)
   }"

definition space_alloc :: "'a mmu_state_scheme \<Rightarrow> (u32 \<times> 'a mmu_state_scheme) option" where
  "space_alloc s = do {
     (space, s) \<leftarrow> frame_new s;
     s \<leftarrow> page_set s TMP_SRC (page_fmt space (PF_PRES OR PF_RW));
     s \<leftarrow> memclr s TMP_SRC 1024;
     s \<leftarrow> store32 s (TMP_SRC + 4 * drop_bit 22 PGE_MAP) (page_fmt space (PF_PRES OR PF_RW));
     Some (space, s)
   }"

definition space_exmap :: "'a mmu_state_scheme \<Rightarrow> u32 \<Rightarrow> 'a mmu_state_scheme option" where
  "space_exmap s space = store32 s (cmap + 4 * drop_bit 22 TMP_MAP) (page_fmt space (PF_PRES OR PF_RW))"

definition segment_clone :: "'a mmu_state_scheme \<Rightarrow> u32 \<Rightarrow> 'a mmu_state_scheme option" where
  "segment_clone s seg = do {
     (f, s) \<leftarrow> frame_new s;
     s \<leftarrow> store32 s (exmap + 4 * (seg div SEGSZ)) (f OR PF_PRES OR PF_USER OR PF_RW);
     s \<leftarrow> memclr s (extbl + 4 * (seg div PAGESZ)) 1024;
     for_list (\<lambda>i s. do {
         e \<leftarrow> load32 s (ctbl + 4 * of_nat i);
         if e AND PF_PRES \<noteq> 0 then
           if e AND PF_LINK \<noteq> 0 then store32 s (extbl + 4 * of_nat i) e
           else do {
             (f, s) \<leftarrow> frame_copy s e;
             store32 s (extbl + 4 * of_nat i) f
           }
         else Some s
       }) [unat (seg div PAGESZ) ..< unat ((seg + SEGSZ) div PAGESZ)] s
   }"

definition space_clone :: "'a mmu_state_scheme \<Rightarrow> (u32 \<times> 'a mmu_state_scheme) option" where
  "space_clone s = do {
     (dest, s) \<leftarrow> space_alloc s;
     s \<leftarrow> space_exmap s dest;
     s \<leftarrow> for_list (\<lambda>i s. do {
         e \<leftarrow> load32 s (cmap + 4 * of_nat i);
         if e AND PF_PRES \<noteq> 0 then
           if i \<ge> unat (KSPACE div SEGSZ) then store32 s (exmap + 4 * of_nat i) e
           else segment_clone s (of_nat i * SEGSZ)
         else Some s
       }) [0..<1023] s;
     Some (dest, s)
   }"

definition space_free_segment :: "'a mmu_state_scheme \<Rightarrow> nat \<Rightarrow> 'a mmu_state_scheme option" where
  "space_free_segment s i = for_list (\<lambda>j s. do {
       e \<leftarrow> load32 s (extbl + 4 * of_nat (i * 1024 + j));
       s \<leftarrow> (if e AND PF_PRES \<noteq> 0 then do {
               e \<leftarrow> load32 s (extbl + 4 * of_nat (i * 1024 + j));
               frame_free s (page_ufmt e)
             } else Some s);
       store32 s (extbl + 4 * of_nat (i * 1024 + j)) 0
     }) [0..<1024] s"

definition space_free :: "'a mmu_state_scheme \<Rightarrow> u32 \<Rightarrow> 'a mmu_state_scheme option" where
  "space_free s space = do {
     s \<leftarrow> space_exmap s space;
     s \<leftarrow> for_list (\<lambda>i s. do {
         e \<leftarrow> load32 s (exmap + 4 * of_nat i);
         if e AND PF_PRES \<noteq> 0 then do {
           s \<leftarrow> space_free_segment s i;
           e \<leftarrow> load32 s (exmap + 4 * of_nat i);
           s \<leftarrow> frame_free s (page_ufmt e);
           store32 s (exmap + 4 * of_nat i) 0
         }
         else Some s
       }) [0..<unat (KSPACE div SEGSZ)] s;
     frame_free s space
   }"

section \<open>Whole pages\<close>

text \<open>The words of a mapped page are the words of its frame.\<close>

lemma page_words:
  fixes v :: u32
  assumes "0x1000 dvd unat v" and "n < 1024"
  shows "dirx (v + 4 * of_nat n) = dirx v" "tblx (v + 4 * of_nat n) = tblx v" "wordx (v + 4 * of_nat n) = of_nat n"
proof -
  obtain m where m: "unat v = 0x1000 * m" using assms(1) by (auto simp: dvd_def)
  have four: "unat (4 * of_nat n :: u32) = 4 * n" using assms(2) by (simp add: unat_word_ariths unat_of_nat)
  have "m < 0x100000" using m unat_u32 [of v] by simp
  then have "unat v + 4 * n < 2 ^ 32" using m assms(2) by simp
  then have sum: "unat (v + 4 * of_nat n) = 0x1000 * m + 4 * n"
    using unat_add_lem [of v "4 * of_nat n"] four m by simp
  have d: "(0x1000 * m + 4 * n) div 0x1000 = m" using assms(2) by simp
  have "(0x1000 * m + 4 * n) div 0x400000 = (0x1000 * m + 4 * n) div 0x1000 div 0x400"
    by (simp flip: div_mult2_eq)
  then have "(0x1000 * m + 4 * n) div 0x400000 = m div 0x400" unfolding d .
  moreover have "(0x1000 * m) div 0x400000 = m div 0x400" by (simp flip: div_mult2_eq)
  ultimately show "dirx (v + 4 * of_nat n) = dirx v"
    by (simp add: word_unat_eq_iff unat_idx sum m)
  show "tblx (v + 4 * of_nat n) = tblx v" using d by (simp add: word_unat_eq_iff unat_idx sum m)
  have "(0x1000 * m + 4 * n) div 4 = n + 0x400 * m" by simp
  then show "wordx (v + 4 * of_nat n) = of_nat n"
    by (simp add: word_unat_eq_iff unat_idx sum unat_of_nat)
qed

definition mapped :: "'a mmu_state_scheme \<Rightarrow> u32 \<Rightarrow> 20 word \<Rightarrow> bool" where
  "mapped s v t \<longleftrightarrow> 0x1000 dvd unat v \<and> walk s v = Some t"

definition off_path :: "'a mmu_state_scheme \<Rightarrow> u32 \<Rightarrow> 20 word \<Rightarrow> bool" where
  "off_path s v g \<longleftrightarrow> g \<noteq> cur_dir s \<and> g \<noteq> fnum (phys s (cur_dir s) (dirx v))"

lemma mapped_load: "mapped s v t \<Longrightarrow> n < 1024 \<Longrightarrow> load32 s (v + 4 * of_nat n) = Some (phys s t (of_nat n))"
  by (auto simp: mapped_def load32_def walk_def Let_def page_words split: if_splits)

lemma mapped_store: "mapped s v t \<Longrightarrow> n < 1024 \<Longrightarrow>
  store32 s (v + 4 * of_nat n) x = Some (s\<lparr>phys := (phys s)(t := (phys s t)(of_nat n := x))\<rparr>)"
  by (auto simp: mapped_def store32_def walk_def Let_def page_words split: if_splits)

lemma mapped_upd: "mapped s v t \<Longrightarrow> off_path s v g \<Longrightarrow> mapped (s\<lparr>phys := (phys s)(g := w)\<rparr>) v t"
  by (auto simp: mapped_def off_path_def walk_def Let_def split: if_splits)

lemma off_path_upd: "off_path s v g \<Longrightarrow> off_path (s\<lparr>phys := (phys s)(g := w)\<rparr>) v g"
  by (auto simp: off_path_def)

lemma memclr_page:
  assumes "mapped s v t" "off_path s v t"
  shows "n \<le> 1024 \<Longrightarrow> memclr s v n = Some (s\<lparr>phys := (phys s)(t := cleared n (phys s t))\<rparr>)"
proof (induction n)
  case (Suc n)
  let ?s = "s\<lparr>phys := (phys s)(t := cleared n (phys s t))\<rparr>"
  have n: "n < 1024" using Suc.prems by simp
  have "memclr s v n = Some ?s" using Suc.IH n by (simp del: fun_upd_apply)
  then show ?case using mapped_store [OF mapped_upd [OF assms] n] cleared_Suc [OF n]
    by (simp del: fun_upd_apply add: fun_upd_same)
qed simp

definition copied :: "nat \<Rightarrow> (10 word \<Rightarrow> u32) \<Rightarrow> (10 word \<Rightarrow> u32) \<Rightarrow> 10 word \<Rightarrow> u32" where
  "copied n f g = (\<lambda>w. if unat w < n then f w else g w)"

lemma copied_Suc: "n < 1024 \<Longrightarrow> (copied n f g)(of_nat n := f (of_nat n)) = copied (Suc n) f g"
proof -
  assume "n < 1024"
  then have "unat w = n \<longleftrightarrow> w = of_nat n" for w :: "10 word" by (auto simp: unat_of_nat word_unat_eq_iff)
  then show ?thesis by (auto simp: copied_def fun_eq_iff less_Suc_eq)
qed

lemma copied_all: "copied 1024 f g = f"
proof
  fix w :: "10 word"
  have "unat w < 2 ^ LENGTH(10)" by (rule unsigned_less)
  then show "copied 1024 f g w = f w" by (simp add: copied_def)
qed

lemma memcpy_page:
  assumes d: "mapped s d t" "off_path s d t" and r: "mapped s r u" "off_path s r t" and "u \<noteq> t"
  shows "n \<le> 1024 \<Longrightarrow> memcpy_words s d r n = Some (s\<lparr>phys := (phys s)(t := copied n (phys s u) (phys s t))\<rparr>)"
proof (induction n)
  case 0
  have "copied 0 (phys s u) (phys s t) = phys s t" by (simp add: copied_def)
  then show ?case by simp
next
  case (Suc n)
  let ?s = "s\<lparr>phys := (phys s)(t := copied n (phys s u) (phys s t))\<rparr>"
  have n: "n < 1024" using Suc.prems by simp
  have "memcpy_words s d r n = Some ?s" using Suc.IH n by (simp del: fun_upd_apply)
  moreover have "load32 ?s (r + 4 * of_nat n) = Some (phys s u (of_nat n))"
    using mapped_load [OF mapped_upd [OF r] n] assms(5) by simp
  ultimately show ?case using mapped_store [OF mapped_upd [OF d] n] copied_Suc [OF n]
    by (simp del: fun_upd_apply add: fun_upd_same)
qed

lemma page_fmt_pres: "pres (page_fmt f 3)"
proof -
  have "bit (page_fmt f 3) 0" by (simp add: page_fmt_def bit_simps)
  then show ?thesis by (simp add: and_one_eq bit_0 odd_iff_mod_2_eq_one)
qed

lemma new_data_frame:
  assumes "space_ok s" "frame_new s = Some (f, s1)"
  shows "data_frame s1 (cur_dir s1) (fnum f)" "data_kept s (cur_dir s) s1"
proof -
  note N = frame_new_space [OF assms]
  have T: "tables_ok s (cur_dir s)" using assms(1) by (simp add: space_ok_def)
  have ph: "phys s1 = phys s" using frame_only_mmu [OF frame_new_only [OF assms(2)]] by simp
  show "data_frame s1 (cur_dir s1) (fnum f)"
    using N(3,4,5) tables_okD(3) [OF T] tables_okD(4) [OF T] unfolding data_frame_def ph by metis
  show "data_kept s (cur_dir s) s1" using N(3,5) by (auto simp: data_kept_def data_frame_def ph)
qed

lemma data_upd_ok:
  assumes "space_ok s" "data_frame s (cur_dir s) g"
  shows "space_ok (s\<lparr>phys := (phys s)(g := w)\<rparr>)"
    and "pg v < 0xFF800 \<Longrightarrow> page_entry (s\<lparr>phys := (phys s)(g := w)\<rparr>) v = page_entry s v"
proof -
  let ?s = "s\<lparr>phys := (phys s)(g := w)\<rparr>"
  have W: "window 1023 s (cur_dir s)" and T: "tables_ok s (cur_dir s)" using assms(1) by (simp_all add: space_ok_def)
  have g: "g \<noteq> cur_dir s" "\<And>i. i < 1022 \<Longrightarrow> pres (phys s (cur_dir s) i) \<Longrightarrow> fnum (phys s (cur_dir s) i) \<noteq> g"
    using assms(2) by (auto simp: data_frame_def)
  have d: "phys ?s (cur_dir s) = phys s (cur_dir s)" using g(1) by simp
  have "tables_ok ?s (cur_dir s)"
    using tables_okD [OF T] by (intro tables_okI; unfold d free_frame_phys phys_upd_eq) (auto simp del: fun_upd_apply)
  then show "space_ok ?s" using W d by (simp add: space_ok_def window_def)
  show "page_entry ?s v = page_entry s v" if "pg v < 0xFF800"
    using g(2) [of "dirx v"] that below_windows [of v] d by (auto simp: dir_entry_def Let_def)
qed

lemma data_frame_upd:
  "data_frame s d x \<Longrightarrow> data_frame (s\<lparr>phys := (phys s)(x := w)\<rparr>) d g = data_frame s d g"
  by (auto simp: data_frame_def)

lemma data_kept_upd:
  assumes "data_kept s d t" "data_frame t d x" "free_frame s x"
  shows "data_kept s d (t\<lparr>phys := (phys t)(x := w)\<rparr>)"
proof -
  have "g \<noteq> x" if "data_frame s d g" for g using that assms(3) by (auto simp: data_frame_def)
  then show ?thesis using assms(1) data_frame_upd [OF assms(2)] by (auto simp: data_kept_def)
qed

lemma data_off_path:
  assumes "data_frame s (cur_dir s) g" and "pg v < 0xFF800" and "walk s v \<noteq> None"
  shows "off_path s v g"
  using assms below_windows [of v] by (auto simp: data_frame_def off_path_def walk_def Let_def split: if_splits)

lemma page_set_mapped:
  assumes "space_ok s" "0 < frame_count s" "pg v < 0xFF800" "0x1000 dvd unat v"
  shows "\<exists>s'. page_set s v (page_fmt f 3) = Some s' \<and> space_ok s' \<and> cr3 s' = cr3 s \<and> mapped s' v (fnum f) \<and>
    (\<forall>w. pg w < 0xFF800 \<longrightarrow> page_entry s' w = (if pg w = pg v then page_fmt f 3 else page_entry s w)) \<and>
    (\<forall>g. free_frame s' g \<longrightarrow> free_frame s g) \<and> frame_count s \<le> Suc (frame_count s') \<and> data_kept s (cur_dir s) s'"
  using page_set_ok [OF assms(1,3) disjI2 [OF assms(2)], of "page_fmt f 3"] assms(3,4) page_fmt_pres page_fmt_facts(1)
  unfolding mapped_def walk_entry by (metis (no_types, lifting))

lemma walk_other:
  assumes "\<forall>w. pg w < 0xFF800 \<longrightarrow> page_entry s' w = (if pg w = pg v then x else page_entry s w)"
    and "pg w < 0xFF800" "pg w \<noteq> pg v"
  shows "walk s' w = walk s w"
  using assms by (simp add: walk_entry)

section \<open>Copying a frame\<close>

lemma frame_copy_ok:
  assumes sp: "space_ok s" and e: "data_frame s (cur_dir s) (fnum e)" and "3 \<le> frame_count s"
  shows "\<exists>f s'. frame_copy s e = Some (page_fmt f e, s') \<and> space_ok s' \<and> cr3 s' = cr3 s \<and>
    free_frame s (fnum f) \<and> \<not> free_frame s' (fnum f) \<and> phys s' (fnum f) = phys s (fnum e) \<and> data_kept s (cur_dir s) s' \<and>
    (\<forall>w. pg w < 0xFF800 \<and> pg w \<noteq> 0xFF000 \<and> pg w \<noteq> 0xFF010 \<longrightarrow> page_entry s' w = page_entry s w)"
proof -
  have inv: "frame_inv s" using sp by (simp add: space_ok_def tables_ok_def)
  obtain f s1 where s1: "frame_new s = Some (f, s1)" using frame_new_total [OF inv] assms(3) by auto
  note N = frame_new_space [OF sp s1] and ND = new_data_frame [OF sp s1] and c = frame_new_count [OF inv s1]
  have "0 < frame_count s1" using c assms(3) by simp
  then obtain s2 where s2: "page_set s1 TMP_DST (page_fmt (page_fmt f e) 3) = Some s2" "space_ok s2" "cr3 s2 = cr3 s1"
    "mapped s2 TMP_DST (fnum (page_fmt f e))"
    "\<forall>w. pg w < 0xFF800 \<longrightarrow> page_entry s2 w = (if pg w = pg TMP_DST then page_fmt (page_fmt f e) 3 else page_entry s1 w)"
    "frame_count s1 \<le> Suc (frame_count s2)" "data_kept s1 (cur_dir s1) s2"
    using page_set_mapped [OF N(1), of TMP_DST "page_fmt f e"] by auto
  then obtain s3 where s3: "page_set s2 TMP_SRC (page_fmt e 3) = Some s3" "space_ok s3" "cr3 s3 = cr3 s2"
    "mapped s3 TMP_SRC (fnum e)"
    "\<forall>w. pg w < 0xFF800 \<longrightarrow> page_entry s3 w = (if pg w = pg TMP_SRC then page_fmt e 3 else page_entry s2 w)"
    "data_kept s2 (cur_dir s2) s3"
    using page_set_mapped [OF s2(2), of TMP_SRC e] c assms(3) by auto
  have dst: "mapped s3 TMP_DST (fnum f)"
    using s2(4) walk_other [OF s3(5), of TMP_DST] by (simp add: mapped_def page_fmt_facts(1))
  have keep: "data_kept s (cur_dir s) s3"
    using data_kept_trans [OF data_kept_trans [OF ND(2)]] s2(3,7) s3(6) N(3) by simp
  have df: "data_frame s3 (cur_dir s3) (fnum f)" using ND(1) s2(3,7) s3(3,6) by (simp add: data_kept_def)
  have "fnum e \<noteq> fnum f" using e N(4) by (auto simp: data_frame_def)
  moreover have "off_path s3 TMP_DST (fnum f)" "off_path s3 TMP_SRC (fnum f)"
    using data_off_path [OF df] dst s3(4) by (auto simp: mapped_def)
  ultimately have cp: "memcpy_words s3 TMP_DST TMP_SRC 1024 = Some (s3\<lparr>phys := (phys s3)(fnum f := phys s3 (fnum e))\<rparr>)"
    using memcpy_page [OF dst _ s3(4), of 1024] by (simp add: copied_all del: fun_upd_apply)
  let ?s = "s3\<lparr>phys := (phys s3)(fnum f := phys s3 (fnum e))\<rparr>"
  have "frame_copy s e = Some (page_fmt f e, ?s)"
    using s1 s2(1) s3(1) cp by (simp add: frame_copy_def Let_def del: fun_upd_apply)
  moreover have "phys s3 (fnum e) = phys s (fnum e)" using keep e by (simp add: data_kept_def)
  moreover have "data_kept s (cur_dir s) ?s"
    using data_kept_upd [OF keep _ N(4)] df s2(3) s3(3) N(3) by (simp del: fun_upd_apply)
  moreover have "\<not> free_frame ?s (fnum f)" using df by (simp add: data_frame_def)
  ultimately show ?thesis
    using data_upd_ok [OF s3(2) df] N s2(3,5) s3(3,5) by (intro exI [of _ f] exI [of _ ?s]) auto
qed

section \<open>New address spaces\<close>

lemma space_alloc_ok:
  assumes sp: "space_ok s" and "2 \<le> frame_count s"
  shows "\<exists>d s'. space_alloc s = Some (d, s') \<and> space_ok s' \<and> cr3 s' = cr3 s \<and> d = d div PAGESZ * PAGESZ \<and>
    free_frame s (fnum d) \<and> data_frame s' (cur_dir s) (fnum d) \<and> data_kept s (cur_dir s) s' \<and>
    phys s' (fnum d) = (\<lambda>_. 0)(1023 := page_fmt d 3)"
proof -
  have inv: "frame_inv s" using sp by (simp add: space_ok_def tables_ok_def)
  obtain f s1 where s1: "frame_new s = Some (f, s1)" using frame_new_total [OF inv] assms(2) by auto
  note N = frame_new_space [OF sp s1] and ND = new_data_frame [OF sp s1] and c = frame_new_count [OF inv s1]
  have "0 < frame_count s1" using c assms(2) by simp
  then obtain s2 where s2: "page_set s1 TMP_SRC (page_fmt f 3) = Some s2" "space_ok s2" "cr3 s2 = cr3 s1"
    "mapped s2 TMP_SRC (fnum f)" "data_kept s1 (cur_dir s1) s2"
    using page_set_mapped [OF N(1), of TMP_SRC f] by auto
  have df: "data_frame s2 (cur_dir s) (fnum f)" using ND(1) s2(3,5) N(3) by (simp add: data_kept_def)
  have off: "off_path s2 TMP_SRC (fnum f)"
    using data_off_path [of s2 "fnum f" TMP_SRC] df s2(3,4) N(3) by (auto simp: mapped_def)
  let ?z = "s2\<lparr>phys := (phys s2)(fnum f := (\<lambda>_. 0))\<rparr>"
  have "memclr s2 TMP_SRC 1024 = Some ?z"
    using memclr_page [OF s2(4) off, of 1024] by (simp add: cleared_all [abs_def] del: fun_upd_apply)
  moreover have "store32 ?z (TMP_SRC + 4 * drop_bit 22 PGE_MAP) x =
      Some (?z\<lparr>phys := (phys ?z)(fnum f := (phys ?z (fnum f))(1023 := x))\<rparr>)" for x
    using mapped_store [OF mapped_upd [OF s2(4) off], of 1023] by (simp del: fun_upd_apply)
  ultimately have "space_alloc s = Some (f, s2\<lparr>phys := (phys s2)(fnum f := (\<lambda>_. 0)(1023 := page_fmt f 3))\<rparr>)"
    using s1 s2(1) by (simp add: space_alloc_def del: fun_upd_apply add: fun_upd_same fun_upd_upd)
  moreover have "data_kept s (cur_dir s) (s2\<lparr>phys := (phys s2)(fnum f := w)\<rparr>)" for w
    using data_kept_upd [OF data_kept_trans [OF ND(2)] df N(4)] s2(5) N(3) by simp
  moreover have "f = f div PAGESZ * PAGESZ" using frame_new_supply [OF inv s1] by blast
  ultimately show ?thesis
    using data_upd_ok(1) [OF s2(2)] df data_frame_upd [OF df] N(3,4) s2(3)
    by (intro exI [of _ f] exI) (auto simp: data_frame_def)
qed

lemma tables_ok_cong:
  fixes s s' :: "'a mmu_state_scheme"
  assumes "\<And>i. i < 1022 \<Longrightarrow> phys s' d i = phys s d i" and "cur_dir s' = cur_dir s"
    and "frame_inv s' = frame_inv s" and "\<And>g. free_frame s' g = free_frame s g"
  shows "tables_ok s' d = tables_ok s d"
proof -
  have "tables_ok s' d" if T: "tables_ok s d" and eq: "\<And>i. i < 1022 \<Longrightarrow> phys s' d i = phys s d i"
    "cur_dir s' = cur_dir s" "frame_inv s' = frame_inv s" "\<And>g. free_frame s' g = free_frame s g"
    for s s' :: "'a mmu_state_scheme"
    using tables_okD [OF T] by (intro tables_okI) (simp_all add: eq)
  from this [of s s'] this [of s' s] show ?thesis using assms by auto
qed

lemma space_exmap_ok:
  assumes sp: "space_ok s" and d: "fnum d \<noteq> cur_dir s" "pres (phys s (fnum d) 1023)" "fnum (phys s (fnum d) 1023) = fnum d"
    and T: "tables_ok s (fnum d)"
  shows "\<exists>s'. space_exmap s d = Some s' \<and> space_ok s' \<and> cr3 s' = cr3 s \<and> window 1022 s' (fnum d) \<and> tables_ok s' (fnum d) \<and>
    (\<forall>v. pg v < 0xFF800 \<longrightarrow> page_entry s' v = page_entry s v) \<and> (\<forall>g. g \<noteq> cur_dir s \<longrightarrow> phys s' g = phys s g) \<and>
    (\<forall>g. free_frame s' g = free_frame s g) \<and> frame_count s' = frame_count s"
proof -
  have W: "window 1023 s (cur_dir s)" and TC: "tables_ok s (cur_dir s)" using sp by (simp_all add: space_ok_def)
  let ?D = "cur_dir s" and ?e = "page_fmt d 3"
  let ?s = "s\<lparr>phys := (phys s)(?D := (phys s ?D)(1022 := ?e))\<rparr>"
  have slot: "dirx TMP_MAP = 1022" by (simp add: word_unat_eq_iff unat_idx)
  have "space_exmap s d = Some ?s"
    using cur.store_dir [OF W, of TMP_MAP] unfolding space_exmap_def slot by simp
  moreover have low: "phys ?s ?D i = phys s ?D i" if "i < 1022" for i using that by auto
  have high: "phys ?s ?D 1023 = phys s ?D 1023" by simp
  have "tables_ok ?s ?D" using TC low by (subst tables_ok_cong [where s = s]) (simp_all del: fun_upd_apply)
  moreover have "window 1023 ?s ?D" using W high by (simp add: window_def del: fun_upd_apply)
  moreover have "tables_ok ?s (fnum d)"
    using T d(1) by (subst tables_ok_cong [where s = s]) (simp_all del: fun_upd_apply add: fun_upd_other)
  moreover have "window 1022 ?s (fnum d)"
    using d page_fmt_pres page_fmt_facts(1) [of d 3] by (simp add: window_def)
  moreover have "page_entry ?s v = page_entry s v" if v: "pg v < 0xFF800" for v
  proof -
    have i: "dirx v < 1022" using v below_windows by blast
    then show ?thesis using tables_okD(4) [OF TC i] by (auto simp: dir_entry_def Let_def)
  qed
  ultimately show ?thesis by (intro exI [of _ ?s]) (auto simp: space_ok_def simp del: fun_upd_apply simp: fun_upd_other)
qed

lemma tables_ok_empty:
  assumes "space_ok s" and "data_frame s (cur_dir s) d" and "\<And>i. i < 1022 \<Longrightarrow> \<not> pres (phys s d i)"
  shows "tables_ok s d"
proof -
  have T: "tables_ok s (cur_dir s)" using assms(1) by (simp add: space_ok_def)
  show ?thesis
    using tables_okD(1-3) [OF T] assms(2,3) by (intro tables_okI) (auto simp: data_frame_def)
qed

section \<open>Properties\<close>

text \<open>
  A new address space: with two free frames, \<open>space_alloc\<close> and then \<open>space_exmap\<close> return; the new
  directory was a free frame, is loaded in the second window with its self-mapping in place, and maps
  no page below the windows. The current space stays well formed and no data frame changes.
\<close>

theorem space_alloc_empty:
  assumes "space_ok s" and "2 \<le> frame_count s"
  shows "\<exists>d s1 s2. space_alloc s = Some (d, s1) \<and> space_exmap s1 d = Some s2 \<and> space_ok s2 \<and> free_frame s (fnum d) \<and>
    \<not> free_frame s2 (fnum d) \<and> window 1022 s2 (fnum d) \<and> tables_ok s2 (fnum d) \<and> data_kept s (cur_dir s) s1 \<and>
    (\<forall>g. g \<noteq> cur_dir s \<longrightarrow> phys s2 g = phys s1 g) \<and> (\<forall>v. pg v < 0xFF800 \<longrightarrow> page_exget s2 v = Some 0)"
proof -
  obtain d s1 where s1: "space_alloc s = Some (d, s1)" "space_ok s1" "cr3 s1 = cr3 s" "free_frame s (fnum d)"
    "data_frame s1 (cur_dir s) (fnum d)" "data_kept s (cur_dir s) s1" "phys s1 (fnum d) = (\<lambda>_. 0)(1023 := page_fmt d 3)"
    using space_alloc_ok [OF assms] by blast
  have df: "data_frame s1 (cur_dir s1) (fnum d)" using s1(3,5) by simp
  have empty: "phys s1 (fnum d) i = 0" if "i < 1022" for i using that s1(7) by auto
  have T: "tables_ok s1 (fnum d)" using tables_ok_empty [OF s1(2) df] empty by simp
  have "fnum d \<noteq> cur_dir s1" using df by (simp add: data_frame_def)
  then obtain s2 where s2: "space_exmap s1 d = Some s2" "space_ok s2" "window 1022 s2 (fnum d)" "tables_ok s2 (fnum d)"
    "\<forall>g. g \<noteq> cur_dir s1 \<longrightarrow> phys s2 g = phys s1 g" "\<forall>g. free_frame s2 g = free_frame s1 g"
    using space_exmap_ok [OF s1(2) _ _ _ T] page_fmt_pres page_fmt_facts(1) [of d 3] s1(7) by (metis fun_upd_same)
  have "page_exget s2 v = Some 0" if v: "pg v < 0xFF800" for v
  proof -
    have "dirx v < 1022" using v below_windows by blast
    then have "phys s2 (fnum d) (dirx v) = 0" using s2(5) \<open>fnum d \<noteq> cur_dir s1\<close> empty by simp
    then show ?thesis
      using ext.get_entry [OF s2(3)] unfolding page_in_window by (simp add: dir_entry_def)
  qed
  then show ?thesis using s1 s2 df by (auto simp: data_frame_def)
qed

theorem space_alloc_empty_witness:
  "\<exists>d s1 s2. space_alloc empty_space = Some (d, s1) \<and> space_exmap s1 d = Some s2 \<and> space_ok s2 \<and>
    window 1022 s2 (fnum d) \<and> page_exget s2 0x80000000 = Some 0"
proof -
  have "pg 0x80000000 < 0xFF800" "2 \<le> frame_count empty_space" using empty_space_ok(2) by simp_all
  then show ?thesis using space_alloc_empty [OF empty_space_ok(1)] by metis
qed

text \<open>
  \<open>frame_copy\<close> of a data frame, with three free frames: it returns a frame that was free, with the
  flags of the original and the same content in all 1024 words; the original and every other data
  frame keep their content, the space stays well formed, and only the two temporary mappings change.
\<close>

theorem frame_copy_same:
  assumes "space_ok s" and "data_frame s (cur_dir s) (fnum e)" and "3 \<le> frame_count s"
  shows "\<exists>f s'. frame_copy s e = Some (page_fmt f e, s') \<and> space_ok s' \<and>
    free_frame s (fnum f) \<and> \<not> free_frame s' (fnum f) \<and> phys s' (fnum f) = phys s (fnum e) \<and> data_kept s (cur_dir s) s' \<and>
    (\<forall>w. pg w < 0xFF800 \<and> pg w \<noteq> pg TMP_DST \<and> pg w \<noteq> pg TMP_SRC \<longrightarrow> page_entry s' w = page_entry s w)"
  using frame_copy_ok [OF assms] by auto

theorem frame_copy_same_witness:
  "\<exists>f s'. frame_copy empty_space 0x200007 = Some (page_fmt f 0x200007, s') \<and> space_ok s' \<and>
    phys s' (fnum f) = phys empty_space 0x200"
proof -
  have e: "fnum 0x200007 = 0x200" by (simp add: fnum_def)
  have "\<not> free_frame empty_space 0x200" by (rule empty_space_free)
  moreover have "cur_dir empty_space = 0x100" "phys empty_space 0x100 = (\<lambda>_. 0)(1023 := 0x100007)"
    by (simp_all add: empty_space_def frame_state.extend_def fnum_def)
  ultimately have "data_frame empty_space (cur_dir empty_space) (fnum 0x200007)"
    by (auto simp: data_frame_def e)
  then show ?thesis using frame_copy_same [OF empty_space_ok(1), of "0x200007"] empty_space_ok(2) e by auto
qed

end
