(* ===== verification/Kernel_State.thy ===== *)
theory Kernel_State
  imports Address_Space
begin

text \<open>
  The kernel's objects and global variables: \<open>kernel/inc/thread.h\<close>, \<open>process.h\<close>, \<open>ipc.h\<close> and the file
  scope variables of \<open>schedule.c\<close>, \<open>process.c\<close>, \<open>irq.c\<close>, \<open>timer.c\<close>, \<open>int_handler.c\<close> and
  \<open>set_int_stack.c\<close>. Structures on the kernel heap are partial functions from their address to a
  record; an object is created on the block that \<open>heap_alloc\<close> returned (which is cleared, so all
  fields are zero). The memory of a freed block stays readable, so its record is kept until the block is
  allocated again. A load or store through a pointer to no object is \<^const>\<open>None\<close>.
\<close>

section \<open>Objects\<close>

record thread =
  t_ds :: u32
  t_edi :: u32
  t_esi :: u32
  t_ebp :: u32
  t_esp :: u32
  t_ebx :: u32
  t_edx :: u32
  t_ecx :: u32
  t_eax :: u32
  t_num :: u32
  t_err :: u32
  t_eip :: u32
  t_cs :: u32
  t_eflags :: u32
  t_useresp :: u32
  t_ss :: u32
  t_vm86_es :: u32
  t_vm86_ds :: u32
  t_vm86_fs :: u32
  t_vm86_gs :: u32
  t_vm86_start :: u32
  t_vm86_active :: u32
  t_vm86_if :: u32
  t_vm86_saved_eip :: u32
  t_vm86_saved_esp :: u32
  t_vm86_saved_eflags :: u32
  t_fxdata :: ptr
  t_msg :: ptr
  t_user :: u32
  t_proc :: ptr
  t_stack :: u32
  t_id :: u32
  t_tick :: u64
  t_next :: ptr
  t_frozen :: u32

definition zero_thread :: thread where
  "zero_thread = \<lparr>t_ds = 0, t_edi = 0, t_esi = 0, t_ebp = 0, t_esp = 0, t_ebx = 0, t_edx = 0, t_ecx = 0, t_eax = 0,
     t_num = 0, t_err = 0, t_eip = 0, t_cs = 0, t_eflags = 0, t_useresp = 0, t_ss = 0, t_vm86_es = 0, t_vm86_ds = 0,
     t_vm86_fs = 0, t_vm86_gs = 0, t_vm86_start = 0, t_vm86_active = 0, t_vm86_if = 0, t_vm86_saved_eip = 0,
     t_vm86_saved_esp = 0, t_vm86_saved_eflags = 0, t_fxdata = 0, t_msg = 0, t_user = 0, t_proc = 0, t_stack = 0,
     t_id = 0, t_tick = 0, t_next = 0, t_frozen = 0\<rparr>"

record rtab =
  r_a :: u64
  r_b :: u64

record process =
  p_space :: u32
  p_rtab_count :: u32
  p_rtab :: ptr
  p_tick :: u64
  p_pid :: u32
  p_user :: u32
  p_rirq :: u8
  p_name :: "u32 \<times> u32 \<times> u32 \<times> u32"
  p_parent :: ptr
  p_entry :: u32
  p_thread :: "nat \<Rightarrow> ptr"

definition zero_process :: process where
  "zero_process = \<lparr>p_space = 0, p_rtab_count = 0, p_rtab = 0, p_tick = 0, p_pid = 0, p_user = 0, p_rirq = 0,
     p_name = (0, 0, 0, 0), p_parent = 0, p_entry = 0, p_thread = (\<lambda>_. 0)\<rparr>"

record msg =
  m_count :: u32
  m_frame :: ptr

abbreviation (input) sizeof_thread :: u32 where "sizeof_thread \<equiv> 148"
abbreviation (input) sizeof_process :: u32 where "sizeof_process \<equiv> 1080"
abbreviation (input) sizeof_msg :: u32 where "sizeof_msg \<equiv> 8"
abbreviation (input) sizeof_rtab :: u32 where "sizeof_rtab \<equiv> 16"
abbreviation (input) sizeof_fxdata :: u32 where "sizeof_fxdata \<equiv> 512"

abbreviation (input) MAX_TASKS :: nat where "MAX_TASKS \<equiv> 1024"
abbreviation (input) MAX_THREADS :: nat where "MAX_THREADS \<equiv> 256"

section \<open>Descriptor tables\<close>

record tss =
  tss_prev_tss :: u32
  tss_esp0 :: u32
  tss_ss0 :: u32
  tss_unused :: "u32 list"
  tss_es :: u32
  tss_cs :: u32
  tss_ss :: u32
  tss_ds :: u32
  tss_fs :: u32
  tss_gs :: u32
  tss_ldt :: u32
  tss_trap :: u16
  tss_iomap_base :: u16

definition zero_tss :: tss where
  "zero_tss = \<lparr>tss_prev_tss = 0, tss_esp0 = 0, tss_ss0 = 0, tss_unused = replicate 15 0, tss_es = 0, tss_cs = 0,
     tss_ss = 0, tss_ds = 0, tss_fs = 0, tss_gs = 0, tss_ldt = 0, tss_trap = 0, tss_iomap_base = 0\<rparr>"

abbreviation (input) sizeof_tss :: u32 where "sizeof_tss \<equiv> 104"

record idt =
  idt_base_l :: u16
  idt_seg :: u16
  idt_reserved :: u8
  idt_flags :: u8
  idt_base_h :: u16

section \<open>Interrupt handlers\<close>

text \<open>The function pointers that \<open>int_set_handler\<close> stores.\<close>

datatype handler =
    SYSCALL_SEND | SYSCALL_DONE | SYSCALL_WHEN | SYSCALL_RIRQ | SYSCALL_ALSO | SYSCALL_STAT | SYSCALL_PAGE
  | SYSCALL_PHYS | SYSCALL_FORK | SYSCALL_EXIT | SYSCALL_STOP | SYSCALL_WAKE | SYSCALL_GPID | SYSCALL_TIME
  | SYSCALL_USER | SYSCALL_AUTH | SYSCALL_PROC | SYSCALL_KILL | SYSCALL_VM86 | SYSCALL_NAME | SYSCALL_RTAB
  | FAULT_FLOAT | FAULT_GENERIC | FAULT_NOMATH | FAULT_DOUBLE | FAULT_GPF | FAULT_PAGE
  | IRQ_REDIRECT | TIMER_HANDLER

section \<open>The kernel state\<close>

text \<open>
  \<open>tss_addr\<close> is the address of the static variable \<open>tss\<close> and \<open>idt_raw\<close> those of the assembly stubs, fixed
  when the kernel is linked; \<open>in_port\<close> is what the devices answer to an input instruction, \<open>cr2\<close> the
  address of the last page fault, \<open>eflags\<close> the flags at boot, and \<open>uninit\<close> what a local variable holds that
  \<open>syscall_time\<close> reads uninitialised.
\<close>

record kernel = heap_state +
  threads :: "ptr \<rightharpoonup> thread"
  processes :: "ptr \<rightharpoonup> process"
  msgs :: "ptr \<rightharpoonup> msg"
  msg_frames :: "ptr \<rightharpoonup> u32 list"
  rtabs :: "ptr \<rightharpoonup> rtab list"
  fxdata :: "ptr \<rightharpoonup> u32 list"
  fpu_state :: "u32 list"
  can_use_fpu :: bool
  sched_out :: ptr
  sched_in :: ptr
  process_table :: "nat \<Rightarrow> ptr"
  pidlist :: "nat \<Rightarrow> u32"
  pidlist_setup :: bool
  pidlist_top :: nat
  pidlist_bot :: nat
  irq_holder :: "u8 \<Rightarrow> u32"
  int_handlers :: "u8 \<Rightarrow> handler option"
  pic_master_mask :: u8
  pic_slave_mask :: u8
  out_ports :: "(u16 \<times> u32) list"
  tick :: u64
  tss :: tss
  tss_addr :: u32
  gdt :: "nat \<Rightarrow> u8"
  int_stack_ready :: bool
  idt :: "nat \<Rightarrow> idt option"
  idt_raw :: "nat \<Rightarrow> u32"
  int_ready :: bool
  in_port :: "u16 \<Rightarrow> u32"
  cr2 :: u32
  eflags :: u32
  uninit :: u64

definition upd_thread :: "kernel \<Rightarrow> ptr \<Rightarrow> (thread \<Rightarrow> thread) \<Rightarrow> kernel option" where
  "upd_thread s p f = map_option (\<lambda>t. s\<lparr>threads := (threads s)(p \<mapsto> f t)\<rparr>) (threads s p)"

definition upd_process :: "kernel \<Rightarrow> ptr \<Rightarrow> (process \<Rightarrow> process) \<Rightarrow> kernel option" where
  "upd_process s p f = map_option (\<lambda>t. s\<lparr>processes := (processes s)(p \<mapsto> f t)\<rparr>) (processes s p)"

definition outb :: "kernel \<Rightarrow> u16 \<Rightarrow> u32 \<Rightarrow> kernel" where
  "outb s port v = s\<lparr>out_ports := out_ports s @ [(port, v)]\<rparr>"

lemma upd_thread_Some: "threads s p = Some t \<Longrightarrow> upd_thread s p f = Some (s\<lparr>threads := (threads s)(p \<mapsto> f t)\<rparr>)"
  by (simp add: upd_thread_def)

lemma upd_process_Some: "processes s p = Some q \<Longrightarrow> upd_process s p f = Some (s\<lparr>processes := (processes s)(p \<mapsto> f q)\<rparr>)"
  by (simp add: upd_process_def)

text \<open>A kernel with no objects, on the heap of the heap examples.\<close>

definition base_kernel :: kernel where
  "base_kernel = heap_state.extend fresh_heap \<lparr>threads = Map.empty, processes = Map.empty, msgs = Map.empty,
     msg_frames = Map.empty, rtabs = Map.empty, fxdata = Map.empty, fpu_state = [], can_use_fpu = False,
     sched_out = 0, sched_in = 0, process_table = (\<lambda>_. 0), pidlist = (\<lambda>_. 0), pidlist_setup = False,
     pidlist_top = 0, pidlist_bot = 0, irq_holder = (\<lambda>_. 0), int_handlers = (\<lambda>_. None),
     pic_master_mask = 0xFB, pic_slave_mask = 0xFF, out_ports = [], tick = 0,
     tss = zero_tss, tss_addr = 0xF0101000, gdt = (\<lambda>_. 0), int_stack_ready = False, idt = (\<lambda>_. None),
     idt_raw = (\<lambda>n. if n < 20 \<or> 32 \<le> n \<and> n < 48 \<or> 64 \<le> n \<and> n < 85 then 0xF0100000 + of_nat n else 0),
     int_ready = False, in_port = (\<lambda>_. 0), cr2 = 0, eflags = 0, uninit = 0\<rparr>"

end
