(* ===== verification/Schedule.thy ===== *)
theory Schedule
  imports Kernel_State
begin

text \<open>
  The scheduler, \<open>kernel/thread/schedule.c\<close>: a singly linked queue of threads through their \<open>next\<close>
  fields, with pointers to its two ends. \<open>queue_rep s q\<close> relates it to the list \<open>q\<close> of queued threads.
\<close>

section \<open>Operations\<close>

definition schedule_insert :: "kernel \<Rightarrow> ptr \<Rightarrow> kernel option" where
  "schedule_insert s thread =
     (if sched_out s = 0 \<and> sched_in s \<noteq> 0 then None
      else if sched_in s = 0 then
        upd_thread (s\<lparr>sched_out := thread, sched_in := thread\<rparr>) thread (t_next_update (\<lambda>_. 0))
      else do {
        s \<leftarrow> upd_thread s (sched_in s) (t_next_update (\<lambda>_. thread));
        upd_thread (s\<lparr>sched_in := thread\<rparr>) thread (t_next_update (\<lambda>_. 0))
      })"

partial_function (option) schedule_remove_loop :: "kernel \<Rightarrow> ptr \<Rightarrow> ptr \<Rightarrow> kernel option" where
  "schedule_remove_loop s temp thread = do {
     t \<leftarrow> threads s temp;
     if t_next t = 0 then Some s
     else if t_next t = thread then do {
       th \<leftarrow> threads s thread;
       s \<leftarrow> upd_thread s temp (t_next_update (\<lambda>_. t_next th));
       let s = (if sched_in s = thread then s\<lparr>sched_in := temp\<rparr> else s);
       upd_thread s thread (t_next_update (\<lambda>_. 0))
     }
     else schedule_remove_loop s (t_next t) thread
   }"

definition schedule_remove :: "kernel \<Rightarrow> ptr \<Rightarrow> kernel option" where
  "schedule_remove s thread =
     (if sched_out s = 0 then None
      else if sched_out s = thread then do {
        t \<leftarrow> threads s thread;
        Some (s\<lparr>sched_out := t_next t\<rparr>)
      }
      else schedule_remove_loop s (sched_out s) thread)"

text \<open>The \<open>do\<close> loop of \<open>schedule_next\<close>, whose variable \<open>thread\<close> never advances.\<close>

partial_function (option) schedule_next_loop :: "kernel \<Rightarrow> ptr \<Rightarrow> (ptr \<times> kernel) option" where
  "schedule_next_loop s thread =
     (if thread = 0 then Some (0, s)
      else do {
        t \<leftarrow> threads s thread;
        let s = s\<lparr>sched_out := t_next t\<rparr>;
        let s = (if t_next t = 0 then s\<lparr>sched_in := 0\<rparr> else s);
        s \<leftarrow> (if sched_in s = 0 then
                upd_thread (s\<lparr>sched_out := thread, sched_in := thread\<rparr>) thread (t_next_update (\<lambda>_. 0))
              else do {
                s \<leftarrow> upd_thread s (sched_in s) (t_next_update (\<lambda>_. thread));
                upd_thread (s\<lparr>sched_in := thread\<rparr>) thread (t_next_update (\<lambda>_. 0))
              });
        t \<leftarrow> threads s thread;
        if t_frozen t \<noteq> 0 then schedule_next_loop s thread else Some (thread, s)
      })"

definition schedule_next :: "kernel \<Rightarrow> (ptr \<times> kernel) option" where
  "schedule_next s = schedule_next_loop s (sched_out s)"

section \<open>The queue\<close>

abbreviation nxt :: "kernel \<Rightarrow> ptr \<Rightarrow> ptr option" where
  "nxt s p \<equiv> map_option t_next (threads s p)"

definition queue_rep :: "kernel \<Rightarrow> ptr list \<Rightarrow> bool" where
  "queue_rep s q \<longleftrightarrow> chain (nxt s) (sched_out s) q \<and> sched_in s = (if q = [] then 0 else last q)"

text \<open>Only the queue's links change: every other field of every thread, and of the kernel, is kept.\<close>

definition relinked :: "kernel \<Rightarrow> kernel \<Rightarrow> bool" where
  "relinked s s' \<longleftrightarrow> (\<exists>m o1 i. s' = s\<lparr>threads := m, sched_out := o1, sched_in := i\<rparr>) \<and>
     (\<forall>p. map_option (t_next_update (\<lambda>_. 0)) (threads s' p) = map_option (t_next_update (\<lambda>_. 0)) (threads s p))"

lemma relinked_refl [simp]: "relinked s s"
  unfolding relinked_def
  by (intro conjI exI [of _ "threads s"] exI [of _ "sched_out s"] exI [of _ "sched_in s"]) (cases s, simp_all)

lemma relinked_trans: "relinked s t \<Longrightarrow> relinked t u \<Longrightarrow> relinked s u"
  unfolding relinked_def by fastforce

lemma relinked_frozen: "relinked s s' \<Longrightarrow> map_option t_frozen (threads s' p) = map_option t_frozen (threads s p)"
proof -
  assume "relinked s s'"
  then have "map_option (t_next_update (\<lambda>_. 0)) (threads s' p) = map_option (t_next_update (\<lambda>_. 0)) (threads s p)"
    by (simp add: relinked_def)
  then have "map_option t_frozen (map_option (t_next_update (\<lambda>_. 0)) (threads s' p)) =
      map_option t_frozen (map_option (t_next_update (\<lambda>_. 0)) (threads s p))" by simp
  then show ?thesis by (simp add: option.map_comp comp_def)
qed

lemma relinked_dom: "relinked s s' \<Longrightarrow> threads s' p = None \<longleftrightarrow> threads s p = None"
  unfolding relinked_def by (metis map_option_is_None)

lemma set_next:
  assumes "threads s p = Some t"
  shows "upd_thread s p (t_next_update (\<lambda>_. x)) = Some (s\<lparr>threads := (threads s)(p \<mapsto> t\<lparr>t_next := x\<rparr>)\<rparr>)"
    and "relinked s (s\<lparr>threads := (threads s)(p \<mapsto> t\<lparr>t_next := x\<rparr>)\<rparr>)"
    and "relinked s (s\<lparr>threads := (threads s)(p \<mapsto> t\<lparr>t_next := x\<rparr>), sched_out := a, sched_in := b\<rparr>)"
    and "relinked s (s\<lparr>threads := (threads s)(p \<mapsto> t\<lparr>t_next := x\<rparr>), sched_in := b\<rparr>)"
proof -
  show "upd_thread s p (t_next_update (\<lambda>_. x)) = Some (s\<lparr>threads := (threads s)(p \<mapsto> t\<lparr>t_next := x\<rparr>)\<rparr>)"
    using assms by (simp add: upd_thread_def)
  show "relinked s (s\<lparr>threads := (threads s)(p \<mapsto> t\<lparr>t_next := x\<rparr>), sched_out := a, sched_in := b\<rparr>)"
    unfolding relinked_def using assms by (auto simp del: fun_upd_apply simp: fun_upd_def)
  show "relinked s (s\<lparr>threads := (threads s)(p \<mapsto> t\<lparr>t_next := x\<rparr>)\<rparr>)"
    unfolding relinked_def using assms
    by (intro conjI exI [of _ "(threads s)(p \<mapsto> t\<lparr>t_next := x\<rparr>)"] exI [of _ "sched_out s"] exI [of _ "sched_in s"])
       (cases s, simp_all)
  show "relinked s (s\<lparr>threads := (threads s)(p \<mapsto> t\<lparr>t_next := x\<rparr>), sched_in := b\<rparr>)"
    unfolding relinked_def using assms
    by (intro conjI exI [of _ "(threads s)(p \<mapsto> t\<lparr>t_next := x\<rparr>)"] exI [of _ "sched_out s"] exI [of _ b])
       (cases s, simp_all)
qed

lemma queue_insert:
  assumes Q: "queue_rep s q" and p: "threads s p \<noteq> None" "p \<noteq> 0" "p \<notin> set q"
  shows "\<exists>s'. schedule_insert s p = Some s' \<and> queue_rep s' (q @ [p]) \<and> relinked s s'"
proof -
  obtain t where t: "threads s p = Some t" using p(1) by blast
  show ?thesis
  proof (cases "q = []")
    case True
    let ?s = "s\<lparr>threads := (threads s)(p \<mapsto> t\<lparr>t_next := 0\<rparr>), sched_out := p, sched_in := p\<rparr>"
    have "schedule_insert s p = Some ?s"
      using Q True t by (simp add: schedule_insert_def queue_rep_def upd_thread_def)
    moreover have "queue_rep ?s [p]" using p(2) by (simp add: queue_rep_def)
    ultimately show ?thesis using True set_next(3) [OF t] by auto
  next
    case False
    have c: "chain (nxt s) (sched_out s) q" and l: "sched_in s = last q" using Q False by (auto simp: queue_rep_def)
    have lp: "last q \<noteq> 0" "last q \<noteq> p" using chain_nonzero [OF c] False p(3) last_in_set by metis+
    obtain u where u: "threads s (last q) = Some u" using chain_last [OF c False] by auto
    have o: "sched_out s \<noteq> 0" using c False by (cases q) auto
    let ?m = "(threads s)(last q \<mapsto> u\<lparr>t_next := p\<rparr>)"
    let ?s = "s\<lparr>threads := ?m(p \<mapsto> t\<lparr>t_next := 0\<rparr>), sched_in := p\<rparr>"
    have "schedule_insert s p = Some ?s"
      using o l lp t u by (simp add: schedule_insert_def upd_thread_def)
    moreover have "relinked s ?s"
    proof -
      have tm: "threads (s\<lparr>threads := ?m\<rparr>) p = Some t" using t lp by simp
      show ?thesis using relinked_trans [OF set_next(2) [OF u, of p] set_next(4) [OF tm, where x = 0 and b = p]] by simp
    qed
    moreover have "nxt ?s = (nxt s)(last q := Some p, p := Some 0)" using lp by (auto simp: fun_eq_iff)
    then have "queue_rep ?s (q @ [p])"
      using chain_snoc [OF c False p(3,2)] by (simp add: queue_rep_def del: fun_upd_apply)
    ultimately show ?thesis by blast
  qed
qed

lemma remove_loop_ok:
  assumes "chain (nxt s) temp q" "q \<noteq> []" "p \<noteq> 0"
  shows "(p \<notin> set (tl q) \<longrightarrow> schedule_remove_loop s temp p = Some s) \<and>
    (\<forall>us a vs. q = us @ a # p # vs \<longrightarrow> (\<exists>ta tp. threads s a = Some ta \<and> threads s p = Some tp \<and>
      schedule_remove_loop s temp p = Some (s\<lparr>threads := (threads s)(a \<mapsto> ta\<lparr>t_next := t_next tp\<rparr>, p \<mapsto> tp\<lparr>t_next := 0\<rparr>),
        sched_in := (if sched_in s = p then a else sched_in s)\<rparr>)))"
  using assms(1,2)
proof (induction q arbitrary: temp)
  case (Cons x q)
  then obtain n where x: "x = temp" "temp \<noteq> 0" "nxt s temp = Some n" "chain (nxt s) n q" by auto
  then obtain t where t: "threads s temp = Some t" "t_next t = n" by auto
  note rec = schedule_remove_loop.simps [of s temp p]
  show ?case
  proof (cases q)
    case Nil
    then show ?thesis using x t rec by simp
  next
    case q: (Cons y ys)
    then have n: "n = y" "n \<noteq> 0" using x(4) by auto
    show ?thesis
    proof (cases "y = p")
      case True
      obtain tp where tp: "threads s p = Some tp" using x(4) q True n by auto
      have "temp \<noteq> p" using chain_distinct [OF Cons.prems(1)] q x(1) True by auto
      have "schedule_remove_loop s temp p = Some (s\<lparr>threads := (threads s)(temp \<mapsto> t\<lparr>t_next := t_next tp\<rparr>, p \<mapsto> tp\<lparr>t_next := 0\<rparr>),
          sched_in := (if sched_in s = p then temp else sched_in s)\<rparr>)"
        using t n True tp \<open>temp \<noteq> p\<close> by (simp add: rec upd_thread_def Let_def)
      moreover have "a = temp" if "x # q = us @ a # p # vs" for us a vs
        using chain_distinct [OF Cons.prems(1)] that q True x(1) by (cases us; cases "tl us") auto
      moreover have "p \<in> set (tl (x # q))" using q True by simp
      ultimately show ?thesis using t(1) tp by blast
    next
      case False
      then have step: "schedule_remove_loop s temp p = schedule_remove_loop s n p" using t n by (simp add: rec)
      have "q \<noteq> []" using q by simp
      note IH = Cons.IH [OF x(4) this]
      have "p \<notin> set q \<Longrightarrow> schedule_remove_loop s temp p = Some s"
        using IH [THEN conjunct1] step q by auto
      moreover have "\<exists>us'. q = us' @ a # p # vs" if "x # q = us @ a # p # vs" for us a vs
        using that q False by (cases us) auto
      ultimately show ?thesis using IH [THEN conjunct2] step by (metis list.sel(3))
    qed
  qed
qed simp

lemma queue_remove:
  assumes Q: "queue_rep s q" and p: "p \<in> set q" "q \<noteq> [p]"
  shows "\<exists>s'. schedule_remove s p = Some s' \<and> queue_rep s' (remove1 p q) \<and> relinked s s'"
proof -
  have c: "chain (nxt s) (sched_out s) q" and l: "sched_in s = last q" using Q p(1) by (auto simp: queue_rep_def)
  have o: "sched_out s \<noteq> 0" and p0: "p \<noteq> 0" using c p(1) chain_nonzero [OF c] by (cases q; auto)+
  have dist: "distinct q" using chain_distinct [OF c] .
  show ?thesis
  proof (cases "sched_out s = p")
    case True
    then obtain r where q: "q = p # r" using c p(1) by (cases q) auto
    then obtain t where t: "threads s p = Some t" "chain (nxt s) (t_next t) r" using c True by auto
    let ?s = "s\<lparr>sched_out := t_next t\<rparr>"
    have "schedule_remove s p = Some ?s" using True p0 t by (simp add: schedule_remove_def)
    moreover have "queue_rep ?s (remove1 p q)" using t q l p(2) by (simp add: queue_rep_def)
    moreover have "relinked s ?s"
      unfolding relinked_def
      by (intro conjI exI [of _ "threads s"] exI [of _ "t_next t"] exI [of _ "sched_in s"]) (cases s, simp_all)
    ultimately show ?thesis by blast
  next
    case False
    obtain us' vs where "q = us' @ p # vs" using split_list [OF p(1)] by blast
    moreover have "us' \<noteq> []" using False c calculation by (cases us') auto
    ultimately obtain us a where q: "q = us @ a # p # vs" by (metis append_butlast_last_id append_Cons append_Nil append_assoc)
    have "q \<noteq> []" using q by simp
    from remove_loop_ok [OF c this p0, THEN conjunct2, rule_format, OF q] obtain ta tp where
      t: "threads s a = Some ta" "threads s p = Some tp" and
      r: "schedule_remove_loop s (sched_out s) p = Some (s\<lparr>threads := (threads s)(a \<mapsto> ta\<lparr>t_next := t_next tp\<rparr>, p \<mapsto> tp\<lparr>t_next := 0\<rparr>),
        sched_in := (if sched_in s = p then a else sched_in s)\<rparr>)" by blast
    let ?s = "s\<lparr>threads := (threads s)(a \<mapsto> ta\<lparr>t_next := t_next tp\<rparr>, p \<mapsto> tp\<lparr>t_next := 0\<rparr>),
        sched_in := (if sched_in s = p then a else sched_in s)\<rparr>"
    have pa: "p \<noteq> a" "p \<notin> set (us @ a # vs)" using dist q by auto
    have "chain ((nxt s)(a := Some (t_next tp))) (sched_out s) (us @ a # vs)"
      using chain_cut [of "nxt s" "sched_out s" us a p vs "t_next tp"] c q t(2) by simp
    moreover have "nxt ?s = ((nxt s)(a := Some (t_next tp)))(p := Some 0)" using pa by (auto simp: fun_eq_iff)
    ultimately have "chain (nxt ?s) (sched_out s) (us @ a # vs)" using chain_upd [OF pa(2)] by metis
    moreover have "(if sched_in s = p then a else sched_in s) = last (us @ a # vs)"
      using l q pa dist by (cases vs rule: rev_cases) auto
    moreover have "remove1 p q = us @ a # vs" using q pa by (simp add: remove1_append)
    ultimately have "queue_rep ?s (remove1 p q)" by (simp add: queue_rep_def del: fun_upd_apply)
    moreover have "relinked s ?s"
    proof -
      have tm: "threads (s\<lparr>threads := (threads s)(a \<mapsto> ta\<lparr>t_next := t_next tp\<rparr>)\<rparr>) p = Some tp" using t pa by simp
      show ?thesis using relinked_trans [OF set_next(2) [OF t(1), of "t_next tp"] set_next(4) [OF tm, where x = 0]] by simp
    qed
    moreover have "schedule_remove s p = Some ?s" using r o False by (simp add: schedule_remove_def del: fun_upd_apply)
    ultimately show ?thesis by blast
  qed
qed

lemma queue_remove_absent: "queue_rep s q \<Longrightarrow> q \<noteq> [] \<Longrightarrow> p \<notin> set q \<Longrightarrow> p \<noteq> 0 \<Longrightarrow> schedule_remove s p = Some s"
proof -
  assume Q: "queue_rep s q" and q: "q \<noteq> []" and p: "p \<notin> set q" "p \<noteq> 0"
  have c: "chain (nxt s) (sched_out s) q" using Q by (simp add: queue_rep_def)
  then have "sched_out s \<in> set q" "sched_out s \<noteq> 0" using q by (cases q; auto)+
  moreover have "p \<notin> set (tl q)" using p(1) by (metis list.set_sel(2) q)
  ultimately show ?thesis using remove_loop_ok [OF c q p(2)] p(1) by (auto simp: schedule_remove_def)
qed

lemma queue_next:
  assumes Q: "queue_rep s (p # q)" and t: "threads s p = Some t" "t_frozen t = 0"
  shows "\<exists>s'. schedule_next s = Some (p, s') \<and> queue_rep s' (q @ [p]) \<and> relinked s s'"
proof -
  have c: "sched_out s = p" "p \<noteq> 0" "chain (nxt s) (t_next t) q" and l: "sched_in s = last (p # q)"
    using Q t(1) by (auto simp: queue_rep_def)
  have pq: "p \<notin> set q" using chain_distinct [of "nxt s" "sched_out s" "p # q"] Q by (simp add: queue_rep_def)
  note rec = schedule_next_loop.simps [of s p]
  show ?thesis
  proof (cases "q = []")
    case True
    let ?s = "s\<lparr>threads := (threads s)(p \<mapsto> t\<lparr>t_next := 0\<rparr>), sched_out := p, sched_in := p\<rparr>"
    have "t_next t = 0" using c(3) True by simp
    then have "schedule_next s = Some (p, ?s)"
      using c(1,2) t l True by (simp add: schedule_next_def rec Let_def upd_thread_def)
    moreover have "queue_rep ?s [p]" using c(2) by (simp add: queue_rep_def)
    ultimately show ?thesis using True set_next(3) [OF t(1)] by auto
  next
    case False
    have n: "t_next t \<noteq> 0" using c(3) False by (cases q) auto
    have lq: "last q \<noteq> 0" "last q \<noteq> p" using chain_nonzero [OF c(3)] False pq last_in_set by metis+
    obtain u where u: "threads s (last q) = Some u" using chain_last [OF c(3) False] by auto
    let ?m = "(threads s)(last q \<mapsto> u\<lparr>t_next := p\<rparr>)"
    let ?s = "s\<lparr>threads := ?m(p \<mapsto> t\<lparr>t_next := 0\<rparr>), sched_out := t_next t, sched_in := p\<rparr>"
    have "schedule_next s = Some (p, ?s)"
      using c(1,2) t l n lq u False by (simp add: schedule_next_def rec Let_def upd_thread_def)
    moreover have "nxt ?s = (nxt s)(last q := Some p, p := Some 0)" using lq by (auto simp: fun_eq_iff)
    then have "queue_rep ?s (q @ [p])"
      using chain_snoc [OF c(3) False pq c(2)] by (simp add: queue_rep_def del: fun_upd_apply)
    moreover have "relinked s ?s"
    proof -
      have tm: "threads (s\<lparr>threads := ?m\<rparr>) p = Some t" using t lq by simp
      show ?thesis
        using relinked_trans [OF set_next(2) [OF u, of p] set_next(3) [OF tm, where x = 0 and a = "t_next t" and b = p]] by simp
    qed
    ultimately show ?thesis by blast
  qed
qed

lemma queue_next_empty: "queue_rep s [] \<Longrightarrow> schedule_next s = Some (0, s)"
  by (simp add: queue_rep_def schedule_next_def schedule_next_loop.simps)

text \<open>
  The loop returns a thread only if that thread was not frozen to begin with: with a frozen thread at
  the head of the queue \<open>schedule_next\<close> does not return.
\<close>

definition unfrozen :: "kernel \<Rightarrow> ptr \<Rightarrow> bool" where
  "unfrozen s p \<longleftrightarrow> map_option t_frozen (threads s p) = Some 0"

lemma upd_next_frozen: "upd_thread s p (t_next_update f) = Some s' \<Longrightarrow> unfrozen s' = unfrozen s"
  by (auto simp: upd_thread_def unfrozen_def fun_eq_iff split: if_splits)

lemma sched_frozen [simp]: "unfrozen (s\<lparr>sched_out := a\<rparr>) = unfrozen s" "unfrozen (s\<lparr>sched_in := b\<rparr>) = unfrozen s"
  by (simp_all add: unfrozen_def fun_eq_iff)

lemma next_loop_frozen: "schedule_next_loop s p = Some x \<Longrightarrow> p \<noteq> 0 \<longrightarrow> fst x = p \<and> unfrozen s p"
proof (erule schedule_next_loop.raw_induct [rotated, of _ _ _ "\<lambda>s p x. p \<noteq> 0 \<longrightarrow> fst x = p \<and> unfrozen s p"])
  fix loop s p x
  assume IH: "\<And>s p x. loop s p = Some x \<Longrightarrow> p \<noteq> 0 \<longrightarrow> fst x = p \<and> unfrozen s p"
    and x: "(if p = 0 then Some (0, s)
      else do {
        t \<leftarrow> threads s p;
        let s = s\<lparr>sched_out := t_next t\<rparr>;
        let s = (if t_next t = 0 then s\<lparr>sched_in := 0\<rparr> else s);
        s \<leftarrow> (if sched_in s = 0 then
                upd_thread (s\<lparr>sched_out := p, sched_in := p\<rparr>) p (t_next_update (\<lambda>_. 0))
              else do {
                s \<leftarrow> upd_thread s (sched_in s) (t_next_update (\<lambda>_. p));
                upd_thread (s\<lparr>sched_in := p\<rparr>) p (t_next_update (\<lambda>_. 0))
              });
        t \<leftarrow> threads s p;
        if t_frozen t \<noteq> 0 then loop s p else Some (p, s)
      }) = Some x"
  show "p \<noteq> 0 \<longrightarrow> fst x = p \<and> unfrozen s p"
  proof (cases "p = 0")
    case True
    then show ?thesis using x by auto
  next
    case False
    from x False obtain s1 t where "threads s1 p = Some t" "unfrozen s1 = unfrozen s"
      "(if t_frozen t \<noteq> 0 then loop s1 p else Some (p, s1)) = Some x"
      by (auto simp: Let_def dest!: upd_next_frozen split: if_splits)
    moreover have "unfrozen s1 p \<longleftrightarrow> t_frozen t = 0" using calculation(1) by (simp add: unfrozen_def)
    ultimately show ?thesis using IH [of s1 p x] by (auto split: if_splits)
  qed
qed

lemma next_frozen: "sched_out s \<noteq> 0 \<Longrightarrow> \<not> unfrozen s (sched_out s) \<Longrightarrow> schedule_next s = None"
  using next_loop_frozen [of s "sched_out s"] by (cases "schedule_next s") (auto simp: schedule_next_def)

section \<open>Interface\<close>

text \<open>
  The contract of the scheduling queue: first in, first out, over the queued threads \<open>q\<close>. Its client
  lemma is the round robin: with all queued threads runnable, as many calls as there are threads
  return each of them once, in order, and leave the queue as it was.
\<close>

primrec next_n :: "('s \<Rightarrow> (ptr \<times> 's) option) \<Rightarrow> nat \<Rightarrow> 's \<Rightarrow> (ptr list \<times> 's) option" where
  "next_n nx 0 s = Some ([], s)"
| "next_n nx (Suc n) s = do { (p, s) \<leftarrow> nx s; (ps, s) \<leftarrow> next_n nx n s; Some (p # ps, s) }"

locale run_queue =
  fixes ins :: "'s \<Rightarrow> ptr \<Rightarrow> 's option" and rem :: "'s \<Rightarrow> ptr \<Rightarrow> 's option" and nx :: "'s \<Rightarrow> (ptr \<times> 's) option"
    and rep :: "'s \<Rightarrow> ptr list \<Rightarrow> bool" and valid :: "'s \<Rightarrow> ptr \<Rightarrow> bool" and ready :: "'s \<Rightarrow> ptr \<Rightarrow> bool"
  assumes ins: "rep s q \<Longrightarrow> valid s p \<Longrightarrow> p \<notin> set q \<Longrightarrow>
      \<exists>s'. ins s p = Some s' \<and> rep s' (q @ [p]) \<and> valid s' = valid s \<and> ready s' = ready s"
    and rem: "rep s q \<Longrightarrow> p \<in> set q \<Longrightarrow> q \<noteq> [p] \<Longrightarrow>
      \<exists>s'. rem s p = Some s' \<and> rep s' (remove1 p q) \<and> valid s' = valid s \<and> ready s' = ready s"
    and nx: "rep s (p # q) \<Longrightarrow> ready s p \<Longrightarrow>
      \<exists>s'. nx s = Some (p, s') \<and> rep s' (q @ [p]) \<and> valid s' = valid s \<and> ready s' = ready s"
begin

lemma next_n_prefix:
  "rep s (q @ r) \<Longrightarrow> \<forall>p \<in> set q. ready s p \<Longrightarrow> \<exists>s'. next_n nx (length q) s = Some (q, s') \<and> rep s' (r @ q) \<and> ready s' = ready s"
proof (induction q arbitrary: s r)
  case (Cons p q)
  then obtain s1 where s1: "nx s = Some (p, s1)" "rep s1 (q @ r @ [p])" "ready s1 = ready s"
    using nx [of s p "q @ r"] by auto
  then show ?case using Cons.IH [of s1 "r @ [p]"] Cons.prems(2) by auto
qed simp

lemma round_robin:
  assumes "rep s q" and "\<forall>p \<in> set q. ready s p"
  shows "\<exists>s'. next_n nx (length q) s = Some (q, s') \<and> rep s' q"
  using next_n_prefix [of s q "[]"] assms by auto

end

lemma relinked_views:
  assumes "relinked s s'"
  shows "(\<lambda>p. p \<noteq> 0 \<and> threads s' p \<noteq> None) = (\<lambda>p. p \<noteq> 0 \<and> threads s p \<noteq> None)" "unfrozen s' = unfrozen s"
  using relinked_dom [OF assms] relinked_frozen [OF assms] by (simp_all add: fun_eq_iff unfrozen_def)

interpretation sched: run_queue schedule_insert schedule_remove schedule_next queue_rep
  "\<lambda>s p. p \<noteq> 0 \<and> threads s p \<noteq> None" unfrozen
proof
  fix s q p
  show "queue_rep s q \<Longrightarrow> p \<noteq> 0 \<and> threads s p \<noteq> None \<Longrightarrow> p \<notin> set q \<Longrightarrow>
      \<exists>s'. schedule_insert s p = Some s' \<and> queue_rep s' (q @ [p]) \<and>
        (\<lambda>p. p \<noteq> 0 \<and> threads s' p \<noteq> None) = (\<lambda>p. p \<noteq> 0 \<and> threads s p \<noteq> None) \<and> unfrozen s' = unfrozen s"
    using queue_insert [of s q p] relinked_views by blast
  show "queue_rep s q \<Longrightarrow> p \<in> set q \<Longrightarrow> q \<noteq> [p] \<Longrightarrow>
      \<exists>s'. schedule_remove s p = Some s' \<and> queue_rep s' (remove1 p q) \<and>
        (\<lambda>p. p \<noteq> 0 \<and> threads s' p \<noteq> None) = (\<lambda>p. p \<noteq> 0 \<and> threads s p \<noteq> None) \<and> unfrozen s' = unfrozen s"
    using queue_remove [of s q p] relinked_views by blast
  assume "queue_rep s (p # q)" "unfrozen s p"
  then show "\<exists>s'. schedule_next s = Some (p, s') \<and> queue_rep s' (q @ [p]) \<and>
        (\<lambda>p. p \<noteq> 0 \<and> threads s' p \<noteq> None) = (\<lambda>p. p \<noteq> 0 \<and> threads s p \<noteq> None) \<and> unfrozen s' = unfrozen s"
    using queue_next [of s p q] relinked_views by (auto simp: unfrozen_def)
qed

text \<open>Two queued threads.\<close>

definition two_threads :: kernel where
  "two_threads = base_kernel\<lparr>threads := [0x1000 \<mapsto> zero_thread\<lparr>t_next := 0x2000\<rparr>, 0x2000 \<mapsto> zero_thread, 0x3000 \<mapsto> zero_thread],
     sched_out := 0x1000, sched_in := 0x2000\<rparr>"

lemma two_threads_rep: "queue_rep two_threads [0x1000, 0x2000]" "\<forall>p \<in> {0x1000, 0x2000}. unfrozen two_threads p"
  by (simp_all add: queue_rep_def two_threads_def zero_thread_def unfrozen_def)

section \<open>Properties\<close>

text \<open>
  C5. Round robin: when no queued thread is frozen, as many calls of \<open>schedule_next\<close> as there are
  queued threads return, yield every queued thread exactly once in queue order, and leave the queue
  as it was.
\<close>

theorem schedule_round_robin:
  assumes "queue_rep s q" and "\<forall>p \<in> set q. unfrozen s p"
  shows "\<exists>s'. next_n schedule_next (length q) s = Some (q, s') \<and> queue_rep s' q"
  by (rule sched.round_robin [OF assms])

theorem schedule_round_robin_witness:
  "\<exists>s'. next_n schedule_next 2 two_threads = Some ([0x1000, 0x2000], s') \<and> queue_rep s' [0x1000, 0x2000]"
  using schedule_round_robin [OF two_threads_rep(1)] two_threads_rep(2) by (simp add: numeral_2_eq_2)

text \<open>
  Inserting and removing: \<open>schedule_insert\<close> appends a thread that is not queued, and
  \<open>schedule_remove\<close> takes exactly the given thread out of a queue of at least two, wherever it stands;
  no thread changes but in its \<open>next\<close> field. Removing the thread just inserted restores the queue.
\<close>

theorem schedule_insert_remove:
  assumes "queue_rep s q" and "q \<noteq> []" and "p \<notin> set q" and "p \<noteq> 0" and "threads s p \<noteq> None" and "r \<in> set q"
  shows "\<exists>s1 s2 s3. schedule_insert s p = Some s1 \<and> queue_rep s1 (q @ [p]) \<and> relinked s s1 \<and>
    schedule_remove s1 p = Some s2 \<and> queue_rep s2 q \<and> relinked s1 s2 \<and>
    schedule_remove s1 r = Some s3 \<and> queue_rep s3 (remove1 r (q @ [p])) \<and> relinked s1 s3"
proof -
  obtain s1 where s1: "schedule_insert s p = Some s1" "queue_rep s1 (q @ [p])" "relinked s s1"
    using queue_insert [OF assms(1,5,4,3)] by blast
  have "q @ [p] \<noteq> [p]" "q @ [p] \<noteq> [r]" "p \<in> set (q @ [p])" "r \<in> set (q @ [p])" using assms(2,6) by auto
  moreover have "remove1 p (q @ [p]) = q" using assms(3) by (simp add: remove1_append)
  ultimately show ?thesis using s1 queue_remove [OF s1(2), of p] queue_remove [OF s1(2), of r] by auto
qed

theorem schedule_insert_remove_witness:
  "\<exists>s1 s2. schedule_insert two_threads 0x3000 = Some s1 \<and> queue_rep s1 [0x1000, 0x2000, 0x3000] \<and>
    schedule_remove s1 0x3000 = Some s2 \<and> queue_rep s2 [0x1000, 0x2000]"
proof -
  have "threads two_threads 0x3000 \<noteq> None" by (simp add: two_threads_def)
  then show ?thesis
    using schedule_insert_remove [OF two_threads_rep(1), of "0x3000" "0x1000"] by auto
qed

text \<open>
  Removing the only queued thread does not reset the queue's tail: \<open>schedule_remove\<close> returns, but
  every later \<open>schedule_insert\<close> stops the kernel with \<open>scheduler inconsistency\<close>.
\<close>

theorem schedule_remove_last:
  assumes Q: "queue_rep s [p]"
  shows "\<exists>s'. schedule_remove s p = Some s' \<and> sched_out s' = 0 \<and> (\<forall>r. schedule_insert s' r = None)"
proof -
  from Q obtain t where "sched_out s = p" "sched_in s = p" "p \<noteq> 0" "threads s p = Some t" "t_next t = 0"
    by (auto simp: queue_rep_def)
  then show ?thesis by (simp add: schedule_remove_def schedule_insert_def)
qed

theorem schedule_remove_last_witness:
  "\<exists>s'. schedule_remove (two_threads\<lparr>sched_out := 0x2000\<rparr>) 0x2000 = Some s' \<and> (\<forall>r. schedule_insert s' r = None)"
proof -
  have "queue_rep (two_threads\<lparr>sched_out := 0x2000\<rparr>) [0x2000]"
    by (simp add: queue_rep_def two_threads_def zero_thread_def)
  then show ?thesis using schedule_remove_last by blast
qed

text \<open>
  The loop of \<open>schedule_next\<close> that is meant to skip frozen threads never advances: with a frozen
  thread at the head of the queue it does not return.
\<close>

theorem schedule_next_frozen_head:
  assumes "queue_rep s (p # q)" and "\<not> unfrozen s p"
  shows "schedule_next s = None"
  using assms next_frozen [of s] by (simp add: queue_rep_def)

theorem schedule_next_frozen_head_witness:
  "schedule_next (two_threads\<lparr>threads := (threads two_threads)(0x1000 \<mapsto> zero_thread\<lparr>t_next := 0x2000, t_frozen := 1\<rparr>)\<rparr>) = None"
proof (rule schedule_next_frozen_head [of _ "0x1000" "[0x2000]"])
qed (simp_all add: queue_rep_def two_threads_def zero_thread_def unfrozen_def)

end
