(* ===== verification/Threads.thy ===== *)
theory Threads
  imports Schedule
begin

text \<open>
  Threads: \<open>kernel/thread/thread.c\<close>, with \<open>process_get\<close> and \<open>process_switch\<close> of \<open>process.c\<close> and
  \<open>set_int_stack.c\<close>. A freed object stays readable with its old fields, as the memory of a freed block
  does, except for its first word, which \<open>heap_free\<close> makes the link of the free list; it is reset when
  the block is allocated again. The assembly routines \<open>fpu_save\<close>, \<open>fpu_load\<close> and \<open>cpu_set_cr3\<close> move the
  register they name; \<open>cpu_idle\<close> does not return.
\<close>

section \<open>Operations\<close>

definition process_get :: "kernel \<Rightarrow> u32 \<Rightarrow> ptr" where
  "process_get s pid = (if unat pid \<ge> MAX_TASKS then 0 else process_table s (unat pid))"

definition process_switch :: "kernel \<Rightarrow> ptr \<Rightarrow> kernel option" where
  "process_switch s proc = do { pr \<leftarrow> processes s proc; Some (s\<lparr>cr3 := p_space pr\<rparr>) }"

definition int_stack_init :: "kernel \<Rightarrow> kernel" where
  "int_stack_init s = (let base = tss_addr s; limit = (ucast (base + sizeof_tss - 1) :: u16) in
     s\<lparr>tss := zero_tss\<lparr>tss_cs := 0x08, tss_ss0 := 0x10, tss_es := 0x10, tss_ds := 0x10, tss_fs := 0x10, tss_gs := 0x10,
         tss_iomap_base := 104\<rparr>,
       gdt := (gdt s)(40 := ucast (limit AND 0xFF), 41 := ucast (drop_bit 8 limit AND 0xFF), 42 := ucast (base AND 0xFF),
         43 := ucast (drop_bit 8 base AND 0xFF), 44 := ucast (drop_bit 16 base AND 0xFF), 47 := ucast (drop_bit 24 base AND 0xFF))\<rparr>)"

definition set_int_stack :: "kernel \<Rightarrow> ptr \<Rightarrow> kernel" where
  "set_int_stack s p = (let s = (if \<not> int_stack_ready s then (int_stack_init s)\<lparr>int_stack_ready := True\<rparr> else s) in
     s\<lparr>tss := (tss s)\<lparr>tss_esp0 := p\<rparr>\<rparr>)"

lemma set_int_stack_more [simp]:
  "threads (set_int_stack s p) = threads s" "processes (set_int_stack s p) = processes s" "fxdata (set_int_stack s p) = fxdata s"
  "can_use_fpu (set_int_stack s p) = can_use_fpu s" "cr3 (set_int_stack s p) = cr3 s" "fpu_state (set_int_stack s p) = fpu_state s"
  "tss_esp0 (tss (set_int_stack s p)) = p"
  by (simp_all add: set_int_stack_def int_stack_init_def Let_def)

definition fpu_save :: "kernel \<Rightarrow> ptr \<Rightarrow> kernel" where
  "fpu_save s p = (if can_use_fpu s then s\<lparr>fxdata := (fxdata s)(p \<mapsto> fpu_state s)\<rparr> else s)"

definition fpu_load :: "kernel \<Rightarrow> ptr \<Rightarrow> kernel option" where
  "fpu_load s p = (if can_use_fpu s then do { x \<leftarrow> fxdata s p; Some (s\<lparr>fpu_state := x\<rparr>) } else Some s)"

definition thread_alloc :: "kernel \<Rightarrow> (ptr \<times> kernel) option" where
  "thread_alloc s = do {
     (thread, s) \<leftarrow> heap_alloc s sizeof_thread;
     let s = s\<lparr>threads := (threads s)(thread \<mapsto> zero_thread)\<rparr>;
     (fx, s) \<leftarrow> heap_alloc s sizeof_fxdata;
     let s = s\<lparr>fxdata := (fxdata s)(fx \<mapsto> replicate 128 0)\<rparr>;
     s \<leftarrow> (if thread = 0 then None else upd_thread s thread (t_fxdata_update (\<lambda>_. fx)));
     Some (thread, s)
   }"

definition thread_bind :: "kernel \<Rightarrow> ptr \<Rightarrow> ptr \<Rightarrow> (u32 \<times> kernel) option" where
  "thread_bind s thread proc = do {
     pr \<leftarrow> processes s proc;
     let i = (case find (\<lambda>i. p_thread pr i = 0) [0..<MAX_THREADS] of Some i \<Rightarrow> i | None \<Rightarrow> MAX_THREADS);
     let addr = (if i < MAX_THREADS then SSPACE + SEGSZ * of_nat i else 0);
     s \<leftarrow> (if i < MAX_THREADS then upd_process s proc (\<lambda>pr. pr\<lparr>p_thread := (p_thread pr)(i := thread)\<rparr>) else Some s);
     s \<leftarrow> upd_thread s thread (\<lambda>t. t\<lparr>t_id := of_nat i, t_stack := addr, t_proc := proc\<rparr>);
     Some (addr, s)
   }"

definition thread_send :: "kernel \<Rightarrow> ptr \<Rightarrow> u32 \<Rightarrow> u8 \<Rightarrow> ptr \<Rightarrow> (ptr \<times> kernel) option" where
  "thread_send s img target port msg = (let p_targ = process_get s target in
     if p_targ = 0 then Some (img, s)
     else do {
       pt \<leftarrow> processes s p_targ;
       if p_entry pt = 0 then Some (img, s)
       else do {
         (new_img, s) \<leftarrow> thread_alloc s;
         (_, s) \<leftarrow> thread_bind s new_img p_targ;
         pt \<leftarrow> processes s p_targ;
         s \<leftarrow> upd_thread s new_img (\<lambda>t. t\<lparr>t_ds := 0x23, t_cs := 0x1B, t_ss := 0x23, t_eflags := 0,
                t_useresp := t_stack t + SEGSZ, t_proc := p_targ, t_eip := p_entry pt\<rparr>);
         count \<leftarrow> (if msg \<noteq> 0 then map_option m_count (msgs s msg) else Some 0);
         source \<leftarrow> (if img \<noteq> 0 then do { im \<leftarrow> threads s img; pr \<leftarrow> processes s (t_proc im); Some (p_pid pr) } else Some 0);
         s \<leftarrow> upd_thread s new_img (\<lambda>t. t\<lparr>t_ebx := 0, t_ecx := count, t_edx := ucast port, t_esi := source,
                t_edi := 0, t_msg := msg\<rparr>);
         user \<leftarrow> (if img = 0 \<or> p_user pt \<noteq> 0 then Some (p_user pt) else map_option t_user (threads s img));
         s \<leftarrow> upd_thread s new_img (t_user_update (\<lambda>_. user));
         s \<leftarrow> schedule_insert s new_img;
         Some (new_img, s)
       }
     })"

definition thread_sendv :: "kernel \<Rightarrow> u64 \<Rightarrow> u64 \<Rightarrow> u8 \<Rightarrow> kernel option" where
  "thread_sendv s target source port = do {
     (thread, s) \<leftarrow> thread_send s 0 (ucast target) port 0;
     if thread = 0 then Some s
     else do {
       t \<leftarrow> threads s thread;
       pr \<leftarrow> processes s (t_proc t);
       if p_pid pr \<noteq> ucast target then Some s
       else upd_thread s thread (\<lambda>t. t\<lparr>t_esi := ucast source, t_edi := ucast (drop_bit 32 source),
              t_ebx := ucast (drop_bit 32 target)\<rparr>)
     }
   }"

text \<open>The parts of \<open>thread_free\<close>: the message packet and the stack segment.\<close>

definition msg_free :: "kernel \<Rightarrow> ptr \<Rightarrow> kernel option" where
  "msg_free s p = do {
     m \<leftarrow> msgs s p;
     s \<leftarrow> for_list (\<lambda>i s. do {
         fr \<leftarrow> msg_frames s (m_frame m);
         if i < length fr then frame_free s (fr ! i) else None
       }) [0..<unat (m_count m)] s;
     s \<leftarrow> heap_free s (m_frame m) (m_count m * 4);
     let s = s\<lparr>msg_frames := (msg_frames s)(m_frame m := map_option (\<lambda>fr. fr[0 := heap_words s (m_frame m)]) (msg_frames s (m_frame m)))\<rparr>;
     s \<leftarrow> heap_free s p sizeof_msg;
     Some (s\<lparr>msgs := (msgs s)(p \<mapsto> m\<lparr>m_count := heap_words s p\<rparr>)\<rparr>)
   }"

definition stack_free :: "kernel \<Rightarrow> u32 \<Rightarrow> kernel option" where
  "stack_free s stack =
     (if stack < stack + SEGSZ then
        for_list (\<lambda>k s. let i = stack + of_nat k * PAGESZ in do {
            e \<leftarrow> page_exget s i;
            if e AND PF_PRES \<noteq> 0 then do {
              e \<leftarrow> page_exget s i;
              s \<leftarrow> frame_free s (page_ufmt e);
              page_exset s i 0
            }
            else Some s
          }) [0..<1024] s
      else Some s)"

definition thread_free :: "kernel \<Rightarrow> ptr \<Rightarrow> kernel option" where
  "thread_free s thread = do {
     t \<leftarrow> threads s thread;
     s \<leftarrow> (if t_fxdata t \<noteq> 0 then do {
             s \<leftarrow> heap_free s (t_fxdata t) sizeof_fxdata;
             upd_thread s thread (t_fxdata_update (\<lambda>_. 0))
           } else Some s);
     s \<leftarrow> schedule_remove s thread;
     s \<leftarrow> (if t_msg t \<noteq> 0 then msg_free s (t_msg t) else Some s);
     s \<leftarrow> (if t_stack t \<noteq> 0 then
             let i = unat ((t_stack t - SSPACE) div SEGSZ) in
             if i \<ge> MAX_THREADS then None
             else do {
               s \<leftarrow> upd_process s (t_proc t) (\<lambda>pr. pr\<lparr>p_thread := (p_thread pr)(i := 0)\<rparr>);
               pr \<leftarrow> processes s (t_proc t);
               s \<leftarrow> space_exmap s (p_space pr);
               stack_free s (t_stack t)
             }
           else Some s);
     s \<leftarrow> heap_free s thread sizeof_thread;
     upd_thread s thread (t_ds_update (\<lambda>_. heap_words s thread))
   }"

definition thread_freeze :: "kernel \<Rightarrow> ptr \<Rightarrow> kernel option" where
  "thread_freeze s thread = do {
     t \<leftarrow> threads s thread;
     s \<leftarrow> (if t_frozen t = 0 then schedule_remove s thread else Some s);
     upd_thread s thread (t_frozen_update (\<lambda>f. f + 1))
   }"

definition thread_thaw :: "kernel \<Rightarrow> ptr \<Rightarrow> kernel option" where
  "thread_thaw s thread = do {
     t \<leftarrow> threads s thread;
     s \<leftarrow> (if t_frozen t \<noteq> 0 then upd_thread s thread (t_frozen_update (\<lambda>f. f - 1)) else Some s);
     t \<leftarrow> threads s thread;
     if t_frozen t = 0 then schedule_insert s thread else Some s
   }"

text \<open>\<open>thread_switch\<close> with no thread to switch to idles for good. \<open>vm86_es\<close> and \<open>vm86_start\<close> are at offsets 64 and 80.\<close>

definition thread_switch :: "kernel \<Rightarrow> ptr \<Rightarrow> ptr \<Rightarrow> (ptr \<times> kernel) option" where
  "thread_switch s old new =
     (if new = 0 then None
      else do {
        s \<leftarrow> (if old \<noteq> 0 then do {
                t \<leftarrow> threads s old;
                Some (if t_fxdata t \<noteq> 0 then fpu_save s (t_fxdata t) else s)
              } else Some s);
        n \<leftarrow> threads s new;
        s \<leftarrow> (if old = 0 then process_switch s (t_proc n)
              else do {
                t \<leftarrow> threads s old;
                if t_proc t \<noteq> t_proc n then process_switch s (t_proc n) else Some s
              });
        let s = (if old \<noteq> new then
                   if t_vm86_active n \<noteq> 0 then set_int_stack s (new + 80) else set_int_stack s (new + 64)
                 else s);
        s \<leftarrow> (if t_fxdata n \<noteq> 0 then fpu_load s (t_fxdata n) else Some s);
        Some (new, s)
      })"

definition thread_exit :: "kernel \<Rightarrow> ptr \<Rightarrow> (ptr \<times> kernel) option" where
  "thread_exit s img = do {
     s \<leftarrow> thread_free s img;
     (n, s) \<leftarrow> schedule_next s;
     thread_switch s 0 n
   }"

section \<open>Freezing and thawing\<close>

lemma frozen_upd_eq: "t_frozen_update f t = t\<lparr>t_frozen := f (t_frozen t)\<rparr>"
  by (cases t) simp

lemma thread_upd_id: "t\<lparr>t_next := t_next t, t_frozen := t_frozen t\<rparr> = t" "t\<lparr>t_next := t_next t, t_frozen := x\<rparr> = t\<lparr>t_frozen := x\<rparr>"
  by (cases t, simp)+

lemma upd_frozen_rep:
  assumes "threads s p = Some t" and "upd_thread s p (t_frozen_update f) = Some s'"
  shows "s' = s\<lparr>threads := (threads s)(p \<mapsto> t\<lparr>t_frozen := f (t_frozen t)\<rparr>)\<rparr>" "queue_rep s' q = queue_rep s q"
proof -
  show s': "s' = s\<lparr>threads := (threads s)(p \<mapsto> t\<lparr>t_frozen := f (t_frozen t)\<rparr>)\<rparr>"
    using assms frozen_upd_eq [of f t] by (simp add: upd_thread_def)
  have "nxt s' = nxt s" using assms(1) by (auto simp: s' fun_eq_iff)
  then show "queue_rep s' q = queue_rep s q" by (simp add: queue_rep_def s')
qed

lemma relinked_thread:
  assumes "relinked s s'" and "threads s p = Some t"
  shows "\<exists>n. threads s' p = Some (t\<lparr>t_next := n\<rparr>)"
proof -
  have "map_option (t_next_update (\<lambda>_. 0)) (threads s' p) = Some (t\<lparr>t_next := 0\<rparr>)"
    using assms by (simp add: relinked_def)
  then obtain t' where t': "threads s' p = Some t'" "t'\<lparr>t_next := 0\<rparr> = t\<lparr>t_next := 0\<rparr>" by auto
  then have "t\<lparr>t_next := t_next t'\<rparr> = t'" by (cases t; cases t') simp
  then show ?thesis using t'(1) by metis
qed

lemma freeze_ok:
  assumes "queue_rep s q" and t: "threads s p = Some t" and "if t_frozen t = 0 then p \<in> set q \<and> q \<noteq> [p] else p \<notin> set q"
  shows "\<exists>s' n. thread_freeze s p = Some s' \<and> queue_rep s' (remove1 p q) \<and>
    threads s' p = Some (t\<lparr>t_next := n, t_frozen := t_frozen t + 1\<rparr>)"
proof (cases "t_frozen t = 0")
  case True
  obtain s1 where s1: "schedule_remove s p = Some s1" "queue_rep s1 (remove1 p q)" "relinked s s1"
    using queue_remove [OF assms(1)] assms(3) True by auto
  obtain n where n: "threads s1 p = Some (t\<lparr>t_next := n\<rparr>)" using relinked_thread [OF s1(3) t] by blast
  then obtain s2 where s2: "upd_thread s1 p (t_frozen_update (\<lambda>f. f + 1)) = Some s2" by (simp add: upd_thread_def)
  then show ?thesis using upd_frozen_rep [OF n s2] s1 t True by (simp add: thread_freeze_def) blast
next
  case False
  obtain s2 where s2: "upd_thread s p (t_frozen_update (\<lambda>f. f + 1)) = Some s2" using t by (simp add: upd_thread_def)
  then have "thread_freeze s p = Some s2" using False t by (simp add: thread_freeze_def)
  moreover have "remove1 p q = q" using False assms(3) by (simp add: remove1_idem)
  ultimately show ?thesis using upd_frozen_rep [OF t s2] assms(1)
    by (intro exI [of _ s2] exI [of _ "t_next t"]) (simp add: thread_upd_id)
qed

lemma thaw_ok:
  assumes "queue_rep s q" and t: "threads s p = Some t" and "t_frozen t \<noteq> 0" and p: "p \<notin> set q" "p \<noteq> 0"
  shows "\<exists>s' n. thread_thaw s p = Some s' \<and> queue_rep s' (if t_frozen t = 1 then q @ [p] else q) \<and>
    threads s' p = Some (t\<lparr>t_next := n, t_frozen := t_frozen t - 1\<rparr>)"
proof -
  let ?t = "t\<lparr>t_frozen := t_frozen t - 1\<rparr>"
  obtain s1 where s1: "upd_thread s p (t_frozen_update (\<lambda>f. f - 1)) = Some s1" using t by (simp add: upd_thread_def)
  note U = upd_frozen_rep [OF t s1]
  have t1: "threads s1 p = Some ?t" by (simp add: U(1))
  have tn: "t\<lparr>t_next := n, t_frozen := x\<rparr> = t\<lparr>t_frozen := x\<rparr>\<lparr>t_next := n\<rparr>" for n x
    by (cases t, simp)
  show ?thesis
  proof (cases "t_frozen t = 1")
    case True
    obtain s2 where s2: "schedule_insert s1 p = Some s2" "queue_rep s2 (q @ [p])" "relinked s1 s2"
      using queue_insert [of s1 q p] U(2) assms(1) t1 p by auto
    moreover have "thread_thaw s p = Some s2" using t assms(3) s1 t1 True s2(1) by (simp add: thread_thaw_def)
    moreover obtain n where "threads s2 p = Some (t\<lparr>t_next := n, t_frozen := t_frozen t - 1\<rparr>)"
      using relinked_thread [OF s2(3) t1] tn by metis
    ultimately show ?thesis using True by auto
  next
    case False
    then have "t_frozen t - 1 \<noteq> 0" by simp
    then have "thread_thaw s p = Some s1" using t assms(3) s1 t1 by (simp add: thread_thaw_def)
    then show ?thesis using U(2) assms(1) t1 False
      by (intro exI [of _ s1] exI [of _ "t_next t"]) (simp add: thread_upd_id)
  qed
qed

text \<open>Several freezes, and as many thaws, of a thread that is out of the queue.\<close>

lemma freezes_ok:
  assumes "queue_rep s q" and "threads s p = Some t" and "p \<notin> set q" and "unat (t_frozen t) + n < 2 ^ 32" and "t_frozen t \<noteq> 0"
  shows "\<exists>s' m. repeat_op n (\<lambda>s. thread_freeze s p) s = Some s' \<and> queue_rep s' q \<and>
    threads s' p = Some (t\<lparr>t_next := m, t_frozen := t_frozen t + of_nat n\<rparr>)"
  using assms
proof (induction n arbitrary: s t)
  case 0
  show ?case by (intro exI [of _ s] exI [of _ "t_next t"]) (simp add: 0 thread_upd_id)
next
  case (Suc n)
  obtain s1 m where s1: "thread_freeze s p = Some s1" "queue_rep s1 q" "threads s1 p = Some (t\<lparr>t_next := m, t_frozen := t_frozen t + 1\<rparr>)"
    using freeze_ok [OF Suc.prems(1,2)] Suc.prems(3,5) by (auto simp: remove1_idem)
  have f: "unat (t_frozen t + 1) = unat (t_frozen t) + 1" using unat_add_lem [of "t_frozen t" 1] Suc.prems(4) by simp
  then have "t_frozen t + 1 \<noteq> 0" by (metis Suc_eq_plus1 nat.distinct(1) unat_0)
  then obtain s' k where "repeat_op n (\<lambda>s. thread_freeze s p) s1 = Some s'" "queue_rep s' q"
    "threads s' p = Some (t\<lparr>t_next := m, t_frozen := t_frozen t + 1\<rparr>\<lparr>t_next := k, t_frozen := t_frozen t + 1 + of_nat n\<rparr>)"
    using Suc.IH [OF s1(2,3) Suc.prems(3)] f Suc.prems(4) by auto
  then show ?case using s1(1) by (auto simp: add.assoc)
qed

lemma thaws_ok:
  assumes "queue_rep s q" and "threads s p = Some t" and "p \<notin> set q" and "p \<noteq> 0" and "n < unat (t_frozen t)"
  shows "\<exists>s' m. repeat_op n (\<lambda>s. thread_thaw s p) s = Some s' \<and> queue_rep s' q \<and>
    threads s' p = Some (t\<lparr>t_next := m, t_frozen := t_frozen t - of_nat n\<rparr>)"
  using assms
proof (induction n arbitrary: s t)
  case 0
  show ?case by (intro exI [of _ s] exI [of _ "t_next t"]) (simp add: 0 thread_upd_id)
next
  case (Suc n)
  have nz: "t_frozen t \<noteq> 0" "t_frozen t \<noteq> 1" using Suc.prems(5) by auto
  obtain s1 m where s1: "thread_thaw s p = Some s1" "queue_rep s1 q" "threads s1 p = Some (t\<lparr>t_next := m, t_frozen := t_frozen t - 1\<rparr>)"
    using thaw_ok [OF Suc.prems(1,2) nz(1) Suc.prems(3,4)] nz(2) by auto
  have "unat (t_frozen t - 1) = unat (t_frozen t) - 1" using nz(1) by (simp add: unat_minus_one)
  then have "n < unat (t_frozen (t\<lparr>t_next := m, t_frozen := t_frozen t - 1\<rparr>))" using Suc.prems(5) by simp
  from Suc.IH [OF s1(2,3) Suc.prems(3,4) this] obtain s' k where "repeat_op n (\<lambda>s. thread_thaw s p) s1 = Some s'" "queue_rep s' q"
    "threads s' p = Some (t\<lparr>t_next := m, t_frozen := t_frozen t - 1\<rparr>\<lparr>t_next := k, t_frozen := t_frozen t - 1 - of_nat n\<rparr>)"
    by auto
  then show ?case using s1(1) by (auto simp: algebra_simps)
qed

section \<open>Allocation and messages\<close>

text \<open>The lowest free slot of a process, as \<open>thread_bind\<close> finds it.\<close>

definition free_slot :: "process \<Rightarrow> nat \<Rightarrow> bool" where
  "free_slot pr i \<longleftrightarrow> i < MAX_THREADS \<and> p_thread pr i = 0 \<and> (\<forall>j < i. p_thread pr j \<noteq> 0)"

lemma find_slot: "free_slot pr i \<Longrightarrow> find (\<lambda>i. p_thread pr i = 0) [0..<MAX_THREADS] = Some i"
  unfolding free_slot_def find_Some_iff by (auto intro!: exI [of _ i])

lemma thread_bind_ok:
  assumes "processes s proc = Some pr" and "threads s th = Some t" and "free_slot pr i"
  shows "thread_bind s th proc = Some (SSPACE + SEGSZ * of_nat i,
    s\<lparr>processes := (processes s)(proc \<mapsto> pr\<lparr>p_thread := (p_thread pr)(i := th)\<rparr>),
      threads := (threads s)(th \<mapsto> t\<lparr>t_id := of_nat i, t_stack := SSPACE + SEGSZ * of_nat i, t_proc := proc\<rparr>)\<rparr>)"
  using assms find_slot [OF assms(3)]
  by (simp add: thread_bind_def upd_process_def upd_thread_def free_slot_def Let_def)

lemma bucket_thread: "bucket_for sizeof_thread = 6" "bucket_for sizeof_fxdata = 7"
  by (simp_all add: bucket_for_def upt_16)

lemma thread_alloc_ok:
  assumes R: "heap_rep s F L" and F: "F 6 = p # ps" "F 7 = x # xs"
  shows "\<exists>s'. thread_alloc s = Some (p, s') \<and> (p, 6) \<notin> L \<and> p \<noteq> 0 \<and>
    same_mmu (s\<lparr>threads := (threads s)(p \<mapsto> zero_thread\<lparr>t_fxdata := x\<rparr>), fxdata := (fxdata s)(x \<mapsto> replicate 128 0)\<rparr>) s' \<and>
    heap_rep s' (F(6 := ps, 7 := xs)) (insert (x, 7) (insert (p, 6) L))"
proof -
  have F6: "F (bucket_for sizeof_thread) = p # ps" using F(1) by (simp only: bucket_thread)
  obtain s1 where s1: "heap_alloc s sizeof_thread = Some (p, s1)" "same_mmu s s1" "(p, 6) \<notin> L"
    "heap_rep s1 (F(6 := ps)) (insert (p, 6) L)"
    using heap_alloc_take [OF R _ F6] by (auto simp: bucket_thread)
  define s2 where "s2 = s1\<lparr>threads := (threads s1)(p \<mapsto> zero_thread)\<rparr>"
  have R2: "heap_rep s2 (F(6 := ps)) (insert (p, 6) L)" using s1(4) heap_rep_cong [of s2 s1] by (simp add: s2_def)
  have le: "sizeof_fxdata \<le> 0x20000" by simp
  have F7: "(F(6 := ps)) (bucket_for sizeof_fxdata) = x # xs" using F(2) by (simp add: bucket_thread)
  obtain s3 where s3: "heap_alloc s2 sizeof_fxdata = Some (x, s3)" "same_mmu s2 s3"
    "heap_rep s3 (F(6 := ps, 7 := xs)) (insert (x, 7) (insert (p, 6) L))"
    using heap_alloc_take [OF R2 le F7] unfolding bucket_thread by blast
  have nz: "p \<noteq> 0" using block_nonzero heap_repD(2) [OF s1(4), of "(p, 6)"] by blast
  let ?s = "s3\<lparr>threads := (threads s3)(p \<mapsto> zero_thread\<lparr>t_fxdata := x\<rparr>), fxdata := (fxdata s3)(x \<mapsto> replicate 128 0)\<rparr>"
  have t: "threads s3 p = Some zero_thread" using s3(2) by (auto simp: same_mmu_def s2_def)
  have "thread_alloc s = Some (p, ?s)"
    using s1(1) s3(1) nz t by (simp add: thread_alloc_def Let_def s2_def [symmetric] upd_thread_def)
  moreover have "heap_rep ?s (F(6 := ps, 7 := xs)) (insert (x, 7) (insert (p, 6) L))"
    using s3(3) heap_rep_cong [of ?s s3] by simp
  moreover have "same_mmu (s\<lparr>threads := (threads s)(p \<mapsto> zero_thread\<lparr>t_fxdata := x\<rparr>), fxdata := (fxdata s)(x \<mapsto> replicate 128 0)\<rparr>) ?s"
  proof -
    obtain b a w where a: "s1 = s\<lparr>heap_bucket := b, analysis := a, heap_words := w\<rparr>" using s1(2) by (auto simp: same_mmu_def)
    obtain b' a' w' where c: "s3 = s2\<lparr>heap_bucket := b', analysis := a', heap_words := w'\<rparr>" using s3(2) by (auto simp: same_mmu_def)
    show ?thesis unfolding same_mmu_def
      by (rule exI [of _ b'], rule exI [of _ a'], rule exI [of _ w']) (simp add: a c s2_def)
  qed
  ultimately show ?thesis using s1(3) nz by blast
qed

text \<open>
  What a new message thread looks like. The kernel objects that matter to the scheduler are held heap
  blocks: queued threads are blocks of bucket 6.
\<close>

definition held_threads :: "(ptr \<times> nat) set \<Rightarrow> ptr set" where
  "held_threads L = {p. (p, 6) \<in> L}"

lemma queue_rep_cong:
  assumes "sched_out s' = sched_out s" "sched_in s' = sched_in s" "\<And>p. p \<in> set q \<Longrightarrow> threads s' p = threads s p"
  shows "queue_rep s' q = queue_rep s q"
proof -
  have "chain (nxt s') (sched_out s) q = chain (nxt s) (sched_out s) q" using assms(3) by (intro chain_cong) simp
  then show ?thesis by (simp add: queue_rep_def assms(1,2))
qed

definition msg_thread :: "process \<Rightarrow> ptr \<Rightarrow> nat \<Rightarrow> ptr \<Rightarrow> u32 \<Rightarrow> u32 \<Rightarrow> u8 \<Rightarrow> ptr \<Rightarrow> u32 \<Rightarrow> thread" where
  "msg_thread pt p_targ i fx source count port msg user = zero_thread\<lparr>t_fxdata := fx, t_id := of_nat i,
     t_stack := SSPACE + SEGSZ * of_nat i, t_ds := 0x23, t_cs := 0x1B, t_ss := 0x23, t_eflags := 0,
     t_useresp := SSPACE + SEGSZ * of_nat i + SEGSZ, t_proc := p_targ, t_eip := p_entry pt, t_ebx := 0, t_ecx := count,
     t_edx := ucast port, t_esi := source, t_edi := 0, t_msg := msg, t_user := user\<rparr>"

lemma same_mmu_fields:
  assumes "same_mmu s (s' :: kernel)"
  shows "threads s' = threads s" "processes s' = processes s" "msgs s' = msgs s" "sched_out s' = sched_out s"
    "sched_in s' = sched_in s" "process_table s' = process_table s" "fxdata s' = fxdata s"
  using assms by (auto simp: same_mmu_def)

lemma relinked_fields: "relinked s s' \<Longrightarrow> processes s' = processes s \<and> process_table s' = process_table s \<and> msgs s' = msgs s"
  by (auto simp: relinked_def)

text \<open>The thread that \<open>thread_send\<close> hands to the scheduler, before it is queued.\<close>

lemma thread_send_unfold:
  assumes A: "thread_alloc s = Some (p, s1)" and p: "p \<noteq> 0"
    and s1: "threads s1 = (threads s)(p \<mapsto> zero_thread\<lparr>t_fxdata := x\<rparr>)" "processes s1 = processes s" "msgs s1 = msgs s"
    and T: "process_get s target = p_targ" "p_targ \<noteq> 0" "processes s p_targ = Some pt" "p_entry pt \<noteq> 0" "free_slot pt i"
    and I: "if img = 0 then source = 0 else img \<noteq> p \<and> (\<exists>ip. threads s img = Some im \<and> processes s (t_proc im) = Some ip \<and> p_pid ip = source)"
    and M: "if msg = 0 then count = 0 else \<exists>m. msgs s msg = Some m \<and> m_count m = count"
    and U: "user = (if img = 0 \<or> p_user pt \<noteq> 0 then p_user pt else t_user im)"
  shows "thread_send s img target port msg = do {
    s \<leftarrow> schedule_insert (s1\<lparr>processes := (processes s)(p_targ \<mapsto> pt\<lparr>p_thread := (p_thread pt)(i := p)\<rparr>),
      threads := (threads s)(p \<mapsto> msg_thread pt p_targ i x source count port msg user)\<rparr>) p; Some (p, s) }"
proof -
  let ?pt = "pt\<lparr>p_thread := (p_thread pt)(i := p)\<rparr>"
  note B = thread_bind_ok [of s1 p_targ pt p "zero_thread\<lparr>t_fxdata := x\<rparr>" i]
  show ?thesis
  proof (cases "img = 0")
    case True
    then show ?thesis using A p s1 T M U I B
      by (auto simp: thread_send_def Let_def upd_thread_def msg_thread_def split: if_splits)
  next
    case False
    then obtain ip where ip: "threads s img = Some im" "processes s (t_proc im) = Some ip" "p_pid ip = source" "img \<noteq> p"
      using I by auto
    have "\<exists>q. ((processes s)(p_targ \<mapsto> ?pt)) (t_proc im) = Some q \<and> p_pid q = source" using ip T(3) by auto
    then show ?thesis using A p s1 T M U B False ip
      by (auto simp: thread_send_def Let_def upd_thread_def msg_thread_def split: if_splits)
  qed
qed

lemma thread_send_ok:
  assumes R: "heap_rep s F L" "F 6 = p # ps" "F 7 = x # xs" and Q: "queue_rep s q" "set q \<subseteq> held_threads L"
    and T: "process_get s target = p_targ" "p_targ \<noteq> 0" "processes s p_targ = Some pt" "p_entry pt \<noteq> 0" "free_slot pt i"
    and I: "if img = 0 then source = 0 else img \<in> held_threads L \<and> (\<exists>ip. threads s img = Some im \<and> processes s (t_proc im) = Some ip \<and> p_pid ip = source)"
    and M: "if msg = 0 then count = 0 else \<exists>m. msgs s msg = Some m \<and> m_count m = count"
  shows "\<exists>s' n. thread_send s img target port msg = Some (p, s') \<and> queue_rep s' (q @ [p]) \<and>
    threads s' p = Some ((msg_thread pt p_targ i x source count port msg
      (if img = 0 \<or> p_user pt \<noteq> 0 then p_user pt else t_user im))\<lparr>t_next := n\<rparr>) \<and>
    processes s' = (processes s)(p_targ \<mapsto> pt\<lparr>p_thread := (p_thread pt)(i := p)\<rparr>) \<and> p \<notin> held_threads L"
proof -
  obtain s1 where A: "thread_alloc s = Some (p, s1)" and pL: "(p, 6) \<notin> L" "p \<noteq> 0"
    and mm: "same_mmu (s\<lparr>threads := (threads s)(p \<mapsto> zero_thread\<lparr>t_fxdata := x\<rparr>), fxdata := (fxdata s)(x \<mapsto> replicate 128 0)\<rparr>) s1"
    using thread_alloc_ok [OF R] by blast
  note f = same_mmu_fields [OF mm, simplified]
  define u where "u = (if img = 0 \<or> p_user pt \<noteq> 0 then p_user pt else t_user im)"
  define t where "t = msg_thread pt p_targ i x source count port msg u"
  define s2 where "s2 = s1\<lparr>processes := (processes s)(p_targ \<mapsto> pt\<lparr>p_thread := (p_thread pt)(i := p)\<rparr>),
      threads := (threads s)(p \<mapsto> t)\<rparr>"
  have pq: "p \<notin> set q" using Q(2) pL(1) by (auto simp: held_threads_def)
  have "if img = 0 then source = 0 else img \<noteq> p \<and> (\<exists>ip. threads s img = Some im \<and> processes s (t_proc im) = Some ip \<and> p_pid ip = source)"
    using I pL(1) by (auto simp: held_threads_def split: if_splits)
  note E = thread_send_unfold [OF A pL(2) f(1-3) T this M u_def, of port, folded t_def, folded s2_def]
  have "threads s2 a = threads s a" if "a \<in> set q" for a using that pq by (auto simp: s2_def)
  then have "queue_rep s2 q" using Q(1) queue_rep_cong [of s2 s q] f(4,5) by (simp add: s2_def)
  then obtain s3 where s3: "schedule_insert s2 p = Some s3" "queue_rep s3 (q @ [p])" "relinked s2 s3"
    using queue_insert [of s2 q p] pq pL(2) by (auto simp: s2_def)
  obtain n where n: "threads s3 p = Some (t\<lparr>t_next := n\<rparr>)" using relinked_thread [OF s3(3), of p t] by (auto simp: s2_def)
  have "processes s3 = (processes s)(p_targ \<mapsto> pt\<lparr>p_thread := (p_thread pt)(i := p)\<rparr>)"
    using relinked_fields [OF s3(3)] by (simp add: s2_def)
  then show ?thesis using s3 n E pL(1) unfolding u_def [symmetric] t_def [symmetric] by (auto simp: held_threads_def)
qed

lemma chain_trunc: "chain nx p (us @ a # vs) \<Longrightarrow> chain (nx(a := Some 0)) p (us @ [a])"
proof (induction us arbitrary: p)
  case (Cons u us)
  then have "u \<noteq> a" using chain_distinct [OF Cons.prems] by auto
  then show ?case using Cons by auto
qed auto

section \<open>A kernel with two threads and a message handler\<close>

text \<open>
  Process 1 owns the queued threads \<open>0xF1000100\<close> and \<open>0xF1000200\<close>; process 2 has an entry point and no
  thread. The heap has one free block of each of the two sizes that a new thread needs.
\<close>

definition ipc_kernel :: kernel where
  "ipc_kernel = base_kernel\<lparr>heap_bucket := (\<lambda>_. 0)(6 := 0xF1000000, 7 := 0xF1001000), heap_brk := 0xF1010000,
     threads := [0xF1000100 \<mapsto> zero_thread\<lparr>t_proc := 0xF1002000, t_next := 0xF1000200, t_user := 7, t_fxdata := 0xF1001200\<rparr>,
                 0xF1000200 \<mapsto> zero_thread\<lparr>t_proc := 0xF1002800, t_fxdata := 0xF1001400\<rparr>],
     sched_out := 0xF1000100, sched_in := 0xF1000200,
     fxdata := [0xF1001200 \<mapsto> [], 0xF1001400 \<mapsto> [2]], fpu_state := [1], can_use_fpu := True, cr3 := 0x100000,
     processes := [0xF1002000 \<mapsto> zero_process\<lparr>p_pid := 1, p_space := 0x100000\<rparr>,
                   0xF1002800 \<mapsto> zero_process\<lparr>p_pid := 2, p_entry := 0x1000, p_space := 0x200000\<rparr>],
     process_table := (\<lambda>_. 0)(1 := 0xF1002000, 2 := 0xF1002800)\<rparr>"

lemma ipc_kernel_ok:
  "heap_rep ipc_kernel ((\<lambda>_. [])(6 := [0xF1000000], 7 := [0xF1001000])) {(0xF1000100, 6), (0xF1000200, 6)}"
  "queue_rep ipc_kernel [0xF1000100, 0xF1000200]"
proof -
  have fb: "free_blocks ((\<lambda>_. [])(6 := [0xF1000000], 7 := [0xF1001000])) = {(0xF1000000, 6), (0xF1001000, 7)}"
    by (auto simp: free_blocks_def split: if_splits)
  show "heap_rep ipc_kernel ((\<lambda>_. [])(6 := [0xF1000000], 7 := [0xF1001000])) {(0xF1000100, 6), (0xF1000200, 6)}"
    unfolding heap_rep_def fb
    by (auto simp: ipc_kernel_def base_kernel_def heap_state.extend_def fresh_heap_def mmu_state.extend_def
      block_ok_def blk_def pairwise_def)
  show "queue_rep ipc_kernel [0xF1000100, 0xF1000200]"
    by (simp add: queue_rep_def ipc_kernel_def zero_thread_def)
qed

lemma ipc_kernel_simps:
  "threads ipc_kernel 0xF1000100 = Some (zero_thread\<lparr>t_proc := 0xF1002000, t_next := 0xF1000200, t_user := 7, t_fxdata := 0xF1001200\<rparr>)"
  "threads ipc_kernel 0xF1000200 = Some (zero_thread\<lparr>t_proc := 0xF1002800, t_fxdata := 0xF1001400\<rparr>)"
  "processes ipc_kernel 0xF1002000 = Some (zero_process\<lparr>p_pid := 1, p_space := 0x100000\<rparr>)"
  "processes ipc_kernel 0xF1002800 = Some (zero_process\<lparr>p_pid := 2, p_entry := 0x1000, p_space := 0x200000\<rparr>)"
  "fxdata ipc_kernel 0xF1001200 = Some []" "fxdata ipc_kernel 0xF1001400 = Some [2]" "can_use_fpu ipc_kernel"
  "fpu_state ipc_kernel = [1]" "cr3 ipc_kernel = 0x100000" "process_get ipc_kernel 2 = 0xF1002800"
  by (simp_all add: ipc_kernel_def process_get_def)

section \<open>Properties\<close>

text \<open>
  C6. Sending a message: to a process with an entry point and a free slot, \<open>thread_send\<close> returns a new
  thread, on the first free block of a thread's size (no block that any held object occupies), with the
  user segment selectors, the entry point as program counter, a stack segment of its own in the lowest
  free slot, the port, source and packet of the message, and the target's user id or, where that is
  zero, the sender's; the thread is queued last and enters the process's table, and nothing else in any
  process changes.
\<close>

theorem thread_send_delivers:
  assumes R: "heap_rep s F L" "F 6 = p # ps" "F 7 = x # xs" and Q: "queue_rep s q" "set q \<subseteq> held_threads L"
    and T: "process_get s target = p_targ" "p_targ \<noteq> 0" "processes s p_targ = Some pt" "p_entry pt \<noteq> 0" "free_slot pt i"
    and I: "img \<in> held_threads L" "img \<noteq> 0" "threads s img = Some im" "processes s (t_proc im) = Some ip"
    and M: "if msg = 0 then count = 0 else \<exists>m. msgs s msg = Some m \<and> m_count m = count"
  shows "\<exists>s' n. thread_send s img target port msg = Some (p, s') \<and> p \<notin> held_threads L \<and> queue_rep s' (q @ [p]) \<and>
    threads s' p = Some ((msg_thread pt p_targ i x (p_pid ip) count port msg
      (if p_user pt \<noteq> 0 then p_user pt else t_user im))\<lparr>t_next := n\<rparr>) \<and>
    processes s' = (processes s)(p_targ \<mapsto> pt\<lparr>p_thread := (p_thread pt)(i := p)\<rparr>)"
proof -
  have "if img = 0 then p_pid ip = 0
    else img \<in> held_threads L \<and> (\<exists>ip'. threads s img = Some im \<and> processes s (t_proc im) = Some ip' \<and> p_pid ip' = p_pid ip)"
    using I by simp
  from thread_send_ok [OF R Q T this M, of port] show ?thesis using I(2) by (simp only: simp_thms) blast
qed

theorem thread_send_delivers_witness:
  "\<exists>s' n. thread_send ipc_kernel 0xF1000100 2 10 0 = Some (0xF1000000, s') \<and>
    queue_rep s' [0xF1000100, 0xF1000200, 0xF1000000] \<and> threads s' 0xF1000000 =
      Some ((msg_thread (zero_process\<lparr>p_pid := 2, p_entry := 0x1000, p_space := 0x200000\<rparr>) 0xF1002800 0 0xF1001000 1 0 10 0 7)\<lparr>t_next := n\<rparr>)"
proof -
  let ?pt = "zero_process\<lparr>p_pid := 2, p_entry := 0x1000, p_space := 0x200000\<rparr>"
  have h: "set [0xF1000100, 0xF1000200] \<subseteq> held_threads {(0xF1000100, 6), (0xF1000200, 6)}" by (simp add: held_threads_def)
  have f: "p_entry ?pt \<noteq> 0" "free_slot ?pt 0" "p_user ?pt = 0" "(0xF1002800 :: ptr) \<noteq> 0"
    by (simp_all add: free_slot_def zero_process_def)
  have m: "if (0 :: ptr) = 0 then (0 :: u32) = 0 else \<exists>m. msgs ipc_kernel 0 = Some m \<and> m_count m = 0" by simp
  show ?thesis using f(3)
    thread_send_delivers [OF ipc_kernel_ok(1) _ _ ipc_kernel_ok(2) h ipc_kernel_simps(10) f(4) ipc_kernel_simps(4) f(1,2) _ _
      ipc_kernel_simps(1) _ m, of "0xF1000000" "[]" "0xF1001000" "[]" "zero_process\<lparr>p_pid := 1, p_space := 0x100000\<rparr>" 10]
    unfolding held_threads_def by (auto simp: ipc_kernel_simps zero_thread_def zero_process_def)
qed

text \<open>
  A message to no process, or to a process without an entry point, is not delivered: \<open>thread_send\<close>
  returns the sending thread and changes nothing.
\<close>

theorem thread_send_rejected:
  assumes "process_get s target = 0 \<or> (\<exists>pt. processes s (process_get s target) = Some pt \<and> p_entry pt = 0)"
  shows "thread_send s img target port msg = Some (img, s)"
  using assms by (auto simp: thread_send_def Let_def)

theorem thread_send_rejected_witness:
  "thread_send ipc_kernel 0xF1000100 1 10 0 = Some (0xF1000100, ipc_kernel)"
  by (rule thread_send_rejected) (simp add: process_get_def ipc_kernel_def zero_process_def)

text \<open>
  Freezing nests: after \<open>n + 1\<close> freezes of a queued thread it is out of the queue (the others keep
  their order), \<open>n\<close> thaws leave it out, and the last one queues it again, at the end and unfrozen.
\<close>

theorem freeze_thaw_nesting:
  assumes "queue_rep s q" and "threads s p = Some t" and "t_frozen t = 0" and "p \<in> set q" and "q \<noteq> [p]" and "n + 1 < 2 ^ 32"
  shows "\<exists>s1 s2 s3 m. repeat_op (Suc n) (\<lambda>s. thread_freeze s p) s = Some s1 \<and> queue_rep s1 (remove1 p q) \<and>
    repeat_op n (\<lambda>s. thread_thaw s p) s1 = Some s2 \<and> queue_rep s2 (remove1 p q) \<and>
    thread_thaw s2 p = Some s3 \<and> queue_rep s3 (remove1 p q @ [p]) \<and> threads s3 p = Some (t\<lparr>t_next := m\<rparr>)"
proof -
  have p: "p \<notin> set (remove1 p q)" "p \<noteq> 0" using assms(1,4) by (auto simp: queue_rep_def dest: chain_nonzero chain_distinct)
  obtain s0 a where s0: "thread_freeze s p = Some s0" "queue_rep s0 (remove1 p q)" "threads s0 p = Some (t\<lparr>t_next := a, t_frozen := 1\<rparr>)"
    using freeze_ok [OF assms(1,2)] assms(3-5) by auto
  obtain s1 b where s1: "repeat_op n (\<lambda>s. thread_freeze s p) s0 = Some s1" "queue_rep s1 (remove1 p q)"
    "threads s1 p = Some (t\<lparr>t_next := b, t_frozen := 1 + of_nat n\<rparr>)"
    using freezes_ok [OF s0(2,3) p(1), of n] assms(6) by auto
  have u: "unat (1 + of_nat n :: u32) = Suc n" using assms(6) by (simp add: unat_word_ariths unat_of_nat)
  obtain s2 c where s2: "repeat_op n (\<lambda>s. thread_thaw s p) s1 = Some s2" "queue_rep s2 (remove1 p q)"
    "threads s2 p = Some (t\<lparr>t_next := c, t_frozen := 1\<rparr>)"
    using thaws_ok [OF s1(2,3) p, of n] u by auto
  obtain s3 d where s3: "thread_thaw s2 p = Some s3" "queue_rep s3 (remove1 p q @ [p])" "threads s3 p = Some (t\<lparr>t_next := d, t_frozen := 0\<rparr>)"
    using thaw_ok [OF s2(2,3) _ p] by auto
  have "t\<lparr>t_next := d, t_frozen := 0\<rparr> = t\<lparr>t_next := d\<rparr>" using assms(3) by (cases t) simp
  then show ?thesis using s0 s1 s2 s3 by auto
qed

theorem freeze_thaw_nesting_witness:
  "\<exists>s1 s2 s3. repeat_op (Suc 2) (\<lambda>s. thread_freeze s 0x1000) two_threads = Some s1 \<and> queue_rep s1 [0x2000] \<and>
    repeat_op 2 (\<lambda>s. thread_thaw s 0x1000) s1 = Some s2 \<and> thread_thaw s2 0x1000 = Some s3 \<and> queue_rep s3 [0x2000, 0x1000]"
proof -
  have "threads two_threads 0x1000 = Some (zero_thread\<lparr>t_next := 0x2000\<rparr>)" "t_frozen (zero_thread\<lparr>t_next := 0x2000\<rparr>) = 0"
    by (simp_all add: two_threads_def zero_thread_def)
  from freeze_thaw_nesting [OF two_threads_rep(1) this, of 2] show ?thesis by auto
qed

text \<open>
  Thawing a thread that is queued and not frozen drops threads from the scheduler: every thread
  after it leaves the queue, although none of them was frozen or freed.
\<close>

theorem thaw_queued_drops:
  assumes "queue_rep s (us @ p # vs)" and "vs \<noteq> []" and "threads s p = Some t" and "t_frozen t = 0"
  shows "\<exists>s'. thread_thaw s p = Some s' \<and> queue_rep s' (us @ [p])"
proof -
  have c: "chain (nxt s) (sched_out s) (us @ p # vs)" "sched_in s = last vs" using assms(1,2) by (auto simp: queue_rep_def)
  have l: "last vs \<noteq> 0" "last vs \<noteq> p" "last vs \<notin> set us"
    using chain_nonzero [OF c(1)] chain_distinct [OF c(1)] last_in_set [OF assms(2)] by auto
  have o: "sched_out s \<noteq> 0" using c(1) by (cases us) auto
  obtain u where u: "threads s (last vs) = Some u" using chain_last [OF c(1)] assms(2) by auto
  let ?s = "s\<lparr>threads := (threads s)(last vs \<mapsto> u\<lparr>t_next := p\<rparr>, p \<mapsto> t\<lparr>t_next := 0\<rparr>), sched_in := p\<rparr>"
  have "thread_thaw s p = Some ?s"
    using assms(3,4) c(2) l u o by (simp add: thread_thaw_def schedule_insert_def upd_thread_def)
  moreover have "chain (nxt ?s) (sched_out s) (us @ [p])"
    using chain_trunc [OF c(1)] l(2,3) by (auto intro!: chain_cong [THEN iffD1, rotated, OF chain_trunc [OF c(1)]])
  ultimately show ?thesis by (auto simp: queue_rep_def)
qed

theorem thaw_queued_drops_witness:
  "\<exists>s'. thread_thaw two_threads 0x1000 = Some s' \<and> queue_rep s' [0x1000]"
  using thaw_queued_drops [of two_threads "[]" "0x1000" "[0x2000]"] two_threads_rep(1)
  by (simp add: two_threads_def zero_thread_def)

text \<open>
  Binding a thread: \<open>thread_bind\<close> returns the segment of the lowest free slot, inside the stack
  region, records thread and slot in each other and touches no other slot; only when all 256 slots are
  taken it returns 0 and gives the thread the number 256 and no stack.
\<close>

theorem thread_bind_slot:
  assumes "processes s proc = Some pr" and "threads s th = Some t"
  shows "\<exists>a s' pr' t'. thread_bind s th proc = Some (a, s') \<and> processes s' = (processes s)(proc \<mapsto> pr') \<and>
    threads s' = (threads s)(th \<mapsto> t') \<and> t_stack t' = a \<and> t_proc t' = proc \<and>
    (if \<forall>i < 256. p_thread pr i \<noteq> 0 then a = 0 \<and> t_id t' = 256 \<and> pr' = pr
     else \<exists>i < 256. p_thread pr i = 0 \<and> (\<forall>j < i. p_thread pr j \<noteq> 0) \<and> t_id t' = of_nat i \<and>
       pr' = pr\<lparr>p_thread := (p_thread pr)(i := th)\<rparr> \<and> a = SSPACE + SEGSZ * of_nat i \<and> SSPACE \<le> a \<and> a \<le> ESPACE - SEGSZ)"
proof (cases "\<forall>i < 256. p_thread pr i \<noteq> 0")
  case True
  then have "find (\<lambda>i. p_thread pr i = 0) [0..<MAX_THREADS] = None" by (simp add: find_None_iff)
  then have "thread_bind s th proc = Some (0, s\<lparr>threads := (threads s)(th \<mapsto> t\<lparr>t_id := 256, t_stack := 0, t_proc := proc\<rparr>)\<rparr>)"
    using assms by (simp add: thread_bind_def upd_thread_def)
  moreover have "processes s = (processes s)(proc \<mapsto> pr)" using assms(1) by (simp add: fun_upd_idem)
  ultimately show ?thesis using True by force
next
  case False
  then obtain i where i: "free_slot pr i" using exists_least_iff [of "\<lambda>i. i < 256 \<and> p_thread pr i = 0"]
    unfolding free_slot_def by (metis (no_types, lifting) less_trans)
  let ?a = "SSPACE + SEGSZ * of_nat i :: u32" and ?pr = "pr\<lparr>p_thread := (p_thread pr)(i := th)\<rparr>"
  let ?t = "t\<lparr>t_id := of_nat i, t_stack := ?a, t_proc := proc\<rparr>"
  from i have "of_nat i \<le> (255 :: u32)" by (simp add: free_slot_def word_le_nat_alt unat_of_nat)
  moreover have "j \<le> 255 \<Longrightarrow> SSPACE \<le> SSPACE + SEGSZ * j \<and> SSPACE + SEGSZ * j \<le> ESPACE - SEGSZ" for j :: u32
    by (simp add: word_le_nat_alt unat_word_ariths)
  ultimately have "SSPACE \<le> SSPACE + SEGSZ * of_nat i" "SSPACE + SEGSZ * of_nat i \<le> (ESPACE - SEGSZ :: u32)" by blast+
  moreover have "i < 256" "p_thread pr i = 0" "\<forall>j < i. p_thread pr j \<noteq> 0" using i by (auto simp: free_slot_def)
  ultimately have P: "\<exists>j < 256. p_thread pr j = 0 \<and> (\<forall>k < j. p_thread pr k \<noteq> 0) \<and> t_id ?t = of_nat j \<and>
       ?pr = pr\<lparr>p_thread := (p_thread pr)(j := th)\<rparr> \<and> ?a = SSPACE + SEGSZ * of_nat j \<and> SSPACE \<le> ?a \<and> ?a \<le> ESPACE - SEGSZ"
    by (intro exI [of _ i]) simp
  let ?s = "s\<lparr>processes := (processes s)(proc \<mapsto> ?pr), threads := (threads s)(th \<mapsto> ?t)\<rparr>"
  have "thread_bind s th proc = Some (?a, ?s) \<and> processes ?s = (processes s)(proc \<mapsto> ?pr) \<and>
      threads ?s = (threads s)(th \<mapsto> ?t) \<and> t_stack ?t = ?a \<and> t_proc ?t = proc"
    using thread_bind_ok [OF assms i] by simp
  then show ?thesis unfolding if_not_P [OF False] using P by blast
qed

theorem thread_bind_slot_witness:
  "\<exists>a s'. thread_bind ipc_kernel 0xF1000100 0xF1002000 = Some (a, s') \<and> SSPACE \<le> a"
proof -
  have "\<not> (\<forall>i < 256. p_thread (zero_process\<lparr>p_pid := 1, p_space := 0x100000\<rparr>) i \<noteq> 0)"
    by (auto simp: zero_process_def intro!: exI [of _ 0])
  then show ?thesis using thread_bind_slot [OF ipc_kernel_simps(3,1)] by (simp only: if_False) blast
qed

text \<open>
  Switching between two threads keeps each one's floating point state: when thread \<open>a\<close> is switched
  out for \<open>b\<close>, \<open>b\<close> leaves any state \<open>y\<close> in the unit, and \<open>a\<close> is switched in again, the unit holds what
  \<open>a\<close> left there, \<open>y\<close> is saved for \<open>b\<close>, and the address space and interrupt stack are \<open>a\<close>'s.
\<close>

theorem thread_switch_fpu:
  assumes "threads s a = Some ta" "threads s b = Some tb" "a \<noteq> 0" "b \<noteq> 0" "a \<noteq> b"
    and "processes s (t_proc ta) = Some pa" "processes s (t_proc tb) = Some pb" "cr3 s = p_space pa"
    and "t_fxdata ta \<noteq> 0" "t_fxdata tb \<noteq> 0" "t_fxdata ta \<noteq> t_fxdata tb" "fxdata s (t_fxdata tb) = Some z"
    and "can_use_fpu s" "t_vm86_active ta = 0"
  shows "\<exists>s1 s2. thread_switch s a b = Some (b, s1) \<and> fpu_state s1 = z \<and> cr3 s1 = p_space pb \<and>
    thread_switch (s1\<lparr>fpu_state := y\<rparr>) b a = Some (a, s2) \<and> fpu_state s2 = fpu_state s \<and>
    fxdata s2 (t_fxdata tb) = Some y \<and> cr3 s2 = p_space pa \<and> tss_esp0 (tss s2) = a + 64"
  using assms by (auto simp: thread_switch_def fpu_save_def fpu_load_def process_switch_def Let_def)

theorem thread_switch_fpu_witness:
  "\<exists>s1 s2. thread_switch ipc_kernel 0xF1000100 0xF1000200 = Some (0xF1000200, s1) \<and> fpu_state s1 = [2] \<and>
    thread_switch (s1\<lparr>fpu_state := [3]\<rparr>) 0xF1000200 0xF1000100 = Some (0xF1000100, s2) \<and> fpu_state s2 = [1] \<and> cr3 s2 = 0x100000"
  using thread_switch_fpu [OF ipc_kernel_simps(1,2), of "zero_process\<lparr>p_pid := 1, p_space := 0x100000\<rparr>"
      "zero_process\<lparr>p_pid := 2, p_entry := 0x1000, p_space := 0x200000\<rparr>" "[2]" "[3]"]
  by (auto simp: ipc_kernel_simps zero_thread_def zero_process_def)

end
