(* ===== verification/Interrupts.thy ===== *)
theory Interrupts
  imports Threads
begin

text \<open>
  Interrupt registration and the interrupt controller: the handler table and the interrupt descriptor
  table of \<open>kernel/int/int_handler.c\<close>, \<open>kernel/irq/irq.c\<close> and \<open>kernel/irq/timer.c\<close>. Port writes are
  appended to a log, oldest first. The dispatcher \<open>int_handler\<close> itself is in the theory \<open>Dispatch\<close>,
  after the handlers it calls.
\<close>

section \<open>Handlers and descriptors\<close>

definition idt_set :: "kernel \<Rightarrow> nat \<Rightarrow> u32 \<Rightarrow> u16 \<Rightarrow> u8 \<Rightarrow> kernel" where
  "idt_set s n base seg flags = (if base = 0 then s
     else s\<lparr>idt := (idt s)(n \<mapsto> \<lparr>idt_base_l = ucast (base AND 0xFFFF), idt_seg = seg, idt_reserved = 0,
       idt_flags = flags, idt_base_h = ucast (drop_bit 16 base)\<rparr>)\<rparr>)"

definition init_int_handler :: "kernel \<Rightarrow> kernel" where
  "init_int_handler s = (
     let s = fold (\<lambda>i s. if idt_raw s i \<noteq> 0 then idt_set s i (idt_raw s i) 0x08 0x8E else s) [0..<64] s in
     fold (\<lambda>i s. if idt_raw s i \<noteq> 0 then idt_set s i (idt_raw s i) 0x08 0xEE else s) [64..<256] s)"

definition int_set_handler :: "kernel \<Rightarrow> u8 \<Rightarrow> handler \<Rightarrow> kernel" where
  "int_set_handler s n h = (let s = (if \<not> int_ready s then (init_int_handler s)\<lparr>int_ready := True\<rparr> else s) in
     s\<lparr>int_handlers := (int_handlers s)(n \<mapsto> h)\<rparr>)"

section \<open>The interrupt controller\<close>

abbreviation (input) IRQ_INT_BASE :: u32 where "IRQ_INT_BASE \<equiv> 32"
abbreviation (input) IRQ_INT_SIZE :: u32 where "IRQ_INT_SIZE \<equiv> 16"
abbreviation (input) IRQ_NULL :: u8 where "IRQ_NULL \<equiv> 0xFF"

definition IRQ2INT :: "u8 \<Rightarrow> u8" where "IRQ2INT n = n + 32"
definition INT2IRQ :: "u32 \<Rightarrow> u32" where "INT2IRQ n = n - IRQ_INT_BASE"
definition ISIRQ :: "u32 \<Rightarrow> bool" where "ISIRQ n \<longleftrightarrow> n \<ge> IRQ_INT_BASE \<and> n < IRQ_INT_BASE + IRQ_INT_SIZE"

definition pic_sync_mask :: "kernel \<Rightarrow> kernel" where
  "pic_sync_mask s = fold (\<lambda>(p, v) s. outb s p v)
     [(0x20, 0x11), (0xA0, 0x11), (0x21, 0x20), (0xA1, 0x28), (0x21, 0x04), (0xA1, 0x02), (0x21, 0x01), (0xA1, 0x01),
      (0x21, ucast (pic_master_mask s)), (0xA1, ucast (pic_slave_mask s))] s"

definition irq_allow :: "kernel \<Rightarrow> u8 \<Rightarrow> u32 \<times> kernel" where
  "irq_allow s irq =
     (if irq > 16 then (1, s)
      else if irq < 8 then
        (0, pic_sync_mask (s\<lparr>pic_master_mask := pic_master_mask s AND NOT (push_bit (unat irq) 1)\<rparr>))
      else let irq = irq - 8 in
        (0, pic_sync_mask (s\<lparr>pic_slave_mask := pic_slave_mask s AND NOT (push_bit (unat irq) 1)\<rparr>)))"

definition irq_disallow :: "kernel \<Rightarrow> u8 \<Rightarrow> u32 \<times> kernel" where
  "irq_disallow s irq =
     (if irq > 16 then (1, s)
      else if irq < 8 then
        (0, pic_sync_mask (s\<lparr>pic_master_mask := pic_master_mask s OR push_bit (unat irq) 1\<rparr>))
      else let irq = irq - 8 in
        (0, pic_sync_mask (s\<lparr>pic_slave_mask := pic_slave_mask s OR push_bit (unat irq) 1\<rparr>)))"

definition irq_reset :: "kernel \<Rightarrow> u8 \<Rightarrow> u32 \<times> kernel" where
  "irq_reset s irq =
     (if ucast irq > IRQ_INT_SIZE then (1, s)
      else let s = (if irq > 8 then outb s 0xA0 0x20 else s) in (0, outb s 0x20 0x20))"

definition irq_redirect :: "kernel \<Rightarrow> ptr \<Rightarrow> (ptr \<times> kernel) option" where
  "irq_redirect s img = do {
     t \<leftarrow> threads s img;
     let i = INT2IRQ (t_num t);
     if i < 256 then thread_send s 0 (irq_holder s (ucast i)) 8 0 else None
   }"

definition irq_set_redirect :: "kernel \<Rightarrow> u32 \<Rightarrow> u8 \<Rightarrow> kernel" where
  "irq_set_redirect s pid irq = (
     let s = s\<lparr>irq_holder := (irq_holder s)(irq := pid)\<rparr>;
         s = int_set_handler s (IRQ2INT irq) IRQ_REDIRECT in
     snd (irq_allow s irq))"

definition irq_get_redirect :: "kernel \<Rightarrow> u8 \<Rightarrow> u32" where
  "irq_get_redirect s irq = irq_holder s irq"

section \<open>The timer\<close>

definition timer_set_tick :: "kernel \<Rightarrow> u64 \<Rightarrow> kernel" where
  "timer_set_tick s v = s\<lparr>tick := v\<rparr>"

definition timer_get_tick :: "kernel \<Rightarrow> u64" where
  "timer_get_tick s = tick s"

definition timer_handler :: "kernel \<Rightarrow> ptr \<Rightarrow> (ptr \<times> kernel) option" where
  "timer_handler s img = do {
     let s = s\<lparr>tick := tick s + 1\<rparr>;
     t \<leftarrow> threads s img;
     s \<leftarrow> upd_thread s img (t_tick_update (\<lambda>n. n + 1));
     s \<leftarrow> upd_process s (t_proc t) (p_tick_update (\<lambda>n. n + 1));
     schedule_next s
   }"

text \<open>Division by zero faults in the kernel.\<close>

definition timer_set_freq :: "kernel \<Rightarrow> u32 \<Rightarrow> (u32 \<times> kernel) option" where
  "timer_set_freq s hertz =
     (if hertz = 0 then None
      else let divider = 1193180 div hertz in
        if divider = 0 \<or> divider \<ge> 65536 then Some (1, s)
        else let s = outb s 0x43 0x36;
                 s = outb s 0x40 (ucast (ucast (divider AND 0xFF) :: u8));
                 s = outb s 0x40 (ucast (ucast (drop_bit 8 divider) :: u8));
                 s = snd (irq_allow s 0);
                 s = int_set_handler s (IRQ2INT 0) TIMER_HANDLER in
             Some (0, s))"

section \<open>Lemmas\<close>

text \<open>The descriptor that \<open>init_int_handler\<close> builds for a stub.\<close>

definition gate :: "nat \<Rightarrow> u32 \<Rightarrow> idt" where
  "gate n base = \<lparr>idt_base_l = ucast (base AND 0xFFFF), idt_seg = 0x08, idt_reserved = 0,
     idt_flags = (if n < 64 then 0x8E else 0xEE), idt_base_h = ucast (drop_bit 16 base)\<rparr>"

lemma idt_set_more [simp]:
  "idt_raw (idt_set s n b g f) = idt_raw s" "int_ready (idt_set s n b g f) = int_ready s"
  "int_handlers (idt_set s n b g f) = int_handlers s"
  by (simp_all add: idt_set_def)

lemma idt_fold:
  assumes "distinct ns"
  shows "idt (fold (\<lambda>i s. if idt_raw s i \<noteq> 0 then idt_set s i (idt_raw s i) 8 f else s) ns s) n =
    (if n \<in> set ns \<and> idt_raw s n \<noteq> 0 then Some \<lparr>idt_base_l = ucast (idt_raw s n AND 0xFFFF), idt_seg = 8, idt_reserved = 0,
      idt_flags = f, idt_base_h = ucast (drop_bit 16 (idt_raw s n))\<rparr> else idt s n)"
    and "idt_raw (fold (\<lambda>i s. if idt_raw s i \<noteq> 0 then idt_set s i (idt_raw s i) 8 f else s) ns s) = idt_raw s"
    and "int_handlers (fold (\<lambda>i s. if idt_raw s i \<noteq> 0 then idt_set s i (idt_raw s i) 8 f else s) ns s) = int_handlers s"
  using assms
proof (induction ns arbitrary: s)
  case (Cons m ns)
  case 1
  then show ?case using Cons(1) by (auto simp: idt_set_def)
next
  case (Cons m ns)
  case 2
  then show ?case using Cons(2) by (auto simp: idt_set_def)
next
  case (Cons m ns)
  case 3
  then show ?case using Cons(3) by (auto simp: idt_set_def)
qed auto

lemma fold_field:
  "(\<And>i s. g (f i s) = g s) \<Longrightarrow> g (fold f xs s) = g s"
  by (induction xs arbitrary: s) auto

lemma int_set_handler_more [simp]:
  "irq_holder (int_set_handler s n h) = irq_holder s" "threads (int_set_handler s n h) = threads s"
  unfolding int_set_handler_def init_int_handler_def idt_set_def Let_def
  by (auto simp: fold_field simp del: upt_rec_numeral)

lemma init_int_handler_idt:
  assumes "n < 256"
  shows "idt (init_int_handler s) n = (if idt_raw s n \<noteq> 0 then Some (gate n (idt_raw s n)) else idt s n)"
    "int_handlers (init_int_handler s) = int_handlers s"
  using assms by (auto simp: init_int_handler_def Let_def idt_fold gate_def simp del: upt_rec_numeral)

lemma int_set_handler_handlers: "int_handlers (int_set_handler s n h) = (int_handlers s)(n \<mapsto> h)"
  using init_int_handler_idt(2) [of 0 s] by (simp add: int_set_handler_def Let_def)

lemma and_mask_255: "(x :: u32) AND 0xFF = take_bit 8 x"
  by (simp add: take_bit_eq_mask mask_eq_exp_minus_1)

text \<open>The sixteen interrupt lines as one mask, the slave's lines above the master's.\<close>

definition irq_masked :: "kernel \<Rightarrow> u8 \<Rightarrow> bool" where
  "irq_masked s irq \<longleftrightarrow> (if irq < 8 then bit (pic_master_mask s) (unat irq) else bit (pic_slave_mask s) (unat (irq - 8)))"

lemma pic_sync_more [simp]:
  "pic_master_mask (pic_sync_mask s) = pic_master_mask s" "pic_slave_mask (pic_sync_mask s) = pic_slave_mask s"
  "irq_holder (pic_sync_mask s) = irq_holder s" "int_handlers (pic_sync_mask s) = int_handlers s"
  "threads (pic_sync_mask s) = threads s"
  by (simp_all add: pic_sync_mask_def outb_def)

lemma small_irq:
  assumes "j < (8 :: u8)"
  shows "unat j < 8"
  using assms by (simp add: word_less_nat_alt)

lemma irq_bit:
  assumes "i < (8 :: u8)" "j < 8"
  shows "bit (m AND NOT (push_bit (unat i) 1) :: u8) (unat j) \<longleftrightarrow> bit m (unat j) \<and> j \<noteq> i"
    "bit (m OR push_bit (unat i) 1 :: u8) (unat j) \<longleftrightarrow> bit m (unat j) \<or> j = i"
  using small_irq [OF assms(1)] small_irq [OF assms(2)]
  by (auto simp: bit_simps word_unat_eq_iff)

lemma irq_high:
  assumes "8 \<le> (i :: u8)" "i < 16"
  shows "i - 8 < 8" "8 \<le> j \<Longrightarrow> j < 16 \<Longrightarrow> (i - 8 = j - 8) = (i = j)"
  using assms by (auto simp: word_less_nat_alt word_le_nat_alt unat_sub_if')

lemma allow_masked: "i < 16 \<Longrightarrow> j < 16 \<Longrightarrow> irq_masked (snd (irq_allow s i)) j \<longleftrightarrow> irq_masked s j \<and> j \<noteq> i"
  and disallow_masked: "i < 16 \<Longrightarrow> j < 16 \<Longrightarrow> irq_masked (snd (irq_disallow s i)) j \<longleftrightarrow> irq_masked s j \<or> j = i"
  using irq_high(1) [of i] irq_high(1) [of j] irq_high(2) [of i j]
  by (auto simp: irq_masked_def irq_allow_def irq_disallow_def Let_def irq_bit [unfolded push_bit_of_1] not_less)

lemma irq_allow_handlers [simp]: "int_handlers (snd (irq_allow s i)) = int_handlers s" "irq_holder (snd (irq_allow s i)) = irq_holder s"
    "threads (snd (irq_allow s i)) = threads s"
  by (simp_all add: irq_allow_def Let_def)

section \<open>Properties\<close>

text \<open>
  C7. The interrupt gates: the first registration of a handler fills the descriptor table, so that every
  vector with an assembly stub points to that stub in the kernel's code segment, gates of faults and
  hardware interrupts (below 64) cannot be called from user mode and gates of system calls can, and
  vectors without a stub are left alone; the handler table changes at the registered vector only.
\<close>

theorem int_gates:
  assumes "\<not> int_ready s" and "n < 256"
  shows "int_handlers (int_set_handler s v h) = (int_handlers s)(v \<mapsto> h) \<and>
    idt (int_set_handler s v h) n = (if idt_raw s n \<noteq> 0 then Some (gate n (idt_raw s n)) else idt s n) \<and>
    idt_flags (gate n b) AND 0x60 = (if n < 64 then 0 else 0x60) \<and>
    push_bit 16 (ucast (idt_base_h (gate n b))) OR ucast (idt_base_l (gate n b)) = b"
proof (intro conjI)
  show "int_handlers (int_set_handler s v h) = (int_handlers s)(v \<mapsto> h)" by (rule int_set_handler_handlers)
  show "idt (int_set_handler s v h) n = (if idt_raw s n \<noteq> 0 then Some (gate n (idt_raw s n)) else idt s n)"
    using assms init_int_handler_idt(1) [OF assms(2)] by (simp add: int_set_handler_def Let_def)
  show "idt_flags (gate n b) AND 0x60 = (if n < 64 then 0 else 0x60)" by (simp add: gate_def)
  have "b AND 0xFFFF = take_bit 16 b" by (simp add: take_bit_eq_mask mask_eq_exp_minus_1)
  then show "push_bit 16 (ucast (idt_base_h (gate n b))) OR ucast (idt_base_l (gate n b)) = b"
    by (intro bit_word_eqI) (auto simp: gate_def bit_simps)
qed

theorem int_gates_witness:
  "idt (int_set_handler base_kernel 0x40 SYSCALL_SEND) 0x40 = Some (gate 0x40 0xF0100040) \<and>
   idt (int_set_handler base_kernel 0x40 SYSCALL_SEND) 13 = Some (gate 13 0xF010000D)"
  using int_gates [of base_kernel 64] int_gates [of base_kernel 13] by (simp add: base_kernel_def heap_state.extend_def)

text \<open>
  Interrupt lines: \<open>irq_allow\<close> unmasks exactly the given line and \<open>irq_disallow\<close> masks exactly the
  given line, of all sixteen, and both write the new masks to the two controllers; after
  \<open>irq_set_redirect\<close> the line is unmasked and its handler sends the message of port 8 to that process.
\<close>

theorem irq_lines:
  assumes "i < 16" and "j < 16" and "s' = irq_set_redirect s pid i" and "threads s' img = Some t" and "t_num t = ucast i + 32"
  shows "(irq_masked (snd (irq_allow s i)) j \<longleftrightarrow> irq_masked s j \<and> j \<noteq> i) \<and>
    (irq_masked (snd (irq_disallow s i)) j \<longleftrightarrow> irq_masked s j \<or> j = i) \<and>
    \<not> irq_masked s' i \<and> int_handlers s' (i + 32) = Some IRQ_REDIRECT \<and> irq_redirect s' img = thread_send s' 0 pid 8 0"
proof -
  have u: "unat i < 16" using assms(1) by (simp add: word_less_nat_alt)
  then have "ucast i < (256 :: u32)" by (simp add: word_less_nat_alt unsigned_ucast_eq take_bit_eq_mod)
  moreover have "ucast (ucast i :: u32) = i" by (rule bit_word_eqI) (simp add: bit_simps)
  moreover have "irq_holder s' i = pid" using assms(1)
    by (simp add: assms(3) irq_set_redirect_def Let_def)
  ultimately have "irq_redirect s' img = thread_send s' 0 pid 8 0"
    using assms(4,5) by (simp add: irq_redirect_def INT2IRQ_def)
  moreover have "int_handlers s' (i + 32) = Some IRQ_REDIRECT"
    by (simp add: assms(3) irq_set_redirect_def Let_def int_set_handler_handlers IRQ2INT_def)
  moreover have "\<not> irq_masked s' i" using allow_masked [OF assms(1,1)] by (simp add: assms(3) irq_set_redirect_def Let_def)
  ultimately show ?thesis using allow_masked [OF assms(1,2)] disallow_masked [OF assms(1,2)] by simp
qed

theorem irq_lines_witness:
  "let s = base_kernel\<lparr>threads := [1 \<mapsto> zero_thread\<lparr>t_num := 37\<rparr>]\<rparr>; s' = irq_set_redirect s 2 5 in
   \<not> irq_masked (snd (irq_allow s 5)) 5 \<and> irq_masked (snd (irq_disallow s 5)) 5 \<and>
   int_handlers s' 37 = Some IRQ_REDIRECT \<and> irq_redirect s' 1 = thread_send s' 0 2 8 0"
proof -
  have "threads (irq_set_redirect (base_kernel\<lparr>threads := [1 \<mapsto> zero_thread\<lparr>t_num := 37\<rparr>]\<rparr>) 2 5) 1 = Some (zero_thread\<lparr>t_num := 37\<rparr>)"
    by (simp add: irq_set_redirect_def Let_def)
  from irq_lines [OF _ _ refl this, of 5] show ?thesis by (simp add: Let_def)
qed

text \<open>
  End of interrupt: \<open>irq_reset\<close> acknowledges both controllers for lines 9 to 15 and the master alone
  for lines 0 to 7; line 8, although it belongs to the slave, gets no acknowledgement there.
\<close>

theorem irq_reset_ports:
  assumes "i < 16"
  shows "out_ports (snd (irq_reset s i)) = out_ports s @ (if i \<le> 8 then [(0x20, 0x20)] else [(0xA0, 0x20), (0x20, 0x20)])"
  using assms by (auto simp: irq_reset_def outb_def Let_def word_less_nat_alt word_le_nat_alt unsigned_ucast_eq take_bit_eq_mod)

theorem irq_reset_ports_witness: "out_ports (snd (irq_reset base_kernel 8)) = [(0x20, 0x20)]"
  using irq_reset_ports [of 8 base_kernel] by (simp add: base_kernel_def heap_state.extend_def)

text \<open>
  Programming the timer: for frequencies from 19 to 1193180 the two bytes written to the timer's data
  port are the divider \<open>1193180 div hertz\<close>, low byte first, line 0 is unmasked and the timer handler
  registered; other frequencies are refused and change nothing, and 0 stops the kernel.
\<close>

theorem timer_set_freq_divider:
  "timer_set_freq s h = (if h = 0 then None else if h < 19 \<or> 1193180 < h then Some (1, s)
     else Some (0, int_set_handler (snd (irq_allow (s\<lparr>out_ports := out_ports s @
       [(0x43, 0x36), (0x40, (1193180 div h) mod 256), (0x40, (1193180 div h) div 256)]\<rparr>) 0)) 32 TIMER_HANDLER))"
proof -
  let ?d = "1193180 div h"
  have d: "unat ?d = 1193180 div unat h" by (simp add: unat_div)
  have iff: "?d = 0 \<or> ?d \<ge> 65536 \<longleftrightarrow> h < 19 \<or> 1193180 < h" if "h \<noteq> 0"
  proof -
    have "0 < unat h" using that by (simp add: unat_gt_0)
    then have "1193180 div unat h = 0 \<longleftrightarrow> 1193180 < unat h" "65536 \<le> 1193180 div unat h \<longleftrightarrow> unat h < 19"
      by (auto simp: div_eq_0_iff less_eq_div_iff_mult_less_eq)
    then show ?thesis by (auto simp: word_less_nat_alt word_le_nat_alt word_unat_eq_iff d)
  qed
  have lo: "ucast (ucast (?d AND 0xFF) :: u8) = ?d mod 256"
    by (rule word_unat_eq_iff [THEN iffD2]) (simp add: unsigned_ucast_eq unat_mod and_mask_255 take_bit_eq_mod d)
  have hi: "ucast (ucast (drop_bit 8 ?d) :: u8) = ?d div 256" if "?d < 65536"
    using that by (intro word_unat_eq_iff [THEN iffD2])
      (simp add: unsigned_ucast_eq unat_div unat_mod take_bit_eq_mod unsigned_drop_bit_eq drop_bit_eq_div word_less_nat_alt d)
  show ?thesis
  proof (cases "h = 0 \<or> h < 19 \<or> 1193180 < h")
    case True
    then show ?thesis using iff by (auto simp: timer_set_freq_def Let_def)
  next
    case False
    then have "?d \<noteq> 0" "?d < 65536" using iff by auto
    then show ?thesis using False lo hi by (simp add: timer_set_freq_def Let_def outb_def IRQ2INT_def)
  qed
qed

end
