(* ===== verification/Processes.thy ===== *)
theory Processes
  imports Interrupts
begin

text \<open>
  Processes and resource tables: \<open>kernel/process/process.c\<close> and \<open>kernel/process/rtab.c\<close>. The word after
  the 256 thread slots of a process is the padding of its heap block, which is zero; the model keeps it
  as slot 256, which nothing writes.
\<close>

section \<open>Resource tables\<close>

definition set_rtab :: "kernel \<Rightarrow> ptr \<Rightarrow> nat \<Rightarrow> rtab \<Rightarrow> kernel option" where
  "set_rtab s p i r = do {
     xs \<leftarrow> rtabs s p;
     if i < length xs then Some (s\<lparr>rtabs := (rtabs s)(p \<mapsto> xs[i := r])\<rparr>) else None
   }"

definition get_rtab :: "kernel \<Rightarrow> ptr \<Rightarrow> nat \<Rightarrow> rtab option" where
  "get_rtab s p i = do { xs \<leftarrow> rtabs s p; if i < length xs then Some (xs ! i) else None }"

text \<open>The first index from \<open>i\<close> on whose entry satisfies \<open>P\<close>, \<open>n\<close> when there is none.\<close>

function rtab_find :: "kernel \<Rightarrow> ptr \<Rightarrow> (rtab \<Rightarrow> bool) \<Rightarrow> nat \<Rightarrow> nat \<Rightarrow> nat option" where
  "rtab_find s p P i n =
     (if i < n then do { r \<leftarrow> get_rtab s p i; if P r then Some i else rtab_find s p P (Suc i) n } else Some n)"
  by pat_completeness auto
termination by (relation "measure (\<lambda>(s, p, P, i, n). n - i)") auto

declare rtab_find.simps [simp del]

definition rtab_close :: "kernel \<Rightarrow> ptr \<Rightarrow> u64 \<Rightarrow> u64 \<Rightarrow> kernel option" where
  "rtab_close s proc a b = do {
     pr \<leftarrow> processes s proc;
     let n = unat (p_rtab_count pr);
     i \<leftarrow> rtab_find s (p_rtab pr) (\<lambda>r. r_a r = a \<or> r_b r = b) 0 n;
     if i < n then do {
       s \<leftarrow> thread_sendv s b a 24;
       set_rtab s (p_rtab pr) i \<lparr>r_a = 0, r_b = 0\<rparr>
     }
     else Some s
   }"

definition rtab_free :: "kernel \<Rightarrow> ptr \<Rightarrow> kernel option" where
  "rtab_free s proc = do {
     pr \<leftarrow> processes s proc;
     s \<leftarrow> for_list (\<lambda>i s. do {
         r \<leftarrow> get_rtab s (p_rtab pr) i;
         if r_a r \<noteq> 0 then rtab_close s proc (r_a r) (r_b r) else Some s
       }) [0..<unat (p_rtab_count pr)] s;
     s \<leftarrow> (if p_rtab pr \<noteq> 0 then heap_free s (p_rtab pr) (p_rtab_count pr * sizeof_rtab) else Some s);
     upd_process s proc (\<lambda>pr. pr\<lparr>p_rtab := 0, p_rtab_count := 0\<rparr>)
   }"

text \<open>The new table of \<open>rtab_open\<close>: sixteen entries more, the old ones copied.\<close>

definition rtab_grow :: "kernel \<Rightarrow> ptr \<Rightarrow> kernel option" where
  "rtab_grow s proc = do {
     pr \<leftarrow> processes s proc;
     let count = p_rtab_count pr + 16;
     (temp, s) \<leftarrow> heap_alloc s (count * sizeof_rtab);
     xs \<leftarrow> (if p_rtab_count pr = 0 then Some [] else rtabs s (p_rtab pr));
     s \<leftarrow> (if temp = 0 \<or> length xs \<noteq> unat (p_rtab_count pr) then None
           else Some (s\<lparr>rtabs := (rtabs s)(temp \<mapsto> xs @ replicate (unat count - length xs) \<lparr>r_a = 0, r_b = 0\<rparr>)\<rparr>));
     let temp2 = p_rtab pr;
     s \<leftarrow> upd_process s proc (\<lambda>pr. pr\<lparr>p_rtab := temp\<rparr>);
     s \<leftarrow> (if temp2 \<noteq> 0 then heap_free s temp2 (p_rtab_count pr * sizeof_rtab) else Some s);
     upd_process s proc (\<lambda>pr. pr\<lparr>p_rtab_count := count\<rparr>)
   }"

partial_function (option) rtab_open :: "kernel \<Rightarrow> ptr \<Rightarrow> u64 \<Rightarrow> u64 \<Rightarrow> kernel option" where
  "rtab_open s proc a b = do {
     pr \<leftarrow> processes s proc;
     i \<leftarrow> rtab_find s (p_rtab pr) (\<lambda>r. r_a r = a \<and> r_b r = b \<or> r_a r = 0) 0 (unat (p_rtab_count pr));
     if i < unat (p_rtab_count pr) then do {
       r \<leftarrow> get_rtab s (p_rtab pr) i;
       if r_a r = a \<and> r_b r = b then Some s
       else set_rtab s (p_rtab pr) i \<lparr>r_a = a, r_b = b\<rparr>
     }
     else do {
       s \<leftarrow> rtab_grow s proc;
       rtab_open s proc a b
     }
   }"

section \<open>Processes\<close>

definition process_alloc :: "kernel \<Rightarrow> (ptr \<times> kernel) option" where
  "process_alloc s = do {
     let s = (if \<not> pidlist_setup s then s\<lparr>pidlist := (\<lambda>i. if i < MAX_TASKS then of_nat i else pidlist s i), pidlist_setup := True\<rparr> else s);
     let pid = pidlist s (pidlist_top s);
     let s = s\<lparr>pidlist_top := (pidlist_top s + 1) mod MAX_TASKS\<rparr>;
     (p, s) \<leftarrow> heap_alloc s sizeof_process;
     if p = 0 \<or> unat pid \<ge> MAX_TASKS then None
     else Some (p, s\<lparr>process_table := (process_table s)(unat pid := p), processes := (processes s)(p \<mapsto> zero_process\<lparr>p_pid := pid\<rparr>)\<rparr>)
   }"

definition process_clone :: "kernel \<Rightarrow> ptr \<Rightarrow> ptr \<Rightarrow> (ptr \<times> kernel) option" where
  "process_clone s parent active = do {
     (child, s) \<leftarrow> process_alloc s;
     pc \<leftarrow> processes s child;
     let pid = p_pid pc;
     pp \<leftarrow> processes s parent;
     s \<leftarrow> upd_process s child (\<lambda>_. pp);
     (space, s) \<leftarrow> space_clone s;
     s \<leftarrow> upd_process s child (\<lambda>pr. pr\<lparr>p_space := space, p_parent := parent, p_pid := pid, p_rirq := IRQ_NULL,
            p_rtab := 0, p_rtab_count := 0, p_thread := (\<lambda>_. 0)\<rparr>);
     (new_thread, s) \<leftarrow> thread_alloc s;
     s \<leftarrow> (if active \<noteq> 0 then do {
             t \<leftarrow> threads s new_thread;
             s \<leftarrow> heap_free s (t_fxdata t) sizeof_fxdata;
             a \<leftarrow> threads s active;
             s \<leftarrow> upd_thread s new_thread (\<lambda>_. a);
             (fx, s) \<leftarrow> heap_alloc s sizeof_fxdata;
             let s = s\<lparr>fxdata := (fxdata s)(fx \<mapsto> replicate 128 0)\<rparr>;
             s \<leftarrow> upd_thread s new_thread (\<lambda>t. t\<lparr>t_fxdata := fx\<rparr>);
             if t_fxdata a \<noteq> 0 then do {
               x \<leftarrow> fxdata s (t_fxdata a);
               if fx = 0 then None else Some (s\<lparr>fxdata := (fxdata s)(fx \<mapsto> x)\<rparr>)
             }
             else Some s
           }
           else Some s);
     (_, s) \<leftarrow> thread_bind s new_thread child;
     s \<leftarrow> schedule_insert s new_thread;
     Some (child, s)
   }"

definition process_free :: "kernel \<Rightarrow> ptr \<Rightarrow> kernel option" where
  "process_free s proc = do {
     pr \<leftarrow> processes s proc;
     s \<leftarrow> (if unat (p_pid pr) \<ge> MAX_TASKS then None
           else Some (s\<lparr>process_table := (process_table s)(unat (p_pid pr) := 0), pidlist := (pidlist s)(pidlist_bot s := p_pid pr),
             pidlist_bot := (pidlist_bot s + 1) mod MAX_TASKS\<rparr>));
     s \<leftarrow> heap_free s proc sizeof_process;
     upd_process s proc (p_space_update (\<lambda>_. heap_words s proc))
   }"

definition process_freeze :: "kernel \<Rightarrow> ptr \<Rightarrow> kernel option" where
  "process_freeze s proc = for_list (\<lambda>i s. do {
       pr \<leftarrow> processes s proc;
       if p_thread pr i \<noteq> 0 then thread_freeze s (p_thread pr i) else Some s
     }) [0..<256] s"

definition process_thaw :: "kernel \<Rightarrow> ptr \<Rightarrow> kernel option" where
  "process_thaw s proc = for_list (\<lambda>i s. do {
       pr \<leftarrow> processes s proc;
       if p_thread pr i \<noteq> 0 then thread_thaw s (p_thread pr i) else Some s
     }) [0..<256] s"

definition process_kill :: "kernel \<Rightarrow> ptr \<Rightarrow> kernel option" where
  "process_kill s proc = do {
     s \<leftarrow> rtab_free s proc;
     pr \<leftarrow> processes s proc;
     let s = (if p_rirq pr \<noteq> IRQ_NULL then irq_set_redirect s 0 (p_rirq pr) else s);
     s \<leftarrow> for_list (\<lambda>i s. do {
         pr \<leftarrow> processes s proc;
         if p_thread pr i \<noteq> 0 then thread_free s (p_thread pr i) else Some s
       }) [0..<256] s;
     pr \<leftarrow> processes s proc;
     s \<leftarrow> space_free s (p_space pr);
     process_free s proc
   }"

section \<open>Resource table lemmas\<close>

text \<open>The table of a process as a list; a process without one has the empty list.\<close>

definition rtab_rep :: "kernel \<Rightarrow> ptr \<Rightarrow> process \<Rightarrow> rtab list \<Rightarrow> bool" where
  "rtab_rep s proc pr xs \<longleftrightarrow> processes s proc = Some pr \<and> length xs = unat (p_rtab_count pr) \<and>
     (if xs = [] then p_rtab pr = 0 else rtabs s (p_rtab pr) = Some xs)"

lemma rtab_repD:
  assumes "rtab_rep s proc pr xs"
  shows "processes s proc = Some pr" "unat (p_rtab_count pr) = length xs" "i < length xs \<Longrightarrow> get_rtab s (p_rtab pr) i = Some (xs ! i)"
  using assms by (auto simp: rtab_rep_def get_rtab_def split: if_splits)

lemma rtab_find_ok:
  assumes "\<And>k. k < length xs \<Longrightarrow> get_rtab s p k = Some (xs ! k)" and "i \<le> length xs"
  shows "rtab_find s p P i (length xs) = Some (case find (\<lambda>k. P (xs ! k)) [i..<length xs] of Some k \<Rightarrow> k | None \<Rightarrow> length xs)"
  using assms(2)
proof (induction "length xs - i" arbitrary: i)
  case 0
  then show ?case by (simp add: rtab_find.simps)
next
  case (Suc n)
  then have i: "i < length xs" by simp
  then have "[i..<length xs] = i # [Suc i..<length xs]" by (rule upt_conv_Cons)
  then show ?case using i assms(1) [OF i] Suc.hyps(1) [of "Suc i"] Suc.hyps(2) by (simp add: rtab_find.simps [of s p P i])
qed

text \<open>The index at which a scan of the table stops.\<close>

definition first_at :: "(rtab \<Rightarrow> bool) \<Rightarrow> rtab list \<Rightarrow> nat \<Rightarrow> bool" where
  "first_at P xs i \<longleftrightarrow> i < length xs \<and> P (xs ! i) \<and> (\<forall>j < i. \<not> P (xs ! j))"

lemma first_at_exists: "(\<exists>r \<in> set xs. P r) \<Longrightarrow> \<exists>i. first_at P xs i"
proof -
  assume "\<exists>r \<in> set xs. P r"
  then have "\<exists>i. i < length xs \<and> P (xs ! i)" by (auto simp: in_set_conv_nth)
  then obtain i where "i < length xs \<and> P (xs ! i)" "\<forall>j < i. \<not> (j < length xs \<and> P (xs ! j))"
    using exists_least_iff [of "\<lambda>i. i < length xs \<and> P (xs ! i)"] by blast
  then show ?thesis unfolding first_at_def by (intro exI [of _ i]) auto
qed

lemma slot_kept:
  assumes "i < length xs" and "r_a (xs ! i) = 0 \<or> xs ! i = e"
  shows "e \<in> set (xs[i := e]) \<and> (\<forall>r \<in> set xs. r_a r \<noteq> 0 \<longrightarrow> r \<in> set (xs[i := e])) \<and> set (xs[i := e]) \<subseteq> insert e (set xs)"
proof (intro conjI ballI impI)
  show "e \<in> set (xs[i := e])" using assms(1) by (simp add: set_update_memI)
  show "set (xs[i := e]) \<subseteq> insert e (set xs)" by (rule set_update_subset_insert)
  fix r assume "r \<in> set xs" "r_a r \<noteq> 0"
  then obtain j where j: "j < length xs" "xs ! j = r" by (auto simp: in_set_conv_nth)
  show "r \<in> set (xs[i := e])"
  proof (cases "j = i")
    case True
    then have "r = e" using j assms(2) \<open>r_a r \<noteq> 0\<close> by auto
    then show ?thesis using assms(1) by (simp add: set_update_memI)
  next
    case False
    then show ?thesis using j by (metis length_list_update nth_list_update_neq nth_mem)
  qed
qed

lemma rtab_find_at:
  assumes "rtab_rep s proc pr xs" and "first_at P xs i"
  shows "rtab_find s (p_rtab pr) P 0 (length xs) = Some i"
proof -
  have "find (\<lambda>k. P (xs ! k)) [0..<length xs] = Some i"
    using assms(2) unfolding find_Some_iff first_at_def by (auto intro!: exI [of _ i])
  then show ?thesis using rtab_find_ok [of xs s "p_rtab pr" 0 P] rtab_repD(3) [OF assms(1)] by simp
qed

lemma rtab_find_none:
  assumes "rtab_rep s proc pr xs" and "\<forall>r \<in> set xs. \<not> P r"
  shows "rtab_find s (p_rtab pr) P 0 (length xs) = Some (length xs)"
proof -
  have "find (\<lambda>k. P (xs ! k)) [0..<length xs] = None" using assms(2) by (auto simp: find_None_iff)
  then show ?thesis using rtab_find_ok [of xs s "p_rtab pr" 0 P] rtab_repD(3) [OF assms(1)] by simp
qed

lemma set_rtab_ok:
  assumes "rtab_rep s proc pr xs" and "i < length xs"
  shows "\<exists>s'. set_rtab s (p_rtab pr) i r = Some s' \<and> rtab_rep s' proc pr (xs[i := r])"
  using assms by (auto simp: rtab_rep_def set_rtab_def split: if_splits)

lemma rtab_open_slot:
  assumes R: "rtab_rep s proc pr xs" and "first_at (\<lambda>r. r_a r = a \<and> r_b r = b \<or> r_a r = 0) xs i"
  shows "\<exists>s'. rtab_open s proc a b = Some s' \<and> rtab_rep s' proc pr (xs[i := \<lparr>r_a = a, r_b = b\<rparr>])"
proof -
  have i: "i < length xs" using assms(2) by (simp add: first_at_def)
  note D = rtab_repD(1,2) [OF R] rtab_repD(3) [OF R i] rtab_find_at [OF R assms(2)]
  show ?thesis
  proof (cases "r_a (xs ! i) = a \<and> r_b (xs ! i) = b")
    case True
    then have "xs[i := \<lparr>r_a = a, r_b = b\<rparr>] = xs" using i by (intro list_update_same_conv [THEN iffD2]) auto
    moreover have "rtab_open s proc a b = Some s" using D i True by (subst rtab_open.simps) simp
    ultimately show ?thesis using R by simp
  next
    case False
    obtain s' where s': "set_rtab s (p_rtab pr) i \<lparr>r_a = a, r_b = b\<rparr> = Some s'" "rtab_rep s' proc pr (xs[i := \<lparr>r_a = a, r_b = b\<rparr>])"
      using set_rtab_ok [OF R i] by blast
    then show ?thesis using D i False by (subst rtab_open.simps) auto
  qed
qed

lemma heap_free_Some:
  assumes "sz \<le> 0x20000" "p \<noteq> 0"
  shows "\<exists>s'. heap_free s p sz = Some s' \<and> same_mmu s s'"
proof -
  have b: "bucket_for sz < 16" using bucket_for_le(1) [OF assms(1)] .
  then show ?thesis using heap_free_eq [OF b assms(2), of s] same_mmu_put(1) by blast
qed

lemma rtab_grow_ok:
  assumes R: "rtab_rep s proc pr xs" and H: "heap_rep s F L" "F (bucket_for (of_nat (length xs + 16) * 16)) = t # ts"
    and n: "length xs + 16 \<le> 8192"
  shows "\<exists>s' pr'. rtab_grow s proc = Some s' \<and> rtab_rep s' proc pr' (xs @ replicate 16 \<lparr>r_a = 0, r_b = 0\<rparr>)"
proof -
  let ?n = "p_rtab_count pr" and ?z = "replicate 16 \<lparr>r_a = 0, r_b = 0\<rparr>"
  note D = rtab_repD(1,2) [OF R]
  have u: "unat (?n + 16) = length xs + 16" using D(2) n by (simp add: unat_word_ariths)
  have nn: "?n = of_nat (length xs)" unfolding D(2) [symmetric] by simp
  have sz: "(?n + 16) * sizeof_rtab \<le> 0x20000" "?n * sizeof_rtab \<le> 0x20000"
    using n D(2) u by (simp_all add: word_le_nat_alt unat_word_ariths)
  have b: "F (bucket_for ((?n + 16) * sizeof_rtab)) = t # ts" using H(2) by (simp add: nn)
  obtain s1 where s1: "heap_alloc s ((?n + 16) * sizeof_rtab) = Some (t, s1)" "same_mmu s s1" "t \<noteq> 0"
    using heap_alloc_take [OF H(1) sz(1) b] block_nonzero heap_repD(2) by blast
  have xs: "(if ?n = 0 then Some [] else rtabs s1 (p_rtab pr)) = Some xs"
    using R s1(2) D(2) by (auto simp: rtab_rep_def same_mmu_def unat_eq_zero split: if_splits)
  have pr1: "processes s1 proc = Some pr" using D(1) s1(2) by (auto simp: same_mmu_def)
  define s2 where "s2 = s1\<lparr>rtabs := (rtabs s1)(t \<mapsto> xs @ ?z), processes := (processes s1)(proc \<mapsto> pr\<lparr>p_rtab := t\<rparr>)\<rparr>"
  have "\<exists>s3. (if p_rtab pr \<noteq> 0 then heap_free s2 (p_rtab pr) (?n * sizeof_rtab) else Some s2) = Some s3 \<and> same_mmu s2 s3"
    using heap_free_Some [OF sz(2)] by auto
  then obtain s3 where s3: "(if p_rtab pr \<noteq> 0 then heap_free s2 (p_rtab pr) (?n * sizeof_rtab) else Some s2) = Some s3" "same_mmu s2 s3"
    by blast
  let ?pr = "pr\<lparr>p_rtab := t, p_rtab_count := ?n + 16\<rparr>"
  have p3: "processes s3 proc = Some (pr\<lparr>p_rtab := t\<rparr>)" "rtabs s3 t = Some (xs @ ?z)"
    using s3(2) by (auto simp: same_mmu_def s2_def)
  have "rtab_grow s proc = Some (s3\<lparr>processes := (processes s3)(proc \<mapsto> ?pr)\<rparr>)"
    using D s1(1,3) xs pr1 u s3(1) p3
    by (simp add: rtab_grow_def Let_def upd_process_def s2_def [symmetric])
  moreover have "rtab_rep (s3\<lparr>processes := (processes s3)(proc \<mapsto> ?pr)\<rparr>) proc ?pr (xs @ ?z)"
    using p3(2) u by (simp add: rtab_rep_def)
  ultimately show ?thesis by blast
qed

section \<open>Process identifiers\<close>

text \<open>
  The free identifiers are a ring buffer: \<open>q\<close> lists them from \<open>pidlist_top\<close> on. Together with the
  identifiers that have a process they are all of them, each once.
\<close>

definition pid_rep :: "kernel \<Rightarrow> u32 list \<Rightarrow> bool" where
  "pid_rep s q \<longleftrightarrow> pidlist_setup s \<and> pidlist_top s < MAX_TASKS \<and> length q \<le> MAX_TASKS \<and> distinct q \<and>
     pidlist_bot s = (pidlist_top s + length q) mod MAX_TASKS \<and>
     (\<forall>k < length q. pidlist s ((pidlist_top s + k) mod MAX_TASKS) = q ! k) \<and>
     (\<forall>pid. unat pid < MAX_TASKS \<longrightarrow> (pid \<in> set q \<longleftrightarrow> process_table s (unat pid) = 0)) \<and>
     (\<forall>pid \<in> set q. unat pid < MAX_TASKS)"

lemma unat_same: "unat (a :: u32) = unat b \<longleftrightarrow> a = b"
  by (simp add: word_unat_eq_iff)

lemma pid_rep_pop:
  assumes "pid_rep s (pid # q)" and "p \<noteq> 0"
  shows "pid_rep (s\<lparr>pidlist_top := (pidlist_top s + 1) mod MAX_TASKS, process_table := (process_table s)(unat pid := p)\<rparr>) q"
    and "pidlist s (pidlist_top s) = pid" "unat pid < MAX_TASKS" "process_table s (unat pid) = 0"
proof -
  note D = assms(1) [unfolded pid_rep_def]
  show "pidlist s (pidlist_top s) = pid" using D by (metis length_pos_if_in_set list.set_intros(1) nth_Cons_0 add_0_right mod_less)
  show u: "unat pid < MAX_TASKS" "process_table s (unat pid) = 0" using D by auto
  have k: "((pidlist_top s + 1) mod MAX_TASKS + k) mod MAX_TASKS = (pidlist_top s + Suc k) mod MAX_TASKS" for k
    by (simp add: mod_add_left_eq)
  have "pidlist s (((pidlist_top s + 1) mod MAX_TASKS + k) mod MAX_TASKS) = q ! k" if "k < length q" for k
    using D that unfolding k by (metis Suc_less_eq length_Cons nth_Cons_Suc)
  moreover have "pidlist_bot s = ((pidlist_top s + 1) mod MAX_TASKS + length q) mod MAX_TASKS"
    unfolding k using D by simp
  moreover have "pid' \<in> set q \<longleftrightarrow> ((process_table s)(unat pid := p)) (unat pid') = 0" if "unat pid' < MAX_TASKS" for pid' :: u32
    using D that assms(2) by (auto simp: unat_same)
  ultimately show "pid_rep (s\<lparr>pidlist_top := (pidlist_top s + 1) mod MAX_TASKS, process_table := (process_table s)(unat pid := p)\<rparr>) q"
    using D unfolding pid_rep_def by (simp del: fun_upd_apply)
qed

lemma pid_rep_push:
  assumes R: "pid_rep s q" and u: "unat pid < MAX_TASKS" "process_table s (unat pid) \<noteq> 0"
  shows "pid_rep (s\<lparr>process_table := (process_table s)(unat pid := 0), pidlist := (pidlist s)(pidlist_bot s := pid),
     pidlist_bot := (pidlist_bot s + 1) mod MAX_TASKS\<rparr>) (q @ [pid])"
proof -
  note D = R [unfolded pid_rep_def]
  have new: "pid \<notin> set q" using D u by auto
  have "inj_on unat (set (pid # q))" by (simp add: inj_on_def word_unat_eq_iff)
  moreover have "unat ` set (pid # q) \<subseteq> {..<MAX_TASKS}" using D u by auto
  ultimately have "card (set (pid # q)) \<le> MAX_TASKS" using card_inj_on_le [of unat "set (pid # q)" "{..<MAX_TASKS}"] by simp
  moreover have "card (set (pid # q)) = Suc (length q)" using D new distinct_card by force
  ultimately have l: "length q < MAX_TASKS" by simp
  have bot: "(pidlist_top s + k) mod MAX_TASKS \<noteq> pidlist_bot s" if "k < length q" for k
    using D that l mod_less [of "pidlist_top s" MAX_TASKS]
    by (auto simp: mod_if split: if_splits)
  have "((pidlist s)(pidlist_bot s := pid)) ((pidlist_top s + k) mod MAX_TASKS) = (q @ [pid]) ! k" if "k < length (q @ [pid])" for k
    using that D bot [of k] by (cases "k = length q") (auto simp: nth_append)
  moreover have "(pidlist_bot s + 1) mod MAX_TASKS = (pidlist_top s + length (q @ [pid])) mod MAX_TASKS"
    using D by (simp add: mod_simps)
  moreover have "pid' \<in> set (q @ [pid]) \<longleftrightarrow> ((process_table s)(unat pid := 0)) (unat pid') = 0" if "unat pid' < MAX_TASKS" for pid' :: u32
    using D that by (auto simp: unat_same)
  ultimately show ?thesis using D u new l unfolding pid_rep_def by (simp del: fun_upd_apply)
qed

text \<open>\<open>n\<close> allocations in a row.\<close>

primrec alloc_n :: "('s \<Rightarrow> (ptr \<times> 's) option) \<Rightarrow> nat \<Rightarrow> 's \<Rightarrow> (ptr list \<times> 's) option" where
  "alloc_n alloc 0 s = Some ([], s)"
| "alloc_n alloc (Suc n) s = do { (p, s) \<leftarrow> alloc s; (ps, s) \<leftarrow> alloc_n alloc n s; Some (p # ps, s) }"

text \<open>
  The identifiers as an abstract pool: allocation takes the identifier that has been free for longest,
  and freeing gives one back. Clients need no more than these two laws.
\<close>

locale id_pool =
  fixes alloc :: "'s \<Rightarrow> (ptr \<times> 's) option" and free :: "'s \<Rightarrow> ptr \<Rightarrow> 's option"
    and get :: "'s \<Rightarrow> u32 \<Rightarrow> ptr"
    and rep :: "'s \<Rightarrow> u32 list \<Rightarrow> bool" and room :: "nat \<Rightarrow> 's \<Rightarrow> bool" and owner :: "'s \<Rightarrow> ptr \<Rightarrow> u32 \<Rightarrow> bool"
  assumes alloc_ok: "rep s (pid # q) \<Longrightarrow> room (Suc n) s \<Longrightarrow> \<exists>p s'. alloc s = Some (p, s') \<and> p \<noteq> 0 \<and> rep s' q \<and> room n s' \<and>
      owner s' p pid \<and> get s pid = 0 \<and> get s' pid = p \<and> (\<forall>i. i \<noteq> pid \<longrightarrow> get s' i = get s i)"
    and free_ok: "rep s q \<Longrightarrow> owner s p pid \<Longrightarrow> get s pid = p \<Longrightarrow> p \<noteq> 0 \<Longrightarrow> \<exists>s'. free s p = Some s' \<and> rep s' (q @ [pid]) \<and>
      get s' pid = 0 \<and> (\<forall>i. i \<noteq> pid \<longrightarrow> get s' i = get s i)"
begin

lemma alloc_free:
  assumes "rep s (pid # q)" and "room (Suc n) s"
  shows "\<exists>p s' s''. alloc s = Some (p, s') \<and> free s' p = Some s'' \<and> rep s'' (q @ [pid]) \<and> get s'' = get s"
proof -
  obtain p s' where s': "alloc s = Some (p, s')" "p \<noteq> 0" "rep s' q" "owner s' p pid" "get s pid = 0" "get s' pid = p"
    "\<forall>i. i \<noteq> pid \<longrightarrow> get s' i = get s i"
    using alloc_ok [OF assms] by blast
  obtain s'' where s'': "free s' p = Some s''" "rep s'' (q @ [pid])" "get s'' pid = 0" "\<forall>i. i \<noteq> pid \<longrightarrow> get s'' i = get s' i"
    using free_ok [OF s'(3,4,6,2)] by blast
  have "get s'' i = get s i" for i using s'(5,7) s''(3,4) by (cases "i = pid") auto
  then have "get s'' = get s" by (rule ext)
  then show ?thesis using s'(1) s''(1,2) by blast
qed

lemma allocs_fifo:
  assumes "rep s (qs @ q)" and "room (length qs) s" and "distinct qs"
  shows "\<exists>ps s'. alloc_n alloc (length qs) s = Some (ps, s') \<and> rep s' q \<and> map (get s') qs = ps \<and> 0 \<notin> set ps \<and>
    (\<forall>i. i \<notin> set qs \<longrightarrow> get s' i = get s i) \<and> (\<forall>i \<in> set qs. get s i = 0)"
  using assms
proof (induction qs arbitrary: s)
  case (Cons i qs)
  obtain p s1 where s1: "alloc s = Some (p, s1)" "p \<noteq> 0" "rep s1 (qs @ q)" "room (length qs) s1"
    "get s i = 0" "get s1 i = p" "\<forall>j. j \<noteq> i \<longrightarrow> get s1 j = get s j"
    using alloc_ok [of s i "qs @ q" "length qs"] Cons.prems(1,2) by auto
  obtain ps s2 where s2: "alloc_n alloc (length qs) s1 = Some (ps, s2)" "rep s2 q" "map (get s2) qs = ps" "0 \<notin> set ps"
    "\<forall>j. j \<notin> set qs \<longrightarrow> get s2 j = get s1 j" "\<forall>j \<in> set qs. get s1 j = 0"
    using Cons.IH [OF s1(3,4)] Cons.prems(3) by auto
  have "\<forall>j \<in> set (i # qs). get s j = 0" using s1(5,7) s2(6) Cons.prems(3) by auto
  then show ?case using s1 s2 Cons.prems(3) by auto
qed auto

end

text \<open>A process needs a heap block of bucket 9.\<close>

definition proc_room :: "nat \<Rightarrow> kernel \<Rightarrow> bool" where
  "proc_room n s \<longleftrightarrow> (\<exists>F L. heap_rep s F L \<and> n \<le> length (F 9))"

definition owner :: "kernel \<Rightarrow> ptr \<Rightarrow> u32 \<Rightarrow> bool" where
  "owner s p pid \<longleftrightarrow> (\<exists>pr. processes s p = Some pr \<and> p_pid pr = pid)"

lemma bucket_process: "bucket_for sizeof_process = 9"
  by (simp add: bucket_for_def upt_16)

lemma pid_rep_cong:
  assumes "pidlist t = pidlist s" "pidlist_setup t = pidlist_setup s" "pidlist_top t = pidlist_top s" "pidlist_bot t = pidlist_bot s"
    "process_table t = process_table s"
  shows "pid_rep t q = pid_rep s q"
  using assms by (simp add: pid_rep_def)

lemma process_alloc_ok:
  assumes R: "pid_rep s (pid # q)" and H: "proc_room (Suc n) s"
  shows "\<exists>p s'. process_alloc s = Some (p, s') \<and> p \<noteq> 0 \<and> pid_rep s' q \<and> proc_room n s' \<and> owner s' p pid \<and>
    process_get s pid = 0 \<and> process_get s' pid = p \<and> (\<forall>i. i \<noteq> pid \<longrightarrow> process_get s' i = process_get s i)"
proof -
  obtain F L p ps where F: "heap_rep s F L" "F 9 = p # ps" "n \<le> length ps"
    using H unfolding proc_room_def by (metis Suc_le_length_iff)
  let ?s = "s\<lparr>pidlist_top := (pidlist_top s + 1) mod MAX_TASKS\<rparr>"
  have R1: "heap_rep ?s F L" using F(1) heap_rep_cong [of ?s s] by simp
  have F9: "F (bucket_for sizeof_process) = p # ps" using F(2) by (simp only: bucket_process)
  obtain s1 where s1: "heap_alloc ?s sizeof_process = Some (p, s1)" "same_mmu ?s s1" "heap_rep s1 (F(9 := ps)) (insert (p, 9) L)"
    using heap_alloc_take [OF R1 _ F9] by (auto simp: bucket_process)
  have p: "p \<noteq> 0" using block_nonzero heap_repD(2) [OF s1(3), of "(p, 9)"] by blast
  note P = pid_rep_pop [OF R p]
  let ?s' = "s1\<lparr>process_table := (process_table s1)(unat pid := p), processes := (processes s1)(p \<mapsto> zero_process\<lparr>p_pid := pid\<rparr>)\<rparr>"
  have f: "process_table s1 = process_table s" "pidlist s1 = pidlist s" "pidlist_setup s1 = pidlist_setup s"
    "pidlist_top s1 = (pidlist_top s + 1) mod MAX_TASKS" "pidlist_bot s1 = pidlist_bot s"
    using s1(2) by (auto simp: same_mmu_def)
  have "process_alloc s = Some (p, ?s')"
    using s1(1) p P(2,3) R by (simp add: process_alloc_def Let_def pid_rep_def)
  moreover have "pid_rep ?s' q" using P(1) pid_rep_cong [of ?s' "s\<lparr>pidlist_top := _, process_table := _\<rparr>"] f by simp
  moreover have "proc_room n ?s'"
    using s1(3) F(3) heap_rep_cong [of ?s' s1] unfolding proc_room_def by (intro exI [of _ "F(9 := ps)"] exI) simp
  ultimately show ?thesis using p P(3,4) f by (auto simp: owner_def process_get_def unat_same)
qed

lemma process_free_ok:
  assumes R: "pid_rep s q" and "owner s p pid" and g: "process_get s pid = p" "p \<noteq> 0"
  shows "\<exists>s'. process_free s p = Some s' \<and> pid_rep s' (q @ [pid]) \<and> process_get s' pid = 0 \<and>
    (\<forall>i. i \<noteq> pid \<longrightarrow> process_get s' i = process_get s i)"
proof -
  obtain pr where pr: "processes s p = Some pr" "p_pid pr = pid" using assms(2) by (auto simp: owner_def)
  have u: "unat pid < MAX_TASKS" "process_table s (unat pid) \<noteq> 0" using g by (auto simp: process_get_def split: if_splits)
  define s1 where "s1 = s\<lparr>process_table := (process_table s)(unat pid := 0), pidlist := (pidlist s)(pidlist_bot s := pid),
     pidlist_bot := (pidlist_bot s + 1) mod MAX_TASKS\<rparr>"
  obtain s2 where s2: "heap_free s1 p sizeof_process = Some s2" "same_mmu s1 s2"
    using heap_free_Some [of sizeof_process p s1] g(2) by auto
  let ?s = "s2\<lparr>processes := (processes s2)(p \<mapsto> p_space_update (\<lambda>_. heap_words s2 p) pr)\<rparr>"
  have f: "process_table s2 = (process_table s)(unat pid := 0)" "pidlist s2 = (pidlist s)(pidlist_bot s := pid)"
    "pidlist_bot s2 = (pidlist_bot s + 1) mod MAX_TASKS" "processes s2 = processes s" "pidlist_setup s2 = pidlist_setup s" "pidlist_top s2 = pidlist_top s"
    using s2(2) by (auto simp: same_mmu_def s1_def)
  have "process_free s p = Some ?s"
    using pr u(1) s2(1) f(4) by (simp add: process_free_def s1_def upd_process_def)
  moreover have "pid_rep ?s (q @ [pid])" using pid_rep_push [OF R u] pid_rep_cong [of ?s s1] f by (simp add: s1_def)
  ultimately show ?thesis using f(1) by (auto simp: process_get_def unat_same)
qed

interpretation pids: id_pool process_alloc process_free process_get pid_rep proc_room owner
  using process_alloc_ok process_free_ok by unfold_locales blast+

section \<open>Freezing a process\<close>

abbreviation frozen_of :: "kernel \<Rightarrow> ptr \<Rightarrow> u32 option" where
  "frozen_of s p \<equiv> map_option t_frozen (threads s p)"

lemma freeze_more:
  assumes Q: "queue_rep s q" and f: "frozen_of s p = Some f" and "f = 0 \<longleftrightarrow> p \<in> set q" and "q \<noteq> [p]"
  shows "\<exists>s'. thread_freeze s p = Some s' \<and> queue_rep s' (remove1 p q) \<and> processes s' = processes s \<and>
    (\<forall>r. frozen_of s' r = (if r = p then Some (f + 1) else frozen_of s r))"
proof -
  obtain t where t: "threads s p = Some t" "t_frozen t = f" using f by auto
  have "\<exists>s1. (if f = 0 then schedule_remove s p else Some s) = Some s1 \<and> queue_rep s1 (remove1 p q) \<and> relinked s s1"
    using queue_remove [OF Q] assms(3,4) Q by (auto simp: remove1_idem)
  then obtain s1 where s1: "(if f = 0 then schedule_remove s p else Some s) = Some s1" "queue_rep s1 (remove1 p q)" "relinked s s1"
    by blast
  obtain n where n: "threads s1 p = Some (t\<lparr>t_next := n\<rparr>)" using relinked_thread [OF s1(3) t(1)] by blast
  then obtain s2 where s2: "upd_thread s1 p (t_frozen_update (\<lambda>f. f + 1)) = Some s2" by (simp add: upd_thread_def)
  note U = upd_frozen_rep [OF n s2]
  have "thread_freeze s p = Some s2" using t s1(1) s2 by (simp add: thread_freeze_def)
  moreover have "frozen_of s2 r = (if r = p then Some (f + 1) else frozen_of s r)" for r
    using relinked_frozen [OF s1(3), of r] t(2) by (simp add: U(1))
  moreover have "processes s2 = processes s" using relinked_fields [OF s1(3)] by (simp add: U(1))
  ultimately show ?thesis using U(2) s1(2) by blast
qed

lemma freeze_slots:
  fixes pr :: process and proc :: ptr
  defines "body \<equiv> \<lambda>i s. do { pr \<leftarrow> processes s proc; if p_thread pr i \<noteq> 0 then thread_freeze s (p_thread pr i) else Some s }"
  assumes "processes s proc = Some pr" "queue_rep s q" "distinct (filter (\<lambda>p. p \<noteq> 0) (map (p_thread pr) ns))"
    "\<forall>i \<in> set ns. p_thread pr i \<noteq> 0 \<longrightarrow> (\<exists>f. frozen_of s (p_thread pr i) = Some f \<and> (f = 0 \<longleftrightarrow> p_thread pr i \<in> set q))"
    "r \<in> set q" "r \<notin> p_thread pr ` set ns"
  shows "\<exists>s'. for_list body ns s = Some s' \<and> queue_rep s' (filter (\<lambda>p. p \<notin> p_thread pr ` set ns) q) \<and> processes s' = processes s \<and>
    (\<forall>p. frozen_of s' p = (if p \<noteq> 0 \<and> p \<in> p_thread pr ` set ns then map_option (\<lambda>f. f + 1) (frozen_of s p) else frozen_of s p))"
  using assms(2-)
proof (induction ns arbitrary: s q)
  case Nil
  then show ?case by simp
next
  case (Cons i ns)
  let ?p = "p_thread pr i"
  have c: "chain (nxt s) (sched_out s) q" using Cons.prems(2) by (simp add: queue_rep_def)
  show ?case
  proof (cases "?p = 0")
    case True
    then have "filter (\<lambda>p. p \<notin> p_thread pr ` set (i # ns)) q = filter (\<lambda>p. p \<notin> p_thread pr ` set ns) q"
      using chain_nonzero [OF c] by (intro filter_cong) auto
    moreover have "body i s = Some s" using True Cons.prems(1) by (simp add: body_def)
    ultimately show ?thesis using Cons.IH [OF Cons.prems(1,2)] Cons.prems(3-) True by auto
  next
    case False
    obtain f where f: "frozen_of s ?p = Some f" "f = 0 \<longleftrightarrow> ?p \<in> set q" using Cons.prems(4) False by auto
    have r: "r \<noteq> ?p" "q \<noteq> [?p]" using Cons.prems(5,6) by auto
    obtain s1 where s1: "thread_freeze s ?p = Some s1" "queue_rep s1 (remove1 ?p q)" "processes s1 = processes s"
      "\<forall>r. frozen_of s1 r = (if r = ?p then Some (f + 1) else frozen_of s r)"
      using freeze_more [OF Cons.prems(2) f r(2)] by blast
    have b: "body i s = Some s1" using s1(1) False Cons.prems(1) by (simp add: body_def)
    have q1: "remove1 ?p q = filter (\<lambda>p. p \<noteq> ?p) q" using chain_distinct [OF c] by (simp add: distinct_remove1_removeAll removeAll_filter_not_eq eq_commute [of ?p])
    have np: "?p \<notin> p_thread pr ` set ns" using Cons.prems(3) False by (auto simp: image_iff)
    have "\<exists>s'. for_list body ns s1 = Some s' \<and> queue_rep s' (filter (\<lambda>p. p \<notin> p_thread pr ` set ns) (remove1 ?p q)) \<and> processes s' = processes s1 \<and>
      (\<forall>p. frozen_of s' p = (if p \<noteq> 0 \<and> p \<in> p_thread pr ` set ns then map_option (\<lambda>f. f + 1) (frozen_of s1 p) else frozen_of s1 p))"
    proof (rule Cons.IH [OF _ s1(2)])
      show "\<forall>i \<in> set ns. p_thread pr i \<noteq> 0 \<longrightarrow> (\<exists>f. frozen_of s1 (p_thread pr i) = Some f \<and> (f = 0 \<longleftrightarrow> p_thread pr i \<in> set (remove1 ?p q)))"
        using Cons.prems(4) np unfolding q1 s1(4) [rule_format] by (auto simp: image_iff)
    qed (use Cons.prems s1(3) r(1) q1 False in \<open>auto simp: image_iff\<close>)
    then obtain s' where s': "for_list body ns s1 = Some s'" "queue_rep s' (filter (\<lambda>p. p \<notin> p_thread pr ` set ns) (remove1 ?p q))" "processes s' = processes s1"
      "\<forall>p. frozen_of s' p = (if p \<noteq> 0 \<and> p \<in> p_thread pr ` set ns then map_option (\<lambda>f. f + 1) (frozen_of s1 p) else frozen_of s1 p)"
      by blast
    have "filter (\<lambda>p. p \<notin> p_thread pr ` set ns) (remove1 ?p q) = filter (\<lambda>p. p \<notin> p_thread pr ` set (i # ns)) q"
      unfolding q1 filter_filter by (rule filter_cong) auto
    moreover have "frozen_of s' p = (if p \<noteq> 0 \<and> p \<in> p_thread pr ` set (i # ns) then map_option (\<lambda>f. f + 1) (frozen_of s p) else frozen_of s p)" for p
      using s'(4) s1(4) f(1) False np by auto
    ultimately show ?thesis using b s'(1-3) s1(3) by simp
  qed
qed

section \<open>A kernel with a process that is ready for more\<close>

text \<open>
  Process 1 has a resource table with one connection and owns the first queued thread; identifiers 2
  and 3 are the only free ones, and the heap has free blocks for a table and for two processes.
\<close>

definition proc_kernel :: kernel where
  "proc_kernel = two_threads\<lparr>heap_bucket := (\<lambda>_. 0)(7 := 0xF1000000, 9 := 0xF1001000), heap_brk := 0xF1010000,
     heap_words := (\<lambda>_. 0)(0xF1001000 := 0xF1001800),
     processes := [0xF1002000 \<mapsto> zero_process\<lparr>p_pid := 1, p_thread := (\<lambda>_. 0)(0 := 0x1000), p_rtab := 0xF1000200, p_rtab_count := 1\<rparr>],
     rtabs := [0xF1000200 \<mapsto> [\<lparr>r_a = 1, r_b = 5\<rparr>]], pidlist_setup := True, pidlist := (\<lambda>i. of_nat (i + 2)), pidlist_bot := 2,
     process_table := (\<lambda>i. if i = 2 \<or> i = 3 then 0 else 0xF1002000)\<rparr>"

abbreviation (input) proc_free :: "nat \<Rightarrow> ptr list" where
  "proc_free \<equiv> (\<lambda>_. [])(7 := [0xF1000000], 9 := [0xF1001000, 0xF1001800])"

lemma proc_kernel_heap: "heap_rep proc_kernel proc_free {(0xF1002000, 9)}"
proof -
  have "free_blocks proc_free = {(0xF1000000, 7), (0xF1001000, 9), (0xF1001800, 9)}"
    by (auto simp: free_blocks_def split: if_splits)
  then show ?thesis unfolding heap_rep_def
    by (auto simp: proc_kernel_def two_threads_def base_kernel_def heap_state.extend_def fresh_heap_def mmu_state.extend_def
      block_ok_def blk_def pairwise_def)
qed

lemma proc_kernel_pids: "pid_rep proc_kernel [2, 3]" "proc_room 2 proc_kernel"
proof -
  show "pid_rep proc_kernel [2, 3]"
    by (auto simp: pid_rep_def proc_kernel_def two_threads_def base_kernel_def heap_state.extend_def word_unat_eq_iff less_Suc_eq)
  show "proc_room 2 proc_kernel" unfolding proc_room_def
    by (intro exI [of _ proc_free] exI [of _ "{(0xF1002000, 9)}"] conjI proc_kernel_heap) simp
qed

section \<open>Properties\<close>

text \<open>
  Opening a connection: \<open>rtab_open\<close> returns, the process's table then contains the connection, and
  every connection that was open before is still there; nothing else enters the table but empty entries
  when it grows. (A growing table needs a free block of the new size, of at most 8192 entries.)
\<close>

theorem rtab_open_adds:
  assumes R: "rtab_rep s proc pr xs" and a: "a \<noteq> 0" and H: "heap_rep s F L" "F (bucket_for (of_nat (length xs + 16) * 16)) = t # ts"
    and n: "length xs + 16 \<le> 8192"
  shows "\<exists>s' pr' ys. rtab_open s proc a b = Some s' \<and> rtab_rep s' proc pr' ys \<and> \<lparr>r_a = a, r_b = b\<rparr> \<in> set ys \<and>
    (\<forall>r \<in> set xs. r_a r \<noteq> 0 \<longrightarrow> r \<in> set ys) \<and> set ys \<subseteq> insert \<lparr>r_a = a, r_b = b\<rparr> (insert \<lparr>r_a = 0, r_b = 0\<rparr> (set xs))"
proof -
  let ?P = "\<lambda>r. r_a r = a \<and> r_b r = b \<or> r_a r = 0" and ?e = "\<lparr>r_a = a, r_b = b\<rparr>"
  have slot: "?e \<in> set (xs[i := ?e]) \<and> (\<forall>r \<in> set xs. r_a r \<noteq> 0 \<longrightarrow> r \<in> set (xs[i := ?e])) \<and>
      set (xs[i := ?e]) \<subseteq> insert ?e (set xs)" if "first_at ?P xs i" for xs i
    by (rule slot_kept) (use that in \<open>auto simp: first_at_def\<close>)
  show ?thesis
  proof (cases "\<exists>r \<in> set xs. ?P r")
    case True
    then obtain i where i: "first_at ?P xs i" using first_at_exists [of xs ?P] by blast
    then show ?thesis using rtab_open_slot [OF R i] slot [OF i] by blast
  next
    case False
    let ?xs = "xs @ replicate 16 \<lparr>r_a = 0, r_b = 0\<rparr>"
    obtain s1 pr1 where s1: "rtab_grow s proc = Some s1" "rtab_rep s1 proc pr1 ?xs" using rtab_grow_ok [OF R H n] by blast
    have "?P (?xs ! length xs)" "\<exists>r \<in> set ?xs. ?P r" by (auto simp: nth_append)
    then obtain i where i: "first_at ?P ?xs i" using first_at_exists [of ?xs ?P] by blast
    obtain s2 where s2: "rtab_open s1 proc a b = Some s2" "rtab_rep s2 proc pr1 (?xs[i := ?e])"
      using rtab_open_slot [OF s1(2) i] by blast
    have "rtab_open s proc a b = Some s2"
      using rtab_repD(1,2) [OF R] rtab_find_none [OF R, of ?P] False s1(1) s2(1) by (subst rtab_open.simps) simp
    then show ?thesis using s2(2) slot [OF i] by (intro exI [of _ s2] exI [of _ pr1] exI [of _ "?xs[i := ?e]"]) auto
  qed
qed

theorem rtab_open_adds_witness:
  "\<exists>s' pr' ys. rtab_open proc_kernel 0xF1002000 2 6 = Some s' \<and> rtab_rep s' 0xF1002000 pr' ys \<and>
    \<lparr>r_a = 2, r_b = 6\<rparr> \<in> set ys \<and> \<lparr>r_a = 1, r_b = 5\<rparr> \<in> set ys"
proof -
  have R: "rtab_rep proc_kernel 0xF1002000 (zero_process\<lparr>p_pid := 1, p_thread := (\<lambda>_. 0)(0 := 0x1000), p_rtab := 0xF1000200, p_rtab_count := 1\<rparr>)
    [\<lparr>r_a = 1, r_b = 5\<rparr>]" by (simp add: rtab_rep_def proc_kernel_def)
  have "bucket_for (of_nat (length [\<lparr>r_a = 1, r_b = 5\<rparr>] + 16) * 16) = 7" by (simp add: bucket_for_def upt_16)
  then have F: "proc_free (bucket_for (of_nat (length [\<lparr>r_a = 1, r_b = 5\<rparr>] + 16) * 16)) = 0xF1000000 # []" by simp
  show ?thesis using rtab_open_adds [OF R _ proc_kernel_heap F, of 2 6] by auto
qed

text \<open>
  Closing a connection closes the first entry that agrees in \<^emph>\<open>either\<close> end: when an entry with the same
  end \<open>b\<close> but another \<open>a\<close> comes first in the table, that one is erased and the connection \<open>(a, b)\<close> stays.
  (Stated for a peer that no longer exists, so that no notification is sent.)
\<close>

theorem rtab_close_other:
  assumes R: "rtab_rep s proc pr (r # xs)" and "r_b r = b" and "process_get s (ucast b) = 0"
  shows "\<exists>s'. rtab_close s proc a b = Some s' \<and> rtab_rep s' proc pr (\<lparr>r_a = 0, r_b = 0\<rparr> # xs)"
proof -
  have "first_at (\<lambda>r. r_a r = a \<or> r_b r = b) (r # xs) 0" using assms(2) by (simp add: first_at_def)
  note f = rtab_find_at [OF R this]
  have "thread_sendv s b a 24 = Some s" using assms(3) by (simp add: thread_sendv_def thread_send_def Let_def)
  then show ?thesis using rtab_repD(1,2) [OF R] f set_rtab_ok [OF R, of 0] by (auto simp: rtab_close_def Let_def)
qed

theorem rtab_close_other_witness:
  "\<exists>s' pr. rtab_close (proc_kernel\<lparr>rtabs := [0xF1000200 \<mapsto> [\<lparr>r_a = 1, r_b = 2\<rparr>]]\<rparr>) 0xF1002000 9 2 = Some s' \<and>
    rtab_rep s' 0xF1002000 pr [\<lparr>r_a = 0, r_b = 0\<rparr>]"
proof -
  have R: "rtab_rep (proc_kernel\<lparr>rtabs := [0xF1000200 \<mapsto> [\<lparr>r_a = 1, r_b = 2\<rparr>]]\<rparr>) 0xF1002000
    (zero_process\<lparr>p_pid := 1, p_thread := (\<lambda>_. 0)(0 := 0x1000), p_rtab := 0xF1000200, p_rtab_count := 1\<rparr>) [\<lparr>r_a = 1, r_b = 2\<rparr>]"
    by (simp add: rtab_rep_def proc_kernel_def)
  from rtab_close_other [OF R, of 2 9] show ?thesis by (auto simp: process_get_def proc_kernel_def)
qed



text \<open>
  Freezing a process takes exactly its threads out of the scheduling queue, keeps the order of the
  others, and counts one more freeze for each of its threads and for no other. (At least one thread of
  another process is queued.)
\<close>

theorem process_freeze_stops:
  assumes "processes s proc = Some pr" "queue_rep s q" "distinct (filter (\<lambda>p. p \<noteq> 0) (map (p_thread pr) [0..<256]))"
    "\<forall>i \<in> set [0..<256]. p_thread pr i \<noteq> 0 \<longrightarrow> (\<exists>f. frozen_of s (p_thread pr i) = Some f \<and> (f = 0 \<longleftrightarrow> p_thread pr i \<in> set q))"
    "r \<in> set q" "r \<notin> p_thread pr ` set [0..<256]"
  shows "\<exists>s'. process_freeze s proc = Some s' \<and> queue_rep s' (filter (\<lambda>p. p \<notin> p_thread pr ` set [0..<256]) q) \<and> processes s' = processes s \<and>
    (\<forall>p. frozen_of s' p = (if p \<noteq> 0 \<and> p \<in> p_thread pr ` set [0..<256] then map_option (\<lambda>f. f + 1) (frozen_of s p) else frozen_of s p))"
  unfolding process_freeze_def by (rule freeze_slots [OF assms])

theorem process_freeze_stops_witness:
  "\<exists>s'. process_freeze proc_kernel 0xF1002000 = Some s' \<and> queue_rep s' [0x2000]"
proof -
  let ?pr = "zero_process\<lparr>p_pid := 1, p_thread := (\<lambda>_. 0)(0 := 0x1000), p_rtab := 0xF1000200, p_rtab_count := 1\<rparr>"
  have pr: "processes proc_kernel 0xF1002000 = Some ?pr" by (simp add: proc_kernel_def)
  have Q: "queue_rep proc_kernel [0x1000, 0x2000]" by (simp add: queue_rep_def proc_kernel_def two_threads_def zero_thread_def)
  have "p_thread ?pr 1 \<in> p_thread ?pr ` set [0..<256]" by (rule imageI) simp
  then have sl: "p_thread ?pr ` set [0..<256] = {0, 0x1000}" by (auto simp: image_iff)
  have "[0..<256] = 0 # [1..<256]" using upt_conv_Cons [of 0 256] by (simp del: upt_rec_numeral)
  moreover have "filter (\<lambda>p. p \<noteq> 0) (map (p_thread ?pr) [1..<256]) = []" by (auto simp: filter_empty_conv)
  ultimately have d: "distinct (filter (\<lambda>p. p \<noteq> 0) (map (p_thread ?pr) [0..<256]))" by (simp only: list.map filter.simps) simp
  have f: "\<forall>i \<in> set [0..<256]. p_thread ?pr i \<noteq> 0 \<longrightarrow>
      (\<exists>f. frozen_of proc_kernel (p_thread ?pr i) = Some f \<and> (f = 0 \<longleftrightarrow> p_thread ?pr i \<in> set [0x1000, 0x2000]))"
    by (auto simp: proc_kernel_def two_threads_def zero_thread_def)
  show ?thesis using process_freeze_stops [OF pr Q d f, of "0x2000"] unfolding sl by auto
qed

end
