(* ===== verification/Syscalls.thy ===== *)
theory Syscalls
  imports Processes
begin

text \<open>
  The system calls on processes and threads: every file of \<open>kernel/syscall\<close> but \<open>syscall_page\<close>,
  \<open>syscall_phys\<close>, \<open>syscall_send\<close> (theory \<open>Syscall_Memory\<close>) and \<open>syscall_exec\<close> (theory \<open>Exec\<close>). A system
  call gets the thread that made it, with its registers, and returns the thread to resume.
\<close>

section \<open>Results\<close>

definition ret :: "kernel \<Rightarrow> ptr \<Rightarrow> u32 \<Rightarrow> (ptr \<times> kernel) option" where
  "ret s img v = do { s \<leftarrow> upd_thread s img (t_eax_update (\<lambda>_. v)); Some (img, s) }"

lemma ret_Some: "threads s img = Some t \<Longrightarrow> ret s img v = Some (img, s\<lparr>threads := (threads s)(img \<mapsto> t\<lparr>t_eax := v\<rparr>)\<rparr>)"
  by (simp add: ret_def upd_thread_def)

lemma process_get_cong: "process_table s' = process_table s \<Longrightarrow> process_get s' = process_get s"
  by (simp add: process_get_def fun_eq_iff)

section \<open>Threads\<close>

definition syscall_also :: "kernel \<Rightarrow> ptr \<Rightarrow> (ptr \<times> kernel) option" where
  "syscall_also s img = do {
     im \<leftarrow> threads s img;
     let function = t_ecx im;
     (new_img, s) \<leftarrow> thread_alloc s;
     (_, s) \<leftarrow> thread_bind s new_img (t_proc im);
     s \<leftarrow> upd_thread s new_img (\<lambda>t. t\<lparr>t_ds := 0x23, t_cs := 0x1B, t_ss := 0x23, t_eflags := 0,
            t_useresp := t_stack t + SEGSZ, t_proc := t_proc im, t_eip := function, t_user := t_user im\<rparr>);
     s \<leftarrow> schedule_insert s new_img;
     n \<leftarrow> threads s new_img;
     s \<leftarrow> upd_thread s img (t_eax_update (\<lambda>_. t_id n));
     Some (new_img, s)
   }"

definition syscall_done :: "kernel \<Rightarrow> ptr \<Rightarrow> (ptr \<times> kernel) option" where
  "syscall_done s img = thread_exit s img"

definition syscall_stat :: "kernel \<Rightarrow> ptr \<Rightarrow> (ptr \<times> kernel) option" where
  "syscall_stat s img = do {
     im \<leftarrow> threads s img;
     let tid = t_ecx im;
     if unat tid > MAX_THREADS then ret s img 0
     else do {
       pr \<leftarrow> processes s (t_proc im);
       if p_thread pr (unat tid) = 0 then ret s img 0 else ret s img 1
     }
   }"

definition syscall_stop :: "kernel \<Rightarrow> ptr \<Rightarrow> (ptr \<times> kernel) option" where
  "syscall_stop s img = do {
     im \<leftarrow> threads s img;
     let tid = t_ecx im;
     if tid = - 1 then do {
       s \<leftarrow> process_freeze s (t_proc im);
       s \<leftarrow> thread_thaw s img;
       Some (img, s)
     }
     else if unat tid > MAX_THREADS then Some (img, s)
     else do {
       pr \<leftarrow> processes s (t_proc im);
       if p_thread pr (unat tid) = 0 then Some (img, s)
       else do { s \<leftarrow> thread_freeze s (p_thread pr (unat tid)); Some (img, s) }
     }
   }"

definition syscall_wake :: "kernel \<Rightarrow> ptr \<Rightarrow> (ptr \<times> kernel) option" where
  "syscall_wake s img = do {
     im \<leftarrow> threads s img;
     let tid = t_ecx im;
     if tid = - 1 then do {
       s \<leftarrow> thread_freeze s img;
       s \<leftarrow> process_thaw s (t_proc im);
       Some (img, s)
     }
     else if unat tid > MAX_THREADS then Some (img, s)
     else do {
       pr \<leftarrow> processes s (t_proc im);
       let thread = p_thread pr (unat tid);
       if thread = 0 then Some (img, s)
       else do { s \<leftarrow> thread_thaw s thread; Some (thread, s) }
     }
   }"

section \<open>Processes\<close>

definition syscall_when :: "kernel \<Rightarrow> ptr \<Rightarrow> (ptr \<times> kernel) option" where
  "syscall_when s img = do {
     im \<leftarrow> threads s img;
     s \<leftarrow> upd_process s (t_proc im) (p_entry_update (\<lambda>_. t_ecx im));
     Some (img, s)
   }"

definition syscall_fork :: "kernel \<Rightarrow> ptr \<Rightarrow> (ptr \<times> kernel) option" where
  "syscall_fork s img = do {
     im \<leftarrow> threads s img;
     let parent = t_proc im;
     (child, s) \<leftarrow> process_clone s parent img;
     if child = 0 then ret s img 0
     else do {
       pc \<leftarrow> processes s child;
       s \<leftarrow> upd_thread s img (t_eax_update (\<lambda>_. p_pid pc));
       (img, s) \<leftarrow> thread_switch s img (p_thread pc 0);
       pp \<leftarrow> processes s parent;
       ret s img (- p_pid pp)
     }
   }"

definition syscall_exit :: "kernel \<Rightarrow> ptr \<Rightarrow> (ptr \<times> kernel) option" where
  "syscall_exit s img = do {
     im \<leftarrow> threads s img;
     pr \<leftarrow> processes s (t_proc im);
     if (ucast (p_pid pr) :: u16) = 1 then None
     else do {
       s \<leftarrow> process_switch s (process_get s 1);
       s \<leftarrow> process_kill s (t_proc im);
       (n, s) \<leftarrow> schedule_next s;
       thread_switch s img n
     }
   }"

definition syscall_gpid :: "kernel \<Rightarrow> ptr \<Rightarrow> (ptr \<times> kernel) option" where
  "syscall_gpid s img = do {
     im \<leftarrow> threads s img;
     if t_ecx im = 0 then do { pr \<leftarrow> processes s (t_proc im); ret s img (p_pid pr) }
     else if t_ecx im = 1 then do {
       pr \<leftarrow> processes s (t_proc im);
       pp \<leftarrow> processes s (p_parent pr);
       ret s img (p_pid pp)
     }
     else if t_ecx im = 2 then ret s img (t_id im)
     else if t_ecx im = 3 then ret s img (t_stack im)
     else if t_ecx im = 4 then ret s img (t_user im)
     else Some (img, s)
   }"

definition syscall_time :: "kernel \<Rightarrow> ptr \<Rightarrow> (ptr \<times> kernel) option" where
  "syscall_time s img = do {
     im \<leftarrow> threads s img;
     tick \<leftarrow> (if t_ecx im = 0 \<or> t_ecx im = 1 then Some (timer_get_tick s)
       else if t_ecx im = 2 then map_option p_tick (processes s (t_proc im))
       else if t_ecx im = 3 then Some (t_tick im)
       else if t_ecx im = 4 then Some (1000000000 div 64)
       else Some (uninit s));
     s \<leftarrow> upd_thread s img (\<lambda>t. t\<lparr>t_eax := ucast tick, t_edx := ucast (drop_bit 32 tick)\<rparr>);
     Some (img, s)
   }"

definition syscall_user :: "kernel \<Rightarrow> ptr \<Rightarrow> (ptr \<times> kernel) option" where
  "syscall_user s img = do {
     im \<leftarrow> threads s img;
     if t_ecx im \<noteq> 0 then
       let proc = process_get s (t_ecx im) in
       if proc \<noteq> 0 then do { pr \<leftarrow> processes s proc; ret s img (p_user pr) } else ret s img (- 1)
     else ret s img (t_user im)
   }"

definition syscall_auth :: "kernel \<Rightarrow> ptr \<Rightarrow> (ptr \<times> kernel) option" where
  "syscall_auth s img = do {
     im \<leftarrow> threads s img;
     pr \<leftarrow> processes s (t_proc im);
     if p_user pr \<noteq> 0 then ret s img (- 1)
     else if t_ecx im \<noteq> 0 then
       let proc = process_get s (t_ecx im) in
       if proc \<noteq> 0 then do {
         s \<leftarrow> upd_process s proc (p_user_update (\<lambda>_. t_edx im));
         s \<leftarrow> upd_thread s img (t_user_update (\<lambda>_. t_edx im));
         ret s img 0
       }
       else ret s img (- 1)
     else do {
       s \<leftarrow> upd_thread s img (t_user_update (\<lambda>_. t_edx im));
       ret s img 0
     }
   }"

definition syscall_proc :: "kernel \<Rightarrow> ptr \<Rightarrow> (ptr \<times> kernel) option" where
  "syscall_proc s img = do {
     im \<leftarrow> threads s img;
     if t_ecx im = 0 then
       let proc = process_get s (t_edx im) in
       if proc = 0 then ret s img 0
       else do {
         pr \<leftarrow> processes s proc;
         if p_parent pr = 0 then ret s img 0
         else do { pp \<leftarrow> processes s (p_parent pr); ret s img (p_pid pp) }
       }
     else if t_ecx im = 1 then do {
       pr \<leftarrow> processes s (t_proc im);
       if t_edx im \<noteq> p_pid pr then ret s img 1
       else let proc = process_get s (t_ebx im) in
         if proc = 0 then ret s img 1
         else do {
           s \<leftarrow> upd_process s (t_proc im) (p_parent_update (\<lambda>_. proc));
           ret s img 0
         }
     }
     else if t_ecx im = 2 then
       let proc = process_get s (t_edx im) in
       if proc \<noteq> 0 then do { pr \<leftarrow> processes s proc; ret s img (p_user pr) } else ret s img (- 1)
     else if t_ecx im = 3 then do {
       pr \<leftarrow> processes s (t_proc im);
       if p_user pr \<noteq> 0 then ret s img (- 1)
       else let proc = process_get s (t_edx im) in
         if proc = 0 then ret s img (- 1)
         else do {
           s \<leftarrow> upd_process s proc (p_user_update (\<lambda>_. t_ebx im));
           ret s img 0
         }
     }
     else ret s img 1
   }"

definition syscall_name :: "kernel \<Rightarrow> ptr \<Rightarrow> (ptr \<times> kernel) option" where
  "syscall_name s img = do {
     im \<leftarrow> threads s img;
     let pid = t_edi im;
     if t_esi im \<noteq> 0 then do {
       pr \<leftarrow> processes s (t_proc im);
       if pid \<noteq> p_pid pr then ret s img 0
       else do {
         s \<leftarrow> upd_process s (t_proc im) (p_name_update (\<lambda>_. (t_eax im, t_ebx im, t_ecx im, t_edx im)));
         Some (img, s)
       }
     }
     else let proc = process_get s pid in
       if proc = 0 then ret s img 0
       else do {
         pr \<leftarrow> processes s proc;
         let (a, b, c, d) = p_name pr;
         s \<leftarrow> upd_thread s img (\<lambda>t. t\<lparr>t_eax := a, t_ebx := b, t_ecx := c, t_edx := d\<rparr>);
         Some (img, s)
       }
   }"

definition syscall_rirq :: "kernel \<Rightarrow> ptr \<Rightarrow> (ptr \<times> kernel) option" where
  "syscall_rirq s img = do {
     im \<leftarrow> threads s img;
     pr \<leftarrow> processes s (t_proc im);
     if p_user pr \<noteq> 0 then ret s img 1
     else do {
       let s = (if p_rirq pr \<noteq> IRQ_NULL then irq_set_redirect s 0 (p_rirq pr) else s);
       s \<leftarrow> upd_process s (t_proc im) (p_rirq_update (\<lambda>_. ucast (t_ecx im)));
       let s = irq_set_redirect s (p_pid pr) (ucast (t_ecx im));
       ret s img 0
     }
   }"

definition syscall_rtab :: "kernel \<Rightarrow> ptr \<Rightarrow> (ptr \<times> kernel) option" where
  "syscall_rtab s img = do {
     im \<leftarrow> threads s img;
     let rp_a = (ucast (t_ecx im) OR push_bit 32 (ucast (t_edx im)) :: u64);
     let rp_b = (ucast (t_esi im) OR push_bit 32 (ucast (t_edi im)) :: u64);
     if t_edx im = 0 then do {
       pr \<leftarrow> processes s (t_proc im);
       if t_esi im \<noteq> p_pid pr then ret s img 1
       else let proc = process_get s (t_ecx im) in
         if proc = 0 then ret s img 1
         else do { s \<leftarrow> rtab_open s proc rp_a rp_b; ret s img 0 }
     }
     else if t_edx im = 1 then do {
       pr \<leftarrow> processes s (t_proc im);
       if t_ecx im \<noteq> p_pid pr then ret s img 1
       else do { s \<leftarrow> rtab_close s (t_proc im) rp_a rp_b; ret s img 0 }
     }
     else ret s img 1
   }"

definition syscall_vm86 :: "kernel \<Rightarrow> ptr \<Rightarrow> (ptr \<times> kernel) option" where
  "syscall_vm86 s img = do {
     im \<leftarrow> threads s img;
     if t_user im \<noteq> 0 then ret s img 1
     else do {
       let ip = (ucast (t_ecx im AND 0xFFFF) :: u16);
       let cs = (ucast (drop_bit 16 (t_ecx im)) :: u16);
       let sp = (ucast (t_edx im AND 0xFFFF) :: u16);
       let ss = (ucast (drop_bit 16 (t_edx im)) :: u16);
       s \<leftarrow> upd_thread s img (\<lambda>t. t\<lparr>t_vm86_saved_eip := t_eip t, t_vm86_saved_esp := t_useresp t,
              t_vm86_saved_eflags := t_eflags t, t_cs := ucast cs, t_ss := ucast ss, t_useresp := ucast sp, t_eip := ucast ip,
              t_ds := 0, t_vm86_es := 0, t_vm86_ds := 0, t_vm86_fs := 0, t_vm86_gs := 0, t_vm86_active := 1\<rparr>);
       Some (img, set_int_stack s (img + 80))
     }
   }"

section \<open>Signals\<close>

text \<open>
  \<open>_signal_subtree\<close> visits the process tree below its root through the parent pointers; the tree is
  whatever those pointers say, so the recursion need not end.
\<close>

lemma for_list_mono [partial_function_mono]:
  assumes "\<And>x s. mono_option (\<lambda>f. B f x s)"
  shows "mono_option (\<lambda>f. for_list (B f) xs s)"
proof (induction xs arbitrary: s)
  case Nil
  show ?case by (simp add: option.const_mono)
next
  case (Cons x xs)
  show ?case using assms Cons by (simp add: bind_mono)
qed

abbreviation (input) MAX_PID :: nat where "MAX_PID \<equiv> 1024"

definition is_child :: "kernel \<Rightarrow> nat \<Rightarrow> u32 \<Rightarrow> bool option" where
  "is_child s i root = (let p = process_get s (of_nat i) in
     if p = 0 then Some False
     else do {
       pr \<leftarrow> processes s p;
       if p_parent pr = 0 then Some False
       else do { pp \<leftarrow> processes s (p_parent pr); Some (p_pid pp = root) }
     })"

partial_function (option) signal_subtree :: "kernel \<Rightarrow> ptr \<Rightarrow> u32 \<Rightarrow> u8 \<Rightarrow> kernel option" where
  "signal_subtree s img root signal = do {
     let proc = process_get s root;
     s \<leftarrow> for_list (\<lambda>i s. do {
         c \<leftarrow> is_child s i root;
         if c then signal_subtree s img (of_nat i) signal else Some s
       }) [0..<MAX_PID] s;
     s \<leftarrow> process_freeze s proc;
     (n, s) \<leftarrow> thread_send s img root signal 0;
     schedule_insert s n
   }"

definition syscall_kill :: "kernel \<Rightarrow> ptr \<Rightarrow> (ptr \<times> kernel) option" where
  "syscall_kill s img = do {
     im \<leftarrow> threads s img;
     let target = t_ecx im;
     let signal = (ucast (t_edx im) :: u8);
     if target = 0 then ret s img 1
     else if 0 < sint target then
       (if process_get s target = 0 then ret s img 1
        else do {
          s \<leftarrow> upd_thread s img (t_eax_update (\<lambda>_. 0));
          thread_send s img target signal 0
        })
     else do {
       s \<leftarrow> signal_subtree s img (- target) signal;
       ret s img 0
     }
   }"

section \<open>Properties\<close>



text \<open>
  Process names: after a process has set its name to sixteen bytes in four registers, any thread that
  asks for that process's name gets those four words, and every other process keeps its name; a thread
  that tries to name another process changes nothing but its result.
\<close>

theorem process_name_roundtrip:
  assumes "threads s a = Some ta" and "processes s (t_proc ta) = Some pr" and "t_esi ta \<noteq> 0"
    and "threads s b = Some tb" and "t_esi tb = 0" and "process_get s (t_edi tb) = t_proc ta" and "t_proc ta \<noteq> 0"
  shows "if t_edi ta = p_pid pr
    then \<exists>s1. syscall_name s a = Some (a, s1) \<and> (\<forall>p. p \<noteq> t_proc ta \<longrightarrow> processes s1 p = processes s p) \<and>
      syscall_name s1 b = Some (b, s1\<lparr>threads := (threads s)(b \<mapsto> tb\<lparr>t_eax := t_eax ta, t_ebx := t_ebx ta, t_ecx := t_ecx ta, t_edx := t_edx ta\<rparr>)\<rparr>)
    else syscall_name s a = Some (a, s\<lparr>threads := (threads s)(a \<mapsto> ta\<lparr>t_eax := 0\<rparr>)\<rparr>)"
proof -
  let ?s = "s\<lparr>processes := (processes s)(t_proc ta \<mapsto> pr\<lparr>p_name := (t_eax ta, t_ebx ta, t_ecx ta, t_edx ta)\<rparr>)\<rparr>"
  have "syscall_name s a = Some (a, ?s)" if "t_edi ta = p_pid pr"
    using assms(1-3) that by (simp add: syscall_name_def upd_process_def)
  moreover have "syscall_name ?s b = Some (b, ?s\<lparr>threads := (threads s)(b \<mapsto> tb\<lparr>t_eax := t_eax ta, t_ebx := t_ebx ta, t_ecx := t_ecx ta, t_edx := t_edx ta\<rparr>)\<rparr>)"
    using assms(4-7) process_get_cong [of ?s s] by (simp add: syscall_name_def upd_thread_def Let_def)
  ultimately show ?thesis using assms(1-3) by (auto simp: syscall_name_def ret_Some)
qed

theorem process_name_roundtrip_witness:
  "\<exists>s1. syscall_name (ipc_kernel\<lparr>threads := [1 \<mapsto> zero_thread\<lparr>t_proc := 0xF1002000, t_esi := 1, t_edi := 1, t_eax := 0x6C6C6968\<rparr>, 2 \<mapsto> zero_thread\<lparr>t_edi := 1\<rparr>]\<rparr>) 1 = Some (1, s1) \<and>
    (\<exists>s2. syscall_name s1 2 = Some (2, s2) \<and> threads s2 2 = Some (zero_thread\<lparr>t_edi := 1, t_eax := 0x6C6C6968\<rparr>))"
  using process_name_roundtrip [of "ipc_kernel\<lparr>threads := [1 \<mapsto> zero_thread\<lparr>t_proc := 0xF1002000, t_esi := 1, t_edi := 1, t_eax := 0x6C6C6968\<rparr>, 2 \<mapsto> zero_thread\<lparr>t_edi := 1\<rparr>]\<rparr>" 1
    "zero_thread\<lparr>t_proc := 0xF1002000, t_esi := 1, t_edi := 1, t_eax := 0x6C6C6968\<rparr>" "zero_process\<lparr>p_pid := 1, p_space := 0x100000\<rparr>" 2 "zero_thread\<lparr>t_edi := 1\<rparr>"]
  by (auto simp: ipc_kernel_simps process_get_def ipc_kernel_def zero_thread_def zero_process_def)

text \<open>
  \<open>syscall_rirq\<close> does not check the interrupt number: a root process that asks for line 32 replaces
  the handler of \<open>syscall_send\<close>, vector 64, by the interrupt redirection.
\<close>

theorem rirq_overwrites_syscall:
  assumes "threads s img = Some im" and "processes s (t_proc im) = Some pr" and "p_user pr = 0" and "p_rirq pr = IRQ_NULL" and "t_ecx im = 32"
  shows "\<exists>s'. syscall_rirq s img = Some (img, s') \<and> int_handlers s' 0x40 = Some IRQ_REDIRECT"
  using assms
  by (simp add: syscall_rirq_def upd_process_def irq_set_redirect_def Let_def ret_def upd_thread_def IRQ2INT_def int_set_handler_handlers)

theorem rirq_overwrites_syscall_witness:
  "\<exists>s'. syscall_rirq (base_kernel\<lparr>threads := [1 \<mapsto> zero_thread\<lparr>t_proc := 2, t_ecx := 32\<rparr>], processes := [2 \<mapsto> zero_process\<lparr>p_rirq := IRQ_NULL\<rparr>]\<rparr>) 1 = Some (1, s') \<and>
    int_handlers s' 0x40 = Some IRQ_REDIRECT"
  by (rule rirq_overwrites_syscall [of _ _ "zero_thread\<lparr>t_proc := 2, t_ecx := 32\<rparr>" "zero_process\<lparr>p_rirq := IRQ_NULL\<rparr>"])
    (simp_all add: zero_thread_def zero_process_def)

end
