(* ===== verification/Syscall_Memory.thy ===== *)
theory Syscall_Memory
  imports Syscalls
begin

text \<open>
  The system calls on memory: \<open>syscall_page\<close>, \<open>syscall_phys\<close> and \<open>syscall_send\<close>, whose packets are moved
  page table entries.
\<close>

section \<open>Loops over pages\<close>

text \<open>\<open>for (i = address; i < end; i += PAGESZ)\<close>, with the loop variable at its 32-bit width.\<close>

partial_function (option) page_for :: "(u32 \<Rightarrow> 's \<Rightarrow> 's option) \<Rightarrow> u32 \<Rightarrow> u32 \<Rightarrow> 's \<Rightarrow> 's option" where
  "page_for f i end s = (if i < end then do { s \<leftarrow> f i s; page_for f (i + PAGESZ) end s } else Some s)"

section \<open>syscall_page\<close>

definition page_perm :: "u32 \<Rightarrow> u32" where
  "page_perm perm = PF_USER OR PF_PRES OR (if perm AND 2 \<noteq> 0 then PF_RW else 0) OR
     (if perm AND 8 \<noteq> 0 then PF_LOCK else 0) OR (if perm AND 16 \<noteq> 0 then PF_LINK else 0)"

definition null_page :: "u32 \<Rightarrow> kernel \<Rightarrow> kernel option" where
  "null_page i s = do {
     e \<leftarrow> page_get s i;
     if e AND PF_PRES \<noteq> 0 then do {
       e \<leftarrow> page_get s i;
       s \<leftarrow> frame_free s (page_ufmt e);
       page_set s i 0
     }
     else Some s
   }"

definition page_null :: "kernel \<Rightarrow> u32 \<Rightarrow> u32 \<Rightarrow> kernel option" where
  "page_null s address count = page_for null_page address (address + count * PAGESZ) s"

definition anon_page :: "u32 \<Rightarrow> u32 \<Rightarrow> kernel \<Rightarrow> kernel option" where
  "anon_page perm i s = do {
     e \<leftarrow> page_get s i;
     if e AND PF_PRES = 0 then do {
       (f, s) \<leftarrow> frame_new s;
       page_set s i (page_fmt f perm)
     }
     else Some s
   }"

definition page_anon :: "kernel \<Rightarrow> u32 \<Rightarrow> u32 \<Rightarrow> u32 \<Rightarrow> kernel option" where
  "page_anon s address count perm = page_for (anon_page perm) address (address + count * PAGESZ) s"

definition page_pack :: "kernel \<Rightarrow> ptr \<Rightarrow> u32 \<Rightarrow> u32 \<Rightarrow> u32 \<Rightarrow> kernel option" where
  "page_pack s img address count perm = do {
     im \<leftarrow> threads s img;
     m \<leftarrow> msgs s (t_msg im);
     let count = (if count > m_count m then m_count m else count);
     s \<leftarrow> for_list (\<lambda>i s. let v = address + of_nat i * PAGESZ in do {
         e \<leftarrow> page_get s v;
         s \<leftarrow> (if e AND PF_PRES \<noteq> 0 then do { e \<leftarrow> page_get s v; frame_free s (page_ufmt e) } else Some s);
         fr \<leftarrow> msg_frames s (m_frame m);
         if i \<ge> length fr then None
         else if fr ! i AND PF_LOCK \<noteq> 0 then page_set s v (fr ! i)
         else page_set s v (page_fmt (fr ! i) (perm OR PF_LOCK))
       }) [0..<unat count] s;
     s \<leftarrow> for_list (\<lambda>i s. do {
         fr \<leftarrow> msg_frames s (m_frame m);
         if i < length fr then frame_free s (fr ! i) else None
       }) [unat count..<unat (m_count m)] s;
     s \<leftarrow> heap_free s (m_frame m) (m_count m * 4);
     let s = s\<lparr>msg_frames := (msg_frames s)(m_frame m := map_option (\<lambda>fr. fr[0 := heap_words s (m_frame m)]) (msg_frames s (m_frame m)))\<rparr>;
     s \<leftarrow> heap_free s (t_msg im) sizeof_msg;
     let s = s\<lparr>msgs := (msgs s)(t_msg im \<mapsto> m\<lparr>m_count := heap_words s (t_msg im)\<rparr>)\<rparr>;
     upd_thread s img (t_msg_update (\<lambda>_. 0))
   }"

definition page_phys :: "kernel \<Rightarrow> u32 \<Rightarrow> u32 \<Rightarrow> u32 \<Rightarrow> u32 \<Rightarrow> kernel option" where
  "page_phys s address count perm offset = page_for (\<lambda>i s. do {
       e \<leftarrow> page_get s (address + i);
       s \<leftarrow> (if e AND PF_PRES \<noteq> 0 then do { e \<leftarrow> page_get s (address + i); frame_free s (page_ufmt e) } else Some s);
       page_set s (address + i) (page_fmt (offset + i) perm)
     }) 0 (count * PAGESZ) s"

definition page_self :: "kernel \<Rightarrow> u32 \<Rightarrow> u32 \<Rightarrow> u32 \<Rightarrow> kernel option" where
  "page_self s address count offset = for_list (\<lambda>k s. let i = of_nat k * PAGESZ in do {
       e \<leftarrow> page_get s (offset + i);
       if e AND PF_PRES = 0 then Some s
       else do {
         a \<leftarrow> page_get s (address + i);
         s \<leftarrow> (if a \<noteq> 0 then do { a \<leftarrow> page_get s (address + i); frame_free s (page_ufmt a) } else Some s);
         e \<leftarrow> page_get s (offset + i);
         s \<leftarrow> page_set s (address + i) e;
         e \<leftarrow> page_get s (offset + i);
         frame_ref s e
       }
     }) [0..<unat count] s"

definition prot_page :: "u32 \<Rightarrow> u32 \<Rightarrow> kernel \<Rightarrow> kernel option" where
  "prot_page perm i s = do {
     e \<leftarrow> page_get s i;
     if e AND PF_PRES = 0 then Some s
     else do {
       e \<leftarrow> page_get s i;
       if e AND PF_LOCK \<noteq> 0 then Some s
       else do { e \<leftarrow> page_get s i; page_set s i (page_fmt e perm) }
     }
   }"

definition page_prot :: "kernel \<Rightarrow> u32 \<Rightarrow> u32 \<Rightarrow> u32 \<Rightarrow> kernel option" where
  "page_prot s address count perm = page_for (prot_page perm) address (address + count * PAGESZ) s"

definition bad_region :: "u32 \<Rightarrow> u32 \<Rightarrow> bool" where
  "bad_region address count \<longleftrightarrow> address \<ge> KSPACE \<or> address + count * PAGESZ \<ge> KSPACE"

definition finish :: "ptr \<Rightarrow> kernel option \<Rightarrow> (ptr \<times> kernel) option" where
  "finish img r = do { s \<leftarrow> r; ret s img 0 }"

definition syscall_page :: "kernel \<Rightarrow> ptr \<Rightarrow> (ptr \<times> kernel) option" where
  "syscall_page s img = do {
     im \<leftarrow> threads s img;
     let address = t_ebx im;
     let count = t_ecx im;
     let perm = t_edx im;
     let source = t_esi im;
     let offset = t_edi im;
     if address AND 0xFFF \<noteq> 0 then ret s img 1
     else if bad_region address count then ret s img 1
     else let perm = page_perm perm in
       if source = 0 then finish img (page_null s address count)
       else if source = 1 then
         (if out_of_memory s then ret s img 1 else finish img (page_anon s address count perm))
       else if source = 2 then
         (if t_msg im = 0 then ret s img 1 else finish img (page_pack s img address count perm))
       else if source = 3 then
         (if t_user im \<noteq> 0 then ret s img 1 else finish img (page_phys s address count perm offset))
       else if source = 4 then
         (if offset AND 0xFFF \<noteq> 0 then ret s img 1
          else if bad_region offset count then ret s img 1
          else finish img (page_self s address count offset))
       else if source = 5 then finish img (page_prot s address count perm)
       else ret s img 1
   }"

section \<open>syscall_phys\<close>

definition syscall_phys :: "kernel \<Rightarrow> ptr \<Rightarrow> (ptr \<times> kernel) option" where
  "syscall_phys s img = do {
     im \<leftarrow> threads s img;
     let address = t_ecx im;
     if address AND 0xFFF \<noteq> 0 then ret s img 0
     else if t_user im \<noteq> 0 then do {
       e \<leftarrow> page_get s address;
       ret s img (e AND NOT (PF_PRES OR PF_RW OR PF_USER))
     }
     else do { e \<leftarrow> page_get s address; ret s img e }
   }"

section \<open>syscall_send\<close>

text \<open>The loop that verifies the region stops at the first absent page.\<close>

primrec region_present :: "kernel \<Rightarrow> u32 \<Rightarrow> nat list \<Rightarrow> bool option" where
  "region_present s base [] = Some True"
| "region_present s base (i # is) = do {
     e \<leftarrow> page_get s (base + of_nat i * PAGESZ);
     if e AND PF_PRES = 0 then Some False else region_present s base is
   }"

definition take_page :: "u32 \<Rightarrow> ptr \<Rightarrow> nat \<Rightarrow> kernel \<Rightarrow> kernel option" where
  "take_page base frame i s = do {
     e \<leftarrow> page_get s (base + of_nat i * PAGESZ);
     fr \<leftarrow> msg_frames s frame;
     let s = s\<lparr>msg_frames := (msg_frames s)(frame \<mapsto> fr[i := e])\<rparr>;
     page_set s (base + of_nat i * PAGESZ) 0
   }"

definition take_packet :: "kernel \<Rightarrow> u32 \<Rightarrow> u32 \<Rightarrow> (ptr \<times> kernel) option" where
  "take_packet s base count = do {
     (message, s) \<leftarrow> heap_alloc s sizeof_msg;
     s \<leftarrow> (if message = 0 then None else Some (s\<lparr>msgs := (msgs s)(message \<mapsto> \<lparr>m_count = count, m_frame = 0\<rparr>)\<rparr>));
     (frame, s) \<leftarrow> heap_alloc s (count * 4);
     let s = s\<lparr>msgs := (msgs s)(message \<mapsto> \<lparr>m_count = count, m_frame = frame\<rparr>)\<rparr>;
     s \<leftarrow> (if frame = 0 then None else Some (s\<lparr>msg_frames := (msg_frames s)(frame \<mapsto> replicate (unat count) 0)\<rparr>));
     s \<leftarrow> for_list (take_page base frame) [0..<unat count] s;
     Some (message, s)
   }"

definition syscall_send :: "kernel \<Rightarrow> ptr \<Rightarrow> (ptr \<times> kernel) option" where
  "syscall_send s img = do {
     im \<leftarrow> threads s img;
     let base = t_ebx im;
     let count = t_ecx im;
     let port = t_edx im;
     let target = t_esi im;
     if target = 0 then do {
       s \<leftarrow> upd_thread s img (t_eax_update (\<lambda>_. 0));
       schedule_next s
     }
     else if process_get s target = 0 then ret s img 1
     else if count \<noteq> 0 then
       (if base AND 0xFFF \<noteq> 0 then ret s img 1
        else if bad_region base count then ret s img 1
        else if count > 0x4000 then ret s img 1
        else do {
          ok \<leftarrow> region_present s base [0..<unat count];
          if \<not> ok then ret s img 1
          else do {
            (message, s) \<leftarrow> take_packet s base count;
            s \<leftarrow> upd_thread s img (t_eax_update (\<lambda>_. 0));
            thread_send s img target (ucast port) message
          }
        })
     else do {
       s \<leftarrow> upd_thread s img (t_eax_update (\<lambda>_. 0));
       thread_send s img target (ucast port) 0
     }
   }"

section \<open>Regions\<close>

text \<open>Loops whose variable cannot wrap: induction on the distance to the end.\<close>

lemma page_loop_eqI:
  assumes "e \<le> 0xFFFFF000" and "\<And>i s. \<not> i < e \<Longrightarrow> g s i = Some s"
    and "\<And>i s. i < e \<Longrightarrow> (\<And>s. page_for f (i + PAGESZ) e s = g s (i + PAGESZ)) \<Longrightarrow>
      do { s \<leftarrow> f i s; g s (i + PAGESZ) } = g s i"
  shows "page_for f i e s = g s i"
proof (induction "unat e - unat i" arbitrary: i s rule: less_induct)
  case less
  show ?case
  proof (cases "i < e")
    case True
    have "unat (i + PAGESZ) = unat i + 0x1000"
      using True assms(1) by (simp add: word_less_nat_alt word_le_nat_alt unat_word_ariths)
    then have "unat e - unat (i + PAGESZ) < unat e - unat i" using True by (simp add: word_less_nat_alt)
    note IH = less [OF this]
    have "page_for f (i + PAGESZ) e = (\<lambda>s. g s (i + PAGESZ))" by (rule ext) (rule IH)
    then show ?thesis using True assms(3) [OF True IH, of s] by (simp only: page_for.simps [of _ i] if_True)
  next
    case False
    then show ?thesis using assms(2) by (simp add: page_for.simps [of _ i])
  qed
qed

lemma page_for_null: "e \<le> 0xFFFFF000 \<Longrightarrow> page_for null_page i e s = mem_free_loop s i e"
proof (rule page_loop_eqI [where g = "\<lambda>s i. mem_free_loop s i e"])
  fix i s assume "i < e"
  then show "do { s \<leftarrow> null_page i s; mem_free_loop s (i + PAGESZ) e } = mem_free_loop s i e"
    by (subst mem_free_loop.simps [of _ i]) (auto simp: null_page_def split: Option.bind_split)
qed (auto simp: mem_free_loop.simps)

lemma page_for_anon:
  assumes "\<And>f. page_fmt f perm = page_fmt f ((ucast fl AND PF_MASK) OR PF_PRES)"
  shows "e \<le> 0xFFFFF000 \<Longrightarrow> page_for (anon_page perm) i e s = mem_alloc_loop s i e fl"
proof (rule page_loop_eqI [where g = "\<lambda>s i. mem_alloc_loop s i e fl"])
  fix i s assume "i < e"
  then show "do { s \<leftarrow> anon_page perm i s; mem_alloc_loop s (i + PAGESZ) e fl } = mem_alloc_loop s i e fl"
    by (subst mem_alloc_loop.simps [of _ i]) (auto simp: anon_page_def assms split: Option.bind_split)
qed (auto simp: mem_alloc_loop.simps)

lemma page_perm_flags:
  "(ucast (ucast (page_perm p) :: u16) AND PF_MASK) OR PF_PRES = page_perm p" "page_perm p AND PF_MASK = page_perm p"
  by (simp_all add: page_perm_def)

section \<open>Views of the kernel state\<close>

lemma mmu_cong:
  assumes "frame_state.truncate t = frame_state.truncate s" "phys t = phys s" "cr3 t = cr3 s"
  shows "free_frame t g = free_frame s g" "page_entry t v = page_entry s v"
proof -
  have eq: "frame_mem t = frame_mem s" "frame_list t = frame_list s" "frame_hash t = frame_hash s"
    "out_of_memory t = out_of_memory s" "oom_pool t = oom_pool s"
    using assms(1) by (simp_all add: frame_state.defs)
  have "frame_rep t fl al = frame_rep s fl al" for fl al by (rule frame_rep_cong) (fact eq)+
  then show "free_frame t g = free_frame s g" by (simp add: free_frame_def frame_avail_def frame_pool_def eq)
  show "page_entry t v = page_entry s v" by (simp add: dir_entry_def assms(2,3) Let_def)
qed

lemma view_upd [simp]:
  fixes s :: kernel
  shows "space_ok (s\<lparr>threads := x\<rparr>) = space_ok s" "free_frame (s\<lparr>threads := x\<rparr>) g = free_frame s g"
    "space_ok (s\<lparr>msg_frames := y\<rparr>) = space_ok s" "space_ok (s\<lparr>msgs := z\<rparr>) = space_ok s"
    "dir_entry (s\<lparr>threads := x\<rparr>) d v = dir_entry s d v" "dir_entry (s\<lparr>msg_frames := y\<rparr>) d v = dir_entry s d v"
    "dir_entry (s\<lparr>msgs := z\<rparr>) d v = dir_entry s d v"
  by (rule space_ok_cong mmu_cong; simp add: frame_state.defs | simp add: dir_entry_def Let_def)+

lemma kernel_more:
  "mmu_state.more (t :: kernel) = mmu_state.more s \<Longrightarrow> threads t = threads s \<and> processes t = processes s \<and> msgs t = msgs s \<and>
     msg_frames t = msg_frames s \<and> process_table t = process_table s \<and> sched_out t = sched_out s \<and> sched_in t = sched_in s"
  by (cases s; cases t) simp

lemma pages_alloc_threads: "pages_alloc A fl s (s'\<lparr>threads := x\<rparr>) = pages_alloc A fl s (s' :: kernel)"
  by (simp add: pages_alloc_def)

lemma aligned_page:
  assumes "(a :: u32) AND 0xFFF = 0"
  shows "unat a = pg a * 0x1000"
proof -
  have "a AND 0xFFF = take_bit 12 a" by (simp add: take_bit_eq_mask mask_eq_exp_minus_1)
  then have "unat (take_bit 12 a) = 0" using assms by simp
  then have "unat a mod 0x1000 = 0" by (simp add: unsigned_take_bit_eq take_bit_eq_mod unat_mod)
  then show ?thesis using div_mult_mod_eq [of "unat a" "0x1000"] by linarith
qed

lemma region_end:
  fixes a n :: u32
  assumes "unat a + unat n * 0x1000 < 0xF0000000"
  shows "unat (n * PAGESZ) = unat n * 0x1000" "unat (a + n * PAGESZ) = unat a + unat n * 0x1000" "\<not> bad_region a n"
proof -
  show n: "unat (n * PAGESZ) = unat n * 0x1000" using assms by (simp add: unat_word_ariths)
  show "unat (a + n * PAGESZ) = unat a + unat n * 0x1000" using assms n by (simp add: unat_word_ariths)
  then show "\<not> bad_region a n" using assms by (simp add: bad_region_def word_le_nat_alt)
qed

lemma page_of_region:
  assumes "unat base + n * 0x1000 < 0xF0000000" and "unat base = pg base * 0x1000" and "k < n"
  shows "pg (base + of_nat k * PAGESZ) = pg base + k" "pg (base + of_nat k * PAGESZ) < 0xFF800"
proof -
  have k: "unat base + k * 0x1000 < 0xF0000000" using assms(1,3) by linarith
  then have "unat (of_nat k * PAGESZ) = k * 0x1000" by (simp add: unat_word_ariths unat_of_nat)
  then have "unat (base + of_nat k * PAGESZ) = unat base + k * 0x1000" using k by (simp add: unat_word_ariths)
  then show pg: "pg (base + of_nat k * PAGESZ) = pg base + k" by simp
  have "x < 0xFF800" if "x * 0x1000 < 0xF0000000" for x :: nat using that by linarith
  from this [of "pg base + k"] show "pg (base + of_nat k * PAGESZ) < 0xFF800"
    unfolding pg using k assms(2) by (simp only: distrib_right)
qed

section \<open>Properties\<close>

text \<open>
  Anonymous memory: \<open>syscall_page\<close> with \<open>PAGE_ANON\<close> on an aligned region below the kernel, with enough
  free frames, returns zero; every absent page of the region is then mapped to a frame of its own that
  was free, with the requested protection, present pages of the region and all pages outside it, the
  kernel's among them, are unchanged, and so are all threads but for the caller's result.
\<close>

theorem syscall_page_anon:
  assumes "space_ok s" and "threads s img = Some im" and "t_esi im = 1" and "t_ebx im AND 0xFFF = 0"
    and "unat (t_ebx im) + unat (t_ecx im) * 0x1000 < 0xF0000000" and "\<not> out_of_memory s" and "2 * unat (t_ecx im) \<le> frame_count s"
  shows "\<exists>s'. syscall_page s img = Some (img, s') \<and> space_ok s' \<and> threads s' = (threads s)(img \<mapsto> im\<lparr>t_eax := 0\<rparr>) \<and>
    pages_alloc {pg (t_ebx im)..<pg (t_ebx im) + unat (t_ecx im)} (page_perm (t_edx im)) s s'"
proof -
  let ?a = "t_ebx im" and ?n = "t_ecx im" and ?e = "t_ebx im + t_ecx im * PAGESZ" and ?p = "page_perm (t_edx im)"
  note E = region_end [OF assms(5)]
  have al: "unat ?a = pg ?a * 0x1000" using aligned_page [OF assms(4)] .
  have e: "?e \<le> 0xFFFFF000" using assms(5) E(2) by (simp add: word_le_nat_alt)
  have b: "unat ?e \<le> (pg ?a + unat ?n) * 0x1000" "(pg ?a + unat ?n) * 0x1000 < unat ?e + 0x1000" "pg ?a + unat ?n \<le> 0xFF800"
    using E(2) al assms(5) by (auto simp: algebra_simps)
  obtain s1 where s1: "mem_alloc_loop s ?a ?e (ucast ?p) = Some s1" "space_ok s1" "pages_alloc {pg ?a..<pg ?a + unat ?n} ?p s s1"
    using mem_alloc_loop_ok [OF assms(1) al _ b, of "ucast ?p"] assms(7) unfolding page_perm_flags(1) by auto
  have "page_anon s ?a ?n ?p = Some s1"
    unfolding page_anon_def using page_for_anon [OF _ e, of ?p "ucast ?p"] s1(1) page_perm_flags(1) by simp
  moreover have t: "threads s1 = threads s" using kernel_more [OF mem_alloc_loop_more [OF s1(1)]] by blast
  ultimately have "syscall_page s img = Some (img, s1\<lparr>threads := (threads s)(img \<mapsto> im\<lparr>t_eax := 0\<rparr>)\<rparr>)"
    using assms(2-6) E(3) by (simp add: syscall_page_def Let_def finish_def ret_Some)
  then show ?thesis using s1(2,3) by (simp add: pages_alloc_threads)
qed

text \<open>The base kernel's address space, for examples.\<close>

lemma base_kernel_space: "space_ok base_kernel" "4 \<le> frame_count base_kernel" "\<not> out_of_memory base_kernel"
proof -
  have eq: "frame_state.truncate base_kernel = frame_state.truncate fresh_heap" "phys base_kernel = phys fresh_heap"
    "cr3 base_kernel = cr3 fresh_heap"
    by (simp_all add: base_kernel_def heap_state.extend_def frame_state.defs)
  then show "space_ok base_kernel" "4 \<le> frame_count base_kernel" using space_ok_cong [OF eq] fresh_heap_ok by simp_all
  show "\<not> out_of_memory base_kernel"
    by (simp add: base_kernel_def heap_state.extend_def fresh_heap_def mmu_state.extend_def empty_space_def frame_state.extend_def two_frames_def)
qed

theorem syscall_page_anon_witness:
  "\<exists>s'. syscall_page (base_kernel\<lparr>threads := [1 \<mapsto> zero_thread\<lparr>t_esi := 1, t_ebx := 0x1000, t_ecx := 2, t_edx := 2\<rparr>]\<rparr>) 1 = Some (1, s') \<and>
    space_ok s' \<and> pages_alloc {1..<3} (page_perm 2)
      (base_kernel\<lparr>threads := [1 \<mapsto> zero_thread\<lparr>t_esi := 1, t_ebx := 0x1000, t_ecx := 2, t_edx := 2\<rparr>]\<rparr>) s'"
proof -
  let ?s = "base_kernel\<lparr>threads := [1 \<mapsto> zero_thread\<lparr>t_esi := 1, t_ebx := 0x1000, t_ecx := 2, t_edx := 2\<rparr>]\<rparr>"
  have "frame_count ?s = frame_count base_kernel" by (rule space_ok_cong) (simp_all add: frame_state.defs)
  then have "2 * unat (t_ecx (zero_thread\<lparr>t_esi := 1, t_ebx := 0x1000, t_ecx := 2, t_edx := 2\<rparr>)) \<le> frame_count ?s"
    using base_kernel_space(2) by simp
  then show ?thesis
    using syscall_page_anon [of ?s 1 "zero_thread\<lparr>t_esi := 1, t_ebx := 0x1000, t_ecx := 2, t_edx := 2\<rparr>"] base_kernel_space(1,3)
    by (auto simp: numeral_3_eq_3)
qed

lemma take_loop:
  fixes s :: kernel
  assumes "space_ok s" and "unat base + n * 0x1000 < 0xF0000000" and "unat base = pg base * 0x1000"
    and "\<forall>i < n. pres (page_entry s (base + of_nat i * PAGESZ))" and "msg_frames s frame = Some (replicate n 0)" and "k \<le> n"
  shows "\<exists>s'. for_list (take_page base frame) [0..<k] s = Some s' \<and> space_ok s' \<and>
     (\<forall>w. pg w < 0xFF800 \<longrightarrow> page_entry s' w = (if pg w \<in> {pg base..<pg base + k} then 0 else page_entry s w)) \<and>
     msg_frames s' = (msg_frames s)(frame \<mapsto> map (\<lambda>i. page_entry s (base + of_nat i * PAGESZ)) [0..<k] @ replicate (n - k) 0) \<and>
     mmu_state.more (s'\<lparr>msg_frames := msg_frames s\<rparr>) = mmu_state.more s"
  using assms(6)
proof (induction k)
  case 0
  show ?case by (intro exI [of _ s]) (use assms(1,5) in \<open>auto simp: fun_upd_idem\<close>)
next
  case (Suc k)
  let ?v = "base + of_nat k * PAGESZ"
  obtain s1 where s1: "for_list (take_page base frame) [0..<k] s = Some s1" "space_ok s1"
     "\<forall>w. pg w < 0xFF800 \<longrightarrow> page_entry s1 w = (if pg w \<in> {pg base..<pg base + k} then 0 else page_entry s w)"
     "msg_frames s1 = (msg_frames s)(frame \<mapsto> map (\<lambda>i. page_entry s (base + of_nat i * PAGESZ)) [0..<k] @ replicate (n - k) 0)"
     "mmu_state.more (s1\<lparr>msg_frames := msg_frames s\<rparr>) = mmu_state.more s"
    using Suc.IH Suc.prems by (meson Suc_leD)
  have u: "pg ?v = pg base + k" "pg ?v < 0xFF800"
    using page_of_region [OF assms(2,3), of k] Suc.prems by auto
  let ?e = "page_entry s ?v"
  have e: "page_entry s1 ?v = ?e" using s1(3) u by auto
  let ?l = "map (\<lambda>i. page_entry s (base + of_nat i * PAGESZ)) [0..<Suc k] @ replicate (n - Suc k) 0"
  let ?s = "s1\<lparr>msg_frames := (msg_frames s)(frame \<mapsto> ?l)\<rparr>"
  have l: "(map (\<lambda>i. page_entry s (base + of_nat i * PAGESZ)) [0..<k] @ replicate (n - k) 0)[k := ?e] = ?l"
    using Suc.prems by (simp add: list_update_append Suc_diff_Suc [symmetric])
  have p: "pres (page_entry ?s ?v)" using e assms(4) Suc.prems by simp
  obtain s2 where s2: "page_set ?s ?v 0 = Some s2" "space_ok s2"
    "\<forall>w. pg w < 0xFF800 \<longrightarrow> page_entry s2 w = (if pg w = pg ?v then 0 else page_entry ?s w)"
    using page_clear_ok [OF _ u(2) p] s1(2) by auto
  have m2: "mmu_state.more s2 = mmu_state.more ?s" using page_set_more [OF s2(1)] .
  have "msg_frames s2 = (msg_frames s)(frame \<mapsto> ?l)" using kernel_more [OF m2] by simp
  moreover have "mmu_state.more (s2\<lparr>msg_frames := msg_frames s\<rparr>) = mmu_state.more s"
    using m2 s1(5) by (cases s2; cases s1; cases s) simp
  moreover have "page_entry s2 w = (if pg w \<in> {pg base..<pg base + Suc k} then 0 else page_entry s w)" if "pg w < 0xFF800" for w
    using s2(3) s1(3) u(1) that by auto
  moreover have "page_get s1 ?v = Some ?e" using page_get_ok [OF s1(2)] e by simp
  moreover have "take_page base frame k s1 = Some s2" using calculation(4) s1(4) s2(1) l by (simp add: take_page_def)
  ultimately show ?case using s1(1) s2(2) by (intro exI [of _ s2]) (simp add: for_list_append)
qed

lemma heap_alloc_packet:
  fixes s :: kernel
  assumes R: "heap_rep s F L" and sz: "sz \<le> 0x20000" and F: "F (bucket_for sz) = p # ps"
  obtains s' where "heap_alloc s sz = Some (p, s')" "p \<noteq> 0" "heap_rep s' (F(bucket_for sz := ps)) (insert (p, bucket_for sz) L)"
    "space_ok s' = space_ok s" "phys s' = phys s" "cr3 s' = cr3 s" "heap_state.more s' = heap_state.more s"
proof -
  obtain s' where s': "heap_alloc s sz = Some (p, s')" "same_mmu s s'" "heap_rep s' (F(bucket_for sz := ps)) (insert (p, bucket_for sz) L)"
    using heap_alloc_take [OF R sz F] by auto
  moreover have "p \<noteq> 0" using heap_repD(2) [OF s'(3), of "(p, bucket_for sz)"] block_nonzero by blast
  moreover have "phys s' = phys s" "cr3 s' = cr3 s" "heap_state.more s' = heap_state.more s" using s'(2) by (auto simp: same_mmu_def)
  ultimately show ?thesis using that same_mmu_space(1) [OF s'(2)] by blast
qed

lemma heap_more:
  "heap_state.more (t :: kernel) = heap_state.more s \<Longrightarrow> threads t = threads s \<and> msgs t = msgs s \<and> msg_frames t = msg_frames s"
  by (cases s; cases t) simp

text \<open>
  C10. Taking a packet: for a region of present pages below the kernel, and free heap blocks for the
  message, \<open>syscall_send\<close>'s packet holds the page table entries of the region in order, the region is
  unmapped in the sender and every other page is mapped as before: each frame of the packet has moved.
\<close>

theorem take_packet_moves:
  assumes "space_ok s" and "heap_rep s F L" and "F (bucket_for sizeof_msg) = m # ms"
    and "(F(bucket_for sizeof_msg := ms)) (bucket_for (count * 4)) = f # fs" and "base AND 0xFFF = 0" and "count \<le> 0x4000"
    and "unat base + unat count * 0x1000 < 0xF0000000" and "\<forall>i < unat count. pres (page_entry s (base + of_nat i * PAGESZ))"
  shows "\<exists>s'. take_packet s base count = Some (m, s') \<and> space_ok s' \<and> threads s' = threads s \<and>
    msgs s' = (msgs s)(m \<mapsto> \<lparr>m_count = count, m_frame = f\<rparr>) \<and>
    msg_frames s' = (msg_frames s)(f \<mapsto> map (\<lambda>i. page_entry s (base + of_nat i * PAGESZ)) [0..<unat count]) \<and>
    (\<forall>w. pg w < 0xFF800 \<longrightarrow> page_entry s' w = (if pg w \<in> {pg base..<pg base + unat count} then 0 else page_entry s w))"
proof -
  have c: "count * 4 \<le> 0x20000" using assms(6) by (simp add: word_le_nat_alt unat_word_ariths)
  obtain s1 where s1: "heap_alloc s sizeof_msg = Some (m, s1)" "m \<noteq> 0"
    "heap_rep s1 (F(bucket_for sizeof_msg := ms)) (insert (m, bucket_for sizeof_msg) L)"
    "space_ok s1 = space_ok s" "phys s1 = phys s" "cr3 s1 = cr3 s" "heap_state.more s1 = heap_state.more s"
    by (rule heap_alloc_packet [OF assms(2) _ assms(3)]) simp
  let ?s2 = "s1\<lparr>msgs := (msgs s1)(m \<mapsto> \<lparr>m_count = count, m_frame = 0\<rparr>)\<rparr>"
  have "heap_rep ?s2 (F(bucket_for sizeof_msg := ms)) (insert (m, bucket_for sizeof_msg) L)"
    using s1(3) by (simp add: heap_rep_cong [of ?s2 s1])
  then obtain s3 where s3: "heap_alloc ?s2 (count * 4) = Some (f, s3)" "f \<noteq> 0" "space_ok s3 = space_ok ?s2" "phys s3 = phys ?s2"
    "cr3 s3 = cr3 ?s2" "heap_state.more s3 = heap_state.more ?s2"
    by (rule heap_alloc_packet [where F = "F(bucket_for sizeof_msg := ms)", OF _ c assms(4)]) blast
  let ?s4 = "s3\<lparr>msgs := (msgs s3)(m \<mapsto> \<lparr>m_count = count, m_frame = f\<rparr>), msg_frames := (msg_frames s3)(f \<mapsto> replicate (unat count) 0)\<rparr>"
  have H: "threads s3 = threads s" "msg_frames s3 = msg_frames s" "msgs ?s4 = (msgs s)(m \<mapsto> \<lparr>m_count = count, m_frame = f\<rparr>)"
    using heap_more [OF s3(6)] heap_more [OF s1(7)] by simp_all
  have e: "page_entry ?s4 w = page_entry s w" for w using s1(5,6) s3(4,5) by (simp add: dir_entry_def Let_def)
  obtain s5 where s5: "for_list (take_page base f) [0..<unat count] ?s4 = Some s5" "space_ok s5"
    "\<forall>w. pg w < 0xFF800 \<longrightarrow> page_entry s5 w = (if pg w \<in> {pg base..<pg base + unat count} then 0 else page_entry ?s4 w)"
    "msg_frames s5 = (msg_frames ?s4)(f \<mapsto> map (\<lambda>i. page_entry ?s4 (base + of_nat i * PAGESZ)) [0..<unat count] @ replicate (unat count - unat count) 0)"
    "mmu_state.more (s5\<lparr>msg_frames := msg_frames ?s4\<rparr>) = mmu_state.more ?s4"
    using take_loop [OF _ assms(7) aligned_page [OF assms(5)], of ?s4 f "unat count"] assms(1,8) s1(4) s3(3) unfolding e by auto
  have "threads s5 = threads ?s4" "msgs s5 = msgs ?s4" using kernel_more [OF s5(5)] by simp_all
  moreover have "take_packet s base count = Some (m, s5)"
    using s1(1,2) s3(1,2) s5(1) by (simp add: take_packet_def Let_def)
  ultimately show ?thesis using s5(2-4) H unfolding e by (intro exI [of _ s5]) simp
qed

text \<open>A kernel with one free heap block in each of the two smallest buckets.\<close>

definition packet_kernel :: kernel where
  "packet_kernel = base_kernel\<lparr>heap_bucket := (\<lambda>_. 0)(0 := 0xF1000008, 1 := 0xF1000000), heap_brk := 0xF1001000, heap_words := (\<lambda>_. 0)\<rparr>"

lemma packet_kernel_rep: "heap_rep packet_kernel ((\<lambda>_. [])(0 := [0xF1000008], 1 := [0xF1000000])) {}"
proof -
  have "free_blocks ((\<lambda>_. [])(0 := [0xF1000008], 1 := [0xF1000000])) = {(0xF1000008, 0), (0xF1000000, 1)}"
    by (auto simp: free_blocks_def split: if_splits)
  then show ?thesis
    by (auto simp: heap_rep_def packet_kernel_def pairwise_def block_ok_def blk_def)
qed

lemma packet_kernel_bucket: "bucket_for sizeof_msg = 1" "bucket_for 4 = 0"
  using bucket_for_block [of 1] bucket_for_block [of 0] by simp_all

lemma heap_rep_more: "mmu_state.more t = mmu_state.more s \<Longrightarrow> heap_rep t F L = heap_rep s F L"
  by (rule heap_rep_cong; cases s; cases t; simp)

theorem take_packet_moves_witness:
  "\<exists>s s'. pres (page_entry s 0x1000) \<and> take_packet s 0x1000 1 = Some (0xF1000000, s') \<and> page_entry s' 0x1000 = 0 \<and>
     msg_frames s' 0xF1000008 = Some [page_entry s 0x1000]"
proof -
  have sp: "space_ok packet_kernel" "frame_count packet_kernel = frame_count base_kernel"
    using space_ok_cong [of packet_kernel base_kernel] base_kernel_space(1) by (simp_all add: packet_kernel_def frame_state.defs)
  then obtain s where s: "mem_alloc_loop packet_kernel 0x1000 0x2000 0 = Some s" "space_ok s" "pages_alloc {1..<2} PF_PRES packet_kernel s"
    using mem_alloc_loop_ok [of packet_kernel "0x1000" 1 2 "0x2000" 0] base_kernel_space(2) by auto
  have "pg 0x1000 < 0xFF800 \<longrightarrow> (if pg 0x1000 \<in> {1..<2} \<and> \<not> pres (page_entry packet_kernel 0x1000)
      then \<exists>f. free_frame packet_kernel (fnum f) \<and> \<not> free_frame s (fnum f) \<and> page_entry s 0x1000 = page_fmt f PF_PRES
      else page_entry s 0x1000 = page_entry packet_kernel 0x1000)"
    using s(3) unfolding pages_alloc_def by (elim conjE allE)
  then have "pres (page_entry s 0x1000)" using page_fmt_facts(2) [of _ 0] by (auto split: if_splits)
  moreover have "mmu_state.more s = mmu_state.more packet_kernel" using mem_alloc_loop_more [OF s(1)] .
  then have "heap_rep s ((\<lambda>_. [])(0 := [0xF1000008], 1 := [0xF1000000])) {}"
    using packet_kernel_rep heap_rep_more by blast
  ultimately show ?thesis
    using take_packet_moves [OF s(2), of "(\<lambda>_. [])(0 := [0xF1000008], 1 := [0xF1000000])" "{}" "0xF1000000" "[]" 1 "0xF1000008" "[]" "0x1000"]
    by (fastforce simp: packet_kernel_bucket)
qed

lemma region_present_all:
  assumes "space_ok (s :: kernel)"
  shows "region_present s base is = Some (\<forall>i \<in> set is. pres (page_entry s (base + of_nat i * PAGESZ)))"
  using page_get_ok [OF assms] by (induction "is") auto

text \<open>
  Rejected messages: \<open>syscall_send\<close> to a process that does not exist, or with a packet that is
  misaligned, reaches the kernel, is longer than 64 MiB or is not mapped throughout, returns 1 to the
  sender and changes nothing else: no page moves and no thread is made.
\<close>

theorem syscall_send_rejected:
  assumes "space_ok s" and "threads s img = Some im" and "t_esi im \<noteq> 0"
    and "process_get s (t_esi im) = 0 \<or> (t_ecx im \<noteq> 0 \<and> (t_ebx im AND 0xFFF \<noteq> 0 \<or> t_ebx im \<ge> 0xF0000000 \<or>
      unat (t_ebx im) + unat (t_ecx im) * 0x1000 \<ge> 0xF0000000 \<or>
      (\<exists>i < unat (t_ecx im). \<not> pres (page_entry s (t_ebx im + of_nat i * PAGESZ)))))"
  shows "syscall_send s img = Some (img, s\<lparr>threads := (threads s)(img \<mapsto> im\<lparr>t_eax := 1\<rparr>)\<rparr>)"
proof -
  have big: "bad_region b n \<or> n > 0x4000" if "unat b + unat n * 0x1000 \<ge> 0xF0000000" for b n :: u32
  proof (rule disjCI)
    assume "\<not> n > 0x4000"
    then have n: "unat n \<le> 0x4000" by (simp add: word_less_nat_alt)
    then have m: "unat (n * PAGESZ) = unat n * 0x1000" by (simp add: unat_word_ariths)
    show "bad_region b n"
      using that n m by (cases "b \<ge> KSPACE") (auto simp: bad_region_def word_le_nat_alt unat_word_ariths)
  qed
  show ?thesis
    using assms big [of "t_ebx im" "t_ecx im"]
    by (auto simp: syscall_send_def Let_def ret_Some region_present_all [OF assms(1)] bad_region_def)
qed

theorem syscall_send_rejected_witness:
  "syscall_send (base_kernel\<lparr>threads := [1 \<mapsto> zero_thread\<lparr>t_esi := 5\<rparr>]\<rparr>) 1 =
    Some (1, base_kernel\<lparr>threads := [1 \<mapsto> zero_thread\<lparr>t_esi := 5, t_eax := 1\<rparr>]\<rparr>)"
proof -
  have "process_get (base_kernel\<lparr>threads := [1 \<mapsto> zero_thread\<lparr>t_esi := 5\<rparr>]\<rparr>) 5 = 0"
    by (simp add: process_get_def base_kernel_def heap_state.extend_def)
  then show ?thesis
    using syscall_send_rejected [of "base_kernel\<lparr>threads := [1 \<mapsto> zero_thread\<lparr>t_esi := 5\<rparr>]\<rparr>" 1 "zero_thread\<lparr>t_esi := 5\<rparr>"]
      base_kernel_space(1) by simp
qed

end
