(* ===== verification/Faults.thy ===== *)
theory Faults
  imports Syscall_Memory
begin

text \<open>
  The fault handlers of \<open>kernel/fault\<close>, among them the monitor that emulates the privileged
  instructions of virtual 8086 code. Diagnostic output is left out, but not the memory accesses made for
  it: \<open>fault_page\<close> dumps thirty words of the user stack.
\<close>

section \<open>Bytes and half words of virtual memory\<close>

definition load8 :: "'a mmu_state_scheme \<Rightarrow> u32 \<Rightarrow> u8 option" where
  "load8 s a = map_option (\<lambda>w. ucast (drop_bit (8 * unat (a AND 3)) w)) (load32 s a)"

definition store8 :: "'a mmu_state_scheme \<Rightarrow> u32 \<Rightarrow> u8 \<Rightarrow> 'a mmu_state_scheme option" where
  "store8 s a b = do {
     w \<leftarrow> load32 s a;
     let k = 8 * unat (a AND 3);
     store32 s a ((w AND NOT (push_bit k 0xFF)) OR push_bit k (ucast b))
   }"

definition load16 :: "'a mmu_state_scheme \<Rightarrow> u32 \<Rightarrow> u16 option" where
  "load16 s a = do { lo \<leftarrow> load8 s a; hi \<leftarrow> load8 s (a + 1); Some (ucast lo OR push_bit 8 (ucast hi)) }"

definition store16 :: "'a mmu_state_scheme \<Rightarrow> u32 \<Rightarrow> u16 \<Rightarrow> 'a mmu_state_scheme option" where
  "store16 s a h = do { s \<leftarrow> store8 s a (ucast h); store8 s (a + 1) (ucast (drop_bit 8 h)) }"

section \<open>The virtual 8086 monitor\<close>

definition outw :: "kernel \<Rightarrow> u16 \<Rightarrow> u32 \<Rightarrow> kernel" where
  "outw s port v = s\<lparr>out_ports := out_ports s @ [(port, v)]\<rparr>"

definition outd :: "kernel \<Rightarrow> u16 \<Rightarrow> u32 \<Rightarrow> kernel" where
  "outd s port v = s\<lparr>out_ports := out_ports s @ [(port, v)]\<rparr>"

definition inb :: "kernel \<Rightarrow> u16 \<Rightarrow> u8" where "inb s port = ucast (in_port s port)"
definition inw :: "kernel \<Rightarrow> u16 \<Rightarrow> u16" where "inw s port = ucast (in_port s port)"
definition ind :: "kernel \<Rightarrow> u16 \<Rightarrow> u32" where "ind s port = in_port s port"

definition low16 :: "u32 \<Rightarrow> u32" where
  "low16 v = ucast (ucast v :: u16)"

text \<open>The next instruction of the emulated program.\<close>

definition next_ip :: "kernel \<Rightarrow> ptr \<Rightarrow> kernel option" where
  "next_ip s img = upd_thread s img (\<lambda>t. t\<lparr>t_eip := low16 (t_eip t + 1)\<rparr>)"

definition vm86_pushf :: "kernel \<Rightarrow> ptr \<Rightarrow> u32 \<Rightarrow> bool \<Rightarrow> (nat \<times> kernel) option" where
  "vm86_pushf s img stack o32 = do {
     im \<leftarrow> threads s img;
     (stack, s) \<leftarrow> (if o32 then do {
         s \<leftarrow> upd_thread s img (\<lambda>t. t\<lparr>t_useresp := low16 (t_useresp t - 4)\<rparr>);
         let stack = stack - 4;
         s \<leftarrow> store16 s stack (ucast (t_eflags im));
         s \<leftarrow> store16 s (stack + 2) (ucast (drop_bit 16 (t_eflags im)));
         Some (stack, s)
       }
       else do {
         s \<leftarrow> upd_thread s img (\<lambda>t. t\<lparr>t_useresp := low16 (t_useresp t - 2)\<rparr>);
         let stack = stack - 2;
         s \<leftarrow> store16 s stack (ucast (t_eflags im));
         Some (stack, s)
       });
     f \<leftarrow> load16 s stack;
     s \<leftarrow> store16 s stack (if t_vm86_if im \<noteq> 0 then f OR 0x200 else f AND NOT 0x200);
     s \<leftarrow> next_ip s img;
     Some (0, s)
   }"

definition vm86_popf :: "kernel \<Rightarrow> ptr \<Rightarrow> u32 \<Rightarrow> bool \<Rightarrow> (nat \<times> kernel) option" where
  "vm86_popf s img stack o32 = do {
     f \<leftarrow> load16 s stack;
     s \<leftarrow> upd_thread s img (\<lambda>t. t\<lparr>t_eflags := 0x20200 OR (ucast f AND 0x0DFF)\<rparr>);
     s \<leftarrow> upd_thread s img (\<lambda>t. t\<lparr>t_vm86_if := (if f AND 0x200 \<noteq> 0 then 1 else 0)\<rparr>);
     s \<leftarrow> upd_thread s img (\<lambda>t. t\<lparr>t_useresp := low16 (t_useresp t + (if o32 then 4 else 2))\<rparr>);
     s \<leftarrow> next_ip s img;
     Some (0, s)
   }"

definition vm86_int :: "kernel \<Rightarrow> ptr \<Rightarrow> u32 \<Rightarrow> u32 \<Rightarrow> (nat \<times> kernel) option" where
  "vm86_int s img ip stack = do {
     n \<leftarrow> load8 s (ip + 1);
     if n = 0x30 then Some (1, s)
     else do {
       let stack = stack - 6;
       im \<leftarrow> threads s img;
       s \<leftarrow> upd_thread s img (\<lambda>t. t\<lparr>t_useresp := low16 (t_useresp t - 6)\<rparr>);
       s \<leftarrow> store16 s stack (ucast (t_eip im + 2));
       s \<leftarrow> store16 s (stack + 2) (ucast (t_cs im));
       s \<leftarrow> store16 s (stack + 4) (ucast (t_eflags im));
       f \<leftarrow> load16 s (stack + 4);
       s \<leftarrow> store16 s (stack + 4) (if t_vm86_if im \<noteq> 0 then f OR 0x200 else f AND NOT 0x200);
       n \<leftarrow> load8 s (ip + 1);
       eip \<leftarrow> load16 s (4 * ucast n);
       s \<leftarrow> upd_thread s img (\<lambda>t. t\<lparr>t_eip := ucast eip\<rparr>);
       n \<leftarrow> load8 s (ip + 1);
       cs \<leftarrow> load16 s (4 * ucast n + 2);
       s \<leftarrow> upd_thread s img (\<lambda>t. t\<lparr>t_cs := ucast cs\<rparr>);
       Some (0, s)
     }
   }"

definition vm86_iret :: "kernel \<Rightarrow> ptr \<Rightarrow> u32 \<Rightarrow> (nat \<times> kernel) option" where
  "vm86_iret s img stack = do {
     eip \<leftarrow> load16 s stack;
     cs \<leftarrow> load16 s (stack + 2);
     f \<leftarrow> load16 s (stack + 4);
     s \<leftarrow> upd_thread s img (\<lambda>t. t\<lparr>t_eip := ucast eip, t_cs := ucast cs, t_eflags := ucast f OR 0x20200,
            t_vm86_if := (if f AND 0x200 \<noteq> 0 then 1 else 0), t_useresp := low16 (t_useresp t + 6)\<rparr>);
     Some (0, s)
   }"

definition vm86_in :: "kernel \<Rightarrow> ptr \<Rightarrow> u8 \<Rightarrow> bool \<Rightarrow> (nat \<times> kernel) option" where
  "vm86_in s img opcode o32 = do {
     im \<leftarrow> threads s img;
     let port = (ucast (t_edx im AND 0xFFFF) :: u16);
     s \<leftarrow> upd_thread s img (\<lambda>t. t\<lparr>t_eax :=
            (if opcode = 0xEC then (t_eax t AND NOT 0xFF) OR ucast (inb s port)
             else if o32 then ind s port
             else (t_eax t AND NOT 0xFFFF) OR ucast (inw s port))\<rparr>);
     s \<leftarrow> next_ip s img;
     Some (0, s)
   }"

definition vm86_out :: "kernel \<Rightarrow> ptr \<Rightarrow> u8 \<Rightarrow> bool \<Rightarrow> (nat \<times> kernel) option" where
  "vm86_out s img opcode o32 = do {
     im \<leftarrow> threads s img;
     let port = (ucast (t_edx im AND 0xFFFF) :: u16);
     let s = (if opcode = 0xEE then outb s port (t_eax im AND 0xFF)
              else if o32 then outd s port (t_eax im)
              else outw s port (t_eax im AND 0xFFFF));
     s \<leftarrow> next_ip s img;
     Some (0, s)
   }"

definition vm86_setif :: "kernel \<Rightarrow> ptr \<Rightarrow> u32 \<Rightarrow> (nat \<times> kernel) option" where
  "vm86_setif s img v = do {
     s \<leftarrow> upd_thread s img (t_vm86_if_update (\<lambda>_. v));
     s \<leftarrow> next_ip s img;
     Some (0, s)
   }"

partial_function (option) vm86_loop :: "kernel \<Rightarrow> ptr \<Rightarrow> u32 \<Rightarrow> u32 \<Rightarrow> bool \<Rightarrow> (nat \<times> kernel) option" where
  "vm86_loop s img ip stack o32 = do {
     op \<leftarrow> load8 s ip;
     if op = 0x66 then do { s \<leftarrow> next_ip s img; vm86_loop s img (ip + 1) stack True }
     else if op = 0x67 then do { s \<leftarrow> next_ip s img; vm86_loop s img (ip + 1) stack o32 }
     else if op = 0x9C then vm86_pushf s img stack o32
     else if op = 0x9D then vm86_popf s img stack o32
     else if op = 0xCD then vm86_int s img ip stack
     else if op = 0xCF then vm86_iret s img stack
     else if op = 0xEC \<or> op = 0xED then vm86_in s img op o32
     else if op = 0xEE \<or> op = 0xEF then vm86_out s img op o32
     else if op = 0xFA then vm86_setif s img 0
     else if op = 0xFB then vm86_setif s img 1
     else None
   }"

definition vm86_monitor_gpf :: "kernel \<Rightarrow> ptr \<Rightarrow> (nat \<times> kernel) option" where
  "vm86_monitor_gpf s img = do {
     im \<leftarrow> threads s img;
     vm86_loop s img (t_eip im + push_bit 4 (t_cs im)) (t_useresp im + push_bit 4 (t_ss im)) False
   }"

section \<open>The handlers\<close>

abbreviation (input) PORT_FLOAT :: u8 where "PORT_FLOAT \<equiv> 11"
abbreviation (input) PORT_PAGE :: u8 where "PORT_PAGE \<equiv> 12"
abbreviation (input) PORT_ILL :: u8 where "PORT_ILL \<equiv> 13"

text \<open>What most faults end in: the faulting process is frozen and sent a message.\<close>

definition fault_signal :: "kernel \<Rightarrow> ptr \<Rightarrow> u8 \<Rightarrow> (ptr \<times> kernel) option" where
  "fault_signal s img port = do {
     im \<leftarrow> threads s img;
     s \<leftarrow> process_freeze s (t_proc im);
     pr \<leftarrow> processes s (t_proc im);
     thread_send s img (p_pid pr) port 0
   }"

definition fault_double :: "kernel \<Rightarrow> ptr \<Rightarrow> (ptr \<times> kernel) option" where
  "fault_double s img = None"

definition fault_float :: "kernel \<Rightarrow> ptr \<Rightarrow> (ptr \<times> kernel) option" where
  "fault_float s img = do {
     im \<leftarrow> threads s img;
     if t_cs im AND 3 = 0 then None else fault_signal s img PORT_FLOAT
   }"

definition fault_generic :: "kernel \<Rightarrow> ptr \<Rightarrow> (ptr \<times> kernel) option" where
  "fault_generic s img = do {
     im \<leftarrow> threads s img;
     if t_cs im AND 3 = 0 then None else fault_signal s img PORT_ILL
   }"

definition fault_ignore :: "kernel \<Rightarrow> ptr \<Rightarrow> (ptr \<times> kernel) option" where
  "fault_ignore s img = Some (img, s)"

definition fault_nomath :: "kernel \<Rightarrow> ptr \<Rightarrow> (ptr \<times> kernel) option" where
  "fault_nomath s img = (if \<not> can_use_fpu s then fault_signal s img PORT_ILL else Some (img, s))"

definition fault_gpf :: "kernel \<Rightarrow> ptr \<Rightarrow> (ptr \<times> kernel) option" where
  "fault_gpf s img = do {
     im \<leftarrow> threads s img;
     (r, s) \<leftarrow> (if t_vm86_active im \<noteq> 0 then vm86_monitor_gpf s img else Some (2, s));
     if r = 0 then Some (img, s)
     else if r = 1 then do {
       s \<leftarrow> upd_thread s img (\<lambda>t. t\<lparr>t_vm86_active := 0, t_eip := t_vm86_saved_eip t, t_useresp := t_vm86_saved_esp t,
              t_ds := 0x23, t_ss := 0x23, t_cs := 0x1B, t_eflags := t_vm86_saved_eflags t, t_eax := 0\<rparr>);
       Some (img, set_int_stack s (img + 64))
     }
     else do {
       im \<leftarrow> threads s img;
       if t_cs im AND 3 = 0 then None else fault_signal s img PORT_ILL
     }
   }"

text \<open>\<open>debug_dumpi\<close> prints words upwards or downwards: the words are read, whatever is printed of them.\<close>

definition dump_word :: "kernel \<Rightarrow> u32 \<Rightarrow> unit option" where
  "dump_word s a = do { _ \<leftarrow> load8 s a; _ \<leftarrow> load8 s (a + 3); Some () }"

definition debug_dumpi :: "kernel \<Rightarrow> u32 \<Rightarrow> int \<Rightarrow> unit option" where
  "debug_dumpi s base count = do {
     e \<leftarrow> page_get s base;
     if e = 0 then Some ()
     else if count \<ge> 0 then for_list (\<lambda>i _. dump_word s (base + 4 * of_nat i)) [0..<nat count] ()
     else for_list (\<lambda>i _. dump_word s (base - 4 * of_nat i)) [1..<Suc (nat (- count))] ()
   }"

definition fault_page :: "kernel \<Rightarrow> ptr \<Rightarrow> (ptr \<times> kernel) option" where
  "fault_page s img = do {
     im \<leftarrow> threads s img;
     if t_cs im AND 3 = 0 then None
     else if cr2 s \<ge> t_stack im \<and> cr2 s < t_stack im + SEGSZ then do {
       s \<leftarrow> mem_alloc s (cr2 s AND NOT 0xFFF) PAGESZ (ucast (PF_PRES OR PF_RW OR PF_USER));
       Some (img, s)
     }
     else do {
       _ \<leftarrow> page_get s (cr2 s);
       _ \<leftarrow> debug_dumpi s (t_useresp im) 30;
       fault_signal s img PORT_PAGE
     }
   }"

section \<open>Properties\<close>

text \<open>
  C11. Growing a stack: a user mode page fault inside the faulting thread's stack segment, below the
  kernel, with two free frames, resumes the same thread with the faulting page mapped, present, writable
  and accessible from user mode, to a frame that was free; every other page and the rest of the kernel
  state outside the memory manager are unchanged.
\<close>

theorem fault_page_grows:
  assumes "space_ok s" and "threads s img = Some im" and "t_cs im AND 3 \<noteq> 0" and "t_stack im \<le> cr2 s"
    and "cr2 s < t_stack im + SEGSZ" and "cr2 s < KSPACE" and "\<not> pres (page_entry s (cr2 s))" and "2 \<le> frame_count s"
  shows "\<exists>s' f. fault_page s img = Some (img, s') \<and> space_ok s' \<and> mmu_state.more s' = mmu_state.more s \<and>
    free_frame s (fnum f) \<and> \<not> free_frame s' (fnum f) \<and> page_entry s' (cr2 s) = page_fmt f (PF_PRES OR PF_RW OR PF_USER) \<and>
    (\<forall>w. pg w < 0xFF800 \<longrightarrow> pg w \<noteq> pg (cr2 s) \<longrightarrow> page_entry s' w = page_entry s w)"
proof -
  let ?a = "cr2 s AND NOT 0xFFF"
  have al: "?a AND 0xFFF = 0" by (simp add: and.assoc)
  have pa: "pg ?a = pg (cr2 s)" using page_base [of "cr2 s"] by simp
  have k: "pg (cr2 s) < 0xF0000" using assms(6) by (simp add: word_less_nat_alt)
  have r: "unat ?a + unat (PAGESZ :: u32) \<le> 0xFF800000" using aligned_page [OF al] pa k by simp
  have pr: "page_range ?a PAGESZ = {pg (cr2 s)}" using aligned_page [OF al] pa by auto
  obtain s1 where s1: "mem_alloc s ?a PAGESZ (ucast (PF_PRES OR PF_RW OR PF_USER)) = Some s1" "space_ok s1"
    "pages_alloc {pg (cr2 s)} (PF_PRES OR PF_RW OR PF_USER) s s1"
    using mem_alloc_ok [OF assms(1) r, of "ucast (PF_PRES OR PF_RW OR PF_USER)"] assms(8) unfolding pr by auto
  have "fault_page s img = Some (img, s1)" using assms(2-5) s1(1) by (simp add: fault_page_def)
  moreover have "\<exists>f. free_frame s (fnum f) \<and> \<not> free_frame s1 (fnum f) \<and> page_entry s1 (cr2 s) = page_fmt f (PF_PRES OR PF_RW OR PF_USER)"
    using s1(3) assms(7) k unfolding pages_alloc_def by (auto elim!: allE [of _ "cr2 s"])
  moreover have "page_entry s1 w = page_entry s w" if "pg w < 0xFF800" "pg w \<noteq> pg (cr2 s)" for w
    using s1(3) that unfolding pages_alloc_def by (auto elim!: allE [of _ w])
  ultimately show ?thesis using s1(2) mem_alloc_more [OF s1(1)] by blast
qed

theorem fault_page_grows_witness:
  "\<exists>s' f. fault_page (base_kernel\<lparr>threads := [1 \<mapsto> zero_thread\<lparr>t_cs := 0x1B, t_stack := 0x400000\<rparr>], cr2 := 0x7FFFFC\<rparr>) 1 = Some (1, s') \<and>
     page_entry s' 0x7FFFFC = page_fmt f (PF_PRES OR PF_RW OR PF_USER)"
proof -
  let ?t = "zero_thread\<lparr>t_cs := 0x1B, t_stack := 0x400000\<rparr>"
  let ?s = "base_kernel\<lparr>threads := [1 \<mapsto> ?t], cr2 := 0x7FFFFC\<rparr>"
  have "space_ok ?s" "frame_count ?s = frame_count base_kernel"
    using space_ok_cong [of ?s base_kernel] base_kernel_space(1) by (simp_all add: frame_state.defs)
  moreover have "page_entry ?s 0x7FFFFC = 0"
    by (simp add: dir_entry_def Let_def base_kernel_def heap_state.extend_def fresh_heap_def mmu_state.extend_def empty_space_def frame_state.extend_def dirx_def)
  ultimately show ?thesis using fault_page_grows [of ?s 1 ?t] base_kernel_space(2) by simp blast
qed

end
