(* ===== verification/Dispatch.thy ===== *)
theory Dispatch
  imports Faults
begin

text \<open>
  The interrupt dispatcher \<open>int_handler\<close> of \<open>kernel/int/int_handler.c\<close>: every entry into the kernel after
  boot. A registered function pointer is a constructor of the type of handlers, and \<open>call_handler\<close> is the
  indirect call.
\<close>

section \<open>Operations\<close>

fun call_handler :: "handler \<Rightarrow> kernel \<Rightarrow> ptr \<Rightarrow> (ptr \<times> kernel) option" where
  "call_handler SYSCALL_SEND = syscall_send"
| "call_handler SYSCALL_DONE = syscall_done"
| "call_handler SYSCALL_WHEN = syscall_when"
| "call_handler SYSCALL_RIRQ = syscall_rirq"
| "call_handler SYSCALL_ALSO = syscall_also"
| "call_handler SYSCALL_STAT = syscall_stat"
| "call_handler SYSCALL_PAGE = syscall_page"
| "call_handler SYSCALL_PHYS = syscall_phys"
| "call_handler SYSCALL_FORK = syscall_fork"
| "call_handler SYSCALL_EXIT = syscall_exit"
| "call_handler SYSCALL_STOP = syscall_stop"
| "call_handler SYSCALL_WAKE = syscall_wake"
| "call_handler SYSCALL_GPID = syscall_gpid"
| "call_handler SYSCALL_TIME = syscall_time"
| "call_handler SYSCALL_USER = syscall_user"
| "call_handler SYSCALL_AUTH = syscall_auth"
| "call_handler SYSCALL_PROC = syscall_proc"
| "call_handler SYSCALL_KILL = syscall_kill"
| "call_handler SYSCALL_VM86 = syscall_vm86"
| "call_handler SYSCALL_NAME = syscall_name"
| "call_handler SYSCALL_RTAB = syscall_rtab"
| "call_handler FAULT_FLOAT = fault_float"
| "call_handler FAULT_GENERIC = fault_generic"
| "call_handler FAULT_NOMATH = fault_nomath"
| "call_handler FAULT_DOUBLE = fault_double"
| "call_handler FAULT_GPF = fault_gpf"
| "call_handler FAULT_PAGE = fault_page"
| "call_handler IRQ_REDIRECT = irq_redirect"
| "call_handler TIMER_HANDLER = timer_handler"

definition resume_flags :: "thread \<Rightarrow> u32" where
  "resume_flags t = (
     let f = t_eflags t;
         f = (if t_user t = 0 \<and> t_vm86_active t = 0 then f OR 0x3000 else f AND NOT 0x3000);
         f = (if t_vm86_active t \<noteq> 0 then f OR 0x20000 else f AND NOT 0x20000) in
     f OR 0x200)"

definition int_handler :: "kernel \<Rightarrow> ptr \<Rightarrow> (ptr \<times> kernel) option" where
  "int_handler s img = do {
     im \<leftarrow> threads s img;
     let s = (if ISIRQ (t_num im) then snd (irq_reset s (ucast (INT2IRQ (t_num im)))) else s);
     if unat (t_num im) \<ge> 256 then None
     else do {
       (img, s) \<leftarrow> (case int_handlers s (ucast (t_num im)) of
           None \<Rightarrow> Some (img, s)
         | Some h \<Rightarrow> do {
             (new_img, s) \<leftarrow> call_handler h s img;
             if new_img \<noteq> 0 \<and> new_img \<noteq> img then thread_switch s img new_img else Some (img, s)
           });
       s \<leftarrow> upd_thread s img (\<lambda>t. t\<lparr>t_eflags := resume_flags t\<rparr>);
       Some (img, s)
     }
   }"

section \<open>Properties\<close>

lemma flag_masks:
  fixes f :: u32
  shows "(f OR a) AND b = (f AND b) OR (a AND b)" "(f AND c) AND b = f AND (c AND b)"
  by (simp_all add: bit.conj_disj_distrib2 and.assoc)

lemma resume_flags_bits:
  "resume_flags t AND 0x200 = 0x200" "resume_flags t AND 0x3000 = (if t_user t = 0 \<and> t_vm86_active t = 0 then 0x3000 else 0)"
  "resume_flags t AND 0x20000 = (if t_vm86_active t \<noteq> 0 then 0x20000 else 0)"
  by (simp_all add: resume_flags_def Let_def flag_masks)

text \<open>
  C12. Whatever the interrupt and its handler do, the thread that \<open>int_handler\<close> resumes has interrupts
  enabled, the I/O privilege level 3 exactly when it runs as root outside virtual 8086 mode and 0
  otherwise, and the virtual 8086 flag exactly when it is in that mode.
\<close>

theorem int_handler_flags:
  assumes "int_handler s img = Some (r, s')"
  shows "\<exists>t. threads s' r = Some t \<and> t_eflags t AND 0x200 = 0x200 \<and>
    t_eflags t AND 0x3000 = (if t_user t = 0 \<and> t_vm86_active t = 0 then 0x3000 else 0) \<and>
    t_eflags t AND 0x20000 = (if t_vm86_active t \<noteq> 0 then 0x20000 else 0)"
proof -
  obtain s1 t where "upd_thread s1 r (\<lambda>t. t\<lparr>t_eflags := resume_flags t\<rparr>) = Some s'" "threads s1 r = Some t"
    using assms by (auto simp: int_handler_def bind_eq_Some upd_thread_def Let_def split: if_splits)
  then have "threads s' r = Some (t\<lparr>t_eflags := resume_flags t\<rparr>)" by (auto simp: upd_thread_def)
  moreover have "resume_flags t = t_eflags (t\<lparr>t_eflags := resume_flags t\<rparr>)" by simp
  ultimately show ?thesis using resume_flags_bits [of t] by auto
qed

theorem int_handler_flags_witness:
  "\<exists>s' t. int_handler (base_kernel\<lparr>threads := [1 \<mapsto> zero_thread\<lparr>t_num := 0x50\<rparr>]\<rparr>) 1 = Some (1, s') \<and> threads s' 1 = Some t \<and>
    t_eflags t AND 0x200 = 0x200 \<and> t_eflags t AND 0x3000 = (if t_user t = 0 \<and> t_vm86_active t = 0 then 0x3000 else 0)"
proof -
  have "\<exists>s'. int_handler (base_kernel\<lparr>threads := [1 \<mapsto> zero_thread\<lparr>t_num := 0x50\<rparr>]\<rparr>) 1 = Some (1, s')"
    by (simp add: int_handler_def ISIRQ_def zero_thread_def base_kernel_def heap_state.extend_def upd_thread_def)
  then show ?thesis using int_handler_flags by blast
qed

end
