(* ===== verification/Exec.thy ===== *)
theory Exec
  imports Dispatch
begin

text \<open>
  Loading executables and booting: \<open>kernel/exec\<close>, \<open>syscall_exec\<close> and \<open>kernel/init/init.c\<close>. Headers are
  read field by field from virtual memory, again wherever the code reads them again, so that an
  image that overwrites its own headers while it is loaded behaves as in the code.
\<close>

section \<open>Memory access\<close>

definition load32u :: "'a mmu_state_scheme \<Rightarrow> u32 \<Rightarrow> u32 option" where
  "load32u s a = do { lo \<leftarrow> load16 s a; hi \<leftarrow> load16 s (a + 2); Some (ucast lo OR push_bit 16 (ucast hi)) }"

definition memcpy :: "'a mmu_state_scheme \<Rightarrow> u32 \<Rightarrow> u32 \<Rightarrow> u32 \<Rightarrow> 'a mmu_state_scheme option" where
  "memcpy s dest src n = for_list (\<lambda>i s. do {
       b \<leftarrow> load8 s (src + of_nat i);
       store8 s (dest + of_nat i) b
     }) [0..<unat n] s"

definition memclr8 :: "'a mmu_state_scheme \<Rightarrow> u32 \<Rightarrow> u32 \<Rightarrow> 'a mmu_state_scheme option" where
  "memclr8 s p n = for_list (\<lambda>i s. store8 s (p + of_nat i) 0) [0..<unat n] s"

section \<open>ELF files\<close>

definition elf_check_file :: "'a mmu_state_scheme \<Rightarrow> u32 \<Rightarrow> u32 option" where
  "elf_check_file s file = do {
     m0 \<leftarrow> load8 s file;
     if m0 \<noteq> 0x7F then Some 1
     else do {
     m1 \<leftarrow> load8 s (file + 1);
     if m1 \<noteq> 0x45 then Some 1
     else do {
     m2 \<leftarrow> load8 s (file + 2);
     if m2 \<noteq> 0x4C then Some 1
     else do {
     m3 \<leftarrow> load8 s (file + 3);
     if m3 \<noteq> 0x46 then Some 1
     else do {
     e_type \<leftarrow> load16 s (file + 16);
     if e_type \<noteq> 2 then Some 1
     else do {
     e_machine \<leftarrow> load16 s (file + 18);
     if e_machine \<noteq> 3 then Some 1
     else do {
     e_version \<leftarrow> load32u s (file + 20);
     if e_version \<noteq> 1 then Some 1 else Some 0
     }}}}}}}"

definition elf_load_phdr :: "'a mmu_state_scheme \<Rightarrow> u32 \<Rightarrow> u32 \<Rightarrow> 'a mmu_state_scheme option" where
  "elf_load_phdr s file phdr = do {
     p_type \<leftarrow> load32u s phdr;
     if p_type \<noteq> 1 then Some s
     else do {
       p_offset \<leftarrow> load32u s (phdr + 4);
       let seg_base = file + p_offset;
       dst \<leftarrow> load32u s (phdr + 8);
       p_flags \<leftarrow> load32u s (phdr + 24);
       let pflags = PF_USER OR PF_PRES OR (if p_flags AND 2 \<noteq> 0 then PF_RW else 0);
       p_memsz \<leftarrow> load32u s (phdr + 20);
       s \<leftarrow> mem_alloc s dst p_memsz (ucast pflags);
       p_filesz \<leftarrow> load32u s (phdr + 16);
       s \<leftarrow> memcpy s dst seg_base p_filesz;
       p_filesz \<leftarrow> load32u s (phdr + 16);
       p_memsz \<leftarrow> load32u s (phdr + 20);
       memclr8 s (dst + p_filesz) (p_memsz - p_filesz)
     }
   }"

partial_function (option) elf_load_loop :: "'a mmu_state_scheme \<Rightarrow> u32 \<Rightarrow> u32 \<Rightarrow> u32 \<Rightarrow> 'a mmu_state_scheme option" where
  "elf_load_loop s file phdr_tbl i = do {
     e_phnum \<leftarrow> load16 s (file + 44);
     if i < ucast e_phnum then do {
       s \<leftarrow> elf_load_phdr s file (phdr_tbl + 32 * i);
       elf_load_loop s file phdr_tbl (i + 1)
     }
     else Some s
   }"

definition elf_load_file :: "'a mmu_state_scheme \<Rightarrow> u32 \<Rightarrow> 'a mmu_state_scheme option" where
  "elf_load_file s file = do {
     e_phoff \<leftarrow> load32u s (file + 28);
     elf_load_loop s file (file + e_phoff) 0
   }"

definition syscall_exec :: "kernel \<Rightarrow> ptr \<Rightarrow> (ptr \<times> kernel) option" where
  "syscall_exec s img = do {
     bad \<leftarrow> elf_check_file s ESPACE;
     if bad \<noteq> 0 then ret s img (- 1)
     else do {
       s \<leftarrow> mem_free s 0 SSPACE;
       s \<leftarrow> elf_load_file s ESPACE;
       e_entry \<leftarrow> load32u s (ESPACE + 24);
       s \<leftarrow> upd_thread s img (\<lambda>t. t\<lparr>t_eip := e_entry, t_useresp := t_stack t + SEGSZ\<rparr>);
       im \<leftarrow> threads s img;
       s \<leftarrow> upd_process s (t_proc im) (p_entry_update (\<lambda>_. 0));
       Some (img, s)
     }
   }"

section \<open>Booting\<close>

abbreviation (input) BOOT_IMAGE :: u32 where "BOOT_IMAGE \<equiv> 0x40000000"

text \<open>The kernel's page tables: all segments up to the end of the heap, and the identity map of the boot frames.\<close>

definition init_tables :: "kernel \<Rightarrow> kernel option" where
  "init_tables s = do {
     s \<leftarrow> for_list (\<lambda>k s. page_touch s (KSPACE + of_nat k * SEGSZ)) [0..<32] s;
     for_list (\<lambda>k s. let i = KSPACE + KERNEL_BOOT + of_nat k * PAGESZ in
       page_set s i (page_fmt (i - KSPACE) (PF_PRES OR PF_RW))) [0..<2048] s
   }"

text \<open>The memory map of the boot loader; \<open>addr += PAGESZ\<close> wraps when a region is longer than \<open>0xFFFFF000\<close>.\<close>

partial_function (option) init_region :: "kernel \<Rightarrow> u32 \<Rightarrow> u32 \<Rightarrow> kernel option" where
  "init_region s m addr = do {
     length_low \<leftarrow> load32u s (m + 12);
     if addr < length_low then do {
       base_addr_low \<leftarrow> load32u s (m + 4);
       s \<leftarrow> frame_add s (base_addr_low + addr);
       init_region s m (addr + PAGESZ)
     }
     else Some s
   }"

definition init_frames :: "kernel \<Rightarrow> u32 \<Rightarrow> kernel option" where
  "init_frames s mboot = do {
     mmap_addr \<leftarrow> load32u s (mboot + 48);
     let mem_map = mmap_addr + KSPACE;
     mmap_length \<leftarrow> load32u s (mboot + 44);
     for_list (\<lambda>i s. let m = mem_map + of_nat i * 24 in do {
         type \<leftarrow> load32u s (m + 20);
         base_addr_low \<leftarrow> load32u s (m + 4);
         if type = 1 \<and> base_addr_low \<le> 0x100000 then init_region s m 0 else Some s
       }) [0..<unat (mmap_length div 24)] s
   }"

definition init_handlers :: "(u8 \<times> handler) list" where
  "init_handlers =
     [(0x40, SYSCALL_SEND), (0x41, SYSCALL_DONE), (0x42, SYSCALL_WHEN), (0x43, SYSCALL_RIRQ), (0x44, SYSCALL_ALSO),
      (0x45, SYSCALL_STAT), (0x46, SYSCALL_PAGE), (0x47, SYSCALL_PHYS), (0x48, SYSCALL_FORK), (0x49, SYSCALL_EXIT),
      (0x4A, SYSCALL_STOP), (0x4B, SYSCALL_WAKE), (0x4C, SYSCALL_GPID), (0x4D, SYSCALL_TIME), (0x4E, SYSCALL_USER),
      (0x4F, SYSCALL_AUTH), (0x50, SYSCALL_PROC), (0x51, SYSCALL_KILL), (0x52, SYSCALL_VM86), (0x53, SYSCALL_NAME),
      (0x54, SYSCALL_RTAB),
      (0x00, FAULT_FLOAT), (0x01, FAULT_GENERIC), (0x02, FAULT_GENERIC), (0x03, FAULT_GENERIC), (0x04, FAULT_GENERIC),
      (0x05, FAULT_GENERIC), (0x06, FAULT_GENERIC), (0x07, FAULT_NOMATH), (0x08, FAULT_DOUBLE), (0x09, FAULT_FLOAT),
      (0x0A, FAULT_GENERIC), (0x0B, FAULT_GENERIC), (0x0C, FAULT_GENERIC), (0x0D, FAULT_GPF), (0x0E, FAULT_PAGE),
      (0x10, FAULT_FLOAT), (0x11, FAULT_GENERIC), (0x12, FAULT_GENERIC), (0x13, FAULT_NOMATH)]"

definition register_all :: "(u8 \<times> handler) list \<Rightarrow> kernel \<Rightarrow> kernel" where
  "register_all hs s = fold (\<lambda>(n, h) s. int_set_handler s n h) hs s"

text \<open>The first thread of \<open>init\<close>: registers for a return to user mode. \<open>num\<close> is at offset 36.\<close>

definition init_thread :: "kernel \<Rightarrow> ptr \<Rightarrow> kernel option" where
  "init_thread s init = do {
     pr \<leftarrow> processes s init;
     let thread = p_thread pr 0;
     (_, s) \<leftarrow> thread_bind s thread init;
     upd_thread s thread (\<lambda>t. t\<lparr>t_useresp := t_stack t + SEGSZ, t_esp := thread + 36, t_ss := 0x23, t_ds := 0x23,
       t_cs := 0x1B, t_eflags := eflags s OR 0x3200\<rparr>)
   }"

text \<open>\<open>fpu\<close> is what the assembly routine \<open>cpu_init_fpu\<close> finds out about the processor.\<close>

definition init :: "kernel \<Rightarrow> u32 \<Rightarrow> u32 \<Rightarrow> bool \<Rightarrow> (ptr \<times> kernel) option" where
  "init s mboot mboot_magic fpu = (if mboot_magic \<noteq> 0x2BADB002 then None
     else do {
       s \<leftarrow> init_tables s;
       s \<leftarrow> init_frames s mboot;
       (idle, s) \<leftarrow> process_alloc s;
       s \<leftarrow> upd_process s idle (\<lambda>p. p\<lparr>p_space := cr3 s, p_user := 0\<rparr>);
       (init, s) \<leftarrow> process_clone s idle 0;
       s \<leftarrow> process_switch s init;
       mods_count \<leftarrow> load32u s (mboot + 20);
       if mods_count < 2 then None
       else do {
         mods_addr \<leftarrow> load32u s (mboot + 24);
         let module = mods_addr + KSPACE;
         start0 \<leftarrow> load32u s module;
         let init_image = start0 + KSPACE;
         start1 \<leftarrow> load32u s (module + 16);
         let boot_image = start1 + KSPACE;
         end1 \<leftarrow> load32u s (module + 20);
         let boot_image_size = end1 - start1;
         s \<leftarrow> mem_alloc s BOOT_IMAGE boot_image_size (ucast (PF_PRES OR PF_USER OR PF_RW));
         s \<leftarrow> memcpy s BOOT_IMAGE boot_image boot_image_size;
         s \<leftarrow> init_thread s init;
         bad \<leftarrow> elf_check_file s init_image;
         if bad \<noteq> 0 then None
         else do {
           s \<leftarrow> elf_load_file s init_image;
           pr \<leftarrow> processes s init;
           e_entry \<leftarrow> load32u s (init_image + 24);
           s \<leftarrow> upd_thread s (p_thread pr 0) (t_eip_update (\<lambda>_. e_entry));
           let s = register_all init_handlers s;
           (_, s) \<leftarrow> timer_set_freq s 64;
           let s = s\<lparr>can_use_fpu := fpu\<rparr>;
           (n, s) \<leftarrow> schedule_next s;
           thread_switch s 0 n
         }
       }
     })"

section \<open>Properties\<close>

lemma register_handlers:
  "distinct (map fst hs) \<Longrightarrow> int_handlers (register_all hs s) = int_handlers s ++ map_of hs"
proof (induction hs arbitrary: s)
  case (Cons x hs)
  obtain n h where x: "x = (n, h)" by (cases x)
  then have "n \<notin> dom (map_of hs)" using Cons.prems by (simp add: dom_map_of_conv_image_fst)
  then have "(int_handlers s)(n \<mapsto> h) ++ map_of hs = int_handlers s ++ map_of (x # hs)"
    by (auto simp: x map_add_def fun_eq_iff split: option.split)
  moreover have "register_all (x # hs) s = register_all hs (int_set_handler s n h)" by (simp add: x register_all_def)
  ultimately show ?case using Cons by (simp only: int_set_handler_handlers distinct.simps list.map)
qed (simp add: register_all_def)

lemma init_handlers_distinct: "distinct (map fst init_handlers)"
  by (simp add: init_handlers_def)

text \<open>
  The system call table: after the registrations of \<open>init\<close> the twenty-one vectors from \<open>0x40\<close> hold the
  system calls in the order of the interface, the processor's exceptions but \<open>0x0F\<close> hold their fault
  handlers, and every other vector is as it was.
\<close>

theorem init_vectors:
  "int_handlers (register_all init_handlers s) n =
     (if n \<in> fst ` set init_handlers then map_of init_handlers n else int_handlers s n) \<and>
   map (int_handlers (register_all init_handlers s)) [0x40, 0x41, 0x42, 0x43, 0x44, 0x45, 0x46, 0x47, 0x48, 0x49, 0x4A,
      0x4B, 0x4C, 0x4D, 0x4E, 0x4F, 0x50, 0x51, 0x52, 0x53, 0x54] = map Some
     [SYSCALL_SEND, SYSCALL_DONE, SYSCALL_WHEN, SYSCALL_RIRQ, SYSCALL_ALSO, SYSCALL_STAT, SYSCALL_PAGE, SYSCALL_PHYS,
      SYSCALL_FORK, SYSCALL_EXIT, SYSCALL_STOP, SYSCALL_WAKE, SYSCALL_GPID, SYSCALL_TIME, SYSCALL_USER, SYSCALL_AUTH,
      SYSCALL_PROC, SYSCALL_KILL, SYSCALL_VM86, SYSCALL_NAME, SYSCALL_RTAB] \<and>
   fst ` set init_handlers = set (map of_nat ([0..<0x0F] @ [0x10..<0x14] @ [0x40..<0x55]))"
proof (intro conjI)
  show "int_handlers (register_all init_handlers s) n = (if n \<in> fst ` set init_handlers then map_of init_handlers n else int_handlers s n)"
    by (simp add: register_handlers [OF init_handlers_distinct] map_add_dom_app_simps dom_map_of_conv_image_fst)
  show "fst ` set init_handlers = set (map of_nat ([0..<0x0F] @ [0x10..<0x14] @ [0x40..<0x55]))"
    by code_simp
qed (unfold register_handlers [OF init_handlers_distinct], simp add: init_handlers_def)

end
