(* ===== verification/C_String.thy ===== *)
theory C_String
  imports Kernel_Prelude
begin

text \<open>
  The string functions of \<open>libc/string\<close> that work in place. The memory of a user program is a partial
  function from addresses to bytes; a read or write outside its domain faults, and the function does not
  return, which is \<^const>\<open>None\<close>, as is a scan that never meets its terminator. A pointer is an address
  and pointer arithmetic wraps. \<open>char\<close> is signed.
\<close>

section \<open>Memory\<close>

type_synonym mem = "u32 \<rightharpoonup> u8"

definition wr :: "mem \<Rightarrow> u32 \<Rightarrow> u8 \<Rightarrow> mem option" where
  "wr m a b = (if m a = None then None else Some (m(a \<mapsto> b)))"

section \<open>Blocks of bytes\<close>

primrec memchr_loop :: "mem \<Rightarrow> u32 \<Rightarrow> u8 \<Rightarrow> nat list \<Rightarrow> u32 option" where
  "memchr_loop m s c [] = Some 0"
| "memchr_loop m s c (i # is) = do {
     b \<leftarrow> m (s + of_nat i);
     if b = c then Some (s + of_nat i) else memchr_loop m s c is
   }"

definition memchr :: "mem \<Rightarrow> u32 \<Rightarrow> u8 \<Rightarrow> u32 \<Rightarrow> u32 option" where
  "memchr m s c n = memchr_loop m s c [0..<unat n]"

definition memset :: "mem \<Rightarrow> u32 \<Rightarrow> u8 \<Rightarrow> u32 \<Rightarrow> (u32 \<times> mem) option" where
  "memset m s c n = do {
     m \<leftarrow> for_list (\<lambda>i m. wr m (s + of_nat i) c) [0..<unat n] m;
     Some (s, m)
   }"

definition memclr :: "mem \<Rightarrow> u32 \<Rightarrow> u32 \<Rightarrow> (u32 \<times> mem) option" where
  "memclr m s n = do {
     m \<leftarrow> for_list (\<lambda>i m. wr m (s + of_nat i) 0) [0..<unat n] m;
     Some (s, m)
   }"

primrec memcmp_loop :: "mem \<Rightarrow> u32 \<Rightarrow> u32 \<Rightarrow> nat list \<Rightarrow> int option" where
  "memcmp_loop m v1 v2 [] = Some 0"
| "memcmp_loop m v1 v2 (i # is) = do {
     a \<leftarrow> m (v1 + of_nat i);
     b \<leftarrow> m (v2 + of_nat i);
     if a \<noteq> b then Some 1 else memcmp_loop m v1 v2 is
   }"

definition memcmp :: "mem \<Rightarrow> u32 \<Rightarrow> u32 \<Rightarrow> u32 \<Rightarrow> int option" where
  "memcmp m p1 p2 n = memcmp_loop m p1 p2 [0..<unat n]"

definition copy_byte :: "u32 \<Rightarrow> u32 \<Rightarrow> u32 \<Rightarrow> mem \<Rightarrow> mem option" where
  "copy_byte dst src i m = do { b \<leftarrow> m (src + i); wr m (dst + i) b }"

definition memcpy_u :: "mem \<Rightarrow> u32 \<Rightarrow> u32 \<Rightarrow> u32 \<Rightarrow> (u32 \<times> mem) option" where
  "memcpy_u m d s n = do {
     m \<leftarrow> for_list (\<lambda>i. copy_byte d s (of_nat i)) [0..<unat n] m;
     Some (d, m)
   }"

definition memmove :: "mem \<Rightarrow> u32 \<Rightarrow> u32 \<Rightarrow> u32 \<Rightarrow> (u32 \<times> mem) option" where
  "memmove m d s n = (
     if s = d then Some (d, m)
     else if s > d then do {
       m \<leftarrow> for_list (\<lambda>i. copy_byte d s (of_nat i)) [0..<unat n] m;
       Some (d, m)
     }
     else do {
       m \<leftarrow> for_list (\<lambda>i. copy_byte d s (n - of_nat i - 1)) [0..<unat n] m;
       Some (d, m)
     })"

section \<open>Terminated strings\<close>

partial_function (option) strlen_loop :: "mem \<Rightarrow> u32 \<Rightarrow> u32 \<Rightarrow> u32 option" where
  "strlen_loop m s i = do {
     b \<leftarrow> m (s + i);
     if b = 0 then Some i else strlen_loop m s (i + 1)
   }"

definition strlen :: "mem \<Rightarrow> u32 \<Rightarrow> u32 option" where
  "strlen m s = strlen_loop m s 0"

partial_function (option) strcpy_loop :: "mem \<Rightarrow> u32 \<Rightarrow> u32 \<Rightarrow> u32 \<Rightarrow> (u32 \<times> mem) option" where
  "strcpy_loop m d s i = do {
     b \<leftarrow> m (s + i);
     if b = 0 then Some (i, m)
     else do { m \<leftarrow> wr m (d + i) b; strcpy_loop m d s (i + 1) }
   }"

definition strcpy :: "mem \<Rightarrow> u32 \<Rightarrow> u32 \<Rightarrow> (u32 \<times> mem) option" where
  "strcpy m d s = do {
     (i, m) \<leftarrow> strcpy_loop m d s 0;
     m \<leftarrow> wr m (d + i) 0;
     Some (d, m)
   }"

definition strcat :: "mem \<Rightarrow> u32 \<Rightarrow> u32 \<Rightarrow> (u32 \<times> mem) option" where
  "strcat m d s = do {
     e \<leftarrow> strlen_loop m d 0;
     (i, m) \<leftarrow> strcpy_loop m (d + e) s 0;
     m \<leftarrow> wr m (d + e + i) 0;
     Some (d, m)
   }"

text \<open>The bounded copying loop of \<open>strncpy\<close> and \<open>strncat\<close> reads the source before it tests the bound.\<close>

partial_function (option) strncpy_loop :: "mem \<Rightarrow> u32 \<Rightarrow> u32 \<Rightarrow> u32 \<Rightarrow> u32 \<Rightarrow> (u32 \<times> mem) option" where
  "strncpy_loop m d s n i = do {
     b \<leftarrow> m (s + i);
     if b \<noteq> 0 \<and> i < n then do { m \<leftarrow> wr m (d + i) b; strncpy_loop m d s n (i + 1) }
     else Some (i, m)
   }"

definition strncpy :: "mem \<Rightarrow> u32 \<Rightarrow> u32 \<Rightarrow> u32 \<Rightarrow> (u32 \<times> mem) option" where
  "strncpy m d s n = do {
     (i, m) \<leftarrow> strncpy_loop m d s n 0;
     m \<leftarrow> for_list (\<lambda>k m. wr m (d + of_nat k) 0) [unat i..<unat n] m;
     Some (d, m)
   }"

definition strncat :: "mem \<Rightarrow> u32 \<Rightarrow> u32 \<Rightarrow> u32 \<Rightarrow> (u32 \<times> mem) option" where
  "strncat m d s n = do {
     e \<leftarrow> strlen_loop m d 0;
     (i, m) \<leftarrow> strncpy_loop m (d + e) s n 0;
     m \<leftarrow> wr m (d + e + i) 0;
     Some (d, m)
   }"

definition strxfrm :: "mem \<Rightarrow> u32 \<Rightarrow> u32 \<Rightarrow> u32 \<Rightarrow> (u32 \<times> mem) option" where
  "strxfrm m dest src n = do { (_, m) \<leftarrow> strncpy m dest src n; Some (n, m) }"

text \<open>\<open>strlcpy\<close>: the loop runs while the room left, decremented first, is not zero.\<close>

partial_function (option) strlcpy_loop :: "mem \<Rightarrow> u32 \<Rightarrow> u32 \<Rightarrow> u32 \<Rightarrow> (u32 \<times> u32 \<times> u32 \<times> mem) option" where
  "strlcpy_loop m d s n = (let n = n - 1 in
     if n = 0 then Some (d, s, n, m)
     else do {
       b \<leftarrow> m s;
       m \<leftarrow> wr m d b;
       if b = 0 then Some (d + 1, s + 1, n, m) else strlcpy_loop m (d + 1) (s + 1) n
     })"

text \<open>\<open>while (*s++);\<close> ends one past the terminator.\<close>

partial_function (option) skip_string :: "mem \<Rightarrow> u32 \<Rightarrow> u32 option" where
  "skip_string m s = do {
     b \<leftarrow> m s;
     if b = 0 then Some (s + 1) else skip_string m (s + 1)
   }"

definition strlcpy :: "mem \<Rightarrow> u32 \<Rightarrow> u32 \<Rightarrow> u32 \<Rightarrow> (u32 \<times> mem) option" where
  "strlcpy m dst src siz = do {
     (d, s, n, m) \<leftarrow> (if siz \<noteq> 0 then strlcpy_loop m dst src siz else Some (dst, src, siz, m));
     (s, m) \<leftarrow> (if n = 0 then do {
         m \<leftarrow> (if siz \<noteq> 0 then wr m d 0 else Some m);
         s \<leftarrow> skip_string m s;
         Some (s, m)
       }
       else Some (s, m));
     Some (s - src - 1, m)
   }"

partial_function (option) strlcat_end :: "mem \<Rightarrow> u32 \<Rightarrow> u32 \<Rightarrow> u32 option" where
  "strlcat_end m d n = (if n = 0 then Some d
     else do {
       b \<leftarrow> m d;
       if b = 0 then Some d else strlcat_end m (d + 1) (n - 1)
     })"

partial_function (option) strlcat_loop :: "mem \<Rightarrow> u32 \<Rightarrow> u32 \<Rightarrow> u32 \<Rightarrow> (u32 \<times> u32 \<times> mem) option" where
  "strlcat_loop m d s n = do {
     b \<leftarrow> m s;
     if b = 0 then Some (d, s, m)
     else if n \<noteq> 1 then do { m \<leftarrow> wr m d b; strlcat_loop m (d + 1) (s + 1) (n - 1) }
     else strlcat_loop m d (s + 1) n
   }"

definition strlcat :: "mem \<Rightarrow> u32 \<Rightarrow> u32 \<Rightarrow> u32 \<Rightarrow> (u32 \<times> mem) option" where
  "strlcat m dst src siz = do {
     d \<leftarrow> strlcat_end m dst siz;
     let dlen = d - dst;
     let n = siz - dlen;
     if n = 0 then do { l \<leftarrow> strlen m src; Some (dlen + l, m) }
     else do {
       (d, s, m) \<leftarrow> strlcat_loop m d src n;
       m \<leftarrow> wr m d 0;
       Some (dlen + (s - src), m)
     }
   }"

section \<open>Comparison\<close>

text \<open>The order of two different bytes; a terminated string comes before its extensions.\<close>

definition cmp_char :: "u8 \<Rightarrow> u8 \<Rightarrow> int" where
  "cmp_char a b = (if a = 0 then - 1 else if b = 0 then 1 else if a <s b then - 1 else 1)"

partial_function (option) strcmp_loop :: "mem \<Rightarrow> u32 \<Rightarrow> u32 \<Rightarrow> u32 \<Rightarrow> int option" where
  "strcmp_loop m s1 s2 i = do {
     a \<leftarrow> m (s1 + i);
     b \<leftarrow> m (s2 + i);
     if a = b then (if a = 0 then Some 0 else strcmp_loop m s1 s2 (i + 1))
     else Some (cmp_char a b)
   }"

definition strcmp :: "mem \<Rightarrow> u32 \<Rightarrow> u32 \<Rightarrow> int option" where
  "strcmp m s1 s2 = strcmp_loop m s1 s2 0"

definition strcoll :: "mem \<Rightarrow> u32 \<Rightarrow> u32 \<Rightarrow> int option" where
  "strcoll m s1 s2 = strcmp m s1 s2"

primrec strncmp_loop :: "mem \<Rightarrow> u32 \<Rightarrow> u32 \<Rightarrow> nat list \<Rightarrow> int option" where
  "strncmp_loop m s1 s2 [] = Some 0"
| "strncmp_loop m s1 s2 (i # is) = do {
     a \<leftarrow> m (s1 + of_nat i);
     b \<leftarrow> m (s2 + of_nat i);
     if a = b then (if a = 0 then Some 0 else strncmp_loop m s1 s2 is)
     else Some (cmp_char a b)
   }"

definition strncmp :: "mem \<Rightarrow> u32 \<Rightarrow> u32 \<Rightarrow> u32 \<Rightarrow> int option" where
  "strncmp m s1 s2 n = strncmp_loop m s1 s2 [0..<unat n]"

section \<open>Searching\<close>

partial_function (option) strchr_loop :: "mem \<Rightarrow> u32 \<Rightarrow> u8 \<Rightarrow> u32 \<Rightarrow> u32 option" where
  "strchr_loop m s c i = do {
     b \<leftarrow> m (s + i);
     if b \<noteq> 0 \<and> b \<noteq> c then strchr_loop m s c (i + 1) else Some i
   }"

definition strchr :: "mem \<Rightarrow> u32 \<Rightarrow> u8 \<Rightarrow> u32 option" where
  "strchr m s c = do {
     i \<leftarrow> strchr_loop m s c 0;
     b \<leftarrow> m (s + i);
     Some (if b = 0 then 0 else s + i)
   }"

partial_function (option) strrchr_loop :: "mem \<Rightarrow> u32 \<Rightarrow> u8 \<Rightarrow> u32 \<Rightarrow> u32 option" where
  "strrchr_loop m s c i = do {
     b \<leftarrow> m (s + i);
     if i = 0 then Some (if b = c then s else 0)
     else if b = c then Some (s + i)
     else strrchr_loop m s c (i - 1)
   }"

definition strrchr :: "mem \<Rightarrow> u32 \<Rightarrow> u8 \<Rightarrow> u32 option" where
  "strrchr m s c = do { i \<leftarrow> strlen_loop m s 0; strrchr_loop m s c i }"

partial_function (option) is_accepted_loop :: "mem \<Rightarrow> u8 \<Rightarrow> u32 \<Rightarrow> u32 \<Rightarrow> bool option" where
  "is_accepted_loop m c accept i = do {
     b \<leftarrow> m (accept + i);
     if b = 0 then Some False
     else if c = b then Some True
     else is_accepted_loop m c accept (i + 1)
   }"

definition is_accepted :: "mem \<Rightarrow> u8 \<Rightarrow> u32 \<Rightarrow> bool option" where
  "is_accepted m c accept = is_accepted_loop m c accept 0"

partial_function (option) strpbrk_loop :: "mem \<Rightarrow> u32 \<Rightarrow> u32 \<Rightarrow> u32 \<Rightarrow> u32 option" where
  "strpbrk_loop m s accept i = do {
     b \<leftarrow> m (s + i);
     if b = 0 then Some 0
     else do {
       p \<leftarrow> is_accepted m b accept;
       if p then Some (s + i) else strpbrk_loop m s accept (i + 1)
     }
   }"

definition strpbrk :: "mem \<Rightarrow> u32 \<Rightarrow> u32 \<Rightarrow> u32 option" where
  "strpbrk m s accept = strpbrk_loop m s accept 0"

partial_function (option) strstr_match :: "mem \<Rightarrow> u32 \<Rightarrow> u32 \<Rightarrow> u32 \<Rightarrow> u32 option" where
  "strstr_match m a s2 j = do {
     b \<leftarrow> m (s2 + j);
     if b = 0 then Some j
     else do {
       c \<leftarrow> m (a + j);
       if c \<noteq> 0 \<and> c = b then strstr_match m a s2 (j + 1) else Some j
     }
   }"

partial_function (option) strstr_loop :: "mem \<Rightarrow> u32 \<Rightarrow> u32 \<Rightarrow> u32 \<Rightarrow> u32 option" where
  "strstr_loop m s1 s2 i = do {
     a \<leftarrow> m (s1 + i);
     if a = 0 then Some 0
     else do {
       j \<leftarrow> strstr_match m (s1 + i) s2 0;
       b \<leftarrow> m (s2 + j);
       if b = 0 then Some (s1 + i) else strstr_loop m s1 s2 (i + 1)
     }
   }"

definition strstr :: "mem \<Rightarrow> u32 \<Rightarrow> u32 \<Rightarrow> u32 option" where
  "strstr m s1 s2 = strstr_loop m s1 s2 0"

section \<open>Spans\<close>

text \<open>
  The set of characters is a table of sixteen half words on the stack, indexed by the character: a
  negative character, sign-extended to \<open>size_t\<close>, is far outside the table.
\<close>

definition mask_index :: "u8 \<Rightarrow> (nat \<times> u16) option" where
  "mask_index c = (let k = (scast c :: u32) in
     if drop_bit 4 k \<ge> 16 then None else Some (unat (drop_bit 4 k), push_bit (unat (k AND 0xF)) 1))"

partial_function (option) mask_loop :: "mem \<Rightarrow> u32 \<Rightarrow> (nat \<Rightarrow> u16) \<Rightarrow> u32 \<Rightarrow> (nat \<Rightarrow> u16) option" where
  "mask_loop m cs tbl i = do {
     b \<leftarrow> m (cs + i);
     if b = 0 then Some tbl
     else do {
       (k, w) \<leftarrow> mask_index b;
       mask_loop m cs (tbl(k := tbl k OR w)) (i + 1)
     }
   }"

partial_function (option) strspn_loop :: "mem \<Rightarrow> u32 \<Rightarrow> (nat \<Rightarrow> u16) \<Rightarrow> u32 \<Rightarrow> u32 option" where
  "strspn_loop m s tbl i = do {
     b \<leftarrow> m (s + i);
     if b = 0 then Some i
     else do {
       (k, w) \<leftarrow> mask_index b;
       if NOT (tbl k) AND w \<noteq> 0 then Some i else strspn_loop m s tbl (i + 1)
     }
   }"

definition strspn :: "mem \<Rightarrow> u32 \<Rightarrow> u32 \<Rightarrow> u32 option" where
  "strspn m s accept = do {
     tbl \<leftarrow> mask_loop m accept (\<lambda>_. 0) 0;
     strspn_loop m s tbl 0
   }"

partial_function (option) strcspn_loop :: "mem \<Rightarrow> u32 \<Rightarrow> (nat \<Rightarrow> u16) \<Rightarrow> u32 \<Rightarrow> u32 option" where
  "strcspn_loop m s tbl i = do {
     b \<leftarrow> m (s + i);
     if b = 0 then Some i
     else do {
       (k, w) \<leftarrow> mask_index b;
       if tbl k AND w \<noteq> 0 then Some i else strcspn_loop m s tbl (i + 1)
     }
   }"

definition strcspn :: "mem \<Rightarrow> u32 \<Rightarrow> u32 \<Rightarrow> u32 option" where
  "strcspn m s reject = do {
     tbl \<leftarrow> mask_loop m reject (\<lambda>_. 0) 0;
     strcspn_loop m s tbl 0
   }"

section \<open>Tokens\<close>

text \<open>Leading delimiters, then the token: the second loop stops at a delimiter or at the terminator.\<close>

partial_function (option) skip_delims :: "mem \<Rightarrow> u32 \<Rightarrow> u32 \<Rightarrow> u32 \<Rightarrow> u32 option" where
  "skip_delims m str delim i = do {
     b \<leftarrow> m (str + i);
     if b = 0 then Some i
     else do {
       p \<leftarrow> is_accepted_loop m b delim 0;
       if p then skip_delims m str delim (i + 1) else Some i
     }
   }"

partial_function (option) skip_token :: "mem \<Rightarrow> u32 \<Rightarrow> u32 \<Rightarrow> u32 \<Rightarrow> u32 option" where
  "skip_token m str delim i = do {
     b \<leftarrow> m (str + i);
     if b = 0 then Some i
     else do {
       p \<leftarrow> is_accepted_loop m b delim 0;
       if p then Some i else skip_token m str delim (i + 1)
     }
   }"

definition strtok_r :: "mem \<Rightarrow> u32 \<Rightarrow> u32 \<Rightarrow> u32 \<Rightarrow> (u32 \<times> u32 \<times> mem) option" where
  "strtok_r m str delim saveptr = (
     if str = 0 \<and> saveptr = 0 then Some (0, saveptr, m)
     else do {
       let str = (if str \<noteq> 0 then str else saveptr);
       i \<leftarrow> skip_delims m str delim 0;
       i \<leftarrow> skip_token m str delim i;
       b \<leftarrow> m (str + i);
       if b \<noteq> 0 then do {
         m \<leftarrow> wr m (str + i) 0;
         Some (str, str + i + 1, m)
       }
       else Some (str, 0, m)
     })"

text \<open>\<open>strtok\<close> keeps the position in a static variable, the third component of the result.\<close>

definition strtok :: "mem \<Rightarrow> u32 \<Rightarrow> u32 \<Rightarrow> u32 \<Rightarrow> (u32 \<times> u32 \<times> mem) option" where
  "strtok m str delim saveptr = do {
     (token, saveptr, m) \<leftarrow> strtok_r m str delim saveptr;
     Some (token, if token = 0 then 0 else saveptr, m)
   }"

section \<open>Lemmas\<close>

lemma offset_unat: "unat (a :: u32) + n < 2 ^ 32 \<Longrightarrow> unat (a + of_nat n) = unat a + n"
  by (simp add: unat_word_ariths unat_of_nat)

lemma offset_sub: "unat (d :: u32) \<le> unat a \<Longrightarrow> a = d + of_nat (unat a - unat d)"
  by (simp add: of_nat_diff)

text \<open>The memory after the bytes of an interval have been copied at once.\<close>

definition copied :: "u32 \<Rightarrow> u32 \<Rightarrow> nat set \<Rightarrow> mem \<Rightarrow> mem" where
  "copied d s A m = (\<lambda>a. if unat a \<in> A then m (a - d + s) else m a)"

lemma copy_byte_step:
  assumes "unat d + i < 2 ^ 32" and "unat s + i < 2 ^ 32" and "unat s + i \<notin> A" and "unat d + i \<notin> A"
    and "m (s + of_nat i) \<noteq> None" and "m (d + of_nat i) \<noteq> None"
  shows "copy_byte d s (of_nat i) (copied d s A m) = Some (copied d s (insert (unat d + i) A) m)"
proof -
  obtain b where b: "m (s + of_nat i) = Some b" using assms(5) by auto
  have "(copied d s A m)(d + of_nat i \<mapsto> b) = copied d s (insert (unat d + i) A) m"
  proof (rule ext)
    fix a
    have "unat a = unat d + i \<longleftrightarrow> a = d + of_nat i" unfolding offset_unat [OF assms(1), symmetric] word_unat_eq_iff ..
    then show "((copied d s A m)(d + of_nat i \<mapsto> b)) a = copied d s (insert (unat d + i) A) m a"
      using b by (auto simp: copied_def add.commute)
  qed
  then show ?thesis
    using assms b offset_unat [OF assms(1)] offset_unat [OF assms(2)] by (auto simp: copy_byte_def wr_def copied_def)
qed

lemma copy_up:
  assumes "d < s" and "unat s + n \<le> 2 ^ 32" and "\<forall>i < n. m (s + of_nat i) \<noteq> None \<and> m (d + of_nat i) \<noteq> None" and "k \<le> n"
  shows "for_list (\<lambda>i. copy_byte d s (of_nat i)) [0..<k] m = Some (copied d s {unat d..<unat d + k} m)"
  using assms(4)
proof (induction k)
  case 0
  then show ?case by (simp add: copied_def)
next
  case (Suc k)
  have "copy_byte d s (of_nat k) (copied d s {unat d..<unat d + k} m) = Some (copied d s (insert (unat d + k) {unat d..<unat d + k}) m)"
    by (rule copy_byte_step) (use assms Suc.prems in \<open>auto simp: word_less_nat_alt\<close>)
  then show ?case using Suc by (simp add: for_list_append atLeastLessThanSuc)
qed

lemma copy_down:
  assumes "s < d" and "unat d + n \<le> 2 ^ 32" and "\<forall>i < n. m (s + of_nat i) \<noteq> None \<and> m (d + of_nat i) \<noteq> None" and "k \<le> n"
  shows "for_list (\<lambda>i. copy_byte d s (of_nat n - of_nat i - 1)) [0..<k] m = Some (copied d s {unat d + n - k..<unat d + n} m)"
  using assms(4)
proof (induction k)
  case 0
  then show ?case by (simp add: copied_def)
next
  case (Suc k)
  have i: "of_nat n - of_nat k - 1 = (of_nat (n - Suc k) :: u32)" using Suc.prems by (simp add: of_nat_diff)
  have "copy_byte d s (of_nat (n - Suc k)) (copied d s {unat d + n - k..<unat d + n} m) =
      Some (copied d s (insert (unat d + (n - Suc k)) {unat d + n - k..<unat d + n}) m)"
    by (rule copy_byte_step) (use assms(1,2) Suc.prems spec [OF assms(3), of "n - Suc k"] in \<open>simp_all add: word_less_nat_alt del: of_nat_diff\<close>)
  moreover have "insert (unat d + (n - Suc k)) {unat d + n - k..<unat d + n} = {unat d + n - Suc k..<unat d + n}"
    using Suc.prems by auto
  ultimately show ?case using Suc by (simp add: for_list_append i del: of_nat_diff)
qed

text \<open>A terminated string at an address.\<close>

fun cstr :: "mem \<Rightarrow> u32 \<Rightarrow> u8 list \<Rightarrow> bool" where
  "cstr m a [] \<longleftrightarrow> m a = Some 0"
| "cstr m a (x # xs) \<longleftrightarrow> m a = Some x \<and> x \<noteq> 0 \<and> cstr m (a + 1) xs"

lemma cstr_cong: "(\<And>i. i \<le> length xs \<Longrightarrow> m' (a + of_nat i) = m (a + of_nat i)) \<Longrightarrow> cstr m' a xs = cstr m a xs"
proof (induction xs arbitrary: a)
  case (Cons x xs)
  have "m' a = m a" using Cons.prems [of 0] by simp
  moreover have "m' (a + 1 + of_nat i) = m (a + 1 + of_nat i)" if "i \<le> length xs" for i
    using Cons.prems [of "Suc i"] that by (simp add: add.assoc)
  ultimately show ?case using Cons.IH [of "a + 1"] by simp
qed simp

lemma strlen_loop_ok: "cstr m (s + i) xs \<Longrightarrow> strlen_loop m s i = Some (i + of_nat (length xs))"
proof (induction xs arbitrary: i)
  case (Cons x xs)
  then have "strlen_loop m s i = strlen_loop m s (i + 1)" by (simp add: strlen_loop.simps [of _ _ i])
  then show ?case using Cons.IH [of "i + 1"] Cons.prems by (simp add: add.assoc)
qed (simp add: strlen_loop.simps)

lemma skip_string_ok: "cstr m s xs \<Longrightarrow> skip_string m s = Some (s + of_nat (length xs) + 1)"
proof (induction xs arbitrary: s)
  case (Cons x xs)
  then have "skip_string m s = skip_string m (s + 1)" by (simp add: skip_string.simps [of _ s])
  then show ?case using Cons.IH [of "s + 1"] Cons.prems by (simp add: add.assoc add.commute)
qed (simp add: skip_string.simps)

lemma strcmp_loop_ok:
  "cstr m (s1 + i) xs \<Longrightarrow> cstr m (s2 + i) ys \<Longrightarrow>
   strcmp_loop m s1 s2 i = Some (if xs = ys then 0 else if (xs, ys) \<in> lexord {(a, b). a <s b} then - 1 else 1)"
proof (induction xs arbitrary: i ys)
  case Nil
  then show ?case by (cases ys) (simp_all add: strcmp_loop.simps [of _ _ _ i] cmp_char_def)
next
  case (Cons x xs)
  show ?case
  proof (cases ys)
    case Nil
    then show ?thesis using Cons.prems by (simp add: strcmp_loop.simps [of _ _ _ i] cmp_char_def)
  next
    case ys: (Cons y zs)
    have s: "strcmp_loop m s1 s2 i = (if x = y then strcmp_loop m s1 s2 (i + 1) else Some (if x <s y then - 1 else 1))"
      using Cons.prems ys by (simp add: strcmp_loop.simps [of _ _ _ i] cmp_char_def)
    show ?thesis using Cons.IH [of "i + 1" zs] Cons.prems ys unfolding s by (simp add: add.assoc)
  qed
qed

text \<open>Successive bytes written from an address on.\<close>

fun puts :: "mem \<Rightarrow> u32 \<Rightarrow> u8 list \<Rightarrow> mem" where
  "puts m d [] = m"
| "puts m d (x # xs) = puts (m(d \<mapsto> x)) (d + 1) xs"

lemma puts_append: "puts m d (xs @ ys) = puts (puts m d xs) (d + of_nat (length xs)) ys"
  by (induction xs arbitrary: m d) (simp_all add: add.assoc)

lemma puts_other: "(\<And>j. j < length xs \<Longrightarrow> a \<noteq> d + of_nat j) \<Longrightarrow> puts m d xs a = m a"
proof (induction xs arbitrary: m d)
  case (Cons x xs)
  have "a \<noteq> d" using Cons.prems [of 0] by simp
  moreover have "a \<noteq> d + 1 + of_nat j" if "j < length xs" for j using Cons.prems [of "Suc j"] that by (simp add: add.assoc)
  ultimately show ?case using Cons.IH [of "d + 1"] by simp
qed simp

lemma puts_mapped: "m a \<noteq> None \<Longrightarrow> puts m d xs a \<noteq> None"
  by (induction xs arbitrary: m d) auto

lemma offset_eq: "i < 2 ^ 32 \<Longrightarrow> j < 2 ^ 32 \<Longrightarrow> (d :: u32) + of_nat i = d + of_nat j \<longleftrightarrow> i = j"
  unfolding add_left_cancel by (auto dest: arg_cong [of _ _ unat] simp: unat_of_nat)

lemma puts_cstr: "0 \<notin> set xs \<Longrightarrow> length xs < 2 ^ 32 \<Longrightarrow> cstr (puts m d (xs @ [0])) d xs"
proof (induction xs arbitrary: m d)
  case (Cons x xs)
  have "puts (m(d \<mapsto> x)) (d + 1) (xs @ [0]) d = (m(d \<mapsto> x)) d"
  proof (rule puts_other)
    fix j assume "j < length (xs @ [0])"
    then show "d \<noteq> d + 1 + of_nat j" using offset_eq [of 0 "Suc j" d] Cons.prems by (simp add: add.assoc)
  qed
  then show ?case using Cons.IH [of "m(d \<mapsto> x)" "d + 1"] Cons.prems by (simp del: fun_upd_apply) simp
qed simp

lemma cstr_nonzero: "cstr m s xs \<Longrightarrow> 0 \<notin> set xs"
  by (induction xs arbitrary: s) auto

lemma cstr_drop: "cstr m s xs \<Longrightarrow> k \<le> length xs \<Longrightarrow> cstr m (s + of_nat k) (drop k xs)"
proof (induction xs arbitrary: s k)
  case (Cons x xs)
  show ?case using Cons.prems Cons.IH [of "s + 1" "k - 1"] by (cases k) (auto simp: add.assoc)
qed simp

text \<open>The copying loop of \<open>strlcpy\<close>, with room for \<open>k\<close> characters and the terminator.\<close>

lemma strlcpy_loop_ok:
  assumes "cstr m s xs" and "Suc k < 2 ^ 32" and "\<forall>j \<le> k. m (d + of_nat j) \<noteq> None"
    and "\<forall>i \<le> length xs. \<forall>j \<le> k. s + of_nat i \<noteq> d + of_nat j"
  shows "strlcpy_loop m d s (of_nat (Suc k)) = Some (
    if k \<le> length xs then (d + of_nat k, s + of_nat k, 0, puts m d (take k xs))
    else (d + of_nat (length xs) + 1, s + of_nat (length xs) + 1, of_nat (k - length xs), puts m d (xs @ [0])))"
  using assms
proof (induction xs arbitrary: m d s k)
  case Nil
  show ?case
  proof (cases k)
    case 0
    then show ?thesis by (simp add: strlcpy_loop.simps)
  next
    case (Suc k')
    have "(of_nat (Suc k') :: u32) \<noteq> 0" using Nil(2) Suc offset_eq [of "Suc k'" 0 0] by simp
    then show ?thesis using Nil Suc spec [OF Nil(3), of 0]
      by (simp add: strlcpy_loop.simps [of m d s] wr_def)
  qed
next
  case (Cons x xs)
  show ?case
  proof (cases k)
    case 0
    then show ?thesis by (simp add: strlcpy_loop.simps)
  next
    case (Suc k')
    let ?m = "m(d \<mapsto> x)"
    have nz: "(of_nat (Suc k') :: u32) \<noteq> 0" using Cons.prems(2) Suc offset_eq [of "Suc k'" 0 0] by simp
    have "cstr ?m (s + 1) xs = cstr m (s + 1) xs"
      by (rule cstr_cong) (use Cons.prems(4) [rule_format, of "Suc _" 0] in \<open>simp add: add.assoc\<close>)
    then have c: "cstr ?m (s + 1) xs" using Cons.prems(1) by simp
    have "\<forall>j \<le> k'. ?m (d + 1 + of_nat j) \<noteq> None"
      using Cons.prems(3) [rule_format, of "Suc _"] Suc by (simp add: add.assoc)
    moreover have "\<forall>i \<le> length xs. \<forall>j \<le> k'. s + 1 + of_nat i \<noteq> d + 1 + of_nat j"
      using Cons.prems(4) [rule_format, of "Suc _" "Suc _"] Suc by (simp add: add.assoc)
    moreover have "Suc k' < 2 ^ 32" using Cons.prems(2) Suc by linarith
    ultimately have IH: "strlcpy_loop ?m (d + 1) (s + 1) (of_nat (Suc k')) = Some (
      if k' \<le> length xs then (d + 1 + of_nat k', s + 1 + of_nat k', 0, puts ?m (d + 1) (take k' xs))
      else (d + 1 + of_nat (length xs) + 1, s + 1 + of_nat (length xs) + 1, of_nat (k' - length xs), puts ?m (d + 1) (xs @ [0])))"
      by (intro Cons.IH [OF c])
    have "strlcpy_loop m d s (of_nat (Suc k)) = strlcpy_loop ?m (d + 1) (s + 1) (of_nat (Suc k'))"
      using nz Cons.prems(1) Cons.prems(3) [rule_format, of 0] Suc
      by (auto simp: strlcpy_loop.simps [of m d s] wr_def)
    then show ?thesis using IH Suc by (simp add: ac_simps)
  qed
qed

lemma low_char:
  fixes c :: u8
  assumes "c < 0x80"
  shows "mask_index c = Some (unat c div 16, 2 ^ (unat c mod 16))"
proof -
  have "uint c < 128" using assms by (simp add: word_less_def)
  then have "sint c = uint c" unfolding sint_uint by (intro signed_take_bit_int_eq_self) (simp_all add: order.trans [OF _ uint_ge_0])
  then have e: "(scast c :: u32) = ucast c" by (simp add: scast_eq)
  have u: "unat (ucast c :: u32) = unat c" using assms by (simp add: unsigned_ucast_eq take_bit_eq_mod word_less_nat_alt)
  have d: "unat (drop_bit 4 (ucast c :: u32)) = unat c div 16" by (simp add: drop_bit_eq_div unat_div u)
  have "(ucast c :: u32) AND 0xF = take_bit 4 (ucast c)" by (simp add: take_bit_eq_mask mask_eq_exp_minus_1)
  then have m: "unat ((ucast c :: u32) AND 0xF) = unat c mod 16" by (simp add: take_bit_eq_mod unat_mod u)
  have "unat c div 16 < 16" using assms by (simp add: word_less_nat_alt)
  then have "\<not> drop_bit 4 (ucast c :: u32) \<ge> 16" using d by (simp add: word_le_nat_alt)
  then show ?thesis by (simp add: mask_index_def Let_def e d m push_bit_eq_mult)
qed

lemma high_char:
  fixes c :: u8
  assumes "c \<ge> 0x80"
  shows "mask_index c = None"
proof -
  have "uint c \<ge> 128" "uint c < 256" using assms uint_lt2p [of c] by (simp_all add: word_le_def)
  then have "uint c div 128 = 1" by simp
  then have "sint c = uint c - 256" by (simp add: sint_uint signed_take_bit_eq_take_bit_minus take_bit_eq_mod bit_iff_odd)
  moreover have "(uint c - 256) mod 2 ^ 32 = (uint c - 256 + 2 ^ 32) mod 2 ^ 32" by (rule mod_add_self2 [symmetric])
  ultimately have "uint (scast c :: u32) = uint c - 256 + 2 ^ 32"
    using \<open>uint c \<ge> 128\<close> \<open>uint c < 256\<close> by (simp only: scast_eq uint_word_of_int len_of_numeral_defs) simp
  then have "uint (drop_bit 4 (scast c :: u32)) \<ge> 16"
    using \<open>uint c \<ge> 128\<close> by (simp add: drop_bit_eq_div uint_div)
  then show ?thesis by (simp add: mask_index_def Let_def word_le_def)
qed

text \<open>The characters of a table.\<close>

definition tbl_mem :: "(nat \<Rightarrow> u16) \<Rightarrow> u8 \<Rightarrow> bool" where
  "tbl_mem tbl c \<longleftrightarrow> bit (tbl (unat c div 16)) (unat c mod 16)"

lemma tbl_mem_add: "tbl_mem (tbl(unat a div 16 := tbl (unat a div 16) OR 2 ^ (unat a mod 16))) c \<longleftrightarrow> tbl_mem tbl c \<or> c = a"
proof -
  have "unat c div 16 = unat a div 16 \<and> unat c mod 16 = unat a mod 16 \<longleftrightarrow> c = a"
    unfolding word_unat_eq_iff by (metis div_mult_mod_eq)
  then show ?thesis by (auto simp: tbl_mem_def bit_or_iff bit_exp_iff)
qed

lemma mask_loop_ok:
  "cstr m (cs + i) xs \<Longrightarrow> \<forall>c \<in> set xs. c < 0x80 \<Longrightarrow> \<exists>tbl'. mask_loop m cs tbl i = Some tbl' \<and> (\<forall>c. tbl_mem tbl' c \<longleftrightarrow> tbl_mem tbl c \<or> c \<in> set xs)"
proof (induction xs arbitrary: i tbl)
  case (Cons x xs)
  let ?t = "tbl(unat x div 16 := tbl (unat x div 16) OR 2 ^ (unat x mod 16))"
  have "mask_loop m cs tbl i = mask_loop m cs ?t (i + 1)"
    using Cons.prems low_char [of x] by (simp add: mask_loop.simps [of _ _ _ i])
  moreover obtain tbl' where "mask_loop m cs ?t (i + 1) = Some tbl'" "\<forall>c. tbl_mem tbl' c \<longleftrightarrow> tbl_mem ?t c \<or> c \<in> set xs"
    using Cons.IH [of "i + 1" ?t] Cons.prems by (auto simp: add.assoc simp del: fun_upd_apply)
  ultimately show ?case unfolding tbl_mem_add by auto
qed (simp add: mask_loop.simps)

lemma mask_loop_high:
  "cstr m (cs + i) xs \<Longrightarrow> \<exists>c \<in> set xs. c \<ge> 0x80 \<Longrightarrow> mask_loop m cs tbl i = None"
proof (induction xs arbitrary: i tbl)
  case (Cons x xs)
  show ?case
  proof (cases "x < 0x80")
    case True
    then have "mask_loop m cs tbl i = mask_loop m cs (tbl(unat x div 16 := tbl (unat x div 16) OR 2 ^ (unat x mod 16))) (i + 1)"
      using Cons.prems(1) low_char [of x] by (simp add: mask_loop.simps [of _ _ _ i])
    then show ?thesis using Cons.IH [of "i + 1"] Cons.prems True by (auto simp: add.assoc)
  next
    case False
    then show ?thesis using Cons.prems(1) high_char [of x] by (simp add: mask_loop.simps [of _ _ _ i])
  qed
qed simp

lemma tbl_test: "c < 0x80 \<Longrightarrow> mask_index c = Some (k, w) \<Longrightarrow> (NOT (tbl k) AND w \<noteq> 0 \<longleftrightarrow> \<not> tbl_mem tbl c) \<and> (tbl k AND w \<noteq> 0 \<longleftrightarrow> tbl_mem tbl c)"
  by (auto simp: low_char tbl_mem_def and_exp_eq_0_iff_not_bit bit_not_iff)

lemma span_loops:
  assumes "cstr m (s + i) xs" and "\<forall>c \<in> set xs. c < 0x80"
  shows "strspn_loop m s tbl i = Some (i + of_nat (length (takeWhile (tbl_mem tbl) xs)))"
    "strcspn_loop m s tbl i = Some (i + of_nat (length (takeWhile (\<lambda>c. \<not> tbl_mem tbl c) xs)))"
  using assms
proof (induction xs arbitrary: i)
  case (Cons x xs)
  note T = tbl_test [of x "unat x div 16" "2 ^ (unat x mod 16)" tbl, OF _ low_char]
  {
    case 1
    then show ?case using Cons.IH(1) [of "i + 1"] T by (simp add: strspn_loop.simps [of _ _ _ i] low_char add.assoc)
  next
    case 2
    then show ?case using Cons.IH(2) [of "i + 1"] T by (simp add: strcspn_loop.simps [of _ _ _ i] low_char add.assoc)
  }
qed (simp_all add: strspn_loop.simps strcspn_loop.simps)

section \<open>Properties\<close>

text \<open>
  C13. Overlapping moves: for two mapped blocks of \<open>n\<close> bytes that do not wrap, however they overlap,
  \<open>memmove\<close> returns with the memory that a copy of all bytes at once gives: the destination holds what
  the source held before, and every byte outside the destination is unchanged.
\<close>

theorem memmove_overlap:
  assumes "unat s + unat n \<le> 2 ^ 32" and "unat d + unat n \<le> 2 ^ 32"
    and "\<forall>i < unat n. m (s + of_nat i) \<noteq> None \<and> m (d + of_nat i) \<noteq> None"
  shows "memmove m d s n = Some (d, \<lambda>a. if unat a \<in> {unat d..<unat d + unat n} then m (a - d + s) else m a)"
proof (cases "s = d")
  case True
  then show ?thesis by (auto simp: memmove_def)
next
  case False
  then consider "d < s" | "s < d" by fastforce
  then show ?thesis
  proof cases
    case 1
    then have "s \<noteq> d" by auto
    then show ?thesis using copy_up [OF 1 assms(1,3) order.refl] 1 by (simp add: memmove_def copied_def)
  next
    case 2
    then have "s \<noteq> d" "\<not> d < s" by auto
    then show ?thesis using copy_down [OF 2 assms(2,3) order.refl] by (simp add: memmove_def copied_def)
  qed
qed

theorem memmove_overlap_witness:
  "map_option (\<lambda>(r, m). map m [0, 1, 2, 3]) (memmove [0 \<mapsto> 1, 1 \<mapsto> 2, 2 \<mapsto> 3, 3 \<mapsto> 4] 1 0 3) = Some [Some 1, Some 1, Some 2, Some 3]"
proof -
  have "\<forall>i < unat (3 :: u32). [0 \<mapsto> 1, 1 \<mapsto> 2, 2 \<mapsto> 3, 3 \<mapsto> (4 :: u8)] (0 + (of_nat i :: u32)) \<noteq> None \<and>
      [0 \<mapsto> 1, 1 \<mapsto> 2, 2 \<mapsto> 3, 3 \<mapsto> (4 :: u8)] (1 + (of_nat i :: u32)) \<noteq> None"
  proof (intro allI impI)
    fix i assume "i < unat (3 :: u32)"
    then have "i = 0 \<or> i = 1 \<or> i = 2" by auto
    then show "[0 \<mapsto> 1, 1 \<mapsto> 2, 2 \<mapsto> 3, 3 \<mapsto> (4 :: u8)] (0 + (of_nat i :: u32)) \<noteq> None \<and>
      [0 \<mapsto> 1, 1 \<mapsto> 2, 2 \<mapsto> 3, 3 \<mapsto> (4 :: u8)] (1 + (of_nat i :: u32)) \<noteq> None" by auto
  qed
  then show ?thesis using memmove_overlap [of 0 3 1 "[0 \<mapsto> 1, 1 \<mapsto> 2, 2 \<mapsto> 3, 3 \<mapsto> 4]"] by simp
qed

text \<open>
  C14. \<open>strlcpy\<close> never overruns: with a mapped destination of \<open>siz > 0\<close> bytes apart from the source
  string, it returns the length of the source, leaves in the destination the longest prefix that fits,
  terminated, and changes no byte outside the destination.
\<close>

theorem strlcpy_truncates:
  assumes "cstr m src xs" and "0 < siz" and "\<forall>j < unat siz. m (dst + of_nat j) \<noteq> None"
    and "\<forall>i \<le> length xs. \<forall>j < unat siz. src + of_nat i \<noteq> dst + of_nat j" and "unat siz < 2 ^ 32 - 1"
  shows "\<exists>m'. strlcpy m dst src siz = Some (of_nat (length xs), m') \<and> cstr m' dst (take (unat siz - 1) xs) \<and>
    (\<forall>a. (\<forall>j < unat siz. a \<noteq> dst + of_nat j) \<longrightarrow> m' a = m a)"
proof -
  obtain k where k: "unat siz = Suc k" using assms(2) by (cases "unat siz") (auto simp: word_less_nat_alt)
  have siz: "siz = of_nat (Suc k)" "siz \<noteq> 0" using k assms(2) by (auto simp flip: k)
  let ?y = "take k xs" and ?m = "puts m dst (take k xs @ [0])"
  have L: "strlcpy_loop m dst src siz = Some (
    if k \<le> length xs then (dst + of_nat k, src + of_nat k, 0, puts m dst ?y)
    else (dst + of_nat (length xs) + 1, src + of_nat (length xs) + 1, of_nat (k - length xs), puts m dst (xs @ [0])))"
    unfolding siz(1) by (rule strlcpy_loop_ok) (use assms k in auto)
  have other: "?m a = m a" if "\<forall>j < unat siz. a \<noteq> dst + of_nat j" for a
    by (rule puts_other) (use that k in auto)
  have c: "cstr ?m dst ?y"
    by (rule puts_cstr) (use cstr_nonzero [OF assms(1)] k assms(5) in \<open>auto dest: in_set_takeD\<close>)
  have "strlcpy m dst src siz = Some (of_nat (length xs), ?m)"
  proof (cases "k \<le> length xs")
    case True
    have "cstr ?m src xs = cstr m src xs" by (rule cstr_cong) (use other assms(4) in blast)
    then have "skip_string ?m (src + of_nat k) = Some (src + of_nat (length xs) + 1)"
      using skip_string_ok [OF cstr_drop [OF _ True], of ?m src] assms(1) True by (simp add: of_nat_diff)
    moreover have "wr (puts m dst ?y) (dst + of_nat k) 0 = Some ?m"
      using puts_mapped assms(3) k True by (simp add: wr_def puts_append)
    ultimately show ?thesis using L siz(2) True by (simp add: strlcpy_def)
  next
    case False
    then have "(of_nat (k - length xs) :: u32) \<noteq> 0" using offset_eq [of "k - length xs" 0 0] assms(5) k by simp
    then show ?thesis using L siz(2) False by (simp add: strlcpy_def)
  qed
  then show ?thesis using c other k by auto
qed

theorem strlcpy_truncates_witness:
  "\<exists>m'. strlcpy [0 \<mapsto> 65, 1 \<mapsto> 66, 2 \<mapsto> 67, 3 \<mapsto> 0, 8 \<mapsto> 9, 9 \<mapsto> 9] 8 0 2 = Some (3, m') \<and> cstr m' 8 [65]"
proof -
  let ?m = "[0 \<mapsto> 65, 1 \<mapsto> 66, 2 \<mapsto> 67, 3 \<mapsto> 0, 8 \<mapsto> 9, 9 \<mapsto> 9] :: mem"
  have two: "j = 0 \<or> j = 1" if "j < unat (2 :: u32)" for j using that by auto
  then have "\<forall>j < unat (2 :: u32). ?m (8 + of_nat j) \<noteq> None" by fastforce
  moreover have "\<forall>i \<le> length [65, 66, 67 :: u8]. \<forall>j < unat (2 :: u32). (0 :: u32) + of_nat i \<noteq> 8 + of_nat j"
    using two by (fastforce simp: le_Suc_eq)
  ultimately show ?thesis using strlcpy_truncates [of ?m 0 "[65, 66, 67]" 2 8] by auto
qed

text \<open>
  \<open>strcmp\<close> is the lexicographic order on signed characters: for two terminated strings it returns
  zero exactly when they are equal, -1 when the first comes before the second and 1 otherwise.
\<close>

theorem strcmp_lexord:
  assumes "cstr m s1 xs" and "cstr m s2 ys"
  shows "strcmp m s1 s2 = Some (if xs = ys then 0 else if (xs, ys) \<in> lexord {(a, b). a <s b} then - 1 else 1)"
  using strcmp_loop_ok [of m s1 0 xs s2 ys] assms by (simp add: strcmp_def)

theorem strcmp_lexord_witness:
  "strcmp [0 \<mapsto> 65, 1 \<mapsto> 0, 2 \<mapsto> 65, 3 \<mapsto> 66, 4 \<mapsto> 0] 0 2 = Some (- 1)"
  using strcmp_lexord [of "[0 \<mapsto> 65, 1 \<mapsto> 0, 2 \<mapsto> 65, 3 \<mapsto> 66, 4 \<mapsto> 0]" 0 "[65]" 2 "[65, 66]"] by simp

text \<open>
  Spans by bit table: for strings of 7-bit characters \<open>strspn\<close> and \<open>strcspn\<close> return the length of the
  longest prefix of characters in, or not in, the set; a set with a character from \<open>0x80\<close> on makes both
  index outside their table.
\<close>

theorem strspn_span:
  assumes "cstr m s xs" and "cstr m cs ys"
  shows "((\<forall>c \<in> set xs \<union> set ys. c < 0x80) \<longrightarrow>
      strspn m s cs = Some (of_nat (length (takeWhile (\<lambda>c. c \<in> set ys) xs))) \<and>
      strcspn m s cs = Some (of_nat (length (takeWhile (\<lambda>c. c \<notin> set ys) xs)))) \<and>
    ((\<exists>c \<in> set ys. c \<ge> 0x80) \<longrightarrow> strspn m s cs = None \<and> strcspn m s cs = None)"
proof (intro conjI impI)
  assume low: "\<forall>c \<in> set xs \<union> set ys. c < 0x80"
  obtain tbl where t: "mask_loop m cs (\<lambda>_. 0) 0 = Some tbl" "\<forall>c. tbl_mem tbl c \<longleftrightarrow> c \<in> set ys"
    using mask_loop_ok [of m cs 0 ys "\<lambda>_. 0"] assms(2) low by (auto simp: tbl_mem_def)
  then have "tbl_mem tbl = (\<lambda>c. c \<in> set ys)" by auto
  then show "strspn m s cs = Some (of_nat (length (takeWhile (\<lambda>c. c \<in> set ys) xs)))"
    "strcspn m s cs = Some (of_nat (length (takeWhile (\<lambda>c. c \<notin> set ys) xs)))"
    using t(1) span_loops [of m s 0 xs tbl] assms(1) low by (simp_all add: strspn_def strcspn_def)
next
  assume "\<exists>c \<in> set ys. c \<ge> 0x80"
  then have "mask_loop m cs (\<lambda>_. 0) 0 = None" using mask_loop_high [of m cs 0 ys] assms(2) by auto
  then show "strspn m s cs = None" "strcspn m s cs = None" by (simp_all add: strspn_def strcspn_def)
qed

theorem strspn_span_witness:
  "strspn [0 \<mapsto> 65, 1 \<mapsto> 66, 2 \<mapsto> 0, 3 \<mapsto> 65, 4 \<mapsto> 0] 0 3 = Some 1 \<and> strspn [0 \<mapsto> 65, 1 \<mapsto> 66, 2 \<mapsto> 0, 3 \<mapsto> 0xE4, 4 \<mapsto> 0] 0 3 = None"
  using strspn_span [of "[0 \<mapsto> 65, 1 \<mapsto> 66, 2 \<mapsto> 0, 3 \<mapsto> 65, 4 \<mapsto> 0]" 0 "[65, 66]" 3 "[65]"]
    strspn_span [of "[0 \<mapsto> 65, 1 \<mapsto> 66, 2 \<mapsto> 0, 3 \<mapsto> 0xE4, 4 \<mapsto> 0]" 0 "[65, 66]" 3 "[0xE4]"] by simp

end
