(* ===== verification/Numbers.thy ===== *)
theory Numbers
  imports C_String "HOL-Library.Signed_Division"
begin

text \<open>
  Characters and numbers: the character table of \<open>libc/ctype\<close>, the conversions of \<open>libc/stdlib\<close> from
  strings to integers, and those of \<open>libc/stdio\<close> and \<open>kernel/debug\<close> from integers to strings, on the byte
  memory of \<open>C_String\<close>. A signed integer that overflows wraps.
\<close>

section \<open>Characters\<close>

definition ctype_tbl :: "u16 list" where
  "ctype_tbl =
    [0x000, 0x008, 0x008, 0x008, 0x008, 0x008, 0x008, 0x008, 0x080, 0x280, 0x280, 0x280, 0x280, 0x280, 0x008, 0x008,
     0x008, 0x008, 0x008, 0x008, 0x008, 0x008, 0x008, 0x008, 0x008, 0x008, 0x008, 0x008, 0x008, 0x008, 0x008, 0x008,
     0x2A0, 0x180, 0x180, 0x180, 0x180, 0x180, 0x180, 0x180, 0x180, 0x180, 0x180, 0x180, 0x180, 0x180, 0x180, 0x180,
     0x891, 0x891, 0x891, 0x891, 0x891, 0x891, 0x891, 0x891, 0x891, 0x891, 0x180, 0x180, 0x180, 0x180, 0x180, 0x180,
     0x180, 0xC83, 0xC83, 0xC83, 0xC83, 0xC83, 0xC83, 0x483, 0x483, 0x483, 0x483, 0x483, 0x483, 0x483, 0x483, 0x483,
     0x483, 0x483, 0x483, 0x483, 0x483, 0x483, 0x483, 0x483, 0x483, 0x483, 0x483, 0x180, 0x180, 0x180, 0x180, 0x180,
     0x180, 0x8C3, 0x8C3, 0x8C3, 0x8C3, 0x8C3, 0x8C3, 0x0C3, 0x0C3, 0x0C3, 0x0C3, 0x0C3, 0x0C3, 0x0C3, 0x0C3, 0x0C3,
     0x0C3, 0x0C3, 0x0C3, 0x0C3, 0x0C3, 0x0C3, 0x0C3, 0x0C3, 0x0C3, 0x0C3, 0x0C3, 0x180, 0x180, 0x180, 0x180, 0x080] @ replicate 128 0"

definition ctype_is :: "u16 \<Rightarrow> u8 \<Rightarrow> bool" where
  "ctype_is flag c \<longleftrightarrow> ctype_tbl ! unat c AND flag \<noteq> 0"

definition isalnum :: "u8 \<Rightarrow> bool" where "isalnum = ctype_is 0x001"
definition isalpha :: "u8 \<Rightarrow> bool" where "isalpha = ctype_is 0x002"
definition isblank :: "u8 \<Rightarrow> bool" where "isblank = ctype_is 0x004"
definition iscntrl :: "u8 \<Rightarrow> bool" where "iscntrl = ctype_is 0x008"
definition isdigit :: "u8 \<Rightarrow> bool" where "isdigit = ctype_is 0x010"
definition isgraph :: "u8 \<Rightarrow> bool" where "isgraph = ctype_is 0x020"
definition islower :: "u8 \<Rightarrow> bool" where "islower = ctype_is 0x040"
definition isprint :: "u8 \<Rightarrow> bool" where "isprint = ctype_is 0x080"
definition ispunct :: "u8 \<Rightarrow> bool" where "ispunct = ctype_is 0x100"
definition isspace :: "u8 \<Rightarrow> bool" where "isspace = ctype_is 0x200"
definition isupper :: "u8 \<Rightarrow> bool" where "isupper = ctype_is 0x400"
definition isxdigit :: "u8 \<Rightarrow> bool" where "isxdigit = ctype_is 0x800"

definition tolower :: "int \<Rightarrow> int" where
  "tolower c = (if c \<ge> 65 \<and> c \<le> 90 then c + (97 - 65) else c)"

definition toupper :: "int \<Rightarrow> int" where
  "toupper c = (if c \<ge> 97 \<and> c \<le> 122 then c + (65 - 97) else c)"

definition digit_val :: "u8 \<Rightarrow> int \<Rightarrow> int" where
  "digit_val digit base = (
     if isdigit digit then (let val = sint digit - 48 in if val \<ge> base then - 1 else val)
     else if isalpha digit then (let val = toupper (sint digit) - 65 + 10 in if val \<ge> base then - 1 else val)
     else - 1)"

definition isbdigit :: "u8 \<Rightarrow> int \<Rightarrow> bool" where
  "isbdigit c base \<longleftrightarrow> digit_val c 100 \<noteq> - 1"

section \<open>From strings to integers\<close>

partial_function (option) skip_space :: "mem \<Rightarrow> u32 \<Rightarrow> u32 \<Rightarrow> u32 option" where
  "skip_space m nptr i = do {
     c \<leftarrow> m (nptr + i);
     if isspace c then skip_space m nptr (i + 1) else Some i
   }"

text \<open>The comparison of the start of the string with the two characters of a hexadecimal prefix.\<close>

definition starts_0x :: "mem \<Rightarrow> u32 \<Rightarrow> bool option" where
  "starts_0x m nptr = do {
     a \<leftarrow> m nptr;
     if a \<noteq> 48 then Some False else do { b \<leftarrow> m (nptr + 1); Some (b = 120) }
   }"

definition guess_base :: "mem \<Rightarrow> u32 \<Rightarrow> u32 \<Rightarrow> (u32 \<times> int) option" where
  "guess_base m nptr i = do {
     c \<leftarrow> m (nptr + i);
     if c = 48 then do {
       let i = i + 1;
       c \<leftarrow> m (nptr + i);
       Some (if c = 120 then (i + 1, 16) else if isbdigit c 8 then (i, 8) else (i, 0))
     }
     else Some (if isbdigit c 10 then (i, 10) else (i, 0))
   }"

partial_function (option) sum_digits :: "mem \<Rightarrow> u32 \<Rightarrow> int \<Rightarrow> u32 \<Rightarrow> u32 \<Rightarrow> (u32 \<times> u32) option" where
  "sum_digits m nptr base i acc = do {
     c \<leftarrow> m (nptr + i);
     if c \<noteq> 0 \<and> isbdigit c base
     then sum_digits m nptr base (i + 1) (acc * of_int base + of_int (digit_val c base))
     else Some (i, acc)
   }"

text \<open>
  The value and the end pointer. \<open>neg\<close> is the value that the variable of that name happens to have: it is
  not initialised when the string has no sign.
\<close>

definition strtoul :: "mem \<Rightarrow> u32 \<Rightarrow> int \<Rightarrow> bool \<Rightarrow> (u32 \<times> u32) option" where
  "strtoul m nptr base neg = do {
     i \<leftarrow> skip_space m nptr 0;
     c \<leftarrow> m (nptr + i);
     let (i, neg) = (if c = 43 then (i + 1, False) else if c = 45 then (i + 1, True) else (i, neg));
     i \<leftarrow> (if base = 16 then do { p \<leftarrow> starts_0x m nptr; Some (if p then i + 2 else i) } else Some i);
     (i, base) \<leftarrow> (if base = 0 then guess_base m nptr i else Some (i, base));
     if base = 0 then Some (0, nptr + i)
     else do {
       (i, acc) \<leftarrow> sum_digits m nptr base i 0;
       Some (if neg then - acc else acc, nptr + i)
     }
   }"

definition strtol :: "mem \<Rightarrow> u32 \<Rightarrow> int \<Rightarrow> bool \<Rightarrow> (int \<times> u32) option" where
  "strtol m nptr base neg = do {
     i \<leftarrow> skip_space m nptr 0;
     c \<leftarrow> m (nptr + i);
     let (i, neg) = (if c = 43 then (i + 1, False) else if c = 45 then (i + 1, True) else (i, neg));
     i \<leftarrow> (if base = 16 then do { p \<leftarrow> starts_0x m nptr; Some (if p then i + 2 else i) } else Some i);
     (i, base) \<leftarrow> (if base = 0 then guess_base m nptr i else Some (i, base));
     if base = 0 then Some (0, nptr + i)
     else do {
       (i, acc) \<leftarrow> sum_digits m nptr base i 0;
       Some (sint (if neg then - acc else acc), nptr + i)
     }
   }"

definition atol :: "mem \<Rightarrow> u32 \<Rightarrow> bool \<Rightarrow> int option" where
  "atol m nptr neg = map_option fst (strtol m nptr 10 neg)"

partial_function (option) atoi_loop :: "mem \<Rightarrow> u32 \<Rightarrow> u32 \<Rightarrow> u32 \<Rightarrow> u32 option" where
  "atoi_loop m nptr i acc = do {
     c \<leftarrow> m (nptr + i);
     if isdigit c then atoi_loop m nptr (i + 1) (acc * 10 + (scast c - 48)) else Some acc
   }"

partial_function (option) atoi :: "mem \<Rightarrow> u32 \<Rightarrow> u32 option" where
  "atoi m nptr = do {
     c \<leftarrow> m nptr;
     if c = 45 then do { v \<leftarrow> atoi m (nptr + 1); Some (- v) }
     else atoi_loop m nptr 0 0
   }"

section \<open>From integers to strings\<close>

text \<open>The character of a digit: an access to a string constant of sixteen characters and a terminator.\<close>

definition digit_char :: "bool \<Rightarrow> int \<Rightarrow> u8 option" where
  "digit_char ucase k = (
     if k < 0 \<or> k > 16 then None
     else if k = 16 then Some 0
     else Some (if k < 10 then 48 + of_int k else (if ucase then 65 else 97) + of_int (k - 10)))"

partial_function (option) digits_loop :: "bool \<Rightarrow> mem \<Rightarrow> u32 \<Rightarrow> int \<Rightarrow> int \<Rightarrow> u32 \<Rightarrow> (u32 \<times> mem) option" where
  "digits_loop ucase m buffer n b i = (
     if n = 0 then Some (i, m)
     else if b = 0 then None
     else do {
       c \<leftarrow> digit_char ucase (n smod b);
       m \<leftarrow> wr m (buffer + i) c;
       digits_loop ucase m buffer (n sdiv b) b (i + 1)
     })"

definition swap_byte :: "u32 \<Rightarrow> u32 \<Rightarrow> nat \<Rightarrow> mem \<Rightarrow> mem option" where
  "swap_byte buffer sz i m = do {
     temp \<leftarrow> m (buffer + (sz - of_nat i - 1));
     b \<leftarrow> m (buffer + of_nat i);
     m \<leftarrow> wr m (buffer + (sz - of_nat i - 1)) b;
     wr m (buffer + of_nat i) temp
   }"

definition put_digits :: "bool \<Rightarrow> mem \<Rightarrow> u32 \<Rightarrow> int \<Rightarrow> int \<Rightarrow> mem option" where
  "put_digits ucase m buffer n b = do {
     (i, m) \<leftarrow> digits_loop ucase m buffer n b 0;
     m \<leftarrow> wr m (buffer + i) 0;
     for_list (swap_byte buffer i) [0..<unat (i div 2)] m
   }"

definition put_zero :: "mem \<Rightarrow> u32 \<Rightarrow> mem option" where
  "put_zero m buffer = do { m \<leftarrow> wr m buffer 48; wr m (buffer + 1) 0 }"

text \<open>The result is the returned value; \<open>-1\<close> goes with \<open>ERANGE\<close> in \<open>errno\<close>.\<close>

definition utoa :: "mem \<Rightarrow> u32 \<Rightarrow> u32 \<Rightarrow> int \<Rightarrow> bool \<Rightarrow> (int \<times> mem) option" where
  "utoa m buffer n b ucase = (
     if n = 0 then do { m \<leftarrow> put_zero m buffer; Some (0, m) }
     else if b > 16 then do { m \<leftarrow> wr m buffer 0; Some (- 1, m) }
     else do { m \<leftarrow> put_digits ucase m buffer (uint n) (uint (of_int b :: u32)); Some (0, m) })"

definition itoa :: "mem \<Rightarrow> u32 \<Rightarrow> u32 \<Rightarrow> int \<Rightarrow> bool \<Rightarrow> (int \<times> mem) option" where
  "itoa m buffer n b ucase = do {
     (m, buffer, n) \<leftarrow> (if sint n < 0 then do { m \<leftarrow> wr m buffer 45; Some (m, buffer + 1, - n) } else Some (m, buffer, n));
     if n = 0 then do { m \<leftarrow> put_zero m buffer; Some (0, m) }
     else if b > 16 then do { m \<leftarrow> wr m buffer 0; Some (- 1, m) }
     else do { m \<leftarrow> put_digits ucase m buffer (sint n) b; Some (0, m) }
   }"

text \<open>The kernel's own conversion, for \<open>debug_printf\<close>, with upper-case digits and no result.\<close>

definition kernel_itoa :: "mem \<Rightarrow> u32 \<Rightarrow> u32 \<Rightarrow> u32 \<Rightarrow> mem option" where
  "kernel_itoa m buffer n base = (
     if n = 0 then put_zero m buffer
     else if base > 16 then wr m buffer 0
     else put_digits True m buffer (uint n) (uint base))"

section \<open>Printing and reading\<close>

text \<open>The character of a digit, as the conversions write it.\<close>

definition dch :: "bool \<Rightarrow> nat \<Rightarrow> u8" where
  "dch ucase k = (if k < 10 then 48 + of_nat k else (if ucase then 65 else 97) + of_nat (k - 10))"

lemma digit_char_dch: "k < 16 \<Longrightarrow> digit_char ucase (int k) = Some (dch ucase k)"
  by (auto simp: digit_char_def dch_def of_nat_diff)

lemma dch_facts:
  assumes "k < 16"
  shows "isbdigit (dch u k) base" "\<not> isspace (dch u k)" "dch u k \<notin> {0, 43, 45}" "dch u k = 48 \<longleftrightarrow> k = 0"
    "k < b \<Longrightarrow> digit_val (dch u k) (int b) = int k"
proof -
  have "k \<in> set [0..<16]" using assms by simp
  then have "k = 0 \<or> k = 1 \<or> k = 2 \<or> k = 3 \<or> k = 4 \<or> k = 5 \<or> k = 6 \<or> k = 7 \<or> k = 8 \<or> k = 9 \<or> k = 10 \<or> k = 11 \<or> k = 12 \<or> k = 13 \<or> k = 14 \<or> k = 15"
    using assms by presburger
  then have "(isbdigit (dch u k) base \<and> \<not> isspace (dch u k)) \<and> dch u k \<notin> {0, 43, 45} \<and> (dch u k = 48 \<longleftrightarrow> k = 0) \<and>
      (k < b \<longrightarrow> digit_val (dch u k) (int b) = int k)"
    by (elim disjE; cases u) (simp_all add: dch_def isbdigit_def digit_val_def isdigit_def isalpha_def isspace_def ctype_is_def
      ctype_tbl_def toupper_def)
  then show "isbdigit (dch u k) base" "\<not> isspace (dch u k)" "dch u k \<notin> {0, 43, 45}" "dch u k = 48 \<longleftrightarrow> k = 0"
    "k < b \<Longrightarrow> digit_val (dch u k) (int b) = int k" by blast+
qed

text \<open>The digits of a number, least significant first.\<close>

function digs :: "nat \<Rightarrow> nat \<Rightarrow> nat list" where
  "digs b n = (if n = 0 \<or> b < 2 then [] else n mod b # digs b (n div b))"
  by pat_completeness auto
termination by (relation "measure snd") auto

declare digs.simps [simp del]

lemma digs_zero [simp]: "digs b 0 = []"
  by (simp add: digs.simps)

lemma digs_length: "n < 2 ^ k \<Longrightarrow> length (digs b n) \<le> k"
proof (induction k arbitrary: n)
  case (Suc k)
  show ?case
  proof (cases "n = 0 \<or> b < 2")
    case False
    then have "n div b \<le> n div 2" by (intro div_le_mono2) auto
    also have "\<dots> < 2 ^ k" using Suc.prems by (simp add: less_mult_imp_div_less mult.commute)
    finally show ?thesis using Suc.IH [of "n div b"] False by (simp add: digs.simps [of b n])
  qed (auto simp: digs.simps [of b n])
qed (simp add: digs.simps)

lemma digs_less: "d \<in> set (digs b n) \<Longrightarrow> d < b"
proof (induction b n rule: digs.induct)
  case (1 b n)
  then show ?case by (cases "n = 0 \<or> b < 2") (auto simp: digs.simps [of b n])
qed

lemma digs_value: "2 \<le> b \<Longrightarrow> foldr (\<lambda>d v. v * b + d) (digs b n) 0 = n"
proof (induction b n rule: digs.induct)
  case (1 b n)
  then show ?case by (cases "n = 0") (auto simp: digs.simps [of b n])
qed

lemma digs_last: "0 < n \<Longrightarrow> 2 \<le> b \<Longrightarrow> digs b n \<noteq> [] \<and> last (digs b n) \<noteq> 0"
proof (induction b n rule: digs.induct)
  case (1 b n)
  show ?case
  proof (cases "n div b = 0")
    case True
    then have "n < b" using 1(3) by (simp add: div_eq_0_iff)
    then show ?thesis using 1(2,3) True by (simp add: digs.simps [of b n])
  next
    case False
    then show ?thesis using 1 by (simp add: digs.simps [of b n])
  qed
qed

lemma digits_loop_ok:
  "2 \<le> b \<Longrightarrow> b \<le> 16 \<Longrightarrow> \<forall>j < length (digs b n). m (buffer + i + of_nat j) \<noteq> None \<Longrightarrow>
    digits_loop ucase m buffer (int n) (int b) i =
      Some (i + of_nat (length (digs b n)), puts m (buffer + i) (map (dch ucase) (digs b n)))"
proof (induction b n arbitrary: m i rule: digs.induct)
  case (1 b n)
  show ?case
  proof (cases "n = 0")
    case True
    then show ?thesis by (simp add: digits_loop.simps)
  next
    case False
    have D: "digs b n = n mod b # digs b (n div b)" using False 1(2) by (simp add: digs.simps [of b n])
    let ?m = "m(buffer + i \<mapsto> dch ucase (n mod b))"
    have ops: "int n smod int b = int (n mod b)" "int n sdiv int b = int (n div b)"
      using 1(2) by (simp_all add: signed_modulo_int_def signed_divide_int_def zmod_int zdiv_int sgn_if) 
    have c: "digit_char ucase (int (n mod b)) = Some (dch ucase (n mod b))"
    proof (rule digit_char_dch)
      have "n mod b < b" using 1(2) by simp
      then show "n mod b < 16" using 1(3) by linarith
    qed
    have "m (buffer + i) \<noteq> None" using spec [OF 1(4), of 0] D by simp
    then obtain v where "m (buffer + i) = Some v" by blast
    then have s: "digits_loop ucase m buffer (int n) (int b) i = digits_loop ucase ?m buffer (int (n div b)) (int b) (i + 1)"
      using False 1(2) c by (subst digits_loop.simps) (simp add: ops wr_def)
    have "\<forall>j < length (digs b (n div b)). ?m (buffer + (i + 1) + of_nat j) \<noteq> None"
      by (intro allI impI) (use 1(4) [unfolded D, rule_format, of "Suc _"] in \<open>simp add: add.assoc\<close>)
    then show ?thesis using 1(1) [of ?m "i + 1"] False 1(2,3) unfolding s by (simp add: D add.assoc del: fun_upd_apply)
  qed
qed

text \<open>The reversal in place, after some of its steps.\<close>

definition block :: "mem \<Rightarrow> u32 \<Rightarrow> u8 list \<Rightarrow> bool" where
  "block m a xs \<longleftrightarrow> (\<forall>j < length xs. m (a + of_nat j) = Some (xs ! j))"

lemma swap_block:
  assumes "block m a xs" and "length xs < 2 ^ 32" and "i < length xs - i - 1"
  shows "\<exists>m'. swap_byte a (of_nat (length xs)) i m = Some m' \<and>
    block m' a (xs[length xs - i - 1 := xs ! i, i := xs ! (length xs - i - 1)]) \<and> (\<forall>q. (\<forall>j < length xs. q \<noteq> a + of_nat j) \<longrightarrow> m' q = m q)"
proof -
  let ?k = "length xs - i - 1"
  have w: "of_nat (length xs) - of_nat i - 1 = (of_nat ?k :: u32)" using assms(3) by (simp add: of_nat_diff)
  have k: "?k < length xs" "i < length xs" "i \<noteq> ?k" using assms(3) by linarith+
  have eq: "a + of_nat j = a + (of_nat l :: u32) \<longleftrightarrow> j = l" if "j < length xs" "l < length xs" for j l
    by (rule offset_eq) (use that assms(2) in linarith)+
  let ?m = "m(a + of_nat ?k \<mapsto> xs ! i, a + of_nat i \<mapsto> xs ! ?k)"
  have r: "m (a + of_nat ?k) = Some (xs ! ?k)" "m (a + of_nat i) = Some (xs ! i)" using assms(1) k by (auto simp: block_def)
  then have "swap_byte a (of_nat (length xs)) i m = Some ?m"
    by (simp add: swap_byte_def w wr_def del: of_nat_diff)
  moreover have "block ?m a (xs[?k := xs ! i, i := xs ! ?k])"
    using assms(1) eq k by (auto simp: block_def nth_list_update simp del: of_nat_diff)
  moreover have "?m q = m q" if "\<forall>j < length xs. q \<noteq> a + of_nat j" for q using that k by (simp del: of_nat_diff)
  ultimately show ?thesis by blast
qed

definition half_rev :: "nat \<Rightarrow> u8 list \<Rightarrow> u8 list" where
  "half_rev k xs = map (\<lambda>j. if j < k \<or> length xs - k \<le> j then xs ! (length xs - 1 - j) else xs ! j) [0..<length xs]"

lemma half_rev_step:
  assumes "Suc k \<le> length xs div 2"
  shows "half_rev (Suc k) xs = (half_rev k xs)[length xs - k - 1 := half_rev k xs ! k, k := half_rev k xs ! (length xs - k - 1)]"
  using assms by (intro nth_equalityI) (auto simp: half_rev_def nth_list_update)

lemma half_rev_full: "half_rev (length xs div 2) xs = rev xs"
proof (rule nth_equalityI)
  fix j assume "j < length (half_rev (length xs div 2) xs)"
  then have j: "j < length xs" by (simp add: half_rev_def)
  have "length xs - 1 - j = j" if "\<not> (j < length xs div 2 \<or> length xs - length xs div 2 \<le> j)" using that j by linarith
  then show "half_rev (length xs div 2) xs ! j = rev xs ! j" using j by (auto simp: half_rev_def rev_nth)
qed (simp add: half_rev_def)

lemma reverse_ok:
  assumes "block m a xs" and "length xs < 2 ^ 32" and "k \<le> length xs div 2"
  shows "\<exists>m'. for_list (swap_byte a (of_nat (length xs))) [0..<k] m = Some m' \<and> block m' a (half_rev k xs) \<and>
    (\<forall>q. (\<forall>j < length xs. q \<noteq> a + of_nat j) \<longrightarrow> m' q = m q)"
  using assms(3)
proof (induction k)
  case 0
  have "half_rev 0 xs = xs" by (rule nth_equalityI) (auto simp: half_rev_def)
  then show ?case using assms(1) by simp
next
  case (Suc k)
  then obtain m1 where m1: "for_list (swap_byte a (of_nat (length xs))) [0..<k] m = Some m1" "block m1 a (half_rev k xs)"
    "\<forall>q. (\<forall>j < length xs. q \<noteq> a + of_nat j) \<longrightarrow> m1 q = m q" by auto
  have L: "length (half_rev k xs) = length xs" by (simp add: half_rev_def)
  have "k < length xs - k - 1" using Suc.prems by linarith
  then obtain m2 where "swap_byte a (of_nat (length xs)) k m1 = Some m2"
    "block m2 a ((half_rev k xs)[length xs - k - 1 := half_rev k xs ! k, k := half_rev k xs ! (length xs - k - 1)])"
    "\<forall>q. (\<forall>j < length xs. q \<noteq> a + of_nat j) \<longrightarrow> m2 q = m1 q"
    using swap_block [OF m1(2), of k] assms(2) unfolding L by blast
  then show ?case using m1 half_rev_step [OF Suc.prems] by (simp add: for_list_append)
qed

lemma block_cstr: "block m a xs \<Longrightarrow> m (a + of_nat (length xs)) = Some 0 \<Longrightarrow> 0 \<notin> set xs \<Longrightarrow> cstr m a xs"
proof (induction xs arbitrary: a)
  case (Cons x xs)
  have "block m (a + 1) xs" using Cons.prems(1) by (auto simp: block_def add.assoc dest: spec [of _ "Suc _"])
  moreover have "m a = Some x" using Cons.prems(1) by (auto simp: block_def dest: spec [of _ 0])
  ultimately show ?case using Cons.IH [of "a + 1"] Cons.prems by (simp add: add.assoc)
qed simp

lemma puts_block: "length xs < 2 ^ 32 \<Longrightarrow> block (puts m a xs) a xs"
proof (induction xs arbitrary: m a)
  case (Cons x xs)
  have "puts (m(a \<mapsto> x)) (a + 1) xs a = (m(a \<mapsto> x)) a"
  proof (rule puts_other)
    fix j assume "j < length xs"
    then show "a \<noteq> a + 1 + of_nat j" using offset_eq [of 0 "Suc j" a] Cons.prems by (simp add: add.assoc)
  qed
  moreover have "block (puts (m(a \<mapsto> x)) (a + 1) xs) (a + 1) xs" using Cons by simp
  ultimately show ?case by (auto simp: block_def add.assoc less_Suc_eq_0_disj)
qed (simp add: block_def)

lemma put_digits_ok:
  assumes "2 \<le> b" and "b \<le> 16" and "0 < n" and "n < 2 ^ 32" and "\<forall>j \<le> 32. m (a + of_nat j) \<noteq> None"
  shows "\<exists>m'. put_digits ucase m a (int n) (int b) = Some m' \<and> cstr m' a (rev (map (dch ucase) (digs b n))) \<and>
    (\<forall>q. (\<forall>j \<le> 32. q \<noteq> a + of_nat j) \<longrightarrow> m' q = m q)"
proof -
  let ?xs = "map (dch ucase) (digs b n)"
  have len: "length ?xs \<le> 32" using digs_length [OF assms(4)] by simp
  have small: "length ?xs < 2 ^ 32" using len by (rule le_less_trans) simp
  let ?m = "(puts m a ?xs)(a + of_nat (length ?xs) \<mapsto> 0)"
  have ne: "a + of_nat (length ?xs) \<noteq> a + (of_nat j :: u32)" if "j < length ?xs" for j
    using offset_eq [of "length ?xs" j a] that small by auto
  have loop: "digits_loop ucase m a (int n) (int b) 0 = Some (of_nat (length ?xs), puts m a ?xs)"
    using digits_loop_ok [OF assms(1,2), of n m a 0 ucase] assms(5) len by auto
  have "?m (a + of_nat j) = puts m a ?xs (a + of_nat j)" if "j < length ?xs" for j
    by (rule fun_upd_other) (rule ne [OF that, symmetric])
  then have "block ?m a ?xs" using puts_block [OF small] unfolding block_def by metis
  then obtain m' where m': "for_list (swap_byte a (of_nat (length ?xs))) [0..<length ?xs div 2] ?m = Some m'" "block m' a (rev ?xs)"
    "\<forall>q. (\<forall>j < length ?xs. q \<noteq> a + of_nat j) \<longrightarrow> m' q = ?m q"
    using reverse_ok [OF _ small order_refl] half_rev_full by metis
  have "unat (of_nat (length ?xs) div 2 :: u32) = length ?xs div 2" using small by (simp add: unat_div unat_of_nat)
  moreover have "wr (puts m a ?xs) (a + of_nat (length ?xs)) 0 = Some ?m" using puts_mapped assms(5) len by (auto simp: wr_def)
  ultimately have "put_digits ucase m a (int n) (int b) = Some m'" using loop m'(1) by (simp add: put_digits_def)
  moreover have "cstr m' a (rev ?xs)"
  proof (rule block_cstr [OF m'(2)])
    show "m' (a + of_nat (length (rev ?xs))) = Some 0" using m'(3) ne by (simp del: length_map)
    have "dch ucase k \<noteq> 0" if "k \<in> set (digs b n)" for k using dch_facts(3) [of k ucase] digs_less [OF that] assms(2) by auto
    then show "0 \<notin> set (rev ?xs)" by auto
  qed
  moreover have "m' q = m q" if "\<forall>j \<le> 32. q \<noteq> a + of_nat j" for q
    using m'(3) that len puts_other [of ?xs q a m] by auto
  ultimately show ?thesis by blast
qed

lemma sum_digits_ok:
  "cstr m (p + i) ys \<Longrightarrow> \<forall>c \<in> set ys. isbdigit c base \<Longrightarrow>
   sum_digits m p base i acc = Some (i + of_nat (length ys), foldl (\<lambda>v c. v * of_int base + of_int (digit_val c base)) acc ys)"
proof (induction ys arbitrary: i acc)
  case (Cons y ys)
  then have "sum_digits m p base i acc = sum_digits m p base (i + 1) (acc * of_int base + of_int (digit_val y base))"
    by (simp add: sum_digits.simps [of _ _ _ i])
  then show ?case using Cons by (simp add: add.assoc)
qed (simp add: sum_digits.simps)

lemma digits_sum:
  assumes "b \<le> 16" and "\<forall>d \<in> set ds. d < b"
  shows "foldl (\<lambda>v c. v * of_int (int b) + of_int (digit_val c (int b))) 0 (rev (map (dch u) ds)) = (of_nat (foldr (\<lambda>d v. v * b + d) ds 0) :: u32)"
  using assms(2)
proof (induction ds)
  case (Cons d ds)
  have "digit_val (dch u d) (int b) = int d" using dch_facts(5) [of d b u] Cons.prems assms(1) by auto
  then show ?case using Cons by simp
qed simp

lemma skip_space_none: "m nptr = Some c \<Longrightarrow> \<not> isspace c \<Longrightarrow> skip_space m nptr 0 = Some 0"
  by (subst skip_space.simps) simp

lemma strtoul_digits:
  assumes "2 \<le> b" and "b \<le> 16" and "cstr m p (rev (map (dch u) ds))" and "ds \<noteq> []" and "\<forall>d \<in> set ds. d < b"
    and "last ds \<noteq> 0 \<or> length ds = 1"
  shows "strtoul m p (int b) False = Some (of_nat (foldr (\<lambda>d v. v * b + d) ds 0), p + of_nat (length ds))"
proof -
  let ?ys = "rev (map (dch u) ds)" and ?c = "dch u (last ds)"
  have l: "last ds < 16" "last ds < b" using assms(2,4,5) by (auto dest: bspec [OF _ last_in_set])
  have ys: "?ys = ?c # tl ?ys" using assms(4) by (cases ds rule: rev_cases) auto
  have c: "m p = Some ?c" using assms(3) by (subst (asm) ys) simp
  note f = dch_facts(2-4) [OF l(1), of u]
  have x: "starts_0x m p = Some False"
  proof (cases "last ds = 0")
    case True
    then have "length ds = 1" using assms(6) by simp
    then have "tl ?ys = []" by (cases ds) auto
    then have "m (p + 1) = Some 0" using assms(3) by (subst (asm) ys) simp
    then show ?thesis using c by (simp add: starts_0x_def)
  qed (use c f(3) in \<open>simp add: starts_0x_def\<close>)
  have "\<forall>c \<in> set ?ys. isbdigit c (int b)" using dch_facts(1) assms(2,5) by fastforce
  then have "sum_digits m p (int b) 0 0 = Some (of_nat (length ds), of_nat (foldr (\<lambda>d v. v * b + d) ds 0))"
    using sum_digits_ok [of m p 0 ?ys "int b" 0] assms(3) digits_sum [OF assms(2,5), of u] by simp
  then show ?thesis using skip_space_none [of m p ?c] c f(1,2) x assms(1) by (auto simp: strtoul_def)
qed



end
