(* ===== verification/Sorting.thy ===== *)
theory Sorting
  imports Kernel_Prelude "HOL-Library.Multiset"
begin

text \<open>
  \<open>qsort\<close> and \<open>bsearch\<close> of \<open>libc/stdlib\<close>. The array is the list of its elements, each of which stands for
  \<open>size\<close> bytes; \<open>memcpy\<close> of a whole element is an assignment, and an access outside the array does not
  return. The comparison is a parameter, a function of the contents of the two elements. The two scratch
  buffers of \<open>qsort\<close> are allocated and freed within the call and are local values here.
\<close>

section \<open>qsort\<close>

definition elem :: "'a list \<Rightarrow> nat \<Rightarrow> 'a option" where
  "elem a i = (if i < length a then Some (a ! i) else None)"

text \<open>The scans from the left and from the right for an element on the wrong side of the pivot.\<close>

partial_function (option) scan_left :: "('a \<Rightarrow> 'a \<Rightarrow> int) \<Rightarrow> 'a list \<Rightarrow> nat \<Rightarrow> nat \<Rightarrow> 'a \<Rightarrow> nat \<Rightarrow> nat option" where
  "scan_left compar a base nmemb pivot left = (if left < nmemb then do {
       x \<leftarrow> elem a (base + left);
       if compar x pivot < 0 then scan_left compar a base nmemb pivot (left + 1) else Some left
     }
     else Some left)"

partial_function (option) scan_right :: "('a \<Rightarrow> 'a \<Rightarrow> int) \<Rightarrow> 'a list \<Rightarrow> nat \<Rightarrow> 'a \<Rightarrow> nat \<Rightarrow> nat option" where
  "scan_right compar a base pivot right = (if right > 0 then do {
       x \<leftarrow> elem a (base + right);
       if compar x pivot > 0 then scan_right compar a base pivot (right - 1) else Some right
     }
     else Some right)"

partial_function (option) partition_loop ::
  "('a \<Rightarrow> 'a \<Rightarrow> int) \<Rightarrow> 'a list \<Rightarrow> nat \<Rightarrow> nat \<Rightarrow> 'a \<Rightarrow> nat \<Rightarrow> nat \<Rightarrow> (nat \<times> 'a list) option" where
  "partition_loop compar a base nmemb pivot left right = do {
     left \<leftarrow> scan_left compar a base nmemb pivot left;
     right \<leftarrow> scan_right compar a base pivot right;
     if left \<ge> right then Some (left, a)
     else do {
       x \<leftarrow> elem a (base + left);
       y \<leftarrow> elem a (base + right);
       if compar x y = 0 then partition_loop compar a base nmemb pivot (left + 1) right
       else partition_loop compar (a[base + right := x, base + left := y]) base nmemb pivot left right
     }
   }"

partial_function (option) qsort :: "('a \<Rightarrow> 'a \<Rightarrow> int) \<Rightarrow> 'a list \<Rightarrow> nat \<Rightarrow> nat \<Rightarrow> 'a list option" where
  "qsort compar a base nmemb = (if nmemb \<le> 1 then Some a
     else do {
       pivot \<leftarrow> elem a (base + (0 + (nmemb - 1)) div 2);
       (left, a) \<leftarrow> partition_loop compar a base nmemb pivot 0 (nmemb - 1);
       a \<leftarrow> qsort compar a base left;
       qsort compar a (base + (left + 1)) (nmemb - left - 1)
     })"

section \<open>bsearch\<close>

text \<open>The index of the element found; \<open>lower + upper\<close> is a \<open>size_t\<close> and wraps.\<close>

partial_function (option) bsearch_loop :: "('k \<Rightarrow> 'a \<Rightarrow> int) \<Rightarrow> 'k \<Rightarrow> 'a list \<Rightarrow> u32 \<Rightarrow> u32 \<Rightarrow> nat option" where
  "bsearch_loop cmp key a lower upper = do {
     x \<leftarrow> elem a (unat ((lower + upper) div 2));
     let result = cmp key x;
     if result < 0 then bsearch_loop cmp key a lower ((lower + upper) div 2)
     else if result > 0 then bsearch_loop cmp key a (1 + (lower + upper) div 2) upper
     else Some (unat ((lower + upper) div 2))
   }"

definition bsearch :: "('k \<Rightarrow> 'a \<Rightarrow> int) \<Rightarrow> 'k \<Rightarrow> 'a list \<Rightarrow> u32 \<Rightarrow> nat option" where
  "bsearch cmp key a nmemb = bsearch_loop cmp key a 0 nmemb"

section \<open>Lemmas\<close>

text \<open>What \<open>qsort\<close> needs of its comparison: it is the order of some key.\<close>

definition orders :: "('a \<Rightarrow> 'k :: linorder) \<Rightarrow> ('a \<Rightarrow> 'a \<Rightarrow> int) \<Rightarrow> bool" where
  "orders key compar \<longleftrightarrow> (\<forall>x y. (compar x y < 0 \<longleftrightarrow> key x < key y) \<and> (compar x y > 0 \<longleftrightarrow> key x > key y))"

lemma ordersD:
  assumes "orders key compar"
  shows "compar x y < 0 \<longleftrightarrow> key x < key y" "compar x y > 0 \<longleftrightarrow> key x > key y" "compar x y = 0 \<longleftrightarrow> key x = key y"
proof -
  show lt: "compar x y < 0 \<longleftrightarrow> key x < key y" and gt: "compar x y > 0 \<longleftrightarrow> key x > key y"
    using assms unfolding orders_def by blast+
  have "compar x y = 0 \<longleftrightarrow> \<not> compar x y < 0 \<and> \<not> compar x y > 0" by linarith
  then show "compar x y = 0 \<longleftrightarrow> key x = key y" unfolding lt gt by (auto simp: not_less)
qed

text \<open>Two arrays with the same elements that agree outside a segment.\<close>

definition rearr :: "'a list \<Rightarrow> 'a list \<Rightarrow> nat \<Rightarrow> nat \<Rightarrow> bool" where
  "rearr a a' base n \<longleftrightarrow> mset a' = mset a \<and> (\<forall>i < length a. i < base \<or> base + n \<le> i \<longrightarrow> a' ! i = a ! i)"

lemma rearr_length: "rearr a a' base n \<Longrightarrow> length a' = length a"
  by (metis rearr_def size_mset)

lemma rearr_refl [simp]: "rearr a a base n"
  by (simp add: rearr_def)

lemma rearr_trans: "rearr a a' base n \<Longrightarrow> rearr a' a'' base n \<Longrightarrow> rearr a a'' base n"
  by (simp add: rearr_def) (metis rearr_def rearr_length)

lemma rearr_mono: "rearr a a' b n \<Longrightarrow> base \<le> b \<Longrightarrow> b + n \<le> base + m \<Longrightarrow> rearr a a' base m"
  unfolding rearr_def by auto

lemma rearr_swap:
  assumes "i < n" and "j < n" and "base + n \<le> length a"
  shows "rearr a (a[base + j := a ! (base + i), base + i := a ! (base + j)]) base n"
  using assms mset_swap [of "base + i" a "base + j"] by (auto simp: rearr_def list_update_swap nth_list_update)

lemma rearr_set:
  assumes "rearr a a' base n" and "base + n \<le> length a" and "i < n"
  shows "\<exists>k < n. a' ! (base + i) = a ! (base + k)"
proof -
  have L: "length a' = length a" using rearr_length [OF assms(1)] .
  have split: "xs = take base xs @ take n (drop base xs) @ drop (base + n) xs" for xs :: "'a list"
    by (metis add.commute append_take_drop_id drop_drop)
  have "take base a' = take base a" "drop (base + n) a' = drop (base + n) a"
    using assms(1) L by (auto intro!: nth_equalityI simp: rearr_def)
  then have "mset (take n (drop base a')) = mset (take n (drop base a))"
    using assms(1) split [of a] split [of a'] unfolding rearr_def by (metis add_left_cancel add_right_cancel mset_append)
  then have "set (take n (drop base a')) = set (take n (drop base a))" by (rule mset_eq_setD)
  moreover have "a' ! (base + i) \<in> set (take n (drop base a'))" using assms(2,3) L by (auto simp: in_set_conv_nth intro!: exI [of _ i])
  ultimately show ?thesis using assms(2) by (auto simp: in_set_conv_nth)
qed

lemma scan_left_ok:
  assumes "orders key compar" and "base + n \<le> length a" and "p < n" and "key (a ! (base + p)) = key pivot"
  shows "left \<le> p \<Longrightarrow> \<exists>l. scan_left compar a base n pivot left = Some l \<and> left \<le> l \<and> l \<le> p \<and>
    (\<forall>i. left \<le> i \<and> i < l \<longrightarrow> key (a ! (base + i)) < key pivot) \<and> key pivot \<le> key (a ! (base + l))"
proof (induction "p - left" arbitrary: left)
  case 0
  then show ?case using assms by (intro exI [of _ p]) (auto simp: scan_left.simps [of _ _ _ _ _ left] elem_def ordersD [OF assms(1)])
next
  case (Suc d)
  have s: "scan_left compar a base n pivot left =
      (if key (a ! (base + left)) < key pivot then scan_left compar a base n pivot (left + 1) else Some left)"
    using Suc assms(2,3) by (simp add: scan_left.simps [of _ _ _ _ _ left] elem_def ordersD [OF assms(1)])
  show ?case
  proof (cases "key (a ! (base + left)) < key pivot")
    case True
    then obtain l where "scan_left compar a base n pivot (left + 1) = Some l" "left + 1 \<le> l" "l \<le> p"
      "\<forall>i. left + 1 \<le> i \<and> i < l \<longrightarrow> key (a ! (base + i)) < key pivot" "key pivot \<le> key (a ! (base + l))"
      using Suc(1) [of "left + 1"] Suc(2) diff_Suc_eq_diff_pred [of p left] by fastforce
    moreover have "left + 1 \<le> i \<or> i = left" if "left \<le> i" for i using that by auto
    ultimately show ?thesis using True s by (intro exI [of _ l]) auto
  next
    case False
    then show ?thesis using s Suc.prems by (intro exI [of _ left]) auto
  qed
qed

lemma scan_right_ok:
  assumes "orders key compar" and "base + n \<le> length a" and "key (a ! (base + p)) = key pivot"
  shows "p \<le> right \<Longrightarrow> right < n \<Longrightarrow> \<exists>r. scan_right compar a base pivot right = Some r \<and> p \<le> r \<and> r \<le> right \<and>
    (\<forall>i. r < i \<and> i \<le> right \<longrightarrow> key pivot < key (a ! (base + i))) \<and> key (a ! (base + r)) \<le> key pivot"
proof (induction "right - p" arbitrary: right)
  case 0
  then show ?case using assms by (intro exI [of _ p]) (auto simp: scan_right.simps [of _ _ _ _ right] scan_right.simps [of _ _ _ _ p] elem_def ordersD [OF assms(1)])
next
  case (Suc d)
  have s: "scan_right compar a base pivot right =
      (if key pivot < key (a ! (base + right)) then scan_right compar a base pivot (right - 1) else Some right)"
    using Suc(2-4) assms(2) by (auto simp add: scan_right.simps [of _ _ _ _ right] elem_def ordersD [OF assms(1)])
  show ?case
  proof (cases "key pivot < key (a ! (base + right))")
    case True
    moreover have "d = right - 1 - p" "p \<le> right - 1" "right - 1 < n" using Suc(2-4) by linarith+
    ultimately obtain r where "scan_right compar a base pivot (right - 1) = Some r" "p \<le> r" "r \<le> right - 1"
      "\<forall>i. r < i \<and> i \<le> right - 1 \<longrightarrow> key pivot < key (a ! (base + i))" "key (a ! (base + r)) \<le> key pivot"
      using Suc(1) [of "right - 1"] by blast
    moreover have "i \<le> right - 1 \<or> i = right" if "i \<le> right" for i using that by auto
    ultimately show ?thesis using True s Suc(2) by (intro exI [of _ r]) auto
  next
    case False
    then show ?thesis using s Suc.prems by (intro exI [of _ right]) auto
  qed
qed

text \<open>What holds at the head of the partition loop, and what its result is.\<close>

definition split_inv :: "('a \<Rightarrow> 'k :: linorder) \<Rightarrow> 'a list \<Rightarrow> nat \<Rightarrow> nat \<Rightarrow> 'k \<Rightarrow> nat \<Rightarrow> nat \<Rightarrow> bool" where
  "split_inv key a base n kp left right \<longleftrightarrow> right < n \<and>
     (\<forall>i < left. key (a ! (base + i)) \<le> kp) \<and> (\<forall>i. right < i \<and> i < n \<longrightarrow> kp \<le> key (a ! (base + i))) \<and>
     (\<exists>p. left \<le> p \<and> p \<le> right \<and> key (a ! (base + p)) = kp)"

lemma split_inv_scan:
  assumes "orders key compar" and "base + n \<le> length a" and "split_inv key a base n (key pivot) left right"
  obtains l r where "scan_left compar a base n pivot left = Some l" "scan_right compar a base pivot right = Some r"
    "left \<le> l" "l \<le> r" "r \<le> right" "split_inv key a base n (key pivot) l r"
    "key pivot \<le> key (a ! (base + l))" "key (a ! (base + r)) \<le> key pivot"
proof -
  obtain p where p: "left \<le> p" "p \<le> right" "key (a ! (base + p)) = key pivot" "right < n"
    using assms(3) unfolding split_inv_def by auto
  obtain l where l: "scan_left compar a base n pivot left = Some l" "left \<le> l" "l \<le> p"
    "\<forall>i. left \<le> i \<and> i < l \<longrightarrow> key (a ! (base + i)) < key pivot" "key pivot \<le> key (a ! (base + l))"
    using scan_left_ok [OF assms(1,2) _ p(3,1)] p by auto
  obtain r where r: "scan_right compar a base pivot right = Some r" "p \<le> r" "r \<le> right"
    "\<forall>i. r < i \<and> i \<le> right \<longrightarrow> key pivot < key (a ! (base + i))" "key (a ! (base + r)) \<le> key pivot"
    using scan_right_ok [OF assms(1,2) p(3,2,4)] by auto
  have "key (a ! (base + i)) \<le> key pivot" if "i < l" for i
    using assms(3) l(4) that unfolding split_inv_def by (cases "i < left") (auto intro: less_imp_le)
  moreover have "key pivot \<le> key (a ! (base + i))" if "r < i" "i < n" for i
    using assms(3) r(4) that unfolding split_inv_def by (cases "i \<le> right") (auto intro: less_imp_le)
  ultimately have "split_inv key a base n (key pivot) l r"
    using p l(3) r(2,3) unfolding split_inv_def by auto
  then show ?thesis using that l r by auto
qed

lemma split_inv_swap:
  assumes "base + n \<le> length a" and "split_inv key a base n kp l r" and "l < r"
    and "kp \<le> key (a ! (base + l))" and "key (a ! (base + r)) \<le> kp"
  shows "split_inv key (a[base + r := a ! (base + l), base + l := a ! (base + r)]) base n kp l r"
proof -
  obtain p where p: "l \<le> p" "p \<le> r" "key (a ! (base + p)) = kp" "r < n" using assms(2) unfolding split_inv_def by auto
  let ?a = "a[base + r := a ! (base + l), base + l := a ! (base + r)]"
  have "\<exists>q. l \<le> q \<and> q \<le> r \<and> key (?a ! (base + q)) = kp"
    using p assms(1,3) by (intro exI [of _ "if p = l then r else if p = r then l else p"]) (auto simp: nth_list_update)
  then show ?thesis using assms(1-3) unfolding split_inv_def by (auto simp: nth_list_update)
qed

text \<open>A position of the loop is unsettled when one of the scans will move.\<close>

definition settled :: "('a \<Rightarrow> 'k :: linorder) \<Rightarrow> 'a list \<Rightarrow> nat \<Rightarrow> 'k \<Rightarrow> nat \<Rightarrow> nat \<Rightarrow> nat" where
  "settled key a base kp left right = (if key (a ! (base + left)) < kp \<or> kp < key (a ! (base + right)) then 0 else 1)"

lemma partition_loop_ok:
  fixes key :: "'a \<Rightarrow> 'k :: linorder"
  assumes "orders key compar" and "base + n \<le> length a" and "split_inv key a base n (key pivot) left right"
  shows "\<exists>l a'. partition_loop compar a base n pivot left right = Some (l, a') \<and> rearr a a' base n \<and>
    split_inv key a' base n (key pivot) l l"
  using assms(2,3)
proof (induction "2 * (right - left) + settled key a base (key pivot) left right" arbitrary: a left right rule: less_induct)
  case less
  obtain l r where s: "scan_left compar a base n pivot left = Some l" "scan_right compar a base pivot right = Some r"
    "left \<le> l" "l \<le> r" "r \<le> right" and inv: "split_inv key a base n (key pivot) l r"
    and k: "key pivot \<le> key (a ! (base + l))" "key (a ! (base + r)) \<le> key pivot"
    using split_inv_scan [OF assms(1) less(2,3)] by blast
  have r: "r < n" using inv unfolding split_inv_def by auto
  let ?a = "a[base + r := a ! (base + l), base + l := a ! (base + r)]"
  have u: "partition_loop compar a base n pivot left right = (if l \<ge> r then Some (l, a)
      else if key (a ! (base + l)) = key (a ! (base + r)) then partition_loop compar a base n pivot (l + 1) r
      else partition_loop compar ?a base n pivot l r)"
    using s r less(2) by (simp add: partition_loop.simps [of _ _ _ _ _ left right] elem_def ordersD [OF assms(1)])
  consider "l = r" | "l < r" "key (a ! (base + l)) = key (a ! (base + r))" | "l < r" "key (a ! (base + l)) \<noteq> key (a ! (base + r))"
    using s(4) by fastforce
  then show ?case
  proof cases
    case 1
    then show ?thesis using u inv by auto
  next
    case 2
    then have "split_inv key a base n (key pivot) (l + 1) r"
      using inv k unfolding split_inv_def by (auto simp: less_Suc_eq intro!: exI [of _ r])
    moreover have "settled key a base (key pivot) (l + 1) r \<le> 1" by (simp add: settled_def)
    ultimately show ?thesis using less(1) [of r "l + 1" a] less(2) u 2 s by auto
  next
    case 3
    then have "settled key ?a base (key pivot) l r = 0" using k r less(2) by (auto simp: settled_def nth_list_update)
    moreover have "settled key a base (key pivot) left right = 1" if "r - l = right - left"
    proof -
      have "l = left" "r = right" using that s(3-5) 3(1) by linarith+
      then show ?thesis using k by (auto simp: settled_def not_less)
    qed
    ultimately have "2 * (r - l) + settled key ?a base (key pivot) l r < 2 * (right - left) + settled key a base (key pivot) left right"
      using s(3-5) by (cases "r - l = right - left") auto
    moreover have "split_inv key ?a base n (key pivot) l r" using split_inv_swap [OF less(2) inv 3(1) k] .
    moreover have "rearr a ?a base n" using rearr_swap [OF _ r less(2)] r 3(1) by simp
    ultimately show ?thesis using less(1) [of r l ?a] less(2) u 3 rearr_trans by fastforce
  qed
qed

text \<open>Two sorted parts on either side of the pivot make a sorted segment.\<close>

lemma sorted_join:
  fixes key :: "'a \<Rightarrow> 'k :: linorder"
  assumes r2: "rearr a1 a2 base l" and r3: "rearr a2 a3 (base + (l + 1)) (n - l - 1)" and len: "base + n \<le> length a1"
    and l: "l < n" and lo: "\<forall>i < l. key (a1 ! (base + i)) \<le> kp" and mid: "key (a1 ! (base + l)) = kp"
    and hi: "\<forall>i. l < i \<and> i < n \<longrightarrow> kp \<le> key (a1 ! (base + i))"
    and s2: "\<forall>i j. i < j \<and> j < l \<longrightarrow> key (a2 ! (base + i)) \<le> key (a2 ! (base + j))"
    and s3: "\<forall>i j. i < j \<and> j < n - l - 1 \<longrightarrow> key (a3 ! (base + (l + 1) + i)) \<le> key (a3 ! (base + (l + 1) + j))"
    and ij: "i < j" "j < n"
  shows "key (a3 ! (base + i)) \<le> key (a3 ! (base + j))"
proof -
  have L2: "length a2 = length a1" using rearr_length [OF r2] .
  have lo2: "key (a2 ! (base + i)) \<le> kp" if "i < l" for i
    using rearr_set [OF r2 _ that] lo len l by auto
  have e2: "a2 ! (base + i) = a1 ! (base + i)" if "l \<le> i" "i < n" for i
    using r2 that len unfolding rearr_def by auto
  have e3: "a3 ! (base + i) = a2 ! (base + i)" if "i \<le> l" for i
    using r3 that len L2 l unfolding rearr_def by auto
  have hi3: "kp \<le> key (a3 ! (base + j))" if "l < j" "j < n" for j
  proof -
    have b: "j - l - 1 < n - l - 1" "base + (l + 1) + (n - l - 1) \<le> length a2" using that len L2 by linarith+
    obtain m where "m < n - l - 1" "a3 ! (base + (l + 1) + (j - l - 1)) = a2 ! (base + (l + 1) + m)"
      using rearr_set [OF r3 b(2,1)] by blast
    moreover have "kp \<le> key (a2 ! (base + (l + 1 + m)))"
      using hi [rule_format, of "l + 1 + m"] e2 [of "l + 1 + m"] calculation(1) by simp
    ultimately show ?thesis using that by (simp add: add.assoc)
  qed
  have lo3: "key (a3 ! (base + i)) \<le> kp" if "i \<le> l" for i
    using lo2 [of i] e3 [OF that] e2 [of l] mid l that by (cases "i = l") auto
  consider "j < l" | "j = l" | "i \<le> l" "l < j" | "l < i" using ij by linarith
  then show ?thesis
  proof cases
    case 1
    then show ?thesis using s2 ij e3 [of i] e3 [of j] by auto
  next
    case 2
    then show ?thesis using lo3 [of i] e3 [of l] e2 [of l] mid ij l by auto
  next
    case 3
    then show ?thesis using lo3 hi3 ij by (meson order.trans)
  next
    case 4
    then have "i - l - 1 < j - l - 1 \<and> j - l - 1 < n - l - 1" using ij by linarith
    then show ?thesis using s3 [rule_format, of "i - l - 1" "j - l - 1"] 4 ij by (simp add: add.assoc)
  qed
qed

section \<open>Properties\<close>

lemma qsort_segment:
  fixes key :: "'a \<Rightarrow> 'k :: linorder"
  assumes "orders key compar"
  shows "base + n \<le> length a \<Longrightarrow> \<exists>a'. qsort compar a base n = Some a' \<and> rearr a a' base n \<and>
    (\<forall>i j. i < j \<and> j < n \<longrightarrow> key (a' ! (base + i)) \<le> key (a' ! (base + j)))"
proof (induction n arbitrary: a base rule: less_induct)
  case (less n)
  show ?case
  proof (cases "n \<le> 1")
    case True
    then show ?thesis by (intro exI [of _ a]) (auto simp: qsort.simps [of _ _ base n])
  next
    case False
    define pivot where "pivot = a ! (base + (n - 1) div 2)"
    have "split_inv key a base n (key pivot) 0 (n - 1)"
      using False unfolding split_inv_def pivot_def by (auto intro!: exI [of _ "(n - 1) div 2"])
    then obtain l a1 where p: "partition_loop compar a base n pivot 0 (n - 1) = Some (l, a1)" "rearr a a1 base n"
      and inv: "split_inv key a1 base n (key pivot) l l"
      using partition_loop_ok [OF assms less(2)] by blast
    have l: "l < n" and lo: "\<forall>i < l. key (a1 ! (base + i)) \<le> key pivot" and mid: "key (a1 ! (base + l)) = key pivot"
      and hi: "\<forall>i. l < i \<and> i < n \<longrightarrow> key pivot \<le> key (a1 ! (base + i))"
      using inv unfolding split_inv_def by auto
    have L1: "length a1 = length a" using rearr_length [OF p(2)] .
    obtain a2 where q2: "qsort compar a1 base l = Some a2" "rearr a1 a2 base l"
      and s2: "\<forall>i j. i < j \<and> j < l \<longrightarrow> key (a2 ! (base + i)) \<le> key (a2 ! (base + j))"
      using less(1) [OF l, of base a1] less(2) L1 l by auto
    have L2: "length a2 = length a" using rearr_length [OF q2(2)] L1 by simp
    obtain a3 where q3: "qsort compar a2 (base + (l + 1)) (n - l - 1) = Some a3" "rearr a2 a3 (base + (l + 1)) (n - l - 1)"
      and s3: "\<forall>i j. i < j \<and> j < n - l - 1 \<longrightarrow> key (a3 ! (base + (l + 1) + i)) \<le> key (a3 ! (base + (l + 1) + j))"
      using less(1) [of "n - l - 1" "base + (l + 1)" a2] less(2) L2 l by auto
    have "key (a3 ! (base + i)) \<le> key (a3 ! (base + j))" if "i < j" "j < n" for i j
      using sorted_join [OF q2(2) q3(2) _ l lo mid hi s2 s3 that] less(2) L1 by simp
    moreover have "rearr a a3 base n"
      using rearr_trans [OF p(2)] rearr_trans rearr_mono [OF q2(2), of base n] rearr_mono [OF q3(2), of base n] l by fastforce
    moreover have "qsort compar a base n = Some a3"
      using False p(1) q2(1) q3(1) less(2) by (simp add: qsort.simps [of _ a base n] elem_def pivot_def)
    ultimately show ?thesis by blast
  qed
qed

text \<open>
  C15. \<open>qsort\<close> sorts: for a comparison that orders some key, it returns on every array, and the result is
  the array sorted by that key, with the same elements in the same number.
\<close>

theorem qsort_sorts:
  fixes key :: "'a \<Rightarrow> 'k :: linorder"
  assumes "orders key compar"
  shows "\<exists>a'. qsort compar a 0 (length a) = Some a' \<and> mset a' = mset a \<and> sorted (map key a')"
proof -
  obtain a' where a: "qsort compar a 0 (length a) = Some a'" "rearr a a' 0 (length a)"
    "\<forall>i j. i < j \<and> j < length a \<longrightarrow> key (a' ! (0 + i)) \<le> key (a' ! (0 + j))"
    using qsort_segment [OF assms, of 0 "length a" a] by auto
  have "sorted (map key a')" unfolding sorted_iff_nth_mono_less using a(3) rearr_length [OF a(2)] by simp
  then show ?thesis using a(1,2) by (auto simp: rearr_def)
qed

theorem qsort_sorts_witness:
  "\<exists>a'. qsort (\<lambda>x y. x - y) [3, 1, 2 :: int] 0 3 = Some a' \<and> mset a' = {#3, 1, 2#} \<and> sorted a'"
proof -
  have "orders (\<lambda>x :: int. x) (\<lambda>x y. x - y)" by (simp add: orders_def)
  then show ?thesis using qsort_sorts [of "\<lambda>x. x" "\<lambda>x y. x - y" "[3, 1, 2 :: int]"] by (simp add: numeral_3_eq_3)
qed

lemma bsearch_loop_found:
  assumes "length a < 2 ^ 31" and "p < length a" and "cmp key (a ! p) = 0" and "\<forall>i < p. 0 \<le> cmp key (a ! i)"
    and "\<forall>i. p < i \<and> i < length a \<longrightarrow> cmp key (a ! i) \<le> 0"
  shows "unat lower \<le> p \<Longrightarrow> p < unat upper \<Longrightarrow> unat upper \<le> length a \<Longrightarrow>
    \<exists>i < length a. bsearch_loop cmp key a lower upper = Some i \<and> cmp key (a ! i) = 0"
proof (induction "unat upper - unat lower" arbitrary: lower upper rule: less_induct)
  case less
  let ?m = "(lower + upper) div 2"
  have s: "unat (lower + upper) = unat lower + unat upper" using less(2-4) assms(1) by (simp add: unat_word_ariths)
  then have m: "unat ?m = (unat lower + unat upper) div 2" by (simp add: unat_div)
  then have b: "unat lower \<le> unat ?m" "unat ?m < unat upper" using less(2,3) by linarith+
  then have "unat (1 + ?m) = 1 + unat ?m" using less(4) assms(1) by (simp add: unat_word_ariths)
  have u: "bsearch_loop cmp key a lower upper = (if cmp key (a ! unat ?m) < 0 then bsearch_loop cmp key a lower ?m
      else if cmp key (a ! unat ?m) > 0 then bsearch_loop cmp key a (1 + ?m) upper else Some (unat ?m))"
    using b less(4) by (subst bsearch_loop.simps) (simp add: elem_def Let_def)
  consider "cmp key (a ! unat ?m) < 0" | "cmp key (a ! unat ?m) > 0" | "cmp key (a ! unat ?m) = 0" by linarith
  then show ?case
  proof cases
    case 1
    then have "\<not> unat ?m < p" using assms(4) not_less by blast
    moreover have "unat ?m \<noteq> p" using assms(3) 1 by auto
    ultimately have "p < unat ?m" by simp
    then show ?thesis using less(1) [of ?m lower] less(2,4) b 1 unfolding u by simp
  next
    case 2
    have "\<not> p < unat ?m" using assms(5) b less(4) 2 by (meson not_less order_less_le_trans)
    moreover have "unat ?m \<noteq> p" using assms(3) 2 by auto
    ultimately have "unat ?m < p" by simp
    then show ?thesis using less(1) [of upper "1 + ?m"] less(3,4) b 2 \<open>unat (1 + ?m) = 1 + unat ?m\<close> unfolding u by simp
  next
    case 3
    then show ?thesis using b less(4) unfolding u by (intro exI [of _ "unat ?m"]) simp
  qed
qed

lemma bsearch_loop_sound:
  fixes cmp :: "'k \<Rightarrow> 'a \<Rightarrow> int"
  shows "bsearch_loop cmp key a lower upper = Some i \<Longrightarrow> i < length a \<and> cmp key (a ! i) = 0"
proof (erule bsearch_loop.raw_induct [rotated, of _ _ _ _ _ _ "\<lambda>cmp key a _ _ i. i < length a \<and> cmp key (a ! i) = 0"], goal_cases)
  case (1 f cmp key a lower upper i)
  then show ?case by (auto simp: elem_def bind_eq_Some Let_def split: if_splits)
qed

text \<open>
  \<open>bsearch\<close> on an array of fewer than \<open>2 ^ 31\<close> elements that is sorted with respect to the key finds
  an element that matches when there is one; when there is none it never returns.
\<close>

theorem bsearch_finds:
  assumes "length a < 2 ^ 31" and "\<forall>i j. i < j \<and> j < length a \<longrightarrow> sgn (cmp key (a ! j)) \<le> sgn (cmp key (a ! i))"
  shows "if \<exists>x \<in> set a. cmp key x = 0
     then \<exists>i < length a. bsearch cmp key a (of_nat (length a)) = Some i \<and> cmp key (a ! i) = 0
     else bsearch cmp key a (of_nat (length a)) = None"
proof (cases "\<exists>x \<in> set a. cmp key x = 0")
  case True
  then obtain p where p: "p < length a" "cmp key (a ! p) = 0" by (auto simp: in_set_conv_nth)
  have "\<forall>i < p. 0 \<le> cmp key (a ! i)" using assms(2) p by (metis sgn_0 sgn_less not_less)
  moreover have "\<forall>i. p < i \<and> i < length a \<longrightarrow> cmp key (a ! i) \<le> 0" using assms(2) p by (metis sgn_0 sgn_greater not_less)
  moreover have "unat (of_nat (length a) :: u32) = length a" using assms(1) by (simp add: unat_of_nat)
  ultimately show ?thesis using True bsearch_loop_found [of a p cmp key 0 "of_nat (length a)"] p assms(1)
    by (simp add: bsearch_def)
next
  case False
  then show ?thesis using bsearch_loop_sound [of cmp key a 0 "of_nat (length a)"]
    by (cases "bsearch_loop cmp key a 0 (of_nat (length a))") (auto simp: bsearch_def)
qed

theorem bsearch_finds_witness:
  "(\<exists>i < Suc 1. bsearch (\<lambda>k x. k - x) 5 [1, 5 :: int] 2 = Some i \<and> 5 - [1, 5 :: int] ! i = 0) \<and> bsearch (\<lambda>k x. k - x) 4 [1, 5 :: int] 2 = None"
proof -
  have s: "\<forall>i j. i < j \<and> j < length [1, 5 :: int] \<longrightarrow> sgn (k - [1, 5] ! j) \<le> sgn (k - [1, 5] ! i)" if "k = 4 \<or> k = 5" for k :: int
    using that by (auto simp: less_Suc_eq)
  show ?thesis
    using bsearch_finds [of "[1, 5 :: int]" "\<lambda>k x. k - x" 5, OF _ s] bsearch_finds [of "[1, 5 :: int]" "\<lambda>k x. k - x" 4, OF _ s]
    by simp
qed

end
