(* ===== verification/User_Heap.thy ===== *)
theory User_Heap
  imports Kernel_Prelude
begin

text \<open>
  The allocator of user programs: the page calls of \<open>libc/mem/page.c\<close> and the binary buddy heap of
  \<open>libc/stdlib/malloc.c\<close> and \<open>heap_node.c\<close>. The system call stub \<open>_page\<close> is a parameter, from its five
  arguments to its result. The mutexes are held only within a call, which runs alone here. A result of
  \<^const>\<open>None\<close> is a fault through a bad pointer, or \<open>abort\<close> after a double or invalid \<open>free\<close>.
\<close>

section \<open>Page calls\<close>

type_synonym pager = "u32 \<Rightarrow> u32 \<Rightarrow> u32 \<Rightarrow> u32 \<Rightarrow> u32 \<Rightarrow> u32"

definition page_u :: "pager \<Rightarrow> u32 \<Rightarrow> u32 \<Rightarrow> u32 \<Rightarrow> u32 \<Rightarrow> u32 \<Rightarrow> u32" where
  "page_u pager addr len prot source off = (
     let (addr, len) = (if addr AND 0xFFF \<noteq> 0
           then (addr - (addr AND 0xFFF), len + (addr AND 0xFFF)) else (addr, len));
         len = (if len AND 0xFFF \<noteq> 0 then len div PAGESZ + 1 else len div PAGESZ) in
     pager addr len prot source off)"

definition page_free_u :: "pager \<Rightarrow> u32 \<Rightarrow> u32 \<Rightarrow> u32" where
  "page_free_u pager addr len = page_u pager addr len 0 0 0"

definition page_anon_u :: "pager \<Rightarrow> u32 \<Rightarrow> u32 \<Rightarrow> u32 \<Rightarrow> u32" where
  "page_anon_u pager addr len prot = page_u pager addr len prot 1 0"

definition page_pack_u :: "pager \<Rightarrow> u32 \<Rightarrow> u32 \<Rightarrow> u32 \<Rightarrow> u32" where
  "page_pack_u pager addr len prot = page_u pager addr len prot 2 0"

definition page_phys_u :: "pager \<Rightarrow> u32 \<Rightarrow> u32 \<Rightarrow> u32 \<Rightarrow> u32 \<Rightarrow> u32" where
  "page_phys_u pager addr len prot base = page_u pager addr len prot 3 base"

definition page_self_u :: "pager \<Rightarrow> u32 \<Rightarrow> u32 \<Rightarrow> u32 \<Rightarrow> u32" where
  "page_self_u pager addrs addrd len = page_u pager addrd len 0 4 addrs"

definition page_prot_u :: "pager \<Rightarrow> u32 \<Rightarrow> u32 \<Rightarrow> u32 \<Rightarrow> u32" where
  "page_prot_u pager addr len prot = page_u pager addr len prot 5 0"

section \<open>State\<close>

record heap_node =
  h_next :: ptr
  h_prev :: ptr
  h_parent :: ptr
  h_left :: ptr
  h_right :: ptr
  h_status :: u32
  h_base :: u32
  h_size :: u32

definition zero_node :: heap_node where
  "zero_node = \<lparr>h_next = 0, h_prev = 0, h_parent = 0, h_left = 0, h_right = 0, h_status = 0, h_base = 0, h_size = 0\<rparr>"

record uheap =
  nodes :: "ptr \<rightharpoonup> heap_node"
  tree :: ptr
  flist :: "nat \<Rightarrow> ptr"
  node_brk :: u32
  node_stack :: ptr
  errno :: nat

abbreviation (input) HEAP_START :: u32 where "HEAP_START \<equiv> 0x10000000"
abbreviation (input) HEAP_END :: u32 where "HEAP_END \<equiv> 0x30000000"
abbreviation (input) HEAP2_START :: u32 where "HEAP2_START \<equiv> HEAP_END"
abbreviation (input) ENOMEM :: nat where "ENOMEM \<equiv> 47"
abbreviation (input) EINVAL :: nat where "EINVAL \<equiv> 27"

definition new_uheap :: uheap where
  "new_uheap = \<lparr>nodes = Map.empty, tree = 0, flist = (\<lambda>_. 0), node_brk = HEAP2_START, node_stack = 0, errno = 0\<rparr>"

definition upd_node :: "uheap \<Rightarrow> ptr \<Rightarrow> (heap_node \<Rightarrow> heap_node) \<Rightarrow> uheap option" where
  "upd_node s p f = (case nodes s p of None \<Rightarrow> None | Some n \<Rightarrow> Some (s\<lparr>nodes := (nodes s)(p \<mapsto> f n)\<rparr>))"

section \<open>Heap nodes\<close>

text \<open>
  A node that is not the first of its page lies in a page that an earlier node has mapped, so it is
  accessible even when the call fails.
\<close>

definition new_heap_node :: "pager \<Rightarrow> uheap \<Rightarrow> (ptr \<times> uheap) option" where
  "new_heap_node pager s = (
     if node_stack s \<noteq> 0 then do {
       n \<leftarrow> nodes s (node_stack s);
       Some (node_stack s, s\<lparr>node_stack := h_next n\<rparr>)
     }
     else do {
       let node = node_brk s;
       let s = s\<lparr>node_brk := node_brk s + 32\<rparr>;
       let r = page_anon_u pager node 32 3;
       if (r = 0 \<or> node AND 0xFFF \<noteq> 0) \<and> nodes s node = None
       then Some (node, s\<lparr>nodes := (nodes s)(node \<mapsto> zero_node)\<rparr>)
       else Some (node, s)
     })"

definition del_heap_node :: "uheap \<Rightarrow> ptr \<Rightarrow> uheap option" where
  "del_heap_node s node = do {
     s \<leftarrow> upd_node s node (h_next_update (\<lambda>_. node_stack s));
     Some (s\<lparr>node_stack := node\<rparr>)
   }"

section \<open>The buddy heap\<close>

text \<open>One step of the unrolled binary search: the upper half of the bits is tested and, if set, shifted down.\<close>

fun log_half :: "nat \<Rightarrow> u32 \<Rightarrow> u32 \<times> nat \<Rightarrow> u32 \<times> nat" where
  "log_half c bits (n, r) = (if n AND bits \<noteq> 0 then (drop_bit c n, r OR c) else (n, r))"

definition ilog2 :: "u32 \<Rightarrow> nat" where
  "ilog2 n = (
     let (_, r) = log_half 1 0x2 (log_half 2 0xC (log_half 4 0xF0 (log_half 8 0xFF00 (log_half 16 0xFFFF0000 (n, 0))))) in
     if push_bit r 1 = n then r else r + 1)"

definition add_to_list :: "uheap \<Rightarrow> ptr \<Rightarrow> uheap option" where
  "add_to_list s node = do {
     n \<leftarrow> nodes s node;
     let k = unat (h_size n);
     if k \<ge> 32 then None
     else do {
       s \<leftarrow> upd_node s node (\<lambda>n. n\<lparr>h_next := flist s k, h_prev := 0\<rparr>);
       s \<leftarrow> (if flist s k \<noteq> 0 then upd_node s (flist s k) (h_prev_update (\<lambda>_. node)) else Some s);
       Some (s\<lparr>flist := (flist s)(k := node)\<rparr>)
     }
   }"

definition new_tree :: "pager \<Rightarrow> uheap \<Rightarrow> uheap option" where
  "new_tree pager s = do {
     (t, s) \<leftarrow> new_heap_node pager s;
     s \<leftarrow> upd_node (s\<lparr>tree := t\<rparr>) t (\<lambda>n. n\<lparr>h_base := HEAP_START, h_size := of_nat (ilog2 (HEAP_END - HEAP_START)), h_status := 0\<rparr>);
     add_to_list s t
   }"

definition take_node :: "uheap \<Rightarrow> nat \<Rightarrow> (ptr \<times> uheap) option" where
  "take_node s index = do {
     let node = flist s index;
     n \<leftarrow> nodes s node;
     let s = s\<lparr>flist := (flist s)(index := h_next n)\<rparr>;
     s \<leftarrow> (if h_next n \<noteq> 0 then upd_node s (h_next n) (h_prev_update (\<lambda>_. 0)) else Some s);
     Some (node, s)
   }"

definition split_node :: "pager \<Rightarrow> uheap \<Rightarrow> ptr \<Rightarrow> nat \<Rightarrow> (ptr \<times> uheap) option" where
  "split_node pager s node index = do {
     (l, s) \<leftarrow> new_heap_node pager s;
     s \<leftarrow> upd_node s node (h_left_update (\<lambda>_. l));
     n \<leftarrow> nodes s node;
     s \<leftarrow> upd_node s l (\<lambda>m. m\<lparr>h_left := 0, h_right := 0, h_parent := node, h_base := h_base n, h_size := of_nat index, h_status := 0\<rparr>);
     (r, s) \<leftarrow> new_heap_node pager s;
     s \<leftarrow> upd_node s node (h_right_update (\<lambda>_. r));
     n \<leftarrow> nodes s node;
     s \<leftarrow> upd_node s r (\<lambda>m. m\<lparr>h_left := 0, h_right := 0, h_parent := node, h_base := h_base n + push_bit index 1, h_size := of_nat index, h_status := 0\<rparr>);
     s \<leftarrow> add_to_list s r;
     Some (l, s)
   }"

function find_node :: "pager \<Rightarrow> uheap \<Rightarrow> nat \<Rightarrow> (ptr \<times> uheap) option" where
  "find_node pager s index = (
     if index \<ge> 32 then Some (0, s)
     else do {
       s \<leftarrow> (if tree s = 0 then new_tree pager s else Some s);
       if flist s index \<noteq> 0 then take_node s index
       else do {
         (node, s) \<leftarrow> find_node pager s (index + 1);
         if node = 0 then Some (0, s) else split_node pager s node index
       }
     })"
  by pat_completeness auto
termination by (relation "measure (\<lambda>(_, _, index). 32 - index)") auto

declare find_node.simps [simp del]

partial_function (option) get_by_addr_loop :: "uheap \<Rightarrow> u32 \<Rightarrow> ptr \<Rightarrow> ptr option" where
  "get_by_addr_loop s addr root = (
     if root = 0 then Some 0
     else do {
       n \<leftarrow> nodes s root;
       if h_left n \<noteq> 0 \<and> h_right n \<noteq> 0 then do {
         r \<leftarrow> nodes s (h_right n);
         get_by_addr_loop s addr (if addr < h_base r then h_left n else h_right n)
       }
       else Some (if addr = h_base n then root else 0)
     })"

definition get_by_addr :: "uheap \<Rightarrow> u32 \<Rightarrow> ptr option" where
  "get_by_addr s addr = get_by_addr_loop s addr (tree s)"

section \<open>The interface\<close>

definition malloc :: "pager \<Rightarrow> uheap \<Rightarrow> u32 \<Rightarrow> (u32 \<times> uheap) option" where
  "malloc pager s sz = do {
     let index = ilog2 sz;
     (node, s) \<leftarrow> find_node pager s index;
     if node = 0 then Some (0, s\<lparr>errno := ENOMEM\<rparr>)
     else do {
       s \<leftarrow> upd_node s node (h_status_update (\<lambda>_. 1));
       n \<leftarrow> nodes s node;
       if page_anon_u pager (h_base n) (push_bit index 1) 3 \<noteq> 0 then Some (0, s\<lparr>errno := ENOMEM\<rparr>)
       else Some (h_base n, s)
     }
   }"

definition aalloc :: "pager \<Rightarrow> uheap \<Rightarrow> u32 \<Rightarrow> u32 \<Rightarrow> (u32 \<times> uheap) option" where
  "aalloc pager s sz align = (
     if align \<noteq> 0 then
       (if align \<noteq> push_bit (ilog2 align) 1 then Some (0, s\<lparr>errno := EINVAL\<rparr>)
        else malloc pager s (if sz > align then sz else align))
     else malloc pager s sz)"

definition msize :: "uheap \<Rightarrow> u32 \<Rightarrow> u32 option" where
  "msize s base = do {
     node \<leftarrow> get_by_addr s base;
     if node = 0 then Some 0
     else do {
       n \<leftarrow> nodes s node;
       Some (if h_status n = 1 then push_bit (unat (h_size n)) 1 else 0)
     }
   }"

definition free :: "pager \<Rightarrow> uheap \<Rightarrow> u32 \<Rightarrow> uheap option" where
  "free pager s base = do {
     node \<leftarrow> get_by_addr s base;
     if node \<noteq> 0 then do {
       n \<leftarrow> nodes s node;
       if h_status n = 0 then None
       else do {
         s \<leftarrow> upd_node s node (h_status_update (\<lambda>_. 0));
         s \<leftarrow> add_to_list s node;
         if h_size n \<ge> 12
         then let r = page_free_u pager (h_base n) (push_bit (unat (h_size n)) 1) in Some s
         else Some s
       }
     }
     else if base \<noteq> 0 then None
     else Some s
   }"

section \<open>Lemmas\<close>

subsection \<open>Logarithms\<close>

lemma unat_bit: "k < 32 \<Longrightarrow> unat (push_bit k 1 :: u32) = 2 ^ k"
proof -
  assume "k < 32"
  then have "(2 :: nat) ^ k < 2 ^ 32" by (intro power_strict_increasing) auto
  moreover have "(push_bit k 1 :: u32) = of_nat (2 ^ k)" by (simp add: push_bit_eq_mult)
  ultimately show ?thesis by (simp only: unat_of_nat) simp
qed

lemma high_half:
  fixes n :: u32
  assumes "unat n < 2 ^ (2 * c)"
  shows "n AND push_bit c (mask c) \<noteq> 0 \<longleftrightarrow> 2 ^ c \<le> unat n"
proof -
  have "bit n i \<Longrightarrow> i < 2 * c" for i
    using assms by (metis bit_take_bit_iff less_2_cases_iff take_bit_nat_eq_self unsigned_take_bit_eq word_unat_eq_iff)
  then have "bit n i \<Longrightarrow> c \<le> i \<Longrightarrow> i - c < c" for i by (simp add: less_diff_conv2 mult_2)
  then have "n AND push_bit c (mask c) = push_bit c (drop_bit c n)"
    by (auto simp: bit_eq_iff bit_simps)
  moreover have "push_bit c (drop_bit c n) = 0 \<longleftrightarrow> unat n < 2 ^ c"
  proof
    assume "push_bit c (drop_bit c n) = 0"
    then have "n = take_bit c n" using bits_ident [of c n] by simp
    then have "unat n = take_bit c (unat n)" by (metis unsigned_take_bit_eq)
    then show "unat n < 2 ^ c" by (metis take_bit_nat_less_exp)
  next
    assume "unat n < 2 ^ c"
    then have "unat (drop_bit c n) = 0" by (simp only: unat_drop_bit_eq) (simp add: drop_bit_eq_div)
    then show "push_bit c (drop_bit c n) = 0" by (simp add: unat_eq_zero)
  qed
  ultimately show ?thesis by (auto simp: not_less)
qed

definition log_inv :: "nat \<Rightarrow> nat \<Rightarrow> u32 \<times> nat \<Rightarrow> bool" where
  "log_inv n0 c x \<longleftrightarrow> unat (fst x) < 2 ^ c \<and> unat (fst x) = n0 div 2 ^ snd x \<and> 0 < unat (fst x) \<and> c dvd snd x"

lemma log_step:
  assumes "log_inv n0 (2 ^ Suc k) x" and "bits = push_bit (2 ^ k) (mask (2 ^ k))"
  shows "log_inv n0 (2 ^ k) (log_half (2 ^ k) bits x)"
proof -
  obtain n r where x: "x = (n, r)" by (cases x)
  have n: "unat n < 2 ^ (2 * 2 ^ k)" "unat n = n0 div 2 ^ r" "0 < unat n" "2 ^ Suc k dvd r"
    using assms(1) by (auto simp: log_inv_def x)
  have "\<not> bit r k" using n(4) by (auto simp: bit_iff_odd elim!: dvdE)
  then have "r AND 2 ^ k = 0" by (simp add: and_exp_eq_0_iff_not_bit)
  then have or: "r OR 2 ^ k = r + 2 ^ k" by (rule disjunctive_add_eq_or [symmetric])
  have k: "2 ^ k dvd r" using n(4) by (simp add: dvd_mult_right)
  show ?thesis
  proof (cases "2 ^ 2 ^ k \<le> unat n")
    case True
    have "unat (drop_bit (2 ^ k) n) = unat n div 2 ^ 2 ^ k" by (simp only: unat_drop_bit_eq) (simp add: drop_bit_eq_div)
    moreover have "unat n div 2 ^ 2 ^ k < 2 ^ 2 ^ k" using n(1) by (simp add: less_mult_imp_div_less mult_2 power_add)
    moreover have "0 < unat n div 2 ^ 2 ^ k" using True by (simp add: div_greater_zero_iff)
    moreover have "unat n div 2 ^ 2 ^ k = n0 div 2 ^ (r + 2 ^ k)" using n(2) by (simp add: power_add div_mult2_eq)
    moreover have "log_half (2 ^ k) bits x = (drop_bit (2 ^ k) n, r + 2 ^ k)"
      using high_half [OF n(1)] True or by (simp add: x assms(2))
    ultimately show ?thesis using k by (simp only: log_inv_def fst_conv snd_conv dvd_add) simp
  next
    case False
    then show ?thesis using n high_half [OF n(1)] k by (simp add: x assms(2) log_inv_def)
  qed
qed

lemma ilog2_ceil:
  assumes "1 < n"
  shows "2 ^ (ilog2 n - 1) < unat n \<and> unat n \<le> 2 ^ ilog2 n \<and> 0 < ilog2 n \<and> ilog2 n \<le> 32"
proof -
  let ?x = "log_half 1 0x2 (log_half 2 0xC (log_half 4 0xF0 (log_half 8 0xFF00 (log_half 16 0xFFFF0000 (n, 0)))))"
  have "unat n < 2 ^ LENGTH(32)" by (rule unsigned_less)
  then have n: "unat n < 2 ^ 32" "1 < unat n" using assms by (simp_all add: word_less_nat_alt)
  note M = push_bit_eq_mult mask_eq_exp_minus_1
  have "log_inv (unat n) (2 ^ Suc 4) (n, 0)" using n by (simp add: log_inv_def)
  from log_step [OF this, of "0xFFFF0000"] have "log_inv (unat n) 16 (log_half 16 0xFFFF0000 (n, 0))" by (simp add: M)
  then have "log_inv (unat n) (2 ^ Suc 3) (log_half 16 0xFFFF0000 (n, 0))" by simp
  from log_step [OF this, of "0xFF00"] have "log_inv (unat n) (2 ^ Suc 2) (log_half 8 0xFF00 (log_half 16 0xFFFF0000 (n, 0)))" by (simp add: M)
  from log_step [OF this, of "0xF0"] have "log_inv (unat n) (2 ^ Suc 1) (log_half 4 0xF0 (log_half 8 0xFF00 (log_half 16 0xFFFF0000 (n, 0))))" by (simp add: M)
  from log_step [OF this, of "0xC"] have "log_inv (unat n) (2 ^ Suc 0) (log_half 2 0xC (log_half 4 0xF0 (log_half 8 0xFF00 (log_half 16 0xFFFF0000 (n, 0)))))" by (simp add: M)
  from log_step [OF this, of "0x2"] have x: "log_inv (unat n) 1 ?x" by (simp add: M)
  obtain m r where mr: "?x = (m, r)" by (cases ?x)
  have il: "ilog2 n = (if push_bit r 1 = n then r else r + 1)" by (simp only: ilog2_def mr Let_def prod.case)
  have "unat m < 2" "unat m = unat n div 2 ^ r" "0 < unat m" using x unfolding mr log_inv_def by simp_all
  then have "unat n div 2 ^ r = 1" by linarith
  then have "2 ^ r + unat n mod 2 ^ r = unat n" using div_mult_mod_eq [of "unat n" "2 ^ r"] by simp
  moreover have "unat n mod 2 ^ r < 2 ^ r" by simp
  ultimately have r: "2 ^ r \<le> unat n" "unat n < 2 ^ Suc r" unfolding power_Suc by linarith+
  have r32: "r < 32" by (rule power_less_imp_less_exp [of "2 :: nat"]) (use r(1) n(1) in linarith)+
  then have "unat (push_bit r 1 :: u32) = 2 ^ r" by (rule unat_bit)
  then have p: "push_bit r 1 = n \<longleftrightarrow> unat n = 2 ^ r" by (auto simp: word_unat_eq_iff)
  have "0 < r" using r(2) n(2) by (cases r) auto
  then show ?thesis using r r32 p unfolding il by (cases r) auto
qed

subsection \<open>The tree of blocks\<close>

datatype bt = Lf ptr | Nd ptr bt bt

primrec root :: "bt \<Rightarrow> ptr" where
  "root (Lf p) = p" | "root (Nd p _ _) = p"

primrec bnodes :: "bt \<Rightarrow> ptr list" where
  "bnodes (Lf p) = [p]" | "bnodes (Nd p l r) = p # bnodes l @ bnodes r"

text \<open>\<open>bt_rep N b k t\<close>: the nodes \<open>N\<close> hold the tree \<open>t\<close> for the block of \<open>2 ^ k\<close> bytes at \<open>b\<close>.\<close>

definition is_node :: "heap_node option \<Rightarrow> nat \<Rightarrow> nat \<Rightarrow> ptr \<Rightarrow> ptr \<Rightarrow> bool" where
  "is_node x b k l r \<longleftrightarrow> (\<exists>n. x = Some n \<and> h_base n = of_nat b \<and> h_size n = of_nat k \<and> h_left n = l \<and> h_right n = r)"

primrec bt_rep :: "(ptr \<rightharpoonup> heap_node) \<Rightarrow> nat \<Rightarrow> nat \<Rightarrow> bt \<Rightarrow> bool" where
  "bt_rep N b k (Lf p) \<longleftrightarrow> p \<noteq> 0 \<and> is_node (N p) b k 0 0"
| "bt_rep N b k (Nd p l r) \<longleftrightarrow> p \<noteq> 0 \<and> 0 < k \<and> is_node (N p) b k (root l) (root r) \<and>
     bt_rep N b (k - 1) l \<and> bt_rep N (b + 2 ^ (k - 1)) (k - 1) r"

primrec leaves :: "nat \<Rightarrow> nat \<Rightarrow> bt \<Rightarrow> (ptr \<times> nat \<times> nat) set" where
  "leaves b k (Lf p) = {(p, b, k)}"
| "leaves b k (Nd p l r) = leaves b (k - 1) l \<union> leaves (b + 2 ^ (k - 1)) (k - 1) r"

lemma bt_rep_cong:
  "(\<And>p. p \<in> set (bnodes t) \<Longrightarrow> (\<And>b k l r. is_node (N' p) b k l r = is_node (N p) b k l r)) \<Longrightarrow> bt_rep N' b k t = bt_rep N b k t"
  by (induction t arbitrary: b k) auto

lemma root_node: "bt_rep N b k t \<Longrightarrow> root t \<noteq> 0 \<and> root t \<in> set (bnodes t)"
  by (cases t) auto

lemma leaves_node: "(p, b', k') \<in> leaves b k t \<Longrightarrow> p \<in> set (bnodes t)"
  by (induction t arbitrary: b k) auto

lemma leaves_rep: "bt_rep N b k t \<Longrightarrow> (p, b', k') \<in> leaves b k t \<Longrightarrow> p \<noteq> 0 \<and> is_node (N p) b' k' 0 0"
  by (induction t arbitrary: b k) auto

lemma half: "0 < k \<Longrightarrow> (2 :: nat) ^ k = 2 ^ (k - 1) + 2 ^ (k - 1)"
  by (cases k) auto

lemma leaves_in:
  assumes "bt_rep N b k t" and "(p, b', k') \<in> leaves b k t"
  shows "b \<le> b'" "b' + 2 ^ k' \<le> b + 2 ^ k" "k' \<le> k"
  using assms
proof (induction t arbitrary: b k)
  case (Nd q l r)
  {
    case 1
    then show ?case using Nd.IH(1) [of b "k - 1"] Nd.IH(4) [of "b + 2 ^ (k - 1)" "k - 1"] by fastforce
  next
    case 2
    then show ?case using Nd.IH(2) [of b "k - 1"] Nd.IH(5) [of "b + 2 ^ (k - 1)" "k - 1"] half [of k] by fastforce
  next
    case 3
    then show ?case using Nd.IH(3) [of b "k - 1"] Nd.IH(6) [of "b + 2 ^ (k - 1)" "k - 1"] by fastforce
  }
qed auto

lemma leaves_disjoint:
  assumes "bt_rep N b k t" and "x \<in> leaves b k t" and "y \<in> leaves b k t" and "x \<noteq> y"
  shows "{fst (snd x)..<fst (snd x) + 2 ^ snd (snd x)} \<inter> {fst (snd y)..<fst (snd y) + 2 ^ snd (snd y)} = {}"
  using assms
proof (induction t arbitrary: b k)
  case (Nd q l r)
  let ?h = "2 ^ (k - 1)"
  have R: "bt_rep N b (k - 1) l" "bt_rep N (b + ?h) (k - 1) r" using Nd.prems(1) by auto
  have "fst (snd z) + 2 ^ snd (snd z) \<le> b + ?h" if "z \<in> leaves b (k - 1) l" for z
    using leaves_in(2) [OF R(1)] that by (cases z) auto
  moreover have "b + ?h \<le> fst (snd z)" if "z \<in> leaves (b + ?h) (k - 1) r" for z
    using leaves_in(1) [OF R(2)] that by (cases z) auto
  ultimately show ?case using Nd.IH(1) [OF R(1)] Nd.IH(2) [OF R(2)] Nd.prems(2-4) by fastforce
qed auto

text \<open>Splitting a leaf.\<close>

primrec bsplit :: "ptr \<Rightarrow> ptr \<Rightarrow> ptr \<Rightarrow> bt \<Rightarrow> bt" where
  "bsplit p l r (Lf q) = (if q = p then Nd p (Lf l) (Lf r) else Lf q)"
| "bsplit p l r (Nd q a c) = Nd q (bsplit p l r a) (bsplit p l r c)"

lemma bsplit_root [simp]: "root (bsplit p l r t) = root t"
  by (cases t) auto

lemma bsplit_other: "p \<notin> set (bnodes t) \<Longrightarrow> bsplit p l r t = t"
  by (induction t) auto

lemma bsplit_nodes: "set (bnodes (bsplit p l r t)) \<subseteq> set (bnodes t) \<union> {l, r}"
  by (induction t) auto

lemma bsplit_ok:
  assumes "bt_rep N b k t" and "distinct (bnodes t)" and "(p, b', Suc k') \<in> leaves b k t"
    and "l \<notin> set (bnodes t)" and "r \<notin> set (bnodes t)" and "l \<noteq> r" and "l \<noteq> 0" and "r \<noteq> 0"
    and "\<And>q b k l r. q \<in> set (bnodes t) \<Longrightarrow> q \<noteq> p \<Longrightarrow> is_node (N' q) b k l r = is_node (N q) b k l r"
    and "is_node (N' p) b' (Suc k') l r" and "is_node (N' l) b' k' 0 0" and "is_node (N' r) (b' + 2 ^ k') k' 0 0"
  shows "bt_rep N' b k (bsplit p l r t) \<and> distinct (bnodes (bsplit p l r t)) \<and>
    leaves b k (bsplit p l r t) = leaves b k t - {(p, b', Suc k')} \<union> {(l, b', k'), (r, b' + 2 ^ k', k')}"
  using assms(1-5,9)
proof (induction t arbitrary: b k)
  case (Lf q)
  then show ?case using assms(6-8,10-12) by auto
next
  case (Nd q a c)
  let ?h = "2 ^ (k - 1)"
  have R: "bt_rep N b (k - 1) a" "bt_rep N (b + ?h) (k - 1) c" using Nd.prems(1) by auto
  have D: "distinct (bnodes a)" "distinct (bnodes c)" "set (bnodes a) \<inter> set (bnodes c) = {}" "q \<notin> set (bnodes a) \<union> set (bnodes c)"
    using Nd.prems(2) by auto
  consider "(p, b', Suc k') \<in> leaves b (k - 1) a" | "(p, b', Suc k') \<in> leaves (b + ?h) (k - 1) c" using Nd.prems(3) by auto
  then show ?case
  proof cases
    case 1
    then have p: "p \<in> set (bnodes a)" "p \<notin> set (bnodes c)" "p \<noteq> q" using leaves_node D by fastforce+
    have "bt_rep N' (b + ?h) (k - 1) c = bt_rep N (b + ?h) (k - 1) c"
      using p(2) by (intro bt_rep_cong Nd.prems(6)) auto
    moreover have "is_node (N' q) b k l' r' = is_node (N q) b k l' r'" for l' r' using Nd.prems(6) [of q] p(3) by auto
    moreover have "(p, b', Suc k') \<notin> leaves (b + ?h) (k - 1) c" using p(2) leaves_node by fast
    moreover note Nd.IH(1) [OF R(1) D(1) 1] bsplit_nodes [of p l r a]
    ultimately show ?thesis using Nd.prems D p bsplit_other [OF p(2)] by auto
  next
    case 2
    then have p: "p \<in> set (bnodes c)" "p \<notin> set (bnodes a)" "p \<noteq> q" using leaves_node D by fastforce+
    have "bt_rep N' b (k - 1) a = bt_rep N b (k - 1) a"
      using p(2) by (intro bt_rep_cong Nd.prems(6)) auto
    moreover have "is_node (N' q) b k l' r' = is_node (N q) b k l' r'" for l' r' using Nd.prems(6) [of q] p(3) by auto
    moreover have "(p, b', Suc k') \<notin> leaves b (k - 1) a" using p(2) leaves_node by fast
    moreover note Nd.IH(2) [OF R(2) D(2) 2] bsplit_nodes [of p l r c]
    ultimately show ?thesis using Nd.prems D p bsplit_other [OF p(2)] by auto
  qed
qed

subsection \<open>Representation\<close>

abbreviation hleaves :: "bt \<Rightarrow> (ptr \<times> nat \<times> nat) set" where "hleaves t \<equiv> leaves 0x10000000 29 t"

definition free_node :: "uheap \<Rightarrow> ptr \<Rightarrow> bool" where
  "free_node s p \<longleftrightarrow> (\<exists>n. nodes s p = Some n \<and> h_status n = 0)"

abbreviation next_node :: "uheap \<Rightarrow> ptr \<Rightarrow> ptr option" where
  "next_node s p \<equiv> map_option h_next (nodes s p)"

text \<open>
  \<open>uheap_rep s t F R\<close>: the heap is the tree \<open>t\<close>, and \<open>F k\<close> the free list of the free leaves of \<open>2 ^ k\<close>
  bytes but for those in \<open>R\<close>, which a call has taken out and not yet marked.
\<close>

definition uheap_rep :: "uheap \<Rightarrow> bt \<Rightarrow> (nat \<Rightarrow> ptr list) \<Rightarrow> ptr set \<Rightarrow> bool" where
  "uheap_rep s t F R \<longleftrightarrow> tree s = root t \<and> node_stack s = 0 \<and> bt_rep (nodes s) 0x10000000 29 t \<and> distinct (bnodes t) \<and>
     (\<forall>k < 32. chain (next_node s) (flist s k) (F k)) \<and>
     (\<forall>k < 32. set (F k) = {p. (\<exists>b. (p, b, k) \<in> hleaves t) \<and> free_node s p} - R) \<and>
     (\<forall>p \<in> set (bnodes t). unat p < unat (node_brk s)) \<and> (\<forall>p. unat (node_brk s) \<le> unat p \<longrightarrow> nodes s p = None) \<and>
     (\<forall>p n. nodes s p = Some n \<longrightarrow> h_status n \<le> 1) \<and> 0 < node_brk s"

lemma uheap_repD:
  assumes "uheap_rep s t F R"
  shows "tree s = root t" "node_stack s = 0" "bt_rep (nodes s) 0x10000000 29 t" "distinct (bnodes t)"
    and "k < 32 \<Longrightarrow> chain (next_node s) (flist s k) (F k)"
    and "k < 32 \<Longrightarrow> set (F k) = {p. (\<exists>b. (p, b, k) \<in> hleaves t) \<and> free_node s p} - R"
    and "p \<in> set (bnodes t) \<Longrightarrow> unat p < unat (node_brk s)" and "unat (node_brk s) \<le> unat p \<Longrightarrow> nodes s p = None"
    and "nodes s p = Some n \<Longrightarrow> h_status n \<le> 1" and "0 < node_brk s"
  using assms unfolding uheap_rep_def by blast+

text \<open>The blocks a program holds.\<close>

definition held :: "uheap \<Rightarrow> bt \<Rightarrow> (ptr \<times> nat) set" where
  "held s t = {(of_nat b, k) | b k. \<exists>p. (p, b, k) \<in> hleaves t \<and> \<not> free_node s p}"

end
