(* ===== verification/User_Heap_Rep.thy ===== *)
theory User_Heap_Rep
  imports User_Heap Kernel_Heap
begin

text \<open>
  What \<open>malloc\<close>, \<open>free\<close> and \<open>msize\<close> of the buddy heap guarantee. The heap is represented by a binary tree
  of blocks and the free lists of its free leaves; the operations keep the representation, which gives
  the contract of a block allocator that the kernel's heap also fulfils.
\<close>

section \<open>Leaves and back links\<close>

lemma leaves_unique: "distinct (bnodes t) \<Longrightarrow> (p, b1, k1) \<in> leaves b k t \<Longrightarrow> (p, b2, k2) \<in> leaves b k t \<Longrightarrow> b1 = b2 \<and> k1 = k2"
proof (induction t arbitrary: b k)
  case (Nd q a c)
  then show ?case using leaves_node by (auto, (metis disjoint_iff)+)
qed auto

text \<open>The back links are written and never read.\<close>

definition sameN :: "(ptr \<rightharpoonup> heap_node) \<Rightarrow> (ptr \<rightharpoonup> heap_node) \<Rightarrow> bool" where
  "sameN N N' \<longleftrightarrow> (\<forall>q. map_option (h_prev_update (\<lambda>_. 0)) (N' q) = map_option (h_prev_update (\<lambda>_. 0)) (N q))"

lemma sameN_field:
  assumes "sameN N N'" and "\<And>n. f (n\<lparr>h_prev := 0\<rparr>) = f n"
  shows "map_option f (N' q) = map_option f (N q)"
proof -
  have "map_option f (map_option (h_prev_update (\<lambda>_. 0)) (N' q)) = map_option f (map_option (h_prev_update (\<lambda>_. 0)) (N q))"
    using assms(1) by (simp only: sameN_def)
  then show ?thesis using assms(2) by (simp add: option.map_comp comp_def)
qed

lemma sameN_is_node: "sameN N N' \<Longrightarrow> is_node (N' p) b k l r = is_node (N p) b k l r"
  using sameN_field [of N N' "\<lambda>n. (h_base n, h_size n, h_left n, h_right n)" p]
  by (cases "N p"; cases "N' p") (auto simp: is_node_def)

lemma sameN_None: "sameN N N' \<Longrightarrow> N' p = None \<longleftrightarrow> N p = None"
  using sameN_field [of N N' "\<lambda>_. ()" p] by (cases "N p"; cases "N' p") auto

lemma sameN_prev: "N p = Some n \<Longrightarrow> sameN N (N(p \<mapsto> n\<lparr>h_prev := v\<rparr>))"
  by (simp add: sameN_def)

lemma sameN_free: "sameN (nodes s) (nodes s') \<Longrightarrow> free_node s' p = free_node s p"
  using sameN_field [of "nodes s" "nodes s'" h_status p] by (cases "nodes s p"; cases "nodes s' p") (auto simp: free_node_def)

lemma uheap_rep_same:
  assumes "uheap_rep s t F R" and "sameN (nodes s) (nodes s')" and "tree s' = tree s" and "node_stack s' = node_stack s"
    and "node_brk s' = node_brk s" and "flist s' = flist s"
  shows "uheap_rep s' t F R"
proof -
  note D = uheap_repD [OF assms(1)]
  have "next_node s' = next_node s" using sameN_field [OF assms(2), of h_next] by auto
  moreover have "h_status n \<le> 1" if "nodes s' p = Some n" for p n
    using sameN_field [OF assms(2), of h_status p] D(9) [of p] that by (cases "nodes s p") auto
  moreover have "bt_rep (nodes s') 0x10000000 29 t = bt_rep (nodes s) 0x10000000 29 t"
    by (rule bt_rep_cong) (rule sameN_is_node [OF assms(2)])
  ultimately show ?thesis
    using D assms(3-6) sameN_free [OF assms(2)] sameN_None [OF assms(2)] unfolding uheap_rep_def by simp
qed

lemma list_node:
  assumes "uheap_rep s t F R" and "k < 32" and "p \<in> set (F k)"
  obtains b n where "(p, b, k) \<in> hleaves t" "nodes s p = Some n" "h_size n = of_nat k" "h_base n = of_nat b" "p \<noteq> 0" "h_status n = 0" "p \<notin> R"
proof -
  have "(\<exists>b. (p, b, k) \<in> hleaves t) \<and> free_node s p \<and> p \<notin> R" using uheap_repD(6) [OF assms(1,2)] assms(3) by auto
  then obtain b where b: "(p, b, k) \<in> hleaves t" "free_node s p" "p \<notin> R" by blast
  then show ?thesis using leaves_rep [OF uheap_repD(3) [OF assms(1)] b(1)] that unfolding is_node_def free_node_def by auto
qed

lemma take_node_ok:
  assumes "uheap_rep s t F {}" and "k < 32" and "F k = p # ps"
  shows "\<exists>s'. take_node s k = Some (p, s') \<and> uheap_rep s' t (F(k := ps)) {p} \<and> node_brk s' = node_brk s \<and>
    (\<forall>q. free_node s' q = free_node s q) \<and> flist s k \<noteq> 0"
proof -
  have "p \<in> set (F k)" using assms(3) by simp
  then obtain b n where n: "(p, b, k) \<in> hleaves t" "nodes s p = Some n" "p \<noteq> 0" by (rule list_node [OF assms(1,2)])
  have c: "flist s k = p" "chain (next_node s) (h_next n) ps"
    using uheap_repD(5) [OF assms(1,2)] assms(3) n(2) by auto
  let ?s = "s\<lparr>flist := (flist s)(k := h_next n)\<rparr>"
  have np: "p \<notin> set (F j)" if "j < 32" "j \<noteq> k" for j
    using list_node [OF assms(1) that(1), of p] leaves_unique [OF uheap_repD(4) [OF assms(1)] n(1)] that(2) by metis
  have "distinct (p # ps)" using chain_distinct uheap_repD(5) [OF assms(1,2)] assms(3) by metis
  then have "p \<notin> set ps" by simp
  have rep: "uheap_rep ?s t (F(k := ps)) {p}"
  proof -
    note D = uheap_repD [OF assms(1)]
    have "set ((F(k := ps)) j) = {q. (\<exists>b. (q, b, j) \<in> hleaves t) \<and> free_node ?s q} - {p}" if "j < 32" for j
      using D(6) [OF that] np [OF that] \<open>p \<notin> set ps\<close> assms(3) by (cases "j = k") (auto simp: free_node_def)
    then show ?thesis using D c(2) unfolding uheap_rep_def by simp
  qed
  show ?thesis
  proof (cases "h_next n = 0")
    case True
    then show ?thesis using rep c(1) n by (intro exI [of _ ?s]) (simp add: take_node_def free_node_def)
  next
    case False
    then obtain m where m: "nodes s (h_next n) = Some m" using c(2) by (cases ps) auto
    let ?s' = "?s\<lparr>nodes := (nodes s)(h_next n \<mapsto> m\<lparr>h_prev := 0\<rparr>)\<rparr>"
    have same: "sameN (nodes s) (nodes ?s')" using sameN_prev [of "nodes s", OF m] by simp
    then have "uheap_rep ?s' t (F(k := ps)) {p}" by (intro uheap_rep_same [OF rep]) auto
    then show ?thesis using c(1) n m False sameN_free [OF same] by (intro exI [of _ ?s']) (simp add: take_node_def upd_node_def)
  qed
qed

lemma add_to_list_ok:
  assumes "uheap_rep s t F R" and "k < 32" and "(p, b, k) \<in> hleaves t" and "free_node s p" and "p \<in> R"
  shows "\<exists>s'. add_to_list s p = Some s' \<and> uheap_rep s' t (F(k := p # F k)) (R - {p}) \<and> node_brk s' = node_brk s \<and>
    (\<forall>q. free_node s' q = free_node s q)"
proof -
  note D = uheap_repD [OF assms(1)]
  obtain n where n: "nodes s p = Some n" "h_size n = of_nat k" "p \<noteq> 0" "h_status n = 0"
    using leaves_rep [OF D(3) assms(3)] assms(4) by (auto simp: is_node_def free_node_def)
  have k: "unat (h_size n) = k" using n(2) assms(2) by (simp add: unat_of_nat)
  have np: "p \<notin> set (F j)" if "j < 32" for j using D(6) [OF that] assms(5) by auto
  let ?s = "s\<lparr>nodes := (nodes s)(p \<mapsto> n\<lparr>h_next := flist s k, h_prev := 0\<rparr>), flist := (flist s)(k := p)\<rparr>"
  have nn: "next_node ?s = (next_node s)(p \<mapsto> flist s k)" by (auto simp: fun_eq_iff)
  have fr: "free_node ?s q = free_node s q" for q using n by (auto simp: free_node_def)
  have rep: "uheap_rep ?s t (F(k := p # F k)) (R - {p})"
  proof -
    have "bt_rep (nodes ?s) 0x10000000 29 t = bt_rep (nodes s) 0x10000000 29 t"
      by (rule bt_rep_cong) (use n(1) in \<open>auto simp: is_node_def\<close>)
    moreover have "set ((F(k := p # F k)) j) = {q. (\<exists>b. (q, b, j) \<in> hleaves t) \<and> free_node ?s q} - (R - {p})" if "j < 32" for j
    proof (cases "j = k")
      case True
      then show ?thesis unfolding fr using D(6) [OF assms(2)] assms(3,4) by auto
    next
      case False
      then have "(p, b', j) \<notin> hleaves t" for b' using leaves_unique [OF D(4) assms(3), of b' j] by auto
      then show ?thesis unfolding fr using D(6) [OF that] False by auto
    qed
    moreover have "chain (next_node ?s) (flist ?s j) ((F(k := p # F k)) j)" if "j < 32" for j
    proof (cases "j = k")
      case True
      then show ?thesis unfolding nn using D(5) [OF assms(2)] np [OF assms(2)] n(3) by (simp del: fun_upd_apply add: fun_upd_same)
    next
      case False
      then show ?thesis unfolding nn using D(5) [OF that] np [OF that] by (simp del: fun_upd_apply add: fun_upd_other)
    qed
    moreover have "h_status m \<le> 1" if "nodes ?s q = Some m" for q m using that D(9) n by (auto split: if_splits)
    moreover have "nodes ?s q = None" if "unat (node_brk s) \<le> unat q" for q using that D(8) n(1) by fastforce
    ultimately show ?thesis using D unfolding uheap_rep_def by simp
  qed
  show ?thesis
  proof (cases "flist s k = 0")
    case True
    then show ?thesis using rep fr n(1) k assms(2) by (intro exI [of _ ?s]) (simp add: add_to_list_def upd_node_def)
  next
    case False
    then obtain f fs where f: "F k = f # fs" "flist s k = f" using D(5) [OF assms(2)] by (cases "F k") auto
    then obtain m where m: "nodes s f = Some m" "f \<noteq> p" using list_node [OF assms(1,2), of f] assms(5) by (metis list.set_intros(1))
    let ?s' = "?s\<lparr>nodes := (nodes ?s)(f \<mapsto> m\<lparr>h_prev := p\<rparr>)\<rparr>"
    have same: "sameN (nodes ?s) (nodes ?s')" using sameN_prev [of "nodes ?s" f m p] m by simp
    then have "uheap_rep ?s' t (F(k := p # F k)) (R - {p})" by (intro uheap_rep_same [OF rep]) auto
    then show ?thesis using n(1) k assms(2) False f(2) m fr sameN_free [OF same]
      by (intro exI [of _ ?s']) (simp add: add_to_list_def upd_node_def)
  qed
qed

definition mapped :: "pager \<Rightarrow> ptr \<Rightarrow> bool" where
  "mapped pager q \<longleftrightarrow> page_anon_u pager q 32 3 = 0 \<or> q AND 0xFFF \<noteq> 0"

lemma new_heap_node_eq:
  "node_stack s = 0 \<Longrightarrow> nodes s (node_brk s) = None \<Longrightarrow> new_heap_node pager s = Some (node_brk s,
    s\<lparr>nodes := (if mapped pager (node_brk s) then (nodes s)(node_brk s \<mapsto> zero_node) else nodes s), node_brk := node_brk s + 32\<rparr>)"
  by (auto simp: new_heap_node_def mapped_def Let_def)

definition child :: "ptr \<Rightarrow> u32 \<Rightarrow> nat \<Rightarrow> heap_node" where
  "child p b k = zero_node\<lparr>h_parent := p, h_base := b, h_size := of_nat k\<rparr>"

definition split_state :: "uheap \<Rightarrow> ptr \<Rightarrow> heap_node \<Rightarrow> nat \<Rightarrow> uheap" where
  "split_state s p n i = (let l = node_brk s; r = node_brk s + 32 in
     s\<lparr>node_brk := node_brk s + 64,
       nodes := (nodes s)(p \<mapsto> n\<lparr>h_left := l, h_right := r\<rparr>, l \<mapsto> child p (h_base n) i, r \<mapsto> child p (h_base n + push_bit i 1) i)\<rparr>)"

lemma split_node_eq:
  assumes "node_stack s = 0" and "nodes s p = Some n" and "unat p < unat (node_brk s)" and "unat (node_brk s) + 64 < 2 ^ 32"
    and "\<forall>q. unat (node_brk s) \<le> unat q \<longrightarrow> nodes s q = None"
  shows "split_node pager s p i = (if mapped pager (node_brk s) \<and> mapped pager (node_brk s + 32)
    then do { s' \<leftarrow> add_to_list (split_state s p n i) (node_brk s + 32); Some (node_brk s, s') } else None)"
proof -
  let ?l = "node_brk s" and ?r = "node_brk s + 32"
  have r: "unat ?r = unat ?l + 32" using assms(4) by (simp add: unat_word_ariths)
  then have ne: "p \<noteq> ?l" "p \<noteq> ?r" "?l \<noteq> ?r" using assms(3) by auto
  have no: "nodes s ?l = None" "nodes s ?r = None" using assms(5) r by auto
  show ?thesis
  proof (cases "mapped pager ?l \<and> mapped pager ?r")
    case True
    then show ?thesis using assms(1,2) ne no
      by (simp add: split_node_def new_heap_node_eq upd_node_def split_state_def Let_def child_def zero_node_def fun_upd_twist add.commute [of 64])
  next
    case False
    then show ?thesis using assms(1,2) ne no by (auto simp: split_node_def new_heap_node_eq upd_node_def)
  qed
qed

lemma split_state_free:
  assumes "nodes s p = Some n" and "h_status n = 0" and "p \<noteq> node_brk s" and "p \<noteq> node_brk s + 32"
  shows "free_node (split_state s p n i) q \<longleftrightarrow> free_node s q \<or> q = node_brk s \<or> q = node_brk s + 32"
  using assms by (auto simp: split_state_def Let_def free_node_def child_def zero_node_def)

lemma split_state_rep:
  assumes "uheap_rep s t F {p}" and "(p, b, Suc i) \<in> hleaves t" and "nodes s p = Some n" and "h_status n = 0"
    and "unat (node_brk s) + 64 < 2 ^ 32"
  shows "uheap_rep (split_state s p n i) (bsplit p (node_brk s) (node_brk s + 32) t) F {node_brk s, node_brk s + 32}"
    "hleaves (bsplit p (node_brk s) (node_brk s + 32) t) = hleaves t - {(p, b, Suc i)} \<union> {(node_brk s, b, i), (node_brk s + 32, b + 2 ^ i, i)}"
proof -
  note D = uheap_repD [OF assms(1)]
  let ?l = "node_brk s" and ?r = "node_brk s + 32" and ?s = "split_state s p n i"
  have r: "unat ?r = unat ?l + 32" using assms(5) by (simp add: unat_word_ariths)
  have b64: "unat (?l + 64) = unat ?l + 64" using assms(5) by (simp add: unat_word_ariths)
  have p: "p \<in> set (bnodes t)" using leaves_node [OF assms(2)] .
  have pn: "p \<noteq> 0" "is_node (nodes s p) b (Suc i) 0 0" using leaves_rep [OF D(3) assms(2)] by auto
  then have base: "h_base n = of_nat b" "h_size n = of_nat (Suc i)" using assms(3) by (auto simp: is_node_def)
  have nl: "?l \<notin> set (bnodes t)" "?r \<notin> set (bnodes t)" using D(7) r by fastforce+
  have i: "i < 32" using leaves_in(3) [OF D(3) assms(2)] by simp
  have N: "nodes ?s = (nodes s)(p \<mapsto> n\<lparr>h_left := ?l, h_right := ?r\<rparr>, ?l \<mapsto> child p (h_base n) i, ?r \<mapsto> child p (h_base n + push_bit i 1) i)"
    by (simp add: split_state_def Let_def)
  have B: "bt_rep (nodes ?s) 0x10000000 29 (bsplit p ?l ?r t) \<and> distinct (bnodes (bsplit p ?l ?r t)) \<and>
    hleaves (bsplit p ?l ?r t) = hleaves t - {(p, b, Suc i)} \<union> {(?l, b, i), (?r, b + 2 ^ i, i)}"
  proof (rule bsplit_ok [OF D(3,4) assms(2) nl])
    show "?l \<noteq> ?r" "?l \<noteq> 0" "?r \<noteq> 0" using D(10) r by auto
    show "is_node (nodes ?s q) b' k' l' r' = is_node (nodes s q) b' k' l' r'" if "q \<in> set (bnodes t)" "q \<noteq> p" for q b' k' l' r'
      using that nl by (auto simp: N)
    show "is_node (nodes ?s p) b (Suc i) ?l ?r" using p nl base by (auto simp: N is_node_def)
    show "is_node (nodes ?s ?l) b i 0 0" using base by (auto simp: N is_node_def child_def zero_node_def)
    show "is_node (nodes ?s ?r) (b + 2 ^ i) i 0 0" using base by (auto simp: N is_node_def child_def zero_node_def push_bit_eq_mult)
  qed
  then show "hleaves (bsplit p ?l ?r t) = hleaves t - {(p, b, Suc i)} \<union> {(?l, b, i), (?r, b + 2 ^ i, i)}" by blast
  have fr: "free_node ?s q \<longleftrightarrow> free_node s q \<or> q = ?l \<or> q = ?r" for q
  proof (rule split_state_free [OF assms(3,4)])
    show "p \<noteq> ?l" "p \<noteq> ?r" using D(7) [OF p] r by auto
  qed
  have ch: "chain (next_node ?s) (flist ?s k) (F k)" if "k < 32" for k
  proof -
    have "q \<in> set (bnodes t) \<and> q \<noteq> p" if "q \<in> set (F k)" for q
      using D(6) [OF \<open>k < 32\<close>] that leaves_node by fastforce
    then have "chain (next_node ?s) (flist s k) (F k) = chain (next_node s) (flist s k) (F k)"
      using nl by (intro chain_cong) (auto simp: N)
    then show ?thesis using D(5) [OF that] by (simp add: split_state_def Let_def)
  qed
  have un: "(p, b', k) \<in> hleaves t \<Longrightarrow> b' = b \<and> k = Suc i" for b' k using leaves_unique [OF D(4) _ assms(2)] by blast
  have nlv: "(?l, b', k) \<notin> hleaves t" "(?r, b', k) \<notin> hleaves t" for b' k using nl leaves_node by fast+
  have st: "set (F k) = {q. (\<exists>b. (q, b, k) \<in> hleaves (bsplit p ?l ?r t)) \<and> free_node ?s q} - {?l, ?r}" if "k < 32" for k
    unfolding D(6) [OF that] fr using B un nlv by auto
  have "unat q < unat ?l + 64" if "q \<in> set (bnodes (bsplit p ?l ?r t))" for q
    using subsetD [OF bsplit_nodes that] D(7) [of q] r by auto
  moreover have "nodes ?s q = None" if "unat ?l + 64 \<le> unat q" for q
  proof -
    have "q \<noteq> p" "q \<noteq> ?l" "q \<noteq> ?r" using that D(7) [OF p] r by auto
    then show ?thesis using D(8) [of q] that by (simp add: N)
  qed
  moreover have "h_status m \<le> 1" if "nodes ?s q = Some m" for q m
    using that D(9) assms(4) by (auto simp: N child_def zero_node_def split: if_splits)
  moreover have "node_brk ?s = ?l + 64" "tree ?s = tree s" "node_stack ?s = 0" using D(2) by (simp_all add: split_state_def Let_def)
  moreover have "0 < ?l + 64" using b64 by (simp add: word_less_nat_alt)
  ultimately show "uheap_rep ?s (bsplit p ?l ?r t) F {?l, ?r}"
    unfolding uheap_rep_def using B ch st D(1) b64 by simp
qed

lemma held_cong: "(\<And>p b k. (p, b, k) \<in> hleaves t \<Longrightarrow> free_node s' p = free_node s p) \<Longrightarrow> held s' t = held s t"
  by (force simp: held_def)

lemma split_node_ok:
  assumes "uheap_rep s t F {p}" and "(p, b, Suc i) \<in> hleaves t" and "free_node s p" and "unat (node_brk s) + 64 < 2 ^ 32"
  shows "split_node pager s p i = None \<and> \<not> (\<forall>q. mapped pager q) \<or>
    (\<exists>l s' t' F' b. split_node pager s p i = Some (l, s') \<and> uheap_rep s' t' F' {l} \<and> (l, b, i) \<in> hleaves t' \<and> free_node s' l \<and>
      held s' t' = held s t \<and> unat (node_brk s') = unat (node_brk s) + 64)"
proof -
  note D = uheap_repD [OF assms(1)]
  obtain n where n: "nodes s p = Some n" "h_status n = 0" using assms(3) by (auto simp: free_node_def)
  let ?l = "node_brk s" and ?r = "node_brk s + 32" and ?s = "split_state s p n i"
  let ?t = "bsplit p ?l ?r t"
  note S = split_state_rep [OF assms(1,2) n assms(4)]
  note eq = split_node_eq [OF D(2) n(1) D(7) [OF leaves_node [OF assms(2)]] assms(4), of pager i]
  have i: "i < 32" using leaves_in(3) [OF D(3) assms(2)] by simp
  have ne: "?l \<noteq> ?r" by simp
  have fr: "free_node ?s ?l" "free_node ?s ?r" by (simp_all add: split_state_def free_node_def Let_def child_def zero_node_def)
  obtain s' where s': "add_to_list ?s ?r = Some s'" "uheap_rep s' ?t (F(i := ?r # F i)) ({?l, ?r} - {?r})" "node_brk s' = node_brk ?s"
    "\<forall>q. free_node s' q = free_node ?s q"
    using add_to_list_ok [OF S(1) i, of ?r "b + 2 ^ i"] S(2) fr(2) by auto
  have p: "unat p < unat ?l" using D(7) leaves_node [OF assms(2)] by blast
  have r: "unat ?r = unat ?l + 32" using assms(4) by (simp add: unat_word_ariths)
  then have ps: "p \<noteq> ?l" "p \<noteq> ?r" using p by auto
  have "(\<exists>q. (q, b', k) \<in> hleaves ?t \<and> \<not> free_node s' q) \<longleftrightarrow> (\<exists>q. (q, b', k) \<in> hleaves t \<and> \<not> free_node s q)" for b' k
  proof -
    have "q \<noteq> ?l \<and> q \<noteq> ?r" if "(q, b', k) \<in> hleaves t" for q using D(7) [OF leaves_node [OF that]] r by auto
    then show ?thesis using S(2) assms(3) s'(4) split_state_free [OF n ps, of i] by auto
  qed
  then have "held s' ?t = held s t" by (simp add: held_def)
  moreover have "unat (node_brk s') = unat ?l + 64" using s'(3) assms(4) by (simp add: split_state_def Let_def unat_word_ariths)
  moreover have "(?l, b, i) \<in> hleaves ?t" using S(2) by simp
  ultimately show ?thesis using eq D(8) s' fr(1) ne by (auto simp: insert_Diff_if)
qed

text \<open>What \<open>_find_node\<close> returns: a leaf of the size asked for, out of its list, or nothing when no list has one.\<close>

definition found :: "uheap \<Rightarrow> bt \<Rightarrow> nat \<Rightarrow> ptr \<Rightarrow> uheap \<Rightarrow> bool" where
  "found s t i p s' \<longleftrightarrow> (\<exists>t' F' b. uheap_rep s' t' F' {p} \<and> (p, b, i) \<in> hleaves t' \<and> free_node s' p \<and> held s' t' = held s t \<and>
     unat (node_brk s') \<le> unat (node_brk s) + 64 * (32 - i))"

lemma found_nz: "found s t i p s' \<Longrightarrow> p \<noteq> 0"
  unfolding found_def by (blast dest: leaves_rep [OF uheap_repD(3)])

lemma found_split:
  assumes "found s t (Suc i) p s1" and "i < 32" and "unat (node_brk s) + 64 * (32 - i) < 2 ^ 32"
  shows "split_node pager s1 p i = None \<and> \<not> (\<forall>q. mapped pager q) \<or> (\<exists>l s'. split_node pager s1 p i = Some (l, s') \<and> found s t i l s')"
proof -
  obtain t1 F1 b where s1: "uheap_rep s1 t1 F1 {p}" "(p, b, Suc i) \<in> hleaves t1" "free_node s1 p" "held s1 t1 = held s t"
    "unat (node_brk s1) \<le> unat (node_brk s) + 64 * (32 - Suc i)" using assms(1) unfolding found_def by blast
  have "unat (node_brk s1) + 64 \<le> unat (node_brk s) + 64 * (32 - i)" using s1(5) assms(2) by linarith
  then show ?thesis using split_node_ok [OF s1(1-3), of pager] s1(4) assms(3) unfolding found_def by fastforce
qed

lemma find_node_ok:
  assumes "uheap_rep s t F {}" and "i \<le> 32" and "unat (node_brk s) + 64 * (32 - i) < 2 ^ 32"
  shows "if \<forall>k. i \<le> k \<and> k < 32 \<longrightarrow> F k = [] then find_node pager s i = Some (0, s)
    else find_node pager s i = None \<and> \<not> (\<forall>q. mapped pager q) \<or> (\<exists>p s'. find_node pager s i = Some (p, s') \<and> found s t i p s')"
  using assms(2,3)
proof (induction "32 - i" arbitrary: i)
  case 0
  then show ?case by (auto simp: find_node.simps [of _ _ i] find_node.simps [of _ _ 32])
next
  case (Suc d)
  note D = uheap_repD [OF assms(1)]
  have i: "i < 32" using Suc(2) by linarith
  have tr: "tree s \<noteq> 0" using D(1) root_node [OF D(3)] by simp
  have eq: "find_node pager s i = (if flist s i \<noteq> 0 then take_node s i
      else do { (node, s) \<leftarrow> find_node pager s (Suc i); if node = 0 then Some (0, s) else split_node pager s node i })"
    using i tr by (subst find_node.simps) (simp only: Suc_eq_plus1 if_False not_le if_not_P Option.bind.bind_lunit)
  show ?case
  proof (cases "F i")
    case Nil
    then have z: "flist s i = 0" using D(5) [OF i] by simp
    have sp: "(\<forall>k. i \<le> k \<and> k < 32 \<longrightarrow> F k = []) \<longleftrightarrow> (\<forall>k. Suc i \<le> k \<and> k < 32 \<longrightarrow> F k = [])"
    proof -
      have e: "i \<le> k \<longleftrightarrow> k = i \<or> Suc i \<le> k" for k by auto
      show ?thesis unfolding e using Nil by auto
    qed
    have IH: "if \<forall>k. Suc i \<le> k \<and> k < 32 \<longrightarrow> F k = [] then find_node pager s (Suc i) = Some (0, s)
      else find_node pager s (Suc i) = None \<and> \<not> (\<forall>q. mapped pager q) \<or>
        (\<exists>p s'. find_node pager s (Suc i) = Some (p, s') \<and> found s t (Suc i) p s')"
      by (rule Suc(1)) (use Suc(2-4) i in linarith)+
    show ?thesis
    proof (cases "\<forall>k. Suc i \<le> k \<and> k < 32 \<longrightarrow> F k = []")
      case True
      then show ?thesis using IH eq z sp by simp
    next
      case False
      then consider "find_node pager s (Suc i) = None" "\<not> (\<forall>q. mapped pager q)"
        | p s1 where "find_node pager s (Suc i) = Some (p, s1)" "found s t (Suc i) p s1"
        using IH [unfolded if_not_P [OF False]] by metis
      then show ?thesis
      proof cases
        case 1
        then show ?thesis using eq z sp False by simp
      next
        case 2
        then show ?thesis using found_split [OF 2(2) i Suc(4), of pager] found_nz [OF 2(2)] eq z sp False by auto
      qed
    qed
  next
    case (Cons p ps)
    obtain s' where s': "take_node s i = Some (p, s')" "uheap_rep s' t (F(i := ps)) {p}" "node_brk s' = node_brk s"
      "\<forall>q. free_node s' q = free_node s q" "flist s i \<noteq> 0" using take_node_ok [OF assms(1) i Cons] by blast
    obtain b n where "(p, b, i) \<in> hleaves t" "nodes s p = Some n" "h_status n = 0"
      using list_node [OF assms(1) i, of p] Cons by (metis list.set_intros(1))
    then have "found s t i p s'" using s' held_cong [of t s' s] unfolding found_def by (auto simp: free_node_def)
    then show ?thesis using eq s'(1,5) Cons i by auto
  qed
qed

lemma unat_small: "b < 2 ^ 32 \<Longrightarrow> unat (of_nat b :: u32) = b"
  by (simp add: unat_of_nat)

lemma leaf_bound:
  assumes "uheap_rep s t F R" and "(p, b, k) \<in> hleaves t"
  shows "0x10000000 \<le> b" "b + 2 ^ k \<le> 0x30000000" "k \<le> 29" "b < 2 ^ 32"
proof -
  show *: "0x10000000 \<le> b" "b + 2 ^ k \<le> 0x30000000" "k \<le> 29" using leaves_in [OF uheap_repD(3) [OF assms(1)] assms(2)] by simp_all
  then show "b < 2 ^ 32" by simp
qed

lemma leaf_at:
  assumes "uheap_rep s t F R" and "(p, b, k) \<in> hleaves t" and "(q, b', k') \<in> hleaves t" and "(of_nat b' :: u32) = of_nat b"
  shows "q = p \<and> b' = b \<and> k' = k"
proof (rule ccontr)
  have "b' = b"
    using arg_cong [OF assms(4), of unat] unfolding unat_small [OF leaf_bound(4) [OF assms(1,2)]] unat_small [OF leaf_bound(4) [OF assms(1,3)]] .
  moreover assume "\<not> (q = p \<and> b' = b \<and> k' = k)"
  ultimately have "{b..<b + 2 ^ k} \<inter> {b..<b + 2 ^ k'} = {}"
    using leaves_disjoint [OF uheap_repD(3) [OF assms(1)] assms(2,3)] by auto
  then show False by (auto simp: disjoint_iff) 
qed

lemma found_hold:
  assumes "found s t i p s1" and "nodes s1 p = Some n"
  shows "\<exists>t' F'. uheap_rep (s1\<lparr>nodes := (nodes s1)(p \<mapsto> n\<lparr>h_status := 1\<rparr>)\<rparr>) t' F' {} \<and>
    held (s1\<lparr>nodes := (nodes s1)(p \<mapsto> n\<lparr>h_status := 1\<rparr>)\<rparr>) t' = insert (h_base n, i) (held s t) \<and> (h_base n, i) \<notin> held s t"
proof -
  obtain t' F' b where s1: "uheap_rep s1 t' F' {p}" "(p, b, i) \<in> hleaves t'" "free_node s1 p" "held s1 t' = held s t"
    using assms(1) unfolding found_def by blast
  note D = uheap_repD [OF s1(1)]
  let ?s = "s1\<lparr>nodes := (nodes s1)(p \<mapsto> n\<lparr>h_status := 1\<rparr>)\<rparr>"
  have base: "h_base n = of_nat b" using leaves_rep [OF D(3) s1(2)] assms(2) by (simp add: is_node_def)
  have fr: "free_node ?s q \<longleftrightarrow> free_node s1 q \<and> q \<noteq> p" for q by (auto simp: free_node_def)
  have "bt_rep (nodes ?s) 0x10000000 29 t' = bt_rep (nodes s1) 0x10000000 29 t'"
    by (rule bt_rep_cong) (use assms(2) in \<open>auto simp: is_node_def\<close>)
  moreover have "next_node ?s = next_node s1" using assms(2) by (auto simp: fun_eq_iff)
  moreover have "set (F' k) = {q. (\<exists>b. (q, b, k) \<in> hleaves t') \<and> free_node ?s q} - {}" if "k < 32" for k
    using D(6) [OF that] unfolding fr by auto
  moreover have "h_status m \<le> 1" if "nodes ?s q = Some m" for q m using that D(9) by (auto split: if_splits)
  moreover have "nodes ?s q = None" if "unat (node_brk s1) \<le> unat q" for q using that D(8) assms(2) by fastforce
  ultimately have rep: "uheap_rep ?s t' F' {}" using D unfolding uheap_rep_def by simp
  moreover have "held ?s t' = insert (of_nat b, i) (held s1 t')"
    using s1(2) by (auto simp: held_def fr dest: leaves_unique [OF D(4) s1(2)])
  moreover have "(of_nat b, i) \<notin> held s1 t'" using s1(3) leaf_at [OF s1(1,2)] by (auto simp: held_def)
  ultimately show ?thesis using s1(4) unfolding base by auto
qed

lemma ilog2_small: "ilog2 0 = 1" "ilog2 1 = 0"
  by (simp_all add: ilog2_def)

lemma ilog2_bound: "n \<le> 0x20000000 \<Longrightarrow> ilog2 n \<le> 29"
proof (cases "n = 0 \<or> n = 1")
  case False
  assume n: "n \<le> 0x20000000"
  have "unat n \<noteq> 0" "unat n \<noteq> 1" using False by (auto simp: word_unat_eq_iff)
  then have "1 < n" by (simp add: word_less_nat_alt)
  from ilog2_ceil [OF this] n have "(2 :: nat) ^ (ilog2 n - 1) < 2 ^ 29" by (simp add: word_le_nat_alt)
  then have "ilog2 n - 1 < 29" by (rule power_less_imp_less_exp [rotated]) simp
  then show ?thesis by simp
qed (auto simp: ilog2_small)

lemma held_nz: "uheap_rep s t F R \<Longrightarrow> (a, k) \<in> held s t \<Longrightarrow> a \<noteq> 0 \<and> k < 32 \<and> (\<exists>p b. a = of_nat b \<and> (p, b, k) \<in> hleaves t \<and> \<not> free_node s p)"
proof -
  assume R: "uheap_rep s t F R" and "(a, k) \<in> held s t"
  then obtain p b where b: "a = of_nat b" "(p, b, k) \<in> hleaves t" "\<not> free_node s p" unfolding held_def by auto
  have "unat a = b" using unat_small [OF leaf_bound(4) [OF R b(2)]] b(1) by simp
  then show ?thesis using leaf_bound(1,3) [OF R b(2)] b by auto
qed

lemma malloc_cases:
  assumes "uheap_rep s t F {}" and "sz \<le> 0x20000000" and "unat (node_brk s) + 2048 < 2 ^ 32"
  shows "if \<forall>k. ilog2 sz \<le> k \<and> k < 32 \<longrightarrow> F k = [] then malloc pager s sz = Some (0, s\<lparr>errno := ENOMEM\<rparr>)
    else malloc pager s sz = None \<and> \<not> (\<forall>q. mapped pager q) \<or>
     (\<exists>a s' t' F'. malloc pager s sz = Some (if page_anon_u pager a (push_bit (ilog2 sz) 1) 3 = 0 then (a, s') else (0, s'\<lparr>errno := ENOMEM\<rparr>)) \<and>
        uheap_rep s' t' F' {} \<and> held s' t' = insert (a, ilog2 sz) (held s t) \<and> (a, ilog2 sz) \<notin> held s t \<and> a \<noteq> 0 \<and>
        unat (node_brk s') \<le> unat (node_brk s) + 2048)"
proof -
  let ?i = "ilog2 sz"
  have i: "?i \<le> 29" using ilog2_bound [OF assms(2)] .
  note S = find_node_ok [OF assms(1), of ?i pager]
  have room: "unat (node_brk s) + 64 * (32 - ?i) < 2 ^ 32" using assms(3) by linarith
  show ?thesis
  proof (cases "\<forall>k. ?i \<le> k \<and> k < 32 \<longrightarrow> F k = []")
    case True
    then show ?thesis using S i room by (simp add: malloc_def)
  next
    case False
    then consider "find_node pager s ?i = None" "\<not> (\<forall>q. mapped pager q)"
      | p s1 where "find_node pager s ?i = Some (p, s1)" "found s t ?i p s1"
      using S [OF _ room, unfolded if_not_P [OF False]] i by fastforce
    then show ?thesis
    proof cases
      case 1
      then show ?thesis using False by (simp add: malloc_def)
    next
      case 2
      obtain n where n: "nodes s1 p = Some n" using 2(2) unfolding found_def free_node_def by blast
      let ?s = "s1\<lparr>nodes := (nodes s1)(p \<mapsto> n\<lparr>h_status := 1\<rparr>)\<rparr>"
      obtain t' F' where h: "uheap_rep ?s t' F' {}" "held ?s t' = insert (h_base n, ?i) (held s t)" "(h_base n, ?i) \<notin> held s t"
        using found_hold [OF 2(2) n] by blast
      have "malloc pager s sz = Some (if page_anon_u pager (h_base n) (push_bit ?i 1) 3 = 0 then (h_base n, ?s) else (0, ?s\<lparr>errno := ENOMEM\<rparr>))"
        using 2(1) n found_nz [OF 2(2)] by (simp add: malloc_def upd_node_def)
      moreover have "unat (node_brk ?s) \<le> unat (node_brk s) + 2048" using 2(2) unfolding found_def by auto
      moreover have "h_base n \<noteq> 0" using h(1,2) held_nz by blast
      ultimately show ?thesis unfolding if_not_P [OF False] using h by blast
    qed
  qed
qed

lemma bt_rep_root: "bt_rep N b k t \<Longrightarrow> \<exists>n. N (root t) = Some n \<and> h_base n = of_nat b"
  by (cases t) (auto simp: is_node_def)

lemma get_by_addr_loop_ok:
  "bt_rep (nodes s) b k t \<Longrightarrow> b + 2 ^ k < 2 ^ 32 \<Longrightarrow> (p, a, k') \<in> leaves b k t \<Longrightarrow> get_by_addr_loop s (of_nat a) (root t) = Some p"
proof (induction t arbitrary: b k)
  case (Lf q)
  then obtain n where "q \<noteq> 0" "nodes s q = Some n" "h_left n = 0" "h_base n = of_nat a" "p = q" by (auto simp: is_node_def)
  then show ?case by (subst get_by_addr_loop.simps) simp
next
  case (Nd q l r)
  let ?h = "2 ^ (k - 1)"
  have R: "bt_rep (nodes s) b (k - 1) l" "bt_rep (nodes s) (b + ?h) (k - 1) r" "0 < k" using Nd.prems(1) by auto
  have h: "b + ?h + ?h < 2 ^ 32" using Nd.prems(2) half [OF R(3)] by linarith
  obtain n where n: "q \<noteq> 0" "nodes s q = Some n" "h_left n = root l" "h_right n = root r" using Nd.prems(1) by (auto simp: is_node_def)
  obtain m where m: "nodes s (root r) = Some m" "h_base m = of_nat (b + ?h)" using bt_rep_root [OF R(2)] by auto
  have s: "get_by_addr_loop s (of_nat a) (root (Nd q l r)) =
      get_by_addr_loop s (of_nat a) (if (of_nat a :: u32) < of_nat (b + ?h) then root l else root r)"
    using n m root_node [OF R(1)] root_node [OF R(2)] by (simp add: get_by_addr_loop.simps [of _ _ q])
  have a: "a < 2 ^ 32" using leaves_in [OF Nd.prems(1,3)] Nd.prems(2) by linarith
  have lt: "(of_nat a :: u32) < of_nat (b + ?h) \<longleftrightarrow> a < b + ?h"
    unfolding word_less_nat_alt using unat_small [OF a] unat_small [of "b + ?h"] h by simp
  consider "(p, a, k') \<in> leaves b (k - 1) l" | "(p, a, k') \<in> leaves (b + ?h) (k - 1) r" using Nd.prems(3) by auto
  then show ?case
  proof cases
    case 1
    have "(0 :: nat) < 2 ^ k'" by simp
    then have "a < b + ?h" using leaves_in(2) [OF R(1) 1] by linarith
    then show ?thesis unfolding s lt using Nd.IH(1) [OF R(1) _ 1] h by simp
  next
    case 2
    then have "\<not> a < b + ?h" using leaves_in(1) [OF R(2)] by fastforce
    then show ?thesis unfolding s lt using Nd.IH(2) [OF R(2) _ 2] h by simp
  qed
qed

lemma get_by_addr_ok:
  assumes "uheap_rep s t F R" and "(p, b, k) \<in> hleaves t"
  shows "get_by_addr s (of_nat b) = Some p"
  using get_by_addr_loop_ok [OF uheap_repD(3) [OF assms(1)] _ assms(2)] uheap_repD(1) [OF assms(1)] by (simp add: get_by_addr_def)

lemma free_ok:
  assumes "uheap_rep s t F {}" and "(a, k) \<in> held s t"
  shows "\<exists>s' p b. free pager s a = Some s' \<and> a = of_nat b \<and> (p, b, k) \<in> hleaves t \<and> uheap_rep s' t (F(k := p # F k)) {} \<and> free_node s' p \<and>
    held s' t = held s t - {(a, k)} \<and> node_brk s' = node_brk s"
proof -
  note D = uheap_repD [OF assms(1)]
  obtain p b where p: "a = of_nat b" "(p, b, k) \<in> hleaves t" "\<not> free_node s p" and k: "k < 32" and nz: "a \<noteq> 0"
    using held_nz [OF assms] by blast
  obtain n where n: "nodes s p = Some n" "h_status n \<noteq> 0" "p \<noteq> 0"
    using leaves_rep [OF D(3) p(2)] p(3) by (auto simp: is_node_def free_node_def)
  let ?s = "s\<lparr>nodes := (nodes s)(p \<mapsto> n\<lparr>h_status := 0\<rparr>)\<rparr>"
  have fr: "free_node ?s q \<longleftrightarrow> free_node s q \<or> q = p" for q using n by (auto simp: free_node_def)
  have "bt_rep (nodes ?s) 0x10000000 29 t = bt_rep (nodes s) 0x10000000 29 t"
    by (rule bt_rep_cong) (use n in \<open>auto simp: is_node_def\<close>)
  moreover have "next_node ?s = next_node s" using n by (auto simp: fun_eq_iff)
  moreover have "set (F j) = {q. (\<exists>b. (q, b, j) \<in> hleaves t) \<and> free_node ?s q} - {p}" if "j < 32" for j
    using D(6) [OF that] p(3) unfolding fr by auto
  moreover have "h_status m \<le> 1" if "nodes ?s q = Some m" for q m using that D(9) by (auto split: if_splits)
  moreover have "nodes ?s q = None" if "unat (node_brk s) \<le> unat q" for q using that D(8) n by fastforce
  ultimately have rep: "uheap_rep ?s t F {p}" using D unfolding uheap_rep_def by simp
  have fp: "free_node ?s p" using fr by blast
  obtain s' where s': "add_to_list ?s p = Some s'" "uheap_rep s' t (F(k := p # F k)) ({p} - {p})" "node_brk s' = node_brk ?s"
    "\<forall>q. free_node s' q = free_node ?s q" using add_to_list_ok [OF rep k p(2) fp] by blast
  have "free pager s a = Some s'"
    using get_by_addr_ok [OF assms(1) p(2)] n nz s'(1) by (simp add: free_def p(1) upd_node_def)
  moreover have "held s' t = held s t - {(a, k)}"
  proof -
    have "(q, b', k') \<in> hleaves t \<and> \<not> free_node s' q \<longleftrightarrow> (q, b', k') \<in> hleaves t \<and> \<not> free_node s q \<and> (of_nat b', k') \<noteq> (a, k)" for q b' k'
      using p s'(4) fr [of q] leaf_at [OF assms(1) p(2), of q b' k'] leaves_unique [OF D(4) p(2), of b' k'] by auto
    then have "held s' t = {(of_nat b', k') | b' k'. \<exists>q. (q, b', k') \<in> hleaves t \<and> \<not> free_node s q \<and> (of_nat b', k') \<noteq> (a, k)}"
      by (simp only: held_def)
    also have "\<dots> = held s t - {(a, k)}" unfolding held_def by blast
    finally show ?thesis .
  qed
  ultimately show ?thesis using s' p(1,2) fp by (intro exI [of _ s'] exI [of _ p] exI [of _ b]) simp
qed

text \<open>The heap after its first call has made the tree.\<close>

definition first_heap :: uheap where
  "first_heap = \<lparr>nodes = [0x30000000 \<mapsto> zero_node\<lparr>h_base := HEAP_START, h_size := 29\<rparr>], tree = 0x30000000,
     flist = (\<lambda>_. 0)(29 := 0x30000000), node_brk = 0x30000020, node_stack = 0, errno = 0\<rparr>"

abbreviation first_lists :: "nat \<Rightarrow> ptr list" where
  "first_lists \<equiv> (\<lambda>_. [])(29 := [0x30000000])"

lemma first_heap_ok:
  "mapped pager 0x30000000 \<Longrightarrow> new_tree pager new_uheap = Some first_heap"
  "uheap_rep first_heap (Lf 0x30000000) first_lists {}" "held first_heap (Lf 0x30000000) = {}" "node_brk first_heap = 0x30000020"
proof -
  have il: "ilog2 0x20000000 = 29" by (simp add: ilog2_def)
  show "mapped pager 0x30000000 \<Longrightarrow> new_tree pager new_uheap = Some first_heap"
    by (simp add: new_tree_def new_heap_node_eq new_uheap_def upd_node_def il add_to_list_def first_heap_def zero_node_def Let_def)
  show "uheap_rep first_heap (Lf 0x30000000) first_lists {}"
    by (auto simp: uheap_rep_def first_heap_def is_node_def zero_node_def free_node_def split: if_splits)
  show "held first_heap (Lf 0x30000000) = {}" by (auto simp: held_def first_heap_def free_node_def zero_node_def)
qed (simp add: first_heap_def)

lemma find_node_first:
  assumes "new_tree pager new_uheap = Some s" and "tree s \<noteq> 0" and "i < 32"
  shows "find_node pager new_uheap i = find_node pager s i"
  unfolding find_node.simps [of pager new_uheap i] find_node.simps [of pager s i] using assms by (simp add: new_uheap_def)

section \<open>The contract of a block allocator\<close>

text \<open>
  The calls of \<open>malloc\<close> that succeed, while the heap nodes stay within their area, keep the same
  contract as the kernel's allocator.
\<close>

definition user_alloc :: "pager \<Rightarrow> uheap \<Rightarrow> u32 \<Rightarrow> (ptr \<times> uheap) option" where
  "user_alloc pager s sz = do {
     (a, s) \<leftarrow> malloc pager s sz;
     if a = 0 \<or> node_brk s > 0x31000000 then None else Some (a, s)
   }"

definition user_held :: "uheap \<Rightarrow> (ptr \<times> nat) set \<Rightarrow> bool" where
  "user_held s L \<longleftrightarrow> (\<exists>t F. uheap_rep s t F {} \<and> L = held s t) \<and> node_brk s \<le> 0x31000000"

definition ublk :: "ptr \<times> nat \<Rightarrow> nat set" where
  "ublk x = {unat (fst x) ..< unat (fst x) + 2 ^ snd x}"

lemma held_disjoint:
  assumes "uheap_rep s t F R" and "x \<in> held s t" and "y \<in> held s t" and "x \<noteq> y"
  shows "ublk x \<inter> ublk y = {}"
proof -
  obtain a k p b where x: "x = (a, k)" "a = of_nat b" "(p, b, k) \<in> hleaves t" using held_nz [OF assms(1)] assms(2) by (cases x) blast
  obtain a' k' p' b' where y: "y = (a', k')" "a' = of_nat b'" "(p', b', k') \<in> hleaves t" using held_nz [OF assms(1)] assms(3) by (cases y) blast
  have "unat a = b" "unat a' = b'" using unat_small leaf_bound(4) [OF assms(1) x(3)] leaf_bound(4) [OF assms(1) y(3)] x(2) y(2) by simp_all
  moreover have "(p, b, k) \<noteq> (p', b', k')" using assms(4) x y by auto
  ultimately show ?thesis using leaves_disjoint [OF uheap_repD(3) [OF assms(1)] x(3) y(3)] by (simp add: ublk_def x(1) y(1))
qed

interpretation uheap: block_allocator "user_alloc pager" "\<lambda>s a _. free pager s a" user_held ilog2 ublk "0x20000000"
proof
  fix s L x y
  show "user_held s L \<Longrightarrow> x \<in> L \<Longrightarrow> y \<in> L \<Longrightarrow> x \<noteq> y \<Longrightarrow> ublk x \<inter> ublk y = {}"
    unfolding user_held_def using held_disjoint by blast
next
  fix s L n a s'
  assume "user_held s L" and n: "n \<le> (0x20000000 :: u32)" and m: "user_alloc pager s n = Some (a, s')"
  then obtain t F where R: "uheap_rep s t F {}" "L = held s t" and brk: "node_brk s \<le> 0x31000000" unfolding user_held_def by blast
  have "unat (node_brk s) + 2048 < 2 ^ 32" using brk by (simp add: word_le_nat_alt)
  note C = malloc_cases [OF R(1) n this, of pager]
  show "user_held s' (insert (a, ilog2 n) L) \<and> (a, ilog2 n) \<notin> L"
    using C m R(2) unfolding user_alloc_def user_held_def by (auto split: if_splits)
next
  fix s L n a
  assume "user_held s L" and "(a, ilog2 n) \<in> L"
  then show "\<exists>s'. free pager s a = Some s' \<and> user_held s' (L - {(a, ilog2 n)})"
    unfolding user_held_def using free_ok by metis
qed

section \<open>Properties\<close>

lemma ilog2_cover: "unat n \<le> 2 ^ ilog2 n"
proof (cases "n = 0 \<or> n = 1")
  case False
  then have "unat n \<noteq> 0" "unat n \<noteq> 1" by (auto simp: word_unat_eq_iff)
  then show ?thesis using ilog2_ceil [of n] by (simp add: word_less_nat_alt)
qed (auto simp: ilog2_small)

lemma held_range: "uheap_rep s t F R \<Longrightarrow> x \<in> held s t \<Longrightarrow> ublk x \<subseteq> {0x10000000..<0x30000000}"
proof -
  assume R: "uheap_rep s t F R" and "x \<in> held s t"
  then obtain k p b where b: "x = (of_nat b, k)" "(p, b, k) \<in> hleaves t" using held_nz [OF R] by (cases x) blast
  then show ?thesis using leaf_bound(1,2) [OF R b(2)] unat_small [OF leaf_bound(4) [OF R b(2)]] by (auto simp: ublk_def)
qed



text \<open>
  Freeing: a held block has the size \<open>msize\<close> reports, can be freed once and not a second time, and
  the next request of its size class, when the kernel grants the pages, returns the same block.
\<close>

theorem free_malloc_cycle:
  assumes "uheap_rep s t F {}" and "(a, ilog2 sz) \<in> held s t" and "page_anon_u pager a (push_bit (ilog2 sz) 1) 3 = 0"
  shows "msize s a = Some (push_bit (ilog2 sz) 1) \<and>
    (\<exists>s1 s2 F1. free pager s a = Some s1 \<and> uheap_rep s1 t F1 {} \<and> held s1 t = held s t - {(a, ilog2 sz)} \<and> free pager s1 a = None \<and>
      malloc pager s1 sz = Some (a, s2))"
proof -
  let ?k = "ilog2 sz"
  note D = uheap_repD [OF assms(1)]
  obtain p b where p: "a = of_nat b" "(p, b, ?k) \<in> hleaves t" "\<not> free_node s p" and k: "?k < 32" using held_nz [OF assms(1,2)] by blast
  obtain n where n: "nodes s p = Some n" "h_size n = of_nat ?k" "h_status n \<noteq> 0" "p \<noteq> 0"
    using leaves_rep [OF D(3) p(2)] p(3) by (auto simp: is_node_def free_node_def)
  have "h_status n \<noteq> 0 \<Longrightarrow> h_status n \<le> 1 \<Longrightarrow> h_status n = 1" by (simp add: word_le_nat_alt word_unat_eq_iff)
  then have ms: "msize s a = Some (push_bit ?k 1)"
    using get_by_addr_ok [OF assms(1) p(2)] n D(9) [OF n(1)] k by (simp add: msize_def p(1) unat_of_nat)
  obtain s1 q b' where f: "free pager s a = Some s1" "a = of_nat b'" "(q, b', ?k) \<in> hleaves t" "uheap_rep s1 t (F(?k := q # F ?k)) {}"
    "free_node s1 q" "held s1 t = held s t - {(a, ?k)}" using free_ok [OF assms(1,2)] by blast
  have ff: "free pager s1 a = None"
    using get_by_addr_ok [OF f(4,3)] f(5) leaves_rep [OF uheap_repD(3) [OF f(4)] f(3)] by (auto simp: free_def f(2) free_node_def)
  obtain s2 where s2: "take_node s1 ?k = Some (q, s2)" "uheap_rep s2 t ((F(?k := q # F ?k))(?k := F ?k)) {q}" "flist s1 ?k \<noteq> 0"
    using take_node_ok [OF f(4) k, of q "F ?k"] by auto
  have "tree s1 \<noteq> 0" using uheap_repD(1) [OF f(4)] root_node [OF uheap_repD(3) [OF f(4)]] by simp
  then have "find_node pager s1 ?k = Some (q, s2)" using s2(1,3) k by (simp add: find_node.simps [of pager s1])
  moreover obtain m where "nodes s2 q = Some m" "h_base m = a" "q \<noteq> 0"
    using leaves_rep [OF uheap_repD(3) [OF s2(2)] f(3)] f(2) by (auto simp: is_node_def)
  ultimately have "malloc pager s1 sz = Some (a, s2\<lparr>nodes := (nodes s2)(q \<mapsto> m\<lparr>h_status := 1\<rparr>)\<rparr>)"
    using assms(3) by (simp add: malloc_def upd_node_def)
  then show ?thesis using ms f(1,4,6) ff by blast
qed

theorem free_malloc_cycle_witness:
  "\<exists>s a s1 s2. malloc (\<lambda>_ _ _ _ _. 0) first_heap 0x10000000 = Some (a, s) \<and> msize s a = Some 0x10000000 \<and>
     free (\<lambda>_ _ _ _ _. 0) s a = Some s1 \<and> free (\<lambda>_ _ _ _ _. 0) s1 a = None \<and> malloc (\<lambda>_ _ _ _ _. 0) s1 0x10000000 = Some (a, s2)"
proof -
  have il: "ilog2 0x10000000 = 28" by (simp add: ilog2_def)
  have "\<not> (\<forall>k. ilog2 0x10000000 \<le> k \<and> k < 32 \<longrightarrow> first_lists k = [])" unfolding il by (auto intro!: exI [of _ 29])
  from malloc_cases [OF first_heap_ok(2), of "0x10000000" "\<lambda>_ _ _ _ _. 0", unfolded if_not_P [OF this]]
  obtain a s t F where s: "malloc (\<lambda>_ _ _ _ _. 0) first_heap 0x10000000 = Some (a, s)" "uheap_rep s t F {}" "(a, ilog2 0x10000000) \<in> held s t"
    by (auto simp: first_heap_ok(4) mapped_def page_anon_u_def page_u_def Let_def)
  then show ?thesis using free_malloc_cycle [OF s(2,3), of "\<lambda>_ _ _ _ _. 0"] unfolding il
    by (auto simp: page_anon_u_def page_u_def Let_def)
qed

text \<open>
  Any sequence of successful calls of \<open>malloc\<close>, whatever the sizes, as long as the heap nodes stay in
  their area, returns pairwise disjoint blocks, disjoint also from all blocks held before.
\<close>

theorem mallocs_disjoint:
  assumes "user_held s L" and "\<forall>n \<in> set ns. n \<le> 0x20000000" and "alloc_all (user_alloc pager) s ns = Some (ps, s')"
  shows "length ps = length ns \<and>
    (\<forall>i j. i < j \<and> j < length ns \<longrightarrow> ublk (ps ! i, ilog2 (ns ! i)) \<inter> ublk (ps ! j, ilog2 (ns ! j)) = {}) \<and>
    (\<forall>i < length ns. \<forall>y \<in> L. ublk (ps ! i, ilog2 (ns ! i)) \<inter> ublk y = {})"
  by (rule uheap.alloc_all_disjoint) (use assms in blast)+

theorem mallocs_disjoint_witness:
  "\<exists>s' p q. alloc_all (user_alloc (\<lambda>_ _ _ _ _. 0)) first_heap [0x10000000, 0x10000000] = Some ([p, q], s') \<and> ublk (p, 28) \<inter> ublk (q, 28) = {}"
proof -
  have il: "ilog2 0x10000000 = 28" by (simp add: ilog2_def)
  have "\<exists>p q s'. alloc_all (user_alloc (\<lambda>_ _ _ _ _. 0)) first_heap [0x10000000, 0x10000000] = Some ([p, q], s')"
    by (simp add: user_alloc_def malloc_def il find_node.simps first_heap_def take_node_def split_node_def new_heap_node_def
      upd_node_def add_to_list_def page_anon_u_def page_u_def zero_node_def Let_def)
  then obtain p q s' where a: "alloc_all (user_alloc (\<lambda>_ _ _ _ _. 0)) first_heap [0x10000000, 0x10000000] = Some ([p, q], s')" by blast
  have "user_held first_heap {}" using first_heap_ok(2-4) unfolding user_held_def by auto
  moreover have "\<forall>n \<in> set [0x10000000, 0x10000000 :: u32]. n \<le> 0x20000000" by simp
  ultimately show ?thesis using mallocs_disjoint [OF _ _ a] a il by fastforce
qed

end
