(* ===== verification/C_Alloc.thy ===== *)
theory C_Alloc
  imports Kernel_Prelude
begin

text \<open>
  Memory for the components of the library that hold their blocks only through pointers of their own, so
  that the addresses do not matter. \<open>malloc\<close> is the list of its next outcomes in the state, after which it
  always succeeds, beside the number of blocks that have been allocated and not freed. A string is the list of
  its bytes before the terminator, and \<^const>\<open>None\<close> is a null pointer.
\<close>

record tmem =
  outcomes :: "bool list"
  live :: int

definition tmalloc :: "tmem \<Rightarrow> bool \<times> tmem" where
  "tmalloc st = (case outcomes st of
     [] \<Rightarrow> (True, st\<lparr>live := live st + 1\<rparr>)
   | b # bs \<Rightarrow> (b, st\<lparr>outcomes := bs, live := live st + (if b then 1 else 0)\<rparr>))"

definition tfree :: "tmem \<Rightarrow> tmem" where
  "tfree st = st\<lparr>live := live st - 1\<rparr>"

definition tfree_string :: "u8 list option \<Rightarrow> tmem \<Rightarrow> tmem" where
  "tfree_string p st = (if p = None then st else tfree st)"

definition strdup :: "tmem \<Rightarrow> u8 list option \<Rightarrow> (u8 list option \<times> tmem) option" where
  "strdup st p = (case p of None \<Rightarrow> None
   | Some s \<Rightarrow> (let (ok, st) = tmalloc st in Some (if ok then Some s else None, st)))"

lemma tmalloc_ok: "outcomes st = [] \<Longrightarrow> tmalloc st = (True, st\<lparr>live := live st + 1\<rparr>)"
  by (simp add: tmalloc_def)

lemma strdup_ok: "outcomes st = [] \<Longrightarrow> strdup st (Some s) = Some (Some s, st\<lparr>live := live st + 1\<rparr>)"
  by (simp add: strdup_def tmalloc_ok)

lemma tfree_simps [simp]: "outcomes (tfree st) = outcomes st" "live (tfree st) = live st - 1"
  by (simp_all add: tfree_def)

end
