(* ===== verification/C_Text.thy ===== *)
theory C_Text
  imports C_Alloc C_String
begin

text \<open>
  Strings as values: the functions of \<open>libc/string\<close> that return a string in a new block, for callers that only
  pass such strings on. A string is the list of its bytes before the terminator. \<open>strspn\<close> and \<open>strcspn\<close> appear in the form
  they have on such strings, with the equations that tie them to their definitions on memory.
\<close>

section \<open>Spans\<close>

fun span_len :: "(u8 \<Rightarrow> bool) \<Rightarrow> u8 list \<Rightarrow> nat option" where
  "span_len P [] = Some 0"
| "span_len P (c # cs) = (if c \<ge> 0x80 then None else if P c then map_option Suc (span_len P cs) else Some 0)"

definition strspn_v :: "u8 list \<Rightarrow> u8 list \<Rightarrow> nat option" where
  "strspn_v s accept = (if \<exists>c \<in> set accept. c \<ge> 0x80 then None else span_len (\<lambda>c. c \<in> set accept) s)"

definition strcspn_v :: "u8 list \<Rightarrow> u8 list \<Rightarrow> nat option" where
  "strcspn_v s reject = (if \<exists>c \<in> set reject. c \<ge> 0x80 then None else span_len (\<lambda>c. c \<notin> set reject) s)"

section \<open>Functions that allocate their result\<close>

text \<open>The token and the string behind it, which is what is stored through \<open>save\<close>.\<close>

definition struntil :: "tmem \<Rightarrow> u8 list \<Rightarrow> u8 list \<Rightarrow> (u8 list \<times> u8 list \<times> tmem) option" where
  "struntil st str reject = do {
     n \<leftarrow> strcspn_v str reject;
     let (ok, st) = tmalloc st;
     if \<not> ok then None else Some (take n str, drop n str, st)
   }"

definition strwhile :: "tmem \<Rightarrow> u8 list \<Rightarrow> u8 list \<Rightarrow> (u8 list \<times> u8 list \<times> tmem) option" where
  "strwhile st str accept = do {
     n \<leftarrow> strspn_v str accept;
     let (ok, st) = tmalloc st;
     if \<not> ok then None else Some (take n str, drop n str, st)
   }"

text \<open>The arguments end with a null pointer; at most sixteen are read.\<close>

definition strvcat :: "tmem \<Rightarrow> u8 list option list \<Rightarrow> u8 list option \<times> tmem" where
  "strvcat st args = (
     let argv = takeWhile (\<lambda>a. a \<noteq> None) (take 16 args);
         (ok, st) = tmalloc st
     in (if ok then Some (concat (map the argv)) else None, st))"

text \<open>
  The list of tokens is written into a block of \<open>argc + 1\<close> pointers: a token may be written while there
  is room for it and for the null pointer that ends the list.
\<close>

partial_function (option) strparse_loop :: "tmem \<Rightarrow> u8 list \<Rightarrow> u8 list \<Rightarrow> nat \<Rightarrow> nat \<Rightarrow> (u8 list list \<times> tmem) option" where
  "strparse_loop st str delim argc i = (
     if i > argc then None
     else if str = [] then Some ([], st)
     else do {
       (tok, str, st) \<leftarrow> struntil st str delim;
       n \<leftarrow> strspn_v str delim;
       (toks, st) \<leftarrow> strparse_loop st (drop n str) delim argc (i + 1);
       Some (tok # toks, st)
     })"

definition strparse :: "tmem \<Rightarrow> u8 list \<Rightarrow> u8 list \<Rightarrow> (u8 list list \<times> tmem) option" where
  "strparse st str delim = do {
     let argc = 1 + length (filter (\<lambda>c. c \<in> set delim) str);
     let (ok, st) = tmalloc st;
     if \<not> ok then None else strparse_loop st str delim argc 0
   }"

section \<open>The spans on memory\<close>

lemma span_len_low: "\<forall>c \<in> set s. c < 0x80 \<Longrightarrow> span_len P s = Some (length (takeWhile P s))"
  by (induction s) auto

lemma strspn_v_memory:
  assumes "cstr m s xs" and "cstr m cs ys" and "\<forall>c \<in> set xs. c < 0x80"
  shows "strspn m s cs = map_option of_nat (strspn_v xs ys)" and "strcspn m s cs = map_option of_nat (strcspn_v xs ys)"
proof -
  have "strspn m s cs = map_option of_nat (strspn_v xs ys) \<and> strcspn m s cs = map_option of_nat (strcspn_v xs ys)"
  proof (cases "\<exists>c \<in> set ys. c \<ge> 0x80")
    case True
    then have "mask_loop m cs (\<lambda>_. 0) 0 = None" using mask_loop_high [of m cs 0 ys] assms(2) by auto
    then show ?thesis using True by (simp add: strspn_v_def strcspn_v_def strspn_def strcspn_def)
  next
    case False
    obtain tbl where t: "mask_loop m cs (\<lambda>_. 0) 0 = Some tbl" "\<forall>c. tbl_mem tbl c \<longleftrightarrow> c \<in> set ys"
      using mask_loop_ok [of m cs 0 ys "\<lambda>_. 0"] assms(2) False by (auto simp: tbl_mem_def not_le)
    then have "tbl_mem tbl = (\<lambda>c. c \<in> set ys)" by auto
    then show ?thesis using False t(1) span_loops [of m s 0 xs tbl] assms(1,3)
      by (simp add: strspn_def strcspn_def strspn_v_def strcspn_v_def span_len_low not_le)
  qed
  then show "strspn m s cs = map_option of_nat (strspn_v xs ys)" "strcspn m s cs = map_option of_nat (strcspn_v xs ys)" by blast+
qed

section \<open>Tokens\<close>

text \<open>The tokens of a string: maximal runs without a delimiter, and an empty one where the string starts with a delimiter.\<close>

function tokens :: "u8 list \<Rightarrow> u8 list \<Rightarrow> u8 list list" where
  "tokens delim str = (if str = [] then []
     else takeWhile (\<lambda>c. c \<notin> set delim) str #
       tokens delim (dropWhile (\<lambda>c. c \<in> set delim) (dropWhile (\<lambda>c. c \<notin> set delim) str)))"
  by pat_completeness auto
termination
proof (relation "measure (\<lambda>(d, s). length s)")
  fix delim str :: "u8 list" assume "str \<noteq> []"
  then obtain c cs where s: "str = c # cs" by (cases str) auto
  have "length (dropWhile (\<lambda>c. c \<in> set delim) (dropWhile (\<lambda>c. c \<notin> set delim) str)) < length str"
    unfolding s by (cases "c \<in> set delim") (auto intro: order_trans [OF length_dropWhile_le length_dropWhile_le] length_dropWhile_le simp: less_Suc_eq_le)
  then show "((delim, dropWhile (\<lambda>c. c \<in> set delim) (dropWhile (\<lambda>c. c \<notin> set delim) str)), delim, str) \<in> measure (\<lambda>(d, s). length s)" by simp
qed simp

declare tokens.simps [simp del]

lemma struntil_ok:
  assumes "outcomes st = []" and "\<forall>c \<in> set s. c < 0x80" and "\<forall>c \<in> set d. c < 0x80"
  shows "struntil st s d = Some (takeWhile (\<lambda>c. c \<notin> set d) s, dropWhile (\<lambda>c. c \<notin> set d) s, st\<lparr>live := live st + 1\<rparr>)"
  using assms by (auto simp: struntil_def strcspn_v_def span_len_low tmalloc_ok takeWhile_eq_take [symmetric] dropWhile_eq_drop [symmetric] not_le)

lemma strparse_loop_ok:
  assumes "\<forall>c \<in> set s. c < 0x80" and "\<forall>c \<in> set d. c < 0x80" and "outcomes st = []"
    and "i + length (filter (\<lambda>c. c \<in> set d) s) < argc"
  shows "\<exists>st'. strparse_loop st s d argc i = Some (tokens d s, st') \<and> outcomes st' = [] \<and> live st' = live st + int (length (tokens d s))"
  using assms
proof (induction d s arbitrary: st i rule: tokens.induct)
  case (1 d s)
  show ?case
  proof (cases "s = []")
    case True
    then show ?thesis using 1(4,5) by (simp add: strparse_loop.simps tokens.simps)
  next
    case False
    let ?r = "dropWhile (\<lambda>c. c \<notin> set d) s"
    let ?r' = "dropWhile (\<lambda>c. c \<in> set d) ?r"
    let ?st = "st\<lparr>live := live st + 1\<rparr>"
    have low: "\<forall>c \<in> set ?r. c < 0x80" "\<forall>c \<in> set ?r'. c < 0x80" using 1(2) by (auto dest!: set_dropWhileD)
    have n: "strspn_v ?r d = Some (length (takeWhile (\<lambda>c. c \<in> set d) ?r))" using 1(3) low(1) by (auto simp: strspn_v_def span_len_low not_le)
    have step: "strparse_loop st s d argc i = (if i > argc then None else do {
        (toks, st) \<leftarrow> strparse_loop ?st ?r' d argc (i + 1); Some (takeWhile (\<lambda>c. c \<notin> set d) s # toks, st) })"
      using False n struntil_ok [OF 1(4,2,3)]
      by (subst strparse_loop.simps) (simp add: dropWhile_eq_drop [of "\<lambda>c. c \<in> set d" ?r, symmetric])
    show ?thesis
    proof (cases "?r = []")
      case True
      have e: "tokens d ?r' = []" "strparse_loop ?st ?r' d argc (i + 1) = Some ([], ?st)"
        using 1(5) unfolding True by (simp_all add: tokens.simps strparse_loop.simps)
      show ?thesis using 1(4,5) False unfolding step tokens.simps [of d s] e by simp
    next
      case r: False
      then obtain c cs where c: "?r = c # cs" "c \<in> set d" 
        using hd_dropWhile [OF r] by (metis list.collapse)
      have "filter (\<lambda>c. c \<in> set d) s = filter (\<lambda>c. c \<in> set d) ?r"
        using takeWhile_dropWhile_id [of "\<lambda>c. c \<notin> set d" s] by (metis (no_types, lifting) append_Nil filter_False filter_append set_takeWhileD)
      moreover have "length (filter (\<lambda>c. c \<in> set d) ?r') < length (filter (\<lambda>c. c \<in> set d) ?r)"
      proof -
        have "?r' = dropWhile (\<lambda>c. c \<in> set d) cs" using c by simp
        moreover have "length (filter P (dropWhile Q xs)) \<le> length (filter P xs)" for P Q and xs :: "u8 list" by (induction xs) auto
        ultimately show ?thesis using c by (simp add: less_Suc_eq_le)
      qed
      ultimately have "i + 1 + length (filter (\<lambda>c. c \<in> set d) ?r') < argc" using 1(5) by simp
      then obtain st' where "strparse_loop ?st ?r' d argc (i + 1) = Some (tokens d ?r', st')" "outcomes st' = []"
        "live st' = live ?st + int (length (tokens d ?r'))" using 1(1) [OF False low(2) 1(3), of ?st "i + 1"] 1(4) by auto
      then show ?thesis using step 1(5) False by (simp add: tokens.simps [of d s])
    qed
  qed
qed

text \<open>
  \<open>strparse\<close> splits a string: for strings of 7-bit characters it returns the tokens between the
  delimiters, without writing past the list it allocated for them, and holds one block for the list
  and one for every token.\<close>

theorem strparse_tokens:
  assumes "\<forall>c \<in> set s \<union> set d. c < 0x80" and "outcomes st = []"
  shows "\<exists>st'. strparse st s d = Some (tokens d s, st') \<and> live st' = live st + 1 + int (length (tokens d s)) \<and> outcomes st' = []"
  using strparse_loop_ok [of s d "st\<lparr>live := live st + 1\<rparr>" 0 "1 + length (filter (\<lambda>c. c \<in> set d) s)"] assms
  by (auto simp: strparse_def tmalloc_ok)

theorem strparse_tokens_witness:
  "\<exists>st'. strparse \<lparr>outcomes = [], live = 0\<rparr> [111, 112, 32, 32, 49] [32] = Some ([[111, 112], [49]], st') \<and> live st' = 3 \<and> outcomes st' = []"
  using strparse_tokens [of "[111, 112, 32, 32, 49]" "[32]" "\<lparr>outcomes = [], live = 0\<rparr>"] by (simp add: tokens.simps)

end
