(* ===== verification/Paths.thy ===== *)
theory Paths
  imports C_Text
begin

text \<open>
  Paths, \<open>libc/path\<close>: the iterator over the names of a path, the name and the parent of a file, and
  the normal form of a path without \<open>.\<close> and \<open>..\<close>. A pointer into the string of a path is an offset. The
  environment variable \<open>PWD\<close> is an argument.
\<close>

section \<open>The iterator\<close>

record path =
  p_str :: "u8 list option"
  p_pos :: "nat option"

definition path_cons :: "tmem \<Rightarrow> u8 list option \<Rightarrow> path option \<times> tmem" where
  "path_cons st s = (let (ok, st) = tmalloc st in
     (if ok then Some \<lparr>p_str = s, p_pos = map_option (\<lambda>_. 0) s\<rparr> else None, st))"

text \<open>The position behind the separators at a position.\<close>

definition skip_seps :: "u8 list \<Rightarrow> nat \<Rightarrow> nat" where
  "skip_seps s pos = pos + length (takeWhile (\<lambda>c. c = 47) (drop pos s))"

definition path_next :: "tmem \<Rightarrow> path option \<Rightarrow> (u8 list option \<times> path option \<times> tmem) option" where
  "path_next st path = (case path of None \<Rightarrow> Some (None, path, st) | Some p \<Rightarrow>
     (case (p_str p, p_pos p) of
       (Some s, Some pos) \<Rightarrow> do {
         let pos = skip_seps s pos;
         let rest = drop pos s;
         if rest = [] then Some (None, Some (p\<lparr>p_pos := Some pos\<rparr>), st)
         else do {
           (d, st) \<leftarrow> strdup st (Some rest);
           d \<leftarrow> d;
           let token = takeWhile (\<lambda>c. c \<noteq> 47) d;
           let pos = (if 47 \<in> set rest then pos + length (takeWhile (\<lambda>c. c \<noteq> 47) rest) else length s);
           Some (Some token, Some (p\<lparr>p_pos := Some pos\<rparr>), st)
         }
       }
     | _ \<Rightarrow> Some (None, path, st)))"

definition path_peek :: "tmem \<Rightarrow> path option \<Rightarrow> (u8 list option \<times> path \<times> tmem) option" where
  "path_peek st path = do {
     p \<leftarrow> path;
     case (p_str p, p_pos p) of
       (Some s, Some pos) \<Rightarrow> do {
         let pos = skip_seps s pos;
         let p = p\<lparr>p_pos := Some pos\<rparr>;
         if drop pos s = [] then Some (None, p, st)
         else do {
           (d, st) \<leftarrow> strdup st (Some (drop pos s));
           d \<leftarrow> d;
           Some (Some (takeWhile (\<lambda>c. c \<noteq> 47) d), p, st)
         }
       }
     | _ \<Rightarrow> Some (None, p, st)
   }"

definition byte_at :: "u8 list \<Rightarrow> nat \<Rightarrow> u8" where
  "byte_at s i = (if i < length s then s ! i else 0)"

primrec back_over_seps :: "u8 list \<Rightarrow> nat \<Rightarrow> nat" where
  "back_over_seps s 0 = 0"
| "back_over_seps s (Suc i) =
     (if byte_at s (Suc i) \<noteq> 47 \<and> byte_at s (Suc i) \<noteq> 0 then Suc i else back_over_seps s i)"

primrec back_to_sep :: "u8 list \<Rightarrow> nat \<Rightarrow> nat" where
  "back_to_sep s 0 = 0"
| "back_to_sep s (Suc i) = (if byte_at s (Suc i) = 47 then Suc i else back_to_sep s i)"

definition path_prev :: "path \<Rightarrow> int \<times> path" where
  "path_prev p = (case (p_str p, p_pos p) of
     (Some s, Some pos) \<Rightarrow>
       let pos = back_to_sep s (back_over_seps s pos)
       in (if byte_at s pos = 47 then 0 else 1, p\<lparr>p_pos := Some pos\<rparr>)
   | _ \<Rightarrow> (1, p))"

definition path_tail :: "path \<Rightarrow> u8 list option" where
  "path_tail p = (case (p_str p, p_pos p) of (Some s, Some pos) \<Rightarrow> Some (drop pos s) | _ \<Rightarrow> None)"

section \<open>Name and parent\<close>

text \<open>The offset of the last separator, \<open>strrchr\<close> on a string as a value.\<close>

definition last_sep :: "u8 list \<Rightarrow> nat option" where
  "last_sep s = (if 47 \<in> set s then Some (length s - Suc (length (takeWhile (\<lambda>c. c \<noteq> 47) (rev s)))) else None)"

definition path_name :: "tmem \<Rightarrow> u8 list \<Rightarrow> (u8 list option \<times> tmem) option" where
  "path_name st path = (case last_sep path of
     None \<Rightarrow> strdup st (Some path)
   | Some i \<Rightarrow> strdup st (Some (drop (i + 1) path)))"

definition path_parent :: "tmem \<Rightarrow> u8 list \<Rightarrow> (u8 list option \<times> tmem) option" where
  "path_parent st path = (case last_sep path of
     None \<Rightarrow> strdup st (Some [])
   | Some i \<Rightarrow> (let (ok, st) = tmalloc st in Some (if ok then Some (take i path) else None, st)))"

section \<open>The normal form\<close>

text \<open>
  The loop over the names with the stack of those that are kept; \<^const>\<open>None\<close> as the stack is the return of a
  null pointer from the middle of the function.
\<close>

partial_function (option) simplify_loop ::
  "tmem \<Rightarrow> path option \<Rightarrow> u8 list list \<Rightarrow> (u8 list list option \<times> tmem) option" where
  "simplify_loop st path stack = do {
     (name, path, st) \<leftarrow> path_next st path;
     case name of
       None \<Rightarrow> Some (Some stack, st)
     | Some n \<Rightarrow>
         if n = [46] then simplify_loop st path stack
         else if n = [46, 46] then
           (case stack of
             [] \<Rightarrow> Some (None, st)
           | _ # stack \<Rightarrow> simplify_loop (tfree (tfree (tfree st))) path stack)
         else (let (ok, st) = tmalloc st in if \<not> ok then None else simplify_loop st path (n # stack))
   }"

primrec move_stack :: "u8 list list \<Rightarrow> u8 list list \<Rightarrow> u8 list list" where
  "move_stack [] stack1 = stack1"
| "move_stack (n # stack) stack1 = move_stack stack (n # stack1)"

text \<open>
  One name is appended. The new block has \<open>strlen(path1) + strlen(name) + 2\<close> bytes; a longer string does not
  fit. The name itself is not freed.
\<close>

definition append_name :: "u8 list option \<Rightarrow> u8 list \<Rightarrow> u8 list option \<times> tmem \<Rightarrow> (u8 list option \<times> tmem) option" where
  "append_name path1 name = (\<lambda>(path2, st). do {
     p1 \<leftarrow> path1;
     p2 \<leftarrow> path2;
     let (ok, st) = tmalloc st;
     if \<not> ok \<or> length (p2 @ 47 # name) + 1 > length p1 + length name + 2 then None
     else Some (Some (p2 @ 47 # name), tfree (tfree st))
   })"

partial_function (option) path_simplify :: "u8 list option \<Rightarrow> tmem \<Rightarrow> u8 list \<Rightarrow> (u8 list option \<times> tmem) option" where
  "path_simplify pwd st path = do {
     (path3, st) \<leftarrow> strdup st (Some []);
     if byte_at path 0 = 47 \<or> byte_at path 0 = 64 then do {
       (path3, path1, st) \<leftarrow>
         (if byte_at path 0 = 47 then do { (path1, st) \<leftarrow> strdup st (Some path); Some (path3, path1, st) }
          else do {
            let st = tfree_string path3 st;
            (host, rest, st) \<leftarrow> struntil st path [47];
            (path1, st) \<leftarrow> strdup st (Some rest);
            Some (Some host, path1, st)
          });
       let (path_struct, st) = path_cons st path1;
       (stack, st) \<leftarrow> simplify_loop st path_struct [];
       case stack of
         None \<Rightarrow> Some (None, st)
       | Some stack \<Rightarrow> do {
           let stack1 = move_stack stack [];
           (path2, st) \<leftarrow> strdup st (Some (if stack1 \<noteq> [] then [] else [47]));
           (path2, st) \<leftarrow> for_list (append_name path1) stack1 (path2, st);
           let st = tfree_string path1 st;
           let st = (if path_struct = None then st else tfree st);
           let (r, st) = strvcat st [path3, path2, None];
           Some (r, tfree_string path2 (tfree_string path3 st))
         }
     }
     else do {
       let (path1, st) = strvcat st [pwd, Some [47], Some path, None];
       p1 \<leftarrow> path1;
       (path2, st) \<leftarrow> path_simplify pwd st p1;
       Some (path2, tfree st)
     }
   }"

section \<open>The names of a path\<close>

function comps :: "u8 list \<Rightarrow> u8 list list" where
  "comps s = (let r = dropWhile (\<lambda>c. c = 47) s in
     if r = [] then [] else takeWhile (\<lambda>c. c \<noteq> 47) r # comps (dropWhile (\<lambda>c. c \<noteq> 47) r))"
  by pat_completeness auto
termination
proof (relation "measure length")
  fix s r :: "u8 list" assume r: "r = dropWhile (\<lambda>c. c = 47) s" "r \<noteq> []"
  then have "hd r \<noteq> 47" using hd_dropWhile [of "\<lambda>c. c = 47" s] by auto
  then have "length (dropWhile (\<lambda>c. c \<noteq> 47) r) < length r"
    using r(2) by (cases r) (auto simp: less_Suc_eq_le length_dropWhile_le)
  also have "\<dots> \<le> length s" unfolding r(1) by (rule length_dropWhile_le)
  finally show "(dropWhile (\<lambda>c. c \<noteq> 47) r, s) \<in> measure length" by simp
qed simp

declare comps.simps [simp del]

lemma comps_Nil: "dropWhile (\<lambda>c. c = 47) s = [] \<Longrightarrow> comps s = []"
  by (subst comps.simps) (simp only: Let_def if_True refl)

lemma comps_Cons:
  "dropWhile (\<lambda>c. c = 47) s = r \<Longrightarrow> r \<noteq> [] \<Longrightarrow> comps s = takeWhile (\<lambda>c. c \<noteq> 47) r # comps (dropWhile (\<lambda>c. c \<noteq> 47) r)"
  by (subst comps.simps) (simp only: Let_def if_False refl)

lemma comps_empty [simp]: "comps [] = []"
  by (rule comps_Nil) simp

text \<open>The names that remain, innermost first, or \<^const>\<open>None\<close> when the path leaves the root.\<close>

primrec norm :: "u8 list list \<Rightarrow> u8 list list \<Rightarrow> u8 list list option" where
  "norm stack [] = Some stack"
| "norm stack (c # cs) = (
     if c = [46] then norm stack cs
     else if c = [46, 46] then (case stack of [] \<Rightarrow> None | _ # stack \<Rightarrow> norm stack cs)
     else norm (c # stack) cs)"

definition render :: "u8 list list \<Rightarrow> u8 list" where
  "render cs = (if cs = [] then [47] else concat (map ((#) 47) cs))"

lemma comps_names: "c \<in> set (comps s) \<Longrightarrow> c \<noteq> [] \<and> 47 \<notin> set c"
proof (induction s rule: comps.induct)
  case (1 s)
  let ?r = "dropWhile (\<lambda>c. c = 47) s"
  show ?case
  proof (cases "?r = []")
    case False
    then have "hd ?r \<noteq> 47" using hd_dropWhile [of "\<lambda>c. c = 47" s] by auto
    then have "takeWhile (\<lambda>c. c \<noteq> 47) ?r \<noteq> []" using False by (cases ?r) auto
    moreover have "47 \<notin> set (takeWhile (\<lambda>c. c \<noteq> 47) ?r)" by (auto dest: set_takeWhileD)
    ultimately show ?thesis using 1(1) [OF refl False] 1(2) unfolding comps_Cons [OF refl False] by auto
  qed (use 1(2) comps_Nil in auto)
qed

lemma comps_length: "length (concat (map ((#) 47) (comps (47 # s)))) \<le> Suc (length s)"
proof (induction "length s" arbitrary: s rule: less_induct)
  case less
  let ?r = "dropWhile (\<lambda>c. c = 47) s"
  have e: "dropWhile (\<lambda>c. c = 47) (47 # s) = ?r" by simp
  have len: "length ?r \<le> length s" by (rule length_dropWhile_le)
  have split: "length (takeWhile (\<lambda>c. c \<noteq> 47) ?r) + length (dropWhile (\<lambda>c. c \<noteq> 47) ?r) = length ?r"
    by (metis length_append takeWhile_dropWhile_id)
  show ?case
  proof (cases "?r = []")
    case True
    then show ?thesis using comps_Nil [OF trans [OF e True]] by simp
  next
    case False
    note u = comps_Cons [OF e False]
    show ?thesis
    proof (cases "dropWhile (\<lambda>c. c \<noteq> 47) ?r")
      case Nil
      then show ?thesis using len split unfolding u Nil by simp
    next
      case (Cons x xs)
      then have x: "x = 47" using hd_dropWhile [of "\<lambda>c. c \<noteq> 47" ?r] by auto
      have "length xs < length s" using split len unfolding Cons by simp
      then have "length (concat (map ((#) 47) (comps (47 # xs)))) \<le> Suc (length xs)" using less [of xs] by simp
      then show ?thesis using len split unfolding u Cons x by simp
    qed
  qed
qed

lemma comps_render: "\<forall>c \<in> set cs. c \<noteq> [] \<and> 47 \<notin> set c \<Longrightarrow> comps (concat (map ((#) 47) cs)) = cs"
proof (induction cs)
  case (Cons c cs)
  let ?rest = "concat (map ((#) 47) cs)"
  obtain x xs where c: "c = x # xs" "x \<noteq> 47" using Cons.prems by (cases c) auto
  have d: "dropWhile (\<lambda>c. c = 47) (47 # c @ ?rest) = c @ ?rest" using c by simp
  have r: "?rest = [] \<or> hd ?rest = 47" by (cases cs) auto
  have n: "\<forall>x \<in> set c. x \<noteq> 47" using Cons.prems by auto
  then have "takeWhile (\<lambda>c. c \<noteq> 47) (c @ ?rest) = c" "dropWhile (\<lambda>c. c \<noteq> 47) (c @ ?rest) = ?rest"
    using r by (cases ?rest; simp add: takeWhile_append2 dropWhile_append2)+
  then show ?case using Cons c comps_Cons [OF d] by simp
qed simp

end
