(* ===== verification/Paths_Rep.thy ===== *)
theory Paths_Rep
  imports Paths
begin

text \<open>
  The proofs about \<open>Paths\<close>: the iterator yields the names of a path in order, \<open>path_simplify\<close> computes the normal form,
  and the name and the parent of a path make it up.
\<close>

section \<open>The iterator yields the names\<close>

definition at :: "u8 list \<Rightarrow> nat \<Rightarrow> path option" where
  "at s pos = Some \<lparr>p_str = Some s, p_pos = Some pos\<rparr>"

lemma path_next_ok:
  assumes "outcomes st = []" and "pos \<le> length s"
  shows "comps (drop pos s) = [] \<Longrightarrow> \<exists>p. path_next st (at s pos) = Some (None, p, st)"
    and "comps (drop pos s) = n # ns \<Longrightarrow> \<exists>pos'. path_next st (at s pos) = Some (Some n, at s pos', st\<lparr>live := live st + 1\<rparr>) \<and>
      pos' \<le> length s \<and> pos < pos' \<and> comps (drop pos' s) = ns"
proof -
  let ?r = "dropWhile (\<lambda>c. c = 47) (drop pos s)"
  have r: "drop (skip_seps s pos) s = ?r" by (simp add: skip_seps_def dropWhile_eq_drop add.commute)
  show "\<exists>p. path_next st (at s pos) = Some (None, p, st)" if "comps (drop pos s) = []"
  proof -
    have "?r = []" using that comps_Cons [OF refl, of "drop pos s"] by (metis list.distinct(1))
    from trans [OF r this] have "drop (skip_seps s pos) s = []" .
    then show ?thesis by (simp add: path_next_def at_def Let_def)
  qed
  show "\<exists>pos'. path_next st (at s pos) = Some (Some n, at s pos', st\<lparr>live := live st + 1\<rparr>) \<and>
      pos' \<le> length s \<and> pos < pos' \<and> comps (drop pos' s) = ns" if c: "comps (drop pos s) = n # ns"
  proof -
    have ne: "?r \<noteq> []" using c comps_Nil [of "drop pos s"] by auto
    have n: "n = takeWhile (\<lambda>c. c \<noteq> 47) ?r" "ns = comps (dropWhile (\<lambda>c. c \<noteq> 47) ?r)" using c comps_Cons [OF refl ne] by auto
    let ?p = "skip_seps s pos"
    have lt: "?p < length s" using ne r by (metis drop_all linorder_not_less)
    let ?q = "if 47 \<in> set ?r then ?p + length n else length s"
    have whole: "length n = length ?r" if "47 \<notin> set ?r"
    proof -
      have "takeWhile (\<lambda>c. c \<noteq> 47) ?r = ?r" unfolding takeWhile_eq_all_conv using that by auto
      then show ?thesis unfolding n(1) by (rule arg_cong)
    qed
    have q: "?q = ?p + length n"
    proof (cases "47 \<in> set ?r")
      case False
      have "length ?r = length s - ?p" using r by (metis length_drop)
      then show ?thesis using whole [OF False] False lt by simp
    qed simp
    have "drop (?p + length n) s = drop (length n) ?r" unfolding r [symmetric] by (simp add: add.commute)
    also have "\<dots> = dropWhile (\<lambda>c. c \<noteq> 47) ?r" unfolding n(1) by (rule dropWhile_eq_drop [symmetric])
    finally have d: "comps (drop ?q s) = ns" unfolding q n(2) by (rule arg_cong)
    have "length n \<le> length ?r" unfolding n(1) by (rule length_takeWhile_le)
    moreover have "length ?r = length s - ?p" using r by (metis length_drop)
    ultimately have "?p + length n \<le> length s" using lt by linarith
    moreover have "n \<noteq> []" using comps_names [of n "drop pos s"] c by auto
    moreover have "pos \<le> ?p" by (simp add: skip_seps_def)
    ultimately have b: "?q \<le> length s" "pos < ?q" unfolding q by (auto intro: le_less_trans)
    have "path_next st (at s pos) = Some (Some n, at s ?q, st\<lparr>live := live st + 1\<rparr>)"
      using ne lt assms(1) n(1) by (simp add: path_next_def at_def Let_def r strdup_ok del: dropWhile_eq_Nil_conv)
    then show ?thesis using b d by blast
  qed
qed

section \<open>The loop\<close>

definition dots :: "u8 list list \<Rightarrow> nat" where
  "dots cs = length (filter (\<lambda>c. c = [46]) cs)"

lemma simplify_loop_ok:
  assumes "outcomes st = []" and "pos \<le> length s"
  shows "\<exists>st'. simplify_loop st (at s pos) stack = Some (norm stack (comps (drop pos s)), st') \<and> outcomes st' = [] \<and>
    (\<forall>stack'. norm stack (comps (drop pos s)) = Some stack' \<longrightarrow>
      live st' = live st + 2 * (int (length stack') - int (length stack)) + int (dots (comps (drop pos s))))"
  using assms
proof (induction "length s - pos" arbitrary: st pos stack rule: less_induct)
  case less
  show ?case
  proof (cases "comps (drop pos s)")
    case Nil
    then show ?thesis using path_next_ok(1) [OF less.prems Nil] less.prems(1)
      by (subst simplify_loop.simps) (auto simp: dots_def)
  next
    case (Cons n ns)
    let ?st = "st\<lparr>live := live st + 1\<rparr>"
    obtain pos' where p: "path_next st (at s pos) = Some (Some n, at s pos', ?st)" "pos' \<le> length s" "pos < pos'"
      "comps (drop pos' s) = ns" using path_next_ok(2) [OF less.prems Cons] by blast
    note IH = less.hyps [OF _ _ p(2), unfolded p(4)]
    have m: "length s - pos' < length s - pos" using p(2,3) by linarith
    consider "n = [46]" | "n = [46, 46]" "stack = []" | x stack' where "n = [46, 46]" "stack = x # stack'" | "n \<noteq> [46]" "n \<noteq> [46, 46]"
      by (cases stack) auto
    then show ?thesis
    proof cases
      case 1
      then have "simplify_loop st (at s pos) stack = simplify_loop ?st (at s pos') stack" using p(1) by (subst simplify_loop.simps) simp
      then show ?thesis using IH [OF m, of ?st stack] less.prems(1) 1 Cons by (auto simp: dots_def)
    next
      case 2
      then show ?thesis using p(1) Cons less.prems(1) by (subst simplify_loop.simps) simp
    next
      case 3
      let ?st3 = "tfree (tfree (tfree ?st))"
      have "simplify_loop st (at s pos) stack = simplify_loop ?st3 (at s pos') stack'" using 3 p(1) by (subst simplify_loop.simps) simp
      then show ?thesis using IH [OF m, of ?st3 stack'] less.prems(1) 3 Cons by (auto simp: dots_def)
    next
      case 4
      let ?st2 = "st\<lparr>live := live st + 2\<rparr>"
      have "simplify_loop st (at s pos) stack = simplify_loop ?st2 (at s pos') (n # stack)"
        using 4 p(1) less.prems(1) by (subst simplify_loop.simps) (simp add: tmalloc_ok add.commute)
      then show ?thesis using IH [OF m, of ?st2 "n # stack"] less.prems(1) 4 Cons by (auto simp: dots_def)
    qed
  qed
qed

lemma move_stack_rev: "move_stack stack ys = rev stack @ ys"
  by (induction stack arbitrary: ys) auto

lemma norm_length:
  "norm stack cs = Some stack' \<Longrightarrow>
    length (concat (map ((#) 47) stack')) \<le> length (concat (map ((#) 47) stack)) + length (concat (map ((#) 47) cs))"
proof (induction cs arbitrary: stack)
  case (Cons c cs)
  then show ?case by (fastforce split: if_splits list.splits)
qed simp

lemma norm_names:
  "norm stack cs = Some stack' \<Longrightarrow> set stack' \<subseteq> set stack \<union> (set cs - {[46], [46, 46]})"
proof (induction cs arbitrary: stack)
  case (Cons c cs)
  then show ?case by (fastforce split: if_splits list.splits)
qed simp

lemma norm_clean: "[46] \<notin> set cs \<Longrightarrow> [46, 46] \<notin> set cs \<Longrightarrow> norm stack cs = Some (rev cs @ stack)"
  by (induction cs arbitrary: stack) auto

lemma append_names_ok:
  assumes "length (p2 @ concat (map ((#) 47) ns)) \<le> length p1" and "outcomes st = []"
  shows "\<exists>st'. for_list (append_name (Some p1)) ns (Some p2, st) = Some (Some (p2 @ concat (map ((#) 47) ns)), st') \<and>
    outcomes st' = [] \<and> live st' = live st - int (length ns)"
  using assms
proof (induction ns arbitrary: p2 st)
  case (Cons n ns)
  have "append_name (Some p1) n (Some p2, st) = Some (Some (p2 @ 47 # n), st\<lparr>live := live st - 1\<rparr>)"
    using Cons.prems by (simp add: append_name_def tmalloc_ok tfree_def)
  then show ?case using Cons.IH [of "p2 @ 47 # n" "st\<lparr>live := live st - 1\<rparr>"] Cons.prems by auto
qed simp

lemma path_simplify_abs:
  assumes "outcomes st = []" and "norm [] (comps (47 # s)) = Some stack"
  shows "\<exists>st'. path_simplify pwd st (47 # s) = Some (Some (render (rev stack)), st') \<and>
    live st' = live st + 1 + int (length stack) + int (dots (comps (47 # s)))"
proof -
  let ?p = "47 # s"
  obtain st1 where 1: "simplify_loop (st\<lparr>live := live st + 3\<rparr>) (at ?p 0) [] = Some (Some stack, st1)" "outcomes st1 = []"
    "live st1 = live st + 3 + 2 * int (length stack) + int (dots (comps ?p))"
    using simplify_loop_ok [of "st\<lparr>live := live st + 3\<rparr>" 0 ?p "[]"] assms by auto
  let ?ns = "rev stack" and ?b = "if rev stack \<noteq> [] then [] else [47 :: u8]"
  have "length (concat (map ((#) 47) stack)) \<le> length (concat (map ((#) 47) (comps ?p)))"
    using norm_length [OF assms(2)] by simp
  also have "\<dots> \<le> length ?p" using comps_length [of s] by simp
  finally have len: "length (?b @ concat (map ((#) 47) ?ns)) \<le> length ?p"
    by (cases "stack = []") (simp_all add: length_concat rev_map [symmetric])
  have rn: "?b @ concat (map ((#) 47) ?ns) = render ?ns" by (simp add: render_def)
  obtain st2 where 2: "for_list (append_name (Some ?p)) ?ns (Some ?b, st1\<lparr>live := live st1 + 1\<rparr>) = Some (Some (render ?ns), st2)" "outcomes st2 = []"
    "live st2 = live st1 + 1 - int (length stack)"
    using append_names_ok [OF len, of "st1\<lparr>live := live st1 + 1\<rparr>", unfolded rn] 1(2) by auto
  have "path_cons (st\<lparr>live := live st + 2\<rparr>) (Some ?p) = (at ?p 0, st\<lparr>live := live st + 3\<rparr>)"
    using assms(1) by (simp add: path_cons_def tmalloc_ok at_def)
  then show ?thesis using 1 2 assms(1)
    by (subst path_simplify.simps)
      (simp add: byte_at_def strdup_ok move_stack_rev strvcat_def tmalloc_ok tfree_string_def at_def Let_def add.commute)
qed

text \<open>
  C19. The normal form of an absolute path: \<open>path_simplify\<close> drops the empty names and \<open>.\<close>, lets \<open>..\<close> remove the name
  before it, and returns the names that remain in order, or a null pointer when \<open>..\<close> leaves the root;
  its result fits the blocks it is built in and is its own normal form; and the call leaves behind one
  block for every \<open>.\<close> and for every name of the result, besides the result.\<close>

theorem path_simplify_norm:
  assumes "outcomes st = []"
  shows "case norm [] (comps (47 # s)) of
      None \<Rightarrow> \<exists>st'. path_simplify pwd st (47 # s) = Some (None, st')
    | Some stack \<Rightarrow> \<exists>st' st''. path_simplify pwd st (47 # s) = Some (Some (render (rev stack)), st') \<and>
        live st' = live st + 1 + int (length stack) + int (dots (comps (47 # s))) \<and>
        path_simplify pwd st (render (rev stack)) = Some (Some (render (rev stack)), st'')"
proof (cases "norm [] (comps (47 # s))")
  case None
  obtain st1 where "simplify_loop (st\<lparr>live := live st + 3\<rparr>) (at (47 # s) 0) [] = Some (None, st1)"
    using simplify_loop_ok [of "st\<lparr>live := live st + 3\<rparr>" 0 "47 # s" "[]"] assms None by auto
  moreover have "path_cons (st\<lparr>live := live st + 2\<rparr>) (Some (47 # s)) = (at (47 # s) 0, st\<lparr>live := live st + 3\<rparr>)"
    using assms by (simp add: path_cons_def tmalloc_ok at_def)
  ultimately show ?thesis using assms None 
    by (subst path_simplify.simps) (simp add: byte_at_def strdup_ok Let_def add.commute)
next
  case (Some stack)
  let ?q = "concat (map ((#) 47) (rev stack))"
  have names: "\<forall>c \<in> set (rev stack). c \<noteq> [] \<and> 47 \<notin> set c" "[46] \<notin> set (rev stack)" "[46, 46] \<notin> set (rev stack)"
    using norm_names [OF Some] comps_names by fastforce+
  obtain q where q: "render (rev stack) = 47 # q" by (cases "rev stack") (auto simp: render_def)
  have "comps (render (rev stack)) = rev stack"
    using comps_render [OF names(1)] by (cases "stack = []") (auto simp: render_def comps_Nil)
  then have n: "norm [] (comps (47 # q)) = Some stack" using norm_clean [OF names(2,3)] q by simp
  show ?thesis using Some path_simplify_abs [OF assms Some, of pwd] path_simplify_abs [OF assms n, of pwd] q by auto
qed

text \<open>The path \<open>/a/../b/.\<close>.\<close>

theorem path_simplify_norm_witness:
  "\<exists>st'. path_simplify None \<lparr>outcomes = [], live = 0\<rparr> [47, 97, 47, 46, 46, 47, 98, 47, 46] = Some (Some [47, 98], st') \<and> live st' = 3"
proof -
  have "comps [47, 97, 47, 46, 46, 47, 98, 47, 46] = [[97], [46, 46], [98], [46]]" by (simp add: comps.simps)
  then show ?thesis using path_simplify_norm [where st = "\<lparr>outcomes = [], live = 0\<rparr>" and pwd = None and s = "[97, 47, 46, 46, 47, 98, 47, 46]"]
    by (auto simp: render_def dots_def)
qed

text \<open>
  The name and the parent of a path with a separator put together give the path again, and the name has no separator.\<close>

theorem path_parent_name:
  assumes "47 \<in> set s" and "outcomes st = []"
  shows "\<exists>p n st1 st2. path_parent st s = Some (Some p, st1) \<and> path_name st1 s = Some (Some n, st2) \<and> s = p @ 47 # n \<and> 47 \<notin> set n"
proof -
  let ?n = "rev (takeWhile (\<lambda>c. c \<noteq> 47) (rev s))"
  obtain d where "dropWhile (\<lambda>c. c \<noteq> 47) (rev s) = 47 # d"
    using assms(1) hd_dropWhile [of "\<lambda>c. c \<noteq> 47" "rev s"] by (cases "dropWhile (\<lambda>c. c \<noteq> 47) (rev s)") auto
  then have "rev s = takeWhile (\<lambda>c. c \<noteq> 47) (rev s) @ 47 # d" using takeWhile_dropWhile_id [of "\<lambda>c. c \<noteq> 47" "rev s"] by simp
  then have s: "s = rev d @ 47 # ?n" by (metis append.assoc append_Cons append_Nil rev.simps(2) rev_append rev_rev_ident)
  have "last_sep s = Some (length (rev d))" using assms(1) arg_cong [OF s, of length] by (simp add: last_sep_def)
  moreover have "take (length (rev d)) s = rev d" "drop (length (rev d) + 1) s = ?n" using s by (metis append_eq_conv_conj, metis append_Cons append_Nil append_assoc append_eq_conv_conj length_append_singleton Suc_eq_plus1)
  moreover have "47 \<notin> set ?n" by (auto dest: set_takeWhileD)
  ultimately show ?thesis using s assms(2) by (simp add: path_parent_def path_name_def strdup_ok tmalloc_ok) 
qed

theorem path_parent_name_witness:
  "\<exists>p n st1 st2. path_parent \<lparr>outcomes = [], live = 0\<rparr> [47, 97, 47, 98] = Some (Some p, st1) \<and>
    path_name st1 [47, 97, 47, 98] = Some (Some n, st2) \<and> [47, 97, 47, 98] = p @ 47 # n \<and> 47 \<notin> set n"
  by (rule path_parent_name) simp_all

end
