(* ===== verification/Resource_Pointer.thy ===== *)
theory Resource_Pointer
  imports Kernel_Prelude
begin

text \<open>
  Resource pointers, \<open>libc/inc/rhombus.h\<close>: the number of a process in the low half of 64 bits and the index of one of its resources in the
  high half.
\<close>

definition RP_PID :: "u64 \<Rightarrow> u32" where "RP_PID rp = ucast (rp AND 0xFFFFFFFF)"
definition RP_INDEX :: "u64 \<Rightarrow> u32" where "RP_INDEX rp = ucast (drop_bit 32 rp)"
definition RP_CONS :: "u32 \<Rightarrow> u32 \<Rightarrow> u64" where "RP_CONS pid idx = push_bit 32 (ucast idx) OR ucast pid"

end
