(* ===== verification/Formatting.thy ===== *)
theory Formatting
  imports C_Text Numbers Resource_Pointer
begin

text \<open>
  Formatted strings: \<open>__format\<close> and \<open>vsaprintf\<close> of \<open>libc/stdio\<close>, and the text form of resource pointers,
  \<open>rtoa\<close> and \<open>ator\<close> of \<open>libc/rhombus\<close>. The variable arguments are a list of values; one of the wrong kind, or a missing one, is \<^const>\<open>None\<close>. The
  conversion of floating point numbers is a parameter. The \<^const>\<open>None\<close> inside a result is a null pointer that is returned.
\<close>

section \<open>Integers\<close>

abbreviation (input) FLAG_SIGN :: u32 where "FLAG_SIGN \<equiv> 0x01"
abbreviation (input) FLAG_LEFT :: u32 where "FLAG_LEFT \<equiv> 0x02"
abbreviation (input) FLAG_ALT :: u32 where "FLAG_ALT \<equiv> 0x04"
abbreviation (input) FLAG_ZERO :: u32 where "FLAG_ZERO \<equiv> 0x08"
abbreviation (input) FLAG_UPPER :: u32 where "FLAG_UPPER \<equiv> 0x10"
abbreviation (input) FLAG_OCTAL :: u32 where "FLAG_OCTAL \<equiv> 0x20"
abbreviation (input) FLAG_HEX :: u32 where "FLAG_HEX \<equiv> 0x40"
abbreviation (input) FLAG_EXP :: u32 where "FLAG_EXP \<equiv> 0x80"
abbreviation (input) FLAG_MEXP :: u32 where "FLAG_MEXP \<equiv> 0x100"

text \<open>The digits are written from the end of a buffer of fifteen; the first argument counts the free places.\<close>

primrec format_digits :: "nat \<Rightarrow> bool \<Rightarrow> u32 \<Rightarrow> u32 \<Rightarrow> u8 list \<Rightarrow> u8 list option" where
  "format_digits 0 ucase base v acc = Some acc"
| "format_digits (Suc i) ucase base v acc = (
     if v = 0 then Some acc
     else do { c \<leftarrow> digit_char ucase (uint (v mod base)); format_digits i ucase base (v div base) (c # acc) })"

definition format_uint :: "tmem \<Rightarrow> u32 \<Rightarrow> u32 \<Rightarrow> (u8 list option \<times> tmem) option" where
  "format_uint st v flags = (
     let base = (if flags AND FLAG_OCTAL \<noteq> 0 then 8 else if flags AND FLAG_HEX \<noteq> 0 then 16 else 10) in
     if v = 0 then strdup st (Some [48])
     else do {
       ds \<leftarrow> format_digits 15 (flags AND FLAG_UPPER \<noteq> 0) base v [];
       let ds = (if flags AND FLAG_SIGN \<noteq> 0 then 43 # ds else ds);
       if flags AND FLAG_ALT \<noteq> 0 \<and> flags AND FLAG_OCTAL \<noteq> 0 then Some (strvcat st [Some [48], Some ds, None])
       else if flags AND FLAG_ALT \<noteq> 0 \<and> flags AND FLAG_HEX \<noteq> 0
         then Some (strvcat st [Some (if flags AND FLAG_UPPER \<noteq> 0 then [48, 88] else [48, 120]), Some ds, None])
       else strdup st (Some ds)
     })"

definition format_int :: "tmem \<Rightarrow> u32 \<Rightarrow> u32 \<Rightarrow> (u8 list option \<times> tmem) option" where
  "format_int st v flags = (
     if sint v < 0 then do {
       (temp, st) \<leftarrow> format_uint st (- v) flags;
       let (s, st) = strvcat st [Some [45], temp, None];
       Some (s, tfree_string temp st)
     }
     else format_uint st v flags)"

section \<open>Decimal strings to integers\<close>

fun atoi_v :: "u8 list \<Rightarrow> u32" where
  "atoi_v s = (case s of
     [] \<Rightarrow> 0
   | c # cs \<Rightarrow> if c = 45 then - atoi_v cs else foldl (\<lambda>n c. n * 10 + (scast c - 48)) 0 (takeWhile isdigit s))"

section \<open>Conversions\<close>

datatype varg = VInt u32 | VStr "u8 list option" | VRp u64 | VDouble nat

datatype fmt_type = TYPE_STRING | TYPE_CHAR | TYPE_LITERAL | TYPE_INT | TYPE_UINT | TYPE_DOUBLE | TYPE_RP

fun format_flags :: "u8 list \<Rightarrow> u32 \<Rightarrow> (u8 list \<times> u32) option" where
  "format_flags [] flags = None"
| "format_flags (c # cs) flags = (
     if c = 43 then format_flags cs (flags OR FLAG_SIGN)
     else if c = 45 then format_flags cs (flags OR FLAG_LEFT)
     else if c = 35 then format_flags cs (flags OR FLAG_ALT)
     else if c = 48 then format_flags cs (flags OR FLAG_ZERO)
     else Some (c # cs, flags))"

text \<open>A width or a precision: an argument for \<open>*\<close>, or decimal digits.\<close>

definition format_number :: "u8 list \<Rightarrow> varg list \<Rightarrow> u32 \<Rightarrow> (u32 \<times> u8 list \<times> varg list) option" where
  "format_number fmt args dflt = (case fmt of
     c # cs \<Rightarrow>
       if c = 42 then (case args of VInt w # args \<Rightarrow> Some (w, cs, args) | _ \<Rightarrow> None)
       else if isdigit c then Some (atoi_v fmt, dropWhile isdigit fmt, args)
       else Some (dflt, fmt, args)
   | [] \<Rightarrow> Some (dflt, fmt, args))"

text \<open>
  The length modifier: the result is the rest of the format and whether the length is that of a \<open>long long\<close>, or \<^const>\<open>None\<close>
  for a null pointer. \<open>z\<close> and \<open>t\<close> fall through to the case of the end of the string.
\<close>

definition format_length :: "u8 list \<Rightarrow> (u8 list \<times> bool) option" where
  "format_length fmt = (case fmt of
     [] \<Rightarrow> None
   | c # cs \<Rightarrow>
       if c = 104 then Some (if cs \<noteq> [] \<and> hd cs = 104 then tl cs else cs, False)
       else if c = 108 then (if cs \<noteq> [] \<and> hd cs = 108 then Some (tl cs, False) else Some (cs, True))
       else if c = 76 \<or> c = 106 then Some (cs, True)
       else if c = 122 \<or> c = 116 then None
       else Some (fmt, False))"

definition format_type :: "u8 list \<Rightarrow> u32 \<Rightarrow> (fmt_type \<times> u32) option" where
  "format_type fmt flags = (case fmt of [] \<Rightarrow> None | c # _ \<Rightarrow>
     if c = 105 \<or> c = 100 then Some (TYPE_INT, flags)
     else if c = 117 then Some (TYPE_UINT, flags)
     else if c = 70 then Some (TYPE_DOUBLE, flags OR FLAG_UPPER)
     else if c = 102 then Some (TYPE_DOUBLE, flags)
     else if c = 71 then Some (TYPE_DOUBLE, flags OR FLAG_UPPER OR FLAG_MEXP)
     else if c = 103 then Some (TYPE_DOUBLE, flags OR FLAG_MEXP)
     else if c = 69 then Some (TYPE_DOUBLE, flags OR FLAG_UPPER OR FLAG_EXP)
     else if c = 101 then Some (TYPE_DOUBLE, flags OR FLAG_EXP)
     else if c = 88 \<or> c = 112 then Some (TYPE_UINT, flags OR FLAG_UPPER OR FLAG_HEX)
     else if c = 120 then Some (TYPE_UINT, flags OR FLAG_HEX)
     else if c = 79 then Some (TYPE_UINT, flags OR FLAG_UPPER OR FLAG_OCTAL)
     else if c = 111 then Some (TYPE_UINT, flags OR FLAG_OCTAL)
     else if c = 115 then Some (TYPE_STRING, flags)
     else if c = 99 then Some (TYPE_CHAR, flags)
     else if c = 114 then Some (TYPE_RP, flags)
     else if c = 37 then Some (TYPE_LITERAL, flags)
     else None)"

definition char_string :: "tmem \<Rightarrow> u8 \<Rightarrow> (u8 list option \<times> tmem) option" where
  "char_string st c = (let (ok, st) = tmalloc st in if \<not> ok then None else Some (Some (if c = 0 then [] else [c]), st))"


text \<open>Padding to the width, from a string of 24 characters.\<close>

definition format_pad :: "tmem \<Rightarrow> u8 list \<Rightarrow> u32 \<Rightarrow> u32 \<Rightarrow> (u8 list \<times> tmem) option" where
  "format_pad st s width flags = (
     if length s < unat width then do {
       let (ok, st) = tmalloc st;
       let pad = replicate 24 (if flags AND FLAG_ZERO \<noteq> 0 then 48 else 32);
       if \<not> ok then None
       else Some (if flags AND FLAG_LEFT \<noteq> 0 then s @ take (unat width - length s) pad
                  else take (unat width - length s) pad @ s, tfree st)
     }
     else Some (s, st))"

text \<open>
  The buffer of \<open>vsaprintf\<close>: the string in it and the size of its block, in which the terminator needs
  a place too.
\<close>

type_synonym strbuf = "(u8 list \<times> nat) option"

definition string_adds :: "tmem \<Rightarrow> strbuf \<Rightarrow> u8 list \<Rightarrow> (strbuf \<times> tmem) option" where
  "string_adds st buf s = (case buf of
     None \<Rightarrow> do { (d, st) \<leftarrow> strdup st (Some s); Some (map_option (\<lambda>d. (d, length s + 1)) d, st) }
   | Some (str, len) \<Rightarrow> do {
       (len, st) \<leftarrow> (if length str + length s \<ge> len
         then (let (ok, st) = tmalloc st in if \<not> ok then None else Some (len * 2 + length s, tfree st))
         else Some (len, st));
       if length str + length s + 1 > len then None else Some (Some (str @ s, len), st)
     })"

definition string_addc :: "tmem \<Rightarrow> strbuf \<Rightarrow> u8 \<Rightarrow> (strbuf \<times> tmem) option" where
  "string_addc st buf c = (case buf of
     None \<Rightarrow> (let (ok, st) = tmalloc st in if \<not> ok then None else Some (Some ([c], 16), st))
   | Some (str, len) \<Rightarrow> do {
       (len, st) \<leftarrow> (if length str + 1 \<ge> len
         then (let (ok, st) = tmalloc st in if \<not> ok then None else Some (len * 2 + 1, tfree st))
         else Some (len, st));
       if length str + 2 > len then None else Some (Some (str @ [c], len), st)
     })"

type_synonym fmt_double = "varg \<Rightarrow> u32 \<Rightarrow> u32 \<Rightarrow> tmem \<Rightarrow> (u8 list option \<times> tmem) option"

text \<open>
  \<open>__format\<close> formats a resource pointer with \<open>rtoa\<close>, which calls \<open>vsaprintf\<close>, which calls \<open>__format\<close>: the text form is
  an argument of \<open>format\<close> and \<open>vsaprintf\<close>.
\<close>

type_synonym fmt_rp = "u64 \<Rightarrow> tmem \<Rightarrow> (u8 list option \<times> tmem) option"

definition format_value :: "fmt_double \<Rightarrow> fmt_rp \<Rightarrow> fmt_type \<Rightarrow> u32 \<Rightarrow> u32 \<Rightarrow> varg list \<Rightarrow> tmem \<Rightarrow> (u8 list option \<times> varg list \<times> tmem) option" where
  "format_value dbl rtoa ty flags precision args st = (case ty of
     TYPE_LITERAL \<Rightarrow> do { (s, st) \<leftarrow> char_string st 37; Some (s, args, st) }
   | TYPE_STRING \<Rightarrow> (case args of VStr s # args \<Rightarrow> do {
       (s, st) \<leftarrow> strdup st (Some (case s of None \<Rightarrow> [40, 110, 117, 108, 108, 41] | Some s \<Rightarrow> s)); Some (s, args, st) } | _ \<Rightarrow> None)
   | TYPE_CHAR \<Rightarrow> (case args of VInt c # args \<Rightarrow> do { (s, st) \<leftarrow> char_string st (ucast c); Some (s, args, st) } | _ \<Rightarrow> None)
   | TYPE_INT \<Rightarrow> (case args of VInt v # args \<Rightarrow> do { (s, st) \<leftarrow> format_int st v flags; Some (s, args, st) } | _ \<Rightarrow> None)
   | TYPE_UINT \<Rightarrow> (case args of VInt v # args \<Rightarrow> do { (s, st) \<leftarrow> format_uint st v flags; Some (s, args, st) } | _ \<Rightarrow> None)
   | TYPE_DOUBLE \<Rightarrow> (case args of VDouble d # args \<Rightarrow> do { (s, st) \<leftarrow> dbl (VDouble d) flags precision st; Some (s, args, st) } | _ \<Rightarrow> None)
   | TYPE_RP \<Rightarrow> (case args of VRp rp # args \<Rightarrow> do { (s, st) \<leftarrow> rtoa rp st; Some (s, args, st) } | _ \<Rightarrow> None))"

text \<open>The text and the format behind the conversion character.\<close>

definition format :: "fmt_double \<Rightarrow> fmt_rp \<Rightarrow> u8 list \<Rightarrow> varg list \<Rightarrow> tmem \<Rightarrow> ((u8 list \<times> u8 list \<times> varg list) option \<times> tmem) option" where
  "format dbl rtoa fmt args st = (
     if fmt = [] \<or> hd fmt \<noteq> 37 then Some (None, st)
     else case format_flags (tl fmt) 0 of None \<Rightarrow> Some (None, st) | Some (fmt, flags) \<Rightarrow> do {
       (width, fmt, args) \<leftarrow> format_number fmt args 0;
       prec \<leftarrow> (if fmt \<noteq> [] \<and> hd fmt = 46
         then if tl fmt \<noteq> [] \<and> (hd (tl fmt) = 42 \<or> isdigit (hd (tl fmt)))
           then map_option Some (format_number (tl fmt) args 6)
           else Some None
         else Some (Some (6, fmt, args)));
       case prec of None \<Rightarrow> Some (None, st) | Some (precision, fmt, args) \<Rightarrow>
         (case format_length fmt of None \<Rightarrow> Some (None, st) | Some (fmt, _) \<Rightarrow>
           (case format_type fmt flags of None \<Rightarrow> Some (None, st) | Some (ty, flags) \<Rightarrow> do {
             (s, args, st) \<leftarrow> format_value dbl rtoa ty flags precision args st;
             s \<leftarrow> s;
             (s, st) \<leftarrow> format_pad st s width flags;
             Some (Some (s, tl fmt, args), st)
           }))
     })"

partial_function (option) vsaprintf_loop :: "fmt_double \<Rightarrow> fmt_rp \<Rightarrow> u8 list \<Rightarrow> varg list \<Rightarrow> tmem \<Rightarrow> strbuf \<Rightarrow> (strbuf \<times> tmem) option" where
  "vsaprintf_loop dbl rtoa fmt args st buf = (case fmt of
     [] \<Rightarrow> Some (buf, st)
   | c # cs \<Rightarrow>
       if c = 37 then do {
         (r, st) \<leftarrow> format dbl rtoa fmt args st;
         (temp, fmt, args) \<leftarrow> r;
         (buf, st) \<leftarrow> string_adds st buf temp;
         vsaprintf_loop dbl rtoa fmt args (tfree st) buf
       }
       else do {
         (buf, st) \<leftarrow> string_addc st buf c;
         vsaprintf_loop dbl rtoa cs args st buf
       })"

definition vsaprintf :: "fmt_double \<Rightarrow> fmt_rp \<Rightarrow> u8 list \<Rightarrow> varg list \<Rightarrow> tmem \<Rightarrow> (u8 list option \<times> tmem) option" where
  "vsaprintf dbl rtoa fmt args st = do {
     (buf, st) \<leftarrow> vsaprintf_loop dbl rtoa fmt args st None;
     Some (map_option fst buf, st)
   }"

section \<open>Resource pointers\<close>

text \<open>The format of a resource pointer has no conversions but \<open>%d\<close>, so the parameters of \<open>vsaprintf\<close> do not matter.\<close>

definition rtoa :: "u64 \<Rightarrow> tmem \<Rightarrow> (u8 list option \<times> tmem) option" where
  "rtoa rp st = (
     if rp = 0 then strdup st (Some [64, 110, 105, 108])
     else vsaprintf (\<lambda>_ _ _ _. None) (\<lambda>_ _. None) [64, 37, 100, 58, 37, 100] [VInt (RP_PID rp), VInt (RP_INDEX rp)] st)"

definition ator :: "u8 list option \<Rightarrow> tmem \<Rightarrow> (u64 \<times> tmem) option" where
  "ator str st = (case str of None \<Rightarrow> Some (0, st) | Some s \<Rightarrow>
     if s = [] \<or> hd s \<noteq> 64 then Some (0, st)
     else if tl s \<noteq> [] \<and> hd (tl s) = 110 then Some (0, st)
     else do {
       (substr, rest, st) \<leftarrow> struntil st (tl s) [58];
       let pid = atoi_v substr;
       let st = tfree st;
       if rest = [] then None
       else Some (RP_CONS pid (atoi_v (tl rest)), st)
     })"

end
