(* ===== verification/Formatting_Rep.thy ===== *)
theory Formatting_Rep
  imports Formatting
begin

text \<open>
  The proofs about \<open>Formatting\<close>: the decimal digits that the conversions write and that \<open>atoi\<close> reads, the text of
  formats that only have decimal conversions, and the round trip of resource pointers.
\<close>

declare atoi_v.simps [simp del]

section \<open>Decimal digits\<close>

lemma format_digits_ok:
  assumes "b = of_nat k" and "2 \<le> k" and "k \<le> 16"
  shows "length (digs k (unat v)) \<le> n \<Longrightarrow> format_digits n u b v acc = Some (rev (map (dch u) (digs k (unat v))) @ acc)"
proof (induction n arbitrary: v acc)
  case 0
  then show ?case by simp
next
  case (Suc n)
  show ?case
  proof (cases "v = 0")
    case False
    have bk: "unat b = k" using assms by (simp add: unat_of_nat take_bit_nat_eq_self)
    have v: "0 < unat v" using False by (simp add: unat_gt_0)
    then have D: "digs k (unat v) = unat v mod k # digs k (unat v div k)" using assms(2) by (subst digs.simps) auto
    have m: "uint (v mod b) = int (unat v mod k)" "unat (v div b) = unat v div k"
      using bk by (simp_all add: uint_nat unat_mod unat_div del: of_nat_unat)
    have "unat v mod k < 16" using assms(2,3) by (metis less_le_trans mod_less_divisor zero_less_numeral)
    then have "digit_char u (uint (v mod b)) = Some (dch u (unat v mod k))" unfolding m(1) by (rule digit_char_dch)
    moreover have "format_digits n u b (v div b) (dch u (unat v mod k) # acc) =
        Some (rev (map (dch u) (digs k (unat v div k))) @ dch u (unat v mod k) # acc)"
      using Suc.IH [of "v div b"] Suc.prems m(2) D by simp
    ultimately show ?thesis using False D by simp
  qed simp
qed

lemma digs_length10: "length (digs 10 (unat (v :: u32))) \<le> 10"
proof -
  have "length (digs 10 n) \<le> k" if "n < 10 ^ k" for n k
    using that
  proof (induction k arbitrary: n)
    case (Suc k)
    then have "n div 10 < 10 ^ k" by (simp add: less_mult_imp_div_less mult.commute)
    then show ?case using Suc.IH [of "n div 10"] by (subst digs.simps) simp
  qed simp
  moreover have "unat v < 2 ^ LENGTH(32)" by (rule unsigned_less)
  then have "unat v < 10 ^ 10" by simp
  ultimately show ?thesis by blast
qed

definition dec :: "nat \<Rightarrow> u8 list" where
  "dec n = (if n = 0 then [48] else rev (map (dch False) (digs 10 n)))"

definition sdec :: "u32 \<Rightarrow> u8 list" where
  "sdec v = (if sint v < 0 then 45 # dec (unat (- v)) else dec (unat v))"

lemma format_uint_ok: "outcomes st = [] \<Longrightarrow> format_uint st v 0 = Some (Some (dec (unat v)), st\<lparr>live := live st + 1\<rparr>)"
  using format_digits_ok [of 10 10 v 15 False "[]"] digs_length10 [of v]
  by (auto simp: format_uint_def dec_def strdup_ok Let_def unat_eq_zero)

lemma format_int_ok: "outcomes st = [] \<Longrightarrow> format_int st v 0 = Some (Some (sdec v), st\<lparr>live := live st + 1\<rparr>)"
  by (auto simp: format_int_def format_uint_ok sdec_def strvcat_def tmalloc_ok tfree_string_def tfree_def Let_def)

section \<open>Reading decimal digits\<close>

lemma dch_digit: "k < 10 \<Longrightarrow> isdigit (dch u k) \<and> (scast (dch u k) :: u32) - 48 = of_nat k \<and> dch u k \<noteq> 45 \<and> dch u k < 0x80 \<and> dch u k \<noteq> 58 \<and> dch u k \<noteq> 110"
proof -
  assume "k < 10"
  then have "k = 0 \<or> k = 1 \<or> k = 2 \<or> k = 3 \<or> k = 4 \<or> k = 5 \<or> k = 6 \<or> k = 7 \<or> k = 8 \<or> k = 9" by presburger
  then show ?thesis by (elim disjE) (simp_all add: dch_def isdigit_def ctype_is_def ctype_tbl_def)
qed

lemma dec_digits: "\<forall>c \<in> set (dec n). isdigit c \<and> c \<noteq> 45 \<and> c < 0x80 \<and> c \<noteq> 58 \<and> c \<noteq> 110"
proof (cases "n = 0")
  case True
  then show ?thesis using dch_digit [of 0 False] by (simp add: dec_def dch_def)
next
  case False
  then show ?thesis using dch_digit [of _ False] digs_less [of _ 10 n] by (auto simp: dec_def)
qed

lemma dec_nonempty: "dec n \<noteq> []"
  using digs_last [of n 10] by (auto simp: dec_def)

lemma foldl_digits:
  "\<forall>d \<in> set ds. d < 10 \<Longrightarrow> foldl (\<lambda>n c. n * 10 + (scast c - 48)) 0 (rev (map (dch u) ds)) = (of_nat (foldr (\<lambda>d v. v * 10 + d) ds 0) :: u32)"
proof (induction ds)
  case (Cons d ds)
  then show ?case using dch_digit [of d u] by simp
qed simp

lemma atoi_dec: "atoi_v (dec n) = of_nat n"
proof -
  obtain c cs where c: "dec n = c # cs" "c \<noteq> 45" using dec_nonempty [of n] dec_digits [of n] by (cases "dec n") auto
  have "takeWhile isdigit (dec n) = dec n" using dec_digits [of n] by (auto simp: takeWhile_eq_all_conv)
  then have "atoi_v (dec n) = foldl (\<lambda>n c. n * 10 + (scast c - 48)) 0 (dec n)" using c by (subst atoi_v.simps) simp
  also have "\<dots> = of_nat n"
  proof (cases "n = 0")
    case False
    then show ?thesis using foldl_digits [of "digs 10 n" False] digs_less [of _ 10 n] digs_value [of 10 n] by (simp add: dec_def)
  qed (simp add: dec_def)
  finally show ?thesis .
qed

lemma atoi_sdec: "atoi_v (sdec v) = v"
proof (cases "sint v < 0")
  case True
  have "atoi_v (45 # dec (unat (- v))) = - atoi_v (dec (unat (- v)))" by (subst atoi_v.simps) simp
  then show ?thesis using True atoi_dec by (simp add: sdec_def)
qed (simp add: sdec_def atoi_dec)

lemma sdec_inj: "sdec v = sdec w \<longleftrightarrow> v = w"
  using atoi_sdec by metis

lemma sdec_chars: "\<forall>c \<in> set (sdec v). c < 0x80 \<and> c \<noteq> 58 \<and> c \<noteq> 110" and sdec_nonempty: "sdec v \<noteq> []"
  using dec_digits dec_nonempty by (auto simp: sdec_def)

text \<open>\<open>atoi\<close> on a string as a value is \<open>atoi\<close> on a string in memory.\<close>

lemma atoi_loop_v:
  "cstr m (p + i) s \<Longrightarrow> atoi_loop m p i acc = Some (foldl (\<lambda>n c. n * 10 + (scast c - 48)) acc (takeWhile isdigit s))"
proof (induction s arbitrary: i acc)
  case Nil
  have "\<not> isdigit 0" by (simp add: isdigit_def ctype_is_def ctype_tbl_def)
  then show ?case using Nil by (subst atoi_loop.simps) simp
next
  case (Cons c s)
  then show ?case using Cons.IH [of "i + 1"] by (subst atoi_loop.simps) (simp add: add.assoc)
qed

lemma atoi_memory: "cstr m p s \<Longrightarrow> atoi m p = Some (atoi_v s)"
proof (induction s arbitrary: p)
  case Nil
  then show ?case using atoi_loop_v [of m p 0 "[]" 0] by (subst atoi.simps) (simp add: atoi_v.simps)
next
  case (Cons c s)
  show ?case
  proof (cases "c = 45")
    case True
    have "atoi m p = do { v \<leftarrow> atoi m (p + 1); Some (- v) }" using Cons.prems True by (subst atoi.simps) simp
    then show ?thesis using Cons True by (simp add: atoi_v.simps [of "45 # s"])
  next
    case False
    have "atoi m p = atoi_loop m p 0 0" using Cons.prems False by (subst atoi.simps) simp
    then show ?thesis using atoi_loop_v [of m p 0 "c # s" 0] Cons.prems False by (simp add: atoi_v.simps [of "c # s"])
  qed
qed

section \<open>Resource pointers\<close>

lemma rp_parts: "RP_CONS (RP_PID rp) (RP_INDEX rp) = rp"
proof (rule bit_word_eqI)
  have m: "(0xFFFFFFFF :: u64) = mask 32" by (simp add: mask_eq_exp_minus_1)
  fix n assume "n < LENGTH(64)"
  then show "bit (RP_CONS (RP_PID rp) (RP_INDEX rp)) n = bit rp n"
    by (cases "n < 32") (auto simp: RP_CONS_def RP_PID_def RP_INDEX_def m bit_simps)
qed

text \<open>The buffer holds its string and a terminator.\<close>

definition buf_text :: "strbuf \<Rightarrow> u8 list" where
  "buf_text buf = (case buf of None \<Rightarrow> [] | Some (s, n) \<Rightarrow> s)"

definition buf_ok :: "strbuf \<Rightarrow> bool" where
  "buf_ok buf \<longleftrightarrow> (case buf of None \<Rightarrow> True | Some (s, n) \<Rightarrow> length s < n)"

definition added :: "tmem \<Rightarrow> strbuf \<Rightarrow> u8 list \<Rightarrow> strbuf \<Rightarrow> tmem \<Rightarrow> bool" where
  "added st buf s buf' st' \<longleftrightarrow> buf_ok buf' \<and> buf' \<noteq> None \<and> buf_text buf' = buf_text buf @ s \<and> outcomes st' = [] \<and>
     live st' = live st + (if buf = None then 1 else 0)"

lemma string_adds_ok:
  assumes "outcomes st = []" and "buf_ok buf"
  shows "\<exists>buf' st'. string_adds st buf s = Some (buf', st') \<and> added st buf s buf' st'"
  using assms by (cases buf) (auto simp: string_adds_def added_def buf_ok_def buf_text_def strdup_ok tmalloc_ok)

lemma string_addc_ok:
  assumes "outcomes st = []" and "buf_ok buf"
  shows "\<exists>buf' st'. string_addc st buf c = Some (buf', st') \<and> added st buf [c] buf' st'"
  using assms by (cases buf) (auto simp: string_addc_def added_def buf_ok_def buf_text_def tmalloc_ok)

lemma format_d:
  assumes "outcomes st = []"
  shows "format dbl rp (37 # 100 # cs) (VInt v # args) st = Some (Some (sdec v, cs, args), st\<lparr>live := live st + 1\<rparr>)"
  using assms by (simp add: format_def format_number_def format_length_def format_type_def format_value_def format_pad_def
    format_int_ok isdigit_def ctype_is_def ctype_tbl_def)

lemma format_u:
  assumes "outcomes st = []"
  shows "format dbl rp (37 # 117 # cs) (VInt v # args) st = Some (Some (dec (unat v), cs, args), st\<lparr>live := live st + 1\<rparr>)"
  using assms by (simp add: format_def format_number_def format_length_def format_type_def format_value_def format_pad_def
    format_uint_ok isdigit_def ctype_is_def ctype_tbl_def)

text \<open>The formats without other conversions than \<open>%d\<close> and \<open>%u\<close>, and the text they stand for.\<close>

fun plain_text :: "u8 list \<Rightarrow> varg list \<Rightarrow> u8 list option" where
  "plain_text [] args = Some []"
| "plain_text (c # cs) args = (
     if c \<noteq> 37 then map_option ((#) c) (plain_text cs args)
     else (case (cs, args) of
       (d # cs, VInt v # args) \<Rightarrow>
         if d = 100 then map_option ((@) (sdec v)) (plain_text cs args)
         else if d = 117 then map_option ((@) (dec (unat v))) (plain_text cs args)
         else None
     | _ \<Rightarrow> None))"

lemma vsaprintf_loop_plain:
  assumes "plain_text fmt args = Some s" and "outcomes st = []" and "buf_ok buf"
  shows "\<exists>buf' st'. vsaprintf_loop dbl rp fmt args st buf = Some (buf', st') \<and> buf_text buf' = buf_text buf @ s \<and>
    (buf' = None \<longleftrightarrow> buf = None \<and> fmt = []) \<and> outcomes st' = [] \<and> live st' = live st + (if buf = None \<and> fmt \<noteq> [] then 1 else 0)"
  using assms
proof (induction "length fmt" arbitrary: fmt args st buf s rule: less_induct)
  case less
  show ?case
  proof (cases fmt)
    case Nil
    then show ?thesis using less.prems by (subst vsaprintf_loop.simps) simp
  next
    case (Cons c cs)
    show ?thesis
    proof (cases "c = 37")
      case False
      then obtain s' where s': "plain_text cs args = Some s'" "s = c # s'" using less.prems(1) Cons by auto
      obtain buf1 st1 where 1: "string_addc st buf c = Some (buf1, st1)" "added st buf [c] buf1 st1"
        using string_addc_ok [OF less.prems(2,3)] by blast
      have u: "vsaprintf_loop dbl rp fmt args st buf = vsaprintf_loop dbl rp cs args st1 buf1"
        using 1(1) False Cons by (subst vsaprintf_loop.simps) simp
      show ?thesis using less.hyps [OF _ s'(1), of st1 buf1] 1(2) s'(2) Cons unfolding u by (auto simp: added_def)
    next
      case True
      then obtain d cs' v args' where c: "cs = d # cs'" "args = VInt v # args'" using less.prems(1) Cons
        by (auto split: list.splits varg.splits)
      define x where "x = (if d = 100 then sdec v else dec (unat v))"
      obtain s' where s': "plain_text cs' args' = Some s'" "s = x @ s'" "d = 100 \<or> d = 117"
        using less.prems(1) True c Cons by (auto simp: x_def split: if_splits)
      let ?st = "st\<lparr>live := live st + 1\<rparr>"
      have f: "format dbl rp fmt args st = Some (Some (x, cs', args'), ?st)"
        using s'(3) c format_d format_u less.prems(2) Cons True by (auto simp: x_def)
      obtain buf1 st1 where 1: "string_adds ?st buf x = Some (buf1, st1)" "added ?st buf x buf1 st1"
        using string_adds_ok [of ?st buf x] less.prems(2,3) by auto
      have u: "vsaprintf_loop dbl rp fmt args st buf = vsaprintf_loop dbl rp cs' args' (tfree st1) buf1"
        using 1(1) True f Cons by (subst vsaprintf_loop.simps) simp
      show ?thesis using less.hyps [OF _ s'(1), of "tfree st1" buf1] 1(2) s'(2) Cons c unfolding u by (auto simp: added_def)
    qed
  qed
qed

lemma vsaprintf_plain:
  assumes "plain_text fmt args = Some s" and "outcomes st = []" and "fmt \<noteq> []"
  shows "\<exists>st'. vsaprintf dbl rp fmt args st = Some (Some s, st') \<and> outcomes st' = [] \<and> live st' = live st + 1"
proof -
  obtain buf st' where "vsaprintf_loop dbl rp fmt args st None = Some (buf, st')" "buf_text buf = s" "buf \<noteq> None" "outcomes st' = []" "live st' = live st + 1"
    using vsaprintf_loop_plain [OF assms(1,2), of None dbl rp] assms(3) by (auto simp: buf_ok_def buf_text_def)
  then show ?thesis by (auto simp: vsaprintf_def buf_text_def)
qed

text \<open>The text of a resource pointer.\<close>

definition rp_text :: "u64 \<Rightarrow> u8 list" where
  "rp_text rp = (if rp = 0 then [64, 110, 105, 108] else 64 # sdec (RP_PID rp) @ 58 # sdec (RP_INDEX rp))"

lemma rtoa_text:
  assumes "outcomes st = []"
  shows "\<exists>st'. rtoa rp st = Some (Some (rp_text rp), st') \<and> outcomes st' = [] \<and> live st' = live st + 1"
proof (cases "rp = 0")
  case False
  then show ?thesis
    using vsaprintf_plain [of "[64, 37, 100, 58, 37, 100]" "[VInt (RP_PID rp), VInt (RP_INDEX rp)]" "rp_text rp" st] assms
    by (auto simp: rtoa_def rp_text_def)
qed (use assms in \<open>auto simp: rtoa_def rp_text_def strdup_ok\<close>)

lemma ator_text:
  assumes "outcomes st = []"
  shows "\<exists>st'. ator (Some (rp_text rp)) st = Some (rp, st') \<and> outcomes st' = [] \<and> live st' = live st"
proof (cases "rp = 0")
  case False
  let ?a = "sdec (RP_PID rp)" and ?b = "sdec (RP_INDEX rp)"
  have a: "?a \<noteq> []" "hd ?a \<noteq> 110" using sdec_nonempty sdec_chars [of "RP_PID rp"] by auto
  have n: "\<forall>c \<in> set ?a. c \<noteq> 58" using sdec_chars by blast
  have t: "takeWhile (\<lambda>c. c \<noteq> 58) (?a @ 58 # ?b) = ?a" "dropWhile (\<lambda>c. c \<noteq> 58) (?a @ 58 # ?b) = 58 # ?b"
    using n by (simp_all add: takeWhile_append2 dropWhile_append2)
  have "struntil st (?a @ 58 # ?b) [58] = Some (?a, 58 # ?b, st\<lparr>live := live st + 1\<rparr>)"
    using struntil_ok [OF assms, of "?a @ 58 # ?b" "[58]"] t sdec_chars by auto
  then have "ator (Some (64 # ?a @ 58 # ?b)) st = Some (rp, tfree (st\<lparr>live := live st + 1\<rparr>))"
    using a by (simp add: ator_def atoi_sdec rp_parts)
  then show ?thesis using assms False by (simp add: rp_text_def)
qed (use assms in \<open>simp add: ator_def rp_text_def\<close>)

text \<open>
  The text of a resource pointer is read back: for every pointer, \<open>ator\<close> of the string that \<open>rtoa\<close>
  makes is the pointer, with process and object index printed and read as signed numbers, and no block is left but
  that string.\<close>

theorem rtoa_ator:
  assumes "outcomes st = []"
  shows "\<exists>s st1 st2. rtoa rp st = Some (Some s, st1) \<and> live st1 = live st + 1 \<and> ator (Some s) st1 = Some (rp, st2) \<and> live st2 = live st1"
proof -
  obtain st1 where 1: "rtoa rp st = Some (Some (rp_text rp), st1)" "outcomes st1 = []" "live st1 = live st + 1" using rtoa_text [OF assms] by blast
  then show ?thesis using ator_text [OF 1(2), of rp] by blast
qed

theorem rtoa_ator_witness:
  "\<exists>s st1 st2. rtoa 0x200000005 \<lparr>outcomes = [], live = 0\<rparr> = Some (Some s, st1) \<and> live st1 = 1 \<and>
    ator (Some s) st1 = Some (0x200000005, st2) \<and> live st2 = live st1"
  using rtoa_ator [of "\<lparr>outcomes = [], live = 0\<rparr>" "0x200000005"] by simp

end
