(* ===== verification/Object_Index.thy ===== *)
theory Object_Index
  imports C_Alloc
begin

text \<open>
  The index of the objects of a process, \<open>librdi/robject/index.c\<close>: a hash table of 256 search trees that are
  meant to be balanced. A tree is a value, since every node has one parent; its nodes carry the
  height and the balance that the code stores in them, which need not be the true ones. A null
  pointer that is followed is \<^const>\<open>None\<close>. The locks are free between the operations.
\<close>

section \<open>The trees\<close>

datatype rtree =
  Null
| Bucket (b_l: rtree) (b_r: rtree) (b_balance: int) (b_height: u32) (b_index: u32) (b_ro: ptr)

text \<open>The node with the height and the balance that follow from those stored in its children.\<close>

definition child_height :: "rtree \<Rightarrow> u32" where
  "child_height t = (case t of Null \<Rightarrow> 0 | Bucket _ _ _ h _ _ \<Rightarrow> h + 1)"

definition update_height_balance :: "rtree \<Rightarrow> rtree option" where
  "update_height_balance root = (case root of Null \<Rightarrow> None
   | Bucket l r _ _ i d \<Rightarrow>
       (let height_l = child_height l; height_r = child_height r
        in Some (Bucket l r (sint (height_l - height_r)) (if height_l > height_r then height_l else height_r) i d)))"

text \<open>
  The inner rotation before a left rotation. After \<open>root->r = temp\<close>, both updates are of \<open>temp\<close>; the node that
  has become its right child keeps the height and the balance it had.
\<close>

definition inner_right :: "rtree \<Rightarrow> rtree option" where
  "inner_right r = (case r of Null \<Rightarrow> None
   | Bucket rl rr rb rh ri ro \<Rightarrow>
       if rb > 0 then (case rl of Null \<Rightarrow> None
         | Bucket xl xr xb xh xi xo \<Rightarrow> do {
             temp \<leftarrow> update_height_balance (Bucket xl (Bucket xr rr rb rh ri ro) xb xh xi xo);
             update_height_balance temp
           })
       else Some r)"

definition inner_left :: "rtree \<Rightarrow> rtree option" where
  "inner_left l = (case l of Null \<Rightarrow> None
   | Bucket ll lr lb lh li lo \<Rightarrow>
       if lb < 0 then (case lr of Null \<Rightarrow> None
         | Bucket xl xr xb xh xi xo \<Rightarrow> do {
             temp \<leftarrow> update_height_balance (Bucket (Bucket ll xl lb lh li lo) xr xb xh xi xo);
             update_height_balance temp
           })
       else Some l)"

definition tree_balance :: "rtree \<Rightarrow> rtree option" where
  "tree_balance root = (case root of Null \<Rightarrow> None
   | Bucket l r b h i d \<Rightarrow>
       if b < 2 \<and> b > - 2 then Some root
       else if b < 0 then do {
         temp \<leftarrow> inner_right r;
         case temp of Null \<Rightarrow> None
         | Bucket xl xr xb xh xi xo \<Rightarrow> do {
             root \<leftarrow> update_height_balance (Bucket l xl b h i d);
             update_height_balance (Bucket root xr xb xh xi xo)
           }
       }
       else do {
         temp \<leftarrow> inner_left l;
         case temp of Null \<Rightarrow> None
         | Bucket xl xr xb xh xi xo \<Rightarrow> do {
             root \<leftarrow> update_height_balance (Bucket xr r b h i d);
             update_height_balance (Bucket xl root xb xh xi xo)
           }
       })"

definition new_bucket :: "tmem \<Rightarrow> ptr \<Rightarrow> u32 \<Rightarrow> rtree \<times> tmem" where
  "new_bucket st ro i = (let (ok, st) = tmalloc st in (if ok then Bucket Null Null 0 0 i ro else Null, st))"

fun tree_get :: "rtree \<Rightarrow> u32 \<Rightarrow> rtree" where
  "tree_get Null i = Null"
| "tree_get (Bucket l r b h j d) i =
     (if i = j then Bucket l r b h j d else tree_get (if i < j then l else r) i)"

fun tree_set :: "tmem \<Rightarrow> rtree \<Rightarrow> u32 \<Rightarrow> ptr \<Rightarrow> (rtree \<times> tmem) option" where
  "tree_set st Null i ro = Some (new_bucket st ro i)"
| "tree_set st (Bucket l r b h j d) i ro = (
     if i = j then Some (Bucket l r b h j ro, st)
     else if i < j then do {
       (l, st) \<leftarrow> tree_set st l i ro;
       root \<leftarrow> update_height_balance (Bucket l r b h j d);
       root \<leftarrow> tree_balance root;
       Some (root, st)
     }
     else do {
       (r, st) \<leftarrow> tree_set st r i ro;
       root \<leftarrow> update_height_balance (Bucket l r b h j d);
       root \<leftarrow> tree_balance root;
       Some (root, st)
     })"

fun tree_max_index :: "rtree \<Rightarrow> u32" where
  "tree_max_index Null = 0"
| "tree_max_index (Bucket l r b h j d) = (if r \<noteq> Null then tree_max_index r else j)"

fun tree_del :: "tmem \<Rightarrow> rtree \<Rightarrow> u32 \<Rightarrow> (rtree \<times> tmem) option" where
  "tree_del st Null i = Some (Null, st)"
| "tree_del st (Bucket l r b h j d) i = (
     if j = i then
       if l = Null \<and> r = Null then Some (Null, tfree st)
       else if l = Null then Some (r, tfree st)
       else if r = Null then Some (l, tfree st)
       else do {
         let m = tree_max_index l;
         case tree_get l m of Null \<Rightarrow> None
         | Bucket _ _ _ _ _ mo \<Rightarrow> (case new_bucket st mo m of
             (Null, _) \<Rightarrow> None
           | (Bucket _ _ xb xh xi xo, st) \<Rightarrow> do {
               (xl, st) \<leftarrow> tree_del st l m;
               let st = tfree st;
               temp \<leftarrow> update_height_balance (Bucket xl r xb xh xi xo);
               temp \<leftarrow> tree_balance temp;
               Some (temp, st)
             })
       }
     else if i < j then do { (l, st) \<leftarrow> tree_del st l i; Some (Bucket l r b h j d, st) }
     else do { (r, st) \<leftarrow> tree_del st r i; Some (Bucket l r b h j d, st) })"

section \<open>The table\<close>

record robjects =
  ro_table :: "rtree list"
  ro_base :: u32
  ro_mem :: tmem

definition index_hash :: "u32 \<Rightarrow> u8" where
  "index_hash index = (
     let hash = ucast (drop_bit 24 index) :: u8;
         hash = push_bit 5 hash - hash + ucast (drop_bit 16 index);
         hash = push_bit 5 hash - hash + ucast (drop_bit 8 index)
     in push_bit 5 hash - hash + ucast index)"

definition index_set :: "robjects \<Rightarrow> u32 \<Rightarrow> ptr \<Rightarrow> robjects option" where
  "index_set s index ro = do {
     let hash = unat (index_hash index);
     (t, st) \<leftarrow> tree_set (ro_mem s) (ro_table s ! hash) index ro;
     Some (s\<lparr>ro_table := (ro_table s)[hash := t], ro_mem := st\<rparr>)
   }"

definition index_get :: "robjects \<Rightarrow> u32 \<Rightarrow> ptr" where
  "index_get s index = (case tree_get (ro_table s ! unat (index_hash index)) index of Null \<Rightarrow> 0 | Bucket _ _ _ _ _ ro \<Rightarrow> ro)"

definition index_del :: "robjects \<Rightarrow> u32 \<Rightarrow> robjects option" where
  "index_del s index = do {
     let hash = unat (index_hash index);
     (t, st) \<leftarrow> tree_del (ro_mem s) (ro_table s ! hash) index;
     Some (s\<lparr>ro_table := (ro_table s)[hash := t], ro_mem := st\<rparr>)
   }"

definition robject_set :: "robjects \<Rightarrow> u32 \<Rightarrow> ptr \<Rightarrow> robjects option" where
  "robject_set s index ro = (if ro \<noteq> 0 then index_set s index ro else index_del s index)"

definition robject_get :: "robjects \<Rightarrow> u32 \<Rightarrow> ptr" where
  "robject_get s index = index_get s index"

definition robject_new_index :: "robjects \<Rightarrow> u32 \<times> robjects" where
  "robject_new_index s = (ro_base s, s\<lparr>ro_base := ro_base s + 1\<rparr>)"

definition robjects_init :: robjects where
  "robjects_init = \<lparr>ro_table = replicate 256 Null, ro_base = 1, ro_mem = \<lparr>outcomes = [], live = 0\<rparr>\<rparr>"

end
