(* ===== verification/Object_Index_Rep.thy ===== *)
theory Object_Index_Rep
  imports Object_Index
begin

text \<open>
  The proofs about \<open>Object_Index\<close>: a tree as a finite map from indices to objects, the trees that store their true heights and are
  balanced, the rotations that keep the map, and the table as a map.
\<close>

section \<open>The entries of a tree\<close>

fun items :: "rtree \<Rightarrow> (u32 \<times> ptr) list" where
  "items Null = []"
| "items (Bucket l r b h i d) = items l @ (i, d) # items r"

definition search_tree :: "rtree \<Rightarrow> bool" where
  "search_tree t \<longleftrightarrow> sorted_wrt (<) (map fst (items t))"

definition item_map :: "rtree \<Rightarrow> u32 \<Rightarrow> ptr option" where
  "item_map t = map_of (items t)"

text \<open>The number of levels, and the trees whose nodes store the true heights and are balanced.\<close>

fun levels :: "rtree \<Rightarrow> nat" where
  "levels Null = 0"
| "levels (Bucket l r b h i d) = Suc (max (levels l) (levels r))"

fun avl :: "rtree \<Rightarrow> bool" where
  "avl Null \<longleftrightarrow> True"
| "avl (Bucket l r b h i d) \<longleftrightarrow> avl l \<and> avl r \<and> b = int (levels l) - int (levels r) \<and> h = of_nat (max (levels l) (levels r)) \<and>
     - 1 \<le> b \<and> b \<le> 1"

lemma map_of_filter_key: "map_of (filter (\<lambda>e. P (fst e)) es) k = (if P k then map_of es k else None)"
  by (induction es) auto

lemma filter_none: "(\<And>e. e \<in> set es \<Longrightarrow> \<not> P e) \<Longrightarrow> filter P es = []"
  by (simp add: filter_empty_conv)

lemma filter_all: "(\<And>e. e \<in> set es \<Longrightarrow> P e) \<Longrightarrow> filter P es = es"
  by (simp add: filter_id_conv)

lemma search_tree_Bucket:
  "search_tree (Bucket l r b h i d) \<longleftrightarrow> search_tree l \<and> search_tree r \<and> (\<forall>e \<in> set (items l). fst e < i) \<and> (\<forall>e \<in> set (items r). i < fst e)"
  by (force simp: search_tree_def sorted_wrt_append)

lemma tree_get_item:
  assumes "search_tree t"
  shows "(case tree_get t i of Null \<Rightarrow> None | Bucket _ _ _ _ _ d \<Rightarrow> Some d) = item_map t i"
  using assms
proof (induction t)
  case (Bucket l r b h j d)
  have "map_of (items l) i = None" if "\<not> i < j" using Bucket.prems that by (force simp: search_tree_Bucket map_of_eq_None_iff)
  moreover have "map_of (items r) i = None" if "i < j" using Bucket.prems that by (force simp: search_tree_Bucket map_of_eq_None_iff)
  ultimately show ?case using Bucket by (auto simp: search_tree_Bucket item_map_def map_add_def split: option.splits)
qed (simp add: item_map_def)

section \<open>Rotations\<close>

text \<open>
  \<open>near\<close> bounds the heights that are stored in a tree, so that they do not wrap; \<open>root_ok\<close> says that the root stores what
  follows from its children.
\<close>

definition ch :: "rtree \<Rightarrow> nat" where
  "ch t = unat (child_height t)"

fun near :: "nat \<Rightarrow> rtree \<Rightarrow> bool" where
  "near n Null \<longleftrightarrow> True"
| "near n (Bucket l r b h i d) \<longleftrightarrow> near n l \<and> near n r \<and> unat h < n \<and> ch l \<le> unat h \<and> ch r \<le> unat h"

definition root_ok :: "rtree \<Rightarrow> bool" where
  "root_ok t \<longleftrightarrow> (case t of Null \<Rightarrow> True | Bucket l r b h i d \<Rightarrow> b = int (ch l) - int (ch r) \<and> unat h = max (ch l) (ch r))"

lemma ch_Null [simp]: "ch Null = 0"
  by (simp add: ch_def child_height_def)

lemma ch_Bucket: "unat h < 2 ^ 30 \<Longrightarrow> ch (Bucket l r b h i d) = Suc (unat h)"
  by (simp add: ch_def child_height_def unat_word_ariths)

lemma near_mono: "near n t \<Longrightarrow> n \<le> k \<Longrightarrow> near k t"
  by (induction t) auto

lemma near_ch: "near n t \<Longrightarrow> n \<le> 2 ^ 30 \<Longrightarrow> ch t \<le> n"
  by (cases t) (auto simp: ch_Bucket)

lemma sint_diff:
  fixes x y :: u32
  assumes "unat x < 2 ^ 31" and "unat y < 2 ^ 31"
  shows "sint (x - y) = int (unat x) - int (unat y)"
proof -
  have "x - y = word_of_int (int (unat x) - int (unat y))" by simp
  then have "sint (x - y) = signed_take_bit 31 (int (unat x) - int (unat y))" by (simp only: signed_of_int) simp
  moreover have "signed_take_bit 31 (int a - int b) = int a - int b" if "a < 2 ^ 31" "b < 2 ^ 31" for a b
    by (rule signed_take_bit_int_eq_self) (use that in simp_all)
  ultimately show ?thesis using assms by metis
qed

text \<open>What an update of the root gives, for children with bounded heights.\<close>

lemma update_ok:
  assumes "near n l" and "near n r" and "n < 2 ^ 30"
  shows "\<exists>t. update_height_balance (Bucket l r b h i d) = Some t \<and> items t = items (Bucket l r b h i d) \<and> near (Suc n) t \<and>
    root_ok t \<and> ch t = Suc (max (ch l) (ch r)) \<and> b_l t = l \<and> b_r t = r \<and> t \<noteq> Null"
proof -
  have c: "ch l \<le> n" "ch r \<le> n" using near_ch assms by (meson less_imp_le)+
  let ?h = "if child_height l > child_height r then child_height l else child_height r"
  have h: "unat ?h = max (ch l) (ch r)" by (auto simp: ch_def word_less_nat_alt)
  have "sint (child_height l - child_height r) = int (ch l) - int (ch r)" unfolding ch_def
    by (rule sint_diff) (use c assms(3) in \<open>simp_all add: ch_def\<close>)
  moreover have "near (Suc n) l" "near (Suc n) r" using near_mono assms by (meson le_SucI order_refl)+
  ultimately show ?thesis using h c assms(3)
    by (simp add: update_height_balance_def Let_def root_ok_def ch_Bucket)
qed

text \<open>A tree that is not empty on the side its balance names.\<close>

lemma root_ok_sides:
  assumes "root_ok (Bucket l r b h i d)"
  shows "0 < b \<Longrightarrow> l \<noteq> Null" and "b < 0 \<Longrightarrow> r \<noteq> Null"
  using assms by (auto simp: root_ok_def)

text \<open>The inner rotations never meet a null pointer in a tree whose root is up to date.\<close>

lemma inner_right_ok:
  assumes "near n r" and "n < 2 ^ 30" and "root_ok r" and "r \<noteq> Null"
  shows "\<exists>t. inner_right r = Some t \<and> items t = items r \<and> near (Suc n) t \<and> t \<noteq> Null \<and> ch (b_l t) < ch r \<and> ch (b_r t) \<le> ch r"
proof (cases r)
  case (Bucket rl rr rb rh ri ro)
  show ?thesis
  proof (cases "rb > 0")
    case True
    then obtain xl xr xb xh xi xo where rl: "rl = Bucket xl xr xb xh xi xo"
      using root_ok_sides(1) [of rl rr rb rh ri ro] assms(3) Bucket by (cases rl) auto
    have y: "near n xl" "near n (Bucket xr rr rb rh ri ro)" using assms(1,2) Bucket rl by (auto simp: ch_Bucket)
    obtain t1 where t1: "update_height_balance (Bucket xl (Bucket xr rr rb rh ri ro) xb xh xi xo) = Some t1"
      "items t1 = items r" "b_l t1 = xl" "b_r t1 = Bucket xr rr rb rh ri ro" "t1 \<noteq> Null"
      using update_ok [OF y assms(2)] Bucket rl by fastforce
    obtain t2 where "update_height_balance t1 = Some t2" "items t2 = items t1" "near (Suc n) t2" "t2 \<noteq> Null"
      "b_l t2 = xl" "b_r t2 = Bucket xr rr rb rh ri ro"
      using update_ok [OF y assms(2)] t1(3-5) by (cases t1) fastforce+
    moreover have "ch xl < ch r" "ch (Bucket xr rr rb rh ri ro) \<le> ch r" using assms(1,2) Bucket rl by (auto simp: ch_Bucket)
    ultimately show ?thesis using True t1(1,2) Bucket rl by (simp add: inner_right_def)
  next
    case False
    then show ?thesis using Bucket assms(1,2) near_mono [of n r "Suc n"] by (auto simp: inner_right_def ch_Bucket)
  qed
qed (use assms(4) in simp)

lemma inner_left_ok:
  assumes "near n l" and "n < 2 ^ 30" and "root_ok l" and "l \<noteq> Null"
  shows "\<exists>t. inner_left l = Some t \<and> items t = items l \<and> near (Suc n) t \<and> t \<noteq> Null \<and> ch (b_r t) < ch l \<and> ch (b_l t) \<le> ch l"
proof (cases l)
  case (Bucket ll lr lb lh li lo)
  show ?thesis
  proof (cases "lb < 0")
    case True
    then obtain xl xr xb xh xi xo where lr: "lr = Bucket xl xr xb xh xi xo"
      using root_ok_sides(2) [of ll lr lb lh li lo] assms(3) Bucket by (cases lr) auto
    have y: "near n (Bucket ll xl lb lh li lo)" "near n xr" using assms(1,2) Bucket lr by (auto simp: ch_Bucket)
    obtain t1 where t1: "update_height_balance (Bucket (Bucket ll xl lb lh li lo) xr xb xh xi xo) = Some t1"
      "items t1 = items l" "b_l t1 = Bucket ll xl lb lh li lo" "b_r t1 = xr" "t1 \<noteq> Null"
      using update_ok [OF y assms(2)] Bucket lr by fastforce
    obtain t2 where "update_height_balance t1 = Some t2" "items t2 = items t1" "near (Suc n) t2" "t2 \<noteq> Null"
      "b_l t2 = Bucket ll xl lb lh li lo" "b_r t2 = xr"
      using update_ok [OF y assms(2)] t1(3-5) by (cases t1) fastforce+
    moreover have "ch xr < ch l" "ch (Bucket ll xl lb lh li lo) \<le> ch l" using assms(1,2) Bucket lr by (auto simp: ch_Bucket)
    ultimately show ?thesis using True t1(1,2) Bucket lr by (simp add: inner_left_def)
  next
    case False
    then show ?thesis using Bucket assms(1,2) near_mono [of n l "Suc n"] by (auto simp: inner_left_def ch_Bucket)
  qed
qed (use assms(4) in simp)

lemma neq_Null: "t \<noteq> Null \<longleftrightarrow> (\<exists>l r b h i d. t = Bucket l r b h i d)"
  by (cases t) auto

lemma tree_balance_ok:
  assumes "near n l" and "near n r" and "n + 4 < 2 ^ 30" and "ch r + 2 \<le> ch l \<Longrightarrow> root_ok l" and "root_ok r"
  shows "\<exists>root t. update_height_balance (Bucket l r b h i d) = Some root \<and> tree_balance root = Some t \<and>
    items t = items (Bucket l r b h i d) \<and> near (n + 4) t \<and> root_ok t \<and> t \<noteq> Null \<and> ch t \<le> Suc (max (ch l) (ch r))"
proof -
  obtain root where root: "update_height_balance (Bucket l r b h i d) = Some root" "items root = items (Bucket l r b h i d)"
    "near (Suc n) root" "root_ok root" "b_l root = l" "b_r root = r" "root \<noteq> Null" "ch root = Suc (max (ch l) (ch r))"
    using update_ok [OF assms(1,2)] assms(3) by fastforce
  then obtain b' h' i' d' where r: "root = Bucket l r b' h' i' d'" by (cases root) auto
  have b': "b' = int (ch l) - int (ch r)" using root(4) r by (simp add: root_ok_def)
  have sides: "0 < b' \<Longrightarrow> l \<noteq> Null" "b' < 0 \<Longrightarrow> r \<noteq> Null" using root_ok_sides root(4) r by metis+
  consider "b' < 2" "b' > - 2" | "b' \<le> - 2" | "b' \<ge> 2" by linarith
  then show ?thesis
  proof cases
    case 1
    then show ?thesis using root(1-4,7,8) r near_mono [OF root(3), of "n + 4"] by (auto simp: tree_balance_def)
  next
    case 2
    obtain xl xr xb xh xi xo where x: "inner_right r = Some (Bucket xl xr xb xh xi xo)"
      "items (Bucket xl xr xb xh xi xo) = items r" "near (Suc n) (Bucket xl xr xb xh xi xo)" "ch xl < ch r" "ch xr \<le> ch r"
      using inner_right_ok [OF assms(2) _ assms(5)] assms(3) sides 2 by (auto simp: neq_Null)
    have 0: "near (Suc n) l" "near (Suc n) xl" using assms(1) near_mono x(3) by (auto intro: near_mono)
    obtain t1 where t1: "update_height_balance (Bucket l xl b' h' i' d') = Some t1" "items t1 = items (Bucket l xl b' h' i' d')" "near (Suc (Suc n)) t1" "ch t1 = Suc (max (ch l) (ch xl))"
      using update_ok [OF 0] assms(3) by fastforce
    have "near (Suc (Suc n)) xr" using x(3) near_mono by (auto intro: near_mono)
    then obtain t2 where "update_height_balance (Bucket t1 xr xb xh xi xo) = Some t2" "items t2 = items (Bucket t1 xr xb xh xi xo)"
      "near (Suc (Suc (Suc n))) t2" "root_ok t2" "t2 \<noteq> Null" "ch t2 = Suc (max (ch t1) (ch xr))"
      using update_ok [OF t1(3)] assms(3) by fastforce
    moreover have "items (Bucket t1 xr xb xh xi xo) = items root" using t1(2) x(2) r by simp
    moreover have "ch l + 2 \<le> ch r" using 2 b' by linarith
    ultimately show ?thesis using root(1,2) r 2 x(1,4,5) t1(1,4) near_mono [of "Suc (Suc (Suc n))" t2 "n + 4"] by (simp add: tree_balance_def)
  next
    case 3
    obtain xl xr xb xh xi xo where x: "inner_left l = Some (Bucket xl xr xb xh xi xo)"
      "items (Bucket xl xr xb xh xi xo) = items l" "near (Suc n) (Bucket xl xr xb xh xi xo)" "ch xr < ch l" "ch xl \<le> ch l"
      using inner_left_ok [OF assms(1) _ assms(4)] assms(3) sides 3 b' by (auto simp: neq_Null)
    have 0: "near (Suc n) xr" "near (Suc n) r" using assms(2) x(3) by (auto intro: near_mono)
    obtain t1 where t1: "update_height_balance (Bucket xr r b' h' i' d') = Some t1" "items t1 = items (Bucket xr r b' h' i' d')" "near (Suc (Suc n)) t1" "ch t1 = Suc (max (ch xr) (ch r))"
      using update_ok [OF 0] assms(3) by fastforce
    have "near (Suc (Suc n)) xl" using x(3) by (auto intro: near_mono)
    then obtain t2 where "update_height_balance (Bucket xl t1 xb xh xi xo) = Some t2" "items t2 = items (Bucket xl t1 xb xh xi xo)"
      "near (Suc (Suc (Suc n))) t2" "root_ok t2" "t2 \<noteq> Null" "ch t2 = Suc (max (ch xl) (ch t1))"
      using update_ok [OF _ t1(3)] assms(3) by fastforce
    moreover have "items (Bucket xl t1 xb xh xi xo) = items root" using t1(2) x(2) [symmetric] r by simp
    moreover have "ch r + 2 \<le> ch l" using 3 b' by linarith
    ultimately show ?thesis using root(1,2) r 3 x(1,4,5) t1(1,4) near_mono [of "Suc (Suc (Suc n))" t2 "n + 4"] by (simp add: tree_balance_def)
  qed
qed

lemma avl_root:
  assumes "avl t" and "levels t < 2 ^ 30"
  shows "ch t = levels t \<and> near (levels t) t \<and> root_ok t"
  using assms
proof (induction t)
  case (Bucket l r b h i d)
  have "unat h = max (levels l) (levels r)" using Bucket.prems by (simp add: unat_of_nat take_bit_nat_eq_self)
  moreover have "near (levels (Bucket l r b h i d)) l" "near (levels (Bucket l r b h i d)) r"
    using Bucket near_mono [of "levels l" l] near_mono [of "levels r" r] by auto
  ultimately show ?case using Bucket by (auto simp: ch_Bucket root_ok_def)
qed (simp add: root_ok_def)

definition upd_items :: "u32 \<Rightarrow> ptr \<Rightarrow> (u32 \<times> ptr) list \<Rightarrow> (u32 \<times> ptr) list" where
  "upd_items i d es = filter (\<lambda>e. fst e < i) es @ (i, d) # filter (\<lambda>e. i < fst e) es"

lemma upd_items_map: "map_of (upd_items i d es) = (map_of es)(i \<mapsto> d)"
  using map_of_filter_key [of "\<lambda>k. k < i" es] map_of_filter_key [of "\<lambda>k. i < k" es]
  by (auto simp: fun_eq_iff upd_items_def map_add_def split: option.splits)

lemma upd_items_node:
  assumes "search_tree (Bucket l r b h j e)"
  shows "i < j \<Longrightarrow> upd_items i d (items (Bucket l r b h j e)) = upd_items i d (items l) @ (j, e) # items r"
    and "j < i \<Longrightarrow> upd_items i d (items (Bucket l r b h j e)) = items l @ (j, e) # upd_items i d (items r)"
    and "upd_items j d (items (Bucket l r b h j e)) = items l @ (j, d) # items r"
proof -
  have l: "\<And>e. e \<in> set (items l) \<Longrightarrow> fst e < j" and r: "\<And>e. e \<in> set (items r) \<Longrightarrow> j < fst e"
    using assms by (auto simp: search_tree_Bucket)
  have L: "filter (\<lambda>e. fst e < k) (items l) = items l" "filter (\<lambda>e. k < fst e) (items l) = []" if "j \<le> k" for k
    using l that by (auto intro!: filter_all filter_none dest: less_le_trans order.asym)
  have R: "filter (\<lambda>e. fst e < k) (items r) = []" "filter (\<lambda>e. k < fst e) (items r) = items r" if "k \<le> j" for k
    using r that by (auto intro!: filter_all filter_none dest: le_less_trans order.asym)
  show "i < j \<Longrightarrow> upd_items i d (items (Bucket l r b h j e)) = upd_items i d (items l) @ (j, e) # items r"
    using R [of i] by (auto simp: upd_items_def)
  show "j < i \<Longrightarrow> upd_items i d (items (Bucket l r b h j e)) = items l @ (j, e) # upd_items i d (items r)"
    using L [of i] by (auto simp: upd_items_def)
  show "upd_items j d (items (Bucket l r b h j e)) = items l @ (j, d) # items r"
    using L [of j] R [of j] by (simp add: upd_items_def)
qed

lemma upd_items_sorted: "sorted_wrt (<) (map fst es) \<Longrightarrow> sorted_wrt (<) (map fst (upd_items i d es))"
  by (auto simp: upd_items_def sorted_wrt_append sorted_wrt_map intro: sorted_wrt_filter)

lemma tree_set_ok:
  assumes "avl t" and "search_tree t" and "outcomes st = []" and "6 * levels t + 6 < 2 ^ 30"
  shows "\<exists>t' st'. tree_set st t i ro = Some (t', st') \<and> items t' = upd_items i ro (items t) \<and>
    near (6 * levels t + 6) t' \<and> root_ok t' \<and> outcomes st' = []"
  using assms
proof (induction t)
  case Null
  then show ?case by (simp add: new_bucket_def tmalloc_ok upd_items_def root_ok_def)
next
  case (Bucket l r b h j e)
  have s: "levels l < levels (Bucket l r b h j e)" "levels r < levels (Bucket l r b h j e)" by auto
  have L: "near (levels l) l" "root_ok l" "near (levels r) r" "root_ok r" 
    using avl_root [of l] avl_root [of r] Bucket.prems(1,4) s by auto
  let ?n = "6 * levels (Bucket l r b h j e) + 1"
  have n: "?n + 4 < 2 ^ 30" using Bucket.prems(4) by simp
  have N: "near ?n l" "near ?n r" using L(1,3) s by (auto elim!: near_mono)
  consider "i = j" | "i < j" | "j < i" by (metis linorder_neqE)
  then show ?case
  proof cases
    case 1
    have "near (levels (Bucket l r b h j e)) (Bucket l r b h j e)" "root_ok (Bucket l r b h j e)"
      using avl_root [OF Bucket.prems(1)] Bucket.prems(4) by linarith+
    then have "near (6 * levels (Bucket l r b h j e) + 6) (Bucket l r b h j e)" "root_ok (Bucket l r b h j ro)"
      by (auto elim!: near_mono simp: root_ok_def simp del: levels.simps)
    then show ?thesis using 1 upd_items_node(3) [OF Bucket.prems(2)] Bucket.prems(3) by simp
  next
    case 2
    obtain l' st' where l': "tree_set st l i ro = Some (l', st')" "items l' = upd_items i ro (items l)" "near (6 * levels l + 6) l'" "root_ok l'" "outcomes st' = []"
      using Bucket.IH(1) Bucket.prems s by (auto simp: search_tree_Bucket)
    then have "near ?n l'" using s by (auto elim!: near_mono)
    then obtain root t where "update_height_balance (Bucket l' r b h j e) = Some root" "tree_balance root = Some t"
      "items t = items (Bucket l' r b h j e)" "near (?n + 4) t" "root_ok t" "t \<noteq> Null"
      using tree_balance_ok [OF _ N(2) n _ L(4)] l'(4) by blast
    then show ?thesis using 2 l'(1,2,5) upd_items_node(1) [OF Bucket.prems(2) 2] near_mono [of "?n + 4" t "6 * levels (Bucket l r b h j e) + 6"] by auto
  next
    case 3
    obtain r' st' where r': "tree_set st r i ro = Some (r', st')" "items r' = upd_items i ro (items r)" "near (6 * levels r + 6) r'" "root_ok r'" "outcomes st' = []"
      using Bucket.IH(2) Bucket.prems s by (auto simp: search_tree_Bucket)
    then have "near ?n r'" using s by (auto elim!: near_mono)
    then obtain root t where "update_height_balance (Bucket l r' b h j e) = Some root" "tree_balance root = Some t"
      "items t = items (Bucket l r' b h j e)" "near (?n + 4) t" "root_ok t" "t \<noteq> Null"
      using tree_balance_ok [OF N(1) _ n _ r'(4)] L(2) by blast
    then show ?thesis using 3 r'(1,2,5) upd_items_node(2) [OF Bucket.prems(2) 3] near_mono [of "?n + 4" t "6 * levels (Bucket l r b h j e) + 6"] by auto
  qed
qed

section \<open>Removal\<close>

definition del_items :: "u32 \<Rightarrow> (u32 \<times> ptr) list \<Rightarrow> (u32 \<times> ptr) list" where
  "del_items i es = filter (\<lambda>e. fst e \<noteq> i) es"

lemma del_items_map: "map_of (del_items i es) = (map_of es)(i := None)"
  using map_of_filter_key [of "\<lambda>k. k \<noteq> i" es] by (auto simp: fun_eq_iff del_items_def)

lemma del_items_sorted: "sorted_wrt (<) (map fst es) \<Longrightarrow> sorted_wrt (<) (map fst (del_items i es))"
  by (simp add: del_items_def sorted_wrt_map sorted_wrt_filter)

lemma del_items_node:
  assumes "search_tree (Bucket l r b h j e)"
  shows "i < j \<Longrightarrow> del_items i (items (Bucket l r b h j e)) = del_items i (items l) @ (j, e) # items r"
    and "j < i \<Longrightarrow> del_items i (items (Bucket l r b h j e)) = items l @ (j, e) # del_items i (items r)"
    and "del_items j (items (Bucket l r b h j e)) = items l @ items r"
proof -
  have l: "\<And>e. e \<in> set (items l) \<Longrightarrow> fst e < j" and r: "\<And>e. e \<in> set (items r) \<Longrightarrow> j < fst e"
    using assms by (auto simp: search_tree_Bucket)
  have L: "filter (\<lambda>e. fst e \<noteq> k) (items l) = items l" if "j \<le> k" for k using l that by (fastforce intro!: filter_all)
  have R: "filter (\<lambda>e. fst e \<noteq> k) (items r) = items r" if "k \<le> j" for k using r that by (fastforce intro!: filter_all)
  show "i < j \<Longrightarrow> del_items i (items (Bucket l r b h j e)) = del_items i (items l) @ (j, e) # items r"
    using R [of i] by (auto simp: del_items_def)
  show "j < i \<Longrightarrow> del_items i (items (Bucket l r b h j e)) = items l @ (j, e) # del_items i (items r)"
    using L [of i] by (auto simp: del_items_def)
  show "del_items j (items (Bucket l r b h j e)) = items l @ items r" using L [of j] R [of j] by (simp add: del_items_def)
qed

lemma max_item: "t \<noteq> Null \<Longrightarrow> \<exists>es d. items t = es @ [(tree_max_index t, d)]"
proof (induction t)
  case (Bucket l r b h i d)
  then show ?case by (cases "r = Null") auto
qed simp

lemma take_max:
  assumes "search_tree t" and "t \<noteq> Null"
  obtains d l r b h j where "tree_get t (tree_max_index t) = Bucket l r b h j d"
    and "items t = del_items (tree_max_index t) (items t) @ [(tree_max_index t, d)]"
proof -
  let ?m = "tree_max_index t"
  obtain es d where es: "items t = es @ [(?m, d)]" using max_item [OF assms(2)] by blast
  have less: "\<And>e. e \<in> set es \<Longrightarrow> fst e < ?m" using assms(1) es by (force simp: search_tree_def sorted_wrt_append)
  then have "?m \<notin> fst ` set es" by force
  then have "map_of es ?m = None" by (simp only: map_of_eq_None_iff not_False_eq_True)
  then have "item_map t ?m = Some d" using es by (simp add: item_map_def map_add_def)
  then obtain l r b h j where "tree_get t ?m = Bucket l r b h j d"
    using tree_get_item [OF assms(1), of ?m] by (auto split: rtree.splits)
  moreover have "del_items ?m (items t) = es" using less es by (fastforce simp: del_items_def intro!: filter_all)
  ultimately show thesis using that es by metis
qed

lemma tree_del_ok:
  assumes "avl t" and "search_tree t" and "outcomes st = []" and "6 * levels t + 6 < 2 ^ 30"
  shows "\<exists>t' st'. tree_del st t i = Some (t', st') \<and> items t' = del_items i (items t) \<and> near (6 * levels t + 6) t' \<and>
    ch t' \<le> levels t \<and> outcomes st' = []"
  using assms
proof (induction t arbitrary: i st)
  case Null
  then show ?case by (simp add: del_items_def)
next
  case (Bucket l r b h j e)
  let ?t = "Bucket l r b h j e"
  let ?N = "6 * levels ?t + 6" and ?n = "6 * levels ?t + 1"
  have s: "levels l < levels ?t" "levels r < levels ?t" by auto
  have lv: "levels l < 2 ^ 30" "levels r < 2 ^ 30" using Bucket.prems(4) by auto
  then have h: "unat h = max (levels l) (levels r)" using Bucket.prems(1) by (simp add: unat_of_nat take_bit_nat_eq_self del: of_nat_max)
  have hb: "unat h < 2 ^ 30" using lv unfolding h by simp
  have L: "near (levels l) l" "root_ok l" "near (levels r) r" "root_ok r" "ch l = levels l" "ch r = levels r"
    using avl_root [of l] avl_root [of r] Bucket.prems(1,4) s by auto
  have N: "near ?N l" "near ?N r" "near ?n r" using L(1,3) s by (auto elim!: near_mono)
  have sub: "avl l" "avl r" "search_tree l" "search_tree r" "6 * levels l + 6 < 2 ^ 30" "6 * levels r + 6 < 2 ^ 30"
    using Bucket.prems s by (auto simp: search_tree_Bucket)
  have node: "ch (Bucket l' r' b h j e) \<le> levels ?t" "near ?N (Bucket l' r' b h j e)"
    if "near ?N l'" "near ?N r'" "ch l' \<le> levels l" "ch r' \<le> levels r" for l' r'
    using that h by (auto simp: ch_Bucket [OF hb])
  consider "i < j" | "j < i" | "i = j" "l = Null" | "i = j" "l \<noteq> Null" "r = Null" | "i = j" "l \<noteq> Null" "r \<noteq> Null"
    by (metis linorder_neqE)
  then show ?case
  proof cases
    case 1
    obtain l' st' where l': "tree_del st l i = Some (l', st')" "items l' = del_items i (items l)" "near (6 * levels l + 6) l'"
      "ch l' \<le> levels l" "outcomes st' = []" using Bucket.IH(1) [OF sub(1,3) Bucket.prems(3) sub(5)] by blast
    then have "near ?N l'" using s by (auto elim!: near_mono)
    then show ?thesis using 1 l' node [OF _ N(2) l'(4)] L(6) del_items_node(1) [OF Bucket.prems(2) 1] by auto
  next
    case 2
    obtain r' st' where r': "tree_del st r i = Some (r', st')" "items r' = del_items i (items r)" "near (6 * levels r + 6) r'"
      "ch r' \<le> levels r" "outcomes st' = []" using Bucket.IH(2) [OF sub(2,4) Bucket.prems(3) sub(6)] by blast
    then have "near ?N r'" using s by (auto elim!: near_mono)
    then show ?thesis using 2 r' node [OF N(1) _ _ r'(4)] L(5) del_items_node(2) [OF Bucket.prems(2) 2] by auto
  next
    case 3
    then show ?thesis using del_items_node(3) [OF Bucket.prems(2)] N L(6) Bucket.prems(3) by auto
  next
    case 4
    then show ?thesis using del_items_node(3) [OF Bucket.prems(2)] N L(5) Bucket.prems(3) by auto
  next
    case 5
    let ?m = "tree_max_index l"
    obtain d xl xr xb xh xj where m: "tree_get l ?m = Bucket xl xr xb xh xj d" "items l = del_items ?m (items l) @ [(?m, d)]"
      by (rule take_max [OF sub(3) 5(2)])
    let ?st = "st\<lparr>live := live st + 1\<rparr>"
    obtain l' st' where l': "tree_del ?st l ?m = Some (l', st')" "items l' = del_items ?m (items l)" "near (6 * levels l + 6) l'"
      "ch l' \<le> levels l" "outcomes st' = []" using Bucket.IH(1) [OF sub(1,3) _ sub(5), of ?st ?m] Bucket.prems(3) by auto
    have "near ?n l'" using l'(3) s by (auto elim!: near_mono)
    moreover have "\<not> ch r + 2 \<le> ch l'" using l'(4) L(6) Bucket.prems(1) by auto
    ultimately obtain root t where t: "update_height_balance (Bucket l' r 0 0 ?m d) = Some root" "tree_balance root = Some t"
      "items t = items (Bucket l' r 0 0 ?m d)" "near (?n + 4) t" "ch t \<le> Suc (max (ch l') (ch r))"
      using tree_balance_ok [OF _ N(3) _ _ L(4)] Bucket.prems(4) by fastforce
    have "items t = items l @ items r" using t(3) l'(2) by (subst m(2)) simp
    then have "items t = del_items i (items ?t)" using del_items_node(3) [OF Bucket.prems(2)] 5(1) by simp
    moreover have "near ?N t" "ch t \<le> levels ?t" using t(4,5) l'(4) L(6) by (auto elim!: near_mono)
    moreover have "tree_del st ?t i = Some (t, tfree st')"
      using 5 m(1) l'(1) t(1,2) Bucket.prems(3) by (simp add: new_bucket_def tmalloc_ok)
    ultimately show ?thesis using l'(5) by simp
  qed
qed

section \<open>The table as a map\<close>

definition index_inv :: "robjects \<Rightarrow> bool" where
  "index_inv s \<longleftrightarrow> length (ro_table s) = 256 \<and> outcomes (ro_mem s) = [] \<and>
     (\<forall>t \<in> set (ro_table s). avl t \<and> search_tree t \<and> 6 * levels t + 6 < 2 ^ 30)"

lemma robject_get_map:
  assumes "search_tree (ro_table s ! unat (index_hash i))"
  shows "robject_get s i = (case item_map (ro_table s ! unat (index_hash i)) i of None \<Rightarrow> 0 | Some d \<Rightarrow> d)"
  using tree_get_item [OF assms, of i, symmetric] by (auto simp: robject_get_def index_get_def split: rtree.split)

text \<open>
  C20. The index finds objects: where the trees store their true heights and are balanced, registering an
  object, replacing it and removing it return, and a lookup then gives what was registered last for that index
  and is unchanged for every other index.\<close>

theorem robject_set_get:
  assumes "index_inv s"
  shows "\<exists>s'. robject_set s i ro = Some s' \<and> (\<forall>k. robject_get s' k = (if k = i then ro else robject_get s k))"
proof -
  let ?h = "unat (index_hash i)"
  let ?t = "ro_table s ! ?h"
  have len: "unat (index_hash k) < length (ro_table s)" for k using assms unsigned_less [of "index_hash k"] by (simp add: index_inv_def)
  have T: "avl (ro_table s ! unat (index_hash k))" "search_tree (ro_table s ! unat (index_hash k))" "6 * levels (ro_table s ! unat (index_hash k)) + 6 < 2 ^ 30"
    "outcomes (ro_mem s) = []" for k using assms nth_mem [OF len [of k]] by (auto simp: index_inv_def)
  obtain t st where t: "robject_set s i ro = Some (s\<lparr>ro_table := (ro_table s)[?h := t], ro_mem := st\<rparr>)"
    "search_tree t" "item_map t = (item_map ?t)(i := if ro = 0 then None else Some ro)"
  proof (cases "ro = 0")
    case True
    obtain t st where "tree_del (ro_mem s) ?t i = Some (t, st)" "items t = del_items i (items ?t)"
      using tree_del_ok [OF T(1,2,4,3)] by blast
    then show thesis using that [of st t] True T(2) [of i]
      by (simp add: robject_set_def index_del_def Let_def item_map_def del_items_map search_tree_def del_items_sorted)
  next
    case False
    obtain t st where "tree_set (ro_mem s) ?t i ro = Some (t, st)" "items t = upd_items i ro (items ?t)"
      using tree_set_ok [OF T(1,2,4,3)] by blast
    then show thesis using that [of st t] False T(2) [of i]
      by (simp add: robject_set_def index_set_def Let_def item_map_def upd_items_map search_tree_def upd_items_sorted)
  qed
  let ?s = "s\<lparr>ro_table := (ro_table s)[?h := t], ro_mem := st\<rparr>"
  have "robject_get ?s k = (if k = i then ro else robject_get s k)" for k
  proof (cases "index_hash k = index_hash i")
    case True
    then show ?thesis using t(2,3) T(2) [of k] len [of i] by (simp add: robject_get_map)
  next
    case False
    then have "unat (index_hash k) \<noteq> ?h" by (simp add: unsigned_word_eqI word_unat_eq_iff)
    then show ?thesis using T(2) [of k] False by (auto simp: robject_get_map)
  qed
  then show ?thesis using t(1) by blast
qed

theorem robject_set_get_witness:
  "\<exists>s'. robject_set robjects_init 7 0x1000 = Some s' \<and> (\<forall>k. robject_get s' k = (if k = 7 then 0x1000 else robject_get robjects_init k))"
  by (rule robject_set_get) (simp add: index_inv_def robjects_init_def search_tree_def)

text \<open>
  The index loses track of its heights: the double rotation leaves a stale height and balance in a node, and
  after registering three objects whose indices share a bucket in the order smallest, largest, middle,
  removing the middle one follows a null pointer.\<close>

theorem robject_index_crash:
  assumes "i < j" and "j < k" and "index_hash i = index_hash k" and "index_hash j = index_hash k"
    and "a \<noteq> 0" and "b \<noteq> 0" and "c \<noteq> 0"
  shows "do { s \<leftarrow> robject_set robjects_init i a; s \<leftarrow> robject_set s k b; s \<leftarrow> robject_set s j c; robject_set s j 0 } = None"
proof -
  have "i < k" using assms(1,2) by (rule less_trans)
  then have ne: "i \<noteq> k" "j \<noteq> k" "i \<noteq> j" "\<not> k < i" "\<not> j < i" "\<not> k < j" using assms(1,2) by auto
  have "unat (index_hash k) < 256" using unsigned_less [of "index_hash k"] by simp
  then show ?thesis using assms ne \<open>i < k\<close>
    by (simp add: robject_set_def index_set_def index_del_def robjects_init_def Let_def new_bucket_def tmalloc_ok
      update_height_balance_def child_height_def tree_balance_def inner_right_def)
qed

theorem robject_index_crash_witness:
  "do { s \<leftarrow> robject_set robjects_init 0x1E1 1; s \<leftarrow> robject_set s 0x3A3 1; s \<leftarrow> robject_set s 0x2C2 1; robject_set s 0x2C2 0 } = None"
  by (rule robject_index_crash) (simp_all add: index_hash_def Let_def)

end
