(* ===== verification/Lookup_Table.thy ===== *)
theory Lookup_Table
  imports C_Alloc
begin

text \<open>
  The general purpose lookup table of \<open>libc/struct/table.c\<close>: a hash table from strings to pointers whose
  array of buckets doubles and halves with its load. A bucket is the entry in the array with the list of
  the entries that its \<open>next\<close> pointers lead to. A string is the list of its bytes before the
  terminator, and \<^const>\<open>None\<close> is a null pointer in a \<open>string\<close> field. Memory comes from \<open>malloc\<close> as \<open>C_Alloc\<close> has it.
\<close>

section \<open>The table\<close>

record s_table_entry =
  e_hash :: u32
  e_string :: "u8 list option"
  e_data :: ptr

type_synonym bucket = "s_table_entry \<times> s_table_entry list"

record s_table =
  t_size :: u32
  t_load :: u32
  t_table :: "bucket list"

definition table_hash :: "u8 list \<Rightarrow> u32" where
  "table_hash key = foldl (\<lambda>hash c. push_bit 16 hash + push_bit 6 hash - hash + ucast c) 0 key"

text \<open>The position of a hash in the array.\<close>

definition slot :: "s_table \<Rightarrow> u32 \<Rightarrow> nat" where
  "slot t hash = unat (hash AND (push_bit (unat (t_size t)) 1 - 1))"

definition bucket_at :: "s_table \<Rightarrow> nat \<Rightarrow> bucket option" where
  "bucket_at t i = (if i < length (t_table t) then Some (t_table t ! i) else None)"

definition clear_entry :: s_table_entry where
  "clear_entry = \<lparr>e_hash = 0, e_string = None, e_data = 0\<rparr>"

text \<open>From size 28 on, the number of bytes asked for wraps and the array does not fit into the block.\<close>

definition table_cons :: "tmem \<Rightarrow> u32 \<Rightarrow> (s_table \<times> tmem) option" where
  "table_cons st sz = (
     let (ok, st) = tmalloc st in
     if \<not> ok \<or> sz \<ge> 28 then None
     else Some (\<lparr>t_size = sz, t_load = 0, t_table = replicate (2 ^ unat sz) (clear_entry, [])\<rparr>, st))"

definition free_chain :: "s_table_entry list \<Rightarrow> tmem \<Rightarrow> tmem" where
  "free_chain es st = fold (\<lambda>e st. tfree (tfree_string (e_string e) st)) es st"

definition table_free :: "s_table \<Rightarrow> tmem \<Rightarrow> tmem option" where
  "table_free t st = do {
     st \<leftarrow> for_list (\<lambda>i st. do {
       (entry, next) \<leftarrow> bucket_at t i;
       Some (if e_string entry \<noteq> None then free_chain next (tfree_string (e_string entry) st) else st)
     }) [0..<2 ^ unat (t_size t)] st;
     Some (tfree st)
   }"

definition fill_head :: "s_table \<Rightarrow> nat \<Rightarrow> tmem \<Rightarrow> u8 list option \<Rightarrow> u32 \<Rightarrow> ptr \<Rightarrow> (s_table \<times> tmem) option" where
  "fill_head t i st field hash data = do {
     (_, next) \<leftarrow> bucket_at t i;
     (p, st) \<leftarrow> strdup st field;
     Some (t\<lparr>t_table := (t_table t)[i := (\<lparr>e_hash = hash, e_string = p, e_data = data\<rparr>, next)], t_load := t_load t + 1\<rparr>, st)
   }"

text \<open>The new entry at the end of the list of a bucket.\<close>

definition append_entry :: "s_table \<Rightarrow> nat \<Rightarrow> tmem \<Rightarrow> u8 list option \<Rightarrow> u32 \<Rightarrow> ptr \<Rightarrow> (s_table \<times> tmem) option" where
  "append_entry t i st field hash data = do {
     (entry, next) \<leftarrow> bucket_at t i;
     let (ok, st) = tmalloc st;
     if \<not> ok then None
     else do {
       (p, st) \<leftarrow> strdup st field;
       Some (t\<lparr>t_table := (t_table t)[i := (entry, next @ [\<lparr>e_hash = hash, e_string = p, e_data = data\<rparr>])]\<rparr>, st)
     }
   }"

definition table_add :: "s_table \<Rightarrow> tmem \<Rightarrow> u8 list option \<Rightarrow> u32 \<Rightarrow> ptr \<Rightarrow> (s_table \<times> tmem) option" where
  "table_add t st field hash data = do {
     let i = slot t hash;
     (entry, next) \<leftarrow> bucket_at t i;
     if e_string entry = None then fill_head t i st field hash data
     else append_entry t i st field hash data
   }"

definition table_resize :: "s_table \<Rightarrow> tmem \<Rightarrow> u32 \<Rightarrow> (s_table \<times> tmem) option" where
  "table_resize t st sz = do {
     s \<leftarrow> table_cons st sz;
     (n, st) \<leftarrow> for_list (\<lambda>i s. do {
       (entry, next) \<leftarrow> bucket_at t i;
       if e_string entry \<noteq> None
       then for_list (\<lambda>e (n, st). table_add n st (e_string e) (e_hash e) (e_data e)) (entry # next) s
       else Some s
     }) [0..<2 ^ unat (t_size t)] s;
     st \<leftarrow> table_free t st;
     Some (n, st)
   }"

text \<open>The test of an entry: \<open>strcmp\<close> faults on a null pointer, and is only called when the hashes agree.\<close>

definition entry_is :: "s_table_entry \<Rightarrow> u32 \<Rightarrow> u8 list \<Rightarrow> bool option" where
  "entry_is e hash field = (if e_hash e \<noteq> hash then Some False else map_option (\<lambda>s. s = field) (e_string e))"

primrec set_next :: "s_table_entry list \<Rightarrow> u32 \<Rightarrow> u8 list \<Rightarrow> ptr \<Rightarrow> s_table_entry list option option" where
  "set_next [] hash field data = Some None"
| "set_next (e # es) hash field data = do {
     eq \<leftarrow> entry_is e hash field;
     if eq then Some (Some (e\<lparr>e_data := data\<rparr> # es))
     else do { r \<leftarrow> set_next es hash field data; Some (map_option ((#) e) r) }
   }"

definition table_set :: "s_table \<Rightarrow> tmem \<Rightarrow> u8 list \<Rightarrow> ptr \<Rightarrow> (s_table \<times> tmem) option" where
  "table_set t st field data = do {
     let hash = table_hash field;
     let i = slot t hash;
     (entry, next) \<leftarrow> bucket_at t i;
     if e_string entry = None then fill_head t i st (Some field) hash data
     else do {
       eq \<leftarrow> entry_is entry hash field;
       if eq then Some (t\<lparr>t_table := (t_table t)[i := (entry\<lparr>e_data := data\<rparr>, next)]\<rparr>, st)
       else do {
         r \<leftarrow> set_next next hash field data;
         case r of
           Some es \<Rightarrow> Some (t\<lparr>t_table := (t_table t)[i := (entry, es)]\<rparr>, st)
         | None \<Rightarrow> append_entry t i st (Some field) hash data
       }
     }
   }"

text \<open>The list without the first entry of that name, with its string, if it is there.\<close>

primrec del_next :: "s_table_entry list \<Rightarrow> u32 \<Rightarrow> u8 list \<Rightarrow> (s_table_entry list \<times> u8 list option) option option" where
  "del_next [] hash field = Some None"
| "del_next (e # es) hash field = do {
     eq \<leftarrow> entry_is e hash field;
     if eq then Some (Some (es, e_string e))
     else do { r \<leftarrow> del_next es hash field; Some (map_option (apfst ((#) e)) r) }
   }"

definition table_del :: "s_table \<Rightarrow> tmem \<Rightarrow> u8 list \<Rightarrow> (s_table \<times> tmem) option" where
  "table_del t st field = do {
     let hash = table_hash field;
     let i = slot t hash;
     (entry, next) \<leftarrow> bucket_at t i;
     if e_string entry = None then Some (t, st)
     else do {
       eq \<leftarrow> entry_is entry hash field;
       if eq then (case next of
           temp # es \<Rightarrow> Some (t\<lparr>t_table := (t_table t)[i := (temp, es)]\<rparr>, tfree (tfree_string (e_string entry) st))
         | [] \<Rightarrow> Some (t\<lparr>t_table := (t_table t)[i := (entry\<lparr>e_string := None\<rparr>, [])], t_load := t_load t - 1\<rparr>,
             tfree_string (e_string entry) st))
       else do {
         r \<leftarrow> del_next next hash field;
         case r of
           None \<Rightarrow> Some (t, st)
         | Some (es, s) \<Rightarrow> Some (t\<lparr>t_table := (t_table t)[i := (entry, es)]\<rparr>, tfree (tfree_string s st))
       }
     }
   }"

primrec get_entry :: "s_table_entry list \<Rightarrow> u32 \<Rightarrow> u8 list \<Rightarrow> ptr option" where
  "get_entry [] hash field = Some 0"
| "get_entry (e # es) hash field = do {
     eq \<leftarrow> entry_is e hash field;
     if eq then Some (e_data e) else get_entry es hash field
   }"

definition table_get :: "s_table \<Rightarrow> u8 list \<Rightarrow> ptr option" where
  "table_get t field = do {
     let hash = table_hash field;
     (entry, next) \<leftarrow> bucket_at t (slot t hash);
     if e_string entry = None then Some 0 else get_entry (entry # next) hash field
   }"

text \<open>The function that is called for every entry changes the state of its caller.\<close>

definition table_iter :: "(u8 list option \<Rightarrow> ptr \<Rightarrow> 'c \<Rightarrow> 'c option) \<Rightarrow> s_table \<Rightarrow> 'c \<Rightarrow> 'c option" where
  "table_iter func t = for_list (\<lambda>i c. do {
       (entry, next) \<leftarrow> bucket_at t i;
       if e_string entry = None then Some c
       else for_list (\<lambda>e. func (e_string e) (e_data e)) (entry # next) c
     }) [0..<2 ^ unat (t_size t)]"

text \<open>The bytes of the string from its start to a null byte, and the byte of flags behind them.\<close>

function itostring_loop :: "nat \<Rightarrow> u32 \<Rightarrow> u8 list \<times> u8" where
  "itostring_loop i x = (
     if i < 4 then
       if x = 0 then ([0], 0)
       else let b = ucast x; (bs, flags) = itostring_loop (i + 1) (drop_bit 8 x)
         in if b = 0 then (0xFF # bs, flags OR push_bit i 1) else (b # bs, flags)
     else ([0], 0))"
  by pat_completeness auto
termination by (relation "measure (\<lambda>(i, x). 4 - i)") auto

definition itostring :: "tmem \<Rightarrow> u32 \<Rightarrow> (u8 list \<times> tmem) option" where
  "itostring st x = (let (ok, st) = tmalloc st in
     if \<not> ok then None else Some (takeWhile (\<lambda>b. b \<noteq> 0) (fst (itostring_loop 0 x)), st))"

section \<open>The interface\<close>

definition s_table_set :: "tmem \<Rightarrow> s_table option \<Rightarrow> u8 list option \<Rightarrow> ptr \<Rightarrow> (s_table option \<times> tmem) option" where
  "s_table_set st table field data = (case field of None \<Rightarrow> Some (table, st) | Some field \<Rightarrow> do {
     (t, st) \<leftarrow> (case table of Some t \<Rightarrow> Some (t, st) | None \<Rightarrow> table_cons st 6);
     (t, st) \<leftarrow> (if data \<noteq> 0 then do {
         (t, st) \<leftarrow> table_set t st field data;
         if t_load t > drop_bit 2 (push_bit (unat (t_size t)) 3) then table_resize t st (t_size t + 1) else Some (t, st)
       }
       else do {
         (t, st) \<leftarrow> table_del t st field;
         if t_size t > 6 \<and> t_load t < drop_bit 3 (push_bit (unat (t_size t)) 1) then table_resize t st (t_size t - 1) else Some (t, st)
       });
     Some (Some t, st)
   })"

definition s_table_get :: "s_table option \<Rightarrow> u8 list option \<Rightarrow> ptr option" where
  "s_table_get table field = (case (table, field) of (Some t, Some f) \<Rightarrow> table_get t f | _ \<Rightarrow> Some 0)"

definition s_table_free :: "tmem \<Rightarrow> s_table option \<Rightarrow> tmem option" where
  "s_table_free st table = do { t \<leftarrow> table; table_free t st }"

definition s_table_iter :: "(u8 list option \<Rightarrow> ptr \<Rightarrow> 'c \<Rightarrow> 'c option) \<Rightarrow> s_table option \<Rightarrow> 'c \<Rightarrow> 'c option" where
  "s_table_iter func table c = (case table of None \<Rightarrow> Some c | Some t \<Rightarrow> table_iter func t c)"

text \<open>The formatted string, a null pointer when there is no memory for it, is an argument of the next two.\<close>

definition s_table_setv :: "tmem \<Rightarrow> s_table option \<Rightarrow> ptr \<Rightarrow> u8 list option \<Rightarrow> (s_table option \<times> tmem) option" where
  "s_table_setv st table data formatted = (case formatted of None \<Rightarrow> Some (table, st) | Some f \<Rightarrow> do {
     (table, st) \<leftarrow> s_table_set st table (Some f) data;
     Some (table, tfree st)
   })"

definition s_table_getv :: "tmem \<Rightarrow> s_table option \<Rightarrow> u8 list option \<Rightarrow> (ptr \<times> tmem) option" where
  "s_table_getv st table formatted = (case formatted of None \<Rightarrow> Some (0, st) | Some f \<Rightarrow> do {
     data \<leftarrow> s_table_get table (Some f);
     Some (data, tfree st)
   })"

definition s_table_seti :: "tmem \<Rightarrow> s_table option \<Rightarrow> u32 \<Rightarrow> ptr \<Rightarrow> (s_table option \<times> tmem) option" where
  "s_table_seti st table field data = do {
     (f, st) \<leftarrow> itostring st field;
     (table, st) \<leftarrow> s_table_set st table (Some f) data;
     Some (table, tfree st)
   }"

definition s_table_geti :: "tmem \<Rightarrow> s_table option \<Rightarrow> u32 \<Rightarrow> (ptr \<times> tmem) option" where
  "s_table_geti st table field = do {
     (f, st) \<leftarrow> itostring st field;
     data \<leftarrow> s_table_get table (Some f);
     Some (data, tfree st)
   }"

end
