(* ===== verification/Lookup_Table_Rep.thy ===== *)
theory Lookup_Table_Rep
  imports Lookup_Table
begin

text \<open>
  The lookup table implements a map from strings to pointers. Every bucket holds the entries whose hash
  leads to it, once each; \<open>load\<close> counts the buckets in use; and the blocks of memory in use are those of
  the table. The operations keep this and change the map in one place, so the table is an instance of
  the contract \<open>value_map\<close>, from which the theorems on sequences of calls follow.
\<close>

section \<open>The invariant and the abstraction\<close>

definition entries :: "bucket \<Rightarrow> s_table_entry list" where
  "entries b = (if e_string (fst b) = None then [] else fst b # snd b)"

definition entry_ok :: "s_table_entry \<Rightarrow> bool" where
  "entry_ok e \<longleftrightarrow> e_string e \<noteq> None \<and> e_hash e = table_hash (the (e_string e)) \<and> e_data e \<noteq> 0"

definition key :: "s_table_entry \<Rightarrow> u8 list" where
  "key e = the (e_string e)"

definition home :: "nat \<Rightarrow> u8 list \<Rightarrow> nat" where
  "home n f = unat (take_bit n (table_hash f))"

definition bucket_ok :: "nat \<Rightarrow> nat \<Rightarrow> bucket \<Rightarrow> bool" where
  "bucket_ok n i b \<longleftrightarrow> (e_string (fst b) = None \<longrightarrow> snd b = []) \<and> (\<forall>e \<in> set (entries b). entry_ok e \<and> home n (key e) = i) \<and>
     distinct (map key (entries b))"

definition bucket_load :: "bucket \<Rightarrow> u32" where
  "bucket_load b = (if entries b = [] then 0 else 1)"

definition bucket_blocks :: "bucket \<Rightarrow> int" where
  "bucket_blocks b = (if entries b = [] then 0 else 2 * int (length (entries b)) - 1)"

definition table_inv :: "s_table \<Rightarrow> bool" where
  "table_inv t \<longleftrightarrow> 6 \<le> t_size t \<and> t_size t < 28 \<and> length (t_table t) = 2 ^ unat (t_size t) \<and>
     (\<forall>i < length (t_table t). bucket_ok (unat (t_size t)) i (t_table t ! i)) \<and>
     t_load t = sum_list (map bucket_load (t_table t))"

definition emap :: "s_table_entry list \<Rightarrow> u8 list \<Rightarrow> ptr option" where
  "emap es = map_of (map (\<lambda>e. (key e, e_data e)) es)"

definition tmap :: "s_table \<Rightarrow> u8 list \<Rightarrow> ptr option" where
  "tmap t f = emap (entries (t_table t ! slot t (table_hash f))) f"

definition blocks :: "s_table \<Rightarrow> int" where
  "blocks t = 1 + sum_list (map bucket_blocks (t_table t))"

lemma sum_list_upd:
  fixes g :: "'a \<Rightarrow> 'b::ab_group_add"
  shows "i < length xs \<Longrightarrow> sum_list (map g (xs[i := v])) = sum_list (map g xs) - g (xs ! i) + g v"
proof (induction xs arbitrary: i)
  case (Cons x xs)
  then show ?case by (cases i) (auto simp: algebra_simps)
qed simp

lemma slot_home: "slot t (table_hash f) = home (unat (t_size t)) f"
proof -
  have "push_bit n 1 - 1 = (mask n :: u32)" for n by (simp add: mask_eq_exp_minus_1 push_bit_eq_mult)
  then show ?thesis by (simp add: slot_def home_def take_bit_eq_mask)
qed

lemma home_less: "n < 32 \<Longrightarrow> home n f < 2 ^ n"
  by (simp add: home_def unsigned_take_bit_eq)

lemma table_inv_slot:
  assumes "table_inv t"
  shows "home (unat (t_size t)) f < length (t_table t)"
proof -
  have "unat (t_size t) < 32" using assms unat_mono [of "t_size t" 28] by (simp add: table_inv_def)
  then show ?thesis using home_less assms by (simp add: table_inv_def)
qed

text \<open>A bucket is replaced by another one for the same position.\<close>

lemma table_upd:
  assumes "table_inv t" and "i < length (t_table t)" and "bucket_ok (unat (t_size t)) i b"
    and "l = t_load t - bucket_load (t_table t ! i) + bucket_load b"
  defines "t' \<equiv> t\<lparr>t_table := (t_table t)[i := b], t_load := l\<rparr>"
  shows "table_inv t'" and "tmap t' f = (if home (unat (t_size t)) f = i then emap (entries b) f else tmap t f)"
    and "blocks t' = blocks t - bucket_blocks (t_table t ! i) + bucket_blocks b"
proof -
  show "table_inv t'" using assms by (auto simp: table_inv_def sum_list_upd nth_list_update)
  have "t_size t' = t_size t" by (simp add: t'_def)
  then show "tmap t' f = (if home (unat (t_size t)) f = i then emap (entries b) f else tmap t f)"
    using assms(2) by (auto simp: tmap_def slot_home t'_def)
  show "blocks t' = blocks t - bucket_blocks (t_table t ! i) + bucket_blocks b"
    using assms(2) by (simp add: blocks_def t'_def sum_list_upd)
qed

section \<open>Lists of entries\<close>

lemma emap_simps [simp]: "emap [] = Map.empty" "emap (e # es) = (emap es)(key e \<mapsto> e_data e)"
  by (simp_all add: emap_def)

lemma emap_append: "emap (es @ fs) = emap fs ++ emap es"
  by (simp add: emap_def)

lemma emap_None: "emap es f = None \<longleftrightarrow> f \<notin> key ` set es"
  by (induction es) auto

lemma entry_is_ok: "entry_ok e \<Longrightarrow> entry_is e (table_hash f) f = Some (key e = f)"
  by (auto simp: entry_is_def entry_ok_def key_def)

lemma get_entry_ok: "\<forall>e \<in> set es. entry_ok e \<Longrightarrow> get_entry es (table_hash f) f = Some (case emap es f of None \<Rightarrow> 0 | Some d \<Rightarrow> d)"
  by (induction es) (auto simp: entry_is_ok)

lemma set_next_none: "\<forall>e \<in> set es. entry_ok e \<Longrightarrow> f \<notin> key ` set es \<Longrightarrow> set_next es (table_hash f) f d = Some None"
  by (induction es) (auto simp: entry_is_ok)

lemma del_next_none: "\<forall>e \<in> set es. entry_ok e \<Longrightarrow> f \<notin> key ` set es \<Longrightarrow> del_next es (table_hash f) f = Some None"
  by (induction es) (auto simp: entry_is_ok)

lemma set_next_some:
  assumes "\<forall>e \<in> set es. entry_ok e" and "d \<noteq> 0" and "f \<in> key ` set es"
  shows "\<exists>es'. set_next es (table_hash f) f d = Some (Some es') \<and> (\<forall>e \<in> set es'. entry_ok e) \<and>
    map key es' = map key es \<and> emap es' = (emap es)(f \<mapsto> d)"
  using assms(1,3)
proof (induction es)
  case (Cons e es)
  show ?case
  proof (cases "key e = f")
    case True
    then show ?thesis using Cons.prems assms(2) by (auto simp: entry_is_ok entry_ok_def key_def)
  next
    case False
    then obtain es' where "set_next es (table_hash f) f d = Some (Some es')" "\<forall>e \<in> set es'. entry_ok e"
      "map key es' = map key es" "emap es' = (emap es)(f \<mapsto> d)" using Cons by (auto simp del: fun_upd_apply)
    then show ?thesis using Cons.prems False by (simp add: entry_is_ok fun_upd_twist del: fun_upd_apply)
  qed
qed simp

lemma del_next_some:
  assumes "\<forall>e \<in> set es. entry_ok e" and "distinct (map key es)" and "f \<in> key ` set es"
  shows "\<exists>es' s. del_next es (table_hash f) f = Some (Some (es', Some s)) \<and> set es' \<subseteq> set es \<and> distinct (map key es') \<and>
    length es = Suc (length es') \<and> emap es' = (emap es)(f := None)"
  using assms
proof (induction es)
  case (Cons e es)
  show ?case
  proof (cases "key e = f")
    case True
    then have "emap es f = None" using Cons.prems by (auto simp: emap_None)
    then show ?thesis using Cons.prems True by (auto simp: entry_is_ok entry_ok_def fun_upd_idem)
  next
    case False
    then obtain es' s where I: "del_next es (table_hash f) f = Some (Some (es', Some s))" "set es' \<subseteq> set es"
      "distinct (map key es')" "length es = Suc (length es')" "emap es' = (emap es)(f := None)" using Cons by (auto simp del: fun_upd_apply)
    then have "set (e # es') \<subseteq> set (e # es)" "distinct (map key (e # es'))" using Cons.prems by auto
    then show ?thesis using I Cons.prems False by (simp add: entry_is_ok fun_upd_twist del: fun_upd_apply)
  qed
qed simp

section \<open>Operations on one bucket\<close>

text \<open>What an operation keeps: the invariant, the size, the outcomes of \<open>malloc\<close> and the account of blocks.\<close>

definition step_ok :: "s_table \<Rightarrow> tmem \<Rightarrow> (u8 list \<Rightarrow> ptr option) \<Rightarrow> s_table \<Rightarrow> tmem \<Rightarrow> bool" where
  "step_ok t st m t' st' \<longleftrightarrow> table_inv t' \<and> t_size t' = t_size t \<and> tmap t' = m \<and> outcomes st' = [] \<and>
     live st' - blocks t' = live st - blocks t"

lemma bucket_step:
  assumes "table_inv t" and "i = home (unat (t_size t)) f" and "t_table t ! i = a" and "bucket_ok (unat (t_size t)) i b"
    and "emap (entries b) = (emap (entries a))(f := v)"
    and "l = t_load t - bucket_load a + bucket_load b"
    and "outcomes st' = []" and "live st' - live st = bucket_blocks b - bucket_blocks a"
  shows "step_ok t st ((tmap t)(f := v)) (t\<lparr>t_table := (t_table t)[i := b], t_load := l\<rparr>) st'"
proof -
  have i: "i < length (t_table t)" using table_inv_slot [OF assms(1)] assms(2) by simp
  have other: "home (unat (t_size t)) g = i \<Longrightarrow> tmap t g = emap (entries a) g" for g
    using assms(3) by (simp add: tmap_def slot_home)
  note u = table_upd [OF assms(1) i assms(4), of l]
  have "tmap (t\<lparr>t_table := (t_table t)[i := b], t_load := l\<rparr>) g = ((tmap t)(f := v)) g" for g
    using u(2) [of g] assms(2,3,5,6) other by simp
  then have "tmap (t\<lparr>t_table := (t_table t)[i := b], t_load := l\<rparr>) = (tmap t)(f := v)" by (rule ext)
  then show ?thesis using u(1,3) assms(3,6-8) by (simp add: step_ok_def)
qed

lemma bucket_at_home:
  assumes "table_inv t"
  shows "bucket_at t (home (unat (t_size t)) f) = Some (t_table t ! home (unat (t_size t)) f)"
  using table_inv_slot [OF assms] by (simp add: bucket_at_def)

lemma home_bucket:
  assumes "table_inv t" and "t_table t ! home (unat (t_size t)) f = b"
  shows "bucket_ok (unat (t_size t)) (home (unat (t_size t)) f) b" and "tmap t f = emap (entries b) f"
  using assms table_inv_slot [OF assms(1)] by (auto simp: table_inv_def tmap_def slot_home)

lemma fill_head_ok:
  assumes "table_inv t" and "outcomes st = []" and "d \<noteq> 0" and "i = home (unat (t_size t)) f"
    and b: "t_table t ! i = (h, es)" and n: "e_string h = None"
  shows "\<exists>t' st'. fill_head t i st (Some f) (table_hash f) d = Some (t', st') \<and> step_ok t st ((tmap t)(f \<mapsto> d)) t' st'"
proof -
  let ?b = "(\<lparr>e_hash = table_hash f, e_string = Some f, e_data = d\<rparr>, es)"
  have "es = []" using home_bucket(1) [OF assms(1)] b n assms(4) by (force simp: bucket_ok_def)
  then have "bucket_ok (unat (t_size t)) i ?b" "emap (entries ?b) = (emap (entries (h, es)))(f \<mapsto> d)"
    "t_load t + 1 = t_load t - bucket_load (h, es) + bucket_load ?b" "bucket_blocks ?b - bucket_blocks (h, es) = 1"
    using assms(3,4) n by (auto simp: bucket_ok_def entries_def entry_ok_def key_def bucket_load_def bucket_blocks_def)
  then show ?thesis
    using bucket_step [OF assms(1,4) b, of ?b "Some d" "t_load t + 1" "st\<lparr>live := live st + 1\<rparr>" st] assms(1,2,4) b
    by (simp add: fill_head_def bucket_at_home strdup_ok)
qed

lemma append_entry_ok:
  assumes "table_inv t" and "outcomes st = []" and "d \<noteq> 0" and "i = home (unat (t_size t)) f"
    and b: "t_table t ! i = (h, es)" and n: "e_string h \<noteq> None" and f: "f \<notin> key ` set (h # es)"
  shows "\<exists>t' st'. append_entry t i st (Some f) (table_hash f) d = Some (t', st') \<and> step_ok t st ((tmap t)(f \<mapsto> d)) t' st'"
proof -
  let ?e = "\<lparr>e_hash = table_hash f, e_string = Some f, e_data = d\<rparr>"
  let ?b = "(h, es @ [?e])"
  have e: "entry_ok ?e" "key ?e = f" using assms(3) by (auto simp: entry_ok_def key_def)
  have m: "emap (h # es) f = None" using f by (simp only: emap_None not_False_eq_True)
  have "bucket_ok (unat (t_size t)) i (h, es)" using home_bucket(1) [OF assms(1)] b assms(4) by force
  then have 1: "bucket_ok (unat (t_size t)) i ?b" using n f e assms(4) by (auto simp: bucket_ok_def entries_def)
  have "emap (h # es @ [?e]) g = ((emap (h # es))(f \<mapsto> d)) g" for g
    using m e(2) by (cases "emap es g") (auto simp: emap_append map_add_def)
  then have 2: "emap (entries ?b) = (emap (entries (h, es)))(f \<mapsto> d)" using n by (auto simp: entries_def)
  have 3: "t_load t = t_load t - bucket_load (h, es) + bucket_load ?b" "bucket_blocks ?b - bucket_blocks (h, es) = 2"
    using n by (auto simp: entries_def bucket_load_def bucket_blocks_def)
  show ?thesis
    using bucket_step [OF assms(1,4) b 1 2 3(1), of "st\<lparr>live := 2 + live st\<rparr>" st] 3(2) assms(1,2,4) b
    by (simp add: append_entry_def bucket_at_home strdup_ok tmalloc_ok)
qed

lemma table_add_ok:
  assumes "table_inv t" and "outcomes st = []" and "d \<noteq> 0" and "tmap t f = None"
  shows "\<exists>t' st'. table_add t st (Some f) (table_hash f) d = Some (t', st') \<and> step_ok t st ((tmap t)(f \<mapsto> d)) t' st'"
proof -
  obtain h es where b: "t_table t ! home (unat (t_size t)) f = (h, es)" by fastforce
  have "f \<notin> key ` set (entries (h, es))" using assms(4) home_bucket(2) [OF assms(1) b] emap_None by metis
  then show ?thesis using fill_head_ok [OF assms(1-3) refl b] append_entry_ok [OF assms(1-3) refl b] assms(1) b
    by (cases "e_string h = None") (auto simp: table_add_def slot_home bucket_at_home entries_def Let_def)
qed

text \<open>The field is there: its data changes.\<close>

lemma table_set_present:
  assumes "table_inv t" and "d \<noteq> 0" and b: "t_table t ! home (unat (t_size t)) f = (h, es)" and some: "e_string h \<noteq> None"
    and f: "f \<in> key ` set (h # es)"
  defines "i \<equiv> home (unat (t_size t)) f"
  shows "\<exists>b'. table_set t st f d = Some (t\<lparr>t_table := (t_table t)[i := b']\<rparr>, st) \<and> bucket_ok (unat (t_size t)) i b' \<and>
    emap (entries b') = (emap (entries (h, es)))(f \<mapsto> d) \<and> length (entries b') = length (entries (h, es))"
proof -
  let ?n = "unat (t_size t)"
  obtain y where n: "e_string h = Some y" using some by blast
  have es: "entry_ok h" "\<forall>e \<in> set es. entry_ok e" "key h \<notin> key ` set es" "distinct (map key es)"
    "home ?n (key h) = i" "\<forall>k \<in> key ` set es. home ?n k = i"
    using home_bucket(1) [OF assms(1) b] n by (auto simp: bucket_ok_def entries_def i_def)
  note defs = Let_def table_set_def slot_home bucket_at_home [OF assms(1)] entry_is_ok b i_def
  show ?thesis
  proof (cases "key h = f")
    case True
    have "entry_ok (h\<lparr>e_data := d\<rparr>)" "key (h\<lparr>e_data := d\<rparr>) = key h" using es(1) assms(2) by (auto simp: entry_ok_def key_def)
    then have "bucket_ok ?n i (h\<lparr>e_data := d\<rparr>, es)" "emap (entries (h\<lparr>e_data := d\<rparr>, es)) = (emap (entries (h, es)))(f \<mapsto> d)"
      "length (entries (h\<lparr>e_data := d\<rparr>, es)) = length (entries (h, es))"
      using True n es by (auto simp: bucket_ok_def entries_def)
    moreover have "table_set t st f d = Some (t\<lparr>t_table := (t_table t)[i := (h\<lparr>e_data := d\<rparr>, es)]\<rparr>, st)"
      using True n es(1) by (auto simp: defs)
    ultimately show ?thesis by blast
  next
    case False
    then have "f \<in> key ` set es" using f by auto
    then obtain es' where es': "set_next es (table_hash f) f d = Some (Some es')" "\<forall>e \<in> set es'. entry_ok e"
      "map key es' = map key es" "emap es' = (emap es)(f \<mapsto> d)" using set_next_some [OF es(2) assms(2)] by blast
    have k: "key ` set es' = key ` set es" using arg_cong [OF es'(3), of set] by simp
    have "\<forall>e \<in> set es'. home ?n (key e) = i" using es(6) unfolding k [symmetric] by simp
    then have "bucket_ok ?n i (h, es')" using es es'(2,3) n k by (auto simp: bucket_ok_def entries_def)
    moreover have "emap (entries (h, es')) = (emap (entries (h, es)))(f \<mapsto> d)"
      using es'(4) n False by (simp add: entries_def fun_upd_twist del: fun_upd_apply)
    moreover have "length (entries (h, es')) = length (entries (h, es))"
      using n map_eq_imp_length_eq [OF es'(3)] by (simp add: entries_def)
    moreover have "table_set t st f d = Some (t\<lparr>t_table := (t_table t)[i := (h, es')]\<rparr>, st)"
      using False n es(1) es'(1) by (simp add: defs)
    ultimately show ?thesis by blast
  qed
qed

lemma table_set_ok:
  assumes "table_inv t" and "outcomes st = []" and "d \<noteq> 0"
  shows "\<exists>t' st'. table_set t st f d = Some (t', st') \<and> step_ok t st ((tmap t)(f \<mapsto> d)) t' st'"
proof -
  obtain h es where b: "t_table t ! home (unat (t_size t)) f = (h, es)" by fastforce
  note defs = Let_def table_set_def slot_home bucket_at_home [OF assms(1)] entry_is_ok b
  consider "e_string h = None" | "e_string h \<noteq> None" "f \<notin> key ` set (h # es)" | "e_string h \<noteq> None" "f \<in> key ` set (h # es)"
    by blast
  then show ?thesis
  proof cases
    case 1
    then show ?thesis using fill_head_ok [OF assms refl b] by (simp add: defs)
  next
    case 2
    then have "entry_ok h" "\<forall>e \<in> set es. entry_ok e" using home_bucket(1) [OF assms(1) b] by (auto simp: bucket_ok_def entries_def)
    then have "table_set t st f d = append_entry t (home (unat (t_size t)) f) st (Some f) (table_hash f) d"
      using 2 set_next_none [of es f d] by (auto simp: defs)
    then show ?thesis using append_entry_ok [OF assms refl b 2] by simp
  next
    case 3
    then obtain b' where b': "table_set t st f d = Some (t\<lparr>t_table := (t_table t)[home (unat (t_size t)) f := b']\<rparr>, st)"
      "bucket_ok (unat (t_size t)) (home (unat (t_size t)) f) b'" "emap (entries b') = (emap (entries (h, es)))(f \<mapsto> d)"
      "length (entries b') = length (entries (h, es))" using table_set_present [OF assms(1,3) b] by blast
    have "entries b' = [] \<longleftrightarrow> entries (h, es) = []" using b'(4) by (metis length_0_conv)
    then have "t_load t = t_load t - bucket_load (h, es) + bucket_load b'" "live st - live st = bucket_blocks b' - bucket_blocks (h, es)"
      using b'(4) by (simp_all add: bucket_load_def bucket_blocks_def)
    then show ?thesis using bucket_step [OF assms(1) refl b b'(2,3) _ assms(2)] b'(1) by fastforce
  qed
qed

lemma table_del_ok:
  assumes "table_inv t" and "outcomes st = []"
  shows "\<exists>t' st'. table_del t st f = Some (t', st') \<and> step_ok t st ((tmap t)(f := None)) t' st'"
proof -
  let ?n = "unat (t_size t)" and ?i = "home (unat (t_size t)) f"
  obtain h es where b: "t_table t ! ?i = (h, es)" by fastforce
  note defs = Let_def table_del_def slot_home bucket_at_home [OF assms(1)] entry_is_ok b tfree_string_def tfree_def
  note step = bucket_step [OF assms(1) refl b]
  have ok: "bucket_ok ?n ?i (h, es)" by (rule home_bucket(1) [OF assms(1) b])
  have same: ?thesis if "table_del t st f = Some (t, st)" "f \<notin> key ` set (entries (h, es))"
  proof -
    have "tmap t f = None" using that(2) home_bucket(2) [OF assms(1) b] emap_None by metis
    then show ?thesis using that(1) assms by (simp add: step_ok_def fun_upd_idem)
  qed
  show ?thesis
  proof (cases "e_string h = None")
    case True
    then show ?thesis using same by (simp add: defs entries_def)
  next
    case False
    then obtain y where n: "e_string h = Some y" by blast
    have es: "entry_ok h" "\<forall>e \<in> set es. entry_ok e" "key h \<notin> key ` set es" "distinct (map key es)"
      "home ?n (key h) = ?i" "\<forall>k \<in> key ` set es. home ?n k = ?i" using ok n by (auto simp: bucket_ok_def entries_def)
    consider "key h = f" "es = []" | e es' where "key h = f" "es = e # es'" | "key h \<noteq> f" by (cases es) auto
    then show ?thesis
    proof cases
      case 1
      let ?b = "(h\<lparr>e_string := None\<rparr>, [])" and ?st = "st\<lparr>live := live st - 1\<rparr>"
      have "step_ok t st ((tmap t)(f := None)) (t\<lparr>t_table := (t_table t)[?i := ?b], t_load := t_load t - 1\<rparr>) ?st"
        by (rule step) (use 1 n assms(2) in \<open>auto simp: bucket_ok_def entries_def bucket_load_def bucket_blocks_def\<close>)
      then show ?thesis using 1 n es(1) by (simp add: defs)
    next
      case 2
      have f: "f \<notin> key ` set es" using es(3) 2(1) by simp
      have "emap es f = None" using f by (simp only: emap_None not_False_eq_True)
      then have m: "emap es = (emap (h # es))(f := None)" using 2(1) by (auto simp: fun_eq_iff)
      have e: "e_string e \<noteq> None" using es(2) 2(2) by (simp add: entry_ok_def)
      have "step_ok t st ((tmap t)(f := None)) (t\<lparr>t_table := (t_table t)[?i := (e, es')], t_load := t_load t\<rparr>) (st\<lparr>live := live st - 2\<rparr>)"
        by (rule step) (use 2 n e es m assms(2) in \<open>auto simp: bucket_ok_def entries_def bucket_load_def bucket_blocks_def\<close>)
      then show ?thesis using 2 n es(1) by (simp add: defs)
    next
      case 3
      show ?thesis
      proof (cases "f \<in> key ` set es")
        case False
        then show ?thesis using same del_next_none [OF es(2)] 3 n es(1) by (auto simp: defs entries_def)
      next
        case True
        then obtain es' s where es': "del_next es (table_hash f) f = Some (Some (es', Some s))" "set es' \<subseteq> set es"
          "distinct (map key es')" "length es = Suc (length es')" "emap es' = (emap es)(f := None)"
          using del_next_some [OF es(2,4)] by blast
        have "bucket_ok ?n ?i (h, es')" using es es'(2,3) n by (auto simp: bucket_ok_def entries_def)
        moreover have "emap (entries (h, es')) = (emap (entries (h, es)))(f := None)"
          using es'(5) n 3 by (simp add: entries_def fun_upd_twist del: fun_upd_apply)
        ultimately have "step_ok t st ((tmap t)(f := None)) (t\<lparr>t_table := (t_table t)[?i := (h, es')], t_load := t_load t\<rparr>) (st\<lparr>live := live st - 2\<rparr>)"
          by (rule step) (use n es'(4) assms(2) in \<open>auto simp: entries_def bucket_load_def bucket_blocks_def\<close>)
        then show ?thesis using es'(1) 3 n es(1) by (simp add: defs)
      qed
    qed
  qed
qed

lemma table_get_ok: "table_inv t \<Longrightarrow> table_get t f = Some (case tmap t f of None \<Rightarrow> 0 | Some d \<Rightarrow> d)"
proof -
  assume inv: "table_inv t"
  obtain h es where b: "t_table t ! home (unat (t_size t)) f = (h, es)" by fastforce
  have "\<forall>e \<in> set (entries (h, es)). entry_ok e" using home_bucket(1) [OF inv b] by (auto simp: bucket_ok_def)
  then show ?thesis using get_entry_ok [of "h # es" f] home_bucket(2) [OF inv b] bucket_at_home [OF inv] b
    by (auto simp: table_get_def slot_home entries_def simp del: get_entry.simps emap_simps(2))
qed

section \<open>The whole table\<close>

definition all_entries :: "s_table \<Rightarrow> s_table_entry list" where
  "all_entries t = concat (map entries (t_table t))"

lemma unat_size: "table_inv t \<Longrightarrow> [0..<2 ^ unat (t_size t)] = [0..<length (t_table t)]"
  by (simp add: table_inv_def)

lemma table_bucket: "table_inv t \<Longrightarrow> i < length (t_table t) \<Longrightarrow> bucket_ok (unat (t_size t)) i (t_table t ! i)"
  by (simp add: table_inv_def)

lemma emap_Some: "distinct (map key es) \<Longrightarrow> emap es f = Some v \<longleftrightarrow> (\<exists>e \<in> set es. key e = f \<and> e_data e = v)"
  by (auto simp: emap_def map_of_eq_Some_iff comp_def image_iff)

lemma prefix_entries:
  assumes "table_inv t" and "k \<le> length (t_table t)"
  shows "distinct (map key (concat (map entries (take k (t_table t))))) \<and>
    (\<forall>e \<in> set (concat (map entries (take k (t_table t)))). entry_ok e \<and> home (unat (t_size t)) (key e) < k)"
  using assms(2)
proof (induction k)
  case (Suc k)
  have "bucket_ok (unat (t_size t)) k (t_table t ! k)" using table_bucket [OF assms(1)] Suc.prems by simp
  then show ?case using Suc by (fastforce simp: take_Suc_conv_app_nth bucket_ok_def)
qed simp

lemma all_entries_ok:
  assumes "table_inv t"
  shows "distinct (map key (all_entries t))" and "\<forall>e \<in> set (all_entries t). entry_ok e"
  using prefix_entries [OF assms order_refl] by (auto simp: all_entries_def)

lemma tmap_all:
  assumes "table_inv t"
  shows "tmap t = emap (all_entries t)"
proof (rule ext)
  fix f
  let ?b = "t_table t ! home (unat (t_size t)) f"
  have "e \<in> set (all_entries t) \<and> key e = f \<longleftrightarrow> e \<in> set (entries ?b) \<and> key e = f" for e
  proof
    assume e: "e \<in> set (all_entries t) \<and> key e = f"
    then obtain b where "b \<in> set (t_table t)" "e \<in> set (entries b)" by (auto simp: all_entries_def)
    then obtain i where i: "i < length (t_table t)" "e \<in> set (entries (t_table t ! i))" by (metis in_set_conv_nth)
    moreover from this have "home (unat (t_size t)) (key e) = i" using table_bucket [OF assms] by (simp add: bucket_ok_def)
    ultimately show "e \<in> set (entries ?b) \<and> key e = f" using e by blast
  qed (use table_inv_slot [OF assms, of f] in \<open>auto simp: all_entries_def\<close>)
  moreover have "distinct (map key (entries ?b))" using home_bucket(1) [OF assms refl] by (simp add: bucket_ok_def)
  ultimately have "tmap t f = Some v \<longleftrightarrow> emap (all_entries t) f = Some v" for v
    unfolding home_bucket(2) [OF assms refl] emap_Some [OF all_entries_ok(1) [OF assms]] by (auto simp: emap_Some)
  then show "tmap t f = emap (all_entries t) f" by (metis option.exhaust)
qed

lemma load_bound:
  assumes "table_inv t"
  shows "unat (t_load t) \<le> card (dom (tmap t))" and "finite (dom (tmap t))"
proof -
  have d: "dom (tmap t) = set (map key (all_entries t))" unfolding tmap_all [OF assms] by (auto simp: dom_def emap_None)
  have "sum_list (map bucket_load bs) = of_nat (length (filter (\<lambda>b. entries b \<noteq> []) bs))" for bs
    by (induction bs) (auto simp: bucket_load_def)
  then have "t_load t = of_nat (length (filter (\<lambda>b. entries b \<noteq> []) (t_table t)))" using assms by (simp add: table_inv_def)
  then have "unat (t_load t) \<le> length (filter (\<lambda>b. entries b \<noteq> []) (t_table t))" by (simp add: unat_of_nat)
  also have "\<dots> \<le> length (concat (map entries bs))" if "bs = t_table t" for bs
    unfolding that [symmetric] 
  proof (induction bs)
    case (Cons b bs)
    then show ?case by (cases "entries b") auto
  qed simp
  also have "length (concat (map entries (t_table t))) = card (dom (tmap t))"
    unfolding d using distinct_card [OF all_entries_ok(1) [OF assms]] by (simp add: all_entries_def)
  finally show "unat (t_load t) \<le> card (dom (tmap t))" by simp
  show "finite (dom (tmap t))" unfolding d by simp
qed

lemma table_cons_ok:
  assumes "outcomes st = []" and "6 \<le> sz" and "sz < 28"
  shows "\<exists>t. table_cons st sz = Some (t, st\<lparr>live := live st + 1\<rparr>) \<and> table_inv t \<and> t_size t = sz \<and> tmap t = Map.empty \<and> blocks t = 1"
proof -
  let ?t = "\<lparr>t_size = sz, t_load = 0, t_table = replicate (2 ^ unat sz) (clear_entry, [])\<rparr>"
  have e: "entries (clear_entry, []) = []" by (simp add: entries_def clear_entry_def)
  then have i: "table_inv ?t" using assms(2,3)
    by (auto simp: table_inv_def bucket_ok_def sum_list_replicate bucket_load_def clear_entry_def)
  have "all_entries ?t = []" using e by (simp add: all_entries_def)
  then have "tmap ?t = Map.empty" unfolding tmap_all [OF i] by simp
  then show ?thesis using i assms e by (auto simp: table_cons_def tmalloc_ok blocks_def sum_list_replicate bucket_blocks_def)
qed

lemma for_list_concat:
  "(\<And>i s. i \<in> set is \<Longrightarrow> f i s = for_list g (xs i) s) \<Longrightarrow> for_list f is s = for_list g (concat (map xs is)) s"
  by (induction "is" arbitrary: s) (auto simp: for_list_append)

section \<open>Freeing and resizing\<close>

lemma free_chain_ok:
  "\<forall>e \<in> set es. entry_ok e \<Longrightarrow> live (free_chain es st) = live st - 2 * int (length es) \<and> outcomes (free_chain es st) = outcomes st"
  by (induction es arbitrary: st) (auto simp: free_chain_def tfree_def tfree_string_def entry_ok_def)

lemma table_free_ok:
  assumes "table_inv t"
  shows "\<exists>st'. table_free t st = Some st' \<and> live st' = live st - blocks t \<and> outcomes st' = outcomes st"
proof -
  let ?f = "\<lambda>i st. do { (entry, next) \<leftarrow> bucket_at t i;
    Some (if e_string entry \<noteq> None then free_chain next (tfree_string (e_string entry) st) else st) }"
  have "\<exists>st'. for_list ?f [0..<k] st = Some st' \<and> live st' = live st - sum_list (map bucket_blocks (take k (t_table t))) \<and>
      outcomes st' = outcomes st" if "k \<le> length (t_table t)" for k
    using that
  proof (induction k)
    case (Suc k)
    obtain h es where b: "t_table t ! k = (h, es)" by fastforce
    have "bucket_ok (unat (t_size t)) k (h, es)" using table_bucket [OF assms, of k] Suc.prems b by simp
    then have "\<forall>e \<in> set es. entry_ok e" by (auto simp: bucket_ok_def entries_def split: if_splits)
    then show ?case using Suc b free_chain_ok [of es]
      by (auto simp: for_list_append take_Suc_conv_app_nth bucket_at_def bucket_blocks_def entries_def tfree_string_def tfree_def)
  qed simp
  from this [OF order_refl] show ?thesis by (auto simp: table_free_def unat_size [OF assms] tfree_def blocks_def)
qed

definition add_entry :: "s_table_entry \<Rightarrow> s_table \<times> tmem \<Rightarrow> (s_table \<times> tmem) option" where
  "add_entry e = (\<lambda>(n, st). table_add n st (e_string e) (e_hash e) (e_data e))"

lemma add_entries_ok:
  assumes "\<forall>e \<in> set es. entry_ok e" and "distinct (map key es)" and "\<forall>e \<in> set es. tmap n (key e) = None" and "table_inv n" and "outcomes st = []"
  shows "\<exists>n' st'. for_list add_entry es (n, st) = Some (n', st') \<and> step_ok n st (tmap n ++ emap es) n' st'"
  using assms
proof (induction es arbitrary: n st)
  case Nil
  then show ?case by (simp add: step_ok_def)
next
  case (Cons e es)
  have e: "e_string e = Some (key e)" "e_hash e = table_hash (key e)" "e_data e \<noteq> 0" "tmap n (key e) = None"
    using Cons.prems by (auto simp: entry_ok_def key_def)
  obtain n1 st1 where 1: "add_entry e (n, st) = Some (n1, st1)" "step_ok n st ((tmap n)(key e \<mapsto> e_data e)) n1 st1"
    using table_add_ok [OF Cons.prems(4,5) e(3,4)] e(1,2) by (auto simp: add_entry_def)
  have "key x \<noteq> key e" if "x \<in> set es" for x using Cons.prems(2) imageI [OF that, of key] by auto
  then have "\<forall>x \<in> set es. tmap n1 (key x) = None" "table_inv n1" "outcomes st1 = []"
    using Cons.prems(3) 1(2) by (auto simp: step_ok_def)
  then obtain n' st' where 2: "for_list add_entry es (n1, st1) = Some (n', st')" "step_ok n1 st1 (tmap n1 ++ emap es) n' st'"
    using Cons.IH [of n1 st1] Cons.prems(1,2) by auto
  have "key e \<notin> dom (emap es)" using Cons.prems(2) by (auto simp: dom_def emap_None)
  then have "tmap n1 ++ emap es = tmap n ++ emap (e # es)" using 1(2) by (simp add: step_ok_def map_add_upd_left del: fun_upd_apply)
  then show ?case using 1 2 by (simp add: step_ok_def del: emap_simps fun_upd_apply)
qed

lemma table_resize_ok:
  assumes "table_inv t" and "outcomes st = []" and "6 \<le> sz" and "sz < 28"
  shows "\<exists>t' st'. table_resize t st sz = Some (t', st') \<and> table_inv t' \<and> tmap t' = tmap t \<and> outcomes st' = [] \<and>
    live st' - blocks t' = live st - blocks t"
proof -
  obtain n where n: "table_cons st sz = Some (n, st\<lparr>live := live st + 1\<rparr>)" "table_inv n" "tmap n = Map.empty" "blocks n = 1"
    using table_cons_ok [OF assms(2-4)] by blast
  let ?f = "\<lambda>i s. do { (entry, next) \<leftarrow> bucket_at t i;
    if e_string entry \<noteq> None then for_list (\<lambda>e (n, st). table_add n st (e_string e) (e_hash e) (e_data e)) (entry # next) s else Some s }"
  have "?f i s = for_list add_entry (entries (t_table t ! i)) s" if "i \<in> set [0..<length (t_table t)]" for i s
    using that by (auto simp: bucket_at_def entries_def add_entry_def [abs_def] split: prod.split)
  then have "for_list ?f [0..<length (t_table t)] s = for_list add_entry (concat (map (\<lambda>i. entries (t_table t ! i)) [0..<length (t_table t)])) s" for s
    by (rule for_list_concat)
  then have loop: "for_list ?f [0..<length (t_table t)] s = for_list add_entry (all_entries t) s" for s
    using map_nth [of "t_table t"] by (simp add: all_entries_def map_map [symmetric, of entries "(!) (t_table t)", unfolded comp_def])
  obtain t' st1 where 1: "for_list add_entry (all_entries t) (n, st\<lparr>live := live st + 1\<rparr>) = Some (t', st1)"
    "step_ok n (st\<lparr>live := live st + 1\<rparr>) (tmap t) t' st1"
    using add_entries_ok [OF all_entries_ok(2,1) [OF assms(1)] _ n(2), of "st\<lparr>live := live st + 1\<rparr>"] n(3) assms(2) tmap_all [OF assms(1)] by auto
  obtain st' where "table_free t st1 = Some st'" "live st' = live st1 - blocks t" "outcomes st' = outcomes st1"
    using table_free_ok [OF assms(1)] by blast
  then show ?thesis using n 1 loop by (simp add: table_resize_def unat_size [OF assms(1)] step_ok_def del: for_list.simps)
qed

section \<open>The interface as a map\<close>

text \<open>
  The contract of a lookup table whose absent values are a special value \<open>nil\<close>, and its use: after any
  number of updates that fits, a lookup gives what the last update of that key wrote.
\<close>

locale value_map =
  fixes upd :: "'s \<Rightarrow> 'k \<Rightarrow> 'v \<Rightarrow> 's option" and look :: "'s \<Rightarrow> 'k \<Rightarrow> 'v option"
    and rep :: "'s \<Rightarrow> ('k \<Rightarrow> 'v) \<Rightarrow> bool" and nil :: 'v and cap :: nat
  assumes rep_finite: "rep s m \<Longrightarrow> finite {k. m k \<noteq> nil}"
    and upd_law: "rep s m \<Longrightarrow> card {k. m k \<noteq> nil} < cap \<Longrightarrow> \<exists>s'. upd s k v = Some s' \<and> rep s' (m(k := v))"
    and look_law: "rep s m \<Longrightarrow> look s k = Some (m k)"
begin

lemma card_upd: "rep s m \<Longrightarrow> card {x. (m(k := v)) x \<noteq> nil} \<le> Suc (card {x. m x \<noteq> nil})"
proof -
  assume "rep s m"
  then have "finite {x. m x \<noteq> nil}" by (rule rep_finite)
  then have "card {x. (m(k := v)) x \<noteq> nil} \<le> card (insert k {x. m x \<noteq> nil})" by (intro card_mono) auto
  also have "\<dots> \<le> Suc (card {x. m x \<noteq> nil})" by (rule card_insert_le_m1) simp_all
  finally show ?thesis .
qed

lemma updates:
  "rep s m \<Longrightarrow> card {k. m k \<noteq> nil} + length us \<le> cap \<Longrightarrow>
    \<exists>s'. for_list (\<lambda>(k, v) s. upd s k v) us s = Some s' \<and> rep s' (\<lambda>k. case map_of (rev us) k of None \<Rightarrow> m k | Some v \<Rightarrow> v)"
proof (induction us arbitrary: s m)
  case (Cons u us)
  obtain k v where u: "u = (k, v)" by fastforce
  obtain s1 where s1: "upd s k v = Some s1" "rep s1 (m(k := v))" using upd_law [OF Cons.prems(1)] Cons.prems(2) by fastforce
  have "card {x. (m(k := v)) x \<noteq> nil} + length us \<le> cap" using card_upd [OF Cons.prems(1), of k v] Cons.prems(2) by simp
  then obtain s' where s': "for_list (\<lambda>(k, v) s. upd s k v) us s1 = Some s'"
    "rep s' (\<lambda>x. case map_of (rev us) x of None \<Rightarrow> (m(k := v)) x | Some v \<Rightarrow> v)" using Cons.IH [OF s1(2)] by blast
  have "(case map_of (rev us) x of None \<Rightarrow> (m(k := v)) x | Some v \<Rightarrow> v) = (case map_of (rev (u # us)) x of None \<Rightarrow> m x | Some v \<Rightarrow> v)" for x
    by (auto simp: u map_add_def split: option.split)
  then show ?case using s1(1) s' u by simp
qed simp

lemma lookups:
  "rep s m \<Longrightarrow> card {k. m k \<noteq> nil} + length us \<le> cap \<Longrightarrow>
    \<exists>s'. for_list (\<lambda>(k, v) s. upd s k v) us s = Some s' \<and> (\<exists>m'. rep s' m') \<and>
      (\<forall>k. look s' k = Some (case map_of (rev us) k of None \<Rightarrow> m k | Some v \<Rightarrow> v))"
  using updates look_law by meson

end

definition tval :: "s_table \<Rightarrow> u8 list \<Rightarrow> ptr" where
  "tval t f = (case tmap t f of None \<Rightarrow> 0 | Some d \<Rightarrow> d)"

definition table_rep :: "int \<Rightarrow> s_table option \<times> tmem \<Rightarrow> (u8 list \<Rightarrow> ptr) \<Rightarrow> bool" where
  "table_rep base s m \<longleftrightarrow> outcomes (snd s) = [] \<and> (case fst s of
     None \<Rightarrow> m = (\<lambda>_. 0) \<and> live (snd s) = base
   | Some t \<Rightarrow> table_inv t \<and> tval t = m \<and> live (snd s) = base + blocks t)"

lemma tval_dom:
  assumes "table_inv t"
  shows "{f. tval t f \<noteq> 0} = dom (tmap t)"
proof -
  have "d \<noteq> 0" if "tmap t f = Some d" for f d
    using that all_entries_ok [OF assms] unfolding tmap_all [OF assms] by (auto simp: emap_Some entry_ok_def)
  then show ?thesis by (auto simp: tval_def split: option.splits)
qed

lemma tval_upd: "tmap t' = (tmap t)(f := v) \<Longrightarrow> tval t' = (tval t)(f := (case v of None \<Rightarrow> 0 | Some d \<Rightarrow> d))"
  by (auto simp: tval_def)

lemma grow_size:
  assumes "table_inv t" and "card (dom (tmap t)) \<le> 2 ^ 26" and "t_load t > drop_bit 2 (push_bit (unat (t_size t)) 3)"
  shows "6 \<le> t_size t + 1" and "t_size t + 1 < 28"
proof -
  have b: "6 \<le> t_size t" "t_size t < 28" using assms(1) by (simp_all add: table_inv_def)
  have "t_size t \<noteq> 27"
  proof
    assume "t_size t = 27"
    then have "t_load t > 0x6000000" using assms(3) by simp
    then have "unat (t_load t) > 0x6000000" by (simp add: word_less_nat_alt)
    then show False using load_bound(1) [OF assms(1)] assms(2) by simp
  qed
  then have u: "unat (t_size t) < 27" using b(2) unat_mono [OF b(2)] word_unat_eq_iff [of "t_size t" 27] by simp
  then have "unat (t_size t + 1) = unat (t_size t) + 1" by (simp add: unat_word_ariths)
  then show "6 \<le> t_size t + 1" "t_size t + 1 < 28" using u b(1) by (simp_all add: word_less_nat_alt word_le_nat_alt)
qed

lemma s_table_set_ok:
  assumes "table_rep base (table, st) m" and "card {f. m f \<noteq> 0} < 2 ^ 26"
  shows "\<exists>t st'. s_table_set st table (Some f) d = Some (Some t, st') \<and> table_rep base (Some t, st') (m(f := d))"
proof -
  obtain t st0 where t: "(case table of Some t \<Rightarrow> Some (t, st) | None \<Rightarrow> table_cons st 6) = Some (t, st0)"
    "table_inv t" "outcomes st0 = []" "tval t = m" "live st0 = base + blocks t"
  proof (cases table)
    case None
    then show ?thesis using that table_cons_ok [of st 6] assms(1) by (fastforce simp: table_rep_def tval_def [abs_def])
  qed (use that assms(1) in \<open>auto simp: table_rep_def\<close>)
  define v where "v = (if d = 0 then None else Some d)"
  obtain t1 st1 where 1: "(if d \<noteq> 0 then table_set t st0 f d else table_del t st0 f) = Some (t1, st1)"
    "step_ok t st0 ((tmap t)(f := v)) t1 st1"
    using table_set_ok [OF t(2,3), of d f] table_del_ok [OF t(2,3), of f] by (cases "d = 0") (auto simp: v_def)
  have tv: "tval t1 = m(f := d)" using tval_upd [of t1 t f v] 1(2) t(4) by (auto simp: step_ok_def v_def)
  have done1: "table_rep base (Some t1, st1) (m(f := d))" using 1(2) t(5) tv by (simp add: table_rep_def step_ok_def)
  have inv1: "table_inv t1" "outcomes st1 = []" "6 \<le> t_size t1" "t_size t1 < 28" using 1(2) by (auto simp: step_ok_def table_inv_def)
  have rs: "\<exists>t st'. table_resize t1 st1 sz = Some (t, st') \<and> table_rep base (Some t, st') (m(f := d))" if "6 \<le> sz" "sz < 28" for sz
    using table_resize_ok [OF inv1(1,2) that] done1 by (fastforce simp: table_rep_def tval_def [abs_def])
  show ?thesis
  proof (cases "d = 0")
    case True
    have "6 \<le> t_size t1 - 1" "t_size t1 - 1 < 28" if "t_size t1 > 6"
      using that inv1(4) by (simp_all add: word_less_nat_alt word_le_nat_alt unat_sub)
    then show ?thesis using True t(1) 1(1) done1 rs [of "t_size t1 - 1"] by (cases "t_size t1 > 6") (auto simp: s_table_set_def)
  next
    case False
    have "finite (dom (tmap t))" "dom (tmap t) = {f. m f \<noteq> 0}" using load_bound(2) [OF t(2)] tval_dom [OF t(2)] t(4) by simp_all
    moreover have "dom (tmap t1) \<subseteq> insert f (dom (tmap t))" using 1(2) by (auto simp: step_ok_def split: if_splits)
    ultimately have "card (dom (tmap t1)) \<le> 2 ^ 26"
      using assms(2) card_mono [of "insert f (dom (tmap t))" "dom (tmap t1)"] card_insert_le_m1 [of "Suc (card (dom (tmap t)))" "dom (tmap t)" f] by simp
    then show ?thesis using False t(1) 1(1) done1 rs grow_size [OF inv1(1)] by (auto simp: s_table_set_def)
  qed
qed

lemma s_table_get_ok: "table_rep base (table, st) m \<Longrightarrow> s_table_get table (Some f) = Some (m f)"
  by (auto simp: table_rep_def s_table_get_def table_get_ok tval_def split: option.splits)

lemma s_table_free_ok: "table_rep base (Some t, st) m \<Longrightarrow> \<exists>st'. s_table_free st (Some t) = Some st' \<and> live st' = base"
  using table_free_ok [of t st] by (auto simp: table_rep_def s_table_free_def)

lemma table_rep_finite: "table_rep base s m \<Longrightarrow> finite {f. m f \<noteq> 0}"
  using load_bound(2) tval_dom by (auto simp: table_rep_def split: option.splits)

text \<open>The account of blocks is the one of the caller plus those of the table.\<close>

interpretation tbl: value_map "\<lambda>(table, st) f d. s_table_set st table (Some f) d" "\<lambda>(table, st) f. s_table_get table (Some f)"
  "table_rep base" 0 "2 ^ 26" for base
proof unfold_locales
  fix s m k v assume "table_rep base s m" and "card {k. m k \<noteq> 0} < 2 ^ 26"
  then show "\<exists>s'. (case s of (table, st) \<Rightarrow> \<lambda>f d. s_table_set st table (Some f) d) k v = Some s' \<and> table_rep base s' (m(k := v))"
    using s_table_set_ok [of base "fst s" "snd s"] by (cases s) fastforce
qed (auto simp: table_rep_finite s_table_get_ok)

lemma empty_rep: "outcomes st = [] \<Longrightarrow> table_rep (live st) (None, st) (\<lambda>_. 0)"
  by (simp add: table_rep_def)

text \<open>
  C18. The table is a map: while memory lasts, any sequence of at most \<open>2\<^sup>2\<^sup>6\<close> calls of \<open>s_table_set\<close> on an empty table returns,
  through all the doublings and halvings of its array; afterwards \<open>s_table_get\<close> returns for every field
  what the last call for it wrote, and a null pointer for the fields that were removed or never set;
  and \<open>s_table_free\<close> gives back every block that was allocated on the way.\<close>

theorem s_table_updates:
  assumes "outcomes st = []" and "length us \<le> 2 ^ 26"
  shows "\<exists>table st'. for_list (\<lambda>(f, d) (table, st). s_table_set st table (Some f) d) us (None, st) = Some (table, st') \<and>
    (\<forall>f. s_table_get table (Some f) = Some (case map_of (rev us) f of None \<Rightarrow> 0 | Some d \<Rightarrow> d)) \<and>
    (\<forall>t. table = Some t \<longrightarrow> (\<exists>st''. s_table_free st' table = Some st'' \<and> live st'' = live st))"
proof -
  have f: "(\<lambda>(k, v) s. (case s of (table, st) \<Rightarrow> \<lambda>f d. s_table_set st table (Some f) d) k v) =
    (\<lambda>(f, d) (table, st). s_table_set st table (Some f) d)" by (auto simp: fun_eq_iff)
  obtain table st' m where "for_list (\<lambda>(f, d) (table, st). s_table_set st table (Some f) d) us (None, st) = Some (table, st')"
    "table_rep (live st) (table, st') m" "\<forall>f. s_table_get table (Some f) = Some (case map_of (rev us) f of None \<Rightarrow> 0 | Some d \<Rightarrow> d)"
    using tbl.lookups [OF empty_rep [OF assms(1)], of us] assms(2) unfolding f by auto
  then show ?thesis using s_table_free_ok by blast
qed

theorem s_table_updates_witness:
  "\<exists>table st'. for_list (\<lambda>(f, d) (table, st). s_table_set st table (Some f) d) [([97], 7), ([98], 8), ([97], 0)] (None, \<lparr>outcomes = [], live = 3\<rparr>) =
      Some (table, st') \<and>
    s_table_get table (Some [97]) = Some 0 \<and> s_table_get table (Some [98]) = Some 8 \<and>
    (\<forall>t. table = Some t \<longrightarrow> (\<exists>st''. s_table_free st' table = Some st'' \<and> live st'' = 3))"
  using s_table_updates [of "\<lparr>outcomes = [], live = 3\<rparr>" "[([97], 7), ([98], 8), ([97], 0)]"] by fastforce

lemma itostring_ff: "outcomes st = [] \<Longrightarrow> itostring st 0x100 = Some ([0xFF, 1], st\<lparr>live := live st + 1\<rparr>)"
  "outcomes st = [] \<Longrightarrow> itostring st 0x1FF = Some ([0xFF, 1], st\<lparr>live := live st + 1\<rparr>)"
  by (simp_all add: itostring_def tmalloc_ok itostring_loop.simps [of 0] itostring_loop.simps [of 1] itostring_loop.simps [of 2] Let_def)

text \<open>
  The integer keys are not kept apart: the flags that tell a null byte from \<open>0xFF\<close> stand behind the
  terminator of the string and are never compared, so what is set for \<open>0x100\<close> is found at \<open>0x1FF\<close>.\<close>

theorem s_table_seti_collides:
  assumes "outcomes st = []"
  shows "\<exists>table st' st''. s_table_seti st None 0x100 d = Some (table, st') \<and> s_table_geti st' table 0x1FF = Some (d, st'')"
proof -
  let ?st = "st\<lparr>live := live st + 1\<rparr>"
  obtain t st1 where 1: "s_table_set ?st None (Some [0xFF, 1]) d = Some (Some t, st1)" "table_rep (live ?st) (Some t, st1) ((\<lambda>_. 0)([0xFF, 1] := d))"
    using s_table_set_ok [OF empty_rep, of ?st "[0xFF, 1]" d] assms by auto
  then have "outcomes (tfree st1) = []" by (simp add: table_rep_def tfree_def)
  then show ?thesis using 1(1) s_table_get_ok [OF 1(2), of "[0xFF, 1]"] assms
    by (simp add: s_table_seti_def s_table_geti_def itostring_ff)
qed

theorem s_table_seti_collides_witness:
  "\<exists>table st' st''. s_table_seti \<lparr>outcomes = [], live = 0\<rparr> None 0x100 5 = Some (table, st') \<and> s_table_geti st' table 0x1FF = Some (5, st'')"
  by (rule s_table_seti_collides) simp

end
