(* ===== verification/Objects.thy ===== *)
theory Objects
  imports Formatting_Rep Object_Index_Rep Lookup_Table_Rep
begin

text \<open>
  Objects, \<open>librdi/robject\<close>: what a driver keeps for every file, directory or device it serves. An object has tables of
  calls, of the status that a call requires, of data, of the processes that opened it and of access rights, and a parent
  that it inherits calls from. The objects are a partial function from their addresses. Functions that run on behalf of a call are a
  parameter, as is \<open>getuser\<close>, the user that a process belongs to. The locks of the objects are free between operations.
\<close>

section \<open>Objects\<close>

record robject =
  o_index :: u32
  o_parent :: ptr
  call_table :: "s_table option"
  call_stat_table :: "s_table option"
  data_table :: "s_table option"
  open_table :: "s_table option"
  accs_table :: "s_table option"

record rdi =
  o_objs :: "ptr \<Rightarrow> robject option"
  o_idx :: robjects

definition set_mem :: "'a rdi_scheme \<Rightarrow> tmem \<Rightarrow> 'a rdi_scheme" where
  "set_mem s st = s\<lparr>o_idx := (o_idx s)\<lparr>ro_mem := st\<rparr>\<rparr>"

definition put_obj :: "'a rdi_scheme \<Rightarrow> ptr \<Rightarrow> robject \<Rightarrow> tmem \<Rightarrow> 'a rdi_scheme" where
  "put_obj s ro ob st = set_mem (s\<lparr>o_objs := (o_objs s)(ro \<mapsto> ob)\<rparr>) st"

abbreviation (input) mem_of :: "'a rdi_scheme \<Rightarrow> tmem" where "mem_of s \<equiv> ro_mem (o_idx s)"

text \<open>The address of the new object is the one that \<open>malloc\<close> returns.\<close>

definition robject_cons :: "'a rdi_scheme \<Rightarrow> ptr \<Rightarrow> u32 \<Rightarrow> ptr \<Rightarrow> 'a rdi_scheme option" where
  "robject_cons s at index parent = (
     let (ok, st) = tmalloc (mem_of s) in
     if \<not> ok then None
     else do {
       let s = put_obj s at \<lparr>o_index = index, o_parent = parent, call_table = None, call_stat_table = None,
         data_table = None, open_table = None, accs_table = None\<rparr> st;
       if index \<noteq> 0 then do { idx \<leftarrow> robject_set (o_idx s) index at; Some (s\<lparr>o_idx := idx\<rparr>) } else Some s
     })"

definition robject_free :: "'a rdi_scheme \<Rightarrow> ptr \<Rightarrow> 'a rdi_scheme option" where
  "robject_free s ro = do {
     ob \<leftarrow> o_objs s ro;
     idx \<leftarrow> (if o_index ob \<noteq> 0 then robject_set (o_idx s) (o_index ob) 0 else Some (o_idx s));
     st \<leftarrow> s_table_free (ro_mem idx) (call_table ob);
     st \<leftarrow> s_table_free st (call_stat_table ob);
     st \<leftarrow> s_table_free st (data_table ob);
     st \<leftarrow> s_table_free st (open_table ob);
     st \<leftarrow> s_table_free st (accs_table ob);
     Some (set_mem (s\<lparr>o_objs := (o_objs s)(ro := None), o_idx := idx\<rparr>) (tfree st))
   }"

section \<open>Fields\<close>

definition robject_set_call :: "'a rdi_scheme \<Rightarrow> ptr \<Rightarrow> u8 list option \<Rightarrow> ptr \<Rightarrow> u32 \<Rightarrow> 'a rdi_scheme option" where
  "robject_set_call s ro call hook status = (if ro = 0 then Some s else do {
     ob \<leftarrow> o_objs s ro;
     (t, st) \<leftarrow> s_table_set (mem_of s) (call_table ob) call hook;
     (u, st) \<leftarrow> s_table_set st (call_stat_table ob) call status;
     Some (put_obj s ro (ob\<lparr>call_table := t, call_stat_table := u\<rparr>) st)
   })"

partial_function (option) robject_get_call :: "'a rdi_scheme \<Rightarrow> ptr \<Rightarrow> u8 list option \<Rightarrow> ptr option" where
  "robject_get_call s ro call = (if ro = 0 then Some 0 else do {
     ob \<leftarrow> o_objs s ro;
     hook \<leftarrow> s_table_get (call_table ob) call;
     if hook = 0 then robject_get_call s (o_parent ob) call else Some hook
   })"

definition robject_set_data :: "'a rdi_scheme \<Rightarrow> ptr \<Rightarrow> u8 list option \<Rightarrow> ptr \<Rightarrow> 'a rdi_scheme option" where
  "robject_set_data s ro field data = (if ro = 0 then Some s else do {
     ob \<leftarrow> o_objs s ro;
     (t, st) \<leftarrow> s_table_set (mem_of s) (data_table ob) field data;
     Some (put_obj s ro (ob\<lparr>data_table := t\<rparr>) st)
   })"

definition robject_get_data :: "'a rdi_scheme \<Rightarrow> ptr \<Rightarrow> u8 list option \<Rightarrow> ptr option" where
  "robject_get_data s ro field = (if ro = 0 then Some 0 else do { ob \<leftarrow> o_objs s ro; s_table_get (data_table ob) field })"

definition robject_data :: "'a rdi_scheme \<Rightarrow> ptr \<Rightarrow> u8 list option \<Rightarrow> ptr option" where
  "robject_data s ro field = robject_get_data s ro field"

section \<open>Openers, status and access\<close>

abbreviation (input) STAT_EVENT :: u32 where "STAT_EVENT \<equiv> 0x10"

text \<open>A formatted key, and the table operations with one.\<close>

definition key_of :: "u8 list \<Rightarrow> u32 \<Rightarrow> tmem \<Rightarrow> (u8 list option \<times> tmem) option" where
  "key_of fmt v st = vsaprintf (\<lambda>_ _ _ _. None) (\<lambda>_ _. None) fmt [VInt v] st"

definition robject_open :: "'a rdi_scheme \<Rightarrow> ptr \<Rightarrow> u64 \<Rightarrow> u32 \<Rightarrow> 'a rdi_scheme option" where
  "robject_open s ro source status = (if ro = 0 then Some s else do {
     ob \<leftarrow> o_objs s ro;
     (f, st) \<leftarrow> key_of [37, 100] (RP_PID source) (mem_of s);
     (t, st) \<leftarrow> s_table_setv st (open_table ob) status f;
     Some (put_obj s ro (ob\<lparr>open_table := t\<rparr>) st)
   })"

definition robject_stat :: "'a rdi_scheme \<Rightarrow> ptr \<Rightarrow> u64 \<Rightarrow> (u32 \<times> 'a rdi_scheme) option" where
  "robject_stat s ro source = (if ro = 0 then Some (0, s) else do {
     ob \<leftarrow> o_objs s ro;
     (f, st) \<leftarrow> key_of [37, 100] (RP_PID source) (mem_of s);
     (status, st) \<leftarrow> s_table_getv st (open_table ob) f;
     Some (status, set_mem s st)
   })"

definition robject_check_status :: "'a rdi_scheme \<Rightarrow> ptr \<Rightarrow> u64 \<Rightarrow> u32 \<Rightarrow> (bool \<times> 'a rdi_scheme) option" where
  "robject_check_status s ro source status = do {
     (x, s) \<leftarrow> robject_stat s ro source;
     Some (status AND x = status, s)
   }"

definition robject_close :: "'a rdi_scheme \<Rightarrow> ptr \<Rightarrow> u64 \<Rightarrow> 'a rdi_scheme option" where
  "robject_close s ro source = (if ro = 0 then Some s else do {
     ob \<leftarrow> o_objs s ro;
     (f, st) \<leftarrow> key_of [37, 100] (RP_PID source) (mem_of s);
     (t, st) \<leftarrow> s_table_setv st (open_table ob) 0 f;
     Some (put_obj s ro (ob\<lparr>open_table := t\<rparr>) st)
   })"

definition robject_count_status :: "'a rdi_scheme \<Rightarrow> ptr \<Rightarrow> u32 \<Rightarrow> u32 option" where
  "robject_count_status s ro status = (if ro = 0 then Some 0 else do {
     ob \<leftarrow> o_objs s ro;
     s_table_iter (\<lambda>key v n. Some (if v AND status = status then n + 1 else n)) (open_table ob) 0
   })"

text \<open>The calls of \<open>event\<close> that are made, in order: the resource pointer of the process and the text of the event.\<close>

definition robject_event :: "'a rdi_scheme \<Rightarrow> ptr \<Rightarrow> u8 list \<Rightarrow> (u64 \<times> u8 list) list option" where
  "robject_event s ro ev = (if ro = 0 then Some [] else do {
     ob \<leftarrow> o_objs s ro;
     s_table_iter (\<lambda>key v evs.
         if v AND STAT_EVENT \<noteq> 0 then do { k \<leftarrow> key; Some (evs @ [(scast (atoi_v k), ev)]) } else Some evs)
       (open_table ob) []
   })"

definition uid_key :: "u8 list" where "uid_key = [117, 105, 100, 45, 37, 117]"
definition default_key :: "u8 list" where "default_key = [100, 101, 102, 97, 117, 108, 116]"

definition robject_get_access :: "(u32 \<Rightarrow> u32) \<Rightarrow> 'a rdi_scheme \<Rightarrow> ptr \<Rightarrow> u64 \<Rightarrow> (u32 \<times> 'a rdi_scheme) option" where
  "robject_get_access getuser s ro source = (if ro = 0 then Some (0, s) else do {
     ob \<leftarrow> o_objs s ro;
     (f, st) \<leftarrow> key_of uid_key (getuser (ucast source)) (mem_of s);
     (a, st) \<leftarrow> s_table_getv st (accs_table ob) f;
     a \<leftarrow> (if a AND 0x100 = 0 then s_table_get (accs_table ob) (Some default_key) else Some a);
     Some (a AND NOT 0x100, set_mem s st)
   })"

definition robject_check_access :: "(u32 \<Rightarrow> u32) \<Rightarrow> 'a rdi_scheme \<Rightarrow> ptr \<Rightarrow> u64 \<Rightarrow> u32 \<Rightarrow> (bool \<times> 'a rdi_scheme) option" where
  "robject_check_access getuser s ro source acs = do {
     (x, s) \<leftarrow> robject_get_access getuser s ro source;
     Some (acs AND x = acs, s)
   }"

definition robject_set_access :: "(u32 \<Rightarrow> u32) \<Rightarrow> 'a rdi_scheme \<Rightarrow> ptr \<Rightarrow> u64 \<Rightarrow> u32 \<Rightarrow> 'a rdi_scheme option" where
  "robject_set_access getuser s ro source acs = (if ro = 0 then Some s else do {
     ob \<leftarrow> o_objs s ro;
     (f, st) \<leftarrow> key_of uid_key (getuser (ucast source)) (mem_of s);
     (t, st) \<leftarrow> s_table_setv st (accs_table ob) (acs OR 0x100) f;
     Some (put_obj s ro (ob\<lparr>accs_table := t\<rparr>) st)
   })"

definition robject_set_default_access :: "'a rdi_scheme \<Rightarrow> ptr \<Rightarrow> u32 \<Rightarrow> 'a rdi_scheme option" where
  "robject_set_default_access s ro acs = (if ro = 0 then Some s else do {
     ob \<leftarrow> o_objs s ro;
     (t, st) \<leftarrow> s_table_set (mem_of s) (accs_table ob) (Some default_key) acs;
     Some (put_obj s ro (ob\<lparr>accs_table := t\<rparr>) st)
   })"

section \<open>Calls\<close>

type_synonym 'a rcall_fn = "ptr \<Rightarrow> 'a rdi_scheme \<Rightarrow> ptr \<Rightarrow> u64 \<Rightarrow> u8 list list \<Rightarrow> (u8 list option \<times> 'a rdi_scheme) option"

text \<open>The list of arguments and its strings are freed, and the list itself.\<close>

definition free_argv :: "'a rdi_scheme \<Rightarrow> u8 list list \<Rightarrow> 'a rdi_scheme" where
  "free_argv s argv = set_mem s (tfree (fold (\<lambda>_. tfree) argv (mem_of s)))"

definition robject_call :: "'a rcall_fn \<Rightarrow> 'a rdi_scheme \<Rightarrow> ptr \<Rightarrow> u64 \<Rightarrow> u8 list \<Rightarrow> (u8 list option \<times> 'a rdi_scheme) option" where
  "robject_call hooks s ro source args = do {
     (argv, st) \<leftarrow> strparse (mem_of s) args [32];
     let s = set_mem s st;
     let name = (case argv of [] \<Rightarrow> None | a # _ \<Rightarrow> Some a);
     call \<leftarrow> robject_get_call s ro name;
     if call = 0 then Some (None, free_argv s argv)
     else do {
       ob \<leftarrow> o_objs s ro;
       status \<leftarrow> s_table_get (call_stat_table ob) name;
       (ok, s) \<leftarrow> (if status \<noteq> 0 then robject_check_status s ro source status else Some (True, s));
       if \<not> ok then do {
         (d, st) \<leftarrow> strdup (mem_of s) (Some [33, 32, 100, 101, 110, 105, 101, 100]);
         Some (d, set_mem s st)
       }
       else do {
         (rets, s) \<leftarrow> hooks call s ro source argv;
         Some (rets, free_argv s argv)
       }
     }
   }"

text \<open>The test for a type, with the search for a substring that \<open>strstr\<close> makes, on strings as values: nothing is found in an empty string.\<close>

fun has_substring :: "u8 list \<Rightarrow> u8 list \<Rightarrow> bool" where
  "has_substring [] t = False"
| "has_substring (c # s) t = (take (length t) (c # s) = t \<or> has_substring s t)"

definition robject_is_type :: "u8 list \<Rightarrow> u8 list \<Rightarrow> int" where
  "robject_is_type typestr type = (if has_substring typestr type then 1 else 0)"

definition robject_check_type :: "'a rcall_fn \<Rightarrow> 'a rdi_scheme \<Rightarrow> ptr \<Rightarrow> u8 list \<Rightarrow> (int \<times> 'a rdi_scheme) option" where
  "robject_check_type hooks s ro type = do {
     (typestr, s) \<leftarrow> robject_call hooks s ro 0 [116, 121, 112, 101];
     case typestr of None \<Rightarrow> Some (0, s)
     | Some str \<Rightarrow> Some (if has_substring str type then 1 else 0, set_mem s (tfree (mem_of s)))
   }"

end
