(* ===== verification/Objects_Rep.thy ===== *)
theory Objects_Rep
  imports Objects
begin

text \<open>
  The proofs about \<open>Objects\<close>: its tables as maps, the keys they are read with, the openers of an object and the guards of its calls.
\<close>

section \<open>Tables as maps\<close>

definition tbl_ok :: "s_table option \<Rightarrow> (u8 list \<Rightarrow> ptr) \<Rightarrow> bool" where
  "tbl_ok table m \<longleftrightarrow> (case table of None \<Rightarrow> m = (\<lambda>_. 0) | Some t \<Rightarrow> table_inv t \<and> tval t = m)"

lemma tbl_rep: "outcomes st = [] \<Longrightarrow> tbl_ok table m \<Longrightarrow> \<exists>base. table_rep base (table, st) m"
  by (cases table) (auto simp: tbl_ok_def table_rep_def intro: exI [of _ "live st - blocks _"])

lemma rep_tbl: "table_rep base (table, st) m \<Longrightarrow> tbl_ok table m \<and> outcomes st = []"
  by (cases table) (auto simp: tbl_ok_def table_rep_def)

lemma tbl_get: "tbl_ok table m \<Longrightarrow> s_table_get table (Some f) = Some (m f)"
  using tbl_rep [of "\<lparr>outcomes = [], live = 0\<rparr>" table m] s_table_get_ok by fastforce

lemma tbl_set:
  assumes "tbl_ok table m" and "outcomes st = []" and "card {f. m f \<noteq> 0} < 2 ^ 26"
  shows "\<exists>t st'. s_table_set st table (Some f) d = Some (Some t, st') \<and> tbl_ok (Some t) (m(f := d)) \<and> outcomes st' = []"
proof -
  obtain base where "table_rep base (table, st) m" using tbl_rep [OF assms(2,1)] by blast
  then show ?thesis using s_table_set_ok [OF _ assms(3)] rep_tbl by blast
qed

lemma tbl_finite: "tbl_ok table m \<Longrightarrow> finite {f. m f \<noteq> 0}"
  using tbl_rep [of "\<lparr>outcomes = [], live = 0\<rparr>" table m] table_rep_finite by fastforce

section \<open>Keys\<close>

lemma key_pid: "outcomes st = [] \<Longrightarrow> \<exists>st'. key_of [37, 100] v st = Some (Some (sdec v), st') \<and> outcomes st' = [] \<and> live st' = live st + 1"
  unfolding key_of_def by (rule vsaprintf_plain) simp_all

lemma mem_set_mem [simp]: "ro_mem (o_idx (set_mem s st)) = st" "o_objs (set_mem s st) = o_objs s"
  by (simp_all add: set_mem_def)

lemma mem_put_obj [simp]: "ro_mem (o_idx (put_obj s ro ob st)) = st" "o_objs (put_obj s ro ob st) = (o_objs s)(ro \<mapsto> ob)"
  by (simp_all add: put_obj_def set_mem_def)

lemma robject_stat_ok:
  assumes "o_objs s ro = Some ob" and "ro \<noteq> 0" and "outcomes (mem_of s) = []" and "tbl_ok (open_table ob) m"
  shows "\<exists>st. robject_stat s ro source = Some (m (sdec (RP_PID source)), set_mem s st) \<and> outcomes st = []"
  using key_pid [OF assms(3), of "RP_PID source"] assms tbl_get [OF assms(4)] by (auto simp: robject_stat_def s_table_getv_def)

lemma open_table_upd:
  assumes "outcomes (mem_of s) = []" and "tbl_ok (open_table ob) m" and "card {f. m f \<noteq> 0} < 2 ^ 26"
  shows "\<exists>st t. do { (f, st) \<leftarrow> key_of [37, 100] v (mem_of s); (t, st) \<leftarrow> s_table_setv st (open_table ob) d f; Some (put_obj s ro (ob\<lparr>open_table := t\<rparr>) st) } =
    Some (put_obj s ro (ob\<lparr>open_table := Some t\<rparr>) st) \<and> tbl_ok (Some t) (m(sdec v := d)) \<and> outcomes st = []"
proof -
  obtain st1 where 1: "key_of [37, 100] v (mem_of s) = Some (Some (sdec v), st1)" "outcomes st1 = []" using key_pid [OF assms(1)] by blast
  obtain t st2 where "s_table_set st1 (open_table ob) (Some (sdec v)) d = Some (Some t, st2)" "tbl_ok (Some t) (m(sdec v := d))" "outcomes st2 = []"
    using tbl_set [OF assms(2) 1(2) assms(3)] by blast
  then show ?thesis using 1 by (intro exI [of _ "tfree st2"] exI [of _ t]) (simp add: s_table_setv_def)
qed

definition empty_object :: robject where
  "empty_object = \<lparr>o_index = 0, o_parent = 0, call_table = None, call_stat_table = None, data_table = None, open_table = None,
     accs_table = None\<rparr>"

text \<open>
  Who has an object open: opening records the status for the process of the caller, closing removes
  it, and neither changes what is recorded for any other process.\<close>

theorem robject_open_stat:
  assumes "o_objs s ro = Some ob" and "ro \<noteq> 0" and "outcomes (ro_mem (o_idx s)) = []" and "tbl_ok (open_table ob) m"
    and "card {f. m f \<noteq> 0} < 2 ^ 25"
  shows "\<exists>s1 s2. robject_open s ro source status = Some s1 \<and> robject_close s1 ro source = Some s2 \<and>
    (\<forall>src. \<exists>x t1 t2 t3. robject_stat s ro src = Some (x, t1) \<and>
      robject_stat s1 ro src = Some (if RP_PID src = RP_PID source then status else x, t2) \<and>
      robject_stat s2 ro src = Some (if RP_PID src = RP_PID source then 0 else x, t3))"
proof -
  let ?k = "sdec (RP_PID source)"
  have c: "card {f. m f \<noteq> 0} < 2 ^ 26" using assms(5) by simp
  obtain st1 t1 where 1: "robject_open s ro source status = Some (put_obj s ro (ob\<lparr>open_table := Some t1\<rparr>) st1)"
    "tbl_ok (Some t1) (m(?k := status))" "outcomes st1 = []"
    using open_table_upd [OF assms(3,4) c, of "RP_PID source" status ro] assms(1,2) unfolding robject_open_def by auto
  let ?ob = "ob\<lparr>open_table := Some t1\<rparr>" and ?s1 = "put_obj s ro (ob\<lparr>open_table := Some t1\<rparr>) st1"
  have "card {f. (m(?k := status)) f \<noteq> 0} \<le> card (insert ?k {f. m f \<noteq> 0})"
    by (rule card_mono) (use tbl_finite [OF assms(4)] in auto)
  also have "\<dots> \<le> Suc (card {f. m f \<noteq> 0})" by (rule card_insert_le_m1) simp_all
  finally have "card {f. (m(?k := status)) f \<noteq> 0} < 2 ^ 26" using assms(5) by simp
  then obtain st2 t2 where 2: "robject_close ?s1 ro source = Some (put_obj ?s1 ro (?ob\<lparr>open_table := Some t2\<rparr>) st2)"
    "tbl_ok (Some t2) ((m(?k := status))(?k := 0))" "outcomes st2 = []"
    using open_table_upd [of ?s1 ?ob "m(?k := status)" "RP_PID source" 0 ro] assms(2) 1 unfolding robject_close_def by auto
  let ?s2 = "put_obj ?s1 ro (?ob\<lparr>open_table := Some t2\<rparr>) st2"
  have "\<exists>x t1 t2 t3. robject_stat s ro src = Some (x, t1) \<and>
      robject_stat ?s1 ro src = Some (if RP_PID src = RP_PID source then status else x, t2) \<and>
      robject_stat ?s2 ro src = Some (if RP_PID src = RP_PID source then 0 else x, t3)" for src
    using robject_stat_ok [OF assms(1-4), of src] robject_stat_ok [of ?s1 ro ?ob, of "m(?k := status)" src]
      robject_stat_ok [of ?s2 ro "?ob\<lparr>open_table := Some t2\<rparr>" "(m(?k := status))(?k := 0)" src] assms(2) 1(2,3) 2(2,3)
    by (auto simp: sdec_inj)
  then show ?thesis using 1(1) 2(1) by blast
qed

theorem robject_open_stat_witness:
  "\<exists>s1 s2. robject_open \<lparr>o_objs = [4 \<mapsto> empty_object], o_idx = robjects_init\<rparr> 4 9 3 = Some s1 \<and> robject_close s1 4 9 = Some s2 \<and>
    (\<exists>t1 t2. robject_stat s1 4 9 = Some (3, t1) \<and> robject_stat s2 4 9 = Some (0, t2))"
proof -
  let ?s = "\<lparr>o_objs = [4 \<mapsto> empty_object], o_idx = robjects_init\<rparr> :: rdi"
  have h: "o_objs ?s 4 = Some empty_object" "(4 :: ptr) \<noteq> 0" "outcomes (ro_mem (o_idx ?s)) = []"
      "tbl_ok (open_table empty_object) (\<lambda>_. 0)" "card {f :: u8 list. (0 :: ptr) \<noteq> 0} < 2 ^ 25"
    by (simp_all add: robjects_init_def tbl_ok_def empty_object_def)
  obtain s1 s2 where 1: "robject_open ?s 4 9 3 = Some s1" "robject_close s1 4 9 = Some s2"
    and 2: "\<forall>src. \<exists>x t1 t2 t3. robject_stat ?s 4 src = Some (x, t1) \<and>
      robject_stat s1 4 src = Some (if RP_PID src = RP_PID 9 then 3 else x, t2) \<and>
      robject_stat s2 4 src = Some (if RP_PID src = RP_PID 9 then 0 else x, t3)"
    using robject_open_stat [OF h, of 9 3] by blast
  from 2 [rule_format, of 9] 1 show ?thesis by auto
qed

section \<open>Calls and their guards\<close>

lemma strparse_ok:
  assumes "\<forall>c \<in> set args. c < 0x80" and "outcomes st = []"
  shows "\<exists>st'. strparse st args [32] = Some (tokens [32] args, st') \<and> outcomes st' = []"
  using strparse_loop_ok [of args "[32]" "st\<lparr>live := live st + 1\<rparr>" 0 "1 + length (filter (\<lambda>c. c \<in> set [32]) args)"] assms
  by (auto simp: strparse_def tmalloc_ok)

text \<open>
  C21. The status that a call requires guards it on the object that defines it and not on those that inherit it:
  without the status, the call on the object itself is denied, and the same call on an object that has
  that object as its parent runs.\<close>

theorem robject_call_inherited:
  assumes "outcomes (ro_mem (o_idx s)) = []" and "\<forall>c \<in> set args. c < 0x80" and "tokens [32] args = name # rest"
    and "o_objs s ro = Some ob" and "ro \<noteq> 0" and "tbl_ok (call_table ob) calls" and "calls name = hook" and "hook \<noteq> 0"
    and "tbl_ok (call_stat_table ob) stats" and "stats name \<noteq> 0" and "tbl_ok (open_table ob) openers"
    and "stats name AND openers (sdec (RP_PID source)) \<noteq> stats name"
    and "o_objs s child = Some cb" and "child \<noteq> 0" and "o_parent cb = ro" and "tbl_ok (call_table cb) calls'" and "calls' name = 0"
    and "tbl_ok (call_stat_table cb) stats'" and "stats' name = 0"
  shows "\<exists>s' st. robject_call hooks s ro source args = Some (Some [33, 32, 100, 101, 110, 105, 101, 100], s') \<and>
    robject_call hooks s child source args =
      do { (rets, s) \<leftarrow> hooks hook (set_mem s st) child source (name # rest); Some (rets, free_argv s (name # rest)) }"
proof -
  obtain st where st: "strparse (ro_mem (o_idx s)) args [32] = Some (name # rest, st)" "outcomes st = []"
    using strparse_ok [OF assms(2,1)] assms(3) by auto
  let ?s = "set_mem s st"
  have own: "robject_get_call ?s ro (Some name) = Some hook"
    using assms(4-8) tbl_get [OF assms(6)] by (subst robject_get_call.simps) simp
  have inh: "robject_get_call ?s child (Some name) = Some hook"
    using assms(13-17) tbl_get [OF assms(16)] own by (subst robject_get_call.simps) simp
  obtain st' where "robject_stat ?s ro source = Some (openers (sdec (RP_PID source)), set_mem ?s st')" "outcomes st' = []"
    using robject_stat_ok [of ?s ro ob openers source] assms(4,5,11) st(2) by auto
  then have "\<exists>s'. robject_call hooks s ro source args = Some (Some [33, 32, 100, 101, 110, 105, 101, 100], s')"
    using st own assms(4,8,10,12) tbl_get [OF assms(9), of name]
    by (simp add: robject_call_def robject_check_status_def strdup_ok)
  moreover have "robject_call hooks s child source args =
      do { (rets, s) \<leftarrow> hooks hook ?s child source (name # rest); Some (rets, free_argv s (name # rest)) }"
    using st inh assms(8,13,19) tbl_get [OF assms(18), of name] by (simp add: robject_call_def)
  ultimately show ?thesis by blast
qed

theorem robject_call_inherited_witness:
  "\<exists>calls stats s'. let s = \<lparr>o_objs = [4 \<mapsto> empty_object\<lparr>call_table := Some calls, call_stat_table := Some stats\<rparr>,
      8 \<mapsto> empty_object\<lparr>o_parent := 4\<rparr>], o_idx = robjects_init\<rparr> in
    robject_call (\<lambda>hook s ro src argv. Some (Some [111, 107], s)) s 4 9 [103, 101, 116] = Some (Some [33, 32, 100, 101, 110, 105, 101, 100], s') \<and>
    (\<exists>s''. robject_call (\<lambda>hook s ro src argv. Some (Some [111, 107], s)) s 8 9 [103, 101, 116] = Some (Some [111, 107], s''))"
proof -
  let ?st = "\<lparr>outcomes = [], live = 0\<rparr> :: tmem"
  have n: "tbl_ok None (\<lambda>_. 0)" by (simp add: tbl_ok_def)
  obtain calls stats where t: "tbl_ok (Some calls) ((\<lambda>_. 0)([103, 101, 116] := 7))" "tbl_ok (Some stats) ((\<lambda>_. 0)([103, 101, 116] := 1))"
    using tbl_set [OF n, of ?st "[103, 101, 116]"] by (metis (no_types, lifting) card.empty empty_Collect_eq tmem.select_convs(1) zero_less_numeral zero_less_power)
  let ?s = "\<lparr>o_objs = [4 \<mapsto> empty_object\<lparr>call_table := Some calls, call_stat_table := Some stats\<rparr>,
      8 \<mapsto> empty_object\<lparr>o_parent := 4\<rparr>], o_idx = robjects_init\<rparr> :: rdi"
  have "tokens [32] [103, 101, 116] = [[103, 101, 116]]" by code_simp
  from robject_call_inherited [of ?s "[103, 101, 116]" "[103, 101, 116]" "[]" 4
      "empty_object\<lparr>call_table := Some calls, call_stat_table := Some stats\<rparr>" "(\<lambda>_. 0)([103, 101, 116] := 7)" 7
      "(\<lambda>_. 0)([103, 101, 116] := 1)" "\<lambda>_. 0" 9 8 "empty_object\<lparr>o_parent := 4\<rparr>" "\<lambda>_. 0" "\<lambda>_. 0"
      "\<lambda>hook s ro src argv. Some (Some [111, 107], s)", OF _ _ this _ _ _ _ _ _ _ _ _ _ _ _ _ _ _ _]
  obtain s' st where "robject_call (\<lambda>hook s ro src argv. Some (Some [111, 107], s)) ?s 4 9 [103, 101, 116] =
      Some (Some [33, 32, 100, 101, 110, 105, 101, 100], s')"
    "robject_call (\<lambda>hook s ro src argv. Some (Some [111, 107], s)) ?s 8 9 [103, 101, 116] =
      Some (Some [111, 107], free_argv (set_mem ?s st) [[103, 101, 116]])"
    using t by (auto simp: tbl_ok_def empty_object_def robjects_init_def)
  then show ?thesis unfolding Let_def by blast
qed

end
