(* ===== verification/Descriptors.thy ===== *)
theory Descriptors
  imports C_Alloc
begin

text \<open>
  File descriptors and connections of a process, \<open>fdtab.c\<close>, \<open>contab.c\<close>, \<open>ropen.c\<close>, \<open>close.c\<close>, \<open>dup.c\<close> and \<open>dup2.c\<close> of
  \<open>libc/rhombus\<close>. The tables are lists as long as the size that the code keeps. What a block holds before it is written
  is an argument, \<open>fresh\<close>. The reply of a driver to a request to open or close a connection is the next element of a
  list in the state, true for an error, and a success when the list is empty; the requests that were sent are
  recorded. The locks are free between the operations.
\<close>

section \<open>State\<close>

record fdent =
  d_mode :: u32
  d_rp :: u64
  d_pos :: u64

record contab =
  status_count :: "u32 list"
  refc :: u32
  c_rp :: u64

record desc =
  fd_table :: "fdent list"
  con_table :: "contab list"
  replies :: "bool list"
  sent :: "(u64 \<times> u32) list"
  d_mem :: tmem

abbreviation (input) STAT_OPEN :: u32 where "STAT_OPEN \<equiv> 1"

text \<open>The block of a table grows: \<open>realloc\<close> takes a block and gives back the old one if there is one.\<close>

definition grow :: "desc \<Rightarrow> 'a list \<Rightarrow> desc option" where
  "grow s old = (let (ok, st) = tmalloc (d_mem s) in
     if ok then Some (s\<lparr>d_mem := (if old = [] then st else tfree st)\<rparr>) else None)"

section \<open>Descriptors\<close>

definition fd_alloc :: "desc \<Rightarrow> int" where
  "fd_alloc s = (case find (\<lambda>i. d_rp (fd_table s ! i) = 0) [4..<length (fd_table s)] of
     Some i \<Rightarrow> int i
   | None \<Rightarrow> if length (fd_table s) < 4 then 4 else int (length (fd_table s)))"

definition fd_set :: "(nat \<Rightarrow> fdent) \<Rightarrow> desc \<Rightarrow> int \<Rightarrow> u64 \<Rightarrow> u32 \<Rightarrow> (int \<times> desc) option" where
  "fd_set fresh s fd rp mode = (if fd < 0 \<or> fd \<ge> 4096 then Some (- 1, s) else do {
     let n = nat fd;
     s \<leftarrow> (if length (fd_table s) \<le> n then do {
         s' \<leftarrow> grow s (fd_table s);
         let t = fd_table s @ map fresh [length (fd_table s)..<n + 1];
         Some (s'\<lparr>fd_table := t[n := (t ! n)\<lparr>d_rp := 0\<rparr>]\<rparr>)
       } else Some s);
     Some (0, s\<lparr>fd_table := (fd_table s)[n := (fd_table s ! n)\<lparr>d_rp := rp, d_mode := mode\<rparr>]\<rparr>)
   })"

definition fd_mode :: "desc \<Rightarrow> int \<Rightarrow> u32" where
  "fd_mode s fd = (if fd < 0 \<or> int (length (fd_table s)) \<le> fd then 0 else d_mode (fd_table s ! nat fd))"

definition fd_rp :: "desc \<Rightarrow> int \<Rightarrow> u64" where
  "fd_rp s fd = (if fd < 0 \<or> int (length (fd_table s)) \<le> fd then 0 else d_rp (fd_table s ! nat fd))"

definition fd_seek :: "desc \<Rightarrow> int \<Rightarrow> u64 \<Rightarrow> int \<times> desc" where
  "fd_seek s fd pos = (if fd \<ge> 0 \<and> int (length (fd_table s)) > fd
     then (0, s\<lparr>fd_table := (fd_table s)[nat fd := (fd_table s ! nat fd)\<lparr>d_pos := pos\<rparr>]\<rparr>)
     else (- 1, s))"

definition fd_pos :: "desc \<Rightarrow> int \<Rightarrow> u64" where
  "fd_pos s fd = (if fd < 0 \<or> int (length (fd_table s)) \<le> fd then 0 else d_pos (fd_table s ! nat fd))"

section \<open>Connections\<close>

text \<open>A request to the driver: to open with a status, or to close for the status zero.\<close>

definition rp_connect :: "desc \<Rightarrow> u64 \<Rightarrow> u32 \<Rightarrow> bool \<times> desc" where
  "rp_connect s rp status = (case replies s of
     [] \<Rightarrow> (False, s\<lparr>sent := sent s @ [(rp, status)]\<rparr>)
   | b # bs \<Rightarrow> (b, s\<lparr>replies := bs, sent := sent s @ [(rp, status)]\<rparr>))"

definition count_status :: "u32 \<Rightarrow> u32 \<Rightarrow> u32 list \<Rightarrow> u32 list" where
  "count_status d status cs = map2 (\<lambda>j c. if bit status j then c + d else c) [0..<32] cs"

definition status_of :: "u32 list \<Rightarrow> u32" where
  "status_of cs = fold (\<lambda>(j, c) status. if sint c > 0 then status OR push_bit j 1 else status) (zip [0..<32] cs) 0"

definition find_index :: "('a \<Rightarrow> bool) \<Rightarrow> 'a list \<Rightarrow> nat option" where
  "find_index P xs = find (\<lambda>i. P (xs ! i)) [0..<length xs]"

definition contab_get :: "desc \<Rightarrow> u64 \<Rightarrow> u32" where
  "contab_get s rp = (case find_index (\<lambda>e. c_rp e = rp) (con_table s) of
     None \<Rightarrow> 0
   | Some i \<Rightarrow> status_of (status_count (con_table s ! i)))"

partial_function (option) contab_del :: "desc \<Rightarrow> u64 \<Rightarrow> u32 \<Rightarrow> (u32 \<times> desc) option" where
  "contab_del s rp status = (if status = 0 then Some (0, s) else
     case find_index (\<lambda>e. c_rp e = rp) (con_table s) of
       None \<Rightarrow> Some (1, s)
     | Some i \<Rightarrow> do {
         let e = con_table s ! i;
         let e = e\<lparr>status_count := count_status (- 1) status (status_count e), refc := refc e - 1\<rparr>;
         let e = (if sint (refc e) \<le> 0 then e\<lparr>c_rp := 0\<rparr> else e);
         let s = s\<lparr>con_table := (con_table s)[i := e]\<rparr>;
         let (err, s) = rp_connect s rp (contab_get s rp);
         if err then do { (_, s) \<leftarrow> contab_del s rp status; Some (1, s) } else Some (0, s)
       })"

text \<open>The end of both branches of \<open>_contab_add\<close>: the connection is reopened with the new status.\<close>

definition reopen :: "desc \<Rightarrow> u64 \<Rightarrow> u32 \<Rightarrow> (u32 \<times> desc) option" where
  "reopen s rp status = (let (err, s) = rp_connect s rp (contab_get s rp) in
     if err then do { (_, s) \<leftarrow> contab_del s rp status; Some (1, s) } else Some (0, s))"

definition contab_add :: "(nat \<Rightarrow> contab) \<Rightarrow> desc \<Rightarrow> u64 \<Rightarrow> u32 \<Rightarrow> (u32 \<times> desc) option" where
  "contab_add fresh s rp status = (if status = 0 then Some (0, s) else
     case find_index (\<lambda>e. c_rp e = 0 \<or> c_rp e = rp) (con_table s) of
       Some i \<Rightarrow> do {
         let e = con_table s ! i;
         let e = (if c_rp e = 0 then \<lparr>status_count = replicate 32 0, refc = 0, c_rp = rp\<rparr> else e);
         let e = e\<lparr>status_count := count_status 1 status (status_count e), refc := refc e + 1\<rparr>;
         reopen (s\<lparr>con_table := (con_table s)[i := e]\<rparr>) rp status
       }
     | None \<Rightarrow> do {
         let n = length (con_table s);
         s' \<leftarrow> grow s (con_table s);
         let t = con_table s @ map (\<lambda>i. (fresh i)\<lparr>c_rp := 0\<rparr>) [n..<n + 16];
         let e = \<lparr>status_count = map (\<lambda>j. if bit status j then 1 else 0) [0..<32], refc = 1, c_rp = rp\<rparr>;
         reopen (s'\<lparr>con_table := t[n := e]\<rparr>) rp status
       })"

definition rp_getstat :: "desc \<Rightarrow> u64 \<Rightarrow> u32" where
  "rp_getstat s rp = contab_get s rp"

definition rp_setstat :: "(nat \<Rightarrow> contab) \<Rightarrow> desc \<Rightarrow> u64 \<Rightarrow> u32 \<Rightarrow> (u32 \<times> desc) option" where
  "rp_setstat fresh s rp status = contab_add fresh s rp (status OR STAT_OPEN)"

definition rp_clrstat :: "desc \<Rightarrow> u64 \<Rightarrow> u32 \<Rightarrow> (u32 \<times> desc) option" where
  "rp_clrstat s rp status = contab_del s rp (status OR STAT_OPEN)"

section \<open>Opening and closing\<close>

definition ropen :: "(nat \<Rightarrow> fdent) \<Rightarrow> (nat \<Rightarrow> contab) \<Rightarrow> desc \<Rightarrow> int \<Rightarrow> u64 \<Rightarrow> u32 \<Rightarrow> (int \<times> desc) option" where
  "ropen freshd freshc s fd rp mode = (if rp = 0 then fd_set freshd s fd 0 0 else do {
     let fd = (if fd < 0 then fd_alloc s else fd);
     let mode = mode OR STAT_OPEN;
     let old_mode = fd_mode s fd;
     let old_rp = fd_rp s fd;
     (e1, s) \<leftarrow> rp_setstat freshc s rp mode;
     (e2, s) \<leftarrow> (if old_rp = rp then rp_clrstat s rp (old_mode AND NOT mode)
       else if old_rp \<noteq> 0 then rp_clrstat s old_rp old_mode
       else Some (0, s));
     let err = e1 + e2;
     if err \<noteq> 0 then Some (- sint err, s)
     else do {
       (r, s) \<leftarrow> fd_set freshd s fd rp mode;
       Some (if r \<noteq> 0 then - 1 else fd, s)
     }
   })"

definition close :: "(nat \<Rightarrow> fdent) \<Rightarrow> desc \<Rightarrow> int \<Rightarrow> (int \<times> desc) option" where
  "close fresh s fd = do {
     let mode = fd_mode s fd;
     let rp = fd_rp s fd;
     if rp = 0 then Some (- 1, s)
     else do {
       (e, s) \<leftarrow> rp_clrstat s rp mode;
       if e \<noteq> 0 then Some (- 1, s) else fd_set fresh s fd rp 0
     }
   }"

definition dup :: "(nat \<Rightarrow> fdent) \<Rightarrow> (nat \<Rightarrow> contab) \<Rightarrow> desc \<Rightarrow> int \<Rightarrow> (int \<times> desc) option" where
  "dup freshd freshc s fd = ropen freshd freshc s (- 1) (fd_rp s fd) (fd_mode s fd)"

definition dup2 :: "(nat \<Rightarrow> fdent) \<Rightarrow> (nat \<Rightarrow> contab) \<Rightarrow> desc \<Rightarrow> int \<Rightarrow> int \<Rightarrow> (int \<times> desc) option" where
  "dup2 freshd freshc s fd newfd = ropen freshd freshc s newfd (fd_rp s fd) (fd_mode s fd)"

end
