(* ===== verification/Descriptors_Rep.thy ===== *)
theory Descriptors_Rep
  imports Descriptors
begin

text \<open>
  The proofs about \<open>Descriptors\<close>: the statuses of connections as counts per bit, tables without free entries, the loss of a status to a free
  entry, and the descriptors that closing does not give back.
\<close>

section \<open>Searching the tables\<close>

lemma find_upt_Some: "find P [k..<n] = Some i \<longleftrightarrow> k \<le> i \<and> i < n \<and> P i \<and> (\<forall>j. k \<le> j \<longrightarrow> j < i \<longrightarrow> \<not> P j)"
proof -
  have "find P [k..<n] = Some i \<longleftrightarrow> (\<exists>m < n - k. P (k + m) \<and> i = k + m \<and> (\<forall>j < m. \<not> P (k + j)))"
    by (auto simp: find_Some_iff)
  also have "\<dots> \<longleftrightarrow> k \<le> i \<and> i < n \<and> P i \<and> (\<forall>j. k \<le> j \<longrightarrow> j < i \<longrightarrow> \<not> P j)"
    by (auto simp: le_iff_add intro!: exI [of _ "i - k"])
  finally show ?thesis .
qed

lemma find_index_Some: "find_index P xs = Some i \<longleftrightarrow> i < length xs \<and> P (xs ! i) \<and> (\<forall>j < i. \<not> P (xs ! j))"
  by (simp add: find_index_def find_upt_Some)

lemma find_index_None: "find_index P xs = None \<longleftrightarrow> (\<forall>x \<in> set xs. \<not> P x)"
  by (auto simp: find_index_def find_None_iff all_set_conv_all_nth)

section \<open>Statuses and their counts\<close>

lemma bit_status_fold:
  assumes "\<forall>(j, c) \<in> set xs. j < 32"
  shows "bit (fold (\<lambda>(j, c) status. if sint c > 0 then status OR push_bit j 1 else status) xs st) n \<longleftrightarrow>
    bit (st :: u32) n \<or> (\<exists>c. (n, c :: u32) \<in> set xs \<and> sint c > 0)"
  using assms
  by (induction xs arbitrary: st) (auto simp: bit_simps split: if_splits)

lemma bit_status_of:
  assumes "length cs = 32"
  shows "bit (status_of cs) n \<longleftrightarrow> n < 32 \<and> sint (cs ! n) > 0"
proof -
  have "bit (status_of cs) n \<longleftrightarrow> (\<exists>c. (n, c) \<in> set (zip [0..<32] cs) \<and> sint c > 0)"
    unfolding status_of_def by (subst bit_status_fold) (auto dest: set_zip_leftD)
  also have "\<dots> \<longleftrightarrow> n < 32 \<and> sint (cs ! n) > 0" using assms by (force simp: set_zip)
  finally show ?thesis .
qed

lemma count_status_nth: "length cs = 32 \<Longrightarrow> j < 32 \<Longrightarrow> count_status d status cs ! j = (if bit status j then cs ! j + d else cs ! j)"
  by (simp add: count_status_def)

lemma count_status_length: "length cs = 32 \<Longrightarrow> length (count_status d status cs) = 32"
  by (simp add: count_status_def)

lemma count_status_zero: "count_status 1 status (replicate 32 0) = map (\<lambda>j. if bit status j then 1 else 0) [0..<32]"
  by (auto intro: nth_equalityI simp: count_status_def)

lemma status_of_once: "status_of (map (\<lambda>j. if bit status j then 1 else 0) [0..<32]) = status"
  by (rule bit_word_eqI) (simp add: bit_status_of)

section \<open>Connections that are only opened\<close>

text \<open>How many of the connections set a bit, and the union of their statuses.\<close>

definition count_bit :: "(u64 \<times> u32) list \<Rightarrow> u64 \<Rightarrow> nat \<Rightarrow> nat" where
  "count_bit cs rp j = length (filter (\<lambda>(r, status). r = rp \<and> bit (status OR STAT_OPEN) j) cs)"

definition stat_union :: "(u64 \<times> u32) list \<Rightarrow> u64 \<Rightarrow> u32" where
  "stat_union cs rp = fold (\<lambda>(r, status) acc. if r = rp then acc OR status OR STAT_OPEN else acc) cs 0"

lemma count_bit_snoc: "count_bit (cs @ [(r, st)]) rp j = count_bit cs rp j + (if r = rp \<and> bit (st OR STAT_OPEN) j then 1 else 0)"
  by (simp add: count_bit_def)

lemma stat_union_snoc: "stat_union (cs @ [(r, st)]) rp = (if r = rp then stat_union cs rp OR st OR STAT_OPEN else stat_union cs rp)"
  by (simp add: stat_union_def)

lemma bit_stat_union: "bit (stat_union cs rp) j \<longleftrightarrow> j < 32 \<and> count_bit cs rp j > 0"
proof (induction cs rule: rev_induct)
  case (snoc c cs)
  show ?case using snoc by (cases c) (auto simp: count_bit_snoc stat_union_snoc bit_simps dest: bit_imp_le_length)
qed (simp add: stat_union_def count_bit_def)

lemma count_bit_le: "count_bit cs rp j \<le> length cs"
  by (simp add: count_bit_def)

definition entry_for :: "(u64 \<times> u32) list \<Rightarrow> contab \<Rightarrow> bool" where
  "entry_for cs e \<longleftrightarrow> c_rp e \<noteq> 0 \<and> status_count e = map (\<lambda>j. of_nat (count_bit cs (c_rp e) j)) [0..<32]"

definition table_for :: "(u64 \<times> u32) list \<Rightarrow> contab list \<Rightarrow> nat \<Rightarrow> bool" where
  "table_for cs t n \<longleftrightarrow> n \<le> length t \<and> (\<forall>i < n. entry_for cs (t ! i)) \<and> (\<forall>i < length t. n \<le> i \<longrightarrow> c_rp (t ! i) = 0) \<and>
     (\<forall>i < n. \<forall>j < n. c_rp (t ! i) = c_rp (t ! j) \<longrightarrow> i = j) \<and> (\<forall>rp. (\<exists>i < n. c_rp (t ! i) = rp) \<longleftrightarrow> (\<exists>st. (rp, st) \<in> set cs))"

lemma sint_of_nat: "n < 2 ^ 31 \<Longrightarrow> sint (of_nat n :: u32) = int n"
  by (simp add: signed_of_nat signed_take_bit_int_eq_self)

lemma status_entry:
  assumes "entry_for cs e" and "length cs < 2 ^ 31"
  shows "status_of (status_count e) = stat_union cs (c_rp e)"
proof (rule bit_word_eqI)
  fix j assume "j < LENGTH(32)"
  moreover have "count_bit cs (c_rp e) j < 2 ^ 31" using count_bit_le assms(2) by (rule le_less_trans)
  ultimately show "bit (status_of (status_count e)) j = bit (stat_union cs (c_rp e)) j"
    using assms(1) by (simp add: entry_for_def bit_status_of bit_stat_union sint_of_nat)
qed

lemma get_table_for:
  assumes "table_for cs (con_table s) n" and "length cs < 2 ^ 31" and "rp \<noteq> 0"
  shows "contab_get s rp = stat_union cs rp"
proof (cases "find_index (\<lambda>e. c_rp e = rp) (con_table s)")
  case None
  then have "\<not> (\<exists>st. (rp, st) \<in> set cs)" using assms(1) unfolding find_index_None table_for_def by (metis nth_mem order_less_le_trans)
  then have "count_bit cs rp j = 0" for j by (auto simp: count_bit_def filter_empty_conv)
  then have "stat_union cs rp = 0" by (intro bit_word_eqI) (simp add: bit_stat_union)
  then show ?thesis using None by (simp add: contab_get_def)
next
  case (Some i)
  then have "i < n" "c_rp (con_table s ! i) = rp" using assms(1,3) unfolding find_index_Some table_for_def by (metis linorder_not_le)+
  then show ?thesis using Some status_entry [OF _ assms(2), of "con_table s ! i"] assms(1) by (auto simp: contab_get_def table_for_def)
qed

lemma entry_other: "entry_for cs e \<Longrightarrow> c_rp e \<noteq> rp \<Longrightarrow> entry_for (cs @ [(rp, status)]) e"
  by (simp add: entry_for_def count_bit_snoc)

lemma entry_same:
  assumes "entry_for cs e" and "c_rp e = rp"
  shows "entry_for (cs @ [(rp, status)]) (e\<lparr>status_count := count_status 1 (status OR STAT_OPEN) (status_count e), refc := x\<rparr>)"
  using assms by (auto intro!: nth_equalityI simp: entry_for_def count_bit_snoc count_status_nth count_status_length)

lemma entry_new:
  assumes "\<And>st. (rp, st) \<notin> set cs" and "rp \<noteq> 0"
  shows "entry_for (cs @ [(rp, status)]) \<lparr>status_count = map (\<lambda>j. if bit (status OR STAT_OPEN) j then 1 else 0) [0..<32], refc = x, c_rp = rp\<rparr>"
proof -
  have "count_bit cs rp j = 0" for j using assms(1) by (auto simp: count_bit_def filter_empty_conv)
  then show ?thesis using assms(2) by (simp add: entry_for_def count_bit_snoc)
qed

lemma table_hit:
  assumes "table_for cs t n" and "i < n" and "c_rp (t ! i) = rp"
  shows "table_for (cs @ [(rp, status)]) (t[i := (t ! i)\<lparr>status_count := count_status 1 (status OR STAT_OPEN) (status_count (t ! i)), refc := x\<rparr>]) n"
proof -
  let ?t = "t[i := (t ! i)\<lparr>status_count := count_status 1 (status OR STAT_OPEN) (status_count (t ! i)), refc := x\<rparr>]"
  have rp: "c_rp (?t ! k) = c_rp (t ! k)" for k using assms(1,2) by (cases "k = i") (auto simp: table_for_def)
  have "entry_for (cs @ [(rp, status)]) (?t ! k)" if "k < n" for k
  proof (cases "k = i")
    case True
    then show ?thesis using entry_same [of cs "t ! i" rp status x] assms by (simp add: table_for_def)
  next
    case False
    then show ?thesis using entry_other [of cs "t ! k" rp status] assms that by (auto simp: table_for_def)
  qed
  moreover have "(\<exists>k < n. c_rp (t ! k) = rp') \<longleftrightarrow> (\<exists>st. (rp', st) \<in> set (cs @ [(rp, status)]))" for rp'
    using assms by (auto simp: table_for_def)
  ultimately show ?thesis using assms(1) by (simp add: table_for_def rp)
qed

lemma table_new:
  assumes "table_for cs t n" and "n < length t" and "\<not> (\<exists>i < n. c_rp (t ! i) = rp)" and "rp \<noteq> 0"
  shows "table_for (cs @ [(rp, status)])
    (t[n := \<lparr>status_count = map (\<lambda>j. if bit (status OR STAT_OPEN) j then 1 else 0) [0..<32], refc = x, c_rp = rp\<rparr>]) (Suc n)"
proof -
  let ?e = "\<lparr>status_count = map (\<lambda>j. if bit (status OR STAT_OPEN) j then 1 else 0) [0..<32], refc = x, c_rp = rp\<rparr>"
  let ?t = "t[n := ?e]"
  have no: "(rp, st) \<notin> set cs" for st using assms(1,3) unfolding table_for_def by blast
  have "entry_for (cs @ [(rp, status)]) (?t ! k)" if "k < Suc n" for k
  proof (cases "k = n")
    case True
    then show ?thesis using entry_new [OF no assms(4), of status x] assms(2) by simp
  next
    case False
    then show ?thesis using entry_other [of cs "t ! k" rp status] assms that by (auto simp: table_for_def)
  qed
  moreover have "(\<exists>k < Suc n. c_rp (?t ! k) = rp') \<longleftrightarrow> (\<exists>st. (rp', st) \<in> set (cs @ [(rp, status)]))" for rp'
  proof -
    have "(\<exists>k < Suc n. c_rp (?t ! k) = rp') \<longleftrightarrow> (\<exists>k < n. c_rp (t ! k) = rp') \<or> rp = rp'"
      using assms(2) by (auto simp: less_Suc_eq nth_list_update)
    then show ?thesis using assms(1) by (auto simp: table_for_def)
  qed
  moreover have "\<forall>i < Suc n. \<forall>j < Suc n. c_rp (?t ! i) = c_rp (?t ! j) \<longrightarrow> i = j"
    using assms(1-3) by (auto simp: table_for_def less_Suc_eq nth_list_update)
  ultimately show ?thesis using assms(1,2) by (simp add: table_for_def)
qed

lemma table_grown: "table_for cs t (length t) \<Longrightarrow> \<forall>e \<in> set es. c_rp e = 0 \<Longrightarrow> table_for cs (t @ es) (length t)"
  by (auto simp: table_for_def nth_append)

lemma grow_ok:
  assumes "outcomes (d_mem s) = []"
  shows "\<exists>st. grow s old = Some (s\<lparr>d_mem := st\<rparr>) \<and> outcomes st = []"
  using assms by (auto simp: grow_def tmalloc_ok)

lemma contab_step:
  assumes "table_for cs (con_table s) n" and "length cs + 1 < 2 ^ 31" and "rp \<noteq> 0" and "replies s = []" and "outcomes (d_mem s) = []"
  shows "\<exists>s' n'. rp_setstat fresh s rp status = Some (0, s') \<and> table_for (cs @ [(rp, status)]) (con_table s') n' \<and> replies s' = [] \<and>
    outcomes (d_mem s') = [] \<and> sent s' = sent s @ [(rp, stat_union (cs @ [(rp, status)]) rp)]"
proof -
  let ?w = "status OR STAT_OPEN" and ?cs = "cs @ [(rp, status)]" and ?t = "con_table s"
  have w: "?w \<noteq> 0" by (metis bit_0_eq bit_1_0 bit_or_iff bot_fun_def bot_bool_def)
  have fin: "reopen s' rp ?w = Some (0, s'\<lparr>sent := sent s' @ [(rp, stat_union ?cs rp)]\<rparr>)"
    if "replies s' = []" "table_for ?cs (con_table s') n'" for s' n'
    using that get_table_for [OF that(2) _ assms(3)] assms(2) by (simp add: reopen_def rp_connect_def)
  consider (hit) i where "i < n" "c_rp (?t ! i) = rp" | (free) "\<not> (\<exists>i < n. c_rp (?t ! i) = rp)" "n < length ?t"
    | (full) "\<not> (\<exists>i < n. c_rp (?t ! i) = rp)" "n = length ?t" using assms(1) by (fastforce simp: table_for_def)
  then show ?thesis
  proof cases
    case hit
    then have "\<forall>j < i. c_rp (?t ! j) \<noteq> rp" using assms(1) unfolding table_for_def by (metis less_trans nat_neq_iff)
    then have i: "find_index (\<lambda>e. c_rp e = 0 \<or> c_rp e = rp) ?t = Some i"
      using assms(1) hit by (auto simp: find_index_Some table_for_def entry_for_def)
    have "c_rp (?t ! i) \<noteq> 0" using hit assms(3) by simp
    note T = table_hit [OF assms(1) hit, of status "refc (?t ! i) + 1"]
    then show ?thesis using fin [of "s\<lparr>con_table := ?t[i := (?t ! i)\<lparr>status_count := count_status 1 ?w (status_count (?t ! i)), refc := refc (?t ! i) + 1\<rparr>]\<rparr>" n] \<open>c_rp (?t ! i) \<noteq> 0\<close> i assms(4,5) w
      by (auto simp: rp_setstat_def contab_add_def Let_def)
  next
    case free
    then have i: "find_index (\<lambda>e. c_rp e = 0 \<or> c_rp e = rp) ?t = Some n" "c_rp (?t ! n) = 0"
      using assms(1) by (auto simp: find_index_Some table_for_def entry_for_def)
    let ?e = "\<lparr>status_count = map (\<lambda>j. if bit ?w j then 1 else 0) [0..<32], refc = 1, c_rp = rp\<rparr> :: contab"
    note T = table_new [OF assms(1) free(2,1) assms(3), of status 1]
    then show ?thesis using fin [of "s\<lparr>con_table := ?t[n := ?e]\<rparr>" "Suc n"] i assms(4,5) w
      by (auto simp: rp_setstat_def contab_add_def Let_def count_status_zero)
  next
    case full
    then have i: "find_index (\<lambda>e. c_rp e = 0 \<or> c_rp e = rp) ?t = None"
      using assms(1) unfolding find_index_None by (auto simp: table_for_def entry_for_def in_set_conv_nth)
    let ?e = "\<lparr>status_count = map (\<lambda>j. if bit ?w j then 1 else 0) [0..<32], refc = 1, c_rp = rp\<rparr> :: contab"
    let ?new = "?t @ map (\<lambda>i. (fresh i)\<lparr>c_rp := 0\<rparr>) [n..<n + 16]"
    have g: "table_for cs ?new n" using table_grown [of cs ?t] assms(1) full(2) by simp
    have "n < length ?new" using full(2) by simp
    moreover have "\<not> (\<exists>i < n. c_rp (?new ! i) = rp)" using full by (simp add: nth_append)
    ultimately have T: "table_for ?cs (?new[n := ?e]) (Suc n)" using g table_new assms(3) by blast
    obtain st where "grow s ?t = Some (s\<lparr>d_mem := st\<rparr>)" "outcomes st = []" using grow_ok [OF assms(5), of ?t] by blast
    then show ?thesis using T fin [of "s\<lparr>d_mem := st, con_table := ?new[n := ?e]\<rparr>" "Suc n"] i assms(4,5) w full(2)
      by (auto simp: rp_setstat_def contab_add_def Let_def)
  qed
qed

text \<open>
  C22. The status of a connection is the union of the statuses that were asked for: however many connections are opened, to
  however many resources, as long as none is closed, every request reopens its connection with the union of
  the statuses asked for so far, and \<open>rp_getstat\<close> returns that union for every resource.\<close>

theorem rp_setstat_union:
  assumes "\<forall>(rp, status) \<in> set cs. rp \<noteq> 0" and "length cs < 2 ^ 31" and "con_table s = []" and "replies s = []" and "outcomes (d_mem s) = []"
  shows "\<exists>s'. for_list (\<lambda>(rp, status) s. do { (err, s) \<leftarrow> rp_setstat fresh s rp status; if err = 0 then Some s else None }) cs s = Some s' \<and>
    (\<forall>rp. rp \<noteq> 0 \<longrightarrow> rp_getstat s' rp = stat_union cs rp) \<and>
    sent s' = sent s @ map (\<lambda>k. (fst (cs ! k), stat_union (take (Suc k) cs) (fst (cs ! k)))) [0..<length cs]"
proof -
  let ?f = "\<lambda>(rp, status) s. do { (err, s) \<leftarrow> rp_setstat fresh s rp status; if err = 0 then Some s else None }"
  have "\<exists>s' n. for_list ?f cs s = Some s' \<and> table_for cs (con_table s') n \<and> replies s' = [] \<and> outcomes (d_mem s') = [] \<and>
    sent s' = sent s @ map (\<lambda>k. (fst (cs ! k), stat_union (take (Suc k) cs) (fst (cs ! k)))) [0..<length cs]"
    using assms(1,2)
  proof (induction cs rule: rev_induct)
    case Nil
    then show ?case using assms(3-5) by (auto simp: table_for_def)
  next
    case (snoc c cs)
    obtain rp status where c: "c = (rp, status)" by (cases c)
    obtain s1 n where 1: "for_list ?f cs s = Some s1" "table_for cs (con_table s1) n" "replies s1 = []" "outcomes (d_mem s1) = []"
      "sent s1 = sent s @ map (\<lambda>k. (fst (cs ! k), stat_union (take (Suc k) cs) (fst (cs ! k)))) [0..<length cs]"
      using snoc by auto
    have m: "map (\<lambda>k. (fst ((cs @ [c]) ! k), stat_union (take (Suc k) (cs @ [c])) (fst ((cs @ [c]) ! k)))) [0..<length cs] =
        map (\<lambda>k. (fst (cs ! k), stat_union (take (Suc k) cs) (fst (cs ! k)))) [0..<length cs]"
      by (rule map_cong) (auto simp: nth_append)
    show ?case using contab_step [OF 1(2) _ _ 1(3,4), of rp fresh status] 1 snoc.prems c m by (auto simp: for_list_append)
  qed
  then show ?thesis using get_table_for assms(2) by (auto simp: rp_getstat_def)
qed

definition desc0 :: desc where
  "desc0 = \<lparr>fd_table = [], con_table = [], replies = [], sent = [], d_mem = \<lparr>outcomes = [], live = 0\<rparr>\<rparr>"

theorem rp_setstat_union_witness:
  "\<exists>s'. for_list (\<lambda>(rp, status) s. do { (err, s) \<leftarrow> rp_setstat (\<lambda>_. undefined) s rp status; if err = 0 then Some s else None })
      [(5, 2), (9, 4), (5, 4)] desc0 = Some s' \<and> rp_getstat s' 5 = 7 \<and> sent s' = [(5, 3), (9, 5), (5, 7)]"
proof -
  let ?cs = "[(5, 2), (9, 4), (5, 4)] :: (u64 \<times> u32) list"
  have h: "\<forall>(rp, status) \<in> set ?cs. rp \<noteq> 0" "length ?cs < 2 ^ 31" "con_table desc0 = []" "replies desc0 = []" "outcomes (d_mem desc0) = []"
    by (simp_all add: desc0_def)
  obtain s' where 1: "for_list (\<lambda>(rp, status) s. do { (err, s) \<leftarrow> rp_setstat (\<lambda>_. undefined) s rp status; if err = 0 then Some s else None })
      ?cs desc0 = Some s'" and 2: "\<forall>rp. rp \<noteq> 0 \<longrightarrow> rp_getstat s' rp = stat_union ?cs rp"
    and 3: "sent s' = sent desc0 @ map (\<lambda>k. (fst (?cs ! k), stat_union (take (Suc k) ?cs) (fst (?cs ! k)))) [0..<length ?cs]"
    using rp_setstat_union [OF h, of "\<lambda>_. undefined"] by blast
  have "rp_getstat s' 5 = 7" using 2 by (simp add: stat_union_def)
  moreover have "sent s' = [(5, 3), (9, 5), (5, 7)]" using 3 by (simp add: stat_union_def desc0_def)
  ultimately show ?thesis using 1 by blast
qed

section \<open>Closed entries\<close>

lemma or_open_ne: "status OR STAT_OPEN \<noteq> (0 :: u32)"
  by (metis bit_0_eq bit_1_0 bit_or_iff bot_fun_def bot_bool_def)

text \<open>
  A connection is lost to a free entry: when a connection that was opened before another one is closed, the next request for that other
  resource takes the free entry in front of its own, and the connection is reopened with the new status alone,
  although the first one was never closed.\<close>

theorem rp_setstat_splits:
  assumes "con_table s = []" and "replies s = []" and "outcomes (d_mem s) = []" and "a \<noteq> 0" and "b \<noteq> 0" and "a \<noteq> b"
  shows "\<exists>s'. do {
      (_, s) \<leftarrow> rp_setstat fresh s a x;
      (_, s) \<leftarrow> rp_setstat fresh s b y;
      (_, s) \<leftarrow> rp_clrstat s a x;
      rp_setstat fresh s b z
    } = Some (0, s') \<and> rp_getstat s' b = z OR STAT_OPEN \<and> last (sent s') = (b, z OR STAT_OPEN)"
proof -
  let ?e = "\<lambda>r st. \<lparr>status_count = map (\<lambda>j. if bit st j then 1 else 0) [0..<32], refc = 1, c_rp = r\<rparr> :: contab"
  have "[0..<16] = 0 # [Suc 0..<16]" "[Suc 0..<16] = Suc 0 # [Suc (Suc 0)..<16]" by (rule upt_conv_Cons, simp)+
  then obtain e0 e1 r where m: "map (\<lambda>i. (fresh i)\<lparr>c_rp := 0\<rparr>) [0..<16] = e0 # e1 # r" "c_rp e0 = 0" "c_rp e1 = 0"
    by (simp del: upt_rec_numeral)
  obtain st where g: "grow s ([] :: contab list) = Some (s\<lparr>d_mem := st\<rparr>)" "outcomes st = []" using grow_ok [OF assms(3)] by blast
  have f0: "find_index P [] = None" for P :: "contab \<Rightarrow> bool" by (simp add: find_index_def)
  have f1: "find_index P (e # es) = Some 0" if "P e" for P :: "contab \<Rightarrow> bool" and e es using that by (simp add: find_index_Some)
  have f2: "find_index P (d # e # es) = Some (Suc 0)" if "\<not> P d" "P e" for P :: "contab \<Rightarrow> bool" and d e es using that by (simp add: find_index_Some)
  note simps = contab_add_def or_open_ne reopen_def rp_connect_def contab_get_def f0 f1 f2 status_of_once count_status_zero
  have 1: "rp_setstat fresh s a x = Some (0, s\<lparr>con_table := ?e a (x OR 1) # e1 # r, d_mem := st, sent := sent s @ [(a, x OR 1)]\<rparr>)"
    using g assms m by (simp add: rp_setstat_def simps del: upt_rec_numeral)
  let ?s1 = "s\<lparr>con_table := ?e a (x OR 1) # e1 # r, d_mem := st, sent := sent s @ [(a, x OR 1)]\<rparr>"
  have 2: "rp_setstat fresh ?s1 b y = Some (0, ?s1\<lparr>con_table := ?e a (x OR 1) # ?e b (y OR 1) # r, sent := sent ?s1 @ [(b, y OR 1)]\<rparr>)"
    using g assms m by (simp add: rp_setstat_def simps del: upt_rec_numeral)
  let ?s2 = "?s1\<lparr>con_table := ?e a (x OR 1) # ?e b (y OR 1) # r, sent := sent ?s1 @ [(b, y OR 1)]\<rparr>"
  have "\<exists>e s3. rp_clrstat ?s2 a x = Some (0, s3) \<and> con_table s3 = e # ?e b (y OR 1) # r \<and> c_rp e = 0 \<and> replies s3 = []"
    unfolding rp_clrstat_def by (subst contab_del.simps) (use assms in \<open>simp add: simps Let_def del: upt_rec_numeral\<close>)
  then obtain e s3 where 3: "rp_clrstat ?s2 a x = Some (0, s3)" "con_table s3 = e # ?e b (y OR 1) # r" "c_rp e = 0" "replies s3 = []"
    by blast
  then have "\<exists>s4. rp_setstat fresh s3 b z = Some (0, s4) \<and> rp_getstat s4 b = z OR STAT_OPEN \<and> last (sent s4) = (b, z OR STAT_OPEN)"
    using assms(5) by (simp add: rp_setstat_def rp_getstat_def simps del: upt_rec_numeral)
  then show ?thesis using 1 2 3(1) by simp
qed

theorem rp_setstat_splits_witness:
  "\<exists>s'. do {
      (_, s) \<leftarrow> rp_setstat (\<lambda>_. undefined) desc0 5 2;
      (_, s) \<leftarrow> rp_setstat (\<lambda>_. undefined) s 9 2;
      (_, s) \<leftarrow> rp_clrstat s 5 2;
      rp_setstat (\<lambda>_. undefined) s 9 4
    } = Some (0, s') \<and> rp_getstat s' 9 = 4 OR STAT_OPEN \<and> last (sent s') = (9, 4 OR STAT_OPEN)"
  by (rule rp_setstat_splits) (simp_all add: desc0_def)

section \<open>Descriptors that are opened and closed\<close>

primrec open_close :: "(nat \<Rightarrow> fdent) \<Rightarrow> (nat \<Rightarrow> contab) \<Rightarrow> u64 \<Rightarrow> u32 \<Rightarrow> nat \<Rightarrow> desc \<Rightarrow> (int list \<times> desc) option" where
  "open_close freshd freshc rp mode 0 s = Some ([], s)"
| "open_close freshd freshc rp mode (Suc n) s = do {
     (fds, s) \<leftarrow> open_close freshd freshc rp mode n s;
     (fd, s) \<leftarrow> ropen freshd freshc s (- 1) rp mode;
     (r, s) \<leftarrow> close freshd s fd;
     if r = 0 then Some (fds @ [fd], s) else None
   }"

abbreviation (input) once :: "u64 \<Rightarrow> u32 \<Rightarrow> contab" where
  "once rp w \<equiv> \<lparr>status_count = map (\<lambda>j. if bit w j then 1 else 0) [0..<32], refc = 1, c_rp = rp\<rparr>"

definition all_free :: "contab list \<Rightarrow> bool" where
  "all_free es \<longleftrightarrow> (\<forall>e \<in> set es. c_rp e = 0)"

lemma find_index_hd: "P e \<Longrightarrow> find_index P (e # es) = Some 0"
  by (simp add: find_index_Some)

lemma setstat_free:
  assumes "all_free (con_table s)" and "replies s = []" and "outcomes (d_mem s) = []"
  shows "\<exists>s' es. rp_setstat fresh s rp status = Some (0, s') \<and> con_table s' = once rp (status OR STAT_OPEN) # es \<and> all_free es \<and>
    replies s' = [] \<and> outcomes (d_mem s') = [] \<and> fd_table s' = fd_table s"
proof (cases "con_table s")
  case Nil
  have "[0..<16] = 0 # [Suc 0..<16]" by (rule upt_conv_Cons) simp
  then obtain e es where m: "map (\<lambda>i. (fresh i)\<lparr>c_rp := 0\<rparr>) [0..<16] = e # es" and f: "all_free es"
    by (simp add: all_free_def del: upt_rec_numeral)
  obtain st where g: "grow s ([] :: contab list) = Some (s\<lparr>d_mem := st\<rparr>)" "outcomes st = []" using grow_ok [OF assms(3)] by blast
  have "find_index P [] = None" for P :: "contab \<Rightarrow> bool" by (simp add: find_index_def)
  then show ?thesis using g assms Nil m f
    by (simp add: rp_setstat_def contab_add_def or_open_ne reopen_def rp_connect_def Let_def [of "once rp (status OR STAT_OPEN)"] del: upt_rec_numeral)
next
  case (Cons e es)
  then have "c_rp e = 0" "all_free es" using assms(1) by (auto simp: all_free_def)
  then show ?thesis using assms Cons
    by (simp add: rp_setstat_def contab_add_def or_open_ne reopen_def rp_connect_def find_index_hd count_status_zero Let_def [of "once rp (status OR STAT_OPEN)"] del: upt_rec_numeral)
qed

lemma clrstat_once:
  assumes "con_table s = once rp (w OR STAT_OPEN) # es" and "all_free es" and "replies s = []"
  shows "\<exists>s'. rp_clrstat s rp w = Some (0, s') \<and> all_free (con_table s') \<and> replies s' = [] \<and> d_mem s' = d_mem s \<and> fd_table s' = fd_table s"
  unfolding rp_clrstat_def using assms
  by (subst contab_del.simps) (simp add: or_open_ne rp_connect_def find_index_hd all_free_def Let_def del: upt_rec_numeral)

definition closed_inv :: "nat \<Rightarrow> desc \<Rightarrow> bool" where
  "closed_inv n s \<longleftrightarrow> length (fd_table s) = (if n = 0 then 0 else n + 4) \<and> (\<forall>i < length (fd_table s). 4 \<le> i \<longrightarrow> d_rp (fd_table s ! i) \<noteq> 0) \<and>
     all_free (con_table s) \<and> replies s = [] \<and> outcomes (d_mem s) = []"

lemma fd_alloc_closed: "closed_inv n s \<Longrightarrow> fd_alloc s = int n + 4"
proof -
  assume a: "closed_inv n s"
  then have "find (\<lambda>i. d_rp (fd_table s ! i) = 0) [4..<length (fd_table s)] = None" by (auto simp: find_None_iff closed_inv_def)
  then show ?thesis using a by (simp add: fd_alloc_def closed_inv_def)
qed

lemma ropen_closed:
  assumes "closed_inv n s" and "rp \<noteq> 0" 
  shows "\<exists>s' es. con_table s' = once rp (mode OR STAT_OPEN) # es \<and> all_free es \<and> replies s' = [] \<and> outcomes (d_mem s') = [] \<and> fd_table s' = fd_table s \<and>
    ropen freshd freshc s (- 1) rp mode =
      do { (r, s) \<leftarrow> fd_set freshd s' (int n + 4) rp (mode OR STAT_OPEN); Some (if r \<noteq> 0 then - 1 else int n + 4, s) }"
proof -
  have "fd_rp s (int n + 4) = 0" "fd_mode s (int n + 4) = 0" using assms(1) by (auto simp: fd_rp_def fd_mode_def closed_inv_def)
  moreover obtain s' es where "rp_setstat freshc s rp (mode OR STAT_OPEN) = Some (0, s')" "con_table s' = once rp (mode OR STAT_OPEN) # es" "all_free es"
    "replies s' = []" "outcomes (d_mem s') = []" "fd_table s' = fd_table s"
    using setstat_free [of s freshc rp "mode OR STAT_OPEN"] assms(1) by (auto simp: closed_inv_def or.assoc)
  ultimately show ?thesis using assms(2) fd_alloc_closed [OF assms(1)] by (intro exI [of _ s'] exI [of _ es]) (simp add: ropen_def Let_def)
qed

lemma fd_set_new:
  assumes "outcomes (d_mem s) = []" and "length (fd_table s) \<le> n" and "n < 4096"
  shows "\<exists>s'. fd_set fresh s (int n) rp mode = Some (0, s') \<and> con_table s' = con_table s \<and> replies s' = replies s \<and> outcomes (d_mem s') = [] \<and>
    length (fd_table s') = Suc n \<and> d_rp (fd_table s' ! n) = rp \<and> d_mode (fd_table s' ! n) = mode \<and>
    (\<forall>i < length (fd_table s). fd_table s' ! i = fd_table s ! i)"
proof -
  obtain st where "grow s (fd_table s) = Some (s\<lparr>d_mem := st\<rparr>)" "outcomes st = []" using grow_ok [OF assms(1)] by blast
  then show ?thesis using assms(2,3) by (simp add: fd_set_def Let_def nth_append)
qed

lemma open_close_step:
  assumes "closed_inv n s" and "rp \<noteq> 0" and "n + 4 < 4096"
  shows "\<exists>s1 s2. ropen freshd freshc s (- 1) rp mode = Some (int n + 4, s1) \<and> close freshd s1 (int n + 4) = Some (0, s2) \<and> closed_inv (Suc n) s2"
proof -
  let ?w = "mode OR STAT_OPEN"
  obtain s0 es where 0: "con_table s0 = once rp ?w # es" "all_free es" "replies s0 = []" "outcomes (d_mem s0) = []" "fd_table s0 = fd_table s"
    "ropen freshd freshc s (- 1) rp mode = do { (r, s) \<leftarrow> fd_set freshd s0 (int n + 4) rp ?w; Some (if r \<noteq> 0 then - 1 else int n + 4, s) }"
    using ropen_closed [OF assms(1,2)] by blast
  have len: "length (fd_table s0) \<le> n + 4" "\<forall>i < length (fd_table s0). 4 \<le> i \<longrightarrow> d_rp (fd_table s0 ! i) \<noteq> 0"
    "n \<noteq> 0 \<Longrightarrow> length (fd_table s0) = n + 4" using assms(1) 0(5) by (auto simp: closed_inv_def)
  obtain s1 where 1: "fd_set freshd s0 (int (n + 4)) rp ?w = Some (0, s1)" "con_table s1 = con_table s0" "replies s1 = replies s0" "outcomes (d_mem s1) = []"
    "length (fd_table s1) = Suc (n + 4)" "d_rp (fd_table s1 ! (n + 4)) = rp" "d_mode (fd_table s1 ! (n + 4)) = ?w"
    "\<forall>i < length (fd_table s0). fd_table s1 ! i = fd_table s0 ! i"
    using fd_set_new [OF 0(4) len(1) assms(3), of freshd rp ?w] by blast
  have "con_table s1 = once rp (?w OR STAT_OPEN) # es" using 0(1) 1(2) by (simp add: or.assoc)
  then obtain s2 where 2: "rp_clrstat s1 rp ?w = Some (0, s2)" "all_free (con_table s2)" "replies s2 = []" "d_mem s2 = d_mem s1" "fd_table s2 = fd_table s1"
    using clrstat_once [where s = s1 and rp = rp and w = ?w and es = es] 0(2,3) 1(3) by auto
  let ?s3 = "s2\<lparr>fd_table := (fd_table s2)[n + 4 := (fd_table s2 ! (n + 4))\<lparr>d_rp := rp, d_mode := 0\<rparr>]\<rparr>"
  have "fd_rp s1 (int n + 4) = rp" "fd_mode s1 (int n + 4) = ?w" using 1(5-7) by (auto simp: fd_rp_def fd_mode_def nat_add_distrib)
  moreover have "fd_set freshd s2 (int n + 4) rp 0 = Some (0, ?s3)" using 1(5) 2(5) assms(3) by (simp add: fd_set_def nat_add_distrib Let_def)
  ultimately have "close freshd s1 (int n + 4) = Some (0, ?s3)" using 2(1) assms(2) by (simp add: close_def)
  moreover have "d_rp (fd_table s1 ! i) \<noteq> 0" if "4 \<le> i" "i < n + 4" for i
    using that 1(8) len by (cases "n = 0") auto
  then have "closed_inv (Suc n) ?s3" using 1(4,5,6) 2 assms(2) by (auto simp: closed_inv_def nth_list_update less_Suc_eq)
  ultimately show ?thesis using 0(6) 1(1) by (auto simp: algebra_simps)
qed

lemma open_close_ok:
  assumes "closed_inv 0 s" and "rp \<noteq> 0"
  shows "n + 4 \<le> 4096 \<Longrightarrow> \<exists>s'. open_close freshd freshc rp mode n s = Some (map int [4..<n + 4], s') \<and> closed_inv n s'"
proof (induction n)
  case 0
  then show ?case using assms(1) by simp
next
  case (Suc n)
  then obtain s' where "open_close freshd freshc rp mode n s = Some (map int [4..<n + 4], s')" "closed_inv n s'" by auto
  moreover have "map int [4..<Suc n + 4] = map int [4..<n + 4] @ [int n + 4]" using upt_Suc_append [of 4 "n + 4"] by simp
  ultimately show ?case using open_close_step [of n s' rp freshd freshc mode] assms(2) Suc.prems by auto
qed

text \<open>
  Closing does not give a descriptor back: a process that opens and closes a resource over and over gets the descriptors
  4, 5, 6 and so on, each a new one, and the next call to open after the 4092nd round fails, while
  its connection to the resource stays open.\<close>

theorem open_close_exhausts:
  assumes "fd_table s = []" and "con_table s = []" and "replies s = []" and "outcomes (d_mem s) = []" and "rp \<noteq> 0"
  shows "\<exists>s1 s2. open_close freshd freshc rp mode 4092 s = Some (map int [4..<4096], s1) \<and>
    ropen freshd freshc s1 (- 1) rp mode = Some (- 1, s2) \<and> rp_getstat s2 rp = mode OR STAT_OPEN"
proof -
  have "closed_inv 0 s" using assms by (simp add: closed_inv_def all_free_def)
  from open_close_ok [OF this assms(5), of 4092 freshd freshc mode]
  obtain s1 where 1: "open_close freshd freshc rp mode 4092 s = Some (map int [4..<4096], s1)" "closed_inv 4092 s1"
    by (auto simp del: upt_rec_numeral open_close.simps)
  obtain s2 es where 2: "con_table s2 = once rp (mode OR STAT_OPEN) # es"
    "ropen freshd freshc s1 (- 1) rp mode = do { (r, s) \<leftarrow> fd_set freshd s2 (int 4092 + 4) rp (mode OR STAT_OPEN); Some (if r \<noteq> 0 then - 1 else int 4092 + 4, s) }"
    using ropen_closed [OF 1(2) assms(5)] by blast
  then have "ropen freshd freshc s1 (- 1) rp mode = Some (- 1, s2)" by (simp add: fd_set_def)
  moreover have "rp_getstat s2 rp = mode OR STAT_OPEN" using 2(1) by (simp add: rp_getstat_def contab_get_def find_index_hd status_of_once del: upt_rec_numeral)
  ultimately show ?thesis using 1(1) by blast
qed

theorem open_close_exhausts_witness:
  "\<exists>s1 s2. open_close (\<lambda>_. undefined) (\<lambda>_. undefined) 5 2 4092 desc0 = Some (map int [4..<4096], s1) \<and>
    ropen (\<lambda>_. undefined) (\<lambda>_. undefined) s1 (- 1) 5 2 = Some (- 1, s2) \<and> rp_getstat s2 5 = 2 OR STAT_OPEN"
  by (rule open_close_exhausts) (simp_all add: desc0_def)

end
