(* ===== verification/Messages.thy ===== *)
theory Messages
  imports Resource_Pointer
begin

text \<open>
  Messages of a process, \<open>libc/ipc\<close>: the queues of messages that no handler took, the reception of an event, and the
  functions that send. The nodes of the queues and the messages are partial functions from their addresses. The
  address that \<open>malloc\<close> returns for a node is a function of the nodes that are in use, and what a reception and a transmission
  meet outside the process is in records of their own. A lock that is taken and never freed makes the next \<open>mutex_spin\<close> spin
  for ever, which is \<^const>\<open>None\<close>, as is an access through a null pointer.
\<close>

section \<open>State\<close>

record message =
  m_source :: u64
  m_target :: u64
  m_length :: u32
  m_port :: u8
  m_arch :: u8
  m_data :: "u8 list"

record mqueue_msg =
  q_next :: ptr
  q_prev :: ptr
  q_msg :: ptr

record mqueue =
  q_back :: ptr
  q_front :: ptr
  q_mutex :: bool

record ipc =
  mqueues :: "u8 \<Rightarrow> mqueue"
  mqueue_policy :: "u8 \<Rightarrow> bool"
  qnodes :: "ptr \<Rightarrow> mqueue_msg option"
  msgs :: "ptr \<Rightarrow> message option"
  event_handler :: "u8 \<Rightarrow> ptr"
  handled :: "(ptr \<times> ptr) list"
  sends :: "(message \<times> u32 \<times> u32) list"

abbreviation (input) PORT_REPLY :: u8 where "PORT_REPLY \<equiv> 16"
abbreviation (input) ARCH_NAT :: u8 where "ARCH_NAT \<equiv> 0"
abbreviation (input) MSGSZ :: u32 where "MSGSZ \<equiv> 24"

definition set_queue :: "ipc \<Rightarrow> u8 \<Rightarrow> mqueue \<Rightarrow> ipc" where
  "set_queue s port q = s\<lparr>mqueues := (mqueues s)(port := q)\<rparr>"

section \<open>Queues\<close>

definition mqueue_set_policy :: "ipc \<Rightarrow> u8 \<Rightarrow> bool \<Rightarrow> ipc" where
  "mqueue_set_policy s port do_queue = s\<lparr>mqueue_policy := (mqueue_policy s)(port := (if do_queue then False else True))\<rparr>"

type_synonym node_malloc = "(ptr \<Rightarrow> mqueue_msg option) \<Rightarrow> ptr"

definition mqueue_push :: "node_malloc \<Rightarrow> ipc \<Rightarrow> ptr \<Rightarrow> (int \<times> ipc) option" where
  "mqueue_push alloc s msg = (if msg = 0 then Some (1, s) else do {
     m \<leftarrow> msgs s msg;
     let port = m_port m;
     let q = mqueues s port;
     if mqueue_policy s port then Some (0, s)
     else if q_mutex q then None
     else do {
       let node = alloc (qnodes s);
       if node = 0 then Some (1, set_queue s port (q\<lparr>q_mutex := True\<rparr>))
       else do {
         let ns = (qnodes s)(node \<mapsto> \<lparr>q_next = 0, q_prev = q_back q, q_msg = msg\<rparr>);
         ns \<leftarrow> (if q_back q \<noteq> 0 then do { b \<leftarrow> ns (q_back q); Some (ns(q_back q \<mapsto> b\<lparr>q_next := node\<rparr>)) } else Some ns);
         Some (0, (set_queue s port \<lparr>q_back = node, q_front = (if q_front q = 0 then node else q_front q), q_mutex = False\<rparr>)\<lparr>qnodes := ns\<rparr>)
       }
     }
   })"

partial_function (option) find_source :: "ipc \<Rightarrow> ptr \<Rightarrow> u64 \<Rightarrow> ptr option" where
  "find_source s node source = (if node = 0 then Some 0 else do {
     n \<leftarrow> qnodes s node;
     m \<leftarrow> msgs s (q_msg n);
     if m_source m = source then Some node else find_source s (q_next n) source
   })"

definition mqueue_pull :: "ipc \<Rightarrow> u8 \<Rightarrow> u64 \<Rightarrow> (ptr \<times> ipc) option" where
  "mqueue_pull s port source = do {
     let q = mqueues s port;
     if q_mutex q then None
     else do {
       node \<leftarrow> (if source \<noteq> 0 then find_source s (q_front q) source else Some (q_front q));
       if node = 0 then Some (0, s)
       else do {
         n \<leftarrow> qnodes s node;
         let ns = qnodes s;
         (ns, q) \<leftarrow> (if q_prev n \<noteq> 0 then do { p \<leftarrow> ns (q_prev n); Some (ns(q_prev n \<mapsto> p\<lparr>q_next := q_next n\<rparr>), q) }
           else Some (ns, q\<lparr>q_front := q_next n\<rparr>));
         (ns, q) \<leftarrow> (if q_next n \<noteq> 0 then do { x \<leftarrow> ns (q_next n); Some (ns(q_next n \<mapsto> x\<lparr>q_prev := q_prev n\<rparr>), q) }
           else Some (ns, q\<lparr>q_back := q_prev n\<rparr>));
         Some (q_msg n, (set_queue s port q)\<lparr>qnodes := ns(node := None)\<rparr>)
       }
     }
   }"

text \<open>Every list of messages in the last argument is what arrives while the process sleeps once; without an end of the sleep, the function does not return.\<close>

fun mwait :: "node_malloc \<Rightarrow> ipc \<Rightarrow> u8 \<Rightarrow> u64 \<Rightarrow> ptr list list \<Rightarrow> (ptr \<times> ipc) option" where
  "mwait alloc s port source arrivals = do {
     (msg, s) \<leftarrow> mqueue_pull s port source;
     if msg \<noteq> 0 then Some (msg, s)
     else (case arrivals of
       [] \<Rightarrow> None
     | w # ws \<Rightarrow> do {
         s \<leftarrow> for_list (\<lambda>m s. do { (_, s) \<leftarrow> mqueue_push alloc s m; Some s }) w s;
         mwait alloc s port source ws
       })
   }"

section \<open>Events\<close>

text \<open>The process number, the blocks that \<open>aalloc\<close> returns by size, the message in the packet register, if it can be mapped, and the frames of addresses.\<close>

record ev_env =
  e_pid :: u32
  e_aalloc :: "u32 \<Rightarrow> ptr"
  e_pack :: "message option"
  e_phys :: "ptr \<Rightarrow> u32"

definition synthesize :: "ev_env \<Rightarrow> ipc \<Rightarrow> u32 \<Rightarrow> u32 \<Rightarrow> u32 \<Rightarrow> u32 \<Rightarrow> ptr \<times> ipc" where
  "synthesize env s port source source_idx target_idx = (
     let p = e_aalloc env MSGSZ in
     if p = 0 then (0, s)
     else (p, s\<lparr>msgs := (msgs s)(p \<mapsto> \<lparr>m_source = RP_CONS source source_idx, m_target = RP_CONS (e_pid env) target_idx, m_length = 0,
       m_port = ucast port, m_arch = ARCH_NAT, m_data = []\<rparr>)\<rparr>))"

definition on_event :: "ev_env \<Rightarrow> node_malloc \<Rightarrow> ipc \<Rightarrow> u32 \<Rightarrow> u32 \<Rightarrow> u32 \<Rightarrow> u32 \<Rightarrow> u32 \<Rightarrow> ipc option" where
  "on_event env alloc s count port source source_idx target_idx = (
     let (p, s) = (if count \<noteq> 0 then (
         let p = e_aalloc env (count * PAGESZ) in
         if p = 0 then (0, s)
         else case e_pack env of
           None \<Rightarrow> synthesize env s port source source_idx target_idx
         | Some m \<Rightarrow>
             if e_phys env p = 0 then synthesize env s port source source_idx target_idx
             else if RP_PID (m_source m) \<noteq> source \<or> m_length m + MSGSZ > PAGESZ * count then (0, s)
             else (p, s\<lparr>msgs := (msgs s)(p \<mapsto> m)\<rparr>))
       else synthesize env s port source source_idx target_idx) in
     if p = 0 \<or> e_phys env p = 0 then Some s
     else if port \<ge> 256 then None
     else if event_handler s (ucast port) \<noteq> 0 then Some (s\<lparr>handled := handled s @ [(event_handler s (ucast port), p)]\<rparr>)
     else do { (_, s) \<leftarrow> mqueue_push alloc s p; Some s })"

definition when_port :: "ipc \<Rightarrow> u8 \<Rightarrow> ptr \<Rightarrow> ipc" where
  "when_port s port handler = s\<lparr>event_handler := (event_handler s)(port := handler)\<rparr>"

section \<open>Sending\<close>

text \<open>The process number, the blocks that \<open>aalloc\<close> returns by size, and the result of the system call for a message of so many pages.\<close>

record tx_env =
  x_pid :: u32
  x_aalloc :: "u32 \<Rightarrow> ptr"
  x_send :: "message \<Rightarrow> u32 \<Rightarrow> u8 \<Rightarrow> u32 \<Rightarrow> int"

definition msend :: "tx_env \<Rightarrow> ipc \<Rightarrow> ptr \<Rightarrow> (int \<times> ipc) option" where
  "msend env s p = (if p = 0 \<or> p mod PAGESZ \<noteq> 0 then Some (1, s) else do {
     m \<leftarrow> msgs s p;
     if RP_PID (m_source m) \<noteq> x_pid env then Some (1, s)
     else do {
       let count = m_length m + MSGSZ;
       let count = (if count mod PAGESZ \<noteq> 0 then count div PAGESZ + 1 else count div PAGESZ);
       let err = x_send env m count (m_port m) (RP_PID (m_target m));
       Some (err, s\<lparr>msgs := (msgs s)(p := None), sends := sends s @ [(m, count, RP_PID (m_target m))]\<rparr>)
     }
   })"

definition mreply :: "tx_env \<Rightarrow> ipc \<Rightarrow> ptr \<Rightarrow> (int \<times> ipc) option" where
  "mreply env s p = (if p = 0 then Some (1, s) else do {
     m \<leftarrow> msgs s p;
     msend env (s\<lparr>msgs := (msgs s)(p \<mapsto> m\<lparr>m_target := m_source m, m_source := m_target m, m_port := PORT_REPLY\<rparr>)\<rparr>) p
   })"

definition merror :: "tx_env \<Rightarrow> ipc \<Rightarrow> ptr \<Rightarrow> (int \<times> ipc) option" where
  "merror env s p = do {
     m \<leftarrow> msgs s p;
     mreply env (s\<lparr>msgs := (msgs s)(p \<mapsto> m\<lparr>m_length := 0\<rparr>)\<rparr>) p
   }"

definition msendv :: "tx_env \<Rightarrow> ipc \<Rightarrow> u64 \<Rightarrow> u8 \<Rightarrow> u8 list \<Rightarrow> u32 \<Rightarrow> (int \<times> ipc) option" where
  "msendv env s target port data len = (
     let p = x_aalloc env (MSGSZ + len) in
     if p = 0 then Some (1, s)
     else msend env (s\<lparr>msgs := (msgs s)(p \<mapsto> \<lparr>m_source = RP_CONS (x_pid env) 0, m_target = target, m_length = len, m_port = port,
       m_arch = ARCH_NAT, m_data = data\<rparr>)\<rparr>) p)"

definition msendb :: "tx_env \<Rightarrow> ipc \<Rightarrow> u64 \<Rightarrow> u8 \<Rightarrow> (int \<times> ipc) option" where
  "msendb env s target port = (
     let p = x_aalloc env MSGSZ in
     if p = 0 then Some (1, s)
     else msend env (s\<lparr>msgs := (msgs s)(p \<mapsto> \<lparr>m_source = RP_CONS (x_pid env) 0, m_target = target, m_length = 0, m_port = port,
       m_arch = ARCH_NAT, m_data = []\<rparr>)\<rparr>) p)"

end
