(* ===== verification/Messages_Rep.thy ===== *)
theory Messages_Rep
  imports Messages
begin

text \<open>
  The proofs about \<open>Messages\<close>: the queues as lists of messages, waiting for a message, the lock that a failed push leaves and the
  length of a received message.
\<close>

section \<open>Doubly linked lists with an end\<close>

lemma dchain_snoc:
  assumes "dchain np pr p qs" and "x \<notin> set qs" and "x \<noteq> 0" and "np' x = Some (0, if qs = [] then pr else last qs)"
    and "\<And>z. z \<in> set qs \<Longrightarrow> np' z = map_option (\<lambda>(a, b). (if z = last qs then x else a, b)) (np z)"
  shows "dchain np' pr (if qs = [] then x else p) (qs @ [x])"
  using assms
proof (induction qs arbitrary: pr p)
  case (Cons y qs)
  then obtain n where n: "y = p" "p \<noteq> 0" "np p = Some (n, pr)" "dchain np p n qs" by auto
  have "p \<notin> set qs" using dchain_distinct [OF Cons.prems(1)] n(1) by simp
  then have "np' p = Some (if qs = [] then x else n, pr)" using Cons.prems(5) [of p] n by (cases "qs = []") auto
  moreover have "dchain np' p (if qs = [] then x else n) (qs @ [x])"
    by (rule Cons.IH [OF n(4)]) (use Cons.prems n(1) in auto)
  ultimately show ?case using n by simp
qed simp

section \<open>The queues as lists of messages\<close>

abbreviation (input) links :: "ipc \<Rightarrow> ptr \<Rightarrow> (ptr \<times> ptr) option" where
  "links s \<equiv> \<lambda>q. map_option (\<lambda>n. (q_next n, q_prev n)) (qnodes s q)"

definition queue_nodes :: "ipc \<Rightarrow> (u8 \<Rightarrow> ptr list) \<Rightarrow> bool" where
  "queue_nodes s N \<longleftrightarrow> (\<forall>port. \<not> q_mutex (mqueues s port) \<and> dchain (links s) 0 (q_front (mqueues s port)) (N port) \<and>
     q_back (mqueues s port) = (if N port = [] then 0 else last (N port))) \<and>
     (\<forall>port port'. port \<noteq> port' \<longrightarrow> set (N port) \<inter> set (N port') = {}) \<and> dom (qnodes s) = (\<Union>port. set (N port))"

definition queue_rep :: "ipc \<Rightarrow> (u8 \<Rightarrow> ptr list) \<Rightarrow> bool" where
  "queue_rep s L \<longleftrightarrow> (\<exists>N. queue_nodes s N \<and> (\<forall>port. L port = map (\<lambda>q. q_msg (the (qnodes s q))) (N port)) \<and>
     (\<forall>port. \<forall>p \<in> set (L port). p \<noteq> 0 \<and> msgs s p \<noteq> None))"

text \<open>A message matches when it has the source, or when any source does.\<close>

definition from_source :: "ipc \<Rightarrow> u64 \<Rightarrow> ptr \<Rightarrow> bool" where
  "from_source s source p \<longleftrightarrow> source = 0 \<or> map_option m_source (msgs s p) = Some source"

text \<open>A change of one queue: its own list is a list again, and the nodes of the others keep their links.\<close>

lemma queue_nodes_upd:
  assumes "queue_nodes s N" and "mqueues s' = (mqueues s)(port := q)" and "\<not> q_mutex q" and "dchain (links s') 0 (q_front q) qs"
    and "q_back q = (if qs = [] then 0 else last qs)" and same: "\<And>z. z \<notin> set (N port) \<Longrightarrow> z \<notin> set qs \<Longrightarrow> links s' z = links s z"
    and dom: "dom (qnodes s') = dom (qnodes s) - set (N port) \<union> set qs" and "set qs \<inter> (dom (qnodes s) - set (N port)) = {}"
  shows "queue_nodes s' (N(port := qs))"
proof -
  have D: "set (N p) \<inter> set (N p') = {}" if "p \<noteq> p'" for p p' using assms(1) that by (simp add: queue_nodes_def)
  have U: "dom (qnodes s) = (\<Union>p. set (N p))" using assms(1) by (simp add: queue_nodes_def)
  have X: "set (N p) \<inter> set qs = {}" if "p \<noteq> port" for p using D [OF that] assms(8) U by blast
  show ?thesis
    unfolding queue_nodes_def
  proof (intro conjI allI)
    fix p
    show "\<not> q_mutex (mqueues s' p)" "q_back (mqueues s' p) = (if (N(port := qs)) p = [] then 0 else last ((N(port := qs)) p))"
      using assms(1,2,3,5) by (simp_all add: queue_nodes_def)
    have "dchain (links s') 0 (q_front (mqueues s p)) (N p)" if "p \<noteq> port"
    proof (rule dchain_cong [THEN iffD1])
      show "dchain (links s) 0 (q_front (mqueues s p)) (N p)" using assms(1) by (simp add: queue_nodes_def)
      show "links s z = links s' z" if "z \<in> set (N p)" for z
        using that same [of z] D [OF \<open>p \<noteq> port\<close>] X [OF \<open>p \<noteq> port\<close>] by (metis disjoint_iff)
    qed
    then show "dchain (links s') 0 (q_front (mqueues s' p)) ((N(port := qs)) p)"
      using assms(2,4) by (cases "p = port") simp_all
    show "p \<noteq> p' \<longrightarrow> set ((N(port := qs)) p) \<inter> set ((N(port := qs)) p') = {}" for p'
      using D [of p p'] X [of p] X [of p'] by auto
    have "(\<Union>p. set (N p)) - set (N port) = (\<Union>p \<in> - {port}. set (N p))" using D by blast
    then show "dom (qnodes s') = (\<Union>p. set ((N(port := qs)) p))" unfolding dom U by (auto split: if_splits)
  qed
qed

lemma push_nodes:
  assumes "queue_nodes s N" and "msgs s p = Some m" and "p \<noteq> 0" and "\<not> mqueue_policy s (m_port m)"
    and "alloc (qnodes s) = x" and "x \<noteq> 0" and "qnodes s x = None"
  shows "\<exists>s'. mqueue_push alloc s p = Some (0, s') \<and> queue_nodes s' (N(m_port m := N (m_port m) @ [x])) \<and>
    (\<forall>q. q_msg (the (qnodes s' q)) = (if q = x then p else q_msg (the (qnodes s q)))) \<and> dom (qnodes s') = insert x (dom (qnodes s)) \<and>
    msgs s' = msgs s \<and> mqueue_policy s' = mqueue_policy s"
proof -
  let ?port = "m_port m"
  let ?q = "mqueues s ?port" and ?qs = "N ?port"
  let ?ns = "(qnodes s)(x \<mapsto> \<lparr>q_next = 0, q_prev = q_back ?q, q_msg = p\<rparr>)"
  let ?ns' = "if ?qs = [] then ?ns else ?ns(last ?qs \<mapsto> (the (qnodes s (last ?qs)))\<lparr>q_next := x\<rparr>)"
  let ?s = "(set_queue s ?port \<lparr>q_back = x, q_front = (if ?qs = [] then x else q_front ?q), q_mutex = False\<rparr>)\<lparr>qnodes := ?ns'\<rparr>"
  have N: "\<not> q_mutex ?q" "dchain (links s) 0 (q_front ?q) ?qs" "q_back ?q = (if ?qs = [] then 0 else last ?qs)"
    and D: "\<forall>port port'. port \<noteq> port' \<longrightarrow> set (N port) \<inter> set (N port') = {}" and dom: "dom (qnodes s) = (\<Union>port. set (N port))"
    using assms(1) by (auto simp: queue_nodes_def)
  have x: "x \<notin> set (N port)" for port using dom assms(7) by auto
  have front: "q_front ?q = 0 \<longleftrightarrow> ?qs = []" using dchain_hd [OF N(2)] dchain_nonzero [OF N(2)] by (cases ?qs) auto
  have l: "last ?qs \<noteq> 0 \<and> last ?qs \<noteq> x \<and> (\<exists>n. qnodes s (last ?qs) = Some n)" if "?qs \<noteq> []"
  proof -
    have "last ?qs \<in> set ?qs" using that by simp
    moreover from this have "last ?qs \<in> dom (qnodes s)" unfolding dom by blast
    ultimately show ?thesis using x [of ?port] dchain_nonzero [OF N(2)] by (metis domD)
  qed
  have l': "?qs \<noteq> [] \<longrightarrow> last ?qs \<noteq> x" "?qs \<noteq> [] \<longrightarrow> last ?qs \<in> set ?qs" using l by auto
  have push: "mqueue_push alloc s p = Some (0, ?s)"
  proof (cases "?qs = []")
    case True
    then show ?thesis using assms(2-6) N(1,3) front by (simp add: mqueue_push_def Let_def)
  next
    case False
    then obtain n where "qnodes s (last ?qs) = Some n" "last ?qs \<noteq> 0" "last ?qs \<noteq> x" "q_front ?q \<noteq> 0" using l front by blast
    then show ?thesis using assms(2-6) N(1,3) False by (simp add: mqueue_push_def Let_def)
  qed
  have P1: "qnodes ?s x = Some \<lparr>q_next = 0, q_prev = q_back ?q, q_msg = p\<rparr>" using l'(1) by (cases "?qs = []") auto
  have P2: "qnodes ?s z = map_option (\<lambda>n. if ?qs \<noteq> [] \<and> z = last ?qs then n\<lparr>q_next := x\<rparr> else n) (qnodes s z)" if "z \<noteq> x" for z
  proof (cases "?qs \<noteq> [] \<and> z = last ?qs")
    case True
    then obtain n where "qnodes s z = Some n" using l by blast
    then show ?thesis using True that by simp
  next
    case False
    then show ?thesis using that by (auto simp: option.map_ident)
  qed
  obtain s' where s': "s' = ?s" by simp
  have F: "mqueues s' = (mqueues s)(?port := \<lparr>q_back = x, q_front = (if ?qs = [] then x else q_front ?q), q_mutex = False\<rparr>)"
    "msgs s' = msgs s" "mqueue_policy s' = mqueue_policy s" by (simp_all add: s' set_queue_def)
  note P1 = P1 [folded s'] and P2 = P2 [folded s']
  have L: "links s' z = map_option (\<lambda>(a, b). (if ?qs \<noteq> [] \<and> z = last ?qs then x else a, b)) (links s z)" if "z \<noteq> x" for z
    using P2 [OF that] by (cases "qnodes s z") simp_all
  have own: "dchain (links s') 0 (if ?qs = [] then x else q_front ?q) (?qs @ [x])"
  proof (rule dchain_snoc [OF N(2) x [of ?port] assms(6)])
    show "links s' x = Some (0, if ?qs = [] then 0 else last ?qs)" using P1 N(3) by simp
    show "links s' z = map_option (\<lambda>(a, b). (if z = last ?qs then x else a, b)) (links s z)" if "z \<in> set ?qs" for z
    proof -
      have "z \<noteq> x" "?qs \<noteq> []" using that x [of ?port] by auto
      then show ?thesis using L [of z] by simp
    qed
  qed
  have "z \<in> dom (qnodes s') \<longleftrightarrow> z = x \<or> z \<in> dom (qnodes s)" for z using P1 P2 [of z] by (cases "z = x") (simp_all add: dom_def)
  then have dom': "dom (qnodes s') = insert x (dom (qnodes s))" by blast
  have "queue_nodes s' (N(?port := ?qs @ [x]))"
  proof (rule queue_nodes_upd [OF assms(1) F(1)])
    show "dom (qnodes s') = dom (qnodes s) - set ?qs \<union> set (?qs @ [x])" unfolding dom' dom by auto
    show "links s' z = links s z" if "z \<notin> set ?qs" "z \<notin> set (?qs @ [x])" for z
      using that L [of z] l'(2) by (cases "links s z") auto
    show "set (?qs @ [x]) \<inter> (dom (qnodes s) - set ?qs) = {}" using assms(7) by auto
  qed (use own in auto)
  moreover have "q_msg (the (qnodes s' q)) = (if q = x then p else q_msg (the (qnodes s q)))" for q
    using P1 P2 [of q] by (cases "qnodes s q") (simp_all split: if_splits)
  ultimately show ?thesis using push F(2,3) dom' by (metis s')
qed

lemma dchain_next: "dchain np pr p (us @ x # vs) \<Longrightarrow> np x = Some (n, q) \<Longrightarrow> n = (case vs of [] \<Rightarrow> 0 | v # _ \<Rightarrow> v)"
  by (induction us arbitrary: pr p) (auto dest: dchain_hd)

lemma find_source_ok:
  assumes "dchain (links s) pr p qs" and "\<forall>q \<in> set qs. msgs s (q_msg (the (qnodes s q))) \<noteq> None"
  shows "find_source s p source =
    Some (case find (\<lambda>q. map_option m_source (msgs s (q_msg (the (qnodes s q)))) = Some source) qs of None \<Rightarrow> 0 | Some q \<Rightarrow> q)"
  using assms
proof (induction qs arbitrary: pr p)
  case Nil
  then show ?case by (simp add: find_source.simps)
next
  case (Cons q qs)
  then obtain n where n: "q = p" "p \<noteq> 0" "qnodes s p = Some n" "dchain (links s) p (q_next n) qs" by auto
  obtain m where "msgs s (q_msg n) = Some m" using Cons.prems(2) n(1,3) by auto
  then show ?case using n Cons.IH [OF n(4)] Cons.prems(2) by (subst find_source.simps) simp
qed

lemma pull_eval:
  assumes "\<not> q_mutex (mqueues s port)"
    and "(if source \<noteq> 0 then find_source s (q_front (mqueues s port)) source else Some (q_front (mqueues s port))) = Some x"
    and "x \<noteq> 0" and "qnodes s x = Some n" and "qnodes s 0 = None" and "q_next n \<noteq> x" and "q_prev n \<noteq> x"
    and "q_prev n = 0 \<or> qnodes s (q_prev n) = Some a" and "q_next n = 0 \<or> qnodes s (q_next n) = Some b"
    and "q_prev n = q_next n \<longrightarrow> q_prev n = 0"
  shows "mqueue_pull s port source = Some (q_msg n, (set_queue s port \<lparr>q_back = if q_next n \<noteq> 0 then q_back (mqueues s port) else q_prev n,
      q_front = if q_prev n \<noteq> 0 then q_front (mqueues s port) else q_next n, q_mutex = False\<rparr>)\<lparr>qnodes := \<lambda>z. if z = x then None
      else map_option (\<lambda>m. m\<lparr>q_next := if z = q_prev n then q_next n else q_next m, q_prev := if z = q_next n then q_prev n else q_prev m\<rparr>) (qnodes s z)\<rparr>)"
proof -
  let ?f1 = "if q_prev n \<noteq> 0 then (qnodes s)(q_prev n \<mapsto> a\<lparr>q_next := q_next n\<rparr>) else qnodes s"
  let ?f2 = "if q_next n \<noteq> 0 then ?f1(q_next n \<mapsto> b\<lparr>q_prev := q_prev n\<rparr>) else ?f1"
  have "?f2(x := None) = (\<lambda>z. if z = x then None else map_option (\<lambda>m. m\<lparr>q_next := if z = q_prev n then q_next n else q_next m,
      q_prev := if z = q_next n then q_prev n else q_prev m\<rparr>) (qnodes s z))" (is "_ = ?ns")
  proof (rule ext)
    fix z
    consider "z = x" | "z \<noteq> x" "z = q_prev n" "z \<noteq> 0" | "z \<noteq> x" "z = q_next n" "z \<noteq> 0" | "z = 0" | "z \<noteq> x" "z \<noteq> q_prev n" "z \<noteq> q_next n" by blast
    then show "(?f2(x := None)) z = ?ns z"
    proof cases
      case 2
      then show ?thesis using assms(6-10) by (simp split: if_splits)
    next
      case 3
      then show ?thesis using assms(6-10) by (simp split: if_splits)
    next
      case 4
      then show ?thesis using assms(5) by simp
    next
      case 5
      then show ?thesis by (cases "qnodes s z") simp_all
    qed simp
  qed
  moreover have "mqueue_pull s port source = Some (q_msg n, (set_queue s port \<lparr>q_back = if q_next n \<noteq> 0 then q_back (mqueues s port) else q_prev n,
      q_front = if q_prev n \<noteq> 0 then q_front (mqueues s port) else q_next n, q_mutex = False\<rparr>)\<lparr>qnodes := ?f2(x := None)\<rparr>)"
  proof -
    obtain A B where q: "mqueues s port = \<lparr>q_back = A, q_front = B, q_mutex = False\<rparr>" using assms(1) by (cases "mqueues s port") simp
    then have "(if source \<noteq> 0 then find_source s B source else Some B) = Some x" using assms(2) by (simp only: q mqueue.select_convs)
    then show ?thesis using assms(3-) q by (cases "source = 0"; cases "q_prev n = 0"; cases "q_next n = 0") (simp_all add: mqueue_pull_def Let_def)
  qed
  ultimately show ?thesis by simp
qed

lemma pull_nodes:
  assumes "queue_nodes s N" and "N port = us @ x # vs"
    and "(if source \<noteq> 0 then find_source s (q_front (mqueues s port)) source else Some (q_front (mqueues s port))) = Some x"
  shows "\<exists>s'. mqueue_pull s port source = Some (q_msg (the (qnodes s x)), s') \<and> queue_nodes s' (N(port := us @ vs)) \<and>
    (\<forall>q. q \<noteq> x \<longrightarrow> q_msg (the (qnodes s' q)) = q_msg (the (qnodes s q))) \<and> msgs s' = msgs s \<and> mqueue_policy s' = mqueue_policy s"
proof -
  let ?q = "mqueues s port"
  have N: "\<not> q_mutex ?q" "dchain (links s) 0 (q_front ?q) (us @ x # vs)" "q_back ?q = last (us @ x # vs)"
    and D: "\<forall>port port'. port \<noteq> port' \<longrightarrow> set (N port) \<inter> set (N port') = {}" and dom: "dom (qnodes s) = (\<Union>port. set (N port))"
    using assms(1) spec [of "\<lambda>p. q_back (mqueues s p) = (if N p = [] then 0 else last (N p))" port]
      spec [of "\<lambda>p. dchain (links s) 0 (q_front (mqueues s p)) (N p)" port]
    by (auto simp: queue_nodes_def assms(2))
  have "\<exists>n. qnodes s x = Some n" using dchain_alloc [OF N(2), of x] by auto
  then obtain n where n: "qnodes s x = Some n" by blast
  have nz: "0 \<notin> set (us @ x # vs)" and dist: "distinct (us @ x # vs)" using dchain_nonzero [OF N(2)] dchain_distinct [OF N(2)] by blast+
  have nb: "(q_next n = 0 \<or> q_next n \<in> set (us @ x # vs)) \<and> (q_prev n = 0 \<or> q_prev n \<in> set (us @ x # vs)) \<and> q_next n \<noteq> x \<and> q_prev n \<noteq> x"
    using dchain_neighbours [OF N(2) nz, of x "q_next n" "q_prev n"] n by auto
  have al: "\<exists>m. qnodes s z = Some m" if "z \<in> set (us @ x # vs)" for z using dchain_alloc [OF N(2) that] by auto
  have nx: "q_next n = (case vs of [] \<Rightarrow> 0 | v # _ \<Rightarrow> v)" using dchain_next [OF N(2), of "q_next n" "q_prev n"] n by simp
  have z0: "qnodes s 0 = None"
  proof -
    have "0 \<notin> set (N p)" for p using assms(1) dchain_nonzero unfolding queue_nodes_def by blast
    then show ?thesis using dom by blast
  qed
  have "\<exists>m. q_prev n = 0 \<or> qnodes s (q_prev n) = Some m" "\<exists>m. q_next n = 0 \<or> qnodes s (q_next n) = Some m" using nb al by blast+
  then obtain a b where ab: "q_prev n = 0 \<or> qnodes s (q_prev n) = Some a" "q_next n = 0 \<or> qnodes s (q_next n) = Some b" by blast
  let ?ns = "\<lambda>z. if z = x then None else map_option (\<lambda>m. m\<lparr>q_next := if z = q_prev n then q_next n else q_next m,
    q_prev := if z = q_next n then q_prev n else q_prev m\<rparr>) (qnodes s z)"
  obtain s' where s': "s' = (set_queue s port \<lparr>q_back = if q_next n \<noteq> 0 then q_back ?q else q_prev n,
    q_front = if q_prev n \<noteq> 0 then q_front ?q else q_next n, q_mutex = False\<rparr>)\<lparr>qnodes := ?ns\<rparr>" by simp
  have F: "mqueues s' = (mqueues s)(port := \<lparr>q_back = if q_next n \<noteq> 0 then q_back ?q else q_prev n,
    q_front = if q_prev n \<noteq> 0 then q_front ?q else q_next n, q_mutex = False\<rparr>)" "msgs s' = msgs s" "mqueue_policy s' = mqueue_policy s" "qnodes s' = ?ns"
    by (simp_all add: s' set_queue_def)
  have L: "links s' z = map_option (\<lambda>(c, d). (if z = q_prev n then q_next n else c, if z = q_next n then q_prev n else d)) (links s z)" if "z \<noteq> x" for z
    using that by (cases "qnodes s z") (simp_all add: F(4))
  have own: "dchain (links s') 0 (if us = [] then q_next n else q_front ?q) (us @ vs) \<and> q_prev n = (if us = [] then 0 else last us)"
  proof (rule dchain_pull [OF N(2) nz])
    show "links s x = Some (q_next n, q_prev n)" using n by simp
    show "links s' z = map_option (\<lambda>(c, d). (if z = q_prev n then q_next n else c, if z = q_next n then q_prev n else d)) (links s z)"
      if "z \<in> set us \<union> set vs" for z by (rule L) (use that dist in auto)
  qed
  have pv: "q_prev n = 0 \<longleftrightarrow> us = []" using own nz by (metis Un_iff last_in_set set_append)
  have "q_prev n = q_next n \<longrightarrow> q_prev n = 0"
    using own nx dist by (cases vs; cases "us = []") (auto dest: last_in_set)
  then have pull: "mqueue_pull s port source = Some (q_msg n, s')"
    unfolding s' using pull_eval [OF N(1) assms(3) _ n z0 _ _ ab] nb nz by auto
  have "queue_nodes s' (N(port := us @ vs))"
  proof (rule queue_nodes_upd [OF assms(1) F(1)])
    show "q_back \<lparr>q_back = if q_next n \<noteq> 0 then q_back ?q else q_prev n, q_front = if q_prev n \<noteq> 0 then q_front ?q else q_next n, q_mutex = False\<rparr> =
        (if us @ vs = [] then 0 else last (us @ vs))"
      using nx N(3) own nz by (cases vs) auto
    show "links s' z = links s z" if "z \<notin> set (N port)" "z \<notin> set (us @ vs)" for z
      using that L [of z] nb z0 assms(2) by (cases "z = 0"; cases "links s z") auto
    show "dom (qnodes s') = dom (qnodes s) - set (N port) \<union> set (us @ vs)"
      unfolding F(4) assms(2) using al dist by (auto split: if_splits)
    show "set (us @ vs) \<inter> (dom (qnodes s) - set (N port)) = {}" using assms(2) by auto
  qed (use own pv in auto)
  moreover have "q_msg (the (qnodes s' q)) = q_msg (the (qnodes s q))" if "q \<noteq> x" for q
    using that by (cases "qnodes s q") (simp_all add: F(4))
  ultimately show ?thesis using pull F(2,3) n by auto
qed

lemma push_rep:
  assumes "queue_rep s L" and "msgs s p = Some m" and "p \<noteq> 0" and "\<not> mqueue_policy s (m_port m)"
    and "alloc (qnodes s) \<noteq> 0" and "qnodes s (alloc (qnodes s)) = None"
  shows "\<exists>s'. mqueue_push alloc s p = Some (0, s') \<and> queue_rep s' (L(m_port m := L (m_port m) @ [p])) \<and>
    card (dom (qnodes s')) \<le> Suc (card (dom (qnodes s))) \<and> msgs s' = msgs s \<and> mqueue_policy s' = mqueue_policy s"
proof -
  let ?port = "m_port m" and ?x = "alloc (qnodes s)"
  obtain N where N: "queue_nodes s N" "\<forall>port. L port = map (\<lambda>q. q_msg (the (qnodes s q))) (N port)" "\<forall>port. \<forall>p \<in> set (L port). p \<noteq> 0 \<and> msgs s p \<noteq> None"
    using assms(1) by (auto simp: queue_rep_def)
  obtain s' where s': "mqueue_push alloc s p = Some (0, s')" "queue_nodes s' (N(?port := N ?port @ [?x]))"
    "\<forall>q. q_msg (the (qnodes s' q)) = (if q = ?x then p else q_msg (the (qnodes s q)))" "dom (qnodes s') = insert ?x (dom (qnodes s))"
    "msgs s' = msgs s" "mqueue_policy s' = mqueue_policy s"
    using push_nodes [where s = s and N = N and p = p and m = m and alloc = alloc, OF N(1) assms(2-4) refl assms(5,6)] by blast
  have "dom (qnodes s) = (\<Union>port. set (N port))" using N(1) by (simp add: queue_nodes_def)
  then have x: "?x \<notin> set (N port)" for port using assms(6) by blast
  have "map (\<lambda>q. q_msg (the (qnodes s' q))) (N port) = L port" for port
    using N(2) x [of port] s'(3) by (auto intro!: map_cong)
  then have "queue_rep s' (L(?port := L ?port @ [p]))"
    unfolding queue_rep_def using s'(2,3,5) N(3) assms(2,3) by (intro exI [of _ "N(?port := N ?port @ [?x])"]) auto
  moreover have "card (dom (qnodes s')) \<le> Suc (card (dom (qnodes s)))" unfolding s'(4) by (rule card_insert_le_m1) simp_all
  ultimately show ?thesis using s'(1,5,6) by blast
qed

lemma find_map: "find P (map f xs) = map_option f (find (P \<circ> f) xs)"
  by (induction xs) auto

lemma find_split: "find P xs = Some x \<Longrightarrow> \<exists>us vs. xs = us @ x # vs \<and> P x \<and> (\<forall>u \<in> set us. \<not> P u)"
proof (induction xs)
  case (Cons y ys)
  show ?case
  proof (cases "P y")
    case True
    then have "y # ys = [] @ x # ys" "P x" using Cons.prems by simp_all
    then show ?thesis by fastforce
  next
    case False
    then obtain us vs where "ys = us @ x # vs" "P x" "\<forall>u \<in> set us. \<not> P u" using Cons by auto
    then have "y # ys = (y # us) @ x # vs" "P x" "\<forall>u \<in> set (y # us). \<not> P u" using False by simp_all
    then show ?thesis by blast
  qed
qed simp

lemma pull_pick:
  assumes "queue_nodes s N" and "L port = map (\<lambda>q. q_msg (the (qnodes s q))) (N port)" and "\<forall>p \<in> set (L port). msgs s p \<noteq> None"
  shows "(if source \<noteq> 0 then find_source s (q_front (mqueues s port)) source else Some (q_front (mqueues s port))) =
    Some (case find (\<lambda>q. from_source s source (q_msg (the (qnodes s q)))) (N port) of None \<Rightarrow> 0 | Some q \<Rightarrow> q)"
proof -
  have d: "dchain (links s) 0 (q_front (mqueues s port)) (N port)" using assms(1) by (simp add: queue_nodes_def)
  show ?thesis
  proof (cases "source = 0")
    case True
    then show ?thesis using dchain_hd [OF d] by (cases "N port") (simp_all add: from_source_def)
  next
    case False
    then show ?thesis using find_source_ok [OF d, of source] assms(2,3) by (simp add: from_source_def)
  qed
qed

lemma queue_out:
  assumes "queue_nodes s N" and "N port = us @ x # vs"
  shows "x \<notin> set ((N(port := us @ vs)) p)"
proof (cases "p = port")
  case True
  have "dchain (links s) 0 (q_front (mqueues s port)) (N port)" using assms(1) by (simp add: queue_nodes_def)
  then show ?thesis using True assms(2) dchain_distinct by fastforce
next
  case False
  then have "set (N p) \<inter> set (N port) = {}" using assms(1) by (simp add: queue_nodes_def)
  moreover have "x \<in> set (N port)" using assms(2) by simp
  ultimately have "x \<notin> set (N p)" by blast
  then show ?thesis using False by simp
qed

lemma pull_rep:
  assumes "queue_rep s L"
  shows "case find (from_source s source) (L port) of
      None \<Rightarrow> mqueue_pull s port source = Some (0, s)
    | Some p \<Rightarrow> \<exists>s'. mqueue_pull s port source = Some (p, s') \<and> queue_rep s' (L(port := remove1 p (L port))) \<and> msgs s' = msgs s"
proof -
  obtain N where N: "queue_nodes s N" "\<forall>port. L port = map (\<lambda>q. q_msg (the (qnodes s q))) (N port)" "\<forall>port. \<forall>p \<in> set (L port). p \<noteq> 0 \<and> msgs s p \<noteq> None"
    using assms by (auto simp: queue_rep_def)
  let ?m = "\<lambda>q. q_msg (the (qnodes s q))"
  let ?P = "\<lambda>q. from_source s source (?m q)"
  have L: "L port = map ?m (N port)" "\<forall>p \<in> set (L port). msgs s p \<noteq> None" using N(2,3) by auto
  note pick = pull_pick [where s = s and N = N and L = L and port = port and source = source, OF N(1) L]
  have f: "find (from_source s source) (L port) = map_option ?m (find ?P (N port))" by (simp add: L(1) find_map comp_def)
  show ?thesis
  proof (cases "find ?P (N port)")
    case None
    moreover have "\<not> q_mutex (mqueues s port)" using N(1) by (simp add: queue_nodes_def)
    ultimately show ?thesis using pick f by (cases "source = 0") (simp_all add: mqueue_pull_def)
  next
    case (Some x)
    obtain us vs where uv: "N port = us @ x # vs" "?P x" "\<forall>u \<in> set us. \<not> ?P u" using find_split [OF Some] by blast
    obtain s' where s': "mqueue_pull s port source = Some (?m x, s')" "queue_nodes s' (N(port := us @ vs))"
      "\<forall>q. q \<noteq> x \<longrightarrow> q_msg (the (qnodes s' q)) = ?m q" "msgs s' = msgs s"
      using pull_nodes [OF N(1) uv(1)] pick Some by auto
    have "\<forall>u \<in> set us. ?m u \<noteq> ?m x" using uv(2,3) by metis
    then have r: "remove1 (?m x) (L port) = map ?m (us @ vs)" by (auto simp: L(1) uv(1) remove1_append)
    note x = queue_out [OF N(1) uv(1)]
    have "(L(port := remove1 (?m x) (L port))) p = map (\<lambda>q. q_msg (the (qnodes s' q))) ((N(port := us @ vs)) p)" for p
    proof -
      have "map (\<lambda>q. q_msg (the (qnodes s' q))) ((N(port := us @ vs)) p) = map ?m ((N(port := us @ vs)) p)"
        using s'(3) x [of p] by (intro map_cong) auto
      then show ?thesis using r N(2) by simp
    qed
    moreover have "\<forall>p. \<forall>q \<in> set ((L(port := remove1 (?m x) (L port))) p). q \<noteq> 0 \<and> msgs s' q \<noteq> None"
      using N(3) s'(4) by (auto dest: notin_set_remove1)
    ultimately have "queue_rep s' (L(port := remove1 (?m x) (L port)))" unfolding queue_rep_def using s'(2) by blast
    then show ?thesis using Some f s'(1,4) by simp
  qed
qed

text \<open>
  C23. The doubly linked queues behave as lists: pushing a message appends it to the list of its port, and pulling returns and
  removes the first message of the port that comes from the source, or any source for zero, or returns a null pointer
  and changes nothing when there is none; the other ports and the order of the rest are unchanged.\<close>

theorem mqueue_refines:
  assumes "queue_rep s L" and "alloc (qnodes s) \<noteq> 0" and "qnodes s (alloc (qnodes s)) = None"
    and "p \<noteq> 0" and "msgs s p = Some m" and "\<not> mqueue_policy s (m_port m)"
  shows "\<exists>s'. mqueue_push alloc s p = Some (0, s') \<and> queue_rep s' (L(m_port m := L (m_port m) @ [p])) \<and>
    (case find (from_source s source) (L port) of
      None \<Rightarrow> mqueue_pull s port source = Some (0, s)
    | Some q \<Rightarrow> \<exists>s'. mqueue_pull s port source = Some (q, s') \<and> queue_rep s' (L(port := remove1 q (L port))) \<and> msgs s' = msgs s)"
  using push_rep [where alloc = alloc, OF assms(1,5,4,6,2,3)] pull_rep [OF assms(1)] by blast

text \<open>
  A failed allocation locks a port for good: when there is no memory for the node of a message, pushing reports an error
  and keeps the lock, so that neither a push to that port nor a pull from it ever returns.\<close>

theorem mqueue_push_locks:
  assumes "queue_rep s L" and "p \<noteq> 0" and "msgs s p = Some m" and "\<not> mqueue_policy s (m_port m)" and "alloc (qnodes s) = 0"
  shows "\<exists>s'. mqueue_push alloc s p = Some (1, s') \<and> mqueue_push alloc' s' p = None \<and> mqueue_pull s' (m_port m) source = None"
proof -
  have "\<not> q_mutex (mqueues s (m_port m))" using assms(1) by (auto simp: queue_rep_def queue_nodes_def)
  then show ?thesis using assms(2-5)
    by (intro exI [of _ "set_queue s (m_port m) ((mqueues s (m_port m))\<lparr>q_mutex := True\<rparr>)"]) (simp add: mqueue_push_def mqueue_pull_def set_queue_def Let_def)
qed

section \<open>Waiting\<close>

declare mwait.simps [simp del]

definition at_port :: "ipc \<Rightarrow> u8 \<Rightarrow> ptr \<Rightarrow> bool" where
  "at_port s port p \<longleftrightarrow> map_option m_port (msgs s p) = Some port"

definition queueable :: "ipc \<Rightarrow> ptr \<Rightarrow> bool" where
  "queueable s p \<longleftrightarrow> p \<noteq> 0 \<and> (\<exists>m. msgs s p = Some m \<and> \<not> mqueue_policy s (m_port m))"

text \<open>What \<open>malloc\<close> promises while fewer than so many nodes are in use.\<close>

definition mallocs :: "node_malloc \<Rightarrow> nat \<Rightarrow> bool" where
  "mallocs alloc n \<longleftrightarrow> (\<forall>ns. card (dom ns) < n \<longrightarrow> alloc ns \<noteq> 0 \<and> ns (alloc ns) = None)"

lemma push_all:
  assumes "mallocs alloc n"
  shows "queue_rep s L \<Longrightarrow> \<forall>p \<in> set w. queueable s p \<Longrightarrow> card (dom (qnodes s)) + length w \<le> n \<Longrightarrow>
    \<exists>s'. for_list (\<lambda>m s. do { (_, s) \<leftarrow> mqueue_push alloc s m; Some s }) w s = Some s' \<and>
      queue_rep s' (\<lambda>port. L port @ filter (at_port s port) w) \<and> card (dom (qnodes s')) \<le> card (dom (qnodes s)) + length w \<and>
      msgs s' = msgs s \<and> mqueue_policy s' = mqueue_policy s"
proof (induction w arbitrary: s L)
  case (Cons p w)
  obtain m where m: "msgs s p = Some m" "p \<noteq> 0" "\<not> mqueue_policy s (m_port m)" using Cons.prems(2) by (auto simp: queueable_def)
  have "alloc (qnodes s) \<noteq> 0" "qnodes s (alloc (qnodes s)) = None" using assms Cons.prems(3) by (simp_all add: mallocs_def)
  from push_rep [where alloc = alloc, OF Cons.prems(1) m this]
  obtain s1 where 1: "mqueue_push alloc s p = Some (0, s1)" "queue_rep s1 (L(m_port m := L (m_port m) @ [p]))"
    "card (dom (qnodes s1)) \<le> Suc (card (dom (qnodes s)))" "msgs s1 = msgs s" "mqueue_policy s1 = mqueue_policy s" by blast
  have "\<forall>p \<in> set w. queueable s1 p" "card (dom (qnodes s1)) + length w \<le> n" using Cons.prems(2,3) 1(3-5) by (auto simp: queueable_def)
  from Cons.IH [OF 1(2) this] obtain s2 where 2: "for_list (\<lambda>m s. do { (_, s) \<leftarrow> mqueue_push alloc s m; Some s }) w s1 = Some s2"
    "queue_rep s2 (\<lambda>port. (L(m_port m := L (m_port m) @ [p])) port @ filter (at_port s1 port) w)"
    "card (dom (qnodes s2)) \<le> card (dom (qnodes s1)) + length w" "msgs s2 = msgs s1" "mqueue_policy s2 = mqueue_policy s1" by blast
  have "(L(m_port m := L (m_port m) @ [p])) port @ filter (at_port s1 port) w = L port @ filter (at_port s port) (p # w)" for port
  proof -
    have "at_port s1 = at_port s" using 1(4) by (simp add: at_port_def fun_eq_iff)
    then show ?thesis using m(1) by (auto simp: at_port_def)
  qed
  then show ?case using 1 2 by simp
qed simp

lemma find_append: "find P (xs @ ys) = (case find P xs of None \<Rightarrow> find P ys | Some x \<Rightarrow> Some x)"
  by (induction xs) auto

text \<open>
  C24. Waiting for a message: however the messages arrive over the wake-ups of the process, \<open>mwait\<close> returns exactly when one of them, or one that was
  in the queue already, is for the port and from the source, and then returns the first one of those.\<close>

theorem mwait_first:
  assumes "mallocs alloc n"
  shows "queue_rep s L \<Longrightarrow> \<forall>p \<in> set (concat ws). queueable s p \<Longrightarrow> card (dom (qnodes s)) + length (concat ws) \<le> n \<Longrightarrow>
    (case find (from_source s source) (L port @ filter (at_port s port) (concat ws)) of
      None \<Rightarrow> mwait alloc s port source ws = None
    | Some p \<Rightarrow> \<exists>s'. mwait alloc s port source ws = Some (p, s'))"
proof (induction ws arbitrary: s L)
  case Nil
  have "0 \<notin> set (L port)" using Nil.prems(1) by (auto simp: queue_rep_def)
  then have "find (from_source s source) (L port) \<noteq> Some 0" by (auto simp: find_Some_iff in_set_conv_nth)
  then show ?case using pull_rep [OF Nil.prems(1), where source = source and port = port]
    by (auto simp: mwait.simps [of alloc s port source "[]"] split: option.splits)
next
  case (Cons w ws)
  have "0 \<notin> set (L port)" using Cons.prems(1) by (auto simp: queue_rep_def)
  then have z: "find (from_source s source) (L port) \<noteq> Some 0" by (auto simp: find_Some_iff in_set_conv_nth)
  show ?case
  proof (cases "find (from_source s source) (L port)")
    case None
    have "\<forall>p \<in> set w. queueable s p" "card (dom (qnodes s)) + length w \<le> n" using Cons.prems(2,3) by auto
    from push_all [OF assms Cons.prems(1) this]
    obtain s1 where 1: "for_list (\<lambda>m s. do { (_, s) \<leftarrow> mqueue_push alloc s m; Some s }) w s = Some s1"
      "queue_rep s1 (\<lambda>port. L port @ filter (at_port s port) w)" "card (dom (qnodes s1)) \<le> card (dom (qnodes s)) + length w"
      "msgs s1 = msgs s" "mqueue_policy s1 = mqueue_policy s" by blast
    have e: "from_source s1 = from_source s" "at_port s1 = at_port s" "queueable s1 = queueable s"
      using 1(4,5) by (auto simp: from_source_def at_port_def queueable_def fun_eq_iff)
    have "mwait alloc s port source (w # ws) = mwait alloc s1 port source ws"
      using pull_rep [OF Cons.prems(1), where source = source and port = port] None 1(1) by (simp add: mwait.simps [of alloc s port source "w # ws"])
    then show ?thesis using Cons.IH [OF 1(2)] Cons.prems(2,3) 1(3) by (simp add: e split: option.splits)
  next
    case (Some p)
    then show ?thesis using pull_rep [OF Cons.prems(1), where source = source and port = port] z by (auto simp: find_append mwait.simps [of alloc s port source "w # ws"])
  qed
qed

section \<open>Reception\<close>

text \<open>
  The check of the length of a received message wraps around: a message of one page that claims nearly four
  gigabytes of data is handed to the handler of its port.\<close>

theorem on_event_length:
  assumes "e_pack env = Some m" and "RP_PID (m_source m) = source" and "m_length m \<ge> 0xFFFFFFE8" and "e_aalloc env PAGESZ \<noteq> 0"
    and "e_phys env (e_aalloc env PAGESZ) \<noteq> 0" and "port < 256" and "event_handler s (ucast port) \<noteq> 0"
  shows "\<exists>s'. on_event env alloc s 1 port source i j = Some s' \<and> msgs s' (e_aalloc env PAGESZ) = Some m \<and>
    handled s' = handled s @ [(event_handler s (ucast port), e_aalloc env PAGESZ)]"
proof -
  have "unat (m_length m) \<ge> 0xFFFFFFE8" using assms(3) by (simp add: word_le_nat_alt)
  moreover have lt: "unat (m_length m) < 0x100000000" by (rule unsigned_less [THEN less_le_trans]) simp
  ultimately have "unat (m_length m + 24) = unat (m_length m) - 0xFFFFFFE8" by (simp add: unat_word_ariths le_mod_geq)
  then have "\<not> m_length m + 24 > 0x1000" using lt by (simp add: word_less_nat_alt)
  moreover have "\<not> port \<ge> 256" using assms(6) by simp
  ultimately show ?thesis using assms by (simp add: on_event_def Let_def)
qed

section \<open>Examples\<close>

definition letter :: "u64 \<Rightarrow> message" where
  "letter source = \<lparr>m_source = source, m_target = 1, m_length = 0, m_port = 16, m_arch = 0, m_data = []\<rparr>"

definition ipc0 :: ipc where
  "ipc0 = \<lparr>mqueues = (\<lambda>_. \<lparr>q_back = 0, q_front = 0, q_mutex = False\<rparr>), mqueue_policy = (\<lambda>_. False), qnodes = Map.empty,
     msgs = [0x1000 \<mapsto> letter 5, 0x2000 \<mapsto> letter 7], event_handler = (\<lambda>_. 0x400000), handled = [], sends = []\<rparr>"

definition alloc0 :: node_malloc where
  "alloc0 ns = (if ns 8 = None then 8 else 16)"

lemma ipc0_rep: "queue_rep ipc0 (\<lambda>_. [])"
  by (auto simp: queue_rep_def queue_nodes_def ipc0_def intro: exI [of _ "\<lambda>_. []"])

lemma alloc0_ok: "mallocs alloc0 2"
proof -
  have "ns 16 = None" if "card (dom ns) < 2" "ns 8 \<noteq> None" for ns :: "ptr \<Rightarrow> mqueue_msg option"
  proof (rule ccontr)
    assume "ns 16 \<noteq> None"
    then have "{8, 16} \<subseteq> dom ns" using that(2) by auto
    then have "card {8, 16 :: ptr} \<le> card (dom ns)" by (rule card_mono [rotated]) simp
    then show False using that(1) by simp
  qed
  then show ?thesis by (auto simp: mallocs_def alloc0_def)
qed

theorem mqueue_refines_witness:
  "\<exists>s'. mqueue_push alloc0 ipc0 0x1000 = Some (0, s') \<and> queue_rep s' ((\<lambda>_. [])(16 := [0x1000])) \<and> mqueue_pull ipc0 16 5 = Some (0, ipc0)"
  using mqueue_refines [OF ipc0_rep, where alloc = alloc0 and p = 4096 and m = "letter 5" and source = 5 and port = 16] by (auto simp: ipc0_def alloc0_def letter_def)

theorem mqueue_push_locks_witness:
  "\<exists>s'. mqueue_push (\<lambda>_. 0) ipc0 0x1000 = Some (1, s') \<and> mqueue_push alloc0 s' 0x1000 = None \<and> mqueue_pull s' 16 0 = None"
  using mqueue_push_locks [OF ipc0_rep, where p = 4096 and m = "letter 5" and alloc = "\<lambda>_. 0" and alloc' = alloc0 and source = 0] by (simp add: ipc0_def letter_def)

theorem mwait_first_witness:
  "\<exists>s'. mwait alloc0 ipc0 16 7 [[0x1000], [0x2000]] = Some (0x2000, s')"
proof -
  have "\<forall>p \<in> set (concat [[0x1000], [0x2000]]). queueable ipc0 p" by (simp add: queueable_def ipc0_def letter_def)
  from mwait_first [OF alloc0_ok ipc0_rep this, where source = 7 and port = 16]
  show ?thesis by (simp add: ipc0_def from_source_def at_port_def letter_def)
qed

theorem on_event_length_witness:
  "\<exists>s'. on_event \<lparr>e_pid = 1, e_aalloc = (\<lambda>_. 0x5000), e_pack = Some ((letter 5)\<lparr>m_length := 0xFFFFFFF0\<rparr>), e_phys = (\<lambda>_. 0x9000)\<rparr> alloc0 ipc0 1 16 5 0 0 = Some s' \<and>
    handled s' = [(0x400000, 0x5000)]"
  using on_event_length [of "\<lparr>e_pid = 1, e_aalloc = (\<lambda>_. 0x5000), e_pack = Some ((letter 5)\<lparr>m_length := 0xFFFFFFF0\<rparr>), e_phys = (\<lambda>_. 0x9000)\<rparr>"
      "(letter 5)\<lparr>m_length := 0xFFFFFFF0\<rparr>" 5 16 ipc0 alloc0 0 0]
  by (auto simp: letter_def ipc0_def RP_PID_def)

end
