(* ===== verification/Tmpfs.thy ===== *)
theory Tmpfs
  imports C_Alloc
begin

text \<open>
  The files of the driver for temporary files, \<open>driver/tmpfs/main.c\<close>. A file is the two fields \<open>data\<close> and \<open>size\<close> of its
  object: the block with the contents and the length, each \<^const>\<open>None\<close> while it is a null pointer. The bytes of a new block are an argument, \<open>fresh\<close>. An access outside the
  block is \<^const>\<open>None\<close>. The lock of the object is free between the operations.
\<close>

record tmpfile =
  t_data :: "u8 list option"
  t_len :: "u64 option"
  t_mem :: tmem

definition tmpfs_read :: "tmpfile \<Rightarrow> u32 \<Rightarrow> u64 \<Rightarrow> u8 list option" where
  "tmpfs_read f sz offset = (case (t_data f, t_len f) of
     (Some data, Some file_size) \<Rightarrow>
       if offset > file_size then Some []
       else (
         let sz = (if offset + ucast sz \<ge> file_size then ucast (file_size - offset) else sz) in
         if unat offset + unat sz > length data then None else Some (take (unat sz) (drop (unat offset) data)))
   | _ \<Rightarrow> Some [])"

text \<open>The block that \<open>realloc\<close> returns for a number of bytes.\<close>

definition realloc_block :: "(nat \<Rightarrow> u8) \<Rightarrow> tmem \<Rightarrow> u8 list option \<Rightarrow> u32 \<Rightarrow> (u8 list \<times> tmem) option" where
  "realloc_block fresh st old n = (
     let (ok, st) = tmalloc st in
     if \<not> ok then None
     else (let prev = (case old of None \<Rightarrow> [] | Some b \<Rightarrow> b) in
       Some (take (unat n) (prev @ map fresh [length prev..<unat n]), if old = None then st else tfree st)))"

definition tmpfs_write :: "(nat \<Rightarrow> u8) \<Rightarrow> tmpfile \<Rightarrow> u8 list \<Rightarrow> u64 \<Rightarrow> (u32 \<times> tmpfile) option" where
  "tmpfs_write fresh f buffer offset = do {
     let sz = (of_nat (length buffer) :: u32);
     let file_size = (case t_len f of None \<Rightarrow> 0 | Some n \<Rightarrow> n);
     f \<leftarrow> (if offset + ucast sz \<ge> file_size then do {
         (data, st) \<leftarrow> realloc_block fresh (t_mem f) (t_data f) (ucast (offset + ucast sz));
         let (ok, st) = (if t_len f = None then tmalloc st else (True, st));
         if \<not> ok then None else Some (f\<lparr>t_data := Some data, t_len := Some (offset + ucast sz), t_mem := st\<rparr>)
       } else Some f);
     data \<leftarrow> t_data f;
     if unat offset + length buffer > length data then None
     else Some (sz, f\<lparr>t_data := Some (take (unat offset) data @ buffer @ drop (unat offset + length buffer) data)\<rparr>)
   }"

definition tmpfs_reset :: "tmpfile \<Rightarrow> tmpfile" where
  "tmpfs_reset f = (
     let st = (if t_data f = None then t_mem f else tfree (t_mem f)) in
     let st = (if t_len f = None then st else tfree st) in
     f\<lparr>t_data := None, t_len := None, t_mem := st\<rparr>)"

section \<open>Files as lists of bytes\<close>

definition put :: "u8 list \<Rightarrow> nat \<Rightarrow> u8 list \<Rightarrow> u8 list" where
  "put c p d = take p c @ d @ drop (p + length d) c"

definition contents :: "tmpfile \<Rightarrow> u8 list" where
  "contents f = (case t_data f of None \<Rightarrow> [] | Some d \<Rightarrow> d)"

definition tmpfile_inv :: "tmpfile \<Rightarrow> bool" where
  "tmpfile_inv f \<longleftrightarrow> outcomes (t_mem f) = [] \<and> (t_data f = None \<longleftrightarrow> t_len f = None) \<and>
     (\<forall>d n. t_data f = Some d \<longrightarrow> t_len f = Some n \<longrightarrow> unat n = length d)"

lemma put_put: "p \<le> length c \<Longrightarrow> put (put c p a) (p + length a) b = put c p (a @ b)"
  by (simp add: put_def min_def ac_simps)

lemma put_length: "p \<le> length c \<Longrightarrow> length (put c p d) = max (length c) (p + length d)"
  by (simp add: put_def)

lemma put_read: "p \<le> length c \<Longrightarrow> take (length d) (drop p (put c p d)) = d"
  by (simp add: put_def)

lemma unat_add_u64: "unat (offset :: u64) + length d < 2 ^ 32 \<Longrightarrow>
  unat (offset + ucast (of_nat (length d) :: u32)) = unat offset + length d \<and> unat (of_nat (length d) :: u32) = length d"
  by (simp add: unat_word_ariths unat_of_nat unsigned_ucast_eq take_bit_nat_eq_self)

lemma tmpfs_write_ok:
  assumes "tmpfile_inv f" and "unat offset \<le> length (contents f)" and "unat offset + length d < 2 ^ 32"
  shows "\<exists>f'. tmpfs_write fresh f d offset = Some (of_nat (length d), f') \<and> tmpfile_inv f' \<and> contents f' = put (contents f) (unat offset) d"
proof -
  let ?n = "offset + ucast (of_nat (length d) :: u32)"
  let ?o = "unat offset"
  have n: "unat ?n = ?o + length d" and m: "unat (ucast ?n :: u32) = ?o + length d"
    using unat_add_u64 [OF assms(3)] assms(3) by (simp_all add: unsigned_ucast_eq take_bit_nat_eq_self)
  define fs where "fs = (case t_len f of None \<Rightarrow> 0 | Some n \<Rightarrow> n)"
  have fs: "unat fs = length (contents f)" using assms(1) by (auto simp: fs_def contents_def tmpfile_inv_def split: option.splits)
  show ?thesis
  proof (cases "?n \<ge> fs")
    case True
    then have le: "length (contents f) \<le> ?o + length d" using n fs by (simp add: word_le_nat_alt)
    let ?b = "contents f @ map fresh [length (contents f)..<?o + length d]"
    obtain st where r: "realloc_block fresh (t_mem f) (t_data f) (ucast ?n) = Some (?b, st)" "outcomes st = []"
      using assms(1) m le by (auto simp: realloc_block_def tmpfile_inv_def tmalloc_ok contents_def split: option.splits)
    have "\<exists>st'. (if t_len f = None then tmalloc st else (True, st)) = (True, st') \<and> outcomes st' = []" using r(2) by (simp add: tmalloc_ok)
    then obtain st' where st': "(if t_len f = None then tmalloc st else (True, st)) = (True, st')" "outcomes st' = []" by blast
    have b: "length ?b = ?o + length d" using le by simp
    have "take ?o ?b @ d @ drop (?o + length d) ?b = put (contents f) ?o d" using assms(2) le by (simp add: put_def)
    then have "tmpfs_write fresh f d offset =
        Some (of_nat (length d), f\<lparr>t_data := Some (put (contents f) ?o d), t_len := Some ?n, t_mem := st'\<rparr>)"
      using r st' True b by (simp add: tmpfs_write_def fs_def [symmetric] Let_def)
    moreover have "tmpfile_inv (f\<lparr>t_data := Some (put (contents f) ?o d), t_len := Some ?n, t_mem := st'\<rparr>)"
      using st'(2) n assms(2) le by (simp add: tmpfile_inv_def put_length)
    ultimately show ?thesis by (simp add: contents_def)
  next
    case False
    then have lt: "?o + length d < length (contents f)" using n fs by (simp add: word_le_nat_alt)
    then obtain b where b: "t_data f = Some b" "contents f = b" by (cases "t_data f") (auto simp: contents_def)
    then have "tmpfs_write fresh f d offset = Some (of_nat (length d), f\<lparr>t_data := Some (put b ?o d)\<rparr>)"
      using False lt by (simp add: tmpfs_write_def fs_def [symmetric] Let_def put_def)
    moreover have "tmpfile_inv (f\<lparr>t_data := Some (put b ?o d)\<rparr>)" using assms(1) b lt by (auto simp: tmpfile_inv_def put_length)
    ultimately show ?thesis using b by (simp add: contents_def)
  qed
qed

lemma tmpfs_read_ok:
  assumes "tmpfile_inv f" and "unat offset + unat n < 2 ^ 32" and "length (contents f) < 2 ^ 32"
  shows "tmpfs_read f n offset = Some (take (unat n) (drop (unat offset) (contents f)))"
proof (cases "t_data f")
  case None
  then show ?thesis by (simp add: tmpfs_read_def contents_def)
next
  case (Some d)
  then obtain m where m: "t_len f = Some m" "unat m = length d" using assms(1) by (auto simp: tmpfile_inv_def)
  have d: "length d < 2 ^ 32" using assms(3) Some by (simp add: contents_def)
  have s: "unat (offset + ucast n) = unat offset + unat n" using assms(2) by (simp add: unat_word_ariths unsigned_ucast_eq take_bit_nat_eq_self)
  have u: "unat (ucast (m - offset) :: u32) = length d - unat offset" if "\<not> offset > m"
    using that m(2) d by (simp add: unat_sub word_le_nat_alt not_less unsigned_ucast_eq take_bit_nat_eq_self)
  show ?thesis
  proof (cases "offset > m")
    case True
    then show ?thesis using Some m by (simp add: tmpfs_read_def contents_def word_less_nat_alt)
  next
    case False
    then have "unat offset \<le> length d" using m(2) by (simp add: word_less_nat_alt)
    then show ?thesis using Some m s u [OF False] False by (simp add: tmpfs_read_def contents_def Let_def word_le_nat_alt)
  qed
qed

text \<open>
  A temporary file holds what was written to it: a write at an offset up to the end of the file takes all bytes, replaces or appends them and keeps the
  rest, a read returns the bytes that are there from the offset on, at most as many as asked for, and after a
  reset the file is empty.\<close>

theorem tmpfs_stores:
  assumes "tmpfile_inv f" and "unat offset \<le> length (contents f)" and "unat offset + length d < 2 ^ 31" and "length (contents f) < 2 ^ 31" and "unat n < 2 ^ 31"
  shows "\<exists>f'. tmpfs_write fresh f d offset = Some (of_nat (length d), f') \<and> contents f' = put (contents f) (unat offset) d \<and>
    tmpfs_read f' n offset = Some (take (unat n) (d @ drop (unat offset + length d) (contents f))) \<and>
    tmpfs_read (tmpfs_reset f') n offset = Some []"
proof -
  obtain f' where f': "tmpfs_write fresh f d offset = Some (of_nat (length d), f')" "tmpfile_inv f'" "contents f' = put (contents f) (unat offset) d"
    using tmpfs_write_ok [OF assms(1,2), of d fresh] assms(3) by auto
  have "drop (unat offset) (contents f') = d @ drop (unat offset + length d) (contents f)" using assms(2) f'(3) by (simp add: put_def)
  moreover have "length (contents f') < 2 ^ 32" using assms(2-4) f'(3) by (simp add: put_length)
  moreover have "unat offset + unat n < 2 ^ 32" using assms(2,4,5) by simp
  ultimately have "tmpfs_read f' n offset = Some (take (unat n) (d @ drop (unat offset + length d) (contents f)))" using tmpfs_read_ok [OF f'(2)] by simp
  moreover have "tmpfs_read (tmpfs_reset f') n offset = Some []" by (simp add: tmpfs_reset_def tmpfs_read_def Let_def)
  ultimately show ?thesis using f' by blast
qed

definition tmpfile0 :: tmpfile where
  "tmpfile0 = \<lparr>t_data = None, t_len = None, t_mem = \<lparr>outcomes = [], live = 0\<rparr>\<rparr>"

theorem tmpfs_stores_witness:
  "\<exists>f'. tmpfs_write (\<lambda>_. 0) tmpfile0 [1, 2, 3] 0 = Some (3, f') \<and> contents f' = [1, 2, 3] \<and> tmpfs_read f' 2 0 = Some [1, 2]"
  using tmpfs_stores [of tmpfile0 0 "[1, 2, 3]" 2 "\<lambda>_. 0"] by (auto simp: tmpfile0_def tmpfile_inv_def contents_def put_def)

end
