(* ===== verification/Streams.thy ===== *)
theory Streams
  imports Tmpfs
begin

text \<open>
  Streams of \<open>libc/stdio\<close>: writing with and without a buffer, reading, positions and buffers. The driver behind the descriptor of
  a stream is a parameter: \<open>wr\<close> and \<open>rd\<close> are \<open>rp_write\<close> and \<open>rp_read\<close> on the state of the driver, which is part of the
  stream. A null pointer as the stream is \<^const>\<open>None\<close> as the argument; inside a result \<^const>\<open>None\<close> is a fault or a lock that
  is never freed.
\<close>

section \<open>State\<close>

record 'f stream =
  position :: u64
  fsize :: u64
  buffer :: "u8 list option"
  buffpos :: u32
  buffsize :: u32
  revbuf :: u32
  fl :: u8
  s_mutex :: bool
  dev :: 'f

abbreviation (input) FILE_EOF :: u8 where "FILE_EOF \<equiv> 0x01"
abbreviation (input) FILE_ERROR :: u8 where "FILE_ERROR \<equiv> 0x02"
abbreviation (input) FILE_FBF :: u8 where "FILE_FBF \<equiv> 0x04"
abbreviation (input) FILE_LBF :: u8 where "FILE_LBF \<equiv> 0x08"
abbreviation (input) FILE_NBF :: u8 where "FILE_NBF \<equiv> 0x10"
abbreviation (input) EOF :: u32 where "EOF \<equiv> - 1"

type_synonym 'f writer = "'f \<Rightarrow> u8 list \<Rightarrow> u64 \<Rightarrow> (u32 \<times> 'f) option"
type_synonym 'f reader = "'f \<Rightarrow> u32 \<Rightarrow> u64 \<Rightarrow> (u8 list \<times> 'f) option"

definition lock :: "'f stream \<Rightarrow> 'f stream option" where
  "lock s = (if s_mutex s then None else Some (s\<lparr>s_mutex := True\<rparr>))"

definition unlock :: "'f stream \<Rightarrow> 'f stream" where
  "unlock s = s\<lparr>s_mutex := False\<rparr>"

text \<open>The first bytes of the buffer; more than it holds are read from outside the block.\<close>

definition buffered :: "'f stream \<Rightarrow> u32 \<Rightarrow> u8 list option" where
  "buffered s n = do { b \<leftarrow> buffer s; if unat n > length b then None else Some (take (unat n) b) }"

section \<open>Writing\<close>

definition fflush :: "'f writer \<Rightarrow> 'f stream option \<Rightarrow> (int \<times> 'f stream option) option" where
  "fflush wr stream = (case stream of None \<Rightarrow> Some (- 1, None) | Some s \<Rightarrow> do {
     s \<leftarrow> lock s;
     s \<leftarrow> (if buffer s \<noteq> None \<and> buffpos s \<noteq> 0 then do {
         b \<leftarrow> buffered s (buffpos s);
         (n, f) \<leftarrow> wr (dev s) b (position s);
         Some (s\<lparr>position := position s + ucast n, buffpos := buffpos s - n, dev := f\<rparr>)
       } else Some s);
     Some (0, Some (unlock s))
   })"

partial_function (option) bufwrite_loop :: "'f writer \<Rightarrow> 'f stream \<Rightarrow> u32 \<Rightarrow> (int \<times> 'f stream) option" where
  "bufwrite_loop wr s pos = (if pos < buffpos s then do {
     b \<leftarrow> buffered s (buffpos s - pos);
     (count, f) \<leftarrow> wr (dev s) b (position s);
     let s = s\<lparr>dev := f\<rparr>;
     if count = 0 then Some (- 1, s) else bufwrite_loop wr (s\<lparr>position := position s + ucast count\<rparr>) (pos + count)
   } else Some (0, s\<lparr>buffpos := 0\<rparr>))"

definition bufwrite :: "'f writer \<Rightarrow> 'f stream \<Rightarrow> (int \<times> 'f stream) option" where
  "bufwrite wr s = bufwrite_loop wr s 0"

partial_function (option) nobufwrite_loop :: "'f writer \<Rightarrow> 'f stream \<Rightarrow> u8 list \<Rightarrow> u32 \<Rightarrow> u32 \<Rightarrow> (int \<times> 'f stream) option" where
  "nobufwrite_loop wr s data sz pos = (if pos < sz then do {
     (count, f) \<leftarrow> wr (dev s) (take (unat (sz - pos)) data) (position s);
     let s = s\<lparr>dev := f\<rparr>;
     if count = 0 then Some (- 1, s) else nobufwrite_loop wr (s\<lparr>position := position s + ucast count\<rparr>) data sz (pos + count)
   } else Some (0, s))"

definition nobufwrite :: "'f writer \<Rightarrow> 'f stream \<Rightarrow> u8 list \<Rightarrow> u32 \<Rightarrow> (int \<times> 'f stream) option" where
  "nobufwrite wr s data sz = nobufwrite_loop wr s data sz 0"

definition store :: "'f stream \<Rightarrow> u8 list \<Rightarrow> 'f stream option" where
  "store s d = do {
     b \<leftarrow> buffer s;
     if unat (buffpos s) + length d > length b then None
     else Some (s\<lparr>buffer := Some (put b (unat (buffpos s)) d), buffpos := buffpos s + of_nat (length d)\<rparr>)
   }"

primrec line_loop :: "'f writer \<Rightarrow> u8 list \<Rightarrow> 'f stream \<Rightarrow> (int \<times> 'f stream) option" where
  "line_loop wr [] s = Some (0, s)"
| "line_loop wr (c # cs) s = do {
     s \<leftarrow> store s [c];
     if c = 10 \<or> buffpos s \<ge> buffsize s then do {
       (e, s) \<leftarrow> bufwrite wr s;
       if e \<noteq> 0 then Some (e, s) else line_loop wr cs s
     }
     else line_loop wr cs s
   }"

text \<open>The bytes at \<open>ptr\<close> that are written.\<close>

definition fwrite :: "'f writer \<Rightarrow> u8 list \<Rightarrow> u32 \<Rightarrow> u32 \<Rightarrow> 'f stream option \<Rightarrow> (u32 \<times> 'f stream option) option" where
  "fwrite wr ptr sz nmemb stream = (case stream of None \<Rightarrow> Some (0, None) | Some s \<Rightarrow>
     if sz * nmemb = 0 then Some (0, Some s)
     else if length ptr < unat (sz * nmemb) then None
     else do {
       s \<leftarrow> lock s;
       let count = sz * nmemb;
       let data = take (unat count) ptr;
       if fl s AND FILE_NBF \<noteq> 0 then do {
         (ret, f) \<leftarrow> wr (dev s) data (position s);
         Some (ret div sz, Some (unlock (s\<lparr>dev := f, position := position s + ucast ret\<rparr>)))
       }
       else if fl s AND FILE_LBF \<noteq> 0 then do {
         (e, s) \<leftarrow> line_loop wr data s;
         Some (if e \<noteq> 0 then 0 else nmemb, Some (unlock s))
       }
       else if buffpos s + count \<ge> buffsize s then do {
         (e, s) \<leftarrow> bufwrite wr s;
         if e \<noteq> 0 then Some (0, Some (unlock s))
         else do {
           (e, s) \<leftarrow> nobufwrite wr s data count;
           Some (if e \<noteq> 0 then 0 else nmemb, Some (unlock s))
         }
       }
       else do {
         s \<leftarrow> store s data;
         Some (nmemb, Some (unlock s))
       }
     })"

definition fputc :: "'f writer \<Rightarrow> u32 \<Rightarrow> 'f stream option \<Rightarrow> (int \<times> 'f stream option) option" where
  "fputc wr c stream = do {
     (n, stream) \<leftarrow> fwrite wr [ucast c, ucast (drop_bit 8 c), ucast (drop_bit 16 c), ucast (drop_bit 24 c)] 1 1 stream;
     Some (if n = 0 then - 1 else 0, stream)
   }"

definition fputs :: "'f writer \<Rightarrow> u8 list \<Rightarrow> 'f stream option \<Rightarrow> (int \<times> 'f stream option) option" where
  "fputs wr str stream = do {
     (n, stream) \<leftarrow> fwrite wr str 1 (of_nat (length str)) stream;
     Some (if n = 0 then - 1 else 0, stream)
   }"

definition puts :: "'f writer \<Rightarrow> u8 list \<Rightarrow> 'f stream option \<Rightarrow> (int \<times> 'f stream option) option" where
  "puts wr str stdout = do {
     (e, stdout) \<leftarrow> fputs wr str stdout;
     if e \<noteq> 0 then Some (- 1, stdout) else do { (_, stdout) \<leftarrow> fputc wr 10 stdout; Some (0, stdout) }
   }"

section \<open>Reading\<close>

definition fread :: "'f reader \<Rightarrow> u32 \<Rightarrow> u32 \<Rightarrow> 'f stream option \<Rightarrow> (u32 \<times> u8 list \<times> 'f stream option) option" where
  "fread rd sz nmemb stream = (case stream of None \<Rightarrow> Some (0, [], None) | Some s \<Rightarrow> do {
     let nmemb = nmemb * sz;
     s \<leftarrow> lock s;
     let (rev, s) = (if revbuf s \<noteq> EOF \<and> nmemb \<noteq> 0 then ([ucast (revbuf s)], s\<lparr>revbuf := EOF\<rparr>) else ([], s));
     (bytes, f) \<leftarrow> rd (dev s) (nmemb - of_nat (length rev)) (position s);
     let ret = (of_nat (length bytes) :: u32);
     let s = s\<lparr>dev := f, position := position s + ucast ret\<rparr>;
     let ret = ret + of_nat (length rev);
     let s = (if ret \<noteq> nmemb then s\<lparr>fl := fl s OR FILE_EOF\<rparr> else s);
     let sz = (if sz = 0 then 1 else sz);
     Some (ret div sz, rev @ bytes, Some (unlock s))
   })"

definition fgetc :: "'f reader \<Rightarrow> 'f stream option \<Rightarrow> (u32 \<times> 'f stream option) option" where
  "fgetc rd stream = do {
     (n, bytes, stream) \<leftarrow> fread rd 1 1 stream;
     if n = 0 then Some (EOF, stream)
     else do { c \<leftarrow> (case bytes of [] \<Rightarrow> None | c # _ \<Rightarrow> Some c); Some (scast c, stream) }
   }"

text \<open>The index wraps around, as it does for the end of the file before the first character.\<close>

partial_function (option) fgets_loop :: "'f reader \<Rightarrow> u8 list \<Rightarrow> u32 \<Rightarrow> u32 \<Rightarrow> 'f stream option \<Rightarrow> (u8 list \<times> u32 \<times> 'f stream option) option" where
  "fgets_loop rd buf n i stream = (if i < n - 1 then do {
     (ch, stream) \<leftarrow> fgetc rd stream;
     if unat i \<ge> length buf then None
     else (
       let buf = buf[unat i := ucast ch] in
       let i = (if ch = EOF then i - 1 else i) in
       if ch = EOF \<or> ch = 10 then Some (buf, i, stream) else fgets_loop rd buf n (i + 1) stream)
   } else Some (buf, i, stream))"

definition fgets :: "'f reader \<Rightarrow> u8 list \<Rightarrow> u32 \<Rightarrow> 'f stream option \<Rightarrow> (u8 list \<times> 'f stream option) option" where
  "fgets rd buf n stream = do {
     (buf, i, stream) \<leftarrow> fgets_loop rd buf n 0 stream;
     if unat (i + 1) \<ge> length buf then None else Some (buf[unat (i + 1) := 0], stream)
   }"

definition ungetc :: "u32 \<Rightarrow> 'f stream \<Rightarrow> (u32 \<times> 'f stream) option" where
  "ungetc c s = do {
     s \<leftarrow> lock s;
     if revbuf s \<noteq> EOF then Some (EOF, unlock s) else Some (c, unlock (s\<lparr>revbuf := c\<rparr>))
   }"

section \<open>Positions and buffers\<close>

definition fseek :: "'f writer \<Rightarrow> 'f stream \<Rightarrow> u64 \<Rightarrow> int \<Rightarrow> (int \<times> 'f stream) option" where
  "fseek wr s offset whence = do {
     (_, stream) \<leftarrow> fflush wr (Some s);
     s \<leftarrow> stream;
     s \<leftarrow> lock s;
     let s = (if whence = 0 then s\<lparr>position := position s + offset\<rparr>
       else if whence = 1 then s\<lparr>position := fsize s - offset\<rparr>
       else if whence = 2 then s\<lparr>position := offset\<rparr>
       else s);
     Some (0, unlock s)
   }"

definition rewind :: "'f writer \<Rightarrow> 'f stream \<Rightarrow> 'f stream option" where
  "rewind wr s = do {
     (_, stream) \<leftarrow> fflush wr (Some s);
     s \<leftarrow> stream;
     s \<leftarrow> lock s;
     Some (unlock (s\<lparr>position := 0\<rparr>))
   }"

definition ftell :: "'f stream \<Rightarrow> (u64 \<times> 'f stream) option" where
  "ftell s = do {
     s \<leftarrow> lock s;
     Some (position s + ucast (buffpos s), unlock s)
   }"

text \<open>The lock is taken a second time instead of being freed.\<close>

definition fgetpos :: "'f stream \<Rightarrow> (u64 \<times> 'f stream) option" where
  "fgetpos s = do {
     s \<leftarrow> lock s;
     let pos = position s + ucast (buffpos s);
     s \<leftarrow> lock s;
     Some (pos, s)
   }"

definition fsetpos :: "'f writer \<Rightarrow> 'f stream \<Rightarrow> u64 option \<Rightarrow> (int \<times> 'f stream) option" where
  "fsetpos wr s pos = do {
     (_, stream) \<leftarrow> fflush wr (Some s);
     s \<leftarrow> stream;
     s \<leftarrow> lock s;
     Some (case pos of None \<Rightarrow> (- 1, unlock s) | Some p \<Rightarrow> (0, unlock (s\<lparr>position := p\<rparr>)))
   }"

definition feof :: "'f stream \<Rightarrow> (int \<times> 'f stream) option" where
  "feof s = do { s \<leftarrow> lock s; Some (if fl s AND FILE_EOF \<noteq> 0 then 1 else 0, unlock s) }"

definition ferror :: "'f stream \<Rightarrow> (int \<times> 'f stream) option" where
  "ferror s = do { s \<leftarrow> lock s; Some (if fl s AND FILE_ERROR \<noteq> 0 then 1 else 0, unlock s) }"

definition clearerr :: "'f stream \<Rightarrow> 'f stream" where
  "clearerr s = s\<lparr>fl := fl s AND NOT (FILE_EOF OR FILE_ERROR)\<rparr>"

text \<open>The buffer of the caller, or a new block with the bytes it happens to hold, \<^const>\<open>None\<close> when there is no memory.\<close>

definition setvbuf :: "'f writer \<Rightarrow> u8 list option \<Rightarrow> 'f stream option \<Rightarrow> u8 list option \<Rightarrow> int \<Rightarrow> u32 \<Rightarrow> (int \<times> 'f stream option) option" where
  "setvbuf wr block stream buf mode sz = (case stream of None \<Rightarrow> Some (- 1, None) | Some s \<Rightarrow> do {
     (_, stream) \<leftarrow> fflush wr (Some s);
     s \<leftarrow> stream;
     s \<leftarrow> lock s;
     if mode < 0 \<or> mode > 2 then Some (- 1, Some (unlock s))
     else do {
       let s = (if mode = 0 then s\<lparr>buffer := None, buffsize := 0\<rparr>
         else s\<lparr>buffer := (if buf \<noteq> None then buf else block), buffsize := sz, buffpos := 0\<rparr>);
       let s = s\<lparr>fl := fl s AND NOT (FILE_FBF OR FILE_LBF OR FILE_NBF)\<rparr>;
       let s = s\<lparr>fl := fl s OR (if mode = 0 then FILE_NBF else if mode = 1 then FILE_LBF else FILE_FBF)\<rparr>;
       Some (0, Some (unlock s))
     }
   })"

definition setbuf :: "'f writer \<Rightarrow> u8 list option \<Rightarrow> 'f stream option \<Rightarrow> u8 list option \<Rightarrow> (int \<times> 'f stream option) option" where
  "setbuf wr block stream buf = setvbuf wr block stream buf (if buf \<noteq> None then 2 else 0) (PAGESZ - 256)"

end
