(* ===== verification/Streams_Rep.thy ===== *)
theory Streams_Rep
  imports Streams
begin

text \<open>
  The proofs about \<open>Streams\<close>: the text of a stream, which is that of its file with the buffer, drivers that take all bytes as a locale and
  its interpretation on temporary files, and drivers that take fewer.
\<close>

section \<open>The text of a stream\<close>

definition pending :: "'f stream \<Rightarrow> u8 list" where
  "pending s = take (unat (buffpos s)) (case buffer s of None \<Rightarrow> [] | Some b \<Rightarrow> b)"

definition text_of :: "('f \<Rightarrow> u8 list) \<Rightarrow> 'f stream \<Rightarrow> u8 list" where
  "text_of content s = put (content (dev s)) (unat (position s)) (pending s)"

definition end_of :: "'f stream \<Rightarrow> nat" where
  "end_of s = unat (position s) + unat (buffpos s)"

definition stream_ok :: "('f \<Rightarrow> bool) \<Rightarrow> ('f \<Rightarrow> u8 list) \<Rightarrow> 'f stream \<Rightarrow> bool" where
  "stream_ok ok content s \<longleftrightarrow> ok (dev s) \<and> unat (position s) \<le> length (content (dev s)) \<and>
     (if fl s AND FILE_NBF \<noteq> 0 then buffpos s = 0
      else \<exists>b. buffer s = Some b \<and> unat (buffsize s) \<le> length b \<and> buffpos s < buffsize s)"

lemma put_nil [simp]: "put c p [] = c"
  by (simp add: put_def)

lemma unat_pos_add: "unat (p :: u64) + unat (n :: u32) < 2 ^ 32 \<Longrightarrow> unat (p + ucast n) = unat p + unat n"
  by (simp add: unat_word_ariths unsigned_ucast_eq take_bit_nat_eq_self)

lemma put_app: "p \<le> length c \<Longrightarrow> q = p + length a \<Longrightarrow> put (put c p a) q b = put c p (a @ b)"
  by (simp add: put_put)

text \<open>What an operation on the buffer leaves alone.\<close>

definition same_mode :: "'f stream \<Rightarrow> 'f stream \<Rightarrow> bool" where
  "same_mode s s' \<longleftrightarrow> buffsize s' = buffsize s \<and> fl s' = fl s \<and> s_mutex s' = s_mutex s"

text \<open>The stream after so many more bytes: its text and its end.\<close>

definition extends :: "('f \<Rightarrow> u8 list) \<Rightarrow> 'f stream \<Rightarrow> u8 list \<Rightarrow> 'f stream \<Rightarrow> bool" where
  "extends content s d s' \<longleftrightarrow> text_of content s' = put (text_of content s) (end_of s) d \<and> end_of s' = end_of s + length d \<and> revbuf s' = revbuf s"

section \<open>Drivers that take all bytes\<close>

locale file_driver =
  fixes wr :: "'f writer" and ok :: "'f \<Rightarrow> bool" and content :: "'f \<Rightarrow> u8 list"
  assumes write_all: "ok f \<Longrightarrow> unat p \<le> length (content f) \<Longrightarrow> unat p + length d < 2 ^ 32 \<Longrightarrow>
    \<exists>f'. wr f d p = Some (of_nat (length d), f') \<and> ok f' \<and> content f' = put (content f) (unat p) d"
begin

lemma bufwrite_ok:
  assumes "ok (dev s)" and "unat (position s) \<le> length (content (dev s))" and "buffer s = Some b" and "unat (buffpos s) \<le> length b" and "end_of s < 2 ^ 32"
  shows "\<exists>f'. bufwrite wr s = Some (0, s\<lparr>dev := f', position := position s + ucast (buffpos s), buffpos := 0\<rparr>) \<and> ok f' \<and> content f' = text_of content s"
proof (cases "buffpos s = 0")
  case True
  then have "bufwrite wr s = Some (0, s\<lparr>buffpos := 0\<rparr>)" by (simp add: bufwrite_def bufwrite_loop.simps)
  moreover have "s\<lparr>buffpos := 0\<rparr> = s\<lparr>dev := dev s, position := position s + ucast (buffpos s), buffpos := 0\<rparr>" using True by simp
  moreover have "content (dev s) = text_of content s" using True by (simp add: text_of_def pending_def)
  ultimately show ?thesis using assms(1) by metis
next
  case False
  have p: "pending s = take (unat (buffpos s)) b" "length (pending s) = unat (buffpos s)" using assms(3,4) by (simp_all add: pending_def)
  obtain f' where f': "wr (dev s) (pending s) (position s) = Some (of_nat (length (pending s)), f')" "ok f'" "content f' = text_of content s"
    using write_all [OF assms(1,2), of "pending s"] assms(5) p(2) by (auto simp: end_of_def text_of_def)
  have "buffered s (buffpos s - 0) = Some (pending s)" using assms(3,4) p(1) by (simp add: buffered_def)
  moreover have "(of_nat (length (pending s)) :: u32) = buffpos s" by (simp add: p(2))
  ultimately have "bufwrite wr s = bufwrite_loop wr (s\<lparr>dev := f', position := position s + ucast (buffpos s)\<rparr>) (buffpos s)"
    unfolding bufwrite_def using f'(1) False by (subst bufwrite_loop.simps) (simp add: word_gt_0)
  then show ?thesis using f'(2,3) by (intro exI [of _ f']) (simp add: bufwrite_loop.simps)
qed

lemma nobufwrite_ok:
  assumes "ok (dev s)" and "unat (position s) \<le> length (content (dev s))" and "length data = unat n" and "unat (position s) + unat n < 2 ^ 32" and "n \<noteq> 0"
  shows "\<exists>f'. nobufwrite wr s data n = Some (0, s\<lparr>dev := f', position := position s + ucast n\<rparr>) \<and> ok f' \<and>
    content f' = put (content (dev s)) (unat (position s)) data"
proof -
  obtain f' where f': "wr (dev s) data (position s) = Some (n, f')" "ok f'" "content f' = put (content (dev s)) (unat (position s)) data"
    using write_all [OF assms(1,2), of data] assms(3,4) by auto
  have "nobufwrite wr s data n = nobufwrite_loop wr (s\<lparr>dev := f', position := position s + ucast n\<rparr>) data n n"
    unfolding nobufwrite_def using f'(1) assms(3,5) by (subst nobufwrite_loop.simps) (simp add: word_gt_0)
  then show ?thesis using f'(2,3) by (intro exI [of _ f']) (simp add: nobufwrite_loop.simps)
qed

lemma store_ok:
  assumes "buffer s = Some b" and "unat (buffpos s) + length d \<le> length b" and "unat (buffpos s) + length d < 2 ^ 32" and "unat (position s) \<le> length (content (dev s))"
  shows "\<exists>s' b'. store s d = Some s' \<and> extends content s d s' \<and> same_mode s s' \<and> dev s' = dev s \<and> position s' = position s \<and>
    buffer s' = Some b' \<and> length b' = length b \<and> unat (buffpos s') = unat (buffpos s) + length d"
proof -
  let ?s = "s\<lparr>buffer := Some (put b (unat (buffpos s)) d), buffpos := buffpos s + of_nat (length d)\<rparr>"
  have u: "unat (buffpos s + of_nat (length d)) = unat (buffpos s) + length d" using assms(3) by (simp add: unat_word_ariths unat_of_nat)
  have "pending ?s = pending s @ d" using assms(1,2) u by (simp add: pending_def put_def)
  moreover have "length (pending s) = unat (buffpos s)" using assms(1,2) by (simp add: pending_def)
  ultimately have "extends content s d ?s" using assms(4) u by (simp add: extends_def text_of_def end_of_def put_app)
  then show ?thesis using assms(1,2) u by (intro exI [of _ ?s]) (simp add: store_def same_mode_def put_length)
qed

lemma extends_trans:
  assumes "extends content s d s'" and "extends content s' d' s''" and "unat (position s) \<le> length (content (dev s))" and "length (pending s) = unat (buffpos s)"
  shows "extends content s (d @ d') s''"
proof -
  have "end_of s \<le> length (text_of content s)" using assms(3,4) by (simp add: end_of_def text_of_def put_length)
  then show ?thesis using assms(1,2) by (simp add: extends_def put_put)
qed

lemma stream_ok_pending: "stream_ok ok content s \<Longrightarrow> length (pending s) = unat (buffpos s) \<and> unat (position s) \<le> length (content (dev s)) \<and> ok (dev s)"
  by (auto simp: stream_ok_def pending_def word_less_nat_alt split: if_splits)

lemma bufwrite_extends:
  assumes "ok (dev s)" and "unat (position s) \<le> length (content (dev s))" and "buffer s = Some b" and "unat (buffpos s) \<le> length b" and "end_of s < 2 ^ 32"
  shows "\<exists>s'. bufwrite wr s = Some (0, s') \<and> extends content s [] s' \<and> same_mode s s' \<and> ok (dev s') \<and> unat (position s') \<le> length (content (dev s')) \<and>
    buffer s' = Some b \<and> buffpos s' = 0 \<and> unat (position s') = end_of s"
proof -
  obtain f' where f': "bufwrite wr s = Some (0, s\<lparr>dev := f', position := position s + ucast (buffpos s), buffpos := 0\<rparr>)" "ok f'" "content f' = text_of content s"
    using bufwrite_ok [OF assms] by blast
  have u: "unat (position s + ucast (buffpos s)) = end_of s" using assms(5) unat_pos_add by (simp add: end_of_def)
  have "end_of s \<le> length (text_of content s)" using assms(2-4) by (simp add: end_of_def text_of_def put_length pending_def)
  then show ?thesis using f' u assms(3)
    by (intro exI [of _ "s\<lparr>dev := f', position := position s + ucast (buffpos s), buffpos := 0\<rparr>"])
      (simp add: extends_def same_mode_def text_of_def [of _ "_\<lparr>buffpos := 0\<rparr>"] pending_def [of "_\<lparr>buffpos := 0\<rparr>"] end_of_def [of "_\<lparr>buffpos := 0\<rparr>"])
qed

lemma line_loop_ok:
  "stream_ok ok content s \<Longrightarrow> fl s AND FILE_NBF = 0 \<Longrightarrow> end_of s + length d < 2 ^ 32 \<Longrightarrow>
    \<exists>s'. line_loop wr d s = Some (0, s') \<and> stream_ok ok content s' \<and> same_mode s s' \<and> extends content s d s'"
proof (induction d arbitrary: s)
  case Nil
  then show ?case by (simp add: same_mode_def extends_def)
next
  case (Cons c d)
  obtain b where b: "buffer s = Some b" "unat (buffsize s) \<le> length b" "buffpos s < buffsize s" using Cons.prems(1,2) by (auto simp: stream_ok_def)
  note P = stream_ok_pending [OF Cons.prems(1)]
  have "unat (buffpos s) + length [c] \<le> length b" "unat (buffpos s) + length [c] < 2 ^ 32"
    using b Cons.prems(3) by (auto simp: word_less_nat_alt end_of_def)
  then obtain s1 b1 where 1: "store s [c] = Some s1" "extends content s [c] s1" "same_mode s s1" "dev s1 = dev s" "position s1 = position s"
    "buffer s1 = Some b1" "length b1 = length b" "unat (buffpos s1) = unat (buffpos s) + 1"
    using store_ok [OF b(1), of "[c]"] P by auto
  have e1: "end_of s1 = end_of s + 1" using 1(2) by (simp add: extends_def)
  have "\<exists>s2. (if c = 10 \<or> buffpos s1 \<ge> buffsize s1 then do { (e, s) \<leftarrow> bufwrite wr s1; if e \<noteq> 0 then Some (e, s) else line_loop wr d s } else line_loop wr d s1) =
      line_loop wr d s2 \<and> stream_ok ok content s2 \<and> same_mode s s2 \<and> extends content s [c] s2"
  proof (cases "c = 10 \<or> buffpos s1 \<ge> buffsize s1")
    case True
    obtain s2 where 2: "bufwrite wr s1 = Some (0, s2)" "extends content s1 [] s2" "same_mode s1 s2" "ok (dev s2)" "unat (position s2) \<le> length (content (dev s2))"
      "buffer s2 = Some b1" "buffpos s2 = 0"
      using bufwrite_extends [of s1 b1] 1 P b e1 Cons.prems(3) by (auto simp: word_less_nat_alt)
    have "0 < buffsize s" using b(3) by (simp add: word_gt_0) (metis word_not_simps(1))
    then have "stream_ok ok content s2" using 1(3,7) 2(3-7) b(2) by (auto simp: stream_ok_def same_mode_def)
    moreover have "extends content s [c] s2" using extends_trans [OF 1(2) 2(2)] P by simp
    moreover have "same_mode s s2" using 1(3) 2(3) by (simp add: same_mode_def)
    ultimately show ?thesis using True 2(1) by auto
  next
    case False
    then have "stream_ok ok content s1" using 1 b P Cons.prems(2) by (simp add: stream_ok_def same_mode_def not_le)
    then show ?thesis using False 1(2,3) by auto
  qed
  then obtain s2 where 2: "line_loop wr (c # d) s = line_loop wr d s2" "stream_ok ok content s2" "same_mode s s2" "extends content s [c] s2" using 1(1) by auto
  then obtain s3 where "line_loop wr d s2 = Some (0, s3)" "stream_ok ok content s3" "same_mode s2 s3" "extends content s2 d s3"
    using Cons.IH [of s2] Cons.prems by (auto simp: same_mode_def extends_def)
  then show ?case using 2 extends_trans [OF 2(4), of d s3] P
    by (intro exI [of _ s3]) (simp add: same_mode_def del: line_loop.simps)
qed

lemma full_ok:
  assumes "stream_ok ok content s" and "fl s AND FILE_NBF = 0" and "length d = unat n" and "n \<noteq> 0" and "end_of s + length d < 2 ^ 32" and "buffpos s + n \<ge> buffsize s"
  shows "\<exists>s'. do { (e, s) \<leftarrow> bufwrite wr s; if e \<noteq> 0 then Some (1, s) else nobufwrite wr s d n } = Some (0, s') \<and>
    stream_ok ok content s' \<and> same_mode s s' \<and> extends content s d s'"
proof -
  obtain b where b: "buffer s = Some b" "unat (buffsize s) \<le> length b" "buffpos s < buffsize s" using assms(1,2) by (auto simp: stream_ok_def)
  note P = stream_ok_pending [OF assms(1)]
  obtain s1 where 1: "bufwrite wr s = Some (0, s1)" "extends content s [] s1" "same_mode s s1" "ok (dev s1)" "unat (position s1) \<le> length (content (dev s1))"
    "buffer s1 = Some b" "buffpos s1 = 0" "unat (position s1) = end_of s"
    using bufwrite_extends [of s b] P b assms(5) by (auto simp: word_less_nat_alt)
  obtain f' where f': "nobufwrite wr s1 d n = Some (0, s1\<lparr>dev := f', position := position s1 + ucast n\<rparr>)" "ok f'"
    "content f' = put (content (dev s1)) (unat (position s1)) d"
    using nobufwrite_ok [OF 1(4,5) assms(3) _ assms(4)] 1(8) assms(3,5) by auto
  let ?s = "s1\<lparr>dev := f', position := position s1 + ucast n\<rparr>"
  have u: "unat (position s1 + ucast n) = end_of s + length d" using unat_pos_add [of "position s1" n] 1(8) assms(3,5) by simp
  have "extends content s1 d ?s" using f'(3) u 1(7,8) by (simp add: extends_def text_of_def pending_def end_of_def)
  then have "extends content s d ?s" using extends_trans [OF 1(2)] P by fastforce
  moreover have "0 < buffsize s" using b(3) by (simp add: word_gt_0) (metis word_not_simps(1))
  then have "stream_ok ok content ?s" using f' 1 b(2) u assms(2,3) by (auto simp: stream_ok_def same_mode_def put_length)
  moreover have "same_mode s ?s" using 1(3) by (simp add: same_mode_def)
  ultimately show ?thesis using 1(1) f'(1) by auto
qed

lemma fwrite_ok:
  assumes "stream_ok ok content s" and "\<not> s_mutex s" and "length d = unat sz * unat nmemb" and "d \<noteq> []" and "end_of s + length d < 2 ^ 32"
  shows "\<exists>s'. fwrite wr d sz nmemb (Some s) = Some (nmemb, Some s') \<and> stream_ok ok content s' \<and> \<not> s_mutex s' \<and> extends content s d s'"
proof -
  let ?n = "sz * nmemb" and ?s = "s\<lparr>s_mutex := True\<rparr>"
  have n: "unat ?n = length d" using assms(3,5) by (simp add: unat_word_ariths)
  have n0: "?n \<noteq> 0" "sz \<noteq> 0" using n assms(3,4) by auto
  have ok: "stream_ok ok content ?s" "end_of ?s = end_of s" "\<And>d s'. extends content ?s d s' \<longleftrightarrow> extends content s d s'"
    using assms(1) by (auto simp: stream_ok_def end_of_def extends_def text_of_def pending_def)
  have fin: "stream_ok ok content (unlock s') \<and> \<not> s_mutex (unlock s') \<and> extends content s d (unlock s')" if "stream_ok ok content s'" "extends content ?s d s'" for s'
    using that by (simp add: ok(3) unlock_def stream_ok_def end_of_def extends_def text_of_def pending_def)
  have start: "fwrite wr d sz nmemb (Some s) = (if fl s AND FILE_NBF \<noteq> 0 then do {
         (ret, f) \<leftarrow> wr (dev s) d (position s);
         Some (ret div sz, Some (unlock (?s\<lparr>dev := f, position := position s + ucast ret\<rparr>))) }
       else if fl s AND FILE_LBF \<noteq> 0 then do { (e, s) \<leftarrow> line_loop wr d ?s; Some (if e \<noteq> 0 then 0 else nmemb, Some (unlock s)) }
       else if buffpos s + ?n \<ge> buffsize s then do {
         (e, s) \<leftarrow> bufwrite wr ?s;
         if e \<noteq> 0 then Some (0, Some (unlock s))
         else do { (e, s) \<leftarrow> nobufwrite wr s d ?n; Some (if e \<noteq> 0 then 0 else nmemb, Some (unlock s)) } }
       else do { s \<leftarrow> store ?s d; Some (nmemb, Some (unlock s)) })"
    using n n0 assms(2) by (simp add: fwrite_def lock_def)
  consider (none) "fl s AND FILE_NBF \<noteq> 0" | (line) "fl s AND FILE_NBF = 0" "fl s AND FILE_LBF \<noteq> 0"
    | (full) "fl s AND FILE_NBF = 0" "fl s AND FILE_LBF = 0" "buffpos s + ?n \<ge> buffsize s"
    | (room) "fl s AND FILE_NBF = 0" "fl s AND FILE_LBF = 0" "\<not> buffpos s + ?n \<ge> buffsize s" by blast
  then show ?thesis
  proof cases
    case none
    have b0: "buffpos s = 0" "ok (dev s)" "unat (position s) \<le> length (content (dev s))" using assms(1) none by (simp_all add: stream_ok_def)
    obtain f' where f': "wr (dev s) d (position s) = Some (?n, f')" "ok f'" "content f' = put (content (dev s)) (unat (position s)) d"
      using write_all [OF b0(2,3), of d] assms(5) by (auto simp: end_of_def n [symmetric])
    let ?t = "?s\<lparr>dev := f', position := position s + ucast ?n\<rparr>"
    have u: "unat (position s + ucast ?n) = unat (position s) + length d" using unat_pos_add [of "position s" ?n] n assms(5) by (simp add: end_of_def)
    then have "extends content ?s d ?t" using f'(3) b0(1) by (simp add: extends_def text_of_def pending_def end_of_def)
    moreover have "stream_ok ok content ?t" using f' b0 none u by (simp add: stream_ok_def put_length)
    moreover have "?n div sz = nmemb" using n n0(2) assms(3) by (simp add: word_unat_eq_iff unat_div)
    ultimately show ?thesis using start none f'(1) fin by auto
  next
    case line
    then obtain s' where "line_loop wr d ?s = Some (0, s')" "stream_ok ok content s'" "extends content ?s d s'"
      using line_loop_ok [OF ok(1), of d] ok(2) assms(5) by auto
    then show ?thesis using start line fin by auto
  next
    case full
    then obtain s' where s': "do { (e, s) \<leftarrow> bufwrite wr ?s; if e \<noteq> 0 then Some (1, s) else nobufwrite wr s d ?n } = Some (0, s')"
      "stream_ok ok content s'" "extends content ?s d s'"
      using full_ok [OF ok(1) _ n [symmetric] n0(1)] ok(2) assms(5) by auto
    then obtain s1 where "bufwrite wr ?s = Some (0, s1)" "nobufwrite wr s1 d ?n = Some (0, s')" by (auto split: if_splits)
    then show ?thesis using start full fin s' by auto
  next
    case room
    obtain b where b: "buffer s = Some b" "unat (buffsize s) \<le> length b" using assms(1) room(1) by (auto simp: stream_ok_def)
    have u: "unat (buffpos s + ?n) = unat (buffpos s) + length d" using n assms(5) by (simp add: unat_word_ariths end_of_def)
    then have lt: "unat (buffpos s) + length d < unat (buffsize s)" using room(3) by (simp add: word_le_nat_alt)
    obtain s' b' where s': "store ?s d = Some s'" "extends content ?s d s'" "same_mode ?s s'" "dev s' = dev s" "position s' = position s" "buffer s' = Some b'"
      "length b' = length b" "unat (buffpos s') = unat (buffpos s) + length d"
      using store_ok [of ?s b d] b lt assms(5) stream_ok_pending [OF assms(1)] by (auto simp: end_of_def)
    have "stream_ok ok content s'" using s' b(2) lt assms(1) room(1) by (simp add: stream_ok_def same_mode_def word_less_nat_alt)
    then show ?thesis using start room s'(1,2) fin by auto
  qed
qed

lemma fflush_ok:
  assumes "stream_ok ok content s" and "\<not> s_mutex s" and "end_of s < 2 ^ 32"
  shows "\<exists>s'. fflush wr (Some s) = Some (0, Some s') \<and> stream_ok ok content s' \<and> \<not> s_mutex s' \<and> content (dev s') = text_of content s \<and> unat (position s') = end_of s \<and> buffpos s' = 0 \<and> revbuf s' = revbuf s"
proof (cases "buffpos s = 0")
  case True
  then show ?thesis using assms by (auto simp: fflush_def lock_def unlock_def stream_ok_def text_of_def pending_def end_of_def split: if_splits)
next
  case False
  then obtain b where b: "buffer s = Some b" "unat (buffsize s) \<le> length b" "buffpos s < buffsize s" "fl s AND FILE_NBF = 0" using assms(1) by (auto simp: stream_ok_def split: if_splits)
  note P = stream_ok_pending [OF assms(1)]
  obtain f' where f': "wr (dev s) (pending s) (position s) = Some (buffpos s, f')" "ok f'" "content f' = text_of content s"
    using write_all [of "dev s" "position s" "pending s"] P assms(3) by (auto simp: end_of_def text_of_def)
  have "buffered s (buffpos s) = Some (pending s)" using b by (simp add: buffered_def pending_def word_less_nat_alt)
  then have "fflush wr (Some s) = Some (0, Some (s\<lparr>position := position s + ucast (buffpos s), buffpos := 0, dev := f'\<rparr>))"
    using f'(1) b(1) False assms(2) by (simp add: fflush_def lock_def unlock_def buffered_def pending_def)
  moreover have u: "unat (position s + ucast (buffpos s)) = end_of s" using unat_pos_add assms(3) by (simp add: end_of_def)
  moreover have "end_of s \<le> length (text_of content s)" using P by (simp add: end_of_def text_of_def put_length)
  moreover have "0 < buffsize s" using b(3) by (simp add: word_gt_0) (metis word_not_simps(1))
  ultimately show ?thesis using f' b assms(2) by (simp add: stream_ok_def)
qed

lemma writes_ok:
  "stream_ok ok content s \<Longrightarrow> \<not> s_mutex s \<Longrightarrow> [] \<notin> set ds \<Longrightarrow> end_of s + length (concat ds) < 2 ^ 32 \<Longrightarrow>
    \<exists>s'. for_list (\<lambda>d s. do { (n, s) \<leftarrow> fwrite wr d 1 (of_nat (length d)) s; if unat n = length d then Some s else None }) ds (Some s) = Some (Some s') \<and>
      stream_ok ok content s' \<and> \<not> s_mutex s' \<and> extends content s (concat ds) s'"
proof (induction ds arbitrary: s)
  case Nil
  then show ?case by (simp add: extends_def)
next
  case (Cons d ds)
  have u: "unat (of_nat (length d) :: u32) = length d" using Cons.prems(4) by (simp add: unat_of_nat take_bit_nat_eq_self)
  obtain s1 where 1: "fwrite wr d 1 (of_nat (length d)) (Some s) = Some (of_nat (length d), Some s1)" "stream_ok ok content s1" "\<not> s_mutex s1" "extends content s d s1"
    using fwrite_ok [OF Cons.prems(1,2), of d 1 "of_nat (length d)"] Cons.prems(3,4) u by auto
  have "[] \<notin> set ds" "end_of s1 + length (concat ds) < 2 ^ 32" using Cons.prems(3,4) 1(4) by (simp_all add: extends_def)
  then obtain s2 where 2: "for_list (\<lambda>d s. do { (n, s) \<leftarrow> fwrite wr d 1 (of_nat (length d)) s; if unat n = length d then Some s else None }) ds (Some s1) = Some (Some s2)"
    "stream_ok ok content s2" "\<not> s_mutex s2" "extends content s1 (concat ds) s2"
    using Cons.IH [OF 1(2,3)] by blast
  then show ?case using 1(1) u extends_trans [OF 1(4) 2(4)] stream_ok_pending [OF Cons.prems(1)] by simp
qed

end

interpretation tmp: file_driver "tmpfs_write fresh" tmpfile_inv contents for fresh
  by unfold_locales (rule tmpfs_write_ok)

section \<open>Streams on temporary files\<close>

text \<open>Reading from the driver does not change the file.\<close>

definition tmp_rd :: "tmpfile reader" where
  "tmp_rd f n p = map_option (\<lambda>b. (b, f)) (tmpfs_read f n p)"

text \<open>
  C25. Buffers do not change what is written: for a stream on a temporary file, without a buffer, with line buffering or with full buffering, any sequence
  of \<open>fwrite\<close> calls reports all bytes as written, and after \<open>fflush\<close> the file holds the bytes of all calls in
  order from where the stream was; reading from the start then returns the whole file.\<close>

theorem stream_writes:
  assumes "stream_ok tmpfile_inv contents s" and "\<not> s_mutex s" and "[] \<notin> set ds" and "end_of s + length (concat ds) < 2 ^ 31"
    and "length (text_of contents s) < 2 ^ 31" and "revbuf s = EOF" and "unat n = length (put (text_of contents s) (end_of s) (concat ds))"
  shows "\<exists>s1 s2 s3. for_list (\<lambda>d s. do { (n, s) \<leftarrow> fwrite (tmpfs_write fresh) d 1 (of_nat (length d)) s; if unat n = length d then Some s else None })
      ds (Some s) = Some (Some s1) \<and>
    rewind (tmpfs_write fresh) s1 = Some s2 \<and> contents (dev s2) = put (text_of contents s) (end_of s) (concat ds) \<and>
    fread tmp_rd 1 n (Some s2) = Some (n, put (text_of contents s) (end_of s) (concat ds), Some s3)"
proof -
  let ?t = "put (text_of contents s) (end_of s) (concat ds)"
  obtain s1 where 1: "for_list (\<lambda>d s. do { (n, s) \<leftarrow> fwrite (tmpfs_write fresh) d 1 (of_nat (length d)) s; if unat n = length d then Some s else None })
      ds (Some s) = Some (Some s1)" "stream_ok tmpfile_inv contents s1" "\<not> s_mutex s1" "extends contents s (concat ds) s1"
    using tmp.writes_ok [OF assms(1-3), of fresh] assms(4) by auto
  have t1: "text_of contents s1 = ?t" "end_of s1 < 2 ^ 32" "revbuf s1 = EOF" using 1(4) assms(4,6) by (simp_all add: extends_def)
  obtain s2 where 2: "fflush (tmpfs_write fresh) (Some s1) = Some (0, Some s2)" "stream_ok tmpfile_inv contents s2" "\<not> s_mutex s2" "contents (dev s2) = ?t"
    "revbuf s2 = EOF" using tmp.fflush_ok [OF 1(2,3) t1(2), of fresh] t1 by auto
  let ?s = "s2\<lparr>position := 0\<rparr>"
  have r: "rewind (tmpfs_write fresh) s1 = Some ?s" using 2(1,3) by (simp add: rewind_def lock_def unlock_def)
  have P: "end_of s \<le> length (text_of contents s)" using tmp.stream_ok_pending [OF assms(1)] by (simp add: end_of_def text_of_def put_length)
  then have "length ?t < 2 ^ 31" using assms(4,5) by (simp add: put_length)
  then have "tmpfs_read (dev s2) n 0 = Some ?t"
    using tmpfs_read_ok [of "dev s2" 0 n] 2(2,4) assms(7) by (simp add: stream_ok_def)
  moreover have "(of_nat (length ?t) :: u32) = n" using assms(7) by (metis of_nat_unat ucast_id)
  ultimately have "\<exists>s3. fread tmp_rd 1 n (Some ?s) = Some (n, ?t, Some s3)" using 2(3,5) by (simp add: fread_def lock_def tmp_rd_def Let_def)
  then show ?thesis using 1(1) r 2(4) by auto
qed

definition stream0 :: "u8 \<Rightarrow> u8 list option \<Rightarrow> u32 \<Rightarrow> tmpfile stream" where
  "stream0 mode buf n = \<lparr>position = 0, fsize = 0, buffer = buf, buffpos = 0, buffsize = n, revbuf = EOF, fl = mode, s_mutex = False, dev = tmpfile0\<rparr>"

theorem stream_writes_witness:
  "\<exists>s1 s2 s3. for_list (\<lambda>d s. do { (n, s) \<leftarrow> fwrite (tmpfs_write (\<lambda>_. 0)) d 1 (of_nat (length d)) s; if unat n = length d then Some s else None })
      [[104, 105], [10, 104], [111]] (Some (stream0 FILE_LBF (Some [0, 0, 0, 0]) 4)) = Some (Some s1) \<and>
    rewind (tmpfs_write (\<lambda>_. 0)) s1 = Some s2 \<and> contents (dev s2) = [104, 105, 10, 104, 111] \<and>
    fread tmp_rd 1 5 (Some s2) = Some (5, [104, 105, 10, 104, 111], Some s3)"
proof -
  let ?s = "stream0 FILE_LBF (Some [0, 0, 0, 0]) 4" and ?ds = "[[104, 105], [10, 104], [111]] :: u8 list list"
  have t: "text_of contents ?s = []" "end_of ?s = 0" by (simp_all add: stream0_def text_of_def end_of_def pending_def contents_def tmpfile0_def)
  have p: "put (text_of contents ?s) (end_of ?s) (concat ?ds) = [104, 105, 10, 104, 111]" by (simp add: t put_def)
  have h: "stream_ok tmpfile_inv contents ?s" "\<not> s_mutex ?s" "[] \<notin> set ?ds" "end_of ?s + length (concat ?ds) < 2 ^ 31" "length (text_of contents ?s) < 2 ^ 31"
    "revbuf ?s = EOF" "unat (5 :: u32) = length (put (text_of contents ?s) (end_of ?s) (concat ?ds))"
    by (simp_all add: t put_def) (simp_all add: stream_ok_def stream0_def tmpfile0_def tmpfile_inv_def)
  show ?thesis using stream_writes [OF h, of "\<lambda>_. 0"] by (simp only: p)
qed

section \<open>Drivers that take fewer bytes\<close>

text \<open>A file of bytes behind a driver that takes at most so many bytes per request, and that returns what is there.\<close>

definition short_write :: "nat \<Rightarrow> u8 list writer" where
  "short_write k c d p = Some (of_nat (length (take k d)), put c (unat p) (take k d))"

text \<open>
  A short write repeats the start of the buffer: when the driver takes only the first \<open>k\<close> bytes of a buffer, the next request of \<open>__bufwrite\<close> sends the
  buffer from its beginning again, so that the file holds the first bytes twice and never the last ones, and the function reports success.\<close>

theorem bufwrite_short:
  assumes "pending s = b" and "buffer s \<noteq> None" and "length b = unat (buffpos s)" and "0 < k" and "k < length b" and "length b \<le> 2 * k"
    and "end_of s < 2 ^ 32" and "unat (position s) \<le> length (dev s)"
  shows "\<exists>s'. bufwrite (short_write k) s = Some (0, s') \<and> dev s' = put (dev s) (unat (position s)) (take k b @ take (length b - k) b)"
proof -
  obtain a where a: "buffer s = Some a" "b = take (unat (buffpos s)) a" "unat (buffpos s) \<le> length a"
    using assms(1-3) by (auto simp: pending_def)
  let ?k = "of_nat k :: u32"
  have lt: "k < 2 ^ 32" using assms(3,5) unsigned_less [of "buffpos s", where 'a = nat] by simp
  have k: "unat ?k = k" using lt by (simp add: unat_of_nat take_bit_nat_eq_self)
  have n: "unat (buffpos s - ?k) = length b - k" using k assms(3,5) by (simp add: unat_sub word_le_nat_alt)
  have k0: "?k \<noteq> 0" "?k < buffpos s" using k assms(3-5) by (auto simp: word_less_nat_alt simp del: unat_of_nat)
  let ?s1 = "s\<lparr>dev := put (dev s) (unat (position s)) (take k b), position := position s + ucast ?k\<rparr>"
  have "buffered s (buffpos s) = Some b" using a by (simp add: buffered_def)
  moreover have "(of_nat (length (take k b)) :: u32) = ?k" using assms(5) by simp
  ultimately have 1: "bufwrite (short_write k) s = bufwrite_loop (short_write k) ?s1 ?k"
    unfolding bufwrite_def using k0 by (subst bufwrite_loop.simps) (auto simp: short_write_def word_gt_0)
  have u: "unat (position s + ucast ?k) = unat (position s) + k" using unat_pos_add [of "position s" ?k] assms(3,5,7) k by (simp add: end_of_def)
  have r: "buffered ?s1 (buffpos s - ?k) = Some (take (length b - k) b)"
    using a n by (simp add: buffered_def)
  have l: "take k (take (length b - k) b) = take (length b - k) b" using assms(5,6) by simp
  have "(of_nat (length b - k) :: u32) = buffpos s - ?k" by (simp only: n [symmetric]) simp
  then have m: "of_nat (length (take (length b - k) b)) = buffpos s - ?k" by simp
  have w: "short_write k (dev ?s1) (take (length b - k) b) (position ?s1) =
      Some (buffpos s - ?k, put (dev ?s1) (unat (position s) + k) (take (length b - k) b))"
    unfolding short_write_def l using m u by simp
  have "buffpos s - ?k \<noteq> 0" using n assms(5) by auto
  then have "bufwrite_loop (short_write k) ?s1 ?k = bufwrite_loop (short_write k) (?s1\<lparr>dev := put (dev ?s1) (unat (position s) + k) (take (length b - k) b),
      position := position s + ucast ?k + ucast (buffpos s - ?k)\<rparr>) (buffpos s)"
    using k0 r w by (subst bufwrite_loop.simps) (simp add: Let_def)
  moreover have "put (dev ?s1) (unat (position s) + k) (take (length b - k) b) = put (dev s) (unat (position s)) (take k b @ take (length b - k) b)"
    using put_app [OF assms(8), of "unat (position s) + k" "take k b"] assms(5) by simp
  ultimately show ?thesis using 1 by (simp add: bufwrite_loop.simps)
qed

theorem bufwrite_short_witness:
  "\<exists>s'. bufwrite (short_write 2) \<lparr>position = 0, fsize = 0, buffer = Some [97, 98, 99], buffpos = 3, buffsize = 3, revbuf = EOF, fl = FILE_FBF, s_mutex = True, dev = []\<rparr> =
    Some (0, s') \<and> dev s' = [97, 98, 97]"
  using bufwrite_short [of "\<lparr>position = 0, fsize = 0, buffer = Some [97, 98, 99], buffpos = 3, buffsize = 3, revbuf = EOF, fl = FILE_FBF, s_mutex = True, dev = []\<rparr>"
      "[97, 98, 99]" 2] by (simp add: pending_def end_of_def put_def)

section \<open>Lines\<close>

definition list_read :: "u8 list reader" where
  "list_read c n p = Some (take (unat n) (drop (unat p) c), c)"

lemma fgetc_list:
  assumes "unat (position s) < length (dev s)" and "revbuf s = EOF" and "\<not> s_mutex s"
  shows "fgetc list_read (Some s) = Some (scast (dev s ! unat (position s)), Some (s\<lparr>position := position s + 1\<rparr>))"
proof -
  have "take 1 (drop (unat (position s)) (dev s)) = [dev s ! unat (position s)]" using assms(1) by (simp add: take_Suc hd_drop_conv_nth)
  moreover have "min (length (dev s) - unat (position s)) (Suc 0) = Suc 0" using assms(1) by simp
  ultimately show ?thesis using assms(2,3) by (simp add: fgetc_def fread_def lock_def unlock_def list_read_def Let_def)
qed

lemma ucast_scast_u8: "ucast (scast (c :: u8) :: u32) = c"
  by (rule bit_word_eqI) (simp add: bit_simps)

lemma scast_special: "scast (c :: u8) = (- 1 :: u32) \<longleftrightarrow> c = 0xFF" "scast (c :: u8) = (10 :: u32) \<longleftrightarrow> c = 10"
proof -
  have "ucast (- 1 :: u32) = (0xFF :: u8)" "ucast (10 :: u32) = (10 :: u8)" "scast (0xFF :: u8) = (- 1 :: u32)" "scast (10 :: u8) = (10 :: u32)" by code_simp+
  then show "scast (c :: u8) = (- 1 :: u32) \<longleftrightarrow> c = 0xFF" "scast (c :: u8) = (10 :: u32) \<longleftrightarrow> c = 10" using ucast_scast_u8 [of c] by metis+
qed

lemma fgets_loop_full:
  assumes "revbuf s = EOF" and "\<not> s_mutex s" and "unat i \<le> unat (n - 1)" and "unat (n - 1) < length buf"
    and "unat (position s) + (unat (n - 1) - unat i) \<le> length (dev s)" and "length (dev s) < 2 ^ 32"
    and "\<forall>j < unat (n - 1) - unat i. dev s ! (unat (position s) + j) \<notin> {10, 0xFF}"
  shows "\<exists>buf' s'. fgets_loop list_read buf n i (Some s) = Some (buf', n - 1, Some s') \<and> length buf' = length buf"
  using assms
proof (induction "unat (n - 1) - unat i" arbitrary: i buf s)
  case 0
  then have "i = n - 1" by (simp add: word_unat_eq_iff)
  then show ?case by (subst fgets_loop.simps) simp
next
  case (Suc m)
  have i: "i < n - 1" using Suc.hyps(2) by (simp add: word_less_nat_alt)
  have ne: "i + 1 \<noteq> 0" using i by (metis add.right_neutral add_diff_cancel_right' linorder_not_less word_le_sub1 word_n1_ge word_not_simps(1) zero_neq_one diff_0)
  have i1: "unat (i + 1) = unat i + 1" using ne by (metis Suc_eq_plus1 add.commute unatSuc)
  let ?c = "dev s ! unat (position s)"
  have c: "?c \<noteq> 10" "?c \<noteq> 0xFF" using Suc.prems(7) Suc.hyps(2) by (auto dest: spec [of _ 0])
  have p: "unat (position s) < length (dev s)" using Suc.prems(5) Suc.hyps(2) by simp
  let ?s = "s\<lparr>position := position s + 1\<rparr>"
  have p1: "unat (position s + 1) = unat (position s) + 1" using p Suc.prems(6) by (simp add: unat_word_ariths)
  have "\<exists>buf' s'. fgets_loop list_read (buf[unat i := ?c]) n (i + 1) (Some ?s) = Some (buf', n - 1, Some s') \<and> length buf' = length (buf[unat i := ?c])"
  proof (rule Suc.hyps(1))
    show "\<forall>j < unat (n - 1) - unat (i + 1). dev ?s ! (unat (position ?s) + j) \<notin> {10, 0xFF}"
    proof (intro allI impI)
      fix j assume "j < unat (n - 1) - unat (i + 1)"
      then have "Suc j < unat (n - 1) - unat i" using i1 by simp
      then show "dev ?s ! (unat (position ?s) + j) \<notin> {10, 0xFF}" using Suc.prems(7) p1 by fastforce
    qed
  qed (use Suc i1 p1 in auto)
  moreover have "fgets_loop list_read buf n i (Some s) = fgets_loop list_read (buf[unat i := ?c]) n (i + 1) (Some ?s)"
    using i fgetc_list [OF p Suc.prems(1,2)] c Suc.prems(3,4) Suc.hyps(2) by (subst fgets_loop.simps) (simp add: scast_special ucast_scast_u8 Let_def)
  ultimately show ?case by simp
qed

text \<open>
  \<open>fgets\<close> writes behind its buffer: when the next \<open>n - 1\<close> characters have no end of a line, the terminator is stored at offset \<open>n\<close> of a buffer of \<open>n\<close> bytes.\<close>

theorem fgets_overrun:
  assumes "revbuf s = EOF" and "\<not> s_mutex s" and "length buf = unat n" and "n \<noteq> 0"
    and "unat (position s) + unat n \<le> length (dev s) + 1" and "length (dev s) < 2 ^ 32"
    and "\<forall>j < unat n - 1. dev s ! (unat (position s) + j) \<notin> {10, 0xFF}"
  shows "fgets list_read buf n (Some s) = None"
proof -
  have n: "unat (n - 1) = unat n - 1" "unat n \<noteq> 0" using assms(4) by (simp_all add: unat_minus_one unat_eq_zero)
  obtain buf' s' where "fgets_loop list_read buf n 0 (Some s) = Some (buf', n - 1, Some s')" "length buf' = length buf"
  proof -
    have "unat (position s) + (unat (n - 1) - unat (0 :: u32)) \<le> length (dev s)" using assms(5) n by simp
    then show ?thesis using that fgets_loop_full [of s 0 n buf] assms n by auto
  qed
  then show ?thesis using assms(3) by (simp add: fgets_def)
qed

theorem fgets_overrun_witness:
  "fgets list_read [0, 0, 0] 3 (Some \<lparr>position = 0, fsize = 0, buffer = None, buffpos = 0, buffsize = 0, revbuf = EOF, fl = FILE_NBF, s_mutex = False, dev = [97, 98, 99]\<rparr>) = None"
  by (rule fgets_overrun) (auto simp: less_2_cases_iff)

end
