(* ===== verification/Scanning.thy ===== *)
theory Scanning
  imports Formatting_Rep
begin

text \<open>
  Formatted input from a string, \<open>libc/stdio/vsscanf.c\<close>. A position in the string is the rest of it, or \<^const>\<open>None\<close> behind the
  terminator, where nothing may be read. What is stored through the variable arguments is the list of the values in
  order. The conversion of floating point numbers, \<open>strtold\<close>, is a parameter.
\<close>

section \<open>Positions\<close>

type_synonym spos = "u8 list option"

definition peek :: "spos \<Rightarrow> u8 option" where
  "peek p = (case p of None \<Rightarrow> None | Some [] \<Rightarrow> Some 0 | Some (c # _) \<Rightarrow> Some c)"

definition advance :: "spos \<Rightarrow> spos" where
  "advance p = (case p of Some (_ # r) \<Rightarrow> Some r | _ \<Rightarrow> None)"

abbreviation (input) FLAGS_DEC :: u32 where "FLAGS_DEC \<equiv> 0x01"
abbreviation (input) FLAGS_HEX :: u32 where "FLAGS_HEX \<equiv> 0x02"
abbreviation (input) FLAGS_OCT :: u32 where "FLAGS_OCT \<equiv> 0x04"
abbreviation (input) FLAGS_UPPER :: u32 where "FLAGS_UPPER \<equiv> 0x10"
abbreviation (input) FLAGS_IGN :: u32 where "FLAGS_IGN \<equiv> 0x20"
abbreviation (input) FLAGS_LONG :: u32 where "FLAGS_LONG \<equiv> 0x40"
abbreviation (input) FLAGS_LLONG :: u32 where "FLAGS_LLONG \<equiv> 0x80"

section \<open>Conversions\<close>

fun scan_digits :: "u8 list \<Rightarrow> int \<Rightarrow> int \<Rightarrow> u32 \<Rightarrow> u32 \<times> u8 list" where
  "scan_digits [] width base v = (v, [])"
| "scan_digits (c # s) width base v = (
     if isbdigit c base then
       (let v = v * of_int base + of_int (digit_val c base) in if width - 1 = 0 then (v, s) else scan_digits s (width - 1) base v)
     else (v, c # s))"

definition scan_base :: "spos \<Rightarrow> int \<Rightarrow> u32 \<Rightarrow> (spos \<times> int \<times> int) option" where
  "scan_base p width flags = (
     if flags AND FLAGS_DEC \<noteq> 0 then Some (p, width, 10)
     else if flags AND FLAGS_HEX \<noteq> 0 then Some (p, width, 16)
     else if flags AND FLAGS_OCT \<noteq> 0 then Some (p, width, 8)
     else do {
       c \<leftarrow> peek p;
       if c = 48 then do {
         let p = advance p;
         c \<leftarrow> peek p;
         if c = 120 \<or> c = 88 then Some (advance p, width - 2, 16) else Some (p, width - 1, 8)
       }
       else Some (p, width, 10)
     })"

definition scan_uint :: "spos \<Rightarrow> int \<Rightarrow> u32 \<Rightarrow> (u32 \<times> spos) option" where
  "scan_uint p width flags = do {
     (p, width, base) \<leftarrow> scan_base p width flags;
     s \<leftarrow> p;
     let (v, s) = scan_digits s width base 0;
     Some (v, Some s)
   }"

definition scan_int :: "spos \<Rightarrow> int \<Rightarrow> u32 \<Rightarrow> (u32 \<times> spos) option" where
  "scan_int p width flags = do {
     c \<leftarrow> peek p;
     if c = 45 then do { (v, p) \<leftarrow> scan_uint (advance p) (width - 1) flags; Some (- v, p) }
     else scan_uint p (width - 1) flags
   }"

fun scan_str_count :: "u8 list \<Rightarrow> int \<Rightarrow> int \<Rightarrow> nat" where
  "scan_str_count s width count = (case s of
     [] \<Rightarrow> 0
   | c # s \<Rightarrow> if (width = - 1 \<or> count < width) \<and> \<not> isspace c then Suc (scan_str_count s width (count + 1)) else 0)"

text \<open>The block for the copy is freed by every caller.\<close>

definition scan_str :: "tmem \<Rightarrow> spos \<Rightarrow> int \<Rightarrow> (u8 list \<times> spos \<times> tmem) option" where
  "scan_str st p width = do {
     s \<leftarrow> p;
     let n = scan_str_count s width 0;
     let (ok, st) = tmalloc st;
     if \<not> ok then None else Some (take n s, Some (drop n s), st)
   }"

definition scan_char :: "spos \<Rightarrow> (u8 \<times> spos) option" where
  "scan_char p = do { c \<leftarrow> peek p; Some (c, advance p) }"

definition scan_space :: "spos \<Rightarrow> spos option" where
  "scan_space p = do { s \<leftarrow> p; Some (Some (dropWhile isspace s)) }"

section \<open>Formats\<close>

datatype sc_type = SC_INT | SC_UINT | SC_FLOAT | SC_STR | SC_CHAR

datatype 'f sval = SInt u32 | SStr "u8 list" | SChar u8 | SFloat 'f | SDouble 'f | SLong 'f

text \<open>The text of a conversion behind the percent sign: the ignore flag, the width and the length modifier.\<close>

definition scan_spec :: "u8 list \<Rightarrow> u32 \<times> int \<times> u8 list" where
  "scan_spec fmt = (
     let (flags, fmt) = (case fmt of c # r \<Rightarrow> if c = 42 then (FLAGS_IGN, r) else (0, fmt) | [] \<Rightarrow> (0, fmt));
         (width, fmt) = (if fmt \<noteq> [] \<and> isdigit (hd fmt) then (sint (atoi_v fmt), dropWhile isdigit fmt) else (- 1, fmt))
     in case fmt of
       c # r \<Rightarrow> if c = 108 then (flags OR FLAGS_LONG, width, r) else if c = 76 then (flags OR FLAGS_LLONG, width, r) else (flags, width, fmt)
     | [] \<Rightarrow> (flags, width, fmt))"

definition scan_type :: "u8 \<Rightarrow> (u32 \<times> sc_type) option" where
  "scan_type c = (
     if c = 100 then Some (FLAGS_DEC, SC_INT)
     else if c = 105 then Some (0, SC_INT)
     else if c = 88 then Some (FLAGS_UPPER OR FLAGS_HEX, SC_UINT)
     else if c = 120 then Some (FLAGS_HEX, SC_UINT)
     else if c = 111 then Some (FLAGS_OCT, SC_UINT)
     else if c = 117 then Some (FLAGS_DEC, SC_UINT)
     else if c = 115 then Some (0, SC_STR)
     else if c = 99 then Some (0, SC_CHAR)
     else if c = 102 then Some (0, SC_FLOAT)
     else None)"

definition scan_value :: "(u8 list \<Rightarrow> 'f \<times> u8 list) \<Rightarrow> tmem \<Rightarrow> sc_type \<Rightarrow> spos \<Rightarrow> int \<Rightarrow> u32 \<Rightarrow> ('f sval \<times> spos \<times> tmem) option" where
  "scan_value strtold st type p width flags = (case type of
     SC_INT \<Rightarrow> do { (v, p) \<leftarrow> scan_int p width flags; Some (SInt v, p, st) }
   | SC_UINT \<Rightarrow> do { (v, p) \<leftarrow> scan_uint p width flags; Some (SInt v, p, st) }
   | SC_FLOAT \<Rightarrow> do {
       s \<leftarrow> p;
       let (x, s) = strtold s;
       Some (if flags AND FLAGS_LONG \<noteq> 0 then SDouble x else if flags AND FLAGS_LLONG \<noteq> 0 then SLong x else SFloat x, Some s, st)
     }
   | SC_STR \<Rightarrow> do { (s, p, st) \<leftarrow> scan_str st p width; Some (SStr s, p, tfree st) }
   | SC_CHAR \<Rightarrow> do { (c, p) \<leftarrow> scan_char p; Some (SChar c, p, st) })"

partial_function (option) vsscanf_loop ::
    "(u8 list \<Rightarrow> 'f \<times> u8 list) \<Rightarrow> spos \<Rightarrow> u8 list \<Rightarrow> int \<Rightarrow> 'f sval list \<Rightarrow> tmem \<Rightarrow> (int \<times> 'f sval list \<times> tmem) option" where
  "vsscanf_loop strtold p fmt count vals st = (case fmt of
     [] \<Rightarrow> Some (count, vals, st)
   | f # fmt' \<Rightarrow>
       if f = 32 then do { p \<leftarrow> scan_space p; vsscanf_loop strtold p fmt' count vals st }
       else if f = 37 then do {
         let (flags, width, fmt) = scan_spec fmt';
         case fmt of [] \<Rightarrow> Some (count, vals, st)
         | c # fmt \<Rightarrow> (case scan_type c of
             None \<Rightarrow> Some (count, vals, st)
           | Some (fl, type) \<Rightarrow> do {
               (v, p, st) \<leftarrow> scan_value strtold st type p width (flags OR fl);
               vsscanf_loop strtold p fmt (count + 1) (if flags AND FLAGS_IGN \<noteq> 0 then vals else vals @ [v]) st
             })
       }
       else do {
         c \<leftarrow> peek p;
         if c = f then vsscanf_loop strtold (advance p) fmt' count vals st else Some (count, vals, st)
       })"

definition vsscanf :: "(u8 list \<Rightarrow> 'f \<times> u8 list) \<Rightarrow> u8 list \<Rightarrow> u8 list \<Rightarrow> tmem \<Rightarrow> (int \<times> 'f sval list \<times> tmem) option" where
  "vsscanf strtold str fmt st = vsscanf_loop strtold (Some str) fmt 0 [] st"

definition sscanf :: "(u8 list \<Rightarrow> 'f \<times> u8 list) \<Rightarrow> u8 list \<Rightarrow> u8 list \<Rightarrow> tmem \<Rightarrow> (int \<times> 'f sval list \<times> tmem) option" where
  "sscanf strtold str fmt st = vsscanf strtold str fmt st"

end
