(* ===== verification/Scanning_Rep.thy ===== *)
theory Scanning_Rep
  imports Scanning
begin

text \<open>
  The proofs about \<open>Scanning\<close>: what the formats of \<open>Formatting\<close> print is read back, and how the width of a conversion is counted.
\<close>

section \<open>Digits\<close>

abbreviation (input) stops :: "u8 list \<Rightarrow> bool" where
  "stops r \<equiv> r = [] \<or> \<not> isbdigit (hd r) 10"

lemma isbdigit_base: "isbdigit c base = isbdigit c 10"
  by (simp add: isbdigit_def)

lemma scan_digits_stop: "stops r \<Longrightarrow> scan_digits r width base v = (v, r)"
  by (cases r) (auto simp: isbdigit_base [of _ base])

lemma scan_digits_ok:
  assumes "width \<le> 0" and "\<forall>d \<in> set ds. d < b" and "b \<le> 16" and "stops r"
  shows "scan_digits (map (dch u) ds @ r) width (int b) v = (foldl (\<lambda>v d. v * of_nat b + of_nat d) v ds, r)"
  using assms
proof (induction ds arbitrary: width v)
  case Nil
  then show ?case by (simp only: list.map append_Nil foldl_Nil scan_digits_stop)
next
  case (Cons d ds)
  then have "d < 16" "d < b" by auto
  then show ?case using Cons dch_facts(1) [of d u] dch_facts(5) [of d b u] by simp
qed

lemma foldl_rev_digs: "2 \<le> b \<Longrightarrow> foldl (\<lambda>v d. v * of_nat b + of_nat d) 0 (rev (digs b n)) = (of_nat n :: u32)"
proof -
  have "foldr (\<lambda>d v. v * of_nat b + of_nat d) ds 0 = (of_nat (foldr (\<lambda>d v. v * b + d) ds 0) :: u32)" for ds by (induction ds) simp_all
  moreover assume "2 \<le> b"
  ultimately show ?thesis using digs_value [of b n] by (simp add: foldl_conv_foldr)
qed

lemma scan_dec: "width < 0 \<Longrightarrow> stops r \<Longrightarrow> scan_digits (dec n @ r) width 10 0 = (of_nat n, r)"
  using scan_digits_ok [of width "rev (digs 10 n)" 10 r False 0] scan_digits_ok [of width "[0]" 10 r False 0] digs_less [of _ 10 n]
    foldl_rev_digs [of 10 n]
  by (auto simp: dec_def rev_map dch_def)

lemma scan_uint_dec: "width < 0 \<Longrightarrow> stops r \<Longrightarrow> scan_uint (Some (dec n @ r)) width 1 = Some (of_nat n, Some r)"
  by (simp add: scan_uint_def scan_base_def scan_dec)

lemma scan_int_sdec:
  assumes "stops r"
  shows "scan_int (Some (sdec v @ r)) (- 1) 1 = Some (v, Some r)"
proof (cases "sint v < 0")
  case True
  then show ?thesis using scan_uint_dec [of "- 2" r "unat (- v)"] assms by (simp add: scan_int_def sdec_def peek_def advance_def)
next
  case False
  obtain c s where c: "dec (unat v) = c # s" "c \<noteq> 45" using dec_nonempty [of "unat v"] dec_digits [of "unat v"] by (cases "dec (unat v)") auto
  then show ?thesis using scan_uint_dec [of "- 2" r "unat v"] assms False by (simp add: scan_int_def sdec_def peek_def)
qed

section \<open>Printing and reading\<close>

text \<open>The formats with decimal conversions only, each followed by a character that cannot be part of a number.\<close>

fun scannable :: "u8 list \<Rightarrow> bool" where
  "scannable [] = True"
| "scannable (c # fmt) = (
     if c = 37 then (case fmt of d # fmt \<Rightarrow> (d = 100 \<or> d = 117) \<and> (stops fmt \<and> (fmt = [] \<or> hd fmt \<noteq> 37)) \<and> scannable fmt | [] \<Rightarrow> False)
     else c \<noteq> 32 \<and> scannable fmt)"

lemma plain_stops: "scannable fmt \<Longrightarrow> stops fmt \<Longrightarrow> fmt = [] \<or> hd fmt \<noteq> 37 \<Longrightarrow> plain_text fmt args = Some s \<Longrightarrow> stops s"
  by (cases fmt) auto

lemma scan_loop_ok:
  assumes "scannable fmt" and "plain_text fmt (map VInt vs) = Some s" and "length vs = count_list fmt 37"
  shows "vsscanf_loop strtold (Some s) fmt n vals st = Some (n + int (length vs), vals @ map SInt vs, st)"
  using assms
proof (induction "length fmt" arbitrary: fmt vs s n vals rule: less_induct)
  case less
  show ?case
  proof (cases fmt)
    case Nil
    then show ?thesis using less.prems by (subst vsscanf_loop.simps) simp
  next
    case (Cons c cs)
    show ?thesis
    proof (cases "c = 37")
      case False
      then obtain s' where s': "plain_text cs (map VInt vs) = Some s'" "s = c # s'" using less.prems(2) Cons by auto
      have "vsscanf_loop strtold (Some s) fmt n vals st = vsscanf_loop strtold (Some s') cs n vals st"
        using less.prems(1) Cons False s'(2) by (subst vsscanf_loop.simps) (simp add: peek_def advance_def)
      then show ?thesis using less.hyps [OF _ _ s'(1)] less.prems(1,3) Cons False by simp
    next
      case True
      then obtain d fmt' v ws where c: "cs = d # fmt'" "vs = v # ws" "d = 100 \<or> d = 117"
        using less.prems Cons by (auto split: list.splits)
      define x where "x = (if d = 100 then sdec v else dec (unat v))"
      obtain s' where s': "plain_text fmt' (map VInt ws) = Some s'" "s = x @ s'"
        using less.prems(2) True c Cons by (auto simp: x_def split: if_splits)
      have st: "stops s'" using plain_stops [OF _ _ _ s'(1)] less.prems(1) Cons True c(1) by auto
      have spec: "scan_spec (d # fmt') = (0, - 1, d # fmt')"
        using c(3) by (auto simp: scan_spec_def isdigit_def ctype_is_def ctype_tbl_def)
      have "vsscanf_loop strtold (Some s) fmt n vals st = vsscanf_loop strtold (Some s') fmt' (n + 1) (vals @ [SInt v]) st"
        using c Cons True s'(2) scan_int_sdec [OF st, of v] scan_uint_dec [of "- 1" s' "unat v"] st
        by (subst vsscanf_loop.simps) (auto simp: spec scan_type_def scan_value_def x_def)
      then show ?thesis using less.hyps [OF _ _ s'(1), of "n + 1" "vals @ [SInt v]"] less.prems(1,3) Cons True c by auto
    qed
  qed
qed



section \<open>Widths\<close>

lemma scan_digits_width:
  assumes "\<forall>d \<in> set ds. d < 10"
  shows "0 < w \<Longrightarrow> w \<le> length ds \<Longrightarrow>
    scan_digits (map (dch False) ds @ r) (int w) 10 v = (foldl (\<lambda>v d. v * 10 + of_nat d) v (take w ds), map (dch False) (drop w ds) @ r)"
  using assms
proof (induction ds arbitrary: w v)
  case (Cons d ds)
  then have d: "d < 16" "d < 10" by auto
  obtain k where k: "w = Suc k" using Cons.prems(1) by (cases w) auto
  show ?case
  proof (cases "k = 0")
    case True
    then show ?thesis using k d dch_facts(1) [OF d(1)] dch_facts(5) [OF d(1), of 10 False] by simp
  next
    case False
    then show ?thesis using Cons k d dch_facts(1) [OF d(1)] dch_facts(5) [OF d(1), of 10 False] by simp
  qed
qed simp

text \<open>
  The width of \<open>%d\<close> is counted wrongly: on a number without a sign, a conversion of width \<open>w\<close> reads only \<open>w - 1\<close> digits, because
  the place of the sign is always subtracted, and a conversion of width 1 reads all digits of the number.\<close>

theorem scan_int_width:
  assumes "\<forall>d \<in> set ds. d < 10" and "1 < w" and "w \<le> length ds" and "stops r"
  shows "scan_int (Some (map (dch False) ds @ r)) (int w) 1 =
      Some (foldl (\<lambda>v d. v * 10 + of_nat d) 0 (take (w - 1) ds), Some (map (dch False) (drop (w - 1) ds) @ r)) \<and>
    scan_int (Some (map (dch False) ds @ r)) 1 1 = Some (foldl (\<lambda>v d. v * 10 + of_nat d) 0 ds, Some r)"
proof -
  obtain d es where ds: "ds = d # es" "d < 10" using assms(1-3) by (cases ds) auto
  then have p: "peek (Some (map (dch False) ds @ r)) = Some (dch False d)" "dch False d \<noteq> 45" using dch_digit [of d False] by (simp_all add: peek_def)
  have "scan_int (Some (map (dch False) ds @ r)) n 1 = scan_uint (Some (map (dch False) ds @ r)) (n - 1) 1" for n
    using p by (simp add: scan_int_def)
  moreover have "scan_digits (map (dch False) ds @ r) (int (w - 1)) 10 0 =
      (foldl (\<lambda>v d. v * 10 + of_nat d) 0 (take (w - 1) ds), map (dch False) (drop (w - 1) ds) @ r)"
    using scan_digits_width [OF assms(1), of "w - 1"] assms(2,3) by simp
  moreover have "scan_digits (map (dch False) ds @ r) 0 10 0 = (foldl (\<lambda>v d. v * 10 + of_nat d) 0 ds, r)"
    using scan_digits_ok [of 0 ds 10 r False 0] assms(1,4) by simp
  ultimately show ?thesis using assms(2) by (simp add: scan_uint_def scan_base_def of_nat_diff)
qed

theorem scan_int_width_witness:
  "scan_int (Some [49, 50, 51]) 2 1 = Some (1, Some [50, 51]) \<and> scan_int (Some [49, 50, 51]) 1 1 = Some (123, Some [])"
  using scan_int_width [of "[1, 2, 3]" 2 "[]"] by (simp add: dch_def)

end
