(* ===== verification/Error_Strings.thy ===== *)
theory Error_Strings
  imports Lookup_Table_Rep
begin

text \<open>
  Errors as strings, \<open>libc/errno/errorstr.c\<close>: drivers answer a failed call with a string that begins with an
  exclamation mark, and the caller turns it back into the number of the error. The lookup table is built at the
  first use. The variable \<open>errno\<close> of the thread is an argument.
\<close>

definition cs :: "string \<Rightarrow> u8 list" where
  "cs s = map of_char s"

lemma cs_simps [simp]: "cs [] = []" "cs (c # s) = of_char c # cs s"
  by (simp_all add: cs_def)

abbreviation (input) ENONE :: int where "ENONE \<equiv> 0"
abbreviation (input) EACCES :: int where "EACCES \<equiv> 2"
abbreviation (input) EINVAL :: int where "EINVAL \<equiv> 27"
abbreviation (input) ENOENT :: int where "ENOENT \<equiv> 43"
abbreviation (input) ENOSYS :: int where "ENOSYS \<equiv> 51"
abbreviation (input) EXDEV :: int where "EXDEV \<equiv> 75"
abbreviation (input) EUNK :: int where "EUNK \<equiv> 76"

text \<open>The strings of the errors from 1 on; at 0 the array has a null pointer.\<close>

definition errorstr_names :: "string list" where
  "errorstr_names = [
    ''! toobig'', ''! denied'', ''! addrinuse'', ''! addrnotavail'', ''! afnosupport'', ''! again'', ''! already'',
    ''! badfd'', ''! badmsg'', ''! busy'', ''! child'', ''! connaborted'', ''! connrefused'', ''! connreset'',
    ''! deadlock'', ''! destaddrreq'', ''! domain'', ''! dquot'', ''! exist'', ''! fault'', ''! filetoobig'',
    ''! hostunreach'', ''! idremoved'', ''! ilseq'', ''! inprogress'', ''! interrupted'', ''! arg'', ''! io'',
    ''! isconn'', ''! isdir'', ''! loop'', ''! mfile'', ''! mlink'', ''! msgsize'', ''! multihop'',
    ''! nametoolong'', ''! netdown'', ''! netreset'', ''! netunreach'', ''! nfile'', ''! buffer'', ''! nodev'',
    ''! nfound'', ''! noexec'', ''! nolock'', ''! nolink'', ''! nomem'', ''! nomsg'', ''! noprotoopt'',
    ''! nospace'', ''! nosys'', ''! notconn'', ''! notdir'', ''! notempty'', ''! notrecoverable'', ''! notsock'',
    ''! notsupported'', ''! control'', ''! address'', ''! overflow'', ''! ownerdead'', ''! permit'', ''! pipe'',
    ''! protocol'', ''! protonosupport'', ''! prototype'', ''! range'', ''! readonly'', ''! seek'', ''! process'',
    ''! stale'', ''! timedout'', ''! txtbusy'', ''! type'', ''! exdev'']"

definition errorstr_table :: "u8 list list" where
  "errorstr_table = map cs errorstr_names"

definition errorstr :: "tmem \<Rightarrow> int \<Rightarrow> int \<Rightarrow> (u8 list option \<times> int \<times> tmem) option" where
  "errorstr st errno errnum = (
     if errnum > 0 \<and> errnum < EUNK then do {
       (r, st) \<leftarrow> strdup st (Some (errorstr_table ! nat (errnum - 1)));
       Some (r, errno, st)
     }
     else Some (None, EINVAL, st))"

definition iserror :: "u8 list option \<Rightarrow> bool" where
  "iserror error_str = (case error_str of None \<Rightarrow> True | Some s \<Rightarrow> (case s of a # b # _ \<Rightarrow> a = 33 \<and> b = 32 | _ \<Rightarrow> False))"

definition geterror :: "s_table option \<Rightarrow> tmem \<Rightarrow> u8 list option \<Rightarrow> (u32 \<times> s_table option \<times> tmem) option" where
  "geterror lookup st error_str = do {
     (lookup, st) \<leftarrow> (case lookup of Some _ \<Rightarrow> Some (lookup, st)
       | None \<Rightarrow> for_list (\<lambda>errnum (lookup, st). s_table_set st lookup (Some (errorstr_table ! (errnum - 1))) (of_nat errnum))
           [1..<76] (None, st));
     case error_str of
       None \<Rightarrow> Some (76, lookup, st)
     | Some s \<Rightarrow>
         if \<not> iserror (Some s) then Some (0, lookup, st)
         else do {
           errnum \<leftarrow> s_table_get lookup (Some s);
           Some (if errnum = 0 then 76 else errnum, lookup, st)
         }
   }"

section \<open>The round trip\<close>

definition error_map :: "u8 list \<Rightarrow> ptr" where
  "error_map s = (case map_of (zip errorstr_table (map of_nat [1..<76])) s of None \<Rightarrow> 0 | Some e \<Rightarrow> e)"

lemma of_char_u8: "(of_char c = (of_char d :: u8)) \<longleftrightarrow> c = d"
proof -
  have "unat (of_nat (of_char c) :: u8) = of_char c" for c
    using of_char_mod_256 [of c, where ?'a = nat] by (simp only: unat_of_nat) simp
  then have "unat (of_char c :: u8) = of_char c" for c by (simp only: of_nat_of_char)
  then show ?thesis by (metis of_char_eq_iff)
qed

lemma cs_inj: "cs s = cs t \<longleftrightarrow> s = t"
  by (simp add: cs_def inj_on_def of_char_u8 inj_map_eq_map)

lemma errorstr_names_ok: "length errorstr_names = 75" "distinct errorstr_names" "\<forall>s \<in> set errorstr_names. take 2 s = ''! ''"
  by code_simp+

lemma errorstr_table_ok: "length errorstr_table = 75" "distinct errorstr_table"
  using errorstr_names_ok(1,2) by (simp_all add: errorstr_table_def distinct_map inj_on_def cs_inj)

lemma errorstr_table_iserror:
  assumes "s \<in> set errorstr_table"
  shows "iserror (Some s)"
proof -
  obtain t where t: "s = cs t" "take 2 t = ''! ''" using assms errorstr_names_ok(3) by (auto simp: errorstr_table_def)
  then obtain r where "t = ''! '' @ r" by (metis append_take_drop_id)
  then show ?thesis using t(1) by (simp add: iserror_def)
qed

definition error_list :: "(u8 list \<times> u32) list" where
  "error_list = map (\<lambda>e. (errorstr_table ! (e - 1), of_nat e)) [1..<76]"

lemma error_list_ok: "distinct (map fst error_list)"
  "1 \<le> e \<Longrightarrow> e < 76 \<Longrightarrow> map_of (rev error_list) (errorstr_table ! (e - 1)) = Some (of_nat e)"
  "s \<notin> set errorstr_table \<Longrightarrow> map_of (rev error_list) s = None"
proof -
  show d: "distinct (map fst error_list)"
    using errorstr_table_ok by (auto simp: error_list_def distinct_map inj_on_def nth_eq_iff_index_eq)
  show "map_of (rev error_list) (errorstr_table ! (e - 1)) = Some (of_nat e)" if "1 \<le> e" "e < 76"
    using that d by (auto simp: error_list_def rev_map [symmetric] intro!: map_of_is_SomeI)
  show "map_of (rev error_list) s = None" if "s \<notin> set errorstr_table"
    using that errorstr_table_ok(1) by (fastforce simp: error_list_def map_of_eq_None_iff)
qed

lemma geterror_init:
  assumes "outcomes st = []"
  shows "\<exists>t st'. for_list (\<lambda>errnum (lookup, st). s_table_set st lookup (Some (errorstr_table ! (errnum - 1))) (of_nat errnum))
      [1..<76] (None, st) = Some (t, st') \<and> t \<noteq> None \<and>
    (\<forall>f. s_table_get t (Some f) = Some (case map_of (rev error_list) f of None \<Rightarrow> 0 | Some d \<Rightarrow> d))"
proof -
  let ?f = "\<lambda>(k, v) s. (case s of (table, st) \<Rightarrow> \<lambda>f d. s_table_set st table (Some f) d) k v"
  have e: "for_list (\<lambda>errnum (lookup, st). s_table_set st lookup (Some (errorstr_table ! (errnum - 1))) (of_nat errnum)) xs s =
      for_list ?f (map (\<lambda>e. (errorstr_table ! (e - 1), of_nat e)) xs) s" for xs s
    by (induction xs arbitrary: s) (auto split: prod.split)
  obtain t st' where 1: "for_list ?f error_list (None, st) = Some (t, st')"
    and 2: "\<forall>f. s_table_get t (Some f) = Some (case map_of (rev error_list) f of None \<Rightarrow> 0 | Some d \<Rightarrow> d)"
    using tbl.lookups [OF empty_rep [OF assms], of error_list] by (auto simp: error_list_def)
  from 2 [rule_format, of "errorstr_table ! 0"] error_list_ok(2) [of 1] have "t \<noteq> None" by (cases t) (simp_all add: s_table_get_def)
  then show ?thesis using 1 2 unfolding e error_list_def by blast
qed

text \<open>
  C26. The number of an error survives the way through its string: for every known error, \<open>errorstr\<close> returns a string
  from which \<open>geterror\<close>, which builds its table at the first use, gives the number back; a string that looks
  like an error and is none of the known ones is the unknown error, and any other string is no error.\<close>

theorem geterror_errorstr:
  assumes "outcomes st = []" and "1 \<le> e" and "e < 76"
  shows "\<exists>s st' lookup st''. errorstr st errno e = Some (Some s, errno, st') \<and> geterror None st' (Some s) = Some (of_int e, lookup, st'') \<and>
    (\<forall>t. t \<notin> set errorstr_table \<longrightarrow> geterror lookup st'' (Some t) = Some (if iserror (Some t) then 76 else 0, lookup, st''))"
proof -
  let ?s = "errorstr_table ! (nat e - 1)" and ?st = "st\<lparr>live := live st + 1\<rparr>"
  have n: "1 \<le> nat e" "nat e < 76" using assms(2,3) by simp_all
  have s: "errorstr st errno e = Some (Some ?s, errno, ?st)"
    using assms by (simp add: errorstr_def strdup_def tmalloc_ok nat_diff_distrib)
  have mem: "?s \<in> set errorstr_table" using errorstr_table_ok(1) n by (intro nth_mem) simp
  obtain t st'' where 1: "for_list (\<lambda>errnum (lookup, st). s_table_set st lookup (Some (errorstr_table ! (errnum - 1))) (of_nat errnum))
      [1..<76] (None, ?st) = Some (t, st'')" "t \<noteq> None"
    and 2: "\<forall>f. s_table_get t (Some f) = Some (case map_of (rev error_list) f of None \<Rightarrow> 0 | Some d \<Rightarrow> d)"
    using geterror_init [of ?st] assms(1) by auto
  have "unat (of_nat (nat e) :: u32) \<noteq> 0" using n by (simp only: unat_of_nat) simp
  then have nz: "(of_int e :: u32) \<noteq> 0" using assms(2) by auto
  have "s_table_get t (Some ?s) = Some (of_int e)" using 2 error_list_ok(2) [OF n] assms(2) by simp
  then have "geterror None ?st (Some ?s) = Some (of_int e, t, st'')"
    using 1 nz errorstr_table_iserror [OF mem] assms(2) by (simp add: geterror_def del: upt_rec_numeral)
  moreover have "geterror t st'' (Some x) = Some (if iserror (Some x) then 76 else 0, t, st'')" if "x \<notin> set errorstr_table" for x
    using 1(2) 2 error_list_ok(3) [OF that] by (auto simp: geterror_def)
  ultimately show ?thesis using s by blast
qed

theorem geterror_errorstr_witness:
  "\<exists>s st' lookup st''. errorstr \<lparr>outcomes = [], live = 0\<rparr> 0 43 = Some (Some s, 0, st') \<and> geterror None st' (Some s) = Some (43, lookup, st'')"
  using geterror_errorstr [of "\<lparr>outcomes = [], live = 0\<rparr>" 43 0] by auto

end
