(* ===== verification/Driver_Core.thy ===== *)
theory Driver_Core
  imports Objects_Rep Paths_Rep Messages_Rep Error_Strings Scanning
begin

text \<open>
  The classes of objects of the driver library, \<open>librdi/class_core.c\<close>, \<open>class_dir.c\<close> and \<open>class_link.c\<close>, and calls that are addressed to the
  process, \<open>rcall_call\<close> of \<open>libc/rhombus/rcall.c\<close>. The functions that objects have as calls are numbered, and so are the string constants. The state extends that of
  \<open>Objects\<close> by what the fields of objects point to: strings, the nodes of the list of a directory and file sizes. The addresses that \<open>malloc\<close> returns are
  functions of what is in use.
\<close>

section \<open>State\<close>

record dirent =
  de_next :: ptr
  de_prev :: ptr
  de_name :: "u8 list option"

record driver = rdi +
  texts :: "ptr \<Rightarrow> u8 list option"
  dirents :: "ptr \<Rightarrow> dirent option"
  offs :: "ptr \<Rightarrow> u64 option"
  rtab_log :: "(u32 \<times> u64) list"
  rcall_table :: "s_table option"
  class_core :: ptr
  class_dir :: ptr
  class_link :: ptr
  class_file :: ptr
  cons_file_hook :: ptr
  cons_dir_hook :: ptr
  cons_link_hook :: ptr

record drv_env =
  v_pid :: u32
  v_user :: "u32 \<Rightarrow> u32"
  v_pname :: "u8 list"
  v_obj :: "(ptr \<Rightarrow> robject option) \<Rightarrow> ptr"
  v_text :: "(ptr \<Rightarrow> u8 list option) \<Rightarrow> ptr"
  v_node :: "(ptr \<Rightarrow> dirent option) \<Rightarrow> ptr"

type_synonym hook_fn = "driver \<Rightarrow> ptr \<Rightarrow> u64 \<Rightarrow> u8 list list \<Rightarrow> (u8 list option \<times> driver) option"
type_synonym hooks_fn = "ptr \<Rightarrow> hook_fn"

abbreviation (input) STAT_OPEN :: u32 where "STAT_OPEN \<equiv> 0x01"
abbreviation (input) STAT_READER :: u32 where "STAT_READER \<equiv> 0x02"
abbreviation (input) STAT_WRITER :: u32 where "STAT_WRITER \<equiv> 0x04"
abbreviation (input) STAT_ADMIN :: u32 where "STAT_ADMIN \<equiv> 0x08"

abbreviation (input) H_type :: ptr where "H_type \<equiv> 1"
abbreviation (input) H_ping :: ptr where "H_ping \<equiv> 2"
abbreviation (input) H_name :: ptr where "H_name \<equiv> 3"
abbreviation (input) H_open :: ptr where "H_open \<equiv> 4"
abbreviation (input) H_close :: ptr where "H_close \<equiv> 5"
abbreviation (input) H_stat :: ptr where "H_stat \<equiv> 6"
abbreviation (input) H_find :: ptr where "H_find \<equiv> 7"
abbreviation (input) H_get_access :: ptr where "H_get_access \<equiv> 8"
abbreviation (input) H_set_access :: ptr where "H_set_access \<equiv> 9"
abbreviation (input) H_dir_find :: ptr where "H_dir_find \<equiv> 10"
abbreviation (input) H_list :: ptr where "H_list \<equiv> 11"
abbreviation (input) H_link :: ptr where "H_link \<equiv> 12"
abbreviation (input) H_unlink :: ptr where "H_unlink \<equiv> 13"
abbreviation (input) H_link_find :: ptr where "H_link_find \<equiv> 14"
abbreviation (input) H_set_link :: ptr where "H_set_link \<equiv> 15"
abbreviation (input) H_get_link :: ptr where "H_get_link \<equiv> 16"
abbreviation (input) H_size :: ptr where "H_size \<equiv> 17"
abbreviation (input) H_reset :: ptr where "H_reset \<equiv> 18"
abbreviation (input) H_cons :: ptr where "H_cons \<equiv> 19"

text \<open>The string constants, by their addresses, and the string at an address.\<close>

definition literals :: "ptr \<Rightarrow> u8 list option" where
  "literals = [0x21 \<mapsto> cs ''event basic'', 0x22 \<mapsto> cs ''RDI-class-core'', 0x23 \<mapsto> cs ''dir'', 0x24 \<mapsto> cs ''RDI-class-dir'',
     0x25 \<mapsto> cs ''link'', 0x26 \<mapsto> cs ''RDI-class-link'', 0x27 \<mapsto> cs ''file'', 0x28 \<mapsto> cs ''RDI-class-file'']"

definition text_of :: "driver \<Rightarrow> ptr \<Rightarrow> u8 list option" where
  "text_of s p = (case literals p of Some t \<Rightarrow> Some t | None \<Rightarrow> texts s p)"

section \<open>Replies\<close>

definition ret_text :: "driver \<Rightarrow> u8 list \<Rightarrow> (u8 list option \<times> driver) option" where
  "ret_text s t = do { (d, st) \<leftarrow> strdup (mem_of s) (Some t); Some (d, set_mem s st) }"

definition ret_error :: "driver \<Rightarrow> int \<Rightarrow> (u8 list option \<times> driver) option" where
  "ret_error s e = do { (d, _, st) \<leftarrow> errorstr (mem_of s) 0 e; Some (d, set_mem s st) }"

definition ret_rp :: "drv_env \<Rightarrow> driver \<Rightarrow> u32 \<Rightarrow> (u8 list option \<times> driver) option" where
  "ret_rp env s index = do { (d, st) \<leftarrow> rtoa (RP_CONS (v_pid env) index) (mem_of s); Some (d, set_mem s st) }"

definition ret_format :: "driver \<Rightarrow> u8 list \<Rightarrow> varg list \<Rightarrow> (u8 list option \<times> driver) option" where
  "ret_format s fmt args = do { (d, st) \<leftarrow> vsaprintf (\<lambda>_ _ _ _. None) rtoa fmt args (mem_of s); Some (d, set_mem s st) }"

section \<open>The core class\<close>

definition core_type :: "hooks_fn \<Rightarrow> hook_fn" where
  "core_type hooks s self src argv = do {
     ob \<leftarrow> o_objs s self;
     type \<leftarrow> robject_data s self (Some (cs ''type''));
     (parent_type, s) \<leftarrow> robject_call hooks s (o_parent ob) src (cs ''type'');
     case parent_type of
       Some pt \<Rightarrow>
         if type \<noteq> 0 then do {
           t \<leftarrow> text_of s type;
           let (final, st) = strvcat (mem_of s) [Some t, Some [32], Some pt, None];
           Some (final, set_mem s (tfree st))
         }
         else Some (Some pt, s)
     | None \<Rightarrow>
         if type \<noteq> 0 then do { t \<leftarrow> text_of s type; ret_text s t }
         else Some (None, s)
   }"

definition core_ping :: hook_fn where
  "core_ping s self src argv = ret_text s (cs ''T'')"

definition core_find :: "drv_env \<Rightarrow> hook_fn" where
  "core_find env s self src argv = do { ob \<leftarrow> o_objs s self; ret_rp env s (o_index ob) }"

definition core_open :: "drv_env \<Rightarrow> hook_fn" where
  "core_open env s self src argv = (
     if length argv = 2 \<or> length argv = 1 then do {
       let status = (if length argv = 2 then atoi_v (argv ! 1) else STAT_OPEN);
       (ok, s) \<leftarrow> robject_check_access (v_user env) s self src (status AND NOT STAT_OPEN);
       if \<not> ok then ret_error s EACCES
       else do {
         ob \<leftarrow> o_objs s self;
         let s = (if status \<noteq> 0 then s\<lparr>rtab_log := rtab_log s @ [(RP_PID src, RP_CONS (v_pid env) (o_index ob))]\<rparr> else s);
         s \<leftarrow> robject_open s self src status;
         ret_text s (cs ''T'')
       }
     }
     else ret_error s EINVAL)"

definition core_close :: hook_fn where
  "core_close s self src argv = (
     if length argv = 1 then do { s \<leftarrow> robject_close s self src; ret_text s (cs ''T'') }
     else ret_error s EINVAL)"

definition core_stat :: hook_fn where
  "core_stat s self src argv = do { (x, s) \<leftarrow> robject_stat s self src; ret_format s (cs ''%d'') [VInt x] }"

definition core_name :: "drv_env \<Rightarrow> hook_fn" where
  "core_name env s self src argv = do {
     ob \<leftarrow> o_objs s self;
     name \<leftarrow> robject_data s self (Some (cs ''name''));
     (name, s) \<leftarrow> (if name = 0
       then if o_index ob \<noteq> 0 then ret_format s (cs ''%u'') [VInt (o_index ob)] else ret_format s (cs ''abstract-%u'') [VInt self]
       else do { t \<leftarrow> text_of s name; ret_text s t });
     (proc, st) \<leftarrow> strdup (mem_of s) (Some (v_pname env));
     let (full, st) = strvcat st [Some (cs ''[''), proc, Some (cs '':''), name, Some (cs '']''), None];
     Some (full, set_mem s (tfree_string name (tfree_string proc st)))
   }"

definition core_get_access :: "drv_env \<Rightarrow> hook_fn" where
  "core_get_access env s self src argv = (
     if length argv = 1 \<or> length argv = 2 then do {
       let user = (if length argv = 1 then v_user env (RP_PID src) else atoi_v (argv ! 1));
       (bitmap, s) \<leftarrow> robject_get_access (v_user env) s self (ucast user);
       ret_format s (cs ''%X'') [VInt bitmap]
     }
     else ret_error s EINVAL)"

text \<open>The number that \<open>sscanf\<close> stores for \<open>%X\<close>.\<close>

definition scan_hex :: "u8 list \<Rightarrow> tmem \<Rightarrow> (u32 \<times> tmem) option" where
  "scan_hex str st = do {
     (n, vals, st) \<leftarrow> sscanf (\<lambda>s. ((), s)) str (cs ''%X'') st;
     case vals of SInt v # _ \<Rightarrow> Some (v, st) | _ \<Rightarrow> None
   }"

definition core_set_access :: "drv_env \<Rightarrow> hook_fn" where
  "core_set_access env s self src argv = (
     if length argv = 2 \<or> length argv = 3 then do {
       let user = (if length argv = 2 then v_user env (RP_PID src) else atoi_v (argv ! 1));
       (bitmap, st) \<leftarrow> scan_hex (argv ! (length argv - 1)) (mem_of s);
       s \<leftarrow> robject_set_access (v_user env) (set_mem s st) self (ucast user) bitmap;
       ret_text s (cs ''T'')
     }
     else ret_error s EINVAL)"

section \<open>The class of directories\<close>

text \<open>The object a path leads to, and the rest of the path behind a symbolic link.\<close>

partial_function (option) dir_walk ::
    "hooks_fn \<Rightarrow> driver \<Rightarrow> ptr \<Rightarrow> path option \<Rightarrow> (ptr \<times> u8 list option \<times> driver) option" where
  "dir_walk hooks s root path = (if root = 0 then Some (0, None, s) else do {
     (name, path, st) \<leftarrow> path_next (mem_of s) path;
     let s = set_mem s st;
     case name of
       None \<Rightarrow> Some (root, None, set_mem s (if path = None then mem_of s else tfree (mem_of s)))
     | Some name \<Rightarrow> do {
         (link, s) \<leftarrow> robject_check_type hooks s root (cs ''link'');
         if link \<noteq> 0 then do {
           p \<leftarrow> path;
           Some (root, path_tail (snd (path_prev p)), set_mem s (tfree (mem_of s)))
         }
         else do {
           let (look, st) = strvcat (mem_of s) [Some (cs ''dirent-''), Some name, None];
           next \<leftarrow> robject_data s root look;
           dir_walk hooks (set_mem s (tfree_string look st)) next path
         }
       }
   })"

definition dir_find_path :: "hooks_fn \<Rightarrow> driver \<Rightarrow> ptr \<Rightarrow> u8 list option \<Rightarrow> (ptr \<times> u8 list option \<times> driver) option" where
  "dir_find_path hooks s root path_str = (
     let (path, st) = path_cons (mem_of s) path_str in dir_walk hooks (set_mem s st) root path)"

definition dir_find :: "hooks_fn \<Rightarrow> drv_env \<Rightarrow> hook_fn" where
  "dir_find hooks env s self src argv = (
     if length argv \<le> 1 then ret_error s EINVAL
     else if length argv \<noteq> 2 \<and> argv ! 1 \<noteq> cs ''-L'' then ret_text s (cs ''! arg'')
     else do {
       let link = (length argv \<noteq> 2);
       let path = (if link then argv ! 2 else argv ! 1);
       (file, tail, s) \<leftarrow> dir_find_path hooks s self (Some path);
       if file = 0 then ret_error s ENOENT
       else do {
         (is_link, s) \<leftarrow> robject_check_type hooks s file (cs ''link'');
         if is_link \<noteq> 0 \<and> \<not> (tail = None \<and> link) then do {
           l \<leftarrow> robject_data s file (Some (cs ''link''));
           t \<leftarrow> (if l = 0 then Some None else map_option Some (text_of s l));
           ret_format s (cs ''>> %s/%s'') [VStr t, VStr (Some (case tail of None \<Rightarrow> [] | Some t \<Rightarrow> t))]
         }
         else do { ob \<leftarrow> o_objs s file; ret_rp env s (o_index ob) }
       }
     })"

partial_function (option) dir_list_loop :: "driver \<Rightarrow> ptr \<Rightarrow> u8 list option \<Rightarrow> (u8 list option \<times> driver) option" where
  "dir_list_loop s node list = (if node = 0 then Some (list, s) else do {
     n \<leftarrow> dirents s node;
     (list, st) \<leftarrow> (case list of
         Some l \<Rightarrow> (let (r, st) = strvcat (mem_of s) [de_name n, Some [9], Some l, None] in Some (r, tfree st))
       | None \<Rightarrow> strdup (mem_of s) (de_name n));
     dir_list_loop (set_mem s st) (de_next n) list
   })"

definition dir_list :: hook_fn where
  "dir_list s self src argv = do {
     node \<leftarrow> robject_data s self (Some (cs ''list''));
     (list, s) \<leftarrow> dir_list_loop s node None;
     case list of Some l \<Rightarrow> ret_text s l | None \<Rightarrow> Some (None, s)
   }"

definition dirent_key :: "u8 list \<Rightarrow> u8 list" where
  "dirent_key entry = cs ''dirent-'' @ entry"

text \<open>The part of \<open>link\<close> for a new entry: the node in front of the list.\<close>

definition link_node :: "drv_env \<Rightarrow> driver \<Rightarrow> ptr \<Rightarrow> u8 list \<Rightarrow> (u8 list option \<times> driver) option" where
  "link_node env s self entry = do {
     list \<leftarrow> robject_data s self (Some (cs ''list''));
     let (ok, st) = tmalloc (mem_of s);
     if \<not> ok then None
     else do {
       let node = v_node env (dirents s);
       (name, st) \<leftarrow> strdup st (Some entry);
       let ds = (dirents s)(node \<mapsto> \<lparr>de_next = list, de_prev = 0, de_name = name\<rparr>);
       ds \<leftarrow> (if list \<noteq> 0 then do { l \<leftarrow> ds list; Some (ds(list \<mapsto> l\<lparr>de_prev := node\<rparr>)) } else Some ds);
       s \<leftarrow> robject_set_data ((set_mem s st)\<lparr>dirents := ds\<rparr>) self (Some (cs ''list'')) node;
       ret_text s (cs ''T'')
     }
   }"

definition dir_link :: "drv_env \<Rightarrow> hook_fn" where
  "dir_link env s self src argv = (
     if length argv = 3 then do {
       let entry = argv ! 1;
       (rp, st) \<leftarrow> ator (Some (argv ! 2)) (mem_of s);
       let index = RP_INDEX rp;
       (rp, st) \<leftarrow> ator (Some (argv ! 2)) st;
       let s = set_mem s st;
       if RP_PID rp \<noteq> v_pid env then ret_error s EXDEV
       else do {
         let hardlink = robject_get (o_idx s) index;
         if hardlink = 0 then ret_error s ENOENT
         else do {
           let (look, st) = strvcat (mem_of s) [Some (cs ''dirent-''), Some entry, None];
           let s = set_mem s st;
           old \<leftarrow> robject_get_data s self look;
           s \<leftarrow> robject_set_data s self look hardlink;
           let s = set_mem s (tfree_string look (mem_of s));
           if old \<noteq> 0 then ret_text s (cs ''T'') else link_node env s self entry
         }
       }
     }
     else ret_error s EINVAL)"

partial_function (option) dir_unlink_loop :: "driver \<Rightarrow> ptr \<Rightarrow> ptr \<Rightarrow> u8 list \<Rightarrow> driver option" where
  "dir_unlink_loop s self node entry = (if node = 0 then Some s else do {
     n \<leftarrow> dirents s node;
     name \<leftarrow> de_name n;
     if name = entry then do {
       s \<leftarrow> (if de_prev n \<noteq> 0 then do { p \<leftarrow> dirents s (de_prev n);
           Some (s\<lparr>dirents := (dirents s)(de_prev n \<mapsto> p\<lparr>de_next := de_next n\<rparr>)\<rparr>) }
         else robject_set_data s self (Some (cs ''list'')) (de_next n));
       if de_next n \<noteq> 0 then do { x \<leftarrow> dirents s (de_next n);
         Some (s\<lparr>dirents := (dirents s)(de_next n \<mapsto> x\<lparr>de_prev := de_prev n\<rparr>)\<rparr>) }
       else Some s
     }
     else dir_unlink_loop s self (de_next n) entry
   })"

definition dir_unlink :: hook_fn where
  "dir_unlink s self src argv = (
     if length argv = 2 then do {
       let entry = argv ! 1;
       let (look, st) = strvcat (mem_of s) [Some (cs ''dirent-''), Some entry, None];
       let s = set_mem s st;
       old \<leftarrow> robject_get_data s self look;
       if old = 0 then ret_error (set_mem s (tfree_string look (mem_of s))) ENOENT
       else do {
         s \<leftarrow> robject_set_data s self look 0;
         let s = set_mem s (tfree_string look (mem_of s));
         list \<leftarrow> robject_data s self (Some (cs ''list''));
         s \<leftarrow> dir_unlink_loop s self list entry;
         ret_text s (cs ''T'')
       }
     }
     else ret_error s EINVAL)"

section \<open>The class of symbolic links\<close>

definition link_find :: "drv_env \<Rightarrow> hook_fn" where
  "link_find env s self src argv = do {
     link \<leftarrow> robject_get_data s self (Some (cs ''link''));
     ob \<leftarrow> o_objs s self;
     if length argv = 2 then
       if link \<noteq> 0 then do { t \<leftarrow> text_of s link; ret_format s (cs ''>> %s'') [VStr (Some t)] }
       else ret_rp env s (o_index ob)
     else if length argv = 3 \<and> argv ! 1 = cs ''-L'' then ret_rp env s (o_index ob)
     else ret_error s EINVAL
   }"

definition new_text :: "drv_env \<Rightarrow> driver \<Rightarrow> u8 list \<Rightarrow> ptr \<times> driver" where
  "new_text env s t = (
     let (ok, st) = tmalloc (mem_of s); p = v_text env (texts s)
     in if ok then (p, (set_mem s st)\<lparr>texts := (texts s)(p \<mapsto> t)\<rparr>) else (0, set_mem s st))"

definition free_text :: "driver \<Rightarrow> ptr \<Rightarrow> driver" where
  "free_text s p = (if p = 0 then s else (set_mem s (tfree (mem_of s)))\<lparr>texts := (texts s)(p := None)\<rparr>)"

definition link_set_link :: "drv_env \<Rightarrow> hook_fn" where
  "link_set_link env s self src argv = (
     if length argv = 2 then do {
       old \<leftarrow> robject_get_data s self (Some (cs ''link''));
       let (p, s) = new_text env s (argv ! 1);
       s \<leftarrow> robject_set_data s self (Some (cs ''link'')) p;
       ret_text (free_text s old) (cs ''T'')
     }
     else ret_error s EINVAL)"

definition link_get_link :: hook_fn where
  "link_get_link s self src argv = do {
     link \<leftarrow> robject_get_data s self (Some (cs ''link''));
     t \<leftarrow> (if link = 0 then None else text_of s link);
     ret_text s t
   }"

section \<open>The class of files\<close>

definition file_size :: hook_fn where
  "file_size s self src argv = do {
     p \<leftarrow> robject_data s self (Some (cs ''size''));
     if p \<noteq> 0 then do {
       n \<leftarrow> offs s p;
       ret_format s (cs ''%u:%u'') [VInt (ucast (drop_bit 32 n)), VInt (ucast n)]
     }
     else ret_text s (cs ''0'')
   }"

definition file_reset :: hook_fn where
  "file_reset s self src argv = ret_error s ENOSYS"

section \<open>Monotonicity\<close>

text \<open>
  \<open>core_type\<close> and \<open>dir_find\<close> call other calls of objects, so the calls are defined by a recursion through
  \<^const>\<open>robject_call\<close>, in which the hooks have to be used monotonically.
\<close>

named_theorems ord_intros

lemma ord_same [ord_intros]: "option_ord x x"
  by (simp add: flat_ord_def)

lemma ord_bind [ord_intros]: "option_ord x y \<Longrightarrow> (\<And>v. option_ord (f v) (g v)) \<Longrightarrow> option_ord (Option.bind x f) (Option.bind y g)"
  by (cases x; cases y) (auto simp: flat_ord_def)

lemma ord_if [ord_intros]: "(b \<Longrightarrow> option_ord x y) \<Longrightarrow> (\<not> b \<Longrightarrow> option_ord x' y') \<Longrightarrow> option_ord (if b then x else x') (if b then y else y')"
  by simp

lemma ord_option [ord_intros]:
  "option_ord x y \<Longrightarrow> (\<And>v. option_ord (f v) (g v)) \<Longrightarrow> option_ord (case z of None \<Rightarrow> x | Some v \<Rightarrow> f v) (case z of None \<Rightarrow> y | Some v \<Rightarrow> g v)"
  by (cases z) auto

lemma ord_prod [ord_intros]: "(\<And>a b. option_ord (f a b) (g a b)) \<Longrightarrow> option_ord (case z of (a, b) \<Rightarrow> f a b) (case z of (a, b) \<Rightarrow> g a b)"
  by (cases z) auto

lemma ord_let [ord_intros]: "(\<And>v. option_ord (f v) (g v)) \<Longrightarrow> option_ord (let v = z in f v) (let v = z in g v)"
  by simp

abbreviation hooks_ord :: "hooks_fn \<Rightarrow> hooks_fn \<Rightarrow> bool" where
  "hooks_ord h1 h2 \<equiv> \<forall>f s self src argv. option_ord (h1 f s self src argv) (h2 f s self src argv)"

lemma robject_call_ord [ord_intros]: "hooks_ord h1 h2 \<Longrightarrow> option_ord (robject_call h1 s ro src args) (robject_call h2 s ro src args)"
  unfolding robject_call_def by (intro ord_intros) blast

lemma robject_check_type_ord [ord_intros]: "hooks_ord h1 h2 \<Longrightarrow> option_ord (robject_check_type h1 s ro t) (robject_check_type h2 s ro t)"
  unfolding robject_check_type_def by (intro ord_intros)

lemma core_type_ord [ord_intros]: "hooks_ord h1 h2 \<Longrightarrow> option_ord (core_type h1 s self src argv) (core_type h2 s self src argv)"
  unfolding core_type_def by (intro ord_intros)

lemma dir_walk_more:
  "dir_walk h1 s root path = Some y \<Longrightarrow> hooks_ord h1 h2 \<longrightarrow> dir_walk h2 s root path = Some y"
proof (erule dir_walk.raw_induct [rotated, of _ _ _ _ _ "\<lambda>h s root path y. hooks_ord h h2 \<longrightarrow> dir_walk h2 s root path = Some y"],
    intro impI, goal_cases)
  case (1 walk hooks s root path y)
  have w: "option_ord (walk hooks s root path) (dir_walk h2 s root path)" for s root path
    using 1(1) 1(3) by (cases "walk hooks s root path") (auto simp: flat_ord_def)
  have "option_ord (Some y) (dir_walk h2 s root path)"
    unfolding 1(2) [symmetric] dir_walk.simps [of h2 s root path] by (intro ord_intros w 1(3))
  then show ?case by (simp add: flat_ord_def)
qed

lemma dir_walk_ord [ord_intros]: "hooks_ord h1 h2 \<Longrightarrow> option_ord (dir_walk h1 s root path) (dir_walk h2 s root path)"
  using dir_walk_more [of h1 s root path _ h2] by (cases "dir_walk h1 s root path") (auto simp: flat_ord_def)

lemma dir_find_ord [ord_intros]: "hooks_ord h1 h2 \<Longrightarrow> option_ord (dir_find h1 env s self src argv) (dir_find h2 env s self src argv)"
  unfolding dir_find_def dir_find_path_def by (intro ord_intros)

lemma hooks_mono [partial_function_mono]:
  assumes "\<And>f s self src argv. monotone option.le_fun option_ord (\<lambda>h. hooks h f s self src argv)"
  shows "monotone option.le_fun option_ord (\<lambda>h. core_type (hooks h) s self src argv)"
    and "monotone option.le_fun option_ord (\<lambda>h. dir_find (hooks h) env s self src argv)"
  using assms by (auto simp: monotone_def intro!: core_type_ord dir_find_ord)

section \<open>Dispatch\<close>

text \<open>The calls by their numbers; other numbers are functions of the driver itself.\<close>

partial_function (option) rdi_hook ::
    "drv_env \<Rightarrow> hooks_fn \<Rightarrow> ptr \<Rightarrow> driver \<Rightarrow> ptr \<Rightarrow> u64 \<Rightarrow> u8 list list \<Rightarrow> (u8 list option \<times> driver) option" where
  "rdi_hook env own f s self src argv = (
     if f = H_type then core_type (rdi_hook env own) s self src argv
     else if f = H_ping then core_ping s self src argv
     else if f = H_name then core_name env s self src argv
     else if f = H_open then core_open env s self src argv
     else if f = H_close then core_close s self src argv
     else if f = H_stat then core_stat s self src argv
     else if f = H_find then core_find env s self src argv
     else if f = H_get_access then core_get_access env s self src argv
     else if f = H_set_access then core_set_access env s self src argv
     else if f = H_dir_find then dir_find (rdi_hook env own) env s self src argv
     else if f = H_list then dir_list s self src argv
     else if f = H_link then dir_link env s self src argv
     else if f = H_unlink then dir_unlink s self src argv
     else if f = H_link_find then link_find env s self src argv
     else if f = H_set_link then link_set_link env s self src argv
     else if f = H_get_link then link_get_link s self src argv
     else if f = H_size then file_size s self src argv
     else if f = H_reset then file_reset s self src argv
     else own f s self src argv)"

end
