(* ===== verification/Driver_Service.thy ===== *)
theory Driver_Service
  imports Driver_Core
begin

text \<open>
  The service of a driver: construction and destruction of objects of the library's classes, the setup of the classes, and the handlers of the
  messages of clients, from \<open>librdi/class_core.c\<close>, \<open>class_dir.c\<close>, \<open>class_link.c\<close>, \<open>class_file.c\<close> and \<open>init.c\<close>. A handler works on the objects, on the
  messages of the process and on what the driver stores behind its read and write hooks.
\<close>

section \<open>Construction\<close>

definition rdi_cons :: "drv_env \<Rightarrow> driver \<Rightarrow> ptr \<Rightarrow> u32 \<Rightarrow> u32 \<Rightarrow> (ptr \<times> driver) option" where
  "rdi_cons env s class index acs = do {
     let r = v_obj env (o_objs s);
     s \<leftarrow> robject_cons s r index class;
     s \<leftarrow> robject_set_default_access s r acs;
     Some (r, s)
   }"

definition rdi_core_cons :: "drv_env \<Rightarrow> driver \<Rightarrow> u32 \<Rightarrow> u32 \<Rightarrow> (ptr \<times> driver) option" where
  "rdi_core_cons env s index acs = rdi_cons env s (class_core s) index acs"

definition rdi_dir_cons :: "drv_env \<Rightarrow> driver \<Rightarrow> u32 \<Rightarrow> u32 \<Rightarrow> (ptr \<times> driver) option" where
  "rdi_dir_cons env s index acs = rdi_cons env s (class_dir s) index acs"

definition rdi_file_cons :: "drv_env \<Rightarrow> driver \<Rightarrow> u32 \<Rightarrow> u32 \<Rightarrow> (ptr \<times> driver) option" where
  "rdi_file_cons env s index acs = rdi_cons env s (class_file s) index acs"

definition rdi_link_cons :: "drv_env \<Rightarrow> driver \<Rightarrow> u32 \<Rightarrow> u32 \<Rightarrow> u8 list option \<Rightarrow> (ptr \<times> driver) option" where
  "rdi_link_cons env s index acs link = do {
     (r, s) \<leftarrow> rdi_cons env s (class_link s) index acs;
     case link of None \<Rightarrow> Some (r, s)
     | Some l \<Rightarrow> do {
         let (p, s) = new_text env s l;
         s \<leftarrow> robject_set_data s r (Some (cs ''link'')) p;
         Some (r, s)
       }
   }"

definition rdi_core_free :: "driver \<Rightarrow> ptr \<Rightarrow> driver option" where
  "rdi_core_free s r = robject_free s r"

definition rdi_file_free :: "driver \<Rightarrow> ptr \<Rightarrow> driver option" where
  "rdi_file_free s r = robject_free s r"

definition rdi_link_free :: "driver \<Rightarrow> ptr \<Rightarrow> driver option" where
  "rdi_link_free s r = do {
     link \<leftarrow> robject_get_data s r (Some (cs ''link''));
     robject_free (if link \<noteq> 0 then free_text s link else s) r
   }"

text \<open>The block of every entry's object is freed as well, but not the object's tables and its place in the index.\<close>

partial_function (option) dir_free_loop :: "driver \<Rightarrow> ptr \<Rightarrow> ptr \<Rightarrow> driver option" where
  "dir_free_loop s r node = (if node = 0 then Some s else do {
     n \<leftarrow> dirents s node;
     let (temp, st) = strvcat (mem_of s) [Some (cs ''dirent-''), de_name n, None];
     let s = set_mem s st;
     ob \<leftarrow> robject_get_data s r temp;
     let s = (if ob = 0 then s else (set_mem s (tfree (mem_of s)))\<lparr>o_objs := (o_objs s)(ob := None)\<rparr>);
     let s = set_mem s (tfree (tfree_string (de_name n) (tfree_string temp (mem_of s))));
     dir_free_loop (s\<lparr>dirents := (dirents s)(node := None)\<rparr>) r (de_next n)
   })"

definition rdi_dir_free :: "driver \<Rightarrow> ptr \<Rightarrow> driver option" where
  "rdi_dir_free s r = do {
     node \<leftarrow> robject_get_data s r (Some (cs ''list''));
     s \<leftarrow> dir_free_loop s r node;
     robject_free s r
   }"

definition rdi_vfs_add :: "hooks_fn \<Rightarrow> drv_env \<Rightarrow> driver \<Rightarrow> ptr \<Rightarrow> u8 list \<Rightarrow> ptr \<Rightarrow> driver option" where
  "rdi_vfs_add hooks env s root path r = (if r = 0 then Some s else do {
     (path1, st) \<leftarrow> path_parent (mem_of s) path;
     (dir, _, s) \<leftarrow> dir_find_path hooks (set_mem s st) root path1;
     let s = set_mem s (tfree_string path1 (mem_of s));
     if dir = 0 then Some s
     else do {
       (path1, st) \<leftarrow> path_name (mem_of s) path;
       let s = set_mem s st;
       ob \<leftarrow> o_objs s r;
       (call, s) \<leftarrow> ret_format s (cs ''link %s %r'') [VStr path1, VRp (RP_CONS (v_pid env) (o_index ob))];
       c \<leftarrow> call;
       (rets, s) \<leftarrow> robject_call hooks s dir 0 c;
       Some (set_mem s (tfree_string path1 (tfree_string call (tfree_string rets (mem_of s)))))
     }
   })"

section \<open>Setup\<close>

abbreviation (input) PORT_READ :: u8 where "PORT_READ \<equiv> 17"
abbreviation (input) PORT_WRITE :: u8 where "PORT_WRITE \<equiv> 18"
abbreviation (input) PORT_SYNC :: u8 where "PORT_SYNC \<equiv> 19"
abbreviation (input) PORT_RESET :: u8 where "PORT_RESET \<equiv> 20"
abbreviation (input) PORT_SHARE :: u8 where "PORT_SHARE \<equiv> 21"
abbreviation (input) PORT_RCALL :: u8 where "PORT_RCALL \<equiv> 22"
abbreviation (input) PORT_CLOSE :: u8 where "PORT_CLOSE \<equiv> 24"

text \<open>A class: an object without an index, with its type, its name and its calls. The address of the object is returned.\<close>

definition class_setup :: "drv_env \<Rightarrow> driver \<Rightarrow> ptr \<Rightarrow> ptr \<Rightarrow> ptr \<Rightarrow> (string \<times> ptr \<times> u32) list \<Rightarrow> (ptr \<times> driver) option" where
  "class_setup env s parent type name calls = do {
     let c = v_obj env (o_objs s);
     s \<leftarrow> robject_cons s c 0 parent;
     s \<leftarrow> for_list (\<lambda>(call, hook, status) s. robject_set_call s c (Some (cs call)) hook status) calls s;
     s \<leftarrow> robject_set_data s c (Some (cs ''type'')) type;
     s \<leftarrow> robject_set_data s c (Some (cs ''name'')) name;
     Some (c, s)
   }"

definition rcall_hook :: "driver \<Rightarrow> u8 list \<Rightarrow> ptr \<Rightarrow> driver option" where
  "rcall_hook s func hook = do {
     (t, st) \<leftarrow> s_table_set (mem_of s) (rcall_table s) (Some func) hook;
     Some ((set_mem s st)\<lparr>rcall_table := t\<rparr>)
   }"

definition class_core_setup :: "drv_env \<Rightarrow> driver \<Rightarrow> driver option" where
  "class_core_setup env s = do {
     let c = v_obj env (o_objs s);
     s \<leftarrow> robject_cons s c 0 0;
     s \<leftarrow> robject_set_data s c (Some (cs ''type'')) 0x21;
     s \<leftarrow> robject_set_data s c (Some (cs ''name'')) 0x22;
     s \<leftarrow> for_list (\<lambda>(call, hook, status) s. robject_set_call s c (Some (cs call)) hook status)
       [(''type'', H_type, 0), (''ping'', H_ping, 0), (''name'', H_name, 0), (''open'', H_open, 0), (''close'', H_close, STAT_OPEN),
        (''stat'', H_stat, 0), (''find'', H_find, 0), (''get-access'', H_get_access, 0), (''set-access'', H_set_access, STAT_ADMIN)] s;
     rcall_hook (s\<lparr>class_core := c\<rparr>) (cs ''cons'') H_cons
   }"

definition class_dir_setup :: "drv_env \<Rightarrow> driver \<Rightarrow> driver option" where
  "class_dir_setup env s = do {
     (c, s) \<leftarrow> class_setup env s (class_core s) 0x23 0x24
       [(''find'', H_dir_find, 0), (''list'', H_list, STAT_READER), (''link'', H_link, STAT_WRITER), (''unlink'', H_unlink, STAT_WRITER)];
     Some (s\<lparr>class_dir := c\<rparr>)
   }"

definition class_link_setup :: "drv_env \<Rightarrow> driver \<Rightarrow> driver option" where
  "class_link_setup env s = do {
     (c, s) \<leftarrow> class_setup env s (class_core s) 0x25 0x26
       [(''find'', H_link_find, 0), (''set-link'', H_set_link, STAT_WRITER), (''get-link'', H_get_link, STAT_READER)];
     Some (s\<lparr>class_link := c\<rparr>)
   }"

definition class_file_setup :: "drv_env \<Rightarrow> driver \<Rightarrow> driver option" where
  "class_file_setup env s = do {
     (c, s) \<leftarrow> class_setup env s (class_core s) 0x27 0x28 [(''size'', H_size, 0), (''reset'', H_reset, 0)];
     Some (s\<lparr>class_file := c\<rparr>)
   }"

text \<open>The handlers are numbered too.\<close>

definition rdi_init :: "drv_env \<Rightarrow> driver \<Rightarrow> ipc \<Rightarrow> (driver \<times> ipc) option" where
  "rdi_init env s p = do {
     s \<leftarrow> class_core_setup env s;
     let p = when_port (when_port p PORT_RCALL 0x31) PORT_CLOSE 0x32;
     s \<leftarrow> class_dir_setup env s;
     s \<leftarrow> class_link_setup env s;
     s \<leftarrow> class_file_setup env s;
     Some (s, fold (\<lambda>(port, h) p. when_port p port h)
       [(PORT_READ, 0x33), (PORT_WRITE, 0x34), (PORT_SYNC, 0x35), (PORT_RESET, 0x36), (PORT_SHARE, 0x37)] p)
   }"

section \<open>Calls of the process\<close>

type_synonym rcalls_fn = "ptr \<Rightarrow> driver \<Rightarrow> u64 \<Rightarrow> u8 list list \<Rightarrow> (u8 list option \<times> driver) option"

definition rcall_call :: "rcalls_fn \<Rightarrow> driver \<Rightarrow> u64 \<Rightarrow> u8 list \<Rightarrow> (u8 list option \<times> driver) option" where
  "rcall_call rcalls s source args = do {
     (argv, st) \<leftarrow> strparse (mem_of s) args [32];
     let s = set_mem s st;
     hook \<leftarrow> s_table_get (rcall_table s) (case argv of [] \<Rightarrow> None | a # _ \<Rightarrow> Some a);
     if hook = 0 then Some (None, free_argv s argv)
     else do { (rets, s) \<leftarrow> rcalls hook s source argv; Some (rets, free_argv s argv) }
   }"

text \<open>The constructors that a driver registers are functions of the last argument.\<close>

definition rdi_cons_call :: "drv_env \<Rightarrow> (ptr \<Rightarrow> driver \<Rightarrow> u64 \<Rightarrow> u8 list list \<Rightarrow> (ptr \<times> driver) option) \<Rightarrow> driver \<Rightarrow> u64 \<Rightarrow> u8 list list \<Rightarrow>
    (u8 list option \<times> driver) option" where
  "rdi_cons_call env constr s src argv = (
     if length argv \<ge> 2 then do {
       let type = argv ! 1;
       let f = (if type = cs ''file'' then cons_file_hook s else if type = cs ''link'' then cons_link_hook s
                else if type = cs ''dir'' then cons_dir_hook s else 0);
       (new, s) \<leftarrow> (if f \<noteq> 0 then constr f s src argv else Some (0, s));
       if new \<noteq> 0 then do {
         ob \<leftarrow> o_objs s new;
         let rp = RP_CONS (v_pid env) (o_index ob);
         let s = s\<lparr>rtab_log := rtab_log s @ [(ucast src, rp)]\<rparr>;
         (x, s) \<leftarrow> robject_stat s new src;
         s \<leftarrow> robject_open s new src (STAT_OPEN OR x);
         (d, st) \<leftarrow> rtoa rp (mem_of s);
         Some (d, set_mem s st)
       }
       else ret_error s EINVAL
     }
     else ret_error s EINVAL)"

section \<open>Handlers\<close>

text \<open>The string at the beginning of the data of a message.\<close>

definition data_string :: "u8 list \<Rightarrow> u8 list option" where
  "data_string data = (if 0 \<in> set data then Some (takeWhile (\<lambda>c. c \<noteq> 0) data) else None)"

definition free_msg :: "ipc \<Rightarrow> ptr \<Rightarrow> ipc" where
  "free_msg p m = p\<lparr>msgs := (msgs p)(m := None)\<rparr>"

definition send_reply :: "tx_env \<Rightarrow> ipc \<Rightarrow> message \<Rightarrow> ptr \<Rightarrow> u8 list \<Rightarrow> u32 \<Rightarrow> ipc option" where
  "send_reply tx p m reply data len = do {
     (_, p) \<leftarrow> msend tx (p\<lparr>msgs := (msgs p)(reply \<mapsto> \<lparr>m_source = m_target m, m_target = m_source m, m_length = len, m_port = PORT_REPLY,
       m_arch = ARCH_NAT, m_data = data\<rparr>)\<rparr>) reply;
     Some p
   }"

definition fail_msg :: "tx_env \<Rightarrow> ipc \<Rightarrow> ptr \<Rightarrow> ipc option" where
  "fail_msg tx p msg = do { (_, p) \<leftarrow> merror tx p msg; Some p }"

definition rcall_handler :: "hooks_fn \<Rightarrow> rcalls_fn \<Rightarrow> tx_env \<Rightarrow> driver \<Rightarrow> ipc \<Rightarrow> ptr \<Rightarrow> (driver \<times> ipc) option" where
  "rcall_handler hooks rcalls tx s p msg = do {
     m \<leftarrow> msgs p msg;
     let index = RP_INDEX (m_target m);
     let ro = robject_get (o_idx s) index;
     if index \<noteq> 0 \<and> ro = 0 then do { p \<leftarrow> fail_msg tx p msg; Some (s, p) }
     else do {
       args \<leftarrow> data_string (m_data m);
       (rets, s) \<leftarrow> (if index \<noteq> 0 then robject_call hooks s ro (m_source m) args else rcall_call rcalls s (m_source m) args);
       (rets, s) \<leftarrow> (case rets of Some r \<Rightarrow> Some (Some r, s) | None \<Rightarrow> ret_text s []);
       r \<leftarrow> rets;
       let len = of_nat (length r) + 1;
       let reply = x_aalloc tx (MSGSZ + len);
       if reply = 0 then None
       else do {
         let s = set_mem s (tfree (mem_of s));
         p \<leftarrow> send_reply tx (free_msg p msg) m reply (r @ [0]) len;
         Some (s, p)
       }
     }
   }"

definition close_handler :: "hooks_fn \<Rightarrow> driver \<Rightarrow> ipc \<Rightarrow> ptr \<Rightarrow> (driver \<times> ipc) option" where
  "close_handler hooks s p msg = do {
     m \<leftarrow> msgs p msg;
     let ro = robject_get (o_idx s) (RP_INDEX (m_target m));
     if ro = 0 then Some (s, p)
     else do {
       (rets, s) \<leftarrow> robject_call hooks s ro (m_source m) (cs ''close'');
       Some (set_mem s (tfree_string rets (mem_of s)), free_msg p msg)
     }
   }"

text \<open>The hooks for the contents of files, global or by the address in a field of the file, on a state of their own.\<close>

record 'h io_hooks =
  g_read :: ptr
  g_write :: ptr
  g_share :: ptr
  read_fn :: "ptr \<Rightarrow> ptr \<Rightarrow> u64 \<Rightarrow> u32 \<Rightarrow> u64 \<Rightarrow> 'h \<Rightarrow> (u8 list \<times> 'h) option"
  write_fn :: "ptr \<Rightarrow> ptr \<Rightarrow> u64 \<Rightarrow> u8 list \<Rightarrow> u64 \<Rightarrow> 'h \<Rightarrow> (u32 \<times> 'h) option"
  share_fn :: "ptr \<Rightarrow> ptr \<Rightarrow> u64 \<Rightarrow> ptr \<Rightarrow> u8 list \<Rightarrow> u64 \<Rightarrow> 'h \<Rightarrow> (u8 \<times> 'h) option"

fun le_word :: "u8 list \<Rightarrow> 'a::len word" where
  "le_word [] = 0"
| "le_word (b # bs) = ucast b + 256 * le_word bs"

definition le_bytes :: "u32 \<Rightarrow> u8 list" where
  "le_bytes v = [ucast v, ucast (drop_bit 8 v), ucast (drop_bit 16 v), ucast (drop_bit 24 v)]"

definition read_word :: "u8 list \<Rightarrow> nat \<Rightarrow> nat \<Rightarrow> 'a::len word option" where
  "read_word data pos n = (if pos + n > length data then None else Some (le_word (take n (drop pos data))))"

type_synonym 'h service = "driver \<times> ipc \<times> 'h"

definition rdi_read :: "hooks_fn \<Rightarrow> 'h io_hooks \<Rightarrow> tx_env \<Rightarrow> 'h service \<Rightarrow> ptr \<Rightarrow> 'h service option" where
  "rdi_read hooks io tx = (\<lambda>(s, p, h) msg. do {
     m \<leftarrow> msgs p msg;
     let file = robject_get (o_idx s) (RP_INDEX (m_target m));
     if m_length m \<noteq> 12 \<or> file = 0 then do { p \<leftarrow> fail_msg tx p msg; Some (s, p, h) }
     else do {
       (ok, s) \<leftarrow> robject_check_status s file (m_source m) STAT_READER;
       (ty, s) \<leftarrow> (if ok then robject_check_type hooks s file (cs ''file'') else Some (0, s));
       hook \<leftarrow> (if ty = 0 then Some 0 else if g_read io \<noteq> 0 then Some (g_read io) else robject_data s file (Some (cs ''read'')));
       if hook = 0 then do { p \<leftarrow> fail_msg tx p msg; Some (s, p, h) }
       else do {
         offset \<leftarrow> read_word (m_data m) 0 8;
         sz \<leftarrow> read_word (m_data m) 8 4;
         let reply = x_aalloc tx (MSGSZ + sz);
         if reply = 0 then None
         else do {
           (data, h) \<leftarrow> read_fn io hook file (m_source m) sz offset h;
           p \<leftarrow> send_reply tx (free_msg p msg) m reply data (of_nat (length data));
           Some (s, p, h)
         }
       }
     }
   })"

definition rdi_write :: "hooks_fn \<Rightarrow> 'h io_hooks \<Rightarrow> tx_env \<Rightarrow> 'h service \<Rightarrow> ptr \<Rightarrow> 'h service option" where
  "rdi_write hooks io tx = (\<lambda>(s, p, h) msg. do {
     m \<leftarrow> msgs p msg;
     let file = robject_get (o_idx s) (RP_INDEX (m_target m));
     if m_length m < 8 \<or> file = 0 then do { p \<leftarrow> fail_msg tx p msg; Some (s, p, h) }
     else do {
       (ok, s) \<leftarrow> robject_check_status s file (m_source m) STAT_WRITER;
       (ty, s) \<leftarrow> (if ok then robject_check_type hooks s file (cs ''file'') else Some (0, s));
       hook \<leftarrow> (if ty = 0 then Some 0 else if g_write io \<noteq> 0 then Some (g_write io) else robject_data s file (Some (cs ''write'')));
       if hook = 0 then do { p \<leftarrow> fail_msg tx p msg; Some (s, p, h) }
       else do {
         offset \<leftarrow> read_word (m_data m) 0 8;
         if unat (m_length m) > length (m_data m) then None
         else do {
           (n, h) \<leftarrow> write_fn io hook file (m_source m) (take (unat (m_length m) - 8) (drop 8 (m_data m))) offset h;
           (_, p) \<leftarrow> mreply tx (p\<lparr>msgs := (msgs p)(msg \<mapsto> m\<lparr>m_data := le_bytes n @ drop 4 (m_data m), m_length := 4\<rparr>)\<rparr>) msg;
           Some (s, p, h)
         }
       }
     }
   })"

text \<open>The pages behind the first one of the message are what the hook of \<open>__rdi_share\<close> gets, mapped at a new block.\<close>

definition rdi_share :: "hooks_fn \<Rightarrow> 'h io_hooks \<Rightarrow> drv_env \<Rightarrow> tx_env \<Rightarrow> 'h service \<Rightarrow> ptr \<Rightarrow> 'h service option" where
  "rdi_share hooks io env tx = (\<lambda>(s, p, h) msg. do {
     m \<leftarrow> msgs p msg;
     let file = robject_get (o_idx s) (RP_INDEX (m_target m));
     if m_length m < PAGESZ - MSGSZ \<or> file = 0 then do { p \<leftarrow> fail_msg tx p msg; Some (s, p, h) }
     else do {
       (ty, s) \<leftarrow> robject_check_type hooks s file (cs ''share'');
       (ok, s) \<leftarrow> (if ty \<noteq> 0 then robject_check_access (v_user env) s file (m_source m) (STAT_READER OR STAT_WRITER) else Some (False, s));
       if \<not> ok \<or> g_share io = 0 then do { p \<leftarrow> fail_msg tx p msg; Some (s, p, h) }
       else do {
         offset \<leftarrow> read_word (m_data m) 0 8;
         let pages = x_aalloc tx (m_length m - PAGESZ + MSGSZ);
         (err, h) \<leftarrow> share_fn io (g_share io) file (m_source m) pages (drop (unat (PAGESZ - MSGSZ)) (m_data m)) offset h;
         (_, p) \<leftarrow> mreply tx (p\<lparr>msgs := (msgs p)(msg \<mapsto> m\<lparr>m_data := err # drop 1 (m_data m), m_length := 1\<rparr>)\<rparr>) msg;
         Some (s, p, h)
       }
     }
   })"

text \<open>\<open>__rdi_sync\<close> and \<open>__rdi_reset\<close> differ in the call they make.\<close>

definition rdi_call_writer :: "u8 list \<Rightarrow> hooks_fn \<Rightarrow> drv_env \<Rightarrow> tx_env \<Rightarrow> 'h service \<Rightarrow> ptr \<Rightarrow> 'h service option" where
  "rdi_call_writer call hooks env tx = (\<lambda>(s, p, h) msg. do {
     m \<leftarrow> msgs p msg;
     let file = robject_get (o_idx s) (RP_INDEX (m_target m));
     if file = 0 then do { p \<leftarrow> fail_msg tx p msg; Some (s, p, h) }
     else do {
       (ty, s) \<leftarrow> robject_check_type hooks s file (cs ''file'');
       (ok, s) \<leftarrow> (if ty \<noteq> 0 then robject_check_access (v_user env) s file (m_source m) STAT_WRITER else Some (False, s));
       (rets, s) \<leftarrow> (if ok then robject_call hooks s file (m_source m) call else Some (None, s));
       p \<leftarrow> fail_msg tx p msg;
       Some (set_mem s (tfree_string rets (mem_of s)), p, h)
     }
   })"

definition rdi_sync :: "hooks_fn \<Rightarrow> drv_env \<Rightarrow> tx_env \<Rightarrow> 'h service \<Rightarrow> ptr \<Rightarrow> 'h service option" where
  "rdi_sync hooks env tx = rdi_call_writer (cs ''sync'') hooks env tx"

definition rdi_reset :: "hooks_fn \<Rightarrow> drv_env \<Rightarrow> tx_env \<Rightarrow> 'h service \<Rightarrow> ptr \<Rightarrow> 'h service option" where
  "rdi_reset hooks env tx = rdi_call_writer (cs ''reset'') hooks env tx"

text \<open>The handler that an event has started.\<close>

definition serve :: "hooks_fn \<Rightarrow> rcalls_fn \<Rightarrow> 'h io_hooks \<Rightarrow> drv_env \<Rightarrow> tx_env \<Rightarrow> 'h service \<Rightarrow> ptr \<times> ptr \<Rightarrow> 'h service option" where
  "serve hooks rcalls io env tx = (\<lambda>(s, p, h) (handler, msg).
     if handler = 0x31 then do { (s, p) \<leftarrow> rcall_handler hooks rcalls tx s p msg; Some (s, p, h) }
     else if handler = 0x32 then do { (s, p) \<leftarrow> close_handler hooks s p msg; Some (s, p, h) }
     else if handler = 0x33 then rdi_read hooks io tx (s, p, h) msg
     else if handler = 0x34 then rdi_write hooks io tx (s, p, h) msg
     else if handler = 0x35 then rdi_sync hooks env tx (s, p, h) msg
     else if handler = 0x36 then rdi_reset hooks env tx (s, p, h) msg
     else if handler = 0x37 then rdi_share hooks io env tx (s, p, h) msg
     else None)"

end
