(* ===== verification/Driver_Access.thy ===== *)
theory Driver_Access
  imports Driver_Service
begin

text \<open>
  Who may use an object of a driver: the access rights of an object as a map of users, the calls \<open>open\<close> and \<open>close\<close> against them, and the
  guards of the handlers.
\<close>

section \<open>Access rights\<close>

definition access_of :: "(u8 list \<Rightarrow> ptr) \<Rightarrow> u32 \<Rightarrow> u32" where
  "access_of am user = (
     let a = am (cs ''uid-'' @ dec (unat user)) in (if a AND 0x100 = 0 then am default_key else a) AND NOT 0x100)"

lemma RP_PID_ucast: "RP_PID rp = ucast rp"
proof (rule bit_word_eqI)
  have m: "(0xFFFFFFFF :: u64) = mask 32" by (simp add: mask_eq_exp_minus_1)
  show "bit (RP_PID rp) n = bit (ucast rp :: u32) n" if "n < LENGTH(32)" for n
    using that by (auto simp: RP_PID_def m bit_simps)
qed

lemma key_uid:
  assumes "outcomes st = []"
  shows "\<exists>st'. key_of uid_key v st = Some (Some (cs ''uid-'' @ dec (unat v)), st') \<and> outcomes st' = []"
  using vsaprintf_plain [of uid_key "[VInt v]" "cs ''uid-'' @ dec (unat v)" st] assms by (auto simp: key_of_def uid_key_def)

lemma robject_get_access_ok:
  assumes "o_objs s ro = Some ob" and "ro \<noteq> 0" and "outcomes (mem_of s) = []" and "tbl_ok (accs_table ob) am"
  shows "\<exists>st. robject_get_access user s ro source = Some (access_of am (user (RP_PID source)), set_mem s st) \<and> outcomes st = []"
proof -
  obtain st where "key_of uid_key (user (RP_PID source)) (mem_of s) = Some (Some (cs ''uid-'' @ dec (unat (user (RP_PID source)))), st)" "outcomes st = []"
    using key_uid [OF assms(3)] by blast
  then show ?thesis using assms(1,2) tbl_get [OF assms(4)]
    by (intro exI [of _ "tfree st"]) (simp add: robject_get_access_def s_table_getv_def access_of_def RP_PID_ucast Let_def)
qed

lemma set_mem_set_mem [simp]: "set_mem (set_mem s st) st' = set_mem s st'"
  by (simp add: set_mem_def)

lemma ret_text_ok: "outcomes (mem_of s) = [] \<Longrightarrow> \<exists>st. ret_text s t = Some (Some t, set_mem s st) \<and> outcomes st = []"
  by (intro exI [of _ "(mem_of s)\<lparr>live := live (mem_of s) + 1\<rparr>"]) (simp add: ret_text_def strdup_ok)

lemma ret_error_ok:
  assumes "outcomes (mem_of s) = []" and "0 < e" and "e < 76"
  shows "\<exists>st. ret_error s e = Some (Some (errorstr_table ! nat (e - 1)), set_mem s st) \<and> outcomes st = []"
  using assms by (intro exI [of _ "(mem_of s)\<lparr>live := live (mem_of s) + 1\<rparr>"]) (simp add: ret_error_def errorstr_def strdup_ok)

section \<open>Opening\<close>

text \<open>The object with its access rights and the statuses it was opened with.\<close>

definition opened :: "driver \<Rightarrow> ptr \<Rightarrow> (u8 list \<Rightarrow> ptr) \<Rightarrow> (u8 list \<Rightarrow> ptr) \<Rightarrow> bool" where
  "opened s self am om \<longleftrightarrow> self \<noteq> 0 \<and> outcomes (mem_of s) = [] \<and>
     (\<exists>ob. o_objs s self = Some ob \<and> tbl_ok (accs_table ob) am \<and> tbl_ok (open_table ob) om)"

lemma opened_mem: "opened s self am om \<Longrightarrow> outcomes st = [] \<Longrightarrow> opened (set_mem s st) self am om"
  by (auto simp: opened_def)

lemma opened_put:
  "opened s self am om \<Longrightarrow> o_objs s self = Some ob \<Longrightarrow> tbl_ok (Some t) om' \<Longrightarrow> outcomes st = [] \<Longrightarrow>
    opened (put_obj s self (ob\<lparr>open_table := Some t\<rparr>) st) self am om'"
  by (auto simp: opened_def)

lemma index_mem [simp]: "robject_get (o_idx (set_mem s st)) i = robject_get (o_idx s) i"
  "robject_get (o_idx (put_obj s ro ob st)) i = robject_get (o_idx s) i"
  by (simp_all add: robject_get_def index_get_def set_mem_def put_obj_def)

lemma opened_upd:
  assumes "opened s self am om" and "card {f. om f \<noteq> 0} < 2 ^ 26"
  shows "\<exists>s'. robject_open s self src status = Some s' \<and> opened s' self am (om(sdec (RP_PID src) := status)) \<and>
      robject_get (o_idx s') = robject_get (o_idx s)"
    and "robject_close s self src = robject_open s self src 0"
proof -
  obtain ob where ob: "self \<noteq> 0" "outcomes (mem_of s) = []" "o_objs s self = Some ob" "tbl_ok (open_table ob) om"
    using assms(1) by (auto simp: opened_def)
  obtain st t where u: "do { (f, st) \<leftarrow> key_of [37, 100] (RP_PID src) (mem_of s); (t, st) \<leftarrow> s_table_setv st (open_table ob) status f;
        Some (put_obj s self (ob\<lparr>open_table := t\<rparr>) st) } = Some (put_obj s self (ob\<lparr>open_table := Some t\<rparr>) st)"
      "tbl_ok (Some t) (om(sdec (RP_PID src) := status))" "outcomes st = []"
    using open_table_upd [OF ob(2,4) assms(2)] by blast
  have "robject_open s self src status = Some (put_obj s self (ob\<lparr>open_table := Some t\<rparr>) st)"
    using u(1) ob(1,3) by (simp add: robject_open_def)
  moreover have "robject_get (o_idx (put_obj s self (ob\<lparr>open_table := Some t\<rparr>) st)) = robject_get (o_idx s)" by (simp add: fun_eq_iff)
  ultimately show "\<exists>s'. robject_open s self src status = Some s' \<and> opened s' self am (om(sdec (RP_PID src) := status)) \<and>
      robject_get (o_idx s') = robject_get (o_idx s)"
    using opened_put [OF assms(1) ob(3) u(2,3)] by blast
  show "robject_close s self src = robject_open s self src 0" by (simp add: robject_close_def robject_open_def)
qed

lemma opened_rtab [simp]: "opened (s\<lparr>rtab_log := l\<rparr>) self am om = opened s self am om"
  by (simp add: opened_def)

lemma core_open_ok:
  fixes env :: drv_env and src :: u64 and a :: "u8 list"
  assumes "opened s self am om" and "card {f. om f \<noteq> 0} < 2 ^ 26"
  defines "rights \<equiv> access_of am (v_user env (RP_PID src))" and "status \<equiv> atoi_v a"
  shows "\<exists>s'. robject_get (o_idx s') = robject_get (o_idx s) \<and>
    (if (status AND NOT STAT_OPEN) AND rights = status AND NOT STAT_OPEN
     then core_open env s self src [c, a] = Some (Some (cs ''T''), s') \<and> opened s' self am (om(sdec (RP_PID src) := status))
     else core_open env s self src [c, a] = Some (Some (cs ''! denied''), s') \<and> opened s' self am om)"
proof -
  obtain ob where ob: "self \<noteq> 0" "outcomes (mem_of s) = []" "o_objs s self = Some ob" "tbl_ok (accs_table ob) am"
    using assms(1) by (auto simp: opened_def)
  obtain st where st: "robject_get_access (v_user env) s self src = Some (rights, set_mem s st)" "outcomes st = []"
    using robject_get_access_ok [OF ob(3,1,2,4)] unfolding rights_def by blast
  let ?s = "set_mem s st"
  have c: "robject_check_access (v_user env) s self src x = Some (x AND rights = x, ?s)" for x
    using st by (simp add: robject_check_access_def)
  have o1: "opened ?s self am om" using opened_mem [OF assms(1) st(2)] .
  show ?thesis
  proof (cases "(status AND NOT STAT_OPEN) AND rights = status AND NOT STAT_OPEN")
    case True
    define s1 where "s1 = (if status \<noteq> 0 then ?s\<lparr>rtab_log := rtab_log ?s @ [(RP_PID src, RP_CONS (v_pid env) (o_index ob))]\<rparr> else ?s)"
    have s1: "opened s1 self am om" "robject_get (o_idx s1) = robject_get (o_idx s)" using o1 by (auto simp: s1_def fun_eq_iff)
    obtain s2 where s2: "robject_open s1 self src status = Some s2" "opened s2 self am (om(sdec (RP_PID src) := status))"
      "robject_get (o_idx s2) = robject_get (o_idx s1)" using opened_upd(1) [OF s1(1) assms(2)] by blast
    have "outcomes (mem_of s2) = []" using s2(2) by (simp add: opened_def)
    then obtain st3 where st3: "ret_text s2 (cs ''T'') = Some (Some (cs ''T''), set_mem s2 st3)" "outcomes st3 = []" using ret_text_ok by blast
    have "core_open env s self src [c, a] = ret_text s2 (cs ''T'')"
      using c True s2(1) ob(3) by (simp add: core_open_def status_def [symmetric] s1_def Let_def del: cs_simps)
    then show ?thesis using True st3 opened_mem [OF s2(2) st3(2)] s2(3) s1(2) by (auto simp: fun_eq_iff)
  next
    case False
    obtain st3 where st3: "ret_error ?s EACCES = Some (Some (cs ''! denied''), set_mem s st3)" "outcomes st3 = []"
      using ret_error_ok [of ?s 2] st(2) by (auto simp: errorstr_table_def errorstr_names_def)
    have "core_open env s self src [c, a] = ret_error ?s EACCES"
      using c False by (simp add: core_open_def status_def [symmetric] Let_def)
    then show ?thesis using False st3 opened_mem [OF assms(1) st3(2)] by (auto simp: fun_eq_iff)
  qed
qed

section \<open>Histories of an object\<close>

text \<open>What clients do to an object: open it with the status that a string asks for, and close it.\<close>

datatype open_event = Open u64 "u8 list" | Close u64

definition client_event :: "drv_env \<Rightarrow> ptr \<Rightarrow> open_event \<Rightarrow> driver \<Rightarrow> driver option" where
  "client_event env self ev s = (case ev of
     Open src a \<Rightarrow> do { (_, s) \<leftarrow> core_open env s self src [cs ''open'', a]; Some s }
   | Close src \<Rightarrow> do { (_, s) \<leftarrow> core_close s self src [cs ''close'']; Some s })"

text \<open>Nobody has an object open with a status that the access rights do not allow.\<close>

definition within_rights :: "drv_env \<Rightarrow> (u8 list \<Rightarrow> ptr) \<Rightarrow> (u8 list \<Rightarrow> ptr) \<Rightarrow> bool" where
  "within_rights env am om \<longleftrightarrow> (\<forall>pid. (om (sdec pid) AND NOT STAT_OPEN) AND access_of am (v_user env pid) = om (sdec pid) AND NOT STAT_OPEN)"

lemma opened_finite: "opened s self am om \<Longrightarrow> finite {f. om f \<noteq> 0}"
  using tbl_finite by (auto simp: opened_def)

lemma card_fun_upd: "finite {f. om f \<noteq> 0} \<Longrightarrow> card {f. (om(k := v :: ptr)) f \<noteq> 0} \<le> Suc (card {f. om f \<noteq> 0})"
proof -
  assume f: "finite {f. om f \<noteq> 0}"
  have "card {f. (om(k := v)) f \<noteq> 0} \<le> card (insert k {f. om f \<noteq> 0})" by (rule card_mono) (use f in auto)
  also have "\<dots> \<le> Suc (card {f. om f \<noteq> 0})" by (rule card_insert_le_m1) simp_all
  finally show ?thesis .
qed

lemma client_event_ok:
  assumes "opened s self am om" and "card {f. om f \<noteq> 0} < 2 ^ 26" and "within_rights env am om"
  shows "\<exists>s' om'. client_event env self ev s = Some s' \<and> opened s' self am om' \<and> within_rights env am om' \<and>
    card {f. om' f \<noteq> 0} \<le> Suc (card {f. om f \<noteq> 0}) \<and> robject_get (o_idx s') = robject_get (o_idx s)"
proof (cases ev)
  case (Open src a)
  let ?st = "atoi_v a" and ?rights = "access_of am (v_user env (RP_PID src))"
  obtain s' where s': "robject_get (o_idx s') = robject_get (o_idx s)"
    "if (?st AND NOT STAT_OPEN) AND ?rights = ?st AND NOT STAT_OPEN
     then core_open env s self src [cs ''open'', a] = Some (Some (cs ''T''), s') \<and> opened s' self am (om(sdec (RP_PID src) := ?st))
     else core_open env s self src [cs ''open'', a] = Some (Some (cs ''! denied''), s') \<and> opened s' self am om"
    using core_open_ok [OF assms(1,2)] by blast
  show ?thesis
  proof (cases "(?st AND NOT STAT_OPEN) AND ?rights = ?st AND NOT STAT_OPEN")
    case True
    have "within_rights env am (om(sdec (RP_PID src) := ?st))" using assms(3) True by (simp add: within_rights_def sdec_inj)
    then show ?thesis using s' True card_fun_upd [OF opened_finite [OF assms(1)]] Open
      by (intro exI [of _ s'] exI [of _ "om(sdec (RP_PID src) := ?st)"]) (simp add: client_event_def del: cs_simps)
  next
    case False
    then show ?thesis using s' assms(3) Open by (intro exI [of _ s'] exI [of _ om]) (simp add: client_event_def del: cs_simps)
  qed
next
  case (Close src)
  obtain s1 where s1: "robject_close s self src = Some s1" "opened s1 self am (om(sdec (RP_PID src) := 0))"
    "robject_get (o_idx s1) = robject_get (o_idx s)" using opened_upd [OF assms(1,2)] by metis
  obtain st where st: "ret_text s1 (cs ''T'') = Some (Some (cs ''T''), set_mem s1 st)" "outcomes st = []"
    using ret_text_ok s1(2) unfolding opened_def by blast
  have "within_rights env am (om(sdec (RP_PID src) := 0))" using assms(3) by (simp add: within_rights_def sdec_inj)
  then show ?thesis using s1(1,3) st(1) opened_mem [OF s1(2) st(2)] card_fun_upd [OF opened_finite [OF assms(1)]] Close
    by (intro exI [of _ "set_mem s1 st"] exI [of _ "om(sdec (RP_PID src) := 0)"]) (simp add: client_event_def core_close_def fun_eq_iff del: cs_simps)
qed

lemma client_events_ok:
  "opened s self am om \<Longrightarrow> card {f. om f \<noteq> 0} + length evs < 2 ^ 26 \<Longrightarrow> within_rights env am om \<Longrightarrow>
    \<exists>s' om'. for_list (client_event env self) evs s = Some s' \<and> opened s' self am om' \<and> within_rights env am om' \<and>
      robject_get (o_idx s') = robject_get (o_idx s)"
proof (induction evs arbitrary: s om)
  case (Cons ev evs)
  obtain s1 om1 where 1: "client_event env self ev s = Some s1" "opened s1 self am om1" "within_rights env am om1"
    "card {f. om1 f \<noteq> 0} \<le> Suc (card {f. om f \<noteq> 0})" "robject_get (o_idx s1) = robject_get (o_idx s)"
    using client_event_ok [OF Cons.prems(1) _ Cons.prems(3), of ev] Cons.prems(2) by auto
  then have "card {f. om1 f \<noteq> 0} + length evs < 2 ^ 26" using Cons.prems(2) by simp
  then show ?case using Cons.IH [OF 1(2) _ 1(3)] 1(1,5) by auto
qed auto

section \<open>Refused messages\<close>

lemma and_sub:
  fixes x :: u32
  assumes "x AND a = x" and "a AND b = 0"
  shows "x AND b = 0"
proof -
  have "x AND b = x AND (a AND b)" using arg_cong [OF assms(1), of "\<lambda>v. v AND b"] by (simp add: and.assoc)
  then show ?thesis using assms(2) by simp
qed

text \<open>The empty reply to a message that is refused.\<close>

definition refusal :: "message \<Rightarrow> message" where
  "refusal m = m\<lparr>m_length := 0, m_source := m_target m, m_target := m_source m, m_port := PORT_REPLY\<rparr>"

lemma fail_msg_ok:
  assumes "msgs p msg = Some m" and "msg \<noteq> 0" and "msg mod PAGESZ = 0" and "RP_PID (m_target m) = x_pid tx"
  shows "fail_msg tx p msg = Some (p\<lparr>msgs := (msgs p)(msg := None), sends := sends p @ [(refusal m, 1, RP_PID (m_source m))]\<rparr>)"
  using assms by (simp add: fail_msg_def merror_def mreply_def msend_def refusal_def Let_def)

text \<open>
  C28. Only who has the right to write can write: whatever statuses clients ask for when they open and close a new object, and however
  often, a write to it from a process whose user does not have write access is refused. The writer gets an empty reply and what the
  driver stores behind its hooks stays as it is.\<close>

theorem write_needs_access:
  assumes "o_objs s file = Some ob" and "file \<noteq> 0" and "open_table ob = None" and "tbl_ok (accs_table ob) am" and "outcomes (ro_mem (o_idx s)) = []"
    and "robject_get (o_idx s) (RP_INDEX (m_target m)) = file" and "length evs < 2 ^ 26"
    and "access_of am (v_user env (RP_PID (m_source m))) AND STAT_WRITER = 0"
    and "msgs p msg = Some m" and "msg \<noteq> 0" and "msg mod PAGESZ = 0" and "RP_PID (m_target m) = x_pid tx"
  shows "\<exists>s1 s2. for_list (client_event env file) evs s = Some s1 \<and>
    rdi_write hooks io tx (s1, p, h) msg =
      Some (s2, p\<lparr>msgs := (msgs p)(msg := None), sends := sends p @ [(refusal m, 1, RP_PID (m_source m))]\<rparr>, h)"
proof -
  have o0: "opened s file am (\<lambda>_. 0)" using assms(1-5) by (auto simp: opened_def tbl_ok_def)
  obtain s1 om where 1: "for_list (client_event env file) evs s = Some s1" "opened s1 file am om" "within_rights env am om"
    "robject_get (o_idx s1) = robject_get (o_idx s)"
    using client_events_ok [OF o0, of evs env] assms(7) by (auto simp: within_rights_def)
  let ?k = "om (sdec (RP_PID (m_source m)))"
  obtain ob1 where ob1: "o_objs s1 file = Some ob1" "tbl_ok (open_table ob1) om" "outcomes (mem_of s1) = []" using 1(2) by (auto simp: opened_def)
  obtain st where st: "robject_stat s1 file (m_source m) = Some (?k, set_mem s1 st)" "outcomes st = []"
    using robject_stat_ok [OF ob1(1) assms(2) ob1(3,2)] by blast
  have "(?k AND NOT STAT_OPEN) AND access_of am (v_user env (RP_PID (m_source m))) = ?k AND NOT STAT_OPEN"
    using 1(3) by (simp add: within_rights_def)
  then have "(?k AND NOT STAT_OPEN) AND STAT_WRITER = 0"
    by (rule and_sub) (rule assms(8))
  then have "?k AND STAT_WRITER = 0" by (simp add: and.assoc)
  then have "robject_check_status s1 file (m_source m) STAT_WRITER = Some (False, set_mem s1 st)"
    using st(1) by (simp add: robject_check_status_def and.commute)
  then show ?thesis using 1(1,4) assms(2,6,9) fail_msg_ok [OF assms(9-12)]
    by (intro exI [of _ s1] exI [of _ "if m_length m < 8 then s1 else set_mem s1 st"]) (simp add: rdi_write_def Let_def)
qed

text \<open>A driver with one object of index 1, which nobody but the driver may use.\<close>

definition lone_index :: robjects where
  "lone_index = robjects_init\<lparr>ro_table := (replicate 256 Null)[unat (index_hash 1) := Bucket Null Null 0 0 1 0x40]\<rparr>"

definition lone_driver :: driver where
  "lone_driver = \<lparr>o_objs = [0x40 \<mapsto> empty_object\<lparr>o_index := 1\<rparr>], o_idx = lone_index, texts = Map.empty, dirents = Map.empty, offs = Map.empty,
     rtab_log = [], rcall_table = None, class_core = 0, class_dir = 0, class_link = 0, class_file = 0, cons_file_hook = 0, cons_dir_hook = 0,
     cons_link_hook = 0\<rparr>"

definition lone_env :: drv_env where
  "lone_env = \<lparr>v_pid = 5, v_user = (\<lambda>pid. pid), v_pname = [], v_obj = (\<lambda>_. 0), v_text = (\<lambda>_. 0), v_node = (\<lambda>_. 0)\<rparr>"

definition write_msg :: message where
  "write_msg = \<lparr>m_source = 7, m_target = RP_CONS 5 1, m_length = 9, m_port = PORT_WRITE, m_arch = ARCH_NAT, m_data = replicate 9 0\<rparr>"

definition lone_ipc :: ipc where
  "lone_ipc = \<lparr>mqueues = (\<lambda>_. \<lparr>q_back = 0, q_front = 0, q_mutex = False\<rparr>), mqueue_policy = (\<lambda>_. False), qnodes = Map.empty,
     msgs = [0x1000 \<mapsto> write_msg], event_handler = (\<lambda>_. 0), handled = [], sends = []\<rparr>"

definition lone_io :: "u8 list io_hooks" where
  "lone_io = \<lparr>g_read = 0, g_write = 1, g_share = 0, read_fn = (\<lambda>_ _ _ _ _ _. None), write_fn = (\<lambda>_ _ _ buf _ _. Some (1, buf)),
     share_fn = (\<lambda>_ _ _ _ _ _ _. None)\<rparr>"

lemma lone_get: "robject_get (o_idx lone_driver) 1 = 0x40"
  by (simp add: lone_driver_def lone_index_def robjects_init_def robject_get_def index_get_def index_hash_def)

lemma write_msg_target: "RP_INDEX (m_target write_msg) = 1" "RP_PID (m_target write_msg) = 5" "m_source write_msg = 7"
  by (simp_all add: write_msg_def RP_CONS_def RP_INDEX_def RP_PID_def)

theorem write_needs_access_witness:
  "\<exists>s1 s2 p'. for_list (client_event lone_env 0x40) [Open 7 [52], Open 8 [55], Close 8] lone_driver = Some s1 \<and>
    rdi_write (\<lambda>_ _ _ _ _. None) lone_io \<lparr>x_pid = 5, x_aalloc = (\<lambda>_. 0), x_send = (\<lambda>_ _ _ _. 0)\<rparr> (s1, lone_ipc, []) 0x1000 = Some (s2, p', [])"
proof -
  have h: "o_objs lone_driver 0x40 = Some (empty_object\<lparr>o_index := 1\<rparr>)" "(0x40 :: ptr) \<noteq> 0" "open_table (empty_object\<lparr>o_index := 1\<rparr>) = None"
      "tbl_ok (accs_table (empty_object\<lparr>o_index := 1\<rparr>)) (\<lambda>_. 0)" "outcomes (ro_mem (o_idx lone_driver)) = []"
      "robject_get (o_idx lone_driver) (RP_INDEX (m_target write_msg)) = 0x40" "length [Open 7 [52], Open 8 [55], Close 8] < 2 ^ 26"
      "access_of (\<lambda>_. 0) (v_user lone_env (RP_PID (m_source write_msg))) AND STAT_WRITER = 0"
      "msgs lone_ipc 0x1000 = Some write_msg" "(0x1000 :: ptr) \<noteq> 0" "(0x1000 :: ptr) mod PAGESZ = 0"
      "RP_PID (m_target write_msg) = x_pid \<lparr>x_pid = 5, x_aalloc = (\<lambda>_. 0), x_send = (\<lambda>_ _ _ _. 0)\<rparr>"
    by (simp_all add: lone_get write_msg_target access_of_def lone_ipc_def)
      (simp_all add: lone_driver_def lone_index_def robjects_init_def empty_object_def tbl_ok_def)
  show ?thesis using write_needs_access [OF h, where hooks = "\<lambda>_ _ _ _ _. None" and io = lone_io and h = "[]"] by blast
qed

end
