(* ===== verification/Driver_Paths.thy ===== *)
theory Driver_Paths
  imports Driver_Access
begin

text \<open>
  Types of objects and paths in a driver: the type string that an object inherits from its classes, and the object that a
  path leads to.
\<close>

section \<open>Inherited calls\<close>

inductive resolves :: "(ptr \<Rightarrow> robject option) \<Rightarrow> ptr \<Rightarrow> u8 list \<Rightarrow> ptr \<Rightarrow> bool" where
  own: "objs q = Some ob \<Longrightarrow> q \<noteq> 0 \<Longrightarrow> tbl_ok (call_table ob) m \<Longrightarrow> m name = h \<Longrightarrow> h \<noteq> 0 \<Longrightarrow> resolves objs q name h"
| inherited: "objs q = Some ob \<Longrightarrow> q \<noteq> 0 \<Longrightarrow> tbl_ok (call_table ob) m \<Longrightarrow> m name = 0 \<Longrightarrow> resolves objs (o_parent ob) name h \<Longrightarrow>
    resolves objs q name h"

lemma resolves_call: "resolves (o_objs s) q name h \<Longrightarrow> robject_get_call s q (Some name) = Some h \<and> h \<noteq> 0"
proof (induction "o_objs s" q name h rule: resolves.induct)
  case (own q ob m name h)
  then show ?case using tbl_get [OF own.hyps(3), of name] by (subst robject_get_call.simps) simp
next
  case (inherited q ob m name h)
  then show ?case using tbl_get [OF inherited.hyps(3), of name] by (subst robject_get_call.simps) simp
qed

text \<open>A call without arguments and without a guard runs its hook.\<close>

lemma plain_call:
  assumes "resolves (o_objs s) q name h" and "o_objs s q = Some ob" and "tbl_ok (call_stat_table ob) sm" and "sm name = 0"
    and "tokens [32] name = [name]" and "\<forall>c \<in> set name. c < 0x80" and "outcomes (mem_of s) = []"
  shows "\<exists>st. outcomes st = [] \<and> robject_call hooks s q src name =
    do { (rets, s) \<leftarrow> hooks h (set_mem s st) q src [name]; Some (rets, free_argv s [name]) }"
proof -
  obtain st where st: "strparse (mem_of s) name [32] = Some ([name], st)" "outcomes st = []"
    using strparse_ok [OF assms(6,7)] assms(5) by auto
  have "robject_get_call (set_mem s st) q (Some name) = Some h" "h \<noteq> 0" using resolves_call [of "set_mem s st"] assms(1) by simp_all
  then show ?thesis using st assms(2,4) tbl_get [OF assms(3), of name]
    by (intro exI [of _ st]) (simp add: robject_call_def)
qed

section \<open>Types\<close>

lemma tokens_type: "tokens [32] (cs ''type'') = [cs ''type'']" "\<forall>c \<in> set (cs ''type''). c < (0x80 :: u8)"
  by (simp_all add: tokens.simps)

text \<open>What an object needs so that the type of an object can be asked for: the call, without a guard.\<close>

definition type_call :: "driver \<Rightarrow> ptr \<Rightarrow> robject \<Rightarrow> ptr \<Rightarrow> bool" where
  "type_call s q ob d \<longleftrightarrow> q \<noteq> 0 \<and> o_objs s q = Some ob \<and> resolves (o_objs s) q (cs ''type'') H_type \<and>
     (\<exists>sm. tbl_ok (call_stat_table ob) sm \<and> sm (cs ''type'') = 0) \<and> (\<exists>dm. tbl_ok (data_table ob) dm \<and> dm (cs ''type'') = d)"

lemma type_callI:
  "q \<noteq> 0 \<Longrightarrow> o_objs s q = Some ob \<Longrightarrow> resolves (o_objs s) q (cs ''type'') H_type \<Longrightarrow> tbl_ok (call_stat_table ob) sm \<Longrightarrow> sm (cs ''type'') = 0 \<Longrightarrow>
    tbl_ok (data_table ob) dm \<Longrightarrow> dm (cs ''type'') = d \<Longrightarrow> type_call s q ob d"
  unfolding type_call_def by blast

inductive typed :: "driver \<Rightarrow> ptr \<Rightarrow> u8 list \<Rightarrow> bool" for s where
  top: "type_call s q ob d \<Longrightarrow> o_parent ob = 0 \<Longrightarrow> d \<noteq> 0 \<Longrightarrow> text_of s d = Some t \<Longrightarrow> typed s q t"
| sub: "type_call s q ob d \<Longrightarrow> typed s (o_parent ob) pt \<Longrightarrow> d \<noteq> 0 \<Longrightarrow> text_of s d = Some t \<Longrightarrow> typed s q (t @ 32 # pt)"
| same: "type_call s q ob d \<Longrightarrow> typed s (o_parent ob) pt \<Longrightarrow> d = 0 \<Longrightarrow> typed s q pt"

lemma driver_mem [simp]:
  fixes s :: driver
  shows "texts (set_mem s st) = texts s" "dirents (set_mem s st) = dirents s"
    "texts (put_obj s q ob st) = texts s" "dirents (put_obj s q ob st) = dirents s"
  by (cases s; simp add: set_mem_def put_obj_def)+

lemma text_of_mem [simp]: "text_of (set_mem s st) d = text_of s d"
  by (cases "literals d") (simp_all add: text_of_def)

lemma outcomes_free_argv [simp]: "outcomes (ro_mem (o_idx (free_argv s argv))) = outcomes (ro_mem (o_idx s))"
proof -
  have "outcomes (fold (\<lambda>_. tfree) argv st) = outcomes st" for st :: tmem by (induction argv arbitrary: st) simp_all
  then show ?thesis by (simp add: free_argv_def)
qed

lemma free_argv_mem: "free_argv (set_mem s st) argv = set_mem s (ro_mem (o_idx (free_argv (set_mem s st) argv)))"
  by (simp add: free_argv_def)

lemma type_call_ok:
  assumes "type_call s q ob d" and "outcomes st = []"
    and c: "\<And>st. outcomes st = [] \<Longrightarrow> \<exists>st'. outcomes st' = [] \<and> core_type (rdi_hook env own) (set_mem s st) q src [cs ''type''] = Some (Some t, set_mem s st')"
  shows "\<exists>st'. outcomes st' = [] \<and> robject_call (rdi_hook env own) (set_mem s st) q src (cs ''type'') = Some (Some t, set_mem s st')"
proof -
  obtain sm where a: "q \<noteq> 0" "o_objs s q = Some ob" "resolves (o_objs s) q (cs ''type'') H_type" "tbl_ok (call_stat_table ob) sm" "sm (cs ''type'') = 0"
    using assms(1) unfolding type_call_def by blast
  obtain st1 where 1: "outcomes st1 = []" "robject_call (rdi_hook env own) (set_mem s st) q src (cs ''type'') =
      do { (rets, s) \<leftarrow> rdi_hook env own H_type (set_mem (set_mem s st) st1) q src [cs ''type'']; Some (rets, free_argv s [cs ''type'']) }"
    using plain_call [of "set_mem s st" q "cs ''type''" H_type ob sm "rdi_hook env own" src] a tokens_type assms(2) by auto
  obtain st2 where 2: "outcomes st2 = []" "core_type (rdi_hook env own) (set_mem s st1) q src [cs ''type''] = Some (Some t, set_mem s st2)"
    using c [OF 1(1)] by blast
  have "rdi_hook env own H_type (set_mem s st1) q src [cs ''type''] = Some (Some t, set_mem s st2)"
    using 2(2) by (subst rdi_hook.simps) simp
  then show ?thesis using 1(2) 2(1) free_argv_mem [of s st2 "[cs ''type'']"]
    by (intro exI [of _ "ro_mem (o_idx (free_argv (set_mem s st2) [cs ''type'']))"]) (simp del: cs_simps)
qed

lemma no_object_call: 
  assumes "outcomes st = []" and "\<forall>c \<in> set args. c < 0x80" and "tokens [32] args = n # ns"
  shows "\<exists>st'. outcomes st' = [] \<and> robject_call hooks (set_mem s st) 0 src args = Some (None, set_mem s st')"
proof -
  obtain st1 where 1: "strparse st args [32] = Some (n # ns, st1)" "outcomes st1 = []" using strparse_ok [OF assms(2,1)] assms(3) by auto
  have "robject_get_call (set_mem s st1) 0 (Some n) = Some 0" by (subst robject_get_call.simps) simp
  then show ?thesis using 1 free_argv_mem [of s st1 "n # ns"]
    by (intro exI [of _ "ro_mem (o_idx (free_argv (set_mem s st1) (n # ns)))"]) (simp add: robject_call_def)
qed

lemma typed_call:
  fixes st :: tmem
  shows "typed s q t \<Longrightarrow> outcomes st = [] \<Longrightarrow>
    \<exists>st'. outcomes st' = [] \<and> robject_call (rdi_hook env own) (set_mem s st) q src (cs ''type'') = Some (Some t, set_mem s st')"
proof (induction q t arbitrary: st rule: typed.induct)
  case (top q ob d t)
  obtain dm where d: "q \<noteq> 0" "o_objs s q = Some ob" "tbl_ok (data_table ob) dm" "dm (cs ''type'') = d" using top.hyps(1) unfolding type_call_def by blast
  show ?case
  proof (rule type_call_ok [OF top.hyps(1) top.prems])
    fix st :: tmem assume o: "outcomes st = []"
    obtain st1 where 1: "outcomes st1 = []" "robject_call (rdi_hook env own) (set_mem s st) 0 src (cs ''type'') = Some (None, set_mem s st1)"
      using no_object_call [OF o tokens_type(2,1)] by blast
    obtain st2 where 2: "ret_text (set_mem s st1) t = Some (Some t, set_mem s st2)" "outcomes st2 = []" using ret_text_ok [of "set_mem s st1" t] 1(1) by auto
    then show "\<exists>st'. outcomes st' = [] \<and> core_type (rdi_hook env own) (set_mem s st) q src [cs ''type''] = Some (Some t, set_mem s st')"
      using 1(2) d top.hyps tbl_get [OF d(3), of "cs ''type''"]
      by (intro exI [of _ st2]) (simp add: core_type_def robject_data_def robject_get_data_def del: cs_simps)
  qed
next
  case (sub q ob d pt t)
  obtain dm where d: "q \<noteq> 0" "o_objs s q = Some ob" "tbl_ok (data_table ob) dm" "dm (cs ''type'') = d" using sub.hyps(1) unfolding type_call_def by blast
  show ?case
  proof (rule type_call_ok [OF sub.hyps(1) sub.prems])
    fix st :: tmem assume o: "outcomes st = []"
    obtain st1 where 1: "outcomes st1 = []" "robject_call (rdi_hook env own) (set_mem s st) (o_parent ob) src (cs ''type'') = Some (Some pt, set_mem s st1)"
      using sub.IH [OF o] by blast
    have 2: "strvcat st1 [Some t, Some [32], Some pt, None] = (Some (t @ 32 # pt), st1\<lparr>live := live st1 + 1\<rparr>)"
      using 1(1) by (simp add: strvcat_def tmalloc_ok)
    then show "\<exists>st'. outcomes st' = [] \<and> core_type (rdi_hook env own) (set_mem s st) q src [cs ''type''] = Some (Some (t @ 32 # pt), set_mem s st')"
      using 1 d sub.hyps tbl_get [OF d(3), of "cs ''type''"]
      by (intro exI [of _ "tfree (st1\<lparr>live := live st1 + 1\<rparr>)"]) (simp add: core_type_def robject_data_def robject_get_data_def del: cs_simps)
  qed
next
  case (same q ob d pt)
  obtain dm where d: "q \<noteq> 0" "o_objs s q = Some ob" "tbl_ok (data_table ob) dm" "dm (cs ''type'') = d" using same.hyps(1) unfolding type_call_def by blast
  show ?case
  proof (rule type_call_ok [OF same.hyps(1) same.prems])
    fix st :: tmem assume o: "outcomes st = []"
    obtain st1 where 1: "outcomes st1 = []" "robject_call (rdi_hook env own) (set_mem s st) (o_parent ob) src (cs ''type'') = Some (Some pt, set_mem s st1)"
      using same.IH [OF o] by blast
    then show "\<exists>st'. outcomes st' = [] \<and> core_type (rdi_hook env own) (set_mem s st) q src [cs ''type''] = Some (Some pt, set_mem s st')"
      using d same.hyps tbl_get [OF d(3), of "cs ''type''"]
      by (intro exI [of _ st1]) (simp add: core_type_def robject_data_def robject_get_data_def del: cs_simps)
  qed
qed

lemma check_type_ok:
  assumes "typed s q t" and "outcomes st = []"
  shows "\<exists>st'. outcomes st' = [] \<and> robject_check_type (rdi_hook env own) (set_mem s st) q ty = Some (if has_substring t ty then 1 else 0, set_mem s st')"
proof -
  obtain st1 where 1: "outcomes st1 = []" "robject_call (rdi_hook env own) (set_mem s st) q 0 (cs ''type'') = Some (Some t, set_mem s st1)"
    using typed_call [OF assms] by blast
  then show ?thesis by (intro exI [of _ "tfree st1"]) (simp add: robject_check_type_def)
qed

section \<open>Paths\<close>

text \<open>
  Where names lead from an object, through objects that are no links: the entry of each directory, or nowhere, as soon as an entry is missing.
\<close>

inductive leads :: "driver \<Rightarrow> ptr \<Rightarrow> u8 list list \<Rightarrow> ptr \<Rightarrow> bool" for s where
  here: "q \<noteq> 0 \<Longrightarrow> leads s q [] q"
| nowhere: "leads s 0 ns 0"
| step: "q \<noteq> 0 \<Longrightarrow> o_objs s q = Some ob \<Longrightarrow> tbl_ok (data_table ob) dm \<Longrightarrow> typed s q t \<Longrightarrow> \<not> has_substring t (cs ''link'') \<Longrightarrow>
    leads s (dm (dirent_key n)) ns r \<Longrightarrow> leads s q (n # ns) r"

lemma dir_walk_ok:
  fixes st :: tmem
  shows "leads s q ns r \<Longrightarrow> outcomes st = [] \<Longrightarrow> pos \<le> length path \<Longrightarrow> comps (drop pos path) = ns \<Longrightarrow>
    \<exists>st'. outcomes st' = [] \<and> dir_walk (rdi_hook env own) (set_mem s st) q (at path pos) = Some (r, None, set_mem s st')"
proof (induction q ns r arbitrary: st pos rule: leads.induct)
  case (here q)
  obtain p where p: "path_next st (at path pos) = Some (None, p, st)" using path_next_ok(1) [OF here.prems(1,2,3)] by blast
  then show ?case using here.hyps here.prems(1)
    by (intro exI [of _ "if p = None then st else tfree st"]) (subst dir_walk.simps, simp add: Let_def)
next
  case (nowhere ns)
  then show ?case by (intro exI [of _ st]) (subst dir_walk.simps, simp)
next
  case (step q ob dm t n ns r)
  obtain pos' where p: "path_next st (at path pos) = Some (Some n, at path pos', st\<lparr>live := live st + 1\<rparr>)" "pos' \<le> length path"
    "comps (drop pos' path) = ns" using path_next_ok(2) [OF step.prems(1,2,3)] by blast
  obtain st1 where 1: "outcomes st1 = []"
    "robject_check_type (rdi_hook env own) (set_mem s (st\<lparr>live := live st + 1\<rparr>)) q (cs ''link'') = Some (0, set_mem s st1)"
    using check_type_ok [OF step.hyps(4), of "st\<lparr>live := live st + 1\<rparr>" env own "cs ''link''"] step.prems(1) step.hyps(5) by auto
  have 2: "strvcat st1 [Some (cs ''dirent-''), Some n, None] = (Some (dirent_key n), st1\<lparr>live := live st1 + 1\<rparr>)"
    using 1(1) by (simp add: strvcat_def tmalloc_ok dirent_key_def)
  let ?st = "tfree_string (Some (dirent_key n)) (st1\<lparr>live := live st1 + 1\<rparr>)"
  have "dir_walk (rdi_hook env own) (set_mem s st) q (at path pos) =
      dir_walk (rdi_hook env own) (set_mem s ?st) (dm (dirent_key n)) (at path pos')"
    using step.hyps(1,2) p(1) 1(2) 2 tbl_get [OF step.hyps(3)]
    by (subst dir_walk.simps) (simp add: robject_data_def robject_get_data_def del: cs_simps)
  then show ?case using step.IH [OF _ p(2,3), of ?st] 1(1) by (simp add: tfree_string_def)
qed

lemma find_path_ok:
  assumes "leads s q (comps path) r" and "outcomes (mem_of s) = []"
  shows "\<exists>st. outcomes st = [] \<and> dir_find_path (rdi_hook env own) s q (Some path) = Some (r, None, set_mem s st)"
proof -
  let ?st = "(mem_of s)\<lparr>live := live (mem_of s) + 1\<rparr>"
  have "path_cons (mem_of s) (Some path) = (at path 0, ?st)" using assms(2) by (simp add: path_cons_def tmalloc_ok at_def)
  then show ?thesis using dir_walk_ok [OF assms(1), of ?st 0 path env own] assms(2) by (simp add: dir_find_path_def)
qed

lemma ret_rp_ok:
  "outcomes (mem_of s) = [] \<Longrightarrow> \<exists>st. ret_rp env s i = Some (Some (rp_text (RP_CONS (v_pid env) i)), set_mem s st) \<and> outcomes st = []"
  using rtoa_text [of "mem_of s" "RP_CONS (v_pid env) i"] by (auto simp: ret_rp_def)

lemma error_text: "errorstr_table ! 42 = cs ''! nfound''" "errorstr_table ! 26 = cs ''! arg''" "errorstr_table ! 74 = cs ''! exdev''"
  by (simp_all add: errorstr_table_def errorstr_names_def)

text \<open>
  C29. The call \<open>find\<close> of a directory answers for every path that does not meet a symbolic link: the names of the path are looked up one after the
  other, and the answer is the text of the resource pointer of the object they lead to, or the error that there is none.\<close>

theorem dir_find_resolves:
  assumes "leads s dir (comps path) r" and "outcomes (ro_mem (o_idx s)) = []"
    and "r \<noteq> 0 \<Longrightarrow> o_objs s r = Some ob \<and> typed s r t \<and> \<not> has_substring t (cs ''link'')"
  shows "\<exists>st. dir_find (rdi_hook env own) env s dir src [cs ''find'', path] =
    Some (Some (if r = 0 then cs ''! nfound'' else rp_text (RP_CONS (v_pid env) (o_index ob))), set_mem s st)"
proof -
  obtain st where 1: "outcomes st = []" "dir_find_path (rdi_hook env own) s dir (Some path) = Some (r, None, set_mem s st)"
    using find_path_ok [OF assms(1,2)] by blast
  show ?thesis
  proof (cases "r = 0")
    case True
    obtain st' where "ret_error (set_mem s st) ENOENT = Some (Some (cs ''! nfound''), set_mem s st')"
      using ret_error_ok [of "set_mem s st" ENOENT] 1(1) error_text by auto
    then show ?thesis using 1(2) True by (intro exI [of _ st']) (simp add: dir_find_def del: cs_simps)
  next
    case False
    then have r: "o_objs s r = Some ob" "typed s r t" "\<not> has_substring t (cs ''link'')" using assms(3) by blast+
    obtain st2 where 2: "outcomes st2 = []" "robject_check_type (rdi_hook env own) (set_mem s st) r (cs ''link'') = Some (0, set_mem s st2)"
      using check_type_ok [OF r(2) 1(1), of env own "cs ''link''"] r(3) by auto
    obtain st3 where "ret_rp env (set_mem s st2) (o_index ob) = Some (Some (rp_text (RP_CONS (v_pid env) (o_index ob))), set_mem s st3)"
      using ret_rp_ok [of "set_mem s st2" env "o_index ob"] 2(1) by auto
    then show ?thesis using 1(2) 2(2) False r(1) by (intro exI [of _ st3]) (simp add: dir_find_def del: cs_simps)
  qed
qed

text \<open>A table with one entry, and a driver with a directory that has one entry.\<close>

definition one_entry :: "u8 list \<Rightarrow> ptr \<Rightarrow> s_table option" where
  "one_entry k v = fst (the (s_table_set \<lparr>outcomes = [], live = 0\<rparr> None (Some k) v))"

lemma one_entry_ok: "tbl_ok (one_entry k v) ((\<lambda>_. 0)(k := v))"
  using tbl_set [of None "\<lambda>_. 0" "\<lparr>outcomes = [], live = 0\<rparr>" k v] by (auto simp: tbl_ok_def [of None] one_entry_def)

definition small_driver :: driver where
  "small_driver = lone_driver\<lparr>o_objs := [
     0x50 \<mapsto> empty_object\<lparr>call_table := one_entry (cs ''type'') H_type, data_table := one_entry (cs ''type'') 0x21\<rparr>,
     0x51 \<mapsto> empty_object\<lparr>o_index := 2, o_parent := 0x50, data_table := one_entry (dirent_key [97]) 0x52\<rparr>,
     0x52 \<mapsto> empty_object\<lparr>o_index := 3, o_parent := 0x50\<rparr>]\<rparr>"

lemma no_table [simp]: "tbl_ok None (\<lambda>_. 0)"
  by (simp add: tbl_ok_def)

lemma small_objs:
  "o_objs small_driver 0x50 = Some (empty_object\<lparr>call_table := one_entry (cs ''type'') H_type, data_table := one_entry (cs ''type'') 0x21\<rparr>)"
  "o_objs small_driver 0x51 = Some (empty_object\<lparr>o_index := 2, o_parent := 0x50, data_table := one_entry (dirent_key [97]) 0x52\<rparr>)"
  "o_objs small_driver 0x52 = Some (empty_object\<lparr>o_index := 3, o_parent := 0x50\<rparr>)"
  by (simp_all add: small_driver_def)

lemma empty_fields [simp]: "call_table empty_object = None" "call_stat_table empty_object = None" "data_table empty_object = None"
    "open_table empty_object = None" "accs_table empty_object = None" "o_parent empty_object = 0"
  by (simp_all add: empty_object_def)

lemma small_resolves: "q \<in> {0x50, 0x51, 0x52} \<Longrightarrow> resolves (o_objs small_driver) q (cs ''type'') H_type"
proof -
  have 1: "resolves (o_objs small_driver) 0x50 (cs ''type'') H_type"
    by (rule resolves.own [of "o_objs small_driver" "0x50", OF small_objs(1), where m = "(\<lambda>_. 0)(cs ''type'' := H_type)"]) (simp_all add: one_entry_ok del: cs_simps)
  have 2: "resolves (o_objs small_driver) 0x51 (cs ''type'') H_type"
    by (rule resolves.inherited [of "o_objs small_driver" "0x51", OF small_objs(2), where m = "\<lambda>_. 0"]) (use 1 in simp_all)
  have 3: "resolves (o_objs small_driver) 0x52 (cs ''type'') H_type"
    by (rule resolves.inherited [of "o_objs small_driver" "0x52", OF small_objs(3), where m = "\<lambda>_. 0"]) (use 1 in simp_all)
  show "q \<in> {0x50, 0x51, 0x52} \<Longrightarrow> resolves (o_objs small_driver) q (cs ''type'') H_type" using 1 2 3 by auto
qed

lemma small_typed: "q \<in> {0x50, 0x51, 0x52} \<Longrightarrow> typed small_driver q (cs ''event basic'')"
proof -
  have 1: "typed small_driver 0x50 (cs ''event basic'')"
  proof (rule typed.top [where d = "0x21"])
    show "type_call small_driver 0x50 (empty_object\<lparr>call_table := one_entry (cs ''type'') H_type, data_table := one_entry (cs ''type'') 0x21\<rparr>) 0x21"
      by (rule type_callI [OF _ small_objs(1) small_resolves, where sm = "\<lambda>_. 0" and dm = "(\<lambda>_. 0)(cs ''type'' := 0x21)"])
        (simp_all add: one_entry_ok del: cs_simps)
  qed (simp_all add: text_of_def literals_def del: cs_simps)
  have 2: "typed small_driver 0x51 (cs ''event basic'')"
  proof (rule typed.same [where d = 0])
    show "type_call small_driver 0x51 (empty_object\<lparr>o_index := 2, o_parent := 0x50, data_table := one_entry (dirent_key [97]) 0x52\<rparr>) 0"
      by (rule type_callI [OF _ small_objs(2) small_resolves, where sm = "\<lambda>_. 0" and dm = "(\<lambda>_. 0)(dirent_key [97] := 0x52)"])
        (simp_all add: one_entry_ok del: cs_simps, simp add: dirent_key_def)
  qed (use 1 in simp_all)
  have 3: "typed small_driver 0x52 (cs ''event basic'')"
  proof (rule typed.same [where d = 0])
    show "type_call small_driver 0x52 (empty_object\<lparr>o_index := 3, o_parent := 0x50\<rparr>) 0"
      by (rule type_callI [OF _ small_objs(3) small_resolves, where sm = "\<lambda>_. 0" and dm = "\<lambda>_. 0"]) simp_all
  qed (use 1 in simp_all)
  show "q \<in> {0x50, 0x51, 0x52} \<Longrightarrow> typed small_driver q (cs ''event basic'')" using 1 2 3 by auto
qed

lemma basic_no_link: "\<not> has_substring (cs ''event basic'') (cs ''link'')"
  by simp

lemma small_leads: "leads small_driver 0x51 (comps [97]) 0x52"
proof -
  have "comps [97] = [[97]]" by (subst comps_Cons [OF refl]) simp_all
  moreover have "leads small_driver 0x51 [[97]] 0x52"
  proof (rule leads.step [OF _ small_objs(2) _ _ basic_no_link, where dm = "(\<lambda>_. 0)(dirent_key [97] := 0x52)"])
    show "leads small_driver (((\<lambda>_. 0)(dirent_key [97] := 0x52)) (dirent_key [97])) [] 0x52" by (simp add: leads.here)
  qed (simp_all add: one_entry_ok small_typed del: cs_simps)
  ultimately show ?thesis by simp
qed

theorem dir_find_resolves_witness:
  "\<exists>st. dir_find (rdi_hook lone_env (\<lambda>_ _ _ _ _. None)) lone_env small_driver 0x51 0 [cs ''find'', [97]] =
    Some (Some (cs ''@5:3''), set_mem small_driver st)"
proof -
  have "outcomes (ro_mem (o_idx small_driver)) = []" by (simp add: small_driver_def lone_driver_def lone_index_def robjects_init_def)
  moreover have "rp_text (RP_CONS (v_pid lone_env) 3) = cs ''@5:3''"
    by (simp add: rp_text_def lone_env_def RP_CONS_def RP_PID_def RP_INDEX_def sdec_def dec_def digs.simps dch_def)
  ultimately show ?thesis
    using dir_find_resolves [OF small_leads, of "empty_object\<lparr>o_index := 3, o_parent := 0x50\<rparr>" "cs ''event basic''" lone_env]
      small_objs(3) small_typed basic_no_link by (simp del: cs_simps)
qed

end
