(* ===== verification/Driver_Dirs.thy ===== *)
theory Driver_Dirs
  imports Driver_Paths
begin

text \<open>
  Directories of a driver: the entries of a directory are a map of names to objects with a list of the names, and the calls \<open>link\<close>,
  \<open>unlink\<close> and \<open>list\<close> implement the operations on them.
\<close>

section \<open>Representation\<close>

abbreviation (input) dlinks :: "(ptr \<Rightarrow> dirent option) \<Rightarrow> ptr \<Rightarrow> (ptr \<times> ptr) option" where
  "dlinks ds \<equiv> \<lambda>x. map_option (\<lambda>n. (de_next n, de_prev n)) (ds x)"

definition node_names :: "(ptr \<Rightarrow> dirent option) \<Rightarrow> ptr list \<Rightarrow> u8 list list \<Rightarrow> bool" where
  "node_names ds xs names \<longleftrightarrow> map (\<lambda>x. map_option de_name (ds x)) xs = map (\<lambda>n. Some (Some n)) names"

definition dir_rep :: "driver \<Rightarrow> ptr \<Rightarrow> u8 list list \<Rightarrow> (u8 list \<Rightarrow> ptr) \<Rightarrow> bool" where
  "dir_rep s q names em \<longleftrightarrow> q \<noteq> 0 \<and> outcomes (mem_of s) = [] \<and> distinct names \<and> (\<forall>n. em n \<noteq> 0 \<longleftrightarrow> n \<in> set names) \<and>
     (\<exists>ob dm xs. o_objs s q = Some ob \<and> tbl_ok (data_table ob) dm \<and> (\<forall>n. dm (dirent_key n) = em n) \<and>
       dchain (dlinks (dirents s)) 0 (dm (cs ''list'')) xs \<and> node_names (dirents s) xs names)"

lemma index_fun [simp]: "robject_get (o_idx (set_mem s st)) = robject_get (o_idx s)" "robject_get (o_idx (put_obj s ro ob st)) = robject_get (o_idx s)"
  by (simp_all add: fun_eq_iff)

text \<open>How many fields the object has.\<close>

definition fields :: "driver \<Rightarrow> ptr \<Rightarrow> nat" where
  "fields s q = (case o_objs s q of None \<Rightarrow> 0 | Some ob \<Rightarrow> (case data_table ob of None \<Rightarrow> 0 | Some t \<Rightarrow> card {f. tval t f \<noteq> 0}))"

lemma fields_eq: "o_objs s q = Some ob \<Longrightarrow> tbl_ok (data_table ob) dm \<Longrightarrow> fields s q = card {f. dm f \<noteq> 0}"
  by (auto simp: fields_def tbl_ok_def split: option.splits)

lemma dirent_key_facts [simp]: "dirent_key a = dirent_key b \<longleftrightarrow> a = b" "dirent_key a \<noteq> cs ''list''" "cs ''list'' \<noteq> dirent_key a"
  by (simp_all add: dirent_key_def)

lemma node_names_simps [simp]: "node_names ds [] names \<longleftrightarrow> names = []"
  "node_names ds (x # xs) names \<longleftrightarrow> (\<exists>n ns d. names = n # ns \<and> ds x = Some d \<and> de_name d = Some n \<and> node_names ds xs ns)"
  by (auto simp: node_names_def)

lemma node_names_append: "node_names ds (xs @ ys) names \<longleftrightarrow> (\<exists>a b. names = a @ b \<and> node_names ds xs a \<and> node_names ds ys b)"
  by (auto simp: node_names_def append_eq_map_conv)

lemma node_names_cong: "(\<And>x. x \<in> set xs \<Longrightarrow> map_option de_name (ds x) = map_option de_name (ds' x)) \<Longrightarrow> node_names ds xs names = node_names ds' xs names"
  by (simp add: node_names_def cong: map_cong)

lemma set_data_ok:
  assumes "o_objs s q = Some ob" and "q \<noteq> 0" and "tbl_ok (data_table ob) dm" and "outcomes (mem_of s) = []" and "card {f. dm f \<noteq> 0} < 2 ^ 26"
  shows "\<exists>t st. robject_set_data s q (Some f) d = Some (put_obj s q (ob\<lparr>data_table := Some t\<rparr>) st) \<and> tbl_ok (Some t) (dm(f := d)) \<and> outcomes st = []"
proof -
  obtain t st where "s_table_set (mem_of s) (data_table ob) (Some f) d = Some (Some t, st)" "tbl_ok (Some t) (dm(f := d))" "outcomes st = []"
    using tbl_set [OF assms(3,4,5)] by blast
  then show ?thesis using assms(1,2) by (intro exI [of _ t] exI [of _ st]) (simp add: robject_set_data_def)
qed

lemma get_data_ok: "o_objs s q = Some ob \<Longrightarrow> q \<noteq> 0 \<Longrightarrow> tbl_ok (data_table ob) dm \<Longrightarrow> robject_get_data s q (Some f) = Some (dm f)"
  by (simp add: robject_get_data_def tbl_get)

lemma entry_key: "outcomes st = [] \<Longrightarrow> strvcat st [Some (cs ''dirent-''), Some entry, None] = (Some (dirent_key entry), st\<lparr>live := live st + 1\<rparr>)"
  by (simp add: strvcat_def tmalloc_ok dirent_key_def)

section \<open>Adding an entry\<close>

lemma dir_rep_mem: "dir_rep s q names em \<Longrightarrow> outcomes st = [] \<Longrightarrow> dir_rep (set_mem s st) q names em"
  unfolding dir_rep_def by simp

lemma put_put_obj [simp]: "put_obj (put_obj s q ob st) q ob' st' = put_obj s q ob' st'" "set_mem (put_obj s q ob st) st' = put_obj s q ob st'"
    "put_obj (set_mem s st) q ob st' = put_obj s q ob st'"
  by (simp_all add: put_obj_def set_mem_def)

lemma dir_rep_entry:
  assumes "dir_rep s q names em" and "o_objs s q = Some ob" and "tbl_ok (data_table ob) dm" and "\<And>n. dm (dirent_key n) = em n"
    and "dchain (dlinks (dirents s)) 0 (dm (cs ''list'')) xs" and "node_names (dirents s) xs names"
    and "tbl_ok (Some t) (dm(dirent_key entry := h))" and "outcomes st = []" and "h \<noteq> 0" and "em entry \<noteq> 0"
  shows "dir_rep (put_obj s q (ob\<lparr>data_table := Some t\<rparr>) st) q names (em(entry := h))"
proof -
  have "\<forall>n. (em(entry := h)) n \<noteq> 0 \<longleftrightarrow> n \<in> set names" using assms(1,9,10) by (auto simp: dir_rep_def)
  moreover have "\<exists>ob' dm' xs'. o_objs (put_obj s q (ob\<lparr>data_table := Some t\<rparr>) st) q = Some ob' \<and> tbl_ok (data_table ob') dm' \<and>
      (\<forall>n. dm' (dirent_key n) = (em(entry := h)) n) \<and>
      dchain (dlinks (dirents (put_obj s q (ob\<lparr>data_table := Some t\<rparr>) st))) 0 (dm' (cs ''list'')) xs' \<and>
      node_names (dirents (put_obj s q (ob\<lparr>data_table := Some t\<rparr>) st)) xs' names"
    using assms(4-7) by (intro exI [of _ "ob\<lparr>data_table := Some t\<rparr>"] exI [of _ "dm(dirent_key entry := h)"] exI [of _ xs]) (simp del: cs_simps)
  ultimately show ?thesis using assms(1,8) by (simp add: dir_rep_def)
qed

text \<open>The new node in front of the list.\<close>

lemma push_node:
  assumes "dchain (dlinks ds) 0 p xs" and "node_names ds xs names" and "ds x = None" and "x \<noteq> 0"
  shows "\<exists>ds'. (if p \<noteq> 0 then do { l \<leftarrow> (ds(x \<mapsto> \<lparr>de_next = p, de_prev = 0, de_name = Some entry\<rparr>)) p;
        Some (ds(x \<mapsto> \<lparr>de_next = p, de_prev = 0, de_name = Some entry\<rparr>, p \<mapsto> l\<lparr>de_prev := x\<rparr>)) }
      else Some (ds(x \<mapsto> \<lparr>de_next = p, de_prev = 0, de_name = Some entry\<rparr>))) = Some ds' \<and>
    dchain (dlinks ds') 0 x (x # xs) \<and> node_names ds' (x # xs) (entry # names) \<and> dom ds' = insert x (dom ds)"
proof -
  let ?d = "\<lparr>de_next = p, de_prev = 0, de_name = Some entry\<rparr>"
  have x: "x \<notin> set xs" using dchain_alloc [OF assms(1), of x] assms(3) by auto
  show ?thesis
  proof (cases "p = 0")
    case True
    then have "xs = []" using assms(1) by simp
    then show ?thesis using True assms(2,4) by (intro exI [of _ "ds(x \<mapsto> ?d)"]) simp
  next
    case False
    then obtain ys where xs: "xs = p # ys" using dchain_hd [OF assms(1)] by (cases xs) auto
    then obtain l where l: "ds p = Some l" using assms(1) by auto
    have px: "p \<noteq> x" "p \<notin> set ys" using x xs dchain_distinct [OF assms(1)] by auto
    let ?ds = "ds(x \<mapsto> ?d, p \<mapsto> l\<lparr>de_prev := x\<rparr>)"
    have "dchain (dlinks ?ds) 0 x (x # xs)"
      by (rule dchain_push [OF assms(1) x assms(4)]) (use px l x in \<open>auto simp: option.map_id\<close>)
    moreover have "node_names ?ds xs names = node_names ds xs names"
      by (rule node_names_cong) (use x l px in auto)
    ultimately show ?thesis using False l px assms(2) by (intro exI [of _ ?ds]) auto
  qed
qed

lemma rp_cons_parts [simp]: "RP_PID (RP_CONS pid idx) = pid" "RP_INDEX (RP_CONS pid idx) = idx"
proof -
  have m: "(0xFFFFFFFF :: u64) = mask 32" by (simp add: mask_eq_exp_minus_1)
  show "RP_PID (RP_CONS pid idx) = pid" by (rule bit_word_eqI) (auto simp: RP_PID_def RP_CONS_def m bit_simps)
  show "RP_INDEX (RP_CONS pid idx) = idx" by (rule bit_word_eqI) (auto simp: RP_INDEX_def RP_CONS_def m bit_simps dest: bit_imp_le_length)
qed

lemma card_upd_le: "tbl_ok table dm \<Longrightarrow> card {f. (dm(k := v)) f \<noteq> 0} \<le> Suc (card {f. dm f \<noteq> 0})"
  by (rule card_fun_upd) (rule tbl_finite)

lemma link_node_ok:
  assumes "o_objs s q = Some ob" and "q \<noteq> 0" and "tbl_ok (data_table ob) dm" and "outcomes (mem_of s) = []" and "card {f. dm f \<noteq> 0} < 2 ^ 26"
    and "dchain (dlinks (dirents s)) 0 (dm (cs ''list'')) xs" and "node_names (dirents s) xs names"
    and "dirents s (v_node env (dirents s)) = None" and "v_node env (dirents s) \<noteq> 0"
  shows "\<exists>s' t. link_node env s q entry = Some (Some (cs ''T''), s') \<and> outcomes (mem_of s') = [] \<and> o_objs s' q = Some (ob\<lparr>data_table := Some t\<rparr>) \<and>
    tbl_ok (Some t) (dm(cs ''list'' := v_node env (dirents s))) \<and> robject_get (o_idx s') = robject_get (o_idx s) \<and>
    dchain (dlinks (dirents s')) 0 (v_node env (dirents s)) (v_node env (dirents s) # xs) \<and>
    node_names (dirents s') (v_node env (dirents s) # xs) (entry # names) \<and> dom (dirents s') = insert (v_node env (dirents s)) (dom (dirents s))"
proof -
  let ?x = "v_node env (dirents s)" and ?p = "dm (cs ''list'')" and ?st = "(mem_of s)\<lparr>live := 2 + live (mem_of s)\<rparr>"
  obtain ds where ds: "(if ?p \<noteq> 0 then do { l \<leftarrow> ((dirents s)(?x \<mapsto> \<lparr>de_next = ?p, de_prev = 0, de_name = Some entry\<rparr>)) ?p;
        Some ((dirents s)(?x \<mapsto> \<lparr>de_next = ?p, de_prev = 0, de_name = Some entry\<rparr>, ?p \<mapsto> l\<lparr>de_prev := ?x\<rparr>)) }
      else Some ((dirents s)(?x \<mapsto> \<lparr>de_next = ?p, de_prev = 0, de_name = Some entry\<rparr>))) = Some ds"
    "dchain (dlinks ds) 0 ?x (?x # xs)" "node_names ds (?x # xs) (entry # names)" "dom ds = insert ?x (dom (dirents s))"
    using push_node [OF assms(6-9)] by blast
  let ?s = "(set_mem s ?st)\<lparr>dirents := ds\<rparr>"
  have s: "o_objs ?s q = Some ob" "outcomes (mem_of ?s) = []" using assms(1,4) by simp_all
  obtain t st where t: "robject_set_data ?s q (Some (cs ''list'')) ?x = Some (put_obj ?s q (ob\<lparr>data_table := Some t\<rparr>) st)"
    "tbl_ok (Some t) (dm(cs ''list'' := ?x))" "outcomes st = []" using set_data_ok [OF s(1) assms(2,3) s(2) assms(5)] by blast
  let ?s' = "put_obj ?s q (ob\<lparr>data_table := Some t\<rparr>) st"
  obtain st' where st': "ret_text ?s' (cs ''T'') = Some (Some (cs ''T''), set_mem ?s' st')" "outcomes st' = []" using ret_text_ok [of ?s'] t(3) by auto
  have "link_node env s q entry = ret_text ?s' (cs ''T'')"
    using get_data_ok [OF assms(1,2,3)] ds(1) t(1) assms(4)
    by (simp add: link_node_def robject_data_def tmalloc_ok strdup_ok Let_def del: cs_simps)
  then show ?thesis using st' t(2) ds(2-4)
    by (intro exI [of _ "set_mem ?s' st'"] exI [of _ t]) (simp add: fun_eq_iff del: cs_simps dchain.simps node_names_simps)
qed

lemma dir_link_ok:
  assumes "dir_rep s q names em" and "fields s q < 2 ^ 25" and "robject_get (o_idx s) idx = h" and "h \<noteq> 0"
    and "dirents s (v_node env (dirents s)) = None" and "v_node env (dirents s) \<noteq> 0"
  shows "\<exists>s'. dir_link env s q src [c, entry, rp_text (RP_CONS (v_pid env) idx)] = Some (Some (cs ''T''), s') \<and>
    dir_rep s' q (if em entry \<noteq> 0 then names else entry # names) (em(entry := h)) \<and> robject_get (o_idx s') = robject_get (o_idx s) \<and>
    fields s' q \<le> fields s q + 2 \<and> dom (dirents s') \<subseteq> insert (v_node env (dirents s)) (dom (dirents s))"
proof -
  let ?rp = "RP_CONS (v_pid env) idx"
  obtain ob dm xs where r: "q \<noteq> 0" "outcomes (mem_of s) = []" "distinct names" "\<And>n. em n \<noteq> 0 \<longleftrightarrow> n \<in> set names" "o_objs s q = Some ob"
    "tbl_ok (data_table ob) dm" "\<And>n. dm (dirent_key n) = em n" "dchain (dlinks (dirents s)) 0 (dm (cs ''list'')) xs" "node_names (dirents s) xs names"
    using assms(1) unfolding dir_rep_def by blast
  have card: "card {f. dm f \<noteq> 0} = fields s q" using fields_eq [OF r(5,6)] by simp
  obtain st1 where 1: "ator (Some (rp_text ?rp)) (mem_of s) = Some (?rp, st1)" "outcomes st1 = []" using ator_text [OF r(2)] by blast
  obtain st2 where 2: "ator (Some (rp_text ?rp)) st1 = Some (?rp, st2)" "outcomes st2 = []" using ator_text [OF 1(2)] by blast
  let ?st3 = "st2\<lparr>live := live st2 + 1\<rparr>"
  let ?s3 = "set_mem s ?st3"
  have s3: "o_objs ?s3 q = Some ob" "outcomes (mem_of ?s3) = []" using r(5) 2(2) by simp_all
  obtain t st4 where 4: "robject_set_data ?s3 q (Some (dirent_key entry)) h = Some (put_obj ?s3 q (ob\<lparr>data_table := Some t\<rparr>) st4)"
    "tbl_ok (Some t) (dm(dirent_key entry := h))" "outcomes st4 = []"
    using set_data_ok [OF s3(1) r(1,6) s3(2)] assms(2) card by fastforce
  let ?dm = "dm(dirent_key entry := h)" and ?ob = "ob\<lparr>data_table := Some t\<rparr>"
  let ?s = "put_obj s q ?ob (tfree st4)"
  have c1: "card {f. ?dm f \<noteq> 0} \<le> Suc (fields s q)" using card_upd_le [OF r(6)] card by metis
  have eq: "dir_link env s q src [c, entry, rp_text ?rp] = (if em entry \<noteq> 0 then ret_text ?s (cs ''T'') else link_node env ?s q entry)"
    using 1 2 4(1) r(7) get_data_ok [OF s3(1) r(1,6)] assms(3,4) entry_key [OF 2(2), of entry]
    by (simp add: dir_link_def tfree_string_def del: cs_simps)
  show ?thesis
  proof (cases "em entry = 0")
    case False
    obtain st where st: "ret_text ?s (cs ''T'') = Some (Some (cs ''T''), set_mem ?s st)" "outcomes st = []" using ret_text_ok [of ?s] 4(3) by auto
    have d: "dir_rep ?s q names (em(entry := h))"
      using dir_rep_entry [OF assms(1) r(5-9) 4(2) _ assms(4) False, of "tfree st4"] 4(3) by simp
    have "fields (set_mem ?s st) q = card {f. ?dm f \<noteq> 0}" using fields_eq [of "set_mem ?s st" q ?ob ?dm] 4(2) by simp
    then show ?thesis using st eq False c1 dir_rep_mem [OF d st(2)] by (intro exI [of _ "set_mem ?s st"]) (auto simp del: cs_simps)
  next
    case True
    let ?x = "v_node env (dirents s)"
    have a: "o_objs ?s q = Some ?ob" "tbl_ok (data_table ?ob) ?dm" "outcomes (mem_of ?s) = []" "card {f. ?dm f \<noteq> 0} < 2 ^ 26"
      "dchain (dlinks (dirents ?s)) 0 (?dm (cs ''list'')) xs" "node_names (dirents ?s) xs names" "dirents ?s (v_node env (dirents ?s)) = None" "v_node env (dirents ?s) \<noteq> 0"
      using 4(2,3) c1 assms(2,5,6) r(8,9) by (simp_all del: cs_simps)
    have i: "robject_get (o_idx ?s) = robject_get (o_idx s)" by (simp add: fun_eq_iff)
    obtain s' t' where s': "link_node env ?s q entry = Some (Some (cs ''T''), s')" "outcomes (mem_of s') = []" "o_objs s' q = Some (?ob\<lparr>data_table := Some t'\<rparr>)"
      "tbl_ok (Some t') (?dm(cs ''list'' := ?x))" "robject_get (o_idx s') = robject_get (o_idx s)"
      "dchain (dlinks (dirents s')) 0 ?x (?x # xs)" "node_names (dirents s') (?x # xs) (entry # names)" "dom (dirents s') = insert ?x (dom (dirents s))"
      using link_node_ok [where dm = ?dm, OF a(1) r(1) a(2-8), of entry] unfolding i by (simp only: driver_mem) blast
    have "dir_rep s' q (entry # names) (em(entry := h))"
      unfolding dir_rep_def using r(1,3,4,7) s' True assms(4)
      by (intro conjI exI [of _ "?ob\<lparr>data_table := Some t'\<rparr>"] exI [of _ "?dm(cs ''list'' := ?x)"] exI [of _ "?x # xs"])
        (auto simp del: cs_simps dchain.simps node_names_simps)
    moreover have "fields s' q \<le> fields s q + 2"
      using fields_eq [OF s'(3), of "?dm(cs ''list'' := ?x)"] s'(4) card_upd_le [OF 4(2), of "cs ''list''" ?x] c1 by simp
    ultimately show ?thesis using eq True s'(1,5,8) by (intro exI [of _ s']) (simp del: cs_simps)
  qed
qed

section \<open>Removing an entry\<close>

lemma unlink_skip:
  assumes "dchain (dlinks (dirents s)) pr p (us @ x # vs)" and "node_names (dirents s) us names" and "entry \<notin> set names"
  shows "dir_unlink_loop s q p entry = dir_unlink_loop s q x entry"
  using assms
proof (induction us arbitrary: pr p names)
  case Nil
  then show ?case by simp
next
  case (Cons u us)
  then obtain d where d: "u = p" "p \<noteq> 0" "dirents s p = Some d" "dchain (dlinks (dirents s)) p (de_next d) (us @ x # vs)" by auto
  obtain n ns where n: "names = n # ns" "de_name d = Some n" "node_names (dirents s) us ns" using Cons.prems(2) d by auto
  have "dir_unlink_loop s q p entry = dir_unlink_loop s q (de_next d) entry"
    using d n Cons.prems(3) by (subst dir_unlink_loop.simps) auto
  then show ?case using Cons.IH [OF d(4) n(3)] Cons.prems(3) n(1) by simp
qed

text \<open>The links that \<open>unlink\<close> makes around the node it takes out.\<close>

lemma unlink_links:
  assumes "dchain (dlinks ds) 0 p (us @ x # vs)" and "ds x = Some d"
    and "ds1 = (if de_prev d \<noteq> 0 then ds(de_prev d \<mapsto> (the (ds (de_prev d)))\<lparr>de_next := de_next d\<rparr>) else ds)"
    and "ds2 = (if de_next d \<noteq> 0 then ds1(de_next d \<mapsto> (the (ds1 (de_next d)))\<lparr>de_prev := de_prev d\<rparr>) else ds1)"
  shows "dchain (dlinks ds2) 0 (if us = [] then de_next d else p) (us @ vs)" and "de_prev d = (if us = [] then 0 else last us)"
    and "de_prev d \<noteq> 0 \<Longrightarrow> ds (de_prev d) \<noteq> None" and "de_next d \<noteq> 0 \<Longrightarrow> ds1 (de_next d) \<noteq> None"
    and "\<And>z. map_option de_name (ds2 z) = map_option de_name (ds z)"
proof -
  have nz: "0 \<notin> set (us @ x # vs)" by (rule dchain_nonzero [OF assms(1)])
  have al: "z \<in> set (us @ x # vs) \<Longrightarrow> ds z \<noteq> None" for z using dchain_alloc [OF assms(1), of z] by auto
  have nb: "de_next d = 0 \<or> de_next d \<in> set (us @ x # vs)" "de_prev d = 0 \<or> de_prev d \<in> set (us @ x # vs)" "de_next d \<noteq> x" "de_prev d \<noteq> x"
    using dchain_neighbours [OF assms(1) nz, of x "de_next d" "de_prev d"] assms(2) by auto
  have l: "dlinks ds2 z = map_option (\<lambda>(a, b). (if z = de_prev d then de_next d else a, if z = de_next d then de_prev d else b)) (dlinks ds z)"
    if "z \<in> set us \<union> set vs" for z
  proof -
    have "z \<noteq> 0" "z \<in> set (us @ x # vs)" using that nz by auto
    then obtain e where "ds z = Some e" using al by blast
    then show ?thesis using \<open>z \<noteq> 0\<close> assms(3,4) by auto
  qed
  from dchain_pull [OF assms(1) nz, of "de_next d" "de_prev d" "dlinks ds2"] l assms(2)
  show "dchain (dlinks ds2) 0 (if us = [] then de_next d else p) (us @ vs)" "de_prev d = (if us = [] then 0 else last us)" by auto
  show "de_prev d \<noteq> 0 \<Longrightarrow> ds (de_prev d) \<noteq> None" using nb(2) al by blast
  then show "de_next d \<noteq> 0 \<Longrightarrow> ds1 (de_next d) \<noteq> None" using nb(1) al [of "de_next d"] assms(3) by auto
  have n1: "map_option de_name (ds1 z) = map_option de_name (ds z)" for z using nb(2) al [of "de_prev d"] assms(3) by auto
  show "map_option de_name (ds2 z) = map_option de_name (ds z)" for z
  proof (cases "de_next d \<noteq> 0 \<and> z = de_next d")
    case True
    then obtain y where "ds z = Some y" using nb(1) al [of "de_next d"] by auto
    then show ?thesis using True n1 [of "de_next d"] assms(4) by auto
  next
    case False
    then show ?thesis using n1 [of z] assms(4) by (auto split: if_splits)
  qed
qed

lemma unlink_at:
  assumes "o_objs s q = Some ob" and "q \<noteq> 0" and "tbl_ok (data_table ob) dm" and "outcomes (mem_of s) = []" and "card {f. dm f \<noteq> 0} < 2 ^ 26"
    and "dchain (dlinks (dirents s)) 0 (dm (cs ''list'')) (us @ x # vs)" and "dirents s x = Some d" and "de_name d = Some entry"
  shows "\<exists>s' ob' p. dir_unlink_loop s q x entry = Some s' \<and> outcomes (mem_of s') = [] \<and> o_objs s' q = Some ob' \<and>
    tbl_ok (data_table ob') (dm(cs ''list'' := p)) \<and> robject_get (o_idx s') = robject_get (o_idx s) \<and>
    dchain (dlinks (dirents s')) 0 p (us @ vs) \<and> (\<forall>z. map_option de_name (dirents s' z) = map_option de_name (dirents s z))"
proof -
  let ?p = "dm (cs ''list'')"
  define ds1 where "ds1 = (if de_prev d \<noteq> 0 then (dirents s)(de_prev d \<mapsto> (the (dirents s (de_prev d)))\<lparr>de_next := de_next d\<rparr>) else dirents s)"
  define ds2 where "ds2 = (if de_next d \<noteq> 0 then ds1(de_next d \<mapsto> (the (ds1 (de_next d)))\<lparr>de_prev := de_prev d\<rparr>) else ds1)"
  note L = unlink_links [OF assms(6,7) ds1_def ds2_def]
  have x: "x \<noteq> 0" using dchain_nonzero [OF assms(6)] by auto
  define s1 where "s1 = (if de_prev d \<noteq> 0 then do { p \<leftarrow> dirents s (de_prev d);
         Some (s\<lparr>dirents := (dirents s)(de_prev d \<mapsto> p\<lparr>de_next := de_next d\<rparr>)\<rparr>) }
       else robject_set_data s q (Some (cs ''list'')) (de_next d))"
  have "\<exists>s' ob'. s1 = Some s' \<and> dirents s' = ds1 \<and> outcomes (mem_of s') = [] \<and> o_objs s' q = Some ob' \<and>
      tbl_ok (data_table ob') (dm(cs ''list'' := (if us = [] then de_next d else ?p))) \<and> robject_get (o_idx s') = robject_get (o_idx s)"
  proof (cases "us = []")
    case True
    obtain t st where "robject_set_data s q (Some (cs ''list'')) (de_next d) = Some (put_obj s q (ob\<lparr>data_table := Some t\<rparr>) st)"
      "tbl_ok (Some t) (dm(cs ''list'' := de_next d))" "outcomes st = []" using set_data_ok [OF assms(1-5)] by blast
    then show ?thesis using True L(2) by (simp add: s1_def ds1_def fun_eq_iff del: cs_simps)
  next
    case False
    have "last us \<in> set us" using False by simp
    moreover have "0 \<notin> set us" using dchain_nonzero [OF assms(6)] by simp
    ultimately have "de_prev d \<noteq> 0" using L(2) False by metis
    moreover from this obtain e where "dirents s (de_prev d) = Some e" using L(3) by blast
    ultimately show ?thesis using False assms(1,3,4) by (simp add: s1_def ds1_def fun_upd_idem)
  qed
  then obtain s' ob' where s': "s1 = Some s'" "dirents s' = ds1" "outcomes (mem_of s') = []" "o_objs s' q = Some ob'"
    "tbl_ok (data_table ob') (dm(cs ''list'' := (if us = [] then de_next d else ?p)))" "robject_get (o_idx s') = robject_get (o_idx s)" by blast
  have "dir_unlink_loop s q x entry = Some (s'\<lparr>dirents := ds2\<rparr>)"
  proof -
    have "dir_unlink_loop s q x entry = do { s \<leftarrow> s1; if de_next d \<noteq> 0 then do { x \<leftarrow> dirents s (de_next d);
         Some (s\<lparr>dirents := (dirents s)(de_next d \<mapsto> x\<lparr>de_prev := de_prev d\<rparr>)\<rparr>) } else Some s }"
      using x assms(7,8) by (subst dir_unlink_loop.simps) (simp add: s1_def del: cs_simps)
    then show ?thesis using s'(1,2) L(4) by (cases "de_next d = 0") (auto simp: ds2_def)
  qed
  then show ?thesis using s'(3-6) L(1,5)
    by (intro exI [of _ "s'\<lparr>dirents := ds2\<rparr>"] exI [of _ ob'] exI [of _ "if us = [] then de_next d else ?p"]) (simp del: cs_simps)
qed

lemma split_names:
  assumes "node_names ds xs names" and "entry \<in> set names" and "distinct names"
  shows "\<exists>us x vs d as bs. xs = us @ x # vs \<and> ds x = Some d \<and> de_name d = Some entry \<and> names = as @ entry # bs \<and> entry \<notin> set as \<and>
    node_names ds us as \<and> node_names ds (us @ vs) (as @ bs)"
proof -
  obtain as bs where n: "names = as @ entry # bs" "entry \<notin> set as" using split_list_first [OF assms(2)] by blast
  define us where "us = take (length as) xs"
  have "length xs = length names" using assms(1) by (metis length_map node_names_def)
  then have "length us = length as" by (simp add: us_def n)
  obtain ys where xs: "xs = us @ ys" unfolding us_def by (metis append_take_drop_id)
  then obtain a b where ab: "names = a @ b" "node_names ds us a" "node_names ds ys b" using assms(1) node_names_append by blast
  then have "length a = length as" using \<open>length us = length as\<close> by (metis length_map node_names_def)
  then have e: "a = as" "b = entry # bs" using ab(1) n(1) by auto
  then obtain x vs d where "ys = x # vs" "ds x = Some d" "de_name d = Some entry" "node_names ds vs bs" using ab(3) by (cases ys) auto
  then show ?thesis using xs n ab(2) e(1) node_names_append by blast
qed

lemma dir_unlink_absent:
  assumes "dir_rep s q names em" and "em entry = 0"
  shows "\<exists>s'. dir_unlink s q src [c, entry] = Some (Some (cs ''! nfound''), s') \<and> dir_rep s' q (filter (\<lambda>n. n \<noteq> entry) names) (em(entry := 0)) \<and>
    robject_get (o_idx s') = robject_get (o_idx s) \<and> fields s' q \<le> fields s q + 2 \<and> dom (dirents s') = dom (dirents s)"
proof -
  obtain ob dm xs where r: "q \<noteq> 0" "outcomes (mem_of s) = []" "distinct names" "\<And>n. em n \<noteq> 0 \<longleftrightarrow> n \<in> set names" "o_objs s q = Some ob"
    "tbl_ok (data_table ob) dm" "\<And>n. dm (dirent_key n) = em n" "dchain (dlinks (dirents s)) 0 (dm (cs ''list'')) xs" "node_names (dirents s) xs names"
    using assms(1) unfolding dir_rep_def by blast
  let ?st1 = "(mem_of s)\<lparr>live := live (mem_of s) + 1\<rparr>"
  let ?s1 = "set_mem s ?st1"
  have s1: "o_objs ?s1 q = Some ob" "outcomes (mem_of ?s1) = []" using r(2,5) by simp_all
  have n: "entry \<notin> set names" using r(4) assms(2) by blast
  obtain st where st: "ret_error (set_mem s (tfree ?st1)) ENOENT = Some (Some (cs ''! nfound''), set_mem s st)" "outcomes st = []"
    using ret_error_ok [of "set_mem s (tfree ?st1)" ENOENT] r(2) error_text by auto
  have "dir_unlink s q src [c, entry] = ret_error (set_mem s (tfree ?st1)) ENOENT"
    using assms(2) r(7) get_data_ok [OF s1(1) r(1,6)] entry_key [OF r(2), of entry] by (simp add: dir_unlink_def tfree_string_def del: cs_simps)
  moreover have "filter (\<lambda>n. n \<noteq> entry) names = names" "em(entry := 0) = em" using n assms(2) by (auto simp: filter_id_conv)
  moreover have "fields (set_mem s st) q = fields s q" by (simp add: fields_def)
  ultimately show ?thesis using assms(2) st dir_rep_mem [OF assms(1) st(2)] by (intro exI [of _ "set_mem s st"]) (simp del: cs_simps)
qed

lemma dir_unlink_present:
  assumes "dir_rep s q names em" and "fields s q < 2 ^ 25" and "em entry \<noteq> 0"
  shows "\<exists>s'. dir_unlink s q src [c, entry] = Some (Some (cs ''T''), s') \<and> dir_rep s' q (filter (\<lambda>n. n \<noteq> entry) names) (em(entry := 0)) \<and>
    robject_get (o_idx s') = robject_get (o_idx s) \<and> fields s' q \<le> fields s q + 2 \<and> dom (dirents s') = dom (dirents s)"
proof -
  obtain ob dm xs where r: "q \<noteq> 0" "outcomes (mem_of s) = []" "distinct names" "\<And>n. em n \<noteq> 0 \<longleftrightarrow> n \<in> set names" "o_objs s q = Some ob"
    "tbl_ok (data_table ob) dm" "\<And>n. dm (dirent_key n) = em n" "dchain (dlinks (dirents s)) 0 (dm (cs ''list'')) xs" "node_names (dirents s) xs names"
    using assms(1) unfolding dir_rep_def by blast
  have card: "card {f. dm f \<noteq> 0} = fields s q" using fields_eq [OF r(5,6)] by simp
  let ?st1 = "(mem_of s)\<lparr>live := live (mem_of s) + 1\<rparr>"
  let ?s1 = "set_mem s ?st1"
  have s1: "o_objs ?s1 q = Some ob" "outcomes (mem_of ?s1) = []" using r(2,5) by simp_all
  have n: "entry \<in> set names" using r(4) assms(3) by blast
  obtain us x vs d as bs where sp: "xs = us @ x # vs" "dirents s x = Some d" "de_name d = Some entry" "names = as @ entry # bs" "entry \<notin> set as"
    "node_names (dirents s) us as" "node_names (dirents s) (us @ vs) (as @ bs)" using split_names [OF r(9) n r(3)] by blast
  obtain t st where t: "robject_set_data ?s1 q (Some (dirent_key entry)) 0 = Some (put_obj ?s1 q (ob\<lparr>data_table := Some t\<rparr>) st)"
    "tbl_ok (Some t) (dm(dirent_key entry := 0))" "outcomes st = []"
    using set_data_ok [OF s1(1) r(1,6) s1(2)] assms(2) card by fastforce
  let ?dm = "dm(dirent_key entry := 0)" and ?ob = "ob\<lparr>data_table := Some t\<rparr>"
  let ?s = "put_obj s q ?ob (tfree st)"
  have c1: "card {f. ?dm f \<noteq> 0} \<le> Suc (fields s q)" using card_upd_le [OF r(6)] card by metis
  have a: "o_objs ?s q = Some ?ob" "tbl_ok (data_table ?ob) ?dm" "outcomes (mem_of ?s) = []" "card {f. ?dm f \<noteq> 0} < 2 ^ 26"
    "dchain (dlinks (dirents ?s)) 0 (?dm (cs ''list'')) (us @ x # vs)" "dirents ?s x = Some d"
    using t(2,3) c1 assms(2) r(8) sp(1,2) by (simp_all del: cs_simps)
  obtain s' ob' p where s': "dir_unlink_loop ?s q x entry = Some s'" "outcomes (mem_of s') = []" "o_objs s' q = Some ob'"
    "tbl_ok (data_table ob') (?dm(cs ''list'' := p))" "robject_get (o_idx s') = robject_get (o_idx ?s)"
    "dchain (dlinks (dirents s')) 0 p (us @ vs)" "\<And>z. map_option de_name (dirents s' z) = map_option de_name (dirents ?s z)"
    using unlink_at [where dm = ?dm, OF a(1) r(1) a(2-6) sp(3)] by blast
  have "dir_unlink_loop ?s q (dm (cs ''list'')) entry = Some s'"
    using unlink_skip [of ?s 0 _ us x vs as entry] r(8) sp(1,5,6) s'(1) by simp
  moreover obtain st' where st': "ret_text s' (cs ''T'') = Some (Some (cs ''T''), set_mem s' st')" "outcomes st' = []" using ret_text_ok s'(2) by blast
  ultimately have "dir_unlink s q src [c, entry] = Some (Some (cs ''T''), set_mem s' st')"
    using assms(3) r(7) get_data_ok [OF s1(1) r(1,6)] entry_key [OF r(2), of entry] t(1) get_data_ok [OF a(1) r(1) a(2)]
    by (simp add: dir_unlink_def robject_data_def tfree_string_def del: cs_simps)
  moreover have "node_names (dirents s') (us @ vs) (as @ bs)" using node_names_cong [of "us @ vs" "dirents s'" "dirents s"] s'(7) sp(7) by simp
  then have "dir_rep s' q (as @ bs) (em(entry := 0))"
    unfolding dir_rep_def using r(1,3,4,7) s'(2-4,6) sp(4)
    by (intro conjI exI [of _ ob'] exI [of _ "?dm(cs ''list'' := p)"] exI [of _ "us @ vs"]) (auto simp del: cs_simps)
  moreover have "filter (\<lambda>n. n \<noteq> entry) as = as" "filter (\<lambda>n. n \<noteq> entry) bs = bs" using sp(4,5) r(3) by (auto simp: filter_id_conv)
  then have "filter (\<lambda>n. n \<noteq> entry) names = as @ bs" using sp(4) by simp
  moreover have "fields (set_mem s' st') q = card {f. (?dm(cs ''list'' := p)) f \<noteq> 0}"
    using fields_eq [of "set_mem s' st'" q ob' "?dm(cs ''list'' := p)"] s'(3,4) by simp
  then have "fields (set_mem s' st') q \<le> fields s q + 2" using card_upd_le [OF t(2), of "cs ''list''" p] c1 by simp
  moreover have "dom (dirents s') = dom (dirents s)" 
  proof -
    have "dirents s' z = None \<longleftrightarrow> dirents s z = None" for z using s'(7) [of z] by (metis driver_mem(4) option.map_disc_iff)
    then show ?thesis by (simp add: dom_def)
  qed
  ultimately show ?thesis using assms(3) s'(5) dir_rep_mem [OF _ st'(2)] by (intro exI [of _ "set_mem s' st'"]) (simp del: cs_simps)
qed

lemma dir_unlink_ok:
  assumes "dir_rep s q names em" and "fields s q < 2 ^ 25"
  shows "\<exists>s'. dir_unlink s q src [c, entry] = Some (Some (if em entry = 0 then cs ''! nfound'' else cs ''T''), s') \<and>
    dir_rep s' q (filter (\<lambda>n. n \<noteq> entry) names) (em(entry := 0)) \<and> robject_get (o_idx s') = robject_get (o_idx s) \<and>
    fields s' q \<le> fields s q + 2 \<and> dom (dirents s') = dom (dirents s)"
  using dir_unlink_absent [OF assms(1), of entry src c] dir_unlink_present [OF assms, of entry src c] by (cases "em entry = 0") auto

section \<open>Listing\<close>

definition tab_join :: "u8 list option \<Rightarrow> u8 list list \<Rightarrow> u8 list option" where
  "tab_join acc names = foldl (\<lambda>acc n. Some (case acc of None \<Rightarrow> n | Some l \<Rightarrow> n @ 9 # l)) acc names"

lemma dir_list_loop_ok:
  "dchain (dlinks (dirents s)) pr p xs \<Longrightarrow> node_names (dirents s) xs names \<Longrightarrow> outcomes (mem_of s) = [] \<Longrightarrow>
    \<exists>st. dir_list_loop s p acc = Some (tab_join acc names, set_mem s st) \<and> outcomes st = []"
proof (induction xs arbitrary: pr p names acc s)
  case Nil
  then show ?case by (subst dir_list_loop.simps) (auto simp: tab_join_def set_mem_def intro: exI [of _ "mem_of s"])
next
  case (Cons x xs)
  then obtain d where d: "x = p" "p \<noteq> 0" "dirents s p = Some d" "dchain (dlinks (dirents s)) p (de_next d) xs" by auto
  obtain n ns where n: "names = n # ns" "de_name d = Some n" "node_names (dirents s) xs ns" using Cons.prems(2) d by auto
  let ?acc = "Some (case acc of None \<Rightarrow> n | Some l \<Rightarrow> n @ 9 # l)"
  obtain st where st: "outcomes st = []" "dir_list_loop s p acc = dir_list_loop (set_mem s st) (de_next d) ?acc"
  proof (cases acc)
    case None
    then have "dir_list_loop s p acc = dir_list_loop (set_mem s ((mem_of s)\<lparr>live := live (mem_of s) + 1\<rparr>)) (de_next d) ?acc"
      using d n Cons.prems(3) by (subst dir_list_loop.simps) (simp add: strdup_ok)
    then show ?thesis using that [of "(mem_of s)\<lparr>live := live (mem_of s) + 1\<rparr>"] Cons.prems(3) by simp
  next
    case (Some l)
    then have "dir_list_loop s p acc = dir_list_loop (set_mem s (tfree ((mem_of s)\<lparr>live := live (mem_of s) + 1\<rparr>))) (de_next d) ?acc"
      using d n Cons.prems(3) by (subst dir_list_loop.simps) (simp add: strvcat_def tmalloc_ok)
    then show ?thesis using that [of "tfree ((mem_of s)\<lparr>live := live (mem_of s) + 1\<rparr>)"] Cons.prems(3) by simp
  qed
  show ?case using Cons.IH [of "set_mem s st" p "de_next d" ns ?acc] d(4) n(1,3) st by (simp add: tab_join_def)
qed

lemma dir_list_ok:
  assumes "dir_rep s q names em"
  shows "\<exists>s'. dir_list s q src argv = Some (tab_join None names, s')"
proof -
  obtain ob dm xs where r: "q \<noteq> 0" "outcomes (mem_of s) = []" "o_objs s q = Some ob" "tbl_ok (data_table ob) dm"
    "dchain (dlinks (dirents s)) 0 (dm (cs ''list'')) xs" "node_names (dirents s) xs names"
    using assms unfolding dir_rep_def by blast
  obtain st where st: "dir_list_loop s (dm (cs ''list'')) None = Some (tab_join None names, set_mem s st)" "outcomes st = []"
    using dir_list_loop_ok [OF r(5,6,2)] by blast
  show ?thesis
    using st get_data_ok [OF r(3,1,4)] ret_text_ok [of "set_mem s st"]
    by (cases "tab_join None names") (auto simp: dir_list_def robject_data_def simp del: cs_simps)
qed

section \<open>Histories of a directory\<close>

datatype dir_event = Link "u8 list" u32 | Unlink "u8 list"

definition dir_step :: "drv_env \<Rightarrow> ptr \<Rightarrow> dir_event \<Rightarrow> driver \<Rightarrow> driver option" where
  "dir_step env q ev s = (case ev of
     Link e idx \<Rightarrow> do { (_, s) \<leftarrow> dir_link env s q 0 [cs ''link'', e, rp_text (RP_CONS (v_pid env) idx)]; Some s }
   | Unlink e \<Rightarrow> do { (_, s) \<leftarrow> dir_unlink s q 0 [cs ''unlink'', e]; Some s })"

text \<open>The directory as it is meant: the names, the newest first, and the object of each name.\<close>

definition dir_spec :: "(u32 \<Rightarrow> ptr) \<Rightarrow> dir_event \<Rightarrow> u8 list list \<times> (u8 list \<Rightarrow> ptr) \<Rightarrow> u8 list list \<times> (u8 list \<Rightarrow> ptr)" where
  "dir_spec get ev = (\<lambda>(names, em). case ev of
     Link e idx \<Rightarrow> if get idx = 0 then (names, em) else (if em e \<noteq> 0 then names else e # names, em(e := get idx))
   | Unlink e \<Rightarrow> (filter (\<lambda>n. n \<noteq> e) names, em(e := 0)))"

text \<open>Addresses of new nodes are new while there are not too many.\<close>

definition fresh_nodes :: "drv_env \<Rightarrow> bool" where
  "fresh_nodes env \<longleftrightarrow> (\<forall>ds. card (dom ds) < 2 ^ 25 \<longrightarrow> v_node env ds \<noteq> 0 \<and> ds (v_node env ds) = None)"

lemma dir_link_unknown:
  assumes "dir_rep s q names em" and "robject_get (o_idx s) idx = 0"
  shows "\<exists>st. dir_link env s q src [c, e, rp_text (RP_CONS (v_pid env) idx)] = Some (Some (cs ''! nfound''), set_mem s st) \<and> outcomes st = []"
proof -
  let ?rp = "RP_CONS (v_pid env) idx"
  have o: "outcomes (mem_of s) = []" using assms(1) by (simp add: dir_rep_def)
  obtain st1 where 1: "ator (Some (rp_text ?rp)) (mem_of s) = Some (?rp, st1)" "outcomes st1 = []" using ator_text [OF o] by blast
  obtain st2 where 2: "ator (Some (rp_text ?rp)) st1 = Some (?rp, st2)" "outcomes st2 = []" using ator_text [OF 1(2)] by blast
  obtain st3 where "ret_error (set_mem s st2) ENOENT = Some (Some (cs ''! nfound''), set_mem s st3)" "outcomes st3 = []"
    using ret_error_ok [of "set_mem s st2" ENOENT] 2(2) error_text by auto
  then show ?thesis using 1(1) 2(1) assms(2) by (intro exI [of _ st3]) (simp add: dir_link_def del: cs_simps)
qed

lemma dir_step_ok:
  assumes "dir_rep s q names em" and "fields s q < 2 ^ 25" and "fresh_nodes env" and "card (dom (dirents s)) < 2 ^ 25"
    and "dir_spec (robject_get (o_idx s)) ev (names, em) = (names', em')"
  shows "\<exists>s'. dir_step env q ev s = Some s' \<and> dir_rep s' q names' em' \<and> robject_get (o_idx s') = robject_get (o_idx s) \<and>
    fields s' q \<le> fields s q + 2 \<and> card (dom (dirents s')) \<le> Suc (card (dom (dirents s)))"
proof (cases ev)
  case (Link e idx)
  show ?thesis
  proof (cases "robject_get (o_idx s) idx = 0")
    case True
    then obtain st where st: "dir_link env s q 0 [cs ''link'', e, rp_text (RP_CONS (v_pid env) idx)] = Some (Some (cs ''! nfound''), set_mem s st)" "outcomes st = []"
      using dir_link_unknown [OF assms(1)] by blast
    have "fields (set_mem s st) q = fields s q" by (simp add: fields_def)
    then show ?thesis using st True assms(5) Link dir_rep_mem [OF assms(1) st(2)]
      by (intro exI [of _ "set_mem s st"]) (simp add: dir_step_def dir_spec_def del: cs_simps)
  next
    case False
    let ?x = "v_node env (dirents s)"
    have f: "dirents s ?x = None" "?x \<noteq> 0" using assms(3,4) by (auto simp: fresh_nodes_def)
    obtain s' where s': "dir_link env s q 0 [cs ''link'', e, rp_text (RP_CONS (v_pid env) idx)] = Some (Some (cs ''T''), s')"
      "dir_rep s' q (if em e \<noteq> 0 then names else e # names) (em(e := robject_get (o_idx s) idx))" "robject_get (o_idx s') = robject_get (o_idx s)"
      "fields s' q \<le> fields s q + 2" "dom (dirents s') \<subseteq> insert ?x (dom (dirents s))"
      using dir_link_ok [OF assms(1,2) refl False f] by blast
    have "card (dom (dirents s')) \<le> card (insert ?x (dom (dirents s)))" by (rule card_mono [OF _ s'(5)]) simp
    also have "\<dots> \<le> Suc (card (dom (dirents s)))" by (rule card_insert_le_m1) simp_all
    finally show ?thesis using s' False assms(5) Link
      by (intro exI [of _ s']) (auto simp: dir_step_def dir_spec_def simp del: cs_simps)
  qed
next
  case (Unlink e)
  obtain s' x where "dir_unlink s q 0 [cs ''unlink'', e] = Some (x, s')" "dir_rep s' q (filter (\<lambda>n. n \<noteq> e) names) (em(e := 0))"
    "robject_get (o_idx s') = robject_get (o_idx s)" "fields s' q \<le> fields s q + 2" "dom (dirents s') = dom (dirents s)"
    using dir_unlink_ok [OF assms(1,2), of 0 "cs ''unlink''" e] by blast
  then show ?thesis using assms(5) Unlink by (intro exI [of _ s']) (simp add: dir_step_def dir_spec_def del: cs_simps)
qed

lemma dir_steps_ok:
  "dir_rep s q names em \<Longrightarrow> fields s q + 2 * length evs < 2 ^ 25 \<Longrightarrow> fresh_nodes env \<Longrightarrow> card (dom (dirents s)) + length evs < 2 ^ 25 \<Longrightarrow>
    \<exists>s'. for_list (dir_step env q) evs s = Some s' \<and> robject_get (o_idx s') = robject_get (o_idx s) \<and>
      dir_rep s' q (fst (fold (dir_spec (robject_get (o_idx s))) evs (names, em))) (snd (fold (dir_spec (robject_get (o_idx s))) evs (names, em)))"
proof (induction evs arbitrary: s names em)
  case (Cons ev evs)
  obtain n1 e1 where d: "dir_spec (robject_get (o_idx s)) ev (names, em) = (n1, e1)" by fastforce
  obtain s1 where s1: "dir_step env q ev s = Some s1" "dir_rep s1 q n1 e1" "robject_get (o_idx s1) = robject_get (o_idx s)"
    "fields s1 q \<le> fields s q + 2" "card (dom (dirents s1)) \<le> Suc (card (dom (dirents s)))"
    using dir_step_ok [OF Cons.prems(1) _ Cons.prems(3) _ d] Cons.prems(2,4) by auto
  then show ?case using Cons.IH [OF s1(2) _ Cons.prems(3)] Cons.prems(2,4) d by auto
qed auto

text \<open>
  C30. A directory is a map with a list of its names: any sequence of \<open>link\<close> and \<open>unlink\<close> calls on an empty directory returns, a lookup of the entry of any name
  gives the object it was last linked to, or a null pointer when it was removed or never linked, and \<open>list\<close> returns exactly
  the names that have an entry, joined by tabs. Links to unknown objects and removals of missing entries change nothing.\<close>

theorem dir_refines:
  assumes "o_objs s q = Some ob" and "q \<noteq> 0" and "data_table ob = None" and "outcomes (ro_mem (o_idx s)) = []" and "fresh_nodes env"
    and "card (dom (dirents s)) + length evs < 2 ^ 25" and "length evs < 2 ^ 23"
    and "fold (dir_spec (robject_get (o_idx s))) evs ([], \<lambda>_. 0) = (names, em)"
  shows "\<exists>s' s''. for_list (dir_step env q) evs s = Some s' \<and> (\<forall>n. robject_get_data s' q (Some (dirent_key n)) = Some (em n)) \<and>
    dir_list s' q src argv = Some (tab_join None names, s'') \<and> distinct names \<and> set names = {n. em n \<noteq> 0}"
proof -
  have "dir_rep s q [] (\<lambda>_. 0)" "fields s q = 0" using assms(1-4) by (auto simp: dir_rep_def fields_def intro!: exI [of _ "\<lambda>_. 0"] exI [of _ "[]"])
  then obtain s' where s': "for_list (dir_step env q) evs s = Some s'" "dir_rep s' q names em"
    using dir_steps_ok [of s q "[]" "\<lambda>_. 0" evs env] assms(5-8) by auto
  then obtain ob' dm where "o_objs s' q = Some ob'" "tbl_ok (data_table ob') dm" "\<forall>n. dm (dirent_key n) = em n" unfolding dir_rep_def by blast
  then have "\<forall>n. robject_get_data s' q (Some (dirent_key n)) = Some (em n)" using get_data_ok assms(2) by metis
  moreover obtain s'' where "dir_list s' q src argv = Some (tab_join None names, s'')" using dir_list_ok [OF s'(2)] by blast
  moreover have "distinct names" "set names = {n. em n \<noteq> 0}" using s'(2) by (auto simp: dir_rep_def)
  ultimately show ?thesis using s'(1) by blast
qed

text \<open>A run with an allocator that finds a free address.\<close>

theorem dir_refines_witness:
  "\<exists>s' s''. for_list (dir_step (lone_env\<lparr>v_node := first_free\<rparr>) 0x40) [Link [97] 1, Unlink [98], Link [98] 1, Link [99] 1, Unlink [97]] lone_driver = Some s' \<and>
    robject_get_data s' 0x40 (Some (dirent_key [98])) = Some 0x40 \<and> robject_get_data s' 0x40 (Some (dirent_key [97])) = Some 0 \<and>
    dir_list s' 0x40 0 [] = Some (Some [98, 9, 99], s'')"
proof -
  let ?evs = "[Link [97] 1, Unlink [98], Link [98] 1, Link [99] 1, Unlink [97]]" and ?env = "lone_env\<lparr>v_node := first_free\<rparr>"
  have h: "o_objs lone_driver 0x40 = Some (empty_object\<lparr>o_index := 1\<rparr>)" "(0x40 :: ptr) \<noteq> 0" "data_table (empty_object\<lparr>o_index := 1\<rparr>) = None"
      "outcomes (ro_mem (o_idx lone_driver)) = []" "card (dom (dirents lone_driver)) + length ?evs < 2 ^ 25" "length ?evs < 2 ^ 23"
    by (simp_all add: lone_driver_def lone_index_def robjects_init_def)
  have f: "fresh_nodes ?env" by (simp add: fresh_nodes_def first_free_ok)
  have r: "fold (dir_spec (robject_get (o_idx lone_driver))) ?evs ([], \<lambda>_. 0) = ([[99], [98]], (((\<lambda>_. 0)([97] := 0x40))([98] := 0, [98] := 0x40, [99] := 0x40, [97] := 0)))"
    by (simp add: dir_spec_def lone_get)
  show ?thesis using dir_refines [OF h(1-4) f h(5,6) r, where src = 0 and argv = "[]"] by (auto simp: tab_join_def)
qed

end
