(* ===== verification/Pipe.thy ===== *)
theory Pipe
  imports Driver_Dirs
begin

text \<open>
  The driver for pipes, \<open>driver/pipe/main.c\<close>. A pipe is a linked list of characters; its address is the field \<open>pipe\<close> of the object of a file. Pipes
  and nodes are partial functions from their addresses, and the addresses that \<open>malloc\<close> returns are functions of what is in use. A reader of an empty
  pipe sleeps while there are writers; what the other threads of the driver do during each of its sleeps is an argument.
\<close>

section \<open>State\<close>

record pipe_node =
  pn_next :: ptr
  pn_datum :: u32

record pipe =
  pp_mutex :: bool
  pp_front :: ptr
  pp_back :: ptr

record pipes =
  pipe_at :: "ptr \<Rightarrow> pipe option"
  pnode_at :: "ptr \<Rightarrow> pipe_node option"

record pipe_env =
  pv_node :: "(ptr \<Rightarrow> pipe_node option) \<Rightarrow> ptr"
  pv_pipe :: "(ptr \<Rightarrow> pipe option) \<Rightarrow> ptr"

type_synonym pipe_state = "driver \<times> pipes"

abbreviation (input) ERR_EOF :: u32 where "ERR_EOF \<equiv> 0x100"
abbreviation (input) ERR_EMPTY :: u32 where "ERR_EMPTY \<equiv> 0x101"

section \<open>Operations\<close>

definition pipe_new :: "pipe_env \<Rightarrow> pipes \<Rightarrow> (ptr \<times> pipes) option" where
  "pipe_new env s = (
     let p = pv_pipe env (pipe_at s) in
     if p = 0 then None
     else Some (p, s\<lparr>pipe_at := (pipe_at s)(p \<mapsto> \<lparr>pp_mutex = False, pp_front = 0, pp_back = 0\<rparr>)\<rparr>))"

definition pipe_getc :: "pipes \<Rightarrow> ptr \<Rightarrow> (u32 \<times> pipes) option" where
  "pipe_getc s p = do {
     q \<leftarrow> pipe_at s p;
     if pp_mutex q then None
     else if pp_front q \<noteq> 0 then do {
       let node = pp_front q;
       n \<leftarrow> pnode_at s node;
       Some (pn_datum n, s\<lparr>pipe_at := (pipe_at s)(p \<mapsto> q\<lparr>pp_front := pn_next n, pp_back := (if pp_back q = node then 0 else pp_back q)\<rparr>),
         pnode_at := (pnode_at s)(node := None)\<rparr>)
     }
     else Some (ERR_EMPTY, s)
   }"

definition pipe_putc :: "pipe_env \<Rightarrow> pipes \<Rightarrow> ptr \<Rightarrow> u32 \<Rightarrow> pipes option" where
  "pipe_putc env s p datum = (
     let node = pv_node env (pnode_at s) in
     if node = 0 then None
     else do {
       let s = s\<lparr>pnode_at := (pnode_at s)(node \<mapsto> \<lparr>pn_next = 0, pn_datum = datum\<rparr>)\<rparr>;
       q \<leftarrow> pipe_at s p;
       if pp_mutex q then None
       else if pp_back q = 0 then Some (s\<lparr>pipe_at := (pipe_at s)(p \<mapsto> q\<lparr>pp_front := node, pp_back := node\<rparr>)\<rparr>)
       else do {
         b \<leftarrow> pnode_at s (pp_back q);
         Some (s\<lparr>pnode_at := (pnode_at s)(pp_back q \<mapsto> b\<lparr>pn_next := node\<rparr>), pipe_at := (pipe_at s)(p \<mapsto> q\<lparr>pp_back := node\<rparr>)\<rparr>)
       }
     })"

definition pipe_write :: "pipe_env \<Rightarrow> pipe_state \<Rightarrow> ptr \<Rightarrow> u64 \<Rightarrow> u8 list \<Rightarrow> u64 \<Rightarrow> (u32 \<times> pipe_state) option" where
  "pipe_write env = (\<lambda>(d, s) self source buffer offset. do {
     p \<leftarrow> robject_data d self (Some (cs ''pipe''));
     s \<leftarrow> for_list (\<lambda>b s. pipe_putc env s p (ucast b)) buffer s;
     Some (of_nat (length buffer), (d, s))
   })"

text \<open>What another thread does: it writes to an object, or the process at the other end closes one.\<close>

datatype pipe_event = PWrite ptr u64 "u8 list" | PClose ptr u64

fun pipe_step :: "pipe_env \<Rightarrow> pipe_event \<Rightarrow> pipe_state \<Rightarrow> pipe_state option" where
  "pipe_step env (PWrite ro source buffer) s = do { (_, s) \<leftarrow> pipe_write env s ro source buffer 0; Some s }"
| "pipe_step env (PClose ro source) (d, s) = do { d \<leftarrow> robject_close d ro source; Some (d, s) }"

text \<open>The next character, \<open>ERR_EOF\<close> when there are no writers; the last argument has the events of every sleep.\<close>

fun pipe_wait :: "pipe_env \<Rightarrow> pipe_state \<Rightarrow> ptr \<Rightarrow> ptr \<Rightarrow> pipe_event list list \<Rightarrow> (u32 \<times> pipe_state \<times> pipe_event list list) option" where
  "pipe_wait env (d, s) self p sleeps = do {
     (datum, s) \<leftarrow> pipe_getc s p;
     if datum \<noteq> ERR_EMPTY then Some (datum, (d, s), sleeps)
     else do {
       n \<leftarrow> robject_count_status d self STAT_WRITER;
       if n = 0 then Some (ERR_EOF, (d, s), sleeps)
       else case sleeps of
         [] \<Rightarrow> None
       | w # ws \<Rightarrow> do { st \<leftarrow> for_list (pipe_step env) w (d, s); pipe_wait env st self p ws }
     }
   }"

fun pipe_read_loop :: "pipe_env \<Rightarrow> pipe_state \<Rightarrow> ptr \<Rightarrow> ptr \<Rightarrow> nat \<Rightarrow> pipe_event list list \<Rightarrow> (u8 list \<times> pipe_state \<times> pipe_event list list) option" where
  "pipe_read_loop env st self p 0 sleeps = Some ([], st, sleeps)"
| "pipe_read_loop env st self p (Suc n) sleeps = do {
     (datum, st, sleeps) \<leftarrow> pipe_wait env st self p sleeps;
     if datum = ERR_EOF then Some ([], st, sleeps)
     else do { (buffer, st, sleeps) \<leftarrow> pipe_read_loop env st self p n sleeps; Some (ucast datum # buffer, st, sleeps) }
   }"

definition pipe_read :: "pipe_env \<Rightarrow> pipe_state \<Rightarrow> ptr \<Rightarrow> u64 \<Rightarrow> u32 \<Rightarrow> u64 \<Rightarrow> pipe_event list list \<Rightarrow> (u8 list \<times> pipe_state) option" where
  "pipe_read env = (\<lambda>(d, s) self source sz offset sleeps. do {
     p \<leftarrow> robject_data d self (Some (cs ''pipe''));
     (buffer, st, _) \<leftarrow> pipe_read_loop env (d, s) self p (unat sz) sleeps;
     Some (buffer, st)
   })"

definition pipe_file_cons :: "pipe_env \<Rightarrow> drv_env \<Rightarrow> pipe_state \<Rightarrow> u64 \<Rightarrow> (ptr \<times> pipe_state) option" where
  "pipe_file_cons env denv = (\<lambda>(d, s) source. do {
     let (index, idx) = robject_new_index (o_idx d);
     (new_r, d) \<leftarrow> rdi_file_cons denv (d\<lparr>o_idx := idx\<rparr>) index (STAT_READER OR STAT_WRITER);
     (p, s) \<leftarrow> pipe_new env s;
     d \<leftarrow> robject_set_data d new_r (Some (cs ''pipe'')) p;
     d \<leftarrow> robject_open d new_r source (STAT_OPEN OR STAT_READER OR STAT_WRITER);
     Some (new_r, (d, s))
   })"

text \<open>The setup of the process, with the constructor as function 1 and the read and write hooks as functions 2 and 3.\<close>

definition pipe_main :: "drv_env \<Rightarrow> driver \<Rightarrow> ipc \<Rightarrow> (driver \<times> ipc \<times> ptr \<times> ptr) option" where
  "pipe_main denv d p = do {
     (d, p) \<leftarrow> rdi_init denv d p;
     (root, d) \<leftarrow> rdi_core_cons denv d 1 (STAT_READER OR STAT_WRITER);
     Some (d\<lparr>cons_file_hook := 1\<rparr>, p, 2, 3)
   }"

section \<open>Pipes as queues of characters\<close>

definition pipe_next :: "pipes \<Rightarrow> ptr \<Rightarrow> ptr option" where
  "pipe_next s = (\<lambda>x. map_option pn_next (pnode_at s x))"

definition pipe_cells :: "pipes \<Rightarrow> ptr \<Rightarrow> ptr list \<Rightarrow> bool" where
  "pipe_cells s p qs \<longleftrightarrow> (\<exists>q. pipe_at s p = Some q \<and> \<not> pp_mutex q \<and> chain (pipe_next s) (pp_front q) qs
     \<and> pp_back q = (if qs = [] then 0 else last qs))"

definition pipe_holds :: "pipes \<Rightarrow> ptr \<Rightarrow> u8 list \<Rightarrow> bool" where
  "pipe_holds s p xs \<longleftrightarrow> (\<exists>qs. pipe_cells s p qs \<and> map (\<lambda>x. map_option pn_datum (pnode_at s x)) qs = map (Some \<circ> ucast) xs)"

text \<open>What \<open>malloc\<close> promises for a number of further nodes.\<close>

definition pipe_room :: "pipe_env \<Rightarrow> pipes \<Rightarrow> nat \<Rightarrow> bool" where
  "pipe_room env s k \<longleftrightarrow> (\<forall>m. card (dom m) < card (dom (pnode_at s)) + k \<longrightarrow> pv_node env m \<noteq> 0 \<and> m (pv_node env m) = None)"

lemma pipe_next_upd [simp]: "pipe_next (s\<lparr>pnode_at := m\<rparr>) = (\<lambda>x. map_option pn_next (m x))" "pipe_next (s\<lparr>pipe_at := t\<rparr>) = pipe_next s"
  by (simp_all add: pipe_next_def)

lemma pipe_new_holds: "pipe_new env s = Some (p, s') \<Longrightarrow> pipe_holds s' p []"
  by (auto simp: pipe_new_def pipe_holds_def pipe_cells_def Let_def split: if_splits)

lemma pipe_getc_empty: "pipe_holds s p [] \<Longrightarrow> pipe_getc s p = Some (ERR_EMPTY, s)"
  by (auto simp: pipe_holds_def pipe_cells_def pipe_getc_def)

lemma pipe_getc_first:
  assumes "pipe_holds s p (x # xs)"
  shows "\<exists>s'. pipe_getc s p = Some (ucast x, s') \<and> pipe_holds s' p xs"
proof -
  obtain q qs where q: "pipe_at s p = Some q" "\<not> pp_mutex q" "chain (pipe_next s) (pp_front q) qs"
      "pp_back q = (if qs = [] then 0 else last qs)" and m: "map (\<lambda>x. map_option pn_datum (pnode_at s x)) qs = map (Some \<circ> ucast) (x # xs)"
    using assms unfolding pipe_holds_def pipe_cells_def by blast
  then obtain f rs n where qs: "qs = f # rs" "pp_front q = f" "f \<noteq> 0" "pnode_at s f = Some n" "chain (pipe_next s) (pn_next n) rs"
      and d: "pn_datum n = ucast x" "map (\<lambda>x. map_option pn_datum (pnode_at s x)) rs = map (Some \<circ> ucast) xs"
    by (cases qs) (auto simp: pipe_next_def)
  have dist: "f \<notin> set rs" using chain_distinct [OF q(3)] qs by auto
  let ?s = "s\<lparr>pipe_at := (pipe_at s)(p \<mapsto> q\<lparr>pp_front := pn_next n, pp_back := (if pp_back q = f then 0 else pp_back q)\<rparr>), pnode_at := (pnode_at s)(f := None)\<rparr>"
  have "chain (pipe_next ?s) (pn_next n) rs"
    using qs(5) dist by (subst chain_cong [where nx' = "pipe_next s"]) (auto simp: pipe_next_def)
  moreover have "map (\<lambda>x. map_option pn_datum (pnode_at ?s x)) rs = map (Some \<circ> ucast) xs"
    unfolding d(2) [symmetric] using dist by (intro map_cong) auto
  moreover have "(if pp_back q = f then 0 else pp_back q) = (if rs = [] then 0 else last rs)"
  proof (cases "rs = []")
    case False
    then have "last rs \<noteq> f" using dist last_in_set by metis
    then show ?thesis using q(4) qs False by simp
  qed (use q(4) qs in simp)
  ultimately have "pipe_holds ?s p xs"
    using q(2) by (auto simp: pipe_holds_def pipe_cells_def intro!: exI [of _ rs])
  then show ?thesis using q qs d by (auto simp: pipe_getc_def intro!: exI [of _ ?s])
qed

lemma pipe_putc_last:
  assumes "pipe_holds s p xs" and f: "pv_node env (pnode_at s) \<noteq> 0" "pnode_at s (pv_node env (pnode_at s)) = None"
  shows "\<exists>s'. pipe_putc env s p (ucast x) = Some s' \<and> pipe_holds s' p (xs @ [x]) \<and> card (dom (pnode_at s')) = Suc (card (dom (pnode_at s)))"
proof -
  obtain q qs where q: "pipe_at s p = Some q" "\<not> pp_mutex q" "chain (pipe_next s) (pp_front q) qs"
      "pp_back q = (if qs = [] then 0 else last qs)" and m: "map (\<lambda>x. map_option pn_datum (pnode_at s x)) qs = map (Some \<circ> ucast) xs"
    using assms(1) unfolding pipe_holds_def pipe_cells_def by blast
  let ?x = "pv_node env (pnode_at s)" and ?n = "\<lparr>pn_next = 0, pn_datum = ucast x\<rparr>"
  have new: "?x \<notin> set qs" using chain_alloc [OF q(3), of ?x] f(2) by (auto simp: pipe_next_def)
  show ?thesis
  proof (cases "qs = []")
    case True
    let ?s = "s\<lparr>pnode_at := (pnode_at s)(?x \<mapsto> ?n), pipe_at := (pipe_at s)(p \<mapsto> q\<lparr>pp_front := ?x, pp_back := ?x\<rparr>)\<rparr>"
    have "pipe_holds ?s p (xs @ [x])"
      using q(2) True m f(1) by (auto simp: pipe_holds_def pipe_cells_def intro!: exI [of _ "[?x]"])
    moreover have "card (dom (pnode_at ?s)) = Suc (card (dom (pnode_at s)))" using f(2) by (simp add: card_insert_if domIff)
    ultimately show ?thesis using q True f by (auto simp: pipe_putc_def Let_def intro!: exI [of _ ?s])
  next
    case False
    then have l: "last qs \<in> set qs" "last qs \<noteq> ?x" "last qs \<noteq> 0" using new chain_nonzero [OF q(3)] last_in_set [OF False] by metis+
    then obtain b where b: "pnode_at s (last qs) = Some b" using chain_alloc [OF q(3) l(1)] by (auto simp: pipe_next_def)
    let ?ns = "(pnode_at s)(?x \<mapsto> ?n, last qs \<mapsto> b\<lparr>pn_next := ?x\<rparr>)"
    let ?s = "s\<lparr>pnode_at := ?ns, pipe_at := (pipe_at s)(p \<mapsto> q\<lparr>pp_back := ?x\<rparr>)\<rparr>"
    have "pipe_next ?s = (pipe_next s)(last qs := Some ?x, ?x := Some 0)" using l(2) by (auto simp: pipe_next_def)
    then have "chain (pipe_next ?s) (pp_front q) (qs @ [?x])" using chain_snoc [OF q(3) False new f(1)] by simp
    moreover have "map (\<lambda>x. map_option pn_datum (?ns x)) qs = map (Some \<circ> ucast) xs"
      unfolding m [symmetric] using new b by (intro map_cong) auto
    moreover have "dom ?ns = insert ?x (dom (pnode_at s))" using b by auto
    ultimately have "pipe_holds ?s p (xs @ [x])" "card (dom (pnode_at ?s)) = Suc (card (dom (pnode_at s)))"
      using q(2) l(2) f(2) by (auto simp: pipe_holds_def pipe_cells_def card_insert_if intro!: exI [of _ "qs @ [?x]"])
    then show ?thesis using q False l b f(1) by (auto simp: pipe_putc_def Let_def intro!: exI [of _ ?s])
  qed
qed

section \<open>Sequences of operations\<close>

text \<open>A queue with room for a number of further elements, and runs of it.\<close>

datatype 'x fifo_op = FPut 'x | FGet

primrec fifo_puts :: "'x fifo_op list \<Rightarrow> 'x list" where
  "fifo_puts [] = []"
| "fifo_puts (e # es) = (case e of FPut x \<Rightarrow> x # fifo_puts es | FGet \<Rightarrow> fifo_puts es)"

primrec fifo_run :: "('s \<Rightarrow> 'x \<Rightarrow> 's option) \<Rightarrow> ('s \<Rightarrow> ('x option \<times> 's) option) \<Rightarrow> 'x fifo_op list \<Rightarrow> 's \<Rightarrow> ('x list \<times> 's) option" where
  "fifo_run put get [] s = Some ([], s)"
| "fifo_run put get (e # es) s = (case e of
     FPut x \<Rightarrow> do { s \<leftarrow> put s x; fifo_run put get es s }
   | FGet \<Rightarrow> do { (x, s) \<leftarrow> get s; (out, s) \<leftarrow> fifo_run put get es s; Some (case x of None \<Rightarrow> out | Some x \<Rightarrow> x # out, s) })"

locale fifo =
  fixes put :: "'s \<Rightarrow> 'x \<Rightarrow> 's option" and get :: "'s \<Rightarrow> ('x option \<times> 's) option" and rep :: "'s \<Rightarrow> 'x list \<Rightarrow> nat \<Rightarrow> bool"
  assumes put: "rep s xs (Suc k) \<Longrightarrow> \<exists>s'. put s x = Some s' \<and> rep s' (xs @ [x]) k"
    and get_empty: "rep s [] k \<Longrightarrow> get s = Some (None, s)"
    and get: "rep s (x # xs) k \<Longrightarrow> \<exists>s'. get s = Some (Some x, s') \<and> rep s' xs k"
begin

lemma run_order:
  "rep s xs (k + length (fifo_puts es)) \<Longrightarrow> \<exists>out s' ys. fifo_run put get es s = Some (out, s') \<and> rep s' ys k \<and> out @ ys = xs @ fifo_puts es"
proof (induction es arbitrary: s xs)
  case (Cons e es)
  show ?case
  proof (cases e)
    case (FPut x)
    then obtain s1 where "put s x = Some s1" "rep s1 (xs @ [x]) (k + length (fifo_puts es))" using put [of s xs _ x] Cons.prems by auto
    then show ?thesis using Cons.IH FPut by fastforce
  next
    case FGet
    then have r: "rep s xs (k + length (fifo_puts es))" using Cons.prems by simp
    show ?thesis
    proof (cases xs)
      case Nil
      then show ?thesis using Cons.IH [OF r] get_empty r FGet by fastforce
    next
      case (Cons x ys)
      then obtain s1 where "get s = Some (Some x, s1)" "rep s1 ys (k + length (fifo_puts es))" using get r by blast
      then show ?thesis using Cons.IH [of s1 ys] Cons FGet by fastforce
    qed
  qed
qed auto

end

text \<open>The instance for pipes: the allocator, the address of the pipe and the state.\<close>

type_synonym pipe_view = "pipe_env \<times> ptr \<times> pipes"

definition view_put :: "pipe_view \<Rightarrow> u8 \<Rightarrow> pipe_view option" where
  "view_put = (\<lambda>(env, p, s) x. do { s \<leftarrow> pipe_putc env s p (ucast x); Some (env, p, s) })"

definition view_get :: "pipe_view \<Rightarrow> (u8 option \<times> pipe_view) option" where
  "view_get = (\<lambda>(env, p, s). do { (d, s) \<leftarrow> pipe_getc s p; Some (if d = ERR_EMPTY then None else Some (ucast d), (env, p, s)) })"

definition view_rep :: "pipe_view \<Rightarrow> u8 list \<Rightarrow> nat \<Rightarrow> bool" where
  "view_rep = (\<lambda>(env, p, s) xs k. pipe_holds s p xs \<and> pipe_room env s k)"

lemma byte_not_error [simp]: "(ucast (x :: u8) :: u32) \<noteq> ERR_EMPTY" "(ucast (x :: u8) :: u32) \<noteq> ERR_EOF"
proof -
  have "unat x < 2 ^ LENGTH(8)" by (rule unsigned_less)
  then have "unat (ucast x :: u32) < 256" by (simp add: unsigned_ucast_eq take_bit_nat_eq_self)
  then show "(ucast x :: u32) \<noteq> ERR_EMPTY" "(ucast x :: u32) \<noteq> ERR_EOF" by auto
qed

lemma byte_cast [simp]: "(ucast (ucast (x :: u8) :: u32) :: u8) = x"
  by (rule bit_word_eqI) (simp add: bit_simps)

lemma pipe_putc_room:
  assumes "pipe_holds s p xs" and "pipe_room env s (Suc k)"
  shows "\<exists>s'. pipe_putc env s p (ucast x) = Some s' \<and> pipe_holds s' p (xs @ [x]) \<and> pipe_room env s' k"
proof -
  have "pv_node env (pnode_at s) \<noteq> 0" "pnode_at s (pv_node env (pnode_at s)) = None" using assms(2) by (simp_all add: pipe_room_def)
  from pipe_putc_last [OF assms(1) this, of x] show ?thesis using assms(2) by (auto simp: pipe_room_def)
qed

lemma pipe_getc_room: "pipe_room env s k \<Longrightarrow> pipe_getc s p = Some (d, s') \<Longrightarrow> pipe_room env s' k"
proof -
  assume r: "pipe_room env s k" and g: "pipe_getc s p = Some (d, s')"
  have "dom (pnode_at s') \<subseteq> dom (pnode_at s)" using g by (auto simp: pipe_getc_def Let_def split: if_splits bind_splits)
  then have "card (dom (pnode_at s')) \<le> card (dom (pnode_at s))" by (rule card_mono [rotated]) simp
  then show "pipe_room env s' k" using r by (auto simp: pipe_room_def)
qed

interpretation pf: fifo view_put view_get view_rep
proof
  fix v :: pipe_view and x :: u8 and xs k
  obtain env p s where v: "v = (env, p, s)" by (cases v)
  show "view_rep v xs (Suc k) \<Longrightarrow> \<exists>v'. view_put v x = Some v' \<and> view_rep v' (xs @ [x]) k"
    using pipe_putc_room [of s p xs env k x] by (auto simp: v view_rep_def view_put_def)
  show "view_rep v [] k \<Longrightarrow> view_get v = Some (None, v)" using pipe_getc_empty by (auto simp: v view_rep_def view_get_def)
  show "view_rep v (x # xs) k \<Longrightarrow> \<exists>v'. view_get v = Some (Some x, v') \<and> view_rep v' xs k"
  proof -
    assume "view_rep v (x # xs) k"
    then have h: "pipe_holds s p (x # xs)" "pipe_room env s k" by (simp_all add: v view_rep_def)
    from pipe_getc_first [OF h(1)] obtain s' where "pipe_getc s p = Some (ucast x, s')" "pipe_holds s' p xs" by blast
    then show ?thesis using pipe_getc_room [OF h(2)] by (simp add: v view_rep_def view_get_def)
  qed
qed

lemma view_env: "fifo_run view_put view_get es (env, p, s) = Some (out, v) \<Longrightarrow> \<exists>s'. v = (env, p, s')"
proof (induction es arbitrary: s out)
  case (Cons e es)
  then show ?case by (cases e) (auto simp: view_put_def view_get_def split: bind_splits)
qed auto

text \<open>
  C31. A pipe is a queue. Whatever sequence of characters is put into a pipe and taken from it, both functions return, and the
  characters that were taken, followed by those that are left, are the characters that were in the pipe followed by those that were put: nothing is lost,
  duplicated or reordered, also when the pipe runs empty in between and its last node is freed. The hypothesis on the allocator is that it has free addresses for
  what is put.\<close>

theorem pipe_fifo:
  assumes "pipe_holds s p xs" and "pipe_room env s (length (fifo_puts es))"
  shows "\<exists>out s' ys. fifo_run view_put view_get es (env, p, s) = Some (out, env, p, s') \<and> pipe_holds s' p ys \<and> out @ ys = xs @ fifo_puts es"
proof -
  have "view_rep (env, p, s) xs (0 + length (fifo_puts es))" using assms by (simp add: view_rep_def)
  from pf.run_order [OF this] obtain out v ys
    where r: "fifo_run view_put view_get es (env, p, s) = Some (out, v)" "view_rep v ys 0" "out @ ys = xs @ fifo_puts es" by blast
  with view_env [OF r(1)] show ?thesis by (auto simp: view_rep_def)
qed

section \<open>Readers that wait\<close>

lemma pipe_puts:
  "pipe_holds s p xs \<Longrightarrow> pipe_room env s (length ys + k) \<Longrightarrow>
    \<exists>s'. for_list (\<lambda>b s. pipe_putc env s p (ucast b)) ys s = Some s' \<and> pipe_holds s' p (xs @ ys) \<and> pipe_room env s' k"
proof (induction ys arbitrary: s xs)
  case (Cons y ys)
  have "pipe_room env s (Suc (length ys + k))" using Cons.prems(2) by simp
  from pipe_putc_room [OF Cons.prems(1) this, of y]
  obtain s1 where "pipe_putc env s p (ucast y) = Some s1" "pipe_holds s1 p (xs @ [y])" "pipe_room env s1 (length ys + k)" by blast
  then show ?case using Cons.IH [of s1 "xs @ [y]"] by auto
qed auto

lemma pipe_steps:
  assumes "robject_data d self (Some (cs ''pipe'')) = Some p"
  shows "pipe_holds s p xs \<Longrightarrow> pipe_room env s (length (concat w) + k) \<Longrightarrow>
    \<exists>s'. for_list (pipe_step env) (map (PWrite self src) w) (d, s) = Some (d, s') \<and> pipe_holds s' p (xs @ concat w) \<and> pipe_room env s' k"
proof (induction w arbitrary: s xs)
  case (Cons y w)
  have "pipe_room env s (length y + (length (concat w) + k))" using Cons.prems(2) by (simp add: ac_simps)
  from pipe_puts [OF Cons.prems(1) this]
  obtain s1 where "for_list (\<lambda>b s. pipe_putc env s p (ucast b)) y s = Some s1" "pipe_holds s1 p (xs @ y)" "pipe_room env s1 (length (concat w) + k)" by blast
  then show ?case using Cons.IH [of s1 "xs @ y"] assms by (auto simp: pipe_write_def simp del: cs_simps)
qed auto

lemma pipe_wait_next:
  assumes d: "robject_data d self (Some (cs ''pipe'')) = Some p" "robject_count_status d self STAT_WRITER = Some n" "n \<noteq> 0"
  shows "pipe_holds s p xs \<Longrightarrow> pipe_room env s (length (concat (concat sl))) \<Longrightarrow> xs @ concat (concat sl) = y # ys \<Longrightarrow>
    \<exists>s' xs' sl'. pipe_wait env (d, s) self p (map (map (PWrite self src)) sl) = Some (ucast y, (d, s'), map (map (PWrite self src)) sl') \<and>
      pipe_holds s' p xs' \<and> pipe_room env s' (length (concat (concat sl'))) \<and> xs' @ concat (concat sl') = ys"
proof (induction sl arbitrary: s xs)
  case Nil
  then have "xs = y # ys" by simp
  with pipe_getc_first [of s p y ys] Nil.prems(1) obtain s' where g: "pipe_getc s p = Some (ucast y, s')" "pipe_holds s' p ys" by blast
  then show ?case using pipe_getc_room [OF Nil.prems(2) g(1)] by (auto intro!: exI [of _ "[]"])
next
  case (Cons w sl)
  show ?case
  proof (cases xs)
    case Nil
    have r: "pipe_room env s (length (concat w) + length (concat (concat sl)))" using Cons.prems(2) by simp
    from pipe_steps [OF d(1) Cons.prems(1) r, of src] obtain s1
      where s1: "for_list (pipe_step env) (map (PWrite self src) w) (d, s) = Some (d, s1)" "pipe_holds s1 p (xs @ concat w)"
        "pipe_room env s1 (length (concat (concat sl)))" by blast
    show ?thesis using Cons.IH [OF s1(2,3)] Cons.prems(3) s1(1) d(2,3) pipe_getc_empty Cons.prems(1) Nil by simp
  next
    case (Cons x xs')
    with pipe_getc_first [of s p x xs'] Cons.prems(1) obtain s' where g: "pipe_getc s p = Some (ucast x, s')" "pipe_holds s' p xs'" by blast
    then show ?thesis using pipe_getc_room [OF Cons.prems(2) g(1)] Cons.prems(3) Cons
      by (auto intro!: exI [of _ s'] exI [of _ xs'] exI [of _ "w # sl"])
  qed
qed

lemma pipe_read_waiting:
  assumes d: "robject_data d self (Some (cs ''pipe'')) = Some p" "robject_count_status d self STAT_WRITER = Some n" "n \<noteq> 0"
  shows "pipe_holds s p xs \<Longrightarrow> pipe_room env s (length (concat (concat sl))) \<Longrightarrow> k \<le> length (xs @ concat (concat sl)) \<Longrightarrow>
    \<exists>s' sl' ys. pipe_read_loop env (d, s) self p k (map (map (PWrite self src)) sl) = Some (take k (xs @ concat (concat sl)), (d, s'), map (map (PWrite self src)) sl') \<and>
      pipe_holds s' p ys \<and> ys @ concat (concat sl') = drop k (xs @ concat (concat sl))"
proof (induction k arbitrary: s xs sl)
  case 0
  then show ?case by (auto intro!: exI [of _ sl])
next
  case (Suc k)
  then obtain y ys where y: "xs @ concat (concat sl) = y # ys" by (cases "xs @ concat (concat sl)") auto
  from pipe_wait_next [OF d Suc.prems(1,2) y, of src] obtain s1 xs1 sl1
    where 1: "pipe_wait env (d, s) self p (map (map (PWrite self src)) sl) = Some (ucast y, (d, s1), map (map (PWrite self src)) sl1)"
      "pipe_holds s1 p xs1" "pipe_room env s1 (length (concat (concat sl1)))" "xs1 @ concat (concat sl1) = ys" by blast
  have "k \<le> length (xs1 @ concat (concat sl1))" using Suc.prems(3) unfolding 1(4) y by simp
  from Suc.IH [OF 1(2,3) this] show ?case unfolding 1(4) y using 1(1) by (auto simp del: pipe_wait.simps)
qed

text \<open>
  C32. A read of a pipe waits for the writers. While some process has the pipe open for writing, a read of \<open>size\<close> characters returns as soon
  as the characters in the pipe and those that are written while the reader sleeps are enough, however they are spread over the sleeps. It returns exactly the first
  \<open>size\<close> of them in order and leaves the others, in the pipe or still to be written. The sleeps are a list with the writes that happen during each.\<close>

theorem pipe_read_waits:
  assumes "robject_data d self (Some (cs ''pipe'')) = Some p" and "robject_count_status d self STAT_WRITER = Some n" and "n \<noteq> 0"
    and "pipe_holds s p xs" and "pipe_room env s (length (concat (concat sl)))" and "unat sz \<le> length (xs @ concat (concat sl))"
  shows "\<exists>s' sl' ys. pipe_read env (d, s) self source sz offset (map (map (PWrite self src)) sl) = Some (take (unat sz) (xs @ concat (concat sl)), (d, s')) \<and>
    pipe_holds s' p ys \<and> ys @ concat (concat sl') = drop (unat sz) (xs @ concat (concat sl))"
proof -
  from pipe_read_waiting [OF assms, of src] show ?thesis using assms(1) by (auto simp: pipe_read_def simp del: cs_simps)
qed

text \<open>Without writers, a read returns what there is.\<close>

lemma pipe_read_eof:
  assumes "robject_count_status d self STAT_WRITER = Some 0"
  shows "pipe_holds s p xs \<Longrightarrow> \<exists>s'. pipe_read_loop env (d, s) self p k sl = Some (take k xs, (d, s'), sl) \<and> pipe_holds s' p (drop k xs)"
proof (induction k arbitrary: s xs)
  case (Suc k)
  show ?case
  proof (cases xs)
    case Nil
    then show ?thesis using pipe_getc_empty Suc.prems assms by simp
  next
    case (Cons x ys)
    with pipe_getc_first [of s p x ys] Suc.prems obtain s1 where "pipe_getc s p = Some (ucast x, s1)" "pipe_holds s1 p ys" by blast
    then show ?thesis using Suc.IH [of s1 ys] Cons by auto
  qed
qed auto

section \<open>The number of writers\<close>

lemma table_iter_entries:
  assumes "table_inv t"
  shows "table_iter func t c = for_list (\<lambda>e. func (e_string e) (e_data e)) (all_entries t) c"
proof -
  have "table_iter func t c = for_list (\<lambda>e. func (e_string e) (e_data e)) (concat (map (\<lambda>i. entries (t_table t ! i)) [0..<length (t_table t)])) c"
    unfolding table_iter_def unat_size [OF assms] by (rule for_list_concat) (auto simp: bucket_at_def entries_def split: prod.splits)
  also have "concat (map (\<lambda>i. entries (t_table t ! i)) [0..<length (t_table t)]) = all_entries t"
    by (simp add: all_entries_def map_nth map_map [symmetric, unfolded comp_def] del: map_map)
  finally show ?thesis .
qed

lemma count_list: "for_list (\<lambda>e n. Some (if P e then n + 1 else n)) es n = Some (n + of_nat (length (filter P es)))"
  by (induction es arbitrary: n) (auto simp: ac_simps)

lemma count_status_ok:
  assumes "o_objs s ro = Some ob" and "ro \<noteq> 0" and "tbl_ok (open_table ob) m" and "status \<noteq> 0"
  shows "robject_count_status s ro status = Some (of_nat (card {f. m f AND status = status}))"
proof (cases "open_table ob")
  case None
  then show ?thesis using assms by (auto simp: robject_count_status_def s_table_iter_def tbl_ok_def)
next
  case (Some t)
  let ?P = "\<lambda>e. e_data e AND status = status"
  have t: "table_inv t" "tval t = m" using assms(3) Some by (simp_all add: tbl_ok_def)
  note es = all_entries_ok [OF t(1)]
  have m: "m (key e) = e_data e" if "e \<in> set (all_entries t)" for e
  proof -
    have "emap (all_entries t) (key e) = Some (e_data e)" using that emap_Some [OF es(1)] by blast
    then show ?thesis by (simp add: t(2) [symmetric] tval_def tmap_all [OF t(1)])
  qed
  have z: "m f = 0" if "f \<notin> key ` set (all_entries t)" for f
    using that by (simp add: t(2) [symmetric] tval_def tmap_all [OF t(1)] emap_None [THEN iffD2])
  have "m f AND status = status \<longleftrightarrow> f \<in> key ` set (filter ?P (all_entries t))" for f
  proof
    assume f: "m f AND status = status"
    then have "f \<in> key ` set (all_entries t)" using z assms(4) by fastforce
    then show "f \<in> key ` set (filter ?P (all_entries t))" using f m by auto
  qed (use m in auto)
  then have "{f. m f AND status = status} = key ` set (filter ?P (all_entries t))" by blast
  moreover have "distinct (map key (filter ?P (all_entries t)))" using es(1) by (simp add: distinct_map_filter)
  ultimately have "card {f. m f AND status = status} = length (filter ?P (all_entries t))" using distinct_card by fastforce
  then show ?thesis using assms(1,2) Some by (simp add: robject_count_status_def s_table_iter_def table_iter_entries [OF t(1)] count_list)
qed

section \<open>A run\<close>

definition pipe_driver :: driver where
  "pipe_driver = lone_driver\<lparr>o_objs := [0x40 \<mapsto> empty_object\<lparr>o_index := 1, data_table := one_entry (cs ''pipe'') 0x80, open_table := one_entry (cs ''5'') 7\<rparr>]\<rparr>"

definition pipes0 :: pipes where
  "pipes0 = \<lparr>pipe_at = [0x80 \<mapsto> \<lparr>pp_mutex = False, pp_front = 0, pp_back = 0\<rparr>], pnode_at = Map.empty\<rparr>"

definition pipe_env0 :: pipe_env where
  "pipe_env0 = \<lparr>pv_node = first_free, pv_pipe = first_free\<rparr>"

lemma pipes0_ok: "pipe_holds pipes0 0x80 []" "k \<le> 2 ^ 25 \<Longrightarrow> pipe_room pipe_env0 pipes0 k"
  by (auto simp: pipe_holds_def pipe_cells_def pipe_room_def pipes0_def pipe_env0_def first_free_ok)

theorem pipe_fifo_witness:
  "\<exists>out s' ys. fifo_run view_put view_get [FGet, FPut 1, FPut 2, FGet, FPut 3] (pipe_env0, 0x80, pipes0) = Some (out, pipe_env0, 0x80, s') \<and>
    pipe_holds s' 0x80 ys \<and> out @ ys = [1, 2, 3]"
  using pipe_fifo [of pipes0 "0x80" "[]" pipe_env0 "[FGet, FPut 1, FPut 2, FGet, FPut 3]"] pipes0_ok by simp

theorem pipe_read_waits_witness:
  "\<exists>s'. pipe_read pipe_env0 (pipe_driver, pipes0) 0x40 9 2 0 [[PWrite 0x40 5 [1]], [], [PWrite 0x40 5 [], PWrite 0x40 5 [2, 3]]] = Some ([1, 2], (pipe_driver, s'))"
proof -
  let ?ob = "empty_object\<lparr>o_index := 1, data_table := one_entry (cs ''pipe'') 0x80, open_table := one_entry (cs ''5'') 7\<rparr>"
  have o: "o_objs pipe_driver 0x40 = Some ?ob" by (simp add: pipe_driver_def)
  have d: "robject_data pipe_driver 0x40 (Some (cs ''pipe'')) = Some 0x80"
    using get_data_ok [OF o, of "(\<lambda>_. 0)(cs ''pipe'' := 0x80)" "cs ''pipe''"] one_entry_ok by (simp add: robject_data_def del: cs_simps)
  have "{f. ((\<lambda>_. 0)(cs ''5'' := 7)) f AND STAT_WRITER = STAT_WRITER} = {cs ''5''}" by auto
  then have c: "robject_count_status pipe_driver 0x40 STAT_WRITER = Some 1"
    using count_status_ok [OF o, of "(\<lambda>_. 0)(cs ''5'' := 7)" STAT_WRITER] one_entry_ok by (simp del: cs_simps)
  from pipe_read_waits [OF d c _ pipes0_ok(1), of pipe_env0 "[[[1]], [], [[], [2, 3]]]" 2 9 0 5] pipes0_ok(2) show ?thesis by auto
qed

end
