(* ===== verification/Window_Manager.thy ===== *)
theory Window_Manager
  imports Driver_Service "HOL-Library.Signed_Division"
begin

text \<open>
  The window manager, \<open>daemon/wmanager\<close>: the list of windows, the composition of the screen, the tiling of windows and the handlers of calls and events.
  Windows are a partial function from their addresses, the screen and the bitmaps that clients share are lists of pixels, and an access outside of them
  is \<^const>\<open>None\<close>. Coordinates are integers; where the source multiplies sizes to a number of bytes, the product wraps. The blending of two pixels, which is floating point
  arithmetic, is a parameter. An event that is sent and a reply have a format and its arguments. The locks of the windows are free between operations, and
  the address of a new window is a function of the windows in use.
\<close>

section \<open>State\<close>

record window =
  w_id :: u32
  w_owner :: u32
  w_flags :: u32
  w_x :: int
  w_y :: int
  w_width :: int
  w_height :: int
  w_tags :: u32
  w_bitmap :: "u32 list option"
  w_next :: ptr
  w_prev :: ptr

record wm =
  wins :: "ptr \<Rightarrow> window option"
  windows :: ptr
  windows_end :: ptr
  active_window :: ptr
  panel :: ptr
  current_tags :: u32
  screen :: "u32 list"
  screen_width :: int
  screen_height :: int
  mousex :: int
  mousey :: int
  mousebuttons :: u32
  alreadymoving :: bool
  winkey :: bool
  w_events :: "(u64 \<times> string \<times> varg list) list"
  w_syncs :: "(int \<times> int \<times> int \<times> int) list"

abbreviation (input) LISTEN_EVENTS :: u32 where "LISTEN_EVENTS \<equiv> 1"
abbreviation (input) CONSTANT_SIZE :: u32 where "CONSTANT_SIZE \<equiv> 2"
abbreviation (input) FLOATING :: u32 where "FLOATING \<equiv> 4"
abbreviation (input) MOVE_BUTTON :: u32 where "MOVE_BUTTON \<equiv> 1"
abbreviation (input) RESIZE_BUTTON :: u32 where "RESIZE_BUTTON \<equiv> 2"
abbreviation (input) TOGGLE_FLOATING_BUTTON :: u32 where "TOGGLE_FLOATING_BUTTON \<equiv> 4"
abbreviation (input) WINKEY :: u32 where "WINKEY \<equiv> 0x00800004"
abbreviation (input) CHANGE_MAIN_WINDOW_KEY :: u32 where "CHANGE_MAIN_WINDOW_KEY \<equiv> 10"
abbreviation (input) COLOR_BLACK :: u32 where "COLOR_BLACK \<equiv> 0xFF000000"
abbreviation (input) ACTIVE_WINDOW_BORDER :: u32 where "ACTIVE_WINDOW_BORDER \<equiv> 0xFFFF0000"
abbreviation (input) INACTIVE_WINDOW_BORDER :: u32 where "INACTIVE_WINDOW_BORDER \<equiv> 0xFFFFFFFF"

definition set_win :: "wm \<Rightarrow> ptr \<Rightarrow> window \<Rightarrow> wm" where
  "set_win s p w = s\<lparr>wins := (wins s)(p \<mapsto> w)\<rparr>"

definition visible :: "wm \<Rightarrow> window \<Rightarrow> bool" where
  "visible s w \<longleftrightarrow> w_tags w AND current_tags s \<noteq> 0"

definition has_flag :: "window \<Rightarrow> u32 \<Rightarrow> bool" where
  "has_flag w f \<longleftrightarrow> w_flags w AND f \<noteq> 0"

section \<open>The list of windows\<close>

definition add_to_list :: "wm \<Rightarrow> ptr \<Rightarrow> wm option" where
  "add_to_list s p = do {
     w \<leftarrow> wins s p;
     let s = set_win s p (w\<lparr>w_next := 0, w_prev := windows_end s\<rparr>);
     s \<leftarrow> (if windows_end s \<noteq> 0 then do { e \<leftarrow> wins s (windows_end s); Some (set_win s (windows_end s) (e\<lparr>w_next := p\<rparr>)) }
       else Some (s\<lparr>windows := p\<rparr>));
     Some (s\<lparr>windows_end := p\<rparr>)
   }"

definition remove_from_list :: "wm \<Rightarrow> ptr \<Rightarrow> wm option" where
  "remove_from_list s p = do {
     w \<leftarrow> wins s p;
     s \<leftarrow> (if w_next w \<noteq> 0 then do { n \<leftarrow> wins s (w_next w); Some (set_win s (w_next w) (n\<lparr>w_prev := w_prev w\<rparr>)) }
       else Some (s\<lparr>windows_end := w_prev w\<rparr>));
     if w_prev w \<noteq> 0 then do { v \<leftarrow> wins s (w_prev w); Some (set_win s (w_prev w) (v\<lparr>w_next := w_next w\<rparr>)) }
     else Some (s\<lparr>windows := w_next w\<rparr>)
   }"

partial_function (option) find_from :: "wm \<Rightarrow> ptr \<Rightarrow> u32 \<Rightarrow> u32 \<Rightarrow> ptr option" where
  "find_from s p wid owner = (if p = 0 then Some 0 else do {
     w \<leftarrow> wins s p;
     if w_id w = wid \<and> (owner = 0 \<or> w_owner w = owner) then Some p else find_from s (w_next w) wid owner
   })"

definition find_window :: "wm \<Rightarrow> u32 \<Rightarrow> u32 \<Rightarrow> ptr option" where
  "find_window s wid owner = find_from s (windows s) wid owner"

definition bring_to_front :: "wm \<Rightarrow> ptr \<Rightarrow> wm option" where
  "bring_to_front s p = (if p \<noteq> windows_end s then do { s \<leftarrow> remove_from_list s p; add_to_list s p } else Some s)"

section \<open>The screen\<close>

definition pixel :: "u32 list \<Rightarrow> int \<Rightarrow> u32 option" where
  "pixel ps i = (if 0 \<le> i \<and> i < int (length ps) then Some (ps ! nat i) else None)"

definition put_pixel :: "wm \<Rightarrow> int \<Rightarrow> int \<Rightarrow> u32 \<Rightarrow> wm option" where
  "put_pixel s x y c = do {
     let i = x + y * screen_width s;
     _ \<leftarrow> pixel (screen s) i;
     Some (s\<lparr>screen := (screen s)[nat i := c]\<rparr>)
   }"

type_synonym blend = "u32 \<Rightarrow> u32 \<Rightarrow> u32"

definition blit_bitmap :: "blend \<Rightarrow> wm \<Rightarrow> u32 list \<Rightarrow> int \<Rightarrow> int \<Rightarrow> int \<Rightarrow> int \<Rightarrow> int \<Rightarrow> int \<Rightarrow> int \<Rightarrow> int \<Rightarrow> wm option" where
  "blit_bitmap bl s bitmap tox toy width height x1 y1 x2 y2 =
     for_list (\<lambda>y. for_list (\<lambda>x s. do {
         b \<leftarrow> pixel bitmap ((x - tox) + (y - toy) * width);
         c \<leftarrow> pixel (screen s) (x + y * screen_width s);
         put_pixel s x y (bl b c)
       }) [(if tox \<ge> x1 then tox else x1)..min (tox + width) x2 - 1])
     [(if toy \<ge> y1 then toy else y1)..min (toy + height) y2 - 1] s"

definition draw_window :: "blend \<Rightarrow> wm \<Rightarrow> ptr \<Rightarrow> int \<Rightarrow> int \<Rightarrow> int \<Rightarrow> int \<Rightarrow> wm option" where
  "draw_window bl s p x1 y1 x2 y2 = do {
     w \<leftarrow> wins s p;
     if \<not> visible s w then Some s
     else do {
       s \<leftarrow> (case w_bitmap w of None \<Rightarrow> Some s
         | Some bitmap \<Rightarrow> blit_bitmap bl s bitmap (w_x w) (w_y w) (w_width w) (w_height w) x1 y1 x2 y2);
       let c = (if p = active_window s then ACTIVE_WINDOW_BORDER else INACTIVE_WINDOW_BORDER);
       s \<leftarrow> for_list (\<lambda>x s. do {
           s \<leftarrow> (if w_y w > y1 then put_pixel s x (w_y w - 1) c else Some s);
           if w_y w + w_height w < y2 then put_pixel s x (w_y w + w_height w) c else Some s
         }) [(if w_x w > x1 then w_x w - 1 else x1)..min (w_x w + w_width w + 1) x2 - 1] s;
       for_list (\<lambda>y s. do {
           s \<leftarrow> (if w_x w > x1 then put_pixel s (w_x w - 1) y c else Some s);
           if w_x w + w_width w < x2 then put_pixel s (w_x w + w_width w) y c else Some s
         }) [(if w_y w \<ge> y1 then w_y w else y1)..min (w_y w + w_height w) y2 - 1] s
     }
   }"

partial_function (option) draw_from :: "blend \<Rightarrow> wm \<Rightarrow> ptr \<Rightarrow> int \<Rightarrow> int \<Rightarrow> int \<Rightarrow> int \<Rightarrow> wm option" where
  "draw_from bl s p x1 y1 x2 y2 = (if p = 0 then Some s else do {
     s \<leftarrow> draw_window bl s p x1 y1 x2 y2;
     w \<leftarrow> wins s p;
     draw_from bl s (w_next w) x1 y1 x2 y2
   })"

definition cursor_bitmap :: "u32 list" where
  "cursor_bitmap = [0xFFFFFFFF, 0xFFFFFFFF, 0xFFFFFFFF, 0xFFFFFFFF, 0, 0, 0xFFFFFFFF, 0, 0]"

definition draw_cursor :: "blend \<Rightarrow> wm \<Rightarrow> int \<Rightarrow> int \<Rightarrow> int \<Rightarrow> int \<Rightarrow> wm option" where
  "draw_cursor bl s x1 y1 x2 y2 = blit_bitmap bl s cursor_bitmap (mousex s) (mousey s) 3 3 x1 y1 x2 y2"

definition update_screen :: "blend \<Rightarrow> wm \<Rightarrow> int \<Rightarrow> int \<Rightarrow> int \<Rightarrow> int \<Rightarrow> wm option" where
  "update_screen bl s x1 y1 x2 y2 = do {
     let x1 = (if x1 < 0 then 0 else x1);
     let y1 = (if y1 < 0 then 0 else y1);
     let x2 = (if x2 > screen_width s then screen_width s else x2);
     let y2 = (if y2 > screen_height s then screen_height s else y2);
     if x1 > x2 \<or> y1 > y2 then Some s
     else do {
       s \<leftarrow> for_list (\<lambda>x. for_list (\<lambda>y s. put_pixel s x y COLOR_BLACK) [y1..y2 - 1]) [x1..x2 - 1] s;
       s \<leftarrow> draw_from bl s (windows s) x1 y1 x2 y2;
       s \<leftarrow> draw_cursor bl s x1 y1 x2 y2;
       Some (s\<lparr>w_syncs := w_syncs s @ [(x1, y1, x2 - x1, y2 - y1)]\<rparr>)
     }
   }"

definition update_decorations :: "blend \<Rightarrow> wm \<Rightarrow> ptr \<Rightarrow> wm option" where
  "update_decorations bl s p = do {
     w \<leftarrow> wins s p;
     let (x, y, width, height) = (w_x w, w_y w, w_width w, w_height w);
     s \<leftarrow> update_screen bl s (x - 1) (y - 1) x (y + height + 1);
     s \<leftarrow> update_screen bl s (x + width) (y - 1) (x + width + 1) (y + height + 1);
     s \<leftarrow> update_screen bl s x (y - 1) (x + width) y;
     update_screen bl s x (y + height) (x + width) (y + height + 1)
   }"

section \<open>Sizes and tiling\<close>

definition send_event :: "wm \<Rightarrow> window \<Rightarrow> string \<Rightarrow> varg list \<Rightarrow> wm" where
  "send_event s w fmt args = s\<lparr>w_events := w_events s @ [(RP_CONS (w_owner w) 0, fmt, args)]\<rparr>"

definition resize_window :: "blend \<Rightarrow> wm \<Rightarrow> ptr \<Rightarrow> int \<Rightarrow> int \<Rightarrow> bool \<Rightarrow> wm option" where
  "resize_window bl s p width height notify = do {
     w \<leftarrow> wins s p;
     if w_width w = width \<and> w_height w = height then Some s
     else do {
       let width = (if width < 10 then 10 else width);
       let height = (if height < 10 then 10 else height);
       let w = w\<lparr>w_bitmap := None, w_width := width, w_height := height\<rparr>;
       let s = set_win s p w;
       let s = (if notify \<and> has_flag w LISTEN_EVENTS
         then send_event s w ''graph resize %d %d'' [VInt (word_of_int width), VInt (word_of_int height)] else s);
       update_decorations bl s p
     }
   }"

partial_function (option) window_at :: "wm \<Rightarrow> ptr \<Rightarrow> ptr \<Rightarrow> ptr option" where
  "window_at s p found = (if p = 0 then Some found else do {
     w \<leftarrow> wins s p;
     window_at s (w_next w) (if w_x w - 1 \<le> mousex s \<and> mousex s \<le> w_x w + w_width w \<and> w_y w - 1 \<le> mousey s \<and> mousey s \<le> w_y w + w_height w \<and>
       visible s w then p else found)
   })"

definition activate_window :: "blend \<Rightarrow> wm \<Rightarrow> wm option" where
  "activate_window bl s = do {
     let prev_active = active_window s;
     found \<leftarrow> window_at s (windows s) 0;
     let s = s\<lparr>active_window := found\<rparr>;
     if prev_active \<noteq> found then do {
       s \<leftarrow> (if prev_active \<noteq> 0 then update_decorations bl s prev_active else Some s);
       if active_window s \<noteq> 0 then update_decorations bl s (active_window s) else Some s
     }
     else Some s
   }"

text \<open>The first pass over the windows: the main window, the last of the others that can be resized, whether there are others, the width and height that are left, and the number of the others
  that can be resized.\<close>

record tiling =
  tl_main :: ptr
  tl_last :: ptr
  tl_others :: bool
  tl_width :: int
  tl_height :: int
  tl_count :: int

definition tiling_step :: "wm \<Rightarrow> ptr \<Rightarrow> window \<Rightarrow> tiling \<Rightarrow> tiling" where
  "tiling_step s p w t = (
     if \<not> has_flag w FLOATING \<and> visible s w then
       if tl_main t = 0 then t\<lparr>tl_main := p\<rparr>
       else if p \<noteq> tl_main t then
         (if has_flag w CONSTANT_SIZE then t\<lparr>tl_height := tl_height t - (w_height w + 2),
            tl_width := (if screen_width s - tl_width t < w_width w then screen_width s - w_width w else tl_width t), tl_others := True\<rparr>
          else t\<lparr>tl_last := p, tl_count := tl_count t + 1, tl_others := True\<rparr>)
       else t
     else t)"

partial_function (option) tiling_scan :: "wm \<Rightarrow> ptr \<Rightarrow> tiling \<Rightarrow> tiling option" where
  "tiling_scan s p t = (if p = 0 then Some t else do { w \<leftarrow> wins s p; tiling_scan s (w_next w) (tiling_step s p w t) })"

text \<open>The second pass, which places every other window.\<close>

partial_function (option) tiling_place :: "blend \<Rightarrow> wm \<Rightarrow> ptr \<Rightarrow> tiling \<Rightarrow> int \<Rightarrow> wm option" where
  "tiling_place bl s p t y = (if p = 0 then Some s else do {
     w \<leftarrow> wins s p;
     if \<not> has_flag w FLOATING \<and> p \<noteq> tl_main t \<and> visible s w then do {
       let s = set_win s p (w\<lparr>w_x := tl_width t + 2, w_y := y\<rparr>);
       s \<leftarrow> (if \<not> has_flag w CONSTANT_SIZE then
           if tl_count t = 0 then None
           else resize_window bl s p (screen_width s - tl_width t - 2)
             (tl_height t sdiv tl_count t + (if p = tl_last t then tl_height t smod tl_count t else -2)) True
         else Some s);
       w \<leftarrow> wins s p;
       tiling_place bl s (w_next w) t (y + (w_height w + 2))
     }
     else tiling_place bl s (w_next w) t y
   })"

text \<open>The main window is placed, then the others; the arguments are the result of the first pass and the first row.\<close>

definition tile_windows :: "blend \<Rightarrow> wm \<Rightarrow> tiling \<Rightarrow> int \<Rightarrow> wm option" where
  "tile_windows bl s t y = do {
     w \<leftarrow> wins s (tl_main t);
     let s = set_win s (tl_main t) (w\<lparr>w_x := 0, w_y := y\<rparr>);
     (s, t) \<leftarrow> (if has_flag w CONSTANT_SIZE then Some (s, t\<lparr>tl_width := w_width w\<rparr>)
       else do {
         s \<leftarrow> resize_window bl s (tl_main t) (if tl_others t then tl_width t else screen_width s) (tl_height t) True;
         Some (s, t)
       });
     s \<leftarrow> tiling_place bl s (windows s) t y;
     s \<leftarrow> activate_window bl s;
     update_screen bl s 0 0 (screen_width s) (screen_height s)
   }"

definition update_tiling :: "blend \<Rightarrow> wm \<Rightarrow> wm option" where
  "update_tiling bl s = do {
     t \<leftarrow> tiling_scan s (windows s) \<lparr>tl_main = 0, tl_last = 0, tl_others = False, tl_width = screen_width s sdiv 2,
       tl_height = screen_height s, tl_count = 0\<rparr>;
     if tl_main t = 0 then update_screen bl s 0 0 (screen_width s) (screen_height s)
     else do {
       (y, t) \<leftarrow> (if panel s \<noteq> 0 then do { q \<leftarrow> wins s (panel s); Some (w_height q + 2, t\<lparr>tl_height := tl_height t - (w_height q + 2)\<rparr>) }
         else Some (0, t));
       tile_windows bl s (if tl_width t < 10 then t\<lparr>tl_width := 10\<rparr> else t) y
     }
   }"

section \<open>Creation and removal\<close>

type_synonym win_malloc = "(ptr \<Rightarrow> window option) \<Rightarrow> ptr"

definition add_window :: "blend \<Rightarrow> win_malloc \<Rightarrow> wm \<Rightarrow> u32 \<Rightarrow> (int \<times> wm) option" where
  "add_window bl alloc s wid = do {
     found \<leftarrow> find_window s wid 0;
     if found \<noteq> 0 then Some (-1, s)
     else do {
       let p = alloc (wins s);
       if p = 0 then None
       else do {
         s \<leftarrow> add_to_list (set_win s p \<lparr>w_id = wid, w_owner = 0, w_flags = 0, w_x = 0, w_y = 0, w_width = 0, w_height = 0,
           w_tags = current_tags s, w_bitmap = None, w_next = 0, w_prev = 0\<rparr>) p;
         s \<leftarrow> update_tiling bl s;
         Some (0, s)
       }
     }
   }"

definition remove_window :: "blend \<Rightarrow> wm \<Rightarrow> u32 \<Rightarrow> u32 \<Rightarrow> (int \<times> wm) option" where
  "remove_window bl s wid owner = do {
     p \<leftarrow> find_window s wid owner;
     if p = 0 then Some (-1, s)
     else do {
       w \<leftarrow> wins s p;
       let s = (if p = active_window s then s\<lparr>active_window := 0\<rparr> else s);
       s \<leftarrow> remove_from_list s p;
       let s = s\<lparr>wins := (wins s)(p := None)\<rparr>;
       s \<leftarrow> (if \<not> has_flag w FLOATING then update_tiling bl s else Some s);
       Some (0, s)
     }
   }"

definition resize_screen :: "blend \<Rightarrow> wm \<Rightarrow> int \<Rightarrow> int \<Rightarrow> wm option" where
  "resize_screen bl s width height = do {
     let bytes = (word_of_int (width * height * 4) :: u32);
     let s = s\<lparr>screen_width := width, screen_height := height, screen := replicate (unat bytes div 4) 0\<rparr>;
     s \<leftarrow> (if panel s \<noteq> 0 then do { q \<leftarrow> wins s (panel s); resize_window bl s (panel s) width (w_height q) True } else Some s);
     update_tiling bl s
   }"

section \<open>The mouse\<close>

definition to_int16 :: "int \<Rightarrow> int" where
  "to_int16 i = sint (word_of_int i :: u16)"

definition mouse_drag :: "blend \<Rightarrow> wm \<Rightarrow> int \<Rightarrow> int \<Rightarrow> (wm \<times> (int \<times> int \<times> int \<times> int) option) option" where
  "mouse_drag bl s dx dy = do {
     let p = active_window s;
     w \<leftarrow> wins s p;
     let frame = (\<lambda>w. Some (w_x w - 1, w_y w - 1, w_width w + 1 + 3, w_height w + 1 + 3));
     if mousebuttons s AND MOVE_BUTTON \<noteq> 0 then do {
       s \<leftarrow> bring_to_front (set_win s p (w\<lparr>w_x := w_x w + dx, w_y := w_y w + dy, w_flags := w_flags w OR FLOATING\<rparr>)) p;
       w \<leftarrow> wins s p;
       Some (s, frame w)
     }
     else if mousebuttons s AND RESIZE_BUTTON \<noteq> 0 \<and> \<not> has_flag w CONSTANT_SIZE then do {
       s \<leftarrow> resize_window bl s p (w_width w + dx) (w_height w + dy) True;
       w \<leftarrow> wins s p;
       s \<leftarrow> bring_to_front (set_win s p (w\<lparr>w_flags := w_flags w OR FLOATING\<rparr>)) p;
       w \<leftarrow> wins s p;
       Some (s\<lparr>mousex := w_x w + w_width w, mousey := w_y w + w_height w\<rparr>, frame w)
     }
     else Some (s, None)
   }"

text \<open>\<open>wasfloating\<close> is a \<open>bool\<close> and is compared with the flag itself: 1 or 0 with 4 or 0.\<close>

definition mouse_grab :: "blend \<Rightarrow> wm \<Rightarrow> int \<Rightarrow> int \<Rightarrow> (wm \<times> (int \<times> int \<times> int \<times> int) option \<times> bool) option" where
  "mouse_grab bl s dx dy = (if active_window s \<noteq> 0 \<and> (winkey s \<or> alreadymoving s) \<and> active_window s \<noteq> panel s then do {
       let s = s\<lparr>alreadymoving := True\<rparr>;
       w \<leftarrow> wins s (active_window s);
       let wasfloating = (if has_flag w FLOATING then 1 else 0 :: u32);
       (s, frame) \<leftarrow> mouse_drag bl s dx dy;
       w \<leftarrow> wins s (active_window s);
       Some (s, frame, wasfloating \<noteq> w_flags w AND FLOATING)
     } else Some (s, None, False))"

definition mouse_move :: "blend \<Rightarrow> wm \<Rightarrow> int \<Rightarrow> int \<Rightarrow> wm option" where
  "mouse_move bl s dx dy = do {
     let dx = to_int16 dx;
     let dy = to_int16 dy;
     let dx = (if mousex s + dx < 0 then to_int16 (- mousex s) else dx);
     let dy = (if mousey s + dy < 0 then to_int16 (- mousey s) else dy);
     let dx = (if mousex s + dx \<ge> screen_width s then to_int16 (screen_width s - mousex s - 1) else dx);
     let dy = (if mousey s + dy \<ge> screen_height s then to_int16 (screen_height s - mousey s - 1) else dy);
     let s = s\<lparr>mousex := mousex s + dx, mousey := mousey s + dy\<rparr>;
     let cursor = (mousex s, mousey s, 3, 3);
     s \<leftarrow> (if mousebuttons s = 0 then activate_window bl s else Some s);
     (s, frame, retile) \<leftarrow> mouse_grab bl s dx dy;
     if retile then update_tiling bl s
     else do {
       let (x, y, width, height) = (case frame of None \<Rightarrow> cursor | Some f \<Rightarrow> f);
       update_screen bl s (x - (if dx > 0 then dx else 0)) (y - (if dy > 0 then dy else 0)) (x + width + abs dx) (y + height + abs dy)
     }
   }"

definition mouse_buttons :: "blend \<Rightarrow> wm \<Rightarrow> u32 \<Rightarrow> wm option" where
  "mouse_buttons bl s buttons = do {
     let clicked = buttons AND NOT (mousebuttons s);
     let s = (if NOT buttons AND mousebuttons s \<noteq> 0 then s\<lparr>alreadymoving := False\<rparr> else s);
     s \<leftarrow> (if clicked AND TOGGLE_FLOATING_BUTTON \<noteq> 0 \<and> active_window s \<noteq> 0 then do {
         w \<leftarrow> wins s (active_window s);
         if has_flag w FLOATING
         then update_tiling bl (set_win (s\<lparr>alreadymoving := False\<rparr>) (active_window s) (w\<lparr>w_flags := w_flags w AND NOT FLOATING\<rparr>))
         else Some s
       } else Some s);
     Some (s\<lparr>mousebuttons := buttons\<rparr>)
   }"

section \<open>Calls of clients\<close>

datatype reply = Null | Reply string "varg list"

text \<open>Calls find the window of the object that the caller owns. The second argument of each is the index of the object, the third the caller.\<close>

definition own_window :: "wm \<Rightarrow> u32 \<Rightarrow> u64 \<Rightarrow> (ptr \<Rightarrow> (reply \<times> wm) option) \<Rightarrow> (reply \<times> wm) option" where
  "own_window s self source f = do { p \<leftarrow> find_window s self (RP_PID source); if p = 0 then Some (Null, s) else f p }"

definition atoi_int :: "u8 list \<Rightarrow> int" where
  "atoi_int a = sint (atoi_v a)"

definition rcall_setmode :: "blend \<Rightarrow> wm \<Rightarrow> u32 \<Rightarrow> u64 \<Rightarrow> u8 list list \<Rightarrow> (reply \<times> wm) option" where
  "rcall_setmode bl s self source argv = own_window s self source (\<lambda>p.
     if length argv \<noteq> 4 then Some (Null, s)
     else do {
       w \<leftarrow> wins s p;
       let old_flags = w_flags w;
       s \<leftarrow> resize_window bl s p (atoi_int (argv ! 1)) (atoi_int (argv ! 2)) False;
       w \<leftarrow> wins s p;
       let s = (if \<not> has_flag w CONSTANT_SIZE \<and> \<not> has_flag w FLOATING then set_win s p (w\<lparr>w_flags := w_flags w OR FLOATING\<rparr>) else s);
       s \<leftarrow> (if old_flags AND FLOATING = 0 then update_tiling bl s else Some s);
       Some (Reply ''T'' [], s)
     })"

definition rcall_getmode :: "wm \<Rightarrow> u32 \<Rightarrow> u64 \<Rightarrow> u8 list list \<Rightarrow> (reply \<times> wm) option" where
  "rcall_getmode s self source argv = own_window s self source (\<lambda>p. do {
     w \<leftarrow> wins s p;
     Some (Reply ''%i %i 32'' [VInt (word_of_int (w_width w)), VInt (word_of_int (w_height w))], s)
   })"

definition rcall_syncrect :: "blend \<Rightarrow> wm \<Rightarrow> u32 \<Rightarrow> u64 \<Rightarrow> u8 list list \<Rightarrow> (reply \<times> wm) option" where
  "rcall_syncrect bl s self source argv = own_window s self source (\<lambda>p.
     if length argv \<noteq> 5 then Some (Null, s)
     else do {
       w \<leftarrow> wins s p;
       let (x, y, wd, ht) = (atoi_int (argv ! 1), atoi_int (argv ! 2), atoi_int (argv ! 3), atoi_int (argv ! 4));
       s \<leftarrow> update_screen bl s (w_x w + x) (w_y w + y) (w_x w + x + wd) (w_y w + y + ht);
       Some (Reply ''T'' [], s)
     })"

definition rcall_unshare :: "wm \<Rightarrow> u32 \<Rightarrow> u64 \<Rightarrow> u8 list list \<Rightarrow> (reply \<times> wm) option" where
  "rcall_unshare s self source argv = own_window s self source (\<lambda>p. do {
     w \<leftarrow> wins s p;
     if w_bitmap w = None then Some (Null, s)
     else Some (Reply ''T'' [], set_win s p (w\<lparr>w_bitmap := None\<rparr>))
   })"

definition rcall_getwindowflags :: "wm \<Rightarrow> u32 \<Rightarrow> u64 \<Rightarrow> u8 list list \<Rightarrow> (reply \<times> wm) option" where
  "rcall_getwindowflags s self source argv = own_window s self source (\<lambda>p. do {
     w \<leftarrow> wins s p;
     Some (Reply ''%i'' [VInt (w_flags w)], s)
   })"

definition rcall_setwindowflags :: "blend \<Rightarrow> wm \<Rightarrow> u32 \<Rightarrow> u64 \<Rightarrow> u8 list list \<Rightarrow> (reply \<times> wm) option" where
  "rcall_setwindowflags bl s self source argv = own_window s self source (\<lambda>p.
     if length argv \<noteq> 2 then Some (Null, s)
     else do {
       w \<leftarrow> wins s p;
       let flags = atoi_v (argv ! 1);
       let old_flags = w_flags w;
       let s = set_win s p (w\<lparr>w_flags := flags\<rparr>);
       s \<leftarrow> (if old_flags AND FLOATING \<noteq> flags AND FLOATING then update_tiling bl s else Some s);
       Some (Reply ''T'' [], s)
     })"

definition rcall_getmouse :: "wm \<Rightarrow> u32 \<Rightarrow> u64 \<Rightarrow> u8 list list \<Rightarrow> (reply \<times> wm) option" where
  "rcall_getmouse s self source argv = own_window s self source (\<lambda>p. do {
     w \<leftarrow> wins s p;
     Some (Reply ''%i %i'' [VInt (word_of_int (mousex s - w_x w)), VInt (word_of_int (mousey s - w_y w))], s)
   })"

definition rcall_setpanel :: "blend \<Rightarrow> wm \<Rightarrow> u32 \<Rightarrow> u64 \<Rightarrow> u8 list list \<Rightarrow> (reply \<times> wm) option" where
  "rcall_setpanel bl s self source argv = (
     if panel s \<noteq> 0 then Some (Null, s)
     else own_window s self source (\<lambda>p. do {
       w \<leftarrow> wins s p;
       let s = set_win (s\<lparr>panel := p\<rparr>) p (w\<lparr>w_flags := w_flags w OR FLOATING, w_tags := 0xFFFFFFFF\<rparr>);
       s \<leftarrow> resize_window bl s p (screen_width s) (w_height w) True;
       s \<leftarrow> update_tiling bl s;
       Some (Reply ''T'' [], s)
     }))"

definition rcall_settags :: "blend \<Rightarrow> wm \<Rightarrow> u64 \<Rightarrow> u8 list list \<Rightarrow> (reply \<times> wm) option" where
  "rcall_settags bl s source argv = (if panel s = 0 then Some (Null, s) else do {
     q \<leftarrow> wins s (panel s);
     if RP_PID source \<noteq> w_owner q \<or> length argv \<noteq> 2 then Some (Null, s)
     else do {
       let new_tags = atoi_v (argv ! 1);
       if new_tags = 0 then Some (Null, s)
       else do {
         s \<leftarrow> (if new_tags \<noteq> current_tags s then update_tiling bl (s\<lparr>current_tags := new_tags\<rparr>) else Some s);
         Some (Reply ''T'' [], s)
       }
     }
   })"

definition rcall_sync :: "blend \<Rightarrow> wm \<Rightarrow> u32 \<Rightarrow> u64 \<Rightarrow> u8 list list \<Rightarrow> (reply \<times> wm) option" where
  "rcall_sync bl s self source argv = own_window s self source (\<lambda>p. do {
     w \<leftarrow> wins s p;
     s \<leftarrow> update_screen bl s (w_x w - 1) (w_y w - 1) (w_x w + w_width w + 1) (w_y w + w_height w + 1);
     Some (Reply ''T'' [], s)
   })"

definition rcall_listmodes :: "wm \<Rightarrow> (reply \<times> wm) option" where
  "rcall_listmodes s = Some (Reply ''any'' [], s)"

text \<open>The bitmap is shared when its number of bytes is that of the window, in 32 bits.\<close>

definition share_bytes :: "window \<Rightarrow> u32" where
  "share_bytes w = word_of_int (w_width w * w_height w) * 4"

definition wmanager_share :: "wm \<Rightarrow> u32 \<Rightarrow> u64 \<Rightarrow> u32 list \<Rightarrow> u32 \<Rightarrow> u64 \<Rightarrow> (int \<times> wm) option" where
  "wmanager_share s self source buffer sz offset = do {
     p \<leftarrow> find_window s self (RP_PID source);
     if offset \<noteq> 0 \<or> p = 0 then Some (-1, s)
     else do {
       w \<leftarrow> wins s p;
       if sz \<noteq> share_bytes w then Some (-1, s)
       else Some (0, set_win s p (w\<lparr>w_bitmap := Some buffer\<rparr>))
     }
   }"

text \<open>The call that creates a window: \<open>fs_cons\<close>, which makes the process call its own constructor, returns the index of the new object.\<close>

definition rcall_createwindow :: "(wm \<Rightarrow> (u64 \<times> wm) option) \<Rightarrow> wm \<Rightarrow> u64 \<Rightarrow> (reply \<times> wm) option" where
  "rcall_createwindow fs_cons s source = do {
     (rp, s) \<leftarrow> fs_cons s;
     p \<leftarrow> find_window s (RP_INDEX rp) 0;
     if p = 0 then Some (Null, s)
     else do { w \<leftarrow> wins s p; Some (Reply ''%r'' [VRp rp], set_win s p (w\<lparr>w_owner := RP_PID source\<rparr>)) }
   }"

text \<open>The constructor of windows, for this process only; the object of the window has the index that \<open>robject_new_index\<close> returned.\<close>

definition wmanager_file_cons :: "blend \<Rightarrow> win_malloc \<Rightarrow> u32 \<Rightarrow> wm \<Rightarrow> u64 \<Rightarrow> u32 \<Rightarrow> (bool \<times> wm) option" where
  "wmanager_file_cons bl alloc pid s source index = (
     if RP_PID source \<noteq> pid then Some (False, s)
     else do { (_, s) \<leftarrow> add_window bl alloc s index; Some (True, s) })"

section \<open>Events\<close>

definition forward_event :: "wm \<Rightarrow> string \<Rightarrow> varg list \<Rightarrow> wm option" where
  "forward_event s fmt args = (if active_window s = 0 then Some s else do {
     w \<leftarrow> wins s (active_window s);
     Some (if has_flag w LISTEN_EVENTS then send_event s w fmt args else s)
   })"

definition wmanager_key_event :: "blend \<Rightarrow> u64 \<Rightarrow> wm \<Rightarrow> u64 \<Rightarrow> u8 list list \<Rightarrow> wm option" where
  "wmanager_key_event bl kbdfd s source argv = (
     if length argv \<noteq> 3 \<or> RP_PID source \<noteq> RP_PID kbdfd then Some s
     else if argv ! 1 \<noteq> cs ''press'' \<and> argv ! 1 \<noteq> cs ''release'' then Some s
     else do {
       let pressed = (argv ! 1 = cs ''press'');
       let data = atoi_v (argv ! 2);
       let s = (if data = WINKEY then s\<lparr>winkey := pressed\<rparr> else s);
       if winkey s \<and> pressed \<and> data = CHANGE_MAIN_WINDOW_KEY then
         (if active_window s \<noteq> 0 \<and> active_window s \<noteq> windows s then do { s \<leftarrow> bring_to_front s (active_window s); update_tiling bl s } else Some s)
       else forward_event s ''key %s %s'' [VStr (Some (argv ! 1)), VStr (Some (argv ! 2))]
     })"

definition wmanager_mouse_event :: "blend \<Rightarrow> u64 \<Rightarrow> wm \<Rightarrow> u64 \<Rightarrow> u8 list list \<Rightarrow> wm option" where
  "wmanager_mouse_event bl mousefd s source argv = (
     if RP_PID source \<noteq> RP_PID mousefd \<or> length argv < 2 then Some s
     else if argv ! 1 = cs ''delta'' then
       if length argv \<noteq> 4 then Some s
       else do {
         s \<leftarrow> mouse_move bl s (atoi_int (argv ! 2)) (atoi_int (argv ! 3));
         forward_event s ''mouse delta %s %s'' [VStr (Some (argv ! 2)), VStr (Some (argv ! 3))]
       }
     else if argv ! 1 = cs ''button'' then
       if length argv \<noteq> 3 then Some s
       else do {
         s \<leftarrow> mouse_buttons bl s (atoi_v (argv ! 2));
         forward_event s ''mouse button %s'' [VStr (Some (argv ! 2))]
       }
     else Some s)"

definition wmanager_graph_event :: "blend \<Rightarrow> u64 \<Rightarrow> wm \<Rightarrow> u64 \<Rightarrow> u8 list list \<Rightarrow> wm option" where
  "wmanager_graph_event bl vgafd s source argv = (
     if RP_PID source \<noteq> RP_PID vgafd \<or> length argv \<noteq> 4 then Some s
     else if argv ! 1 = cs ''resize'' then resize_screen bl s (atoi_int (argv ! 2)) (atoi_int (argv ! 3))
     else Some s)"

end
