(* ===== verification/Window_List.thy ===== *)
theory Window_List
  imports Window_Manager
begin

text \<open>
  The list of windows of the window manager refines a list of addresses: adding, removing, raising and finding windows. The rest of the state and the contents of the windows are not
  changed by it.
\<close>

section \<open>Contents and links\<close>

definition core :: "window \<Rightarrow> window" where
  "core w = w\<lparr>w_next := 0, w_prev := 0\<rparr>"

definition contents :: "wm \<Rightarrow> ptr \<Rightarrow> window option" where
  "contents s p = map_option core (wins s p)"

definition wlinks :: "wm \<Rightarrow> ptr \<Rightarrow> (ptr \<times> ptr) option" where
  "wlinks s p = map_option (\<lambda>w. (w_next w, w_prev w)) (wins s p)"

definition win_list :: "wm \<Rightarrow> ptr list \<Rightarrow> bool" where
  "win_list s ps \<longleftrightarrow> dchain (wlinks s) 0 (windows s) ps \<and> windows_end s = (if ps = [] then 0 else last ps)"

text \<open>States that differ in the list and the links only.\<close>

definition relinked :: "wm \<Rightarrow> wm \<Rightarrow> bool" where
  "relinked s s' \<longleftrightarrow> contents s' = contents s \<and> s' = s\<lparr>wins := wins s', windows := windows s', windows_end := windows_end s'\<rparr>"

lemma core_links [simp]: "core (w\<lparr>w_next := n\<rparr>) = core w" "core (w\<lparr>w_prev := n\<rparr>) = core w" "core (core w) = core w"
  by (simp_all add: core_def)

lemma core_eqD: "core v = core w \<Longrightarrow> w_x v = w_x w \<and> w_y v = w_y w \<and> w_width v = w_width w \<and> w_height v = w_height w \<and>
    w_flags v = w_flags w \<and> w_tags v = w_tags w \<and> w_bitmap v = w_bitmap w \<and> w_id v = w_id w \<and> w_owner v = w_owner w"
  by (cases v, cases w) (simp add: core_def)

lemma win_listD:
  assumes "win_list s ps"
  shows "distinct ps" and "0 \<notin> set ps" and "p \<in> set ps \<Longrightarrow> \<exists>w. wins s p = Some w"
  using dchain_distinct dchain_nonzero dchain_alloc assms unfolding win_list_def wlinks_def by (blast, blast, fastforce)

section \<open>Adding\<close>

lemma append_window_ok:
  assumes "win_list s ps" and "wins s p = Some w" and "p \<notin> set ps" and "p \<noteq> 0"
  shows "\<exists>s'. add_to_list s p = Some s' \<and> win_list s' (ps @ [p]) \<and> relinked s s'"
proof (cases "ps = []")
  case True
  then show ?thesis using assms
    by (auto simp: win_list_def add_to_list_def set_win_def wlinks_def relinked_def contents_def fun_eq_iff)
next
  case False
  have d: "dchain (wlinks s) 0 (windows s) ps" "windows_end s = last ps" using assms(1) False by (simp_all add: win_list_def)
  have l: "last ps \<in> set ps" "last ps \<noteq> p" "last ps \<noteq> 0" using False assms(3) win_listD(2) [OF assms(1)] last_in_set [OF False] by metis+
  then obtain e where e: "wins s (last ps) = Some e" using win_listD(3) [OF assms(1)] by blast
  let ?ws = "(wins s)(p \<mapsto> w\<lparr>w_next := 0, w_prev := last ps\<rparr>, last ps \<mapsto> e\<lparr>w_next := p\<rparr>)"
  let ?s = "s\<lparr>wins := ?ws, windows_end := p\<rparr>"
  have "add_to_list s p = Some ?s" using assms(2) l d(2) e by (simp add: add_to_list_def set_win_def)
  moreover have lk: "wlinks ?s z = map_option (\<lambda>(a, b). (if z = last ps then p else a, b)) (wlinks s z)" if "z \<in> set ps" for z
    using that assms(3) e by (cases "wins s z") (auto simp: wlinks_def)
  have "wlinks ?s p = Some (0, if ps = [] then 0 else last ps)" using False l(2) by (simp add: wlinks_def)
  from dchain_snoc [OF d(1) assms(3,4) this lk] have "dchain (wlinks ?s) 0 (windows s) (ps @ [p])" using False by simp
  moreover have "contents ?s = contents s" using assms(2) e by (auto simp: contents_def fun_eq_iff)
  ultimately show ?thesis by (auto simp: win_list_def relinked_def)
qed

section \<open>Removing\<close>

lemma remove_from_list_ok:
  assumes "win_list s (us @ p # vs)"
  shows "\<exists>s'. remove_from_list s p = Some s' \<and> win_list s' (us @ vs) \<and> relinked s s'"
proof -
  have d: "dchain (wlinks s) 0 (windows s) (us @ p # vs)" "windows_end s = last (us @ p # vs)" using assms by (simp_all add: win_list_def)
  note L = win_listD [OF assms]
  obtain w where w: "wins s p = Some w" using L(3) by auto
  then have np: "wlinks s p = Some (w_next w, w_prev w)" by (simp add: wlinks_def)
  have nb: "w_next w = 0 \<or> w_next w \<in> set (us @ p # vs)" "w_prev w = 0 \<or> w_prev w \<in> set (us @ p # vs)" "w_next w \<noteq> p" "w_prev w \<noteq> p"
    using dchain_neighbours [OF d(1) L(2) _ np] by auto
  have nx: "w_next w = (case vs of [] \<Rightarrow> 0 | v # _ \<Rightarrow> v)" using dchain_next [OF d(1) np] .
  have pv: "w_prev w = (if us = [] then 0 else last us)"
    using dchain_pull [OF d(1) L(2) np, of "\<lambda>z. map_option (\<lambda>(a, b). (if z = w_prev w then w_next w else a, if z = w_next w then w_prev w else b)) (wlinks s z)"] by simp
  have pz: "w_prev w = 0 \<longleftrightarrow> us = []" using pv L(2) last_in_set [of us] by (cases "us = []") force+
  have ne: "w_next w = w_prev w \<Longrightarrow> w_next w = 0"
    using nx pv L(1) last_in_set [of us] by (auto split: list.splits if_splits)
  let ?s1 = "if w_next w \<noteq> 0 then set_win s (w_next w) ((the (wins s (w_next w)))\<lparr>w_prev := w_prev w\<rparr>) else s\<lparr>windows_end := w_prev w\<rparr>"
  let ?s2 = "if w_prev w \<noteq> 0 then set_win ?s1 (w_prev w) ((the (wins s (w_prev w)))\<lparr>w_next := w_next w\<rparr>) else ?s1\<lparr>windows := w_next w\<rparr>"
  have al: "\<exists>v. wins s z = Some v" if "z \<in> set (us @ p # vs)" for z using L(3) that by blast
  have r: "remove_from_list s p = Some ?s2"
    using w nb al [of "w_next w"] al [of "w_prev w"] ne by (auto simp: remove_from_list_def set_win_def)
  have lk: "wlinks ?s2 z = map_option (\<lambda>(a, b). (if z = w_prev w then w_next w else a, if z = w_next w then w_prev w else b)) (wlinks s z)"
    if "z \<noteq> 0" for z
    using that nb al [of "w_next w"] al [of "w_prev w"] ne by (auto simp: wlinks_def set_win_def option.map_comp comp_def intro: option.map_ident [symmetric])
  have "dchain (wlinks ?s2) 0 (if us = [] then w_next w else windows s) (us @ vs)"
  proof (rule dchain_pull [THEN conjunct1, OF d(1) L(2) np])
    fix z assume "z \<in> set us \<union> set vs"
    then have "z \<noteq> 0" using L(2) by auto
    then show "wlinks ?s2 z = map_option (\<lambda>(a, b). (if z = w_prev w then w_next w else a, if z = w_next w then w_prev w else b)) (wlinks s z)" by (rule lk)
  qed
  moreover have "windows ?s2 = (if us = [] then w_next w else windows s)" using pz by (auto simp: set_win_def)
  moreover have "windows_end ?s2 = (if us @ vs = [] then 0 else last (us @ vs))"
    using nx pv d(2) L(2) by (auto simp: set_win_def split: list.splits)
  ultimately have "win_list ?s2 (us @ vs)" by (simp add: win_list_def)
  moreover have "contents ?s2 = contents s"
    using nb al [of "w_next w"] al [of "w_prev w"] ne by (auto simp: contents_def set_win_def fun_eq_iff)
  moreover have "?s2 = s\<lparr>wins := wins ?s2, windows := windows ?s2, windows_end := windows_end ?s2\<rparr>" by (auto simp: set_win_def)
  ultimately show ?thesis using r by (auto simp: relinked_def)
qed

section \<open>Raising and finding\<close>

lemma window_relinked_trans: "relinked s t \<Longrightarrow> relinked t u \<Longrightarrow> relinked s u"
  unfolding relinked_def by (metis (no_types, lifting) wm.surjective wm.update_convs(1-3))

lemma relinked_wins: "relinked s s' \<Longrightarrow> wins s p = Some w \<Longrightarrow> \<exists>w'. wins s' p = Some w' \<and> core w' = core w"
  unfolding relinked_def contents_def by (metis map_option_eq_Some)

lemma bring_to_front_ok:
  assumes "win_list s ps" and "p \<in> set ps"
  shows "\<exists>s'. bring_to_front s p = Some s' \<and> win_list s' (remove1 p ps @ [p]) \<and> relinked s s'"
proof -
  obtain us vs where ps: "ps = us @ p # vs" using assms(2) by (auto simp: in_set_conv_decomp)
  note L = win_listD [OF assms(1)]
  have r: "remove1 p ps = us @ vs" using L(1) by (simp add: ps remove1_append)
  show ?thesis
  proof (cases "p = windows_end s")
    case True
    then have "last ps = p" using assms ps by (simp add: win_list_def)
    then have "vs = []" using L(1) ps by (metis append_is_Nil_conv distinct.simps(2) distinct_append last_ConsR last_appendR last_in_set list.simps(3))
    then show ?thesis using True assms(1) ps r by (auto simp: bring_to_front_def relinked_def)
  next
    case False
    obtain s1 where 1: "remove_from_list s p = Some s1" "win_list s1 (us @ vs)" "relinked s s1" using remove_from_list_ok assms(1) unfolding ps by blast
    obtain w where "wins s p = Some w" using L(3) assms(2) by blast
    then obtain w1 where w1: "wins s1 p = Some w1" using relinked_wins [OF 1(3)] by blast
    obtain s2 where "add_to_list s1 p = Some s2" "win_list s2 ((us @ vs) @ [p])" "relinked s1 s2"
      using append_window_ok [OF 1(2) w1] L(1,2) assms(2) ps by auto
    then show ?thesis using False 1 r window_relinked_trans by (auto simp: bring_to_front_def)
  qed
qed

definition wants :: "wm \<Rightarrow> u32 \<Rightarrow> u32 \<Rightarrow> ptr \<Rightarrow> bool" where
  "wants s wid owner p \<longleftrightarrow> (\<exists>w. wins s p = Some w \<and> w_id w = wid \<and> (owner = 0 \<or> w_owner w = owner))"

lemma find_from_ok:
  "dchain (wlinks s) pr p ps \<Longrightarrow> find_from s p wid owner = Some (case find (wants s wid owner) ps of None \<Rightarrow> 0 | Some q \<Rightarrow> q)"
proof (induction ps arbitrary: pr p)
  case Nil
  then show ?case by (simp add: find_from.simps)
next
  case (Cons q ps)
  then have "q = p" "p \<noteq> 0" and "\<exists>w. wins s p = Some w \<and> dchain (wlinks s) p (w_next w) ps" by (auto simp: wlinks_def [of s p])
  then obtain w where "wins s p = Some w" "q = p" "p \<noteq> 0" "dchain (wlinks s) p (w_next w) ps" by blast
  then show ?case using Cons.IH by (subst find_from.simps) (auto simp: wants_def [of s wid owner p])
qed

lemma find_window_ok: "win_list s ps \<Longrightarrow> find_window s wid owner = Some (case find (wants s wid owner) ps of None \<Rightarrow> 0 | Some q \<Rightarrow> q)"
  unfolding find_window_def win_list_def by (blast intro: find_from_ok)

text \<open>
  The list of windows of the window manager refines a list: the windows are found from the bottom to the top, a new window
  is added at the top, a window is removed from its place, and raising a window moves it to the top and keeps the order of the others. The functions always return, and none of
  them changes what is stored in a window or any other part of the state.\<close>

theorem window_list_refines:
  assumes "win_list s ps"
  shows "find_window s wid owner = Some (case find (wants s wid owner) ps of None \<Rightarrow> 0 | Some q \<Rightarrow> q) \<and>
    (p \<notin> set ps \<and> p \<noteq> 0 \<and> wins s p \<noteq> None \<longrightarrow> (\<exists>s'. add_to_list s p = Some s' \<and> win_list s' (ps @ [p]) \<and> relinked s s')) \<and>
    (p \<in> set ps \<longrightarrow> (\<exists>s'. remove_from_list s p = Some s' \<and> win_list s' (remove1 p ps) \<and> relinked s s') \<and>
      (\<exists>s'. bring_to_front s p = Some s' \<and> win_list s' (remove1 p ps @ [p]) \<and> relinked s s'))"
proof -
  have r: "\<exists>s'. remove_from_list s p = Some s' \<and> win_list s' (remove1 p ps) \<and> relinked s s'" if p: "p \<in> set ps"
  proof -
    obtain us vs where ps: "ps = us @ p # vs" using p by (auto simp: in_set_conv_decomp)
    then have "remove1 p ps = us @ vs" using win_listD(1) [OF assms] by (simp add: remove1_append)
    then show ?thesis using remove_from_list_ok assms ps by simp
  qed
  show ?thesis using r find_window_ok [OF assms] append_window_ok [OF assms] bring_to_front_ok [OF assms] by auto
qed

end
