(* ===== verification/Window_Screen.thy ===== *)
theory Window_Screen
  imports Window_List
begin

text \<open>
  Drawing stays inside the screen. A window is on the screen when its frame, the rectangle with a border of one pixel, touches it in both directions. When all windows are, every function that
  redraws a part of the screen returns and changes nothing but the pixels and the requests that are sent; a window that lies below the screen makes it write
  outside of it.
\<close>

section \<open>States that differ in pixels and messages\<close>

definition same :: "wm \<Rightarrow> wm \<Rightarrow> bool" where
  "same s s' \<longleftrightarrow> (\<exists>scr sy ev. s' = s\<lparr>screen := scr, w_syncs := sy, w_events := ev\<rparr> \<and> length scr = length (screen s))"

lemma same_refl [simp]: "same s s"
  by (cases s) (auto simp: same_def)

lemma same_trans: "same s t \<Longrightarrow> same t u \<Longrightarrow> same s u"
proof -
  assume "same s t" "same t u"
  then obtain scr sy ev scr' sy' ev' where "t = s\<lparr>screen := scr, w_syncs := sy, w_events := ev\<rparr>" "length scr = length (screen s)"
    "u = t\<lparr>screen := scr', w_syncs := sy', w_events := ev'\<rparr>" "length scr' = length (screen t)" by (auto simp: same_def)
  then have "u = s\<lparr>screen := scr', w_syncs := sy', w_events := ev'\<rparr> \<and> length scr' = length (screen s)" by simp
  then show "same s u" unfolding same_def by blast
qed

lemma same_message:
  assumes "same s t"
  shows "same s (t\<lparr>w_syncs := sy\<rparr>)" and "same s (t\<lparr>w_events := ev\<rparr>)"
proof -
  obtain scr sy' ev' where t: "t = s\<lparr>screen := scr, w_syncs := sy', w_events := ev'\<rparr>" "length scr = length (screen s)" using assms by (auto simp: same_def)
  then have "t\<lparr>w_syncs := sy\<rparr> = s\<lparr>screen := scr, w_syncs := sy, w_events := ev'\<rparr>" "t\<lparr>w_events := ev\<rparr> = s\<lparr>screen := scr, w_syncs := sy', w_events := ev\<rparr>" by simp_all
  then show "same s (t\<lparr>w_syncs := sy\<rparr>)" "same s (t\<lparr>w_events := ev\<rparr>)" using t(2) unfolding same_def by blast+
qed

lemma sameD:
  assumes "same s s'"
  shows "wins s' = wins s" "windows s' = windows s" "windows_end s' = windows_end s" "active_window s' = active_window s" "panel s' = panel s"
    "current_tags s' = current_tags s" "screen_width s' = screen_width s" "screen_height s' = screen_height s" "mousex s' = mousex s" "mousey s' = mousey s"
    "mousebuttons s' = mousebuttons s" "alreadymoving s' = alreadymoving s" "winkey s' = winkey s" "length (screen s') = length (screen s)"
  using assms by (auto simp: same_def)

lemma for_same:
  assumes "\<And>x s'. x \<in> set xs \<Longrightarrow> same s s' \<Longrightarrow> \<exists>s''. f x s' = Some s'' \<and> same s' s''"
  shows "\<exists>s'. for_list f xs s = Some s' \<and> same s s'"
  using assms
proof (induction xs arbitrary: s)
  case (Cons x xs)
  obtain s1 where 1: "f x s = Some s1" "same s s1" using Cons.prems [of x s] by auto
  have "\<exists>s'. for_list f xs s1 = Some s' \<and> same s1 s'"
    by (rule Cons.IH) (use Cons.prems 1(2) same_trans in \<open>meson list.set_intros(2)\<close>)
  then show ?case using 1 same_trans by auto
qed simp

section \<open>Pixels\<close>

definition screen_ok :: "wm \<Rightarrow> bool" where
  "screen_ok s \<longleftrightarrow> 0 \<le> screen_width s \<and> 0 \<le> screen_height s \<and> int (length (screen s)) = screen_width s * screen_height s"

lemma screen_ok_same: "same s s' \<Longrightarrow> screen_ok s \<Longrightarrow> screen_ok s'"
  by (auto simp: same_def screen_ok_def)

lemma index_ok:
  fixes x y w h :: int
  assumes "0 \<le> x" and "x < w" and "0 \<le> y" and "y < h"
  shows "0 \<le> x + y * w" and "x + y * w < w * h"
proof -
  have "y * w \<le> (h - 1) * w" using assms by (intro mult_right_mono) auto
  then show "x + y * w < w * h" using assms(2) by (simp add: algebra_simps)
  show "0 \<le> x + y * w" using assms by simp
qed

lemma pixel_ok: "0 \<le> x \<Longrightarrow> x < w \<Longrightarrow> 0 \<le> y \<Longrightarrow> y < h \<Longrightarrow> w * h \<le> int (length ps) \<Longrightarrow> pixel ps (x + y * w) = Some (ps ! nat (x + y * w))"
  using index_ok [of x w y h] by (simp add: pixel_def)

lemma put_pixel_ok:
  assumes "screen_ok s" and "0 \<le> x" and "x < screen_width s" and "0 \<le> y" and "y < screen_height s"
  shows "\<exists>s'. put_pixel s x y c = Some s' \<and> same s s'"
proof -
  have "pixel (screen s) (x + y * screen_width s) = Some (screen s ! nat (x + y * screen_width s))"
    using pixel_ok [of x "screen_width s" y "screen_height s"] assms by (simp add: screen_ok_def)
  then have "put_pixel s x y c = Some (s\<lparr>screen := (screen s)[nat (x + y * screen_width s) := c]\<rparr>)" by (simp add: put_pixel_def)
  then show ?thesis by (cases s) (auto simp: same_def)
qed

text \<open>A rectangle inside the screen.\<close>

definition clipped :: "wm \<Rightarrow> int \<Rightarrow> int \<Rightarrow> int \<Rightarrow> int \<Rightarrow> bool" where
  "clipped s x1 y1 x2 y2 \<longleftrightarrow> 0 \<le> x1 \<and> 0 \<le> y1 \<and> x2 \<le> screen_width s \<and> y2 \<le> screen_height s"

lemma blit_ok:
  assumes "screen_ok s" and "clipped s x1 y1 x2 y2" and "width * height \<le> int (length bitmap)"
  shows "\<exists>s'. blit_bitmap bl s bitmap tox toy width height x1 y1 x2 y2 = Some s' \<and> same s s'"
  unfolding blit_bitmap_def
proof (intro for_same)
  fix y s' x s''
  assume y: "y \<in> set [(if toy \<ge> y1 then toy else y1)..min (toy + height) y2 - 1]" and s': "same s s'"
    and x: "x \<in> set [(if tox \<ge> x1 then tox else x1)..min (tox + width) x2 - 1]" and s'': "same s' s''"
  have s: "same s s''" using s' s'' by (rule same_trans)
  have ok: "screen_ok s''" "screen_width s'' = screen_width s" "screen_height s'' = screen_height s"
    using screen_ok_same [OF s assms(1)] sameD [OF s] by simp_all
  have r: "0 \<le> x" "x < screen_width s" "0 \<le> y" "y < screen_height s" "0 \<le> x - tox" "x - tox < width" "0 \<le> y - toy" "y - toy < height"
    using x y assms(2) by (auto simp: clipped_def split: if_splits)
  have "pixel bitmap ((x - tox) + (y - toy) * width) = Some (bitmap ! nat ((x - tox) + (y - toy) * width))" using pixel_ok [OF r(5-8) assms(3)] .
  moreover have "pixel (screen s'') (x + y * screen_width s'') = Some (screen s'' ! nat (x + y * screen_width s''))"
    using pixel_ok [OF r(1-4), of "screen s''"] ok by (simp add: screen_ok_def)
  ultimately show "\<exists>t. do { b \<leftarrow> pixel bitmap ((x - tox) + (y - toy) * width); c \<leftarrow> pixel (screen s'') (x + y * screen_width s''); put_pixel s'' x y (bl b c) } = Some t \<and> same s'' t"
    using put_pixel_ok [OF ok(1), of x y] r ok by simp
qed

section \<open>Windows\<close>

definition on_screen :: "wm \<Rightarrow> window \<Rightarrow> bool" where
  "on_screen s w \<longleftrightarrow> w_x w \<le> screen_width s \<and> w_y w \<le> screen_height s \<and> 0 \<le> w_width w \<and> 0 \<le> w_height w \<and> 0 \<le> w_x w + w_width w \<and> 0 \<le> w_y w + w_height w \<and>
     (case w_bitmap w of None \<Rightarrow> True | Some b \<Rightarrow> w_width w * w_height w \<le> int (length b))"

lemma on_screen_same [simp]: "same s s' \<Longrightarrow> on_screen s' w = on_screen s w"
  using sameD by (simp add: on_screen_def)

lemma pair_ok:
  assumes "P \<Longrightarrow> \<exists>s'. f s = Some s' \<and> same s s'" and "\<And>s'. same s s' \<Longrightarrow> Q \<Longrightarrow> \<exists>s''. g s' = Some s'' \<and> same s' s''"
  shows "\<exists>s'. do { s \<leftarrow> (if P then f s else Some s); if Q then g s else Some s } = Some s' \<and> same s s'"
proof -
  obtain s1 where 1: "(if P then f s else Some s) = Some s1" "same s s1" using assms(1) by (cases P) auto
  obtain s2 where "(if Q then g s1 else Some s1) = Some s2" "same s1 s2" using assms(2) [OF 1(2)] by (cases Q) auto
  then show ?thesis using 1 same_trans by auto
qed

lemma borders_ok:
  assumes "screen_ok s" and "clipped s x1 y1 x2 y2" and "on_screen s w"
  shows "\<exists>s'. for_list (\<lambda>x s. do {
           s \<leftarrow> (if w_y w > y1 then put_pixel s x (w_y w - 1) c else Some s);
           if w_y w + w_height w < y2 then put_pixel s x (w_y w + w_height w) c else Some s
         }) [(if w_x w > x1 then w_x w - 1 else x1)..min (w_x w + w_width w + 1) x2 - 1] s = Some s' \<and> same s s'" (is ?rows)
    and "\<exists>s'. for_list (\<lambda>y s. do {
           s \<leftarrow> (if w_x w > x1 then put_pixel s (w_x w - 1) y c else Some s);
           if w_x w + w_width w < x2 then put_pixel s (w_x w + w_width w) y c else Some s
         }) [(if w_y w \<ge> y1 then w_y w else y1)..min (w_y w + w_height w) y2 - 1] s = Some s' \<and> same s s'" (is ?cols)
proof -
  have ok: "screen_ok s'" "screen_width s' = screen_width s" "screen_height s' = screen_height s" if "same s s'" for s'
    using screen_ok_same [OF that assms(1)] sameD [OF that] by simp_all
  show ?rows
  proof (rule for_same, rule pair_ok)
    fix x s' assume x: "x \<in> set [(if w_x w > x1 then w_x w - 1 else x1)..min (w_x w + w_width w + 1) x2 - 1]" and s': "same s s'"
    show "\<exists>s''. put_pixel s' x (w_y w - 1) c = Some s'' \<and> same s' s''" if "w_y w > y1"
      by (rule put_pixel_ok [OF ok(1) [OF s']]) (use x that assms(2,3) ok(2,3) [OF s'] in \<open>auto simp: clipped_def on_screen_def split: if_splits\<close>)
    fix s'' assume "same s' s''"
    then have s: "same s s''" using s' same_trans by blast
    show "\<exists>t. put_pixel s'' x (w_y w + w_height w) c = Some t \<and> same s'' t" if "w_y w + w_height w < y2"
      by (rule put_pixel_ok [OF ok(1) [OF s]]) (use x that assms(2,3) ok(2,3) [OF s] in \<open>auto simp: clipped_def on_screen_def split: if_splits\<close>)
  qed
  show ?cols
  proof (rule for_same, rule pair_ok)
    fix y s' assume y: "y \<in> set [(if w_y w \<ge> y1 then w_y w else y1)..min (w_y w + w_height w) y2 - 1]" and s': "same s s'"
    show "\<exists>s''. put_pixel s' (w_x w - 1) y c = Some s'' \<and> same s' s''" if "w_x w > x1"
      by (rule put_pixel_ok [OF ok(1) [OF s']]) (use y that assms(2,3) ok(2,3) [OF s'] in \<open>auto simp: clipped_def on_screen_def split: if_splits\<close>)
    fix s'' assume "same s' s''"
    then have s: "same s s''" using s' same_trans by blast
    show "\<exists>t. put_pixel s'' (w_x w + w_width w) y c = Some t \<and> same s'' t" if "w_x w + w_width w < x2"
      by (rule put_pixel_ok [OF ok(1) [OF s]]) (use y that assms(2,3) ok(2,3) [OF s] in \<open>auto simp: clipped_def on_screen_def split: if_splits\<close>)
  qed
qed

lemma draw_window_ok:
  assumes "screen_ok s" and "clipped s x1 y1 x2 y2" and "wins s p = Some w" and "on_screen s w"
  shows "\<exists>s'. draw_window bl s p x1 y1 x2 y2 = Some s' \<and> same s s'"
proof (cases "visible s w")
  case True
  obtain s1 where 1: "(case w_bitmap w of None \<Rightarrow> Some s
         | Some bitmap \<Rightarrow> blit_bitmap bl s bitmap (w_x w) (w_y w) (w_width w) (w_height w) x1 y1 x2 y2) = Some s1" "same s s1"
  proof (cases "w_bitmap w")
    case (Some b)
    then have "w_width w * w_height w \<le> int (length b)" using assms(4) by (simp add: on_screen_def)
    from blit_ok [OF assms(1,2) this] show ?thesis using that Some by fastforce
  qed (use that same_refl in auto)
  let ?c = "if p = active_window s1 then ACTIVE_WINDOW_BORDER else INACTIVE_WINDOW_BORDER"
  have k: "screen_ok t" "clipped t x1 y1 x2 y2" "on_screen t w" if "same s t" for t
    using that screen_ok_same assms sameD [OF that] by (auto simp: clipped_def)
  obtain s2 where 2: "for_list (\<lambda>x s. do {
           s \<leftarrow> (if w_y w > y1 then put_pixel s x (w_y w - 1) ?c else Some s);
           if w_y w + w_height w < y2 then put_pixel s x (w_y w + w_height w) ?c else Some s
         }) [(if w_x w > x1 then w_x w - 1 else x1)..min (w_x w + w_width w + 1) x2 - 1] s1 = Some s2" "same s1 s2"
    using borders_ok(1) [OF k [OF 1(2)], of ?c] by blast
  have "same s s2" using 1(2) 2(2) by (rule same_trans)
  then obtain s3 where 3: "for_list (\<lambda>y s. do {
           s \<leftarrow> (if w_x w > x1 then put_pixel s (w_x w - 1) y ?c else Some s);
           if w_x w + w_width w < x2 then put_pixel s (w_x w + w_width w) y ?c else Some s
         }) [(if w_y w \<ge> y1 then w_y w else y1)..min (w_y w + w_height w) y2 - 1] s2 = Some s3" "same s s3"
    using borders_ok(2) [OF k, of s2 ?c] same_trans by blast
  have "draw_window bl s p x1 y1 x2 y2 = Some s3"
    unfolding draw_window_def Let_def assms(3) using True by (simp only: bind.bind_lunit 1(1) 2(1) 3(1) not_not not_True_eq_False if_False)
  then show ?thesis using 3(2) by blast
qed (use assms(3) in \<open>simp add: draw_window_def\<close>)

lemma draw_from_ok:
  assumes "\<forall>p \<in> set ps. \<forall>w. wins s p = Some w \<longrightarrow> on_screen s w"
  shows "screen_ok s \<Longrightarrow> clipped s x1 y1 x2 y2 \<Longrightarrow> dchain (wlinks s) pr p ps \<Longrightarrow> \<exists>s'. draw_from bl s p x1 y1 x2 y2 = Some s' \<and> same s s'"
  using assms
proof (induction ps arbitrary: s pr p)
  case Nil
  then show ?case by (simp add: draw_from.simps)
next
  case (Cons q ps)
  then have "q = p" "p \<noteq> 0" and "\<exists>w. wins s p = Some w \<and> dchain (wlinks s) p (w_next w) ps" by (auto simp: wlinks_def [of s p])
  then obtain w where w: "wins s p = Some w" "q = p" "p \<noteq> 0" "dchain (wlinks s) p (w_next w) ps" by blast
  then obtain s1 where 1: "draw_window bl s p x1 y1 x2 y2 = Some s1" "same s s1" using draw_window_ok Cons.prems by fastforce
  have k: "wins s1 = wins s" "wlinks s1 = wlinks s" using sameD [OF 1(2)] by (simp_all add: wlinks_def fun_eq_iff)
  have "\<exists>s'. draw_from bl s1 (w_next w) x1 y1 x2 y2 = Some s' \<and> same s1 s'"
    by (rule Cons.IH) (use Cons.prems w screen_ok_same 1(2) k sameD [OF 1(2)] in \<open>auto simp: clipped_def\<close>)
  then show ?case using w 1 k same_trans by (subst draw_from.simps) auto
qed

text \<open>The invariant of the manager: the list, the size of the screen, and windows on it.\<close>

definition wm_ok :: "wm \<Rightarrow> ptr list \<Rightarrow> bool" where
  "wm_ok s ps \<longleftrightarrow> screen_ok s \<and> win_list s ps \<and> (\<forall>p \<in> set ps. \<forall>w. wins s p = Some w \<longrightarrow> on_screen s w) \<and>
     (active_window s = 0 \<or> active_window s \<in> set ps) \<and> (panel s = 0 \<or> panel s \<in> set ps)"

lemma wm_ok_same: "same s s' \<Longrightarrow> wm_ok s ps \<Longrightarrow> wm_ok s' ps"
proof -
  assume h: "same s s'" "wm_ok s ps"
  have "wlinks s' = wlinks s" using sameD [OF h(1)] by (simp add: wlinks_def fun_eq_iff)
  then show "wm_ok s' ps" using h screen_ok_same [OF h(1)] sameD [OF h(1)] by (auto simp: wm_ok_def win_list_def)
qed

lemma update_screen_ok:
  assumes "wm_ok s ps"
  shows "\<exists>s'. update_screen bl s x1 y1 x2 y2 = Some s' \<and> same s s'"
proof -
  define a1 b1 a2 b2 where d: "a1 = (if x1 < 0 then 0 else x1)" "b1 = (if y1 < 0 then 0 else y1)"
    "a2 = (if x2 > screen_width s then screen_width s else x2)" "b2 = (if y2 > screen_height s then screen_height s else y2)"
  have c: "clipped t a1 b1 a2 b2" if "same s t" for t using sameD [OF that] by (auto simp: clipped_def d)
  show ?thesis
  proof (cases "a1 > a2 \<or> b1 > b2")
    case False
    obtain s1 where 1: "for_list (\<lambda>x. for_list (\<lambda>y s. put_pixel s x y COLOR_BLACK) [b1..b2 - 1]) [a1..a2 - 1] s = Some s1" "same s s1"
    proof -
      have "\<exists>s1. for_list (\<lambda>x. for_list (\<lambda>y s. put_pixel s x y COLOR_BLACK) [b1..b2 - 1]) [a1..a2 - 1] s = Some s1 \<and> same s s1"
      proof (intro for_same)
        fix x s' y s'' assume "x \<in> set [a1..a2 - 1]" "y \<in> set [b1..b2 - 1]" and h: "same s s'" "same s' s''"
        moreover have s: "same s s''" using h same_trans by blast
        ultimately show "\<exists>t. put_pixel s'' x y COLOR_BLACK = Some t \<and> same s'' t"
          using put_pixel_ok [OF screen_ok_same [OF s], of x y] c [OF s] assms by (auto simp: wm_ok_def clipped_def)
      qed
      then show ?thesis using that by blast
    qed
    note w1 = wm_ok_same [OF 1(2) assms]
    then have "screen_ok s1" "dchain (wlinks s1) 0 (windows s1) ps" "\<forall>p \<in> set ps. \<forall>w. wins s1 p = Some w \<longrightarrow> on_screen s1 w"
      by (simp_all add: wm_ok_def win_list_def)
    from draw_from_ok [OF this(3,1) c [OF 1(2)] this(2), of bl]
    obtain s2 where 2: "draw_from bl s1 (windows s1) a1 b1 a2 b2 = Some s2" "same s1 s2" by blast
    have s2: "same s s2" using 1(2) 2(2) by (rule same_trans)
    have k: "screen_ok s2" "(3 :: int) * 3 \<le> int (length cursor_bitmap)" using wm_ok_same [OF s2 assms] by (simp_all add: wm_ok_def cursor_bitmap_def)
    obtain s3 where 3: "draw_cursor bl s2 a1 b1 a2 b2 = Some s3" "same s2 s3"
      unfolding draw_cursor_def using blit_ok [OF k(1) c [OF s2] k(2)] by blast
    have "same s (s3\<lparr>w_syncs := w_syncs s3 @ [(a1, b1, a2 - a1, b2 - b1)]\<rparr>)" using same_message(1) [OF same_trans [OF s2 3(2)]] .
    then show ?thesis using 1(1) 2(1) 3(1) False unfolding update_screen_def Let_def d [symmetric] by simp
  qed (simp add: update_screen_def d)
qed

lemma update_decorations_ok:
  assumes "wm_ok s ps" and "wins s p = Some w"
  shows "\<exists>s'. update_decorations bl s p = Some s' \<and> same s s'"
proof -
  let ?x = "w_x w" and ?y = "w_y w" and ?v = "w_width w" and ?h = "w_height w"
  obtain s1 where 1: "update_screen bl s (?x - 1) (?y - 1) ?x (?y + ?h + 1) = Some s1" "same s s1" using update_screen_ok [OF assms(1)] by blast
  note o1 = wm_ok_same [OF 1(2) assms(1)]
  obtain s2 where 2: "update_screen bl s1 (?x + ?v) (?y - 1) (?x + ?v + 1) (?y + ?h + 1) = Some s2" "same s1 s2" using update_screen_ok [OF o1] by blast
  note o2 = wm_ok_same [OF 2(2) o1]
  obtain s3 where 3: "update_screen bl s2 ?x (?y - 1) (?x + ?v) ?y = Some s3" "same s2 s3" using update_screen_ok [OF o2] by blast
  note o3 = wm_ok_same [OF 3(2) o2]
  obtain s4 where 4: "update_screen bl s3 ?x (?y + ?h) (?x + ?v) (?y + ?h + 1) = Some s4" "same s3 s4" using update_screen_ok [OF o3] by blast
  have "same s s4" using 1(2) 2(2) 3(2) 4(2) same_trans by blast
  then show ?thesis using 1(1) 2(1) 3(1) 4(1) assms(2) by (simp add: update_decorations_def)
qed

text \<open>
  Redrawing a part of the screen is safe while all windows touch the screen and their bitmaps have the size of the window: whatever the rectangle is, \<open>update_screen\<close>
  clips it, returns, reads no pixel outside of a bitmap and writes none outside of the screen, and it changes nothing else but the list of requests to the
  graphics driver.\<close>

theorem update_screen_safe:
  assumes "wm_ok s ps"
  shows "\<exists>s'. update_screen bl s x1 y1 x2 y2 = Some s' \<and> length (screen s') = length (screen s) \<and>
    (\<exists>scr sy ev. s' = s\<lparr>screen := scr, w_syncs := sy, w_events := ev\<rparr>) \<and> wm_ok s' ps"
proof -
  obtain s' where s': "update_screen bl s x1 y1 x2 y2 = Some s'" "same s s'" using update_screen_ok [OF assms] by blast
  then have "length (screen s') = length (screen s) \<and> (\<exists>scr sy ev. s' = s\<lparr>screen := scr, w_syncs := sy, w_events := ev\<rparr>)" by (auto simp: same_def)
  then show ?thesis using s'(1) wm_ok_same [OF s'(2) assms] by blast
qed

section \<open>Windows that are not on the screen\<close>

lemma for_list_hd_None: "a \<le> b \<Longrightarrow> f a s = None \<Longrightarrow> for_list f [a..b] s = None" for a b :: int
  by (simp add: upto_rec1)

lemma draw_below:
  assumes "screen_ok s" and "clipped s x1 y1 x2 y2" and "x1 < x2" and "wins s p = Some w" and "visible s w" and "w_bitmap w = None"
    and "screen_height s < w_y w" and "y1 \<le> screen_height s" and "w_x w \<le> x2" and "x1 \<le> w_x w + w_width w" and "0 \<le> w_width w"
  shows "draw_window bl s p x1 y1 x2 y2 = None"
proof -
  let ?x = "if w_x w > x1 then w_x w - 1 else x1" and ?c = "if p = active_window s then ACTIVE_WINDOW_BORDER else INACTIVE_WINDOW_BORDER"
  have "0 \<le> ?x" using assms(2) by (auto simp: clipped_def)
  moreover have "screen_height s * screen_width s \<le> (w_y w - 1) * screen_width s"
    using assms(1,7) by (intro mult_right_mono) (auto simp: screen_ok_def)
  ultimately have "pixel (screen s) (?x + (w_y w - 1) * screen_width s) = None"
    using assms(1) by (auto simp: pixel_def screen_ok_def ac_simps)
  then have n: "put_pixel s ?x (w_y w - 1) ?c = None" by (simp add: put_pixel_def)
  have "?x \<le> min (w_x w + w_width w + 1) x2 - 1" using assms(3,9-11) by auto
  then have "for_list (\<lambda>x s. do {
           s \<leftarrow> (if w_y w > y1 then put_pixel s x (w_y w - 1) ?c else Some s);
           if w_y w + w_height w < y2 then put_pixel s x (w_y w + w_height w) ?c else Some s
         }) [?x..min (w_x w + w_width w + 1) x2 - 1] s = None"
    by (rule for_list_hd_None) (use n assms(7,8) in auto)
  then show ?thesis unfolding draw_window_def Let_def assms(4) using assms(5,6) by simp
qed

end
