(* ===== verification/Window_Tiling.thy ===== *)
theory Window_Tiling
  imports Window_Screen
begin

text \<open>
  The tiling of windows. When the windows fit on the screen, \<open>update_tiling\<close> returns, keeps the invariant and leaves all tiled windows side by side or below each other, so that no two
  frames overlap.
\<close>

section \<open>Changes of a window\<close>

lemma set_win_fields [simp]:
  "screen_width (set_win s p w) = screen_width s" "screen_height (set_win s p w) = screen_height s" "wins (set_win s p w) = (wins s)(p \<mapsto> w)"
  by (simp_all add: set_win_def)

lemma wm_ok_set:
  assumes "wm_ok s ps" and "wins s p = Some w" and "w_next w' = w_next w" and "w_prev w' = w_prev w" and "on_screen s w'"
  shows "wm_ok (set_win s p w') ps"
proof -
  have "wlinks (set_win s p w') = wlinks s" using assms(2-4) by (auto simp: wlinks_def set_win_def fun_eq_iff)
  moreover have "on_screen (set_win s p w') v = on_screen s v" for v by (simp add: on_screen_def set_win_def)
  ultimately show ?thesis using assms(1,5) by (auto simp: wm_ok_def win_list_def screen_ok_def set_win_def)
qed

definition resized :: "window \<Rightarrow> int \<Rightarrow> int \<Rightarrow> window" where
  "resized w width height = (if w_width w = width \<and> w_height w = height then w
     else w\<lparr>w_bitmap := None, w_width := max 10 width, w_height := max 10 height\<rparr>)"

lemma resized_fields [simp]:
  "w_x (resized w a b) = w_x w" "w_y (resized w a b) = w_y w" "w_flags (resized w a b) = w_flags w" "w_tags (resized w a b) = w_tags w"
  "w_next (resized w a b) = w_next w" "w_prev (resized w a b) = w_prev w" "w_id (resized w a b) = w_id w" "w_owner (resized w a b) = w_owner w"
  by (simp_all add: resized_def)

lemma resized_size: "10 \<le> a \<Longrightarrow> w_width (resized w a b) = a" "10 \<le> b \<Longrightarrow> w_height (resized w a b) = b"
  by (auto simp: resized_def max_def)

lemma resized_on_screen: "on_screen s w \<Longrightarrow> 0 \<le> w_x w \<Longrightarrow> 0 \<le> w_y w \<Longrightarrow> on_screen s (resized w a b)"
  by (auto simp: on_screen_def resized_def)

lemma resize_window_ok:
  assumes "wm_ok s ps" and "p \<in> set ps" and "wins s p = Some w" and "0 \<le> w_x w" and "0 \<le> w_y w"
  shows "\<exists>s'. resize_window bl s p a b n = Some s' \<and> same (set_win s p (resized w a b)) s' \<and> wm_ok s' ps"
proof (cases "w_width w = a \<and> w_height w = b")
  case True
  then have "set_win s p (resized w a b) = s" using assms(3) by (cases s) (auto simp: resized_def set_win_def)
  then show ?thesis using True assms(1,3) by (auto simp: resize_window_def)
next
  case False
  let ?w = "w\<lparr>w_bitmap := None, w_width := max 10 a, w_height := max 10 b\<rparr>"
  let ?s = "set_win s p ?w"
  have r: "resized w a b = ?w" by (simp only: resized_def False if_False)
  have "on_screen s w" using assms(1-3) by (auto simp: wm_ok_def)
  then have "on_screen s ?w" using resized_on_screen assms(4,5) r by metis
  then have o: "wm_ok ?s ps" using wm_ok_set [OF assms(1,3)] by simp
  obtain t where t: "t = (if n \<and> has_flag ?w LISTEN_EVENTS then send_event ?s ?w ''graph resize %d %d'' [VInt (word_of_int (max 10 a)), VInt (word_of_int (max 10 b))] else ?s)"
    by blast
  have st: "same ?s t" unfolding t send_event_def using same_message(2) [OF same_refl] by simp
  have "wins t p = Some ?w" using sameD(1) [OF st] by (simp add: set_win_def)
  from update_decorations_ok [OF wm_ok_same [OF st o] this] obtain s' where s': "update_decorations bl t p = Some s'" "same t s'" by blast
  have m: "max 10 x = (if x < 10 then 10 else x)" for x :: int by simp
  have "resize_window bl s p a b n = Some s'"
    using False assms(3) s'(1) by (auto simp: resize_window_def Let_def t m)
  then show ?thesis using r same_trans [OF st s'(2)] wm_ok_same o by auto
qed

section \<open>The first pass\<close>

abbreviation (input) win :: "wm \<Rightarrow> ptr \<Rightarrow> window" where "win s p \<equiv> the (wins s p)"

definition tiled :: "wm \<Rightarrow> ptr \<Rightarrow> bool" where
  "tiled s p \<longleftrightarrow> \<not> has_flag (win s p) FLOATING \<and> visible s (win s p)"

definition fixed :: "wm \<Rightarrow> ptr \<Rightarrow> bool" where
  "fixed s p \<longleftrightarrow> has_flag (win s p) CONSTANT_SIZE"

definition scan :: "wm \<Rightarrow> ptr list \<Rightarrow> tiling \<Rightarrow> tiling" where
  "scan s ps t = fold (\<lambda>p. tiling_step s p (win s p)) ps t"

lemma chain_step:
  assumes "dchain (wlinks s) pr p (q # ps)"
  shows "q = p \<and> p \<noteq> 0 \<and> (\<exists>w. wins s p = Some w \<and> dchain (wlinks s) p (w_next w) ps)"
  using assms by (auto simp: wlinks_def [of s p])

lemma tiling_scan_ok: "dchain (wlinks s) pr p ps \<Longrightarrow> tiling_scan s p t = Some (scan s ps t)"
proof (induction ps arbitrary: pr p t)
  case Nil
  then show ?case by (simp add: tiling_scan.simps scan_def)
next
  case (Cons q ps)
  from chain_step [OF Cons.prems] show ?case using Cons.IH by (subst tiling_scan.simps) (auto simp: scan_def)
qed

lemma scan_untiled: "\<forall>p \<in> set ps. \<not> tiled s p \<Longrightarrow> scan s ps t = t"
  by (induction ps arbitrary: t) (auto simp: scan_def tiling_step_def tiled_def)

lemma scan_tiled: "scan s (filter (tiled s) ps) t = scan s ps t"
  by (induction ps arbitrary: t) (auto simp: scan_def tiling_step_def tiled_def)

lemma scan_others:
  "\<forall>p \<in> set ps. tiled s p \<and> p \<noteq> tl_main t \<Longrightarrow> tl_main t \<noteq> 0 \<Longrightarrow>
    tl_main (scan s ps t) = tl_main t \<and> tl_others (scan s ps t) = (tl_others t \<or> ps \<noteq> []) \<and>
    tl_height (scan s ps t) = tl_height t - (\<Sum>p\<leftarrow>filter (fixed s) ps. w_height (win s p) + 2) \<and>
    tl_count (scan s ps t) = tl_count t + int (length (filter (\<lambda>p. \<not> fixed s p) ps)) \<and>
    tl_last (scan s ps t) = (if filter (\<lambda>p. \<not> fixed s p) ps = [] then tl_last t else last (filter (\<lambda>p. \<not> fixed s p) ps)) \<and>
    tl_width (scan s ps t) \<le> tl_width t"
proof (induction ps arbitrary: t)
  case (Cons p ps)
  let ?t = "tiling_step s p (win s p) t"
  have m: "tl_main ?t = tl_main t" using Cons.prems by (simp add: tiling_step_def)
  have "scan s (p # ps) t = scan s ps ?t" by (simp add: scan_def)
  then show ?case using Cons.IH [of ?t] Cons.prems m by (simp add: tiling_step_def tiled_def fixed_def split: if_splits)
qed (simp add: scan_def)

section \<open>The second pass\<close>

text \<open>What the second pass uses up in height for a window.\<close>

definition cost :: "wm \<Rightarrow> tiling \<Rightarrow> ptr \<Rightarrow> int" where
  "cost s t p = (if fixed s p then w_height (win s p) + 2
     else tl_height t div tl_count t + (if p = tl_last t then tl_height t mod tl_count t + 2 else 0))"

fun stacked :: "wm \<Rightarrow> int \<Rightarrow> int \<Rightarrow> ptr list \<Rightarrow> bool" where
  "stacked s x y [] = True"
| "stacked s x y (q # qs) = (\<exists>w. wins s q = Some w \<and> w_x w = x \<and> w_y w = y \<and> 0 \<le> w_height w \<and> stacked s x (y + w_height w + 2) qs)"

lemma stacked_cong: "(\<And>q. q \<in> set qs \<Longrightarrow> wins s' q = wins s q) \<Longrightarrow> stacked s' x y qs = stacked s x y qs"
  by (induction qs arbitrary: y) auto

text \<open>Windows keep everything but position, size and bitmap, and the manager keeps everything but windows, pixels and messages.\<close>

definition kept :: "wm \<Rightarrow> wm \<Rightarrow> bool" where
  "kept s s' \<longleftrightarrow> (\<exists>ws. same (s\<lparr>wins := ws\<rparr>) s') \<and>
     (\<forall>q. map_option (\<lambda>w. (w_flags w, w_tags w, w_next w, w_prev w, w_id w, w_owner w)) (wins s' q) =
       map_option (\<lambda>w. (w_flags w, w_tags w, w_next w, w_prev w, w_id w, w_owner w)) (wins s q))"

lemma kept_same: "same s s' \<Longrightarrow> kept s s'"
  using sameD(1) [of s s'] by (cases s) (auto simp: kept_def intro!: exI [of _ "wins s"])

lemma same_upd: "same s t \<Longrightarrow> same (s\<lparr>wins := ws\<rparr>) (t\<lparr>wins := ws\<rparr>)"
proof -
  assume "same s t"
  then obtain scr sy ev where t: "t = s\<lparr>screen := scr, w_syncs := sy, w_events := ev\<rparr>" "length scr = length (screen s)" by (auto simp: same_def)
  then have "t\<lparr>wins := ws\<rparr> = s\<lparr>wins := ws, screen := scr, w_syncs := sy, w_events := ev\<rparr>" by simp
  then show ?thesis using t(2) unfolding same_def by auto
qed

lemma kept_trans: "kept s t \<Longrightarrow> kept t u \<Longrightarrow> kept s u"
proof -
  assume k: "kept s t" "kept t u"
  then obtain ws ws' where "same (s\<lparr>wins := ws\<rparr>) t" "same (t\<lparr>wins := ws'\<rparr>) u" by (auto simp: kept_def)
  from same_upd [OF this(1), of ws'] this(2) have "same (s\<lparr>wins := ws'\<rparr>) u" using same_trans by simp
  then show "kept s u" using k by (auto simp: kept_def)
qed

lemma kept_set:
  assumes "wins s p = Some w" and "w_flags w' = w_flags w" "w_tags w' = w_tags w" "w_next w' = w_next w" "w_prev w' = w_prev w" "w_id w' = w_id w" "w_owner w' = w_owner w"
  shows "kept s (set_win s p w')"
  using assms by (auto simp: kept_def set_win_def intro!: exI [of _ "(wins s)(p \<mapsto> w')"])

lemma keptD:
  assumes "kept s s'"
  shows "screen_width s' = screen_width s" "screen_height s' = screen_height s" "current_tags s' = current_tags s" "windows s' = windows s" "panel s' = panel s"
    "active_window s' = active_window s" "wlinks s' = wlinks s" "wins s' q = None \<longleftrightarrow> wins s q = None"
    "wins s q = Some w \<Longrightarrow> \<exists>w'. wins s' q = Some w' \<and> w_flags w' = w_flags w \<and> w_tags w' = w_tags w \<and> w_next w' = w_next w"
proof -
  obtain ws where "same (s\<lparr>wins := ws\<rparr>) s'" using assms by (auto simp: kept_def)
  from sameD [OF this] show "screen_width s' = screen_width s" "screen_height s' = screen_height s" "current_tags s' = current_tags s" "windows s' = windows s" "panel s' = panel s"
    "active_window s' = active_window s" by simp_all
  have k: "map_option (\<lambda>w. (w_flags w, w_tags w, w_next w, w_prev w, w_id w, w_owner w)) (wins s' q) =
       map_option (\<lambda>w. (w_flags w, w_tags w, w_next w, w_prev w, w_id w, w_owner w)) (wins s q)" for q using assms by (simp add: kept_def)
  show "wlinks s' = wlinks s"
  proof
    fix q show "wlinks s' q = wlinks s q" using k [of q] by (cases "wins s' q"; cases "wins s q") (simp_all add: wlinks_def)
  qed
  show "wins s' q = None \<longleftrightarrow> wins s q = None" "wins s q = Some w \<Longrightarrow> \<exists>w'. wins s' q = Some w' \<and> w_flags w' = w_flags w \<and> w_tags w' = w_tags w \<and> w_next w' = w_next w"
    using k [of q] by (cases "wins s' q"; cases "wins s q"; simp)+
qed

lemma kept_tiled: "kept s s' \<Longrightarrow> wins s q \<noteq> None \<Longrightarrow> tiled s' q = tiled s q \<and> fixed s' q = fixed s q"
  using keptD(3,9) [of s s'] by (fastforce simp: tiled_def fixed_def has_flag_def visible_def)

text \<open>One step of the second pass.\<close>

lemma place_step:
  assumes "wm_ok s ps" and "p \<in> set ps" and "wins s p = Some w" and t: "0 \<le> tl_width t" "tl_width t + 2 \<le> screen_width s"
    and y: "0 \<le> y" "y \<le> screen_height s" and c: "\<not> fixed s p \<Longrightarrow> 0 < tl_count t \<and> 12 * tl_count t \<le> tl_height t"
  shows "\<exists>s1 w1. (if \<not> has_flag w CONSTANT_SIZE then
           if tl_count t = 0 then None
           else resize_window bl (set_win s p (w\<lparr>w_x := tl_width t + 2, w_y := y\<rparr>)) p (screen_width s - tl_width t - 2)
             (tl_height t sdiv tl_count t + (if p = tl_last t then tl_height t smod tl_count t else -2)) True
         else Some (set_win s p (w\<lparr>w_x := tl_width t + 2, w_y := y\<rparr>))) = Some s1 \<and>
      same (set_win s p w1) s1 \<and> wm_ok s1 ps \<and> kept s s1 \<and>
      w_x w1 = tl_width t + 2 \<and> w_y w1 = y \<and> w_next w1 = w_next w \<and> 0 \<le> w_height w1 \<and> w_height w1 + 2 = cost s t p"
proof -
  let ?w = "w\<lparr>w_x := tl_width t + 2, w_y := y\<rparr>"
  let ?s = "set_win s p ?w"
  have on: "on_screen s w" using assms(1-3) by (auto simp: wm_ok_def)
  then have "on_screen s ?w" using t y by (auto simp: on_screen_def split: option.splits)
  then have o: "wm_ok ?s ps" using wm_ok_set [OF assms(1,3), of ?w] by simp
  have wp: "wins ?s p = Some ?w" by (simp add: set_win_def)
  have f: "fixed s p \<longleftrightarrow> has_flag w CONSTANT_SIZE" using assms(3) by (simp add: fixed_def)
  show ?thesis
  proof (cases "fixed s p")
    case True
    then show ?thesis using o f on assms(3) kept_set [OF assms(3), of ?w] by (auto simp: cost_def on_screen_def intro!: exI [of _ ?w])
  next
    case False
    let ?c = "tl_count t" and ?h = "tl_height t"
    let ?b = "?h sdiv ?c + (if p = tl_last t then ?h smod ?c else -2)"
    have c': "0 < ?c" "12 * ?c \<le> ?h" "0 \<le> ?h" using c [OF False] by auto
    then have d: "12 \<le> ?h div ?c" "0 \<le> ?h mod ?c" using zdiv_mono1 [of "12 * ?c" ?h ?c] by auto
    have e: "?h sdiv ?c = ?h div ?c" "?h smod ?c = ?h mod ?c"
      using c' by (auto simp: signed_divide_int_def signed_modulo_int_def sgn_if)
    let ?v = "resized ?w (screen_width s - tl_width t - 2) ?b"
    have hv: "w_height ?v = ?b" by (rule resized_size) (use d e in auto)
    obtain s1 where s1: "resize_window bl ?s p (screen_width s - tl_width t - 2) ?b True = Some s1" "same (set_win ?s p ?v) s1" "wm_ok s1 ps"
      using resize_window_ok [OF o assms(2) wp, of bl "screen_width s - tl_width t - 2" ?b True] t y by fastforce
    have "set_win ?s p ?v = set_win s p ?v" by (simp add: set_win_def)
    then have "same (set_win s p ?v) s1" using s1(2) by simp
    moreover have "kept s s1" using kept_trans [OF kept_set [OF assms(3), of ?v] kept_same [OF calculation]] by simp
    ultimately show ?thesis using s1 f False c' hv e d by (auto simp: cost_def intro!: exI [of _ ?v])
  qed
qed

lemma cost_pos:
  assumes "wm_ok s ps" and "p \<in> set ps" and "\<not> fixed s p \<Longrightarrow> 0 < tl_count t \<and> 12 * tl_count t \<le> tl_height t"
  shows "2 \<le> cost s t p"
proof -
  obtain w where w: "wins s p = Some w" using assms(1,2) win_listD(3) unfolding wm_ok_def by blast
  then have "0 \<le> w_height w" using assms(1,2) by (auto simp: wm_ok_def on_screen_def)
  moreover have "12 \<le> tl_height t div tl_count t" if "\<not> fixed s p"
    using assms(3) [OF that] zdiv_mono1 [of "12 * tl_count t" "tl_height t" "tl_count t"] by auto
  ultimately show ?thesis using w assms(3) by (auto simp: cost_def)
qed

lemma place_ok:
  assumes t: "0 \<le> tl_width t" and c: "\<forall>q \<in> set vs. tiled s q \<and> q \<noteq> tl_main t \<and> \<not> fixed s q \<longrightarrow> 0 < tl_count t \<and> 12 * tl_count t \<le> tl_height t"
  shows "dchain (wlinks s) pr p vs \<Longrightarrow> set vs \<subseteq> set ps \<Longrightarrow> wm_ok s ps \<Longrightarrow> tl_width t + 2 \<le> screen_width s \<Longrightarrow> 0 \<le> y \<Longrightarrow>
    y + (\<Sum>q\<leftarrow>filter (\<lambda>q. tiled s q \<and> q \<noteq> tl_main t) vs. cost s t q) \<le> screen_height s + 2 \<Longrightarrow>
    \<exists>s'. tiling_place bl s p t y = Some s' \<and> wm_ok s' ps \<and> kept s s' \<and> (\<forall>q. q \<notin> set vs \<or> \<not> tiled s q \<or> q = tl_main t \<longrightarrow> wins s' q = wins s q) \<and>
      stacked s' (tl_width t + 2) y (filter (\<lambda>q. tiled s q \<and> q \<noteq> tl_main t) vs)"
  using c
proof (induction vs arbitrary: s pr p y)
  case Nil
  then show ?case using kept_same [OF same_refl] by (simp add: tiling_place.simps)
next
  case (Cons q vs)
  from chain_step [OF Cons.prems(1)] obtain w where w: "q = p" "p \<noteq> 0" "wins s p = Some w" "dchain (wlinks s) p (w_next w) vs" by blast
  have nin: "p \<notin> set vs" using dchain_distinct [OF Cons.prems(1)] w(1) by simp
  have al: "wins s v \<noteq> None" if "v \<in> set vs" for v using dchain_alloc [OF w(4) that] by (auto simp: wlinks_def)
  let ?P = "\<lambda>s q. tiled s q \<and> q \<noteq> tl_main t"
  have tp: "tiled s p \<longleftrightarrow> \<not> has_flag w FLOATING \<and> visible s w" using w(3) by (simp add: tiled_def)
  show ?case
  proof (cases "?P s p")
    case False
    have "\<exists>s'. tiling_place bl s (w_next w) t y = Some s' \<and> wm_ok s' ps \<and> kept s s' \<and> (\<forall>q. q \<notin> set vs \<or> \<not> tiled s q \<or> q = tl_main t \<longrightarrow> wins s' q = wins s q) \<and>
        stacked s' (tl_width t + 2) y (filter (?P s) vs)"
      by (rule Cons.IH [OF w(4)]) (use Cons.prems False w(1) in auto)
    then show ?thesis using False w tp by (subst tiling_place.simps) auto
  next
    case True
    have cp: "2 \<le> cost s t v" if "v \<in> set (p # vs)" "?P s v" for v
      by (rule cost_pos [OF Cons.prems(3)]) (use Cons.prems(2,7) that w(1) in auto)
    have "0 \<le> (\<Sum>q\<leftarrow>filter (?P s) vs. cost s t q)" by (rule sum_list_nonneg) (use cp in fastforce)
    then have y: "y \<le> screen_height s" using Cons.prems(6) cp [of p] True w(1) by simp
    obtain s1 w1 where 1: "(if \<not> has_flag w CONSTANT_SIZE then
           if tl_count t = 0 then None
           else resize_window bl (set_win s p (w\<lparr>w_x := tl_width t + 2, w_y := y\<rparr>)) p (screen_width s - tl_width t - 2)
             (tl_height t sdiv tl_count t + (if p = tl_last t then tl_height t smod tl_count t else -2)) True
         else Some (set_win s p (w\<lparr>w_x := tl_width t + 2, w_y := y\<rparr>))) = Some s1"
      and s1: "same (set_win s p w1) s1" "wm_ok s1 ps" "kept s s1"
      and w1: "w_x w1 = tl_width t + 2" "w_y w1 = y" "w_next w1 = w_next w" "0 \<le> w_height w1" "w_height w1 + 2 = cost s t p"
      using place_step [OF Cons.prems(3) _ w(3) t Cons.prems(4,5) y, of bl] Cons.prems(2,7) w(1) True by auto
    have W: "wins s1 = (wins s)(p \<mapsto> w1)" using sameD(1) [OF s1(1)] by (simp add: set_win_def)
    have W': "wins s1 p = Some w1" by (simp add: W)
    have T: "tiled s1 v = tiled s v" "fixed s1 v = fixed s v" "cost s1 t v = cost s t v" if "v \<in> set vs" for v
      using kept_tiled [OF s1(3) al [OF that]] nin that by (auto simp: cost_def W)
    have F: "filter (?P s1) vs = filter (?P s) vs" using T by (intro filter_cong) auto
    have S: "(\<Sum>q\<leftarrow>filter (?P s) vs. cost s1 t q) = (\<Sum>q\<leftarrow>filter (?P s) vs. cost s t q)"
      by (rule arg_cong [of _ _ sum_list], rule map_cong) (use T in auto)
    have "\<exists>s'. tiling_place bl s1 (w_next w) t (y + (w_height w1 + 2)) = Some s' \<and> wm_ok s' ps \<and> kept s1 s' \<and>
        (\<forall>q. q \<notin> set vs \<or> \<not> tiled s1 q \<or> q = tl_main t \<longrightarrow> wins s' q = wins s1 q) \<and> stacked s' (tl_width t + 2) (y + (w_height w1 + 2)) (filter (?P s1) vs)"
      by (rule Cons.IH) (use w(4) Cons.prems keptD(1,2,7) [OF s1(3)] s1(2) w1(4,5) F S T True w(1) in auto)
    then obtain s' where s': "tiling_place bl s1 (w_next w) t (y + (w_height w1 + 2)) = Some s'" "wm_ok s' ps" "kept s1 s'"
      "\<forall>q. q \<notin> set vs \<or> \<not> tiled s1 q \<or> q = tl_main t \<longrightarrow> wins s' q = wins s1 q" "stacked s' (tl_width t + 2) (y + (w_height w1 + 2)) (filter (?P s) vs)"
      unfolding F by blast
    have "tiling_place bl s p t y = Some s'"
      using w tp True 1 W' w1(3) s'(1) by (subst tiling_place.simps) (auto simp: Let_def split: if_splits)
    moreover have "wins s' p = Some w1" using s'(4) nin W by simp
    moreover have "\<forall>v. v \<notin> set (q # vs) \<or> \<not> tiled s v \<or> v = tl_main t \<longrightarrow> wins s' v = wins s v"
      using s'(4) W T True w(1) by (metis fun_upd_other list.set_intros(1,2))
    ultimately show ?thesis using s' kept_trans [OF s1(3) s'(3)] w1 True w(1) by (auto simp: add.assoc)
  qed
qed

section \<open>The active window\<close>

lemma window_at_ok: "dchain (wlinks s) pr p ps \<Longrightarrow> \<exists>q. window_at s p f = Some q \<and> (q = f \<or> q \<in> set ps)"
proof (induction ps arbitrary: pr p f)
  case Nil
  then show ?case by (simp add: window_at.simps)
next
  case (Cons q ps)
  from chain_step [OF Cons.prems] obtain w where w: "q = p" "p \<noteq> 0" "wins s p = Some w" "dchain (wlinks s) p (w_next w) ps" by blast
  show ?case using Cons.IH [OF w(4)] w(1-3) by (subst window_at.simps) fastforce
qed

lemma wm_ok_active: "wm_ok s ps \<Longrightarrow> a = 0 \<or> a \<in> set ps \<Longrightarrow> wm_ok (s\<lparr>active_window := a\<rparr>) ps"
proof -
  assume h: "wm_ok s ps" "a = 0 \<or> a \<in> set ps"
  have "wlinks (s\<lparr>active_window := a\<rparr>) = wlinks s" by (simp add: wlinks_def fun_eq_iff)
  then show ?thesis using h by (auto simp: wm_ok_def win_list_def screen_ok_def on_screen_def)
qed

lemma decorate_ok: "wm_ok s ps \<Longrightarrow> a = 0 \<or> a \<in> set ps \<Longrightarrow> \<exists>s'. (if a \<noteq> 0 then update_decorations bl s a else Some s) = Some s' \<and> same s s'"
proof (cases "a = 0")
  case False
  assume h: "wm_ok s ps" "a = 0 \<or> a \<in> set ps"
  then obtain w where "wins s a = Some w" using win_listD(3) False unfolding wm_ok_def by blast
  from update_decorations_ok [OF h(1) this] show ?thesis using False by simp
qed simp

lemma activate_window_ok:
  assumes "wm_ok s ps"
  shows "\<exists>s' a. activate_window bl s = Some s' \<and> same (s\<lparr>active_window := a\<rparr>) s' \<and> wm_ok s' ps"
proof -
  have ac: "active_window s = 0 \<or> active_window s \<in> set ps" using assms by (simp add: wm_ok_def)
  have "dchain (wlinks s) 0 (windows s) ps" using assms by (simp add: wm_ok_def win_list_def)
  from window_at_ok [OF this, of 0] obtain a where a: "window_at s (windows s) 0 = Some a" "a = 0 \<or> a \<in> set ps" by blast
  let ?s = "s\<lparr>active_window := a\<rparr>"
  note o = wm_ok_active [OF assms a(2)]
  obtain s1 where 1: "(if active_window s \<noteq> 0 then update_decorations bl ?s (active_window s) else Some ?s) = Some s1" "same ?s s1"
    using decorate_ok [OF o ac] by blast
  note o1 = wm_ok_same [OF 1(2) o]
  have "active_window s1 = a" using sameD(4) [OF 1(2)] by simp
  moreover from decorate_ok [OF o1 a(2)] obtain s2 where 2: "(if a \<noteq> 0 then update_decorations bl s1 a else Some s1) = Some s2" "same s1 s2" by blast
  ultimately have "active_window s \<noteq> a \<Longrightarrow> activate_window bl s = Some s2" "active_window s = a \<Longrightarrow> activate_window bl s = Some ?s"
    using a(1) 1(1) by (auto simp: activate_window_def Let_def)
  then show ?thesis using same_trans [OF 1(2) 2(2)] wm_ok_same [OF 2(2) o1] o same_refl by blast
qed

section \<open>Tiling\<close>

definition tiles :: "wm \<Rightarrow> ptr list \<Rightarrow> ptr list" where
  "tiles s ps = filter (tiled s) ps"

lemma tiles_cong: "wins s' = wins s \<Longrightarrow> current_tags s' = current_tags s \<Longrightarrow> tiles s' ps = tiles s ps"
  by (simp add: tiles_def tiled_def [abs_def] visible_def)

definition panel_rows :: "wm \<Rightarrow> int" where
  "panel_rows s = (if panel s = 0 then 0 else w_height (win s (panel s)) + 2)"

text \<open>The windows fit: windows of constant size are not too wide, and all but the first have enough height together, the others with at least 12 rows each.\<close>

definition fits :: "wm \<Rightarrow> ptr list \<Rightarrow> bool" where
  "fits s ps \<longleftrightarrow> 12 \<le> screen_width s \<and> (\<forall>p \<in> set (tiles s ps). fixed s p \<longrightarrow> w_width (win s p) + 2 \<le> screen_width s) \<and>
     panel_rows s + (\<Sum>p\<leftarrow>tl (tiles s ps). if fixed s p then w_height (win s p) + 2 else 12) \<le> screen_height s"

definition frames_apart :: "window \<Rightarrow> window \<Rightarrow> bool" where
  "frames_apart v w \<longleftrightarrow> w_x v + w_width v < w_x w - 1 \<or> w_x w + w_width w < w_x v - 1 \<or> w_y v + w_height v < w_y w - 1 \<or> w_y w + w_height w < w_y v - 1"

lemma stacked_in: "stacked s x y qs \<Longrightarrow> q \<in> set qs \<Longrightarrow> \<exists>w. wins s q = Some w \<and> w_x w = x \<and> y \<le> w_y w"
proof (induction qs arbitrary: y)
  case (Cons p qs)
  then show ?case by (cases "q = p") fastforce+
qed simp

lemma stacked_apart:
  "stacked s x y qs \<Longrightarrow> p \<in> set qs \<Longrightarrow> q \<in> set qs \<Longrightarrow> p \<noteq> q \<Longrightarrow> frames_apart (win s p) (win s q)"
proof (induction qs arbitrary: y)
  case (Cons r qs)
  from Cons.prems(1) obtain w where w: "wins s r = Some w" "w_y w = y" "stacked s x (y + w_height w + 2) qs" by auto
  have "frames_apart w (win s v) \<and> frames_apart (win s v) w" if "v \<in> set qs" for v
    using stacked_in [OF w(3) that] w(2) by (auto simp: frames_apart_def)
  then show ?case using Cons.IH [OF w(3)] Cons.prems(2-4) w(1) by auto
qed simp

lemma total_cost:
  assumes "distinct N" and "c = int (length N)" and "0 < c"
  shows "(\<Sum>q\<leftarrow>N. h div c + (if q = last N then h mod c + 2 else 0)) = h + 2"
proof -
  have ne: "N \<noteq> []" using assms(2,3) by auto
  then obtain M l where N: "N = M @ [l]" by (metis rev_exhaust)
  have "l \<notin> set M" using assms(1) N by simp
  then have "(\<Sum>q\<leftarrow>M. h div c + (if q = l then h mod c + 2 else 0)) = int (length M) * (h div c)"
    by (induction M) (auto simp: algebra_simps)
  then have "(\<Sum>q\<leftarrow>N. h div c + (if q = last N then h mod c + 2 else 0)) = int (length N) * (h div c) + h mod c + 2" by (simp add: N algebra_simps)
  then show ?thesis using assms(2) by simp
qed

lemma tiles_split:
  assumes "tiles s ps = m # os" and "distinct ps"
  shows "tiled s m" and "m \<in> set ps" and "m \<notin> set os" and "distinct os" and "set os \<subseteq> set ps" and "\<forall>q \<in> set os. tiled s q"
    and "filter (\<lambda>q. tiled s q \<and> q \<noteq> m) ps = os"
proof -
  have h: "filter (tiled s) ps = m # os" using assms(1) by (simp add: tiles_def)
  have st: "set (m # os) = set ps \<inter> {q. tiled s q}" using arg_cong [OF h, of set] by auto
  then show "tiled s m" "m \<in> set ps" "set os \<subseteq> set ps" "\<forall>q \<in> set os. tiled s q" by auto
  have d: "distinct (m # os)" using distinct_filter [OF assms(2), of "tiled s"] h by simp
  then show "m \<notin> set os" "distinct os" by simp_all
  have "filter (\<lambda>q. tiled s q \<and> q \<noteq> m) ps = filter (\<lambda>q. q \<noteq> m) (filter (tiled s) ps)" by (simp add: conj_commute)
  also have "\<dots> = os" using d h by (auto simp: filter_id_conv)
  finally show "filter (\<lambda>q. tiled s q \<and> q \<noteq> m) ps = os" .
qed

lemma scan_result:
  assumes "tiles s ps = m # os" and "distinct ps" and "0 \<notin> set ps" and "tl_main t = 0" and "\<not> tl_others t" and "tl_count t = 0"
  defines "N \<equiv> filter (\<lambda>p. \<not> fixed s p) os" and "t' \<equiv> scan s ps t"
  shows "tl_main t' = m" and "tl_others t' = (os \<noteq> [])" and "tl_height t' = tl_height t - (\<Sum>p\<leftarrow>filter (fixed s) os. w_height (win s p) + 2)"
    and "tl_count t' = int (length N)" and "N \<noteq> [] \<Longrightarrow> tl_last t' = last N" and "tl_width t' \<le> tl_width t"
proof -
  note T = tiles_split [OF assms(1,2)]
  have "m \<noteq> 0" using T(2) assms(3) by auto
  have "t' = scan s (m # os) t" using scan_tiled [of s ps t] assms(1) by (simp add: t'_def tiles_def)
  then have "t' = scan s os (t\<lparr>tl_main := m\<rparr>)" using T(1) assms(4) by (simp add: scan_def tiling_step_def tiled_def)
  then show "tl_main t' = m" "tl_others t' = (os \<noteq> [])" "tl_height t' = tl_height t - (\<Sum>p\<leftarrow>filter (fixed s) os. w_height (win s p) + 2)"
    "tl_count t' = int (length N)" "N \<noteq> [] \<Longrightarrow> tl_last t' = last N" "tl_width t' \<le> tl_width t"
    using scan_others [of os s "t\<lparr>tl_main := m\<rparr>"] T(3,6) assms(5,6) \<open>m \<noteq> 0\<close> by (auto simp: N_def)
qed

lemma sum_split: "(\<Sum>q\<leftarrow>xs. if F q then f q else g q) = (\<Sum>q\<leftarrow>filter F xs. f q) + (\<Sum>q\<leftarrow>filter (\<lambda>q. \<not> F q) xs. g q)" for f g :: "_ \<Rightarrow> int"
  by (induction xs) auto

lemma budget:
  assumes "distinct os" and "y + (\<Sum>p\<leftarrow>os. if fixed s p then w_height (win s p) + 2 else 12) \<le> h"
    and "tl_height t = h - (\<Sum>p\<leftarrow>filter (fixed s) os. w_height (win s p) + 2) - y" and "tl_count t = int (length (filter (\<lambda>p. \<not> fixed s p) os))"
    and "filter (\<lambda>p. \<not> fixed s p) os \<noteq> [] \<Longrightarrow> tl_last t = last (filter (\<lambda>p. \<not> fixed s p) os)"
  shows "y + (\<Sum>q\<leftarrow>os. cost s t q) \<le> h + 2" and "12 * tl_count t \<le> tl_height t"
proof -
  let ?N = "filter (\<lambda>p. \<not> fixed s p) os" and ?F = "\<Sum>p\<leftarrow>filter (fixed s) os. w_height (win s p) + 2"
  have "(\<Sum>p\<leftarrow>os. if fixed s p then w_height (win s p) + 2 else 12) = ?F + 12 * int (length ?N)"
    unfolding sum_split by (simp add: sum_list_triv)
  then have b: "y + ?F + 12 * int (length ?N) \<le> h" using assms(2) by simp
  then show "12 * tl_count t \<le> tl_height t" using assms(3,4) by simp
  have c: "(\<Sum>q\<leftarrow>os. cost s t q) = ?F + (\<Sum>q\<leftarrow>?N. tl_height t div tl_count t + (if q = tl_last t then tl_height t mod tl_count t + 2 else 0))"
    unfolding cost_def by (rule sum_split)
  show "y + (\<Sum>q\<leftarrow>os. cost s t q) \<le> h + 2"
  proof (cases "?N = []")
    case True
    then show ?thesis using b c by simp
  next
    case False
    then have "(\<Sum>q\<leftarrow>?N. tl_height t div tl_count t + (if q = tl_last t then tl_height t mod tl_count t + 2 else 0)) = tl_height t + 2"
      using total_cost [of ?N "tl_count t" "tl_height t"] assms(1,4,5) by simp
    then show ?thesis using c assms(3) by simp
  qed
qed

lemma place_main:
  assumes "wm_ok s ps" and "m \<in> set ps" and "wins s m = Some w" and y: "0 \<le> y" "y \<le> screen_height s"
    and t: "10 \<le> tl_width t" "tl_width t + 2 \<le> screen_width s" and f: "fixed s m \<Longrightarrow> w_width w + 2 \<le> screen_width s" and "12 \<le> screen_width s"
  shows "\<exists>s1 t1 w1. (if has_flag w CONSTANT_SIZE then Some (set_win s m (w\<lparr>w_x := 0, w_y := y\<rparr>), t\<lparr>tl_width := w_width w\<rparr>)
         else do {
           s \<leftarrow> resize_window bl (set_win s m (w\<lparr>w_x := 0, w_y := y\<rparr>)) m (if tl_others t then tl_width t else screen_width s) (tl_height t) True;
           Some (s, t)
         }) = Some (s1, t1) \<and> wm_ok s1 ps \<and> kept s s1 \<and> wins s1 = (wins s)(m \<mapsto> w1) \<and> w_x w1 = 0 \<and>
      t1 = t\<lparr>tl_width := tl_width t1\<rparr> \<and> 0 \<le> tl_width t1 \<and> tl_width t1 + 2 \<le> screen_width s \<and> (tl_others t \<longrightarrow> w_width w1 = tl_width t1)"
proof -
  let ?w = "w\<lparr>w_x := 0, w_y := y\<rparr>"
  let ?s = "set_win s m ?w"
  have on: "on_screen s w" using assms(1-3) by (auto simp: wm_ok_def)
  then have "on_screen s ?w" using y assms(9) by (auto simp: on_screen_def split: option.splits)
  then have o: "wm_ok ?s ps" using wm_ok_set [OF assms(1,3), of ?w] by simp
  have k: "kept s ?s" using kept_set [OF assms(3), of ?w] by simp
  have fx: "fixed s m \<longleftrightarrow> has_flag w CONSTANT_SIZE" using assms(3) by (simp add: fixed_def)
  show ?thesis
  proof (cases "fixed s m")
    case True
    then show ?thesis using o k f on fx by (auto simp: on_screen_def)
  next
    case False
    let ?a = "if tl_others t then tl_width t else screen_width s"
    let ?v = "resized ?w ?a (tl_height t)"
    obtain s1 where s1: "resize_window bl ?s m ?a (tl_height t) True = Some s1" "same (set_win ?s m ?v) s1" "wm_ok s1 ps"
      using resize_window_ok [OF o assms(2), of ?w bl ?a "tl_height t" True] y by fastforce
    have e: "set_win ?s m ?v = set_win s m ?v" by (simp add: set_win_def)
    have "wins s1 = (wins s)(m \<mapsto> ?v)" using sameD(1) [OF s1(2)] by simp
    moreover have "kept s s1" using kept_trans [OF kept_set [OF assms(3), of ?v] kept_same] s1(2) unfolding e by simp
    moreover have "w_width ?v = ?a" by (rule resized_size) (use t assms(9) in auto)
    ultimately show ?thesis using s1(1,3) False fx t by (auto intro!: exI [of _ ?v])
  qed
qed

text \<open>The cursor and the size of the screen.\<close>

definition still :: "wm \<Rightarrow> wm \<Rightarrow> bool" where
  "still s s' \<longleftrightarrow> mousex s' = mousex s \<and> mousey s' = mousey s \<and> screen_width s' = screen_width s \<and> screen_height s' = screen_height s"

lemma still_same: "same s s' \<Longrightarrow> still s s'"
  using sameD by (simp add: still_def)

lemma still_kept: "kept s s' \<Longrightarrow> still s s'"
  using sameD(7-10) by (fastforce simp: still_def kept_def)

text \<open>From the second pass to the end, with the windows of the list in place.\<close>

lemma finish_ok:
  assumes "wm_ok s ps"
  shows "\<exists>s'. do { s \<leftarrow> activate_window bl s; update_screen bl s 0 0 (screen_width s) (screen_height s) } = Some s' \<and> wm_ok s' ps \<and> wins s' = wins s \<and>
    current_tags s' = current_tags s \<and> still s s'"
proof -
  obtain s1 a where 1: "activate_window bl s = Some s1" "same (s\<lparr>active_window := a\<rparr>) s1" "wm_ok s1 ps" using activate_window_ok [OF assms] by blast
  obtain s2 where 2: "update_screen bl s1 0 0 (screen_width s1) (screen_height s1) = Some s2" "same s1 s2" using update_screen_ok [OF 1(3)] by blast
  show ?thesis using 1(1) 2(1) wm_ok_same [OF 2(2) 1(3)] sameD [OF 1(2)] sameD [OF 2(2)] by (auto simp: still_def)
qed

lemma place_others:
  assumes "wm_ok s ps" and "tiles s ps = m # os" and "0 \<le> y" and b: "y + (\<Sum>q\<leftarrow>os. cost s t q) \<le> screen_height s + 2" "12 * tl_count t \<le> tl_height t"
    and t: "tl_main t = m" "tl_count t = int (length (filter (\<lambda>p. \<not> fixed s p) os))"
    and 1: "wm_ok s1 ps" "kept s s1" "wins s1 = (wins s)(m \<mapsto> w1)" "w_x w1 = 0" "0 \<le> tl_width t" "tl_width t + 2 \<le> screen_width s" "os \<noteq> [] \<Longrightarrow> w_width w1 = tl_width t"
  shows "\<exists>s'. tiling_place bl s1 (windows s1) t y = Some s' \<and> wm_ok s' ps \<and> kept s s' \<and>
    (\<forall>p \<in> set (m # os). \<forall>q \<in> set (m # os). p \<noteq> q \<longrightarrow> frames_apart (win s' p) (win s' q))"
proof -
  have L: "distinct ps" "dchain (wlinks s1) 0 (windows s1) ps" using assms(1) 1(1) win_listD(1) by (auto simp: wm_ok_def win_list_def)
  note T = tiles_split [OF assms(2) L(1)]
  have al: "wins s q \<noteq> None" if "q \<in> set ps" for q using win_listD(3) assms(1) that unfolding wm_ok_def by blast
  have k: "tiled s1 q = tiled s q" "fixed s1 q = fixed s q" if "q \<in> set ps" for q using kept_tiled [OF 1(2) al [OF that]] by auto
  have F: "filter (\<lambda>q. tiled s1 q \<and> q \<noteq> tl_main t) ps = os" using T(7) k by (simp add: t(1) cong: filter_cong)
  have "cost s1 t q = cost s t q" if "q \<in> set os" for q
    using that T(3,5) k [of q] 1(3) by (auto simp: cost_def)
  then have S: "(\<Sum>q\<leftarrow>os. cost s1 t q) = (\<Sum>q\<leftarrow>os. cost s t q)" by (intro arg_cong [of _ _ sum_list] map_cong) auto
  have c: "\<forall>q \<in> set ps. tiled s1 q \<and> q \<noteq> tl_main t \<and> \<not> fixed s1 q \<longrightarrow> 0 < tl_count t \<and> 12 * tl_count t \<le> tl_height t"
  proof (intro ballI impI)
    fix q assume that: "q \<in> set ps" "tiled s1 q \<and> q \<noteq> tl_main t \<and> \<not> fixed s1 q"
    have "q \<in> set os" using that F by auto
    then have "filter (\<lambda>p. \<not> fixed s p) os \<noteq> []" using that k by (auto simp: filter_empty_conv)
    then show "0 < tl_count t \<and> 12 * tl_count t \<le> tl_height t" using t(2) b(2) by simp
  qed
  have "y + (\<Sum>q\<leftarrow>filter (\<lambda>q. tiled s1 q \<and> q \<noteq> tl_main t) ps. cost s1 t q) \<le> screen_height s1 + 2" unfolding F S using b(1) keptD(2) [OF 1(2)] by simp
  from place_ok [OF 1(5) c L(2) subset_refl 1(1) _ assms(3) this, where bl = bl] obtain s'
    where s': "tiling_place bl s1 (windows s1) t y = Some s'" "wm_ok s' ps" "kept s1 s'" "\<forall>q. q = tl_main t \<longrightarrow> wins s' q = wins s1 q" "stacked s' (tl_width t + 2) y os"
    using 1(6) keptD(1) [OF 1(2)] unfolding F by auto
  have m: "wins s' m = Some w1" using s'(4) t(1) 1(3) by simp
  have "frames_apart w1 (win s' q) \<and> frames_apart (win s' q) w1" if q: "q \<in> set os" for q
  proof -
    have "os \<noteq> []" using q by auto
    from stacked_in [OF s'(5) q] 1(4) 1(7) [OF this] show ?thesis by (auto simp: frames_apart_def)
  qed
  then show ?thesis using s'(1,2) kept_trans [OF 1(2) s'(3)] stacked_apart [OF s'(5)] m by auto
qed

lemma tiling_main:
  assumes "wm_ok s ps" and "fits s ps" and "tiles s ps = m # os"
    and t: "tl_main t = m" "tl_others t = (os \<noteq> [])" "tl_count t = int (length (filter (\<lambda>p. \<not> fixed s p) os))"
      "tl_height t = screen_height s - (\<Sum>p\<leftarrow>filter (fixed s) os. w_height (win s p) + 2) - panel_rows s"
      "filter (\<lambda>p. \<not> fixed s p) os \<noteq> [] \<Longrightarrow> tl_last t = last (filter (\<lambda>p. \<not> fixed s p) os)" "10 \<le> tl_width t" "tl_width t + 2 \<le> screen_width s"
    and y: "y = panel_rows s"
  shows "\<exists>s'. tile_windows bl s t y = Some s' \<and> wm_ok s' ps \<and> tiles s' ps = tiles s ps \<and> still s s' \<and>
    (\<forall>p \<in> set (m # os). \<forall>q \<in> set (m # os). p \<noteq> q \<longrightarrow> frames_apart (win s' p) (win s' q))"
proof -
  have L: "distinct ps" using assms(1) win_listD(1) by (auto simp: wm_ok_def)
  note T = tiles_split [OF assms(3) L]
  have al: "\<exists>w. wins s q = Some w \<and> 0 \<le> w_height w" if "q \<in> set ps" for q
    using win_listD(3) assms(1) that unfolding wm_ok_def on_screen_def by blast
  have f: "12 \<le> screen_width s" "panel_rows s + (\<Sum>p\<leftarrow>os. if fixed s p then w_height (win s p) + 2 else 12) \<le> screen_height s"
      "fixed s m \<Longrightarrow> w_width (win s m) + 2 \<le> screen_width s"
    using assms(2,3) by (auto simp: fits_def)
  have "0 \<le> (\<Sum>p\<leftarrow>os. if fixed s p then w_height (win s p) + 2 else 12)" by (rule sum_list_nonneg) (use al T(5) in fastforce)
  moreover have y0: "0 \<le> panel_rows s" using assms(1) al [of "panel s"] by (auto simp: wm_ok_def panel_rows_def)
  ultimately have y1: "panel_rows s \<le> screen_height s" using f(2) by linarith
  obtain w where w: "wins s m = Some w" using al T(2) by blast
  note b = budget [OF T(4) f(2) t(4,3,5)]
  from place_main [OF assms(1) T(2) w y0 y1 t(6,7) _ f(1), of bl] f(3) w
  obtain s1 t1 w1 where 1: "(if has_flag w CONSTANT_SIZE then Some (set_win s m (w\<lparr>w_x := 0, w_y := panel_rows s\<rparr>), t\<lparr>tl_width := w_width w\<rparr>)
         else do {
           s \<leftarrow> resize_window bl (set_win s m (w\<lparr>w_x := 0, w_y := panel_rows s\<rparr>)) m (if tl_others t then tl_width t else screen_width s) (tl_height t) True;
           Some (s, t)
         }) = Some (s1, t1)"
    and s1: "wm_ok s1 ps" "kept s s1" "wins s1 = (wins s)(m \<mapsto> w1)" "w_x w1 = 0" "t1 = t\<lparr>tl_width := tl_width t1\<rparr>" "0 \<le> tl_width t1" "tl_width t1 + 2 \<le> screen_width s"
      "tl_others t \<longrightarrow> w_width w1 = tl_width t1"
    by fastforce
  have e: "tl_main t1 = tl_main t" "tl_count t1 = tl_count t" "tl_height t1 = tl_height t" "tl_last t1 = tl_last t"
    by (subst s1(5), simp)+
  have c: "cost s t1 = cost s t" by (simp add: cost_def e fun_eq_iff)
  from place_others [OF assms(1,3) y0, of t1 s1 w1 bl] b t(1-3) s1 e c obtain s2 where
    2: "tiling_place bl s1 (windows s1) t1 (panel_rows s) = Some s2" "wm_ok s2 ps" "kept s s2"
      "\<forall>p \<in> set (m # os). \<forall>q \<in> set (m # os). p \<noteq> q \<longrightarrow> frames_apart (win s2 p) (win s2 q)" by auto
  obtain s' where s': "do { s \<leftarrow> activate_window bl s2; update_screen bl s 0 0 (screen_width s) (screen_height s) } = Some s'" "wm_ok s' ps"
    "wins s' = wins s2" "current_tags s' = current_tags s2" "still s2 s'" using finish_ok [OF 2(2)] by blast
  have "tile_windows bl s t y = Some s'"
    unfolding tile_windows_def y t(1) Let_def w bind.bind_lunit set_win_fields 1 prod.case 2(1) using s'(1) .
  moreover have "tiles s2 ps = tiles s ps" using kept_tiled [OF 2(3)] al unfolding tiles_def by (intro filter_cong) fastforce+
  moreover have "still s s'" using still_kept [OF 2(3)] s'(5) by (simp add: still_def)
  ultimately show ?thesis using s'(2,3) 2(4) tiles_cong [OF s'(3,4)] by auto
qed

lemma update_tiling_ok:
  assumes "wm_ok s ps" and "fits s ps"
  shows "\<exists>s'. update_tiling bl s = Some s' \<and> wm_ok s' ps \<and> tiles s' ps = tiles s ps \<and> still s s' \<and>
    (\<forall>p \<in> set (tiles s ps). \<forall>q \<in> set (tiles s ps). p \<noteq> q \<longrightarrow> frames_apart (the (wins s' p)) (the (wins s' q)))"
proof -
  let ?t0 = "\<lparr>tl_main = 0, tl_last = 0, tl_others = False, tl_width = screen_width s sdiv 2, tl_height = screen_height s, tl_count = 0\<rparr>"
  have d: "dchain (wlinks s) 0 (windows s) ps" and L: "distinct ps" "0 \<notin> set ps" using assms(1) win_listD(1,2) by (auto simp: wm_ok_def win_list_def)
  have sc: "tiling_scan s (windows s) ?t0 = Some (scan s ps ?t0)" by (rule tiling_scan_ok [OF d])
  show ?thesis
  proof (cases "tiles s ps")
    case Nil
    then have "scan s ps ?t0 = ?t0" by (intro scan_untiled) (auto simp: tiles_def filter_empty_conv)
    moreover obtain s' where s': "update_screen bl s 0 0 (screen_width s) (screen_height s) = Some s'" "same s s'" using update_screen_ok [OF assms(1)] by blast
    moreover have "tiles s' ps = tiles s ps" by (rule tiles_cong [OF sameD(1,6) [OF s'(2)]])
    ultimately show ?thesis using sc Nil wm_ok_same [OF s'(2) assms(1)] still_same [OF s'(2)] by (simp add: update_tiling_def)
  next
    case (Cons m os)
    define t where "t = scan s ps ?t0"
    note R = scan_result [OF Cons L, of ?t0, simplified, folded t_def]
    define t1 where "t1 = t\<lparr>tl_height := tl_height t - panel_rows s\<rparr>"
    define t2 where "t2 = (if tl_width t1 < 10 then t1\<lparr>tl_width := 10\<rparr> else t1)"
    have "panel s \<noteq> 0 \<Longrightarrow> wins s (panel s) \<noteq> None" using assms(1) win_listD(3) unfolding wm_ok_def by blast
    then have P: "(if panel s \<noteq> 0 then do { q \<leftarrow> wins s (panel s); Some (w_height q + 2, t\<lparr>tl_height := tl_height t - (w_height q + 2)\<rparr>) }
         else Some (0, t)) = Some (panel_rows s, t1)" by (auto simp: panel_rows_def t1_def)
    have "12 \<le> screen_width s" using assms(2) by (simp add: fits_def)
    moreover from this have "screen_width s sdiv 2 + 2 \<le> screen_width s" by (simp add: signed_divide_int_def)
    ultimately have W: "10 \<le> tl_width t2" "tl_width t2 + 2 \<le> screen_width s" using R(6) by (auto simp: t2_def t1_def)
    define y where "y = panel_rows s"
    have e: "tl_main t2 = m" "tl_others t2 = (os \<noteq> [])" "tl_count t2 = int (length (filter (\<lambda>p. \<not> fixed s p) os))"
      "tl_height t2 = screen_height s - (\<Sum>p\<leftarrow>filter (fixed s) os. w_height (win s p) + 2) - panel_rows s"
      "filter (\<lambda>p. \<not> fixed s p) os \<noteq> [] \<Longrightarrow> tl_last t2 = last (filter (\<lambda>p. \<not> fixed s p) os)"
      using R(1-5) by (simp_all add: t2_def t1_def)
    from tiling_main [OF assms Cons e W y_def, of bl] obtain s' where
      s': "tile_windows bl s t2 y = Some s'" "wm_ok s' ps" "tiles s' ps = tiles s ps" "still s s'" "\<forall>p \<in> set (m # os). \<forall>q \<in> set (m # os). p \<noteq> q \<longrightarrow> frames_apart (win s' p) (win s' q)" by blast
    have "m \<noteq> 0" using tiles_split(2) [OF Cons L(1)] L(2) by auto
    then have "update_tiling bl s = tile_windows bl s t2 y"
      unfolding update_tiling_def sc t_def [symmetric] bind.bind_lunit P prod.case t2_def [symmetric] y_def by (simp add: R(1))
    then show ?thesis using s' Cons by auto
  qed
qed


text \<open>Three windows, the second of constant size.\<close>

definition tile :: "u32 \<Rightarrow> u32 \<Rightarrow> ptr \<Rightarrow> ptr \<Rightarrow> window" where
  "tile wid flags nx pv = \<lparr>w_id = wid, w_owner = 7, w_flags = flags, w_x = 0, w_y = 0, w_width = 10, w_height = 10, w_tags = 1, w_bitmap = None, w_next = nx, w_prev = pv\<rparr>"

definition wm0 :: wm where
  "wm0 = \<lparr>wins = [0x10 \<mapsto> tile 2 0 0x20 0, 0x20 \<mapsto> tile 3 2 0x30 0x10, 0x30 \<mapsto> tile 4 0 0 0x20], windows = 0x10, windows_end = 0x30, active_window = 0, panel = 0,
     current_tags = 1, screen = replicate 1200 0, screen_width = 30, screen_height = 40, mousex = 5, mousey = 5, mousebuttons = 0, alreadymoving = False, winkey = False,
     w_events = [], w_syncs = []\<rparr>"

lemma wm0_ok: "wm_ok wm0 [0x10, 0x20, 0x30]" "tiles wm0 [0x10, 0x20, 0x30] = [0x10, 0x20, 0x30]" "fits wm0 [0x10, 0x20, 0x30]"
proof -
  show "wm_ok wm0 [0x10, 0x20, 0x30]" by (auto simp: wm_ok_def screen_ok_def win_list_def wlinks_def on_screen_def wm0_def tile_def)
  show t: "tiles wm0 [0x10, 0x20, 0x30] = [0x10, 0x20, 0x30]" by (simp add: tiles_def tiled_def wm0_def tile_def has_flag_def visible_def)
  show "fits wm0 [0x10, 0x20, 0x30]" unfolding fits_def t by (simp add: panel_rows_def fixed_def wm0_def tile_def has_flag_def)
qed


end
