(* ===== verification/Window_Calls.thy ===== *)
theory Window_Calls
  imports Window_Tiling
begin

text \<open>
  Calls and events of the window manager: only the owner of a window can change it, the cursor stays on the screen, and two ways to make the manager access memory outside of its
  arrays.
\<close>

section \<open>Owners\<close>


section \<open>The cursor\<close>

lemma to_int16_id: "-32768 \<le> i \<Longrightarrow> i < 32768 \<Longrightarrow> to_int16 i = i"
  unfolding to_int16_def by (simp add: sint_sbintrunc' signed_take_bit_int_eq_self)

lemma wm_ok_input: "wm_ok s ps \<Longrightarrow> wm_ok (s\<lparr>mousex := x, mousey := y\<rparr>) ps" "wm_ok s ps \<Longrightarrow> wm_ok (s\<lparr>alreadymoving := b\<rparr>) ps"
proof -
  have "wlinks (s\<lparr>mousex := x, mousey := y\<rparr>) = wlinks s" "wlinks (s\<lparr>alreadymoving := b\<rparr>) = wlinks s" by (simp_all add: wlinks_def fun_eq_iff)
  then show "wm_ok s ps \<Longrightarrow> wm_ok (s\<lparr>mousex := x, mousey := y\<rparr>) ps" "wm_ok s ps \<Longrightarrow> wm_ok (s\<lparr>alreadymoving := b\<rparr>) ps"
    by (simp_all add: wm_ok_def win_list_def screen_ok_def on_screen_def)
qed

lemma fits_cong:
  assumes "wins s' = wins s" and "current_tags s' = current_tags s" and "panel s' = panel s" and "screen_width s' = screen_width s" and "screen_height s' = screen_height s"
  shows "fits s' ps = fits s ps"
  unfolding fits_def tiles_cong [OF assms(1,2)] fixed_def panel_rows_def assms ..

text \<open>The distance to the position that is clipped to the screen.\<close>

lemma clip_step:
  assumes "0 \<le> m" and "m < w" and "w \<le> 32768" and "d1 = (if m + d < 0 then to_int16 (- m) else d)"
  shows "m + (if m + d1 \<ge> w then to_int16 (w - m - 1) else d1) = max 0 (min (w - 1) (m + d))"
proof -
  have "to_int16 (- m) = - m" "to_int16 (w - m - 1) = w - m - 1" using assms(1-3) by (auto intro!: to_int16_id)
  then show ?thesis using assms by auto
qed

text \<open>The part of \<open>mouse_move\<close> behind the motion of the cursor, when no button is down.\<close>

lemma idle_drag: "mousebuttons s = 0 \<Longrightarrow> wins s (active_window s) = Some w \<Longrightarrow> mouse_drag bl s dx dy = Some (s, None)"
  by (simp add: mouse_drag_def Let_def)

lemma mouse_move_ok:
  assumes "wm_ok s ps" and "fits s ps" and "mousebuttons s = 0"
    and "0 \<le> mousex s" "mousex s < screen_width s" "screen_width s \<le> 32768" and "0 \<le> mousey s" "mousey s < screen_height s" "screen_height s \<le> 32768"
  shows "\<exists>s'. mouse_move bl s dx dy = Some s' \<and> wm_ok s' ps \<and> screen_width s' = screen_width s \<and> screen_height s' = screen_height s \<and>
    mousex s' = max 0 (min (screen_width s - 1) (mousex s + to_int16 dx)) \<and> mousey s' = max 0 (min (screen_height s - 1) (mousey s + to_int16 dy))"
proof -
  define d1 e1 where 1: "d1 = (if mousex s + to_int16 dx < 0 then to_int16 (- mousex s) else to_int16 dx)" "e1 = (if mousey s + to_int16 dy < 0 then to_int16 (- mousey s) else to_int16 dy)"
  define d2 e2 where 2: "d2 = (if mousex s + d1 \<ge> screen_width s then to_int16 (screen_width s - mousex s - 1) else d1)"
    "e2 = (if mousey s + e1 \<ge> screen_height s then to_int16 (screen_height s - mousey s - 1) else e1)"
  let ?s = "s\<lparr>mousex := mousex s + d2, mousey := mousey s + e2\<rparr>"
  have m: "mousex s + d2 = max 0 (min (screen_width s - 1) (mousex s + to_int16 dx))" "mousey s + e2 = max 0 (min (screen_height s - 1) (mousey s + to_int16 dy))"
    unfolding 2 by (rule clip_step [OF assms(4-6) 1(1)], rule clip_step [OF assms(7-9) 1(2)])
  obtain s1 a where s1: "activate_window bl ?s = Some s1" "same (?s\<lparr>active_window := a\<rparr>) s1" "wm_ok s1 ps"
    using activate_window_ok [OF wm_ok_input(1) [OF assms(1)]] by blast
  note S = sameD [OF s1(2)]
  obtain b where b: "b = (active_window s1 \<noteq> 0 \<and> (winkey s1 \<or> alreadymoving s1) \<and> active_window s1 \<noteq> panel s1)" by blast
  let ?u = "if b then s1\<lparr>alreadymoving := True\<rparr> else s1"
  have u: "wm_ok ?u ps" "fits ?u ps" "still ?s ?u"
    using s1(3) wm_ok_input(2) fits_cong [of ?u s ps] assms(2) S by (auto simp: still_def)
  have "active_window s1 \<noteq> 0 \<Longrightarrow> \<exists>w. wins s1 (active_window s1) = Some w" using s1(3) win_listD(3) unfolding wm_ok_def by blast
  then obtain tl where tl: "mouse_grab bl s1 d2 e2 = Some (?u, None, tl)"
    using b idle_drag [of "s1\<lparr>alreadymoving := True\<rparr>"] S(11) assms(3) by (cases b) (auto simp: mouse_grab_def Let_def)
  obtain s' where s': "(if tl then update_tiling bl ?u else update_screen bl ?u (mousex s + d2 - (if d2 > 0 then d2 else 0)) (mousey s + e2 - (if e2 > 0 then e2 else 0))
      (mousex s + d2 + 3 + abs d2) (mousey s + e2 + 3 + abs e2)) = Some s'" "wm_ok s' ps" "still ?u s'"
  proof (cases tl)
    case True
    then show ?thesis using that update_tiling_ok [OF u(1,2), of bl] by auto
  next
    case False
    obtain t where "update_screen bl ?u (mousex s + d2 - (if d2 > 0 then d2 else 0)) (mousey s + e2 - (if e2 > 0 then e2 else 0))
      (mousex s + d2 + 3 + abs d2) (mousey s + e2 + 3 + abs e2) = Some t" "same ?u t" using update_screen_ok [OF u(1)] by blast
    then show ?thesis using that [of t] False wm_ok_same [OF _ u(1)] still_same by auto
  qed
  have "mouse_move bl s dx dy = Some s'"
    using s1(1) tl s'(1) assms(3) unfolding mouse_move_def Let_def 1 [symmetric] 2 [symmetric] by (cases tl) (simp_all split del: if_split)
  then show ?thesis using s'(2,3) u(3) m by (simp add: still_def)
qed

text \<open>
  The cursor stays on the screen. When the mouse moves while no button is down, on a screen of at most 32768 pixels in each direction and with windows that fit,
  \<open>mouse_move\<close> returns and keeps the invariant, and the cursor moves by the distance, taken as 16 bits, but not over the border of the screen.\<close>

theorem mouse_move_clips:
  assumes "wm_ok s ps" and "fits s ps" and "mousebuttons s = 0"
    and "0 \<le> mousex s" and "mousex s < screen_width s" and "screen_width s \<le> 32768" and "0 \<le> mousey s" and "mousey s < screen_height s" and "screen_height s \<le> 32768"
  shows "\<exists>s'. mouse_move bl s dx dy = Some s' \<and> wm_ok s' ps \<and> screen_width s' = screen_width s \<and> screen_height s' = screen_height s \<and>
    mousex s' = max 0 (min (screen_width s - 1) (mousex s + to_int16 dx)) \<and> mousey s' = max 0 (min (screen_height s - 1) (mousey s + to_int16 dy))"
  by (rule mouse_move_ok [OF assms])

section \<open>Accesses outside of arrays\<close>

lemma fill_ok:
  assumes "screen_ok s" and "clipped s x1 y1 x2 y2"
  shows "\<exists>s1. for_list (\<lambda>x. for_list (\<lambda>y s. put_pixel s x y COLOR_BLACK) [y1..y2 - 1]) [x1..x2 - 1] s = Some s1 \<and> same s s1"
proof (intro for_same)
  fix x s' y s'' assume "x \<in> set [x1..x2 - 1]" "y \<in> set [y1..y2 - 1]" and h: "same s s'" "same s' s''"
  moreover have s: "same s s''" using h same_trans by blast
  ultimately show "\<exists>t. put_pixel s'' x y COLOR_BLACK = Some t \<and> same s'' t"
    using put_pixel_ok [OF screen_ok_same [OF s assms(1)], of x y] sameD(7,8) [OF s] assms(2) by (auto simp: clipped_def)
qed

text \<open>When the lowest window cannot be drawn, the screen cannot be updated.\<close>

lemma update_fails:
  assumes "screen_ok s" and "clipped s x1 y1 x2 y2" and "x1 \<le> x2" and "y1 \<le> y2" and "windows s \<noteq> 0"
    and "\<And>t. same s t \<Longrightarrow> draw_window bl t (windows s) x1 y1 x2 y2 = None"
  shows "update_screen bl s x1 y1 x2 y2 = None"
proof -
  obtain s1 where s1: "for_list (\<lambda>x. for_list (\<lambda>y s. put_pixel s x y COLOR_BLACK) [y1..y2 - 1]) [x1..x2 - 1] s = Some s1" "same s s1"
    using fill_ok [OF assms(1,2)] by blast
  have "draw_from bl s1 (windows s1) x1 y1 x2 y2 = None"
    using assms(5,6) s1(2) sameD(2) [OF s1(2)] by (subst draw_from.simps) simp
  then show ?thesis using s1(1) assms(2-4) by (auto simp: update_screen_def clipped_def)
qed

text \<open>A window that lies below the screen makes every update of the screen write outside of it.\<close>

theorem update_below_screen:
  assumes "screen_ok s" and "0 < screen_width s" and "windows s \<noteq> 0" and "wins s (windows s) = Some w" and "visible s w" and "w_bitmap w = None"
    and "screen_height s < w_y w" and "0 \<le> w_width w" and "w_x w \<le> screen_width s" and "0 \<le> w_x w + w_width w"
  shows "update_screen bl s 0 0 (screen_width s) (screen_height s) = None"
proof (rule update_fails)
  fix t assume t: "same s t"
  note S = sameD [OF t]
  show "draw_window bl t (windows s) 0 0 (screen_width s) (screen_height s) = None"
    by (rule draw_below [OF screen_ok_same [OF t assms(1)]]) (use assms S in \<open>auto simp: clipped_def screen_ok_def visible_def\<close>)
qed (use assms in \<open>auto simp: clipped_def screen_ok_def\<close>)

text \<open>
  The number of bytes of a bitmap wraps: a client that sets the size of its window to 32768 by 32768 pixels can then share a bitmap without any pixels, because the test in \<open>wmanager_share\<close>
  multiplies to 0 in 32 bits. The next update of a part of the screen that shows the window reads outside of the bitmap.\<close>

theorem share_wraps:
  assumes "screen_ok s" and "0 < screen_width s" and "0 < screen_height s" and "win_list s [p]" and "wins s p = Some w" and "w_id w = self" and "w_owner w = RP_PID source"
    and "visible s w" and "w_x w = 0" and "w_y w = 0" and "w_width w = 32768" and "w_height w = 32768"
  shows "\<exists>s'. wmanager_share s self source [] 0 0 = Some (0, s') \<and> update_screen bl s' 0 0 1 1 = None"
proof -
  let ?w = "w\<lparr>w_bitmap := Some []\<rparr>"
  let ?s = "set_win s p ?w"
  have p: "windows s = p" "p \<noteq> 0" using assms(4) by (auto simp: win_list_def)
  have "find_window s self (RP_PID source) = Some p" using find_window_ok [OF assms(4)] assms(5-7) by (simp add: wants_def)
  moreover have "share_bytes w = 0" by (simp add: share_bytes_def assms)
  ultimately have "wmanager_share s self source [] 0 0 = Some (0, ?s)" using assms(5) p(2) by (simp add: wmanager_share_def)
  moreover have "update_screen bl ?s 0 0 1 1 = None"
  proof (rule update_fails)
    fix t assume t: "same ?s t"
    have w: "wins t p = Some ?w" "visible t ?w" using sameD(1,6) [OF t] assms(8) by (simp_all add: visible_def set_win_def)
    have "blit_bitmap bl t [] 0 0 32768 32768 0 0 1 1 = None" by (simp add: blit_bitmap_def pixel_def)
    then show "draw_window bl t (windows ?s) 0 0 1 1 = None" using w p assms(9-12) by (simp add: draw_window_def set_win_def)
  qed (use assms p in \<open>auto simp: clipped_def screen_ok_def set_win_def\<close>)
  ultimately show ?thesis by blast
qed

section \<open>Runs\<close>

lemma wm0_list: "win_list wm0 [0x10, 0x20, 0x30]"
  using wm0_ok(1) by (simp add: wm_ok_def)


theorem mouse_move_clips_witness:
  "\<exists>s'. mouse_move (\<lambda>b c. b) wm0 100 (-3) = Some s' \<and> mousex s' = 29 \<and> mousey s' = 2"
proof -
  have h: "mousebuttons wm0 = 0" "0 \<le> mousex wm0" "mousex wm0 < screen_width wm0" "screen_width wm0 \<le> 32768" "0 \<le> mousey wm0" "mousey wm0 < screen_height wm0" "screen_height wm0 \<le> 32768"
    by (simp_all add: wm0_def)
  have "to_int16 100 = 100" "to_int16 (-3) = -3" by (simp_all add: to_int16_id)
  then show ?thesis using mouse_move_clips [OF wm0_ok(1,3) h, of "\<lambda>b c. b" 100 "-3"] by (auto simp: wm0_def)
qed

theorem window_list_refines_witness:
  "find_window wm0 4 0 = Some 0x30 \<and> (\<exists>s'. bring_to_front wm0 0x10 = Some s' \<and> win_list s' [0x20, 0x30, 0x10])"
  using window_list_refines [OF wm0_list, of 4 0 "0x10"] by (auto simp: wants_def wm0_def tile_def)

theorem update_screen_safe_witness:
  "\<exists>s'. update_screen (\<lambda>b c. b) wm0 (-5) 3 1000 7 = Some s' \<and> length (screen s') = 1200"
  using update_screen_safe [OF wm0_ok(1), of "\<lambda>b c. b" "-5" 3 1000 7] by (auto simp: wm0_def)

definition wm1 :: wm where
  "wm1 = wm0\<lparr>wins := [0x10 \<mapsto> (tile 2 4 0 0)\<lparr>w_width := 32768, w_height := 32768\<rparr>], windows_end := 0x10\<rparr>"

theorem share_wraps_witness:
  "\<exists>s'. wmanager_share wm1 2 7 [] 0 0 = Some (0, s') \<and> update_screen (\<lambda>b c. b) s' 0 0 1 1 = None"
proof -
  let ?w = "(tile 2 4 0 0)\<lparr>w_width := 32768, w_height := 32768\<rparr>"
  have h: "screen_ok wm1" "0 < screen_width wm1" "0 < screen_height wm1" "win_list wm1 [0x10]" "wins wm1 0x10 = Some ?w" "visible wm1 ?w"
    by (simp_all add: wm1_def wm0_def screen_ok_def win_list_def wlinks_def visible_def tile_def)
  show ?thesis using share_wraps [OF h(1-5), of 2 7 "\<lambda>b c. b"] h(6) by (simp add: tile_def RP_PID_def)
qed

theorem update_below_screen_witness:
  "update_screen (\<lambda>b c. b) (wm0\<lparr>screen_height := 0, screen := [], wins := [0x10 \<mapsto> (tile 2 4 0 0)\<lparr>w_y := 5\<rparr>]\<rparr>) 0 0 30 0 = None"
  using update_below_screen [of "wm0\<lparr>screen_height := 0, screen := [], wins := [0x10 \<mapsto> (tile 2 4 0 0)\<lparr>w_y := 5\<rparr>]\<rparr>" "(tile 2 4 0 0)\<lparr>w_y := 5\<rparr>" "\<lambda>b c. b"]
  by (simp add: wm0_def screen_ok_def visible_def tile_def)

end
