(* ===== verification/Glyph_Cache.thy ===== *)
theory Glyph_Cache
  imports Messages_Rep
begin

text \<open>
  The cache of rendered characters of the terminal, \<open>driver/fbterm/draw.c\<close>: a doubly linked list with the most recent bitmap first. The font library, the blending of colours in floating point, the
  frame buffer and the outcomes of \<open>malloc\<close> are parameters.
\<close>

section \<open>State\<close>

record glyph_entry =
  ge_bitmap :: "u32 list"
  ge_ch :: u32
  ge_fg :: u32
  ge_bg :: u32
  ge_prev :: ptr
  ge_next :: ptr

record glyphs =
  gnodes :: "ptr \<Rightarrow> glyph_entry option"
  gcache :: ptr
  glast :: ptr
  cache_size :: u32
  blits :: "(u32 list \<times> int \<times> int) list"

text \<open>The glyph that \<open>FT_Load_Char\<close> renders: rows, width, offsets and coverage.\<close>

record ft_glyph =
  ft_rows :: int
  ft_width :: int
  ft_left :: int
  ft_top :: int
  ft_buffer :: "u8 list"

record font_env =
  f_load :: "u32 \<Rightarrow> ft_glyph option"
  f_blend :: "u8 \<Rightarrow> u32 \<Rightarrow> u32 \<Rightarrow> u32"
  f_size :: int
  f_width :: int
  f_height :: int
  f_node :: "(ptr \<Rightarrow> glyph_entry option) \<Rightarrow> ptr"
  f_room :: "(ptr \<Rightarrow> glyph_entry option) \<Rightarrow> bool"
  f_blit :: "u32 list \<Rightarrow> int \<Rightarrow> int \<Rightarrow> int"

abbreviation (input) max_cache_size :: u32 where "max_cache_size \<equiv> 100"

definition set_glyph :: "glyphs \<Rightarrow> ptr \<Rightarrow> glyph_entry \<Rightarrow> glyphs" where
  "set_glyph g p e = g\<lparr>gnodes := (gnodes g)(p \<mapsto> e)\<rparr>"

section \<open>Rendering\<close>

definition put_dot :: "u32 list \<Rightarrow> int \<Rightarrow> u32 \<Rightarrow> u32 list option" where
  "put_dot bm i c = (if 0 \<le> i \<and> i < int (length bm) then Some (bm[nat i := c]) else None)"

definition render :: "font_env \<Rightarrow> ft_glyph \<Rightarrow> u32 \<Rightarrow> u32 \<Rightarrow> u32 list option" where
  "render env gl fg bg =
     for_list (\<lambda>j. for_list (\<lambda>i bm. do {
         let k = j * ft_width gl + i;
         a \<leftarrow> (if 0 \<le> k \<and> k < int (length (ft_buffer gl)) then Some (ft_buffer gl ! nat k) else None);
         put_dot bm (i + ft_left gl + (j + f_size env - ft_top gl) * f_width env) (f_blend env a fg bg)
       }) [0..ft_width gl - 1]) [0..ft_rows gl - 1] (replicate (nat (f_width env * f_height env)) bg)"

section \<open>Lookup and insertion\<close>

partial_function (option) find_glyph :: "glyphs \<Rightarrow> ptr \<Rightarrow> u32 \<times> u32 \<times> u32 \<Rightarrow> ptr option" where
  "find_glyph g p k = (if p = 0 then Some 0 else do {
     e \<leftarrow> gnodes g p;
     if k = (ge_ch e, ge_fg e, ge_bg e) then Some p else find_glyph g (ge_next e) k
   })"

definition glyph_to_front :: "glyphs \<Rightarrow> ptr \<Rightarrow> glyphs option" where
  "glyph_to_front g p = (if p = gcache g then Some g else do {
     e \<leftarrow> gnodes g p;
     let g = (if p = glast g then g\<lparr>glast := ge_prev e\<rparr> else g);
     v \<leftarrow> gnodes g (ge_prev e);
     let g = set_glyph g (ge_prev e) (v\<lparr>ge_next := ge_next e\<rparr>);
     g \<leftarrow> (if ge_next e \<noteq> 0 then do { n \<leftarrow> gnodes g (ge_next e); Some (set_glyph g (ge_next e) (n\<lparr>ge_prev := ge_prev e\<rparr>)) } else Some g);
     e \<leftarrow> gnodes g p;
     let g = set_glyph g p (e\<lparr>ge_prev := 0, ge_next := gcache g\<rparr>);
     h \<leftarrow> gnodes g (gcache g);
     Some ((set_glyph g (gcache g) (h\<lparr>ge_prev := p\<rparr>))\<lparr>gcache := p\<rparr>)
   })"

definition blit :: "font_env \<Rightarrow> glyphs \<Rightarrow> ptr \<Rightarrow> int \<Rightarrow> int \<Rightarrow> (int \<times> glyphs) option" where
  "blit env g p x y = do { e \<leftarrow> gnodes g p; Some (f_blit env (ge_bitmap e) x y, g\<lparr>blits := blits g @ [(ge_bitmap e, x, y)]\<rparr>) }"

text \<open>A new entry at the front, before its bitmap is drawn, and the removal of the least recent one.\<close>

definition add_glyph :: "glyphs \<Rightarrow> ptr \<Rightarrow> u32 \<times> u32 \<times> u32 \<Rightarrow> glyphs option" where
  "add_glyph g p = (\<lambda>(ch, fg, bg). do {
     let g = set_glyph g p \<lparr>ge_bitmap = [], ge_ch = ch, ge_fg = fg, ge_bg = bg, ge_prev = 0, ge_next = gcache g\<rparr>;
     g \<leftarrow> (if gcache g \<noteq> 0 then do { h \<leftarrow> gnodes g (gcache g); Some (set_glyph g (gcache g) (h\<lparr>ge_prev := p\<rparr>)) } else Some g);
     Some (g\<lparr>gcache := p, glast := (if glast g = 0 then p else glast g), cache_size := cache_size g + 1\<rparr>)
   })"

definition evict_glyph :: "glyphs \<Rightarrow> glyphs option" where
  "evict_glyph g = (if cache_size g > max_cache_size then do {
     l \<leftarrow> gnodes g (glast g);
     let g = g\<lparr>glast := ge_prev l\<rparr>;
     m \<leftarrow> gnodes g (glast g);
     let g = g\<lparr>gnodes := (gnodes g)(ge_next m := None)\<rparr>;
     Some ((set_glyph g (glast g) (m\<lparr>ge_next := 0\<rparr>))\<lparr>cache_size := cache_size g - 1\<rparr>)
   } else Some g)"

definition draw_cell :: "font_env \<Rightarrow> glyphs \<Rightarrow> u32 \<times> u32 \<times> u32 \<Rightarrow> int \<Rightarrow> int \<Rightarrow> (int \<times> glyphs) option" where
  "draw_cell env g = (\<lambda>(ch, fg, bg) x y. do {
     p \<leftarrow> find_glyph g (gcache g) (ch, fg, bg);
     if p \<noteq> 0 then do { g \<leftarrow> glyph_to_front g p; blit env g p x y }
     else case f_load env ch of
       None \<Rightarrow> Some (1, g)
     | Some gl \<Rightarrow> do {
         let p = f_node env (gnodes g);
         if p = 0 \<or> \<not> f_room env (gnodes g) then Some (1, g)
         else do {
           g \<leftarrow> add_glyph g p (ch, fg, bg);
           g \<leftarrow> evict_glyph g;
           e \<leftarrow> gnodes g p;
           bm \<leftarrow> render env gl fg bg;
           blit env (set_glyph g p (e\<lparr>ge_bitmap := bm\<rparr>)) p x y
         }
       }
   })"

section \<open>The cache as a list\<close>

definition gkey :: "glyph_entry \<Rightarrow> u32 \<times> u32 \<times> u32" where
  "gkey e = (ge_ch e, ge_fg e, ge_bg e)"

definition glinks :: "glyphs \<Rightarrow> ptr \<Rightarrow> (ptr \<times> ptr) option" where
  "glinks g p = map_option (\<lambda>e. (ge_next e, ge_prev e)) (gnodes g p)"

definition glyph_list :: "glyphs \<Rightarrow> ptr list \<Rightarrow> bool" where
  "glyph_list g ps \<longleftrightarrow> dchain (glinks g) 0 (gcache g) ps \<and> glast g = (if ps = [] then 0 else last ps) \<and> dom (gnodes g) = set ps"

lemma glyph_listD:
  assumes "glyph_list g ps"
  shows "distinct ps" and "0 \<notin> set ps" and "p \<in> set ps \<Longrightarrow> \<exists>e. gnodes g p = Some e" and "gcache g = (case ps of [] \<Rightarrow> 0 | q # _ \<Rightarrow> q)"
  using dchain_distinct dchain_nonzero dchain_alloc dchain_hd assms unfolding glyph_list_def glinks_def by (blast, blast, fastforce, blast)

text \<open>The stored part of an entry, which the links are not part of.\<close>

definition gcore :: "glyph_entry \<Rightarrow> glyph_entry" where
  "gcore e = e\<lparr>ge_prev := 0, ge_next := 0\<rparr>"

definition gcores :: "glyphs \<Rightarrow> ptr \<Rightarrow> glyph_entry option" where
  "gcores g p = map_option gcore (gnodes g p)"

lemma gcore_links [simp]: "gcore (e\<lparr>ge_prev := a\<rparr>) = gcore e" "gcore (e\<lparr>ge_next := a\<rparr>) = gcore e" "gcore (gcore e) = gcore e"
  by (simp_all add: gcore_def)

lemma gcore_eqD: "gcore e = gcore f \<Longrightarrow> gkey e = gkey f \<and> ge_bitmap e = ge_bitmap f"
  by (cases e, cases f) (simp add: gcore_def gkey_def)

lemma find_glyph_ok:
  "dchain (glinks g) pr p ps \<Longrightarrow> find_glyph g p k = Some (case find (\<lambda>q. \<exists>e. gnodes g q = Some e \<and> gkey e = k) ps of None \<Rightarrow> 0 | Some q \<Rightarrow> q)"
proof (induction ps arbitrary: pr p)
  case Nil
  then show ?case by (simp add: find_glyph.simps)
next
  case (Cons q ps)
  then have "q = p" "p \<noteq> 0" and "\<exists>e. gnodes g p = Some e \<and> dchain (glinks g) p (ge_next e) ps" by (auto simp: glinks_def [of g p])
  then obtain e where "gnodes g p = Some e" "q = p" "p \<noteq> 0" "dchain (glinks g) p (ge_next e) ps" by blast
  then show ?case using Cons.IH by (subst find_glyph.simps) (auto simp: gkey_def)
qed

lemma add_glyph_ok:
  assumes "glyph_list g ps" and "gnodes g p = None" and "p \<noteq> 0"
  shows "\<exists>g'. add_glyph g p k = Some g' \<and> glyph_list g' (p # ps) \<and> cache_size g' = cache_size g + 1 \<and> blits g' = blits g \<and>
    (\<exists>e. gnodes g' p = Some e \<and> gkey e = k) \<and> (\<forall>q. q \<noteq> p \<longrightarrow> gcores g' q = gcores g q)"
proof -
  obtain ch fg bg where k: "k = (ch, fg, bg)" by (cases k)
  let ?e = "\<lparr>ge_bitmap = [], ge_ch = ch, ge_fg = fg, ge_bg = bg, ge_prev = 0, ge_next = gcache g\<rparr>"
  have d: "dchain (glinks g) 0 (gcache g) ps" "p \<notin> set ps" using assms(1,2) by (auto simp: glyph_list_def)
  note L = glyph_listD [OF assms(1)]
  have nh: "gcache g \<noteq> p" using L(4) d(2) assms(3) by (auto split: list.splits)
  let ?ns = "\<lambda>q. if q = p then Some ?e else map_option (\<lambda>e. if q = gcache g then e\<lparr>ge_prev := p\<rparr> else e) (gnodes g q)"
  let ?g = "g\<lparr>gnodes := ?ns, gcache := p, glast := (if glast g = 0 then p else glast g), cache_size := cache_size g + 1\<rparr>"
  have z: "gnodes g 0 = None" using assms(1) L(2) by (auto simp: glyph_list_def)
  have "add_glyph g p k = Some ?g"
  proof (cases "gcache g = 0")
    case True
    have "?ns = (gnodes g)(p \<mapsto> ?e)"
    proof
      fix q show "?ns q = ((gnodes g)(p \<mapsto> ?e)) q" using z True by (cases "gnodes g q") auto
    qed
    then show ?thesis using True by (simp add: add_glyph_def k set_glyph_def)
  next
    case False
    then have "gcache g \<in> set ps" using L(4) by (auto split: list.splits)
    then obtain h where h: "gnodes g (gcache g) = Some h" using L(3) by blast
    have "?ns = (gnodes g)(p \<mapsto> ?e, gcache g \<mapsto> h\<lparr>ge_prev := p\<rparr>)"
    proof
      fix q show "?ns q = ((gnodes g)(p \<mapsto> ?e, gcache g \<mapsto> h\<lparr>ge_prev := p\<rparr>)) q" using nh h by (cases "gnodes g q") auto
    qed
    then show ?thesis using False h nh by (simp add: add_glyph_def k set_glyph_def)
  qed
  moreover have "dchain (glinks ?g) 0 p (p # ps)"
    by (rule dchain_push [OF d(1,2) assms(3)]) (use d(2) in \<open>auto simp: glinks_def option.map_comp comp_def intro!: option.map_cong0\<close>)
  moreover have "glast g = 0 \<longleftrightarrow> ps = []" using assms(1) L(2) last_in_set [of ps] unfolding glyph_list_def by metis
  then have "glast ?g = last (p # ps)" using assms(1) by (auto simp: glyph_list_def)
  moreover have "dom ?ns = insert p (set ps)" using assms(1) by (auto simp: glyph_list_def dom_def)
  ultimately show ?thesis by (auto simp: glyph_list_def gcores_def gkey_def k option.map_comp comp_def intro!: option.map_cong0)
qed

text \<open>The links of a list without one of its cells.\<close>

lemma glyph_around:
  assumes "glyph_list g (us @ p # vs)" and "gnodes g p = Some e"
  shows "ge_prev e = (if us = [] then 0 else last us)" and "ge_next e = (case vs of [] \<Rightarrow> 0 | v # _ \<Rightarrow> v)"
proof -
  have d: "dchain (glinks g) 0 (gcache g) (us @ p # vs)" using assms(1) by (simp add: glyph_list_def)
  have n: "glinks g p = Some (ge_next e, ge_prev e)" using assms(2) by (simp add: glinks_def)
  show "ge_next e = (case vs of [] \<Rightarrow> 0 | v # _ \<Rightarrow> v)" by (rule dchain_next [OF d n])
  show "ge_prev e = (if us = [] then 0 else last us)"
    using dchain_pull [OF d glyph_listD(2) [OF assms(1)] n, of "\<lambda>z. map_option (\<lambda>(a, b). (if z = ge_prev e then ge_next e else a, if z = ge_next e then ge_prev e else b)) (glinks g z)"]
    by simp
qed

lemma evict_glyph_ok:
  assumes "glyph_list g (us @ [l])" and "us \<noteq> []" and "cache_size g > max_cache_size"
  shows "\<exists>g'. evict_glyph g = Some g' \<and> glyph_list g' us \<and> cache_size g' = cache_size g - 1 \<and> blits g' = blits g \<and> (\<forall>q. q \<noteq> l \<longrightarrow> gcores g' q = gcores g q)"
proof -
  note L = glyph_listD [OF assms(1)]
  obtain el where el: "gnodes g l = Some el" using L(3) by auto
  have pe: "ge_prev el = last us" "ge_next el = 0" using glyph_around [OF assms(1) el] assms(2) by simp_all
  obtain m ms where us: "us = ms @ [m]" using assms(2) by (metis rev_exhaust)
  obtain em where em: "gnodes g m = Some em" using L(3) us by auto
  have nx: "ge_next em = l" using glyph_around(2) [of g ms m "[l]" em] assms(1) em us by simp
  have ml: "m \<noteq> l" "m \<noteq> 0" "l \<notin> set us" using L(1,2) us by auto
  have gl: "glast g = l" using assms(1) by (simp add: glyph_list_def)
  let ?ns = "(gnodes g)(l := None, m \<mapsto> em\<lparr>ge_next := 0\<rparr>)"
  let ?g = "g\<lparr>gnodes := ?ns, glast := m, cache_size := cache_size g - 1\<rparr>"
  have ev: "evict_glyph g = Some ?g" using assms(3) el em pe us nx gl ml by (simp add: evict_glyph_def set_glyph_def)
  have d: "dchain (glinks g) 0 (gcache g) (us @ l # [])" using assms(1) by (simp add: glyph_list_def)
  have "glinks g l = Some (0, last us)" using el pe by (simp add: glinks_def)
  moreover have "glinks ?g z = map_option (\<lambda>(a, b). (if z = last us then 0 else a, if z = 0 then last us else b)) (glinks g z)" if "z \<in> set us \<union> set []" for z
    using that us em ml L(2) by (cases "gnodes g z") (auto simp: glinks_def)
  ultimately have "dchain (glinks ?g) 0 (gcache g) us" using dchain_pull [OF d L(2)] assms(2) by fastforce
  moreover have "dom ?ns = set us" using assms(1) em ml us by (auto simp: glyph_list_def dom_def)
  ultimately have "glyph_list ?g us" using us by (simp add: glyph_list_def)
  then show ?thesis using ev em ml by (auto simp: gcores_def)
qed

lemma glyph_to_front_ok:
  assumes "glyph_list g ps" and "p \<in> set ps"
  shows "\<exists>g'. glyph_to_front g p = Some g' \<and> glyph_list g' (p # remove1 p ps) \<and> cache_size g' = cache_size g \<and> blits g' = blits g \<and> gcores g' = gcores g"
proof (cases "p = gcache g")
  case True
  then have "p # remove1 p ps = ps" using glyph_listD(4) [OF assms(1)] assms(2) by (auto split: list.splits)
  then show ?thesis using True assms(1) by (simp add: glyph_to_front_def)
next
  case False
  obtain us vs where ps: "ps = us @ p # vs" using assms(2) by (auto simp: in_set_conv_decomp)
  note L = glyph_listD [OF assms(1)]
  have us: "us \<noteq> []" using False L(4) ps by auto
  then have hd: "gcache g = hd us" using L(4) ps by (cases us) auto
  obtain e where e: "gnodes g p = Some e" using L(3) assms(2) by blast
  have a: "ge_prev e = last us" "ge_next e = (case vs of [] \<Rightarrow> 0 | v # _ \<Rightarrow> v)" using glyph_around [OF assms(1) [unfolded ps] e] us by simp_all
  have m: "last us \<in> set us" "hd us \<in> set us" "p \<notin> set us" "p \<notin> set vs" "set us \<inter> set vs = {}" "0 \<notin> set us" "0 \<notin> set vs" "p \<noteq> 0" using us L(1,2) ps by auto
  obtain v where v: "gnodes g (last us) = Some v" using L(3) m(1) ps by auto
  have nx: "ge_next e \<noteq> 0 \<Longrightarrow> ge_next e \<in> set vs" using a(2) by (auto split: list.splits)
  define n1 where "n1 = (gnodes g)(last us \<mapsto> v\<lparr>ge_next := ge_next e\<rparr>)"
  define n2 where "n2 = (if ge_next e \<noteq> 0 then n1(ge_next e \<mapsto> (the (gnodes g (ge_next e)))\<lparr>ge_prev := last us\<rparr>) else n1)"
  define n3 where "n3 = n2(p \<mapsto> e\<lparr>ge_prev := 0, ge_next := hd us\<rparr>)"
  define n4 where "n4 = n3(hd us \<mapsto> (the (n3 (hd us)))\<lparr>ge_prev := p\<rparr>)"
  have nu: "ge_next e \<notin> set us" by (cases "ge_next e = 0") (use nx m in auto)
  have nl: "ge_next e \<noteq> 0 \<longrightarrow> (\<exists>n. gnodes g (ge_next e) = Some n)" using L(3) nx ps by auto
  have ne: "ge_next e \<noteq> last us" "ge_next e \<noteq> p" "hd us \<noteq> p" "last us \<noteq> p" "hd us \<noteq> ge_next e"
    using m nx nu by metis+
  obtain h where h: "gnodes g (hd us) = Some h" using L(3) m(2) ps by auto
  have al: "\<exists>x. gnodes g q = Some x" if "q \<in> set us \<union> set vs" for q using L(3) that ps by auto
  let ?l = "\<lambda>n q. map_option (\<lambda>e. (ge_next e, ge_prev e)) (n q)"
  have "?l n2 q = map_option (\<lambda>(a, b). (if q = last us then ge_next e else a, if q = ge_next e then last us else b)) (glinks g q)" if "q \<in> set us \<union> set vs" for q
    using al [OF that] that v m nl ne by (auto simp: n2_def n1_def glinks_def)
  moreover have "glinks g p = Some (ge_next e, last us)" using e a(1) by (simp add: glinks_def)
  ultimately have d2: "dchain (?l n2) 0 (gcache g) (us @ vs)"
    using dchain_pull [of "glinks g" 0 "gcache g" us p vs "ge_next e" "last us" "?l n2"] assms(1) L(2) us by (simp add: glyph_list_def ps)
  have n3: "n3 q = (if q = p then Some (e\<lparr>ge_prev := 0, ge_next := hd us\<rparr>) else n2 q)" for q by (simp add: n3_def)
  have n2al: "\<exists>x. n2 q = Some x" if "q \<in> set us \<union> set vs" for q using al [OF that] by (auto simp: n2_def n1_def)
  have "dchain (?l n4) 0 p (p # us @ vs)"
  proof (rule dchain_push [OF d2])
    show "?l n4 p = Some (gcache g, 0)" using ne hd by (simp add: n4_def n3_def)
    fix z assume "z \<in> set (us @ vs)"
    then have z: "z \<noteq> p" "z \<in> set us \<union> set vs" using m by auto
    then obtain x where "n2 z = Some x" using n2al by blast
    then show "?l n4 z = map_option (\<lambda>(a, b). (a, if z = gcache g then p else b)) (?l n2 z)" using z(1) hd by (cases "z = hd us") (auto simp: n4_def n3_def)
  qed (use m in auto)
  moreover have "glyph_to_front g p = Some (g\<lparr>gnodes := n4, gcache := p, glast := (if p = glast g then last us else glast g)\<rparr>)"
    using False e v a(1) nl ne hd h n2al [of "hd us"] m by (auto simp: glyph_to_front_def set_glyph_def Let_def n4_def n3_def n2_def n1_def)
  moreover have "dom n4 = set (p # us @ vs)" using assms(1) m nl ne ps nx by (auto simp: n4_def n3_def n2_def n1_def glyph_list_def dom_def)
  moreover have "map_option gcore (n4 q) = gcores g q" for q
    using e v h nl ne m by (auto simp: gcores_def n4_def n3_def n2_def n1_def)
  moreover have "(if p = glast g then last us else glast g) = last (p # us @ vs)" using assms(1) us m(4) ps last_in_set [of vs] by (cases "vs = []") (auto simp: glyph_list_def)
  moreover have "remove1 p ps = us @ vs" using m(3) ps by (simp add: remove1_append)
  ultimately show ?thesis by (auto simp: glyph_list_def glinks_def [abs_def] gcores_def fun_eq_iff)
qed

section \<open>The cache is transparent and keeps the most recent characters\<close>

definition picture :: "font_env \<Rightarrow> u32 \<times> u32 \<times> u32 \<Rightarrow> u32 list option" where
  "picture env = (\<lambda>(ch, fg, bg). do { gl \<leftarrow> f_load env ch; render env gl fg bg })"

definition cached :: "font_env \<Rightarrow> glyphs \<Rightarrow> (u32 \<times> u32 \<times> u32) list \<Rightarrow> bool" where
  "cached env g ks \<longleftrightarrow> (\<exists>ps. glyph_list g ps \<and> map (\<lambda>p. map_option gkey (gnodes g p)) ps = map Some ks \<and> distinct ks \<and> length ks \<le> 100 \<and>
     cache_size g = of_nat (length ks) \<and> (\<forall>p \<in> set ps. \<forall>e. gnodes g p = Some e \<longrightarrow> picture env (gkey e) = Some (ge_bitmap e)))"

definition room_for :: "font_env \<Rightarrow> bool" where
  "room_for env \<longleftrightarrow> (\<forall>m. card (dom m) \<le> 100 \<longrightarrow> f_node env m \<noteq> 0 \<and> m (f_node env m) = None \<and> f_room env m)"

lemma glyph_list_blits [simp]: "glyph_list (g\<lparr>blits := b\<rparr>) ps = glyph_list g ps"
  by (simp add: glyph_list_def glinks_def [abs_def])

lemma gcores_keys: "gcores g' p = gcores g p \<Longrightarrow> map_option gkey (gnodes g' p) = map_option gkey (gnodes g p)"
  by (cases "gnodes g' p"; cases "gnodes g p") (auto simp: gcores_def dest: gcore_eqD)

lemma gcores_entry: "gcores g' p = gcores g p \<Longrightarrow> gnodes g' p = Some e' \<Longrightarrow> \<exists>e. gnodes g p = Some e \<and> gkey e = gkey e' \<and> ge_bitmap e = ge_bitmap e'"
  by (cases "gnodes g p") (auto simp: gcores_def dest: gcore_eqD)

lemma find_key:
  assumes "map (\<lambda>p. map_option gkey (gnodes g p)) ps = map Some ks"
  shows "find (\<lambda>q. \<exists>e. gnodes g q = Some e \<and> gkey e = k) ps = None \<longleftrightarrow> k \<notin> set ks"
proof -
  have "k \<in> set ks \<longleftrightarrow> Some k \<in> set (map Some ks)" by auto
  also have "\<dots> \<longleftrightarrow> (\<exists>q \<in> set ps. map_option gkey (gnodes g q) = Some k)" unfolding assms [symmetric] set_map image_iff by metis
  finally show ?thesis by (auto simp: find_None_iff)
qed

lemma draw_hit:
  assumes "glyph_list g ps" and "map (\<lambda>p. map_option gkey (gnodes g p)) ps = map Some ks" and "distinct ks" and "k \<in> set ks"
  shows "\<exists>p e g'. find_glyph g (gcache g) k = Some p \<and> p \<in> set ps \<and> p \<noteq> 0 \<and> gnodes g p = Some e \<and> gkey e = k \<and> glyph_to_front g p = Some g' \<and>
    glyph_list g' (p # remove1 p ps) \<and> cache_size g' = cache_size g \<and> blits g' = blits g \<and> gcores g' = gcores g \<and>
    map (\<lambda>p. map_option gkey (gnodes g' p)) (p # remove1 p ps) = map Some (k # remove1 k ks)"
proof -
  obtain p where p: "find (\<lambda>q. \<exists>e. gnodes g q = Some e \<and> gkey e = k) ps = Some p" using find_key [OF assms(2)] assms(4) by fastforce
  then obtain e where e: "p \<in> set ps" "gnodes g p = Some e" "gkey e = k" by (auto simp: find_Some_iff)
  obtain g' where g': "glyph_to_front g p = Some g'" "glyph_list g' (p # remove1 p ps)" "cache_size g' = cache_size g" "blits g' = blits g" "gcores g' = gcores g"
    using glyph_to_front_ok [OF assms(1) e(1)] by blast
  have f: "find_glyph g (gcache g) k = Some p" using find_glyph_ok [of g 0 "gcache g" ps k] assms(1) p by (simp add: glyph_list_def)
  obtain us vs where ps: "ps = us @ p # vs" using e(1) by (auto simp: in_set_conv_decomp)
  have "distinct ps" using glyph_listD(1) [OF assms(1)] .
  then have r: "remove1 p ps = us @ vs" by (simp add: ps remove1_append)
  let ?K = "\<lambda>p. map_option gkey (gnodes g p)"
  obtain as bs where ks: "ks = as @ k # bs" "map ?K us = map Some as" "map ?K vs = map Some bs"
    using assms(2) e(2,3) unfolding ps by (auto simp: map_eq_append_conv map_eq_Cons_conv append_eq_map_conv Cons_eq_map_conv)
  then have "remove1 k ks = as @ bs" using assms(3) by (simp add: remove1_append)
  moreover have "map_option gkey (gnodes g' q) = ?K q" for q using gcores_keys g'(5) by metis
  ultimately have "map (\<lambda>p. map_option gkey (gnodes g' p)) (p # remove1 p ps) = map Some (k # remove1 k ks)" using r ks e by simp
  moreover have "p \<noteq> 0" using e(1) glyph_listD(2) [OF assms(1)] by metis
  ultimately show ?thesis using f e g' by blast
qed

lemma draw_miss:
  assumes "glyph_list g ps" and "map (\<lambda>p. map_option gkey (gnodes g p)) ps = map Some ks" and "length ks \<le> 100" and "cache_size g = of_nat (length ks)"
    and "gnodes g p = None" and "p \<noteq> 0"
  shows "\<exists>g1 g2 qs e. add_glyph g p k = Some g1 \<and> evict_glyph g1 = Some g2 \<and> glyph_list g2 (p # qs) \<and> set qs \<subseteq> set ps \<and> gnodes g2 p = Some e \<and> gkey e = k \<and>
    map (\<lambda>p. map_option gkey (gnodes g2 p)) (p # qs) = map Some (take 100 (k # ks)) \<and> cache_size g2 = of_nat (length (take 100 (k # ks))) \<and> blits g2 = blits g \<and>
    (\<forall>q \<in> set qs. gcores g2 q = gcores g q)"
proof -
  obtain g1 e where 1: "add_glyph g p k = Some g1" "glyph_list g1 (p # ps)" "cache_size g1 = cache_size g + 1" "blits g1 = blits g" "gnodes g1 p = Some e" "gkey e = k"
      "\<forall>q. q \<noteq> p \<longrightarrow> gcores g1 q = gcores g q" using add_glyph_ok [OF assms(1,5,6)] by blast
  have n: "length ps = length ks" using arg_cong [OF assms(2), of length] by simp
  have np: "p \<notin> set ps" using glyph_listD(1) [OF 1(2)] by simp
  have K: "map_option gkey (gnodes g1 q) = map_option gkey (gnodes g q)" if "q \<in> set ps" for q using gcores_keys 1(7) that np by metis
  then have k1: "map (\<lambda>p. map_option gkey (gnodes g1 p)) ps = map Some ks" using assms(2) by (metis (no_types, lifting) map_cong)
  show ?thesis
  proof (cases "length ks = 100")
    case False
    have "unat (of_nat (length ks + 1) :: u32) = length ks + 1" using assms(3) by (simp add: unat_of_nat take_bit_nat_eq_self del: of_nat_Suc of_nat_add)
    then have "unat (cache_size g1) = length ks + 1" using assms(4) 1(3) by (simp add: add.commute)
    then have "\<not> cache_size g1 > 100" using assms(3) False by (simp add: word_less_nat_alt)
    then have "evict_glyph g1 = Some g1" by (simp add: evict_glyph_def)
    then show ?thesis using 1 k1 False assms(3,4) np by (intro exI [of _ g1] exI [of _ ps] exI [of _ e]) auto
  next
    case True
    then obtain l ls where ps: "ps = ls @ [l]" using n by (metis length_0_conv numeral_neq_zero rev_exhaust)
    have ls: "length ls = 99" using n True ps by simp
    have "cache_size g1 > 100" using assms(4) 1(3) True by simp
    from evict_glyph_ok [of g1 "p # ls" l, OF _ _ this] obtain g2 where 2: "evict_glyph g1 = Some g2" "glyph_list g2 (p # ls)" "cache_size g2 = cache_size g1 - 1" "blits g2 = blits g1"
      "\<forall>q. q \<noteq> l \<longrightarrow> gcores g2 q = gcores g1 q" using 1(2) ps by auto
    have nl: "l \<notin> set (p # ls)" using glyph_listD(1) [OF 1(2)] ps by auto
    have c2: "gcores g2 q = gcores g1 q" if "q \<in> set (p # ls)" for q using 2(5) nl that by metis
    obtain e2 where e2: "gnodes g2 p = Some e2" using glyph_listD(3) [OF 2(2)] by auto
    then have ek: "gkey e2 = k" using gcores_entry [OF c2 e2] 1(5,6) by auto
    have "map (\<lambda>p. map_option gkey (gnodes g2 p)) ls = map (\<lambda>p. map_option gkey (gnodes g1 p)) ls" using gcores_keys [OF c2] by (intro map_cong) auto
    also have "\<dots> = map Some (take 99 ks)" using arg_cong [OF k1, of "take 99"] ls by (simp add: ps take_map)
    finally have "map (\<lambda>p. map_option gkey (gnodes g2 p)) (p # ls) = map Some (take 100 (k # ks))" using e2 ek by simp
    moreover have "cache_size g2 = of_nat (length (take 100 (k # ks)))" using 2(3) 1(3) assms(4) True by simp
    moreover have "\<forall>q \<in> set ls. gcores g2 q = gcores g q"
    proof
      fix q assume q: "q \<in> set ls"
      then have "q \<noteq> p" using np ps by auto
      then show "gcores g2 q = gcores g q" using c2 [of q] 1(7) q by simp
    qed
    ultimately show ?thesis using 1(1,4) 2(1,2,4) e2 ek ps by (intro exI [of _ g1] exI [of _ g2] exI [of _ ls] exI [of _ e2]) auto
  qed
qed

lemma cached_new:
  assumes "glyph_list g (p # qs)" and "gnodes g p = Some e" and "gkey e = k" and "map (\<lambda>p. map_option gkey (gnodes g p)) (p # qs) = map Some ks" and "distinct ks"
    and "length ks \<le> 100" and "cache_size g = of_nat (length ks)" and "\<forall>q \<in> set qs. \<forall>e. gnodes g q = Some e \<longrightarrow> picture env (gkey e) = Some (ge_bitmap e)"
    and "picture env k = Some bm"
  shows "cached env ((set_glyph g p (e\<lparr>ge_bitmap := bm\<rparr>))\<lparr>blits := b\<rparr>) ks"
proof -
  let ?e = "e\<lparr>ge_bitmap := bm\<rparr>"
  let ?g = "(set_glyph g p ?e)\<lparr>blits := b\<rparr>"
  have "p \<notin> set qs" using glyph_listD(1) [OF assms(1)] by simp
  have l: "glinks ?g = glinks g" using assms(2) by (auto simp: glinks_def set_glyph_def fun_eq_iff)
  have gl: "glyph_list ?g (p # qs)" using assms(1,2) unfolding glyph_list_def l by (auto simp: set_glyph_def)
  have "gkey ?e = gkey e" by (simp add: gkey_def)
  then have "map_option gkey (gnodes ?g q) = map_option gkey (gnodes g q)" for q using assms(2) by (simp add: set_glyph_def)
  then have "map (\<lambda>p. map_option gkey (gnodes ?g p)) (p # qs) = map Some ks" using assms(4) by simp
  moreover have "\<forall>q \<in> set (p # qs). \<forall>e. gnodes ?g q = Some e \<longrightarrow> picture env (gkey e) = Some (ge_bitmap e)"
    using assms(3,8,9) \<open>gkey ?e = gkey e\<close> by (auto simp: set_glyph_def)
  moreover have "cache_size ?g = of_nat (length ks)" using assms(7) by (simp add: set_glyph_def)
  ultimately show ?thesis using gl assms(5,6) unfolding cached_def by blast
qed

lemma draw_cell_ok:
  assumes "cached env g ks" and "picture env k = Some bm" and "room_for env"
  shows "\<exists>g'. draw_cell env g k x y = Some (f_blit env bm x y, g') \<and> blits g' = blits g @ [(bm, x, y)] \<and> cached env g' (take 100 (k # remove1 k ks))"
proof -
  obtain ch fg bg where k: "k = (ch, fg, bg)" by (cases k)
  obtain gl where gl: "f_load env ch = Some gl" "render env gl fg bg = Some bm" using assms(2) by (auto simp: picture_def k)
  obtain ps where g: "glyph_list g ps" "map (\<lambda>p. map_option gkey (gnodes g p)) ps = map Some ks" "distinct ks" "length ks \<le> 100" "cache_size g = of_nat (length ks)"
    and pic: "\<forall>p \<in> set ps. \<forall>e. gnodes g p = Some e \<longrightarrow> picture env (gkey e) = Some (ge_bitmap e)" using assms(1) unfolding cached_def by blast
  show ?thesis
  proof (cases "k \<in> set ks")
    case True
    obtain p e g' where h: "find_glyph g (gcache g) k = Some p" "p \<in> set ps" "p \<noteq> 0" "gnodes g p = Some e" "gkey e = k" "glyph_to_front g p = Some g'"
      "glyph_list g' (p # remove1 p ps)" "cache_size g' = cache_size g" "blits g' = blits g" "gcores g' = gcores g"
      "map (\<lambda>p. map_option gkey (gnodes g' p)) (p # remove1 p ps) = map Some (k # remove1 k ks)" using draw_hit [OF g(1-3) True] by blast
    have pic': "picture env (gkey e') = Some (ge_bitmap e')" if "q \<in> set ps" "gnodes g' q = Some e'" for q e'
      using gcores_entry [of g' q g, OF _ that(2)] h(10) pic that(1) by metis
    obtain e' where e': "gnodes g' p = Some e'" using glyph_listD(3) [OF h(7)] by auto
    have "gkey e' = k" using gcores_entry [of g' p g, OF _ e'] h(4,5,10) by auto
    then have b: "ge_bitmap e' = bm" using pic' [OF h(2) e'] assms(2) by simp
    let ?g = "g'\<lparr>blits := blits g' @ [(bm, x, y)]\<rparr>"
    have "draw_cell env g k x y = Some (f_blit env bm x y, ?g)" using h(1,3,6) e' b by (simp add: draw_cell_def k blit_def)
    moreover have len: "length (k # remove1 k ks) = length ks" using length_pos_if_in_set [OF True] by (simp add: length_remove1 True)
    have "glyph_list ?g (p # remove1 p ps)" using h(7) by simp
    then have "cached env ?g (k # remove1 k ks)" unfolding cached_def using h(8,11) g(3,4,5) len pic' h(2)
      by (intro exI [of _ "p # remove1 p ps"]) (auto simp: distinct_remove1 dest: notin_set_remove1)
    ultimately show ?thesis using h(9) len g(4) by simp
  next
    case False
    let ?p = "f_node env (gnodes g)"
    have "card (dom (gnodes g)) \<le> 100"
      using g(1,4) arg_cong [OF g(2), of length] distinct_card [OF glyph_listD(1) [OF g(1)]] by (simp add: glyph_list_def)
    then have f: "?p \<noteq> 0" "gnodes g ?p = None" "f_room env (gnodes g)" using assms(3) by (auto simp: room_for_def)
    obtain g1 g2 qs e where m: "add_glyph g ?p k = Some g1" "evict_glyph g1 = Some g2" "glyph_list g2 (?p # qs)" "set qs \<subseteq> set ps" "gnodes g2 ?p = Some e" "gkey e = k"
      "map (\<lambda>p. map_option gkey (gnodes g2 p)) (?p # qs) = map Some (take 100 (k # ks))" "cache_size g2 = of_nat (length (take 100 (k # ks)))" "blits g2 = blits g"
      "\<forall>q \<in> set qs. gcores g2 q = gcores g q" using draw_miss [OF g(1,2,4,5) f(2,1), of k] by blast
    let ?g = "set_glyph g2 ?p (e\<lparr>ge_bitmap := bm\<rparr>)" and ?g' = "(set_glyph g2 ?p (e\<lparr>ge_bitmap := bm\<rparr>))\<lparr>blits := blits g2 @ [(bm, x, y)]\<rparr>"
    have fd: "find_glyph g (gcache g) k = Some 0" using find_glyph_ok [of g 0 "gcache g" ps k] g(1) find_key [OF g(2), of k] False by (simp add: glyph_list_def)
    have "draw_cell env g k x y = Some (f_blit env bm x y, ?g')"
      using fd m(1,2,5) f gl unfolding k by (simp add: draw_cell_def blit_def set_glyph_def)
    moreover have "cached env ?g' (take 100 (k # ks))"
    proof (rule cached_new [OF m(3,5,6,7) _ _ m(8) _ assms(2)])
      show "distinct (take 100 (k # ks))" using g(3) False by (intro distinct_take) simp
      show "\<forall>q \<in> set qs. \<forall>e. gnodes g2 q = Some e \<longrightarrow> picture env (gkey e) = Some (ge_bitmap e)"
      proof (intro ballI allI impI)
        fix q e' assume q: "q \<in> set qs" "gnodes g2 q = Some e'"
        obtain e where "gnodes g q = Some e" "gkey e = gkey e'" "ge_bitmap e = ge_bitmap e'" using gcores_entry [of g2 q g e'] m(10) q by blast
        then show "picture env (gkey e') = Some (ge_bitmap e')" using pic m(4) q(1) by fastforce
      qed
    qed simp
    ultimately show ?thesis using m(9) remove1_idem [OF False] by simp
  qed
qed

text \<open>
  C35. The cache of characters is transparent: \<open>draw_cell\<close> always sends the picture that rendering the character anew would give, whether it is in the cache or not. The cache keeps the pictures of the at most 100 characters
  that were drawn last, the most recent first: drawing a character moves it to the front, and the least recent one is freed when there are too many. The
  hypotheses are that the character can be rendered inside its cell and that memory is available.\<close>

theorem draw_cell_lru:
  assumes "cached env g ks" and "picture env k = Some bm" and "room_for env"
  shows "\<exists>g'. draw_cell env g k x y = Some (f_blit env bm x y, g') \<and> blits g' = blits g @ [(bm, x, y)] \<and> cached env g' (take 100 (k # remove1 k ks))"
  by (rule draw_cell_ok [OF assms])

text \<open>A font with characters of one dot, in cells of four.\<close>

definition dot_font :: font_env where
  "dot_font = \<lparr>f_load = (\<lambda>ch. Some \<lparr>ft_rows = 1, ft_width = 1, ft_left = 0, ft_top = 2, ft_buffer = [ucast ch]\<rparr>), f_blend = (\<lambda>a fg bg. fg), f_size = 2, f_width = 2, f_height = 2,
     f_node = first_free, f_room = (\<lambda>_. True), f_blit = (\<lambda>_ _ _. 0)\<rparr>"

theorem draw_cell_lru_witness:
  "\<exists>g'. draw_cell dot_font \<lparr>gnodes = Map.empty, gcache = 0, glast = 0, cache_size = 0, blits = []\<rparr> (65, 7, 1) 0 0 = Some (0, g') \<and>
    blits g' = [([7, 1, 1, 1], 0, 0)] \<and> cached dot_font g' [(65, 7, 1)]"
proof -
  let ?g = "\<lparr>gnodes = Map.empty, gcache = 0, glast = 0, cache_size = 0, blits = []\<rparr>"
  have c: "cached dot_font ?g []" by (simp add: cached_def glyph_list_def)
  have p: "picture dot_font (65, 7, 1) = Some [7, 1, 1, 1]" by (simp add: picture_def dot_font_def render_def put_dot_def numeral_eq_Suc)
  have r: "room_for dot_font" by (simp add: room_for_def dot_font_def first_free_ok)
  show ?thesis using draw_cell_lru [OF c p r, of 0 0] by (simp add: dot_font_def)
qed

end
