(* ===== verification/Terminal.thy ===== *)
theory Terminal
  imports Glyph_Cache Formatting Numbers Error_Strings "HOL-Library.Signed_Division"
begin

text \<open>
  The terminal, \<open>driver/fbterm\<close> (\<open>driver/biterm\<close> has the same \<open>terminal.c\<close> and \<open>keyboard.c\<close>): the cells of the screen (\<open>screen.c\<close>), the cursor (\<open>terminal.c\<close>), the buffer of typed lines (\<open>keyboard.c\<close>) and the
  hooks and handlers (\<open>main.c\<close>). A division by the width of an empty screen and an access outside the cells or a line are \<^const>\<open>None\<close>. The contents of new cells and the font are parameters.
  The locks are free between operations.
\<close>

section \<open>State\<close>

record tcell =
  t_fg :: u32
  t_bg :: u32
  t_ch :: u32
  t_dirty :: bool

record line =
  l_next :: ptr
  l_prev :: ptr
  l_data :: "u8 list"

record terminal =
  cells :: "tcell list"
  scr_fg :: u32
  scr_bg :: u32
  scr_w :: int
  scr_h :: int
  cursor :: int
  c_base :: int
  glyph_st :: glyphs
  flips :: nat
  lines_at :: "ptr \<Rightarrow> line option"
  line_buf_in :: ptr
  line_buf_out :: ptr
  cur_line :: "u8 list option"
  line_pos :: nat
  tbuffer :: "u8 list option"
  buffer_size :: u32
  fgjob_pid :: u32
  ctrl :: bool
  kills :: "(u32 \<times> u32) list"

record term_env =
  te_font :: font_env
  te_line :: "(ptr \<Rightarrow> line option) \<Rightarrow> ptr"
  te_cell :: "nat \<Rightarrow> tcell"

abbreviation (input) COLOR_WHITE :: u32 where "COLOR_WHITE \<equiv> 0xFFFFFFFF"
abbreviation (input) COLOR_BLACK :: u32 where "COLOR_BLACK \<equiv> 0xFF000000"
abbreviation (input) COLOR_LGRAY :: u32 where "COLOR_LGRAY \<equiv> 0xFFABABAB"
abbreviation (input) SIGINT :: u32 where "SIGINT \<equiv> 2"

section \<open>The screen\<close>

definition cell_at :: "terminal \<Rightarrow> int \<Rightarrow> tcell option" where
  "cell_at s i = (if 0 \<le> i \<and> i < int (length (cells s)) then Some (cells s ! nat i) else None)"

definition screen_print :: "terminal \<Rightarrow> int \<Rightarrow> int \<Rightarrow> u32 \<Rightarrow> (int \<times> terminal) option" where
  "screen_print s x y c = (
     if x < 0 \<or> y < 0 \<or> x \<ge> scr_w s \<or> y \<ge> scr_h s then Some (1, s)
     else do {
       let i = x + y * scr_w s;
       cell \<leftarrow> cell_at s i;
       let dirty = (if t_ch cell \<noteq> c \<or> t_fg cell \<noteq> scr_fg s \<or> t_bg cell \<noteq> scr_bg s then True else t_dirty cell);
       Some (0, s\<lparr>cells := (cells s)[nat i := \<lparr>t_fg = scr_fg s, t_bg = scr_bg s, t_ch = c, t_dirty = dirty\<rparr>]\<rparr>)
     })"

definition do_print :: "terminal \<Rightarrow> int \<Rightarrow> int \<Rightarrow> u32 \<Rightarrow> terminal option" where
  "do_print s x y c = do { (_, s) \<leftarrow> screen_print s x y c; Some s }"

definition screen_clear :: "terminal \<Rightarrow> terminal option" where
  "screen_clear s = for_list (\<lambda>x. for_list (\<lambda>y s. do_print s x y 32) [0..scr_h s - 1]) [0..scr_w s - 1] s"

text \<open>Behind the inner loop, \<open>y\<close> is the last row, or the first if there is only one.\<close>

definition screen_scroll :: "terminal \<Rightarrow> terminal option" where
  "screen_scroll s0 = do {
     s \<leftarrow> for_list (\<lambda>x s. do {
         s \<leftarrow> for_list (\<lambda>y s. do {
             c \<leftarrow> cell_at s (x + y * scr_w s);
             d \<leftarrow> cell_at s (x + (y + 1) * scr_w s);
             do_print (s\<lparr>scr_fg := t_fg c, scr_bg := t_bg c\<rparr>) x y (t_ch d)
           }) [0..scr_h s0 - 2] s;
         do_print (s\<lparr>scr_fg := COLOR_WHITE, scr_bg := COLOR_BLACK\<rparr>) x (max 0 (scr_h s0 - 1)) 32
       }) [0..scr_w s0 - 1] s0;
     Some (s\<lparr>scr_fg := scr_fg s0, scr_bg := scr_bg s0\<rparr>)
   }"

text \<open>The cells that are drawn: the dirty ones, or all.\<close>

definition draw_cells :: "bool \<Rightarrow> term_env \<Rightarrow> terminal \<Rightarrow> terminal option" where
  "draw_cells all env s = do {
     s \<leftarrow> for_list (\<lambda>i s. do {
         c \<leftarrow> cell_at s i;
         if all \<or> t_dirty c then do {
           (_, g) \<leftarrow> draw_cell (te_font env) (glyph_st s) (t_ch c, t_fg c, t_bg c) (i mod scr_w s * f_width (te_font env)) (i div scr_w s * f_height (te_font env));
           Some (s\<lparr>glyph_st := g, cells := (cells s)[nat i := c\<lparr>t_dirty := False\<rparr>]\<rparr>)
         }
         else Some s
       }) [0..scr_w s * scr_h s - 1] s;
     Some (s\<lparr>flips := flips s + 1\<rparr>)
   }"

definition screen_flip :: "term_env \<Rightarrow> terminal \<Rightarrow> terminal option" where
  "screen_flip = draw_cells False"

definition screen_sync :: "term_env \<Rightarrow> terminal \<Rightarrow> terminal option" where
  "screen_sync = draw_cells True"

text \<open>The old cells are \<^const>\<open>None\<close> while there are none.\<close>

definition screen_resize :: "term_env \<Rightarrow> terminal \<Rightarrow> tcell list option \<Rightarrow> int \<Rightarrow> int \<Rightarrow> terminal option" where
  "screen_resize env s old x y = (
     let fw = f_width (te_font env); fh = f_height (te_font env); w = x div fw; h = y div fh in
     if fw = 0 \<or> fh = 0 then None
     else do {
       let (old_w, old_h) = (scr_w s, scr_h s);
       s \<leftarrow> screen_clear (s\<lparr>scr_w := w, scr_h := h, cells := map (te_cell env) [0..<unat (word_of_int (16 * w * h) :: u32) div 16]\<rparr>);
       case old of None \<Rightarrow> Some s
       | Some ocells \<Rightarrow> for_list (\<lambda>i. for_list (\<lambda>j s. do {
           c \<leftarrow> (if 0 \<le> i + j * old_w \<and> i + j * old_w < int (length ocells) then Some (ocells ! nat (i + j * old_w)) else None);
           do_print s i j (t_ch c)
         }) [0..min h old_h - 1]) [0..min w old_w - 1] s
     })"

section \<open>The cursor\<close>

definition at_cursor :: "terminal \<Rightarrow> u32 \<Rightarrow> terminal option" where
  "at_cursor s c = (if scr_w s = 0 then None else do_print s (cursor s smod scr_w s) (cursor s sdiv scr_w s) c)"

definition fbterm_print :: "terminal \<Rightarrow> u32 \<Rightarrow> terminal option" where
  "fbterm_print s c = do {
     s \<leftarrow> (if cursor s > scr_w s * scr_h s - 2 then do {
         s \<leftarrow> screen_scroll s;
         Some (s\<lparr>cursor := cursor s - scr_w s, c_base := c_base s - scr_w s\<rparr>)
       } else Some s);
     s \<leftarrow> (if c = 0 then Some s
       else if c = 9 then do {
         s \<leftarrow> at_cursor s 32;
         Some (s\<lparr>cursor := cursor s + 8 - (cursor s smod scr_w s) smod 8\<rparr>)
       }
       else if c = 10 then do {
         s \<leftarrow> at_cursor s 32;
         Some (s\<lparr>cursor := cursor s - cursor s smod scr_w s + scr_w s, c_base := cursor s - cursor s smod scr_w s + scr_w s\<rparr>)
       }
       else if c = 13 then
         if scr_w s = 0 then None else Some (s\<lparr>cursor := cursor s - cursor s smod scr_w s, c_base := cursor s - cursor s smod scr_w s\<rparr>)
       else if c = 8 then do {
         s \<leftarrow> at_cursor s 32;
         Some (if c_base s < cursor s then s\<lparr>cursor := cursor s - 1\<rparr> else s)
       }
       else do {
         s \<leftarrow> at_cursor s c;
         Some (s\<lparr>cursor := cursor s + 1\<rparr>)
       });
     let bg = scr_bg s;
     s \<leftarrow> at_cursor (s\<lparr>scr_bg := COLOR_LGRAY\<rparr>) 32;
     Some (s\<lparr>scr_bg := bg\<rparr>)
   }"

definition fbterm_clear :: "terminal \<Rightarrow> terminal option" where
  "fbterm_clear s = do { s \<leftarrow> screen_clear s; Some (s\<lparr>cursor := 0, c_base := 0\<rparr>) }"

definition fbterm_resize :: "term_env \<Rightarrow> terminal \<Rightarrow> int \<Rightarrow> int \<Rightarrow> terminal option" where
  "fbterm_resize env s x y = do {
     let old_w = scr_w s;
     s \<leftarrow> screen_resize env s (Some (cells s)) x y;
     if old_w = 0 then None
     else Some (s\<lparr>cursor := cursor s smod old_w + cursor s sdiv old_w * scr_w s, c_base := c_base s smod old_w + c_base s sdiv old_w * scr_w s\<rparr>)
   }"

section \<open>Lines\<close>

definition push_line :: "term_env \<Rightarrow> terminal \<Rightarrow> u8 list \<Rightarrow> terminal option" where
  "push_line env s l = (
     let p = te_line env (lines_at s) in
     if p = 0 then None
     else if line_buf_in s = 0 then
       Some (s\<lparr>lines_at := (lines_at s)(p \<mapsto> \<lparr>l_next = 0, l_prev = 0, l_data = l\<rparr>), line_buf_in := p, line_buf_out := p\<rparr>)
     else do {
       let ls = (lines_at s)(p \<mapsto> \<lparr>l_next = 0, l_prev = line_buf_out s, l_data = l\<rparr>);
       last \<leftarrow> ls (line_buf_out s);
       Some (s\<lparr>lines_at := ls(line_buf_out s \<mapsto> last\<lparr>l_next := p\<rparr>), line_buf_out := p\<rparr>)
     })"

definition fbterm_buffer :: "term_env \<Rightarrow> terminal \<Rightarrow> u8 \<Rightarrow> terminal option" where
  "fbterm_buffer env s c = do {
     let (buffer, sz) = (case tbuffer s of None \<Rightarrow> ([], 256) | Some b \<Rightarrow> (b, buffer_size s));
     (buffer, sz) \<leftarrow> (if c = 8 then Some (butlast buffer, sz)
       else if length buffer \<ge> unat sz then None
       else Some (buffer @ [c], if length buffer + 1 \<ge> unat sz then sz + 256 else sz));
     if c = 10 \<or> length buffer > 195 then
       if length buffer \<ge> unat sz then None else push_line env (s\<lparr>tbuffer := None, buffer_size := sz\<rparr>) (buffer @ [0])
     else Some (s\<lparr>tbuffer := Some buffer, buffer_size := sz\<rparr>)
   }"

text \<open>A key: the low byte is the character, with \<open>tolower\<close> and \<open>isprint\<close> of the C library.\<close>

definition keyboard_event :: "term_env \<Rightarrow> terminal \<Rightarrow> u32 \<Rightarrow> bool \<Rightarrow> terminal option" where
  "keyboard_event env s code press = (
     if \<not> press then Some (s\<lparr>ctrl := False\<rparr>)
     else if code AND 0x00800000 \<noteq> 0 then Some (if code = 0x00800001 then s\<lparr>ctrl := True\<rparr> else s)
     else (let c = (ucast code :: u8) in
       if tolower (sint c) = 99 \<and> ctrl s then do {
         let s = (if fgjob_pid s \<noteq> 0 then s\<lparr>kills := kills s @ [(- fgjob_pid s, SIGINT)]\<rparr> else s);
         s \<leftarrow> fbterm_print s 94;
         s \<leftarrow> fbterm_print s 67;
         s \<leftarrow> fbterm_print s 10;
         fbterm_buffer env s 10
       }
       else do {
         s \<leftarrow> fbterm_buffer env s c;
         if isprint c then do { s \<leftarrow> fbterm_print s (scast c); screen_flip env s } else Some s
       }))"

definition take_line :: "terminal \<Rightarrow> (u8 list \<times> terminal) option" where
  "take_line s = do {
     l \<leftarrow> lines_at s (line_buf_out s);
     Some (l_data l, s\<lparr>lines_at := (lines_at s)(line_buf_out s := None), line_buf_out := l_prev l, line_buf_in := (if l_prev l = 0 then 0 else line_buf_in s)\<rparr>)
   }"

text \<open>The last argument has the keys that arrive during every sleep.\<close>

fun pop_line :: "term_env \<Rightarrow> terminal \<Rightarrow> (u32 \<times> bool) list list \<Rightarrow> (u8 list \<times> terminal \<times> (u32 \<times> bool) list list) option" where
  "pop_line env s sleeps = (
     if line_buf_out s \<noteq> 0 then do { (l, s) \<leftarrow> take_line s; Some (l, s, sleeps) }
     else case sleeps of
       [] \<Rightarrow> None
     | ks # sleeps \<Rightarrow> do { s \<leftarrow> for_list (\<lambda>(code, press) s. keyboard_event env s code press) ks s; pop_line env s sleeps })"

definition fbterm_getch :: "term_env \<Rightarrow> terminal \<Rightarrow> (u32 \<times> bool) list list \<Rightarrow> (u8 \<times> terminal \<times> (u32 \<times> bool) list list) option" where
  "fbterm_getch env s sleeps = do {
     (l, s, sleeps) \<leftarrow> (case cur_line s of
       None \<Rightarrow> do { (l, s, sleeps) \<leftarrow> pop_line env s sleeps; Some (l, s\<lparr>line_pos := 0\<rparr>, sleeps) }
     | Some l \<Rightarrow> Some (l, s, sleeps));
     if line_pos s \<ge> length l then None
     else do {
       let c = l ! line_pos s;
       let s = s\<lparr>line_pos := line_pos s + 1\<rparr>;
       Some (c, s\<lparr>cur_line := (if c = 10 then None else Some l)\<rparr>, sleeps)
     }
   }"

section \<open>Hooks and handlers\<close>

definition fbterm_write :: "term_env \<Rightarrow> terminal \<Rightarrow> u8 list \<Rightarrow> (u32 \<times> terminal) option" where
  "fbterm_write env s buffer = do {
     s \<leftarrow> for_list (\<lambda>b s. fbterm_print s (ucast b)) buffer s;
     s \<leftarrow> screen_flip env s;
     Some (of_nat (length buffer), s)
   }"

fun fbterm_read :: "term_env \<Rightarrow> terminal \<Rightarrow> nat \<Rightarrow> (u32 \<times> bool) list list \<Rightarrow> (u8 list \<times> terminal) option" where
  "fbterm_read env s 0 sleeps = Some ([], s)"
| "fbterm_read env s (Suc n) sleeps = do {
     (c, s, sleeps) \<leftarrow> fbterm_getch env s sleeps;
     if c = 0 then Some ([], s)
     else do { (buffer, s) \<leftarrow> fbterm_read env s n sleeps; Some (c # buffer, s) }
   }"

definition rcall_set_fgjob :: "terminal \<Rightarrow> u8 list list \<Rightarrow> u8 list option \<times> terminal" where
  "rcall_set_fgjob s argv = (if length argv \<noteq> 2 then (None, s) else (Some (cs ''T''), s\<lparr>fgjob_pid := atoi_v (argv ! 1)\<rparr>))"

definition rcall_clear :: "terminal \<Rightarrow> (u8 list option \<times> terminal) option" where
  "rcall_clear s = do { s \<leftarrow> fbterm_clear s; Some (Some (cs ''T''), s) }"

definition rcall_set_fgcolor :: "term_env \<Rightarrow> terminal \<Rightarrow> u8 list list \<Rightarrow> (u8 list option \<times> terminal) option" where
  "rcall_set_fgcolor env s argv = (if length argv \<noteq> 2 then Some (None, s)
     else do { s \<leftarrow> screen_sync env (s\<lparr>scr_fg := atoi_v (argv ! 1)\<rparr>); Some (Some (cs ''T''), s) })"

definition rcall_set_bgcolor :: "term_env \<Rightarrow> terminal \<Rightarrow> u8 list list \<Rightarrow> (u8 list option \<times> terminal) option" where
  "rcall_set_bgcolor env s argv = (if length argv \<noteq> 2 then Some (None, s)
     else do { s \<leftarrow> screen_sync env (s\<lparr>scr_bg := atoi_v (argv ! 1)\<rparr>); Some (Some (cs ''T''), s) })"

definition fbterm_key_event :: "term_env \<Rightarrow> terminal \<Rightarrow> u8 list list \<Rightarrow> terminal option" where
  "fbterm_key_event env s argv = (
     if length argv \<noteq> 3 then Some s
     else if argv ! 1 = cs ''press'' then keyboard_event env s (atoi_v (argv ! 2)) True
     else if argv ! 1 = cs ''release'' then keyboard_event env s (atoi_v (argv ! 2)) False
     else Some s)"

definition fbterm_graph_event :: "term_env \<Rightarrow> terminal \<Rightarrow> u8 list list \<Rightarrow> terminal option" where
  "fbterm_graph_event env s argv = (
     if length argv \<noteq> 4 \<or> argv ! 1 \<noteq> cs ''resize'' then Some s
     else do { s \<leftarrow> fbterm_resize env s (uint (atoi_v (argv ! 2))) (uint (atoi_v (argv ! 3))); screen_flip env s })"

end
