(* ===== verification/Terminal_Rep.thy ===== *)
theory Terminal_Rep
  imports Terminal
begin

text \<open>
  The terminal never accesses memory outside of its cells, whatever is printed, as long as the screen is at least one cell wide; what is printed reaches the frame buffer;
  typed lines are read as they were typed, but in the reverse order when several are waiting.
\<close>

section \<open>Cells\<close>

definition term_ok :: "terminal \<Rightarrow> bool" where
  "term_ok s \<longleftrightarrow> 0 < scr_w s \<and> 0 \<le> scr_h s \<and> int (length (cells s)) = scr_w s * scr_h s"

lemma cell_index:
  fixes x y w h :: int
  assumes "0 \<le> x" and "x < w" and "0 \<le> y" and "y < h"
  shows "0 \<le> x + y * w" and "x + y * w < w * h"
proof -
  have "y * w \<le> (h - 1) * w" using assms by (intro mult_right_mono) auto
  then show "x + y * w < w * h" using assms(2) by (simp add: algebra_simps)
  show "0 \<le> x + y * w" using assms by simp
qed

text \<open>The result of printing into a cell.\<close>

definition printed :: "terminal \<Rightarrow> int \<Rightarrow> u32 \<Rightarrow> terminal" where
  "printed s i c = (let cell = cells s ! nat i in
     s\<lparr>cells := (cells s)[nat i := \<lparr>t_fg = scr_fg s, t_bg = scr_bg s, t_ch = c,
       t_dirty = (t_ch cell \<noteq> c \<or> t_fg cell \<noteq> scr_fg s \<or> t_bg cell \<noteq> scr_bg s \<or> t_dirty cell)\<rparr>]\<rparr>)"

lemma do_print_in:
  assumes "term_ok s" and "0 \<le> x" and "x < scr_w s" and "0 \<le> y" and "y < scr_h s"
  shows "do_print s x y c = Some (printed s (x + y * scr_w s) c)"
  using cell_index [OF assms(2-5)] assms by (auto simp: do_print_def screen_print_def cell_at_def printed_def term_ok_def Let_def)

lemma do_print_out: "x < 0 \<or> y < 0 \<or> x \<ge> scr_w s \<or> y \<ge> scr_h s \<Longrightarrow> do_print s x y c = Some s"
  by (simp add: do_print_def screen_print_def)

text \<open>What the frame buffer shows at a position, and the cells it has to show: those that are not dirty.\<close>

definition shown :: "terminal \<Rightarrow> int \<times> int \<Rightarrow> u32 list option" where
  "shown s = map_of (map (\<lambda>(b, p). (p, b)) (rev (blits (glyph_st s))))"

definition cell_pos :: "term_env \<Rightarrow> terminal \<Rightarrow> nat \<Rightarrow> int \<times> int" where
  "cell_pos env s i = (int i mod scr_w s * f_width (te_font env), int i div scr_w s * f_height (te_font env))"

definition cell_key :: "tcell \<Rightarrow> u32 \<times> u32 \<times> u32" where
  "cell_key c = (t_ch c, t_fg c, t_bg c)"

definition shows_ok :: "term_env \<Rightarrow> terminal \<Rightarrow> bool" where
  "shows_ok env s \<longleftrightarrow> (\<forall>i < length (cells s). \<not> t_dirty (cells s ! i) \<longrightarrow> shown s (cell_pos env s i) = picture (te_font env) (cell_key (cells s ! i)))"

text \<open>States that differ in the cells, the colours and the cursor, with an up to date frame buffer if it was before.\<close>

definition prints :: "terminal \<Rightarrow> terminal \<Rightarrow> bool" where
  "prints s s' \<longleftrightarrow> (\<exists>ks fg bg c b. s' = s\<lparr>cells := ks, scr_fg := fg, scr_bg := bg, cursor := c, c_base := b\<rparr> \<and> length ks = length (cells s)) \<and> (\<forall>env. shows_ok env s \<longrightarrow> shows_ok env s')"

lemma prints_refl [simp]: "prints s s"
  by (cases s) (auto simp: prints_def)

lemma prints_trans: "prints s t \<Longrightarrow> prints t u \<Longrightarrow> prints s u"
proof -
  assume h: "prints s t" "prints t u"
  then obtain ks fg bg c b ks' fg' bg' c' b' where "t = s\<lparr>cells := ks, scr_fg := fg, scr_bg := bg, cursor := c, c_base := b\<rparr>" "length ks = length (cells s)"
    "u = t\<lparr>cells := ks', scr_fg := fg', scr_bg := bg', cursor := c', c_base := b'\<rparr>" "length ks' = length (cells t)" by (auto simp: prints_def)
  then have "u = s\<lparr>cells := ks', scr_fg := fg', scr_bg := bg', cursor := c', c_base := b'\<rparr> \<and> length ks' = length (cells s)" by simp
  then show "prints s u" using h unfolding prints_def by blast
qed

lemma printsD:
  assumes "prints s s'"
  shows "scr_w s' = scr_w s" "scr_h s' = scr_h s" "length (cells s') = length (cells s)" "glyph_st s' = glyph_st s"
  using assms by (auto simp: prints_def)

lemma shows_colour [simp]: "shows_ok env (s\<lparr>scr_fg := fg\<rparr>) = shows_ok env s" "shows_ok env (s\<lparr>scr_bg := bg\<rparr>) = shows_ok env s"
  "shows_ok env (s\<lparr>cursor := c\<rparr>) = shows_ok env s" "shows_ok env (s\<lparr>c_base := b\<rparr>) = shows_ok env s"
  by (simp_all add: shows_ok_def shown_def cell_pos_def)

lemma prints_with: "prints s (s\<lparr>scr_fg := fg, scr_bg := bg, cursor := c, c_base := b\<rparr>)"
proof -
  have "s\<lparr>scr_fg := fg, scr_bg := bg, cursor := c, c_base := b\<rparr> = s\<lparr>cells := cells s, scr_fg := fg, scr_bg := bg, cursor := c, c_base := b\<rparr>" by simp
  moreover have "shows_ok env (s\<lparr>scr_fg := fg, scr_bg := bg, cursor := c, c_base := b\<rparr>) = shows_ok env s" for env by simp
  ultimately show ?thesis unfolding prints_def by blast
qed

lemma prints_colour: "prints s (s\<lparr>scr_fg := fg, scr_bg := bg\<rparr>)" "prints s (s\<lparr>scr_bg := bg\<rparr>)"
  using prints_with [where s = s and c = "cursor s" and b = "c_base s" and fg = fg and bg = bg] prints_with [where s = s and c = "cursor s" and b = "c_base s" and fg = "scr_fg s" and bg = bg] by simp_all

lemma prints_cursor: "prints s (s\<lparr>cursor := c, c_base := b\<rparr>)" "prints s (s\<lparr>cursor := c\<rparr>)"
  using prints_with [where s = s and c = c and b = b and fg = "scr_fg s" and bg = "scr_bg s"] prints_with [where s = s and c = c and b = "c_base s" and fg = "scr_fg s" and bg = "scr_bg s"] by simp_all

lemma prints_printed: "nat i < length (cells s) \<Longrightarrow> prints s (printed s i c)"
proof -
  assume i: "nat i < length (cells s)"
  let ?c = "\<lparr>t_fg = scr_fg s, t_bg = scr_bg s, t_ch = c, t_dirty = (t_ch (cells s ! nat i) \<noteq> c \<or> t_fg (cells s ! nat i) \<noteq> scr_fg s \<or> t_bg (cells s ! nat i) \<noteq> scr_bg s \<or>
    t_dirty (cells s ! nat i))\<rparr>"
  have "printed s i c = s\<lparr>cells := (cells s)[nat i := ?c], scr_fg := scr_fg s, scr_bg := scr_bg s, cursor := cursor s, c_base := c_base s\<rparr>" by (simp add: printed_def Let_def)
  moreover have "shows_ok env (printed s i c)" if "shows_ok env s" for env
    using that i by (auto simp: shows_ok_def printed_def Let_def nth_list_update shown_def cell_pos_def cell_key_def)
  ultimately show "prints s (printed s i c)" unfolding prints_def by fastforce
qed

lemma do_print_ok: "term_ok s \<Longrightarrow> \<exists>s'. do_print s x y c = Some s' \<and> prints s s'"
proof (cases "0 \<le> x \<and> x < scr_w s \<and> 0 \<le> y \<and> y < scr_h s")
  case True
  assume s: "term_ok s"
  have "x + y * scr_w s < int (length (cells s))" using cell_index(2) [of x "scr_w s" y "scr_h s"] True s by (simp add: term_ok_def)
  moreover have "0 \<le> x + y * scr_w s" using cell_index(1) [of x "scr_w s" y "scr_h s"] True by simp
  ultimately have "nat (x + y * scr_w s) < length (cells s)" by linarith
  then show ?thesis using do_print_in [OF s] prints_printed True by blast
next
  case False
  then show ?thesis using do_print_out [of x y s c] by force
qed

lemma for_prints:
  assumes "\<And>x s'. x \<in> set xs \<Longrightarrow> prints s s' \<Longrightarrow> \<exists>s''. f x s' = Some s'' \<and> prints s' s''"
  shows "\<exists>s'. for_list f xs s = Some s' \<and> prints s s'"
  using assms
proof (induction xs arbitrary: s)
  case (Cons x xs)
  obtain s1 where 1: "f x s = Some s1" "prints s s1" using Cons.prems [of x s] by auto
  have "\<exists>s'. for_list f xs s1 = Some s' \<and> prints s1 s'"
    by (rule Cons.IH) (use Cons.prems 1(2) prints_trans in \<open>meson list.set_intros(2)\<close>)
  then show ?case using 1 prints_trans by auto
qed simp

lemma term_ok_prints: "prints s s' \<Longrightarrow> term_ok s \<Longrightarrow> term_ok s'"
  using printsD [of s s'] by (simp add: term_ok_def)

lemma screen_clear_ok: "term_ok s \<Longrightarrow> \<exists>s'. screen_clear s = Some s' \<and> prints s s'"
  unfolding screen_clear_def by (intro for_prints) (meson do_print_ok term_ok_prints prints_trans)

lemma screen_scroll_ok:
  assumes "term_ok s"
  shows "\<exists>s'. screen_scroll s = Some s' \<and> prints s s' \<and> scr_fg s' = scr_fg s \<and> scr_bg s' = scr_bg s"
proof -
  let ?row = "\<lambda>x y s. do {
             c \<leftarrow> cell_at s (x + y * scr_w s);
             d \<leftarrow> cell_at s (x + (y + 1) * scr_w s);
             do_print (s\<lparr>scr_fg := t_fg c, scr_bg := t_bg c\<rparr>) x y (t_ch d)
           }"
  have row: "\<exists>s''. ?row x y s' = Some s'' \<and> prints s' s''" if s': "prints s s'" and xy: "x \<in> set [0..scr_w s - 1]" "y \<in> set [0..scr_h s - 2]" for x y s'
  proof -
    have t: "term_ok s'" "scr_w s' = scr_w s" "scr_h s' = scr_h s" using term_ok_prints [OF s' assms] printsD [OF s'] by auto
    then obtain c d where "cell_at s' (x + y * scr_w s') = Some c" "cell_at s' (x + (y + 1) * scr_w s') = Some d"
      using cell_index [of x "scr_w s'" y "scr_h s'"] cell_index [of x "scr_w s'" "y + 1" "scr_h s'"] xy by (auto simp: cell_at_def term_ok_def)
    moreover obtain s'' where "do_print (s'\<lparr>scr_fg := t_fg c, scr_bg := t_bg c\<rparr>) x y (t_ch d) = Some s''" "prints (s'\<lparr>scr_fg := t_fg c, scr_bg := t_bg c\<rparr>) s''"
      using do_print_ok [OF term_ok_prints [OF prints_colour(1) t(1)]] by blast
    ultimately show ?thesis using prints_trans [OF prints_colour(1)] by auto
  qed
  have "\<exists>s'. for_list (\<lambda>x s'. do { s' \<leftarrow> for_list (?row x) [0..scr_h s - 2] s'; do_print (s'\<lparr>scr_fg := COLOR_WHITE, scr_bg := COLOR_BLACK\<rparr>) x (max 0 (scr_h s - 1)) 32 })
      [0..scr_w s - 1] s = Some s' \<and> prints s s'"
  proof (rule for_prints)
    fix x s' assume x: "x \<in> set [0..scr_w s - 1]" and s': "prints s s'"
    obtain s1 where 1: "for_list (?row x) [0..scr_h s - 2] s' = Some s1" "prints s' s1"
      using for_prints [of "[0..scr_h s - 2]" s' "?row x"] row [OF prints_trans [OF s'] x] by blast
    have "term_ok (s1\<lparr>scr_fg := COLOR_WHITE, scr_bg := COLOR_BLACK\<rparr>)"
      using term_ok_prints [OF prints_colour(1)] term_ok_prints [OF prints_trans [OF s' 1(2)] assms] by blast
    from do_print_ok [OF this] obtain s2 where "do_print (s1\<lparr>scr_fg := COLOR_WHITE, scr_bg := COLOR_BLACK\<rparr>) x (max 0 (scr_h s - 1)) 32 = Some s2"
      "prints (s1\<lparr>scr_fg := COLOR_WHITE, scr_bg := COLOR_BLACK\<rparr>) s2" by blast
    then show "\<exists>s''. do { s' \<leftarrow> for_list (?row x) [0..scr_h s - 2] s'; do_print (s'\<lparr>scr_fg := COLOR_WHITE, scr_bg := COLOR_BLACK\<rparr>) x (max 0 (scr_h s - 1)) 32 } = Some s'' \<and> prints s' s''"
      using 1 prints_trans prints_colour(1) by auto blast
  qed
  then obtain s' where s': "for_list (\<lambda>x s'. do { s' \<leftarrow> for_list (?row x) [0..scr_h s - 2] s'; do_print (s'\<lparr>scr_fg := COLOR_WHITE, scr_bg := COLOR_BLACK\<rparr>) x (max 0 (scr_h s - 1)) 32 })
      [0..scr_w s - 1] s = Some s'" "prints s s'" by blast
  then show ?thesis using prints_trans [OF s'(2) prints_colour(1)] by (auto simp: screen_scroll_def)
qed

lemma at_cursor_ok: "term_ok s \<Longrightarrow> \<exists>s'. at_cursor s c = Some s' \<and> prints s s'"
  using do_print_ok by (auto simp: at_cursor_def term_ok_def)

lemma then_prints:
  assumes "\<exists>s'. m = Some s' \<and> prints s s'" and "\<And>s'. prints s s' \<Longrightarrow> \<exists>s''. f s' = Some s'' \<and> prints s' s''"
  shows "\<exists>s'. (do { s \<leftarrow> m; f s }) = Some s' \<and> prints s s'"
  using assms prints_trans by fastforce

lemma fbterm_print_ok:
  assumes "term_ok s"
  shows "\<exists>s'. fbterm_print s c = Some s' \<and> prints s s'"
  unfolding fbterm_print_def Let_def
proof (intro then_prints, goal_cases)
  case 1
  then show ?case using screen_scroll_ok [OF assms] prints_trans prints_cursor(1) by (auto 4 4)
next
  case (2 s1)
  then have t: "term_ok s1" using term_ok_prints assms by blast
  then have w: "scr_w s1 \<noteq> 0" by (simp add: term_ok_def)
  obtain a b where "at_cursor s1 32 = Some a" "prints s1 a" "at_cursor s1 c = Some b" "prints s1 b" using at_cursor_ok [OF t] by metis
  then show ?case using w prints_trans [OF _ prints_cursor(1)] prints_trans [OF _ prints_cursor(2)] prints_cursor(1) by simp
next
  case (3 s1 s2)
  then have "term_ok s2" using term_ok_prints assms by blast
  then show ?case using at_cursor_ok [OF term_ok_prints [OF prints_colour(2)]] prints_trans [OF prints_colour(2)] by blast
qed (simp add: prints_colour(2))

lemma fbterm_clear_ok: "term_ok s \<Longrightarrow> \<exists>s'. fbterm_clear s = Some s' \<and> prints s s'"
  unfolding fbterm_clear_def by (intro then_prints screen_clear_ok) (simp_all add: prints_cursor)

section \<open>Drawing\<close>

definition term_env_ok :: "term_env \<Rightarrow> bool" where
  "term_env_ok env \<longleftrightarrow> 0 < f_width (te_font env) \<and> 0 < f_height (te_font env) \<and> room_for (te_font env) \<and> (\<forall>k. picture (te_font env) k \<noteq> None)"

definition drawable :: "term_env \<Rightarrow> terminal \<Rightarrow> bool" where
  "drawable env s \<longleftrightarrow> term_ok s \<and> shows_ok env s \<and> (\<exists>ks. cached (te_font env) (glyph_st s) ks)"

lemma shown_blit: "blits g = blits (glyph_st s) @ [(bm, x, y)] \<Longrightarrow> shown (s\<lparr>glyph_st := g, cells := ks\<rparr>) = (shown s)((x, y) \<mapsto> bm)"
  by (simp add: shown_def)

lemma cell_pos_inj:
  assumes "term_env_ok env" and "cell_pos env s i = cell_pos env s j"
  shows "i = j"
proof -
  have "int i mod scr_w s = int j mod scr_w s" "int i div scr_w s = int j div scr_w s" using assms by (auto simp: cell_pos_def term_env_ok_def)
  then have "int i = int j" by (metis div_mult_mod_eq)
  then show ?thesis by simp
qed

text \<open>One cell is drawn, and no other cell changes.\<close>

lemma draw_one:
  assumes "term_env_ok env" and "drawable env s" and "i < length (cells s)"
  shows "\<exists>g x. draw_cell (te_font env) (glyph_st s) (cell_key (cells s ! i)) (fst (cell_pos env s i)) (snd (cell_pos env s i)) = Some (x, g) \<and>
    drawable env (s\<lparr>glyph_st := g, cells := (cells s)[i := (cells s ! i)\<lparr>t_dirty := False\<rparr>]\<rparr>)"
proof -
  obtain ks bm where k: "cached (te_font env) (glyph_st s) ks" "picture (te_font env) (cell_key (cells s ! i)) = Some bm"
    using assms(1,2) unfolding drawable_def term_env_ok_def by blast
  obtain g where g: "draw_cell (te_font env) (glyph_st s) (cell_key (cells s ! i)) (fst (cell_pos env s i)) (snd (cell_pos env s i)) =
      Some (f_blit (te_font env) bm (fst (cell_pos env s i)) (snd (cell_pos env s i)), g)"
    "blits g = blits (glyph_st s) @ [(bm, cell_pos env s i)]" "\<exists>ks. cached (te_font env) g ks"
    using draw_cell_ok [OF k, of "fst (cell_pos env s i)" "snd (cell_pos env s i)"] assms(1) unfolding term_env_ok_def by auto
  let ?s = "s\<lparr>glyph_st := g, cells := (cells s)[i := (cells s ! i)\<lparr>t_dirty := False\<rparr>]\<rparr>"
  have sh: "shown ?s = (shown s)(cell_pos env s i \<mapsto> bm)" using shown_blit [of g s bm "fst (cell_pos env s i)" "snd (cell_pos env s i)"] g(2) by simp
  have pos: "cell_pos env ?s j = cell_pos env s j" for j by (simp add: cell_pos_def)
  have "shows_ok env ?s" unfolding shows_ok_def
  proof (intro allI impI)
    fix j assume j: "j < length (cells ?s)" "\<not> t_dirty (cells ?s ! j)"
    show "shown ?s (cell_pos env ?s j) = picture (te_font env) (cell_key (cells ?s ! j))"
    proof (cases "j = i")
      case True then show ?thesis using assms(3) k(2) by (simp add: sh pos cell_key_def)
    next
      case False
      then have "cell_pos env s j \<noteq> cell_pos env s i" using cell_pos_inj [OF assms(1)] by blast
      then show ?thesis using False j assms(2) by (simp add: sh pos drawable_def shows_ok_def)
    qed
  qed
  moreover have "term_ok ?s" using assms(2) by (simp add: term_ok_def drawable_def)
  ultimately show ?thesis using g(1,3) unfolding drawable_def by (intro exI [of _ g]) simp
qed

text \<open>States with the same characters, of which at least as many are drawn.\<close>

definition redrawn :: "terminal \<Rightarrow> terminal \<Rightarrow> bool" where
  "redrawn s s' \<longleftrightarrow> map cell_key (cells s') = map cell_key (cells s) \<and> scr_w s' = scr_w s \<and> scr_h s' = scr_h s \<and> cursor s' = cursor s \<and>
     (\<forall>j < length (cells s). \<not> t_dirty (cells s ! j) \<longrightarrow> \<not> t_dirty (cells s' ! j))"

lemma redrawn_refl [simp]: "redrawn s s"
  by (simp add: redrawn_def)

lemma redrawn_length: "redrawn s t \<Longrightarrow> length (cells t) = length (cells s)"
  by (auto simp: redrawn_def dest: map_eq_imp_length_eq)

lemma redrawn_trans: "redrawn s t \<Longrightarrow> redrawn t u \<Longrightarrow> redrawn s u"
  using redrawn_length [of s t] by (simp add: redrawn_def)

definition draw_step :: "bool \<Rightarrow> term_env \<Rightarrow> int \<Rightarrow> terminal \<Rightarrow> terminal option" where
  "draw_step all env i s = do {
     c \<leftarrow> cell_at s i;
     if all \<or> t_dirty c then do {
       (_, g) \<leftarrow> draw_cell (te_font env) (glyph_st s) (t_ch c, t_fg c, t_bg c) (i mod scr_w s * f_width (te_font env)) (i div scr_w s * f_height (te_font env));
       Some (s\<lparr>glyph_st := g, cells := (cells s)[nat i := c\<lparr>t_dirty := False\<rparr>]\<rparr>)
     }
     else Some s
   }"

lemma draw_step_ok:
  assumes "term_env_ok env" and "drawable env s" and "i < length (cells s)"
  shows "\<exists>s'. draw_step all env (int i) s = Some s' \<and> drawable env s' \<and> redrawn s s' \<and> \<not> t_dirty (cells s' ! i)"
proof (cases "all \<or> t_dirty (cells s ! i)")
  case True
  obtain g x where g: "draw_cell (te_font env) (glyph_st s) (cell_key (cells s ! i)) (fst (cell_pos env s i)) (snd (cell_pos env s i)) = Some (x, g)"
    "drawable env (s\<lparr>glyph_st := g, cells := (cells s)[i := (cells s ! i)\<lparr>t_dirty := False\<rparr>]\<rparr>)" using draw_one [OF assms] by blast
  let ?s = "s\<lparr>glyph_st := g, cells := (cells s)[i := (cells s ! i)\<lparr>t_dirty := False\<rparr>]\<rparr>"
  have "draw_step all env (int i) s = Some ?s" using True g(1) assms(3) by (simp add: draw_step_def cell_at_def cell_key_def cell_pos_def)
  moreover have "map cell_key ((cells s)[i := (cells s ! i)\<lparr>t_dirty := False\<rparr>]) = map cell_key (cells s)"
    using assms(3) by (intro nth_equalityI) (auto simp: nth_list_update cell_key_def)
  ultimately show ?thesis using g(2) assms(3) by (auto simp: redrawn_def nth_list_update)
next
  case False
  then show ?thesis using assms by (auto simp: draw_step_def cell_at_def)
qed

lemma draw_loop:
  assumes "term_env_ok env" and "drawable env s" and "\<forall>i \<in> set is. i < length (cells s)"
  shows "\<exists>s'. for_list (draw_step all env) (map int is) s = Some s' \<and> drawable env s' \<and> redrawn s s' \<and> (\<forall>i \<in> set is. \<not> t_dirty (cells s' ! i))"
  using assms(2,3)
proof (induction "is" arbitrary: s)
  case (Cons i "is")
  obtain s1 where 1: "draw_step all env (int i) s = Some s1" "drawable env s1" "redrawn s s1" "\<not> t_dirty (cells s1 ! i)"
    using draw_step_ok [OF assms(1) Cons.prems(1)] Cons.prems(2) by (meson list.set_intros(1))
  obtain s2 where 2: "for_list (draw_step all env) (map int is) s1 = Some s2" "drawable env s2" "redrawn s1 s2" "\<forall>i \<in> set is. \<not> t_dirty (cells s2 ! i)"
    using Cons.IH [OF 1(2)] Cons.prems(2) redrawn_length [OF 1(3)] by auto
  have "\<not> t_dirty (cells s2 ! i)" using 1(3,4) 2(3) Cons.prems(2) redrawn_length [OF 1(3)] by (simp add: redrawn_def)
  then show ?case using 1 2 redrawn_trans by auto
qed auto

lemma upto_map_int: "[0..int n - 1] = map int [0..<n]"
  by (induction n) (simp_all add: upto_rec2)

lemma drawable_flips [simp]: "drawable env (s\<lparr>flips := n\<rparr>) = drawable env s"
  by (simp add: drawable_def term_ok_def shows_ok_def shown_def cell_pos_def)

definition all_shown :: "term_env \<Rightarrow> terminal \<Rightarrow> bool" where
  "all_shown env s \<longleftrightarrow> (\<forall>i < length (cells s). shown s (cell_pos env s i) = picture (te_font env) (cell_key (cells s ! i)))"

lemma draw_cells_ok:
  assumes "term_env_ok env" and "drawable env s"
  shows "\<exists>s'. draw_cells all env s = Some s' \<and> drawable env s' \<and> map cell_key (cells s') = map cell_key (cells s) \<and> all_shown env s' \<and> cursor s' = cursor s \<and> scr_w s' = scr_w s"
proof -
  have "scr_w s * scr_h s - 1 = int (length (cells s)) - 1" using assms(2) by (simp add: drawable_def term_ok_def)
  then have eq: "draw_cells all env s = map_option (\<lambda>s. s\<lparr>flips := flips s + 1\<rparr>) (for_list (draw_step all env) (map int [0..<length (cells s)]) s)"
    unfolding draw_cells_def draw_step_def [abs_def] upto_map_int [symmetric] by (simp add: map_conv_bind_option comp_def)
  obtain s' where s': "for_list (draw_step all env) (map int [0..<length (cells s)]) s = Some s'" "drawable env s'" "redrawn s s'"
      "\<forall>i < length (cells s). \<not> t_dirty (cells s' ! i)" using draw_loop [OF assms, of "[0..<length (cells s)]" all] by auto
  have sh: "all_shown env s'" using s'(2,4) redrawn_length [OF s'(3)] unfolding all_shown_def drawable_def shows_ok_def by simp
  let ?s = "s'\<lparr>flips := flips s' + 1\<rparr>"
  have "all_shown env ?s" using sh unfolding all_shown_def by (simp add: shown_def cell_pos_def)
  moreover have "drawable env ?s" "map cell_key (cells ?s) = map cell_key (cells s)" "cursor ?s = cursor s" "scr_w ?s = scr_w s" using s'(2,3) by (simp_all add: redrawn_def)
  ultimately show ?thesis using eq s'(1) by simp
qed

section \<open>Writing\<close>

definition keys :: "terminal \<Rightarrow> (u32 \<times> u32 \<times> u32) list" where
  "keys s = map cell_key (cells s)"

lemma keys_printed: "keys (printed s i c) = (keys s)[nat i := (c, scr_fg s, scr_bg s)]"
  by (simp add: keys_def printed_def Let_def map_update cell_key_def)

lemma keys_bg [simp]: "keys (s\<lparr>scr_bg := b\<rparr>) = keys s" "keys (s\<lparr>cursor := n\<rparr>) = keys s" "scr_fg (printed s i c) = scr_fg s" "scr_bg (printed s i c) = scr_bg s" "cursor (printed s i c) = cursor s"
  "scr_w (printed s i c) = scr_w s" "scr_h (printed s i c) = scr_h s"
  by (simp_all add: keys_def printed_def Let_def)

lemma at_cursor_in:
  assumes "term_ok s" and "0 \<le> cursor s" and "cursor s < scr_w s * scr_h s"
  shows "at_cursor s c = Some (printed s (cursor s) c)"
proof -
  have w: "0 < scr_w s" using assms(1) by (simp add: term_ok_def)
  then have m: "cursor s smod scr_w s = cursor s mod scr_w s" "cursor s sdiv scr_w s = cursor s div scr_w s"
    using assms(2) by (simp_all add: signed_modulo_int_def signed_divide_int_def sgn_if minus_div_mult_eq_mod)
  have "cursor s div scr_w s * scr_w s \<le> cursor s" using div_mult_mod_eq [of "cursor s" "scr_w s"] pos_mod_sign [OF w, of "cursor s"] by linarith
  then have "cursor s div scr_w s * scr_w s < scr_h s * scr_w s" using assms(3) by (simp add: mult.commute)
  then have "cursor s div scr_w s < scr_h s" using w by simp
  then have "do_print s (cursor s mod scr_w s) (cursor s div scr_w s) c = Some (printed s (cursor s mod scr_w s + cursor s div scr_w s * scr_w s) c)"
    using w assms(1,2) by (intro do_print_in) (simp_all add: pos_imp_zdiv_nonneg_iff)
  then show ?thesis using w by (simp add: at_cursor_def m)
qed

abbreviation plain :: "u32 \<Rightarrow> bool" where "plain c \<equiv> c \<notin> {0, 8, 9, 10, 13}"

lemma print_plain:
  assumes "term_ok s" and "0 \<le> cursor s" and "cursor s \<le> scr_w s * scr_h s - 2" and "plain c"
  shows "\<exists>s'. fbterm_print s c = Some s' \<and> prints s s' \<and> cursor s' = cursor s + 1 \<and> scr_fg s' = scr_fg s \<and> scr_bg s' = scr_bg s \<and>
    keys s' = (keys s)[nat (cursor s) := (c, scr_fg s, scr_bg s), nat (cursor s + 1) := (32, scr_fg s, COLOR_LGRAY)]"
proof -
  let ?s = "(printed s (cursor s) c)\<lparr>cursor := cursor s + 1, scr_bg := COLOR_LGRAY\<rparr>"
  have 1: "at_cursor s c = Some (printed s (cursor s) c)" using assms by (intro at_cursor_in) auto
  have "term_ok ?s" using assms(1) by (simp add: term_ok_def printed_def Let_def)
  then have 2: "at_cursor ?s 32 = Some (printed ?s (cursor s + 1) 32)" using at_cursor_in [of ?s] assms(2,3) by simp
  have "fbterm_print s c = Some ((printed ?s (cursor s + 1) 32)\<lparr>scr_bg := scr_bg s\<rparr>)" using assms(3,4) 1 2 by (simp add: fbterm_print_def)
  moreover have "prints s ((printed ?s (cursor s + 1) 32)\<lparr>scr_bg := scr_bg s\<rparr>)" using fbterm_print_ok [OF assms(1), of c] calculation by simp
  moreover have "keys (printed ?s (cursor s + 1) 32) = (keys s)[nat (cursor s) := (c, scr_fg s, scr_bg s), nat (cursor s + 1) := (32, scr_fg s, COLOR_LGRAY)]"
    by (simp add: keys_printed)
  ultimately show ?thesis by simp
qed

lemma print_text:
  assumes "term_ok s" and "0 \<le> cursor s" and "cursor s + int (length bs) \<le> scr_w s * scr_h s - 1" and "\<forall>b \<in> set bs. plain (ucast (b :: u8))"
  shows "\<exists>s'. for_list (\<lambda>b s. fbterm_print s (ucast b)) bs s = Some s' \<and> prints s s' \<and> cursor s' = cursor s + int (length bs) \<and> scr_fg s' = scr_fg s \<and> scr_bg s' = scr_bg s \<and>
    (\<forall>j < nat (cursor s). keys s' ! j = keys s ! j) \<and> (\<forall>i < length bs. keys s' ! (nat (cursor s) + i) = (ucast (bs ! i), scr_fg s, scr_bg s))"
  using assms
proof (induction bs arbitrary: s)
  case (Cons b bs)
  obtain s1 where 1: "fbterm_print s (ucast b) = Some s1" "prints s s1" "cursor s1 = cursor s + 1" "scr_fg s1 = scr_fg s" "scr_bg s1 = scr_bg s"
    "keys s1 = (keys s)[nat (cursor s) := (ucast b, scr_fg s, scr_bg s), nat (cursor s + 1) := (32, scr_fg s, COLOR_LGRAY)]"
    using print_plain [of s "ucast b"] Cons.prems by (auto simp del: list_update.simps)
  have t: "term_ok s1" "scr_w s1 = scr_w s" "scr_h s1 = scr_h s" using term_ok_prints [OF 1(2) Cons.prems(1)] printsD [OF 1(2)] by auto
  obtain s2 where 2: "for_list (\<lambda>b s. fbterm_print s (ucast b)) bs s1 = Some s2" "prints s1 s2" "cursor s2 = cursor s1 + int (length bs)" "scr_fg s2 = scr_fg s1" "scr_bg s2 = scr_bg s1"
    "\<forall>j < nat (cursor s1). keys s2 ! j = keys s1 ! j" "\<forall>i < length bs. keys s2 ! (nat (cursor s1) + i) = (ucast (bs ! i), scr_fg s1, scr_bg s1)"
    using Cons.IH [OF t(1)] Cons.prems 1(3) t by auto
  have n: "nat (cursor s + 1) = Suc (nat (cursor s))" using Cons.prems(2) by simp
  have "nat (cursor s) < length (keys s)" using Cons.prems by (simp add: term_ok_def keys_def nat_less_iff)
  then have "keys s1 ! nat (cursor s) = (ucast b, scr_fg s, scr_bg s)" by (simp add: 1(6) n)
  then have "keys s2 ! nat (cursor s) = (ucast b, scr_fg s, scr_bg s)" using 2(6) by (simp add: 1(3) n)
  then have "keys s2 ! (nat (cursor s) + i) = (ucast ((b # bs) ! i), scr_fg s, scr_bg s)" if "i < length (b # bs)" for i
    using 2(7) that by (cases i) (simp_all add: 1(3-5) n)
  moreover have "keys s2 ! j = keys s ! j" if "j < nat (cursor s)" for j using that 2(6) by (simp add: 1(3,6) n)
  ultimately show ?case using 1(1-5) 2 prints_trans [OF 1(2) 2(2)] by auto
qed simp

lemma drawable_prints: "prints s s' \<Longrightarrow> drawable env s \<Longrightarrow> drawable env s'"
  using term_ok_prints printsD(4) [of s s'] unfolding drawable_def by (metis prints_def)


section \<open>Lines\<close>

definition line_room :: "term_env \<Rightarrow> bool" where
  "line_room env \<longleftrightarrow> (\<forall>m. card (dom m) < 2 ^ 25 \<longrightarrow> te_line env m \<noteq> 0 \<and> m (te_line env m) = None)"

definition prevs :: "terminal \<Rightarrow> ptr \<Rightarrow> ptr option" where
  "prevs s p = map_option l_prev (lines_at s p)"

definition waiting :: "terminal \<Rightarrow> u8 list list \<Rightarrow> bool" where
  "waiting s ls \<longleftrightarrow> (\<exists>ps. chain (prevs s) (line_buf_out s) ps \<and> map (\<lambda>p. map_option l_data (lines_at s p)) ps = map Some ls \<and> dom (lines_at s) = set ps \<and>
     (line_buf_in s = 0 \<longleftrightarrow> ps = []))"

lemma waiting_frame [simp]: "waiting (s\<lparr>tbuffer := b, buffer_size := n\<rparr>) ls = waiting s ls" "waiting (s\<lparr>line_pos := k, cur_line := c\<rparr>) ls = waiting s ls"
  by (simp_all add: waiting_def prevs_def [abs_def])

lemma push_line_ok:
  assumes "waiting s ls" and "line_room env" and "length ls < 2 ^ 25"
  shows "\<exists>s'. push_line env s l = Some s' \<and> waiting s' (l # ls) \<and> tbuffer s' = tbuffer s \<and> cur_line s' = cur_line s"
proof -
  obtain ps where ps: "chain (prevs s) (line_buf_out s) ps" "map (\<lambda>p. map_option l_data (lines_at s p)) ps = map Some ls" "dom (lines_at s) = set ps" "line_buf_in s = 0 \<longleftrightarrow> ps = []"
    using assms(1) unfolding waiting_def by blast
  define p where "p = te_line env (lines_at s)"
  have "length ps = length ls" using ps(2) by (metis length_map)
  then have "card (dom (lines_at s)) < 2 ^ 25" using assms(3) card_length [of ps] by (simp add: ps(3))
  then have p: "p \<noteq> 0" "p \<notin> set ps" using assms(2) ps(3) unfolding line_room_def p_def by (blast, metis domIff)
  show ?thesis
  proof (cases "ps = []")
    case True
    then show ?thesis using ps p(1) unfolding p_def
      by (auto simp: push_line_def Let_def waiting_def prevs_def intro!: exI [of _ "[te_line env (lines_at s)]"])
  next
    case False
    then obtain q qs where q: "ps = q # qs" "line_buf_out s = q" using ps(1) by (cases ps) auto
    then obtain e where e: "lines_at s q = Some e" using ps(3) by auto
    define m where "m = (lines_at s)(p \<mapsto> \<lparr>l_next = 0, l_prev = q, l_data = l\<rparr>, q \<mapsto> e\<lparr>l_next := p\<rparr>)"
    let ?s = "s\<lparr>lines_at := m, line_buf_out := p\<rparr>"
    have "push_line env s l = Some ?s" using False ps(4) p q e by (simp add: push_line_def p_def [symmetric] m_def fun_upd_twist)
    moreover have m: "m r = lines_at s r \<or> r = q \<and> m r = Some (e\<lparr>l_next := p\<rparr>)" if "r \<in> set ps" for r using that p(2) by (auto simp: m_def)
    have "prevs ?s r = prevs s r" "map_option l_data (m r) = map_option l_data (lines_at s r)" if "r \<in> set ps" for r using m [OF that] e by (auto simp: prevs_def)
    then have "chain (prevs ?s) q ps" "map (\<lambda>p. map_option l_data (m p)) ps = map Some ls" using chain_cong [of ps "prevs ?s" "prevs s"] ps(1,2) q(2) by (auto cong: map_cong)
    moreover have "m p = Some \<lparr>l_next = 0, l_prev = q, l_data = l\<rparr>" "dom m = insert p (set ps)" using p q(1) ps(3) by (auto simp: m_def)
    ultimately show ?thesis using p False ps(4) by (intro exI [of _ ?s]) (auto simp: waiting_def prevs_def intro!: exI [of _ "p # ps"])
  qed
qed

lemma take_line_ok:
  assumes "waiting s (l # ls)"
  shows "line_buf_out s \<noteq> 0 \<and> (\<exists>s'. take_line s = Some (l, s') \<and> waiting s' ls \<and> tbuffer s' = tbuffer s \<and> cur_line s' = cur_line s)"
proof -
  obtain ps where ps: "chain (prevs s) (line_buf_out s) ps" "map (\<lambda>p. map_option l_data (lines_at s p)) ps = map Some (l # ls)" "dom (lines_at s) = set ps" "line_buf_in s = 0 \<longleftrightarrow> ps = []"
    using assms unfolding waiting_def by blast
  then obtain q qs where "ps = q # qs" by (cases ps) auto
  then have q: "chain (prevs s) (line_buf_out s) (q # qs)" "map (\<lambda>p. map_option l_data (lines_at s p)) (q # qs) = map Some (l # ls)" "dom (lines_at s) = set (q # qs)"
    "line_buf_in s \<noteq> 0" using ps by auto
  then obtain e where e1: "lines_at s q = Some e" by auto
  then have e: "lines_at s q = Some e" "l_data e = l" "line_buf_out s = q" "q \<noteq> 0" "chain (prevs s) (l_prev e) qs" using q(1,2) prevs_def [of s q] by simp_all
  have d: "q \<notin> set qs" using chain_distinct [OF q(1)] by simp
  let ?s = "s\<lparr>lines_at := (lines_at s)(q := None), line_buf_out := l_prev e, line_buf_in := (if l_prev e = 0 then 0 else line_buf_in s)\<rparr>"
  have "prevs ?s r = prevs s r" if "r \<in> set qs" for r using that d by (auto simp: prevs_def)
  then have 1: "chain (prevs ?s) (line_buf_out ?s) qs" using e(5) chain_cong [of qs "prevs ?s" "prevs s"] by simp
  have "map (\<lambda>p. map_option l_data (lines_at ?s p)) qs = map (\<lambda>p. map_option l_data (lines_at s p)) qs" using d by (intro map_cong) auto
  also have "\<dots> = map Some ls" using q(2) by simp
  finally have 2: "map (\<lambda>p. map_option l_data (lines_at ?s p)) qs = map Some ls" .
  have 3: "dom (lines_at ?s) = set qs" using q(3) d by auto
  have 4: "line_buf_in ?s = 0 \<longleftrightarrow> qs = []" using e(5) q(4) by (cases qs) auto
  have "waiting ?s ls" unfolding waiting_def using 1 2 3 4 by blast
  then show ?thesis using e by (simp add: take_line_def)
qed

text \<open>A line that can be typed and read back: without backspaces, newlines and zeros, and short enough not to be cut.\<close>

definition line_ok :: "u8 list \<Rightarrow> bool" where
  "line_ok l \<longleftrightarrow> length l \<le> 195 \<and> set l \<inter> {0, 8, 10} = {}"

lemma type_chars:
  assumes "set l \<inter> {8, 10} = {}" and "length b + length l \<le> 195" and "tbuffer s = Some b" and "buffer_size s = 256"
  shows "for_list (\<lambda>c s. fbterm_buffer env s c) l s = Some (s\<lparr>tbuffer := Some (b @ l)\<rparr>)"
  using assms
proof (induction l arbitrary: b s)
  case (Cons c l)
  have "fbterm_buffer env s c = Some (s\<lparr>tbuffer := Some (b @ [c])\<rparr>)" using Cons.prems by (simp add: fbterm_buffer_def)
  then show ?case using Cons.IH [of "b @ [c]" "s\<lparr>tbuffer := Some (b @ [c])\<rparr>"] Cons.prems by simp
qed simp

lemma type_line:
  assumes "line_ok l" and "tbuffer s = None" and "waiting s ls" and "line_room env" and "length ls < 2 ^ 25"
  shows "\<exists>s'. for_list (\<lambda>c s. fbterm_buffer env s c) (l @ [10]) s = Some s' \<and> tbuffer s' = None \<and> cur_line s' = cur_line s \<and> waiting s' ((l @ [10, 0]) # ls)"
proof -
  have b: "fbterm_buffer env s c = fbterm_buffer env (s\<lparr>tbuffer := Some [], buffer_size := 256\<rparr>) c" for c using assms(2) by (simp add: fbterm_buffer_def)
  let ?s = "s\<lparr>tbuffer := Some [], buffer_size := 256\<rparr>"
  have "for_list (\<lambda>c s. fbterm_buffer env s c) (l @ [10]) s = for_list (\<lambda>c s. fbterm_buffer env s c) (l @ [10]) ?s" by (cases l) (simp_all add: b)
  also have "\<dots> = fbterm_buffer env (?s\<lparr>tbuffer := Some l\<rparr>) 10"
    using type_chars [of l "[]" ?s env] assms(1) by (auto simp: for_list_append line_ok_def)
  also have "\<dots> = push_line env (s\<lparr>tbuffer := None, buffer_size := 256\<rparr>) (l @ [10, 0])" using assms(1) by (simp add: fbterm_buffer_def line_ok_def)
  finally show ?thesis using push_line_ok [of "s\<lparr>tbuffer := None, buffer_size := 256\<rparr>" ls env "l @ [10, 0]"] assms(3-5) by auto
qed

lemma read_rest:
  assumes "set l \<inter> {0, 10} = {}" and "cur_line s = Some (b @ l @ [10, 0])" and "line_pos s = length b"
  shows "\<exists>k. fbterm_read env s (Suc (length l)) sleeps = Some (l @ [10], s\<lparr>line_pos := k, cur_line := None\<rparr>)"
  using assms
proof (induction l arbitrary: b s)
  case Nil
  then show ?case by (intro exI [of _ "Suc (length b)"]) (simp add: fbterm_getch_def nth_append)
next
  case (Cons c l)
  have "fbterm_getch env s sleeps = Some (c, s\<lparr>line_pos := line_pos s + 1, cur_line := Some (b @ (c # l) @ [10, 0])\<rparr>, sleeps)"
    using Cons.prems by (simp add: fbterm_getch_def nth_append)
  then show ?case using Cons.IH [of "s\<lparr>line_pos := line_pos s + 1, cur_line := Some (b @ (c # l) @ [10, 0])\<rparr>" "b @ [c]"] Cons.prems by auto
qed

lemma read_line:
  assumes "line_ok l" and "cur_line s = None" and "waiting s ((l @ [10, 0]) # ls)"
  shows "\<exists>s'. fbterm_read env s (Suc (length l)) sleeps = Some (l @ [10], s') \<and> cur_line s' = None \<and> waiting s' ls"
proof -
  obtain s1 where 1: "line_buf_out s \<noteq> 0" "take_line s = Some (l @ [10, 0], s1)" "waiting s1 ls" using take_line_ok [OF assms(3)] by blast
  let ?s = "s1\<lparr>line_pos := 0, cur_line := Some (l @ [10, 0])\<rparr>"
  have "pop_line env s sleeps = Some (l @ [10, 0], s1, sleeps)" using 1(1,2) by (subst pop_line.simps) simp
  then have "fbterm_getch env s sleeps = fbterm_getch env ?s sleeps" using assms(2) by (simp add: fbterm_getch_def)
  then have "fbterm_read env s (Suc (length l)) sleeps = fbterm_read env ?s (Suc (length l)) sleeps" by simp
  moreover obtain k where "fbterm_read env ?s (Suc (length l)) sleeps = Some (l @ [10], ?s\<lparr>line_pos := k, cur_line := None\<rparr>)"
    using read_rest [of l ?s "[]" env sleeps] assms(1) by (auto simp: line_ok_def)
  ultimately show ?thesis using 1(3) by (simp del: fbterm_read.simps)
qed

text \<open>Reading lines of known lengths, one after another.\<close>

primrec read_lines :: "term_env \<Rightarrow> terminal \<Rightarrow> nat list \<Rightarrow> (u8 list list \<times> terminal) option" where
  "read_lines env s [] = Some ([], s)"
| "read_lines env s (n # ns) = do { (l, s) \<leftarrow> fbterm_read env s n []; (ls, s) \<leftarrow> read_lines env s ns; Some (l # ls, s) }"

lemma type_lines:
  assumes "\<forall>l \<in> set ls. line_ok l" and "tbuffer s = None" and "waiting s ws" and "line_room env" and "length ls + length ws < 2 ^ 25"
  shows "\<exists>s'. for_list (\<lambda>c s. fbterm_buffer env s c) (concat (map (\<lambda>l. l @ [10]) ls)) s = Some s' \<and> cur_line s' = cur_line s \<and> waiting s' (map (\<lambda>l. l @ [10, 0]) (rev ls) @ ws)"
  using assms(1-3,5)
proof (induction ls arbitrary: s ws)
  case (Cons l ls)
  obtain s1 where 1: "for_list (\<lambda>c s. fbterm_buffer env s c) (l @ [10]) s = Some s1" "tbuffer s1 = None" "cur_line s1 = cur_line s" "waiting s1 ((l @ [10, 0]) # ws)"
    using type_line [of l s ws env] assms(4) Cons.prems by auto
  let ?type = "for_list (\<lambda>c s. fbterm_buffer env s c)"
  have "?type (concat (map (\<lambda>l. l @ [10]) (l # ls))) s = ?type (concat (map (\<lambda>l. l @ [10]) ls)) s1" using 1(1) by (simp only: list.map concat.simps for_list_append Option.bind.simps)
  then show ?case using Cons.IH [OF _ 1(2,4)] Cons.prems 1(3) by simp
qed simp

lemma read_back:
  assumes "\<forall>l \<in> set ls. line_ok l" and "cur_line s = None" and "waiting s (map (\<lambda>l. l @ [10, 0]) ls @ ws)"
  shows "\<exists>s'. read_lines env s (map (\<lambda>l. Suc (length l)) ls) = Some (map (\<lambda>l. l @ [10]) ls, s') \<and> waiting s' ws"
  using assms
proof (induction ls arbitrary: s)
  case (Cons l ls)
  obtain s1 where "fbterm_read env s (Suc (length l)) [] = Some (l @ [10], s1)" "cur_line s1 = None" "waiting s1 (map (\<lambda>l. l @ [10, 0]) ls @ ws)"
    using read_line [of l s "map (\<lambda>l. l @ [10, 0]) ls @ ws" env "[]"] Cons.prems by auto
  then show ?case using Cons.IH [of s1] Cons.prems(1) by (auto simp del: fbterm_read.simps)
qed simp

text \<open>
  Typed lines are read back whole, but the last one first: the lines that wait are a stack, and not the queue that its names \<open>line_buf_in\<close> and \<open>line_buf_out\<close> suggest. A single line is read as it was typed; when several
  lines were typed before the first is read, reading returns them in reverse, and none is left.
\<close>

theorem lines_reversed:
  assumes "\<forall>l \<in> set ls. line_ok l" and "tbuffer s = None" and "cur_line s = None" and "waiting s []" and "line_room env" and "length ls < 2 ^ 25"
  shows "\<exists>s1 s2. for_list (\<lambda>c s. fbterm_buffer env s c) (concat (map (\<lambda>l. l @ [10]) ls)) s = Some s1 \<and>
    read_lines env s1 (map (\<lambda>l. Suc (length l)) (rev ls)) = Some (map (\<lambda>l. l @ [10]) (rev ls), s2) \<and> waiting s2 []"
proof -
  obtain s1 where 1: "for_list (\<lambda>c s. fbterm_buffer env s c) (concat (map (\<lambda>l. l @ [10]) ls)) s = Some s1" "cur_line s1 = None" "waiting s1 (map (\<lambda>l. l @ [10, 0]) (rev ls) @ [])"
    using type_lines [OF assms(1,2,4,5)] assms(3,6) by auto
  then show ?thesis using read_back [OF _ 1(2,3), of env] assms(1) by auto
qed

text \<open>A terminal of three by two cells, with the font of one dot per character.\<close>

definition term_env0 :: term_env where
  "term_env0 = \<lparr>te_font = dot_font, te_line = first_free, te_cell = (\<lambda>_. \<lparr>t_fg = 0, t_bg = 0, t_ch = 0, t_dirty = True\<rparr>)\<rparr>"

definition term0 :: terminal where
  "term0 = \<lparr>cells = replicate 6 \<lparr>t_fg = 7, t_bg = 1, t_ch = 32, t_dirty = True\<rparr>, scr_fg = 7, scr_bg = 1, scr_w = 3, scr_h = 2, cursor = 0, c_base = 0,
     glyph_st = \<lparr>gnodes = Map.empty, gcache = 0, glast = 0, cache_size = 0, blits = []\<rparr>, flips = 0, lines_at = Map.empty, line_buf_in = 0, line_buf_out = 0, cur_line = None, line_pos = 0,
     tbuffer = None, buffer_size = 0, fgjob_pid = 0, ctrl = False, kills = []\<rparr>"

lemma dot_picture: "picture dot_font (c, fg, bg) = Some [fg, bg, bg, bg]"
  by (simp add: picture_def dot_font_def render_def put_dot_def numeral_eq_Suc)

lemma term_env0_ok: "term_env_ok term_env0" "line_room term_env0"
  using dot_picture by (auto simp: term_env_ok_def term_env0_def line_room_def room_for_def first_free_ok) (simp_all add: dot_font_def first_free_ok)

lemma term0_ok: "drawable term_env0 term0" "waiting term0 []"
  by (auto simp: drawable_def term_ok_def shows_ok_def cached_def glyph_list_def waiting_def term0_def less_Suc_eq numeral_eq_Suc)


theorem lines_reversed_witness:
  "\<exists>s1 s2. for_list (\<lambda>c s. fbterm_buffer term_env0 s c) [97, 10, 98, 99, 10] term0 = Some s1 \<and> read_lines term_env0 s1 [3, 2] = Some ([[98, 99, 10], [97, 10]], s2) \<and> waiting s2 []"
proof -
  let ?ls = "[[97], [98, 99]] :: u8 list list"
  have h: "\<forall>l \<in> set ?ls. line_ok l" "tbuffer term0 = None" "cur_line term0 = None" "length ?ls < 2 ^ 25" by (simp_all add: term0_def line_ok_def)
  have e: "concat (map (\<lambda>l. l @ [10]) ?ls) = [97, 10, 98, 99, 10]" "map (\<lambda>l. Suc (length l)) (rev ?ls) = [3, 2]" "map (\<lambda>l. l @ [10]) (rev ?ls) = [[98, 99, 10], [97, 10]]" by simp_all
  show ?thesis by (rule lines_reversed [OF h(1-3) term0_ok(2) term_env0_ok(2) h(4), unfolded e])
qed

text \<open>
  A line of 196 characters is cut, without a newline: it is read up to its terminator, and the next read goes on behind the end of its buffer.
\<close>

lemma read_cut:
  assumes "set l \<inter> {0, 10} = {}" and "cur_line s = Some (b @ l @ [0])" and "line_pos s = length b"
  shows "fbterm_read env s (Suc (length l)) sleeps = Some (l, s\<lparr>line_pos := length (b @ l @ [0])\<rparr>)"
  using assms
proof (induction l arbitrary: b s)
  case Nil
  then show ?case by (simp add: fbterm_getch_def nth_append)
next
  case (Cons c l)
  let ?s = "s\<lparr>line_pos := length (b @ [c])\<rparr>"
  have "fbterm_getch env s sleeps = Some (c, ?s, sleeps)" using Cons.prems by (cases s) (simp add: fbterm_getch_def nth_append)
  then have "fbterm_read env s (Suc (length (c # l))) sleeps = do { (buffer, s) \<leftarrow> fbterm_read env ?s (Suc (length l)) sleeps; Some (c # buffer, s) }" using Cons.prems(1) by simp
  also have "fbterm_read env ?s (Suc (length l)) sleeps = Some (l, ?s\<lparr>line_pos := length ((b @ [c]) @ l @ [0])\<rparr>)" using Cons.prems by (intro Cons.IH) simp_all
  finally show ?case by simp
qed

lemma type_long:
  assumes "length l = 196" and "set l \<inter> {8, 10} = {}" and "tbuffer s = None"
  shows "for_list (\<lambda>c s. fbterm_buffer env s c) l s = push_line env (s\<lparr>tbuffer := None, buffer_size := 256\<rparr>) (l @ [0])"
proof -
  let ?s = "s\<lparr>tbuffer := Some [], buffer_size := 256\<rparr>"
  have "fbterm_buffer env s c = fbterm_buffer env ?s c" for c using assms(3) by (simp add: fbterm_buffer_def)
  then have "for_list (\<lambda>c s. fbterm_buffer env s c) l s = for_list (\<lambda>c s. fbterm_buffer env s c) l ?s" using assms(1) by (cases l) simp_all
  moreover obtain m c where l: "l = m @ [c]" using assms(1) by (cases l rule: rev_cases) auto
  moreover have "for_list (\<lambda>c s. fbterm_buffer env s c) m ?s = Some (?s\<lparr>tbuffer := Some m\<rparr>)" using type_chars [of m "[]" ?s env] assms(1,2) l by simp
  ultimately show ?thesis using assms(1,2) by (simp add: for_list_append fbterm_buffer_def)
qed

theorem long_line_overrun:
  assumes "length l = 196" and "set l \<inter> {0, 8, 10} = {}" and "tbuffer s = None" and "cur_line s = None" and "waiting s []" and "line_room env"
  shows "\<exists>s1 s2. for_list (\<lambda>c s. fbterm_buffer env s c) l s = Some s1 \<and> fbterm_read env s1 197 [] = Some (l, s2) \<and> fbterm_read env s2 (Suc n) sleeps = None"
proof -
  obtain s1 where 1: "for_list (\<lambda>c s. fbterm_buffer env s c) l s = Some s1" "waiting s1 [l @ [0]]" "cur_line s1 = None"
    using type_long [OF assms(1) _ assms(3), of env] push_line_ok [of "s\<lparr>tbuffer := None, buffer_size := 256\<rparr>" "[]" env "l @ [0]"] assms(2,4-6) by auto
  obtain s2 where 2: "line_buf_out s1 \<noteq> 0" "take_line s1 = Some (l @ [0], s2)" using take_line_ok [OF 1(2)] by blast
  let ?s = "s2\<lparr>line_pos := 0, cur_line := Some (l @ [0])\<rparr>"
  have "pop_line env s1 [] = Some (l @ [0], s2, [])" using 2 by (subst pop_line.simps) simp
  then have "fbterm_getch env s1 [] = fbterm_getch env ?s []" using 1(3) by (simp add: fbterm_getch_def)
  then have "fbterm_read env s1 (Suc (length l)) [] = fbterm_read env ?s (Suc (length l)) []" by simp
  also have "\<dots> = Some (l, ?s\<lparr>line_pos := length (l @ [0])\<rparr>)" using read_cut [of l ?s "[]" env "[]"] assms(2) by (simp del: fbterm_read.simps)
  finally have "fbterm_read env s1 197 [] = Some (l, ?s\<lparr>line_pos := length (l @ [0])\<rparr>)" by (simp del: fbterm_read.simps add: assms(1))
  moreover have "fbterm_read env (?s\<lparr>line_pos := length (l @ [0])\<rparr>) (Suc n) sleeps = None" by (simp add: fbterm_getch_def)
  ultimately show ?thesis using 1(1) by blast
qed

end
