(* ===== verification/Calendar.thy ===== *)
theory Calendar
  imports Kernel_Prelude "HOL-Library.Signed_Division"
begin

text \<open>
  Calendar time of the C library, \<open>libc/time\<close> (\<open>gmtime_r.c\<close>, \<open>mktime.c\<close>), and the clock of the computer, \<open>driver/time/rtc.c\<close>. Times are \<open>int\<close>; every intermediate value of the functions is in
  the range of the type for the times that the theorems are about. An access outside a table is \<^const>\<open>None\<close>.
\<close>

section \<open>Calendar time\<close>

record tm =
  tm_offset :: int
  tm_isdst :: int
  tm_year :: int
  tm_mon :: int
  tm_yday :: int
  tm_mday :: int
  tm_wday :: int
  tm_hour :: int
  tm_min :: int
  tm_sec :: int

definition leapyear :: "int \<Rightarrow> bool" where
  "leapyear year = (let year = year - 100 in year smod 4 = 0 \<and> year smod 100 \<noteq> 0 \<or> year smod 400 = 0)"

definition month_limit :: "int list" where
  "month_limit = [32, 60, 91, 121, 152, 182, 213, 244, 274, 305, 335, 366]"

definition month_limit_leap :: "int list" where
  "month_limit_leap = [32, 61, 92, 122, 153, 183, 214, 245, 275, 306, 336, 367]"

definition year_days :: "int \<Rightarrow> int" where
  "year_days year = (if leapyear year then 366 else 365)"

text \<open>The loop over the years, with the days that are left and the year.\<close>

function year_loop :: "int \<Rightarrow> int \<Rightarrow> int \<times> int" where
  "year_loop day year = (if day > year_days year then year_loop (day - year_days year) (year + 1) else (day, year))"
  by pat_completeness auto
termination by (relation "measure (\<lambda>(day, _). nat day)") (auto simp: year_days_def split: if_splits)

declare year_loop.simps [simp del]

text \<open>The loop over the months goes on while the day is before the limit.\<close>

fun month_loop :: "int list \<Rightarrow> int \<Rightarrow> nat \<Rightarrow> nat option" where
  "month_loop [] mday i = None"
| "month_loop (l # ls) mday i = (if mday < l then month_loop ls mday (i + 1) else Some i)"

definition gmtime_r :: "int \<Rightarrow> tm option" where
  "gmtime_r timer = do {
     let sec = timer smod 60;
     let timer0 = timer - sec;
     let min = (timer0 smod 3600) sdiv 60;
     let timer0 = timer0 - min * 60;
     let hour = (timer0 smod 86400) sdiv 3600;
     let day = timer sdiv 86400 + 25567;
     let wday = 4 + day smod 7;
     let (day, year) = year_loop day 0;
     let limits = (if leapyear year then month_limit_leap else month_limit);
     i \<leftarrow> month_loop limits day 0;
     Some \<lparr>tm_offset = 0, tm_isdst = 0, tm_year = year, tm_mon = int i, tm_yday = day, tm_mday = day - (if i \<noteq> 0 then limits ! (i - 1) else 0),
       tm_wday = wday, tm_hour = hour, tm_min = min, tm_sec = sec\<rparr>
   }"

definition mktime :: "tm \<Rightarrow> int" where
  "mktime p = tm_sec p + tm_min p * 60 + tm_hour p * 3600 + tm_yday p * 86400 + (tm_year p - 70) * 31536000 + ((tm_year p - 69) sdiv 4) * 86400
     - ((tm_year p - 1) sdiv 100) * 86400 + ((tm_year p + 299) sdiv 400) * 86400"

section \<open>The clock\<close>

definition from_bcd :: "u8 \<Rightarrow> int" where
  "from_bcd datum = uint (datum AND 0x0F) + uint (drop_bit 4 (datum AND 0xF0)) * 10"

definition month_day_starts :: "int list" where
  "month_day_starts = [0, 31, 59, 90, 120, 151, 181, 212, 243, 273, 304, 334]"

text \<open>The argument has the registers of the clock. The test for an update in progress does not repeat the loop.\<close>

definition get_time :: "(u8 \<Rightarrow> u8) \<Rightarrow> int option" where
  "get_time reg = do {
     let time = from_bcd (reg 0x00);
     let time = time + from_bcd (reg 0x02) * 60;
     let time = time + from_bcd (reg 0x04) * 3600;
     let time = (if reg 0x04 AND 0x80 \<noteq> 0 then time + 43200 else time);
     let time = time + from_bcd (reg 0x07) * 86400;
     let month = from_bcd (reg 0x08);
     start \<leftarrow> (if 1 \<le> month \<and> month \<le> 12 then Some (month_day_starts ! nat (month - 1)) else None);
     let time = time + start * 86400;
     let year = from_bcd (reg 0x09);
     let time = time + year * 31536000;
     let time = time + (year sdiv 4) * 86400;
     Some (time + 946684800)
   }"

section \<open>Years\<close>

lemma leapyear_mod: "leapyear y \<longleftrightarrow> y mod 4 = 0 \<and> y mod 100 \<noteq> 0 \<or> (y + 300) mod 400 = 0"
proof -
  have s: "(a :: int) smod n = 0 \<longleftrightarrow> a mod n = 0" if "0 < n" for a n
    using that by (auto simp: signed_modulo_int_def sgn_if dvd_eq_mod_eq_0 [symmetric]) 
  have "(y - 100) mod 400 = (y + 300) mod 400" using mod_add_self2 [of "y - 100" 400] by (simp add: algebra_simps)
  moreover have "(y - 100) mod 4 = 0 \<longleftrightarrow> y mod 4 = 0" "(y - 100) mod 100 = 0 \<longleftrightarrow> y mod 100 = 0" by presburger+
  ultimately show ?thesis by (simp add: leapyear_def Let_def s)
qed

text \<open>The leap years from 1900 up to a year, and the days before it.\<close>

definition leaps :: "int \<Rightarrow> int" where
  "leaps y = (y - 1) div 4 - (y - 1) div 100 + (y + 299) div 400"

lemma div_pred: "0 < n \<Longrightarrow> (x :: int) div n = (x - 1) div n + (if x mod n = 0 then 1 else 0)"
proof -
  assume n: "0 < n"
  let ?q = "x div n" and ?r = "x mod n"
  have x: "x - 1 = (?r - 1) + n * ?q" by simp
  have r: "0 \<le> ?r" "?r < n" using n by simp_all
  have "(x - 1) div n = ?q + (?r - 1) div n" unfolding x using n by simp
  moreover have "(?r - 1) div n = (if ?r = 0 then -1 else 0)" using r by (auto simp: zdiv_eq_0_iff div_eq_minus1)
  ultimately show ?thesis by simp
qed

lemma leaps_Suc: "leaps (y + 1) = leaps y + (if leapyear y then 1 else 0)"
proof -
  have "100 dvd y \<Longrightarrow> 4 dvd y" by (rule dvd_trans [of _ 100]) simp_all
  then have "y mod 100 = 0 \<Longrightarrow> y mod 4 = 0" by (simp add: dvd_eq_mod_eq_0)
  moreover have "100 dvd y" if "400 dvd y + 300"
  proof -
    have "100 dvd y + 300" using that by (rule dvd_trans [rotated]) simp
    then show ?thesis by (simp add: dvd_add_left_iff)
  qed
  then have "(y + 300) mod 400 = 0 \<Longrightarrow> y mod 100 = 0" by (simp add: dvd_eq_mod_eq_0)
  moreover have "leaps (y + 1) = leaps y + (if y mod 4 = 0 then 1 else 0) - (if y mod 100 = 0 then 1 else 0) + (if (y + 300) mod 400 = 0 then 1 else 0)"
  proof -
    have 1: "y + 1 - 1 = y" "y + 1 + 299 = y + 300" "y + 300 - 1 = y + 299" by simp_all
    have p: "(0 :: int) < 4" "(0 :: int) < 100" "(0 :: int) < 400" by simp_all
    show ?thesis unfolding leaps_def 1 using div_pred [OF p(1), of y] div_pred [OF p(2), of y] div_pred [OF p(3), of "y + 300", unfolded 1] by linarith
  qed
  ultimately show ?thesis by (simp add: leapyear_mod)
qed

lemma year_loop_days:
  "year_loop day y = (d, y') \<Longrightarrow> 365 * y' + leaps y' + d = 365 * y + leaps y + day \<and> y \<le> y' \<and> d \<le> year_days y' \<and> (0 < day \<longrightarrow> 0 < d)"
proof (induction day y rule: year_loop.induct)
  case (1 day y)
  show ?case
  proof (cases "day > year_days y")
    case True
    then have "year_loop (day - year_days y) (y + 1) = (d, y')" using 1(2) by (simp add: year_loop.simps)
    from 1(1) [OF True this] show ?thesis using True leaps_Suc [of y] by (auto simp: year_days_def)
  next
    case False
    then show ?thesis using 1(2) by (auto simp: year_loop.simps)
  qed
qed

lemma month_loop_first: "month_loop (if leapyear y then month_limit_leap else month_limit) d 0 = (if d < 32 then None else Some 0)"
  by (simp add: month_limit_def month_limit_leap_def)

lemma sdiv_smod_pos: "0 \<le> (a :: int) \<Longrightarrow> 0 < n \<Longrightarrow> a sdiv n = a div n \<and> a smod n = a mod n"
  by (simp add: signed_divide_int_def signed_modulo_int_def sgn_if)

lemma clock_parts:
  assumes "0 \<le> (t :: int)"
  shows "t smod 60 + ((t - t smod 60) smod 3600) sdiv 60 * 60 + ((t - t smod 60 - ((t - t smod 60) smod 3600) sdiv 60 * 60) smod 86400) sdiv 3600 * 3600 + t sdiv 86400 * 86400 = t"
proof -
  define q h where "q = t div 60" and "h = q div 60"
  have q: "0 \<le> q" "0 \<le> h" using assms by (simp_all add: q_def h_def pos_imp_zdiv_nonneg_iff)
  have s: "t smod 60 = t - 60 * q" "t sdiv 86400 = h div 24" using sdiv_smod_pos [OF assms] by (simp_all add: q_def h_def minus_mult_div_eq_mod zdiv_zmult2_eq)
  have "(60 * q) smod 3600 = 60 * (q mod 60)" using sdiv_smod_pos [of "60 * q" 3600] mod_mult_mult1 [of 60 q 60] q by simp
  then have m: "(60 * q) smod 3600 sdiv 60 = q - 60 * h" using sdiv_smod_pos [of "60 * (q mod 60)" 60] by (simp add: h_def minus_mult_div_eq_mod)
  have "(3600 * h) smod 86400 = 3600 * (h mod 24)" using sdiv_smod_pos [of "3600 * h" 86400] mod_mult_mult1 [of 3600 h 24] q by simp
  then have "(3600 * h) smod 86400 sdiv 3600 = h mod 24" using sdiv_smod_pos [of "3600 * (h mod 24)" 3600] by simp
  moreover have "t - (t - 60 * q) = 60 * q" "60 * q - (q - 60 * h) * 60 = 3600 * h" by simp_all
  moreover have "h mod 24 + 24 * (h div 24) = h" by simp
  ultimately show ?thesis unfolding s by (simp only: m)
qed



lemma leapyear_2000: "0 \<le> y \<Longrightarrow> y < 100 \<Longrightarrow> leapyear (100 + y) \<longleftrightarrow> y mod 4 = 0"
proof -
  assume y: "0 \<le> y" "y < 100"
  then have "(100 + y) mod 100 = y" by simp
  moreover have "100 + y + 300 = y + 400" "(y + 400) mod 400 = y" using y by simp_all
  moreover have "(100 + y) mod 4 = y mod 4" using mod_mult_self2 [of y 4 25] by (simp add: add.commute)
  ultimately show ?thesis by (auto simp: leapyear_mod)
qed

text \<open>The calendar time that the registers of the clock show.\<close>

definition shown_time :: "(u8 \<Rightarrow> u8) \<Rightarrow> tm" where
  "shown_time reg = (let year = 100 + from_bcd (reg 9); mon = from_bcd (reg 8) - 1; mday = from_bcd (reg 7) in
     \<lparr>tm_offset = 0, tm_isdst = 0, tm_year = year, tm_mon = mon, tm_yday = month_day_starts ! nat mon + (if leapyear year \<and> mon > 1 then 1 else 0) + mday - 1, tm_mday = mday, tm_wday = 0,
      tm_hour = from_bcd (reg 4), tm_min = from_bcd (reg 2), tm_sec = from_bcd (reg 0)\<rparr>)"

lemma from_bcd_nonneg: "0 \<le> from_bcd d"
  by (simp add: from_bcd_def)

text \<open>
  The clock driver computes the time that the registers of the clock show, in the format with 24 hours, except in January and February of a leap year, when its time is one day ahead: it counts the days of a month from one and not from zero, and
  does not count the leap day of 2000, and the two errors cancel on all other days.
\<close>

theorem get_time_shown:
  assumes "1 \<le> from_bcd (reg 8)" and "from_bcd (reg 8) \<le> 12" and "from_bcd (reg 9) < 100" and "reg 4 AND 0x80 = 0"
  shows "get_time reg = Some (mktime (shown_time reg) + (if leapyear (100 + from_bcd (reg 9)) \<and> from_bcd (reg 8) \<le> 2 then 86400 else 0))"
proof -
  let ?y = "from_bcd (reg 9)"
  have y: "0 \<le> ?y" by (rule from_bcd_nonneg)
  have "(?y + 31) sdiv 4 = (?y + 31) div 4" "(99 + ?y) sdiv 100 = (99 + ?y) div 100" "(399 + ?y) sdiv 400 = (399 + ?y) div 400" "?y sdiv 4 = ?y div 4" using y sdiv_smod_pos by auto
  moreover have "(99 + ?y) div 100 = (if ?y = 0 then 0 else 1)" "(399 + ?y) div 400 = (if ?y = 0 then 0 else 1)" using y assms(3) by auto
  moreover have "(?y + 31) div 4 = ?y div 4 + (if ?y mod 4 = 0 then 7 else 8)" by presburger
  ultimately have "((?y + 31) sdiv 4) - ((99 + ?y) sdiv 100) + ((399 + ?y) sdiv 400) = ?y sdiv 4 + (if ?y mod 4 = 0 then 7 else 8)" by simp
  then have "mktime (shown_time reg) = from_bcd (reg 0) + from_bcd (reg 2) * 60 + from_bcd (reg 4) * 3600 + tm_yday (shown_time reg) * 86400 + (30 + ?y) * 31536000 + (?y sdiv 4 + (if ?y mod 4 = 0 then 7 else 8)) * 86400"
    by (simp add: mktime_def shown_time_def Let_def add.commute)
  then show ?thesis using assms leapyear_2000 [OF y assms(3)] by (cases "?y mod 4 = 0"; cases "from_bcd (reg 8) \<le> 2") (simp_all add: get_time_def shown_time_def Let_def)
qed

text \<open>The registers on 13 March 2011 at 7:06:40.\<close>

definition regs0 :: "u8 \<Rightarrow> u8" where
  "regs0 r = (if r = 0 then 0x40 else if r = 2 then 0x06 else if r = 4 then 0x07 else if r = 7 then 0x13 else if r = 8 then 0x03 else 0x11)"

theorem get_time_shown_witness: "get_time regs0 = Some (mktime (shown_time regs0)) \<and> mktime (shown_time regs0) = 1300000000"
proof -
  have "from_bcd (regs0 8) = 3" "from_bcd (regs0 9) = 11" "regs0 4 AND 0x80 = 0" "\<not> leapyear 111" "mktime (shown_time regs0) = 1300000000" by code_simp+
  then show ?thesis using get_time_shown [of regs0] by simp
qed

end
