(* ===== verification/Random_Numbers.thy ===== *)
theory Random_Numbers
  imports Kernel_Prelude
begin

unbundle bit_operations_syntax

text \<open>
  The random number generator of the C library, \<open>libc/stdlib/rand.c\<close>: 25 words and an index behind them, in a block of 26 words. A state that was not allocated is \<^const>\<open>None\<close> inside of the result, an access outside the
  block is \<^const>\<open>None\<close>. The locks are free between calls, and whether \<open>malloc\<close> succeeds is an argument. \<open>randmod\<close>, in floating point, is not modelled.
\<close>

section \<open>The generator\<close>

definition twist :: "u32 \<Rightarrow> u32" where
  "twist x = drop_bit 1 x XOR (if x AND 1 \<noteq> 0 then 0x8EBFD028 else 0)"

definition regen_word :: "nat \<Rightarrow> nat \<Rightarrow> u32 list \<Rightarrow> u32 list option" where
  "regen_word j i st = (if i < length st \<and> j < length st then Some (st[i := st ! j XOR twist (st ! i)]) else None)"

definition rand_regen :: "u32 list \<Rightarrow> u32 list option" where
  "rand_regen st = do {
     st \<leftarrow> for_list (\<lambda>i. regen_word (i + 7) i) [0..<18] st;
     for_list (\<lambda>i. regen_word (i - 18) i) [18..<25] st
   }"

definition rand_salt :: "u32 list" where
  "rand_salt = [
     0x95F24DAB, 0x0B685125, 0xE76CCAE7, 0xAF3EC239, 0x715FAD23,
     0x24A590AD, 0x69E4B5EF, 0xBF456141, 0x96BC1B7B, 0xA7BDF825,
     0xC1DE75B7, 0x8858A9C9, 0x3DA87693, 0xB657F9DD, 0xFFDC8A9F,
     0x8121DA71, 0x8B823ECB, 0x885D05F5, 0x4E20CD47, 0x5A9AD5D9,
     0x512C0C03, 0xEA857CCD, 0x4CC1D30F, 0x8891A9A1, 0xA6B7AADB]"

text \<open>The words of the new state, one for each word of the salt.\<close>

primrec seed_words :: "u32 list \<Rightarrow> u32 \<Rightarrow> u32 list" where
  "seed_words [] seed = []"
| "seed_words (salt # ss) seed = (
     let seed = seed * 0x41C64E6D + 0x3039; w = seed XOR salt in
     (if w = 0 then salt else w) # seed_words ss seed)"

definition srands :: "bool \<Rightarrow> u32 \<Rightarrow> u32 list option option" where
  "srands ok seed = (if \<not> ok then Some None else do {
     st \<leftarrow> rand_regen (seed_words rand_salt seed @ [0]);
     Some (Some (st[25 := 0]))
   })"

definition temper :: "u32 \<Rightarrow> u32" where
  "temper value = (
     let value = value XOR (push_bit 7 value AND 0x2B5B2500);
         value = value XOR (push_bit 15 value AND 0xDB8B0000) in
     value XOR drop_bit 16 value)"

definition rands :: "u32 list option \<Rightarrow> (u32 \<times> u32 list option) option" where
  "rands state = (case state of None \<Rightarrow> Some (0, None)
   | Some st \<Rightarrow> do {
       i \<leftarrow> (if 25 < length st then Some (st ! 25) else None);
       st \<leftarrow> (if i \<ge> 25 then do { st \<leftarrow> rand_regen st; Some (st[25 := 0]) } else Some st);
       let i = unat (st ! 25);
       if i \<ge> length st then None
       else Some (temper (st ! i), Some (st[25 := st ! 25 + 1]))
     })"

definition srand :: "bool \<Rightarrow> u32 \<Rightarrow> u32 list option option" where
  "srand ok seed = srands ok seed"

definition rand :: "bool \<Rightarrow> u32 list option \<Rightarrow> (u32 \<times> u32 list option) option" where
  "rand ok state = do { state \<leftarrow> (case state of None \<Rightarrow> srands ok 1 | Some st \<Rightarrow> Some (Some st)); rands state }"

text \<open>The bytes that are still to be written, and the number of those that were.\<close>

primrec memrands_loop :: "nat \<Rightarrow> nat \<Rightarrow> u32 \<Rightarrow> u32 list option \<Rightarrow> (u8 list \<times> u32 list option) option" where
  "memrands_loop 0 i value state = Some ([], state)"
| "memrands_loop (Suc n) i value state = do {
     (value, state) \<leftarrow> (if i mod 4 = 0 then rands state else Some (value, state));
     (bytes, state) \<leftarrow> memrands_loop n (i + 1) (drop_bit 8 value) state;
     Some (ucast (value AND 0xFF) # bytes, state)
   }"

definition memrands :: "nat \<Rightarrow> u32 list option \<Rightarrow> (u8 list \<times> u32 list option) option" where
  "memrands n state = memrands_loop n 0 0 state"

definition memrand :: "nat \<Rightarrow> u32 list option \<Rightarrow> (u8 list \<times> u32 list option) option" where
  "memrand n state = memrands n state"

section \<open>The state\<close>

text \<open>The state at the start of a block of 25 numbers: new, or with all its numbers used, and not zero.\<close>

definition at_block :: "u32 list \<Rightarrow> bool" where
  "at_block st \<longleftrightarrow> length st = 26 \<and> st ! 25 \<in> {0, 25} \<and> (\<exists>i < 25. st ! i \<noteq> 0)"

lemma xor_zero: "a XOR b = 0 \<longleftrightarrow> a = b" for a b :: u32
  by (metis xor.assoc xor_self_eq xor.left_neutral xor.right_neutral)

lemma twist_zero: "twist x = 0 \<longleftrightarrow> x = 0"
proof
  assume t: "twist x = 0"
  have odd: "x AND 1 = 0"
  proof (rule ccontr)
    assume "x AND 1 \<noteq> 0"
    then have "drop_bit 1 x = 0x8EBFD028" using t by (simp add: twist_def xor_zero)
    then have "bit (drop_bit 1 x) 31 = bit (0x8EBFD028 :: u32) 31" by simp
    moreover have "bit (0x8EBFD028 :: u32) 31" by code_simp
    ultimately show False using bit_imp_le_length [of x 32] by (auto simp: bit_drop_bit_eq)
  qed
  then have "drop_bit 1 x = 0" using t by (simp add: twist_def)
  then show "x = 0" using odd div_mult_mod_eq [of x 2] by (simp add: drop_bit_eq_div and_one_eq)
qed (simp add: twist_def)

text \<open>The words after both loops, from the words before.\<close>

lemma regen_low:
  assumes "length st = 26" and "k \<le> 18"
  shows "\<exists>s. for_list (\<lambda>i. regen_word (i + 7) i) [0..<k] st = Some s \<and> length s = 26 \<and> (\<forall>j < 26. s ! j = (if j < k then st ! (j + 7) XOR twist (st ! j) else st ! j))"
  using assms(2)
proof (induction k)
  case (Suc k)
  then obtain s where s: "for_list (\<lambda>i. regen_word (i + 7) i) [0..<k] st = Some s" "length s = 26" "\<forall>j < 26. s ! j = (if j < k then st ! (j + 7) XOR twist (st ! j) else st ! j)" by auto
  then have "for_list (\<lambda>i. regen_word (i + 7) i) [0..<Suc k] st = Some (s[k := s ! (k + 7) XOR twist (s ! k)])" using Suc.prems by (simp add: for_list_append regen_word_def)
  moreover have "s ! (k + 7) = st ! (k + 7)" "s ! k = st ! k" using s(3) Suc.prems by auto
  ultimately show ?case using s(2,3) by (auto simp: nth_list_update less_Suc_eq)
qed (simp add: assms(1))

lemma regen_high:
  assumes "length st = 26" and "k \<le> 7"
  shows "\<exists>s. for_list (\<lambda>i. regen_word (i - 18) i) [18..<18 + k] st = Some s \<and> length s = 26 \<and> (\<forall>j < 26. s ! j = (if 18 \<le> j \<and> j < 18 + k then st ! (j - 18) XOR twist (st ! j) else st ! j))"
  using assms(2)
proof (induction k)
  case (Suc k)
  then obtain s where s: "for_list (\<lambda>i. regen_word (i - 18) i) [18..<18 + k] st = Some s" "length s = 26"
    "\<forall>j < 26. s ! j = (if 18 \<le> j \<and> j < 18 + k then st ! (j - 18) XOR twist (st ! j) else st ! j)" by auto
  have "[18..<18 + Suc k] = [18..<18 + k] @ [18 + k]" by (metis add_Suc_right le_add1 upt_Suc_append)
  then have "for_list (\<lambda>i. regen_word (i - 18) i) [18..<18 + Suc k] st = Some (s[18 + k := s ! k XOR twist (s ! (18 + k))])"
    using s Suc.prems by (simp add: for_list_append regen_word_def del: upt_Suc)
  moreover have "s[18 + k := s ! k XOR twist (s ! (18 + k))] ! j = (if 18 \<le> j \<and> j < 18 + Suc k then st ! (j - 18) XOR twist (st ! j) else st ! j)" if "j < 26" for j
    using s(2,3) Suc.prems that by (cases "j = 18 + k") auto
  ultimately show ?case using s(2) by simp
qed (use assms(1) in auto)

lemma rand_regen_words:
  assumes "length st = 26"
  shows "\<exists>s. rand_regen st = Some s \<and> length s = 26 \<and> (\<forall>j < 18. s ! j = st ! (j + 7) XOR twist (st ! j)) \<and> (\<forall>j \<in> {18..<25}. s ! j = s ! (j - 18) XOR twist (st ! j)) \<and> s ! 25 = st ! 25"
proof -
  obtain s1 where 1: "for_list (\<lambda>i. regen_word (i + 7) i) [0..<18] st = Some s1" "length s1 = 26" "\<forall>j < 26. s1 ! j = (if j < 18 then st ! (j + 7) XOR twist (st ! j) else st ! j)"
    using regen_low [OF assms order_refl] by blast
  obtain s2 where 2: "for_list (\<lambda>i. regen_word (i - 18) i) [18..<25] s1 = Some s2" "length s2 = 26" "\<forall>j < 26. s2 ! j = (if 18 \<le> j \<and> j < 25 then s1 ! (j - 18) XOR twist (s1 ! j) else s1 ! j)"
    using regen_high [OF 1(2) order_refl] by auto
  have "rand_regen st = Some s2" using 1(1) 2(1) by (simp add: rand_regen_def)
  moreover have "\<forall>j < 18. s2 ! j = s1 ! j" "\<forall>j \<in> {18..<25}. s2 ! j = s1 ! (j - 18) XOR twist (s1 ! j)" "s2 ! 25 = s1 ! 25" using 2(3) by simp_all
  moreover have "s1 ! (j - 18) = s2 ! (j - 18)" if "j \<in> {18..<25}" for j
  proof -
    have "j - 18 < 18" using that by auto
    then show ?thesis using 2(3) by simp
  qed
  ultimately show ?thesis using 1(3) 2(2) by (intro exI [of _ s2]) simp
qed

lemma rand_regen_zero:
  assumes "length st = 26" and "rand_regen st = Some s" and "\<forall>j < 25. s ! j = 0" and "j < 25"
  shows "st ! j = 0"
  using assms(4)
proof (induction "25 - j" arbitrary: j rule: less_induct)
  case less
  obtain s' where "rand_regen st = Some s'" "\<forall>j < 18. s' ! j = st ! (j + 7) XOR twist (st ! j)" "\<forall>j \<in> {18..<25}. s' ! j = s' ! (j - 18) XOR twist (st ! j)"
    using rand_regen_words [OF assms(1)] by blast
  then have s: "\<forall>j < 18. s ! j = st ! (j + 7) XOR twist (st ! j)" "\<forall>j \<in> {18..<25}. s ! j = s ! (j - 18) XOR twist (st ! j)" using assms(2) by simp_all
  have "twist (st ! j) = 0"
  proof (cases "j < 18")
    case True
    then have "st ! (j + 7) = 0" using less.hyps [of "j + 7"] by simp
    moreover have "s ! j = 0" "s ! j = st ! (j + 7) XOR twist (st ! j)" using s(1) assms(3) True by simp_all
    ultimately show ?thesis by simp
  next
    case False
    then have j: "j \<in> {18..<25}" "j - 18 < 25" using less.prems by auto
    have "s ! j = s ! (j - 18) XOR twist (st ! j)" using s(2) j(1) by blast
    moreover have "s ! j = 0" "s ! (j - 18) = 0" using assms(3) less.prems j(2) by blast+
    ultimately show ?thesis by simp
  qed
  then show ?case by (simp add: twist_zero)
qed

lemma rand_regen_ok:
  assumes "length st = 26" and "\<exists>i < 25. st ! i \<noteq> 0"
  shows "\<exists>s. rand_regen st = Some s \<and> length s = 26 \<and> (\<exists>i < 25. s ! i \<noteq> 0)"
  using rand_regen_words [OF assms(1)] rand_regen_zero [OF assms(1)] assms(2) by blast

lemma seed_words_nonzero: "0 \<notin> set ss \<Longrightarrow> 0 \<notin> set (seed_words ss seed) \<and> length (seed_words ss seed) = length ss"
  by (induction ss arbitrary: seed) (auto simp: Let_def)

lemma srands_block: "\<exists>st. srands True seed = Some (Some st) \<and> at_block st"
proof -
  have salt: "0 \<notin> set rand_salt" "length rand_salt = 25" by code_simp+
  let ?ws = "seed_words rand_salt seed"
  have w: "0 \<notin> set ?ws" "length ?ws = 25" using seed_words_nonzero [OF salt(1)] salt(2) by auto
  then have "(?ws @ [0]) ! 0 \<noteq> 0" by (metis length_greater_0_conv nth_append nth_mem zero_neq_numeral list.size(3) not_numeral_less_zero zero_less_numeral)
  then obtain s where "rand_regen (?ws @ [0]) = Some s" "length s = 26" "\<exists>i < 25. s ! i \<noteq> 0" using rand_regen_ok [of "?ws @ [0]"] w(2) by fastforce
  then show ?thesis by (auto simp: srands_def at_block_def intro!: exI [of _ "s[25 := 0]"])
qed

section \<open>Numbers\<close>

text \<open>The steps of the tempering can be undone.\<close>

lemma xor_shift_inj:
  fixes x y :: u32
  assumes "x XOR (push_bit k x AND m) = y XOR (push_bit k y AND m)" and "0 < k"
  shows "x = y"
proof (rule bit_word_eqI)
  fix n assume "n < LENGTH(32)"
  then show "bit x n \<longleftrightarrow> bit y n"
  proof (induction n rule: less_induct)
    case (less n)
    have "bit x (n - k) \<longleftrightarrow> bit y (n - k)" if "k \<le> n" using less.IH [of "n - k"] less.prems assms(2) that by simp
    moreover have "bit (x XOR (push_bit k x AND m)) n \<longleftrightarrow> bit (y XOR (push_bit k y AND m)) n" by (simp only: assms(1))
    ultimately show ?case using less.prems by (auto simp: bit_xor_iff bit_and_iff bit_push_bit_iff)
  qed
qed

lemma xor_half_inj:
  fixes x y :: u32
  assumes "x XOR drop_bit 16 x = y XOR drop_bit 16 y"
  shows "x = y"
proof -
  have inv: "(z XOR drop_bit 16 z) XOR drop_bit 16 (z XOR drop_bit 16 z) = z" for z :: u32
    by (rule bit_word_eqI) (auto simp: bit_xor_iff bit_drop_bit_eq dest: bit_imp_le_length)
  show ?thesis using inv [of x] inv [of y] assms by metis
qed

lemma temper_inj: "temper x = temper y \<Longrightarrow> x = y"
  unfolding temper_def Let_def by (drule xor_half_inj, drule xor_shift_inj, simp, drule xor_shift_inj) simp_all

lemma temper_zero: "temper x = 0 \<longleftrightarrow> x = 0"
  using temper_inj [of x 0] by (auto simp: temper_def)

text \<open>Numbers drawn one after another.\<close>

primrec draws :: "nat \<Rightarrow> u32 list option \<Rightarrow> (u32 list \<times> u32 list option) option" where
  "draws 0 state = Some ([], state)"
| "draws (Suc n) state = do { (v, state) \<leftarrow> rands state; (vs, state) \<leftarrow> draws n state; Some (v # vs, state) }"

lemma draws_add: "draws (m + n) state = do { (vs, state) \<leftarrow> draws m state; (ws, state) \<leftarrow> draws n state; Some (vs @ ws, state) }"
proof (induction m arbitrary: state)
  case 0
  then show ?case by (cases "draws n state") auto
qed (simp add: case_prod_unfold)

lemma draws_words:
  assumes "length st = 26" and "st ! 25 = of_nat k" and "k + n \<le> 25"
  shows "draws n (Some st) = Some (map temper (take n (drop k st)), Some (st[25 := of_nat (k + n)]))"
  using assms
proof (induction n arbitrary: st k)
  case 0
  then show ?case by (metis add.right_neutral draws.simps(1) list.simps(8) list_update_id take0)
next
  case (Suc n)
  have k: "\<not> (25 :: u32) \<le> of_nat k" "unat (of_nat k :: u32) = k" using Suc.prems(3) by (simp_all add: word_le_nat_alt unat_of_nat take_bit_nat_eq_self)
  then have r: "rands (Some st) = Some (temper (st ! k), Some (st[25 := of_nat (Suc k)]))" using Suc.prems by (simp add: rands_def add.commute)
  have "draws n (Some (st[25 := of_nat (Suc k)])) = Some (map temper (take n (drop (Suc k) (st[25 := of_nat (Suc k)]))), Some (st[25 := of_nat (Suc k), 25 := of_nat (Suc k + n)]))"
    using Suc.prems by (intro Suc.IH) simp_all
  moreover have "take n (drop (Suc k) (st[25 := of_nat (Suc k)])) = take n (drop (Suc k) st)" using Suc.prems by (intro nth_equalityI) auto
  moreover have "take (Suc n) (drop k st) = st ! k # take n (drop (Suc k) st)" using Suc.prems by (simp add: Cons_nth_drop_Suc [symmetric])
  ultimately show ?case using r by simp
qed

lemma draw_block:
  assumes "at_block st"
  shows "\<exists>st'. draws 25 (Some st) = Some (map temper (take 25 st'), Some st') \<and> at_block st'"
proof -
  obtain s where s: "draws 25 (Some st) = draws 25 (Some s)" "length s = 26" "s ! 25 = 0" "\<exists>i < 25. s ! i \<noteq> 0"
  proof (cases "st ! 25 = 0")
    case True
    then show ?thesis using assms that [of st] by (simp add: at_block_def)
  next
    case False
    then obtain r where r: "rand_regen st = Some r" "length r = 26" "\<exists>i < 25. r ! i \<noteq> 0" using rand_regen_ok [of st] assms by (auto simp: at_block_def)
    then have "rands (Some st) = rands (Some (r[25 := 0]))" using False assms by (simp add: rands_def at_block_def)
    moreover have "(25 :: nat) = Suc 24" by simp
    ultimately have "draws 25 (Some st) = draws 25 (Some (r[25 := 0]))" by (simp only: draws.simps)
    moreover have "\<exists>i < 25. r[25 := 0] ! i \<noteq> 0" using r(3) by (metis nat_neq_iff nth_list_update_neq)
    ultimately show ?thesis using that [of "r[25 := 0]"] r(2) by simp
  qed
  have "draws 25 (Some s) = Some (map temper (take 25 (s[25 := 25])), Some (s[25 := 25]))" using draws_words [of s 0 25] s(2,3) by simp
  moreover have "at_block (s[25 := 25])" using s(2,4) by (auto simp: at_block_def)
  ultimately show ?thesis using s(1) by auto
qed

lemma draw_blocks:
  assumes "at_block st"
  shows "\<exists>vs st'. draws (25 * m) (Some st) = Some (vs, Some st') \<and> at_block st' \<and> length vs = 25 * m \<and> (\<forall>b < m. \<exists>i < 25. vs ! (25 * b + i) \<noteq> 0)"
proof (induction m)
  case (Suc m)
  then obtain vs st1 where 1: "draws (25 * m) (Some st) = Some (vs, Some st1)" "at_block st1" "length vs = 25 * m" "\<forall>b < m. \<exists>i < 25. vs ! (25 * b + i) \<noteq> 0" by blast
  obtain st2 where 2: "draws 25 (Some st1) = Some (map temper (take 25 st2), Some st2)" "at_block st2" using draw_block [OF 1(2)] by blast
  let ?ws = "map temper (take 25 st2)"
  have "draws (25 * Suc m) (Some st) = Some (vs @ ?ws, Some st2)" using draws_add [of "25 * m" 25] 1(1) 2(1) by (simp add: add.commute)
  moreover have "\<exists>i < 25. (vs @ ?ws) ! (25 * b + i) \<noteq> 0" if b: "b < Suc m" for b
  proof (cases "b = m")
    case True
    obtain i where "i < 25" "st2 ! i \<noteq> 0" using 2(2) by (auto simp: at_block_def)
    then show ?thesis using True 1(3) 2(2) by (intro exI [of _ i]) (simp add: nth_append temper_zero at_block_def)
  next
    case False
    then obtain i where "i < 25" "vs ! (25 * b + i) \<noteq> 0" using 1(4) b by (metis less_antisym)
    moreover have "25 * b + i < length vs" using False b 1(3) \<open>i < 25\<close> by linarith
    ultimately show ?thesis by (intro exI [of _ i]) (simp add: nth_append)
  qed
  ultimately show ?case using 1(3) 2(2) by (intro exI [of _ "vs @ ?ws"] exI [of _ st2]) (simp add: at_block_def)
qed (use assms in simp)

text \<open>
  C38. From every seed, any number of random numbers can be drawn: the index never leaves the state, and the generator never runs dry, as every block of 25 numbers has one that is not zero. The regeneration of the words maps only the zero state to the zero state, the
  seeding avoids it, and the tempering loses no bit.
\<close>

theorem rands_never_dry:
  "\<exists>st vs st'. srands True seed = Some (Some st) \<and> draws (25 * m) (Some st) = Some (vs, Some st') \<and> length vs = 25 * m \<and> (\<forall>b < m. \<exists>i < 25. vs ! (25 * b + i) \<noteq> 0)"
  using srands_block draw_blocks by metis

theorem rands_never_dry_witness: "\<exists>st vs st'. srands True 1 = Some (Some st) \<and> draws 25 (Some st) = Some (vs, Some st') \<and> (\<exists>i < 25. vs ! i \<noteq> 0)"
  using rands_never_dry [of 1 1] by fastforce

text \<open>
  Before the first \<open>srand\<close> or \<open>rand\<close>, \<open>memrand\<close> fills the memory with zeros, because it does not seed the generator.
\<close>

theorem memrand_zeros: "memrand n None = Some (replicate n 0, None)"
proof -
  have "memrands_loop n i 0 None = Some (replicate n 0, None)" for i by (induction n arbitrary: i) (simp_all add: rands_def)
  then show ?thesis by (simp add: memrand_def memrands_def)
qed

end
