(* ===== verification/Environment.thy ===== *)
theory Environment
  imports Kernel_Prelude
begin

text \<open>
  The environment of a process, \<open>libc/stdlib/env.c\<close>, and its arguments, \<open>libc/exec/arg.c\<close>. An entry of the environment is a block of bytes with a name and a value, both terminated, and the vector of entries ends with a
  null pointer. An access outside a block or the vector and one through a null pointer are \<^const>\<open>None\<close>. Strings that are passed as arguments are lists of bytes without their terminator. The outcomes of the allocations of \<open>setenv\<close> are arguments, those of packs succeed; the lock is free between
  calls.
\<close>

section \<open>Strings in a block\<close>

definition str_at :: "u8 list \<Rightarrow> nat \<Rightarrow> u8 list option" where
  "str_at b i = (if 0 \<in> set (drop i b) then Some (takeWhile (\<lambda>c. c \<noteq> 0) (drop i b)) else None)"

lemma takeWhile_zero: "0 \<notin> set s \<Longrightarrow> takeWhile (\<lambda>c. c \<noteq> 0) (s @ 0 # r) = s" for s :: "u8 list"
  by (induction s) auto

lemma str_at_append [simp]: "0 \<notin> set s \<Longrightarrow> length p = i \<Longrightarrow> str_at (p @ s @ 0 # r) i = Some s"
  by (simp add: str_at_def takeWhile_zero)

lemma str_at_0 [simp]: "0 \<notin> set s \<Longrightarrow> str_at (s @ 0 # r) 0 = Some s"
  using str_at_append [of s "[]"] by simp

section \<open>The environment\<close>

record env =
  environ :: "u8 list option list option"
  environ_size :: nat

record env_mem =
  realloc_ok :: bool
  malloc_ok :: bool
  strdup_ok :: bool

definition env_entry :: "env \<Rightarrow> nat \<Rightarrow> u8 list option option" where
  "env_entry e i = do { es \<leftarrow> environ e; if i < length es then Some (es ! i) else None }"

text \<open>The search for a name, from an index on; the result is the index behind the last entry if there is none.\<close>

primrec env_find :: "env \<Rightarrow> u8 list \<Rightarrow> nat \<Rightarrow> nat \<Rightarrow> nat option" where
  "env_find e name i 0 = Some i"
| "env_find e name i (Suc n) = do {
     b \<leftarrow> Option.bind (env_entry e i) id;
     s \<leftarrow> str_at b 0;
     if s = name then Some i else env_find e name (i + 1) n
   }"

definition getenv :: "env \<Rightarrow> u8 list \<Rightarrow> u8 list option option" where
  "getenv e name = (case environ e of None \<Rightarrow> Some None
   | Some _ \<Rightarrow> do {
       i \<leftarrow> env_find e name 0 (environ_size e);
       if i < environ_size e then do {
         b \<leftarrow> Option.bind (env_entry e i) id;
         s \<leftarrow> str_at b 0;
         v \<leftarrow> str_at b (length s + 1);
         Some (Some v)
       }
       else Some None
     })"

text \<open>The vector grows by one null pointer; its fields behind the old ones are written, so it has to exist.\<close>

definition grow_env :: "env_mem \<Rightarrow> env \<Rightarrow> env option" where
  "grow_env m e = (
     let n = environ_size e + 1; old = (case environ e of None \<Rightarrow> [] | Some es \<Rightarrow> es) in
     if \<not> realloc_ok m then None else Some (e\<lparr>environ := Some (take (n - 1) old @ [None, None]), environ_size := n\<rparr>))"

definition set_entry :: "env \<Rightarrow> nat \<Rightarrow> u8 list option \<Rightarrow> env option" where
  "set_entry e i b = do { es \<leftarrow> environ e; if i < length es then Some (e\<lparr>environ := Some (es[i := b])\<rparr>) else None }"

text \<open>The new block: the two strings with the first equals sign replaced by a terminator.\<close>

definition env_block :: "u8 list \<Rightarrow> u8 list \<Rightarrow> u8 list" where
  "env_block name value = (let s = name @ [61] @ value @ [0] in s[length (takeWhile (\<lambda>c. c \<noteq> 61) s) := 0])"

definition setenv :: "env_mem \<Rightarrow> env \<Rightarrow> u8 list \<Rightarrow> u8 list option \<Rightarrow> (int \<times> env) option" where
  "setenv m e name value = do {
     i \<leftarrow> env_find e name 0 (environ_size e);
     e \<leftarrow> (if i = environ_size e \<and> value \<noteq> None then grow_env m e else Some e);
     e \<leftarrow> (case value of
       Some v \<Rightarrow> do {
         _ \<leftarrow> env_entry e i;
         if malloc_ok m then set_entry e i (Some (env_block name v)) else None
       }
     | None \<Rightarrow> do { _ \<leftarrow> env_entry e i; set_entry e i (if strdup_ok m then Some [0] else None) });
     Some (0, e)
   }"

section \<open>Packs\<close>

text \<open>Entries that were deleted, with an empty name, are skipped.\<close>

fun skip_deleted :: "u8 list option list \<Rightarrow> (u8 list \<times> u8 list option list) option" where
  "skip_deleted [] = None"
| "skip_deleted (None # es) = None"
| "skip_deleted (Some [] # es) = None"
| "skip_deleted (Some (c # b) # es) = (if c = 0 then skip_deleted es else Some (c # b, es))"

lemma skip_deleted_shorter: "skip_deleted es = Some (b, es') \<Longrightarrow> length es' < length es"
  by (induction es rule: skip_deleted.induct) (auto split: if_splits)

function pack_size :: "u8 list option list \<Rightarrow> nat option" where
  "pack_size es = (case es of [] \<Rightarrow> None | None # _ \<Rightarrow> Some 0
   | Some _ # _ \<Rightarrow> (case skip_deleted es of None \<Rightarrow> None | Some (b, es') \<Rightarrow> do {
       s \<leftarrow> str_at b 0;
       v \<leftarrow> str_at b (length s + 1);
       n \<leftarrow> pack_size es';
       Some (length s + 1 + (length v + 1) + n)
     }))"
  by pat_completeness auto
termination by (relation "measure length") (auto dest: skip_deleted_shorter)

declare pack_size.simps [simp del]

text \<open>The second loop copies the strings; every copy has to fit into what is left of the block.\<close>

function pack_copy :: "nat \<Rightarrow> u8 list option list \<Rightarrow> u8 list option" where
  "pack_copy room es = (case es of [] \<Rightarrow> None | None # _ \<Rightarrow> if room = 0 then None else Some [8]
   | Some _ # _ \<Rightarrow> (case skip_deleted es of None \<Rightarrow> None | Some (b, es') \<Rightarrow> do {
       s \<leftarrow> str_at b 0;
       v \<leftarrow> str_at b (length s + 1);
       if room < length s + 1 + (length v + 1) then None
       else do { r \<leftarrow> pack_copy (room - (length s + 1 + (length v + 1))) es'; Some (s @ [0] @ v @ [0] @ r) }
     }))"
  by pat_completeness auto
termination by (relation "measure (length \<circ> snd)") (auto dest: skip_deleted_shorter)

declare pack_copy.simps [simp del]

definition packenv :: "u8 list option list option \<Rightarrow> u8 list option option" where
  "packenv envp = (case envp of None \<Rightarrow> Some None
   | Some es \<Rightarrow> do { n \<leftarrow> pack_size es; p \<leftarrow> pack_copy (1 + n) es; Some (Some p) })"

function load_pack :: "env_mem \<Rightarrow> env \<Rightarrow> u8 list \<Rightarrow> env option" where
  "load_pack m e pack = (case pack of [] \<Rightarrow> None
   | c # _ \<Rightarrow> if c = 8 then Some e
     else (case str_at pack 0 of None \<Rightarrow> None
       | Some key \<Rightarrow> (case str_at pack (length key + 1) of None \<Rightarrow> None
         | Some val \<Rightarrow> do { (_, e) \<leftarrow> setenv m e key (Some val); load_pack m e (drop (length key + 1 + (length val + 1)) pack) })))"
  by pat_completeness auto
termination by (relation "measure (\<lambda>(_, _, pack). length pack)") auto

declare load_pack.simps [simp del]

definition loadenv :: "env_mem \<Rightarrow> env \<Rightarrow> u8 list option \<Rightarrow> env option" where
  "loadenv m e pack = (case pack of None \<Rightarrow> Some e | Some p \<Rightarrow> load_pack m e p)"

section \<open>Arguments\<close>

definition packarg :: "u8 list list \<Rightarrow> u8 list" where
  "packarg argv = concat (map (\<lambda>a. a @ [0]) argv) @ [8]"

function loadarg :: "u8 list \<Rightarrow> u8 list list option" where
  "loadarg pack = (case pack of [] \<Rightarrow> None
   | c # _ \<Rightarrow> if c = 8 then Some []
     else (case str_at pack 0 of None \<Rightarrow> None
       | Some s \<Rightarrow> do { argv \<leftarrow> loadarg (drop (length s + 1) pack); Some (s # argv) }))"
  by pat_completeness auto
termination by (relation "measure length") auto

declare loadarg.simps [simp del]

section \<open>The environment as a map\<close>

text \<open>The entries, of which \<^const>\<open>None\<close> are deleted.\<close>

type_synonym env_list = "(u8 list \<times> u8 list) option list"

definition name_ok :: "u8 list \<Rightarrow> bool" where
  "name_ok k \<longleftrightarrow> k \<noteq> [] \<and> 0 \<notin> set k \<and> 61 \<notin> set k"

definition entry_block :: "(u8 list \<times> u8 list) option \<Rightarrow> u8 list" where
  "entry_block x = (case x of None \<Rightarrow> [0] | Some (k, v) \<Rightarrow> k @ 0 # v @ [0])"

definition entry_ok :: "(u8 list \<times> u8 list) option \<Rightarrow> bool" where
  "entry_ok x \<longleftrightarrow> (case x of None \<Rightarrow> True | Some (k, v) \<Rightarrow> name_ok k \<and> 0 \<notin> set v)"

definition keys_of :: "env_list \<Rightarrow> u8 list set" where
  "keys_of kvs = {k. \<exists>v. Some (k, v) \<in> set kvs}"

primrec env_map :: "env_list \<Rightarrow> u8 list \<Rightarrow> u8 list option" where
  "env_map [] = Map.empty"
| "env_map (x # kvs) = (case x of None \<Rightarrow> env_map kvs | Some (k, v) \<Rightarrow> (env_map kvs)(k \<mapsto> v))"

definition env_vector :: "env_list \<Rightarrow> u8 list option list" where
  "env_vector kvs = map (Some \<circ> entry_block) kvs @ [None]"

definition env_rep :: "env \<Rightarrow> env_list \<Rightarrow> bool" where
  "env_rep e kvs \<longleftrightarrow> environ_size e = length kvs \<and> (environ e = Some (env_vector kvs) \<or> environ e = None \<and> kvs = []) \<and> (\<forall>x \<in> set kvs. entry_ok x)"

text \<open>The entries that are not deleted; their names are unique, so that a deletion uncovers no older value.\<close>

definition live_entries :: "env_list \<Rightarrow> (u8 list \<times> u8 list) list" where
  "live_entries kvs = concat (map (\<lambda>x. case x of None \<Rightarrow> [] | Some kv \<Rightarrow> [kv]) kvs)"

definition env_unique :: "env_list \<Rightarrow> bool" where
  "env_unique kvs \<longleftrightarrow> distinct (map fst (live_entries kvs))"

lemma live_simps [simp]: "live_entries [] = []" "live_entries (None # kvs) = live_entries kvs" "live_entries (Some kv # kvs) = kv # live_entries kvs" "live_entries (xs @ ys) = live_entries xs @ live_entries ys"
  by (simp_all add: live_entries_def)

lemma keys_of_live: "keys_of kvs = fst ` set (live_entries kvs)"
  by (force simp: keys_of_def live_entries_def split: option.splits)

lemma keys_of_simps [simp]: "keys_of [] = {}" "keys_of (None # kvs) = keys_of kvs" "keys_of (Some (k, v) # kvs) = insert k (keys_of kvs)" "keys_of (xs @ ys) = keys_of xs \<union> keys_of ys"
  by (auto simp: keys_of_def)

lemma env_map_append: "env_map (xs @ ys) = env_map ys ++ env_map xs"
  by (induction xs) (auto split: option.splits)

lemma env_map_dom: "k \<notin> keys_of kvs \<longleftrightarrow> env_map kvs k = None"
  by (induction kvs) (auto simp: keys_of_def split: option.splits)

lemma entry_block_name: "entry_ok x \<Longrightarrow> str_at (entry_block x) 0 = Some (case x of None \<Rightarrow> [] | Some (k, v) \<Rightarrow> k)"
  by (auto simp: entry_block_def entry_ok_def name_ok_def str_at_def takeWhile_zero split: option.splits)

lemma env_block_entry: "name_ok k \<Longrightarrow> env_block k v = entry_block (Some (k, v))"
proof -
  assume "name_ok k"
  then have "takeWhile (\<lambda>c. c \<noteq> 61) (k @ 61 # v @ [0]) = k" by (auto simp: name_ok_def takeWhile_tail)
  then show ?thesis by (simp add: env_block_def entry_block_def Let_def)
qed

lemma env_find_from:
  assumes "environ e = Some (pre @ env_vector kvs)" and "\<forall>x \<in> set kvs. entry_ok x" and "name \<noteq> []"
  shows "(\<exists>as v bs. kvs = as @ Some (name, v) # bs \<and> name \<notin> keys_of as \<and> env_find e name (length pre) (length kvs) = Some (length pre + length as)) \<or>
    name \<notin> keys_of kvs \<and> env_find e name (length pre) (length kvs) = Some (length pre + length kvs)"
  using assms
proof (induction kvs arbitrary: pre)
  case (Cons x kvs)
  have e: "env_entry e (length pre) = Some (Some (entry_block x))" using Cons.prems(1) by (simp add: env_entry_def env_vector_def)
  have x: "entry_ok x" using Cons.prems(2) by simp
  show ?case
  proof (cases "\<exists>v. x = Some (name, v)")
    case True
    then show ?thesis using e entry_block_name [OF x] by (intro disjI1) (auto intro!: exI [of _ "[]"])
  next
    case False
    then have n: "(case x of None \<Rightarrow> [] | Some (k, v) \<Rightarrow> k) \<noteq> name" using Cons.prems(3) by (auto split: option.splits)
    have f: "env_find e name (length pre) (length (x # kvs)) = env_find e name (length (pre @ [Some (entry_block x)])) (length kvs)" using e entry_block_name [OF x] n by simp
    have k: "name \<notin> keys_of [x]" using False by (auto simp: keys_of_def)
    have "environ e = Some ((pre @ [Some (entry_block x)]) @ env_vector kvs)" using Cons.prems(1) by (simp add: env_vector_def)
    from Cons.IH [OF this] Cons.prems(2,3) consider as v bs where "kvs = as @ Some (name, v) # bs" "name \<notin> keys_of as"
        "env_find e name (length (pre @ [Some (entry_block x)])) (length kvs) = Some (length (pre @ [Some (entry_block x)]) + length as)"
      | "name \<notin> keys_of kvs" "env_find e name (length (pre @ [Some (entry_block x)])) (length kvs) = Some (length (pre @ [Some (entry_block x)]) + length kvs)" by auto
    then show ?thesis
    proof cases
      case 1
      then have "x # kvs = (x # as) @ Some (name, v) # bs \<and> name \<notin> keys_of (x # as) \<and> env_find e name (length pre) (length (x # kvs)) = Some (length pre + length (x # as))"
        using f k keys_of_simps(4) [of "[x]" as] by simp
      then show ?thesis by blast
    next
      case 2
      then show ?thesis using f k keys_of_simps(4) [of "[x]" kvs] by simp
    qed
  qed
qed simp

declare env_find.simps [simp del]

lemma env_find_cases:
  assumes "env_rep e kvs" and "name \<noteq> []"
  obtains (found) as v bs where "kvs = as @ Some (name, v) # bs" "name \<notin> keys_of as" "env_find e name 0 (environ_size e) = Some (length as)" "environ e = Some (env_vector kvs)"
    | (absent) "name \<notin> keys_of kvs" "env_find e name 0 (environ_size e) = Some (length kvs)"
  using assms env_find_from [of e "[]" kvs name] by (cases "environ e") (auto simp: env_rep_def env_find.simps)

lemma env_entry_at: "environ e = Some (env_vector kvs) \<Longrightarrow> i < length kvs \<Longrightarrow> env_entry e i = Some (Some (entry_block (kvs ! i)))"
  by (simp add: env_entry_def env_vector_def nth_append)

lemma getenv_map:
  assumes "env_rep e kvs" and "name \<noteq> []"
  shows "getenv e name = Some (env_map kvs name)"
  using assms
proof (cases rule: env_find_cases)
  case (found as v bs)
  have "entry_ok (Some (name, v))" using assms(1) found(1) by (auto simp: env_rep_def)
  then have "0 \<notin> set name" "0 \<notin> set v" by (auto simp: entry_ok_def name_ok_def)
  moreover have "env_map as name = None" using found(2) env_map_dom by blast
  ultimately show ?thesis using found env_entry_at [OF found(4), of "length as"] assms(1) str_at_append [of v "name @ [0]" "length name + 1" "[]"]
    by (simp add: getenv_def env_rep_def env_map_append map_add_def entry_block_def)
next
  case absent
  then have "env_map kvs name = None" using env_map_dom by blast
  then show ?thesis using absent assms(1) by (auto simp: getenv_def env_rep_def split: option.splits)
qed

definition allocs_ok :: "env_mem \<Rightarrow> bool" where
  "allocs_ok m \<longleftrightarrow> realloc_ok m \<and> malloc_ok m \<and> strdup_ok m"

lemma env_vector_update: "(env_vector (as @ x # bs))[length as := Some (entry_block y)] = env_vector (as @ y # bs)"
  by (simp add: env_vector_def list_update_append)

lemma setenv_entries:
  assumes "env_rep e kvs" and "name_ok name" and "0 \<notin> set v" and "allocs_ok m"
  shows "\<exists>e' kvs'. setenv m e name (Some v) = Some (0, e') \<and> env_rep e' kvs' \<and> env_map kvs' = (env_map kvs)(name \<mapsto> v) \<and> (env_unique kvs \<longrightarrow> env_unique kvs')"
proof -
  have n: "name \<noteq> []" and ok: "entry_ok (Some (name, v))" using assms(2,3) by (auto simp: name_ok_def entry_ok_def)
  have b: "env_block name v = entry_block (Some (name, v))" by (rule env_block_entry [OF assms(2)])
  show ?thesis using assms(1) n
  proof (cases rule: env_find_cases)
    case (found as w bs)
    let ?e = "e\<lparr>environ := Some (env_vector (as @ Some (name, v) # bs))\<rparr>"
    have l: "length as < length (env_vector (as @ Some (name, w) # bs))" by (simp add: env_vector_def)
    have "setenv m e name (Some v) = Some (0, ?e)" using found(3,4) l assms(1,4) b env_vector_update [of as "Some (name, w)" bs "Some (name, v)"] unfolding found(1)
      by (simp add: setenv_def env_rep_def env_entry_def set_entry_def allocs_ok_def)
    moreover have "env_rep ?e (as @ Some (name, v) # bs)" using assms(1) ok unfolding found(1) by (simp add: env_rep_def)
    moreover have "env_map (as @ Some (name, v) # bs) = (env_map kvs)(name \<mapsto> v)"
      using found(2) env_map_dom [of name as] unfolding found(1) env_map_append by (intro ext) (auto simp: map_add_def split: option.splits)
    moreover have "env_unique kvs \<longrightarrow> env_unique (as @ Some (name, v) # bs)" unfolding found(1) by (simp add: env_unique_def)
    ultimately show ?thesis by (intro exI [of _ ?e] exI [of _ "as @ Some (name, v) # bs"]) blast
  next
    case absent
    let ?e = "e\<lparr>environ := Some (env_vector (kvs @ [Some (name, v)])), environ_size := Suc (length kvs)\<rparr>"
    have "take (length kvs) (case environ e of None \<Rightarrow> [] | Some es \<Rightarrow> es) = map (Some \<circ> entry_block) kvs" using assms(1) by (auto simp: env_rep_def env_vector_def)
    then have "grow_env m e = Some (e\<lparr>environ := Some (env_vector kvs @ [None]), environ_size := Suc (length kvs)\<rparr>)"
      using assms(1,4) by (simp add: grow_env_def allocs_ok_def env_rep_def env_vector_def)
    then have "setenv m e name (Some v) = Some (0, ?e)" using absent(2) assms(1,4) b
      by (simp add: setenv_def env_rep_def env_entry_def set_entry_def allocs_ok_def env_vector_def list_update_append)
    moreover have "env_rep ?e (kvs @ [Some (name, v)])" using assms(1) ok by (simp add: env_rep_def)
    moreover have "env_map (kvs @ [Some (name, v)]) = (env_map kvs)(name \<mapsto> v)"
      using absent(1) env_map_dom [of name kvs] unfolding env_map_append by (intro ext) (auto simp: map_add_def split: option.splits)
    moreover have "env_unique kvs \<longrightarrow> env_unique (kvs @ [Some (name, v)])" using absent(1) by (simp add: env_unique_def keys_of_live)
    ultimately show ?thesis by (intro exI [of _ ?e] exI [of _ "kvs @ [Some (name, v)]"]) blast
  qed
qed

lemma setenv_delete:
  assumes "env_rep e kvs" and "env_unique kvs" and "name \<in> keys_of kvs" and "name \<noteq> []" and "allocs_ok m"
  shows "\<exists>e' kvs'. setenv m e name None = Some (0, e') \<and> env_rep e' kvs' \<and> env_map kvs' = (env_map kvs)(name := None) \<and> env_unique kvs'"
  using assms(1,4)
proof (cases rule: env_find_cases)
  case (found as w bs)
  let ?e = "e\<lparr>environ := Some (env_vector (as @ None # bs))\<rparr>"
  have "setenv m e name None = Some (0, ?e)" using found(3,4) assms(1,5) env_vector_update [of as "Some (name, w)" bs None] unfolding found(1)
    by (simp add: setenv_def env_rep_def env_entry_def set_entry_def allocs_ok_def entry_block_def env_vector_def)
  moreover have "env_rep ?e (as @ None # bs)" using assms(1) unfolding found(1) by (simp add: env_rep_def entry_ok_def)
  moreover have "env_map bs name = None" "env_map as name = None" using assms(2) found(1,2) env_map_dom by (auto simp: env_unique_def keys_of_live)
  then have "env_map (as @ None # bs) = (env_map kvs)(name := None)" unfolding found(1) env_map_append by (intro ext) (auto simp: map_add_def split: option.splits)
  moreover have "env_unique (as @ None # bs)" using assms(2) unfolding found(1) by (simp add: env_unique_def)
  ultimately show ?thesis by (intro exI [of _ ?e] exI [of _ "as @ None # bs"]) simp
qed (use assms(3) in simp)

text \<open>
  The environment is a map: in an environment of named entries, setting a name stores its value, and every lookup returns what was set last. Deleting a name that is there removes it.
\<close>

theorem setenv_getenv:
  assumes "env_rep e kvs" and "env_unique kvs" and "name_ok name" and "case val of None \<Rightarrow> name \<in> keys_of kvs | Some v \<Rightarrow> 0 \<notin> set v" and "allocs_ok m"
  shows "\<exists>e' kvs'. setenv m e name val = Some (0, e') \<and> env_rep e' kvs' \<and> env_unique kvs' \<and> getenv e' name = Some val \<and>
    (\<forall>other. other \<noteq> [] \<and> other \<noteq> name \<longrightarrow> getenv e' other = getenv e other)"
proof -
  have n: "name \<noteq> []" using assms(3) by (simp add: name_ok_def)
  obtain e' kvs' where e': "setenv m e name val = Some (0, e')" "env_rep e' kvs'" "env_map kvs' = (env_map kvs)(name := val)" "env_unique kvs'"
  proof (cases val)
    case None
    then show ?thesis using setenv_delete [OF assms(1,2) _ n assms(5)] assms(4) that by auto
  next
    case (Some v)
    then show ?thesis using setenv_entries [OF assms(1,3) _ assms(5), of v] assms(2,4) that by auto
  qed
  then show ?thesis using getenv_map [OF e'(2)] getenv_map [OF assms(1)] n by (intro exI [of _ e'] exI [of _ kvs']) simp
qed

text \<open>
  Two ways to lose the environment: deleting a name that is not there overwrites the null pointer behind the entries, and deleting the last entry makes the loop that skips deleted entries follow that null pointer. In both
  cases packing the environment for a new program accesses memory outside of it.
\<close>

lemma skip_entry: "entry_ok x \<Longrightarrow> skip_deleted (Some (entry_block x) # es) = (if x = None then skip_deleted es else Some (entry_block x, es))"
proof (cases x)
  case (Some kv)
  assume "entry_ok x"
  then obtain c k v where "kv = (c # k, v)" "c \<noteq> 0" using Some by (cases kv; cases "fst kv") (auto simp: entry_ok_def name_ok_def)
  then show ?thesis using Some by (simp add: entry_block_def)
qed (simp add: entry_block_def)

lemma pack_deleted_last:
  assumes "\<forall>x \<in> set kvs. entry_ok x" and "rest = [] \<or> rest = [None]"
  shows "pack_size (map (Some \<circ> entry_block) kvs @ Some [0] # rest) = None \<and> skip_deleted (Some [0] # rest) = None"
  using assms
proof (induction kvs)
  case Nil
  then show ?case by (auto simp: pack_size.simps)
next
  case (Cons x kvs)
  let ?es = "map (Some \<circ> entry_block) kvs @ Some [0] # rest"
  have x: "skip_deleted (Some (entry_block x) # ?es) = (if x = None then skip_deleted ?es else Some (entry_block x, ?es))" using Cons.prems(1) by (intro skip_entry) simp
  have "\<forall>x \<in> set kvs. entry_ok x" using Cons.prems(1) by simp
  from Cons.IH [OF this Cons.prems(2)] have ih: "pack_size ?es = None" "skip_deleted (Some [0] # rest) = None" by blast+
  obtain b es where "?es = Some b # es" by (cases kvs) auto
  then have "pack_size ?es = (case skip_deleted ?es of None \<Rightarrow> None | Some (b, es') \<Rightarrow> do { s \<leftarrow> str_at b 0; v \<leftarrow> str_at b (length s + 1); n \<leftarrow> pack_size es'; Some (length s + 1 + (length v + 1) + n) })"
    by (subst pack_size.simps) simp
  then show ?case using x ih by (subst pack_size.simps) (simp split: option.splits)
qed

lemma setenv_unterminated:
  assumes "env_rep e kvs" and "kvs \<noteq> []" and "name \<notin> keys_of kvs" and "name \<noteq> []" and "allocs_ok m"
  shows "\<exists>e'. setenv m e name None = Some (0, e') \<and> packenv (environ e') = None"
proof -
  have v: "environ e = Some (env_vector kvs)" "environ_size e = length kvs" "\<forall>x \<in> set kvs. entry_ok x" using assms(1,2) by (auto simp: env_rep_def)
  have f: "env_find e name 0 (environ_size e) = Some (length kvs)" using assms(1,4) by (cases rule: env_find_cases) (use assms(3) in auto)
  let ?es = "map (Some \<circ> entry_block) kvs @ [Some [0]]"
  have "setenv m e name None = Some (0, e\<lparr>environ := Some ?es\<rparr>)" using f v assms(5) by (simp add: setenv_def env_entry_def set_entry_def env_vector_def allocs_ok_def list_update_append)
  then show ?thesis using pack_deleted_last [OF v(3), of "[]"] by (simp add: packenv_def)
qed

lemma packenv_last_deleted:
  assumes "env_rep e (kvs @ [None])"
  shows "packenv (environ e) = None"
proof -
  have "environ e = Some (map (Some \<circ> entry_block) kvs @ Some [0] # [None])" "\<forall>x \<in> set kvs. entry_ok x" using assms by (auto simp: env_rep_def env_vector_def entry_block_def)
  then show ?thesis using pack_deleted_last [of kvs "[None]"] by (simp add: packenv_def)
qed

section \<open>Packs\<close>

text \<open>
  The arguments of a program arrive as they were passed, up to the first that starts with a backspace, which ends the pack.
\<close>

theorem packarg_loadarg:
  assumes "\<forall>a \<in> set argv. 0 \<notin> set a"
  shows "loadarg (packarg argv) = Some (takeWhile (\<lambda>a. take 1 a \<noteq> [8]) argv)"
  using assms
proof (induction argv)
  case Nil
  then show ?case by (simp add: packarg_def loadarg.simps)
next
  case (Cons a argv)
  have p: "packarg (a # argv) = a @ 0 # packarg argv" by (simp add: packarg_def)
  have s: "str_at (a @ 0 # packarg argv) 0 = Some a" using Cons.prems by simp
  show ?case
  proof (cases a)
    case Nil
    then show ?thesis using Cons s unfolding p by (subst loadarg.simps) simp
  next
    case (Cons c a')
    then show ?thesis using s Cons.IH Cons.prems unfolding p by (subst loadarg.simps) (simp add: Cons)
  qed
qed

definition pack_of :: "(u8 list \<times> u8 list) list \<Rightarrow> u8 list" where
  "pack_of kvl = concat (map (\<lambda>(k, v). k @ 0 # v @ [0]) kvl) @ [8]"

lemma pack_of_Cons [simp]: "pack_of ((k, v) # kvl) = k @ 0 # v @ 0 # pack_of kvl" "pack_of [] = [8]"
  by (simp_all add: pack_of_def)

lemma entry_strings: "entry_ok (Some (k, v)) \<Longrightarrow> str_at (entry_block (Some (k, v))) 0 = Some k \<and> str_at (entry_block (Some (k, v))) (Suc (length k)) = Some v"
  using str_at_append [of v "k @ [0]" "Suc (length k)" "[]"] by (simp add: entry_block_def entry_ok_def name_ok_def)

text \<open>The two loops agree, so that the strings fill the block that was allocated for them.\<close>

lemma pack_entries:
  assumes "\<forall>x \<in> set kvs. entry_ok x" and "kvs = [] \<or> last kvs \<noteq> None"
  shows "pack_size (env_vector kvs) = Some (length (pack_of (live_entries kvs)) - 1) \<and> pack_copy (length (pack_of (live_entries kvs))) (env_vector kvs) = Some (pack_of (live_entries kvs))"
  using assms
proof (induction kvs)
  case Nil
  then show ?case by (simp add: env_vector_def pack_size.simps pack_copy.simps)
next
  case (Cons x kvs)
  have v: "env_vector (x # kvs) = Some (entry_block x) # env_vector kvs" by (simp add: env_vector_def)
  have s: "skip_deleted (Some (entry_block x) # env_vector kvs) = (if x = None then skip_deleted (env_vector kvs) else Some (entry_block x, env_vector kvs))" using Cons.prems(1) by (intro skip_entry) simp
  have ih: "pack_size (env_vector kvs) = Some (length (pack_of (live_entries kvs)) - 1)" "pack_copy (length (pack_of (live_entries kvs))) (env_vector kvs) = Some (pack_of (live_entries kvs))"
    using Cons.IH Cons.prems by (auto split: if_splits)
  show ?case
  proof (cases x)
    case None
    then have "kvs \<noteq> []" using Cons.prems(2) by auto
    then obtain b es where "env_vector kvs = Some b # es" by (cases kvs) (auto simp: env_vector_def)
    then have "pack_size (env_vector (x # kvs)) = pack_size (env_vector kvs)" "pack_copy n (env_vector (x # kvs)) = pack_copy n (env_vector kvs)" for n
      using s None unfolding v by (simp_all add: pack_size.simps [of "_ # _"] pack_copy.simps [of n "_ # _"])
    then show ?thesis using ih None by simp
  next
    case (Some kv)
    then obtain k w where kv: "x = Some (k, w)" by (cases kv) auto
    have e: "str_at (entry_block x) 0 = Some k" "str_at (entry_block x) (Suc (length k)) = Some w" using entry_strings [of k w] Cons.prems(1) kv by auto
    have "length (pack_of (live_entries kvs)) > 0" by (simp add: pack_of_def)
    then show ?thesis using s e ih kv unfolding v by (simp add: pack_size.simps [of "_ # _"] pack_copy.simps [of _ "_ # _"])
  qed
qed

lemma load_entries:
  assumes "env_rep e kvs" and "\<forall>(k, v) \<in> set kvl. name_ok k \<and> hd k \<noteq> 8 \<and> 0 \<notin> set v" and "distinct (map fst kvl)" and "allocs_ok m"
  shows "\<exists>e' kvs'. load_pack m e (pack_of kvl) = Some e' \<and> env_rep e' kvs' \<and> env_map kvs' = env_map kvs ++ env_map (map Some kvl)"
  using assms(1-3)
proof (induction kvl arbitrary: e kvs)
  case Nil
  then show ?case by (auto simp: load_pack.simps)
next
  case (Cons kv kvl)
  obtain k v where kv: "kv = (k, v)" by (cases kv)
  then have ok: "name_ok k" "hd k \<noteq> 8" "0 \<notin> set v" using Cons.prems(2) by auto
  then obtain c k' where k: "k = c # k'" "c \<noteq> 8" "0 \<notin> set k" by (cases k) (auto simp: name_ok_def)
  obtain e1 kvs1 where 1: "setenv m e k (Some v) = Some (0, e1)" "env_rep e1 kvs1" "env_map kvs1 = (env_map kvs)(k \<mapsto> v)" using setenv_entries [OF Cons.prems(1) ok(1,3) assms(4)] by blast
  obtain e2 kvs2 where 2: "load_pack m e1 (pack_of kvl) = Some e2" "env_rep e2 kvs2" "env_map kvs2 = env_map kvs1 ++ env_map (map Some kvl)" using Cons.IH [OF 1(2)] Cons.prems(2,3) by auto
  have "str_at (k @ 0 # v @ 0 # pack_of kvl) 0 = Some k" "str_at (k @ 0 # v @ 0 # pack_of kvl) (Suc (length k)) = Some v"
    using k(3) ok(3) str_at_append [of v "k @ [0]" "Suc (length k)" "pack_of kvl"] by simp_all
  then have "load_pack m e (pack_of (kv # kvl)) = Some e2" using k(1,2) 1(1) 2(1) unfolding kv by (subst load_pack.simps) simp
  moreover have "k \<notin> keys_of (map Some kvl)" using Cons.prems(3) kv by (force simp: keys_of_def)
  then have "env_map kvs2 = env_map kvs ++ env_map (map Some (kv # kvl))" using env_map_dom [of k "map Some kvl"] unfolding 2(3) 1(3) kv by (intro ext) (auto simp: map_add_def split: option.splits)
  ultimately show ?case using 2(2) by blast
qed

lemma env_map_live: "env_map (map Some (live_entries kvs)) = env_map kvs"
  by (induction kvs) (auto split: option.splits simp: live_entries_def)


section \<open>Examples\<close>

definition mem_ok :: env_mem where
  "mem_ok = \<lparr>realloc_ok = True, malloc_ok = True, strdup_ok = True\<rparr>"

text \<open>An environment with the entries \<open>A=1\<close> and \<open>B=\<close>.\<close>

definition env0 :: env where
  "env0 = \<lparr>environ = Some [Some [65, 0, 49, 0], Some [66, 0, 0], None], environ_size = 2\<rparr>"

lemma env0_rep: "env_rep env0 [Some ([65], [49]), Some ([66], [])]" "env_unique [Some ([65], [49]), Some ([66], [])]" "allocs_ok mem_ok"
  by (simp_all add: env_rep_def env0_def env_vector_def entry_block_def entry_ok_def name_ok_def env_unique_def allocs_ok_def mem_ok_def)

theorem setenv_getenv_witness: "\<exists>e'. setenv mem_ok env0 [65] (Some [50]) = Some (0, e') \<and> getenv e' [65] = Some (Some [50]) \<and> getenv e' [66] = Some (Some [])"
proof -
  have "getenv env0 [66] = Some (Some [])" by code_simp
  then show ?thesis using setenv_getenv [OF env0_rep(1,2), of "[65]" "Some [50]" mem_ok] env0_rep(3) by (auto simp: name_ok_def)
qed

theorem packarg_loadarg_witness: "loadarg (packarg [[108, 115], [], [8, 97], [98]]) = Some [[108, 115], []]"
  using packarg_loadarg [of "[[108, 115], [], [8, 97], [98]]"] by simp


end
