(* ===== verification/Input_Devices.thy ===== *)
theory Input_Devices
  imports Formatting
begin

text \<open>
  The drivers of the input devices: the keyboard, \<open>driver/kbd/main.c\<close>, and the mouse, \<open>driver/mouse/main.c\<close>, in the configuration without interrupts in which it is built. The argument of a handler is the byte that it reads from the controller. Events
  are recorded as format and arguments. The initialisation of the controllers is not modelled.
\<close>

section \<open>The keyboard\<close>

abbreviation (input) ALT :: u32 where "ALT \<equiv> 0x00800000"
abbreviation (input) CTRL :: u32 where "CTRL \<equiv> 0x00800001"
abbreviation (input) SHFT :: u32 where "SHFT \<equiv> 0x00800002"
abbreviation (input) SYSR :: u32 where "SYSR \<equiv> 0x00800003"
abbreviation (input) WIN :: u32 where "WIN \<equiv> 0x00800004"
abbreviation (input) CAPS :: u32 where "CAPS \<equiv> 0x00800005"
abbreviation (input) INS :: u32 where "INS \<equiv> 0x00800006"
abbreviation (input) ESC :: u32 where "ESC \<equiv> 0x00800010"
abbreviation (input) NUML :: u32 where "NUML \<equiv> 0x0080001D"
abbreviation (input) SCRL :: u32 where "SCRL \<equiv> 0x0080001E"
abbreviation (input) DEL :: u32 where "DEL \<equiv> 0x0080001F"

text \<open>The rows of the keymap: digits and letters in two cases, then the keys with the same code in both, and the number pad.\<close>

definition lower_keys :: "u32 list" where
  "lower_keys = [0, ESC, 49, 50, 51, 52, 53, 54, 55, 56, 57, 48, 45, 61, 8,
     9, 113, 119, 101, 114, 116, 121, 117, 105, 111, 112, 91, 93, 10,
     CTRL, 97, 115, 100, 102, 103, 104, 106, 107, 108, 59, 39, 96, SHFT,
     92, 122, 120, 99, 118, 98, 110, 109, 44, 46, 47, SHFT, 42]"

definition upper_keys :: "u32 list" where
  "upper_keys = [0, ESC, 33, 64, 35, 36, 37, 94, 38, 42, 40, 41, 95, 43, 8,
     9, 81, 87, 69, 82, 84, 89, 85, 73, 79, 80, 123, 125, 10,
     CTRL, 65, 83, 68, 70, 71, 72, 74, 75, 76, 58, 34, 126, SHFT,
     124, 90, 88, 67, 86, 66, 78, 77, 60, 62, 63, SHFT, 42]"

definition function_keys :: "u32 list" where
  "function_keys = [ALT, 32, CAPS, 0x00800011, 0x00800012, 0x00800013, 0x00800014, 0x00800015, 0x00800016, 0x00800017, 0x00800018, 0x00800019, 0x0080001A]"

definition pad_keys :: "u32 list" where
  "pad_keys = [NUML, SCRL, 0x0080000E, 0x00800008, 0x0080000C, 45, 0x0080000A, 5, 0x0080000B, 43, 0x0080000F, 0x00800009, 0x0080000D, INS, DEL]"

definition pad_digits :: "u32 list" where
  "pad_digits = [NUML, SCRL, 7, 8, 9, 45, 4, 5, 6, 43, 1, 2, 3, 0, 46]"

text \<open>The rest of a row that is not initialised is zero.\<close>

definition last_keys :: "u32 list" where
  "last_keys = [SYSR, 0, WIN, 0x0080001B, 0x0080001C, 0, 0, WIN, WIN] @ replicate 35 0"

definition keymap :: "u32 list list" where
  "keymap = [
     lower_keys @ function_keys @ pad_keys @ last_keys,
     lower_keys @ function_keys @ pad_digits @ last_keys,
     upper_keys @ function_keys @ pad_keys @ last_keys,
     upper_keys @ function_keys @ pad_digits @ last_keys]"

type_synonym device_event = "string \<times> u32 list"

record keyboard =
  shift :: bool
  caps :: bool
  numlk :: bool
  key_events :: "device_event list"

definition kbd_irq :: "u8 \<Rightarrow> keyboard \<Rightarrow> keyboard option" where
  "kbd_irq scan s = (
     if scan = 0xE0 then Some s
     else do {
       let row = (if shift s \<noteq> caps s then 2 else 0) + (if numlk s then 1 else (0 :: nat));
       let i = unat (scan AND 0x7F);
       code \<leftarrow> (if row < length keymap \<and> i < length (keymap ! row) then Some (keymap ! row ! i) else None);
       let down = (scan AND 0x80 = 0);
       Some (if code = SHFT then s\<lparr>shift := down\<rparr>
         else if code = CAPS then s\<lparr>caps := down\<rparr>
         else if code = NUML then s\<lparr>numlk := down\<rparr>
         else s\<lparr>key_events := key_events s @ [((if down then ''key press %d'' else ''key release %d'') @ [CHR 0x0A], [code])]\<rparr>)
     })"

section \<open>The mouse\<close>

record mouse =
  m_bytes :: "u8 list"
  curbyte :: nat
  prevbuttons :: int
  m_dx :: int
  m_dy :: int
  m_buttons :: int
  mouse_events :: "(string \<times> int list) list"

definition send_event_delta :: "int \<Rightarrow> int \<Rightarrow> mouse \<Rightarrow> mouse" where
  "send_event_delta dx dy s = (if dx \<noteq> 0 \<or> dy \<noteq> 0 then s\<lparr>mouse_events := mouse_events s @ [(''mouse delta %d %d'', [dx, dy])]\<rparr> else s)"

definition send_event_button :: "int \<Rightarrow> mouse \<Rightarrow> mouse" where
  "send_event_button buttons s = (if buttons \<noteq> prevbuttons s then s\<lparr>mouse_events := mouse_events s @ [(''mouse button %d'', [buttons])], prevbuttons := buttons\<rparr> else s)"

definition read_byte :: "u8 \<Rightarrow> mouse \<Rightarrow> mouse option" where
  "read_byte b s = (
     if curbyte s \<ge> length (m_bytes s) then None
     else do {
       let s = s\<lparr>m_bytes := (m_bytes s)[curbyte s := b], curbyte := curbyte s + 1\<rparr>;
       if curbyte s = 1 \<and> m_bytes s ! 0 AND 0x08 = 0 then Some (s\<lparr>curbyte := 0\<rparr>)
       else do {
         let s = (if curbyte s = 1 then s\<lparr>m_buttons := uint (m_bytes s ! 0 AND 0x7)\<rparr> else s);
         Some (if curbyte s = 3 then s\<lparr>curbyte := 0,
             m_dx := m_dx s + (uint (m_bytes s ! 1) - (if m_bytes s ! 0 AND 0x10 \<noteq> 0 then 256 else 0)),
             m_dy := m_dy s - (uint (m_bytes s ! 2) - (if m_bytes s ! 0 AND 0x20 \<noteq> 0 then 256 else 0))\<rparr>
           else s)
       }
     })"

text \<open>One turn of the main loop: a byte, or \<^const>\<open>None\<close> while the controller has none.\<close>

definition mouse_poll :: "u8 option \<Rightarrow> bool \<times> mouse \<Rightarrow> (bool \<times> mouse) option" where
  "mouse_poll input = (\<lambda>(first, s). case input of
     None \<Rightarrow> Some (False, if first then (send_event_button (m_buttons s) (send_event_delta (m_dx s) (m_dy s) s))\<lparr>m_dx := 0, m_dy := 0\<rparr> else s)
   | Some b \<Rightarrow> do { s \<leftarrow> read_byte b s; Some (True, s) })"

section \<open>Modifier keys\<close>

text \<open>A key is held if the last of its scan codes was that of a press.\<close>

definition held :: "u8 set \<Rightarrow> u8 list \<Rightarrow> bool" where
  "held ks scans = (let bs = filter (\<lambda>b. b AND 0x7F \<in> ks) scans in bs \<noteq> [] \<and> last bs AND 0x80 = 0)"

lemma held_simps [simp]: "held ks [] = False" "held ks (scans @ [b]) = (if b AND 0x7F \<in> ks then b AND 0x80 = 0 else held ks scans)"
  by (simp_all add: held_def Let_def)

abbreviation (input) shift_keys :: "u8 set" where "shift_keys \<equiv> {0x2A, 0x36}"
abbreviation (input) caps_keys :: "u8 set" where "caps_keys \<equiv> {0x3A}"
abbreviation (input) numlock_keys :: "u8 set" where "numlock_keys \<equiv> {0x45}"

text \<open>In every row the modifiers are at the same places.\<close>

lemma keymap_rows: "length keymap = 4" "r < 4 \<Longrightarrow> length (keymap ! r) = 128"
proof -
  have "length keymap = 4 \<and> list_all (\<lambda>row. length row = 128) keymap" by code_simp
  then show "length keymap = 4" "r < 4 \<Longrightarrow> length (keymap ! r) = 128" by (simp_all add: list_all_length)
qed

lemma keymap_modifiers:
  assumes "r < 4" and "i < 128"
  shows "keymap ! r ! i = SHFT \<longleftrightarrow> i \<in> {42, 54}" and "keymap ! r ! i = CAPS \<longleftrightarrow> i = 58" and "keymap ! r ! i = NUML \<longleftrightarrow> i = 69"
proof -
  have "list_all (\<lambda>r. list_all (\<lambda>i. (keymap ! r ! i = SHFT \<longleftrightarrow> i = 42 \<or> i = 54) \<and> (keymap ! r ! i = CAPS \<longleftrightarrow> i = 58) \<and> (keymap ! r ! i = NUML \<longleftrightarrow> i = 69)) [0..<128]) [0..<4]" by code_simp
  then have "(keymap ! r ! i = SHFT \<longleftrightarrow> i = 42 \<or> i = 54) \<and> (keymap ! r ! i = CAPS \<longleftrightarrow> i = 58) \<and> (keymap ! r ! i = NUML \<longleftrightarrow> i = 69)" using assms by (simp add: list_all_iff)
  then show "keymap ! r ! i = SHFT \<longleftrightarrow> i \<in> {42, 54}" "keymap ! r ! i = CAPS \<longleftrightarrow> i = 58" "keymap ! r ! i = NUML \<longleftrightarrow> i = 69" by auto
qed

lemma scan_index: "unat (b AND 0x7F) < 128" "unat (b AND 0x7F) = n \<longleftrightarrow> b AND 0x7F = of_nat n" if "n < 256" for b :: u8
proof -
  have "b AND 0x7F \<le> 0x7F" by (rule word_and_le1)
  then show "unat (b AND 0x7F) < 128" by (simp add: word_le_nat_alt)
  show "unat (b AND 0x7F) = n \<longleftrightarrow> b AND 0x7F = of_nat n" using that by (auto simp: word_unat_eq_iff unat_of_nat take_bit_nat_eq_self)
qed

definition kbd0 :: keyboard where
  "kbd0 = \<lparr>shift = False, caps = False, numlk = False, key_events = []\<rparr>"

text \<open>What the code of a key is when the modifiers are as they were held.\<close>

definition key_code :: "u8 list \<Rightarrow> u8 \<Rightarrow> u32" where
  "key_code scans b = keymap ! ((if held shift_keys scans \<noteq> held caps_keys scans then 2 else 0) + (if held numlock_keys scans then 1 else 0)) ! unat (b AND 0x7F)"

text \<open>The event of a scan code, after those before it, and the events of all.\<close>

definition key_event :: "u8 list \<Rightarrow> u8 \<Rightarrow> device_event list" where
  "key_event scans b = (if b = 0xE0 \<or> b AND 0x7F \<in> shift_keys \<union> caps_keys \<union> numlock_keys then []
     else [((if b AND 0x80 = 0 then ''key press %d'' else ''key release %d'') @ [CHR 0x0A], [key_code scans b])])"

definition key_log :: "u8 list \<Rightarrow> device_event list" where
  "key_log scans = concat (map (\<lambda>n. key_event (take n scans) (scans ! n)) [0..<length scans])"

lemma key_log_snoc: "key_log (scans @ [b]) = key_log scans @ key_event scans b"
  by (auto simp: key_log_def nth_append intro!: arg_cong [of _ _ concat])

lemma kbd_step:
  assumes "shift s = held shift_keys scans" and "caps s = held caps_keys scans" and "numlk s = held numlock_keys scans"
  shows "\<exists>s'. kbd_irq b s = Some s' \<and> shift s' = held shift_keys (scans @ [b]) \<and> caps s' = held caps_keys (scans @ [b]) \<and> numlk s' = held numlock_keys (scans @ [b]) \<and>
    key_events s' = key_events s @ key_event scans b"
proof (cases "b = 0xE0")
  case True
  then show ?thesis using assms by (simp add: kbd_irq_def key_event_def)
next
  case False
  define row where "row = (if shift s \<noteq> caps s then 2 else 0) + (if numlk s then 1 else (0 :: nat))"
  let ?i = "unat (b AND 0x7F)"
  have r: "row < 4" by (auto simp: row_def)
  have i: "?i < 128" using scan_index(1) [of 0] by simp
  have k: "keymap ! row ! ?i = key_code scans b" unfolding key_code_def assms [symmetric] row_def by simp
  have c: "key_code scans b = SHFT \<longleftrightarrow> b AND 0x7F \<in> shift_keys" "key_code scans b = CAPS \<longleftrightarrow> b AND 0x7F \<in> caps_keys" "key_code scans b = NUML \<longleftrightarrow> b AND 0x7F \<in> numlock_keys"
    using keymap_modifiers [OF r i] scan_index(2) [of 42 b] scan_index(2) [of 54 b] scan_index(2) [of 58 b] scan_index(2) [of 69 b] unfolding k by auto
  have "kbd_irq b s = Some (if key_code scans b = SHFT then s\<lparr>shift := b AND 0x80 = 0\<rparr> else if key_code scans b = CAPS then s\<lparr>caps := b AND 0x80 = 0\<rparr>
    else if key_code scans b = NUML then s\<lparr>numlk := b AND 0x80 = 0\<rparr>
    else s\<lparr>key_events := key_events s @ [((if b AND 0x80 = 0 then ''key press %d'' else ''key release %d'') @ [CHR 0x0A], [key_code scans b])]\<rparr>)"
    using False r i keymap_rows k unfolding kbd_irq_def row_def [symmetric] by (simp add: row_def [symmetric])
  then show ?thesis unfolding c using assms False by (auto simp: key_event_def)
qed

text \<open>
  C40. Whatever bytes the keyboard sends, its driver handles each without leaving the keymap; shift, caps lock and num lock are active exactly while the last byte of their keys was that of a press, so that caps lock and num lock have to be held like shift;
  and the events are, in order, the presses and releases of all other keys, with the code of the row of the keymap that the modifiers select.
\<close>

theorem kbd_tracks:
  "\<exists>s. for_list kbd_irq scans kbd0 = Some s \<and> shift s = held shift_keys scans \<and> caps s = held caps_keys scans \<and> numlk s = held numlock_keys scans \<and> key_events s = key_log scans"
proof (induction scans rule: rev_induct)
  case Nil
  then show ?case by (simp add: kbd0_def key_log_def)
next
  case (snoc b scans)
  then obtain s where s: "for_list kbd_irq scans kbd0 = Some s" "shift s = held shift_keys scans" "caps s = held caps_keys scans" "numlk s = held numlock_keys scans" "key_events s = key_log scans" by blast
  then show ?case using kbd_step [OF s(2-4), of b] by (auto simp: for_list_append key_log_snoc simp del: held_simps)
qed

section \<open>Packets of the mouse\<close>

text \<open>A packet has a first byte with bit 3 set; other bytes before a packet are skipped.\<close>

record packet =
  p_skipped :: "u8 list"
  p_flags :: u8
  p_x :: u8
  p_y :: u8

definition packet_ok :: "packet \<Rightarrow> bool" where
  "packet_ok p \<longleftrightarrow> (\<forall>b \<in> set (p_skipped p). b AND 0x08 = 0) \<and> p_flags p AND 0x08 \<noteq> 0"

definition packet_bytes :: "packet \<Rightarrow> u8 list" where
  "packet_bytes p = p_skipped p @ [p_flags p, p_x p, p_y p]"

definition packet_dx :: "packet \<Rightarrow> int" where
  "packet_dx p = uint (p_x p) - (if p_flags p AND 0x10 \<noteq> 0 then 256 else 0)"

definition packet_dy :: "packet \<Rightarrow> int" where
  "packet_dy p = uint (p_y p) - (if p_flags p AND 0x20 \<noteq> 0 then 256 else 0)"

definition at_packet :: "mouse \<Rightarrow> bool" where
  "at_packet s \<longleftrightarrow> length (m_bytes s) = 3 \<and> curbyte s = 0"

lemma skip_bytes:
  assumes "at_packet s" and "\<forall>b \<in> set bs. b AND 0x08 = 0"
  shows "\<exists>m. length m = 3 \<and> for_list read_byte bs s = Some (s\<lparr>m_bytes := m\<rparr>)"
  using assms
proof (induction bs arbitrary: s)
  case Nil
  then show ?case by (intro exI [of _ "m_bytes s"]) (simp add: at_packet_def)
next
  case (Cons b bs)
  have "read_byte b s = Some (s\<lparr>m_bytes := (m_bytes s)[0 := b]\<rparr>)" using Cons.prems by (cases s) (simp add: read_byte_def at_packet_def)
  moreover have "\<exists>m. length m = 3 \<and> for_list read_byte bs (s\<lparr>m_bytes := (m_bytes s)[0 := b]\<rparr>) = Some (s\<lparr>m_bytes := (m_bytes s)[0 := b]\<rparr>\<lparr>m_bytes := m\<rparr>)"
    using Cons.prems by (intro Cons.IH) (simp_all add: at_packet_def)
  ultimately show ?case by auto
qed

lemma read_packet:
  assumes "at_packet s" and "packet_ok p"
  shows "\<exists>s'. for_list read_byte (packet_bytes p) s = Some s' \<and> at_packet s' \<and> m_dx s' = m_dx s + packet_dx p \<and> m_dy s' = m_dy s - packet_dy p \<and> m_buttons s' = uint (p_flags p AND 0x7)"
proof -
  obtain m where m: "length m = 3" "for_list read_byte (p_skipped p) s = Some (s\<lparr>m_bytes := m\<rparr>)" using skip_bytes [OF assms(1)] assms(2) by (auto simp: packet_ok_def)
  then obtain a b c where abc: "m = [a, b, c]" by (auto simp: length_Suc_conv numeral_3_eq_3)
  show ?thesis using assms m unfolding abc by (simp add: packet_bytes_def for_list_append read_byte_def at_packet_def packet_ok_def packet_dx_def packet_dy_def)
qed

text \<open>
  The mouse driver decodes the stream of bytes: after any sequence of packets, with bytes in between that cannot start one, it stands at the start of a packet, its movement is the sum of the movements of the packets in nine-bit two's complement, with the vertical
  axis turned round, and its buttons are those of the last packet.
\<close>

theorem mouse_decodes:
  assumes "at_packet s" and "\<forall>p \<in> set ps. packet_ok p"
  shows "\<exists>s'. for_list read_byte (concat (map packet_bytes ps)) s = Some s' \<and> at_packet s' \<and> m_dx s' = m_dx s + sum_list (map packet_dx ps) \<and> m_dy s' = m_dy s - sum_list (map packet_dy ps) \<and>
    m_buttons s' = (if ps = [] then m_buttons s else uint (p_flags (last ps) AND 0x7))"
  using assms
proof (induction ps arbitrary: s)
  case (Cons p ps)
  obtain s1 where 1: "for_list read_byte (packet_bytes p) s = Some s1" "at_packet s1" "m_dx s1 = m_dx s + packet_dx p" "m_dy s1 = m_dy s - packet_dy p" "m_buttons s1 = uint (p_flags p AND 0x7)"
    using read_packet [OF Cons.prems(1)] Cons.prems(2) by (metis list.set_intros(1))
  show ?case using Cons.IH [OF 1(2)] Cons.prems(2) 1 by (auto simp: for_list_append)
qed simp

definition mouse0 :: mouse where
  "mouse0 = \<lparr>m_bytes = [0, 0, 0], curbyte = 0, prevbuttons = 0, m_dx = 0, m_dy = 0, m_buttons = 0, mouse_events = []\<rparr>"

theorem mouse_decodes_witness:
  "\<exists>s'. for_list read_byte [0x07, 0x19, 0xFE, 0x05, 0x08, 0x03, 0x00] mouse0 = Some s' \<and> m_dx s' = 1 \<and> m_dy s' = -5 \<and> m_buttons s' = 0"
proof -
  let ?ps = "[\<lparr>p_skipped = [0x07], p_flags = 0x19, p_x = 0xFE, p_y = 0x05\<rparr>, \<lparr>p_skipped = [], p_flags = 0x08, p_x = 0x03, p_y = 0x00\<rparr>]"
  have "at_packet mouse0" "\<forall>p \<in> set ?ps. packet_ok p" by (simp_all add: at_packet_def mouse0_def packet_ok_def)
  from mouse_decodes [OF this] show ?thesis by (auto simp: packet_bytes_def packet_dx_def packet_dy_def mouse0_def simp del: for_list.simps)
qed

end
