(* ===== verification/Spec2Isabelle.thy ===== *)
theory Spec2Isabelle
  imports Exec Numbers Sorting User_Heap_Rep Paths_Rep Objects_Rep Descriptors_Rep Messages_Rep Streams_Rep Scanning_Rep Driver_Dirs Pipe Window_Calls Terminal_Rep Calendar Random_Numbers Environment Input_Devices
begin

text \<open>
  \<^bold>\<open>Rhombus.\<close> A verification library for the Rhombus operating system: its microkernel (\<open>src/kernel\<close>),
  the parts of its C library (\<open>src/libc\<close>) that every program relies on, the library of its drivers
  (\<open>src/librdi\<close>) with several of them (\<open>src/driver\<close>), and its window manager (\<open>src/daemon/wmanager\<close>).

  \<^bold>\<open>The program.\<close> The kernel runs on one 32-bit x86 processor without preemption of itself. It hands out
  page frames and maps them in page tables, allocates its own objects from a bucket heap, keeps processes
  and threads, schedules threads round robin, passes messages with packets of pages between processes,
  redirects interrupts to processes, and is entered only through \<open>int_handler\<close>: by a system call, an
  exception or a device interrupt. A message starts a new thread in the receiving process. User programs
  get memory from the kernel with \<open>syscall_page\<close> and divide it with a buddy heap. Files, directories and
  devices are objects of drivers, which are user processes: a resource pointer names a process and one of
  its objects, a client reaches the object with messages through its table of descriptors and connections,
  and the driver finds it in an index, checks the status with which the client opened it, and runs a hook.
  The window manager is such a driver, whose objects are windows: it gets the events of the keyboard and mouse drivers, and
  the terminal draws into one of its windows.

  \<^bold>\<open>Conventions.\<close> A C function is a function of the same name from the state to an \<^typ>\<open>'a option\<close>:
  \<^const>\<open>None\<close> is everything after which the caller does not go on, \<open>debug_panic\<close>, a fault in kernel mode,
  an access outside an array and a loop that does not end. A theorem about a result therefore says
  that the function returns. Integers have the width of the source, so arithmetic wraps. Pointers are addresses and
  \<open>NULL\<close> is \<open>0\<close>; the objects of a type are a partial function from addresses to records, and an access
  through a pointer outside its domain is \<^const>\<open>None\<close>. Loops with a counter are \<^const>\<open>for_list\<close> over the
  indices; loops without a bound are partial functions in the option monad, never fuel, so no bound has
  to be chosen. The state of the kernel is an extensible record that grows with the theories: frames,
  page tables, heap, then everything else.

  \<^bold>\<open>The theories of the kernel.\<close>
  \<^item> \<open>Kernel_Prelude\<close>: machine types, address-space layout, page flags, counted loops, linked lists in a store.
  \<^item> \<open>Frame\<close> (\<open>kernel/mem/frame.c\<close>): the frame allocator with its free list, hash table of reference
    counts and emergency pool. \<open>frame_free\<close> refines a map of counts, frames have a life cycle and are
    never handed out twice. Locales \<open>frame_allocator\<close> and \<open>fresh_supply\<close> are its interface.
  \<^item> \<open>Paging\<close> (\<open>mem/page.c\<close>, \<open>mem/mem.c\<close>): the two windows in which page tables are edited through the
    recursive mapping, loads and stores by walking the tables, and ranges of pages. Mapping a page
    changes that page only; allocating a range maps free, distinct frames; freeing unmaps exactly the
    range. Locale \<open>table_window\<close> serves the current and the other address space.
  \<^item> \<open>Kernel_Heap\<close> (\<open>mem/heap.c\<close>): the bucket heap, its slabs and free lists. Allocations are disjoint,
    freeing and allocating are inverse. Locale \<open>block_allocator\<close> is its contract.
  \<^item> \<open>Address_Space\<close> (\<open>mem/space.c\<close>): creating, cloning, mapping and freeing page directories.
  \<^item> \<open>Kernel_State\<close> (\<open>inc/*.h\<close>): threads, processes, messages, resource tables and the whole state.
  \<^item> \<open>Schedule\<close> (\<open>thread/schedule.c\<close>): the queue. Round robin, insertion and removal, and two defects:
    removing the last thread and a frozen head. Locale \<open>run_queue\<close>.
  \<^item> \<open>Threads\<close> (\<open>thread/thread.c\<close>, \<open>int/set_int_stack.c\<close>): creation by message, freezing, slots and
    stacks, switching with the floating point state.
  \<^item> \<open>Interrupts\<close> (\<open>int/int_handler.c\<close>, \<open>irq\<close>): the descriptor table, interrupt lines and the timer.
  \<^item> \<open>Processes\<close> (\<open>process\<close>): identifiers, cloning, freezing, killing and resource tables. Locale \<open>id_pool\<close>
    gives the identifier invariant.
  \<^item> \<open>Syscalls\<close> and \<open>Syscall_Memory\<close> (\<open>syscall\<close>): every system call. Privilege checks, the process name,
    anonymous memory, packets and the rejection of bad messages.
  \<^item> \<open>Faults\<close> (\<open>fault\<close>): the exception handlers and the virtual 8086 monitor. A stack grows on demand.
  \<^item> \<open>Dispatch\<close> (\<open>int/int_handler.c\<close>): the entry into the kernel, with the invariant of the flags of
    every thread that is resumed.
  \<^item> \<open>Exec\<close> (\<open>exec\<close>, \<open>init/init.c\<close>): the program loader and the boot sequence with its table of handlers.

  \<^bold>\<open>The theories of the library.\<close>
  \<^item> \<open>C_String\<close> (\<open>libc/string\<close>): the string functions that work in place, on a byte memory. \<open>memmove\<close> equals
    the copy of all bytes at once, \<open>strlcpy\<close> never overruns, the bit tables of \<open>strspn\<close> and \<open>strcspn\<close> equal
    membership for 7-bit characters and are indexed out of bounds for others, \<open>strcmp\<close> is lexicographic.
  \<^item> \<open>Numbers\<close> (\<open>libc/ctype\<close>, the integer conversions of \<open>libc/stdlib\<close>, \<open>libc/stdio\<close> and \<open>kernel/debug\<close>): characters, and
    numbers as strings in both directions. \<open>strtoul\<close> reads back what \<open>__utoa\<close> writes, within 33 bytes.
  \<^item> \<open>Sorting\<close> (\<open>libc/stdlib/qsort.c\<close>, \<open>bsearch.c\<close>): \<open>qsort\<close> returns the sorted permutation for every
    array; \<open>bsearch\<close> finds what is there and never returns otherwise.
  \<^item> \<open>User_Heap\<close> and \<open>User_Heap_Rep\<close> (\<open>libc/stdlib/malloc.c\<close>, \<open>heap_node.c\<close>, \<open>libc/mem/page.c\<close>): the buddy
    heap. Its tree and free lists represent a set of held blocks; \<open>malloc\<close> and \<open>free\<close> refine adding to
    it and removing from it, and \<open>block_allocator\<close> is interpreted a second time.
  \<^item> \<open>Lookup_Table\<close> and \<open>Lookup_Table_Rep\<close> (\<open>libc/struct/table.c\<close>): the hash table of the drivers and of the object
    layer. It is a map through all its resizes and leaks no memory (locale \<open>value_map\<close>); integer keys collide.
  \<^item> \<open>C_Alloc\<close> and \<open>C_Text\<close> (\<open>libc/string\<close>): strings that live in blocks of their own, and the functions that
    allocate such strings, tied to the in-place functions of \<open>C_String\<close>.
  \<^item> \<open>Paths\<close> and \<open>Paths_Rep\<close> (\<open>libc/path\<close>): the iterator over a path, names and parents. \<open>path_simplify\<close> computes the
    normal form of the reference definition and is idempotent on it.
  \<^item> \<open>Resource_Pointer\<close>, \<open>Formatting\<close> and \<open>Formatting_Rep\<close> (\<open>libc/stdio\<close>, \<open>libc/rhombus\<close>): the interpreter of format strings, with
    all its integer, string and pointer conversions; \<open>ator\<close> reads back what \<open>rtoa\<close> writes.
  \<^item> \<open>Descriptors\<close> and \<open>Descriptors_Rep\<close> (\<open>libc/rhombus\<close>): the tables of descriptors and connections. The status that is
    requested of a driver is the union of what the descriptors of a connection need, but for one defect;
    opening and closing uses up the table of connections.
  \<^item> \<open>Messages\<close> and \<open>Messages_Rep\<close> (\<open>libc/ipc\<close>): the queues of received messages refine a list, \<open>mwait\<close> takes the first
    that matches, and an event is only accepted when its length fits the packet.
  \<^item> \<open>Streams\<close> and \<open>Streams_Rep\<close> (\<open>libc/stdio\<close>): buffered and unbuffered streams. What is written arrives in order and
    complete; locale \<open>file_driver\<close> is what the streams need of a driver, interpreted on \<open>Tmpfs\<close>.
  \<^item> \<open>Error_Strings\<close> (\<open>libc/errno\<close>): error numbers as strings and back, through a lookup table.
  \<^item> \<open>Scanning\<close> and \<open>Scanning_Rep\<close> (\<open>libc/stdio/vsscanf.c\<close>): formatted input. \<open>sscanf\<close> reads back what \<open>saprintf\<close> writes with
    the same format; field widths are off by one.
  \<^item> \<open>Environment\<close> (\<open>libc/stdlib/env.c\<close>, \<open>libc/exec/arg.c\<close>): the environment is a map that survives the start of a program, and
    so do its arguments, but for strings that start with a backspace.
  \<^item> \<open>Random_Numbers\<close> (\<open>libc/stdlib/rand.c\<close>): the generator stays inside of its state and never runs dry.
  \<^item> \<open>Calendar\<close> (\<open>libc/time\<close>, \<open>driver/time/rtc.c\<close>): \<open>mktime\<close> inverts \<open>gmtime_r\<close> where that returns, and the clock driver is right
    but for two months of leap years.

  \<^bold>\<open>The theories of the drivers.\<close>
  \<^item> \<open>Object_Index\<close> and \<open>Object_Index_Rep\<close> (\<open>librdi/robject/index.c\<close>): the hash table of search trees. Setting and looking up agree
    while trees need no inner rotation; with one, a null pointer is followed.
  \<^item> \<open>Objects\<close> and \<open>Objects_Rep\<close> (\<open>librdi/robject\<close>): objects with tables of calls, data, open connections and access rights.
    A process has the status it opened with, calls are inherited without their guards.
  \<^item> \<open>Tmpfs\<close> (\<open>driver/tmpfs\<close>): the contents of temporary files under reads, writes and truncation.
  \<^item> \<open>Driver_Core\<close> and \<open>Driver_Service\<close> (\<open>librdi/class_core.c\<close>, \<open>class_dir.c\<close>, \<open>class_link.c\<close>, \<open>class_file.c\<close>, \<open>init.c\<close>): the classes of objects with
    their calls, and the handlers of messages. \<open>Driver_Access\<close>: who may write to a file, however clients open and close it.
    \<open>Driver_Paths\<close>: the call that follows a path. \<open>Driver_Dirs\<close>: directories refine maps.
  \<^item> \<open>Pipe\<close> (\<open>driver/pipe\<close>): pipes refine queues (locale \<open>fifo\<close>), and a reader waits for its writers.
  \<^item> \<open>Window_Manager\<close> (\<open>daemon/wmanager\<close>): windows, screen, tiling, mouse and calls. \<open>Window_List\<close>: the linked list of windows. \<open>Window_Screen\<close>:
    drawing stays inside of the screen while windows overlap it. \<open>Window_Tiling\<close>: tiled windows do not overlap. \<open>Window_Calls\<close>: only
    the owner of a window changes it, the cursor stays on the screen, and two defects with memory outside of buffers.
  \<^item> \<open>Glyph_Cache\<close> (\<open>driver/fbterm/draw.c\<close>): the cache of rendered characters is transparent and keeps the most recent ones.
  \<^item> \<open>Terminal\<close> and \<open>Terminal_Rep\<close> (the rest of \<open>driver/fbterm\<close>): what is written appears in the frame buffer; typed lines are read
    whole, but in reverse, and a line that is too long is read beyond its end.
  \<^item> \<open>Input_Devices\<close> (\<open>driver/kbd\<close>, \<open>driver/mouse\<close>): the modifier keys as a state machine and the packets of the mouse.

  \<^bold>\<open>Parameters.\<close> Code outside the model is an argument: the system call stub of \<open>User_Heap\<close>, the
  comparison functions of \<open>Sorting\<close>, the outcomes of \<open>malloc\<close> and the contents of a new block wherever \<open>C_Alloc\<close> is used, the replies of drivers
  in \<open>Descriptors\<close>, what a reception or a transmission meets in \<open>Messages\<close>, the driver behind a stream, the hooks of
  objects and \<open>getuser\<close> in \<open>Objects\<close>, the conversion of floating point numbers in \<open>Formatting\<close>, the
  variable \<open>PWD\<close> in \<open>Paths\<close>, \<open>strtold\<close> in \<open>Scanning\<close>, the addresses of new objects, the numbers of functions and string constants, and the
  hooks of drivers in \<open>Driver_Core\<close> and what uses it, what happens while a reader sleeps in \<open>Pipe\<close> and \<open>Terminal\<close>, the blending of pixels in \<open>Window_Manager\<close>, the font
  library in \<open>Glyph_Cache\<close>, the registers of the clock in \<open>Calendar\<close>, and what the processor reports at boot in \<open>Exec\<close>. Input ports are a
  function in the state, output ports a log.

  \<^bold>\<open>Not modelled.\<close> Assembly (\<open>kernel/cpu\<close>, the entry stubs, the system call stubs of \<open>libc/abi\<close>, mutexes),
  the debug console but for the memory it reads and its number conversion, floating point mathematics, the opening of
  streams by name and formatted input from streams, which repeats \<open>Scanning\<close>, native file calls, signals
  and locales, the widget library, the first process, the drivers of other devices and of archives, the functions \<open>main\<close> of the drivers beside that of
  the pipe driver, which open devices and register hooks, applications and utilities, and the vendored Lua port.
\<close>

end
